(* ===== verification/Kc_Prelude.thy ===== *)
theory Kc_Prelude
  imports Main "HOL-Library.Word"
begin

text \<open>
  The prelude of the development: what the components of the repository share.
  \<^item> Go integers: \<open>int64\<close> values are HOL integers, and every Go operation that can leave the
    range is wrapped by \<open>i64\<close> (two's complement, as Go defines it).
  \<^item> Go division, which truncates towards zero.
  \<^item> SQL tables: a table is the list of its rows; the clauses of the statements the code
    issues (WHERE, SET, ORDER BY, LIMIT, the affected-row count) are the functions below.
    The order of the list is the physical order, so a theorem for every list covers every
    way a server breaks ties.
  \<^item> The generic list lemmas used by several components.
\<close>

named_theorems table_simps \<open>unfolding and frame rules for SQL tables\<close>
named_theorems cfg_simps \<open>definitions of configuration constants\<close>

unbundle bit_operations_syntax

section \<open>Go integers\<close>

type_synonym int64 = int
type_synonym int32 = int
type_synonym duration = int \<comment> \<open>\<open>time.Duration\<close>: nanoseconds in an \<open>int64\<close>\<close>

definition i64 :: "int \<Rightarrow> int64" where
  "i64 x = signed_take_bit 63 x"

definition MaxInt64 :: int64 where
  "MaxInt64 = 2 ^ 63 - 1"

definition MinInt64 :: int64 where
  "MinInt64 = - (2 ^ 63)"

definition in_i64 :: "int \<Rightarrow> bool" where
  "in_i64 x \<longleftrightarrow> MinInt64 \<le> x \<and> x \<le> MaxInt64"

lemma i64_id: "in_i64 x \<Longrightarrow> i64 x = x"
  by (simp add: i64_def in_i64_def MinInt64_def MaxInt64_def signed_take_bit_int_eq_self)

lemma i64_in_range [simp]: "in_i64 (i64 x)"
proof -
  have "- (2 ^ 63) \<le> signed_take_bit 63 x" and "signed_take_bit 63 x < 2 ^ 63"
    using signed_take_bit_int_greater_eq_minus_exp [of 63 x] signed_take_bit_int_less_exp [of 63 x]
    by simp_all
  then show ?thesis by (simp add: i64_def in_i64_def MinInt64_def MaxInt64_def)
qed

text \<open>Go's \<open>/\<close> on signed integers truncates towards zero.\<close>

definition go_div :: "int \<Rightarrow> int \<Rightarrow> int" where
  "go_div a b = sgn a * sgn b * (\<bar>a\<bar> div \<bar>b\<bar>)"

lemma go_div_nonneg: "0 \<le> a \<Longrightarrow> 0 < b \<Longrightarrow> go_div a b = a div b"
  by (cases "a = 0") (auto simp: go_div_def)

lemma go_div_neg: "a < 0 \<Longrightarrow> 0 < b \<Longrightarrow> go_div a b = - ((- a) div b)"
  by (auto simp: go_div_def)

definition nanosecond :: duration where "nanosecond = 1"
definition millisecond :: duration where "millisecond = 1000000"
definition second :: duration where "second = 1000 * 1000000"
definition minute :: duration where "minute = 60 * (1000 * 1000000)"
definition hour :: duration where "hour = 3600 * (1000 * 1000000)"

lemmas [cfg_simps] = nanosecond_def millisecond_def second_def minute_def hour_def

text \<open>\<open>Duration.Milliseconds\<close>.\<close>

definition Milliseconds :: "duration \<Rightarrow> int64" where
  "Milliseconds d = go_div d 1000000"

lemma Milliseconds_ge_1: "millisecond \<le> d \<Longrightarrow> 1 \<le> Milliseconds d"
  by (simp add: Milliseconds_def millisecond_def go_div_nonneg zdiv_mono1 [of 1000000 d 1000000, simplified])

lemma Milliseconds_mono: "0 \<le> a \<Longrightarrow> a \<le> b \<Longrightarrow> Milliseconds a \<le> Milliseconds b"
  by (simp add: Milliseconds_def go_div_nonneg zdiv_mono1)

section \<open>Bit fields\<close>

lemma push_bit_or_add:
  fixes x y :: int
  assumes "0 \<le> y" and "y < 2 ^ n"
  shows "push_bit n x OR y = x * 2 ^ n + y"
proof -
  have y: "take_bit n y = y"
    using assms by (simp add: take_bit_int_eq_self)
  have "push_bit n x + y = push_bit n x OR y"
  proof (rule disjunctive_add)
    fix k
    show "\<not> bit (push_bit n x) k \<or> \<not> bit y k"
    proof (cases "n \<le> k")
      case True
      have "\<not> bit (take_bit n y) k" using True by (simp add: bit_take_bit_iff)
      then show ?thesis using y by simp
    next
      case False
      then show ?thesis by (simp add: bit_push_bit_iff)
    qed
  qed
  then show ?thesis by (simp add: push_bit_eq_mult)
qed

section \<open>SQL tables\<close>

definition sql_update :: "('r \<Rightarrow> bool) \<Rightarrow> ('r \<Rightarrow> 'r) \<Rightarrow> 'r list \<Rightarrow> 'r list" where
  "sql_update p f t = map (\<lambda>r. if p r then f r else r) t"

text \<open>
  \<open>RowsAffected\<close>: PostgreSQL counts the rows the WHERE clause matched; the MySQL driver
  counts the rows that changed unless the connection asks for found rows. \<open>found\<close> says
  which of the two the connection reports.
\<close>

definition sql_affected :: "bool \<Rightarrow> ('r \<Rightarrow> bool) \<Rightarrow> ('r \<Rightarrow> 'r) \<Rightarrow> 'r list \<Rightarrow> nat" where
  "sql_affected found p f t = length (filter (\<lambda>r. p r \<and> (found \<or> f r \<noteq> r)) t)"

definition sql_delete :: "('r \<Rightarrow> bool) \<Rightarrow> 'r list \<Rightarrow> 'r list" where
  "sql_delete p t = filter (\<lambda>r. \<not> p r) t"

definition sql_select :: "('r \<Rightarrow> bool) \<Rightarrow> ('r \<Rightarrow> 'o::linorder) \<Rightarrow> 'r list \<Rightarrow> 'r list" where
  "sql_select p key t = sort_key key (filter p t)"

definition sql_row :: "('r \<Rightarrow> bool) \<Rightarrow> 'r list \<Rightarrow> 'r option" where
  "sql_row p t = find p t"

definition pk :: "('r \<Rightarrow> 'k) \<Rightarrow> 'r list \<Rightarrow> bool" where
  "pk key t \<longleftrightarrow> distinct (map key t)"

text \<open>\<open>limit\<close> is a signed Go integer; LIMIT takes the first rows.\<close>

definition sql_limit :: "int \<Rightarrow> 'r list \<Rightarrow> 'r list" where
  "sql_limit n t = take (nat n) t"

lemma set_sql_select [table_simps]: "set (sql_select p key t) = {r \<in> set t. p r}"
  by (auto simp: sql_select_def)

lemma set_sql_limit: "r \<in> set (sql_limit n t) \<Longrightarrow> r \<in> set t"
  by (auto simp: sql_limit_def dest: in_set_takeD)

lemma length_sql_limit: "length (sql_limit n t) \<le> nat n"
  by (simp add: sql_limit_def)

lemma sql_select_distinct: "distinct t \<Longrightarrow> distinct (sql_select p key t)"
  by (simp add: sql_select_def)

lemma sql_select_sorted: "sorted (map key (sql_select p key t))"
  by (simp add: sql_select_def)

lemma set_sql_update [table_simps]:
  "set (sql_update p f t) = {if p r then f r else r | r. r \<in> set t}"
  by (auto simp: sql_update_def)

lemma sql_update_mem_iff:
  "r' \<in> set (sql_update p f t) \<longleftrightarrow> (\<exists>r \<in> set t. r' = (if p r then f r else r))"
  by (auto simp: sql_update_def)

lemma length_sql_update [simp]: "length (sql_update p f t) = length t"
  by (simp add: sql_update_def)

lemma map_key_sql_update:
  "(\<And>r. r \<in> set t \<Longrightarrow> p r \<Longrightarrow> key (f r) = key r) \<Longrightarrow> map key (sql_update p f t) = map key t"
  by (simp add: sql_update_def)

lemma pk_sql_update:
  "pk key t \<Longrightarrow> (\<And>r. r \<in> set t \<Longrightarrow> p r \<Longrightarrow> key (f r) = key r) \<Longrightarrow> pk key (sql_update p f t)"
  by (simp add: pk_def map_key_sql_update)

lemma sql_update_id: "(\<And>r. r \<in> set t \<Longrightarrow> \<not> p r) \<Longrightarrow> sql_update p f t = t"
  unfolding sql_update_def by (induction t) auto

lemma pk_sql_delete: "pk key t \<Longrightarrow> pk key (sql_delete p t)"
  by (auto simp: pk_def sql_delete_def distinct_map intro: inj_on_subset)

lemma set_sql_delete [table_simps]: "set (sql_delete p t) = {r \<in> set t. \<not> p r}"
  by (auto simp: sql_delete_def)

lemma pk_unique: "pk key t \<Longrightarrow> r \<in> set t \<Longrightarrow> s \<in> set t \<Longrightarrow> key r = key s \<Longrightarrow> r = s"
  by (auto simp: pk_def distinct_map dest: inj_onD)

lemma pk_sql_select: "pk key t \<Longrightarrow> distinct (map key (sql_select p ord t))"
  by (auto simp: pk_def sql_select_def distinct_map intro: inj_on_subset)

lemma pk_distinct: "pk key t \<Longrightarrow> distinct t"
  by (simp add: pk_def distinct_map)

lemma pk_Cons: "pk key (r # t) \<longleftrightarrow> key r \<notin> key ` set t \<and> pk key t"
  by (simp add: pk_def)

lemma pk_snoc: "pk key (t @ [r]) \<longleftrightarrow> key r \<notin> key ` set t \<and> pk key t"
  by (auto simp: pk_def)

lemma sql_row_SomeD: "sql_row p t = Some r \<Longrightarrow> r \<in> set t \<and> p r"
  by (auto simp: sql_row_def find_Some_iff in_set_conv_nth)

lemma sql_row_None: "sql_row p t = None \<longleftrightarrow> (\<forall>r \<in> set t. \<not> p r)"
  by (auto simp: sql_row_def find_None_iff)

lemma sql_row_pk:
  assumes "pk key t" and "r \<in> set t" and "key r = k"
  shows "sql_row (\<lambda>r. key r = k) t = Some r"
proof (cases "sql_row (\<lambda>r. key r = k) t")
  case None
  then show ?thesis using assms by (auto simp: sql_row_None)
next
  case (Some s)
  then have "s \<in> set t" and "key s = k" by (auto dest: sql_row_SomeD)
  then have "s = r" using assms pk_unique [of key t s r] by simp
  then show ?thesis using Some by simp
qed

text \<open>With a primary key in the WHERE clause at most one row is affected.\<close>

lemma sql_affected_pk_le_1:
  assumes "pk key t" and "\<And>r. p r \<Longrightarrow> key r = k"
  shows "sql_affected found p f t \<le> 1"
  using assms(1) unfolding sql_affected_def
proof (induction t)
  case (Cons r t)
  have "filter (\<lambda>r. p r \<and> (found \<or> f r \<noteq> r)) t = []" if "p r"
    using that Cons.prems assms(2) by (force simp: pk_Cons filter_empty_conv)
  with Cons show ?case by (auto simp: pk_Cons)
qed simp

lemma sql_affected_0:
  "sql_affected found p f t = 0 \<longleftrightarrow> (\<forall>r \<in> set t. p r \<longrightarrow> \<not> found \<and> f r = r)"
  by (auto simp: sql_affected_def filter_empty_conv)

section \<open>Generic list lemmas\<close>

lemma strict_sorted_snoc:
  fixes x :: "'a::linorder"
  shows "sorted_wrt (<) (xs @ [x]) \<longleftrightarrow> sorted_wrt (<) xs \<and> (\<forall>y \<in> set xs. y < x)"
  by (simp add: sorted_wrt_append)

end
