(* ===== verification/Kc_Id_Source.thy ===== *)
theory Kc_Id_Source
  imports Kc_Prelude
begin

text \<open>
  The contract both ID generators of \<open>src/pkg/idgen\<close> promise: a call on a legal input either
  fails or returns an identifier above every identifier returned before. The generator's
  lock makes a call atomic, so a history is the list of calls run one after another; a call
  that never returns keeps the lock and ends the history. The locale proves once that the
  identifiers of any history are strictly increasing, hence pairwise different.
\<close>

fun run_calls :: "('s \<Rightarrow> 'i \<Rightarrow> ('r \<times> 's) option) \<Rightarrow> 's \<Rightarrow> 'i list \<Rightarrow> 'r list \<times> 's" where
  "run_calls call s [] = ([], s)"
| "run_calls call s (i # is) =
     (case call s i of
        None \<Rightarrow> ([], s)
      | Some (r, s') \<Rightarrow> (case run_calls call s' is of (rs, s'') \<Rightarrow> (r # rs, s'')))"

fun returned_ids :: "('e + int) list \<Rightarrow> int list" where
  "returned_ids [] = []"
| "returned_ids (Inl e # rs) = returned_ids rs"
| "returned_ids (Inr x # rs) = x # returned_ids rs"

lemma set_returned_ids: "x \<in> set (returned_ids rs) \<longleftrightarrow> Inr x \<in> set rs"
  by (induction rs rule: returned_ids.induct) auto

locale id_source =
  fixes call :: "'s \<Rightarrow> 'i \<Rightarrow> (('e + int) \<times> 's) option"
    and ok :: "'s \<Rightarrow> bool"
    and legal :: "'i \<Rightarrow> bool"
    and fatal :: "'e \<Rightarrow> bool"
    and high :: "'s \<Rightarrow> int"
  assumes call_ok: "ok s \<Longrightarrow> legal i \<Longrightarrow> call s i = Some (r, s') \<Longrightarrow> ok s'"
    and call_id: "ok s \<Longrightarrow> legal i \<Longrightarrow> call s i = Some (Inr x, s') \<Longrightarrow> high s < x \<and> x \<le> high s'"
    and call_err: "ok s \<Longrightarrow> legal i \<Longrightarrow> call s i = Some (Inl e, s') \<Longrightarrow> \<not> fatal e \<Longrightarrow> high s \<le> high s'"
begin

lemma run_ids_above:
  assumes "ok s" and "\<forall>i \<in> set is. legal i" and "run_calls call s is = (rs, s')"
    and "\<forall>e. Inl e \<in> set rs \<longrightarrow> \<not> fatal e"
  shows "ok s' \<and> sorted_wrt (<) (returned_ids rs) \<and> (\<forall>x \<in> set (returned_ids rs). high s < x)"
  using assms
proof (induction "is" arbitrary: s rs s')
  case Nil
  then show ?case by simp
next
  case (Cons i "is")
  show ?case
  proof (cases "call s i")
    case None
    with Cons.prems show ?thesis by auto
  next
    case (Some p)
    obtain r s1 where p: "p = (r, s1)" by (cases p)
    obtain qs s2 where q: "run_calls call s1 is = (qs, s2)" by fastforce
    have rs: "rs = r # qs" and s': "s' = s2" using Cons.prems(3) Some p q by auto
    have ok1: "ok s1" using call_ok Cons.prems(1,2) Some p by auto
    have IH: "ok s2 \<and> sorted_wrt (<) (returned_ids qs) \<and> (\<forall>x \<in> set (returned_ids qs). high s1 < x)"
      using Cons.IH [OF ok1 _ q] Cons.prems(2,4) rs by auto
    show ?thesis
    proof (cases r)
      case (Inl e)
      have "high s \<le> high s1"
        using call_err [of s i e s1] Cons.prems Some p Inl rs by auto
      then show ?thesis using IH rs s' Inl by fastforce
    next
      case (Inr x)
      have "high s < x \<and> x \<le> high s1"
        using call_id [of s i x s1] Cons.prems Some p Inr by auto
      then show ?thesis using IH rs s' Inr by fastforce
    qed
  qed
qed

lemma run_ids_increasing:
  assumes "ok s" and "\<forall>i \<in> set is. legal i"
    and "\<forall>e. Inl e \<in> set (fst (run_calls call s is)) \<longrightarrow> \<not> fatal e"
  shows "sorted_wrt (<) (returned_ids (fst (run_calls call s is)))"
  using run_ids_above [OF assms(1,2), of "fst (run_calls call s is)" "snd (run_calls call s is)"] assms(3)
  by simp

lemma run_ids_distinct:
  assumes "ok s" and "\<forall>i \<in> set is. legal i"
    and "\<forall>e. Inl e \<in> set (fst (run_calls call s is)) \<longrightarrow> \<not> fatal e"
  shows "distinct (returned_ids (fst (run_calls call s is)))"
  using run_ids_increasing [OF assms] by (simp add: strict_sorted_iff)

end

end
