(* ===== verification/Kc_Text.thy ===== *)
theory Kc_Text
  imports Kc_Prelude
begin

text \<open>
  Text handling the components share: Go strings are byte strings (\<open>string\<close>, one \<open>char\<close> per
  byte), read as UTF-8 by \<open>unicode/utf8\<close> and \<open>strings\<close>. Modelled here are the functions of
  Go's standard library the sources call (\<open>utf8.ValidString\<close>, \<open>utf8.RuneCountInString\<close>,
  the test \<open>strings.TrimSpace(s) == ""\<close>, \<open>strings.ToValidUTF8\<close>, the anchored identifier
  patterns), the validators built on them, and \<open>errorText\<close> of
  \<open>src/pkg/outbox/storage.go\<close> and \<open>src/pkg/compensator/storage.go\<close>, which cut an error
  message to a byte limit without cutting a rune in two.
\<close>

section \<open>UTF-8\<close>

definition byte :: "char \<Rightarrow> nat" where
  "byte c = of_char c"

definition cont_byte :: "char \<Rightarrow> bool" where
  "cont_byte c \<longleftrightarrow> 128 \<le> byte c \<and> byte c \<le> 191"

definition byte_in :: "nat \<Rightarrow> nat \<Rightarrow> char \<Rightarrow> bool" where
  "byte_in lo hi c \<longleftrightarrow> lo \<le> byte c \<and> byte c \<le> hi"

text \<open>The four forms of a valid encoding, by the number of bytes.\<close>

fun rune1 :: "string \<Rightarrow> bool" where
  "rune1 (a # s) = (byte a < 128)"
| "rune1 s = False"

fun rune2 :: "string \<Rightarrow> bool" where
  "rune2 (a # b # s) = (byte_in 194 223 a \<and> cont_byte b)"
| "rune2 s = False"

fun rune3 :: "string \<Rightarrow> bool" where
  "rune3 (a # b # c # s) =
     ((byte a = 224 \<and> byte_in 160 191 b \<or> byte a = 237 \<and> byte_in 128 159 b
       \<or> byte_in 225 239 a \<and> byte a \<noteq> 237 \<and> cont_byte b) \<and> cont_byte c)"
| "rune3 s = False"

fun rune4 :: "string \<Rightarrow> bool" where
  "rune4 (a # b # c # d # s) =
     ((byte a = 240 \<and> byte_in 144 191 b \<or> byte_in 241 243 a \<and> cont_byte b
       \<or> byte a = 244 \<and> byte_in 128 143 b) \<and> cont_byte c \<and> cont_byte d)"
| "rune4 s = False"

text \<open>The length of the valid encoding a string starts with, 0 when it starts with none.\<close>

definition rune_size :: "string \<Rightarrow> nat" where
  "rune_size s = (if rune1 s then 1 else if rune2 s then 2 else if rune3 s then 3 else if rune4 s then 4 else 0)"

lemma rune_lengths:
  "rune1 s \<Longrightarrow> 1 \<le> length s" "rune2 s \<Longrightarrow> 2 \<le> length s" "rune3 s \<Longrightarrow> 3 \<le> length s" "rune4 s \<Longrightarrow> 4 \<le> length s"
  by (auto elim: rune1.elims rune2.elims rune3.elims rune4.elims)

lemma rune_size_le: "rune_size s \<le> length s" and rune_size_le_4: "rune_size s \<le> 4"
  using rune_lengths [of s] by (auto simp: rune_size_def)

text \<open>\<open>utf8.ValidString\<close>.\<close>

function valid_utf8 :: "string \<Rightarrow> bool" where
  "valid_utf8 s = (if s = [] then True else if rune_size s = 0 then False
                   else valid_utf8 (drop (rune_size s) s))"
  by pat_completeness auto
termination
  by (relation "measure length") auto

text \<open>\<open>utf8.RuneCountInString\<close>: a byte that starts no valid encoding counts as one rune.\<close>

function rune_count :: "string \<Rightarrow> nat" where
  "rune_count s = (if s = [] then 0 else Suc (rune_count (drop (max 1 (rune_size s)) s)))"
  by pat_completeness auto
termination
  by (relation "measure length") auto

declare valid_utf8.simps [simp del] rune_count.simps [simp del]

lemma valid_utf8_Nil [simp]: "valid_utf8 []"
  by (simp add: valid_utf8.simps)

lemma valid_utf8_ascii: "\<forall>c \<in> set s. byte c < 128 \<Longrightarrow> valid_utf8 s"
proof (induction s)
  case (Cons c s)
  have "rune_size (c # s) = 1" using Cons.prems by (simp add: rune_size_def)
  then show ?case using Cons by (simp add: valid_utf8.simps [of "c # s"])
qed simp

section \<open>Unicode white space\<close>

text \<open>The code point of the valid encoding a string starts with.\<close>

definition rune_value :: "string \<Rightarrow> nat" where
  "rune_value s =
     (let b = (\<lambda>i. byte (s ! i)) in
      if rune_size s = 1 then b 0
      else if rune_size s = 2 then (b 0 - 192) * 64 + (b 1 - 128)
      else if rune_size s = 3 then (b 0 - 224) * 4096 + (b 1 - 128) * 64 + (b 2 - 128)
      else if rune_size s = 4 then (b 0 - 240) * 262144 + (b 1 - 128) * 4096 + (b 2 - 128) * 64 + (b 3 - 128)
      else 65533)"

text \<open>\<open>unicode.IsSpace\<close>.\<close>

definition is_space :: "nat \<Rightarrow> bool" where
  "is_space r \<longleftrightarrow> r \<in> {9, 10, 11, 12, 13, 32, 133, 160, 5760, 8232, 8233, 8239, 8287, 12288}
     \<or> (8192 \<le> r \<and> r \<le> 8202)"

text \<open>\<open>strings.TrimSpace(s) == ""\<close>: trimming from the left consumes the whole string.\<close>

function blank :: "string \<Rightarrow> bool" where
  "blank s = (if s = [] then True else if is_space (rune_value s) then blank (drop (max 1 (rune_size s)) s) else False)"
  by pat_completeness auto
termination
  by (relation "measure length") auto

declare blank.simps [simp del]

lemma blank_Nil [simp]: "blank []"
  by (simp add: blank.simps)

lemma not_blank_ascii: "byte c < 128 \<Longrightarrow> \<not> is_space (byte c) \<Longrightarrow> \<not> blank (c # s)"
  by (subst blank.simps) (simp add: rune_size_def rune_value_def)

lemma rune_count_le: "rune_count s \<le> length s"
proof (induction s rule: rune_count.induct)
  case (1 s)
  show ?case
  proof (cases s)
    case (Cons a l)
    then have "rune_count (drop (max 1 (rune_size s)) s) \<le> length s - max 1 (rune_size s)" using 1 by simp
    then show ?thesis using Cons by (subst rune_count.simps) simp
  qed (simp add: rune_count.simps)
qed

text \<open>A short ASCII name that starts with a printing character passes the text checks.\<close>

lemma plain_name:
  assumes "\<forall>x \<in> set (c # s). byte x < 128" and "\<not> is_space (byte c)"
  shows "valid_utf8 (c # s) \<and> \<not> blank (c # s) \<and> rune_count (c # s) \<le> Suc (length s)"
  using assms valid_utf8_ascii [of "c # s"] not_blank_ascii [of c s] rune_count_le [of "c # s"] by simp

section \<open>SQL identifiers\<close>

definition ident_start :: "char \<Rightarrow> bool" where
  "ident_start c \<longleftrightarrow> byte_in 65 90 c \<or> byte_in 97 122 c \<or> byte c = 95"

definition ident_char :: "char \<Rightarrow> bool" where
  "ident_char c \<longleftrightarrow> ident_start c \<or> byte_in 48 57 c"

text \<open>The pattern \<open>^[A-Za-z_][A-Za-z0-9_]*$\<close>.\<close>

fun identifierPattern :: "string \<Rightarrow> bool" where
  "identifierPattern [] = False"
| "identifierPattern (c # cs) = (ident_start c \<and> list_all ident_char cs)"

text \<open>Quoting and statement characters never occur in a matching name.\<close>

lemma identifierPattern_safe:
  assumes "identifierPattern s"
  shows "CHR 0x22 \<notin> set s \<and> CHR 0x27 \<notin> set s \<and> CHR ''`'' \<notin> set s \<and> CHR '';'' \<notin> set s
    \<and> CHR '' '' \<notin> set s \<and> CHR ''.'' \<notin> set s \<and> s \<noteq> []"
proof -
  have *: "\<forall>c \<in> set s. ident_char c"
    using assms by (cases s) (auto simp: list_all_iff ident_char_def)
  then show ?thesis using assms by (auto simp: ident_char_def ident_start_def byte_in_def byte_def)
qed

section \<open>\<open>strings.ToValidUTF8\<close> and \<open>errorText\<close>\<close>

definition replacement :: string where
  "replacement = [CHR 0xEF, CHR 0xBF, CHR 0xBD]"

text \<open>\<open>ongoing\<close>: the previous byte was invalid, so its run has been replaced already.\<close>

function to_valid_utf8 :: "bool \<Rightarrow> string \<Rightarrow> string" where
  "to_valid_utf8 ongoing s =
     (if s = [] then []
      else if rune_size s = 0 then (if ongoing then [] else replacement) @ to_valid_utf8 True (drop 1 s)
      else take (rune_size s) s @ to_valid_utf8 False (drop (rune_size s) s))"
  by pat_completeness auto
termination
  by (relation "measure (\<lambda>(i, s). length s)") auto

declare to_valid_utf8.simps [simp del]

text \<open>The loop \<open>for !utf8.ValidString(text) { text = text[:len(text)-1] }\<close>.\<close>

function trim_invalid_tail :: "string \<Rightarrow> string" where
  "trim_invalid_tail s = (if valid_utf8 s then s else trim_invalid_tail (butlast s))"
  by pat_completeness auto
termination
  by (relation "measure length"; simp) (metis valid_utf8_Nil diff_less length_greater_0_conv zero_less_Suc)

declare trim_invalid_tail.simps [simp del]

definition errorText_to :: "nat \<Rightarrow> string option \<Rightarrow> string" where
  "errorText_to limit err =
     (case err of
        None \<Rightarrow> []
      | Some msg \<Rightarrow>
          (let txt = to_valid_utf8 False msg in
           if length txt \<le> limit then txt else trim_invalid_tail (take limit txt)))"

section \<open>Lemmas\<close>

lemma rune_append:
  "rune1 s \<Longrightarrow> rune1 (take 1 s @ t)"
  "rune2 s \<Longrightarrow> rune2 (take 2 s @ t) \<and> \<not> rune1 (take 2 s @ t)"
  "rune3 s \<Longrightarrow> rune3 (take 3 s @ t) \<and> \<not> rune1 (take 3 s @ t) \<and> \<not> rune2 (take 3 s @ t)"
  "rune4 s \<Longrightarrow> rune4 (take 4 s @ t) \<and> \<not> rune1 (take 4 s @ t) \<and> \<not> rune2 (take 4 s @ t) \<and> \<not> rune3 (take 4 s @ t)"
  by (auto elim!: rune1.elims rune2.elims rune3.elims rune4.elims simp: byte_in_def numeral_eq_Suc)

text \<open>The size of a rune depends on its own bytes only.\<close>

lemma rune_size_append:
  assumes "0 < rune_size s"
  shows "rune_size (take (rune_size s) s @ t) = rune_size s"
  using assms rune_append [of s t] by (simp add: rune_size_def split: if_splits)

lemma valid_utf8_rune:
  assumes "0 < rune_size s" and "valid_utf8 t"
  shows "valid_utf8 (take (rune_size s) s @ t)"
proof -
  have "length (take (rune_size s) s) = rune_size s" using rune_size_le [of s] by simp
  moreover have "take (rune_size s) s \<noteq> []" using assms(1) rune_size_le [of s] by auto
  ultimately show ?thesis
    using assms rune_size_append [OF assms(1), of t]
    by (simp add: valid_utf8.simps [of "take (rune_size s) s @ t"])
qed

lemma valid_utf8_replacement: "valid_utf8 t \<Longrightarrow> valid_utf8 (replacement @ t)"
proof -
  have "rune_size replacement = 3" by (simp add: replacement_def rune_size_def byte_in_def cont_byte_def byte_def)
  then show "valid_utf8 t \<Longrightarrow> valid_utf8 (replacement @ t)"
    using valid_utf8_rune [of replacement t] by (simp add: replacement_def)
qed

lemma valid_to_valid_utf8: "valid_utf8 (to_valid_utf8 b s)"
proof (induction b s rule: to_valid_utf8.induct)
  case (1 b s)
  then show ?case
    by (auto simp: to_valid_utf8.simps [of b s] intro: valid_utf8_rune valid_utf8_replacement)
qed

lemma valid_utf8_prefix:
  "valid_utf8 s \<Longrightarrow> n \<le> length s \<Longrightarrow> \<exists>k \<le> 3. k \<le> n \<and> valid_utf8 (take (n - k) s)"
proof (induction s arbitrary: n rule: valid_utf8.induct)
  case (1 s)
  show ?case
  proof (cases "s = []")
    case True
    with 1 show ?thesis by auto
  next
    case ne: False
    let ?m = "rune_size s"
    have m: "0 < ?m" and v: "valid_utf8 (drop ?m s)"
      using 1(2) ne by (auto simp: valid_utf8.simps [of s] split: if_splits)
    show ?thesis
    proof (cases "?m \<le> n")
      case True
      then obtain k where k: "k \<le> 3" "k \<le> n - ?m" "valid_utf8 (take (n - ?m - k) (drop ?m s))"
        using 1(1) [OF ne _ v, of "n - ?m"] m 1(3) by (auto simp: diff_le_mono)
      have "take (n - k) s = take ?m s @ take (n - ?m - k) (drop ?m s)"
        using take_add [of ?m "n - ?m - k" s] k(2) True by simp
      then show ?thesis using k valid_utf8_rune [OF m k(3)] True by (intro exI [of _ k]) auto
    next
      case False
      then show ?thesis using rune_size_le_4 [of s] by (intro exI [of _ n]) auto
    qed
  qed
qed

lemma trim_invalid_tail_props:
  "valid_utf8 (trim_invalid_tail s) \<and> (\<exists>n. trim_invalid_tail s = take n s)
   \<and> (k \<le> length s \<and> valid_utf8 (take (length s - k) s) \<longrightarrow> length s - k \<le> length (trim_invalid_tail s))"
proof (induction s arbitrary: k rule: trim_invalid_tail.induct)
  case (1 s)
  show ?case
  proof (cases "valid_utf8 s")
    case True
    then have "trim_invalid_tail s = s" by (simp add: trim_invalid_tail.simps)
    then show ?thesis using True by (auto intro: exI [of _ "length s"])
  next
    case False
    have e: "trim_invalid_tail s = trim_invalid_tail (butlast s)" using False by (simp add: trim_invalid_tail.simps [of s])
    obtain n where n: "trim_invalid_tail (butlast s) = take n (butlast s)" using 1 [OF False] by blast
    then have "trim_invalid_tail s = take (min n (length s - 1)) s" by (simp add: e butlast_conv_take)
    moreover have "length s - k \<le> length (trim_invalid_tail s)"
      if "k \<le> length s" "valid_utf8 (take (length s - k) s)"
    proof (cases k)
      case 0
      then show ?thesis using that False by simp
    next
      case (Suc j)
      then have "take (length (butlast s) - j) (butlast s) = take (length s - k) s"
        by (simp add: butlast_conv_take min_def)
      then show ?thesis using that 1 [OF False, of j] Suc e by auto
    qed
    ultimately show ?thesis using 1 [OF False] e by metis
  qed
qed

lemma errorText_to_props:
  assumes "3 \<le> limit"
  shows "valid_utf8 (errorText_to limit (Some msg))
    \<and> length (errorText_to limit (Some msg)) \<le> limit
    \<and> (\<exists>n. errorText_to limit (Some msg) = take n (to_valid_utf8 False msg))
    \<and> (limit < length (to_valid_utf8 False msg) \<longrightarrow> limit - 3 \<le> length (errorText_to limit (Some msg)))"
proof (cases "length (to_valid_utf8 False msg) \<le> limit")
  case True
  then show ?thesis
    by (auto simp: errorText_to_def valid_to_valid_utf8 intro: exI [of _ limit])
next
  case False
  let ?t = "take limit (to_valid_utf8 False msg)"
  have e: "errorText_to limit (Some msg) = trim_invalid_tail ?t" using False by (simp add: errorText_to_def)
  have len: "length ?t = limit" using False by simp
  obtain k where k: "k \<le> 3" "k \<le> limit" "valid_utf8 (take (limit - k) (to_valid_utf8 False msg))"
    using valid_utf8_prefix [OF valid_to_valid_utf8, of limit False msg] False by auto
  then have "valid_utf8 (take (length ?t - k) ?t)" using len by simp
  then have "limit - k \<le> length (trim_invalid_tail ?t)"
    using trim_invalid_tail_props [of ?t k] len k(2) by simp
  moreover obtain n where n: "trim_invalid_tail ?t = take n ?t" using trim_invalid_tail_props [of ?t 0] by blast
  moreover have "valid_utf8 (trim_invalid_tail ?t)" using trim_invalid_tail_props [of ?t 0] by blast
  ultimately show ?thesis unfolding e using k(1) by (auto intro!: exI [of _ "min n limit"])
qed

section \<open>Strings through JSON\<close>

text \<open>A string after \<open>json.Marshal\<close> and \<open>json.Unmarshal\<close>: each byte that starts no valid encoding becomes U+FFFD.\<close>

function json_text :: "string \<Rightarrow> string" where
  "json_text s =
     (if s = [] then []
      else if rune_size s = 0 then replacement @ json_text (drop 1 s)
      else take (rune_size s) s @ json_text (drop (rune_size s) s))"
  by pat_completeness auto
termination
  by (relation "measure length") auto

declare json_text.simps [simp del]

lemma json_text_code [code]:
  "json_text [] = []"
  "json_text (c # cs) =
     (let n = rune_size (c # cs) in (if n = 0 then replacement else take n (c # cs)) @ json_text (drop (max 1 n) (c # cs)))"
  by (simp_all add: json_text.simps [of "[]"] json_text.simps [of "c # cs"] Let_def max_def)

lemma json_text_utf8: "valid_utf8 (json_text s)"
proof (induction s rule: json_text.induct)
  case (1 s)
  then show ?case by (auto simp: json_text.simps [of s] intro: valid_utf8_rune valid_utf8_replacement)
qed

lemma json_text_id: "valid_utf8 s \<Longrightarrow> json_text s = s"
proof (induction s rule: json_text.induct)
  case (1 s)
  then show ?case by (cases "s = []") (auto simp: json_text_code json_text.simps [of s] valid_utf8.simps [of s] split: if_splits)
qed

lemma json_text_id_iff: "json_text s = s \<longleftrightarrow> valid_utf8 s"
  using json_text_id json_text_utf8 by metis

end
