(* ===== verification/Kc_Sql.thy ===== *)
theory Kc_Sql
  imports Kc_Text
begin

text \<open>
  What the SQL components see of the database driver. A statement either succeeds, with the
  effect its SQL text describes, or fails with a driver error and no effect. COMMIT can also
  fail after the server applied the transaction (the connection is lost before the answer):
  \<open>CommitErr e True\<close>. The classification functions are those of
  \<open>src/pkg/idgen/snowflake/storage.go\<close>, repeated verbatim in
  \<open>src/pkg/idgen/segment/storage.go\<close> and \<open>src/pkg/idempotency/storage.go\<close>.
\<close>

datatype db_error =
    MySQLError nat
  | PgError string
  | DriverError nat \<comment> \<open>any other driver error\<close>
  | CtxError \<comment> \<open>the context of the call ended\<close>

datatype commit_outcome = CommitOk | CommitErr db_error bool

text \<open>An autocommitted statement ends like a COMMIT: it can fail after the server applied it.\<close>

type_synonym exec_outcome = commit_outcome

definition committed :: "commit_outcome \<Rightarrow> 't \<Rightarrow> 't \<Rightarrow> 't" where
  "committed c t t' = (case c of CommitOk \<Rightarrow> t' | CommitErr e applied \<Rightarrow> if applied then t' else t)"

datatype driver = Pgx | MySQL

definition parse_driver :: "string \<Rightarrow> driver option" where
  "parse_driver name = (if name = ''pgx'' then Some Pgx else if name = ''mysql'' then Some MySQL else None)"

definition isDuplicateKey :: "db_error \<Rightarrow> bool" where
  "isDuplicateKey e = (case e of MySQLError n \<Rightarrow> n = 1062 | PgError c \<Rightarrow> c = ''23505'' | _ \<Rightarrow> False)"

definition isRetryableTransaction :: "db_error \<Rightarrow> bool" where
  "isRetryableTransaction e =
     (case e of
        MySQLError n \<Rightarrow> n = 1205 \<or> n = 1213
      | PgError c \<Rightarrow> c = ''40001'' \<or> c = ''40P01''
      | _ \<Rightarrow> False)"

definition isNumericOverflow :: "db_error \<Rightarrow> bool" where
  "isNumericOverflow e = (case e of PgError c \<Rightarrow> c = ''22003'' | _ \<Rightarrow> False)"

definition maxIdentifierLength :: nat where "maxIdentifierLength = 63"

text \<open>A duplicate key is never in the retryable class: the two classifications are disjoint.\<close>

lemma duplicate_not_retryable: "isDuplicateKey e \<Longrightarrow> \<not> isRetryableTransaction e"
  by (cases e) (auto simp: isDuplicateKey_def isRetryableTransaction_def)

end
