(* ===== verification/Kc_Snowflake_Node.thy ===== *)
theory Kc_Snowflake_Node
  imports Kc_Id_Source Kc_Sql
begin

text \<open>
  The Snowflake node of \<open>src/pkg/idgen/snowflake/node.go\<close>: the bit layout of an ID, the
  state of one node, and \<open>generate\<close> with every early return. The mutex makes each call
  atomic, so a call is a function from the node to a result and the next node. The clock is
  an argument: the list of the readings the call makes, the first one at its start and one
  after every \<open>sleep\<close> of the wait loop. A call that has used up its readings is still in
  the wait loop and the model returns \<open>None\<close>.
\<close>

section \<open>Constants and state\<close>

definition WorkerIDBits :: nat where "WorkerIDBits = 10"
definition SequenceBits :: nat where "SequenceBits = 12"
definition MaxWorkerID :: int64 where "MaxWorkerID = 2 ^ WorkerIDBits - 1"
definition MaxSequence :: int64 where "MaxSequence = 2 ^ SequenceBits - 1"
definition workerIDShift :: nat where "workerIDShift = SequenceBits"
definition timestampShift :: nat where "timestampShift = SequenceBits + WorkerIDBits"
definition maxTimestamp :: int64 where "maxTimestamp = 2 ^ (63 - timestampShift) - 1"
definition DefaultEpoch :: int64 where "DefaultEpoch = 1577836800000"

lemmas node_consts = WorkerIDBits_def SequenceBits_def MaxWorkerID_def MaxSequence_def
  workerIDShift_def timestampShift_def maxTimestamp_def DefaultEpoch_def

datatype snow_error =
    ErrInvalidConfig
  | ErrResourceNotFound
  | ErrClosed
  | ErrLeaseLost
  | ErrClockBackwards
  | ErrNoWorkerID
  | ErrTimestampOverflow
  | ErrDB db_error \<comment> \<open>an error of the database driver\<close>
  | ErrContext \<comment> \<open>\<open>ctx.Err()\<close>\<close>

record node =
  timestamp :: int64
  workerID :: int64
  sequence :: int64
  epoch :: int64
  retired :: bool

definition newNode :: "int64 \<Rightarrow> int64 \<Rightarrow> snow_error + node" where
  "newNode wid ep =
     (if wid < 0 \<or> wid > MaxWorkerID then Inl ErrInvalidConfig
      else Inr \<lparr>timestamp = 0, workerID = wid, sequence = 0,
                epoch = (if ep = 0 then DefaultEpoch else ep), retired = False\<rparr>)"

section \<open>Operations\<close>

text \<open>
  The inner loop: \<open>for current <= n.timestamp { sleep; current = now(); if current <
  n.timestamp return ErrClockBackwards }\<close>, over the remaining readings of the clock.
\<close>

fun wait_next_ms :: "int64 \<Rightarrow> int64 list \<Rightarrow> (snow_error + int64) option" where
  "wait_next_ms ts [] = None"
| "wait_next_ms ts (current # cs) =
     (if current < ts then Some (Inl ErrClockBackwards)
      else if current \<le> ts then wait_next_ms ts cs
      else Some (Inr current))"

text \<open>The part of \<open>generate\<close> after the sequence number has been chosen.\<close>

definition emit :: "node \<Rightarrow> int64 \<Rightarrow> (snow_error + int64) \<times> node" where
  "emit n current =
     (let elapsed = i64 (current - epoch n) in
      if elapsed < 0 then (Inl ErrInvalidConfig, n)
      else if elapsed > maxTimestamp then (Inl ErrTimestampOverflow, n)
      else (Inr (i64 (push_bit timestampShift elapsed) OR i64 (push_bit workerIDShift (workerID n)) OR sequence n),
            n\<lparr>timestamp := current\<rparr>))"

fun generate :: "node \<Rightarrow> int64 list \<Rightarrow> ((snow_error + int64) \<times> node) option" where
  "generate n [] = (if retired n then Some (Inl ErrLeaseLost, n) else None)"
| "generate n (current # cs) =
     (if retired n then Some (Inl ErrLeaseLost, n)
      else if current < timestamp n then Some (Inl ErrClockBackwards, n)
      else if current = timestamp n then
        if sequence n = MaxSequence then
          case wait_next_ms (timestamp n) cs of
            None \<Rightarrow> None
          | Some (Inl e) \<Rightarrow> Some (Inl e, n)
          | Some (Inr current') \<Rightarrow> Some (emit (n\<lparr>sequence := 0\<rparr>) current')
        else Some (emit (n\<lparr>sequence := i64 (sequence n + 1)\<rparr>) current)
      else Some (emit (n\<lparr>sequence := 0\<rparr>) current))"

definition latestTimestamp :: "node \<Rightarrow> int64" where
  "latestTimestamp n = timestamp n"

definition retire :: "node \<Rightarrow> int64 \<times> node" where
  "retire n = (timestamp n, n\<lparr>retired := True\<rparr>)"

definition getTimeFromID :: "node \<Rightarrow> int64 \<Rightarrow> int64" where
  "getTimeFromID n ident = i64 (drop_bit timestampShift ident + epoch n)"

section \<open>Invariant and layout\<close>

definition node_ok :: "node \<Rightarrow> bool" where
  "node_ok n \<longleftrightarrow> 0 \<le> workerID n \<and> workerID n \<le> MaxWorkerID \<and> 0 \<le> sequence n \<and> sequence n \<le> MaxSequence
     \<and> 0 \<le> timestamp n \<and> timestamp n \<le> MaxInt64 \<and> 0 \<le> epoch n \<and> epoch n \<le> MaxInt64"

text \<open>Readings of a clock that stands after 1970, in the range of \<open>UnixMilli\<close>.\<close>

definition clock_ok :: "int64 list \<Rightarrow> bool" where
  "clock_ok cs \<longleftrightarrow> (\<forall>c \<in> set cs. 0 \<le> c \<and> c \<le> MaxInt64)"

text \<open>The ID as a mixed-radix number, and the largest ID the node can have returned so far.\<close>

definition layout :: "int64 \<Rightarrow> int64 \<Rightarrow> int64 \<Rightarrow> int64" where
  "layout elapsed wid sq = elapsed * 2 ^ 22 + wid * 2 ^ 12 + sq"

definition high_id :: "node \<Rightarrow> int64" where
  "high_id n = (if timestamp n < epoch n then -1 else layout (timestamp n - epoch n) (workerID n) (sequence n))"

lemma layout_or:
  assumes "0 \<le> e" "e \<le> maxTimestamp" "0 \<le> w" "w \<le> MaxWorkerID" "0 \<le> q" "q \<le> MaxSequence"
  shows "i64 (push_bit timestampShift e) OR i64 (push_bit workerIDShift w) OR q = layout e w q"
proof -
  have e: "i64 (push_bit timestampShift e) = push_bit 22 e"
    using assms by (subst i64_id) (auto simp: node_consts in_i64_def MinInt64_def MaxInt64_def push_bit_eq_mult)
  have w: "i64 (push_bit workerIDShift w) = push_bit 12 w"
    using assms by (subst i64_id) (auto simp: node_consts in_i64_def MinInt64_def MaxInt64_def push_bit_eq_mult)
  have inner: "push_bit 12 w OR q = w * 2 ^ 12 + q"
    using assms by (intro push_bit_or_add) (auto simp: node_consts)
  have "push_bit 22 e OR (w * 2 ^ 12 + q) = e * 2 ^ 22 + (w * 2 ^ 12 + q)"
    using assms by (intro push_bit_or_add) (auto simp: node_consts)
  then show ?thesis by (simp add: e w layout_def inner)
qed

lemma layout_fields:
  assumes "0 \<le> w" "w \<le> MaxWorkerID" "0 \<le> q" "q \<le> MaxSequence"
  shows "drop_bit 22 (layout e w q) = e"
    and "drop_bit 12 (layout e w q) mod 1024 = w"
    and "layout e w q mod 4096 = q"
proof -
  have b: "0 \<le> w" "w < 1024" "0 \<le> q" "q < 4096" using assms by (auto simp: node_consts)
  have l: "layout e w q = (e * 1024 + w) * 4096 + q" by (simp add: layout_def)
  show "layout e w q mod 4096 = q" unfolding l using b by (simp only: mod_mult_self3 mod_pos_pos_trivial)
  have d12: "layout e w q div 4096 = e * 1024 + w" unfolding l using b
    by (subst div_mult_self3) (auto simp: div_pos_pos_trivial)
  then show "drop_bit 12 (layout e w q) mod 1024 = w"
    using b by (simp add: drop_bit_eq_div)
  have "layout e w q div 4194304 = (layout e w q div 4096) div 1024"
    by (simp add: zdiv_zmult2_eq [symmetric])
  then show "drop_bit 22 (layout e w q) = e"
    using b d12 by (simp add: drop_bit_eq_div)
qed

lemma layout_range:
  assumes "0 \<le> e" "e \<le> maxTimestamp" "0 \<le> w" "w \<le> MaxWorkerID" "0 \<le> q" "q \<le> MaxSequence"
  shows "0 \<le> layout e w q" and "layout e w q \<le> MaxInt64"
  using assms by (auto simp: layout_def node_consts MaxInt64_def)

lemma layout_less_time:
  assumes "e < e'" "w \<le> MaxWorkerID" "q \<le> MaxSequence" "0 \<le> w'" "0 \<le> q'"
  shows "layout e w q < layout e' w' q'"
  using assms by (simp add: layout_def node_consts)

section \<open>Lemmas about the operations\<close>

lemma emit_Inr:
  assumes "emit n c = (Inr x, n')" and "node_ok n" and "0 \<le> c" "c \<le> MaxInt64"
  shows "x = layout (c - epoch n) (workerID n) (sequence n)" and "n' = n\<lparr>timestamp := c\<rparr>"
    and "epoch n \<le> c" and "c - epoch n \<le> maxTimestamp"
proof -
  have e: "i64 (c - epoch n) = c - epoch n"
    using assms(2-4) by (intro i64_id) (auto simp: node_ok_def in_i64_def MinInt64_def MaxInt64_def)
  have b: "0 \<le> c - epoch n" "c - epoch n \<le> maxTimestamp"
    using assms(1) by (auto simp: emit_def e Let_def split: if_splits)
  then show "epoch n \<le> c" and "c - epoch n \<le> maxTimestamp" by auto
  have "emit n c = (Inr (layout (c - epoch n) (workerID n) (sequence n)), n\<lparr>timestamp := c\<rparr>)"
    using b assms(2) layout_or [of "c - epoch n" "workerID n" "sequence n"]
    by (simp add: emit_def e Let_def node_ok_def)
  then show "x = layout (c - epoch n) (workerID n) (sequence n)" and "n' = n\<lparr>timestamp := c\<rparr>"
    using assms(1) by auto
qed

lemma emit_Inl:
  assumes "emit n c = (Inl e, n')" and "node_ok n" and "0 \<le> c" "c \<le> MaxInt64"
  shows "n' = n" and "e = ErrInvalidConfig \<and> c < epoch n \<or> e = ErrTimestampOverflow \<and> maxTimestamp < c - epoch n"
proof -
  have i: "i64 (c - epoch n) = c - epoch n"
    using assms(2-4) by (intro i64_id) (auto simp: node_ok_def in_i64_def MinInt64_def MaxInt64_def)
  show "n' = n" and "e = ErrInvalidConfig \<and> c < epoch n \<or> e = ErrTimestampOverflow \<and> maxTimestamp < c - epoch n"
    using assms(1) by (auto simp: emit_def i Let_def split: if_splits)
qed

lemma emit_ok:
  assumes "emit n c = (r, n')" and "node_ok n" and "0 \<le> c" "c \<le> MaxInt64"
  shows "node_ok n'"
  using assms by (auto simp: emit_def Let_def node_ok_def split: if_splits)

lemma wait_next_ms_Inr: "wait_next_ms ts cs = Some (Inr c) \<Longrightarrow> ts < c \<and> c \<in> set cs"
  by (induction ts cs rule: wait_next_ms.induct) (auto split: if_splits)

lemma wait_next_ms_Inl: "wait_next_ms ts cs = Some (Inl e) \<Longrightarrow> e = ErrClockBackwards \<and> (\<exists>c \<in> set cs. c < ts)"
  by (induction ts cs rule: wait_next_ms.induct) (auto split: if_splits)

lemma wait_next_ms_returns: "c \<in> set cs \<Longrightarrow> ts < c \<Longrightarrow> \<exists>r. wait_next_ms ts cs = Some r"
  by (induction ts cs rule: wait_next_ms.induct) auto

text \<open>
  Every call either leaves the node alone with an error that read nothing into the state, or
  ends in \<open>emit\<close> on a node whose sequence number is fresh for the chosen millisecond.
\<close>

lemma generate_cases:
  assumes "generate n cs = Some (r, n')"
  obtains (err) e where "r = Inl e" "n' = n" "e = ErrLeaseLost \<or> e = ErrClockBackwards"
  | (same) c where "c \<in> set cs" "c = timestamp n" "sequence n \<noteq> MaxSequence" "\<not> retired n"
      "emit (n\<lparr>sequence := i64 (sequence n + 1)\<rparr>) c = (r, n')"
  | (later) c where "c \<in> set cs" "timestamp n < c" "\<not> retired n" "emit (n\<lparr>sequence := 0\<rparr>) c = (r, n')"
proof (cases cs)
  case Nil
  with assms err show ?thesis by (auto split: if_splits)
next
  case (Cons c0 cs')
  consider "retired n" | "\<not> retired n" "c0 < timestamp n" | "\<not> retired n" "c0 = timestamp n" "sequence n = MaxSequence"
    | "\<not> retired n" "c0 = timestamp n" "sequence n \<noteq> MaxSequence" | "\<not> retired n" "timestamp n < c0"
    by linarith
  then show ?thesis
  proof cases
    case 3
    then obtain w where w: "wait_next_ms (timestamp n) cs' = Some w"
      using assms Cons by (auto split: option.splits)
    show ?thesis
    proof (cases w)
      case (Inl e)
      with 3 w assms Cons wait_next_ms_Inl [of "timestamp n" cs' e] show ?thesis by (intro err) auto
    next
      case (Inr c)
      with 3 w assms Cons wait_next_ms_Inr [of "timestamp n" cs' c] show ?thesis by (intro later) auto
    qed
  qed (use assms Cons err same later in auto)
qed

lemma node_ok_fresh_sequence:
  "node_ok n \<Longrightarrow> sequence n \<noteq> MaxSequence \<Longrightarrow> i64 (sequence n + 1) = sequence n + 1
     \<and> node_ok (n\<lparr>sequence := sequence n + 1\<rparr>)"
  "node_ok n \<Longrightarrow> node_ok (n\<lparr>sequence := 0\<rparr>)"
  by (auto simp: node_ok_def node_consts in_i64_def MinInt64_def MaxInt64_def intro!: i64_id)

lemma generate_ok:
  assumes "node_ok n" and "clock_ok cs" and "generate n cs = Some (r, n')"
  shows "node_ok n'"
  using assms(3)
proof (cases rule: generate_cases)
  case (same c)
  then show ?thesis
    using assms(1,2) node_ok_fresh_sequence emit_ok [of "n\<lparr>sequence := sequence n + 1\<rparr>" c r n']
    by (auto simp: clock_ok_def)
next
  case (later c)
  then show ?thesis
    using assms(1,2) node_ok_fresh_sequence(2) emit_ok [of "n\<lparr>sequence := 0\<rparr>" c r n']
    by (auto simp: clock_ok_def)
qed (use assms in simp)

lemma generate_frame:
  assumes "generate n cs = Some (r, n')"
  shows "workerID n' = workerID n \<and> epoch n' = epoch n \<and> retired n' = retired n"
  using assms by (cases rule: generate_cases) (auto simp: emit_def Let_def split: if_splits)

lemma generate_id:
  assumes "node_ok n" and "clock_ok cs" and "generate n cs = Some (Inr x, n')"
  shows "x = layout (timestamp n' - epoch n) (workerID n) (sequence n') \<and> timestamp n' \<in> set cs
    \<and> timestamp n \<le> timestamp n' \<and> epoch n \<le> timestamp n' \<and> timestamp n' - epoch n \<le> maxTimestamp
    \<and> (timestamp n' = timestamp n \<longrightarrow> sequence n < sequence n') \<and> \<not> retired n"
  using assms(3)
proof (cases rule: generate_cases)
  case (same c)
  then show ?thesis
    using assms(1,2) node_ok_fresh_sequence(1) [of n] emit_Inr [of "n\<lparr>sequence := sequence n + 1\<rparr>" c x n']
    by (auto simp: clock_ok_def)
next
  case (later c)
  then show ?thesis
    using assms(1,2) node_ok_fresh_sequence(2) [of n] emit_Inr [of "n\<lparr>sequence := 0\<rparr>" c x n']
    by (auto simp: clock_ok_def)
qed simp

lemma generate_high:
  assumes "node_ok n" and "clock_ok cs" and "generate n cs = Some (Inr x, n')"
  shows "high_id n < x" and "x = high_id n'"
proof -
  note g = generate_id [OF assms] and f = generate_frame [OF assms(3)] and ok' = generate_ok [OF assms]
  show x: "x = high_id n'" using g f by (simp add: high_id_def)
  show "high_id n < x"
  proof (cases "timestamp n < epoch n")
    case True
    then show ?thesis
      using x g f ok' layout_range(1) [of "timestamp n' - epoch n" "workerID n" "sequence n'"]
      by (simp add: high_id_def node_ok_def)
  next
    case False
    show ?thesis
    proof (cases "timestamp n' = timestamp n")
      case True
      then show ?thesis using False g by (simp add: high_id_def layout_def)
    next
      case ne: False
      then show ?thesis using False g ok' assms(1) f layout_less_time
        by (auto simp: high_id_def node_ok_def)
    qed
  qed
qed

lemma generate_high_err:
  assumes "node_ok n" and "clock_ok cs" and "generate n cs = Some (Inl e, n')" and "e \<noteq> ErrTimestampOverflow"
  shows "high_id n' = high_id n"
  using assms(3)
proof (cases rule: generate_cases)
  case (same c)
  then show ?thesis
    using assms(1,2,4) node_ok_fresh_sequence(1) [of n] emit_Inl [of "n\<lparr>sequence := sequence n + 1\<rparr>" c e n']
    by (auto simp: clock_ok_def high_id_def)
next
  case (later c)
  then show ?thesis
    using assms(1,2,4) node_ok_fresh_sequence(2) [of n] emit_Inl [of "n\<lparr>sequence := 0\<rparr>" c e n']
    by (auto simp: clock_ok_def high_id_def)
qed simp

interpretation snow: id_source generate node_ok clock_ok "\<lambda>e. e = ErrTimestampOverflow" high_id
  by unfold_locales (auto dest: generate_ok generate_high generate_high_err)

section \<open>Properties\<close>

text \<open>
  (C1) Any history of \<open>generate\<close> calls on one node, with arbitrary clock readings (clock steps
  backwards included) and in which no call ran past the 41-bit timestamp space, returns
  strictly increasing identifiers: no identifier is handed out twice.
\<close>

theorem generate_ids_strictly_increasing:
  assumes "node_ok n" and "\<forall>cs \<in> set css. clock_ok cs"
    and "Inl ErrTimestampOverflow \<notin> set (fst (run_calls generate n css))"
  shows "sorted_wrt (<) (returned_ids (fst (run_calls generate n css)))
    \<and> distinct (returned_ids (fst (run_calls generate n css)))"
  using assms by (auto intro!: snow.run_ids_increasing snow.run_ids_distinct)

definition demo_node :: node where
  "demo_node = \<lparr>timestamp = 1700000000000, workerID = 7, sequence = 4094, epoch = DefaultEpoch, retired = False\<rparr>"

theorem generate_ids_strictly_increasing_witness:
  "sorted_wrt (<) (returned_ids (fst (run_calls generate demo_node
      [[1700000000000], [1700000000000, 1700000000000, 1700000000001], [1699999999999]])))"
proof -
  let ?css = "[[1700000000000], [1700000000000, 1700000000000, 1700000000001], [1699999999999::int]]"
  have "node_ok demo_node" and "\<forall>cs \<in> set ?css. clock_ok cs"
    by (simp_all add: node_ok_def demo_node_def node_consts MaxInt64_def clock_ok_def)
  moreover have "fst (run_calls generate demo_node ?css) = [Inr 512389598412832767, Inr 512389598417022976, Inl ErrClockBackwards]"
    by code_simp
  ultimately show ?thesis
    using generate_ids_strictly_increasing [of demo_node ?css] by simp
qed

text \<open>
  (C2) The bit layout round-trips: an identifier returned by \<open>generate\<close> is a non-negative
  \<open>int64\<close> from which \<open>getTimeFromID\<close> recovers the very clock reading it was made at, and whose
  worker and sequence fields are the node's worker ID and sequence number.
\<close>

theorem generate_id_roundtrip:
  assumes "node_ok n" and "clock_ok cs" and "generate n cs = Some (Inr x, n')"
  shows "getTimeFromID n x = timestamp n' \<and> timestamp n' \<in> set cs
    \<and> drop_bit workerIDShift x mod (MaxWorkerID + 1) = workerID n
    \<and> x mod (MaxSequence + 1) = sequence n' \<and> 0 \<le> x \<and> x \<le> MaxInt64"
proof -
  note g = generate_id [OF assms] and ok' = generate_ok [OF assms] and f = generate_frame [OF assms(3)]
  let ?e = "timestamp n' - epoch n"
  have b: "0 \<le> workerID n" "workerID n \<le> MaxWorkerID" "0 \<le> sequence n'" "sequence n' \<le> MaxSequence"
    using assms(1) ok' by (auto simp: node_ok_def)
  note fields = layout_fields [OF b, of ?e]
  have "i64 (?e + epoch n) = timestamp n'"
    using ok' by (subst i64_id) (auto simp: node_ok_def in_i64_def MinInt64_def)
  then have "getTimeFromID n x = timestamp n'"
    using g fields(1) by (simp add: getTimeFromID_def timestampShift_def SequenceBits_def WorkerIDBits_def)
  moreover have "drop_bit workerIDShift x mod (MaxWorkerID + 1) = workerID n"
    using g fields(2) by (simp add: workerIDShift_def SequenceBits_def MaxWorkerID_def WorkerIDBits_def)
  moreover have "x mod (MaxSequence + 1) = sequence n'"
    using g fields(3) by (simp add: MaxSequence_def SequenceBits_def)
  moreover have "0 \<le> x \<and> x \<le> MaxInt64"
    using g layout_range [OF _ _ b, of ?e] by auto
  ultimately show ?thesis using g by simp
qed

theorem generate_id_roundtrip_witness:
  "getTimeFromID demo_node 512389598412832767 = 1700000000000"
proof -
  have ok: "node_ok demo_node" "clock_ok [1700000000000]"
    by (simp_all add: node_ok_def demo_node_def node_consts MaxInt64_def clock_ok_def)
  have g: "generate demo_node [1700000000000] =
      Some (Inr 512389598412832767, demo_node\<lparr>sequence := 4095\<rparr>)"
    by code_simp
  show ?thesis using generate_id_roundtrip [OF ok g] by (simp add: demo_node_def)
qed

text \<open>
  (C3) \<open>generate\<close> always returns once the clock passes the node's timestamp: if any reading of
  the call is later than the last used millisecond, the wait loop ends, whatever the other
  readings are; and a call that does not start in an exhausted millisecond needs one reading.
\<close>

theorem generate_returns:
  "(c \<in> set cs \<and> timestamp n < c \<longrightarrow> (\<exists>r. generate n cs = Some r))
   \<and> (sequence n \<noteq> MaxSequence \<longrightarrow> (\<exists>r. generate n (c # cs) = Some r))"
proof
  show "c \<in> set cs \<and> timestamp n < c \<longrightarrow> (\<exists>r. generate n cs = Some r)"
  proof (cases cs)
    case (Cons c0 cs')
    then show ?thesis using wait_next_ms_returns [of c cs' "timestamp n"]
      by (auto split: option.splits sum.splits)
  qed simp
qed simp

theorem generate_returns_witness:
  "\<exists>r. generate (demo_node\<lparr>sequence := 4095\<rparr>) [1700000000000, 1700000000000, 1700000000001] = Some r"
  using generate_returns [of 1700000000001 "[1700000000000, 1700000000000, 1700000000001]" "demo_node\<lparr>sequence := 4095\<rparr>"]
  by (simp add: demo_node_def)

section \<open>A clock that leaves the range and comes back\<close>

lemma generate_overflow:
  assumes "node_ok n" and "\<not> retired n" and "timestamp n < late" and "late \<le> MaxInt64" and "maxTimestamp < late - epoch n"
  shows "generate n [late] = Some (Inl ErrTimestampOverflow, n\<lparr>sequence := 0\<rparr>)"
proof -
  have "i64 (late - epoch n) = late - epoch n"
    using assms by (intro i64_id) (auto simp: node_ok_def in_i64_def MinInt64_def MaxInt64_def)
  moreover have "0 \<le> maxTimestamp" by (simp add: node_consts)
  ultimately show ?thesis using assms by (simp add: emit_def Let_def)
qed

lemma generate_same_ms:
  assumes "node_ok n" and "\<not> retired n" and "epoch n \<le> timestamp n" and "timestamp n - epoch n \<le> maxTimestamp" and "sequence n < MaxSequence"
  shows "generate n [timestamp n] =
    Some (Inr (layout (timestamp n - epoch n) (workerID n) (sequence n + 1)), n\<lparr>sequence := sequence n + 1\<rparr>)"
proof -
  note s = node_ok_fresh_sequence(1) [OF assms(1)]
  have e: "i64 (timestamp n - epoch n) = timestamp n - epoch n"
    using assms by (intro i64_id) (auto simp: node_ok_def in_i64_def MinInt64_def MaxInt64_def)
  have "emit (n\<lparr>sequence := sequence n + 1\<rparr>) (timestamp n) =
      (Inr (layout (timestamp n - epoch n) (workerID n) (sequence n + 1)), n\<lparr>sequence := sequence n + 1\<rparr>)"
    using assms layout_or [of "timestamp n - epoch n" "workerID n" "sequence n + 1"]
    by (simp add: emit_def e Let_def node_ok_def)
  then show ?thesis using assms s by simp
qed

lemma run_same_ms:
  assumes "node_ok n" and "\<not> retired n" and "epoch n \<le> timestamp n" and "timestamp n - epoch n \<le> maxTimestamp"
    and "sequence n + int k \<le> MaxSequence"
  shows "run_calls generate n (replicate k [timestamp n]) =
    (map (\<lambda>q. Inr (layout (timestamp n - epoch n) (workerID n) q)) [sequence n + 1..sequence n + int k], n\<lparr>sequence := sequence n + int k\<rparr>)"
  using assms
proof (induction k arbitrary: n)
  case (Suc k)
  let ?n = "n\<lparr>sequence := sequence n + 1\<rparr>"
  have "node_ok ?n" using Suc.prems(1,5) by (auto simp: node_ok_def)
  then have "run_calls generate ?n (replicate k [timestamp n]) =
      (map (\<lambda>q. Inr (layout (timestamp n - epoch n) (workerID n) q)) [sequence n + 2..sequence n + 1 + int k], n\<lparr>sequence := sequence n + 1 + int k\<rparr>)"
    using Suc.IH [of ?n] Suc.prems by (simp add: ac_simps)
  moreover have "[sequence n + 1..sequence n + int (Suc k)] = (sequence n + 1) # [sequence n + 2..sequence n + 1 + int k]"
    by (subst upto_rec1) (simp_all add: ac_simps)
  ultimately show ?case using generate_same_ms [OF Suc.prems(1-4)] Suc.prems(5) by (simp del: generate.simps add: ac_simps)
qed simp

text \<open>
  (C4) A failed call can break uniqueness, and exactly when. Let a call on a node in any legal state return
  \<open>x\<close>, and let the clock then jump past the 41-bit range and come back to the millisecond of \<open>x\<close>:
  the late call fails with \<open>ErrTimestampOverflow\<close>, but \<open>generate\<close> has already reset the sequence number and
  leaves the timestamp alone, so the following calls in that millisecond return the identifiers with the
  sequence numbers from 1 up to that of \<open>x\<close>, which is thus returned a second time. The one
  harmless case is an \<open>x\<close> with sequence number 0.
\<close>

theorem generate_duplicate_after_overflow:
  assumes "node_ok n" and "clock_ok cs" and "generate n cs = Some (Inr x, n1)"
    and "late \<le> MaxInt64" and "maxTimestamp < late - epoch n"
  shows "run_calls generate n (cs # [late] # replicate (nat (sequence n1)) [timestamp n1]) =
      (Inr x # Inl ErrTimestampOverflow # map (\<lambda>q. Inr (layout (timestamp n1 - epoch n) (workerID n) q)) [1..sequence n1], n1)
    \<and> x = layout (timestamp n1 - epoch n) (workerID n) (sequence n1)
    \<and> (distinct (returned_ids (fst (run_calls generate n (cs # [late] # replicate (nat (sequence n1)) [timestamp n1])))) \<longleftrightarrow> sequence n1 = 0)"
    (is "?run \<and> ?x \<and> ?dup")
proof -
  note g = generate_id [OF assms(1-3)] and f = generate_frame [OF assms(3)]
  have ok: "node_ok n1" "node_ok (n1\<lparr>sequence := 0\<rparr>)"
    using generate_ok [OF assms(1-3)] by (auto simp: node_ok_def node_consts)
  let ?id = "\<lambda>q. layout (timestamp n1 - epoch n) (workerID n) q"
  have late: "generate n1 [late] = Some (Inl ErrTimestampOverflow, n1\<lparr>sequence := 0\<rparr>)"
    using assms(4,5) g f ok by (intro generate_overflow) auto
  have "run_calls generate (n1\<lparr>sequence := 0\<rparr>) (replicate (nat (sequence n1)) [timestamp n1]) =
      (map (\<lambda>q. Inr (?id q)) [1..sequence n1], n1)"
    using run_same_ms [OF ok(2), of "nat (sequence n1)"] ok(1) g f by (simp add: node_ok_def)
  then have run: ?run using assms(3) late by (simp del: generate.simps)
  have ids: "returned_ids (map (\<lambda>q. Inr (?id q)) qs) = map ?id qs" for qs :: "int list" by (induction qs) simp_all
  have "inj ?id" by (auto simp: inj_def layout_def)
  moreover have "0 \<le> sequence n1" using ok by (simp add: node_ok_def)
  ultimately have ?dup unfolding run using g by (auto simp: ids distinct_map inj_on_def)
  then show ?thesis using run g by blast
qed

theorem generate_duplicate_after_overflow_witness:
  "fst (run_calls generate (demo_node\<lparr>sequence := 0\<rparr>) [[1700000000000], [4000000000000], [1700000000000]])
    = [Inr 512389598412828673, Inl ErrTimestampOverflow, Inr 512389598412828673]"
proof -
  have ok: "node_ok (demo_node\<lparr>sequence := 0\<rparr>)" "clock_ok [1700000000000]"
    by (simp_all add: node_ok_def demo_node_def node_consts MaxInt64_def clock_ok_def)
  have g: "generate (demo_node\<lparr>sequence := 0\<rparr>) [1700000000000] = Some (Inr 512389598412828673, demo_node\<lparr>sequence := 1\<rparr>)"
    by code_simp
  have "(4000000000000 :: int) \<le> MaxInt64" "maxTimestamp < 4000000000000 - epoch (demo_node\<lparr>sequence := 0\<rparr>)"
    by (simp_all add: demo_node_def node_consts MaxInt64_def)
  note D = generate_duplicate_after_overflow [OF ok g this]
  have "timestamp (demo_node\<lparr>sequence := 1\<rparr>) = 1700000000000" by (simp add: demo_node_def)
  with conjunct1 [OF D] conjunct1 [OF conjunct2 [OF D]] show ?thesis by (simp del: run_calls.simps generate.simps)
qed

end
