(* ===== verification/Kc_Backoff.thy ===== *)
theory Kc_Backoff
  imports Kc_Prelude
begin

text \<open>
  The retry delays of the repository. Every component that retries doubles a delay up to a
  cap: \<open>backoff\<close> of \<open>src/pkg/outbox/worker.go\<close> and \<open>src/pkg/compensator/worker.go\<close> (with equal
  jitter), \<open>kafkaRetryDelay\<close> of \<open>src/pkg/infra/kafka.go\<close>, \<open>redisStreamRetryDelay\<close> of
  \<open>src/pkg/infra/redis_stream.go\<close>, \<open>nextWatchBackoff\<close> of \<open>src/pkg/registry/etcd/registry.go\<close>
  and \<open>waitAllocationRetry\<close> of \<open>src/pkg/idgen/snowflake/storage.go\<close>. The loops are written so that
  the product never overflows; the locale states that contract and what follows from it.
\<close>

section \<open>The loops\<close>

text \<open>
  \<open>for i := 1; i < attempt && delay < max; i++\<close> of the two \<open>backoff\<close> methods; the first
  argument is the number of iterations left.
\<close>

fun backoff_loop :: "nat \<Rightarrow> duration \<Rightarrow> duration \<Rightarrow> duration" where
  "backoff_loop 0 delay maximum = delay"
| "backoff_loop (Suc n) delay maximum =
     (if delay < maximum then
        (if delay > go_div maximum 2 then maximum
         else backoff_loop n (i64 (delay * 2)) maximum)
      else delay)"

text \<open>The delay before jitter: the loop and \<open>delay = min(delay, max)\<close>.\<close>

definition backoff_delay :: "duration \<Rightarrow> duration \<Rightarrow> int \<Rightarrow> duration" where
  "backoff_delay minimum maximum attempt =
     min (backoff_loop (nat (attempt - 1)) minimum maximum) maximum"

text \<open>
  The whole method: \<open>rnd\<close> is the value the random generator returns for the bound
  \<open>delay - delay/2 + 1\<close>.
\<close>

definition backoff :: "duration \<Rightarrow> duration \<Rightarrow> int \<Rightarrow> duration \<Rightarrow> duration" where
  "backoff minimum maximum attempt rnd =
     (let delay = backoff_delay minimum maximum attempt
      in max millisecond (i64 (go_div delay 2 + rnd)))"

text \<open>\<open>kafkaRetryDelay\<close> and \<open>redisStreamRetryDelay\<close>: \<open>for range attempt\<close>.\<close>

fun retryDelay_loop :: "nat \<Rightarrow> duration \<Rightarrow> duration \<Rightarrow> duration" where
  "retryDelay_loop 0 delay maximum = delay"
| "retryDelay_loop (Suc n) delay maximum =
     (if delay \<ge> maximum \<or> delay > go_div maximum 2 then maximum
      else retryDelay_loop n (i64 (delay * 2)) maximum)"

definition kafkaRetryDelay :: "duration \<Rightarrow> duration \<Rightarrow> int \<Rightarrow> duration" where
  "kafkaRetryDelay base maximum attempt = retryDelay_loop (nat attempt) base maximum"

definition redisStreamRetryDelay :: "duration \<Rightarrow> duration \<Rightarrow> int \<Rightarrow> duration" where
  "redisStreamRetryDelay base maximum attempt = retryDelay_loop (nat attempt) base maximum"

definition nextWatchBackoff :: "duration \<Rightarrow> bool \<Rightarrow> duration" where
  "nextWatchBackoff current healthy =
     (if healthy then 100 * millisecond else min (i64 (current * 2)) (5 * second))"

text \<open>The delay of \<open>waitAllocationRetry\<close>: \<open>allocationRetryBase << attempt\<close>, capped.\<close>

definition allocationRetryDelay :: "nat \<Rightarrow> duration" where
  "allocationRetryDelay attempt =
     (let delay = i64 (push_bit attempt (10 * millisecond))
      in if delay > 250 * millisecond then 250 * millisecond else delay)"

section \<open>The contract\<close>

locale capped_doubling =
  fixes delay :: "duration \<Rightarrow> duration \<Rightarrow> nat \<Rightarrow> duration"
  assumes closed_form: "0 < base \<Longrightarrow> base \<le> cap \<Longrightarrow> cap \<le> MaxInt64 \<Longrightarrow> delay base cap n = min cap (base * 2 ^ n)"
begin

lemma delay_range:
  assumes "0 < base" "base \<le> cap" "cap \<le> MaxInt64"
  shows "base \<le> delay base cap n" and "delay base cap n \<le> cap"
proof -
  have "base * 1 \<le> base * 2 ^ n" using assms by (intro mult_left_mono) auto
  then show "base \<le> delay base cap n" and "delay base cap n \<le> cap"
    using assms by (simp_all add: closed_form)
qed

lemma delay_mono:
  assumes "0 < base" "base \<le> cap" "cap \<le> MaxInt64" "m \<le> n"
  shows "delay base cap m \<le> delay base cap n"
proof -
  have "base * 2 ^ m \<le> base * 2 ^ n"
    using assms by (intro mult_left_mono power_increasing) auto
  then show ?thesis using assms by (simp add: closed_form min_le_iff_disj)
qed

lemma delay_reaches_cap:
  assumes "0 < base" "base \<le> cap" "cap \<le> MaxInt64" "63 \<le> n"
  shows "delay base cap n = cap"
proof -
  have "(2::int) ^ 63 \<le> 2 ^ n" using assms(4) by (intro power_increasing) auto
  also have "1 * 2 ^ n \<le> base * 2 ^ n" using assms(1) by (intro mult_right_mono) auto
  finally have "cap \<le> base * 2 ^ n" using assms(3) by (simp add: MaxInt64_def)
  then show ?thesis using assms by (simp add: closed_form)
qed

end

lemma double_in_i64: "0 < d \<Longrightarrow> \<not> d > go_div m 2 \<Longrightarrow> m \<le> MaxInt64 \<Longrightarrow> d \<le> m \<Longrightarrow> i64 (d * 2) = d * 2 \<and> d * 2 \<le> m"
  by (auto simp: go_div_nonneg MinInt64_def in_i64_def intro!: i64_id)

lemma half_less_double: "0 < d \<Longrightarrow> d > go_div m 2 \<Longrightarrow> d \<le> m \<Longrightarrow> m < d * 2 ^ Suc n"
proof -
  assume a: "0 < d" "d > go_div m 2" "d \<le> m"
  then have "m < d * 2" by (simp add: go_div_nonneg)
  also have "d * 2 \<le> d * 2 * 2 ^ n" using a(1) by simp
  finally show ?thesis by (simp add: mult.assoc)
qed

lemma backoff_loop_closed:
  "0 < base \<Longrightarrow> base \<le> cap \<Longrightarrow> cap \<le> MaxInt64 \<Longrightarrow> backoff_loop n base cap = min cap (base * 2 ^ n)"
proof (induction n base cap rule: backoff_loop.induct)
  case (2 n delay maximum)
  show ?case
  proof (cases "delay > go_div maximum 2")
    case True
    then show ?thesis using 2 half_less_double [of delay maximum n] by auto
  next
    case False
    then have d: "i64 (delay * 2) = delay * 2" "delay * 2 \<le> maximum"
      using double_in_i64 2 by auto
    then show ?thesis using 2 False by (auto simp: mult.assoc)
  qed
qed simp

lemma retryDelay_loop_closed:
  "0 < base \<Longrightarrow> base \<le> cap \<Longrightarrow> cap \<le> MaxInt64 \<Longrightarrow> retryDelay_loop n base cap = min cap (base * 2 ^ n)"
proof (induction n base cap rule: retryDelay_loop.induct)
  case (2 n delay maximum)
  show ?case
  proof (cases "delay \<ge> maximum \<or> delay > go_div maximum 2")
    case True
    then have "delay > go_div maximum 2" using 2 by (auto simp: go_div_nonneg)
    then show ?thesis using 2 half_less_double [of delay maximum n] by auto
  next
    case False
    then have d: "i64 (delay * 2) = delay * 2" "delay * 2 \<le> maximum"
      using double_in_i64 2 by auto
    then show ?thesis using 2 False by (auto simp: mult.assoc)
  qed
qed simp

interpretation jitter: capped_doubling "\<lambda>base cap n. backoff_delay base cap (int n + 1)"
  by unfold_locales (simp add: backoff_delay_def backoff_loop_closed)

interpretation kafka_delay: capped_doubling "\<lambda>base cap n. kafkaRetryDelay base cap (int n)"
  by unfold_locales (simp add: kafkaRetryDelay_def retryDelay_loop_closed)

interpretation redis_delay: capped_doubling "\<lambda>base cap n. redisStreamRetryDelay base cap (int n)"
  by unfold_locales (simp add: redisStreamRetryDelay_def retryDelay_loop_closed)

text \<open>The jittered delay, for the components that store it.\<close>

lemma backoff_range:
  assumes "millisecond \<le> base" and "base \<le> cap" and "cap \<le> MaxInt64" and "1 \<le> attempt"
    and "D = min cap (base * 2 ^ nat (attempt - 1))" and "0 \<le> rnd" and "rnd \<le> D - D div 2"
  shows "backoff_delay base cap attempt = D \<and> millisecond \<le> backoff base cap attempt rnd
    \<and> D div 2 \<le> backoff base cap attempt rnd \<and> backoff base cap attempt rnd \<le> D"
proof -
  have pos: "0 < base" using assms(1) by (simp add: millisecond_def)
  have D: "backoff_delay base cap attempt = D"
    using jitter.closed_form [OF pos assms(2,3), of "nat (attempt - 1)"] assms(4,5) by simp
  have ge: "base \<le> D" using jitter.delay_range(1) [OF pos assms(2,3), of "nat (attempt - 1)"] D assms(4) by simp
  have le: "D \<le> MaxInt64" using assms(3,5) by simp
  have s: "go_div D 2 + rnd \<le> D" "0 \<le> go_div D 2"
    using assms(7) ge pos by (auto simp: go_div_nonneg)
  have "i64 (go_div D 2 + rnd) = go_div D 2 + rnd"
    using s le assms(6) by (intro i64_id) (auto simp: in_i64_def MinInt64_def)
  then have r: "backoff base cap attempt rnd = max millisecond (D div 2 + rnd)"
    using D ge pos by (simp add: backoff_def go_div_nonneg)
  have "D div 2 + rnd \<le> D" using s ge pos by (simp add: go_div_nonneg)
  then show ?thesis using D r ge assms(1,6) by auto
qed

section \<open>Properties\<close>

text \<open>
  (C9) The jittered backoff of the outbox and the compensator: with a base of at least a
  millisecond and a cap not below it, the delay after the \<open>attempt\<close>-th failure is
  \<open>min cap (base * 2^(attempt-1))\<close> before jitter, computed without overflow for every attempt
  number, and what the method returns lies between half of it and all of it and is never
  shorter than a millisecond.
\<close>

theorem backoff_bounds:
  assumes "millisecond \<le> base" and "base \<le> cap" and "cap \<le> MaxInt64" and "1 \<le> attempt"
    and "D = min cap (base * 2 ^ nat (attempt - 1))" and "0 \<le> rnd" and "rnd \<le> D - D div 2"
  shows "backoff_delay base cap attempt = D \<and> millisecond \<le> backoff base cap attempt rnd
    \<and> D div 2 \<le> backoff base cap attempt rnd \<and> backoff base cap attempt rnd \<le> D"
  by (rule backoff_range [OF assms])

theorem backoff_bounds_witness:
  "backoff_delay second (5 * minute) 4 = 8 * second
   \<and> 4 * second \<le> backoff second (5 * minute) 4 1000 \<and> backoff second (5 * minute) 4 1000 \<le> 8 * second"
proof -
  have "min (5 * minute) (second * 2 ^ nat (4 - 1)) = 8 * second" and "(8 * second) div 2 = 4 * second"
    and "millisecond \<le> second" "second \<le> 5 * minute" "5 * minute \<le> MaxInt64" "(1000::int) \<le> 8 * second - 8 * second div 2"
    by (simp_all add: cfg_simps MaxInt64_def)
  then show ?thesis using backoff_bounds [of second "5 * minute" 4 "8 * second" 1000] by simp
qed

end
