(* ===== verification/Kc_Snowflake.thy ===== *)
theory Kc_Snowflake
  imports Kc_Snowflake_Node Kc_Backoff
begin

text \<open>
  The lease-protected generator of \<open>src/pkg/idgen/snowflake\<close>: the worker table and its SQL
  (\<open>storage.go\<close>), and the service that owns a lease, renews it, loses it and recovers it
  (\<open>snowflake.go\<close>).

  The worker table is the list of its rows; row \<open>-1\<close> is the coordinator row that every
  allocation locks. Each SQL transaction is one function from the table to the result and
  the next table: \<open>lockCoordinator\<close> takes the row lock first, so allocations are serialised.
  Arguments stand for the environment: the server clock, the random token, the local IP
  address, which statement fails (\<open>flt\<close>), and how COMMIT ends. \<open>tx.Rollback\<close> in the deferred
  function of \<open>allocateWorkerOnce\<close> never changes the result: after a commit it returns
  \<open>ErrTxDone\<close>, and with an error already set it is ignored.
\<close>

section \<open>Constants, rows, configuration\<close>

definition defaultTableName :: string where "defaultTableName = ''snowflake_workers''"
definition defaultHeartbeat :: duration where "defaultHeartbeat = 10 * second"
definition defaultWorkerTimeout :: duration where "defaultWorkerTimeout = 30 * second"
definition defaultSafetyThreshold :: duration where "defaultSafetyThreshold = 20 * second"
definition maxStartupClockRollback :: duration where "maxStartupClockRollback = 5 * second"
definition workerAllocationRetries :: nat where "workerAllocationRetries = 8"
definition coordinatorWorkerID :: int64 where "coordinatorWorkerID = -1"
definition coordinatorUpdatedAt :: int64 where "coordinatorUpdatedAt = MaxInt64"
definition coordinatorIPAddress :: string where "coordinatorIPAddress = ''metadata''"
definition coordinatorLeaseToken :: string where "coordinatorLeaseToken = ''snowflake-coordinator-v1''"

lemmas snow_consts = defaultHeartbeat_def defaultWorkerTimeout_def defaultSafetyThreshold_def
  maxStartupClockRollback_def workerAllocationRetries_def coordinatorWorkerID_def coordinatorLeaseToken_def

record worker_row =
  worker_id :: int64
  last_timestamp :: int64
  ip_address :: string
  updated_at :: int64
  lease_token :: string

record allocation =
  al_workerID :: int64
  al_lastTimestamp :: int64
  al_leaseToken :: string

record snow_config =
  Namespace :: string
  TableName :: string
  Epoch :: int64

record resolved_config =
  rc_namespace :: string
  rc_tableName :: string
  rc_table :: string
  rc_epoch :: int64

definition validateIdentifier :: "string \<Rightarrow> snow_error + unit" where
  "validateIdentifier v =
     (if length v > maxIdentifierLength \<or> \<not> identifierPattern v then Inl ErrInvalidConfig else Inr ())"

definition resolveConfig :: "snow_config \<Rightarrow> int64 \<Rightarrow> snow_error + resolved_config" where
  "resolveConfig config current =
     (let tableName = (if TableName config = [] then defaultTableName else TableName config) in
      case validateIdentifier tableName of Inl e \<Rightarrow> Inl e | Inr _ \<Rightarrow>
      case (if Namespace config \<noteq> [] then validateIdentifier (Namespace config) else Inr ()) of
        Inl e \<Rightarrow> Inl e
      | Inr _ \<Rightarrow>
        (let ep = (if Epoch config = 0 then DefaultEpoch else Epoch config) in
         if ep < 0 \<or> ep > current then Inl ErrInvalidConfig
         else if i64 (current - ep) > maxTimestamp then Inl ErrInvalidConfig
         else Inr \<lparr>rc_namespace = Namespace config, rc_tableName = tableName,
                    rc_table = (if Namespace config \<noteq> [] then Namespace config @ ''.'' @ tableName else tableName),
                    rc_epoch = ep\<rparr>))"

text \<open>\<open>strings.ToLower\<close> on names that passed \<open>validateIdentifier\<close> (ASCII letters).\<close>

definition lower_char :: "char \<Rightarrow> char" where
  "lower_char c = (if byte_in 65 90 c then char_of (byte c + 32) else c)"

record storage =
  st_driver :: driver
  st_namespace :: string
  st_tableName :: string
  st_table :: string

text \<open>\<open>newStorage\<close>: \<open>None\<close> is the nil database handle, \<open>Some name\<close> its driver name.\<close>

definition newStorage :: "string option \<Rightarrow> resolved_config \<Rightarrow> snow_error + storage" where
  "newStorage db config =
     (case db of
        None \<Rightarrow> Inl ErrInvalidConfig
      | Some name \<Rightarrow>
          (case parse_driver name of
             None \<Rightarrow> Inl ErrInvalidConfig
           | Some d \<Rightarrow> Inr \<lparr>st_driver = d,
               st_namespace = (if d = Pgx then map lower_char (rc_namespace config) else rc_namespace config),
               st_tableName = (if d = Pgx then map lower_char (rc_tableName config) else rc_tableName config),
               st_table = rc_table config\<rparr>))"

section \<open>Allocating a worker\<close>

datatype alloc_stmt = BeginTx | LockCoordinator | DatabaseNow | NewLeaseToken | MaxTimestampQuery
  | FindExpired | ReclaimUpdate | ListWorkers | InsertWorker

definition worker_rows :: "worker_row list \<Rightarrow> worker_row list" where
  "worker_rows t = filter (\<lambda>r. 0 \<le> worker_id r \<and> worker_id r \<le> MaxWorkerID) t"

definition lockCoordinator :: "db_error option \<Rightarrow> int64 \<Rightarrow> worker_row list \<Rightarrow> snow_error option" where
  "lockCoordinator flt ep t =
     (case flt of
        Some e \<Rightarrow> Some (ErrDB e)
      | None \<Rightarrow>
          (case sql_row (\<lambda>r. worker_id r = coordinatorWorkerID) t of
             None \<Rightarrow> Some ErrInvalidConfig
           | Some r \<Rightarrow>
               if lease_token r \<noteq> coordinatorLeaseToken then Some ErrInvalidConfig
               else if last_timestamp r \<noteq> ep then Some ErrInvalidConfig
               else None))"

text \<open>The loop over the sorted worker IDs: \<open>if workerID == nextWorkerID { nextWorkerID++ }\<close>.\<close>

fun next_free :: "int64 \<Rightarrow> int64 list \<Rightarrow> int64" where
  "next_free next [] = next"
| "next_free next (w # ws) = next_free (if w = next then next + 1 else next) ws"

definition findAvailableWorkerID :: "db_error option \<Rightarrow> worker_row list \<Rightarrow> snow_error + int64" where
  "findAvailableWorkerID flt t =
     (case flt of
        Some e \<Rightarrow> Inl (ErrDB e)
      | None \<Rightarrow>
          (let next = next_free 0 (map worker_id (sql_select (\<lambda>r. 0 \<le> worker_id r \<and> worker_id r \<le> MaxWorkerID) worker_id t))
           in if next > MaxWorkerID then Inl ErrNoWorkerID else Inr next))"

text \<open>\<open>COALESCE(MAX(last_timestamp), 0)\<close> over the worker rows.\<close>

definition max_timestamp :: "worker_row list \<Rightarrow> int64" where
  "max_timestamp t = (case map last_timestamp (worker_rows t) of [] \<Rightarrow> 0 | x # xs \<Rightarrow> fold max xs x)"

definition expired_workers :: "int64 \<Rightarrow> worker_row list \<Rightarrow> worker_row list" where
  "expired_workers now t =
     sql_select (\<lambda>r. 0 \<le> worker_id r \<and> worker_id r \<le> MaxWorkerID
                     \<and> updated_at r < now - Milliseconds defaultWorkerTimeout) updated_at t"

definition finish_commit ::
  "commit_outcome \<Rightarrow> worker_row list \<Rightarrow> worker_row list \<Rightarrow> allocation \<Rightarrow> ((snow_error \<times> bool) + allocation) \<times> worker_row list" where
  "finish_commit c t t' a =
     (case c of
        CommitOk \<Rightarrow> (Inr a, t')
      | CommitErr e applied \<Rightarrow> (Inl (ErrDB e, isDuplicateKey e), if applied then t' else t))"

definition reclaim_worker ::
  "(alloc_stmt \<Rightarrow> db_error option) \<Rightarrow> commit_outcome \<Rightarrow> int64 \<Rightarrow> int64 \<Rightarrow> string \<Rightarrow> string \<Rightarrow> worker_row \<Rightarrow> worker_row list
    \<Rightarrow> ((snow_error \<times> bool) + allocation) \<times> worker_row list" where
  "reclaim_worker flt c now globalTs token ip w t =
     (let barrier = max (last_timestamp w) (max globalTs now) in
      case flt ReclaimUpdate of
        Some e \<Rightarrow> (Inl (ErrDB e, False), t)
      | None \<Rightarrow>
          finish_commit c t
            (sql_update (\<lambda>r. worker_id r = worker_id w)
               (\<lambda>r. r\<lparr>last_timestamp := barrier, ip_address := ip, updated_at := now, lease_token := token\<rparr>) t)
            \<lparr>al_workerID = worker_id w, al_lastTimestamp = barrier, al_leaseToken = token\<rparr>)"

text \<open>The INSERT fails with a duplicate key when the primary key is already taken.\<close>

definition duplicate_error :: "driver \<Rightarrow> db_error" where
  "duplicate_error d = (case d of Pgx \<Rightarrow> PgError ''23505'' | MySQL \<Rightarrow> MySQLError 1062)"

definition insert_worker ::
  "driver \<Rightarrow> (alloc_stmt \<Rightarrow> db_error option) \<Rightarrow> commit_outcome \<Rightarrow> int64 \<Rightarrow> int64 \<Rightarrow> string \<Rightarrow> string \<Rightarrow> int64 \<Rightarrow> worker_row list
    \<Rightarrow> ((snow_error \<times> bool) + allocation) \<times> worker_row list" where
  "insert_worker d flt c now globalTs token ip wid t =
     (let barrier = max globalTs now in
      case (if wid \<in> worker_id ` set t then Some (duplicate_error d) else flt InsertWorker) of
        Some e \<Rightarrow> (Inl (ErrDB e, isDuplicateKey e), t)
      | None \<Rightarrow>
          finish_commit c t
            (t @ [\<lparr>worker_id = wid, last_timestamp = barrier, ip_address = ip, updated_at = now, lease_token = token\<rparr>])
            \<lparr>al_workerID = wid, al_lastTimestamp = barrier, al_leaseToken = token\<rparr>)"

definition allocateWorkerOnce ::
  "driver \<Rightarrow> (alloc_stmt \<Rightarrow> db_error option) \<Rightarrow> commit_outcome \<Rightarrow> int64 \<Rightarrow> string \<Rightarrow> string \<Rightarrow> int64 \<Rightarrow> worker_row list
    \<Rightarrow> ((snow_error \<times> bool) + allocation) \<times> worker_row list" where
  "allocateWorkerOnce d flt c now token ip ep t =
     (case flt BeginTx of Some e \<Rightarrow> (Inl (ErrDB e, False), t) | None \<Rightarrow>
      case lockCoordinator (flt LockCoordinator) ep t of Some e \<Rightarrow> (Inl (e, False), t) | None \<Rightarrow>
      case flt DatabaseNow of Some e \<Rightarrow> (Inl (ErrDB e, False), t) | None \<Rightarrow>
      case flt NewLeaseToken of Some e \<Rightarrow> (Inl (ErrDB e, False), t) | None \<Rightarrow>
      case flt MaxTimestampQuery of Some e \<Rightarrow> (Inl (ErrDB e, False), t) | None \<Rightarrow>
      case flt FindExpired of Some e \<Rightarrow> (Inl (ErrDB e, False), t) | None \<Rightarrow>
      case expired_workers now t of
        w # _ \<Rightarrow> reclaim_worker flt c now (max_timestamp t) token ip w t
      | [] \<Rightarrow>
          (case findAvailableWorkerID (flt ListWorkers) t of
             Inl e \<Rightarrow> (Inl (e, False), t)
           | Inr wid \<Rightarrow> insert_worker d flt c now (max_timestamp t) token ip wid t))"

text \<open>
  What one attempt of \<open>allocateWorker\<close> meets: what other processes did to the table since the
  previous attempt, its own environment, and whether the context ends in the retry wait.
\<close>

record alloc_env =
  ae_others :: "worker_row list \<Rightarrow> worker_row list"
  ae_flt :: "alloc_stmt \<Rightarrow> db_error option"
  ae_commit :: commit_outcome
  ae_now :: int64
  ae_token :: string
  ae_ip :: string
  ae_ctx_done :: bool

definition retryable_alloc :: "snow_error \<Rightarrow> bool" where
  "retryable_alloc e = (case e of ErrDB d \<Rightarrow> isRetryableTransaction d | _ \<Rightarrow> False)"

text \<open>\<open>left\<close> is the number of attempts left; \<open>attempt\<close> counts up to \<open>workerAllocationRetries\<close>.\<close>

primrec allocateWorker_from ::
  "nat \<Rightarrow> snow_error \<Rightarrow> driver \<Rightarrow> (nat \<Rightarrow> alloc_env) \<Rightarrow> int64 \<Rightarrow> worker_row list
    \<Rightarrow> (snow_error + allocation) \<times> worker_row list" where
  "allocateWorker_from 0 lastErr d env ep t = (Inl lastErr, t)"
| "allocateWorker_from (Suc n) lastErr d env ep t =
     (let attempt = workerAllocationRetries - Suc n; a = env attempt in
      case allocateWorkerOnce d (ae_flt a) (ae_commit a) (ae_now a) (ae_token a) (ae_ip a) ep (ae_others a t) of
        (Inr al, t') \<Rightarrow> (Inr al, t')
      | (Inl (e, retry), t') \<Rightarrow>
          if \<not> retry \<and> \<not> retryable_alloc e then (Inl e, t')
          else if attempt = workerAllocationRetries - 1 then (Inl e, t')
          else if ae_ctx_done a then (Inl ErrContext, t')
          else allocateWorker_from n e d env ep t')"

definition allocateWorker ::
  "driver \<Rightarrow> (nat \<Rightarrow> alloc_env) \<Rightarrow> int64 \<Rightarrow> worker_row list \<Rightarrow> (snow_error + allocation) \<times> worker_row list" where
  "allocateWorker d env ep t = allocateWorker_from workerAllocationRetries ErrContext d env ep t"

section \<open>Renewing and releasing a lease\<close>

definition owns_row :: "int64 \<Rightarrow> string \<Rightarrow> worker_row \<Rightarrow> bool" where
  "owns_row wid token r \<longleftrightarrow> 0 \<le> worker_id r \<and> worker_id r \<le> MaxWorkerID \<and> worker_id r = wid \<and> lease_token r = token"

definition heartbeat_set :: "int64 \<Rightarrow> int64 \<Rightarrow> worker_row \<Rightarrow> worker_row" where
  "heartbeat_set ts now r = r\<lparr>last_timestamp := max (last_timestamp r) (max ts now), updated_at := now\<rparr>"

text \<open>\<open>exec\<close> is how the UPDATE ends, \<open>rows\<close> the error of reading its affected rows.\<close>

definition heartbeat ::
  "bool \<Rightarrow> exec_outcome \<Rightarrow> db_error option \<Rightarrow> int64 \<Rightarrow> int64 \<Rightarrow> string \<Rightarrow> int64 \<Rightarrow> worker_row list
    \<Rightarrow> snow_error option \<times> worker_row list" where
  "heartbeat found exec rows now wid token ts t =
     (let p = owns_row wid token; f = heartbeat_set ts now; t' = committed exec t (sql_update p f t) in
      case exec of
        CommitErr e _ \<Rightarrow> (Some (ErrDB e), t')
      | CommitOk \<Rightarrow>
          (case rows of
             Some e \<Rightarrow> (Some (ErrDB e), t')
           | None \<Rightarrow> if sql_affected found p f t \<noteq> 1 then (Some ErrLeaseLost, t') else (None, t')))"

definition release_set :: "int64 \<Rightarrow> int64 \<Rightarrow> worker_row \<Rightarrow> worker_row" where
  "release_set ts now r = r\<lparr>last_timestamp := max (last_timestamp r) (max ts now), updated_at := 0\<rparr>"

definition release ::
  "exec_outcome \<Rightarrow> int64 \<Rightarrow> int64 \<Rightarrow> string \<Rightarrow> int64 \<Rightarrow> worker_row list \<Rightarrow> snow_error option \<times> worker_row list" where
  "release exec now wid token ts t =
     (case exec of CommitErr e _ \<Rightarrow> Some (ErrDB e) | CommitOk \<Rightarrow> None,
      committed exec t (sql_update (owns_row wid token) (release_set ts now) t))"

definition releaseAllocation ::
  "exec_outcome \<Rightarrow> int64 \<Rightarrow> allocation \<Rightarrow> worker_row list \<Rightarrow> snow_error option \<times> worker_row list" where
  "releaseAllocation exec now a t = release exec now (al_workerID a) (al_leaseToken a) (al_lastTimestamp a) t"

section \<open>Waiting for the clock barrier\<close>

definition startupClockWait :: "int64 \<Rightarrow> int64 \<Rightarrow> snow_error + duration" where
  "startupClockWait now lastTs =
     (if lastTs < now then Inr 0
      else let rollback = i64 (i64 (lastTs - now) * millisecond) in
           if rollback > maxStartupClockRollback then Inl ErrClockBackwards
           else Inr (i64 (rollback + millisecond)))"

text \<open>
  \<open>waitForClock\<close>: one list element per turn of the loop, the clock reading and whether the
  context ended before the timer fired. \<open>None\<close>: the loop is still waiting.
\<close>

fun waitForClock :: "int64 \<Rightarrow> (int64 \<times> bool) list \<Rightarrow> (snow_error + unit) option" where
  "waitForClock lastTs [] = None"
| "waitForClock lastTs ((now, ctx_done) # rs) =
     (case startupClockWait now lastTs of
        Inl e \<Rightarrow> Some (Inl e)
      | Inr wait \<Rightarrow>
          if wait = 0 then Some (Inr ())
          else if ctx_done then Some (Inl ErrContext)
          else waitForClock lastTs rs)"

section \<open>The service\<close>

datatype sf_state = stateActive | stateClosed | stateLeaseLost

record lease =
  ls_node :: node
  ls_workerID :: int64
  ls_token :: string

text \<open>
  \<open>sf_recover\<close> is the buffered channel of capacity one, \<open>sf_lastHeartbeat\<close> a local time in
  nanoseconds, \<open>sf_closed\<close> the result kept by \<open>closeOnce\<close>.
\<close>

record snowflake =
  sf_driver :: driver
  sf_lease :: lease
  sf_ctx_done :: bool
  sf_recover :: bool
  sf_lastHeartbeat :: "int option"
  sf_st :: sf_state
  sf_closed :: "snow_error option option"

definition recordHeartbeat :: "int \<Rightarrow> snowflake \<Rightarrow> snowflake" where
  "recordHeartbeat now s = s\<lparr>sf_lastHeartbeat := Some now\<rparr>"

definition heartbeatExpired :: "snowflake \<Rightarrow> int \<Rightarrow> bool" where
  "heartbeatExpired s now =
     (case sf_lastHeartbeat s of None \<Rightarrow> True | Some prev \<Rightarrow> now - prev > defaultSafetyThreshold)"

definition markLeaseLost :: "snowflake \<Rightarrow> bool \<times> snowflake" where
  "markLeaseLost s =
     (if sf_st s = stateActive then (True, s\<lparr>sf_st := stateLeaseLost\<rparr>) else (False, s))"

text \<open>
  \<open>Generate\<close> as one step. The guards are read one after the other, so a \<open>Close\<close> or a lost lease can come in between; the
  last operation, \<open>generate\<close>, is atomic under the lock of the node, and refuses when the node has been retired by then.
\<close>

definition Generate ::
  "snowflake option \<Rightarrow> int \<Rightarrow> int64 list \<Rightarrow> ((snow_error + int64) \<times> snowflake option) option" where
  "Generate gen now cs =
     (case gen of
        None \<Rightarrow> Some (Inl ErrClosed, None)
      | Some s \<Rightarrow>
          (case sf_st s of
             stateClosed \<Rightarrow> Some (Inl ErrClosed, Some s)
           | stateLeaseLost \<Rightarrow> Some (Inl ErrLeaseLost, Some s)
           | stateActive \<Rightarrow>
               if sf_ctx_done s then Some (Inl ErrClosed, Some s)
               else if heartbeatExpired s now then
                 (case markLeaseLost s of
                    (marked, s') \<Rightarrow> Some (Inl ErrLeaseLost, Some (if marked then s'\<lparr>sf_recover := True\<rparr> else s')))
               else
                 (case generate (ls_node (sf_lease s)) cs of
                    None \<Rightarrow> None
                  | Some (r, n') \<Rightarrow> Some (r, Some (s\<lparr>sf_lease := (sf_lease s)\<lparr>ls_node := n'\<rparr>\<rparr>)))))"

definition GetWorkerID :: "snowflake option \<Rightarrow> int64" where
  "GetWorkerID gen = (case gen of None \<Rightarrow> 0 | Some s \<Rightarrow> ls_workerID (sf_lease s))"

definition GetTimeFromID :: "snowflake option \<Rightarrow> int64 \<Rightarrow> int64" where
  "GetTimeFromID gen ident = (case gen of None \<Rightarrow> 0 | Some s \<Rightarrow> getTimeFromID (ls_node (sf_lease s)) ident)"

text \<open>What the statements of one turn of the heartbeat loop meet.\<close>

record sf_env =
  ev_found :: bool
  ev_hb_exec :: exec_outcome
  ev_hb_rows :: "db_error option"
  ev_hb_now :: int64
  ev_hb_rec :: int
  ev_ctx_done :: bool
  ev_expiry_now :: int
  ev_rel_exec :: exec_outcome
  ev_rel_now :: int64
  ev_alloc :: "nat \<Rightarrow> alloc_env"
  ev_clock :: "(int64 \<times> bool) list"
  ev_rel2_exec :: exec_outcome
  ev_rel2_now :: int64
  ev_rec_now :: int

definition updateHeartbeat :: "sf_env \<Rightarrow> snowflake \<Rightarrow> worker_row list \<Rightarrow> snow_error option \<times> snowflake \<times> worker_row list" where
  "updateHeartbeat ev s t =
     (case heartbeat (ev_found ev) (ev_hb_exec ev) (ev_hb_rows ev) (ev_hb_now ev)
             (ls_workerID (sf_lease s)) (ls_token (sf_lease s)) (latestTimestamp (ls_node (sf_lease s))) t of
        (Some e, t') \<Rightarrow> (Some e, s, t')
      | (None, t') \<Rightarrow> (None, recordHeartbeat (ev_hb_rec ev) s, t'))"

text \<open>
  \<open>recoverLease\<close>. The new node is stored before the state changes, and the old one was
  retired before its lease was released. \<open>None\<close>: still in \<open>waitForClock\<close>.
\<close>

definition recoverLease :: "sf_env \<Rightarrow> snowflake \<Rightarrow> worker_row list \<Rightarrow> (snowflake \<times> worker_row list) option" where
  "recoverLease ev s t =
     (let old = sf_lease s;
          (ts, old_node) = retire (ls_node old);
          s1 = s\<lparr>sf_lease := old\<lparr>ls_node := old_node\<rparr>\<rparr>;
          (_, t1) = releaseAllocation (ev_rel_exec ev) (ev_rel_now ev)
                      \<lparr>al_workerID = ls_workerID old, al_lastTimestamp = ts, al_leaseToken = ls_token old\<rparr> t in
      case allocateWorker (sf_driver s) (ev_alloc ev) (epoch (ls_node old)) t1 of
        (Inl e, t2) \<Rightarrow> Some (s1, t2)
      | (Inr al, t2) \<Rightarrow>
          (let giveUp = (s1, snd (releaseAllocation (ev_rel2_exec ev) (ev_rel2_now ev) al t2)) in
           case newNode (al_workerID al) (epoch (ls_node old)) of
             Inl e \<Rightarrow> Some giveUp
           | Inr n \<Rightarrow>
               (case waitForClock (al_lastTimestamp al) (ev_clock ev) of
                  None \<Rightarrow> None
                | Some (Inl e) \<Rightarrow> Some giveUp
                | Some (Inr _) \<Rightarrow>
                    (let s2 = recordHeartbeat (ev_rec_now ev)
                                (s1\<lparr>sf_lease := \<lparr>ls_node = n, ls_workerID = al_workerID al, ls_token = al_leaseToken al\<rparr>\<rparr>)
                     in Some (if sf_st s2 = stateLeaseLost then s2\<lparr>sf_st := stateActive\<rparr> else s2, t2)))))"

text \<open>
  One turn of \<open>heartbeatLoop\<close> after the select: the flag is whether the loop goes on. A turn
  started by the \<open>recover\<close> channel has emptied it.
\<close>

definition heartbeat_turn :: "sf_env \<Rightarrow> snowflake \<Rightarrow> worker_row list \<Rightarrow> (bool \<times> snowflake \<times> worker_row list) option" where
  "heartbeat_turn ev s t =
     (let (stop, s1, t1) =
        (if sf_st s = stateActive then
           (case updateHeartbeat ev s t of
              (None, s', t') \<Rightarrow> (False, s', t')
            | (Some e, s', t') \<Rightarrow>
                if ev_ctx_done ev then (True, s'\<lparr>sf_ctx_done := True\<rparr>, t')
                else if e = ErrLeaseLost then (False, snd (markLeaseLost s'), t')
                else if heartbeatExpired s' (ev_expiry_now ev) then (False, snd (markLeaseLost s'), t')
                else (False, s', t'))
         else (False, s, t)) in
      if stop then Some (False, s1, t1)
      else if sf_st s1 = stateLeaseLost then
        (case recoverLease ev s1 t1 of None \<Rightarrow> None | Some (s2, t2) \<Rightarrow> Some (True, s2, t2))
      else Some (True, s1, t1))"

text \<open>\<open>Close\<close>, after the heartbeat loop has ended; a second call returns the kept result.\<close>

definition Close ::
  "exec_outcome \<Rightarrow> int64 \<Rightarrow> snowflake option \<Rightarrow> worker_row list \<Rightarrow> snow_error option \<times> snowflake option \<times> worker_row list" where
  "Close exec now gen t =
     (case gen of
        None \<Rightarrow> (None, None, t)
      | Some s \<Rightarrow>
          (case sf_closed s of
             Some r \<Rightarrow> (r, Some s, t)
           | None \<Rightarrow>
               (let (ts, n') = retire (ls_node (sf_lease s));
                    (r, t') = release exec now (ls_workerID (sf_lease s)) (ls_token (sf_lease s)) ts t
                in (r, Some (s\<lparr>sf_st := stateClosed, sf_ctx_done := True,
                               sf_lease := (sf_lease s)\<lparr>ls_node := n'\<rparr>, sf_closed := Some r\<rparr>), t'))))"

text \<open>
  \<open>New\<close>, after \<open>ensureTable\<close> (\<open>schema.go\<close>, an argument: its error and the table it leaves).
  \<open>ctx\<close>: \<open>None\<close> is the nil context, \<open>Some True\<close> one that is already done.
\<close>

definition New ::
  "bool option \<Rightarrow> string option \<Rightarrow> snow_config \<Rightarrow> int64 \<Rightarrow> snow_error option \<Rightarrow> sf_env \<Rightarrow> worker_row list
    \<Rightarrow> ((snow_error + snowflake) \<times> worker_row list) option" where
  "New ctx db config nowMs ensure ev t =
     (case ctx of None \<Rightarrow> Some (Inl ErrInvalidConfig, t) | Some ended \<Rightarrow>
      if ended then Some (Inl ErrInvalidConfig, t)
      else case resolveConfig config nowMs of Inl e \<Rightarrow> Some (Inl e, t) | Inr rc \<Rightarrow>
      case newStorage db rc of Inl e \<Rightarrow> Some (Inl e, t) | Inr st \<Rightarrow>
      case ensure of Some e \<Rightarrow> Some (Inl e, t) | None \<Rightarrow>
      case allocateWorker (st_driver st) (ev_alloc ev) (rc_epoch rc) t of
        (Inl e, t1) \<Rightarrow> Some (Inl e, t1)
      | (Inr al, t1) \<Rightarrow>
          (let t2 = snd (releaseAllocation (ev_rel_exec ev) (ev_rel_now ev) al t1) in
           case waitForClock (al_lastTimestamp al) (ev_clock ev) of
             None \<Rightarrow> None
           | Some (Inl e) \<Rightarrow> Some (Inl e, t2)
           | Some (Inr _) \<Rightarrow>
               (case newNode (al_workerID al) (rc_epoch rc) of
                  Inl e \<Rightarrow> Some (Inl e, t2)
                | Inr n \<Rightarrow>
                    Some (Inr (recordHeartbeat (ev_rec_now ev)
                       \<lparr>sf_driver = st_driver st,
                        sf_lease = \<lparr>ls_node = n, ls_workerID = al_workerID al, ls_token = al_leaseToken al\<rparr>,
                        sf_ctx_done = False, sf_recover = False, sf_lastHeartbeat = None, sf_st = stateActive,
                        sf_closed = None\<rparr>), t1))))"

section \<open>Lemmas about allocation\<close>

lemma next_free_above: "(\<forall>w \<in> set ws. nx < w) \<Longrightarrow> next_free nx ws = nx"
  by (induction ws) auto

lemma next_free_props:
  "sorted_wrt (<) ws \<Longrightarrow> (\<forall>w \<in> set ws. nx \<le> w) \<Longrightarrow>
     nx \<le> next_free nx ws \<and> next_free nx ws \<notin> set ws \<and> (\<forall>k. nx \<le> k \<and> k < next_free nx ws \<longrightarrow> k \<in> set ws)"
proof (induction nx ws rule: next_free.induct)
  case (2 nx w ws)
  show ?case
  proof (cases "w = nx")
    case True
    then have "\<forall>x \<in> set ws. nx + 1 \<le> x" using 2(2) by auto
    then have IH: "nx + 1 \<le> next_free (nx + 1) ws" "next_free (nx + 1) ws \<notin> set ws"
        "\<And>k. nx + 1 \<le> k \<Longrightarrow> k < next_free (nx + 1) ws \<Longrightarrow> k \<in> set ws"
      using 2(1) 2(2) True by auto
    have "k \<in> set (w # ws)" if "nx \<le> k" "k < next_free (nx + 1) ws" for k
      using that IH(3) [of k] True by (cases "k = nx") auto
    then show ?thesis using IH(1,2) True by auto
  next
    case False
    then have "\<forall>x \<in> set (w # ws). nx < x" using 2(2,3) by force
    then show ?thesis using False next_free_above [of "ws" nx] by auto
  qed
qed simp

lemma sorted_worker_ids:
  assumes "pk worker_id t"
  shows "sorted_wrt (<) (map worker_id (sql_select p worker_id t))"
proof -
  have "distinct (map worker_id (filter p t))"
    using assms by (simp add: pk_def distinct_map_filter)
  then have "distinct (map worker_id (sql_select p worker_id t))"
    by (simp add: sql_select_def distinct_map)
  then show ?thesis using sql_select_sorted [of worker_id p t] by (simp add: strict_sorted_iff)
qed

lemma findAvailable_props:
  assumes "pk worker_id t" and "findAvailableWorkerID None t = r"
  shows "case r of
      Inr w \<Rightarrow> 0 \<le> w \<and> w \<le> MaxWorkerID \<and> w \<notin> worker_id ` set t \<and> (\<forall>k. 0 \<le> k \<and> k < w \<longrightarrow> k \<in> worker_id ` set t)
    | Inl e \<Rightarrow> e = ErrNoWorkerID \<and> (\<forall>k. 0 \<le> k \<and> k \<le> MaxWorkerID \<longrightarrow> k \<in> worker_id ` set t)"
proof -
  let ?p = "\<lambda>r. 0 \<le> worker_id r \<and> worker_id r \<le> MaxWorkerID"
  let ?ws = "map worker_id (sql_select ?p worker_id t)"
  let ?n = "next_free 0 ?ws"
  have ws: "set ?ws = {k \<in> worker_id ` set t. 0 \<le> k \<and> k \<le> MaxWorkerID}"
    by (auto simp: set_sql_select)
  have n: "0 \<le> ?n \<and> ?n \<notin> set ?ws \<and> (\<forall>k. 0 \<le> k \<and> k < ?n \<longrightarrow> k \<in> set ?ws)"
    by (rule next_free_props [OF sorted_worker_ids [OF assms(1)]]) (use ws in blast)
  have r: "r = (if ?n > MaxWorkerID then Inl ErrNoWorkerID else Inr ?n)"
    using assms(2) by (simp add: findAvailableWorkerID_def Let_def)
  show ?thesis
  proof (cases "?n > MaxWorkerID")
    case True
    have "k \<in> worker_id ` set t" if "0 \<le> k" "k \<le> MaxWorkerID" for k
    proof -
      have "k \<in> set ?ws" using n True that by simp
      then show ?thesis unfolding ws by simp
    qed
    then show ?thesis using r True by simp
  next
    case False
    have "?n \<notin> worker_id ` set t" using n False unfolding ws by auto
    moreover have "k \<in> worker_id ` set t" if "0 \<le> k" "k < ?n" for k
    proof -
      have "k \<in> set ?ws" using n that by simp
      then show ?thesis unfolding ws by simp
    qed
    ultimately show ?thesis using r n False by simp
  qed
qed

lemma fold_max_ge: "x \<le> fold max xs x \<and> (\<forall>y \<in> set xs. y \<le> fold max xs (x::int))"
proof (induction xs arbitrary: x)
  case (Cons a xs)
  have "max a x \<le> fold max xs (max a x)" and "\<forall>y \<in> set xs. y \<le> fold max xs (max a x)"
    using Cons [of "max a x"] by auto
  then show ?case by auto
qed simp

lemma max_timestamp_ge: "r \<in> set (worker_rows t) \<Longrightarrow> last_timestamp r \<le> max_timestamp t"
proof -
  assume r: "r \<in> set (worker_rows t)"
  then obtain x xs where m: "map last_timestamp (worker_rows t) = x # xs"
    by (cases "map last_timestamp (worker_rows t)") auto
  have "last_timestamp r \<in> set (x # xs)" using r m by (metis image_eqI list.set_map)
  then have "last_timestamp r \<le> fold max xs x" using fold_max_ge [of x xs] by auto
  then show ?thesis using m by (simp add: max_timestamp_def)
qed

text \<open>
  What a successful allocation means, whichever branch it took: \<open>barrier\<close> is the timestamp the
  new holder has to pass.
\<close>

definition allocated :: "int64 \<Rightarrow> string \<Rightarrow> allocation \<Rightarrow> worker_row list \<Rightarrow> worker_row list \<Rightarrow> bool" where
  "allocated now token a t t' \<longleftrightarrow>
     0 \<le> al_workerID a \<and> al_workerID a \<le> MaxWorkerID \<and> al_leaseToken a = token
     \<and> now \<le> al_lastTimestamp a
     \<and> (\<forall>r \<in> set (worker_rows t). last_timestamp r \<le> al_lastTimestamp a)
     \<and> (\<forall>r \<in> set t. worker_id r = al_workerID a \<longrightarrow> updated_at r < now - Milliseconds defaultWorkerTimeout)
     \<and> pk worker_id t'
     \<and> (\<exists>r \<in> set t'. worker_id r = al_workerID a \<and> lease_token r = token \<and> updated_at r = now
          \<and> last_timestamp r = al_lastTimestamp a)
     \<and> (\<forall>r. worker_id r \<noteq> al_workerID a \<longrightarrow> (r \<in> set t' \<longleftrightarrow> r \<in> set t))"

lemma reclaim_allocated:
  assumes "pk worker_id t" and "expired_workers now t = w # ws"
    and "t' = sql_update (\<lambda>r. worker_id r = worker_id w)
        (\<lambda>r. r\<lparr>last_timestamp := b, ip_address := ip, updated_at := now, lease_token := token\<rparr>) t"
    and "b = max (last_timestamp w) (max (max_timestamp t) now)"
  shows "allocated now token \<lparr>al_workerID = worker_id w, al_lastTimestamp = b, al_leaseToken = token\<rparr> t t'"
proof -
  have w: "w \<in> set t" "0 \<le> worker_id w" "worker_id w \<le> MaxWorkerID"
      "updated_at w < now - Milliseconds defaultWorkerTimeout"
    using arg_cong [OF assms(2), of set] by (auto simp: expired_workers_def set_sql_select)
  have "\<forall>r \<in> set t. worker_id r = worker_id w \<longrightarrow> r = w"
    using pk_unique [OF assms(1)] w(1) by blast
  moreover have "\<forall>r \<in> set (worker_rows t). last_timestamp r \<le> b"
    using max_timestamp_ge [of _ t] assms(4) by force
  moreover have "pk worker_id t'" using assms(1,3) by (auto intro: pk_sql_update)
  moreover have "w\<lparr>last_timestamp := b, ip_address := ip, updated_at := now, lease_token := token\<rparr> \<in> set t'"
    using w(1) assms(3) by (force simp: sql_update_def)
  then have "\<exists>r \<in> set t'. worker_id r = worker_id w \<and> lease_token r = token \<and> updated_at r = now \<and> last_timestamp r = b"
    by (intro bexI) simp_all
  moreover have "\<forall>r. worker_id r \<noteq> worker_id w \<longrightarrow> (r \<in> set t' \<longleftrightarrow> r \<in> set t)"
    unfolding assms(3) by (auto simp: sql_update_mem_iff)
  moreover have "now \<le> b" by (simp add: assms(4))
  ultimately show ?thesis using w unfolding allocated_def by auto
qed

lemma insert_allocated:
  assumes "pk worker_id t" and "findAvailableWorkerID None t = Inr wid" and "b = max (max_timestamp t) now"
    and "t' = t @ [\<lparr>worker_id = wid, last_timestamp = b, ip_address = ip, updated_at = now, lease_token = token\<rparr>]"
  shows "allocated now token \<lparr>al_workerID = wid, al_lastTimestamp = b, al_leaseToken = token\<rparr> t t'"
proof -
  have f: "0 \<le> wid" "wid \<le> MaxWorkerID" "wid \<notin> worker_id ` set t"
    using findAvailable_props [OF assms(1,2)] by auto
  moreover have "\<forall>r \<in> set (worker_rows t). last_timestamp r \<le> b"
    using max_timestamp_ge [of _ t] assms(3) by force
  ultimately show ?thesis using assms by (auto simp: allocated_def pk_snoc)
qed

lemma allocateWorkerOnce_Inr:
  assumes "pk worker_id t" and "allocateWorkerOnce d flt c now token ip ep t = (Inr a, t')"
  shows "allocated now token a t t'"
proof (cases "expired_workers now t")
  case Nil
  obtain wid where wid: "findAvailableWorkerID (flt ListWorkers) t = Inr wid"
    using assms(2) Nil by (auto simp: allocateWorkerOnce_def split: option.splits sum.splits)
  then have n: "findAvailableWorkerID None t = Inr wid"
    by (cases "flt ListWorkers") (auto simp: findAvailableWorkerID_def)
  have "insert_worker d flt c now (max_timestamp t) token ip wid t = (Inr a, t')"
    using assms(2) Nil wid by (auto simp: allocateWorkerOnce_def split: option.splits)
  then show ?thesis using insert_allocated [OF assms(1) n refl refl, where ip = ip and token = token]
    by (auto simp: insert_worker_def Let_def finish_commit_def split: option.splits commit_outcome.splits if_splits)
next
  case (Cons w ws)
  have "reclaim_worker flt c now (max_timestamp t) token ip w t = (Inr a, t')"
    using assms(2) Cons by (auto simp: allocateWorkerOnce_def split: option.splits)
  then show ?thesis using reclaim_allocated [OF assms(1) Cons refl refl, where ip = ip and token = token]
    by (auto simp: reclaim_worker_def Let_def finish_commit_def split: option.splits commit_outcome.splits)
qed

text \<open>A failed allocation leaves the table alone, unless COMMIT was applied without an answer.\<close>

lemma allocateWorkerOnce_Inl:
  assumes "pk worker_id t" and "allocateWorkerOnce d flt c now token ip ep t = (Inl e, t')"
  shows "t' = t \<or> (\<exists>a. allocated now token a t t')"
proof (cases "expired_workers now t")
  case Nil
  show ?thesis
  proof (cases "findAvailableWorkerID (flt ListWorkers) t")
    case (Inl e')
    then show ?thesis using assms(2) Nil by (auto simp: allocateWorkerOnce_def split: option.splits)
  next
    case (Inr wid)
    then have n: "findAvailableWorkerID None t = Inr wid"
      by (cases "flt ListWorkers") (auto simp: findAvailableWorkerID_def)
    show ?thesis using assms(2) Nil Inr insert_allocated [OF assms(1) n refl refl, where ip = ip and token = token]
      by (auto simp: allocateWorkerOnce_def insert_worker_def Let_def finish_commit_def
          split: option.splits commit_outcome.splits if_splits)
  qed
next
  case (Cons w ws)
  show ?thesis using assms(2) Cons reclaim_allocated [OF assms(1) Cons refl refl, where ip = ip and token = token]
    by (auto simp: allocateWorkerOnce_def reclaim_worker_def Let_def finish_commit_def
        split: option.splits commit_outcome.splits if_splits)
qed


section \<open>Lemmas about leases\<close>

lemma owns_row_id: "owns_row wid token r \<Longrightarrow> worker_id r = wid \<and> lease_token r = token"
  by (simp add: owns_row_def)

lemma heartbeat_not_owner:
  assumes "\<forall>r \<in> set t. \<not> owns_row wid token r"
  shows "heartbeat found CommitOk None now wid token ts t = (Some ErrLeaseLost, t)"
  using assms by (auto simp: heartbeat_def Let_def committed_def sql_update_id sql_affected_def filter_empty_conv)

lemma release_not_owner:
  assumes "\<forall>r \<in> set t. \<not> owns_row wid token r"
  shows "snd (release exec now wid token ts t) = t"
  using assms by (auto simp: release_def committed_def sql_update_id split: commit_outcome.splits)

lemma heartbeat_table:
  "snd (heartbeat found exec rows now wid token ts t) = t
   \<or> snd (heartbeat found exec rows now wid token ts t) = sql_update (owns_row wid token) (heartbeat_set ts now) t"
  by (auto simp: heartbeat_def Let_def committed_def split: option.splits commit_outcome.splits)

lemma heartbeat_owner_row:
  assumes "pk worker_id t" and "heartbeat found exec rows now wid token ts t = (None, t')"
  shows "\<exists>r \<in> set t. owns_row wid token r \<and> heartbeat_set ts now r \<in> set t'"
proof -
  have t': "t' = sql_update (owns_row wid token) (heartbeat_set ts now) t"
    and n: "sql_affected found (owns_row wid token) (heartbeat_set ts now) t = 1"
    using assms(2) by (auto simp: heartbeat_def Let_def committed_def split: option.splits if_splits commit_outcome.splits)
  have "\<exists>r \<in> set t. owns_row wid token r"
    using n sql_affected_0 [of found "owns_row wid token" "heartbeat_set ts now" t] by auto
  then show ?thesis unfolding t' by (force simp: sql_update_mem_iff)
qed

section \<open>Properties\<close>

text \<open>
  Worker allocation (C5). An allocation attempt that succeeds, whichever branch it took and
  whatever the environment, hands out a worker ID in range whose row either did not exist or
  had not been renewed for more than 30 seconds; the new row carries the fresh token and the
  server time; the barrier is at least the server time and every timestamp any worker has
  recorded; no other worker's row changes, and the primary key is kept. An attempt that
  reports an error leaves the table as it was, or COMMIT was applied without an answer and
  the table is that of such an allocation.
\<close>

theorem allocation_is_exclusive:
  assumes "pk worker_id t"
  shows "case allocateWorkerOnce d flt c now token ip ep t of
      (Inr a, t') \<Rightarrow> allocated now token a t t'
    | (Inl e, t') \<Rightarrow> t' = t \<or> (\<exists>a. allocated now token a t t')"
proof (cases "allocateWorkerOnce d flt c now token ip ep t")
  case (Pair r t')
  then show ?thesis
    using allocateWorkerOnce_Inr [OF assms] allocateWorkerOnce_Inl [OF assms] by (cases r) auto
qed

definition coordinator_row :: "int64 \<Rightarrow> worker_row" where
  "coordinator_row ep = \<lparr>worker_id = coordinatorWorkerID, last_timestamp = ep, ip_address = coordinatorIPAddress, updated_at = coordinatorUpdatedAt,
     lease_token = coordinatorLeaseToken\<rparr>"

definition worker_row_of :: "int64 \<Rightarrow> int64 \<Rightarrow> int64 \<Rightarrow> string \<Rightarrow> worker_row" where
  "worker_row_of w ts upd token = \<lparr>worker_id = w, last_timestamp = ts, ip_address = ''10.0.0.1'', updated_at = upd, lease_token = token\<rparr>"

definition demo_table :: "worker_row list" where
  "demo_table = [coordinator_row DefaultEpoch, worker_row_of 0 1800000000000 1800000000000 ''a'', worker_row_of 2 1800000050000 1800000040000 ''c'']"

lemmas demo_simps = demo_table_def coordinator_row_def worker_row_of_def

theorem allocation_is_exclusive_witness:
  "(case allocateWorkerOnce Pgx (\<lambda>_. None) CommitOk 1800000041000 ''new'' ''10.0.0.2'' DefaultEpoch demo_table of
      (Inr a, t') \<Rightarrow> allocated 1800000041000 ''new'' a demo_table t'
    | (Inl e, t') \<Rightarrow> t' = demo_table \<or> (\<exists>a. allocated 1800000041000 ''new'' a demo_table t'))
   \<and> fst (allocateWorkerOnce Pgx (\<lambda>_. None) CommitOk 1800000041000 ''new'' ''10.0.0.2'' DefaultEpoch demo_table)
     = Inr \<lparr>al_workerID = 0, al_lastTimestamp = 1800000050000, al_leaseToken = ''new''\<rparr>"
proof -
  have p: "pk worker_id demo_table" by (simp add: demo_simps pk_def coordinatorWorkerID_def)
  have e: "fst (allocateWorkerOnce Pgx (\<lambda>_. None) CommitOk 1800000041000 ''new'' ''10.0.0.2'' DefaultEpoch demo_table)
     = Inr \<lparr>al_workerID = 0, al_lastTimestamp = 1800000050000, al_leaseToken = ''new''\<rparr>"
    by code_simp
  show ?thesis by (intro conjI allocation_is_exclusive [OF p] e)
qed

text \<open>
  Full table. With a working database an allocation is refused with \<open>ErrNoWorkerID\<close>
  exactly when all 1024 worker IDs have a row and none of them is expired; when it inserts,
  it takes the least worker ID without a row.
\<close>

theorem allocation_least_free:
  assumes "pk worker_id t" and "coordinator_row ep \<in> set t"
  shows "(fst (allocateWorkerOnce d (\<lambda>_. None) CommitOk now token ip ep t) = Inl (ErrNoWorkerID, False)
            \<longleftrightarrow> (\<forall>k \<in> {0..MaxWorkerID}. \<exists>r \<in> set t. worker_id r = k)
               \<and> (\<forall>r \<in> set (worker_rows t). now - Milliseconds defaultWorkerTimeout \<le> updated_at r))
     \<and> (\<forall>a. fst (allocateWorkerOnce d (\<lambda>_. None) CommitOk now token ip ep t) = Inr a
            \<and> al_workerID a \<notin> worker_id ` set t
            \<longrightarrow> (\<forall>k \<in> {0..<al_workerID a}. \<exists>r \<in> set t. worker_id r = k))"
proof -
  let ?once = "allocateWorkerOnce d (\<lambda>_. None) CommitOk now token ip ep t"
  have lock: "lockCoordinator None ep t = None"
    using sql_row_pk [OF assms, of coordinatorWorkerID] by (simp add: lockCoordinator_def coordinator_row_def)
  have exp: "expired_workers now t = [] \<longleftrightarrow> (\<forall>r \<in> set (worker_rows t). now - Milliseconds defaultWorkerTimeout \<le> updated_at r)"
    using set_sql_select [of "\<lambda>r. 0 \<le> worker_id r \<and> worker_id r \<le> MaxWorkerID
        \<and> updated_at r < now - Milliseconds defaultWorkerTimeout" updated_at t]
    unfolding expired_workers_def worker_rows_def set_empty [symmetric] by auto
  show ?thesis
  proof (cases "expired_workers now t")
    case Nil
    show ?thesis
    proof (cases "findAvailableWorkerID None t")
      case (Inl e)
      then show ?thesis using findAvailable_props [OF assms(1) Inl] Nil exp lock
        by (force simp: allocateWorkerOnce_def)
    next
      case (Inr w)
      have w: "0 \<le> w" "w \<le> MaxWorkerID" "w \<notin> worker_id ` set t" "\<forall>k. 0 \<le> k \<and> k < w \<longrightarrow> k \<in> worker_id ` set t"
        using findAvailable_props [OF assms(1) Inr] by auto
      have o: "fst ?once = Inr \<lparr>al_workerID = w, al_lastTimestamp = max (max_timestamp t) now, al_leaseToken = token\<rparr>"
        using w(3) Nil Inr lock by (simp add: allocateWorkerOnce_def insert_worker_def Let_def finish_commit_def)
      have "w \<in> {0..MaxWorkerID}" and "\<not> (\<exists>r \<in> set t. worker_id r = w)" using w(1-3) by auto
      then have "\<not> (\<forall>k \<in> {0..MaxWorkerID}. \<exists>r \<in> set t. worker_id r = k)" by blast
      moreover have "\<exists>r \<in> set t. worker_id r = k" if "k \<in> {0..<w}" for k
        using w(4) that by (metis atLeastLessThan_iff imageE)
      ultimately show ?thesis unfolding o by simp
    qed
  next
    case (Cons w ws)
    have w: "w \<in> set t" using arg_cong [OF Cons, of set] by (auto simp: expired_workers_def set_sql_select)
    have o: "\<exists>b. fst ?once = Inr \<lparr>al_workerID = worker_id w, al_lastTimestamp = b, al_leaseToken = token\<rparr>"
      using Cons lock by (simp add: allocateWorkerOnce_def reclaim_worker_def Let_def finish_commit_def)
    then show ?thesis using Cons exp w by auto
  qed
qed

theorem allocation_least_free_witness:
  "pk worker_id demo_table \<and> coordinator_row DefaultEpoch \<in> set demo_table
   \<and> fst (allocateWorkerOnce MySQL (\<lambda>_. None) CommitOk 1800000000500 ''n'' ''ip'' DefaultEpoch demo_table)
       = Inr \<lparr>al_workerID = 1, al_lastTimestamp = 1800000050000, al_leaseToken = ''n''\<rparr>
   \<and> 1 \<notin> worker_id ` set demo_table \<and> (\<exists>r \<in> set demo_table. worker_id r = 0)"
proof -
  have p: "pk worker_id demo_table" by (simp add: demo_simps pk_def coordinatorWorkerID_def)
  have c: "coordinator_row DefaultEpoch \<in> set demo_table" by (simp add: demo_table_def)
  have e: "fst (allocateWorkerOnce MySQL (\<lambda>_. None) CommitOk 1800000000500 ''n'' ''ip'' DefaultEpoch demo_table)
       = Inr \<lparr>al_workerID = 1, al_lastTimestamp = 1800000050000, al_leaseToken = ''n''\<rparr>"
    by code_simp
  have n: "1 \<notin> worker_id ` set demo_table" by (simp add: demo_simps coordinatorWorkerID_def)
  have "\<exists>r \<in> set demo_table. worker_id r = 0"
    using allocation_least_free [OF p c, of MySQL 1800000000500 "''n''" "''ip''"] e n by simp
  then show ?thesis using p c e n by blast
qed

text \<open>
  Stale tokens. Once a worker's row carries another token, the old holder's heartbeat
  reports \<open>ErrLeaseLost\<close> and neither its heartbeat nor its release changes the table, in any
  environment; and a heartbeat that succeeds proves that the caller's own row was there.
\<close>

theorem stale_token_is_harmless:
  assumes "pk worker_id t" and "r \<in> set t" and "worker_id r = wid" and "lease_token r \<noteq> token"
  shows "heartbeat found CommitOk None now wid token ts t = (Some ErrLeaseLost, t)
     \<and> snd (heartbeat found exec rows now wid token ts t) = t
     \<and> snd (release exec now wid token ts t) = t
     \<and> fst (heartbeat found exec rows now wid token ts t) \<noteq> None"
proof -
  have no: "\<forall>s \<in> set t. \<not> owns_row wid token s"
    using assms pk_unique [OF assms(1)] by (metis owns_row_id)
  have "snd (heartbeat found exec rows now wid token ts t) = t"
    using heartbeat_table [of found exec rows now wid token ts t] sql_update_id [of t "owns_row wid token"] no by auto
  moreover have "fst (heartbeat found exec rows now wid token ts t) \<noteq> None"
    using heartbeat_owner_row [OF assms(1)] no by (metis prod.collapse)
  ultimately show ?thesis using heartbeat_not_owner [OF no] release_not_owner [OF no] by simp
qed

theorem stale_token_is_harmless_witness:
  "heartbeat True CommitOk None 1800000050000 2 ''old'' 1800000050001 demo_table = (Some ErrLeaseLost, demo_table)
   \<and> snd (release CommitOk 1800000050000 2 ''old'' 1800000050001 demo_table) = demo_table"
  using stale_token_is_harmless [of demo_table "worker_row_of 2 1800000050000 1800000040000 ''c''" 2 "''old''"]
  by (simp add: demo_simps pk_def coordinatorWorkerID_def)

text \<open>
  The clock barrier. \<open>waitForClock\<close> lets the caller go on only after a clock reading
  past the barrier; a reading more than five seconds behind it ends it with
  \<open>ErrClockBackwards\<close>; and it does go on at the first reading past the barrier when the
  context lives and no earlier reading is that far behind.
\<close>

theorem waitForClock_passes_barrier:
  assumes "\<forall>(now, d) \<in> set rs. lastTs - now \<le> 9000000000000 \<and> in_i64 (lastTs - now)"
  shows "(waitForClock lastTs rs = Some (Inr ()) \<longrightarrow> (\<exists>(now, d) \<in> set rs. lastTs < now))
     \<and> (waitForClock lastTs rs = Some (Inl ErrClockBackwards) \<longrightarrow> (\<exists>(now, d) \<in> set rs. now + 5000 < lastTs))
     \<and> ((\<forall>(now, d) \<in> set rs. lastTs \<le> now + 5000 \<and> \<not> d) \<and> (\<exists>(now, d) \<in> set rs. lastTs < now)
          \<longrightarrow> waitForClock lastTs rs = Some (Inr ()))"
  using assms
proof (induction lastTs rs rule: waitForClock.induct)
  case (2 lastTs now d rs)
  have r: "lastTs - now \<le> 9000000000000" "in_i64 (lastTs - now)" using 2(2) by auto
  have w: "startupClockWait now lastTs =
      (if lastTs < now then Inr 0 else if now + 5000 < lastTs then Inl ErrClockBackwards
       else Inr ((lastTs - now) * millisecond + millisecond))"
    using r by (auto simp: startupClockWait_def Let_def i64_id in_i64_def MinInt64_def MaxInt64_def
        maxStartupClockRollback_def cfg_simps)
  consider "lastTs < now" | "\<not> lastTs < now" "now + 5000 < lastTs" | "\<not> lastTs < now" "\<not> now + 5000 < lastTs" by blast
  then show ?case
  proof cases
    case 3
    then have "(lastTs - now) * millisecond + millisecond \<noteq> 0" by (simp add: millisecond_def)
    then show ?thesis using 2 3 w by auto
  qed (use w in auto)
qed simp

theorem waitForClock_passes_barrier_witness:
  "waitForClock 1000 [(998, False), (1000, False), (1001, True)] = Some (Inr ())"
  using waitForClock_passes_barrier [of "[(998, False), (1000, False), (1001, False)]" 1000]
    waitForClock_passes_barrier [of "[(998, False), (1000, False), (1001, True)]" 1000]
  by (simp add: in_i64_def MinInt64_def MaxInt64_def startupClockWait_def maxStartupClockRollback_def cfg_simps i64_def)

text \<open>
  The life of the service (C6). \<open>Generate\<close> returns an identifier only while the service is
  active, its context is alive, its node is not retired and its last recorded heartbeat is at
  most 20 seconds old; when the heartbeat is older, the service turns lease-lost and asks for
  recovery. After \<open>Close\<close> every call of \<open>Generate\<close> returns \<open>ErrClosed\<close>, the node is retired,
  and a second \<open>Close\<close> returns the first result and touches nothing.
\<close>

theorem service_life:
  shows "(\<forall>s x g. Generate (Some s) now cs = Some (Inr x, g) \<longrightarrow>
            sf_st s = stateActive \<and> \<not> sf_ctx_done s \<and> \<not> retired (ls_node (sf_lease s))
            \<and> (\<exists>h. sf_lastHeartbeat s = Some h \<and> now - h \<le> 20 * second))
     \<and> (\<forall>s. sf_st s = stateActive \<and> \<not> sf_ctx_done s \<and> heartbeatExpired s now \<longrightarrow>
            Generate (Some s) now cs = Some (Inl ErrLeaseLost, Some (s\<lparr>sf_st := stateLeaseLost, sf_recover := True\<rparr>)))
     \<and> (\<forall>s r g t' n2. sf_closed s = None \<and> Close exec n1 (Some s) t = (r, g, t') \<longrightarrow>
            Generate g now cs = Some (Inl ErrClosed, g)
            \<and> (\<exists>s'. g = Some s' \<and> retired (ls_node (sf_lease s')))
            \<and> Close exec2 n2 g t' = (r, g, t'))"
proof (intro conjI allI impI)
  fix s x g
  assume g: "Generate (Some s) now cs = Some (Inr x, g)"
  have e: "sf_st s = stateActive" "\<not> sf_ctx_done s" "\<not> heartbeatExpired s now"
    using g by (auto simp: Generate_def split: sf_state.splits if_splits prod.splits)
  then have "\<exists>n'. generate (ls_node (sf_lease s)) cs = Some (Inr x, n')"
    using g by (auto simp: Generate_def split: option.splits prod.splits)
  then have "\<not> retired (ls_node (sf_lease s))" by (cases cs) (auto split: if_splits)
  then show "sf_st s = stateActive" "\<not> sf_ctx_done s" "\<not> retired (ls_node (sf_lease s))"
      "\<exists>h. sf_lastHeartbeat s = Some h \<and> now - h \<le> 20 * second"
    using e by (auto simp: heartbeatExpired_def defaultSafetyThreshold_def split: option.splits)
next
  fix s
  assume "sf_st s = stateActive \<and> \<not> sf_ctx_done s \<and> heartbeatExpired s now"
  then show "Generate (Some s) now cs = Some (Inl ErrLeaseLost, Some (s\<lparr>sf_st := stateLeaseLost, sf_recover := True\<rparr>))"
    by (simp add: Generate_def markLeaseLost_def)
next
  fix s r g t' n2
  assume c: "sf_closed s = None \<and> Close exec n1 (Some s) t = (r, g, t')"
  show "Generate g now cs = Some (Inl ErrClosed, g)" "\<exists>s'. g = Some s' \<and> retired (ls_node (sf_lease s'))"
      "Close exec2 n2 g t' = (r, g, t')"
    using c by (auto simp: Close_def Generate_def retire_def split: prod.splits)
qed

definition demo_service :: snowflake where
  "demo_service = \<lparr>sf_driver = Pgx,
     sf_lease = \<lparr>ls_node = \<lparr>timestamp = 0, workerID = 1, sequence = 0, epoch = DefaultEpoch, retired = False\<rparr>,
       ls_workerID = 1, ls_token = ''n''\<rparr>,
     sf_ctx_done = False, sf_recover = False, sf_lastHeartbeat = Some 0, sf_st = stateActive, sf_closed = None\<rparr>"

theorem service_life_witness:
  "Generate (Some demo_service) (21 * second) [1800000000000]
     = Some (Inl ErrLeaseLost, Some (demo_service\<lparr>sf_st := stateLeaseLost, sf_recover := True\<rparr>))"
  using service_life [of "21 * second" "[1800000000000]"]
  by (simp add: demo_service_def heartbeatExpired_def defaultSafetyThreshold_def cfg_simps)

end
