(* ===== verification/Kc_Segment.thy ===== *)
theory Kc_Segment
  imports Kc_Sql
begin

text \<open>
  The segment ID generator of \<open>src/pkg/idgen/segment\<close>: the tag table and its SQL for both
  dialects (\<open>storage.go\<close>), the double-buffered segments of one tag and the generator that
  owns the buffers (\<open>segment.go\<close>).

  Buffers are heap objects with an address, because \<open>removeBuffer\<close> compares pointers and
  waiting goroutines keep theirs. A lock section (\<open>b.mu\<close>, \<open>g.mu\<close>) is one function; a blocking
  wait between two sections takes as an argument what the other goroutines did meanwhile.
  The Go interface \<open>segmentStore\<close> is the pair of functions \<open>init\<close> and \<open>fetch\<close> passed to the
  buffer operations; its contract is the locale of the theory \<open>Kc_Segment_System\<close>.
\<close>

datatype seg_error = ErrInvalidConfig | ErrResourceNotFound | ErrClosed | ErrBizTagNotFound | ErrIDOverflow
  | ErrContext | ErrDB db_error

definition DefaultStep :: int32 where "DefaultStep = 1000"
definition preloadNumerator :: int where "preloadNumerator = 1"
definition preloadDenominator :: int where "preloadDenominator = 5"
definition maxBizTagLength :: nat where "maxBizTagLength = 128"
definition databaseRetries :: nat where "databaseRetries = 3"
definition defaultTableName :: string where "defaultTableName = ''id_generator''"

section \<open>Configuration\<close>

record seg_config =
  Namespace :: string
  TableName :: string

definition validateIdentifier :: "string \<Rightarrow> seg_error + unit" where
  "validateIdentifier v =
     (if length v > maxIdentifierLength \<or> \<not> identifierPattern v then Inl ErrInvalidConfig else Inr ())"

definition resolveConfig :: "seg_config \<Rightarrow> seg_error + string" where
  "resolveConfig config =
     (let tableName = (if TableName config = [] then defaultTableName else TableName config) in
      case validateIdentifier tableName of Inl e \<Rightarrow> Inl e | Inr _ \<Rightarrow>
      case (if Namespace config \<noteq> [] then validateIdentifier (Namespace config) else Inr ()) of
        Inl e \<Rightarrow> Inl e
      | Inr _ \<Rightarrow> Inr (if Namespace config \<noteq> [] then Namespace config @ ''.'' @ tableName else tableName))"

definition validateBizTag :: "string \<Rightarrow> seg_error + unit" where
  "validateBizTag bizTag =
     (if \<not> valid_utf8 bizTag \<or> blank bizTag \<or> rune_count bizTag > maxBizTagLength then Inl ErrInvalidConfig else Inr ())"

definition validateResourceName :: "string \<Rightarrow> seg_error + unit" where
  "validateResourceName name = (if blank name then Inl ErrInvalidConfig else Inr ())"

definition detectDialect :: "string \<Rightarrow> seg_error + driver" where
  "detectDialect name = (case parse_driver name of None \<Rightarrow> Inl ErrInvalidConfig | Some d \<Rightarrow> Inr d)"

text \<open>\<open>newSQLStorage\<close>: \<open>None\<close> is the nil database handle, \<open>Some name\<close> its driver name.\<close>

definition newSQLStorage :: "string option \<Rightarrow> string \<Rightarrow> seg_error + driver \<times> string" where
  "newSQLStorage db table =
     (case db of
        None \<Rightarrow> Inl ErrInvalidConfig
      | Some name \<Rightarrow> (case detectDialect name of Inl e \<Rightarrow> Inl e | Inr d \<Rightarrow> Inr (d, table)))"

section \<open>The tag table\<close>

record tag_row =
  biz_tag :: string
  max_id :: int64
  step :: int32
  update_time :: int64

record Segment =
  Start :: int64
  End :: int64
  Current :: int64

definition makeSegment :: "int64 \<Rightarrow> int32 \<Rightarrow> seg_error + Segment" where
  "makeSegment maxID st =
     (if st \<le> 0 then Inl ErrInvalidConfig
      else let start = i64 (i64 (maxID - st) + 1) in Inr \<lparr>Start = start, End = maxID, Current = start\<rparr>)"

text \<open>
  \<open>retry\<close>. The operation of attempt \<open>i\<close> is \<open>op i\<close>, \<open>ctx_done i\<close> whether the context has
  ended before it. \<open>left\<close> counts the attempts left.
\<close>

definition retryable :: "bool \<Rightarrow> seg_error \<Rightarrow> bool" where
  "retryable retryDuplicate e =
     (case e of ErrDB d \<Rightarrow> isRetryableTransaction d \<or> (retryDuplicate \<and> isDuplicateKey d) | _ \<Rightarrow> False)"

primrec retry_from ::
  "nat \<Rightarrow> seg_error \<Rightarrow> (nat \<Rightarrow> bool) \<Rightarrow> (nat \<Rightarrow> 's \<Rightarrow> (seg_error + 'a) \<times> 's) \<Rightarrow> bool \<Rightarrow> 's \<Rightarrow> (seg_error + 'a) \<times> 's" where
  "retry_from 0 lastErr ctx_done op retryDuplicate s = (Inl lastErr, s)"
| "retry_from (Suc n) lastErr ctx_done op retryDuplicate s =
     (let attempt = databaseRetries - Suc n in
      if ctx_done attempt then (Inl ErrContext, s)
      else case op attempt s of
             (Inr x, s') \<Rightarrow> (Inr x, s')
           | (Inl e, s') \<Rightarrow>
               if \<not> retryable retryDuplicate e then (Inl e, s') else retry_from n e ctx_done op retryDuplicate s')"

definition retry :: "(nat \<Rightarrow> bool) \<Rightarrow> (nat \<Rightarrow> 's \<Rightarrow> (seg_error + 'a) \<times> 's) \<Rightarrow> bool \<Rightarrow> 's \<Rightarrow> (seg_error + 'a) \<times> 's" where
  "retry ctx_done op retryDuplicate s = retry_from databaseRetries ErrContext ctx_done op retryDuplicate s"

text \<open>
  What one attempt meets: the changes of other sessions before it (\<open>before\<close>) and, for a MySQL
  tag that SELECT ... FOR UPDATE did not find and so did not lock, before the INSERT
  (\<open>race\<close>); the statement that fails; how the transaction ends; the local clock.
\<close>

datatype tag_stmt = BeginTx | SelectRow | UpdateRow | InsertRow | CheckRow

record attempt_env =
  at_before :: "tag_row list \<Rightarrow> tag_row list"
  at_race :: "tag_row list \<Rightarrow> tag_row list"
  at_flt :: "tag_stmt \<Rightarrow> db_error option"
  at_commit :: commit_outcome
  at_now :: int64

record store_env =
  se_ctx_done :: "nat \<Rightarrow> bool"
  se_attempt :: "nat \<Rightarrow> attempt_env"

definition is_tag :: "string \<Rightarrow> tag_row \<Rightarrow> bool" where
  "is_tag tag r \<longleftrightarrow> biz_tag r = tag"

definition set_step :: "int32 \<Rightarrow> int64 \<Rightarrow> tag_row \<Rightarrow> tag_row" where
  "set_step st now r = r\<lparr>step := st, update_time := now\<rparr>"

definition advance :: "int64 \<Rightarrow> tag_row \<Rightarrow> tag_row" where
  "advance now r = r\<lparr>max_id := max_id r + step r, update_time := now\<rparr>"

definition new_tag :: "string \<Rightarrow> int64 \<Rightarrow> int32 \<Rightarrow> int64 \<Rightarrow> tag_row" where
  "new_tag tag startID st now = \<lparr>biz_tag = tag, max_id = startID, step = st, update_time = now\<rparr>"

definition finish_commit :: "commit_outcome \<Rightarrow> 'a \<Rightarrow> 't \<Rightarrow> 't \<Rightarrow> (seg_error + 'a) \<times> 't" where
  "finish_commit c x t t' = (case c of CommitOk \<Rightarrow> Inr x | CommitErr e _ \<Rightarrow> Inl (ErrDB e), committed c t t')"

definition initPostgreSQLTag :: "attempt_env \<Rightarrow> string \<Rightarrow> int64 \<Rightarrow> int32 \<Rightarrow> tag_row list \<Rightarrow> (seg_error + unit) \<times> tag_row list" where
  "initPostgreSQLTag a tag startID st t0 =
     (let t = at_before a t0 in
      finish_commit (at_commit a) () t
        (if sql_row (is_tag tag) t = None then t @ [new_tag tag startID st (at_now a)]
         else sql_update (is_tag tag) (set_step st (at_now a)) t))"

definition initMySQLTagOnce :: "attempt_env \<Rightarrow> string \<Rightarrow> int64 \<Rightarrow> int32 \<Rightarrow> tag_row list \<Rightarrow> (seg_error + unit) \<times> tag_row list" where
  "initMySQLTagOnce a tag startID st t0 =
     (let t = at_before a t0 in
      case at_flt a BeginTx of Some e \<Rightarrow> (Inl (ErrDB e), t) | None \<Rightarrow>
      case at_flt a SelectRow of Some e \<Rightarrow> (Inl (ErrDB e), t) | None \<Rightarrow>
      case sql_row (is_tag tag) t of
        Some _ \<Rightarrow>
          (case at_flt a UpdateRow of
             Some e \<Rightarrow> (Inl (ErrDB e), t)
           | None \<Rightarrow> finish_commit (at_commit a) () t (sql_update (is_tag tag) (set_step st (at_now a)) t))
      | None \<Rightarrow>
          (let t1 = at_race a t in
           case (if sql_row (is_tag tag) t1 \<noteq> None then Some (MySQLError 1062) else at_flt a InsertRow) of
             Some e \<Rightarrow> (Inl (ErrDB e), t1)
           | None \<Rightarrow> finish_commit (at_commit a) () t1 (t1 @ [new_tag tag startID st (at_now a)])))"

definition initTag :: "driver \<Rightarrow> store_env \<Rightarrow> string \<Rightarrow> int64 \<Rightarrow> int32 \<Rightarrow> tag_row list \<Rightarrow> (seg_error + unit) \<times> tag_row list" where
  "initTag d ev tag startID st t =
     (case d of
        Pgx \<Rightarrow> retry (se_ctx_done ev) (\<lambda>i. initPostgreSQLTag (se_attempt ev i) tag startID st) False t
      | MySQL \<Rightarrow> retry (se_ctx_done ev) (\<lambda>i. initMySQLTagOnce (se_attempt ev i) tag startID st) True t)"

text \<open>
  The single UPDATE ... RETURNING of PostgreSQL: \<open>Inr None\<close> is \<open>sql.ErrNoRows\<close>; a sum outside
  BIGINT is the server error 22003.
\<close>

definition update_returning :: "attempt_env \<Rightarrow> string \<Rightarrow> tag_row list \<Rightarrow> (db_error + (int64 \<times> int32) option) \<times> tag_row list" where
  "update_returning a tag t =
     (case at_flt a UpdateRow of
        Some e \<Rightarrow> (Inl e, t)
      | None \<Rightarrow>
          (case sql_row (\<lambda>r. is_tag tag r \<and> step r > 0) t of
             None \<Rightarrow> (Inr None, t)
           | Some r \<Rightarrow>
               if max_id r + step r > MaxInt64 then (Inl (PgError ''22003''), t)
               else
                 (let t' = sql_update (\<lambda>r. is_tag tag r \<and> step r > 0) (advance (at_now a)) t in
                  case at_commit a of
                    CommitOk \<Rightarrow> (Inr (Some (max_id r + step r, step r)), t')
                  | CommitErr e applied \<Rightarrow> (Inl e, if applied then t' else t))))"

definition fetchPostgreSQLSegment :: "attempt_env \<Rightarrow> string \<Rightarrow> tag_row list \<Rightarrow> (seg_error + Segment) \<times> tag_row list" where
  "fetchPostgreSQLSegment a tag t0 =
     (case update_returning a tag (at_before a t0) of
        (Inr (Some (maxID, st)), t') \<Rightarrow> (makeSegment maxID st, t')
      | (Inl e, t') \<Rightarrow> (Inl (if isNumericOverflow e then ErrIDOverflow else ErrDB e), t')
      | (Inr None, t') \<Rightarrow>
          (case at_flt a CheckRow of
             Some e \<Rightarrow> (Inl (ErrDB e), at_race a t')
           | None \<Rightarrow>
               (case sql_row (is_tag tag) (at_race a t') of
                  None \<Rightarrow> (Inl ErrBizTagNotFound, at_race a t')
                | Some _ \<Rightarrow> (Inl ErrInvalidConfig, at_race a t'))))"

definition fetchMySQLSegmentOnce :: "attempt_env \<Rightarrow> string \<Rightarrow> tag_row list \<Rightarrow> (seg_error + Segment) \<times> tag_row list" where
  "fetchMySQLSegmentOnce a tag t0 =
     (let t = at_before a t0 in
      case at_flt a BeginTx of Some e \<Rightarrow> (Inl (ErrDB e), t) | None \<Rightarrow>
      case at_flt a SelectRow of Some e \<Rightarrow> (Inl (ErrDB e), t) | None \<Rightarrow>
      case sql_row (is_tag tag) t of
        None \<Rightarrow> (Inl ErrBizTagNotFound, t)
      | Some r \<Rightarrow>
          if step r \<le> 0 then (Inl ErrInvalidConfig, t)
          else if max_id r > MaxInt64 - step r then (Inl ErrIDOverflow, t)
          else
            (let newMaxID = i64 (max_id r + step r) in
             case at_flt a UpdateRow of
               Some e \<Rightarrow> (Inl (ErrDB e), t)
             | None \<Rightarrow>
                 (let t' = sql_update (is_tag tag) (\<lambda>r. r\<lparr>max_id := newMaxID, update_time := at_now a\<rparr>) t in
                  case at_commit a of
                    CommitErr e applied \<Rightarrow> (Inl (ErrDB e), if applied then t' else t)
                  | CommitOk \<Rightarrow> (makeSegment newMaxID (step r), t'))))"

definition fetchSegment :: "driver \<Rightarrow> store_env \<Rightarrow> string \<Rightarrow> tag_row list \<Rightarrow> (seg_error + Segment) \<times> tag_row list" where
  "fetchSegment d ev tag t =
     (case d of
        Pgx \<Rightarrow> retry (se_ctx_done ev) (\<lambda>i. fetchPostgreSQLSegment (se_attempt ev i) tag) False t
      | MySQL \<Rightarrow> retry (se_ctx_done ev) (\<lambda>i. fetchMySQLSegmentOnce (se_attempt ev i) tag) False t)"

section \<open>The double buffer of one tag\<close>

text \<open>
  \<open>sb_loadDone\<close> numbers the channels made for this buffer: channel \<open>n\<close> is open while
  \<open>sb_loading\<close> and \<open>sb_loadDone = n\<close>. \<open>sb_ready\<close> is whether the ready channel is closed.
\<close>

record segmentBuffer =
  sb_bizTag :: string
  sb_ready :: bool
  sb_initErr :: "seg_error option"
  sb_current :: "Segment option"
  sb_exhausted :: bool
  sb_next :: "Segment option"
  sb_loading :: bool
  sb_loadDone :: nat

definition new_buffer :: "string \<Rightarrow> segmentBuffer" where
  "new_buffer tag = \<lparr>sb_bizTag = tag, sb_ready = False, sb_initErr = None, sb_current = None, sb_exhausted = False,
     sb_next = None, sb_loading = False, sb_loadDone = 0\<rparr>"

text \<open>
  \<open>maybeStartPreloadLocked\<close>: the flag of the result says that a loader goroutine was started;
  \<open>active\<close> is the answer of \<open>startAsync\<close>.
\<close>

definition maybeStartPreloadLocked :: "bool \<Rightarrow> int64 \<Rightarrow> Segment \<Rightarrow> segmentBuffer \<Rightarrow> bool \<times> segmentBuffer" where
  "maybeStartPreloadLocked active lastID cur b =
     (if sb_loading b \<or> sb_next b \<noteq> None then (False, b)
      else
        let total = i64 (i64 (End cur - Start cur) + 1);
            used = i64 (i64 (lastID - Start cur) + 1) in
        if total \<le> 0 \<or> i64 (used * preloadDenominator) < i64 (total * preloadNumerator) then (False, b)
        else
          let b' = b\<lparr>sb_loading := True, sb_loadDone := Suc (sb_loadDone b)\<rparr> in
          if active then (True, b') else (False, b'\<lparr>sb_loading := False\<rparr>))"

definition take_id :: "bool \<Rightarrow> Segment \<Rightarrow> segmentBuffer \<Rightarrow> int64 \<times> bool \<times> segmentBuffer" where
  "take_id active cur b =
     (let ident = Current cur;
          (cur', ex) = (if ident = End cur then (cur, True) else (cur\<lparr>Current := i64 (Current cur + 1)\<rparr>, sb_exhausted b));
          (spawn, b') = maybeStartPreloadLocked active ident cur' (b\<lparr>sb_current := Some cur', sb_exhausted := ex\<rparr>)
      in (ident, spawn, b'))"

datatype turn = WaitLoad nat | Return "seg_error + int64"

text \<open>One turn of the loop of \<open>nextID\<close>, from \<open>b.mu.Lock\<close> to \<open>b.mu.Unlock\<close>.\<close>

definition nextID_turn ::
  "('st \<Rightarrow> (seg_error + Segment) \<times> 'st) \<Rightarrow> bool \<Rightarrow> segmentBuffer \<Rightarrow> 'st \<Rightarrow> turn \<times> bool \<times> segmentBuffer \<times> 'st" where
  "nextID_turn fetch active b st =
     (case sb_current b of
        None \<Rightarrow> (Return (Inl ErrBizTagNotFound), False, b, st)
      | Some cur \<Rightarrow>
          if sb_exhausted b \<or> Current cur > End cur then
            (case sb_next b of
               Some nxt \<Rightarrow>
                 (case take_id active nxt (b\<lparr>sb_current := Some nxt, sb_exhausted := False, sb_next := None\<rparr>) of
                    (i, spawn, b') \<Rightarrow> (Return (Inr i), spawn, b', st))
             | None \<Rightarrow>
                 if sb_loading b then (WaitLoad (sb_loadDone b), False, b, st)
                 else
                   (case fetch st of
                      (Inl e, st') \<Rightarrow> (Return (Inl e), False, b, st')
                    | (Inr seg, st') \<Rightarrow>
                        (case take_id active seg (b\<lparr>sb_current := Some seg, sb_exhausted := False\<rparr>) of
                           (i, spawn, b') \<Rightarrow> (Return (Inr i), spawn, b', st'))))
          else (case take_id active cur b of (i, spawn, b') \<Rightarrow> (Return (Inr i), spawn, b', st)))"

definition loadNext :: "nat \<Rightarrow> seg_error + Segment \<Rightarrow> segmentBuffer \<Rightarrow> segmentBuffer" where
  "loadNext loadDone r b =
     (if sb_loading b \<and> sb_loadDone b = loadDone then
        (case r of Inr nxt \<Rightarrow> b\<lparr>sb_next := Some nxt, sb_loading := False\<rparr> | Inl _ \<Rightarrow> b\<lparr>sb_loading := False\<rparr>)
      else b)"

section \<open>The generator\<close>

text \<open>
  \<open>g_heap\<close> holds the buffers ever made, by address; \<open>g_buffers\<close> is the map of the generator;
  \<open>g_async\<close> the loader goroutines started by \<open>startAsync\<close>: their buffer and channel.
\<close>

record seg_gen =
  g_closed :: bool
  g_ctx_done :: bool
  g_heap :: "nat \<Rightarrow> segmentBuffer"
  g_top :: nat
  g_buffers :: "string \<rightharpoonup> nat"
  g_async :: "(nat \<times> nat) list"

definition newSegmentIDGen :: "bool \<Rightarrow> seg_gen" where
  "newSegmentIDGen ctx_done = \<lparr>g_closed = False, g_ctx_done = ctx_done, g_heap = (\<lambda>_. new_buffer []), g_top = 0,
     g_buffers = Map.empty, g_async = []\<rparr>"

definition seg_active :: "seg_gen \<Rightarrow> bool" where
  "seg_active g \<longleftrightarrow> \<not> g_closed g \<and> \<not> g_ctx_done g"

text \<open>\<open>New\<close>: \<open>ensure\<close> is the error of \<open>ensureTable\<close>, whose statements only create the table.\<close>

definition New :: "bool option \<Rightarrow> string option \<Rightarrow> seg_config \<Rightarrow> db_error option \<Rightarrow> seg_error + driver \<times> seg_gen" where
  "New ctx db config ensure =
     (case ctx of None \<Rightarrow> Inl ErrInvalidConfig | Some ended \<Rightarrow>
      if ended then Inl ErrInvalidConfig
      else case resolveConfig config of Inl e \<Rightarrow> Inl e | Inr table \<Rightarrow>
      case newSQLStorage db table of Inl e \<Rightarrow> Inl e | Inr (d, _) \<Rightarrow>
      case ensure of Some e \<Rightarrow> Inl (ErrDB e) | None \<Rightarrow> Inr (d, newSegmentIDGen False))"

definition operationContext :: "bool \<Rightarrow> seg_gen \<Rightarrow> seg_error option" where
  "operationContext ctx_nil g = (if ctx_nil then Some ErrInvalidConfig else if \<not> seg_active g then Some ErrClosed else None)"

definition normalizeOperationError :: "seg_gen \<Rightarrow> seg_error option \<Rightarrow> seg_error option" where
  "normalizeOperationError g err =
     (case err of None \<Rightarrow> None | Some e \<Rightarrow> if \<not> seg_active g then Some ErrClosed else Some e)"

definition set_buffer :: "nat \<Rightarrow> segmentBuffer \<Rightarrow> seg_gen \<Rightarrow> seg_gen" where
  "set_buffer a b g = g\<lparr>g_heap := (g_heap g)(a := b)\<rparr>"

definition getOrCreateBuffer :: "string \<Rightarrow> seg_gen \<Rightarrow> (nat \<times> bool) \<times> seg_gen" where
  "getOrCreateBuffer tag g =
     (case g_buffers g tag of
        Some a \<Rightarrow> ((a, False), g)
      | None \<Rightarrow>
          ((g_top g, True),
           (set_buffer (g_top g) (new_buffer tag) g)\<lparr>g_top := Suc (g_top g), g_buffers := (g_buffers g)(tag \<mapsto> g_top g)\<rparr>))"

definition getBuffer :: "string \<Rightarrow> seg_gen \<Rightarrow> nat option" where
  "getBuffer tag g = g_buffers g tag"

definition removeBuffer :: "string \<Rightarrow> nat \<Rightarrow> seg_gen \<Rightarrow> seg_gen" where
  "removeBuffer tag expected g =
     (if g_buffers g tag = Some expected then g\<lparr>g_buffers := (g_buffers g)(tag := None)\<rparr> else g)"

text \<open>
  \<open>others\<close> is what the other goroutines do to the generator while this one is in the store;
  \<open>init\<close> and \<open>fetch\<close> are the calls on the \<open>segmentStore\<close>.
\<close>

definition initializeBuffer ::
  "(string \<Rightarrow> int64 \<Rightarrow> int32 \<Rightarrow> 'st \<Rightarrow> (seg_error + unit) \<times> 'st) \<Rightarrow> (string \<Rightarrow> 'st \<Rightarrow> (seg_error + Segment) \<times> 'st)
    \<Rightarrow> (seg_gen \<Rightarrow> seg_gen) \<Rightarrow> nat \<Rightarrow> int64 \<Rightarrow> int32 \<Rightarrow> seg_gen \<Rightarrow> 'st \<Rightarrow> seg_error option \<times> seg_gen \<times> 'st" where
  "initializeBuffer init fetch others a startID st g s =
     (let tag = sb_bizTag (g_heap g a) in
      case init tag startID st s of
        (Inl e, s1) \<Rightarrow> (Some e, others g, s1)
      | (Inr _, s1) \<Rightarrow>
          (case fetch tag s1 of
             (Inl e, s2) \<Rightarrow> (Some e, others g, s2)
           | (Inr seg, s2) \<Rightarrow>
               (let g' = others g in (None, set_buffer a ((g_heap g' a)\<lparr>sb_current := Some seg\<rparr>) g', s2))))"

text \<open>The creator's tail: store \<open>initErr\<close>, close \<open>ready\<close>, and unlink the buffer on an error.\<close>

definition finish_init :: "string \<Rightarrow> nat \<Rightarrow> seg_error option \<Rightarrow> seg_gen \<Rightarrow> seg_gen" where
  "finish_init tag a err g =
     (let g' = set_buffer a ((g_heap g a)\<lparr>sb_initErr := err, sb_ready := True\<rparr>) g in
      if err \<noteq> None then removeBuffer tag a g' else g')"

text \<open>
  The select on \<open>ready\<close> and the operation context: \<open>None\<close> while neither has happened;
  \<open>ctx_ended\<close> is that the context branch was taken.
\<close>

definition wait_ready :: "bool \<Rightarrow> segmentBuffer \<Rightarrow> (seg_error option) option" where
  "wait_ready ctx_ended b =
     (if ctx_ended then Some (Some ErrContext) else if sb_ready b then Some (sb_initErr b) else None)"

definition Init ::
  "(string \<Rightarrow> int64 \<Rightarrow> int32 \<Rightarrow> 'st \<Rightarrow> (seg_error + unit) \<times> 'st) \<Rightarrow> (string \<Rightarrow> 'st \<Rightarrow> (seg_error + Segment) \<times> 'st)
    \<Rightarrow> (seg_gen \<Rightarrow> seg_gen) \<Rightarrow> bool \<Rightarrow> bool \<Rightarrow> string \<Rightarrow> int64 \<Rightarrow> int32 \<Rightarrow> seg_gen option \<Rightarrow> 'st
    \<Rightarrow> (seg_error option \<times> seg_gen option \<times> 'st) option" where
  "Init init fetch others ctx_nil ctx_ended tag startID step0 gen s =
     (case gen of None \<Rightarrow> Some (Some ErrClosed, None, s) | Some g \<Rightarrow>
      case validateBizTag tag of Inl e \<Rightarrow> Some (Some e, gen, s) | Inr _ \<Rightarrow>
      if startID < 0 then Some (Some ErrInvalidConfig, gen, s)
      else let st = (if step0 \<le> 0 then DefaultStep else step0) in
      case operationContext ctx_nil g of Some e \<Rightarrow> Some (Some e, gen, s) | None \<Rightarrow>
      case getOrCreateBuffer tag g of
        ((a, True), g1) \<Rightarrow>
          (case initializeBuffer init fetch others a startID st g1 s of
             (err, g2, s2) \<Rightarrow>
               (let g3 = finish_init tag a err g2 in Some (normalizeOperationError g3 err, Some g3, s2)))
      | ((a, False), g1) \<Rightarrow>
          (let g2 = others g1 in
           case wait_ready ctx_ended (g_heap g2 a) of
             None \<Rightarrow> None
           | Some (Some e) \<Rightarrow> Some (normalizeOperationError g2 (Some e), Some g2, s)
           | Some None \<Rightarrow>
               (case init tag startID st s of
                  (Inl e, s1) \<Rightarrow> Some (normalizeOperationError g2 (Some e), Some g2, s1)
                | (Inr _, s1) \<Rightarrow> Some (None, Some g2, s1))))"

definition ensureDefaultBuffer ::
  "(string \<Rightarrow> int64 \<Rightarrow> int32 \<Rightarrow> 'st \<Rightarrow> (seg_error + unit) \<times> 'st) \<Rightarrow> (string \<Rightarrow> 'st \<Rightarrow> (seg_error + Segment) \<times> 'st)
    \<Rightarrow> (seg_gen \<Rightarrow> seg_gen) \<Rightarrow> bool \<Rightarrow> bool \<Rightarrow> string \<Rightarrow> seg_gen \<Rightarrow> 'st \<Rightarrow> ((seg_error + nat) \<times> seg_gen \<times> 'st) option" where
  "ensureDefaultBuffer init fetch others ctx_nil ctx_ended tag g s =
     (case operationContext ctx_nil g of Some e \<Rightarrow> Some (Inl e, g, s) | None \<Rightarrow>
      case getOrCreateBuffer tag g of
        ((a, True), g1) \<Rightarrow>
          (case initializeBuffer init fetch others a 0 DefaultStep g1 s of
             (err, g2, s2) \<Rightarrow>
               (let g3 = finish_init tag a err g2 in
                Some (case normalizeOperationError g3 err of Some e \<Rightarrow> Inl e | None \<Rightarrow> Inr a, g3, s2)))
      | ((a, False), g1) \<Rightarrow>
          (let g2 = others g1 in
           case wait_ready ctx_ended (g_heap g2 a) of
             None \<Rightarrow> None
           | Some err \<Rightarrow> Some (case normalizeOperationError g2 err of Some e \<Rightarrow> Inl e | None \<Rightarrow> Inr a, g2, s)))"

text \<open>
  The loop of \<open>nextID\<close>: per turn, the store call it may make, whether the context branch of the
  select is taken, and what the other goroutines do while it waits for the loader. \<open>None\<close>: it
  is still waiting.
\<close>

fun nextID ::
  "(('st \<Rightarrow> (seg_error + Segment) \<times> 'st) \<times> bool \<times> (seg_gen \<times> 'st \<Rightarrow> seg_gen \<times> 'st)) list \<Rightarrow> nat \<Rightarrow> seg_gen \<Rightarrow> 'st
    \<Rightarrow> ((seg_error + int64) \<times> seg_gen \<times> 'st) option" where
  "nextID [] a g s = None"
| "nextID ((fetch, ctx_ended, others) # turns) a g s =
     (case nextID_turn fetch (seg_active g) (g_heap g a) s of
        (Return r, spawn, b', s') \<Rightarrow>
          (let g' = set_buffer a b' g in
           Some (r, if spawn then g'\<lparr>g_async := g_async g @ [(a, sb_loadDone b')]\<rparr> else g', s'))
      | (WaitLoad ch, _, _, s') \<Rightarrow>
          if ctx_ended then Some (Inl ErrContext, g, s')
          else (case others (g, s') of (g2, s2) \<Rightarrow> nextID turns a g2 s2))"

definition GetID ::
  "(string \<Rightarrow> int64 \<Rightarrow> int32 \<Rightarrow> 'st \<Rightarrow> (seg_error + unit) \<times> 'st) \<Rightarrow> (string \<Rightarrow> 'st \<Rightarrow> (seg_error + Segment) \<times> 'st)
    \<Rightarrow> (seg_gen \<Rightarrow> seg_gen) \<Rightarrow> bool \<Rightarrow> bool \<Rightarrow> bool
    \<Rightarrow> (('st \<Rightarrow> (seg_error + Segment) \<times> 'st) \<times> bool \<times> (seg_gen \<times> 'st \<Rightarrow> seg_gen \<times> 'st)) list
    \<Rightarrow> string \<Rightarrow> seg_gen option \<Rightarrow> 'st \<Rightarrow> ((seg_error + int64) \<times> seg_gen option \<times> 'st) option" where
  "GetID init fetch others ctx_nil ctx_ended ctx_ended2 turns tag gen s =
     (case gen of None \<Rightarrow> Some (Inl ErrClosed, None, s) | Some g \<Rightarrow>
      case validateBizTag tag of Inl e \<Rightarrow> Some (Inl e, gen, s) | Inr _ \<Rightarrow>
      case ensureDefaultBuffer init fetch others ctx_nil ctx_ended tag g s of
        None \<Rightarrow> None
      | Some (Inl e, g1, s1) \<Rightarrow> Some (Inl e, Some g1, s1)
      | Some (Inr a, g1, s1) \<Rightarrow>
          (case operationContext ctx_nil g1 of Some e \<Rightarrow> Some (Inl e, Some g1, s1) | None \<Rightarrow>
           case wait_ready ctx_ended2 (g_heap g1 a) of
             None \<Rightarrow> None
           | Some (Some e) \<Rightarrow>
               Some (case normalizeOperationError g1 (Some e) of Some e' \<Rightarrow> Inl e' | None \<Rightarrow> Inl e, Some g1, s1)
           | Some None \<Rightarrow>
               (case nextID turns a g1 s1 of
                  None \<Rightarrow> None
                | Some (Inr i, g2, s2) \<Rightarrow> Some (Inr i, Some g2, s2)
                | Some (Inl e, g2, s2) \<Rightarrow>
                    Some (case normalizeOperationError g2 (Some e) of Some e' \<Rightarrow> Inl e' | None \<Rightarrow> Inl e, Some g2, s2))))"

text \<open>
  \<open>Close\<close> waits for the loaders; \<open>res\<close> is what their last store call returned. \<open>closeErr\<close> is
  never set.
\<close>

definition deliver_loads :: "(nat \<times> nat \<Rightarrow> seg_error + Segment) \<Rightarrow> (nat \<times> nat) list \<Rightarrow> seg_gen \<Rightarrow> seg_gen" where
  "deliver_loads res loads g =
     fold (\<lambda>l g. set_buffer (fst l) (loadNext (snd l) (res l) (g_heap g (fst l))) g) loads g"

definition Close :: "(nat \<times> nat \<Rightarrow> seg_error + Segment) \<Rightarrow> seg_gen option \<Rightarrow> seg_error option \<times> seg_gen option" where
  "Close res gen =
     (case gen of
        None \<Rightarrow> (None, None)
      | Some g \<Rightarrow>
          (None, Some ((deliver_loads res (g_async g) (g\<lparr>g_closed := True, g_ctx_done := True\<rparr>))\<lparr>g_async := []\<rparr>)))"

section \<open>Lemmas about the tag table\<close>

definition tbl_ok :: "tag_row list \<Rightarrow> bool" where
  "tbl_ok t \<longleftrightarrow> pk biz_tag t \<and> (\<forall>r \<in> set t. 0 \<le> max_id r \<and> max_id r \<le> MaxInt64 \<and> step r < 2 ^ 31)"

text \<open>The highest identifier handed out for a tag; \<open>-1\<close> before the tag exists.\<close>

definition hi :: "tag_row list \<Rightarrow> string \<Rightarrow> int" where
  "hi t tag = (case sql_row (is_tag tag) t of None \<Rightarrow> -1 | Some r \<Rightarrow> max_id r)"

definition grows :: "tag_row list \<Rightarrow> tag_row list \<Rightarrow> bool" where
  "grows t t' \<longleftrightarrow> tbl_ok t' \<and> (\<forall>tag. hi t tag \<le> hi t' tag)"

lemma grows_refl: "tbl_ok t \<Longrightarrow> grows t t"
  by (simp add: grows_def)

lemma grows_trans: "grows t t1 \<Longrightarrow> grows t1 t2 \<Longrightarrow> grows t t2"
  using order_trans unfolding grows_def by blast

lemma hi_row: "pk biz_tag t \<Longrightarrow> r \<in> set t \<Longrightarrow> hi t (biz_tag r) = max_id r"
  using sql_row_pk [of biz_tag t r "biz_tag r"] by (simp add: hi_def is_tag_def [abs_def])

lemma hi_none: "biz_tag ` set t \<inter> {tag} = {} \<Longrightarrow> hi t tag = -1"
  by (auto simp: hi_def is_tag_def sql_row_None split: option.splits dest!: sql_row_SomeD)

lemma hi_cases:
  assumes "pk biz_tag t"
  obtains "hi t tag = -1" "tag \<notin> biz_tag ` set t" | r where "r \<in> set t" "biz_tag r = tag" "hi t tag = max_id r"
  using hi_row [OF assms] hi_none [of t tag] by blast

text \<open>Every UPDATE of the package changes one tag's row and never lowers its \<open>max_id\<close>.\<close>

lemma grows_sql_update:
  assumes "tbl_ok t" and f: "\<And>r. r \<in> set t \<Longrightarrow> p r \<Longrightarrow> biz_tag (f r) = biz_tag r \<and> max_id r \<le> max_id (f r)
      \<and> max_id (f r) \<le> MaxInt64 \<and> step (f r) < 2 ^ 31"
  shows "grows t (sql_update p f t)"
proof -
  have k: "pk biz_tag t" "pk biz_tag (sql_update p f t)"
    using assms pk_sql_update [of biz_tag t p f] by (auto simp: tbl_ok_def)
  have ok: "tbl_ok (sql_update p f t)"
    using assms k(2) order_trans unfolding tbl_ok_def by (fastforce simp: sql_update_mem_iff)
  moreover have "hi t tag \<le> hi (sql_update p f t) tag" for tag
  proof (cases rule: hi_cases [OF k(1), of tag])
    case 1
    have "0 \<le> hi (sql_update p f t) tag \<or> hi (sql_update p f t) tag = -1"
      using ok by (cases rule: hi_cases [OF k(2), of tag]) (auto simp: tbl_ok_def)
    then show ?thesis using 1 by auto
  next
    case (2 r)
    let ?r = "if p r then f r else r"
    have "?r \<in> set (sql_update p f t)" using 2(1) by (auto simp: sql_update_mem_iff)
    then have "hi (sql_update p f t) (biz_tag ?r) = max_id ?r" by (rule hi_row [OF k(2)])
    then show ?thesis using 2 f [of r] by (auto split: if_splits)
  qed
  ultimately show ?thesis by (simp add: grows_def)
qed

lemma grows_snoc:
  assumes "tbl_ok t" and "biz_tag r \<notin> biz_tag ` set t" and "0 \<le> max_id r" "max_id r \<le> MaxInt64" "step r < 2 ^ 31"
  shows "grows t (t @ [r])"
proof -
  have k: "pk biz_tag t" "pk biz_tag (t @ [r])" using assms by (auto simp: tbl_ok_def pk_snoc)
  have ok: "tbl_ok (t @ [r])" using assms k by (auto simp: tbl_ok_def)
  moreover have "hi t tag \<le> hi (t @ [r]) tag" for tag
  proof (cases rule: hi_cases [OF k(1), of tag])
    case 1
    have "-1 \<le> hi (t @ [r]) tag"
      using ok by (cases rule: hi_cases [OF k(2), of tag]) (auto simp: tbl_ok_def)
    then show ?thesis using 1 by simp
  next
    case (2 s)
    then show ?thesis using hi_row [OF k(2), of s] by auto
  qed
  ultimately show ?thesis by (simp add: grows_def)
qed

lemma grows_committed: "tbl_ok t \<Longrightarrow> grows t t' \<Longrightarrow> grows t (committed c t t')"
  by (auto simp: committed_def grows_refl split: commit_outcome.splits)

definition legal_attempt :: "attempt_env \<Rightarrow> bool" where
  "legal_attempt a \<longleftrightarrow> (\<forall>t. tbl_ok t \<longrightarrow> grows t (at_before a t) \<and> grows t (at_race a t))"

definition legal_env :: "store_env \<Rightarrow> bool" where
  "legal_env ev \<longleftrightarrow> (\<forall>i. legal_attempt (se_attempt ev i))"

lemma legal_attemptD:
  assumes "legal_attempt a" and "tbl_ok t"
  shows "grows t (at_before a t)" "tbl_ok (at_before a t)" "grows t (at_race a t)"
  using assms by (auto simp: legal_attempt_def grows_def)

lemma is_tag_none: "sql_row (is_tag tag) t = None \<longleftrightarrow> tag \<notin> biz_tag ` set t"
  by (auto simp: sql_row_None is_tag_def)

lemma initPostgreSQLTag_grows:
  assumes "legal_attempt a" and "tbl_ok t0" and "0 \<le> startID" "startID \<le> MaxInt64" "st < 2 ^ 31"
  shows "grows t0 (snd (initPostgreSQLTag a tag startID st t0))"
proof -
  let ?t = "at_before a t0"
  note l = legal_attemptD [OF assms(1,2)]
  have "grows ?t (?t @ [new_tag tag startID st (at_now a)])" if "tag \<notin> biz_tag ` set ?t"
    using that l(2) assms by (intro grows_snoc) (auto simp: new_tag_def)
  moreover have "grows ?t (sql_update (is_tag tag) (set_step st (at_now a)) ?t)"
    using l(2) assms by (intro grows_sql_update) (auto simp: set_step_def tbl_ok_def)
  ultimately have "grows ?t (snd (initPostgreSQLTag a tag startID st t0))"
    using l(2) by (auto simp: initPostgreSQLTag_def Let_def finish_commit_def is_tag_none intro: grows_committed)
  then show ?thesis using l(1) grows_trans by blast
qed

lemma initMySQLTagOnce_grows:
  assumes "legal_attempt a" and "tbl_ok t0" and "0 \<le> startID" "startID \<le> MaxInt64" "st < 2 ^ 31"
  shows "grows t0 (snd (initMySQLTagOnce a tag startID st t0))"
proof -
  let ?t = "at_before a t0"
  note l = legal_attemptD [OF assms(1,2)]
  have r: "grows ?t (at_race a ?t)" "tbl_ok (at_race a ?t)"
    using legal_attemptD(3) [OF assms(1) l(2)] by (auto simp: grows_def)
  have "grows (at_race a ?t) (at_race a ?t @ [new_tag tag startID st (at_now a)])" if "tag \<notin> biz_tag ` set (at_race a ?t)"
    using that r(2) assms by (intro grows_snoc) (auto simp: new_tag_def)
  then have "grows ?t (committed c (at_race a ?t) (at_race a ?t @ [new_tag tag startID st (at_now a)]))"
    if "tag \<notin> biz_tag ` set (at_race a ?t)" for c
    using that r grows_committed grows_trans by blast
  moreover have "grows ?t (committed c ?t (sql_update (is_tag tag) (set_step st (at_now a)) ?t))" for c
    using l(2) assms by (intro grows_committed grows_sql_update) (auto simp: set_step_def tbl_ok_def)
  ultimately have "grows ?t (snd (initMySQLTagOnce a tag startID st t0))"
    using l(2) r grows_refl [OF l(2)]
    by (auto simp: initMySQLTagOnce_def Let_def finish_commit_def is_tag_none split: option.splits)
  then show ?thesis using l(1) grows_trans by blast
qed

text \<open>What a fetched segment is: a fresh, non-empty range above every identifier handed out.\<close>

definition fresh_segment :: "string \<Rightarrow> tag_row list \<Rightarrow> Segment \<Rightarrow> tag_row list \<Rightarrow> bool" where
  "fresh_segment tag t seg t' \<longleftrightarrow> Current seg = Start seg \<and> 0 < Start seg \<and> hi t tag < Start seg \<and> Start seg \<le> End seg
     \<and> End seg \<le> hi t' tag \<and> End seg \<le> MaxInt64"

lemma fresh_segment_mono: "grows t0 t \<Longrightarrow> fresh_segment tag t seg t' \<Longrightarrow> fresh_segment tag t0 seg t'"
  unfolding grows_def fresh_segment_def using order_le_less_trans by blast

abbreviation live_tag :: "string \<Rightarrow> tag_row \<Rightarrow> bool" where
  "live_tag tag r \<equiv> is_tag tag r \<and> step r > 0"

lemma makeSegment_advance:
  assumes "tbl_ok t" and "r \<in> set t" and "0 < step r" and "max_id r + step r \<le> MaxInt64"
  shows "makeSegment (max_id r + step r) (step r) = Inr \<lparr>Start = max_id r + 1, End = max_id r + step r, Current = max_id r + 1\<rparr>"
  using assms by (auto simp: makeSegment_def tbl_ok_def Let_def i64_id in_i64_def MinInt64_def MaxInt64_def)

lemma tag_row_unique: "tbl_ok t \<Longrightarrow> r \<in> set t \<Longrightarrow> biz_tag r = tag \<Longrightarrow> s \<in> set t \<Longrightarrow> biz_tag s = tag \<Longrightarrow> s = r"
  using pk_unique [of biz_tag t s r] by (simp add: tbl_ok_def)

lemma mysql_update_is_advance:
  assumes "tbl_ok t" and "r \<in> set t" and "biz_tag r = tag" and "0 < step r" and "max_id r + step r \<le> MaxInt64"
  shows "sql_update (is_tag tag) (\<lambda>s. s\<lparr>max_id := i64 (max_id r + step r), update_time := now\<rparr>) t
       = sql_update (live_tag tag) (advance now) t"
proof -
  have i: "i64 (max_id r + step r) = max_id r + step r"
    using assms by (auto simp: tbl_ok_def i64_id in_i64_def MinInt64_def MaxInt64_def)
  show ?thesis unfolding sql_update_def
  proof (rule map_cong [OF refl])
    fix s assume s: "s \<in> set t"
    show "(if is_tag tag s then s\<lparr>max_id := i64 (max_id r + step r), update_time := now\<rparr> else s)
        = (if live_tag tag s then advance now s else s)"
    proof (cases "biz_tag s = tag")
      case True
      then have "s = r" using tag_row_unique assms(1-3) s by blast
      then show ?thesis using assms(3,4) i by (simp add: is_tag_def advance_def)
    qed (simp add: is_tag_def)
  qed
qed

lemma live_row:
  assumes "tbl_ok t" and "r \<in> set t" and "biz_tag r = tag" and "0 < step r"
  shows "sql_row (live_tag tag) t = Some r" "sql_row (is_tag tag) t = Some r"
proof -
  show "sql_row (is_tag tag) t = Some r"
    using sql_row_pk [of biz_tag t r tag] assms by (simp add: is_tag_def [abs_def] tbl_ok_def)
  obtain s where s: "sql_row (live_tag tag) t = Some s"
    using assms(2-4) sql_row_None [of "live_tag tag" t] by (cases "sql_row (live_tag tag) t") (auto simp: is_tag_def)
  have "s = r" using sql_row_SomeD [OF s] tag_row_unique [OF assms(1-3)] by (simp add: is_tag_def)
  then show "sql_row (live_tag tag) t = Some r" using s by simp
qed

lemma advance_fresh:
  assumes "tbl_ok t" and "r \<in> set t" and "biz_tag r = tag" and "0 < step r" and "max_id r + step r \<le> MaxInt64"
  shows "grows t (sql_update (live_tag tag) (advance now) t)"
    and "fresh_segment tag t \<lparr>Start = max_id r + 1, End = max_id r + step r, Current = max_id r + 1\<rparr>
           (sql_update (live_tag tag) (advance now) t)"
proof -
  show g: "grows t (sql_update (live_tag tag) (advance now) t)"
  proof (rule grows_sql_update [OF assms(1)])
    fix s assume "s \<in> set t" and "live_tag tag s"
    then have "s = r" using tag_row_unique assms(1-3) by (auto simp: is_tag_def)
    then show "biz_tag (advance now s) = biz_tag s \<and> max_id s \<le> max_id (advance now s)
        \<and> max_id (advance now s) \<le> MaxInt64 \<and> step (advance now s) < 2 ^ 31"
      using assms by (auto simp: advance_def tbl_ok_def)
  qed
  have "advance now r \<in> set (sql_update (live_tag tag) (advance now) t)"
    using assms by (force simp: sql_update_mem_iff is_tag_def)
  then have "hi (sql_update (live_tag tag) (advance now) t) (biz_tag (advance now r)) = max_id (advance now r)"
    using g by (intro hi_row) (auto simp: grows_def tbl_ok_def)
  then show "fresh_segment tag t \<lparr>Start = max_id r + 1, End = max_id r + step r, Current = max_id r + 1\<rparr>
           (sql_update (live_tag tag) (advance now) t)"
    using assms hi_row [of t r] by (auto simp: fresh_segment_def advance_def tbl_ok_def)
qed

text \<open>One attempt of either dialect, in any legal environment.\<close>

lemma fetchPostgreSQLSegment_step:
  assumes "legal_attempt a" and "tbl_ok t0" and "fetchPostgreSQLSegment a tag t0 = (x, t')"
  shows "grows t0 t' \<and> (\<forall>seg. x = Inr seg \<longrightarrow> fresh_segment tag t0 seg t')"
proof -
  let ?t = "at_before a t0"
  note l = legal_attemptD [OF assms(1,2)]
  note race = legal_attemptD(3) [OF assms(1) l(2)]
  have "grows ?t t' \<and> (\<forall>seg. x = Inr seg \<longrightarrow> fresh_segment tag ?t seg t')"
  proof (cases "sql_row (live_tag tag) ?t")
    case None
    then show ?thesis using assms(3) race grows_refl [OF l(2)]
      by (auto simp: fetchPostgreSQLSegment_def update_returning_def split: option.splits)
  next
    case (Some r)
    then have r: "r \<in> set ?t" "biz_tag r = tag" "0 < step r" by (auto dest!: sql_row_SomeD simp: is_tag_def)
    show ?thesis
    proof (cases "max_id r + step r > MaxInt64")
      case True
      then show ?thesis using assms(3) Some grows_refl [OF l(2)]
        by (auto simp: fetchPostgreSQLSegment_def update_returning_def split: option.splits)
    next
      case False
      then have m: "max_id r + step r \<le> MaxInt64" by simp
      show ?thesis using assms(3) Some m grows_refl [OF l(2)] advance_fresh [OF l(2) r m] makeSegment_advance [OF l(2) r(1,3) m]
        by (auto simp: fetchPostgreSQLSegment_def update_returning_def Let_def split: option.splits commit_outcome.splits)
    qed
  qed
  then show ?thesis using l(1) grows_trans fresh_segment_mono by blast
qed

lemma fetchMySQLSegmentOnce_step:
  assumes "legal_attempt a" and "tbl_ok t0" and "fetchMySQLSegmentOnce a tag t0 = (x, t')"
  shows "grows t0 t' \<and> (\<forall>seg. x = Inr seg \<longrightarrow> fresh_segment tag t0 seg t')"
proof -
  let ?t = "at_before a t0"
  note l = legal_attemptD [OF assms(1,2)]
  have "grows ?t t' \<and> (\<forall>seg. x = Inr seg \<longrightarrow> fresh_segment tag ?t seg t')"
  proof (cases "sql_row (is_tag tag) ?t")
    case None
    then show ?thesis using assms(3) grows_refl [OF l(2)]
      by (auto simp: fetchMySQLSegmentOnce_def Let_def split: option.splits)
  next
    case (Some r)
    then have r: "r \<in> set ?t" "biz_tag r = tag" by (auto dest!: sql_row_SomeD simp: is_tag_def)
    show ?thesis
    proof (cases "step r \<le> 0 \<or> max_id r > MaxInt64 - step r")
      case True
      then show ?thesis using assms(3) Some grows_refl [OF l(2)]
        by (auto simp: fetchMySQLSegmentOnce_def Let_def split: option.splits if_splits)
    next
      case False
      then have m: "0 < step r" "max_id r + step r \<le> MaxInt64" by auto
      have i: "i64 (max_id r + step r) = max_id r + step r"
        using l(2) r m by (auto simp: tbl_ok_def i64_id in_i64_def MinInt64_def MaxInt64_def)
      show ?thesis
        using assms(3) Some m False grows_refl [OF l(2)] advance_fresh [OF l(2) r m] makeSegment_advance [OF l(2) r(1) m]
          mysql_update_is_advance [OF l(2) r m] i
        by (auto simp: fetchMySQLSegmentOnce_def Let_def split: option.splits commit_outcome.splits)
    qed
  qed
  then show ?thesis using l(1) grows_trans fresh_segment_mono by blast
qed

lemma retry_from_step:
  assumes op: "\<And>i t x t'. tbl_ok t \<Longrightarrow> op i t = (x, t') \<Longrightarrow> grows t t' \<and> (\<forall>v. x = Inr v \<longrightarrow> Q t v t')"
    and Q: "\<And>t0 t v t'. grows t0 t \<Longrightarrow> Q t v t' \<Longrightarrow> Q t0 v t'"
    and "tbl_ok t" and "retry_from n e c op d t = (x, t')"
  shows "grows t t' \<and> (\<forall>v. x = Inr v \<longrightarrow> Q t v t')"
  using assms(3,4)
proof (induction n arbitrary: t e)
  case (Suc n)
  obtain y t1 where y: "op (databaseRetries - Suc n) t = (y, t1)" by fastforce
  have s: "grows t t1" "tbl_ok t1" "\<forall>v. y = Inr v \<longrightarrow> Q t v t1" using op [OF Suc.prems(1) y] by (auto simp: grows_def)
  show ?case
  proof (cases y)
    case (Inl e')
    show ?thesis
    proof (cases "c (databaseRetries - Suc n) \<or> \<not> retryable d e'")
      case True
      then show ?thesis using Suc.prems y Inl s grows_refl by (auto simp: Let_def split: if_splits)
    next
      case False
      then have "retry_from n e' c op d t1 = (x, t')" using Suc.prems(2) y Inl by (simp add: Let_def)
      then show ?thesis using Suc.IH [OF s(2)] s(1) Q grows_trans by blast
    qed
  next
    case (Inr v)
    then show ?thesis using Suc.prems y s grows_refl by (auto simp: Let_def split: if_splits)
  qed
qed (auto simp: grows_refl)

lemma fetchSegment_step:
  assumes "legal_env ev" and "tbl_ok t" and "fetchSegment d ev tag t = (x, t')"
  shows "grows t t' \<and> (\<forall>seg. x = Inr seg \<longrightarrow> fresh_segment tag t seg t')"
proof -
  have l: "legal_attempt (se_attempt ev i)" for i using assms(1) by (simp add: legal_env_def)
  show ?thesis
  proof (cases d)
    case Pgx
    show ?thesis using assms(3) unfolding fetchSegment_def Pgx driver.case retry_def
      by (intro retry_from_step [OF fetchPostgreSQLSegment_step [OF l] fresh_segment_mono assms(2)])
  next
    case MySQL
    show ?thesis using assms(3) unfolding fetchSegment_def MySQL driver.case retry_def
      by (intro retry_from_step [OF fetchMySQLSegmentOnce_step [OF l] fresh_segment_mono assms(2)])
  qed
qed

lemma initTag_grows:
  assumes "legal_env ev" and "tbl_ok t" and "0 \<le> startID" "startID \<le> MaxInt64" "st < 2 ^ 31"
  shows "grows t (snd (initTag d ev tag startID st t))"
proof -
  have l: "legal_attempt (se_attempt ev i)" for i using assms(1) by (simp add: legal_env_def)
  have pg: "grows t t' \<and> (\<forall>v. x = Inr v \<longrightarrow> True)" if "tbl_ok t" "initPostgreSQLTag (se_attempt ev i) tag startID st t = (x, t')" for i t x t'
    using initPostgreSQLTag_grows [OF l that(1) assms(3-5), of i tag] that(2) by simp
  have my: "grows t t' \<and> (\<forall>v. x = Inr v \<longrightarrow> True)" if "tbl_ok t" "initMySQLTagOnce (se_attempt ev i) tag startID st t = (x, t')" for i t x t'
    using initMySQLTagOnce_grows [OF l that(1) assms(3-5), of i tag] that(2) by simp
  obtain x t' where e: "initTag d ev tag startID st t = (x, t')" by fastforce
  have "grows t t' \<and> (\<forall>v. x = Inr v \<longrightarrow> True)"
  proof (cases d)
    case Pgx
    show ?thesis using e unfolding initTag_def Pgx driver.case retry_def
      by (intro retry_from_step [where Q = "\<lambda>_ _ _. True", OF pg _ assms(2)])
  next
    case MySQL
    show ?thesis using e unfolding initTag_def MySQL driver.case retry_def
      by (intro retry_from_step [where Q = "\<lambda>_ _ _. True", OF my _ assms(2)])
  qed
  then show ?thesis using e by simp
qed

section \<open>The storage contract\<close>

text \<open>
  What the two storage operations promise, stated on the table alone, and the quiet
  environment in which nothing fails and nobody interferes.
\<close>

definition fetch_spec :: "string \<Rightarrow> int64 \<Rightarrow> tag_row list \<Rightarrow> (seg_error + Segment) \<times> tag_row list" where
  "fetch_spec tag now t =
     (case sql_row (is_tag tag) t of
        None \<Rightarrow> (Inl ErrBizTagNotFound, t)
      | Some r \<Rightarrow>
          if step r \<le> 0 then (Inl ErrInvalidConfig, t)
          else if max_id r + step r > MaxInt64 then (Inl ErrIDOverflow, t)
          else (Inr \<lparr>Start = max_id r + 1, End = max_id r + step r, Current = max_id r + 1\<rparr>,
                sql_update (is_tag tag) (advance now) t))"

definition init_spec :: "string \<Rightarrow> int64 \<Rightarrow> int32 \<Rightarrow> int64 \<Rightarrow> tag_row list \<Rightarrow> tag_row list" where
  "init_spec tag startID st now t =
     (if tag \<in> biz_tag ` set t then sql_update (is_tag tag) (set_step st now) t else t @ [new_tag tag startID st now])"

definition quiet :: "int64 \<Rightarrow> store_env" where
  "quiet now = \<lparr>se_ctx_done = (\<lambda>_. False),
     se_attempt = (\<lambda>_. \<lparr>at_before = id, at_race = id, at_flt = (\<lambda>_. None), at_commit = CommitOk, at_now = now\<rparr>)\<rparr>"

lemma legal_quiet: "legal_env (quiet now)"
  by (simp add: legal_env_def quiet_def legal_attempt_def grows_refl)

lemma retry_first:
  assumes "op 0 t = (x, t')" and "\<not> c 0" and "\<And>e. x = Inl e \<Longrightarrow> \<not> retryable d e"
  shows "retry c op d t = (x, t')"
  using assms by (cases x) (simp_all add: retry_def databaseRetries_def eval_nat_numeral Let_def)

lemma fetch_spec_not_retryable: "fetch_spec tag now t = (Inl e, t') \<Longrightarrow> \<not> retryable False e"
  by (auto simp: fetch_spec_def retryable_def split: option.splits if_splits)

lemma live_update_eq:
  assumes "tbl_ok t" and "r \<in> set t" and "biz_tag r = tag" and "0 < step r"
  shows "sql_update (live_tag tag) f t = sql_update (is_tag tag) f t"
proof -
  have "live_tag tag s \<longleftrightarrow> is_tag tag s" if "s \<in> set t" for s
    using tag_row_unique [OF assms(1-3) that] assms(4) by (auto simp: is_tag_def)
  then show ?thesis by (simp add: sql_update_def)
qed

lemma fetch_attempt_spec:
  assumes "tbl_ok t" and a: "a = se_attempt (quiet now) i"
  shows "fetchPostgreSQLSegment a tag t = fetch_spec tag now t" "fetchMySQLSegmentOnce a tag t = fetch_spec tag now t"
proof -
  have "fetchPostgreSQLSegment a tag t = fetch_spec tag now t \<and> fetchMySQLSegmentOnce a tag t = fetch_spec tag now t"
  proof (cases "sql_row (is_tag tag) t")
    case None
    then have "sql_row (live_tag tag) t = None" by (auto simp: sql_row_None)
    then show ?thesis using None
      by (simp add: a quiet_def fetchPostgreSQLSegment_def update_returning_def fetchMySQLSegmentOnce_def fetch_spec_def Let_def)
  next
    case (Some r)
    then have r: "r \<in> set t" "biz_tag r = tag" by (auto dest!: sql_row_SomeD simp: is_tag_def)
    show ?thesis
    proof (cases "step r \<le> 0")
      case True
      then have "\<not> live_tag tag s" if "s \<in> set t" for s
        using tag_row_unique [OF assms(1) r that] by (auto simp: is_tag_def)
      then have "sql_row (live_tag tag) t = None" by (simp add: sql_row_None)
      then show ?thesis using Some True
        by (simp add: a quiet_def fetchPostgreSQLSegment_def update_returning_def fetchMySQLSegmentOnce_def fetch_spec_def Let_def)
    next
      case False
      then have st: "0 < step r" by simp
      show ?thesis
      proof (cases "max_id r + step r > MaxInt64")
        case True
        then show ?thesis using Some st live_row [OF assms(1) r st]
          by (simp add: a quiet_def fetchPostgreSQLSegment_def update_returning_def fetchMySQLSegmentOnce_def fetch_spec_def
              Let_def isNumericOverflow_def)
      next
        case False
        then have m: "max_id r + step r \<le> MaxInt64" by simp
        have i: "i64 (max_id r + step r) = max_id r + step r"
          using assms(1) r st m by (auto simp: tbl_ok_def i64_id in_i64_def MinInt64_def MaxInt64_def)
        show ?thesis
          using Some st m live_row [OF assms(1) r st] makeSegment_advance [OF assms(1) r(1) st m]
            mysql_update_is_advance [OF assms(1) r st m, of now] live_update_eq [OF assms(1) r st, of "advance now"] i
          by (simp add: a quiet_def fetchPostgreSQLSegment_def update_returning_def fetchMySQLSegmentOnce_def fetch_spec_def Let_def)
      qed
    qed
  qed
  then show "fetchPostgreSQLSegment a tag t = fetch_spec tag now t" "fetchMySQLSegmentOnce a tag t = fetch_spec tag now t" by auto
qed

lemma fetchSegment_quiet:
  assumes "tbl_ok t"
  shows "fetchSegment d (quiet now) tag t = fetch_spec tag now t"
proof -
  obtain x t' where e: "fetch_spec tag now t = (x, t')" by fastforce
  have "retry (se_ctx_done (quiet now)) (\<lambda>i. fetchPostgreSQLSegment (se_attempt (quiet now) i) tag) False t = (x, t')"
      "retry (se_ctx_done (quiet now)) (\<lambda>i. fetchMySQLSegmentOnce (se_attempt (quiet now) i) tag) False t = (x, t')"
    using fetch_attempt_spec [OF assms refl, of now 0 tag] fetch_spec_not_retryable [of tag now t] e
    by (auto intro!: retry_first simp: quiet_def)
  then show ?thesis using e by (cases d) (simp_all add: fetchSegment_def)
qed


definition demo_tags :: "tag_row list" where
  "demo_tags = [new_tag ''order'' 41 10 5, new_tag ''last'' 9223372036854775800 7 5]"

lemma demo_tags_ok: "tbl_ok demo_tags"
  by (simp add: tbl_ok_def demo_tags_def new_tag_def pk_def MaxInt64_def)


section \<open>The buffer and the generator\<close>

text \<open>
  Preloading. For a segment of at most \<open>2^31\<close> identifiers the wrap-around arithmetic of
  the preload test never interferes: taking an identifier starts a loader exactly when none is
  running, no next segment is waiting, the generator is active and at least a fifth of the
  current segment has been handed out. The identifier is the cursor, which then moves on by
  one or, at the end of the segment, turns into the exhausted flag, so it never overflows.
\<close>

theorem take_id_preload:
  assumes "0 \<le> Start cur" "Start cur \<le> Current cur" "Current cur \<le> End cur" "End cur \<le> MaxInt64" "End cur - Start cur < 2 ^ 31"
    and "take_id active cur b = (i, spawn, b')"
  shows "i = Current cur
     \<and> (spawn \<longleftrightarrow> active \<and> \<not> sb_loading b \<and> sb_next b = None \<and> End cur - Start cur + 1 \<le> 5 * (Current cur - Start cur + 1))
     \<and> sb_next b' = sb_next b \<and> sb_loading b' = (sb_loading b \<or> spawn)
     \<and> sb_exhausted b' = (sb_exhausted b \<or> Current cur = End cur)
     \<and> sb_current b' = Some (if Current cur = End cur then cur else cur\<lparr>Current := Current cur + 1\<rparr>)"
proof -
  have w: "i64 (i64 (End cur - Start cur) + 1) = End cur - Start cur + 1"
      "i64 (i64 (Current cur - Start cur) + 1) = Current cur - Start cur + 1"
      "i64 ((Current cur - Start cur + 1) * 5) = 5 * (Current cur - Start cur + 1)"
      "i64 (End cur - Start cur + 1) = End cur - Start cur + 1"
      "Current cur \<noteq> End cur \<Longrightarrow> i64 (Current cur + 1) = Current cur + 1"
    using assms(1-5) by (auto simp: i64_id in_i64_def MinInt64_def MaxInt64_def)
  show ?thesis using assms(6) w assms(1-3)
    by (auto simp: take_id_def maybeStartPreloadLocked_def preloadDenominator_def preloadNumerator_def Let_def
        split: if_splits prod.splits)
qed

theorem take_id_preload_witness:
  "fst (snd (take_id True \<lparr>Start = 1, End = 10, Current = 2\<rparr> (new_buffer ''order'')))
   \<and> \<not> fst (snd (take_id True \<lparr>Start = 1, End = 11, Current = 2\<rparr> (new_buffer ''order'')))"
proof -
  obtain i sp b' where e: "take_id True \<lparr>Start = 1, End = 10, Current = 2\<rparr> (new_buffer ''order'') = (i, sp, b')"
    by (rule prod_cases3)
  obtain i2 sp2 b2 where e2: "take_id True \<lparr>Start = 1, End = 11, Current = 2\<rparr> (new_buffer ''order'') = (i2, sp2, b2)"
    by (rule prod_cases3)
  show ?thesis using take_id_preload [OF _ _ _ _ _ e] take_id_preload [OF _ _ _ _ _ e2] e e2
    by (simp add: new_buffer_def MaxInt64_def)
qed

text \<open>
  Closed generators. After \<open>Close\<close>, or on a nil generator, \<open>Init\<close> and \<open>GetID\<close> of a valid
  tag with a non-nil context fail with \<open>ErrClosed\<close> without touching the store or the
  generator; and an operation that was already running when the generator closed reports its
  own error as \<open>ErrClosed\<close>.
\<close>

lemma deliver_loads_closed: "g_closed (deliver_loads res loads g) = g_closed g"
  unfolding deliver_loads_def by (induction loads arbitrary: g) (simp_all add: set_buffer_def)

lemma Close_closed: "\<exists>g'. snd (Close res (Some g)) = Some g' \<and> \<not> seg_active g' \<and> g_async g' = []"
  by (simp add: Close_def seg_active_def deliver_loads_closed)

theorem closed_generator_refuses:
  assumes "validateBizTag tag = Inr ()" and "0 \<le> startID"
    and "gen = None \<or> gen = snd (Close res (Some g))"
  shows "Init init fetch others False ctx_ended tag startID st gen s = Some (Some ErrClosed, gen, s)
     \<and> GetID init fetch others False ctx_ended ctx_ended2 turns tag gen s = Some (Inl ErrClosed, gen, s)"
proof (cases gen)
  case None
  then show ?thesis by (simp add: Init_def GetID_def)
next
  case (Some g')
  then have "\<not> seg_active g'" using assms(3) Close_closed [of res g] by auto
  then show ?thesis using Some assms(1,2) by (simp add: Init_def GetID_def ensureDefaultBuffer_def operationContext_def)
qed

theorem closed_generator_refuses_witness:
  "GetID (\<lambda>_ _ _ s. (Inr (), s)) (\<lambda>_ s. (Inl ErrIDOverflow, s)) id False False False [] ''order'' (snd (Close (\<lambda>_. Inl ErrContext) (Some (newSegmentIDGen False)))) ()
     = Some (Inl ErrClosed, snd (Close (\<lambda>_. Inl ErrContext) (Some (newSegmentIDGen False))), ())"
proof -
  have "validateBizTag ''order'' = Inr ()"
    using plain_name [of "CHR ''o''" "''rder''"]
    by (simp add: validateBizTag_def maxBizTagLength_def byte_def is_space_def)
  from closed_generator_refuses [OF this order_refl disjI2 [OF refl]] show ?thesis by (rule conjunct2)
qed

end
