(* ===== verification/Kc_Segment_System.thy ===== *)
theory Kc_Segment_System
  imports Kc_Segment
begin

text \<open>
  Many segment generators on one tag table: every interleaving of the lock sections and store
  calls of any number of processes. The store is known to a generator only as the Go interface
  \<open>segmentStore\<close>; the locale \<open>segment_store\<close> is its contract, in which the uniqueness of the
  identifiers is proved once, and the SQL storage of both dialects interprets it.

  A buffer is named by the pair of its generator and its address. A store call takes effect at
  its last attempt: what earlier attempts and other sessions did to the table before it is in
  its environment. A loader goroutine has two sections, its store call and the delivery.
\<close>

section \<open>The system\<close>

datatype buffer_name = Buffer nat nat

datatype loader = NoLoader | Started nat | Fetched nat "seg_error + Segment"

record 'st seg_system =
  sys_store :: 'st
  sys_buf :: "buffer_name \<Rightarrow> segmentBuffer option"
  sys_loader :: "buffer_name \<Rightarrow> loader"
  sys_log :: "(buffer_name \<times> string \<times> int64) list"

definition log_result :: "buffer_name \<Rightarrow> string \<Rightarrow> turn \<Rightarrow> (buffer_name \<times> string \<times> int64) list" where
  "log_result k tag r = (case r of Return (Inr i) \<Rightarrow> [(k, tag, i)] | _ \<Rightarrow> [])"

inductive seg_step ::
  "('e \<Rightarrow> bool) \<Rightarrow> ('e \<Rightarrow> string \<Rightarrow> int64 \<Rightarrow> int32 \<Rightarrow> 'st \<Rightarrow> (seg_error + unit) \<times> 'st) \<Rightarrow> ('e \<Rightarrow> string \<Rightarrow> 'st \<Rightarrow> (seg_error + Segment) \<times> 'st)
    \<Rightarrow> 'st seg_system \<Rightarrow> 'st seg_system \<Rightarrow> bool"
  for legal init fetch
where
  init_tag:
    "legal e \<Longrightarrow> 0 \<le> startID \<Longrightarrow> startID \<le> MaxInt64 \<Longrightarrow> st < 2 ^ 31 \<Longrightarrow>
     init e tag startID st (sys_store s) = (x, store') \<Longrightarrow>
     seg_step legal init fetch s (s\<lparr>sys_store := store'\<rparr>)"
| create:
    "legal e \<Longrightarrow> sys_buf s k = None \<Longrightarrow> fetch e tag (sys_store s) = (Inr seg, store') \<Longrightarrow>
     seg_step legal init fetch s
       (s\<lparr>sys_store := store', sys_buf := (sys_buf s)(k \<mapsto> (new_buffer tag)\<lparr>sb_current := Some seg, sb_ready := True\<rparr>)\<rparr>)"
| create_failed:
    "legal e \<Longrightarrow> fetch e tag (sys_store s) = (Inl err, store') \<Longrightarrow> seg_step legal init fetch s (s\<lparr>sys_store := store'\<rparr>)"
| next_id:
    "legal e \<Longrightarrow> sys_buf s k = Some b \<Longrightarrow>
     nextID_turn (fetch e (sb_bizTag b)) active b (sys_store s) = (r, spawn, b', store') \<Longrightarrow>
     seg_step legal init fetch s
       (s\<lparr>sys_store := store', sys_buf := (sys_buf s)(k \<mapsto> b'),
          sys_loader := (if spawn then (sys_loader s)(k := Started (sb_loadDone b')) else sys_loader s),
          sys_log := sys_log s @ log_result k (sb_bizTag b) r\<rparr>)"
| load_fetch:
    "legal e \<Longrightarrow> sys_buf s k = Some b \<Longrightarrow> sys_loader s k = Started ch \<Longrightarrow>
     fetch e (sb_bizTag b) (sys_store s) = (x, store') \<Longrightarrow>
     seg_step legal init fetch s (s\<lparr>sys_store := store', sys_loader := (sys_loader s)(k := Fetched ch x)\<rparr>)"
| load_deliver:
    "sys_buf s k = Some b \<Longrightarrow> sys_loader s k = Fetched ch x \<Longrightarrow>
     seg_step legal init fetch s
       (s\<lparr>sys_buf := (sys_buf s)(k \<mapsto> loadNext ch x b), sys_loader := (sys_loader s)(k := NoLoader)\<rparr>)"

inductive seg_run ::
  "('e \<Rightarrow> bool) \<Rightarrow> ('e \<Rightarrow> string \<Rightarrow> int64 \<Rightarrow> int32 \<Rightarrow> 'st \<Rightarrow> (seg_error + unit) \<times> 'st) \<Rightarrow> ('e \<Rightarrow> string \<Rightarrow> 'st \<Rightarrow> (seg_error + Segment) \<times> 'st)
    \<Rightarrow> 'st seg_system \<Rightarrow> 'st seg_system \<Rightarrow> bool"
  for legal init fetch
where
  run_start: "seg_run legal init fetch s s"
| run_step: "seg_run legal init fetch s s1 \<Longrightarrow> seg_step legal init fetch s1 s2 \<Longrightarrow> seg_run legal init fetch s s2"

definition seg_start :: "'st \<Rightarrow> 'st seg_system" where
  "seg_start store = \<lparr>sys_store = store, sys_buf = (\<lambda>_. None), sys_loader = (\<lambda>_. NoLoader), sys_log = []\<rparr>"

section \<open>What a buffer still holds\<close>

definition left_ids :: "Segment \<Rightarrow> int set" where
  "left_ids seg = {Current seg .. End seg}"

definition cur_ids :: "segmentBuffer \<Rightarrow> int set" where
  "cur_ids b = (case sb_current b of None \<Rightarrow> {} | Some seg \<Rightarrow> if sb_exhausted b then {} else left_ids seg)"

definition next_ids :: "segmentBuffer \<Rightarrow> int set" where
  "next_ids b = (case sb_next b of None \<Rightarrow> {} | Some seg \<Rightarrow> left_ids seg)"

definition load_ids :: "loader \<Rightarrow> int set" where
  "load_ids l = (case l of Fetched ch (Inr seg) \<Rightarrow> left_ids seg | _ \<Rightarrow> {})"

definition held :: "segmentBuffer \<Rightarrow> loader \<Rightarrow> int set" where
  "held b l = cur_ids b \<union> next_ids b \<union> load_ids l"

definition good_seg :: "Segment \<Rightarrow> bool" where
  "good_seg seg \<longleftrightarrow> 0 < Current seg \<and> Current seg \<le> End seg \<and> End seg \<le> MaxInt64"

definition loader_sync :: "segmentBuffer \<Rightarrow> loader \<Rightarrow> bool" where
  "loader_sync b l =
     (case l of NoLoader \<Rightarrow> \<not> sb_loading b
      | Started ch \<Rightarrow> sb_loading b \<and> sb_loadDone b = ch
      | Fetched ch r \<Rightarrow> sb_loading b \<and> sb_loadDone b = ch)"

text \<open>
  The invariant of one buffer against the bound \<open>h\<close> of its tag and the identifiers \<open>old\<close> it
  has handed out: identifiers come in the order old, current, next or loading; the loading flag
  and the loader agree, and nothing loads while a next segment waits.
\<close>

definition buf_inv :: "int \<Rightarrow> int set \<Rightarrow> segmentBuffer \<Rightarrow> loader \<Rightarrow> bool" where
  "buf_inv h old b l \<longleftrightarrow>
     held b l \<subseteq> {..h}
     \<and> (\<forall>i \<in> old. i \<le> h \<and> (\<forall>j \<in> held b l. i < j))
     \<and> (\<forall>i \<in> cur_ids b. \<forall>j \<in> next_ids b \<union> load_ids l. i < j)
     \<and> loader_sync b l \<and> (sb_loading b \<longrightarrow> sb_next b = None)
     \<and> (\<forall>seg. sb_current b = Some seg \<or> sb_next b = Some seg \<or> (\<exists>ch. l = Fetched ch (Inr seg)) \<longrightarrow> good_seg seg)"

lemmas ids_defs = cur_ids_def next_ids_def load_ids_def left_ids_def

lemma buf_inv_mono: "buf_inv h old b l \<Longrightarrow> h \<le> h' \<Longrightarrow> buf_inv h' old b l"
  unfolding buf_inv_def by (meson atMost_subset_iff order_trans)

lemma i64_succ: "good_seg seg \<Longrightarrow> Current seg \<noteq> End seg \<Longrightarrow> i64 (Current seg + 1) = Current seg + 1"
  by (auto simp: good_seg_def i64_id in_i64_def MinInt64_def MaxInt64_def)

definition after_spawn :: "bool \<Rightarrow> segmentBuffer \<Rightarrow> loader \<Rightarrow> loader" where
  "after_spawn spawn b l = (if spawn then Started (sb_loadDone b) else l)"

text \<open>What preloading can change: the loading flag and the channel, and only when nothing loads.\<close>

lemma maybeStartPreloadLocked_frame:
  assumes "maybeStartPreloadLocked active i cur b = (spawn, b')"
  shows "(\<exists>ld n. b' = b\<lparr>sb_loading := ld, sb_loadDone := n\<rparr> \<and> ld = (sb_loading b \<or> spawn))
     \<and> (b' = b \<and> \<not> spawn \<or> \<not> sb_loading b \<and> sb_next b = None)"
proof -
  consider "b' = b" "\<not> spawn"
    | "\<not> sb_loading b" "sb_next b = None" "b' = b\<lparr>sb_loading := spawn, sb_loadDone := Suc (sb_loadDone b)\<rparr>"
    using assms unfolding maybeStartPreloadLocked_def Let_def by (fastforce split: if_splits)
  then show ?thesis
  proof cases
    case 1
    then have "b' = b\<lparr>sb_loading := sb_loading b, sb_loadDone := sb_loadDone b\<rparr>" by simp
    then show ?thesis using 1 by blast
  next
    case 2
    then show ?thesis by auto
  qed
qed

lemma take_id_step:
  assumes inv: "buf_inv h old b l" and cur: "sb_current b = Some cur" "\<not> sb_exhausted b"
    and t: "take_id active cur b = (i, spawn, b')"
  shows "buf_inv h (insert i old) b' (after_spawn spawn b' l) \<and> held b' (after_spawn spawn b' l) \<subseteq> held b l
     \<and> i \<in> held b l \<and> sb_bizTag b' = sb_bizTag b \<and> 0 < i \<and> i \<le> MaxInt64"
proof -
  have g: "good_seg cur" using inv cur by (auto simp: buf_inv_def)
  let ?last = "Current cur = End cur"
  let ?c = "if ?last then cur else cur\<lparr>Current := Current cur + 1\<rparr>"
  let ?b = "b\<lparr>sb_current := Some ?c, sb_exhausted := ?last\<rparr>"
  have "maybeStartPreloadLocked active i ?c ?b = (spawn, b')" and i: "i = Current cur"
    using t cur(2) i64_succ [OF g] by (auto simp: take_id_def Let_def split: prod.splits if_splits)
  note f = maybeStartPreloadLocked_frame [OF this(1)]
  obtain ld n where b': "b' = ?b\<lparr>sb_loading := ld, sb_loadDone := n\<rparr>" and ld: "ld = (sb_loading b \<or> spawn)"
    using f by auto
  have old: "held b l = {Current cur .. End cur} \<union> next_ids b \<union> load_ids l"
    using cur by (simp add: held_def ids_defs)
  have c': "cur_ids b' = {Current cur <.. End cur}" using g unfolding b' by (auto simp: ids_defs)
  have n': "next_ids b' = next_ids b" unfolding b' by (simp add: next_ids_def)
  have sync: "\<not> sb_loading b \<Longrightarrow> l = NoLoader" using inv by (auto simp: buf_inv_def loader_sync_def split: loader.splits)
  have l': "load_ids (after_spawn spawn b' l) = load_ids l"
    using f sync by (auto simp: after_spawn_def load_ids_def)
  have s': "loader_sync b' (after_spawn spawn b' l)"
  proof (cases "sb_loading b")
    case True
    then have "b' = ?b" "\<not> spawn" using f by auto
    then show ?thesis using inv by (auto simp: after_spawn_def buf_inv_def loader_sync_def split: loader.splits)
  next
    case False
    then show ?thesis using sync ld unfolding b' by (auto simp: after_spawn_def loader_sync_def)
  qed
  have h': "held b' (after_spawn spawn b' l) = {Current cur <.. End cur} \<union> next_ids b \<union> load_ids l"
    by (simp add: held_def c' n' l')
  have ord: "\<forall>j \<in> next_ids b \<union> load_ids l. Current cur < j"
    using inv cur g by (auto simp: buf_inv_def ids_defs good_seg_def)
  have good': "good_seg ?c" using g by (auto simp: good_seg_def)
  have nx: "sb_loading b' \<longrightarrow> sb_next b' = None"
    using inv f ld unfolding b' by (auto simp: buf_inv_def)
  have segs: "good_seg seg" if "sb_current b' = Some seg \<or> sb_next b' = Some seg \<or> (\<exists>ch. after_spawn spawn b' l = Fetched ch (Inr seg))" for seg
    using that inv good' unfolding b' by (auto simp: buf_inv_def after_spawn_def split: if_splits)
  have sub: "held b' (after_spawn spawn b' l) \<subseteq> held b l" and mem: "i \<in> held b l"
    using g unfolding h' old i by (auto simp: good_seg_def)
  have cur_sub: "cur_ids b' \<subseteq> cur_ids b" using cur unfolding c' by (auto simp: ids_defs)
  have "buf_inv h (insert i old) b' (after_spawn spawn b' l)"
    unfolding buf_inv_def
  proof (intro conjI)
    show "held b' (after_spawn spawn b' l) \<subseteq> {..h}" using sub inv by (auto simp: buf_inv_def)
    have "\<forall>j \<in> held b' (after_spawn spawn b' l). i < j" using ord unfolding h' i by auto
    then show "\<forall>i \<in> insert i old. i \<le> h \<and> (\<forall>j \<in> held b' (after_spawn spawn b' l). i < j)"
      using sub mem inv unfolding buf_inv_def by blast
    show "\<forall>i \<in> cur_ids b'. \<forall>j \<in> next_ids b' \<union> load_ids (after_spawn spawn b' l). i < j"
      using cur_sub inv unfolding n' l' buf_inv_def by blast
    show "\<forall>seg. sb_current b' = Some seg \<or> sb_next b' = Some seg \<or> (\<exists>ch. after_spawn spawn b' l = Fetched ch (Inr seg)) \<longrightarrow> good_seg seg"
      using segs by blast
  qed (use s' nx in auto)
  then show ?thesis using sub mem g i by (simp add: b' good_seg_def)
qed

text \<open>Moving the next segment, or a fresh one, into the current place.\<close>

lemma switch_next:
  assumes "buf_inv h old b l" and "cur_ids b = {}" and "sb_next b = Some nxt"
    and "b' = b\<lparr>sb_current := Some nxt, sb_exhausted := False, sb_next := None\<rparr>"
  shows "buf_inv h old b' l \<and> held b' l = held b l"
proof -
  have "l = NoLoader" using assms(1,3) by (auto simp: buf_inv_def loader_sync_def split: loader.splits)
  then show ?thesis using assms unfolding buf_inv_def held_def
    by (auto simp: ids_defs loader_sync_def)
qed

lemma switch_fresh:
  assumes "buf_inv h old b l" and "cur_ids b = {}" and "sb_next b = None" and "\<not> sb_loading b"
    and "good_seg seg" and "h < Current seg" and "End seg \<le> h'"
    and "b' = b\<lparr>sb_current := Some seg, sb_exhausted := False\<rparr>"
  shows "buf_inv h' old b' l \<and> held b' l \<subseteq> {h <.. h'}"
proof -
  have "l = NoLoader" using assms(1,4) by (auto simp: buf_inv_def loader_sync_def split: loader.splits)
  then show ?thesis using assms unfolding buf_inv_def held_def
    by (auto simp: ids_defs loader_sync_def good_seg_def)
qed

text \<open>One lock section of \<open>nextID\<close>, one store call and one delivery of a loader.\<close>

definition got :: "turn \<Rightarrow> int set" where
  "got r = (case r of Return (Inr i) \<Rightarrow> {i} | _ \<Rightarrow> {})"

lemma nextID_turn_step:
  assumes inv: "buf_inv h old b l" and h: "h \<le> h'"
    and t: "nextID_turn fetch active b st = (r, spawn, b', st')"
    and f: "\<And>seg. fetch st = (Inr seg, st') \<Longrightarrow> good_seg seg \<and> h < Current seg \<and> End seg \<le> h'"
  shows "buf_inv h' (old \<union> got r) b' (after_spawn spawn b' l) \<and> held b' (after_spawn spawn b' l) \<subseteq> held b l \<union> {h <.. h'}
     \<and> got r \<subseteq> held b l \<union> {h <.. h'} \<and> sb_bizTag b' = sb_bizTag b \<and> got r \<subseteq> {0 <.. MaxInt64}"
proof -
  have taken: ?thesis
    if "buf_inv h' old b1 l" "held b1 l \<subseteq> held b l \<union> {h <.. h'}" "sb_current b1 = Some c" "\<not> sb_exhausted b1"
      "take_id active c b1 = (i, spawn, b')" "r = Return (Inr i)" "sb_bizTag b1 = sb_bizTag b" for b1 c i
    using take_id_step [OF that(1,3,4,5)] that(2,6,7) by (auto simp: got_def)
  have same: ?thesis if "r = Return (Inl e) \<or> r = WaitLoad n" "\<not> spawn" "b' = b" for e n
    using that buf_inv_mono [OF inv h] by (auto simp: got_def after_spawn_def)
  show ?thesis
  proof (cases "sb_current b")
    case None
    then have "r = Return (Inl ErrBizTagNotFound)" "\<not> spawn" "b' = b" using t by (auto simp: nextID_turn_def)
    then show ?thesis using same by blast
  next
    case (Some c)
    show ?thesis
    proof (cases "sb_exhausted b \<or> Current c > End c")
      case False
      then show ?thesis using t Some taken [of b c] buf_inv_mono [OF inv h] by (auto simp: nextID_turn_def split: prod.splits)
    next
      case True
      then have empty: "cur_ids b = {}" using Some by (auto simp: ids_defs)
      show ?thesis
      proof (cases "sb_next b")
        case (Some nxt)
        let ?b = "b\<lparr>sb_current := Some nxt, sb_exhausted := False, sb_next := None\<rparr>"
        have "buf_inv h' old ?b l \<and> held ?b l = held b l"
          using switch_next [OF buf_inv_mono [OF inv h] empty Some refl] .
        moreover obtain i where "take_id active nxt ?b = (i, spawn, b')" "r = Return (Inr i)"
          using t True Some \<open>sb_current b = Some c\<close> by (auto simp: nextID_turn_def split: prod.splits)
        ultimately show ?thesis using taken [of ?b nxt i] by auto
      next
        case None
        note n = None
        show ?thesis
        proof (cases "sb_loading b")
          case True
          then have "r = WaitLoad (sb_loadDone b)" "\<not> spawn" "b' = b"
            using t n \<open>sb_exhausted b \<or> Current c > End c\<close> Some by (auto simp: nextID_turn_def)
          then show ?thesis using same by blast
        next
          case False
          show ?thesis
          proof (cases "fst (fetch st)")
            case (Inl e)
            then have "r = Return (Inl e)" "\<not> spawn" "b' = b"
              using t None False True Some by (auto simp: nextID_turn_def split: prod.splits sum.splits)
            then show ?thesis using same by blast
          next
            case (Inr seg)
            let ?b = "b\<lparr>sb_current := Some seg, sb_exhausted := False\<rparr>"
            obtain i where i: "take_id active seg ?b = (i, spawn, b')" "r = Return (Inr i)" "fetch st = (Inr seg, st')"
              using t n False True Some Inr by (auto simp: nextID_turn_def split: prod.splits sum.splits)
            have "buf_inv h' old ?b l \<and> held ?b l \<subseteq> {h <.. h'}"
              using f [OF i(3)] by (intro switch_fresh [OF inv empty n False]) auto
            then show ?thesis using taken [of ?b seg i] i by auto
          qed
        qed
      qed
    qed
  qed
qed

lemma load_fetch_step:
  assumes "buf_inv h old b (Started ch)" and "h \<le> h'"
    and "\<And>seg. x = Inr seg \<Longrightarrow> good_seg seg \<and> h < Current seg \<and> End seg \<le> h'"
  shows "buf_inv h' old b (Fetched ch x) \<and> held b (Fetched ch x) \<subseteq> held b (Started ch) \<union> {h <.. h'}"
proof -
  have new: "load_ids (Fetched ch x) \<subseteq> {h <.. h'}" using assms(3) by (auto simp: ids_defs split: sum.splits)
  have held: "held b (Fetched ch x) = held b (Started ch) \<union> load_ids (Fetched ch x)" by (simp add: held_def load_ids_def)
  have b: "held b (Started ch) \<subseteq> {..h}" "cur_ids b \<subseteq> held b (Started ch)"
    using assms(1) by (auto simp: buf_inv_def held_def)
  have "buf_inv h' old b (Fetched ch x)"
    unfolding buf_inv_def
  proof (intro conjI)
    show "held b (Fetched ch x) \<subseteq> {..h'}" using held new b assms(2) by auto
    show "\<forall>i \<in> old. i \<le> h' \<and> (\<forall>j \<in> held b (Fetched ch x). i < j)"
      using assms(1,2) new unfolding held buf_inv_def by fastforce
    show "\<forall>i \<in> cur_ids b. \<forall>j \<in> next_ids b \<union> load_ids (Fetched ch x). i < j"
      using assms(1) new b unfolding buf_inv_def by fastforce
    show "\<forall>seg. sb_current b = Some seg \<or> sb_next b = Some seg \<or> (\<exists>c. Fetched ch x = Fetched c (Inr seg)) \<longrightarrow> good_seg seg"
      using assms(1,3) by (auto simp: buf_inv_def)
  qed (use assms(1) in \<open>auto simp: buf_inv_def loader_sync_def\<close>)
  then show ?thesis using held new by auto
qed

lemma ids_update [simp]:
  "cur_ids (b\<lparr>sb_loading := ld\<rparr>) = cur_ids b" "next_ids (b\<lparr>sb_loading := ld\<rparr>) = next_ids b"
  "cur_ids (b\<lparr>sb_next := n\<rparr>) = cur_ids b" "next_ids (b\<lparr>sb_next := Some seg\<rparr>) = left_ids seg"
  by (simp_all add: cur_ids_def next_ids_def split: option.splits)

lemma loadNext_step:
  assumes "buf_inv h old b (Fetched ch x)"
  shows "buf_inv h old (loadNext ch x b) NoLoader \<and> held (loadNext ch x b) NoLoader \<subseteq> held b (Fetched ch x)
     \<and> sb_bizTag (loadNext ch x b) = sb_bizTag b"
proof -
  have s: "sb_loading b" "sb_loadDone b = ch" "sb_next b = None" "next_ids b = {}"
    using assms by (auto simp: buf_inv_def loader_sync_def next_ids_def)
  show ?thesis
    using assms s by (cases x) (auto simp: buf_inv_def loader_sync_def loadNext_def held_def load_ids_def)
qed

section \<open>The contract of the store and what follows from it\<close>

definition ids_of :: "buffer_name \<Rightarrow> (buffer_name \<times> string \<times> int64) list \<Rightarrow> int list" where
  "ids_of k log = map (\<lambda>e. snd (snd e)) (filter (\<lambda>e. fst e = k) log)"

lemma ids_of_append: "ids_of k (xs @ ys) = ids_of k xs @ ids_of k ys"
  by (simp add: ids_of_def)

lemma set_ids_of: "set (ids_of k log) = {i. \<exists>tag. (k, tag, i) \<in> set log}"
  by (force simp: ids_of_def)

lemma ids_of_log_result: "ids_of k (log_result j tag r) = (if j = k then (case r of Return (Inr i) \<Rightarrow> [i] | _ \<Rightarrow> []) else [])"
  by (auto simp: ids_of_def log_result_def split: turn.splits sum.splits)

lemma set_log_result: "set (log_result k tag r) = {(k, tag, i) | i. i \<in> got r}"
  by (auto simp: log_result_def got_def split: turn.splits sum.splits)

definition sys_inv :: "('st \<Rightarrow> bool) \<Rightarrow> ('st \<Rightarrow> string \<Rightarrow> int) \<Rightarrow> 'st seg_system \<Rightarrow> bool" where
  "sys_inv ok bound s \<longleftrightarrow>
     ok (sys_store s)
     \<and> (\<forall>k b. sys_buf s k = Some b \<longrightarrow>
          buf_inv (bound (sys_store s) (sb_bizTag b)) (set (ids_of k (sys_log s))) b (sys_loader s k))
     \<and> (\<forall>k1 k2 b1 b2. k1 \<noteq> k2 \<and> sys_buf s k1 = Some b1 \<and> sys_buf s k2 = Some b2 \<and> sb_bizTag b1 = sb_bizTag b2
          \<longrightarrow> held b1 (sys_loader s k1) \<inter> held b2 (sys_loader s k2) = {})
     \<and> (\<forall>k tag i. (k, tag, i) \<in> set (sys_log s) \<longrightarrow>
          i \<le> bound (sys_store s) tag \<and> 0 < i \<and> i \<le> MaxInt64 \<and> (\<exists>b. sys_buf s k = Some b \<and> sb_bizTag b = tag)
          \<and> (\<forall>k' b'. sys_buf s k' = Some b' \<and> sb_bizTag b' = tag \<longrightarrow> i \<notin> held b' (sys_loader s k')))
     \<and> (\<forall>k. sys_buf s k = None \<longrightarrow> sys_loader s k = NoLoader)
     \<and> distinct (map snd (sys_log s))
     \<and> (\<forall>k. sorted_wrt (<) (ids_of k (sys_log s)))"

lemma sys_invD:
  assumes "sys_inv ok bound s"
  shows "ok (sys_store s)"
    and "sys_buf s k = Some b \<Longrightarrow> buf_inv (bound (sys_store s) (sb_bizTag b)) (set (ids_of k (sys_log s))) b (sys_loader s k)"
    and "(k, tag, i) \<in> set (sys_log s) \<Longrightarrow> i \<le> bound (sys_store s) tag \<and> 0 < i \<and> i \<le> MaxInt64"
    and "(k, tag, i) \<in> set (sys_log s) \<Longrightarrow> \<exists>b. sys_buf s k = Some b \<and> sb_bizTag b = tag"
    and "(k, tag, i) \<in> set (sys_log s) \<Longrightarrow> sys_buf s k' = Some b' \<Longrightarrow> sb_bizTag b' = tag \<Longrightarrow> i \<notin> held b' (sys_loader s k')"
    and "sys_buf s k = None \<Longrightarrow> sys_loader s k = NoLoader"
  using assms unfolding sys_inv_def by blast+

lemma sys_invI:
  assumes "ok (sys_store s)"
    and "\<And>k b. sys_buf s k = Some b \<Longrightarrow> buf_inv (bound (sys_store s) (sb_bizTag b)) (set (ids_of k (sys_log s))) b (sys_loader s k)"
    and "\<And>k1 k2 b1 b2. k1 \<noteq> k2 \<Longrightarrow> sys_buf s k1 = Some b1 \<Longrightarrow> sys_buf s k2 = Some b2 \<Longrightarrow> sb_bizTag b1 = sb_bizTag b2
          \<Longrightarrow> held b1 (sys_loader s k1) \<inter> held b2 (sys_loader s k2) = {}"
    and "\<And>k tag i. (k, tag, i) \<in> set (sys_log s) \<Longrightarrow>
          i \<le> bound (sys_store s) tag \<and> 0 < i \<and> i \<le> MaxInt64 \<and> (\<exists>b. sys_buf s k = Some b \<and> sb_bizTag b = tag)
          \<and> (\<forall>k' b'. sys_buf s k' = Some b' \<and> sb_bizTag b' = tag \<longrightarrow> i \<notin> held b' (sys_loader s k'))"
    and "\<And>k. sys_buf s k = None \<Longrightarrow> sys_loader s k = NoLoader"
    and "distinct (map snd (sys_log s))"
    and "\<And>k. sorted_wrt (<) (ids_of k (sys_log s))"
  shows "sys_inv ok bound s"
  using assms unfolding sys_inv_def by blast

lemma sys_inv_no_log:
  assumes "sys_inv ok bound s" and "sys_buf s k = None"
  shows "ids_of k (sys_log s) = []"
proof -
  have "\<nexists>tg i. (k, tg, i) \<in> set (sys_log s)" using sys_invD(4) [OF assms(1)] assms(2) by fastforce
  then show ?thesis using set_ids_of [of k "sys_log s"] by simp
qed

locale segment_store =
  fixes legal :: "'e \<Rightarrow> bool"
    and init :: "'e \<Rightarrow> string \<Rightarrow> int64 \<Rightarrow> int32 \<Rightarrow> 'st \<Rightarrow> (seg_error + unit) \<times> 'st"
    and fetch :: "'e \<Rightarrow> string \<Rightarrow> 'st \<Rightarrow> (seg_error + Segment) \<times> 'st"
    and ok :: "'st \<Rightarrow> bool"
    and bound :: "'st \<Rightarrow> string \<Rightarrow> int"
  assumes init_law: "legal e \<Longrightarrow> ok st \<Longrightarrow> 0 \<le> startID \<Longrightarrow> startID \<le> MaxInt64 \<Longrightarrow> n < 2 ^ 31 \<Longrightarrow>
      init e tag startID n st = (x, st') \<Longrightarrow> ok st' \<and> bound st t \<le> bound st' t"
    and fetch_law: "legal e \<Longrightarrow> ok st \<Longrightarrow> fetch e tag st = (y, st') \<Longrightarrow> ok st' \<and> bound st t \<le> bound st' t"
    and fetch_fresh: "legal e \<Longrightarrow> ok st \<Longrightarrow> fetch e tag st = (Inr seg, st') \<Longrightarrow>
      good_seg seg \<and> bound st tag < Current seg \<and> End seg \<le> bound st' tag"
begin

lemma store_only:
  assumes inv: "sys_inv ok bound s" and "ok st'" and mono: "\<And>t. bound (sys_store s) t \<le> bound st' t"
  shows "sys_inv ok bound (s\<lparr>sys_store := st'\<rparr>)"
proof (rule sys_invI, goal_cases)
  case (2 k b)
  then show ?case using sys_invD(2) [OF inv] buf_inv_mono [OF _ mono] by auto
next
  case (4 k tag i)
  then have L: "(k, tag, i) \<in> set (sys_log s)" by simp
  show ?case using sys_invD(3,4) [OF inv L] sys_invD(5) [OF inv L] order_trans [OF _ mono] by auto
qed (use assms in \<open>auto simp: sys_inv_def\<close>)

text \<open>One buffer changes: it keeps what it held, gains at most a fresh range, and logs \<open>r\<close>.\<close>

lemma buffer_update:
  assumes inv: "sys_inv ok bound s" and st': "ok st'" and mono: "\<And>t. bound (sys_store s) t \<le> bound st' t"
    and new: "buf_inv (bound st' tag) (set (ids_of k (sys_log s)) \<union> got r) b' l'" and tag: "sb_bizTag b' = tag"
    and old: "case sys_buf s k of None \<Rightarrow> H = {} | Some b \<Rightarrow> sb_bizTag b = tag \<and> H = held b (sys_loader s k)"
    and sub: "held b' l' \<subseteq> H \<union> {bound (sys_store s) tag <.. bound st' tag}"
    and res: "got r \<subseteq> H \<union> {bound (sys_store s) tag <.. bound st' tag}" "got r \<subseteq> {0 <.. MaxInt64}"
  shows "sys_inv ok bound (s\<lparr>sys_store := st', sys_buf := (sys_buf s)(k \<mapsto> b'), sys_loader := (sys_loader s)(k := l'),
           sys_log := sys_log s @ log_result k tag r\<rparr>)" (is "sys_inv ok bound ?s")
proof -
  let ?h = "bound (sys_store s) tag"
  have other: "held b (sys_loader s j) \<inter> (H \<union> {?h <.. bound st' tag}) = {}"
    if "j \<noteq> k" "sys_buf s j = Some b" "sb_bizTag b = tag" for j b
  proof -
    have "held b (sys_loader s j) \<subseteq> {..?h}" using inv that(2,3) unfolding sys_inv_def buf_inv_def by metis
    moreover have "held b (sys_loader s j) \<inter> H = {}"
      using inv that old unfolding sys_inv_def by (cases "sys_buf s k") auto
    ultimately show ?thesis by auto
  qed
  have logged: "i \<notin> H \<and> i \<le> ?h" if "(j, tag, i) \<in> set (sys_log s)" for j i
    using inv that old unfolding sys_inv_def by (cases "sys_buf s k") auto
  note nolog = sys_inv_no_log [OF inv]
  have before: "\<forall>i \<in> set (ids_of k (sys_log s)). \<forall>j \<in> got r. i < j"
  proof (cases "sys_buf s k")
    case (Some b)
    then have "buf_inv ?h (set (ids_of k (sys_log s))) b (sys_loader s k)" "H = held b (sys_loader s k)"
      using inv old unfolding sys_inv_def by auto
    then show ?thesis using res(1) unfolding buf_inv_def by fastforce
  qed (simp add: nolog)
  have fresh: "(tag, i) \<notin> set (map snd (sys_log s))" if "i \<in> got r" for i
    using that res(1) logged by fastforce
  show ?thesis
  proof (rule sys_invI, goal_cases)
    case (2 j b)
    show ?case
    proof (cases "j = k")
      case True
      then have ids: "set (ids_of j (sys_log ?s)) = set (ids_of k (sys_log s)) \<union> got r"
        by (auto simp: ids_of_append ids_of_log_result got_def split: turn.splits sum.splits)
      show ?thesis using 2 True new tag unfolding ids by auto
    next
      case False
      then have "ids_of j (sys_log ?s) = ids_of j (sys_log s)" by (simp add: ids_of_append ids_of_log_result)
      then show ?thesis using 2 False inv buf_inv_mono [OF _ mono] unfolding sys_inv_def by auto
    qed
  next
    case (3 k1 k2 b1 b2)
    then show ?case using other [of k2 b2] other [of k1 b1] sub inv tag
      unfolding sys_inv_def by (cases "k1 = k"; cases "k2 = k") auto
  next
    case (4 j tg i)
    then consider (new) "j = k" "tg = tag" "i \<in> got r" | (old) "(j, tg, i) \<in> set (sys_log s)"
      by (auto simp: set_log_result)
    then show ?case
    proof cases
      case new
      have "i \<notin> held b' l'" using assms(4) new(3) unfolding buf_inv_def by blast
      moreover have "i \<le> bound st' tag" using assms(4) new(3) unfolding buf_inv_def by blast
      moreover have "i \<notin> held b (sys_loader s j)" if "j \<noteq> k" "sys_buf s j = Some b" "sb_bizTag b = tag" for j b
        using other [OF that] res(1) new(3) by blast
      ultimately show ?thesis using new res tag by auto
    next
      case old
      note L = old
      have i: "i \<le> bound st' tg" "0 < i" "i \<le> MaxInt64" "\<exists>b. sys_buf s j = Some b \<and> sb_bizTag b = tg"
        using sys_invD(3,4) [OF inv L] order_trans [OF _ mono] by blast+
      have "\<exists>b. sys_buf ?s j = Some b \<and> sb_bizTag b = tg"
        using i(4) tag assms(6) by (cases "j = k") auto
      moreover have "i \<notin> held b' l'" if "tg = tag" using logged [of j i] sub L that by auto
      ultimately show ?thesis using i tag sys_invD(5) [OF inv L] by auto
    qed
  next
    case 6
    show ?case
    proof (cases "got r = {}")
      case True
      then have "log_result k tag r = []" using set_log_result [of k tag r] by simp
      then show ?thesis using inv by (simp add: sys_inv_def)
    next
      case False
      then obtain i where i: "got r = {i}" "log_result k tag r = [(k, tag, i)]"
        by (auto simp: got_def log_result_def split: turn.splits sum.splits)
      then have "(tag, i) \<notin> set (map snd (sys_log s))" using fresh by simp
      then show ?thesis using inv i by (simp add: sys_inv_def)
    qed
  next
    case (7 j)
    have s: "sorted_wrt (<) (ids_of j (sys_log s))" using inv by (simp add: sys_inv_def)
    show ?case
    proof (cases "j = k \<and> got r \<noteq> {}")
      case True
      then obtain i where i: "got r = {i}" "ids_of j (log_result k tag r) = [i]"
        by (auto simp: got_def ids_of_log_result split: turn.splits sum.splits)
      then have "\<forall>x \<in> set (ids_of j (sys_log s)). x < i" using before True by simp
      then show ?thesis using s i by (simp add: ids_of_append strict_sorted_snoc)
    next
      case False
      then have "ids_of j (log_result k tag r) = []"
        by (auto simp: got_def ids_of_log_result split: turn.splits sum.splits)
      then show ?thesis using s by (simp add: ids_of_append)
    qed
  qed (use inv st' in \<open>auto simp: sys_inv_def\<close>)
qed

lemma seg_step_inv:
  assumes inv: "sys_inv ok bound s" and step: "seg_step legal init fetch s s'"
  shows "sys_inv ok bound s'"
  using step
proof (cases rule: seg_step.cases)
  case (init_tag e startID st tag x store')
  then show ?thesis using init_law [of e "sys_store s" startID st tag x store'] inv store_only [OF inv]
    by (auto simp: sys_inv_def)
next
  case (create_failed e tag err store')
  then show ?thesis using fetch_law [of e "sys_store s" tag "Inl err" store'] inv store_only [OF inv]
    by (auto simp: sys_inv_def)
next
  case (create e k tag seg store')
  let ?b = "(new_buffer tag)\<lparr>sb_current := Some seg, sb_ready := True\<rparr>"
  have o: "ok (sys_store s)" and l: "sys_loader s k = NoLoader" and no: "ids_of k (sys_log s) = []"
    using sys_invD(1,6) [OF inv] sys_inv_no_log [OF inv] create(3) by auto
  note f = fetch_law [OF create(2) o create(4)] fetch_fresh [OF create(2) o create(4)]
  have h: "held ?b NoLoader = left_ids seg" by (simp add: held_def ids_defs new_buffer_def)
  have "buf_inv (bound store' tag) {} ?b NoLoader"
    using f by (auto simp: buf_inv_def held_def ids_defs loader_sync_def new_buffer_def)
  then have "sys_inv ok bound (s\<lparr>sys_store := store', sys_buf := (sys_buf s)(k \<mapsto> ?b), sys_loader := (sys_loader s)(k := NoLoader),
      sys_log := sys_log s @ log_result k tag (WaitLoad 0)\<rparr>)"
    using f create(3) no h left_ids_def [of seg]
    by (intro buffer_update [OF inv, where H = "{}"]) (auto simp: got_def new_buffer_def)
  then show ?thesis using l unfolding create(1) by (simp add: log_result_def fun_upd_idem)
next
  case (next_id e k b active r spawn b' store')
  have o: "ok (sys_store s)" and b: "buf_inv (bound (sys_store s) (sb_bizTag b)) (set (ids_of k (sys_log s))) b (sys_loader s k)"
    using sys_invD(1,2) [OF inv] next_id(3) by auto
  have f: "ok store' \<and> bound (sys_store s) t \<le> bound store' t" for t
  proof (cases "store' = sys_store s")
    case False
    then have "snd (fetch e (sb_bizTag b) (sys_store s)) = store'"
      using next_id(4) by (auto simp: nextID_turn_def split: option.splits if_splits prod.splits sum.splits)
    then show ?thesis using fetch_law [OF next_id(2) o] by (metis prod.collapse)
  qed (use o in simp)
  note n = nextID_turn_step [OF b conjunct2 [OF f] next_id(4)]
  have n': "buf_inv (bound store' (sb_bizTag b)) (set (ids_of k (sys_log s)) \<union> got r) b' (after_spawn spawn b' (sys_loader s k))
     \<and> held b' (after_spawn spawn b' (sys_loader s k)) \<subseteq> held b (sys_loader s k) \<union> {bound (sys_store s) (sb_bizTag b) <.. bound store' (sb_bizTag b)}
     \<and> got r \<subseteq> held b (sys_loader s k) \<union> {bound (sys_store s) (sb_bizTag b) <.. bound store' (sb_bizTag b)}
     \<and> sb_bizTag b' = sb_bizTag b \<and> got r \<subseteq> {0 <.. MaxInt64}"
    by (rule n) (use fetch_fresh [OF next_id(2) o] in auto)
  have "sys_inv ok bound (s\<lparr>sys_store := store', sys_buf := (sys_buf s)(k \<mapsto> b'),
      sys_loader := (sys_loader s)(k := after_spawn spawn b' (sys_loader s k)), sys_log := sys_log s @ log_result k (sb_bizTag b) r\<rparr>)"
    using n' f next_id(3) by (intro buffer_update [OF inv, where H = "held b (sys_loader s k)"]) auto
  moreover have "(sys_loader s)(k := after_spawn spawn b' (sys_loader s k))
      = (if spawn then (sys_loader s)(k := Started (sb_loadDone b')) else sys_loader s)"
    by (simp add: after_spawn_def fun_upd_idem)
  ultimately show ?thesis unfolding next_id(1) by simp
next
  case (load_fetch e k b ch x store')
  have o: "ok (sys_store s)" and b: "buf_inv (bound (sys_store s) (sb_bizTag b)) (set (ids_of k (sys_log s))) b (Started ch)"
    using sys_invD(1) [OF inv] sys_invD(2) [OF inv load_fetch(3)] load_fetch(4) by auto
  note f = fetch_law [OF load_fetch(2) o load_fetch(5)]
  have n: "buf_inv (bound store' (sb_bizTag b)) (set (ids_of k (sys_log s))) b (Fetched ch x)
      \<and> held b (Fetched ch x) \<subseteq> held b (Started ch) \<union> {bound (sys_store s) (sb_bizTag b) <.. bound store' (sb_bizTag b)}"
    using fetch_fresh [OF load_fetch(2) o] load_fetch(5) by (intro load_fetch_step [OF b conjunct2 [OF f]]) auto
  have "sys_inv ok bound (s\<lparr>sys_store := store', sys_buf := (sys_buf s)(k \<mapsto> b), sys_loader := (sys_loader s)(k := Fetched ch x),
      sys_log := sys_log s @ log_result k (sb_bizTag b) (WaitLoad 0)\<rparr>)"
    using n f load_fetch(3,4) by (intro buffer_update [OF inv, where H = "held b (sys_loader s k)"]) (auto simp: got_def)
  then show ?thesis using load_fetch(3) unfolding load_fetch(1) by (simp add: log_result_def fun_upd_idem)
next
  case (load_deliver k b ch x)
  have o: "ok (sys_store s)" and b: "buf_inv (bound (sys_store s) (sb_bizTag b)) (set (ids_of k (sys_log s))) b (Fetched ch x)"
    using sys_invD(1) [OF inv] sys_invD(2) [OF inv load_deliver(2)] load_deliver(3) by auto
  have "sys_inv ok bound (s\<lparr>sys_store := sys_store s, sys_buf := (sys_buf s)(k \<mapsto> loadNext ch x b), sys_loader := (sys_loader s)(k := NoLoader),
      sys_log := sys_log s @ log_result k (sb_bizTag b) (WaitLoad 0)\<rparr>)"
    using loadNext_step [OF b] o load_deliver(2,3)
    by (intro buffer_update [OF inv, where H = "held b (sys_loader s k)"]) (auto simp: got_def)
  then show ?thesis unfolding load_deliver(1) by (simp add: log_result_def)
qed

lemma seg_start_inv: "ok store \<Longrightarrow> sys_inv ok bound (seg_start store)"
  by (simp add: sys_inv_def seg_start_def ids_of_def)

lemma seg_run_inv: "seg_run legal init fetch s s' \<Longrightarrow> sys_inv ok bound s \<Longrightarrow> sys_inv ok bound s'"
  by (induction rule: seg_run.induct) (auto intro: seg_step_inv)

lemma reachable_unique:
  assumes "ok store" and "seg_run legal init fetch (seg_start store) s"
  shows "distinct (map snd (sys_log s)) \<and> (\<forall>k. sorted_wrt (<) (ids_of k (sys_log s)))
     \<and> (\<forall>(k, tag, i) \<in> set (sys_log s). 0 < i \<and> i \<le> MaxInt64)"
  using seg_run_inv [OF assms(2) seg_start_inv [OF assms(1)]] unfolding sys_inv_def by blast

end

section \<open>The SQL storage keeps the contract\<close>

interpretation sql_store: segment_store legal_env "initTag d" "fetchSegment d" tbl_ok hi
proof
  fix e st startID n tag x st' t
  assume "legal_env e" "tbl_ok st" "0 \<le> startID" "startID \<le> MaxInt64" "n < 2 ^ 31" "initTag d e tag startID n st = (x, st')"
  then show "tbl_ok st' \<and> hi st t \<le> hi st' t"
    using initTag_grows [of e st startID n d tag] by (simp add: grows_def)
next
  fix e st tag y st' t
  assume "legal_env e" "tbl_ok st" "fetchSegment d e tag st = (y, st')"
  then show "tbl_ok st' \<and> hi st t \<le> hi st' t" using fetchSegment_step [of e st d tag y st'] by (simp add: grows_def)
next
  fix e st tag seg st'
  assume "legal_env e" "tbl_ok st" "fetchSegment d e tag st = (Inr seg, st')"
  then show "good_seg seg \<and> hi st tag < Current seg \<and> End seg \<le> hi st' tag"
    using fetchSegment_step [of e st d tag "Inr seg" st'] by (auto simp: fresh_segment_def good_seg_def)
qed

text \<open>
  Unique identifiers (C7). Take any number of generators in any number of processes on one
  tag table, PostgreSQL or MySQL, and any interleaving of their lock sections, store calls and
  preloads, with any database faults, lost answers and retries. No identifier is ever returned
  twice for a tag; the identifiers of one buffer are strictly increasing; and all of them are
  positive \<open>int64\<close> values.
\<close>

theorem segment_ids_unique:
  assumes "tbl_ok store" and "seg_run legal_env (initTag d) (fetchSegment d) (seg_start store) s"
  shows "distinct (map snd (sys_log s))
     \<and> (\<forall>k. sorted_wrt (<) (ids_of k (sys_log s)))
     \<and> (\<forall>(k, tag, i) \<in> set (sys_log s). 0 < i \<and> i \<le> MaxInt64)"
  using assms by (rule sql_store.reachable_unique)

text \<open>A run of one generator on the tag \<open>order\<close>: it creates the buffer and hands out 42.\<close>

definition demo_seg :: Segment where
  "demo_seg = \<lparr>Start = 42, End = 51, Current = 42\<rparr>"

definition demo_buf :: segmentBuffer where
  "demo_buf = (new_buffer ''order'')\<lparr>sb_current := Some demo_seg, sb_ready := True\<rparr>"

theorem segment_ids_unique_witness:
  "\<exists>s. seg_run legal_env (initTag Pgx) (fetchSegment Pgx) (seg_start demo_tags) s
     \<and> sys_log s = [(Buffer 0 0, ''order'', 42)] \<and> distinct (map snd (sys_log s))"
proof -
  obtain t where f: "fetchSegment Pgx (quiet 6) ''order'' demo_tags = (Inr demo_seg, t)"
    unfolding fetchSegment_quiet [OF demo_tags_ok]
    by (simp add: fetch_spec_def demo_tags_def new_tag_def sql_row_def is_tag_def MaxInt64_def demo_seg_def)
  let ?s1 = "(seg_start demo_tags)\<lparr>sys_store := t, sys_buf := (sys_buf (seg_start demo_tags))(Buffer 0 0 \<mapsto> demo_buf)\<rparr>"
  have c: "seg_step legal_env (initTag Pgx) (fetchSegment Pgx) (seg_start demo_tags) ?s1"
    unfolding demo_buf_def
    by (rule seg_step.create [where e = "quiet 6" and legal = legal_env]) (simp_all add: seg_start_def f legal_quiet)
  note r1 = run_step [OF run_start c]
  have n: "nextID_turn (fetchSegment Pgx (quiet 6) (sb_bizTag demo_buf)) True demo_buf (sys_store ?s1)
      = (Return (Inr 42), False, demo_buf\<lparr>sb_current := Some (demo_seg\<lparr>Current := 43\<rparr>)\<rparr>, t)"
    by (simp add: nextID_turn_def demo_buf_def new_buffer_def demo_seg_def take_id_def maybeStartPreloadLocked_def i64_def
        preloadDenominator_def preloadNumerator_def)
  have b: "sys_buf ?s1 (Buffer 0 0) = Some demo_buf" by simp
  obtain s2 where s2: "seg_step legal_env (initTag Pgx) (fetchSegment Pgx) ?s1 s2" "sys_log s2 = [(Buffer 0 0, ''order'', 42)]"
    by (rule that [OF seg_step.next_id [where legal = legal_env and e = "quiet 6" and fetch = "fetchSegment Pgx", OF legal_quiet b n]])
      (simp add: seg_start_def log_result_def demo_buf_def new_buffer_def)
  have r2: "seg_run legal_env (initTag Pgx) (fetchSegment Pgx) (seg_start demo_tags) s2"
    by (rule run_step [OF r1 s2(1)])
  show ?thesis using segment_ids_unique [OF demo_tags_ok r2] r2 s2(2) by blast
qed

end
