(* ===== verification/Kc_Fence.thy ===== *)
theory Kc_Fence
  imports Kc_Prelude
begin

text \<open>
  The contract of a fenced row: a row that is leased carries the token of its holder, and
  every statement by which a holder reports back names the row and the token in its WHERE
  clause. The worker table of \<open>src/pkg/idgen/snowflake\<close>, the task table of
  \<open>src/pkg/compensator\<close>, the message table of \<open>src/pkg/outbox\<close> and the records of
  \<open>src/pkg/idempotency\<close> all rely on it; each interprets the locale on its own statements.
\<close>

locale fenced =
  fixes key :: "'r \<Rightarrow> 'k"
    and holder :: "'r \<Rightarrow> 't option"
    and change :: "'a \<Rightarrow> 'r \<Rightarrow> 'r"
    and statement :: "'a \<Rightarrow> 'k \<Rightarrow> 't \<Rightarrow> 'r list \<Rightarrow> 'r list"
  assumes keeps_key: "key (change a r) = key r"
    and fenced_by_token: "statement a k tok t = sql_update (\<lambda>r. key r = k \<and> holder r = Some tok) (change a) t"
begin

lemma stale_no_effect:
  assumes "\<And>r. r \<in> set t \<Longrightarrow> key r = k \<Longrightarrow> holder r \<noteq> Some tok"
  shows "statement a k tok t = t"
  unfolding fenced_by_token using assms by (intro sql_update_id) blast

lemma other_rows_untouched:
  assumes "key r \<noteq> k"
  shows "r \<in> set (statement a k tok t) \<longleftrightarrow> r \<in> set t"
  unfolding fenced_by_token using assms keeps_key by (auto simp: sql_update_mem_iff)

lemma held_by_other_untouched:
  assumes "holder r \<noteq> Some tok" and "r \<in> set t"
  shows "r \<in> set (statement a k tok t)"
  unfolding fenced_by_token using assms by (force simp: sql_update_mem_iff)

lemma keeps_pk: "pk key t \<Longrightarrow> pk key (statement a k tok t)"
  unfolding fenced_by_token by (rule pk_sql_update) (simp_all add: keeps_key)

lemma statement_row:
  assumes "r' \<in> set (statement a k tok t)"
  shows "\<exists>r \<in> set t. r' = r \<or> (key r = k \<and> holder r = Some tok \<and> r' = change a r)"
  using assms unfolding fenced_by_token by (auto simp: sql_update_mem_iff)

end

text \<open>A statement that ends the lease: after it nobody holds the row with that token.\<close>

locale releasing = fenced +
  assumes drops_token: "holder r = Some tok \<Longrightarrow> holder (change a r) \<noteq> Some tok"
begin

lemma released:
  assumes "r \<in> set (statement a k tok t)" and "key r = k"
  shows "holder r \<noteq> Some tok"
proof -
  obtain r0 where r0: "r = (if key r0 = k \<and> holder r0 = Some tok then change a r0 else r0)"
    using assms(1) unfolding fenced_by_token by (auto simp: sql_update_mem_iff)
  show ?thesis
  proof (cases "key r0 = k \<and> holder r0 = Some tok")
    case True
    then show ?thesis using r0 drops_token [of r0 tok a] by simp
  next
    case False
    then show ?thesis using r0 assms(2) by auto
  qed
qed

text \<open>So a holder's second report is a no-op, whatever it reports.\<close>

lemma reports_once: "statement b k tok (statement a k tok t) = statement a k tok t"
  by (rule stale_no_effect) (use released in blast)

end

end
