(* ===== verification/Kc_Compensator.thy ===== *)
theory Kc_Compensator
  imports Kc_Sql Kc_Backoff Kc_Fence
begin

text \<open>
  The task compensator of \<open>src/pkg/compensator\<close>: configuration and task types (\<open>types.go\<close>), the
  task table and its SQL (\<open>storage.go\<close>), registration and the transactional API
  (\<open>compensator.go\<close>), scanning and executing (\<open>worker.go\<close>).

  A statement is a function on the list of task rows at the server time \<open>now\<close> (microseconds,
  the resolution of \<open>timestamptz\<close>). Arguments stand for the environment: the server clock, the
  random token, the rows other sessions have locked (\<open>SKIP LOCKED\<close>), how a statement ends, what
  a handler returns. A UUID is a number, the nil UUID is 0. Logging and metrics have no effect
  on the modelled state.
\<close>

type_synonym uuid = nat

datatype comp_error = ErrInvalidConfig | ErrInvalidArgument | ErrResourceNotFound | ErrClosed | ErrNotFound | ErrNotFailed
  | ErrLeaseLost | ErrNoHandler | ErrContext | ErrGenerateID | ErrBusiness string | ErrDB db_error

datatype status = StatusPending | StatusRunning | StatusSucceeded | StatusFailed

primrec status_code :: "status \<Rightarrow> int" where
  "status_code StatusPending = 0"
| "status_code StatusRunning = 1"
| "status_code StatusSucceeded = 2"
| "status_code StatusFailed = 3"

record task =
  ID :: uuid
  Type :: string
  Payload :: string
  Attempt :: int

section \<open>Configuration\<close>

record comp_config =
  TableSuffix :: string
  Schema :: string
  WorkerCount :: int
  ScanInterval :: duration
  BatchSize :: int
  MaxRetries :: int
  RetryBackoffMin :: duration
  RetryBackoffMax :: duration
  HandlerTimeout :: duration
  LeaseDuration :: duration
  CleanupAfter :: duration
  CleanupInterval :: duration
  CleanupBatchSize :: int
  FailedRetention :: duration
  OperationTimeout :: duration
  DisableWorker :: bool

text \<open>The pattern \<open>^[a-z0-9_]{1,40}$\<close>.\<close>

definition suffix_char :: "char \<Rightarrow> bool" where
  "suffix_char c \<longleftrightarrow> byte_in 97 122 c \<or> byte_in 48 57 c \<or> byte c = 95"

definition suffixPattern :: "string \<Rightarrow> bool" where
  "suffixPattern s \<longleftrightarrow> 1 \<le> length s \<and> length s \<le> 40 \<and> list_all suffix_char s"

definition or_default :: "int \<Rightarrow> int \<Rightarrow> int" where
  "or_default d def = (if d = 0 then def else d)"

definition with_defaults :: "comp_config \<Rightarrow> comp_config" where
  "with_defaults c =
     (let workers = or_default (WorkerCount c) 8; handler = or_default (HandlerTimeout c) (30 * second) in
      c\<lparr>WorkerCount := workers, BatchSize := or_default (BatchSize c) (i64 (2 * workers)),
        CleanupBatchSize := or_default (CleanupBatchSize c) 1000,
        HandlerTimeout := handler, LeaseDuration := or_default (LeaseDuration c) (i64 (handler + 10 * second)),
        ScanInterval := or_default (ScanInterval c) second,
        RetryBackoffMin := or_default (RetryBackoffMin c) second,
        RetryBackoffMax := or_default (RetryBackoffMax c) (5 * minute),
        CleanupAfter := or_default (CleanupAfter c) (5 * minute),
        CleanupInterval := or_default (CleanupInterval c) (30 * second),
        OperationTimeout := or_default (OperationTimeout c) (5 * second)\<rparr>)"

text \<open>The pair is the resolved configuration and the number of retries.\<close>

definition resolveConfig :: "comp_config \<Rightarrow> comp_error + comp_config \<times> int" where
  "resolveConfig c0 =
     (if \<not> suffixPattern (TableSuffix c0) then Inl ErrInvalidConfig
      else if Schema c0 \<noteq> [] \<and> \<not> (identifierPattern (Schema c0) \<and> length (Schema c0) \<le> 63) then Inl ErrInvalidConfig
      else if WorkerCount c0 < 0 \<or> BatchSize c0 < 0 \<or> CleanupBatchSize c0 < 0 then Inl ErrInvalidConfig
      else
        let c = with_defaults c0 in
        if \<exists>d \<in> {ScanInterval c, RetryBackoffMin c, RetryBackoffMax c, CleanupAfter c, CleanupInterval c, OperationTimeout c,
                 HandlerTimeout c, LeaseDuration c}. d < millisecond then Inl ErrInvalidConfig
        else if FailedRetention c < 0 then Inl ErrInvalidConfig
        else if LeaseDuration c \<le> HandlerTimeout c then Inl ErrInvalidConfig
        else if RetryBackoffMax c < RetryBackoffMin c then Inl ErrInvalidConfig
        else if MaxRetries c = 0 then Inr (c, 10)
        else if MaxRetries c = -1 then Inr (c, 0)
        else if MaxRetries c < -1 \<or> MaxRetries c > 1000000 then Inl ErrInvalidConfig
        else Inr (c, MaxRetries c))"

definition validateType :: "string \<Rightarrow> comp_error + unit" where
  "validateType v = (if \<not> valid_utf8 v \<or> blank v \<or> length v > 255 then Inl ErrInvalidArgument else Inr ())"

text \<open>\<open>NewTask\<close>: \<open>encoded\<close> is the result of the JSON encoder, \<open>None\<close> when it fails.\<close>

definition NewTask :: "string \<Rightarrow> string option \<Rightarrow> comp_error + task" where
  "NewTask taskType encoded =
     (case validateType taskType of Inl e \<Rightarrow> Inl e | Inr _ \<Rightarrow>
      case encoded of None \<Rightarrow> Inl ErrInvalidArgument
      | Some payload \<Rightarrow> Inr \<lparr>ID = 0, Type = taskType, Payload = payload, Attempt = 0\<rparr>)"

definition errorText :: "string option \<Rightarrow> string" where
  "errorText err = errorText_to 2048 err"

section \<open>The task table\<close>

record task_row =
  t_id :: uuid
  t_type :: string
  t_payload :: string
  t_status :: status
  t_attempts :: int
  t_next_run_at :: int
  t_lease_token :: int64
  t_last_error :: string
  t_created_at :: int
  t_updated_at :: int
  t_completed_at :: "int option"

text \<open>An interval of whole milliseconds in microseconds.\<close>

definition interval_ms :: "int \<Rightarrow> int" where
  "interval_ms n = 1000 * n"

definition newPGStorage :: "string option \<Rightarrow> comp_error + unit" where
  "newPGStorage db =
     (case db of None \<Rightarrow> Inl ErrInvalidConfig
      | Some name \<Rightarrow> if name \<noteq> ''pgx'' \<and> name \<noteq> ''pgx/v5'' then Inl ErrInvalidConfig else Inr ())"

definition new_row :: "int \<Rightarrow> task \<Rightarrow> task_row" where
  "new_row now t = \<lparr>t_id = ID t, t_type = Type t, t_payload = Payload t, t_status = StatusPending, t_attempts = 0,
     t_next_run_at = now, t_lease_token = 0, t_last_error = [], t_created_at = now, t_updated_at = now, t_completed_at = None\<rparr>"

text \<open>One INSERT of all tasks: a primary key that is taken fails the whole statement.\<close>

definition insert_tasks :: "db_error option \<Rightarrow> int \<Rightarrow> task list \<Rightarrow> task_row list \<Rightarrow> (comp_error + unit) \<times> task_row list" where
  "insert_tasks flt now tasks t =
     (case (if \<not> distinct (map ID tasks) \<or> (\<exists>x \<in> set tasks. ID x \<in> t_id ` set t) then Some (PgError ''23505'') else flt) of
        Some e \<Rightarrow> (Inl (ErrDB e), t)
      | None \<Rightarrow> (Inr (), t @ map (new_row now) tasks))"

record claimed = task +
  token :: int64
  exhausted :: bool

definition due :: "int \<Rightarrow> string list \<Rightarrow> (uuid \<Rightarrow> bool) \<Rightarrow> task_row \<Rightarrow> bool" where
  "due now types locked r \<longleftrightarrow> status_code (t_status r) < 2 \<and> t_next_run_at r \<le> now \<and> t_type r \<in> set types \<and> \<not> locked (t_id r)"

definition picked :: "int \<Rightarrow> int \<Rightarrow> string list \<Rightarrow> (uuid \<Rightarrow> bool) \<Rightarrow> task_row list \<Rightarrow> uuid list" where
  "picked limit now types locked t = map t_id (sql_limit limit (sql_select (due now types locked) t_next_run_at t))"

text \<open>The SET clause; \<open>budget\<close> is \<open>retries + 1\<close>, \<open>lease\<close> the lease in milliseconds.\<close>

definition claim_set :: "int \<Rightarrow> int64 \<Rightarrow> int \<Rightarrow> int \<Rightarrow> task_row \<Rightarrow> task_row" where
  "claim_set now tok budget lease r =
     (if t_attempts r \<ge> budget then
        r\<lparr>t_status := StatusFailed, t_lease_token := 0, t_last_error := ''retry budget exhausted after lease expiration'',
          t_completed_at := Some now, t_updated_at := now\<rparr>
      else
        r\<lparr>t_status := StatusRunning, t_attempts := t_attempts r + 1, t_lease_token := tok,
          t_next_run_at := now + interval_ms lease, t_completed_at := None, t_updated_at := now\<rparr>)"

definition claimed_of :: "int64 \<Rightarrow> task_row \<Rightarrow> claimed" where
  "claimed_of tok r = \<lparr>ID = t_id r, Type = t_type r, Payload = t_payload r, Attempt = t_attempts r, token = tok,
     exhausted = (t_status r \<noteq> StatusRunning)\<rparr>"

definition claim ::
  "exec_outcome \<Rightarrow> int \<Rightarrow> (uuid \<Rightarrow> bool) \<Rightarrow> comp_config \<times> int \<Rightarrow> int \<Rightarrow> int64 \<Rightarrow> string list \<Rightarrow> task_row list
    \<Rightarrow> (comp_error + claimed list) \<times> task_row list" where
  "claim c now locked conf limit tok types t =
     (let ids = picked limit now types locked t;
          f = claim_set now tok (snd conf + 1) (Milliseconds (LeaseDuration (fst conf)));
          t' = sql_update (\<lambda>r. t_id r \<in> set ids) f t
      in (case c of CommitErr e _ \<Rightarrow> Inl (ErrDB e)
                  | CommitOk \<Rightarrow> Inr (map (claimed_of tok) (filter (\<lambda>r. t_id r \<in> set ids) t')),
          committed c t t'))"

definition leased :: "uuid \<Rightarrow> int64 \<Rightarrow> task_row \<Rightarrow> bool" where
  "leased i tok r \<longleftrightarrow> t_id r = i \<and> t_status r = StatusRunning \<and> t_lease_token r = tok"

definition finish_set :: "int \<Rightarrow> status \<Rightarrow> string \<Rightarrow> duration \<Rightarrow> task_row \<Rightarrow> task_row" where
  "finish_set now st lastError delay r =
     r\<lparr>t_status := st, t_lease_token := 0, t_last_error := lastError, t_updated_at := now,
       t_next_run_at := (if st = StatusPending then now + interval_ms (Milliseconds delay) else t_next_run_at r),
       t_completed_at := (if status_code st \<ge> 2 then Some now else None)\<rparr>"

definition finish ::
  "exec_outcome \<Rightarrow> db_error option \<Rightarrow> int \<Rightarrow> claimed \<Rightarrow> status \<Rightarrow> string \<Rightarrow> duration \<Rightarrow> task_row list \<Rightarrow> comp_error option \<times> task_row list" where
  "finish c rows now cl st lastError delay t =
     (let p = leased (ID cl) (token cl); f = finish_set now st lastError delay; t' = committed c t (sql_update p f t) in
      case c of
        CommitErr e _ \<Rightarrow> (Some (ErrDB e), t')
      | CommitOk \<Rightarrow>
          (case rows of
             Some e \<Rightarrow> (Some (ErrDB e), t')
           | None \<Rightarrow> if sql_affected True p f t \<noteq> 1 then (Some ErrLeaseLost, t') else (None, t')))"

definition abandon_set :: "int \<Rightarrow> task_row \<Rightarrow> task_row" where
  "abandon_set now r =
     r\<lparr>t_status := StatusPending, t_attempts := t_attempts r - 1, t_lease_token := 0, t_next_run_at := now, t_updated_at := now\<rparr>"

definition abandon :: "exec_outcome \<Rightarrow> int \<Rightarrow> claimed \<Rightarrow> task_row list \<Rightarrow> comp_error option \<times> task_row list" where
  "abandon c now cl t =
     (case c of CommitErr e _ \<Rightarrow> Some (ErrDB e) | CommitOk \<Rightarrow> None,
      committed c t (sql_update (leased (ID cl) (token cl)) (abandon_set now) t))"

text \<open>\<open>Record\<close> is the row itself: \<open>Attempt\<close> and \<open>Attempts\<close> are both the attempts column.\<close>

definition get :: "db_error option \<Rightarrow> uuid \<Rightarrow> task_row list \<Rightarrow> comp_error + task_row" where
  "get flt i t =
     (case flt of Some e \<Rightarrow> Inl (ErrDB e) | None \<Rightarrow>
      case sql_row (\<lambda>r. t_id r = i) t of None \<Rightarrow> Inl ErrNotFound | Some r \<Rightarrow> Inr r)"

definition retry_set :: "int \<Rightarrow> task_row \<Rightarrow> task_row" where
  "retry_set now r =
     r\<lparr>t_status := StatusPending, t_attempts := 0, t_lease_token := 0, t_last_error := [], t_next_run_at := now,
       t_completed_at := None, t_updated_at := now\<rparr>"

definition retry ::
  "exec_outcome \<Rightarrow> db_error option \<Rightarrow> db_error option \<Rightarrow> int \<Rightarrow> uuid \<Rightarrow> task_row list \<Rightarrow> comp_error option \<times> task_row list" where
  "retry c rows flt now i t =
     (let p = (\<lambda>r. t_id r = i \<and> t_status r = StatusFailed); f = retry_set now; t' = committed c t (sql_update p f t) in
      case c of
        CommitErr e _ \<Rightarrow> (Some (ErrDB e), t')
      | CommitOk \<Rightarrow>
          (case rows of Some e \<Rightarrow> (Some (ErrDB e), t') | None \<Rightarrow>
           if sql_affected True p f t = 1 then (None, t')
           else (case get flt i t' of Inl e \<Rightarrow> (Some e, t') | Inr _ \<Rightarrow> (Some ErrNotFailed, t'))))"

text \<open>The sub-select has no ORDER BY: \<open>pick\<close> is the order in which the server visits the rows.\<close>

definition cleanup_ids :: "status \<Rightarrow> duration \<Rightarrow> int \<Rightarrow> int \<Rightarrow> (uuid \<Rightarrow> bool) \<Rightarrow> (task_row \<Rightarrow> int) \<Rightarrow> task_row list \<Rightarrow> uuid list" where
  "cleanup_ids st olderThan limit now locked pick t =
     map t_id (sql_limit limit (sql_select (\<lambda>r. t_status r = st
        \<and> (case t_completed_at r of None \<Rightarrow> False | Some d \<Rightarrow> d < now - interval_ms (Milliseconds olderThan)) \<and> \<not> locked (t_id r)) pick t))"

definition cleanup ::
  "exec_outcome \<Rightarrow> int \<Rightarrow> (uuid \<Rightarrow> bool) \<Rightarrow> (task_row \<Rightarrow> int) \<Rightarrow> status \<Rightarrow> duration \<Rightarrow> int \<Rightarrow> task_row list
    \<Rightarrow> (comp_error + int) \<times> task_row list" where
  "cleanup c now locked pick st olderThan limit t =
     (let ids = cleanup_ids st olderThan limit now locked pick t; t' = sql_delete (\<lambda>r. t_id r \<in> set ids) t in
      (case c of CommitErr e _ \<Rightarrow> Inl (ErrDB e) | CommitOk \<Rightarrow> Inr (int (length t) - int (length t')), committed c t t'))"

record stats_row =
  Pending :: int
  Running :: int
  Failed :: int
  OldestDue :: "int option"

definition count_status :: "status \<Rightarrow> task_row list \<Rightarrow> int" where
  "count_status st t = int (length (filter (\<lambda>r. t_status r = st) t))"

definition stats :: "db_error option \<Rightarrow> task_row list \<Rightarrow> comp_error + stats_row" where
  "stats flt t =
     (case flt of Some e \<Rightarrow> Inl (ErrDB e) | None \<Rightarrow>
      Inr \<lparr>Pending = count_status StatusPending t, Running = count_status StatusRunning t, Failed = count_status StatusFailed t,
           OldestDue = (case map t_next_run_at (filter (\<lambda>r. t_status r = StatusPending) t) of [] \<Rightarrow> None | x # xs \<Rightarrow> Some (fold min xs x))\<rparr>)"

section \<open>Handlers\<close>

text \<open>
  A registry snapshot. Go iterates over the map argument in any order: it is a list of its
  entries in that order, \<open>None\<close> a nil handler.
\<close>

record 'h registry =
  handlers :: "string \<rightharpoonup> 'h"
  types :: "string list"

definition empty_registry :: "'h registry" where
  "empty_registry = \<lparr>handlers = Map.empty, types = []\<rparr>"

definition registry_get :: "'h registry option \<Rightarrow> string \<Rightarrow> 'h option" where
  "registry_get r taskType = (case r of None \<Rightarrow> None | Some g \<Rightarrow> handlers g taskType)"

fun add_handlers :: "'h registry \<Rightarrow> (string \<times> 'h option) list \<Rightarrow> comp_error + 'h registry" where
  "add_handlers g [] = Inr g"
| "add_handlers g ((name, h) # rest) =
     (case validateType name of
        Inl _ \<Rightarrow> Inl ErrInvalidArgument
      | Inr _ \<Rightarrow>
          (case h of
             None \<Rightarrow> Inl ErrInvalidArgument
           | Some f \<Rightarrow>
               if handlers g name \<noteq> None then Inl ErrInvalidArgument
               else add_handlers (g\<lparr>handlers := (handlers g)(name \<mapsto> f), types := types g @ [name]\<rparr>) rest))"

definition with_handlers :: "'h registry option \<Rightarrow> (string \<times> 'h option) list \<Rightarrow> comp_error + 'h registry" where
  "with_handlers r hs = add_handlers (case r of None \<Rightarrow> empty_registry | Some g \<Rightarrow> g) hs"

section \<open>The component\<close>

text \<open>
  \<open>c_slots\<close> is the number of occupied places of the \<open>slots\<close> channel, \<open>c_jobs\<close> the contents of
  the \<open>jobs\<close> channel, \<open>c_wake\<close> whether the \<open>wake\<close> channel holds its token.
\<close>

record 'h compensator =
  c_config :: "comp_config \<times> int"
  c_handlers :: "'h registry option"
  c_ctx_done :: bool
  c_closed :: bool
  c_slots :: nat
  c_jobs :: "claimed list"
  c_wake :: bool
  c_backlog :: bool

definition notify :: "'h compensator \<Rightarrow> 'h compensator" where
  "notify c = c\<lparr>c_wake := True\<rparr>"

text \<open>\<open>start\<close>: the flag is whether the workers and loops were started.\<close>

definition start :: "comp_config \<times> int \<Rightarrow> 'h registry \<Rightarrow> bool \<times> 'h compensator" where
  "start conf reg =
     (\<not> DisableWorker (fst conf),
      \<lparr>c_config = conf, c_handlers = Some reg, c_ctx_done = False, c_closed = False, c_slots = 0, c_jobs = [],
       c_wake = False, c_backlog = False\<rparr>)"

text \<open>\<open>New\<close>: \<open>ctx\<close> is \<open>None\<close> for nil, \<open>ensure\<close> the error of \<open>ensureSchema\<close> (\<open>schema.go\<close>).\<close>

definition New ::
  "bool option \<Rightarrow> string option \<Rightarrow> comp_config \<Rightarrow> (string \<times> 'h option) list \<Rightarrow> comp_error option
    \<Rightarrow> comp_error + bool \<times> 'h compensator" where
  "New ctx db config hs ensure =
     (case ctx of None \<Rightarrow> Inl ErrInvalidConfig | Some ended \<Rightarrow>
      if ended then Inl ErrContext
      else case resolveConfig config of Inl e \<Rightarrow> Inl e | Inr c \<Rightarrow>
      case with_handlers None hs of Inl e \<Rightarrow> Inl ErrInvalidConfig | Inr reg \<Rightarrow>
      case newPGStorage db of Inl e \<Rightarrow> Inl e | Inr _ \<Rightarrow>
      case ensure of Some e \<Rightarrow> Inl e | None \<Rightarrow> Inr (start c reg))"

definition RegisterAll :: "(string \<times> 'h option) list \<Rightarrow> 'h compensator option \<Rightarrow> comp_error option \<times> 'h compensator option" where
  "RegisterAll hs cm =
     (case cm of None \<Rightarrow> (Some ErrClosed, None) | Some c \<Rightarrow>
      if hs = [] then (Some ErrInvalidArgument, cm)
      else if c_closed c then (Some ErrClosed, cm)
      else case with_handlers (c_handlers c) hs of
        Inl e \<Rightarrow> (Some ErrInvalidArgument, cm)
      | Inr nxt \<Rightarrow> (None, Some (notify (c\<lparr>c_handlers := Some nxt\<rparr>))))"

definition Register :: "string \<Rightarrow> 'h option \<Rightarrow> 'h compensator option \<Rightarrow> comp_error option \<times> 'h compensator option" where
  "Register taskType h cm = RegisterAll [(taskType, h)] cm"

text \<open>\<open>ctx\<close>: \<open>None\<close> is nil, \<open>Some True\<close> a context that has ended.\<close>

definition begin_call :: "bool option \<Rightarrow> 'h compensator option \<Rightarrow> comp_error option" where
  "begin_call ctx cm =
     (case ctx of None \<Rightarrow> Some ErrInvalidArgument | Some ended \<Rightarrow>
      if ended then Some ErrContext
      else case cm of None \<Rightarrow> Some ErrClosed | Some c \<Rightarrow> if c_closed c then Some ErrClosed else None)"

text \<open>\<open>fresh\<close> is what the UUID generator returns, \<open>None\<close> when it fails.\<close>

definition prepare :: "'h compensator \<Rightarrow> uuid option \<Rightarrow> task \<Rightarrow> comp_error + task" where
  "prepare c fresh t =
     (case validateType (Type t) of Inl e \<Rightarrow> Inl e | Inr _ \<Rightarrow>
      if registry_get (c_handlers c) (Type t) = None then Inl ErrNoHandler
      else if Attempt t \<noteq> 0 then Inl ErrInvalidArgument
      else if ID t = 0 then (case fresh of None \<Rightarrow> Inl ErrGenerateID | Some i \<Rightarrow> Inr (t\<lparr>ID := i\<rparr>))
      else Inr t)"

record tx =
  tx_tasks :: "task list"
  tx_ids :: "uuid set"
  tx_err :: "comp_error option"
  tx_closed :: bool

definition new_tx :: tx where
  "new_tx = \<lparr>tx_tasks = [], tx_ids = {}, tx_err = None, tx_closed = False\<rparr>"

definition Add :: "'h compensator \<Rightarrow> bool option \<Rightarrow> uuid option \<Rightarrow> task \<Rightarrow> tx \<Rightarrow> (comp_error + uuid) \<times> tx" where
  "Add c ctx fresh t0 x =
     (if tx_closed x then (Inl ErrInvalidArgument, x)
      else case tx_err x of Some e \<Rightarrow> (Inl e, x) | None \<Rightarrow>
      case ctx of None \<Rightarrow> (Inl ErrInvalidArgument, x\<lparr>tx_err := Some ErrInvalidArgument\<rparr>) | Some ended \<Rightarrow>
      case prepare c fresh t0 of Inl e \<Rightarrow> (Inl e, x\<lparr>tx_err := Some e\<rparr>) | Inr t \<Rightarrow>
      if ended then (Inl ErrContext, x\<lparr>tx_err := Some ErrContext\<rparr>)
      else if ID t \<in> tx_ids x then (Inl ErrInvalidArgument, x\<lparr>tx_err := Some ErrInvalidArgument\<rparr>)
      else (Inr (ID t), x\<lparr>tx_ids := insert (ID t) (tx_ids x), tx_tasks := tx_tasks x @ [t]\<rparr>))"

definition tx_close :: "tx \<Rightarrow> (task list \<times> comp_error option) \<times> tx" where
  "tx_close x = ((tx_tasks x, tx_err x), x\<lparr>tx_closed := True\<rparr>)"

text \<open>
  The business callback as the calls of \<open>Add\<close> it makes and the error it returns; the rows it
  changes itself are not part of the task table.
\<close>

record business =
  b_adds :: "(bool option \<times> uuid option \<times> task) list"
  b_result :: "comp_error option"

definition run_adds :: "'h compensator \<Rightarrow> (bool option \<times> uuid option \<times> task) list \<Rightarrow> tx \<Rightarrow> tx" where
  "run_adds c adds x = fold (\<lambda>(ctx, fresh, t) x. snd (Add c ctx fresh t x)) adds x"

record tx_env =
  te_begin :: "db_error option"
  te_insert :: "db_error option"
  te_commit :: commit_outcome
  te_now :: int

definition Transaction ::
  "bool option \<Rightarrow> tx_env \<Rightarrow> business option \<Rightarrow> 'h compensator option \<Rightarrow> task_row list
    \<Rightarrow> comp_error option \<times> 'h compensator option \<times> task_row list" where
  "Transaction ctx ev fn cm t =
     (case begin_call ctx cm of Some e \<Rightarrow> (Some e, cm, t) | None \<Rightarrow>
      case cm of None \<Rightarrow> (Some ErrClosed, cm, t) | Some c \<Rightarrow>
      case fn of None \<Rightarrow> (Some ErrInvalidArgument, cm, t) | Some b \<Rightarrow>
      case te_begin ev of Some e \<Rightarrow> (Some (ErrDB e), cm, t) | None \<Rightarrow>
      case fst (tx_close (run_adds c (b_adds b) new_tx)) of (tasks, addErr) \<Rightarrow>
      case b_result b of Some e \<Rightarrow> (Some e, cm, t) | None \<Rightarrow>
      case addErr of Some e \<Rightarrow> (Some e, cm, t) | None \<Rightarrow>
      case (if tasks = [] then (Inr (), t) else insert_tasks (te_insert ev) (te_now ev) tasks t) of
        (Inl e, _) \<Rightarrow> (Some e, cm, t)
      | (Inr _, t') \<Rightarrow>
          (case te_commit ev of
             CommitErr e applied \<Rightarrow> (Some (ErrDB e), cm, if applied then t' else t)
           | CommitOk \<Rightarrow> (None, Some (if tasks = [] then c else notify c), t')))"

text \<open>\<open>AddTx\<close>: the task enters the caller's transaction; \<open>tx_nil\<close> is the nil handle.\<close>

definition AddTx ::
  "bool option \<Rightarrow> bool \<Rightarrow> uuid option \<Rightarrow> db_error option \<Rightarrow> int \<Rightarrow> task \<Rightarrow> 'h compensator option \<Rightarrow> task_row list
    \<Rightarrow> (comp_error + uuid) \<times> task_row list" where
  "AddTx ctx tx_nil fresh flt now t0 cm t =
     (case begin_call ctx cm of Some e \<Rightarrow> (Inl e, t) | None \<Rightarrow>
      case cm of None \<Rightarrow> (Inl ErrClosed, t) | Some c \<Rightarrow>
      if tx_nil then (Inl ErrInvalidArgument, t)
      else case prepare c fresh t0 of Inl e \<Rightarrow> (Inl e, t) | Inr x \<Rightarrow>
      case insert_tasks flt now [x] t of (Inl e, t') \<Rightarrow> (Inl e, t') | (Inr _, t') \<Rightarrow> (Inr (ID x), t'))"

definition Get :: "bool option \<Rightarrow> db_error option \<Rightarrow> uuid \<Rightarrow> 'h compensator option \<Rightarrow> task_row list \<Rightarrow> comp_error + task_row" where
  "Get ctx flt i cm t = (case begin_call ctx cm of Some e \<Rightarrow> Inl e | None \<Rightarrow> get flt i t)"

definition Retry ::
  "bool option \<Rightarrow> exec_outcome \<Rightarrow> db_error option \<Rightarrow> db_error option \<Rightarrow> int \<Rightarrow> uuid \<Rightarrow> 'h compensator option \<Rightarrow> task_row list
    \<Rightarrow> comp_error option \<times> 'h compensator option \<times> task_row list" where
  "Retry ctx c rows flt now i cm t =
     (case begin_call ctx cm of Some e \<Rightarrow> (Some e, cm, t) | None \<Rightarrow>
      case retry c rows flt now i t of
        (Some e, t') \<Rightarrow> (Some e, cm, t')
      | (None, t') \<Rightarrow> (None, map_option notify cm, t'))"

definition Stats :: "bool option \<Rightarrow> db_error option \<Rightarrow> 'h compensator option \<Rightarrow> task_row list \<Rightarrow> comp_error + stats_row" where
  "Stats ctx flt cm t = (case begin_call ctx cm of Some e \<Rightarrow> Inl e | None \<Rightarrow> stats flt t)"

text \<open>\<open>Close\<close> up to its waits: the workers then drain \<open>jobs\<close>, see \<open>execute\<close>.\<close>

definition Close :: "'h compensator option \<Rightarrow> 'h compensator option" where
  "Close cm = map_option (\<lambda>c. c\<lparr>c_closed := True, c_ctx_done := True\<rparr>) cm"

section \<open>Scanning and executing\<close>

fun reserve_loop :: "nat \<Rightarrow> nat \<Rightarrow> nat \<Rightarrow> nat" where
  "reserve_loop 0 cap used = 0"
| "reserve_loop (Suc n) cap used = (if used < cap then Suc (reserve_loop n cap (Suc used)) else 0)"

definition reserve :: "int \<Rightarrow> 'h compensator \<Rightarrow> nat \<times> 'h compensator" where
  "reserve limit c =
     (let n = reserve_loop (nat limit) (nat (WorkerCount (fst (c_config c)))) (c_slots c) in (n, c\<lparr>c_slots := c_slots c + n\<rparr>))"

definition unreserve :: "nat \<Rightarrow> 'h compensator \<Rightarrow> 'h compensator" where
  "unreserve count c = c\<lparr>c_slots := c_slots c - count\<rparr>"

definition runnable :: "claimed list \<Rightarrow> claimed list" where
  "runnable ts = filter (\<lambda>t. \<not> exhausted t) ts"

text \<open>
  One round of the loop of \<open>scan\<close>: \<open>False\<close> when \<open>scan\<close> returns, \<open>True\<close> when it goes round.
\<close>

record scan_env =
  sc_exec :: exec_outcome
  sc_now :: int
  sc_locked :: "uuid \<Rightarrow> bool"
  sc_token :: int64

definition scan_round :: "scan_env \<Rightarrow> 'h compensator \<Rightarrow> task_row list \<Rightarrow> bool \<times> 'h compensator \<times> task_row list" where
  "scan_round ev c t =
     (if c_ctx_done c then (False, c, t)
      else case c_handlers c of None \<Rightarrow> (False, c, t) | Some reg \<Rightarrow>
      if types reg = [] then (False, c, t)
      else case reserve (BatchSize (fst (c_config c))) c of (free, c1) \<Rightarrow>
      if free = 0 then (False, c1\<lparr>c_backlog := True\<rparr>, t)
      else case claim (sc_exec ev) (sc_now ev) (sc_locked ev) (c_config c) (int free) (sc_token ev) (types reg) t of
        (Inl e, t') \<Rightarrow> (False, unreserve free c1, t')
      | (Inr rows, t') \<Rightarrow>
          (let ts = runnable rows;
               c2 = (unreserve (free - length ts) c1)\<lparr>c_jobs := c_jobs c @ ts\<rparr>
           in if length rows < free then (False, c2\<lparr>c_backlog := False\<rparr>, t') else (True, c2\<lparr>c_backlog := True\<rparr>, t')))"

text \<open>What one execution ends with; \<open>HandlerErr text canceled\<close> is an error of the handler.\<close>

datatype exec_error = NoHandlerErr | HandlerPanic string | CtxCanceled | CtxDeadline | HandlerErr string bool

datatype handler_result = HandlerReturns "exec_error option" | HandlerPanics string

definition is_canceled :: "exec_error \<Rightarrow> bool" where
  "is_canceled e = (case e of CtxCanceled \<Rightarrow> True | HandlerErr _ b \<Rightarrow> b | _ \<Rightarrow> False)"

text \<open>
  \<open>invoke\<close>: \<open>canceled\<close> is whether the component was closed before the handler ran, \<open>run\<close> what
  the handler does on the task and whether its deadline had passed when it returned.
\<close>

definition invoke :: "'h compensator \<Rightarrow> bool \<Rightarrow> ('h \<Rightarrow> task \<Rightarrow> handler_result \<times> bool) \<Rightarrow> task \<Rightarrow> exec_error option" where
  "invoke c canceled run t =
     (case registry_get (c_handlers c) (Type t) of
        None \<Rightarrow> Some NoHandlerErr
      | Some h \<Rightarrow>
          if canceled then Some CtxCanceled
          else (case run h t of
                  (HandlerPanics v, _) \<Rightarrow> Some (HandlerPanic v)
                | (HandlerReturns (Some e), _) \<Rightarrow> Some e
                | (HandlerReturns None, deadline) \<Rightarrow> if deadline then Some CtxDeadline else None))"

definition outcome :: "comp_config \<times> int \<Rightarrow> (exec_error \<Rightarrow> string) \<Rightarrow> duration \<Rightarrow> int \<Rightarrow> exec_error option \<Rightarrow> status \<times> string \<times> duration" where
  "outcome conf text rnd attempt err =
     (case err of
        None \<Rightarrow> (StatusSucceeded, [], 0)
      | Some e \<Rightarrow>
          if attempt \<ge> snd conf + 1 then (StatusFailed, errorText (Some (text e)), 0)
          else (StatusPending, errorText (Some (text e)),
                backoff (RetryBackoffMin (fst conf)) (RetryBackoffMax (fst conf)) attempt rnd))"

record exec_env =
  ex_canceled :: bool
  ex_ctx_done :: bool
  ex_exec :: exec_outcome
  ex_rows :: "db_error option"
  ex_now :: int
  ex_rnd :: duration
  ex_text :: "exec_error \<Rightarrow> string"

definition execute ::
  "exec_env \<Rightarrow> ('h \<Rightarrow> task \<Rightarrow> handler_result \<times> bool) \<Rightarrow> 'h compensator \<Rightarrow> claimed \<Rightarrow> task_row list \<Rightarrow> task_row list" where
  "execute ev run c cl t =
     (let err = invoke c (ex_canceled ev) run (task.truncate cl) in
      if (case err of Some e \<Rightarrow> is_canceled e | None \<Rightarrow> False) \<and> ex_ctx_done ev
      then snd (abandon (ex_exec ev) (ex_now ev) cl t)
      else case outcome (c_config c) (ex_text ev) (ex_rnd ev) (Attempt cl) err of
             (st, lastError, delay) \<Rightarrow> snd (finish (ex_exec ev) (ex_rows ev) (ex_now ev) cl st lastError delay t))"

text \<open>The worker loop around it: one job, then its slot is freed and a backlog wakes the scan.\<close>

definition worker_done :: "'h compensator \<Rightarrow> 'h compensator" where
  "worker_done c = (let c' = c\<lparr>c_slots := c_slots c - 1\<rparr> in if c_backlog c then notify c' else c')"

definition maxCleanupRounds :: nat where "maxCleanupRounds = 100"

text \<open>\<open>cleanupStatus\<close>: per round, whether the context has ended and how the DELETE goes.\<close>

record clean_env =
  cl_ctx_done :: bool
  cl_exec :: exec_outcome
  cl_now :: int
  cl_locked :: "uuid \<Rightarrow> bool"
  cl_pick :: "task_row \<Rightarrow> int"

primrec cleanup_rounds :: "nat \<Rightarrow> (nat \<Rightarrow> clean_env) \<Rightarrow> comp_config \<Rightarrow> status \<Rightarrow> duration \<Rightarrow> task_row list \<Rightarrow> task_row list" where
  "cleanup_rounds 0 ev conf st olderThan t = t"
| "cleanup_rounds (Suc n) ev conf st olderThan t =
     (let e = ev (maxCleanupRounds - Suc n) in
      if cl_ctx_done e then t
      else case cleanup (cl_exec e) (cl_now e) (cl_locked e) (cl_pick e) st olderThan (CleanupBatchSize conf) t of
             (Inl _, t') \<Rightarrow> t'
           | (Inr deleted, t') \<Rightarrow> if deleted < CleanupBatchSize conf then t' else cleanup_rounds n ev conf st olderThan t')"

definition cleanupStatus :: "(nat \<Rightarrow> clean_env) \<Rightarrow> comp_config \<Rightarrow> status \<Rightarrow> duration \<Rightarrow> task_row list \<Rightarrow> task_row list" where
  "cleanupStatus ev conf st olderThan t = cleanup_rounds maxCleanupRounds ev conf st olderThan t"

text \<open>One tick of \<open>cleanupLoop\<close>.\<close>

definition cleanup_tick :: "(nat \<Rightarrow> clean_env) \<Rightarrow> (nat \<Rightarrow> clean_env) \<Rightarrow> comp_config \<Rightarrow> task_row list \<Rightarrow> task_row list" where
  "cleanup_tick ev1 ev2 conf t =
     (let t1 = cleanupStatus ev1 conf StatusSucceeded (CleanupAfter conf) t in
      if FailedRetention conf > 0 then cleanupStatus ev2 conf StatusFailed (FailedRetention conf) t1 else t1)"

section \<open>Properties of the API\<close>

lemma Add_sticky: "tx_err x = Some e \<Longrightarrow> \<not> tx_closed x \<Longrightarrow> Add c ctx fresh t x = (Inl e, x)"
  by (simp add: Add_def)

lemma Add_step:
  assumes "Add c ctx fresh t x = (res, x')" and "tx_err x = None" and "\<not> tx_closed x"
    and "tx_ids x = ID ` set (tx_tasks x)" and "distinct (map ID (tx_tasks x))"
  shows "\<not> tx_closed x' \<and> tx_ids x' = ID ` set (tx_tasks x') \<and> distinct (map ID (tx_tasks x'))
     \<and> (case res of Inl e \<Rightarrow> tx_err x' = Some e \<and> tx_tasks x' = tx_tasks x
        | Inr i \<Rightarrow> tx_err x' = None \<and> (\<exists>t'. prepare c fresh t = Inr t' \<and> ID t' = i \<and> tx_tasks x' = tx_tasks x @ [t']))"
  using assms by (auto simp: Add_def split: option.splits sum.splits if_splits)

text \<open>What the calls of a callback leave behind: an error as soon as one failed, else every task.\<close>

definition tx_ok :: "tx \<Rightarrow> bool" where
  "tx_ok x \<longleftrightarrow> \<not> tx_closed x \<and> tx_ids x = ID ` set (tx_tasks x) \<and> distinct (map ID (tx_tasks x))"

fun prepared :: "'h compensator \<Rightarrow> (bool option \<times> uuid option \<times> task) list \<Rightarrow> task list option" where
  "prepared c [] = Some []"
| "prepared c ((ctx, fresh, t) # adds) =
     (case prepare c fresh t of Inl _ \<Rightarrow> None | Inr t' \<Rightarrow>
      case prepared c adds of None \<Rightarrow> None | Some ts \<Rightarrow> if ctx = Some False then Some (t' # ts) else None)"

lemma run_adds_err: "tx_err x = Some e \<Longrightarrow> \<not> tx_closed x \<Longrightarrow> run_adds c adds x = x"
  unfolding run_adds_def by (induction adds) (auto simp: Add_sticky)

lemma run_adds_Cons: "run_adds c ((ctx, fresh, t) # adds) x = run_adds c adds (snd (Add c ctx fresh t x))"
  by (simp add: run_adds_def)

lemma Add_ok_iff:
  assumes "tx_err x = None" and "\<not> tx_closed x"
  shows "tx_err (snd (Add c ctx fresh t x)) = None
     \<longleftrightarrow> (\<exists>t'. prepare c fresh t = Inr t' \<and> ctx = Some False \<and> ID t' \<notin> tx_ids x
            \<and> Add c ctx fresh t x = (Inr (ID t'), x\<lparr>tx_ids := insert (ID t') (tx_ids x), tx_tasks := tx_tasks x @ [t']\<rparr>))"
  using assms by (auto simp: Add_def split: option.splits sum.splits if_splits)

lemma run_adds_tasks:
  assumes "tx_ok x" and "tx_err x = None"
  shows "tx_ok (run_adds c adds x) \<and>
     (case tx_err (run_adds c adds x) of
        Some e \<Rightarrow> True
      | None \<Rightarrow> (\<exists>ts. prepared c adds = Some ts \<and> tx_tasks (run_adds c adds x) = tx_tasks x @ ts \<and> distinct (map ID (tx_tasks x @ ts))))"
  using assms
proof (induction adds arbitrary: x)
  case Nil
  then show ?case by (simp add: run_adds_def tx_ok_def)
next
  case (Cons a adds)
  obtain ctx fresh t where a: "a = (ctx, fresh, t)" by (rule prod_cases3)
  let ?y = "snd (Add c ctx fresh t x)"
  obtain res where y: "Add c ctx fresh t x = (res, ?y)" by (metis prod.collapse)
  have ok: "tx_ok ?y" using Add_step [OF y] Cons.prems by (auto simp: tx_ok_def)
  show ?case
  proof (cases "tx_err ?y")
    case (Some e)
    then show ?thesis using run_adds_err [of ?y e c adds] ok by (simp add: a run_adds_Cons tx_ok_def)
  next
    case None
    then obtain t' where t': "prepare c fresh t = Inr t'" "ctx = Some False" "tx_tasks ?y = tx_tasks x @ [t']"
      using Add_ok_iff [of x c ctx fresh t] Cons.prems by (auto simp: tx_ok_def)
    show ?thesis using Cons.IH [OF ok None] t' by (auto simp: a run_adds_Cons split: option.splits)
  qed
qed

text \<open>
  Transactional registration. When \<open>Transaction\<close> returns nil, every task the callback
  added was prepared without error and they were all inserted, pending and due at once, with
  IDs that are pairwise different and new, and the callback itself returned nil. When it returns
  an error, the task table is unchanged, the only exception being a COMMIT that was applied
  without an answer; a single failing \<open>Add\<close> is enough for that even when the callback ignores it.
\<close>

theorem transaction_all_or_nothing:
  assumes "Transaction ctx ev fn (Some c) t = (err, cm', t')"
  shows "(err = None \<longrightarrow>
           (\<exists>b ts. fn = Some b \<and> b_result b = None \<and> prepared c (b_adds b) = Some ts \<and> distinct (map ID ts)
              \<and> ID ` set ts \<inter> t_id ` set t = {} \<and> t' = t @ map (new_row (te_now ev)) ts))
     \<and> (err \<noteq> None \<longrightarrow> t' = t \<or> (\<exists>e. te_commit ev = CommitErr e True))"
proof (cases "begin_call ctx (Some c) \<noteq> None \<or> fn = None")
  case True
  show ?thesis
  proof (cases "begin_call ctx (Some c)")
    case (Some e)
    then have "Some e = err" "t' = t" using assms by (simp_all add: Transaction_def)
    then show ?thesis by auto
  next
    case None
    then have "Some ErrInvalidArgument = err" "t' = t" using assms True by (simp_all add: Transaction_def)
    then show ?thesis by auto
  qed
next
  case False
  then obtain b where beg: "begin_call ctx (Some c) = None" and Some: "fn = Some b" by auto
  let ?x = "run_adds c (b_adds b) new_tx"
  have x: "tx_ok ?x" "tx_err ?x = None \<Longrightarrow> \<exists>ts. prepared c (b_adds b) = Some ts \<and> tx_tasks ?x = ts \<and> distinct (map ID ts)"
    using run_adds_tasks [of new_tx c "b_adds b"] by (auto simp: tx_ok_def new_tx_def)
  show ?thesis
  proof (cases "tx_err ?x")
    case None
    then obtain ts where ts: "prepared c (b_adds b) = Some ts" "tx_tasks ?x = ts" "distinct (map ID ts)" using x(2) by blast
    show ?thesis using assms Some None ts beg
      by (auto simp: Transaction_def tx_close_def insert_tasks_def split: option.splits if_splits commit_outcome.splits)
  next
    case (Some e)
    then show ?thesis using assms \<open>fn = Some b\<close> beg
      by (auto simp: Transaction_def tx_close_def split: option.splits)
  qed
qed

text \<open>
  Configuration. A configuration that resolves has at least one worker, room for at least
  one task per batch, durations of at least a millisecond, a backoff range that is not
  empty, a retry count between 0 and a million, and a lease strictly longer than the handler
  timeout, so that a handler's context always ends before its lease does.
\<close>

theorem resolveConfig_bounds:
  assumes "resolveConfig c0 = Inr (c, retries)" and "WorkerCount c0 < 2 ^ 62"
  shows "1 \<le> WorkerCount c \<and> 1 \<le> BatchSize c \<and> 1 \<le> CleanupBatchSize c \<and> 0 \<le> retries \<and> retries \<le> 1000000
     \<and> millisecond \<le> HandlerTimeout c \<and> HandlerTimeout c < LeaseDuration c
     \<and> millisecond \<le> RetryBackoffMin c \<and> RetryBackoffMin c \<le> RetryBackoffMax c
     \<and> millisecond \<le> ScanInterval c \<and> millisecond \<le> OperationTimeout c \<and> millisecond \<le> CleanupAfter c
     \<and> 0 \<le> FailedRetention c \<and> suffixPattern (TableSuffix c)"
proof -
  have c: "c = with_defaults c0" and counts: "\<not> (WorkerCount c0 < 0 \<or> BatchSize c0 < 0 \<or> CleanupBatchSize c0 < 0)"
    and pat: "suffixPattern (TableSuffix c0)"
    and ds: "\<not> (\<exists>d \<in> {ScanInterval c, RetryBackoffMin c, RetryBackoffMax c, CleanupAfter c, CleanupInterval c, OperationTimeout c,
                 HandlerTimeout c, LeaseDuration c}. d < millisecond)"
    and rest: "\<not> FailedRetention c < 0" "\<not> LeaseDuration c \<le> HandlerTimeout c" "\<not> RetryBackoffMax c < RetryBackoffMin c"
    and retries: "0 \<le> retries \<and> retries \<le> 1000000"
    using assms(1) unfolding resolveConfig_def Let_def by (auto split: if_splits)
  have "i64 (2 * WorkerCount c0) = 2 * WorkerCount c0"
    using counts assms(2) by (intro i64_id) (simp add: in_i64_def MinInt64_def MaxInt64_def)
  then have "1 \<le> WorkerCount c \<and> 1 \<le> BatchSize c \<and> 1 \<le> CleanupBatchSize c"
    using counts by (auto simp: c with_defaults_def or_default_def Let_def i64_def)
  moreover have "TableSuffix c = TableSuffix c0" by (simp add: c with_defaults_def Let_def)
  ultimately show ?thesis using pat ds rest retries by simp
qed

definition demo_config :: comp_config where
  "demo_config = \<lparr>TableSuffix = ''orders'', Schema = [], WorkerCount = 0, ScanInterval = 0, BatchSize = 0, MaxRetries = 0,
     RetryBackoffMin = 0, RetryBackoffMax = 0, HandlerTimeout = 0, LeaseDuration = 0, CleanupAfter = 0, CleanupInterval = 0,
     CleanupBatchSize = 0, FailedRetention = 0, OperationTimeout = 0, DisableWorker = False\<rparr>"

lemma demo_config_resolves: "resolveConfig demo_config = Inr (with_defaults demo_config, 10)"
  by (simp add: resolveConfig_def demo_config_def with_defaults_def or_default_def Let_def suffixPattern_def suffix_char_def
      byte_in_def byte_def cfg_simps i64_def)

theorem resolveConfig_bounds_witness:
  "resolveConfig demo_config = Inr (with_defaults demo_config, 10) \<and> 1 \<le> WorkerCount (with_defaults demo_config)
   \<and> HandlerTimeout (with_defaults demo_config) < LeaseDuration (with_defaults demo_config)"
  using resolveConfig_bounds [OF demo_config_resolves] demo_config_resolves by (simp add: demo_config_def)

text \<open>
  Registration. \<open>RegisterAll\<close> is atomic: on an error the component is unchanged. When it
  succeeds, every handler given is registered under its type, the handlers registered before
  are kept, the types used to claim tasks are exactly the types with a handler, each once, and a
  scan is requested.
\<close>

definition registry_ok :: "'h registry \<Rightarrow> bool" where
  "registry_ok g \<longleftrightarrow> distinct (types g) \<and> set (types g) = dom (handlers g)"

lemma add_handlers_ok:
  assumes "registry_ok g" and "add_handlers g hs = Inr g'"
  shows "registry_ok g' \<and> (\<forall>n h. (n, h) \<in> set hs \<longrightarrow> h \<noteq> None \<and> handlers g' n = h) \<and> handlers g \<subseteq>\<^sub>m handlers g'"
  using assms
proof (induction g hs arbitrary: g' rule: add_handlers.induct)
  case (2 g name h rest)
  from 2(3) obtain f where f: "h = Some f" "handlers g name = None" "validateType name = Inr ()"
      "add_handlers (g\<lparr>handlers := (handlers g)(name \<mapsto> f), types := types g @ [name]\<rparr>) rest = Inr g'"
    by (auto split: sum.splits option.splits if_splits simp del: add_handlers.simps(2) simp: add_handlers.simps(2) [of g name h rest])
  let ?g = "g\<lparr>handlers := (handlers g)(name \<mapsto> f), types := types g @ [name]\<rparr>"
  have ok: "registry_ok ?g" using 2(2) f(2) by (auto simp: registry_ok_def)
  have IH: "registry_ok g'" "\<forall>n h. (n, h) \<in> set rest \<longrightarrow> h \<noteq> None \<and> handlers g' n = h" "handlers ?g \<subseteq>\<^sub>m handlers g'"
    using 2(1) [OF f(3,1) _ ok f(4)] f(2) by blast+
  have "handlers g \<subseteq>\<^sub>m handlers ?g" using f(2) by (auto simp: map_le_def dom_def)
  then have "handlers g \<subseteq>\<^sub>m handlers g'" using IH(3) map_le_trans by blast
  moreover have "handlers g' name = Some f" using IH(3) by (auto simp: map_le_def)
  ultimately show ?case using IH f(1) by auto
qed auto

theorem registerAll_atomic:
  assumes "registry_ok g" and "c_handlers c = Some g" and "RegisterAll hs (Some c) = (err, cm')"
  shows "(err \<noteq> None \<longrightarrow> cm' = Some c)
     \<and> (err = None \<longrightarrow> (\<exists>g'. cm' = Some (c\<lparr>c_handlers := Some g', c_wake := True\<rparr>) \<and> registry_ok g'
          \<and> handlers g \<subseteq>\<^sub>m handlers g' \<and> (\<forall>n h. (n, h) \<in> set hs \<longrightarrow> h \<noteq> None \<and> handlers g' n = h)))"
  using assms add_handlers_ok [of g hs]
  by (auto simp: RegisterAll_def with_handlers_def notify_def split: if_splits sum.splits)

text \<open>
  Outcomes. A success is stored as succeeded; the failure of the attempt \<open>retries + 1\<close>
  or a later one as failed, for good; any earlier failure as pending again, after a delay
  between half the exponential backoff and all of it. The stored error text is valid UTF-8 of at
  most 2048 bytes.
\<close>

theorem outcome_decision:
  assumes "millisecond \<le> RetryBackoffMin (fst conf)" and "RetryBackoffMin (fst conf) \<le> RetryBackoffMax (fst conf)"
    and "RetryBackoffMax (fst conf) \<le> MaxInt64" and "1 \<le> attempt"
    and "D = min (RetryBackoffMax (fst conf)) (RetryBackoffMin (fst conf) * 2 ^ nat (attempt - 1))"
    and "0 \<le> rnd" and "rnd \<le> D - D div 2" and "outcome conf text rnd attempt err = (st, e, d)"
  shows "(st = StatusSucceeded \<longleftrightarrow> err = None)
     \<and> (st = StatusFailed \<longleftrightarrow> err \<noteq> None \<and> snd conf + 1 \<le> attempt)
     \<and> (st = StatusPending \<longleftrightarrow> err \<noteq> None \<and> attempt \<le> snd conf)
     \<and> (st = StatusPending \<longrightarrow> D div 2 \<le> d \<and> d \<le> D \<and> millisecond \<le> d)
     \<and> valid_utf8 e \<and> length e \<le> 2048"
proof -
  have msg: "valid_utf8 (errorText (Some m)) \<and> length (errorText (Some m)) \<le> 2048" for m
    using errorText_to_props [of 2048 m] by (simp add: errorText_def)
  show ?thesis
  proof (cases "err \<noteq> None \<and> attempt \<le> snd conf")
    case False
    then show ?thesis using assms(8) msg by (auto simp: outcome_def split: option.splits if_splits)
  next
    case True
    have "D div 2 \<le> backoff (RetryBackoffMin (fst conf)) (RetryBackoffMax (fst conf)) attempt rnd
        \<and> backoff (RetryBackoffMin (fst conf)) (RetryBackoffMax (fst conf)) attempt rnd \<le> D
        \<and> millisecond \<le> backoff (RetryBackoffMin (fst conf)) (RetryBackoffMax (fst conf)) attempt rnd"
      using backoff_range [OF assms(1-7)] by simp
    then show ?thesis using True assms(8) msg by (auto simp: outcome_def split: option.splits if_splits)
  qed
qed

text \<open>
  Capacity. Occupied slots never exceed the number of workers, every queued job occupies
  one, so the \<open>jobs\<close> channel, which has room for one job per worker, never blocks the scan; and a
  scan round never asks the database for more tasks than it has reserved slots for.
\<close>

lemma reserve_loop_bound: "used \<le> cap \<Longrightarrow> reserve_loop n cap used + used \<le> cap \<and> reserve_loop n cap used \<le> n"
  by (induction n cap used rule: reserve_loop.induct) auto

lemma claim_length:
  assumes "pk t_id t" and "claim x now locked conf limit tok tys t = (Inr rows, t')"
  shows "length rows \<le> nat limit"
proof -
  let ?ids = "picked limit now tys locked t"
  have t': "length rows = length (filter (\<lambda>r. t_id r \<in> set ?ids) (sql_update (\<lambda>r. t_id r \<in> set ?ids)
      (claim_set now tok (snd conf + 1) (Milliseconds (LeaseDuration (fst conf)))) t))"
    using assms(2) by (auto simp: claim_def Let_def split: commit_outcome.splits)
  let ?u = "sql_update (\<lambda>r. t_id r \<in> set ?ids) (claim_set now tok (snd conf + 1) (Milliseconds (LeaseDuration (fst conf)))) t"
  have d: "distinct (map t_id (filter (\<lambda>r. t_id r \<in> set ?ids) ?u))"
    using assms(1) map_key_sql_update [of t "\<lambda>r. t_id r \<in> set ?ids" t_id] by (simp add: pk_def claim_set_def distinct_map_filter)
  have "length rows = length (map t_id (filter (\<lambda>r. t_id r \<in> set ?ids) ?u))" using t' by simp
  also have "\<dots> = card (set (map t_id (filter (\<lambda>r. t_id r \<in> set ?ids) ?u)))" using distinct_card [OF d] by simp
  also have "\<dots> \<le> card (set ?ids)" by (rule card_mono) auto
  also have "\<dots> \<le> length ?ids" by (rule card_length)
  also have "\<dots> \<le> nat limit" by (simp add: picked_def length_sql_limit)
  finally show ?thesis .
qed

definition capacity_ok :: "'h compensator \<Rightarrow> bool" where
  "capacity_ok c \<longleftrightarrow> c_slots c \<le> nat (WorkerCount (fst (c_config c))) \<and> length (c_jobs c) \<le> c_slots c"

theorem scan_respects_capacity:
  assumes "capacity_ok c" and "pk t_id t" and "scan_round ev c t = (go, c', t')"
  shows "capacity_ok c' \<and> c_config c' = c_config c \<and> length (c_jobs c') \<le> nat (WorkerCount (fst (c_config c)))"
proof -
  have base: ?thesis if "c_slots c' = c_slots c" "c_jobs c' = c_jobs c" "c_config c' = c_config c"
    using assms(1) that by (simp add: capacity_ok_def)
  let ?cap = "nat (WorkerCount (fst (c_config c)))" and ?n = "nat (BatchSize (fst (c_config c)))"
  let ?free = "reserve_loop ?n ?cap (c_slots c)"
  have free: "?free + c_slots c \<le> ?cap" using reserve_loop_bound assms(1) by (simp add: capacity_ok_def)
  show ?thesis
  proof (cases "c_ctx_done c \<or> c_handlers c = None \<or> (\<exists>g. c_handlers c = Some g \<and> types g = []) \<or> ?free = 0")
    case True
    then show ?thesis using assms(3) base by (auto simp: scan_round_def reserve_def Let_def split: if_splits option.splits)
  next
    case False
    then obtain g where g: "c_handlers c = Some g" "types g \<noteq> []" "\<not> c_ctx_done c" "0 < ?free" by auto
    obtain res t1 where cl: "claim (sc_exec ev) (sc_now ev) (sc_locked ev) (c_config c) (int ?free) (sc_token ev) (types g) t = (res, t1)"
      by fastforce
    show ?thesis
    proof (cases res)
      case (Inl e)
      then show ?thesis using assms(3) g cl base by (auto simp: scan_round_def reserve_def unreserve_def Let_def split: if_splits)
    next
      case (Inr rows)
      have len: "length (runnable rows) \<le> ?free"
        using claim_length [OF assms(2) cl [unfolded Inr]] length_filter_le [of _ rows] unfolding runnable_def
        by (metis le_trans nat_int)
      have c': "c_slots c' = c_slots c + length (runnable rows)" "c_jobs c' = c_jobs c @ runnable rows" "c_config c' = c_config c"
        using assms(3) g cl Inr len by (auto simp: scan_round_def reserve_def unreserve_def Let_def split: if_splits)
      then show ?thesis using free len assms(1) by (auto simp: capacity_ok_def)
    qed
  qed
qed

section \<open>Witnesses\<close>

definition demo_handlers :: "(string \<times> nat option) list" where
  "demo_handlers = [(''mail'', Some 1)]"

lemma demo_type: "validateType ''mail'' = Inr ()"
  using plain_name [of "CHR ''m''" "''ail''"] by (simp add: validateType_def byte_def is_space_def)

definition demo_comp :: "nat compensator" where
  "demo_comp = snd (start (with_defaults demo_config, 10) \<lparr>handlers = [''mail'' \<mapsto> 1], types = [''mail'']\<rparr>)"

definition demo_business :: business where
  "demo_business = \<lparr>b_adds = [(Some False, Some 7, \<lparr>ID = 0, Type = ''mail'', Payload = ''x'', Attempt = 0\<rparr>)], b_result = None\<rparr>"

definition demo_env :: tx_env where
  "demo_env = \<lparr>te_begin = None, te_insert = None, te_commit = CommitOk, te_now = 1000\<rparr>"

lemma demo_transaction:
  "Transaction (Some False) demo_env (Some demo_business) (Some demo_comp) []
     = (None, Some (notify demo_comp), [new_row 1000 \<lparr>ID = 7, Type = ''mail'', Payload = ''x'', Attempt = 0\<rparr>])"
  by (simp add: Transaction_def begin_call_def demo_comp_def start_def demo_env_def demo_business_def run_adds_def Add_def prepare_def
      demo_type registry_get_def new_tx_def tx_close_def insert_tasks_def)

theorem transaction_all_or_nothing_witness:
  "\<exists>b ts. Some demo_business = Some b \<and> b_result b = None \<and> prepared demo_comp (b_adds b) = Some ts
     \<and> [new_row 1000 \<lparr>ID = 7, Type = ''mail'', Payload = ''x'', Attempt = 0\<rparr>] = map (new_row 1000) ts"
  using transaction_all_or_nothing [OF demo_transaction] by (auto simp: demo_env_def)

theorem registerAll_atomic_witness:
  "fst (RegisterAll [(''mail'', Some 2)] (Some demo_comp)) = Some ErrInvalidArgument
   \<and> snd (RegisterAll [(''mail'', Some 2)] (Some demo_comp)) = Some demo_comp"
proof -
  have g: "registry_ok \<lparr>handlers = [''mail'' \<mapsto> (1::nat)], types = [''mail'']\<rparr>" by (simp add: registry_ok_def)
  have c: "c_handlers demo_comp = Some \<lparr>handlers = [''mail'' \<mapsto> 1], types = [''mail'']\<rparr>" by (simp add: demo_comp_def start_def)
  have e: "fst (RegisterAll [(''mail'', Some 2)] (Some demo_comp)) = Some ErrInvalidArgument"
    by (simp add: RegisterAll_def demo_comp_def start_def with_handlers_def demo_type)
  show ?thesis
    using registerAll_atomic [OF g c prod.collapse [symmetric]] e by simp
qed

theorem outcome_decision_witness:
  "fst (outcome (with_defaults demo_config, 10) (\<lambda>_. ''boom'') 0 11 (Some CtxDeadline)) = StatusFailed
   \<and> fst (outcome (with_defaults demo_config, 10) (\<lambda>_. ''boom'') 0 3 (Some CtxDeadline)) = StatusPending"
proof -
  have c: "RetryBackoffMin (with_defaults demo_config) = second" "RetryBackoffMax (with_defaults demo_config) = 5 * minute"
    by (simp_all add: demo_config_def with_defaults_def or_default_def Let_def)
  obtain st e d where o: "outcome (with_defaults demo_config, 10) (\<lambda>_. ''boom'') 0 11 (Some CtxDeadline) = (st, e, d)" by (rule prod_cases3)
  obtain st2 e2 d2 where o2: "outcome (with_defaults demo_config, 10) (\<lambda>_. ''boom'') 0 3 (Some CtxDeadline) = (st2, e2, d2)" by (rule prod_cases3)
  have "st = StatusFailed"
    using outcome_decision [OF _ _ _ _ refl _ _ o] c by (simp add: cfg_simps MaxInt64_def)
  moreover have "st2 = StatusPending"
    using outcome_decision [OF _ _ _ _ refl _ _ o2] c by (simp add: cfg_simps MaxInt64_def)
  ultimately show ?thesis using o o2 by simp
qed

theorem scan_respects_capacity_witness:
  "capacity_ok (fst (snd (scan_round \<lparr>sc_exec = CommitOk, sc_now = 2000, sc_locked = (\<lambda>_. False), sc_token = 5\<rparr> demo_comp
      [new_row 1000 \<lparr>ID = 7, Type = ''mail'', Payload = ''x'', Attempt = 0\<rparr>])))"
proof -
  let ?t = "[new_row 1000 \<lparr>ID = 7, Type = ''mail'', Payload = ''x'', Attempt = 0\<rparr>]"
  let ?ev = "\<lparr>sc_exec = CommitOk, sc_now = 2000, sc_locked = (\<lambda>_. False), sc_token = 5\<rparr>"
  have c: "capacity_ok demo_comp" by (simp add: capacity_ok_def demo_comp_def start_def)
  have p: "pk t_id ?t" by (simp add: pk_def)
  obtain g c' t' where e: "scan_round ?ev demo_comp ?t = (g, c', t')" by (rule prod_cases3)
  show ?thesis using scan_respects_capacity [OF c p e] e by simp
qed

end
