(* ===== verification/Kc_Compensator_System.thy ===== *)
theory Kc_Compensator_System
  imports Kc_Compensator
begin

text \<open>
  The task table under every interleaving of the statements of any number of compensators with
  the same configuration: inserts, claims, results and returns of executions (also of executions
  whose lease has been taken over), retries and clean-ups, with any faults and lost answers.
\<close>

section \<open>Reports are fenced\<close>

text \<open>What an execution can report, and the two statements that do it as one fenced statement.\<close>

datatype report = Succeeded | GaveUp string | TryAgain string duration | Abandoned

definition report_set :: "int \<times> report \<Rightarrow> task_row \<Rightarrow> task_row" where
  "report_set a =
     (case snd a of
        Succeeded \<Rightarrow> finish_set (fst a) StatusSucceeded [] 0
      | GaveUp e \<Rightarrow> finish_set (fst a) StatusFailed e 0
      | TryAgain e d \<Rightarrow> finish_set (fst a) StatusPending e d
      | Abandoned \<Rightarrow> abandon_set (fst a))"

definition task_holder :: "task_row \<Rightarrow> int64 option" where
  "task_holder r = (if t_status r = StatusRunning then Some (t_lease_token r) else None)"

definition report_statement :: "int \<times> report \<Rightarrow> uuid \<Rightarrow> int64 \<Rightarrow> task_row list \<Rightarrow> task_row list" where
  "report_statement a i tok t = sql_update (leased i tok) (report_set a) t"

interpretation task_fence: releasing t_id task_holder report_set report_statement
proof
  show "t_id (report_set a r) = t_id r" for a r
    by (cases "snd a") (auto simp: report_set_def finish_set_def abandon_set_def)
  have "leased i tok = (\<lambda>r. t_id r = i \<and> task_holder r = Some tok)" for i tok
    by (auto simp: leased_def task_holder_def)
  then show "report_statement a i tok t = sql_update (\<lambda>r. t_id r = i \<and> task_holder r = Some tok) (report_set a) t" for a i tok t
    by (simp add: report_statement_def)
  show "task_holder (report_set a r) \<noteq> Some tok" if "task_holder r = Some tok" for a r tok
    by (cases "snd a") (auto simp: report_set_def finish_set_def abandon_set_def task_holder_def)
qed

definition report_of :: "status \<times> string \<times> duration \<Rightarrow> report" where
  "report_of x = (case fst x of StatusSucceeded \<Rightarrow> Succeeded | StatusFailed \<Rightarrow> GaveUp (fst (snd x)) | _ \<Rightarrow> TryAgain (fst (snd x)) (snd (snd x)))"

lemma outcome_report:
  assumes "outcome conf text rnd attempt err = (st, e, d)"
  shows "finish_set now st e d = report_set (now, report_of (st, e, d))"
  using assms by (auto simp: outcome_def report_of_def report_set_def split: option.splits if_splits)

lemma finish_table:
  "snd (finish c rows now cl st e d t) \<in> {t, sql_update (leased (ID cl) (token cl)) (finish_set now st e d) t}"
  by (auto simp: finish_def Let_def committed_def split: commit_outcome.splits option.splits)

lemma abandon_table: "snd (abandon c now cl t) \<in> {t, report_statement (now, Abandoned) (ID cl) (token cl) t}"
  by (auto simp: abandon_def committed_def report_statement_def report_set_def split: commit_outcome.splits)

text \<open>Whatever the handler does, an execution changes the table by one fenced statement or not at all.\<close>

lemma execute_table:
  "\<exists>rep. execute ev run c cl t \<in> {t, report_statement (ex_now ev, rep) (ID cl) (token cl) t}"
proof -
  let ?err = "invoke c (ex_canceled ev) run (task.truncate cl)"
  obtain st e d where o: "outcome (c_config c) (ex_text ev) (ex_rnd ev) (Attempt cl) ?err = (st, e, d)"
    by (rule prod_cases3)
  show ?thesis
  proof (cases "(case ?err of Some e \<Rightarrow> is_canceled e | None \<Rightarrow> False) \<and> ex_ctx_done ev")
    case True
    then have "execute ev run c cl t = snd (abandon (ex_exec ev) (ex_now ev) cl t)" by (simp add: execute_def Let_def)
    then show ?thesis using abandon_table by metis
  next
    case False
    then have "execute ev run c cl t = snd (finish (ex_exec ev) (ex_rows ev) (ex_now ev) cl st e d t)"
      using o by (auto simp: execute_def Let_def)
    then show ?thesis using finish_table [of "ex_exec ev" "ex_rows ev" "ex_now ev" cl st e d t] outcome_report [OF o, of "ex_now ev"]
      unfolding report_statement_def by metis
  qed
qed

section \<open>The step relation\<close>

text \<open>A handler is named by a number; \<open>run\<close> is what the handlers do.\<close>

inductive comp_step :: "comp_config \<times> int \<Rightarrow> int \<Rightarrow> task_row list \<Rightarrow> task_row list \<Rightarrow> bool" for conf now where
  s_insert: "insert_tasks flt now tasks t = (x, t') \<Longrightarrow> comp_step conf now t t'"
| s_claim: "claim c now locked conf limit tok tys t = (x, t') \<Longrightarrow> 0 < tok \<Longrightarrow> comp_step conf now t t'"
| s_execute: "c_config (cm :: nat compensator) = conf \<Longrightarrow> ex_now ev = now \<Longrightarrow> execute ev run cm cl t = t' \<Longrightarrow> comp_step conf now t t'"
| s_retry: "retry c rows flt now i t = (x, t') \<Longrightarrow> comp_step conf now t t'"
| s_cleanup: "cleanup c now locked pick st olderThan limit t = (x, t') \<Longrightarrow>
    (st = StatusSucceeded \<and> olderThan = CleanupAfter (fst conf)) \<or> (st = StatusFailed \<and> olderThan = FailedRetention (fst conf)) \<Longrightarrow>
    comp_step conf now t t'"

inductive comp_run :: "comp_config \<times> int \<Rightarrow> task_row list \<Rightarrow> bool" for conf where
  run_empty: "comp_run conf []"
| run_step: "comp_run conf t \<Longrightarrow> comp_step conf now t t' \<Longrightarrow> comp_run conf t'"

section \<open>The invariant of a task row\<close>

definition lease_of :: "comp_config \<times> int \<Rightarrow> int" where
  "lease_of conf = interval_ms (Milliseconds (LeaseDuration (fst conf)))"

definition row_ok :: "comp_config \<times> int \<Rightarrow> task_row \<Rightarrow> bool" where
  "row_ok conf r \<longleftrightarrow>
     0 \<le> t_attempts r \<and> t_attempts r \<le> snd conf + 1
     \<and> (t_status r = StatusRunning \<longrightarrow> 0 < t_lease_token r \<and> 1 \<le> t_attempts r \<and> t_next_run_at r = t_updated_at r + lease_of conf)
     \<and> (t_status r \<noteq> StatusRunning \<longrightarrow> t_lease_token r = 0)
     \<and> (t_completed_at r \<noteq> None \<longleftrightarrow> t_status r \<in> {StatusSucceeded, StatusFailed})"

definition table_ok :: "comp_config \<times> int \<Rightarrow> task_row list \<Rightarrow> bool" where
  "table_ok conf t \<longleftrightarrow> pk t_id t \<and> (\<forall>r \<in> set t. row_ok conf r)"

lemma table_ok_update:
  assumes "table_ok conf t" and "\<And>r. r \<in> set t \<Longrightarrow> p r \<Longrightarrow> row_ok conf r \<Longrightarrow> t_id (f r) = t_id r \<and> row_ok conf (f r)"
  shows "table_ok conf (sql_update p f t)"
  using assms pk_sql_update [of t_id t p f] unfolding table_ok_def by (auto simp: sql_update_mem_iff)

lemma row_ok_claim_set:
  assumes "0 < tok" and "row_ok conf r" and "lease_of conf = interval_ms lease" and "status_code (t_status r) < 2"
  shows "row_ok conf (claim_set now tok (snd conf + 1) lease r)"
  using assms by (auto simp: row_ok_def claim_set_def)

lemma row_ok_report: "row_ok conf r \<Longrightarrow> t_status r = StatusRunning \<Longrightarrow> row_ok conf (report_set a r)"
  by (cases "snd a") (auto simp: row_ok_def report_set_def finish_set_def abandon_set_def)

lemma row_ok_retry: "row_ok conf r \<Longrightarrow> row_ok conf (retry_set now r)"
  by (simp add: row_ok_def retry_set_def)

lemma picked_due:
  assumes "pk t_id t" and "r \<in> set t" and "t_id r \<in> set (picked limit now tys locked t)"
  shows "due now tys locked r"
proof -
  obtain s where "s \<in> set (sql_limit limit (sql_select (due now tys locked) t_next_run_at t))" "t_id s = t_id r"
    using assms(3) unfolding picked_def by auto
  then have "s \<in> set t" "due now tys locked s" "t_id s = t_id r"
    by (auto dest!: set_sql_limit simp: set_sql_select)
  then show ?thesis using pk_unique [OF assms(1,2), of s] by simp
qed

lemma claim_table:
  "snd (claim c now locked conf limit tok tys t) \<in> {t, sql_update (\<lambda>r. t_id r \<in> set (picked limit now tys locked t))
     (claim_set now tok (snd conf + 1) (Milliseconds (LeaseDuration (fst conf)))) t}"
  by (auto simp: claim_def Let_def committed_def split: commit_outcome.splits)

lemma insert_table:
  assumes "insert_tasks flt now tasks t = (x, t')"
  shows "t' = t \<or> (t' = t @ map (new_row now) tasks \<and> distinct (map ID tasks) \<and> ID ` set tasks \<inter> t_id ` set t = {})"
  using assms by (auto simp: insert_tasks_def split: if_splits option.splits)

lemma pk_insert:
  assumes "pk t_id t" and "distinct (map ID tasks)" and "ID ` set tasks \<inter> t_id ` set t = {}"
  shows "pk t_id (t @ map (new_row now) tasks)"
proof -
  have "map t_id (map (new_row now) tasks) = map ID tasks" by (simp add: new_row_def)
  then have "map t_id (t @ map (new_row now) tasks) = map t_id t @ map ID tasks" by simp
  then show ?thesis using assms unfolding pk_def by (metis distinct_append image_set inf_commute)
qed

lemma comp_step_ok:
  assumes "comp_step conf now t t'" and ok: "table_ok conf t" and "0 \<le> snd conf"
  shows "table_ok conf t'"
  using assms(1)
proof cases
  case (s_insert flt tasks x)
  have "row_ok conf (new_row now y)" for y using assms(3) by (simp add: row_ok_def new_row_def)
  then show ?thesis using insert_table [OF s_insert] ok pk_insert [of t tasks now] by (auto simp: table_ok_def)
next
  case (s_claim c locked limit tok tys x)
  have d: "status_code (t_status r) < 2" if "r \<in> set t" "t_id r \<in> set (picked limit now tys locked t)" for r
    using picked_due [of t r] that ok by (auto simp: table_ok_def due_def)
  have "table_ok conf (sql_update (\<lambda>r. t_id r \<in> set (picked limit now tys locked t))
     (claim_set now tok (snd conf + 1) (Milliseconds (LeaseDuration (fst conf)))) t)"
  proof (rule table_ok_update [OF ok], intro conjI)
    fix r assume r: "r \<in> set t" "t_id r \<in> set (picked limit now tys locked t)" "row_ok conf r"
    show "row_ok conf (claim_set now tok (snd conf + 1) (Milliseconds (LeaseDuration (fst conf))) r)"
      by (rule row_ok_claim_set [OF s_claim(2) r(3) _ d [OF r(1,2)]]) (simp add: lease_of_def)
  qed (simp add: claim_set_def)
  then show ?thesis using claim_table [of c now locked conf limit tok tys t] s_claim(1) ok by auto
next
  case (s_execute cm ev run cl)
  have "table_ok conf (report_statement a i tok t)" for a i tok
    unfolding report_statement_def
    by (rule table_ok_update [OF ok]) (auto simp: leased_def task_fence.keeps_key intro: row_ok_report)
  then show ?thesis using execute_table [of ev run cm cl t] s_execute(3) ok by auto
next
  case (s_retry c rows flt i x)
  have "table_ok conf (sql_update (\<lambda>r. t_id r = i \<and> t_status r = StatusFailed) (retry_set now) t)"
    by (rule table_ok_update [OF ok]) (use row_ok_retry [of conf] in \<open>simp_all add: retry_set_def\<close>)
  then show ?thesis using s_retry ok
    by (auto simp: retry_def Let_def committed_def split: commit_outcome.splits option.splits if_splits sum.splits)
next
  case (s_cleanup c locked pick st olderThan limit x)
  then show ?thesis using ok pk_sql_delete [of t_id t]
    by (auto simp: cleanup_def Let_def committed_def table_ok_def set_sql_delete split: commit_outcome.splits if_splits)
qed

lemma comp_run_ok: "comp_run conf t \<Longrightarrow> 0 \<le> snd conf \<Longrightarrow> table_ok conf t"
proof (induction rule: comp_run.induct)
  case run_empty
  show ?case by (simp add: table_ok_def pk_def)
next
  case (run_step t now t')
  then show ?case using comp_step_ok by blast
qed

section \<open>Properties\<close>

text \<open>
  The task table (C10). In every table that any interleaving of the statements of any number of
  nodes can produce: task IDs are unique; a task is running exactly when it carries a
  non-zero token, with at least one attempt and a lease that ends \<open>LeaseDuration\<close> after it was
  claimed; attempts never exceed \<open>retries + 1\<close>; the completion time is set exactly in the two
  terminal states. And a claim takes over a running task only when its whole lease has passed.
\<close>

theorem compensator_table_invariant:
  assumes "comp_run conf t" and "0 \<le> snd conf"
  shows "table_ok conf t
     \<and> (\<forall>r \<in> set t. t_status r = StatusRunning \<and> t_id r \<in> set (picked limit now tys locked t)
          \<longrightarrow> t_updated_at r + lease_of conf \<le> now)"
proof -
  have ok: "table_ok conf t" by (rule comp_run_ok [OF assms])
  have "t_updated_at r + lease_of conf \<le> now"
    if "r \<in> set t" "t_status r = StatusRunning" "t_id r \<in> set (picked limit now tys locked t)" for r
    using picked_due [OF _ that(1,3)] ok that(1,2) by (auto simp: table_ok_def row_ok_def due_def)
  then show ?thesis using ok by blast
qed

definition demo_conf :: "comp_config \<times> int" where
  "demo_conf = (with_defaults \<lparr>TableSuffix = ''orders'', Schema = [], WorkerCount = 0, ScanInterval = 0, BatchSize = 0, MaxRetries = 2,
     RetryBackoffMin = 0, RetryBackoffMax = 0, HandlerTimeout = 0, LeaseDuration = 0, CleanupAfter = 0, CleanupInterval = 0,
     CleanupBatchSize = 0, FailedRetention = 0, OperationTimeout = 0, DisableWorker = False\<rparr>, 2)"

definition demo_task :: task where
  "demo_task = \<lparr>ID = 7, Type = ''mail'', Payload = ''x'', Attempt = 0\<rparr>"

lemma demo_inserted: "comp_run demo_conf [new_row 1000 demo_task]"
  by (rule run_step [OF run_empty s_insert [of None 1000 "[demo_task]" _ "Inr ()"]]) (simp add: insert_tasks_def)

lemma demo_claimed:
  "claim CommitOk 2000 (\<lambda>_. False) demo_conf 8 99 [''mail''] [new_row 1000 demo_task]
     = (Inr [\<lparr>ID = 7, Type = ''mail'', Payload = ''x'', Attempt = 1, token = 99, exhausted = False\<rparr>],
        [claim_set 2000 99 3 40000 (new_row 1000 demo_task)])"
  by code_simp

theorem compensator_table_invariant_witness:
  "table_ok demo_conf [claim_set 2000 99 3 40000 (new_row 1000 demo_task)] \<and> (0::int) \<le> snd demo_conf"
proof -
  have r: "comp_run demo_conf [claim_set 2000 99 3 40000 (new_row 1000 demo_task)]"
    by (rule run_step [OF demo_inserted s_claim [OF demo_claimed]]) simp
  have n: "(0::int) \<le> snd demo_conf" by (simp add: demo_conf_def)
  show ?thesis using compensator_table_invariant [OF r n] n by blast
qed

text \<open>
  Success is final. No statement of any node changes a succeeded task: it stays exactly as
  it is until a clean-up deletes it, and that only after \<open>CleanupAfter\<close> has passed since it
  was completed.
\<close>

theorem succeeded_is_final:
  assumes "comp_step conf now t t'" and "table_ok conf t" and "r \<in> set t" and "t_status r = StatusSucceeded"
  shows "r \<in> set t' \<or> (\<exists>d. t_completed_at r = Some d \<and> d < now - interval_ms (Milliseconds (CleanupAfter (fst conf))))"
  using assms(1)
proof cases
  case (s_insert flt tasks x)
  then show ?thesis using insert_table [OF s_insert] assms(3) by auto
next
  case (s_claim c locked limit tok tys x)
  have "t_id r \<notin> set (picked limit now tys locked t)"
    using picked_due [of t r limit now tys locked] assms(2-4) by (auto simp: table_ok_def due_def)
  then have "r \<in> set (sql_update (\<lambda>r. t_id r \<in> set (picked limit now tys locked t)) f t)" for f
    using assms(3) by (force simp: sql_update_mem_iff)
  then show ?thesis using claim_table [of c now locked conf limit tok tys t] s_claim(1) assms(3) by auto
next
  case (s_execute cm ev run cl)
  have "r \<in> set (report_statement a i tok t)" for a i tok
    by (rule task_fence.held_by_other_untouched) (simp_all add: task_holder_def assms(3,4))
  then show ?thesis using execute_table [of ev run cm cl t] s_execute(3) assms(3) by auto
next
  case (s_retry c rows flt i x)
  have "r \<in> set (sql_update (\<lambda>r. t_id r = i \<and> t_status r = StatusFailed) (retry_set now) t)"
    using assms(3,4) by (force simp: sql_update_mem_iff)
  then show ?thesis using s_retry assms(3)
    by (auto simp: retry_def Let_def committed_def split: commit_outcome.splits option.splits if_splits sum.splits)
next
  case (s_cleanup c locked pick st olderThan limit x)
  show ?thesis
  proof (cases "t_id r \<in> set (cleanup_ids st olderThan limit now locked pick t)")
    case True
    then obtain s where s: "s \<in> set t" "t_id s = t_id r" "t_status s = st"
        "case t_completed_at s of None \<Rightarrow> False | Some d \<Rightarrow> d < now - interval_ms (Milliseconds olderThan)"
      by (auto simp: cleanup_ids_def set_sql_select dest!: set_sql_limit)
    then have "s = r" using pk_unique [of t_id t s r] assms(2,3) by (simp add: table_ok_def)
    then show ?thesis using s s_cleanup(2) assms(4) by (auto split: option.splits)
  next
    case False
    then show ?thesis using s_cleanup(1) assms(3)
      by (auto simp: cleanup_def Let_def committed_def set_sql_delete split: commit_outcome.splits if_splits)
  qed
qed

definition demo_done :: task_row where
  "demo_done = finish_set 3000 StatusSucceeded [] 0 (claim_set 2000 99 3 40000 (new_row 1000 demo_task))"

theorem succeeded_is_final_witness:
  "comp_step demo_conf 9000 [demo_done] [demo_done] \<and> table_ok demo_conf [demo_done] \<and> t_status demo_done = StatusSucceeded
   \<and> (demo_done \<in> set [demo_done] \<or> (\<exists>d. t_completed_at demo_done = Some d \<and> d < 9000 - interval_ms (Milliseconds (CleanupAfter (fst demo_conf)))))"
proof -
  have s: "comp_step demo_conf 9000 [demo_done] [demo_done]"
    by (rule s_retry [of CommitOk None None 9000 7 _ "Some ErrNotFailed"])
      (simp add: retry_def Let_def committed_def sql_update_def sql_affected_def get_def sql_row_def demo_done_def finish_set_def
        claim_set_def new_row_def demo_task_def)
  have ok: "table_ok demo_conf [demo_done]"
    by (simp add: table_ok_def pk_def row_ok_def demo_done_def finish_set_def claim_set_def new_row_def demo_conf_def)
  have st: "t_status demo_done = StatusSucceeded" by (simp add: demo_done_def finish_set_def)
  show ?thesis using succeeded_is_final [OF s ok _ st] s ok st by simp
qed

text \<open>
  Stale executions. When the lease of a claimed task has passed to another holder, or the
  task is no longer running, the old execution changes nothing, whatever its handler returns,
  panics with or ignores, and storing its result reports \<open>ErrLeaseLost\<close>. A holder's own report
  takes effect at most once.
\<close>

theorem stale_execution_is_harmless:
  assumes "pk t_id t" and "r \<in> set t" and "t_id r = ID cl" and "task_holder r \<noteq> Some (token cl)"
  shows "execute ev run cm cl t = t \<and> finish CommitOk None now cl st e d t = (Some ErrLeaseLost, t)"
proof -
  have no: "task_holder s \<noteq> Some (token cl)" if "s \<in> set t" "t_id s = ID cl" for s
    using pk_unique [OF assms(1) that(1) assms(2)] that(2) assms(3,4) by simp
  have nl: "\<not> leased (ID cl) (token cl) s" if "s \<in> set t" for s
    using no [OF that] by (auto simp: leased_def task_holder_def)
  have "report_statement a (ID cl) (token cl) t = t" for a
    by (rule task_fence.stale_no_effect) (use no in blast)
  then have "execute ev run cm cl t = t" using execute_table [of ev run cm cl t] by auto
  moreover have "finish CommitOk None now cl st e d t = (Some ErrLeaseLost, t)"
    using nl by (simp add: finish_def Let_def committed_def sql_update_id sql_affected_def filter_empty_conv)
  ultimately show ?thesis by simp
qed

theorem stale_execution_is_harmless_witness:
  "finish CommitOk None 5000 \<lparr>ID = 7, Type = ''mail'', Payload = ''x'', Attempt = 1, token = 98, exhausted = False\<rparr> StatusSucceeded [] 0
     [claim_set 2000 99 3 40000 (new_row 1000 demo_task)]
   = (Some ErrLeaseLost, [claim_set 2000 99 3 40000 (new_row 1000 demo_task)])"
proof -
  let ?r = "claim_set 2000 99 3 40000 (new_row 1000 demo_task)"
  let ?cl = "\<lparr>ID = 7, Type = ''mail'', Payload = ''x'', Attempt = 1, token = 98, exhausted = False\<rparr>"
  have "pk t_id [?r]" "t_id ?r = ID ?cl" "task_holder ?r \<noteq> Some (token ?cl)"
    by (simp_all add: pk_def claim_set_def new_row_def demo_task_def task_holder_def)
  then show ?thesis by (intro conjunct2 [OF stale_execution_is_harmless [of "[?r]" ?r ?cl]]) simp_all
qed

end
