(* ===== verification/Kc_Outbox.thy ===== *)
theory Kc_Outbox
  imports Complex_Main "HOL-Library.List_Lexorder" "HOL-Library.Char_ord" Kc_Sql Kc_Backoff Kc_Fence
begin

text \<open>
  The transactional outbox of \<open>src/pkg/outbox\<close>: configuration (\<open>types.go\<close>), the message, node
  and shard tables and their SQL (\<open>storage.go\<close>), the transactional API and dispatching
  (\<open>outbox.go\<close>), scanning and coordination (\<open>worker.go\<close>).

  The database is a record of the three tables; times are milliseconds of the server clock. The
  environment is given by arguments: clock readings, random tokens, the shard drawn for a
  message, rows locked by other sessions, faults, how COMMIT ends, what handlers return.
\<close>

datatype outbox_error = ErrInvalidConfig | ErrInvalidArgument | ErrResourceNotFound | ErrClosed | ErrNotFound | ErrNotFailed
  | ErrLeaseLost | ErrNoHandler | ErrContext | ErrBusiness string | ErrDB db_error

datatype status = StatusPending | StatusProcessing | StatusSucceeded | StatusFailed

definition shardCount :: nat where "shardCount = 64"

record message =
  ID :: int64
  Type :: string
  Payload :: string
  Attempts :: int

section \<open>Configuration\<close>

text \<open>A Go float is \<open>None\<close> for NaN; the infinities are values outside every range.\<close>

record pg_options =
  FillFactor :: int
  VacuumScaleFactor :: "rat option"
  VacuumThreshold :: int
  AnalyzeScaleFactor :: "rat option"
  AnalyzeThreshold :: int
  VacuumTruncate :: bool

definition DefaultPostgresOptions :: pg_options where
  "DefaultPostgresOptions = \<lparr>FillFactor = 90, VacuumScaleFactor = Some (1 / 100), VacuumThreshold = 1000,
     AnalyzeScaleFactor = Some (2 / 100), AnalyzeThreshold = 1000, VacuumTruncate = False\<rparr>"

record outbox_config =
  SchemaName :: string
  TableSuffix :: string
  DisableBackground :: bool
  WorkerCount :: int
  ScanInterval :: duration
  BatchSize :: int
  HandlerTimeout :: duration
  TaskLease :: duration
  HeartbeatInterval :: duration
  ShardLease :: duration
  MaxRetries :: "int option"
  RetryMin :: duration
  RetryMax :: duration
  Retention :: duration
  CleanupInterval :: duration
  CleanupBatchSize :: int
  OperationTimeout :: duration
  CloseTimeout :: duration
  Postgres :: "pg_options option"

definition suffixPattern :: "string \<Rightarrow> bool" where
  "suffixPattern s \<longleftrightarrow> s \<noteq> [] \<and> list_all ident_char s"

definition or_default :: "int \<Rightarrow> int \<Rightarrow> int" where
  "or_default d def = (if d = 0 then def else d)"

definition with_defaults :: "outbox_config \<Rightarrow> outbox_config" where
  "with_defaults c =
     c\<lparr>WorkerCount := or_default (WorkerCount c) 4, BatchSize := or_default (BatchSize c) 100,
       CleanupBatchSize := or_default (CleanupBatchSize c) 1000,
       ScanInterval := or_default (ScanInterval c) second, HandlerTimeout := or_default (HandlerTimeout c) (30 * second),
       TaskLease := or_default (TaskLease c) minute, HeartbeatInterval := or_default (HeartbeatInterval c) (5 * second),
       ShardLease := or_default (ShardLease c) (30 * second), RetryMin := or_default (RetryMin c) second,
       RetryMax := or_default (RetryMax c) (5 * minute), Retention := or_default (Retention c) (24 * hour),
       CleanupInterval := or_default (CleanupInterval c) minute, OperationTimeout := or_default (OperationTimeout c) (5 * second),
       CloseTimeout := or_default (CloseTimeout c) (35 * second)\<rparr>"

definition pg_ok :: "pg_options \<Rightarrow> bool" where
  "pg_ok p \<longleftrightarrow> \<not> (FillFactor p < 10 \<or> FillFactor p > 100 \<or> VacuumThreshold p < 0 \<or> AnalyzeThreshold p < 0
     \<or> (case VacuumScaleFactor p of None \<Rightarrow> True | Some f \<Rightarrow> f < 0 \<or> f > 100)
     \<or> (case AnalyzeScaleFactor p of None \<Rightarrow> True | Some f \<Rightarrow> f < 0 \<or> f > 100))"

text \<open>
  The pair is the resolved configuration and the number of retries; the resolved PostgreSQL options
  are only read by the DDL of \<open>schema.go\<close> and are not kept.
\<close>

definition resolveConfig :: "outbox_config \<Rightarrow> outbox_error + outbox_config \<times> int" where
  "resolveConfig c0 =
     (if (SchemaName c0 \<noteq> [] \<and> (length (SchemaName c0) > 63 \<or> \<not> identifierPattern (SchemaName c0)))
         \<or> (TableSuffix c0 \<noteq> [] \<and> (length (TableSuffix c0) > 49 \<or> \<not> suffixPattern (TableSuffix c0))) then Inl ErrInvalidConfig
      else if WorkerCount c0 < 0 \<or> BatchSize c0 < 0 \<or> CleanupBatchSize c0 < 0 then Inl ErrInvalidConfig
      else
        let c = with_defaults c0 in
        if \<exists>d \<in> {ScanInterval c, HandlerTimeout c, TaskLease c, HeartbeatInterval c, ShardLease c, RetryMin c, RetryMax c,
                 Retention c, CleanupInterval c, OperationTimeout c, CloseTimeout c}. d < millisecond then Inl ErrInvalidConfig
        else if TaskLease c \<le> HandlerTimeout c \<or> i64 (TaskLease c - HandlerTimeout c) < OperationTimeout c
             \<or> HeartbeatInterval c > go_div (ShardLease c) 3 \<or> RetryMax c < RetryMin c then Inl ErrInvalidConfig
        else
          let retries = (case MaxRetries c of None \<Rightarrow> 20 | Some n \<Rightarrow> n) in
          if retries < 0 \<or> retries \<ge> 2 ^ 31 - 1 then Inl ErrInvalidConfig
          else if \<not> pg_ok (case Postgres c of None \<Rightarrow> DefaultPostgresOptions | Some p \<Rightarrow> p) then Inl ErrInvalidConfig
          else Inr (c\<lparr>MaxRetries := None, Postgres := None\<rparr>, retries))"

definition validateType :: "string \<Rightarrow> outbox_error + unit" where
  "validateType v = (if \<not> valid_utf8 v \<or> blank v \<or> rune_count v > 128 then Inl ErrInvalidArgument else Inr ())"

text \<open>\<open>NewMessage\<close>: \<open>encoded\<close> is the result of the JSON encoder, \<open>None\<close> when it fails.\<close>

definition NewMessage :: "string \<Rightarrow> string option \<Rightarrow> outbox_error + message" where
  "NewMessage messageType encoded =
     (case validateType messageType of Inl e \<Rightarrow> Inl e | Inr _ \<Rightarrow>
      case encoded of None \<Rightarrow> Inl ErrInvalidArgument
      | Some p \<Rightarrow> Inr \<lparr>ID = 0, Type = messageType, Payload = p, Attempts = 0\<rparr>)"

definition errorText :: "string option \<Rightarrow> string" where
  "errorText err = errorText_to 4096 err"

section \<open>The tables\<close>

record msg_row = message +
  ShardID :: nat
  Status :: status
  NextAttemptAt :: int64
  LeaseToken :: string
  LeaseUntil :: int64
  LastError :: string
  CreatedAt :: int64
  UpdatedAt :: int64
  CompletedAt :: int64

record shard_row =
  sh_id :: nat
  sh_owner :: string
  sh_token :: string
  sh_until :: int64

record node_row =
  n_id :: string
  n_until :: int64

record outbox_db =
  messages :: "msg_row list"
  nodes :: "node_row list"
  shards :: "shard_row list"

definition newSQLStorage :: "string option \<Rightarrow> outbox_error + driver" where
  "newSQLStorage db =
     (case db of None \<Rightarrow> Inl ErrInvalidConfig
      | Some name \<Rightarrow> (case parse_driver name of None \<Rightarrow> Inl ErrInvalidConfig | Some d \<Rightarrow> Inr d))"

text \<open>
  The end of \<open>createAndValidate\<close> (\<open>schema.go\<close>): a row for every shard is inserted unless it is
  there, then the table must have exactly 64 rows. \<open>flt\<close> is the error of the first statement that fails,
  as a number of inserts done before it; \<open>commit\<close> is whether the inserts so far survive the error
  (MySQL commits each of them, PostgreSQL rolls back).
\<close>

definition free_shard :: "nat \<Rightarrow> shard_row" where
  "free_shard i = \<lparr>sh_id = i, sh_owner = [], sh_token = [], sh_until = 0\<rparr>"

definition seed_shard :: "nat \<Rightarrow> shard_row list \<Rightarrow> shard_row list" where
  "seed_shard i t = (if i \<in> sh_id ` set t then t else t @ [free_shard i])"

definition seed_shards :: "(nat \<times> db_error) option \<Rightarrow> bool \<Rightarrow> shard_row list \<Rightarrow> outbox_error option \<times> shard_row list" where
  "seed_shards flt commit t =
     (case flt of
        Some (n, e) \<Rightarrow> (Some (ErrDB e), if commit then fold seed_shard [0..<min n shardCount] t else t)
      | None \<Rightarrow>
          (let t' = fold seed_shard [0..<shardCount] t in
           if length t' \<noteq> shardCount then (Some ErrInvalidConfig, if commit then t' else t) else (None, t')))"

text \<open>\<open>i\<close> is the identifier the table generates, \<open>shard\<close> the shard drawn at random.\<close>

definition new_row :: "int64 \<Rightarrow> nat \<Rightarrow> int64 \<Rightarrow> message \<Rightarrow> msg_row" where
  "new_row i shard now m = \<lparr>ID = i, Type = Type m, Payload = Payload m, Attempts = 0, ShardID = shard, Status = StatusPending,
     NextAttemptAt = now, LeaseToken = [], LeaseUntil = 0, LastError = [], CreatedAt = now, UpdatedAt = now, CompletedAt = 0\<rparr>"

definition insert_msg :: "db_error option \<Rightarrow> int64 \<Rightarrow> nat \<Rightarrow> int64 \<Rightarrow> message \<Rightarrow> msg_row list \<Rightarrow> (outbox_error + int64) \<times> msg_row list" where
  "insert_msg flt i shard now m t =
     (case (if i \<in> ID ` set t then Some (PgError ''23505'') else flt) of
        Some e \<Rightarrow> (Inl (ErrDB e), t)
      | None \<Rightarrow> (Inr i, t @ [new_row i shard now m]))"

definition get :: "db_error option \<Rightarrow> int64 \<Rightarrow> msg_row list \<Rightarrow> outbox_error + msg_row" where
  "get flt i t =
     (case flt of Some e \<Rightarrow> Inl (ErrDB e) | None \<Rightarrow>
      case sql_row (\<lambda>r. ID r = i) t of None \<Rightarrow> Inl ErrNotFound | Some r \<Rightarrow> Inr r)"

text \<open>\<open>lockShard\<close> checks the lease after it holds the row lock, against the time read then.\<close>

definition lockShard :: "db_error option \<Rightarrow> int64 \<Rightarrow> shard_row \<Rightarrow> shard_row list \<Rightarrow> outbox_error option" where
  "lockShard flt now lease t =
     (case flt of Some e \<Rightarrow> Some (ErrDB e) | None \<Rightarrow>
      case sql_row (\<lambda>r. sh_id r = sh_id lease) t of
        None \<Rightarrow> Some ErrLeaseLost
      | Some cur \<Rightarrow>
          if sh_owner cur \<noteq> sh_owner lease \<or> sh_token cur \<noteq> sh_token lease \<or> sh_until cur \<le> now then Some ErrLeaseLost else None)"

definition exhausted_set :: "int64 \<Rightarrow> msg_row \<Rightarrow> msg_row" where
  "exhausted_set now r =
     r\<lparr>Status := StatusFailed, LeaseToken := [], LeaseUntil := 0, UpdatedAt := now, LastError := ''delivery budget exhausted after lease expiration''\<rparr>"

definition claim_set :: "int64 \<Rightarrow> string \<Rightarrow> int64 \<Rightarrow> msg_row \<Rightarrow> msg_row" where
  "claim_set now tok lease r =
     r\<lparr>Status := StatusProcessing, Attempts := Attempts r + 1, LeaseToken := tok, LeaseUntil := now + lease, UpdatedAt := now\<rparr>"

text \<open>
  \<open>markClaimed\<close>: the rows are locked, so the copies it changes in memory equal what the UPDATE
  statements write. \<open>flt1\<close> and \<open>flt2\<close> are the errors of the two statements.
\<close>

definition markClaimed ::
  "db_error option \<Rightarrow> db_error option \<Rightarrow> string \<Rightarrow> outbox_config \<times> int \<Rightarrow> msg_row list \<Rightarrow> int64 \<Rightarrow> msg_row list
    \<Rightarrow> (outbox_error + msg_row list) \<times> msg_row list" where
  "markClaimed flt1 flt2 tok conf rows now t =
     (let lease = Milliseconds (TaskLease (fst conf));
          exh = map ID (filter (\<lambda>r. Attempts r \<ge> snd conf + 1) rows);
          ok = filter (\<lambda>r. \<not> Attempts r \<ge> snd conf + 1) rows;
          ids = map ID ok;
          t1 = (if exh = [] then t else sql_update (\<lambda>r. ID r \<in> set exh) (exhausted_set now) t);
          t2 = (if ids = [] then t1 else sql_update (\<lambda>r. ID r \<in> set ids) (claim_set now tok lease) t1)
      in case (if exh = [] then None else flt1) of Some e \<Rightarrow> (Inl (ErrDB e), t) | None \<Rightarrow>
         case (if ids = [] then None else flt2) of Some e \<Rightarrow> (Inl (ErrDB e), t1) | None \<Rightarrow>
         (Inr (map (claim_set now tok lease) ok), t2))"

text \<open>What the statements of a claiming transaction meet.\<close>

datatype claim_stmt = BeginTx | ReadNow | SelectProcessing | SelectPending | UpdateExhausted | UpdateClaimed

record claim_env =
  ce_flt :: "claim_stmt \<Rightarrow> db_error option"
  ce_now :: int64
  ce_locked :: "int64 \<Rightarrow> bool"
  ce_token :: string
  ce_commit :: commit_outcome

text \<open>A transaction's end: an error rolls back, a COMMIT may be applied without an answer.\<close>

definition end_tx :: "commit_outcome \<Rightarrow> 't \<Rightarrow> (outbox_error + 'a) \<times> 't \<Rightarrow> (outbox_error + 'a) \<times> 't" where
  "end_tx c t r =
     (case r of
        (Inl e, _) \<Rightarrow> (Inl e, t)
      | (Inr x, t') \<Rightarrow> (case c of CommitOk \<Rightarrow> (Inr x, t') | CommitErr e applied \<Rightarrow> (Inl (ErrDB e), if applied then t' else t)))"

definition claimable :: "int64 \<Rightarrow> msg_row \<Rightarrow> bool" where
  "claimable now r \<longleftrightarrow> (Status r = StatusPending \<and> NextAttemptAt r \<le> now) \<or> (Status r = StatusProcessing \<and> LeaseUntil r \<le> now)"

definition claimIDs ::
  "claim_env \<Rightarrow> outbox_config \<times> int \<Rightarrow> int64 list \<Rightarrow> int \<Rightarrow> msg_row list \<Rightarrow> (outbox_error + msg_row list) \<times> msg_row list" where
  "claimIDs ev conf ids limit t =
     (if ids = [] \<or> limit \<le> 0 then (Inr [], t)
      else case ce_flt ev BeginTx of Some e \<Rightarrow> (Inl (ErrDB e), t) | None \<Rightarrow>
      case ce_flt ev ReadNow of Some e \<Rightarrow> (Inl (ErrDB e), t) | None \<Rightarrow>
      case ce_flt ev SelectPending of Some e \<Rightarrow> (Inl (ErrDB e), t) | None \<Rightarrow>
      let rows = sql_limit limit (sql_select (\<lambda>r. ID r \<in> set ids \<and> claimable (ce_now ev) r \<and> \<not> ce_locked ev (ID r)) ID t) in
      end_tx (ce_commit ev) t
        (markClaimed (ce_flt ev UpdateExhausted) (ce_flt ev UpdateClaimed) (ce_token ev) conf rows (ce_now ev) t))"

text \<open>ORDER BY lease_until, id, and ORDER BY next_attempt_at, id.\<close>

definition claim_rows :: "int64 \<Rightarrow> (int64 \<Rightarrow> bool) \<Rightarrow> nat \<Rightarrow> int \<Rightarrow> msg_row list \<Rightarrow> msg_row list" where
  "claim_rows now locked shard limit t =
     (let stale = sql_limit limit (sort_key LeaseUntil (sql_select (\<lambda>r. ShardID r = shard \<and> Status r = StatusProcessing
                    \<and> LeaseUntil r \<le> now \<and> \<not> locked (ID r)) ID t));
          pend = sql_limit (limit - int (length stale)) (sort_key NextAttemptAt (sql_select (\<lambda>r. ShardID r = shard
                    \<and> Status r = StatusPending \<and> NextAttemptAt r \<le> now \<and> \<not> locked (ID r)) ID t))
      in if int (length stale) < limit then stale @ pend else stale)"

definition claimShard ::
  "claim_env \<Rightarrow> outbox_config \<times> int \<Rightarrow> shard_row \<Rightarrow> int \<Rightarrow> outbox_db \<Rightarrow> (outbox_error + msg_row list) \<times> outbox_db" where
  "claimShard ev conf lease limit db =
     (if limit \<le> 0 then (Inr [], db)
      else case ce_flt ev BeginTx of Some e \<Rightarrow> (Inl (ErrDB e), db) | None \<Rightarrow>
      case lockShard (ce_flt ev ReadNow) (ce_now ev) lease (shards db) of Some e \<Rightarrow> (Inl e, db) | None \<Rightarrow>
      case ce_flt ev SelectProcessing of Some e \<Rightarrow> (Inl (ErrDB e), db) | None \<Rightarrow>
      case ce_flt ev SelectPending of Some e \<Rightarrow> (Inl (ErrDB e), db) | None \<Rightarrow>
      case end_tx (ce_commit ev) (messages db)
        (markClaimed (ce_flt ev UpdateExhausted) (ce_flt ev UpdateClaimed) (ce_token ev) conf
           (claim_rows (ce_now ev) (ce_locked ev) (sh_id lease) limit (messages db)) (ce_now ev) (messages db)) of
        (r, t') \<Rightarrow> (r, db\<lparr>messages := t'\<rparr>))"

definition readyShards :: "db_error option \<Rightarrow> int64 \<Rightarrow> shard_row list \<Rightarrow> outbox_db \<Rightarrow> outbox_error + shard_row list" where
  "readyShards flt now leases db =
     (if leases = [] then Inr []
      else case flt of Some e \<Rightarrow> Inl (ErrDB e) | None \<Rightarrow>
        Inr (filter (\<lambda>l. \<exists>s \<in> set (shards db). sh_id s = sh_id l
               \<and> (\<exists>r \<in> set (messages db). ShardID r = sh_id s \<and> claimable now r)) leases))"

text \<open>
  \<open>finish\<close>: \<open>now\<close> is the clock reading of the WHERE clause, \<open>now2\<close> that of the SET clause;
  \<open>err\<close> the text of the handler's error.
\<close>

definition finish_status :: "outbox_config \<times> int \<Rightarrow> int \<Rightarrow> string option \<Rightarrow> status" where
  "finish_status conf attempts err =
     (case err of None \<Rightarrow> StatusSucceeded | Some _ \<Rightarrow> if attempts \<ge> snd conf + 1 then StatusFailed else StatusPending)"

definition finish_set :: "int64 \<Rightarrow> status \<Rightarrow> string option \<Rightarrow> duration \<Rightarrow> msg_row \<Rightarrow> msg_row" where
  "finish_set now2 st err delay r =
     r\<lparr>Status := st, LastError := errorText err, LeaseToken := [], LeaseUntil := 0, UpdatedAt := now2,
       CompletedAt := (if err = None then now2 else 0), NextAttemptAt := (if st = StatusPending then now2 + Milliseconds delay else 0)\<rparr>"

definition leased :: "int64 \<Rightarrow> int64 \<Rightarrow> string \<Rightarrow> msg_row \<Rightarrow> bool" where
  "leased now i tok r \<longleftrightarrow> ID r = i \<and> Status r = StatusProcessing \<and> LeaseToken r = tok \<and> LeaseUntil r > now"

definition finish ::
  "bool \<Rightarrow> exec_outcome \<Rightarrow> db_error option \<Rightarrow> int64 \<Rightarrow> int64 \<Rightarrow> outbox_config \<times> int \<Rightarrow> msg_row \<Rightarrow> string option \<Rightarrow> duration \<Rightarrow> msg_row list
    \<Rightarrow> (status \<times> outbox_error option) \<times> msg_row list" where
  "finish found c rows now now2 conf task err delay t =
     (let st = finish_status conf (Attempts task) err; p = leased now (ID task) (LeaseToken task); f = finish_set now2 st err delay;
          t' = committed c t (sql_update p f t) in
      case c of
        CommitErr e _ \<Rightarrow> ((StatusProcessing, Some (ErrDB e)), t')
      | CommitOk \<Rightarrow>
          (case rows of
             Some e \<Rightarrow> ((StatusProcessing, Some (ErrDB e)), t')
           | None \<Rightarrow> if sql_affected found p f t \<noteq> 1 then ((StatusProcessing, Some ErrLeaseLost), t') else ((st, None), t')))"

definition retry_set :: "int64 \<Rightarrow> msg_row \<Rightarrow> msg_row" where
  "retry_set now r =
     r\<lparr>Status := StatusPending, Attempts := 0, NextAttemptAt := now, LeaseToken := [], LeaseUntil := 0, LastError := [],
       UpdatedAt := now, CompletedAt := 0\<rparr>"

definition retry :: "bool \<Rightarrow> exec_outcome \<Rightarrow> db_error option \<Rightarrow> db_error option \<Rightarrow> int64 \<Rightarrow> int64 \<Rightarrow> msg_row list \<Rightarrow> outbox_error option \<times> msg_row list" where
  "retry found c rows flt now i t =
     (let p = (\<lambda>r. ID r = i \<and> Status r = StatusFailed); f = retry_set now; t' = committed c t (sql_update p f t) in
      case c of
        CommitErr e _ \<Rightarrow> (Some (ErrDB e), t')
      | CommitOk \<Rightarrow>
          (case rows of Some e \<Rightarrow> (Some (ErrDB e), t') | None \<Rightarrow>
           if sql_affected found p f t = 1 then (None, t')
           else (case get flt i t' of Inl e \<Rightarrow> (Some e, t') | Inr _ \<Rightarrow> (Some ErrNotFailed, t'))))"

section \<open>Shard coordination\<close>

text \<open>\<open>for shard := index; shard < shardCount; shard += len(nodes)\<close>.\<close>

function stride :: "nat \<Rightarrow> nat \<Rightarrow> nat list" where
  "stride shard n = (if n = 0 \<or> shardCount \<le> shard then [] else shard # stride (shard + n) n)"
  by pat_completeness auto
termination
  by (relation "measure (\<lambda>(shard, n). shardCount - shard)") auto

declare stride.simps [simp del]

text \<open>\<open>sort.SearchStrings\<close>: the first index whose string is not below the one sought.\<close>

definition search_strings :: "string list \<Rightarrow> string \<Rightarrow> nat" where
  "search_strings ns x = length (takeWhile (\<lambda>y. y < x) ns)"

definition assignment :: "string list \<Rightarrow> string \<Rightarrow> nat list" where
  "assignment nodes0 node =
     (let ns = sort nodes0; index = search_strings ns node in
      if index = length ns \<or> ns ! index \<noteq> node then [] else stride index (length ns))"

definition upsert_node :: "string \<Rightarrow> int64 \<Rightarrow> node_row list \<Rightarrow> node_row list" where
  "upsert_node node until ns =
     (if node \<in> n_id ` set ns then sql_update (\<lambda>r. n_id r = node) (\<lambda>r. r\<lparr>n_until := until\<rparr>) ns
      else ns @ [\<lparr>n_id = node, n_until = until\<rparr>])"

definition clear_shard :: "shard_row \<Rightarrow> shard_row" where
  "clear_shard r = r\<lparr>sh_owner := [], sh_token := [], sh_until := 0\<rparr>"

text \<open>
  \<open>coordinate\<close>: two transactions; \<open>co_between\<close> is what other sessions do between them. A
  fault of any statement rolls its transaction back.
\<close>

record coord_env =
  co_flt1 :: "db_error option"
  co_now1 :: int64
  co_commit1 :: commit_outcome
  co_between :: "outbox_db \<Rightarrow> outbox_db"
  co_flt2 :: "db_error option"
  co_now2 :: int64
  co_token :: string
  co_commit2 :: commit_outcome

definition coordinate_release :: "int64 \<Rightarrow> outbox_config \<Rightarrow> string \<Rightarrow> outbox_db \<Rightarrow> nat list \<times> outbox_db" where
  "coordinate_release now conf node db =
     (let ns = upsert_node node (now + Milliseconds (ShardLease conf)) (nodes db);
          desired = assignment (map n_id (filter (\<lambda>r. n_until r > now) ns)) node
      in (desired, db\<lparr>nodes := ns,
            shards := sql_update (\<lambda>r. sh_owner r = node \<and> (desired = [] \<or> sh_id r \<notin> set desired)) clear_shard (shards db)\<rparr>))"

definition coordinate_take :: "int64 \<Rightarrow> string \<Rightarrow> outbox_config \<Rightarrow> string \<Rightarrow> nat list \<Rightarrow> outbox_db \<Rightarrow> shard_row list \<times> outbox_db" where
  "coordinate_take now tok conf node desired db =
     (let until = now + Milliseconds (ShardLease conf);
          s1 = sql_update (\<lambda>r. sh_owner r = node \<and> sh_until r > now \<and> sh_id r \<in> set desired) (\<lambda>r. r\<lparr>sh_until := until\<rparr>) (shards db);
          s2 = sql_update (\<lambda>r. sh_until r \<le> now \<and> sh_id r \<in> set desired)
                 (\<lambda>r. r\<lparr>sh_owner := node, sh_token := tok, sh_until := until\<rparr>) s1;
          s3 = (if desired = [] then shards db else s2)
      in (sql_select (\<lambda>r. sh_owner r = node \<and> sh_until r > now) sh_id s3,
          db\<lparr>shards := s3, nodes := sql_delete (\<lambda>r. n_until r \<le> now) (nodes db)\<rparr>))"

definition coordinate ::
  "coord_env \<Rightarrow> outbox_config \<Rightarrow> string \<Rightarrow> outbox_db \<Rightarrow> (outbox_error + shard_row list) \<times> outbox_db" where
  "coordinate ev conf node db =
     (case co_flt1 ev of Some e \<Rightarrow> (Inl (ErrDB e), db) | None \<Rightarrow>
      case coordinate_release (co_now1 ev) conf node db of (desired, db1) \<Rightarrow>
      case co_commit1 ev of CommitErr e applied \<Rightarrow> (Inl (ErrDB e), if applied then db1 else db) | CommitOk \<Rightarrow>
      let db2 = co_between ev db1 in
      case co_flt2 ev of Some e \<Rightarrow> (Inl (ErrDB e), db2) | None \<Rightarrow>
      case coordinate_take (co_now2 ev) (co_token ev) conf node desired db2 of (leases, db3) \<Rightarrow>
      case co_commit2 ev of CommitErr e applied \<Rightarrow> (Inl (ErrDB e), if applied then db3 else db2) | CommitOk \<Rightarrow> (Inr leases, db3))"

definition cleanup_ids :: "int64 \<Rightarrow> (int64 \<Rightarrow> bool) \<Rightarrow> outbox_config \<Rightarrow> nat \<Rightarrow> msg_row list \<Rightarrow> int64 list" where
  "cleanup_ids now locked conf shard t =
     map ID (sql_limit (CleanupBatchSize conf) (sort_key CompletedAt (sql_select (\<lambda>r. ShardID r = shard \<and> Status r = StatusSucceeded
        \<and> CompletedAt r < now - Milliseconds (Retention conf) \<and> \<not> locked (ID r)) ID t)))"

definition cleanup :: "claim_env \<Rightarrow> outbox_config \<Rightarrow> shard_row \<Rightarrow> outbox_db \<Rightarrow> (outbox_error + int) \<times> outbox_db" where
  "cleanup ev conf lease db =
     (case ce_flt ev BeginTx of Some e \<Rightarrow> (Inl (ErrDB e), db) | None \<Rightarrow>
      case lockShard (ce_flt ev ReadNow) (ce_now ev) lease (shards db) of Some e \<Rightarrow> (Inl e, db) | None \<Rightarrow>
      case ce_flt ev SelectPending of Some e \<Rightarrow> (Inl (ErrDB e), db) | None \<Rightarrow>
      let ids = cleanup_ids (ce_now ev) (ce_locked ev) conf (sh_id lease) (messages db) in
      case (if ids = [] then None else ce_flt ev UpdateClaimed) of Some e \<Rightarrow> (Inl (ErrDB e), db) | None \<Rightarrow>
      case end_tx (ce_commit ev) (messages db)
        (Inr (int (length ids)), if ids = [] then messages db else sql_delete (\<lambda>r. ID r \<in> set ids) (messages db)) of
        (r, t') \<Rightarrow> (r, db\<lparr>messages := t'\<rparr>))"

definition release :: "db_error option \<Rightarrow> commit_outcome \<Rightarrow> string \<Rightarrow> outbox_db \<Rightarrow> outbox_error option \<times> outbox_db" where
  "release flt c node db =
     (case flt of Some e \<Rightarrow> (Some (ErrDB e), db) | None \<Rightarrow>
      let db' = db\<lparr>shards := sql_update (\<lambda>r. sh_owner r = node) clear_shard (shards db),
                    nodes := sql_delete (\<lambda>r. n_id r = node) (nodes db)\<rparr> in
      (case c of CommitErr e _ \<Rightarrow> Some (ErrDB e) | CommitOk \<Rightarrow> None, committed c db db'))"

section \<open>The component\<close>

record 'h outbox =
  o_config :: "outbox_config \<times> int"
  o_handlers :: "string \<rightharpoonup> 'h"
  o_driver :: driver
  o_node :: string
  o_ctx_done :: bool
  o_closed :: bool
  o_slots :: nat
  o_jobs :: "msg_row list"
  o_wake :: bool
  o_leases :: "shard_row list"
  o_cursor :: nat
  o_lastCleanup :: int64

definition notify :: "'h outbox \<Rightarrow> 'h outbox" where
  "notify ox = ox\<lparr>o_wake := True\<rparr>"

fun build_registry :: "(string \<rightharpoonup> 'h) \<Rightarrow> (string \<times> 'h option) list \<Rightarrow> outbox_error + (string \<rightharpoonup> 'h)" where
  "build_registry g [] = Inr g"
| "build_registry g ((name, h) # rest) =
     (case validateType name of Inl _ \<Rightarrow> Inl ErrInvalidConfig | Inr _ \<Rightarrow>
      case h of None \<Rightarrow> Inl ErrInvalidConfig | Some f \<Rightarrow> build_registry (g(name \<mapsto> f)) rest)"

definition refresh :: "coord_env \<Rightarrow> 'h outbox \<Rightarrow> outbox_db \<Rightarrow> outbox_error option \<times> 'h outbox \<times> outbox_db" where
  "refresh ev ox db =
     (case coordinate ev (fst (o_config ox)) (o_node ox) db of
        (Inl e, db') \<Rightarrow> (Some e, ox, db')
      | (Inr leases, db') \<Rightarrow> (None, ox\<lparr>o_leases := leases\<rparr>, db'))"

text \<open>
  \<open>New\<close>: the handler map as the list of its entries in iteration order; \<open>node\<close> the random
  node ID; \<open>ensure\<close> the error of \<open>ensureSchema\<close> (\<open>schema.go\<close>).
\<close>

definition New ::
  "bool option \<Rightarrow> string option \<Rightarrow> outbox_config \<Rightarrow> (string \<times> 'h option) list \<Rightarrow> outbox_error option \<Rightarrow> string \<Rightarrow> coord_env
    \<Rightarrow> db_error option \<Rightarrow> commit_outcome \<Rightarrow> outbox_db \<Rightarrow> (outbox_error + 'h outbox) \<times> outbox_db" where
  "New ctx db0 config hs ensure node ev rel_flt rel_commit db =
     (case ctx of None \<Rightarrow> (Inl ErrInvalidConfig, db) | Some ended \<Rightarrow>
      if ended then (Inl ErrContext, db)
      else case resolveConfig config of Inl e \<Rightarrow> (Inl e, db) | Inr c \<Rightarrow>
      if hs = [] then (Inl ErrInvalidConfig, db)
      else case build_registry Map.empty hs of Inl e \<Rightarrow> (Inl e, db) | Inr reg \<Rightarrow>
      case newSQLStorage db0 of Inl e \<Rightarrow> (Inl e, db) | Inr d \<Rightarrow>
      case ensure of Some e \<Rightarrow> (Inl e, db) | None \<Rightarrow>
      let ox = \<lparr>o_config = c, o_handlers = reg, o_driver = d, o_node = node, o_ctx_done = False, o_closed = False, o_slots = 0,
               o_jobs = [], o_wake = False, o_leases = [], o_cursor = 0, o_lastCleanup = 0\<rparr> in
      if DisableBackground (fst c) then (Inr ox, db)
      else case refresh ev ox db of
        (Some e, _, db1) \<Rightarrow> (Inl e, snd (release rel_flt rel_commit node db1))
      | (None, o1, db1) \<Rightarrow> (Inr o1, db1))"

definition begin_call :: "bool option \<Rightarrow> 'h outbox option \<Rightarrow> outbox_error option" where
  "begin_call ctx ob =
     (case ctx of None \<Rightarrow> Some ErrInvalidArgument | Some ended \<Rightarrow>
      if ended then Some ErrContext
      else case ob of None \<Rightarrow> Some ErrClosed | Some ox \<Rightarrow> if o_closed ox \<or> o_ctx_done ox then Some ErrClosed else None)"

definition validateMessage :: "'h outbox \<Rightarrow> message \<Rightarrow> outbox_error + unit" where
  "validateMessage ox m =
     (case validateType (Type m) of Inl e \<Rightarrow> Inl e | Inr _ \<Rightarrow>
      if ID m \<noteq> 0 \<or> Attempts m \<noteq> 0 then Inl ErrInvalidArgument
      else if blank (Payload m) then Inl ErrInvalidArgument
      else if o_handlers ox (Type m) = None then Inl ErrNoHandler
      else Inr ())"

text \<open>What an insert meets: the generated identifier, the random shard, the clock, a fault.\<close>

record ins_env =
  in_id :: int64
  in_shard :: nat
  in_now :: int64
  in_flt :: "db_error option"

text \<open>\<open>EnqueueTx\<close>: \<open>txd\<close> is the driver of the caller's transaction, \<open>None\<close> a nil one.\<close>

definition EnqueueTx ::
  "bool option \<Rightarrow> ins_env \<Rightarrow> driver option \<Rightarrow> message \<Rightarrow> 'h outbox option \<Rightarrow> msg_row list \<Rightarrow> (outbox_error + int64) \<times> msg_row list" where
  "EnqueueTx ctx ev txd m ob t =
     (case begin_call ctx ob of Some e \<Rightarrow> (Inl e, t) | None \<Rightarrow>
      case ob of None \<Rightarrow> (Inl ErrClosed, t) | Some ox \<Rightarrow>
      if txd \<noteq> Some (o_driver ox) then (Inl ErrInvalidArgument, t)
      else case validateMessage ox m of Inl e \<Rightarrow> (Inl e, t) | Inr _ \<Rightarrow>
      insert_msg (in_flt ev) (in_id ev) (in_shard ev) (in_now ev) m t)"

record tx =
  tx_table :: "msg_row list"
  tx_ids :: "int64 list"
  tx_err :: "outbox_error option"
  tx_closed :: bool

definition Enqueue :: "'h outbox \<Rightarrow> bool option \<Rightarrow> ins_env \<Rightarrow> message \<Rightarrow> tx option \<Rightarrow> (outbox_error + int64) \<times> tx option" where
  "Enqueue ox ctx ev m txo =
     (case txo of None \<Rightarrow> (Inl ErrInvalidArgument, None) | Some x \<Rightarrow>
      if tx_closed x then (Inl ErrInvalidArgument, txo)
      else case tx_err x of Some e \<Rightarrow> (Inl e, txo) | None \<Rightarrow>
      case EnqueueTx ctx ev (Some (o_driver ox)) m (Some ox) (tx_table x) of
        (Inl e, t') \<Rightarrow> (Inl e, Some (x\<lparr>tx_table := t', tx_err := Some e\<rparr>))
      | (Inr i, t') \<Rightarrow> (Inr i, Some (x\<lparr>tx_table := t', tx_ids := tx_ids x @ [i]\<rparr>)))"

section \<open>Executing and dispatching\<close>

datatype handler_result = HandlerReturns "string option" | HandlerPanics string

text \<open>\<open>ctx_err\<close>: the context has ended before the handler runs; the text of each error.\<close>

definition invoke :: "string option \<Rightarrow> ('h \<Rightarrow> message \<Rightarrow> handler_result) \<Rightarrow> 'h option \<Rightarrow> message \<Rightarrow> string option" where
  "invoke ctx_err run h m =
     (case ctx_err of Some e \<Rightarrow> Some e | None \<Rightarrow>
      case h of None \<Rightarrow> Some ''outbox: handler not registered'' | Some f \<Rightarrow>
      case run f m of HandlerPanics v \<Rightarrow> Some (''outbox: handler panic: '' @ v) | HandlerReturns r \<Rightarrow> r)"

record exec_env =
  ex_before :: "string option"
  ex_after :: "string option"
  ex_found :: bool
  ex_exec :: exec_outcome
  ex_rows :: "db_error option"
  ex_now :: int64
  ex_now2 :: int64
  ex_rnd :: duration

record result =
  r_id :: int64
  r_status :: status
  r_attempt_error :: bool

definition execute ::
  "exec_env \<Rightarrow> ('h \<Rightarrow> message \<Rightarrow> handler_result) \<Rightarrow> 'h outbox \<Rightarrow> msg_row \<Rightarrow> msg_row list \<Rightarrow> result \<times> msg_row list" where
  "execute ev run ox task t =
     (let err0 = invoke (ex_before ev) run (o_handlers ox (Type task)) (message.truncate task);
          err = (case err0 of None \<Rightarrow> ex_after ev | Some e \<Rightarrow> Some e);
          delay = backoff (RetryMin (fst (o_config ox))) (RetryMax (fst (o_config ox))) (Attempts task) (ex_rnd ev) in
      case finish (ex_found ev) (ex_exec ev) (ex_rows ev) (ex_now ev) (ex_now2 ev) (o_config ox) task err delay t of
        ((st, finishErr), t') \<Rightarrow> (\<lparr>r_id = ID task, r_status = st, r_attempt_error = (err \<noteq> None \<or> finishErr \<noteq> None)\<rparr>, t'))"

fun reserve_more :: "nat \<Rightarrow> nat \<Rightarrow> nat \<Rightarrow> nat" where
  "reserve_more 0 cap used = 0"
| "reserve_more (Suc n) cap used = (if used < cap then Suc (reserve_more n cap (Suc used)) else 0)"

text \<open>
  \<open>reserve\<close>: with \<open>wait\<close> it blocks for the first slot, \<open>ctx_ended\<close> is that its context branch was
  taken, \<open>None\<close> that it is still blocked.
\<close>

definition reserve :: "bool \<Rightarrow> int \<Rightarrow> bool \<Rightarrow> 'h outbox \<Rightarrow> ((outbox_error + nat) \<times> 'h outbox) option" where
  "reserve ctx_ended limit wait ox =
     (let cap = nat (WorkerCount (fst (o_config ox))) in
      if limit \<le> 0 then Some (Inr 0, ox)
      else if wait \<and> ctx_ended then Some (Inl ErrContext, ox)
      else if o_slots ox < cap then
        (let n = Suc (reserve_more (nat limit - 1) cap (Suc (o_slots ox))) in Some (Inr n, ox\<lparr>o_slots := o_slots ox + n\<rparr>))
      else if wait then None else Some (Inr 0, ox))"

definition unreserve :: "nat \<Rightarrow> 'h outbox \<Rightarrow> 'h outbox" where
  "unreserve count ox = ox\<lparr>o_slots := o_slots ox - count\<rparr>"

text \<open>
  \<open>runTasks\<close>: the goroutines work on different rows; they are run one after another, with an
  environment each.
\<close>

fun runTasks ::
  "(int64 \<Rightarrow> exec_env) \<Rightarrow> ('h \<Rightarrow> message \<Rightarrow> handler_result) \<Rightarrow> msg_row list \<Rightarrow> 'h outbox \<Rightarrow> msg_row list
    \<Rightarrow> result list \<times> 'h outbox \<times> msg_row list" where
  "runTasks ev run [] ox t = ([], ox, t)"
| "runTasks ev run (task # ts) ox t =
     (case execute (ev (ID task)) run ox task t of (r, t1) \<Rightarrow>
      case runTasks ev run ts (unreserve 1 ox) t1 of (rs, o2, t2) \<Rightarrow> (r # rs, o2, t2))"

record disp_env =
  de_others :: "nat"
  de_ctx_ended :: bool
  de_claim :: claim_env
  de_exec :: "int64 \<Rightarrow> exec_env"
  de_get :: "int64 \<Rightarrow> db_error option"

definition lookup_result :: "result list \<Rightarrow> int64 \<Rightarrow> result option" where
  "lookup_result rs i = find (\<lambda>r. r_id r = i) rs"

definition batch_results :: "(int64 \<Rightarrow> db_error option) \<Rightarrow> result list \<Rightarrow> msg_row list \<Rightarrow> int64 list \<Rightarrow> result list" where
  "batch_results flt processed t batch =
     map (\<lambda>i. case lookup_result processed i of Some r \<Rightarrow> r | None \<Rightarrow>
            (case get (flt i) i t of
               Inl _ \<Rightarrow> \<lparr>r_id = i, r_status = StatusPending, r_attempt_error = True\<rparr>
             | Inr row \<Rightarrow> \<lparr>r_id = i, r_status = Status row, r_attempt_error = False\<rparr>)) batch"

text \<open>
  The body of the loop of \<open>dispatch\<close>, once \<open>count\<close> slots are reserved for the batch: claim by ID, return
  the unused slots, run, and look up the messages that were not claimed.
\<close>

definition dispatch_batch ::
  "disp_env \<Rightarrow> ('h \<Rightarrow> message \<Rightarrow> handler_result) \<Rightarrow> nat \<Rightarrow> int64 list \<Rightarrow> 'h outbox \<Rightarrow> msg_row list \<Rightarrow> result list \<times> 'h outbox \<times> msg_row list" where
  "dispatch_batch e run count batch ox t =
     (case claimIDs (de_claim e) (o_config ox) batch (int count) t of
        (Inl er, t1) \<Rightarrow> (map (\<lambda>i. \<lparr>r_id = i, r_status = StatusPending, r_attempt_error = True\<rparr>) batch, unreserve count ox, t1)
      | (Inr tasks, t1) \<Rightarrow>
          (case runTasks (de_exec e) run tasks (unreserve (count - length tasks) ox) t1 of
             (processed, o2, t2) \<Rightarrow> (batch_results (de_get e) processed t2 batch, o2, t2)))"

text \<open>
  The loop of \<open>dispatch\<close>; the first argument bounds the rounds, the second gives the environment
  of each round; \<open>de_others\<close> is the number of slots other goroutines occupy when the wait for
  the first slot ends. \<open>None\<close>: it is still waiting for a slot, or out of rounds.
\<close>

primrec dispatch_from ::
  "nat \<Rightarrow> (nat \<Rightarrow> disp_env) \<Rightarrow> ('h \<Rightarrow> message \<Rightarrow> handler_result) \<Rightarrow> int64 list \<Rightarrow> 'h outbox \<Rightarrow> msg_row list
    \<Rightarrow> (result list \<times> 'h outbox \<times> msg_row list) option" where
  "dispatch_from 0 ev run ids ox t = (if ids = [] then Some ([], ox, t) else None)"
| "dispatch_from (Suc n) ev run ids ox t =
     (if ids = [] then Some ([], ox, t)
      else case reserve (de_ctx_ended (ev n)) (min (int (length ids)) (BatchSize (fst (o_config ox)))) True (ox\<lparr>o_slots := de_others (ev n)\<rparr>) of
          None \<Rightarrow> None
        | Some (Inl er, o1) \<Rightarrow> Some (map (\<lambda>i. \<lparr>r_id = i, r_status = StatusPending, r_attempt_error = True\<rparr>) ids, o1, t)
        | Some (Inr count, o1) \<Rightarrow>
            (case dispatch_batch (ev n) run count (take count ids) o1 t of (res, o3, t3) \<Rightarrow>
             case dispatch_from n ev run (drop count ids) o3 t3 of
                  None \<Rightarrow> None
                | Some (rest, o4, t4) \<Rightarrow> Some (res @ rest, o4, t4)))"

definition dispatch ::
  "(nat \<Rightarrow> disp_env) \<Rightarrow> ('h \<Rightarrow> message \<Rightarrow> handler_result) \<Rightarrow> int64 list \<Rightarrow> 'h outbox \<Rightarrow> msg_row list
    \<Rightarrow> (result list \<times> 'h outbox \<times> msg_row list) option" where
  "dispatch ev run ids ox t =
     (case dispatch_from (length ids) ev run ids ox t of None \<Rightarrow> None | Some (rs, ox', t') \<Rightarrow> Some (rs, notify ox', t'))"

definition Dispatch ::
  "bool option \<Rightarrow> (nat \<Rightarrow> disp_env) \<Rightarrow> ('h \<Rightarrow> message \<Rightarrow> handler_result) \<Rightarrow> int64 list \<Rightarrow> 'h outbox option \<Rightarrow> msg_row list
    \<Rightarrow> ((outbox_error + result list) \<times> msg_row list) option" where
  "Dispatch ctx ev run ids ob t =
     (case begin_call ctx ob of Some e \<Rightarrow> Some (Inl e, t) | None \<Rightarrow>
      case ob of None \<Rightarrow> Some (Inl ErrClosed, t) | Some ox \<Rightarrow>
      if (\<exists>i \<in> set ids. i \<le> 0) \<or> \<not> distinct ids then Some (Inl ErrInvalidArgument, t)
      else case dispatch ev run ids ox t of None \<Rightarrow> None | Some (rs, _, t') \<Rightarrow> Some (Inr rs, t'))"

text \<open>
  \<open>Transaction\<close>: the callback as its calls of \<open>Enqueue\<close> and the error it returns. A panic of
  the callback rolls back and propagates; it is the business error here.
\<close>

record business =
  b_calls :: "(bool option \<times> ins_env \<times> message) list"
  b_result :: "outbox_error option"

definition run_calls_tx :: "'h outbox \<Rightarrow> (bool option \<times> ins_env \<times> message) list \<Rightarrow> tx \<Rightarrow> tx" where
  "run_calls_tx ox cs x = fold (\<lambda>(ctx, ev, m) x. case snd (Enqueue ox ctx ev m (Some x)) of None \<Rightarrow> x | Some x' \<Rightarrow> x') cs x"

definition Transaction ::
  "bool option \<Rightarrow> db_error option \<Rightarrow> commit_outcome \<Rightarrow> (nat \<Rightarrow> disp_env) \<Rightarrow> ('h \<Rightarrow> message \<Rightarrow> handler_result) \<Rightarrow> business option
    \<Rightarrow> 'h outbox option \<Rightarrow> msg_row list \<Rightarrow> ((outbox_error + result list) \<times> msg_row list) option" where
  "Transaction ctx flt c ev run handler ob t =
     (case begin_call ctx ob of Some e \<Rightarrow> Some (Inl e, t) | None \<Rightarrow>
      case ob of None \<Rightarrow> Some (Inl ErrClosed, t) | Some ox \<Rightarrow>
      case handler of None \<Rightarrow> Some (Inl ErrInvalidArgument, t) | Some b \<Rightarrow>
      case flt of Some e \<Rightarrow> Some (Inl (ErrDB e), t) | None \<Rightarrow>
      let x = run_calls_tx ox (b_calls b) \<lparr>tx_table = t, tx_ids = [], tx_err = None, tx_closed = False\<rparr> in
      case b_result b of Some e \<Rightarrow> Some (Inl e, t) | None \<Rightarrow>
      case tx_err x of Some e \<Rightarrow> Some (Inl e, t) | None \<Rightarrow>
      case c of
        CommitErr e applied \<Rightarrow> Some (Inl (ErrDB e), if applied then tx_table x else t)
      | CommitOk \<Rightarrow>
          (case dispatch ev run (tx_ids x) ox (tx_table x) of None \<Rightarrow> None | Some (rs, _, t') \<Rightarrow> Some (Inr rs, t')))"

text \<open>\<open>Publish\<close>: one message in its own transaction; \<open>results[0]\<close> of an empty list would panic.\<close>

definition Publish ::
  "bool option \<Rightarrow> db_error option \<Rightarrow> commit_outcome \<Rightarrow> (nat \<Rightarrow> disp_env) \<Rightarrow> ('h \<Rightarrow> message \<Rightarrow> handler_result) \<Rightarrow> ins_env \<Rightarrow> message
    \<Rightarrow> 'h outbox option \<Rightarrow> msg_row list \<Rightarrow> ((outbox_error + result option) \<times> msg_row list) option" where
  "Publish ctx flt c ev run ie m ob t =
     (let b = \<lparr>b_calls = [(ctx, ie, m)],
               b_result = (case ob of None \<Rightarrow> None | Some ox \<Rightarrow>
                 (case fst (EnqueueTx ctx ie (Some (o_driver ox)) m ob t) of Inl e \<Rightarrow> Some e | Inr _ \<Rightarrow> None))\<rparr> in
      case Transaction ctx flt c ev run (Some b) ob t of
        None \<Rightarrow> None
      | Some (Inl e, t') \<Rightarrow> Some (Inl e, t')
      | Some (Inr rs, t') \<Rightarrow> Some (Inr (case rs of [] \<Rightarrow> None | r # _ \<Rightarrow> Some r), t'))"

definition Get :: "bool option \<Rightarrow> db_error option \<Rightarrow> int64 \<Rightarrow> 'h outbox option \<Rightarrow> msg_row list \<Rightarrow> outbox_error + msg_row" where
  "Get ctx flt i ob t =
     (case begin_call ctx ob of Some e \<Rightarrow> Inl e | None \<Rightarrow> if i \<le> 0 then Inl ErrInvalidArgument else get flt i t)"

definition Retry ::
  "bool option \<Rightarrow> bool \<Rightarrow> exec_outcome \<Rightarrow> db_error option \<Rightarrow> db_error option \<Rightarrow> int64 \<Rightarrow> int64 \<Rightarrow> 'h outbox option \<Rightarrow> msg_row list
    \<Rightarrow> outbox_error option \<times> 'h outbox option \<times> msg_row list" where
  "Retry ctx found c rows flt now i ob t =
     (case begin_call ctx ob of Some e \<Rightarrow> (Some e, ob, t) | None \<Rightarrow>
      if i \<le> 0 then (Some ErrInvalidArgument, ob, t)
      else case retry found c rows flt now i t of
        (Some e, t') \<Rightarrow> (Some e, ob, t') | (None, t') \<Rightarrow> (None, map_option notify ob, t'))"

text \<open>\<open>Close\<close>, once the background work and the running calls have ended in time.\<close>

definition Close :: "db_error option \<Rightarrow> commit_outcome \<Rightarrow> 'h outbox option \<Rightarrow> outbox_db \<Rightarrow> outbox_error option \<times> 'h outbox option \<times> outbox_db" where
  "Close flt c ob db =
     (case ob of None \<Rightarrow> (None, None, db) | Some ox \<Rightarrow>
      case release flt c (o_node ox) db of (e, db') \<Rightarrow> (e, Some (ox\<lparr>o_closed := True, o_ctx_done := True\<rparr>), db'))"

section \<open>Scanning\<close>

record scan_env =
  se_ctx_ended :: bool
  se_claim :: claim_env
  se_exec :: "int64 \<Rightarrow> exec_env"

text \<open>
  The loop of \<open>scan\<close> over the ready shards, in the order in which it visits them; the first
  result says that it returned from inside the loop, the second that an error was recorded.
\<close>

fun scan_leases ::
  "(nat \<Rightarrow> scan_env) \<Rightarrow> bool \<Rightarrow> ('h \<Rightarrow> message \<Rightarrow> handler_result) \<Rightarrow> shard_row list \<Rightarrow> int \<Rightarrow> bool \<Rightarrow> 'h outbox \<Rightarrow> outbox_db
    \<Rightarrow> bool \<times> bool \<times> 'h outbox \<times> outbox_db" where
  "scan_leases ev async run [] remaining err ox db = (False, err, ox, db)"
| "scan_leases ev async run (lease # ls) remaining err ox db =
     (let e = ev (length ls) in
      if remaining \<le> 0 then (False, err, ox, db)
      else if se_ctx_ended e then (True, True, ox, db)
      else case reserve False remaining False ox of
        None \<Rightarrow> (False, err, ox, db)
      | Some (Inl er, o1) \<Rightarrow> (True, True, o1, db)
      | Some (Inr count, o1) \<Rightarrow>
          if count = 0 then (False, err, o1, db)
          else (case claimShard (se_claim e) (o_config ox) lease (int count) db of
            (Inl er, db1) \<Rightarrow> scan_leases ev async run ls remaining (err \<or> er \<noteq> ErrLeaseLost) (unreserve count o1) db1
          | (Inr tasks, db1) \<Rightarrow>
              (let o2 = unreserve (count - length tasks) o1; rem = remaining - int (length tasks) in
               if async then scan_leases ev async run ls rem err (o2\<lparr>o_jobs := o_jobs o2 @ tasks\<rparr>) db1
               else (case runTasks (se_exec e) run tasks o2 (messages db1) of
                       (rs, o3, t) \<Rightarrow> scan_leases ev async run ls rem (err \<or> list_ex r_attempt_error rs) o3 (db1\<lparr>messages := t\<rparr>)))))"

fun cleanup_leases :: "(nat \<Rightarrow> bool \<times> claim_env) \<Rightarrow> outbox_config \<Rightarrow> shard_row list \<Rightarrow> bool \<Rightarrow> outbox_db \<Rightarrow> bool \<times> outbox_db" where
  "cleanup_leases ev conf [] err db = (err, db)"
| "cleanup_leases ev conf (lease # ls) err db =
     (if fst (ev (length ls)) then (True, db)
      else case cleanup (snd (ev (length ls))) conf lease db of
             (Inl e, db') \<Rightarrow> cleanup_leases ev conf ls (err \<or> e \<noteq> ErrLeaseLost) db'
           | (Inr _, db') \<Rightarrow> cleanup_leases ev conf ls err db')"

text \<open>\<open>swapped\<close> is the answer of \<open>CompareAndSwap\<close>.\<close>

definition cleanupIfDue ::
  "int64 \<Rightarrow> bool \<Rightarrow> (nat \<Rightarrow> bool \<times> claim_env) \<Rightarrow> shard_row list \<Rightarrow> 'h outbox \<Rightarrow> outbox_db \<Rightarrow> bool \<times> 'h outbox \<times> outbox_db" where
  "cleanupIfDue now swapped ev leases ox db =
     (if i64 (now - o_lastCleanup ox) < Milliseconds (CleanupInterval (fst (o_config ox))) \<or> \<not> swapped then (False, ox, db)
      else case cleanup_leases ev (fst (o_config ox)) leases False db of (err, db') \<Rightarrow> (err, ox\<lparr>o_lastCleanup := now\<rparr>, db'))"

definition scan ::
  "db_error option \<Rightarrow> int64 \<Rightarrow> (nat \<Rightarrow> scan_env) \<Rightarrow> int64 \<Rightarrow> bool \<Rightarrow> (nat \<Rightarrow> bool \<times> claim_env) \<Rightarrow> bool \<Rightarrow> ('h \<Rightarrow> message \<Rightarrow> handler_result)
    \<Rightarrow> 'h outbox \<Rightarrow> outbox_db \<Rightarrow> bool \<times> 'h outbox \<times> outbox_db" where
  "scan flt now ev cnow swapped cev async run ox db =
     (if o_leases ox = [] then (False, ox, db)
      else case readyShards flt now (o_leases ox) db of Inl e \<Rightarrow> (True, ox, db) | Inr leases \<Rightarrow>
      if leases = [] then cleanupIfDue cnow swapped cev (o_leases ox) ox db
      else
        let cur = (o_cursor ox + 1) mod 2 ^ 64; start = cur mod length leases in
        case scan_leases ev async run (rotate start leases) (BatchSize (fst (o_config ox))) False (ox\<lparr>o_cursor := cur\<rparr>) db of
          (True, err, o1, db1) \<Rightarrow> (err, o1, db1)
        | (False, err, o1, db1) \<Rightarrow>
            (case cleanupIfDue cnow swapped cev (o_leases ox) o1 db1 of (err2, o2, db2) \<Rightarrow> (err \<or> err2, o2, db2)))"

definition ScanOnce ::
  "bool option \<Rightarrow> coord_env \<Rightarrow> db_error option \<Rightarrow> int64 \<Rightarrow> (nat \<Rightarrow> scan_env) \<Rightarrow> int64 \<Rightarrow> bool \<Rightarrow> (nat \<Rightarrow> bool \<times> claim_env)
    \<Rightarrow> ('h \<Rightarrow> message \<Rightarrow> handler_result) \<Rightarrow> 'h outbox option \<Rightarrow> outbox_db \<Rightarrow> bool \<times> 'h outbox option \<times> outbox_db" where
  "ScanOnce ctx cv flt now ev cnow swapped cev run ob db =
     (case begin_call ctx ob of Some e \<Rightarrow> (True, ob, db) | None \<Rightarrow>
      case ob of None \<Rightarrow> (True, ob, db) | Some ox \<Rightarrow>
      case refresh cv ox db of
        (Some e, o1, db1) \<Rightarrow> (True, Some o1, db1)
      | (None, o1, db1) \<Rightarrow>
          (case scan flt now ev cnow swapped cev False run o1 db1 of (err, o2, db2) \<Rightarrow> (err, Some o2, db2)))"

text \<open>One job of \<open>worker\<close>.\<close>

definition worker_job :: "exec_env \<Rightarrow> ('h \<Rightarrow> message \<Rightarrow> handler_result) \<Rightarrow> msg_row \<Rightarrow> 'h outbox \<Rightarrow> msg_row list \<Rightarrow> 'h outbox \<times> msg_row list" where
  "worker_job ev run task ox t = (notify (unreserve 1 ox), snd (execute ev run ox task t))"

section \<open>Shard assignment\<close>

lemma stride_set: "0 < n \<Longrightarrow> set (stride i n) = {s. i \<le> s \<and> s < shardCount \<and> s mod n = i mod n}"
proof (induction i n rule: stride.induct)
  case (1 i n)
  show ?case
  proof (cases "shardCount \<le> i")
    case True
    then show ?thesis by (subst stride.simps) auto
  next
    case False
    have IH: "set (stride (i + n) n) = {s. i + n \<le> s \<and> s < shardCount \<and> s mod n = i mod n}"
      using 1 False by simp
    have "{s. i \<le> s \<and> s < shardCount \<and> s mod n = i mod n} = insert i {s. i + n \<le> s \<and> s < shardCount \<and> s mod n = i mod n}"
    proof -
      have "i + n \<le> s" if "i \<le> s" "s mod n = i mod n" "s \<noteq> i" for s
      proof -
        have "n dvd s - i" using that(1,2) by (simp add: mod_eq_dvd_iff_nat)
        then show ?thesis using that(1,3) dvd_imp_le [of n "s - i"] by simp
      qed
      then show ?thesis using False by auto
    qed
    then show ?thesis using False 1(2) IH by (subst stride.simps) simp
  qed
qed

lemma stride_length: "0 < n \<Longrightarrow> length (stride i n) = (shardCount + n - 1 - i) div n"
proof (induction i n rule: stride.induct)
  case (1 i n)
  show ?case
  proof (cases "shardCount \<le> i")
    case True
    then have "(shardCount + n - 1 - i) div n = 0" using 1(2) by simp
    then show ?thesis using True by (subst stride.simps) simp
  next
    case False
    then have e: "stride i n = i # stride (i + n) n" using 1(2) by (subst stride.simps) simp
    have "length (stride i n) = Suc (length (stride (i + n) n))" by (simp add: e)
    also have "\<dots> = Suc ((shardCount + n - 1 - (i + n)) div n)" using 1 False by simp
    also have "\<dots> = (shardCount + n - 1 - (i + n) + n) div n" using 1(2) by simp
    also have "shardCount + n - 1 - (i + n) + n = shardCount + n - 1 - i" using False by simp
    finally show ?thesis .
  qed
qed

lemma search_sorted:
  assumes "sorted ns" and "distinct ns" and "j < length ns"
  shows "search_strings ns (ns ! j) = j"
proof -
  have less: "ns ! k < ns ! j" if "k < j" for k
    using that assms strict_sorted_iff [of ns] sorted_wrt_nth_less [of "(<)" ns k j] by simp
  have "takeWhile (\<lambda>y. y < ns ! j) ns = take j ns"
    using assms(3) less by (intro takeWhile_eq_take_P_nth) auto
  then show ?thesis using assms(3) by (simp add: search_strings_def)
qed

lemma assignment_nth:
  assumes "distinct nodes0" and "j < length nodes0"
  shows "assignment nodes0 (sort nodes0 ! j) = stride j (length nodes0)"
  using assms search_sorted [of "sort nodes0" j] by (simp add: assignment_def Let_def)

text \<open>
  Shard assignment (C14). For any non-empty set of live nodes the assignments partition the 64
  shards: every shard belongs to exactly one live node, a node that is not live gets none, and
  the shares of two nodes differ by at most one shard.
\<close>

theorem assignment_partitions_shards:
  assumes "distinct live" and "live \<noteq> []"
  shows "(\<forall>shard < shardCount. \<exists>!node. node \<in> set live \<and> shard \<in> set (assignment live node))
     \<and> (\<forall>node. node \<notin> set live \<longrightarrow> assignment live node = [])
     \<and> (\<forall>a \<in> set live. \<forall>b \<in> set live. length (assignment live a) \<le> Suc (length (assignment live b)))"
proof (intro conjI ballI allI impI)
  let ?n = "length live" and ?s = "sort live"
  have n: "0 < ?n" using assms(2) by simp
  have idx: "\<exists>j < ?n. node = ?s ! j" if "node \<in> set live" for node
    using that in_set_conv_nth [of node ?s] by auto
  {
    fix shard assume sh: "shard < shardCount"
    have own: "shard \<in> set (assignment live (?s ! j)) \<longleftrightarrow> j = shard mod ?n" if "j < ?n" for j
    proof -
      have "shard mod ?n \<le> shard" by simp
      then show ?thesis using that sh by (auto simp: assignment_nth [OF assms(1) that] stride_set [OF n])
    qed
    have m: "shard mod ?n < ?n" using n by simp
    show "\<exists>!node. node \<in> set live \<and> shard \<in> set (assignment live node)"
    proof (rule ex1I [of _ "?s ! (shard mod ?n)"])
      show "?s ! (shard mod ?n) \<in> set live \<and> shard \<in> set (assignment live (?s ! (shard mod ?n)))"
        using own [OF m] m nth_mem [of "shard mod ?n" ?s] by simp
    next
      fix node assume "node \<in> set live \<and> shard \<in> set (assignment live node)"
      then show "node = ?s ! (shard mod ?n)" using idx own by blast
    qed
  }
  {
    fix node assume no: "node \<notin> set live"
    then have "search_strings ?s node < ?n \<Longrightarrow> ?s ! search_strings ?s node \<noteq> node"
      using nth_mem [of "search_strings ?s node" ?s] by auto
    moreover have "search_strings ?s node \<le> ?n"
      using length_takeWhile_le [of "\<lambda>y. y < node" ?s] by (simp add: search_strings_def)
    ultimately show "assignment live node = []" by (auto simp: assignment_def Let_def)
  }
  {
    fix a b assume ab: "a \<in> set live" "b \<in> set live"
    obtain i j where ij: "i < ?n" "a = ?s ! i" "j < ?n" "b = ?s ! j" using idx ab by blast
    have "(shardCount + ?n - 1 - i) div ?n \<le> (shardCount + ?n - 1) div ?n" by (intro div_le_mono) simp
    also have "\<dots> \<le> (shardCount + ?n - 1 - j + ?n) div ?n" using ij by (intro div_le_mono) simp
    also have "\<dots> = Suc ((shardCount + ?n - 1 - j) div ?n)" using n by simp
    finally show "length (assignment live a) \<le> Suc (length (assignment live b))"
      using ij by (simp add: assignment_nth [OF assms(1)] stride_length [OF n])
  }
qed

theorem assignment_partitions_shards_witness:
  "length (assignment [''b'', ''a'', ''c''] ''a'') \<le> Suc (length (assignment [''b'', ''a'', ''c''] ''b''))
   \<and> assignment [''b'', ''a'', ''c''] ''z'' = []"
  using assignment_partitions_shards [of "[''b'', ''a'', ''c'']"] by simp

end
