(* ===== verification/Kc_Outbox_System.thy ===== *)
theory Kc_Outbox_System
  imports Kc_Outbox
begin

text \<open>
  The outbox tables under every interleaving of the transactions of any number of nodes: inserts,
  claims by ID and by shard, results (also of deliveries whose lease has passed on), retries,
  clean-ups, coordination and release, with any faults and lost answers.
\<close>

section \<open>Claiming as one update\<close>

definition mark_row :: "outbox_config \<times> int \<Rightarrow> int64 \<Rightarrow> string \<Rightarrow> msg_row \<Rightarrow> msg_row" where
  "mark_row conf now tok r =
     (if Attempts r \<ge> snd conf + 1 then exhausted_set now r else claim_set now tok (Milliseconds (TaskLease (fst conf))) r)"

lemma ID_set_simps [simp]:
  "ID (exhausted_set now r) = ID r" "ID (claim_set now tok lease r) = ID r" "ID (finish_set now2 st err d r) = ID r"
  "ID (retry_set now r) = ID r" "ID (mark_row conf now tok r) = ID r"
  by (simp_all add: exhausted_set_def claim_set_def finish_set_def retry_set_def mark_row_def)

lemma markClaimed_mark:
  assumes pk: "pk ID t" and sub: "set rows \<subseteq> set t" and m: "markClaimed f1 f2 tok conf rows now t = (Inr xs, t')"
  shows "t' = sql_update (\<lambda>r. r \<in> set rows) (mark_row conf now tok) t
     \<and> xs = map (claim_set now tok (Milliseconds (TaskLease (fst conf)))) (filter (\<lambda>r. \<not> Attempts r \<ge> snd conf + 1) rows)"
proof -
  let ?exh = "map ID (filter (\<lambda>r. Attempts r \<ge> snd conf + 1) rows)"
  let ?ids = "map ID (filter (\<lambda>r. \<not> Attempts r \<ge> snd conf + 1) rows)"
  let ?c = "claim_set now tok (Milliseconds (TaskLease (fst conf)))"
  let ?t1 = "if ?exh = [] then t else sql_update (\<lambda>r. ID r \<in> set ?exh) (exhausted_set now) t"
  let ?t2 = "if ?ids = [] then ?t1 else sql_update (\<lambda>r. ID r \<in> set ?ids) ?c ?t1"
  have t': "t' = ?t2" and xs: "xs = map ?c (filter (\<lambda>r. \<not> Attempts r \<ge> snd conf + 1) rows)"
    using m by (auto simp: markClaimed_def Let_def split: option.splits if_splits)
  have u: "r \<in> set rows" if "r \<in> set t" "ID r = ID s" "s \<in> set rows" for r s
    using pk_unique [OF pk that(1) _ that(2)] that(3) sub by auto
  have us: "r = s" if "r \<in> set t" "ID r = ID s" "s \<in> set rows" for r s
    using pk_unique [OF pk that(1) _ that(2)] that(3) sub by auto
  have t1: "?t1 = sql_update (\<lambda>r. ID r \<in> set ?exh) (exhausted_set now) t"
    by (cases "?exh = []") (use sql_update_id [of t "\<lambda>r. ID r \<in> set []"] in simp_all)
  have t2: "?t2 = sql_update (\<lambda>r. ID r \<in> set ?ids) ?c ?t1"
    by (cases "?ids = []") (use sql_update_id [of ?t1 "\<lambda>r. ID r \<in> set []"] in simp_all)
  have "?t2 = sql_update (\<lambda>r. r \<in> set rows) (mark_row conf now tok) t"
    unfolding t2 unfolding t1 unfolding sql_update_def map_map
  proof (rule map_cong [OF refl])
    fix r assume r: "r \<in> set t"
    have e: "ID r \<in> set ?exh \<longleftrightarrow> r \<in> set rows \<and> Attempts r \<ge> snd conf + 1" using us [OF r] by force
    have i: "ID r \<in> set ?ids \<longleftrightarrow> r \<in> set rows \<and> \<not> Attempts r \<ge> snd conf + 1" using us [OF r] by force
    show "((\<lambda>r. if ID r \<in> set ?ids then ?c r else r) \<circ> (\<lambda>r. if ID r \<in> set ?exh then exhausted_set now r else r)) r
        = (if r \<in> set rows then mark_row conf now tok r else r)"
      using e i unfolding comp_def by (cases "r \<in> set rows"; cases "Attempts r \<ge> snd conf + 1") (simp_all add: mark_row_def)
  qed
  then show ?thesis using t' xs by simp
qed

lemma claim_tx_table:
  assumes "pk ID t" and "set rows \<subseteq> set t" and "end_tx c t (markClaimed f1 f2 tok conf rows now t) = (x, t')"
  shows "t' = t \<or> t' = sql_update (\<lambda>r. r \<in> set rows) (mark_row conf now tok) t"
proof (cases "markClaimed f1 f2 tok conf rows now t")
  case (Pair y t1)
  then show ?thesis using assms markClaimed_mark [OF assms(1,2)]
    by (cases y) (auto simp: end_tx_def split: commit_outcome.splits if_splits)
qed

lemma claim_rows_sub:
  "r \<in> set (claim_rows now locked shard limit t) \<Longrightarrow> r \<in> set t \<and> claimable now r \<and> ShardID r = shard \<and> \<not> locked (ID r)"
  by (auto simp: claim_rows_def Let_def claimable_def set_sql_select dest!: set_sql_limit split: if_splits)

lemma claimIDs_table:
  assumes "pk ID t" and "claimIDs ev conf ids limit t = (x, t')"
  shows "t' = t \<or> (\<exists>rows. (\<forall>r \<in> set rows. r \<in> set t \<and> claimable (ce_now ev) r) \<and> t' = sql_update (\<lambda>r. r \<in> set rows) (mark_row conf (ce_now ev) (ce_token ev)) t)"
proof -
  let ?rows = "sql_limit limit (sql_select (\<lambda>r. ID r \<in> set ids \<and> claimable (ce_now ev) r \<and> \<not> ce_locked ev (ID r)) ID t)"
  have rows: "\<forall>r \<in> set ?rows. r \<in> set t \<and> claimable (ce_now ev) r"
    by (auto simp: set_sql_select dest!: set_sql_limit)
  have "t' = t \<or> end_tx (ce_commit ev) t (markClaimed (ce_flt ev UpdateExhausted) (ce_flt ev UpdateClaimed) (ce_token ev) conf ?rows (ce_now ev) t) = (x, t')"
    using assms(2) by (auto simp: claimIDs_def Let_def split: if_splits option.splits)
  then show ?thesis using claim_tx_table [OF assms(1), of ?rows] rows by blast
qed

lemma claimShard_table:
  assumes "pk ID (messages db)" and "claimShard ev conf lease limit db = (x, db')"
  shows "shards db' = shards db \<and> nodes db' = nodes db \<and>
    (messages db' = messages db \<or> (\<exists>rows. (\<forall>r \<in> set rows. r \<in> set (messages db) \<and> claimable (ce_now ev) r)
       \<and> messages db' = sql_update (\<lambda>r. r \<in> set rows) (mark_row conf (ce_now ev) (ce_token ev)) (messages db)))"
proof -
  let ?rows = "claim_rows (ce_now ev) (ce_locked ev) (sh_id lease) limit (messages db)"
  obtain y t1 where e: "end_tx (ce_commit ev) (messages db) (markClaimed (ce_flt ev UpdateExhausted) (ce_flt ev UpdateClaimed) (ce_token ev)
      conf ?rows (ce_now ev) (messages db)) = (y, t1)" by fastforce
  have "db' = db \<or> db' = db\<lparr>messages := t1\<rparr>"
    using assms(2) e by (auto simp: claimShard_def split: if_splits option.splits)
  moreover have "t1 = messages db \<or> t1 = sql_update (\<lambda>r. r \<in> set ?rows) (mark_row conf (ce_now ev) (ce_token ev)) (messages db)"
    using claim_tx_table [OF assms(1) _ e] claim_rows_sub by blast
  moreover have "\<forall>r \<in> set ?rows. r \<in> set (messages db) \<and> claimable (ce_now ev) r" using claim_rows_sub by blast
  ultimately show ?thesis by auto
qed

section \<open>Results are fenced\<close>

definition msg_holder :: "msg_row \<Rightarrow> string option" where
  "msg_holder r = (if Status r = StatusProcessing then Some (LeaseToken r) else None)"

text \<open>The two clock readings, the new status, the error and the delay of a result.\<close>

type_synonym outcome = "int64 \<times> int64 \<times> status \<times> string option \<times> duration"

definition result_set :: "outcome \<Rightarrow> msg_row \<Rightarrow> msg_row" where
  "result_set = (\<lambda>(now, now2, st, err, delay) r. if LeaseUntil r > now then finish_set now2 st err delay r else r)"

definition result_statement :: "outcome \<Rightarrow> int64 \<Rightarrow> string \<Rightarrow> msg_row list \<Rightarrow> msg_row list" where
  "result_statement = (\<lambda>(now, now2, st, err, delay) i tok t. sql_update (leased now i tok) (finish_set now2 st err delay) t)"

interpretation msg_fence: fenced ID msg_holder result_set result_statement
proof
  show "ID (result_set a r) = ID r" for a r by (simp add: result_set_def split: prod.splits)
  show "result_statement a i tok t = sql_update (\<lambda>r. ID r = i \<and> msg_holder r = Some tok) (result_set a) t" for a i tok t
    by (auto simp: result_statement_def result_set_def sql_update_def leased_def msg_holder_def split: prod.splits)
qed

lemma outbox_finish_table:
  "snd (finish found c rows now now2 conf task err delay t)
     \<in> {t, result_statement (now, now2, finish_status conf (Attempts task) err, err, delay) (ID task) (LeaseToken task) t}"
  by (auto simp: finish_def Let_def committed_def result_statement_def split: commit_outcome.splits option.splits)

lemma finish_status_final: "finish_status conf n err \<noteq> StatusProcessing"
  by (auto simp: finish_status_def split: option.splits)

lemma outbox_execute_table:
  "\<exists>n err d. snd (execute ev run ox task t)
     \<in> {t, result_statement (ex_now ev, ex_now2 ev, finish_status (o_config ox) n err, err, d) (ID task) (LeaseToken task) t}"
proof -
  let ?err0 = "invoke (ex_before ev) run (o_handlers ox (Type task)) (message.truncate task)"
  let ?err = "case ?err0 of None \<Rightarrow> ex_after ev | Some e \<Rightarrow> Some e"
  let ?d = "backoff (RetryMin (fst (o_config ox))) (RetryMax (fst (o_config ox))) (Attempts task) (ex_rnd ev)"
  have "snd (execute ev run ox task t)
      = snd (finish (ex_found ev) (ex_exec ev) (ex_rows ev) (ex_now ev) (ex_now2 ev) (o_config ox) task ?err ?d t)"
    by (simp add: execute_def Let_def split: prod.splits)
  then show ?thesis using outbox_finish_table by metis
qed

section \<open>The step relation\<close>

text \<open>
  One committed transaction or statement of node \<open>who\<close> at server time \<open>now\<close>. The two
  transactions of \<open>coordinate\<close> are two steps; what they want is arbitrary in the second one,
  since the set of live nodes may have changed in between.
\<close>

inductive outbox_step :: "outbox_config \<times> int \<Rightarrow> int64 \<Rightarrow> string \<Rightarrow> outbox_db \<Rightarrow> outbox_db \<Rightarrow> bool" for conf now who where
  os_insert: "insert_msg flt i shard now m (messages db) = (x, t') \<Longrightarrow> outbox_step conf now who db (db\<lparr>messages := t'\<rparr>)"
| os_claim_ids: "claimIDs ev conf ids limit (messages db) = (x, t') \<Longrightarrow> ce_now ev = now \<Longrightarrow> ce_token ev \<noteq> [] \<Longrightarrow>
    outbox_step conf now who db (db\<lparr>messages := t'\<rparr>)"
| os_claim_shard: "claimShard ev conf lease limit db = (x, db') \<Longrightarrow> ce_now ev = now \<Longrightarrow> ce_token ev \<noteq> [] \<Longrightarrow>
    outbox_step conf now who db db'"
| os_execute: "o_config (ox :: nat outbox) = conf \<Longrightarrow> ex_now ev = now \<Longrightarrow> execute ev run ox task (messages db) = (x, t') \<Longrightarrow>
    outbox_step conf now who db (db\<lparr>messages := t'\<rparr>)"
| os_retry: "retry found c rows flt now i (messages db) = (x, t') \<Longrightarrow> outbox_step conf now who db (db\<lparr>messages := t'\<rparr>)"
| os_cleanup: "cleanup ev (fst conf) lease db = (x, db') \<Longrightarrow> ce_now ev = now \<Longrightarrow> outbox_step conf now who db db'"
| os_give_up: "coordinate_release now (fst conf) who db = (desired, db') \<Longrightarrow> outbox_step conf now who db db'"
| os_take: "coordinate_take now tok (fst conf) who desired db = (leases, db') \<Longrightarrow> outbox_step conf now who db db'"
| os_release: "release flt c who db = (x, db') \<Longrightarrow> outbox_step conf now who db db'"

definition fresh_db :: outbox_db where
  "fresh_db = \<lparr>messages = [], nodes = [], shards = snd (seed_shards None True [])\<rparr>"

inductive outbox_run :: "outbox_config \<times> int \<Rightarrow> outbox_db \<Rightarrow> bool" for conf where
  or_start: "outbox_run conf fresh_db"
| or_step: "outbox_run conf db \<Longrightarrow> outbox_step conf now who db db' \<Longrightarrow> outbox_run conf db'"

text \<open>\<open>coordinate\<close> stays inside the runs, with any steps of other nodes between its two transactions.\<close>

lemma coordinate_run:
  assumes "outbox_run conf db" and "\<And>d. outbox_run conf d \<Longrightarrow> outbox_run conf (co_between ev d)"
    and "coordinate ev (fst conf) node db = (x, db')"
  shows "outbox_run conf db'"
proof -
  obtain desired db1 where r: "coordinate_release (co_now1 ev) (fst conf) node db = (desired, db1)" by fastforce
  obtain ls db3 where k: "coordinate_take (co_now2 ev) (co_token ev) (fst conf) node desired (co_between ev db1) = (ls, db3)"
    by fastforce
  have 1: "outbox_run conf db1" by (rule or_step [OF assms(1) os_give_up [OF r]])
  have 2: "outbox_run conf (co_between ev db1)" by (rule assms(2) [OF 1])
  have 3: "outbox_run conf db3" by (rule or_step [OF 2 os_take [OF k]])
  show ?thesis using assms(3) assms(1) 1 2 3 r k
    by (auto simp: coordinate_def Let_def split: option.splits commit_outcome.splits if_splits)
qed

section \<open>The invariant\<close>

definition task_lease :: "outbox_config \<times> int \<Rightarrow> int64" where
  "task_lease conf = Milliseconds (TaskLease (fst conf))"

definition msg_ok :: "outbox_config \<times> int \<Rightarrow> msg_row \<Rightarrow> bool" where
  "msg_ok conf r \<longleftrightarrow>
     0 \<le> Attempts r \<and> Attempts r \<le> snd conf + 1
     \<and> (Status r = StatusProcessing \<longrightarrow> LeaseToken r \<noteq> [] \<and> 1 \<le> Attempts r \<and> LeaseUntil r = UpdatedAt r + task_lease conf)
     \<and> (Status r \<noteq> StatusProcessing \<longrightarrow> LeaseToken r = [] \<and> LeaseUntil r = 0)
     \<and> (Status r \<noteq> StatusSucceeded \<longrightarrow> CompletedAt r = 0)"

definition outbox_ok :: "outbox_config \<times> int \<Rightarrow> outbox_db \<Rightarrow> bool" where
  "outbox_ok conf db \<longleftrightarrow> pk ID (messages db) \<and> (\<forall>r \<in> set (messages db). msg_ok conf r) \<and> map sh_id (shards db) = [0..<shardCount]"

lemma msg_ok_mark: "msg_ok conf r \<Longrightarrow> claimable now r \<Longrightarrow> tok \<noteq> [] \<Longrightarrow> msg_ok conf (mark_row conf now tok r)"
  by (auto simp: msg_ok_def mark_row_def exhausted_set_def claim_set_def claimable_def task_lease_def)

lemma msg_ok_result:
  "msg_ok conf r \<Longrightarrow> msg_ok conf (result_set (now, now2, finish_status conf n err, err, d) r)"
  by (auto simp: msg_ok_def result_set_def finish_set_def finish_status_def split: option.splits)

lemma msg_ok_retry: "0 \<le> snd conf \<Longrightarrow> msg_ok conf r \<Longrightarrow> msg_ok conf (retry_set now r)"
  by (simp add: msg_ok_def retry_set_def)

lemma msg_ok_new: "0 \<le> snd conf \<Longrightarrow> msg_ok conf (new_row i shard now m)"
  by (simp add: msg_ok_def new_row_def)

text \<open>A step changes the messages in one of five ways, and keeps the shards' identifiers.\<close>

inductive message_change :: "outbox_config \<times> int \<Rightarrow> int64 \<Rightarrow> msg_row list \<Rightarrow> msg_row list \<Rightarrow> bool" for conf now t where
  mc_none: "message_change conf now t t"
| mc_insert: "i \<notin> ID ` set t \<Longrightarrow> message_change conf now t (t @ [new_row i shard now m])"
| mc_mark: "\<forall>r \<in> set rows. r \<in> set t \<and> claimable now r \<Longrightarrow> tok \<noteq> [] \<Longrightarrow>
    message_change conf now t (sql_update (\<lambda>r. r \<in> set rows) (mark_row conf now tok) t)"
| mc_result: "message_change conf now t (result_statement (now, now2, finish_status conf n err, err, d) i tok t)"
| mc_retry: "message_change conf now t (sql_update (\<lambda>r. ID r = i \<and> Status r = StatusFailed) (retry_set now) t)"
| mc_delete: "message_change conf now t (sql_delete (\<lambda>r. ID r \<in> set (cleanup_ids now locked (fst conf) shard t)) t)"

lemma sql_delete_none [simp]: "sql_delete (\<lambda>r. False) t = t"
  by (simp add: sql_delete_def)

lemma cleanup_table:
  assumes "cleanup ev conf lease db = (x, db')"
  shows "shards db' = shards db \<and> messages db' \<in> {messages db,
     sql_delete (\<lambda>r. ID r \<in> set (cleanup_ids (ce_now ev) (ce_locked ev) conf (sh_id lease) (messages db))) (messages db)}"
  using assms by (auto simp: cleanup_def Let_def end_tx_def split: option.splits if_splits commit_outcome.splits)

lemma step_messages:
  assumes "outbox_step conf now who db db'" and pk: "pk ID (messages db)"
  shows "message_change conf now (messages db) (messages db')"
  using assms(1)
proof cases
  case (os_insert flt i shard m x t')
  then have "t' = messages db \<or> (i \<notin> ID ` set (messages db) \<and> t' = messages db @ [new_row i shard now m])"
    by (auto simp: insert_msg_def split: option.splits if_splits)
  then show ?thesis using os_insert(1) by (auto intro: message_change.intros)
next
  case (os_claim_ids ev ids limit x t')
  then show ?thesis using claimIDs_table [OF pk os_claim_ids(2)] by (auto intro: message_change.intros)
next
  case (os_claim_shard ev lease limit x)
  then show ?thesis using claimShard_table [OF pk os_claim_shard(1)] mc_none mc_mark
    by (metis (no_types, lifting))
next
  case (os_execute ox ev run task x t')
  then show ?thesis using outbox_execute_table [of ev run ox task "messages db"] by (auto intro: message_change.intros)
next
  case (os_retry found c rows flt i x t')
  then have "t' \<in> {messages db, sql_update (\<lambda>r. ID r = i \<and> Status r = StatusFailed) (retry_set now) (messages db)}"
    by (auto simp: retry_def Let_def committed_def split: commit_outcome.splits option.splits if_splits sum.splits)
  then show ?thesis using os_retry(1) by (auto intro: message_change.intros)
next
  case (os_cleanup ev lease x)
  then show ?thesis using cleanup_table [OF os_cleanup(1)] by (auto intro: message_change.intros)
qed (auto simp: coordinate_release_def coordinate_take_def release_def Let_def committed_def
      intro: message_change.intros split: option.splits commit_outcome.splits if_splits)

lemma step_shards:
  assumes "outbox_step conf now who db db'"
  shows "shards db' = shards db
     \<or> (\<exists>p. (\<forall>r. p r \<longrightarrow> sh_owner r = who) \<and> shards db' = sql_update p clear_shard (shards db))
     \<or> (\<exists>tok desired. shards db' = shards (snd (coordinate_take now tok (fst conf) who desired db)))"
  using assms
proof cases
  case (os_claim_shard ev lease limit x)
  then show ?thesis by (auto simp: claimShard_def split: option.splits if_splits prod.splits)
next
  case (os_cleanup ev lease x)
  then show ?thesis using cleanup_table [OF os_cleanup(1)] by blast
next
  case (os_give_up desired)
  then have "shards db' = sql_update (\<lambda>r. sh_owner r = who \<and> (desired = [] \<or> sh_id r \<notin> set desired)) clear_shard (shards db)"
    by (auto simp: coordinate_release_def Let_def)
  then show ?thesis by (intro disjI2 disjI1 exI [of _ "\<lambda>r. sh_owner r = who \<and> (desired = [] \<or> sh_id r \<notin> set desired)"]) simp
next
  case (os_take tok desired leases)
  then show ?thesis by (metis snd_conv)
next
  case (os_release flt c x)
  then have "shards db' = shards db \<or> shards db' = sql_update (\<lambda>r. sh_owner r = who) clear_shard (shards db)"
    by (auto simp: release_def Let_def committed_def split: option.splits commit_outcome.splits)
  then show ?thesis by (metis (mono_tags, lifting))
qed auto

lemma coordinate_take_shards:
  "shards (snd (coordinate_take now tok conf who desired db))
     = map (\<lambda>r. if sh_id r \<in> set desired \<and> sh_until r \<le> now
                 then r\<lparr>sh_owner := who, sh_token := tok, sh_until := now + Milliseconds (ShardLease conf)\<rparr>
                 else if sh_id r \<in> set desired \<and> sh_owner r = who then
                   (if now + Milliseconds (ShardLease conf) \<le> now
                    then r\<lparr>sh_owner := who, sh_token := tok, sh_until := now + Milliseconds (ShardLease conf)\<rparr>
                    else r\<lparr>sh_until := now + Milliseconds (ShardLease conf)\<rparr>)
                 else r) (shards db)"
  by (cases "desired = []") (auto simp: coordinate_take_def Let_def sql_update_def)

lemma step_shard_ids:
  assumes "outbox_step conf now who db db'"
  shows "map sh_id (shards db') = map sh_id (shards db)"
proof -
  have "map sh_id (shards (snd (coordinate_take now tok (fst conf) who desired db))) = map sh_id (shards db)" for tok desired
    by (simp add: coordinate_take_shards)
  moreover have "map sh_id (sql_update p clear_shard (shards db)) = map sh_id (shards db)" for p
    by (rule map_key_sql_update) (simp add: clear_shard_def)
  ultimately show ?thesis using step_shards [OF assms] by metis
qed

lemma message_change_ok:
  assumes "message_change conf now t t'" and pk: "pk ID t" and ok: "\<forall>r \<in> set t. msg_ok conf r" and n: "0 \<le> snd conf"
  shows "pk ID t' \<and> (\<forall>r \<in> set t'. msg_ok conf r)"
  using assms(1)
proof cases
  case (mc_insert i shard m)
  then show ?thesis using pk ok msg_ok_new [OF n, of i shard now m] by (auto simp: pk_snoc new_row_def)
next
  case (mc_mark rows tok)
  then show ?thesis using pk ok by (auto intro!: pk_sql_update msg_ok_mark simp: sql_update_mem_iff)
next
  case (mc_result now2 k err d i tok)
  have "msg_ok conf r" if "r \<in> set t'" for r
    using msg_fence.statement_row [OF that [unfolded mc_result]] ok msg_ok_result by metis
  then show ?thesis using mc_result pk by (simp add: msg_fence.keeps_pk)
next
  case (mc_retry i)
  then show ?thesis using pk ok n by (auto intro!: pk_sql_update msg_ok_retry simp: sql_update_mem_iff)
next
  case (mc_delete locked shard)
  then show ?thesis using pk ok by (simp add: pk_sql_delete set_sql_delete)
qed (use pk ok in simp)

lemma outbox_step_ok: "outbox_step conf now who db db' \<Longrightarrow> outbox_ok conf db \<Longrightarrow> 0 \<le> snd conf \<Longrightarrow> outbox_ok conf db'"
  using step_messages [of conf now who db db'] message_change_ok [of conf now "messages db" "messages db'"]
    step_shard_ids [of conf now who db db']
  by (simp add: outbox_ok_def)

lemma fresh_shards: "shards fresh_db = map free_shard [0..<shardCount]"
proof -
  have seed: "fold seed_shard [0..<n] [] = map free_shard [0..<n]" for n
    by (induction n) (auto simp: seed_shard_def free_shard_def)
  show ?thesis unfolding fresh_db_def seed_shards_def Let_def by (simp add: seed)
qed

lemma outbox_run_ok: "outbox_run conf db \<Longrightarrow> 0 \<le> snd conf \<Longrightarrow> outbox_ok conf db"
proof (induction rule: outbox_run.induct)
  case or_start
  have "map sh_id (shards fresh_db) = [0..<shardCount]" unfolding fresh_shards by (simp add: free_shard_def comp_def)
  then show ?case by (simp add: outbox_ok_def fresh_db_def pk_def)
next
  case (or_step db now who db')
  then show ?case using outbox_step_ok by blast
qed

section \<open>Properties\<close>

lemma claim_keeps_live:
  assumes "outbox_ok conf db" and "r \<in> set (messages db)" and "Status r = StatusProcessing" and "now < UpdatedAt r + task_lease conf"
    and "\<forall>s \<in> set rows. s \<in> set (messages db) \<and> claimable now s"
  shows "r \<in> set (sql_update (\<lambda>r. r \<in> set rows) f (messages db))"
proof -
  have "msg_ok conf r" using assms(1,2) by (simp add: outbox_ok_def)
  then have "\<not> claimable now r" using assms(3,4) by (auto simp: msg_ok_def claimable_def)
  then have "r \<notin> set rows" using assms(5) by blast
  then show ?thesis using assms(2) by (force simp: sql_update_mem_iff)
qed

text \<open>
  The outbox tables (C11). In every state that the nodes can reach: message IDs are unique; a
  message is being processed exactly when it carries a token, with at least one attempt and a
  lease that ends \<open>TaskLease\<close> after it was claimed; attempts stay within the budget; only
  succeeded messages have a completion time; the shard table holds exactly the 64 shards. And
  no claim, by ID or by shard, touches a message under processing before its whole lease is over.
\<close>

theorem outbox_table_invariant:
  assumes "outbox_run conf db" and "0 \<le> snd conf"
  shows "outbox_ok conf db
     \<and> (\<forall>r \<in> set (messages db). Status r = StatusProcessing \<and> ce_now ev < UpdatedAt r + task_lease conf
          \<longrightarrow> r \<in> set (snd (claimIDs ev conf ids limit (messages db))) \<and> r \<in> set (messages (snd (claimShard ev conf lease limit2 db))))"
proof -
  have ok: "outbox_ok conf db" by (rule outbox_run_ok [OF assms])
  have pk: "pk ID (messages db)" using ok by (simp add: outbox_ok_def)
  obtain x t' where c: "claimIDs ev conf ids limit (messages db) = (x, t')" by fastforce
  obtain y db' where cs: "claimShard ev conf lease limit2 db = (y, db')" by fastforce
  have "r \<in> set t' \<and> r \<in> set (messages db')"
    if "r \<in> set (messages db)" "Status r = StatusProcessing" "ce_now ev < UpdatedAt r + task_lease conf" for r
    using claimIDs_table [OF pk c] claimShard_table [OF pk cs] claim_keeps_live [OF ok that] that(1) by auto
  then show ?thesis using ok c cs by simp
qed

definition demo_conf :: "outbox_config \<times> int" where
  "demo_conf = (with_defaults \<lparr>SchemaName = [], TableSuffix = ''orders'', DisableBackground = False, WorkerCount = 0, ScanInterval = 0,
     BatchSize = 0, HandlerTimeout = 0, TaskLease = 0, HeartbeatInterval = 0, ShardLease = 0, MaxRetries = None, RetryMin = 0,
     RetryMax = 0, Retention = 0, CleanupInterval = 0, CleanupBatchSize = 0, OperationTimeout = 0, CloseTimeout = 0, Postgres = None\<rparr>, 20)"

definition demo_env :: "int64 \<Rightarrow> claim_env" where
  "demo_env now = \<lparr>ce_flt = (\<lambda>_. None), ce_now = now, ce_locked = (\<lambda>_. False), ce_token = ''t1'', ce_commit = CommitOk\<rparr>"

definition demo_row :: msg_row where
  "demo_row = new_row 7 3 1000 \<lparr>ID = 0, Type = ''mail'', Payload = ''{}'', Attempts = 0\<rparr>"

lemma outbox_demo_inserted: "outbox_run demo_conf (fresh_db\<lparr>messages := [demo_row]\<rparr>)"
  by (rule or_step [OF or_start os_insert [of None 7 3 1000 "\<lparr>ID = 0, Type = ''mail'', Payload = ''{}'', Attempts = 0\<rparr>" _ "Inr 7"]])
    (simp add: insert_msg_def fresh_db_def demo_row_def)

lemma demo_claim: "claimIDs (demo_env 2000) demo_conf [7] 1 [demo_row] = (Inr [claim_set 2000 ''t1'' 60000 demo_row], [claim_set 2000 ''t1'' 60000 demo_row])"
  by code_simp

lemma outbox_demo_claimed: "outbox_run demo_conf (fresh_db\<lparr>messages := [claim_set 2000 ''t1'' 60000 demo_row]\<rparr>)"
proof -
  have "outbox_step demo_conf 2000 ''n'' (fresh_db\<lparr>messages := [demo_row]\<rparr>)
      ((fresh_db\<lparr>messages := [demo_row]\<rparr>)\<lparr>messages := [claim_set 2000 ''t1'' 60000 demo_row]\<rparr>)"
    by (rule os_claim_ids [of "demo_env 2000" demo_conf "[7]" 1 _ "Inr [claim_set 2000 ''t1'' 60000 demo_row]"])
      (simp add: demo_claim, simp_all add: demo_env_def)
  then show ?thesis using or_step [OF outbox_demo_inserted] by simp
qed

theorem outbox_table_invariant_witness:
  "outbox_ok demo_conf (fresh_db\<lparr>messages := [claim_set 2000 ''t1'' 60000 demo_row]\<rparr>)
   \<and> claim_set 2000 ''t1'' 60000 demo_row \<in> set (snd (claimIDs (demo_env 61999) demo_conf [7] 1 [claim_set 2000 ''t1'' 60000 demo_row]))"
proof -
  have "0 \<le> snd demo_conf" by (simp add: demo_conf_def)
  note i = outbox_table_invariant [OF outbox_demo_claimed this, of "demo_env 61999" "[7]" 1]
  have l: "task_lease demo_conf = 60000" by code_simp
  show ?thesis using i by (simp add: l demo_env_def) (simp add: claim_set_def)
qed

text \<open>
  Delivery is final. No step of any node changes a message that was delivered: it stays as it
  is until a clean-up deletes it, and that only when \<open>Retention\<close> has passed since its completion.
\<close>

theorem delivered_is_final:
  assumes "outbox_step conf now who db db'" and ok: "outbox_ok conf db" and r: "r \<in> set (messages db)" "Status r = StatusSucceeded"
  shows "r \<in> set (messages db') \<or> CompletedAt r < now - Milliseconds (Retention (fst conf))"
proof -
  have pk: "pk ID (messages db)" using ok by (simp add: outbox_ok_def)
  have "message_change conf now (messages db) (messages db')" by (rule step_messages [OF assms(1) pk])
  then show ?thesis
  proof cases
    case (mc_mark rows tok)
    then have "r \<notin> set rows" using r(2) by (auto simp: claimable_def)
    then show ?thesis using mc_mark r(1) by (force simp: sql_update_mem_iff)
  next
    case (mc_result now2 n err d i tok)
    have "msg_holder r \<noteq> Some tok" using r(2) by (simp add: msg_holder_def)
    then show ?thesis using mc_result msg_fence.held_by_other_untouched [OF _ r(1)] by metis
  next
    case (mc_retry i)
    then show ?thesis using r by (force simp: sql_update_mem_iff)
  next
    case (mc_delete locked shard)
    show ?thesis
    proof (cases "ID r \<in> set (cleanup_ids now locked (fst conf) shard (messages db))")
      case True
      then obtain s where s: "s \<in> set (messages db)" "ID s = ID r" "CompletedAt s < now - Milliseconds (Retention (fst conf))"
        by (auto simp: cleanup_ids_def set_sql_select dest!: set_sql_limit)
      then show ?thesis using pk_unique [OF pk s(1) r(1) s(2)] by simp
    qed (use mc_delete r in \<open>simp add: set_sql_delete\<close>)
  qed (use r in auto)
qed

definition demo_done :: msg_row where
  "demo_done = finish_set 3000 StatusSucceeded None 0 (claim_set 2000 ''t1'' 60000 demo_row)"

theorem delivered_is_final_witness:
  "outbox_step demo_conf 9000 ''n'' (fresh_db\<lparr>messages := [demo_done]\<rparr>) (fresh_db\<lparr>messages := [demo_done]\<rparr>)
   \<and> Status demo_done = StatusSucceeded
   \<and> (demo_done \<in> set (messages (fresh_db\<lparr>messages := [demo_done]\<rparr>)) \<or> CompletedAt demo_done < 9000 - Milliseconds (Retention (fst demo_conf)))"
proof -
  let ?db = "fresh_db\<lparr>messages := [demo_done]\<rparr>"
  have "outbox_step demo_conf 9000 ''n'' ?db (?db\<lparr>messages := [demo_done]\<rparr>)"
    by (rule os_retry [of True CommitOk None None 9000 7 _ "Some ErrNotFailed"])
      (simp add: retry_def Let_def committed_def sql_update_def sql_affected_def get_def sql_row_def demo_done_def finish_set_def
        claim_set_def demo_row_def new_row_def)
  then have s: "outbox_step demo_conf 9000 ''n'' ?db ?db" by simp
  have st: "Status demo_done = StatusSucceeded" by (simp add: demo_done_def finish_set_def)
  have ids: "map sh_id (shards ?db) = [0..<shardCount]" by (simp add: fresh_shards free_shard_def comp_def)
  have ok: "outbox_ok demo_conf ?db"
    unfolding outbox_ok_def ids by (simp add: pk_def msg_ok_def demo_done_def finish_set_def claim_set_def demo_row_def new_row_def demo_conf_def)
  show ?thesis using delivered_is_final [OF s ok _ st] s st by simp
qed

text \<open>
  Late results. When the lease of a claimed message has run out, or the message has passed to
  another holder, the old delivery cannot change anything: whatever its handler returned or did,
  the table stays as it is, and the result says that the message is still being processed, with
  an error, whatever the database answered.
\<close>

theorem late_result_is_harmless:
  assumes "pk ID t" and "r \<in> set t" and "ID r = ID task"
    and "msg_holder r \<noteq> Some (LeaseToken task) \<or> LeaseUntil r \<le> ex_now ev"
  shows "execute ev run ox task t = (\<lparr>r_id = ID task, r_status = StatusProcessing, r_attempt_error = True\<rparr>, t)"
proof -
  have no: "\<not> leased (ex_now ev) (ID task) (LeaseToken task) s" if "s \<in> set t" for s
    using pk_unique [OF assms(1) that assms(2)] assms(3,4) by (auto simp: leased_def msg_holder_def split: if_splits)
  show ?thesis
    using no by (auto simp: execute_def finish_def Let_def committed_def sql_update_id sql_affected_def filter_empty_conv
        split: commit_outcome.splits option.splits)
qed

definition demo_outbox :: "nat outbox" where
  "demo_outbox = \<lparr>o_config = demo_conf, o_handlers = [''mail'' \<mapsto> 0], o_driver = MySQL, o_node = ''n'', o_ctx_done = False, o_closed = False,
     o_slots = 0, o_jobs = [], o_wake = False, o_leases = [], o_cursor = 0, o_lastCleanup = 0\<rparr>"

definition demo_exec :: "int64 \<Rightarrow> exec_env" where
  "demo_exec now = \<lparr>ex_before = None, ex_after = None, ex_found = True, ex_exec = CommitOk, ex_rows = None, ex_now = now, ex_now2 = now, ex_rnd = 0\<rparr>"

theorem late_result_is_harmless_witness:
  "execute (demo_exec 62000) (\<lambda>_ _. HandlerReturns None) demo_outbox (claim_set 2000 ''t1'' 60000 demo_row) [claim_set 2000 ''t1'' 60000 demo_row]
   = (\<lparr>r_id = 7, r_status = StatusProcessing, r_attempt_error = True\<rparr>, [claim_set 2000 ''t1'' 60000 demo_row])"
proof -
  let ?r = "claim_set 2000 ''t1'' 60000 demo_row"
  have "LeaseUntil ?r \<le> ex_now (demo_exec 62000)" "ID ?r = 7" "pk ID [?r]"
    by (simp_all add: claim_set_def demo_exec_def demo_row_def new_row_def pk_def)
  then show ?thesis using late_result_is_harmless [of "[?r]" ?r ?r "demo_exec 62000" "\<lambda>_ _. HandlerReturns None" demo_outbox] by simp
qed

text \<open>
  Shard leases (C12). A node that holds a shard lease keeps it, whatever the other nodes do, until the
  lease runs out: after a step of another node at a time when the lease is still valid, \<open>lockShard\<close>
  with that lease still succeeds. Without a valid lease a scan cannot claim and a clean-up cannot
  delete: both report \<open>ErrLeaseLost\<close> and leave the database as it is.
\<close>

theorem shard_lease_respected:
  assumes "outbox_step conf now who db db'" and "pk sh_id (shards db)"
  shows "(lockShard None now lease (shards db) = None \<and> sh_owner lease \<noteq> who \<longrightarrow> lockShard None now lease (shards db') = None)
     \<and> (lockShard None (ce_now ev) lease (shards db) \<noteq> None \<and> 0 < limit \<and> ce_flt ev = (\<lambda>_. None)
          \<longrightarrow> claimShard ev conf lease limit db = (Inl ErrLeaseLost, db) \<and> cleanup ev (fst conf) lease db = (Inl ErrLeaseLost, db))"
proof (intro conjI impI)
  assume v: "lockShard None now lease (shards db) = None \<and> sh_owner lease \<noteq> who"
  then obtain cur where row: "sql_row (\<lambda>r. sh_id r = sh_id lease) (shards db) = Some cur"
      and cur: "sh_owner cur = sh_owner lease" "sh_token cur = sh_token lease" "now < sh_until cur"
    by (auto simp: lockShard_def split: option.splits if_splits)
  then have c: "cur \<in> set (shards db)" "sh_id cur = sh_id lease" using sql_row_SomeD [OF row] by auto
  have pk': "pk sh_id (shards db')" using assms(2) by (simp add: pk_def step_shard_ids [OF assms(1)])
  have k: "sh_owner cur \<noteq> who" "\<not> sh_until cur \<le> now" using v cur by auto
  have "cur \<in> set (sql_update p clear_shard (shards db))" if "\<forall>r. p r \<longrightarrow> sh_owner r = who" for p
    using c(1) k(1) that by (force simp: sql_update_mem_iff)
  moreover have "cur \<in> set (shards (snd (coordinate_take now tok (fst conf) who desired db)))" for tok desired
    unfolding coordinate_take_shards using c(1) k by force
  ultimately have "cur \<in> set (shards db')" using step_shards [OF assms(1)] c(1) by metis
  then show "lockShard None now lease (shards db') = None"
    using cur sql_row_pk [OF pk', of cur "sh_id lease"] c(2) by (simp add: lockShard_def)
next
  assume l: "lockShard None (ce_now ev) lease (shards db) \<noteq> None \<and> 0 < limit \<and> ce_flt ev = (\<lambda>_. None)"
  then have "lockShard None (ce_now ev) lease (shards db) = Some ErrLeaseLost"
    by (auto simp: lockShard_def split: option.splits if_splits)
  then show "claimShard ev conf lease limit db = (Inl ErrLeaseLost, db)" "cleanup ev (fst conf) lease db = (Inl ErrLeaseLost, db)"
    using l by (simp_all add: claimShard_def cleanup_def)
qed

definition demo_shards :: outbox_db where
  "demo_shards = \<lparr>messages = [], nodes = [], shards = [\<lparr>sh_id = 0, sh_owner = ''a'', sh_token = ''k'', sh_until = 5000\<rparr>]\<rparr>"

theorem shard_lease_respected_witness:
  "lockShard None 1000 \<lparr>sh_id = 0, sh_owner = ''a'', sh_token = ''k'', sh_until = 4000\<rparr> (shards demo_shards) = None
   \<and> outbox_step demo_conf 1000 ''b'' demo_shards demo_shards
   \<and> claimShard (demo_env 5000) demo_conf \<lparr>sh_id = 0, sh_owner = ''a'', sh_token = ''k'', sh_until = 4000\<rparr> 10 demo_shards
       = (Inl ErrLeaseLost, demo_shards)"
proof -
  let ?l = "\<lparr>sh_id = 0, sh_owner = ''a'', sh_token = ''k'', sh_until = 4000\<rparr>"
  have s: "outbox_step demo_conf 1000 ''b'' demo_shards demo_shards"
    by (rule os_release [of None CommitOk _ _ None]) (simp add: release_def Let_def committed_def demo_shards_def sql_update_def sql_delete_def)
  have pk: "pk sh_id (shards demo_shards)" by (simp add: pk_def demo_shards_def)
  have l: "lockShard None (ce_now (demo_env 5000)) ?l (shards demo_shards) \<noteq> None"
    and v: "lockShard None 1000 ?l (shards demo_shards) = None"
    by (simp_all add: lockShard_def demo_shards_def sql_row_def demo_env_def)
  show ?thesis using shard_lease_respected [OF s pk, of ?l "demo_env 5000" 10] s l v by (simp add: demo_env_def)
qed

section \<open>Coordination converges\<close>

lemma stride_sorted: "0 < n \<Longrightarrow> sorted (stride i n) \<and> distinct (stride i n)"
proof (induction i n rule: stride.induct)
  case (1 i n)
  show ?case
  proof (cases "shardCount \<le> i")
    case True
    then show ?thesis by (subst (1 2) stride.simps) simp
  next
    case False
    have e: "stride i n = i # stride (i + n) n" using False 1(2) by (subst stride.simps) simp
    have "\<forall>s \<in> set (stride (i + n) n). i < s" using stride_set [OF 1(2)] 1(2) by auto
    then show ?thesis using 1 False unfolding e by auto
  qed
qed

lemma assignment_sorted:
  "sorted (assignment live node) \<and> distinct (assignment live node) \<and> set (assignment live node) \<subseteq> {0..<shardCount}"
proof (cases "live = []")
  case True
  then show ?thesis by (simp add: assignment_def search_strings_def)
next
  case False
  then have n: "0 < length live" by simp
  show ?thesis using stride_sorted [OF n] stride_set [OF n] by (auto simp: assignment_def Let_def)
qed

definition live_nodes :: "int64 \<Rightarrow> outbox_config \<Rightarrow> string \<Rightarrow> outbox_db \<Rightarrow> string list" where
  "live_nodes now conf node db = map n_id (filter (\<lambda>r. n_until r > now) (upsert_node node (now + Milliseconds (ShardLease conf)) (nodes db)))"

text \<open>The two phases on a shard row, when nothing happens between them.\<close>

definition settle :: "coord_env \<Rightarrow> outbox_config \<Rightarrow> string \<Rightarrow> nat list \<Rightarrow> shard_row \<Rightarrow> shard_row" where
  "settle ev conf node desired r =
     (if sh_id r \<in> set desired
      then (if sh_until r \<le> co_now2 ev
            then r\<lparr>sh_owner := node, sh_token := co_token ev, sh_until := co_now2 ev + Milliseconds (ShardLease conf)\<rparr>
            else if sh_owner r = node then r\<lparr>sh_until := co_now2 ev + Milliseconds (ShardLease conf)\<rparr> else r)
      else if sh_owner r = node then clear_shard r else r)"

definition calm :: "coord_env \<Rightarrow> bool" where
  "calm ev \<longleftrightarrow> co_flt1 ev = None \<and> co_flt2 ev = None \<and> co_commit1 ev = CommitOk \<and> co_commit2 ev = CommitOk \<and> co_between ev = (\<lambda>d. d)"

lemma coordinate_settles:
  assumes "calm ev" and "0 < Milliseconds (ShardLease conf)"
  shows "\<exists>leases db'. coordinate ev conf node db = (Inr leases, db')
     \<and> shards db' = map (settle ev conf node (assignment (live_nodes (co_now1 ev) conf node db) node)) (shards db)
     \<and> leases = sql_select (\<lambda>r. sh_owner r = node \<and> sh_until r > co_now2 ev) sh_id (shards db')"
proof -
  let ?d = "assignment (live_nodes (co_now1 ev) conf node db) node"
  obtain db1 where r: "coordinate_release (co_now1 ev) conf node db = (?d, db1)"
      and s1: "shards db1 = sql_update (\<lambda>r. sh_owner r = node \<and> (?d = [] \<or> sh_id r \<notin> set ?d)) clear_shard (shards db)"
    by (simp add: coordinate_release_def Let_def live_nodes_def)
  obtain leases db3 where k: "coordinate_take (co_now2 ev) (co_token ev) conf node ?d db1 = (leases, db3)" by fastforce
  have "coordinate ev conf node db = (Inr leases, db3)"
    using assms(1) r k by (simp add: coordinate_def calm_def Let_def)
  moreover have "shards db3 = map (settle ev conf node ?d) (shards db)"
    using coordinate_take_shards [of "co_now2 ev" "co_token ev" conf node ?d db1] assms(2)
    by (auto simp: k s1 sql_update_def settle_def clear_shard_def)
  moreover have "leases = sql_select (\<lambda>r. sh_owner r = node \<and> sh_until r > co_now2 ev) sh_id (shards db3)"
    using k by (auto simp: coordinate_take_def Let_def)
  ultimately show ?thesis by blast
qed

text \<open>
  Coordination converges (C13). When none of the shards assigned to a node is under another node's
  running lease (the others have released them, or their leases have run out), one undisturbed
  \<open>coordinate\<close> gives the node exactly the shards of its assignment, in order, all leased until
  \<open>ShardLease\<close> from now, and afterwards it owns no other shard.
\<close>

theorem coordinate_converges:
  assumes "calm ev" and "0 < Milliseconds (ShardLease conf)" and "map sh_id (shards db) = [0..<shardCount]"
    and "\<forall>s \<in> set (shards db). sh_id s \<in> set (assignment (live_nodes (co_now1 ev) conf node db) node)
           \<longrightarrow> sh_owner s = node \<or> sh_until s \<le> co_now2 ev"
    and "node \<noteq> []"
  shows "\<exists>leases db'. coordinate ev conf node db = (Inr leases, db')
     \<and> map sh_id leases = assignment (live_nodes (co_now1 ev) conf node db) node
     \<and> (\<forall>l \<in> set leases. sh_owner l = node \<and> sh_until l = co_now2 ev + Milliseconds (ShardLease conf))
     \<and> (\<forall>s \<in> set (shards db'). sh_owner s = node \<longrightarrow> s \<in> set leases)"
proof -
  let ?d = "assignment (live_nodes (co_now1 ev) conf node db) node"
  let ?u = "co_now2 ev + Milliseconds (ShardLease conf)"
  obtain leases db' where c: "coordinate ev conf node db = (Inr leases, db')"
      and s: "shards db' = map (settle ev conf node ?d) (shards db)"
      and l: "leases = sql_select (\<lambda>r. sh_owner r = node \<and> sh_until r > co_now2 ev) sh_id (shards db')"
    using coordinate_settles [OF assms(1,2)] by blast
  have mine: "sh_owner (settle ev conf node ?d r) = node \<and> sh_until (settle ev conf node ?d r) = ?u"
    if "r \<in> set (shards db)" "sh_id r \<in> set ?d" for r
    using that assms(4) by (auto simp: settle_def)
  have other: "sh_owner (settle ev conf node ?d r) \<noteq> node" if "sh_id r \<notin> set ?d" for r
    using that assms(5) by (auto simp: settle_def clear_shard_def)
  have id: "sh_id (settle ev conf node ?d r) = sh_id r" for r by (simp add: settle_def clear_shard_def)
  have sel: "set leases = settle ev conf node ?d ` {r \<in> set (shards db). sh_id r \<in> set ?d}"
    unfolding l s set_sql_select using mine other assms(2) by force
  have "sh_id ` set leases = {i. i < shardCount \<and> i \<in> set ?d}"
  proof -
    have "sh_id ` set leases = sh_id ` {r \<in> set (shards db). sh_id r \<in> set ?d}" unfolding sel by (force simp: id image_iff)
    also have "\<dots> = set ?d \<inter> set (map sh_id (shards db))" by auto
    finally show ?thesis using assms(3) by auto
  qed
  then have set: "set (map sh_id leases) = set ?d" using assignment_sorted [of _ node] by force
  have "map sh_id (shards db') = [0..<shardCount]" using assms(3) by (simp add: s comp_def id)
  then have "pk sh_id (shards db')" by (simp add: pk_def)
  then have "distinct (map sh_id leases)" unfolding l by (rule pk_sql_select)
  moreover have "sorted (map sh_id leases)" unfolding l by (rule sql_select_sorted)
  ultimately have "map sh_id leases = ?d"
    using assignment_sorted [of "live_nodes (co_now1 ev) conf node db" node] set by (intro sorted_distinct_set_unique) auto
  moreover have "\<forall>x \<in> set leases. sh_owner x = node \<and> sh_until x = ?u" using sel mine by auto
  moreover have "\<forall>x \<in> set (shards db'). sh_owner x = node \<longrightarrow> x \<in> set leases" unfolding s sel using other by auto
  ultimately show ?thesis using c by blast
qed

definition demo_calm :: coord_env where
  "demo_calm = \<lparr>co_flt1 = None, co_now1 = 1000, co_commit1 = CommitOk, co_between = (\<lambda>d. d), co_flt2 = None, co_now2 = 1001,
     co_token = ''k'', co_commit2 = CommitOk\<rparr>"

theorem coordinate_converges_witness:
  "\<exists>leases db'. coordinate demo_calm (fst demo_conf) ''a'' fresh_db = (Inr leases, db') \<and> map sh_id leases = [0..<64]"
proof -
  have c: "calm demo_calm" by (simp add: calm_def demo_calm_def)
  have m: "0 < Milliseconds (ShardLease (fst demo_conf))" by code_simp
  have ids: "map sh_id (shards fresh_db) = [0..<shardCount]" by (simp add: fresh_shards free_shard_def comp_def)
  have free: "sh_until s \<le> co_now2 demo_calm" if "s \<in> set (shards fresh_db)" for s
    using that by (auto simp: fresh_shards free_shard_def demo_calm_def)
  have a: "assignment (live_nodes (co_now1 demo_calm) (fst demo_conf) ''a'' fresh_db) ''a'' = [0..<64]" by code_simp
  show ?thesis using coordinate_converges [OF c m ids, of "''a''"] free unfolding a by blast
qed

end
