(* ===== verification/Kc_Outbox_Api.thy ===== *)
theory Kc_Outbox_Api
  imports Kc_Outbox
begin

text \<open>
  What callers of the outbox rely on: bounds of a resolved configuration, that \<open>Dispatch\<close>
  returns one result per message in order, and that \<open>Transaction\<close> stores all its messages or none.
\<close>

section \<open>Configuration\<close>

text \<open>
  Configuration. A configuration that resolves has at least one worker, room for at least one
  message per batch and clean-up, durations of at least a millisecond, a retry count that fits the
  column, a backoff range that is not empty, a task lease that leaves a whole \<open>OperationTimeout\<close>
  after the handler's timeout to store the result, and at least three heartbeats per shard lease.
\<close>

theorem outbox_config_bounds:
  assumes "resolveConfig c0 = Inr (c, retries)" and "in_i64 (TaskLease c0)" and "in_i64 (ShardLease c0)"
  shows "1 \<le> WorkerCount c \<and> 1 \<le> BatchSize c \<and> 1 \<le> CleanupBatchSize c \<and> 0 \<le> retries \<and> retries + 1 < 2 ^ 31
     \<and> millisecond \<le> HandlerTimeout c \<and> HandlerTimeout c + OperationTimeout c \<le> TaskLease c
     \<and> millisecond \<le> HeartbeatInterval c \<and> 3 * HeartbeatInterval c \<le> ShardLease c
     \<and> millisecond \<le> RetryMin c \<and> RetryMin c \<le> RetryMax c \<and> millisecond \<le> Retention c"
proof -
  let ?c = "with_defaults c0"
  have c: "c = ?c\<lparr>MaxRetries := None, Postgres := None\<rparr>" and counts: "\<not> (WorkerCount c0 < 0 \<or> BatchSize c0 < 0 \<or> CleanupBatchSize c0 < 0)"
    and ds: "\<not> (\<exists>d \<in> {ScanInterval ?c, HandlerTimeout ?c, TaskLease ?c, HeartbeatInterval ?c, ShardLease ?c, RetryMin ?c, RetryMax ?c,
                 Retention ?c, CleanupInterval ?c, OperationTimeout ?c, CloseTimeout ?c}. d < millisecond)"
    and rel: "\<not> (TaskLease ?c \<le> HandlerTimeout ?c \<or> i64 (TaskLease ?c - HandlerTimeout ?c) < OperationTimeout ?c
             \<or> HeartbeatInterval ?c > go_div (ShardLease ?c) 3 \<or> RetryMax ?c < RetryMin ?c)"
    and retries: "\<not> (retries < 0 \<or> retries \<ge> 2 ^ 31 - 1)"
    using assms(1) unfolding resolveConfig_def Let_def by (auto split: if_splits)
  have "in_i64 (TaskLease ?c)"
    using assms(2) by (simp add: with_defaults_def or_default_def cfg_simps in_i64_def MinInt64_def MaxInt64_def)
  then have "i64 (TaskLease ?c - HandlerTimeout ?c) = TaskLease ?c - HandlerTimeout ?c"
    using ds rel by (intro i64_id) (auto simp: in_i64_def MinInt64_def cfg_simps)
  moreover have "3 * HeartbeatInterval ?c \<le> ShardLease ?c"
    using ds rel by (simp add: go_div_nonneg cfg_simps) linarith
  moreover have "1 \<le> WorkerCount ?c \<and> 1 \<le> BatchSize ?c \<and> 1 \<le> CleanupBatchSize ?c"
    using counts by (auto simp: with_defaults_def or_default_def)
  ultimately show ?thesis using ds rel retries by (simp add: c)
qed

definition demo_config :: outbox_config where
  "demo_config = \<lparr>SchemaName = [], TableSuffix = ''orders'', DisableBackground = False, WorkerCount = 0, ScanInterval = 0,
     BatchSize = 0, HandlerTimeout = 0, TaskLease = 0, HeartbeatInterval = 0, ShardLease = 0, MaxRetries = None, RetryMin = 0,
     RetryMax = 0, Retention = 0, CleanupInterval = 0, CleanupBatchSize = 0, OperationTimeout = 0, CloseTimeout = 0, Postgres = None\<rparr>"

lemma demo_resolves: "resolveConfig demo_config = Inr (with_defaults demo_config, 20)"
  by (simp add: resolveConfig_def demo_config_def with_defaults_def or_default_def Let_def suffixPattern_def ident_char_def ident_start_def
      byte_in_def byte_def cfg_simps i64_def go_div_def pg_ok_def DefaultPostgresOptions_def)

theorem outbox_config_bounds_witness:
  "resolveConfig demo_config = Inr (with_defaults demo_config, 20)
   \<and> 3 * HeartbeatInterval (with_defaults demo_config) \<le> ShardLease (with_defaults demo_config)"
  using outbox_config_bounds [OF demo_resolves] demo_resolves by (simp add: demo_config_def in_i64_def MinInt64_def MaxInt64_def)

section \<open>Dispatching\<close>

lemma reserve_more_le: "reserve_more n cap used \<le> n"
  by (induction n cap used rule: reserve_more.induct) auto

lemma reserve_waiting:
  assumes "1 \<le> limit"
  shows "reserve ctx limit True ox = None \<longleftrightarrow> \<not> ctx \<and> nat (WorkerCount (fst (o_config ox))) \<le> o_slots ox"
    and "reserve ctx limit True ox = Some (Inr n, ox') \<Longrightarrow> 1 \<le> n \<and> int n \<le> limit \<and> o_config ox' = o_config ox"
proof -
  show "reserve ctx limit True ox = None \<longleftrightarrow> \<not> ctx \<and> nat (WorkerCount (fst (o_config ox))) \<le> o_slots ox"
    using assms by (auto simp: reserve_def Let_def)
  assume a: "reserve ctx limit True ox = Some (Inr n, ox')"
  then have "n = Suc (reserve_more (nat limit - 1) (nat (WorkerCount (fst (o_config ox)))) (Suc (o_slots ox)))" "o_config ox' = o_config ox"
    using assms by (auto simp: reserve_def Let_def split: if_splits)
  then show "1 \<le> n \<and> int n \<le> limit \<and> o_config ox' = o_config ox"
    using assms reserve_more_le [of "nat limit - 1" "nat (WorkerCount (fst (o_config ox)))" "Suc (o_slots ox)"] by simp linarith
qed

lemma unreserve_config [simp]: "o_config (unreserve n ox) = o_config ox"
  by (simp add: unreserve_def)

lemma runTasks_config: "o_config (fst (snd (runTasks ev run ts ox t))) = o_config ox"
  by (induction ts arbitrary: ox t) (auto split: prod.splits, metis fst_conv snd_conv unreserve_config)

lemma batch_results_ids: "map r_id (batch_results flt processed t batch) = batch"
proof -
  have "r_id (case lookup_result processed i of Some r \<Rightarrow> r | None \<Rightarrow>
            (case get (flt i) i t of
               Inl _ \<Rightarrow> \<lparr>r_id = i, r_status = StatusPending, r_attempt_error = True\<rparr>
             | Inr row \<Rightarrow> \<lparr>r_id = i, r_status = Status row, r_attempt_error = False\<rparr>)) = i" for i
    by (auto simp: lookup_result_def find_Some_iff split: option.splits sum.splits)
  then show ?thesis unfolding batch_results_def by (simp add: comp_def)
qed

lemma dispatch_batch_ids:
  assumes "dispatch_batch e run count batch ox t = (res, ox', t')"
  shows "map r_id res = batch \<and> o_config ox' = o_config ox"
proof (cases "claimIDs (de_claim e) (o_config ox) batch (int count) t")
  case (Pair c t1)
  show ?thesis
  proof (cases c)
    case (Inl er)
    then show ?thesis using assms Pair by (auto simp: dispatch_batch_def comp_def)
  next
    case (Inr tasks)
    then show ?thesis
      using assms Pair runTasks_config [of "de_exec e" run tasks "unreserve (count - length tasks) ox" t1]
      by (auto simp: dispatch_batch_def batch_results_ids split: prod.splits)
  qed
qed

text \<open>Every round takes at least one message, so as many rounds as messages are enough.\<close>

lemma dispatch_from_returns:
  assumes "length ids \<le> n" and "1 \<le> BatchSize (fst (o_config ox))"
    and free: "\<forall>k. de_ctx_ended (ev k) \<or> int (de_others (ev k)) < WorkerCount (fst (o_config ox))"
  shows "\<exists>rs ox' t'. dispatch_from n ev run ids ox t = Some (rs, ox', t') \<and> map r_id rs = ids"
  using assms
proof (induction n arbitrary: ids ox t)
  case (Suc n)
  show ?case
  proof (cases "ids = []")
    case False
    let ?o0 = "ox\<lparr>o_slots := de_others (ev n)\<rparr>" and ?lim = "min (int (length ids)) (BatchSize (fst (o_config ox)))"
    have lim: "1 \<le> ?lim" using False Suc.prems(2) by (cases ids) auto
    have "reserve (de_ctx_ended (ev n)) ?lim True ?o0 \<noteq> None"
      unfolding reserve_waiting(1) [OF lim] using spec [OF Suc.prems(3), of n] by simp linarith
    then obtain r o1 where r: "reserve (de_ctx_ended (ev n)) ?lim True ?o0 = Some (r, o1)" by force
    show ?thesis
    proof (cases r)
      case (Inl er)
      then show ?thesis using r False by (simp add: comp_def)
    next
      case (Inr count)
      have count: "1 \<le> count" "o_config o1 = o_config ox" using reserve_waiting(2) [OF lim r [unfolded Inr]] by simp_all
      obtain res o3 t3 where b: "dispatch_batch (ev n) run count (take count ids) o1 t = (res, o3, t3)" by (rule prod_cases3)
      have bi: "map r_id res = take count ids" "o_config o3 = o_config ox" using dispatch_batch_ids [OF b] count(2) by simp_all
      have "\<exists>rs ox' t'. dispatch_from n ev run (drop count ids) o3 t3 = Some (rs, ox', t') \<and> map r_id rs = drop count ids"
        using Suc.prems count(1) by (intro Suc.IH) (auto simp: bi)
      then show ?thesis using r Inr b bi(1) False by auto
    qed
  qed simp
qed simp

text \<open>
  Dispatching. When in every round a slot becomes free or the context ends, \<open>Dispatch\<close> of
  positive, pairwise different IDs always returns, with exactly one result per message in the
  order of the call, whatever the database and the handlers do; other IDs are refused without
  touching the table.
\<close>

theorem dispatch_answers_all:
  assumes "begin_call ctx (Some ox) = None" and "1 \<le> BatchSize (fst (o_config ox))"
    and "\<forall>k. de_ctx_ended (ev k) \<or> int (de_others (ev k)) < WorkerCount (fst (o_config ox))"
  shows "if (\<forall>i \<in> set ids. 0 < i) \<and> distinct ids
         then \<exists>rs t'. Dispatch ctx ev run ids (Some ox) t = Some (Inr rs, t') \<and> map r_id rs = ids
         else Dispatch ctx ev run ids (Some ox) t = Some (Inl ErrInvalidArgument, t)"
proof (cases "(\<forall>i \<in> set ids. 0 < i) \<and> distinct ids")
  case True
  obtain rs ox' t' where d: "dispatch_from (length ids) ev run ids ox t = Some (rs, ox', t')" "map r_id rs = ids"
    using dispatch_from_returns [OF order_refl assms(2,3)] by blast
  have "\<not> ((\<exists>i \<in> set ids. i \<le> 0) \<or> \<not> distinct ids)" using True by force
  then have "Dispatch ctx ev run ids (Some ox) t = Some (Inr rs, t')"
    using assms(1) d(1) unfolding Dispatch_def dispatch_def by simp
  then show ?thesis using True d(2) by simp
next
  case False
  then have "(\<exists>i \<in> set ids. i \<le> 0) \<or> \<not> distinct ids" by force
  then have "Dispatch ctx ev run ids (Some ox) t = Some (Inl ErrInvalidArgument, t)"
    using assms(1) unfolding Dispatch_def by simp
  then show ?thesis using False by simp
qed

definition demo_outbox :: "nat outbox" where
  "demo_outbox = \<lparr>o_config = (with_defaults demo_config, 20), o_handlers = [''mail'' \<mapsto> 0], o_driver = MySQL, o_node = ''n'', o_ctx_done = False,
     o_closed = False, o_slots = 0, o_jobs = [], o_wake = False, o_leases = [], o_cursor = 0, o_lastCleanup = 0\<rparr>"

definition demo_round :: disp_env where
  "demo_round = \<lparr>de_others = 3, de_ctx_ended = False,
     de_claim = \<lparr>ce_flt = (\<lambda>_. None), ce_now = 2000, ce_locked = (\<lambda>_. False), ce_token = ''t'', ce_commit = CommitOk\<rparr>,
     de_exec = (\<lambda>_. \<lparr>ex_before = None, ex_after = None, ex_found = True, ex_exec = CommitOk, ex_rows = None, ex_now = 2100, ex_now2 = 2100,
       ex_rnd = 0\<rparr>), de_get = (\<lambda>_. None)\<rparr>"

definition demo_run :: "nat \<Rightarrow> message \<Rightarrow> handler_result" where
  "demo_run h m = HandlerReturns None"

theorem dispatch_answers_all_witness:
  "begin_call (Some False) (Some demo_outbox) = None
   \<and> (\<exists>rs t'. Dispatch (Some False) (\<lambda>_. demo_round) demo_run [4, 9] (Some demo_outbox) [] = Some (Inr rs, t') \<and> map r_id rs = [4, 9])"
proof -
  have b: "begin_call (Some False) (Some demo_outbox) = None" by (simp add: begin_call_def demo_outbox_def)
  have n: "1 \<le> BatchSize (fst (o_config demo_outbox))" by code_simp
  have "WorkerCount (fst (o_config demo_outbox)) = 4" by code_simp
  then have f: "\<forall>k. de_ctx_ended demo_round \<or> int (de_others demo_round) < WorkerCount (fst (o_config demo_outbox))"
    by (simp add: demo_round_def)
  show ?thesis using dispatch_answers_all [OF b n f, of "[4, 9]" demo_run "[]"] b by simp
qed

section \<open>Transactions\<close>

lemma dispatch_from_ids: "dispatch_from n ev run ids ox t = Some (rs, ox', t') \<Longrightarrow> map r_id rs = ids"
proof (induction n arbitrary: ids ox t rs ox' t')
  case (Suc n)
  show ?case
  proof (cases "ids = []")
    case False
    obtain r o1 where r: "reserve (de_ctx_ended (ev n)) (min (int (length ids)) (BatchSize (fst (o_config ox)))) True
        (ox\<lparr>o_slots := de_others (ev n)\<rparr>) = Some (r, o1)"
      using Suc.prems False by (auto split: option.splits)
    show ?thesis
    proof (cases r)
      case (Inl er)
      then show ?thesis using Suc.prems r False by (auto simp: comp_def)
    next
      case (Inr count)
      obtain res o3 t3 where b: "dispatch_batch (ev n) run count (take count ids) o1 t = (res, o3, t3)" by (rule prod_cases3)
      obtain rest o4 t4 where d: "dispatch_from n ev run (drop count ids) o3 t3 = Some (rest, o4, t4)" and rs: "rs = res @ rest"
        using Suc.prems r Inr b False by (auto split: option.splits)
      show ?thesis using Suc.IH [OF d] dispatch_batch_ids [OF b] by (simp add: rs)
    qed
  qed (use Suc.prems in auto)
qed (auto split: if_splits)

definition call_id :: "bool option \<times> ins_env \<times> message \<Rightarrow> int64" where
  "call_id = (\<lambda>(ctx, ie, m). in_id ie)"

definition call_row :: "bool option \<times> ins_env \<times> message \<Rightarrow> msg_row" where
  "call_row = (\<lambda>(ctx, ie, m). new_row (in_id ie) (in_shard ie) (in_now ie) m)"

definition call_valid :: "'h outbox \<Rightarrow> bool option \<times> ins_env \<times> message \<Rightarrow> bool" where
  "call_valid ox = (\<lambda>(ctx, ie, m). begin_call ctx (Some ox) = None \<and> validateMessage ox m = Inr () \<and> in_flt ie = None)"

lemma run_calls_Cons:
  "run_calls_tx ox ((ctx, ie, m) # cs) x = run_calls_tx ox cs (case snd (Enqueue ox ctx ie m (Some x)) of None \<Rightarrow> x | Some x' \<Rightarrow> x')"
  by (simp add: run_calls_tx_def)

lemma run_calls_sticky: "tx_err x = Some e \<Longrightarrow> run_calls_tx ox cs x = x"
  by (induction cs) (auto simp: run_calls_tx_def Enqueue_def)

lemma enqueue_ok:
  assumes "\<not> tx_closed x" and "tx_err x = None"
  shows "(\<exists>e t. snd (Enqueue ox ctx ie m (Some x)) = Some (x\<lparr>tx_table := t, tx_err := Some e\<rparr>))
     \<or> (call_valid ox (ctx, ie, m) \<and> in_id ie \<notin> ID ` set (tx_table x)
         \<and> snd (Enqueue ox ctx ie m (Some x)) = Some (x\<lparr>tx_table := tx_table x @ [call_row (ctx, ie, m)], tx_ids := tx_ids x @ [in_id ie]\<rparr>))"
proof (cases "EnqueueTx ctx ie (Some (o_driver ox)) m (Some ox) (tx_table x)")
  case (Pair r t')
  show ?thesis
  proof (cases r)
    case (Inl e)
    then have "snd (Enqueue ox ctx ie m (Some x)) = Some (x\<lparr>tx_table := t', tx_err := Some e\<rparr>)"
      using Pair assms by (simp add: Enqueue_def)
    then show ?thesis by blast
  next
    case (Inr i)
    have v: "call_valid ox (ctx, ie, m)" "in_id ie \<notin> ID ` set (tx_table x)" "i = in_id ie" "t' = tx_table x @ [call_row (ctx, ie, m)]"
      using Pair Inr
      by (auto simp: EnqueueTx_def call_valid_def call_row_def insert_msg_def split: option.splits sum.splits if_splits)
    have "snd (Enqueue ox ctx ie m (Some x)) = Some (x\<lparr>tx_table := t', tx_ids := tx_ids x @ [i]\<rparr>)"
      using Pair Inr assms by (simp add: Enqueue_def)
    then show ?thesis using v by simp
  qed
qed

lemma run_calls_all:
  assumes "tx_err (run_calls_tx ox cs x) = None" and "\<not> tx_closed x"
  shows "tx_table (run_calls_tx ox cs x) = tx_table x @ map call_row cs \<and> tx_ids (run_calls_tx ox cs x) = tx_ids x @ map call_id cs
     \<and> list_all (call_valid ox) cs \<and> distinct (map call_id cs) \<and> call_id ` set cs \<inter> ID ` set (tx_table x) = {}"
  using assms
proof (induction cs arbitrary: x)
  case (Cons call cs)
  obtain ctx ie m where call: "call = (ctx, ie, m)" by (rule prod_cases3)
  have e0: "tx_err x = None" using Cons.prems(1) run_calls_sticky [of x _ ox "call # cs"] by (cases "tx_err x") simp_all
  let ?y = "x\<lparr>tx_table := tx_table x @ [call_row call], tx_ids := tx_ids x @ [in_id ie]\<rparr>"
  have step: "call_valid ox call \<and> in_id ie \<notin> ID ` set (tx_table x) \<and> run_calls_tx ox (call # cs) x = run_calls_tx ox cs ?y"
    using enqueue_ok [OF Cons.prems(2) e0, of ox ctx ie m] Cons.prems(1)
    by (auto simp: call run_calls_Cons run_calls_sticky)
  have "ID (call_row call) = in_id ie" "call_id call = in_id ie" by (simp_all add: call call_row_def call_id_def new_row_def)
  then show ?case using Cons.IH [of ?y] Cons.prems step by auto
qed (simp add: run_calls_tx_def)

text \<open>
  Transactions (C15). When \<open>Transaction\<close> returns results, the callback returned nil, every one of its
  calls of \<open>Enqueue\<close> was valid, all their messages were stored with new, pairwise different IDs, and
  the results are those of dispatching exactly these messages in order. When it returns an error the
  table is unchanged (unless a COMMIT was applied without an answer): one refused message is enough,
  even when the callback ignores the error.
\<close>

theorem outbox_transaction_atomic:
  assumes "Transaction ctx flt c ev run (Some b) (Some ox) t = Some (r, t')"
  shows "case r of
      Inl e \<Rightarrow> t' = t \<or> (\<exists>e. c = CommitErr e True)
    | Inr rs \<Rightarrow> b_result b = None \<and> list_all (call_valid ox) (b_calls b)
        \<and> distinct (map call_id (b_calls b)) \<and> call_id ` set (b_calls b) \<inter> ID ` set t = {}
        \<and> (\<exists>ox'. dispatch ev run (map call_id (b_calls b)) ox (t @ map call_row (b_calls b)) = Some (rs, ox', t'))
        \<and> map r_id rs = map call_id (b_calls b)"
proof -
  let ?x = "run_calls_tx ox (b_calls b) \<lparr>tx_table = t, tx_ids = [], tx_err = None, tx_closed = False\<rparr>"
  show ?thesis
  proof (cases r)
    case (Inl e)
    then show ?thesis using assms
      by (auto simp: Transaction_def Let_def split: option.splits commit_outcome.splits if_splits prod.splits)
  next
    case (Inr rs)
    have ok: "b_result b = None" "tx_err ?x = None" and d: "\<exists>ox'. dispatch ev run (tx_ids ?x) ox (tx_table ?x) = Some (rs, ox', t')"
      using assms Inr by (auto simp: Transaction_def Let_def split: option.splits commit_outcome.splits if_splits prod.splits)
    note all = run_calls_all [OF ok(2)]
    then have "tx_ids ?x = map call_id (b_calls b)" "tx_table ?x = t @ map call_row (b_calls b)" by simp_all
    moreover from this d have "map r_id rs = map call_id (b_calls b)"
      by (auto simp: dispatch_def split: option.splits prod.splits dest: dispatch_from_ids)
    ultimately show ?thesis using all d ok(1) by (simp add: Inr)
  qed
qed

definition demo_business :: business where
  "demo_business = \<lparr>b_calls = [(Some False, \<lparr>in_id = 7, in_shard = 3, in_now = 1000, in_flt = None\<rparr>,
      \<lparr>ID = 0, Type = ''mail'', Payload = ''1'', Attempts = 0\<rparr>)], b_result = None\<rparr>"

definition demo_late :: disp_env where
  "demo_late = demo_round\<lparr>de_ctx_ended := True\<rparr>"

lemma outbox_demo_transaction:
  "Transaction (Some False) None CommitOk (\<lambda>_. demo_late) demo_run (Some demo_business) (Some demo_outbox) []
     = Some (Inr [\<lparr>r_id = 7, r_status = StatusPending, r_attempt_error = True\<rparr>],
         [new_row 7 3 1000 \<lparr>ID = 0, Type = ''mail'', Payload = ''1'', Attempts = 0\<rparr>])"
proof -
  have v: "validateMessage demo_outbox \<lparr>ID = 0, Type = ''mail'', Payload = ''1'', Attempts = 0\<rparr> = Inr ()"
    using plain_name [of "CHR ''m''" "''ail''"] not_blank_ascii [of "CHR ''1''" "[]"]
    by (simp add: validateMessage_def validateType_def demo_outbox_def byte_def is_space_def)
  have b: "BatchSize (fst (o_config demo_outbox)) = 100" by code_simp
  show ?thesis
    by (simp add: Transaction_def begin_call_def demo_business_def run_calls_tx_def Enqueue_def EnqueueTx_def v insert_msg_def
        dispatch_def reserve_def Let_def b demo_late_def)
       (simp add: demo_outbox_def)
qed

theorem outbox_transaction_atomic_witness:
  "list_all (call_valid demo_outbox) (b_calls demo_business)
   \<and> (\<exists>ox'. dispatch (\<lambda>_. demo_late) demo_run [7] demo_outbox (map call_row (b_calls demo_business))
         = Some ([\<lparr>r_id = 7, r_status = StatusPending, r_attempt_error = True\<rparr>], ox', map call_row (b_calls demo_business)))"
  using outbox_transaction_atomic [OF outbox_demo_transaction] by (simp add: demo_business_def call_id_def call_row_def)

end
