(* ===== verification/Kc_Balancer.thy ===== *)
theory Kc_Balancer
  imports Kc_Prelude
begin

text \<open>
  The service cache and load balancer of \<open>src/pkg/registry/etcd/balancer.go\<close>: the topology (a map
  from instance IDs to states and the dense slice the sampling uses), revision-ordered updates,
  power-of-two-choices selection with ejection and half-open probing, and result reports.

  Instance states are shared by pointer between the cache and the resolutions handed out, so they
  live in a store: \<open>heap\<close> maps addresses to them, \<open>top\<close> is the next free address. Times are Unix
  nanoseconds. The smoothed latency is computed with floats that Go may fuse, so its next value is
  an argument (\<open>mix\<close>).
\<close>

type_synonym addr = nat

record Instance =
  Service :: string
  ID :: string
  Endpoint :: string
  Metadata :: "(string \<times> string) list"

record instanceState =
  inst :: Instance
  index :: nat
  ewma :: int64
  inflight :: int64
  failures :: int32
  ejectedUntil :: int64
  halfOpen :: bool

definition newInstanceState :: "Instance \<Rightarrow> duration \<Rightarrow> instanceState" where
  "newInstanceState i initialLatency =
     \<lparr>inst = i, index = 0, ewma = initialLatency, inflight = 0, failures = 0, ejectedUntil = 0, halfOpen = False\<rparr>"

record serviceState =
  heap :: "addr \<Rightarrow> instanceState"
  top :: addr
  instances :: "string \<rightharpoonup> addr"
  items :: "addr list"
  revision :: int64
  lastUsed :: int64
  active :: int64
  rng :: "64 word"

text \<open>\<open>clock\<close> is the reading of \<open>time.Now().UnixNano()\<close>, \<open>name\<close> the service name.\<close>

definition newServiceState :: "int64 \<Rightarrow> string \<Rightarrow> serviceState" where
  "newServiceState clock name =
     (let seed = (word_of_int clock :: 64 word) XOR (of_nat (length name) * 0x9e3779b97f4a7c15);
          seed1 = (if seed = 0 then 1 else seed) in
      \<lparr>heap = (\<lambda>_. newInstanceState \<lparr>Service = [], ID = [], Endpoint = [], Metadata = []\<rparr> 0), top = 0, instances = Map.empty, items = [],
       revision = 0, lastUsed = clock, active = 0, rng = seed1\<rparr>)"

definition upd :: "addr \<Rightarrow> (instanceState \<Rightarrow> instanceState) \<Rightarrow> serviceState \<Rightarrow> serviceState" where
  "upd a f s = s\<lparr>heap := (heap s)(a := f (heap s a))\<rparr>"

definition alloc :: "instanceState \<Rightarrow> serviceState \<Rightarrow> addr \<times> serviceState" where
  "alloc item s = (top s, s\<lparr>heap := (heap s)(top s := item), top := top s + 1\<rparr>)"

section \<open>Topology\<close>

text \<open>The state of an instance survives an update that keeps its endpoint.\<close>

definition renew :: "addr option \<Rightarrow> Instance \<Rightarrow> duration \<Rightarrow> serviceState \<Rightarrow> addr \<times> serviceState" where
  "renew old i initialLatency s =
     (case old of
        None \<Rightarrow> alloc (newInstanceState i initialLatency) s
      | Some a \<Rightarrow>
          if Endpoint (inst (heap s a)) \<noteq> Endpoint i then alloc (newInstanceState i initialLatency) s
          else (a, upd a (\<lambda>x. x\<lparr>inst := i\<rparr>) s))"

fun replace_loop ::
  "(string \<rightharpoonup> addr) \<Rightarrow> duration \<Rightarrow> Instance list \<Rightarrow> serviceState \<Rightarrow> (string \<rightharpoonup> addr) \<Rightarrow> addr list
    \<Rightarrow> serviceState \<times> (string \<rightharpoonup> addr) \<times> addr list" where
  "replace_loop old lat [] s nextMap nextItems = (s, nextMap, nextItems)"
| "replace_loop old lat (i # rest) s nextMap nextItems =
     (case renew (old (ID i)) i lat s of (a, s1) \<Rightarrow>
        replace_loop old lat rest (upd a (\<lambda>x. x\<lparr>index := length nextItems\<rparr>) s1) (nextMap(ID i \<mapsto> a)) (nextItems @ [a]))"

definition replaceLocked :: "Instance list \<Rightarrow> duration \<Rightarrow> serviceState \<Rightarrow> serviceState" where
  "replaceLocked xs lat s =
     (case replace_loop (instances s) lat xs s Map.empty [] of (s1, m, its) \<Rightarrow> s1\<lparr>instances := m, items := its\<rparr>)"

definition replaceAt :: "Instance list \<Rightarrow> duration \<Rightarrow> int64 \<Rightarrow> serviceState \<Rightarrow> serviceState" where
  "replaceAt xs lat rv s = (if rv < revision s then s else (replaceLocked xs lat s)\<lparr>revision := rv\<rparr>)"

definition putLocked :: "Instance \<Rightarrow> duration \<Rightarrow> serviceState \<Rightarrow> serviceState" where
  "putLocked i lat s =
     (case instances s (ID i) of
        Some previous \<Rightarrow>
          (let k = index (heap s previous) in
           case renew (Some previous) i lat s of (a, s1) \<Rightarrow>
             (upd a (\<lambda>x. x\<lparr>index := k\<rparr>) s1)\<lparr>instances := (instances s)(ID i \<mapsto> a), items := (items s)[k := a]\<rparr>)
      | None \<Rightarrow>
          (case alloc (newInstanceState i lat) s of (a, s1) \<Rightarrow>
             (upd a (\<lambda>x. x\<lparr>index := length (items s)\<rparr>) s1)\<lparr>instances := (instances s)(ID i \<mapsto> a), items := items s @ [a]\<rparr>))"

definition putAt :: "Instance \<Rightarrow> duration \<Rightarrow> int64 \<Rightarrow> serviceState \<Rightarrow> serviceState" where
  "putAt i lat rv s = (if rv < revision s then s else (putLocked i lat s)\<lparr>revision := rv\<rparr>)"

definition removeLocked :: "string \<Rightarrow> serviceState \<Rightarrow> serviceState" where
  "removeLocked ident s =
     (case instances s ident of
        None \<Rightarrow> s
      | Some a \<Rightarrow>
          (let lst = length (items s) - 1; k = index (heap s a);
               s1 = (if k \<noteq> lst then (upd (items s ! lst) (\<lambda>x. x\<lparr>index := k\<rparr>) s)\<lparr>items := (items s)[k := items s ! lst]\<rparr> else s)
           in s1\<lparr>items := take lst (items s1), instances := (instances s)(ident := None)\<rparr>))"

definition removeAt :: "string \<Rightarrow> int64 \<Rightarrow> serviceState \<Rightarrow> serviceState" where
  "removeAt ident rv s = (if rv < revision s then s else (removeLocked ident s)\<lparr>revision := rv\<rparr>)"

definition advanceRevision :: "int64 \<Rightarrow> serviceState \<Rightarrow> serviceState" where
  "advanceRevision rv s = (if rv > revision s then s\<lparr>revision := rv\<rparr> else s)"

section \<open>Selection\<close>

definition eligible :: "int64 \<Rightarrow> instanceState \<Rightarrow> bool" where
  "eligible now x \<longleftrightarrow> ejectedUntil x = 0 \<or> (now \<ge> ejectedUntil x \<and> \<not> halfOpen x)"

definition allEjected :: "int64 \<Rightarrow> serviceState \<Rightarrow> bool" where
  "allEjected now s \<longleftrightarrow> items s \<noteq> [] \<and> list_all (\<lambda>a. \<not> eligible now (heap s a)) (items s)"

definition canEvict :: "int64 \<Rightarrow> duration \<Rightarrow> serviceState \<Rightarrow> bool" where
  "canEvict now idleTTL s \<longleftrightarrow> active s = 0 \<and> now - lastUsed s \<ge> idleTTL"

text \<open>The split-mix generator; \<open>int(x % uint64(n))\<close> for a positive \<open>n\<close>.\<close>

definition randomN :: "nat \<Rightarrow> serviceState \<Rightarrow> nat \<times> serviceState" where
  "randomN n s =
     (let x0 = rng s + 0x9e3779b97f4a7c15;
          x1 = (x0 XOR drop_bit 30 x0) * 0xbf58476d1ce4e5b9;
          x2 = (x1 XOR drop_bit 27 x1) * 0x94d049bb133111eb;
          x3 = x2 XOR drop_bit 31 x2
      in (unat x3 mod n, s\<lparr>rng := x0\<rparr>))"

definition random_index :: "(nat \<Rightarrow> nat) option \<Rightarrow> nat \<Rightarrow> serviceState \<Rightarrow> nat \<times> serviceState" where
  "random_index randN n s = (case randN of None \<Rightarrow> randomN n s | Some f \<Rightarrow> (f n, s))"

text \<open>The sampling loop, with the attempts left.\<close>

fun sample ::
  "nat \<Rightarrow> int64 \<Rightarrow> (nat \<Rightarrow> nat) option \<Rightarrow> serviceState \<Rightarrow> addr option \<Rightarrow> addr option \<Rightarrow> addr option \<times> addr option \<times> serviceState" where
  "sample 0 now randN s first sec = (first, sec, s)"
| "sample (Suc k) now randN s first sec =
     (if first = None \<or> (sec = None \<and> length (items s) > 1) then
        (case random_index randN (length (items s)) s of (j, s1) \<Rightarrow>
         let a = items s ! j in
         if \<not> eligible now (heap s a) then sample k now randN s1 first sec
         else case first of
             None \<Rightarrow> sample k now randN s1 (Some a) sec
           | Some x \<Rightarrow> sample k now randN s1 first (if a \<noteq> x then Some a else sec))
      else (first, sec, s))"

fun scan_items :: "int64 \<Rightarrow> (addr \<Rightarrow> instanceState) \<Rightarrow> addr list \<Rightarrow> addr option \<Rightarrow> addr option \<Rightarrow> addr option \<times> addr option" where
  "scan_items now h [] first sec = (first, sec)"
| "scan_items now h (a # rest) first sec =
     (if \<not> eligible now (h a) then scan_items now h rest first sec
      else case first of
          None \<Rightarrow> scan_items now h rest (Some a) sec
        | Some x \<Rightarrow> if a \<noteq> x then (first, Some a) else scan_items now h rest first sec)"

text \<open>Fail open: the instance whose ejection ends first, unless it is being probed.\<close>

fun least_ejected :: "(addr \<Rightarrow> instanceState) \<Rightarrow> addr list \<Rightarrow> addr option \<Rightarrow> addr option" where
  "least_ejected h [] first = first"
| "least_ejected h (a # rest) first =
     (if halfOpen (h a) then least_ejected h rest first
      else case first of
          None \<Rightarrow> least_ejected h rest (Some a)
        | Some x \<Rightarrow> least_ejected h rest (if ejectedUntil (h a) < ejectedUntil (h x) then Some a else first))"

text \<open>The conversion of an integer to \<open>float64\<close> (53 bits, ties to even) and the product of two such.\<close>

fun bit_len :: "nat \<Rightarrow> nat" where
  "bit_len n = (if n = 0 then 0 else Suc (bit_len (n div 2)))"

declare bit_len.simps [simp del]

definition round53 :: "nat \<Rightarrow> nat" where
  "round53 n =
     (if bit_len n \<le> 53 then n
      else let e = bit_len n - 53; q = n div 2 ^ e; r = n mod 2 ^ e; half = 2 ^ (e - 1) in
        (if r > half \<or> (r = half \<and> odd q) then q + 1 else q) * 2 ^ e)"

definition float64 :: "int \<Rightarrow> int" where
  "float64 x = (if x < 0 then - int (round53 (nat (- x))) else int (round53 (nat x)))"

definition score :: "instanceState \<Rightarrow> int" where
  "score x = float64 (float64 (ewma x) * float64 (i64 (inflight x + 1)))"

text \<open>
  \<open>reserve\<close>, also the fast path of \<open>pick\<close>: an expired ejection is claimed by setting half-open. This is the
  effect of the call when no other caller comes between its atomic operations, as is \<open>complete\<close> below;
  \<open>Kc_Balancer_Calls\<close> has the operations one by one and derives these two from them.
\<close>

definition reserve :: "addr \<Rightarrow> int64 \<Rightarrow> serviceState \<Rightarrow> serviceState option" where
  "reserve a now s =
     (let x = heap s a in
      if ejectedUntil x \<noteq> 0 \<and> now \<ge> ejectedUntil x then
        (if halfOpen x then None else Some (upd a (\<lambda>x. x\<lparr>halfOpen := True, inflight := i64 (inflight x + 1)\<rparr>) s))
      else Some (upd a (\<lambda>x. x\<lparr>inflight := i64 (inflight x + 1)\<rparr>) s))"

text \<open>
  \<open>pick\<close> holds the read lock, so the topology is stable, but other callers may claim instances
  between the selection and the claim: \<open>between\<close> is what they do to the instance states.
\<close>

definition pick_select :: "int64 \<Rightarrow> (nat \<Rightarrow> nat) option \<Rightarrow> serviceState \<Rightarrow> (addr option \<times> addr option \<times> bool) \<times> serviceState" where
  "pick_select now randN s =
     (case sample 8 now randN s None None of (f1, s1, st) \<Rightarrow>
      case (if f1 = None \<or> (s1 = None \<and> length (items s) > 1) then scan_items now (heap s) (items s) f1 s1 else (f1, s1)) of (f2, s2) \<Rightarrow>
      ((if f2 = None then least_ejected (heap s) (items s) None else f2, s2, f2 = None), st))"

definition pick_claim :: "int64 \<Rightarrow> addr \<Rightarrow> addr option \<Rightarrow> serviceState \<Rightarrow> addr option \<times> serviceState" where
  "pick_claim now first sec s =
     (let chosen = (case sec of Some b \<Rightarrow> if score (heap s b) < score (heap s first) then b else first | None \<Rightarrow> first) in
      case reserve chosen now s of
        Some s' \<Rightarrow> (Some chosen, s'\<lparr>lastUsed := now\<rparr>)
      | None \<Rightarrow>
          (case sec of None \<Rightarrow> (None, s) | Some b \<Rightarrow>
           (case reserve b now s of None \<Rightarrow> (None, s) | Some s' \<Rightarrow> (Some b, s'\<lparr>lastUsed := now\<rparr>))))"

definition pick ::
  "int64 \<Rightarrow> (nat \<Rightarrow> nat) option \<Rightarrow> (serviceState \<Rightarrow> serviceState) \<Rightarrow> serviceState \<Rightarrow> (addr option \<times> bool) \<times> serviceState" where
  "pick now randN between s =
     (if items s = [] then ((None, False), s)
      else case pick_select now randN s of ((first, sec, all), s1) \<Rightarrow>
        (case first of None \<Rightarrow> ((None, True), s1)
         | Some f \<Rightarrow> (case pick_claim now f sec (between s1) of (r, s2) \<Rightarrow> ((r, all), s2))))"

section \<open>Reports\<close>

definition i32 :: "int \<Rightarrow> int32" where
  "i32 x = signed_take_bit 31 x"

record resolution =
  selected :: addr
  r_instance :: Instance
  ejectionDuration :: duration
  failureThreshold :: int32
  reported :: bool

definition newResolution :: "addr \<Rightarrow> duration \<Rightarrow> int \<Rightarrow> serviceState \<Rightarrow> resolution" where
  "newResolution a ejection threshold s =
     \<lparr>selected = a, r_instance = inst (heap s a), ejectionDuration = ejection, failureThreshold = i32 threshold, reported = False\<rparr>"

record Result =
  Outcome :: nat
  Latency :: duration

definition OutcomeSuccess :: nat where "OutcomeSuccess = 0"
definition OutcomeFailure :: nat where "OutcomeFailure = 1"

datatype registry_error = ErrInvalidInstance | ErrInvalidResult | ErrNoAvailableInstance | ErrClosed | ErrAlreadyReported
  | ErrInvalidService | ErrInvalidTTL | ErrContext | ErrClient string

definition validResult :: "Result \<Rightarrow> bool" where
  "validResult r \<longleftrightarrow> (Outcome r = OutcomeSuccess \<or> Outcome r = OutcomeFailure) \<and> Latency r > 0"

text \<open>\<open>complete\<close> without interruption; a nil result abandons the resolution.\<close>

definition complete ::
  "(int64 \<Rightarrow> duration \<Rightarrow> int64) \<Rightarrow> Result option \<Rightarrow> int64 \<Rightarrow> resolution \<Rightarrow> serviceState \<Rightarrow> serviceState" where
  "complete mix result now r s =
     (let a = selected r;
          s1 = upd a (\<lambda>x. if inflight x \<le> 0 then x else x\<lparr>inflight := inflight x - 1\<rparr>) s in
      if \<not> (instances s1 (ID (r_instance r)) = Some a \<and> Endpoint (inst (heap s1 a)) = Endpoint (r_instance r)) then s1
      else case result of
        None \<Rightarrow> if halfOpen (heap s1 a) then upd a (\<lambda>x. x\<lparr>halfOpen := False, ejectedUntil := i64 (now + ejectionDuration r)\<rparr>) s1 else s1
      | Some res \<Rightarrow>
          (let s2 = upd a (\<lambda>x. x\<lparr>ewma := mix (ewma x) (Latency res)\<rparr>) s1 in
           if Outcome res = OutcomeSuccess then upd a (\<lambda>x. x\<lparr>failures := 0, ejectedUntil := 0, halfOpen := False\<rparr>) s2
           else
             (let n = i32 (failures (heap s2 a) + 1); s3 = upd a (\<lambda>x. x\<lparr>failures := n\<rparr>) s2 in
              if halfOpen (heap s3 a) \<or> n \<ge> failureThreshold r
              then upd a (\<lambda>x. x\<lparr>failures := 0, halfOpen := False, ejectedUntil := i64 (now + ejectionDuration r)\<rparr>) s3
              else s3)))"

definition Report ::
  "(int64 \<Rightarrow> duration \<Rightarrow> int64) \<Rightarrow> Result \<Rightarrow> int64 \<Rightarrow> resolution \<Rightarrow> serviceState \<Rightarrow> registry_error option \<times> resolution \<times> serviceState" where
  "Report mix result now r s =
     (if \<not> validResult result then (Some ErrInvalidResult, r, s)
      else if reported r then (Some ErrAlreadyReported, r, s)
      else (None, r\<lparr>reported := True\<rparr>, complete mix (Some result) now r s))"

end
