(* ===== verification/Kc_Balancer_Topology.thy ===== *)
theory Kc_Balancer_Topology
  imports Kc_Balancer
begin

text \<open>
  The topology of the service cache: the map and the dense slice stay consistent under snapshots, puts
  and removals, and together they represent a partial function from IDs to instances, which every
  operation changes as its abstract counterpart does.
\<close>

section \<open>The contract of a revisioned cache\<close>

datatype event = Put Instance | Del string | Snapshot "Instance list" | Barrier

definition event_ok :: "event \<Rightarrow> bool" where
  "event_ok e = (case e of Snapshot xs \<Rightarrow> distinct (map ID xs) | _ \<Rightarrow> True)"

fun spec_event :: "event \<Rightarrow> (string \<rightharpoonup> Instance) \<Rightarrow> string \<rightharpoonup> Instance" where
  "spec_event (Put i) m = m(ID i \<mapsto> i)"
| "spec_event (Del x) m = m(x := None)"
| "spec_event (Snapshot xs) m = map_of (map (\<lambda>i. (ID i, i)) xs)"
| "spec_event Barrier m = m"

text \<open>An event older than the last one applied is ignored.\<close>

definition spec_step :: "event \<times> int64 \<Rightarrow> int64 \<times> (string \<rightharpoonup> Instance) \<Rightarrow> int64 \<times> (string \<rightharpoonup> Instance)" where
  "spec_step x st = (if snd x < fst st then st else (snd x, spec_event (fst x) (snd st)))"

locale revisioned_cache =
  fixes invar :: "'s \<Rightarrow> bool"
    and view :: "'s \<Rightarrow> string \<rightharpoonup> Instance"
    and rvn :: "'s \<Rightarrow> int64"
    and apply_event :: "event \<Rightarrow> int64 \<Rightarrow> 's \<Rightarrow> 's"
  assumes apply_invar: "invar s \<Longrightarrow> event_ok e \<Longrightarrow> invar (apply_event e n s)"
    and apply_view: "invar s \<Longrightarrow> event_ok e \<Longrightarrow> \<not> n < rvn s \<Longrightarrow> view (apply_event e n s) = spec_event e (view s)"
    and apply_rvn: "invar s \<Longrightarrow> rvn (apply_event e n s) = max n (rvn s)"
    and apply_stale: "invar s \<Longrightarrow> n < rvn s \<Longrightarrow> view (apply_event e n s) = view s"
begin

lemma apply_refines:
  assumes "invar s" and "event_ok e"
  shows "(rvn (apply_event e n s), view (apply_event e n s)) = spec_step (e, n) (rvn s, view s)"
  using assms apply_view apply_rvn apply_stale by (auto simp: spec_step_def max_def)

lemma history_refines:
  assumes "invar s" and "\<forall>x \<in> set xs. event_ok (fst x)"
  shows "invar (fold (\<lambda>x. apply_event (fst x) (snd x)) xs s)
     \<and> (rvn (fold (\<lambda>x. apply_event (fst x) (snd x)) xs s), view (fold (\<lambda>x. apply_event (fst x) (snd x)) xs s))
        = fold spec_step xs (rvn s, view s)"
  using assms
proof (induction xs arbitrary: s)
  case (Cons x xs)
  have i: "invar (apply_event (fst x) (snd x) s)" using Cons.prems by (intro apply_invar) auto
  have "(rvn (apply_event (fst x) (snd x) s), view (apply_event (fst x) (snd x) s)) = spec_step x (rvn s, view s)"
    using apply_refines [of s "fst x" "snd x"] Cons.prems by simp
  then show ?case using Cons.IH [OF i] Cons.prems(2) by simp
qed simp

end

section \<open>The invariant\<close>

definition slice_ok :: "(addr \<Rightarrow> instanceState) \<Rightarrow> addr \<Rightarrow> (string \<rightharpoonup> addr) \<Rightarrow> addr list \<Rightarrow> bool" where
  "slice_ok h n m its \<longleftrightarrow>
     distinct its \<and> (\<forall>a \<in> set its. a < n) \<and> (\<forall>k < length its. index (h (its ! k)) = k)
     \<and> (\<forall>x a. m x = Some a \<longleftrightarrow> a \<in> set its \<and> ID (inst (h a)) = x)"

definition topo_ok :: "serviceState \<Rightarrow> bool" where
  "topo_ok s \<longleftrightarrow> slice_ok (heap s) (top s) (instances s) (items s)"

definition view :: "serviceState \<Rightarrow> string \<rightharpoonup> Instance" where
  "view s x = map_option (\<lambda>a. inst (heap s a)) (instances s x)"

lemma slice_okD:
  assumes "slice_ok h n m its"
  shows "distinct its" and "a \<in> set its \<Longrightarrow> a < n" and "k < length its \<Longrightarrow> index (h (its ! k)) = k"
    and "m x = Some a \<longleftrightarrow> a \<in> set its \<and> ID (inst (h a)) = x"
  using assms unfolding slice_ok_def by blast+

lemma slice_index:
  assumes "slice_ok h n m its" and "a \<in> set its"
  shows "index (h a) < length its \<and> its ! index (h a) = a"
  using assms slice_okD(3) [OF assms(1)] by (auto simp: in_set_conv_nth)

lemma slice_inj: "slice_ok h n m its \<Longrightarrow> inj_on (\<lambda>a. ID (inst (h a))) (set its)"
  by (rule inj_onI) (metis slice_okD(4) option.inject)

text \<open>Replacing the element of one slot by itself, updated, or by a fresh one with the same ID.\<close>

lemma slice_update:
  assumes ok: "slice_ok h n m its" and k: "k < length its" and a: "a = its ! k \<or> a = n"
    and h': "\<And>b. b \<noteq> a \<Longrightarrow> h' b = h b" and i: "index (h' a) = k" "ID (inst (h' a)) = ID (inst (h (its ! k)))" and n: "n \<le> n'" "a < n'"
  shows "slice_ok h' n' (m(ID (inst (h' a)) \<mapsto> a)) (its[k := a])"
  unfolding slice_ok_def
proof (intro conjI)
  note D = slice_okD [OF ok]
  have na: "b \<noteq> a" if "b \<in> set its" "b \<noteq> its ! k" for b using a D(2) that by auto
  have set: "set (its[k := a]) = insert a (set its - {its ! k})" using set_update_distinct [OF D(1) k] .
  show "distinct (its[k := a])" using D(1) k na by (intro distinct_list_update) auto
  show "\<forall>b \<in> set (its[k := a]). b < n'" using set D(2) n by force
  show "\<forall>j < length (its[k := a]). index (h' (its[k := a] ! j)) = j"
  proof (intro allI impI)
    fix j assume j: "j < length (its[k := a])"
    show "index (h' (its[k := a] ! j)) = j"
    proof (cases "j = k")
      case False
      then have "its ! j \<noteq> its ! k" using D(1) j k by (simp add: nth_eq_iff_index_eq)
      then show ?thesis using False j na [of "its ! j"] D(3) [of j] h' by simp
    qed (use i k in simp)
  qed
  show "\<forall>x b. (m(ID (inst (h' a)) \<mapsto> a)) x = Some b \<longleftrightarrow> b \<in> set (its[k := a]) \<and> ID (inst (h' b)) = x"
  proof (intro allI)
    fix x b
    have mk: "m (ID (inst (h' a))) = Some (its ! k)" using D(4) k i(2) by simp
    show "(m(ID (inst (h' a)) \<mapsto> a)) x = Some b \<longleftrightarrow> b \<in> set (its[k := a]) \<and> ID (inst (h' b)) = x"
    proof (cases "b = a")
      case False
      have "b \<in> set its \<Longrightarrow> b \<noteq> its ! k \<Longrightarrow> ID (inst (h b)) \<noteq> ID (inst (h' a))"
        using mk D(4) [of "ID (inst (h' a))" b] by auto
      moreover have "m x = Some (its ! k) \<longleftrightarrow> x = ID (inst (h' a))" using D(4) [of x "its ! k"] k i(2) by auto
      ultimately show ?thesis using False h' [OF False] D(4) [of x b] set by auto
    next
      case True
      have "m x = Some a \<Longrightarrow> x = ID (inst (h' a))" using D(2) [of a] D(4) [of x a] a i(2) by auto
      then show ?thesis using True set by auto
    qed
  qed
qed

lemma slice_append:
  assumes ok: "slice_ok h n m its" and a: "a \<notin> set its" "m (ID (inst (h' a))) = None"
    and h': "\<And>b. b \<noteq> a \<Longrightarrow> h' b = h b" and i: "index (h' a) = length its" and n: "n \<le> n'" "a < n'"
  shows "slice_ok h' n' (m(ID (inst (h' a)) \<mapsto> a)) (its @ [a])"
  unfolding slice_ok_def
proof (intro conjI)
  note D = slice_okD [OF ok]
  have hb: "h' b = h b" if "b \<in> set its" for b using h' [of b] a(1) that by metis
  show "distinct (its @ [a])" using D(1) a(1) by simp
  show "\<forall>b \<in> set (its @ [a]). b < n'" using D(2) n by force
  show "\<forall>j < length (its @ [a]). index (h' ((its @ [a]) ! j)) = j"
    using D(3) i hb by (auto simp: nth_append less_Suc_eq)
  show "\<forall>x b. (m(ID (inst (h' a)) \<mapsto> a)) x = Some b \<longleftrightarrow> b \<in> set (its @ [a]) \<and> ID (inst (h' b)) = x"
  proof (intro allI)
    fix x b
    show "(m(ID (inst (h' a)) \<mapsto> a)) x = Some b \<longleftrightarrow> b \<in> set (its @ [a]) \<and> ID (inst (h' b)) = x"
      using D(4) [of x b] D(4) [of "ID (inst (h' a))" b] a hb [of b] by (cases "b = a") auto
  qed
qed

section \<open>The operations\<close>

lemma renew_cases:
  assumes "renew old i lat s = (a, s1)"
  shows "(\<forall>b. b \<noteq> a \<longrightarrow> heap s1 b = heap s b) \<and> inst (heap s1 a) = i \<and> (a = top s \<and> top s1 = top s + 1 \<or> old = Some a \<and> top s1 = top s)
     \<and> instances s1 = instances s \<and> items s1 = items s \<and> revision s1 = revision s"
  using assms by (auto simp: renew_def alloc_def upd_def newInstanceState_def split: option.splits if_splits)

lemma upd_simps [simp]:
  "heap (upd a f s) = (heap s)(a := f (heap s a))" "top (upd a f s) = top s" "instances (upd a f s) = instances s"
  "items (upd a f s) = items s" "revision (upd a f s) = revision s" "lastUsed (upd a f s) = lastUsed s"
  by (simp_all add: upd_def)

lemma topo_addr: "topo_ok s \<Longrightarrow> instances s x = Some b \<Longrightarrow> b < top s \<and> b \<in> set (items s) \<and> ID (inst (heap s b)) = x"
  unfolding topo_ok_def using slice_okD(2,4) [of "heap s" "top s" "instances s" "items s"] by blast

lemma putLocked_ok:
  assumes ok: "topo_ok s"
  shows "topo_ok (putLocked i lat s) \<and> view (putLocked i lat s) = (view s)(ID i \<mapsto> i)"
proof (cases "instances s (ID i)")
  case None
  let ?a = "top s" and ?h = "(heap s)(top s := (newInstanceState i lat)\<lparr>index := length (items s)\<rparr>)"
  note D = slice_okD [OF ok [unfolded topo_ok_def]]
  have p: "putLocked i lat s = s\<lparr>heap := ?h, top := top s + 1, instances := (instances s)(ID i \<mapsto> ?a), items := items s @ [?a]\<rparr>"
    using None by (simp add: putLocked_def alloc_def upd_def)
  have ii: "ID (inst (?h ?a)) = ID i" by (simp add: newInstanceState_def)
  have "slice_ok ?h (top s + 1) ((instances s)(ID (inst (?h ?a)) \<mapsto> ?a)) (items s @ [?a])"
    by (rule slice_append [OF ok [unfolded topo_ok_def]]) (use D(2) None ii in \<open>auto\<close>)
  moreover have "view (putLocked i lat s) x = ((view s)(ID i \<mapsto> i)) x" for x
    using topo_addr [OF ok, of x] by (cases "instances s x") (auto simp: p view_def newInstanceState_def)
  ultimately show ?thesis using ii by (simp add: p topo_ok_def fun_eq_iff)
next
  case (Some prev)
  note D = slice_okD [OF ok [unfolded topo_ok_def]]
  obtain a s1 where r: "renew (Some prev) i lat s = (a, s1)" by fastforce
  note R = renew_cases [OF r]
  let ?k = "index (heap s prev)" and ?h = "(heap s1)(a := (heap s1 a)\<lparr>index := index (heap s prev)\<rparr>)"
  have p: "putLocked i lat s = s1\<lparr>heap := ?h, instances := (instances s)(ID i \<mapsto> a), items := (items s)[?k := a]\<rparr>"
    using Some r by (simp add: putLocked_def upd_def Let_def)
  have pv: "prev \<in> set (items s)" "ID (inst (heap s prev)) = ID i" using D(4) Some by auto
  then have k: "?k < length (items s)" "items s ! ?k = prev" using slice_index [OF ok [unfolded topo_ok_def]] by auto
  have ii: "ID (inst (?h a)) = ID i" using R by simp
  have "slice_ok ?h (top s1) ((instances s)(ID (inst (?h a)) \<mapsto> a)) ((items s)[?k := a])"
    by (rule slice_update [OF ok [unfolded topo_ok_def] k(1)]) (use R k pv D(2) in auto)
  moreover have "view (putLocked i lat s) x = ((view s)(ID i \<mapsto> i)) x" for x
  proof (cases "x = ID i \<or> instances s x = None")
    case False
    then obtain b where b: "instances s x = Some b" "b \<in> set (items s)" "ID (inst (heap s b)) = x" using D(4) by auto
    then have "b \<noteq> a" using R D(2) [OF b(2)] Some False pv(2) by auto
    then show ?thesis using b R False by (simp add: p view_def)
  qed (use R in \<open>auto simp: p view_def\<close>)
  ultimately show ?thesis using ii by (simp add: p topo_ok_def fun_eq_iff)
qed

text \<open>Swap-removal: the last element moves into the hole.\<close>

lemma slice_remove:
  assumes ok: "slice_ok h n m its" and x: "m x = Some a"
    and its': "its' = (if index (h a) \<noteq> length its - 1 then its[index (h a) := its ! (length its - 1)] else its)"
    and h': "h' = (if index (h a) \<noteq> length its - 1 then h(its ! (length its - 1) := (h (its ! (length its - 1)))\<lparr>index := index (h a)\<rparr>) else h)"
  shows "slice_ok h' n (m(x := None)) (take (length its - 1) its') \<and> (\<forall>b. inst (h' b) = inst (h b))"
proof -
  note D = slice_okD [OF ok]
  let ?k = "index (h a)" and ?l = "length its - 1"
  have a: "a \<in> set its" "ID (inst (h a)) = x" using D(4) x by auto
  have k: "?k < length its" "its ! ?k = a" using slice_index [OF ok a(1)] by auto
  then have l: "?l < length its" by linarith
  have inst: "inst (h' b) = inst (h b)" for b by (simp add: h')
  have len: "length its' = length its" by (simp add: its')
  have nth: "its' ! j = (if j = ?k then its ! ?l else its ! j)" if "j < ?l" for j using that k l by (auto simp: its' nth_list_update)
  have idx: "index (h' (its' ! j)) = j" if j: "j < ?l" for j
  proof (cases "j = ?k")
    case True
    then show ?thesis using j nth [OF j] by (simp add: h')
  next
    case False
    then have "its ! j \<noteq> its ! ?l" using D(1) j l by (simp add: nth_eq_iff_index_eq)
    then show ?thesis using False j l nth [OF j] D(3) [of j] by (simp add: h')
  qed
  have dist: "distinct (take ?l its')"
    using idx len by (auto simp: distinct_conv_nth) metis
  have set: "set (take ?l its') = set its - {a}"
  proof -
    have sub: "set (take ?l its') \<subseteq> set its - {a}"
    proof
      fix b assume "b \<in> set (take ?l its')"
      then obtain j where j: "j < ?l" "b = its' ! j" using len by (auto simp: in_set_conv_nth)
      then have "b = its ! (if j = ?k then ?l else j)" using nth by simp
      moreover have "its ! (if j = ?k then ?l else j) \<noteq> its ! ?k" using D(1) j k(1) l by (simp add: nth_eq_iff_index_eq)
      ultimately show "b \<in> set its - {a}" using k(2) j l by (auto split: if_splits)
    qed
    have "card (set (take ?l its')) = card (set its - {a})"
      using distinct_card [OF dist] distinct_card [OF D(1)] a(1) len by (simp add: card_Diff_singleton)
    then show ?thesis using sub card_subset_eq [of "set its - {a}" "set (take ?l its')"] by simp
  qed
  have "(m(x := None)) y = Some b \<longleftrightarrow> b \<in> set (take ?l its') \<and> ID (inst (h' b)) = y" for y b
    using D(4) [of y b] D(4) [of x b] x a set inst by auto
  then show ?thesis unfolding slice_ok_def using dist set D(2) idx len inst by auto
qed

lemma removeLocked_ok:
  assumes ok: "topo_ok s"
  shows "topo_ok (removeLocked x s) \<and> view (removeLocked x s) = (view s)(x := None)"
proof (cases "instances s x")
  case None
  then show ?thesis using ok by (auto simp: removeLocked_def view_def fun_eq_iff)
next
  case (Some a)
  let ?l = "length (items s) - 1" and ?k = "index (heap s a)"
  let ?its = "if ?k \<noteq> ?l then (items s)[?k := items s ! ?l] else items s"
  let ?h = "if ?k \<noteq> ?l then (heap s)(items s ! ?l := (heap s (items s ! ?l))\<lparr>index := ?k\<rparr>) else heap s"
  have r: "heap (removeLocked x s) = ?h" "top (removeLocked x s) = top s" "items (removeLocked x s) = take ?l ?its"
      "instances (removeLocked x s) = (instances s)(x := None)"
    using Some by (simp_all add: removeLocked_def Let_def)
  note R = slice_remove [OF ok [unfolded topo_ok_def] Some refl refl]
  have "view (removeLocked x s) y = ((view s)(x := None)) y" for y
    unfolding view_def r using R by (cases "instances s y") auto
  then show ?thesis unfolding topo_ok_def r using R by auto
qed

text \<open>The snapshot loop keeps the new slice consistent while it reuses states of the old one.\<close>

lemma replace_loop_ok:
  assumes "replace_loop old lat xs s m its = (s', m', its')" and "slice_ok (heap s) (top s) m its"
    and "distinct (map ID xs)" and "\<forall>i \<in> set xs. m (ID i) = None"
    and "\<forall>i \<in> set xs. \<forall>a. old (ID i) = Some a \<longrightarrow> a \<notin> set its \<and> a < top s"
    and "\<forall>x y a. old x = Some a \<and> old y = Some a \<longrightarrow> x = y"
  shows "slice_ok (heap s') (top s') m' its' \<and> revision s' = revision s
     \<and> (\<lambda>x. map_option (\<lambda>a. inst (heap s' a)) (m' x))
        = (\<lambda>x. map_option (\<lambda>a. inst (heap s a)) (m x)) ++ map_of (map (\<lambda>i. (ID i, i)) xs)"
  using assms
proof (induction old lat xs s m its arbitrary: s' m' its' rule: replace_loop.induct)
  case (2 old lat i rest s m its)
  obtain a s1 where r: "renew (old (ID i)) i lat s = (a, s1)" by fastforce
  note R = renew_cases [OF r]
  let ?s = "upd a (\<lambda>x. x\<lparr>index := length its\<rparr>) s1"
  note D = slice_okD [OF "2.prems"(2)]
  have i: "ID (inst (heap ?s a)) = ID i" "inst (heap ?s a) = i" using R by simp_all
  have na: "a \<notin> set its" "a < top ?s" "top s \<le> top ?s" using R D(2) "2.prems"(5) by auto
  have "slice_ok (heap ?s) (top ?s) (m(ID (inst (heap ?s a)) \<mapsto> a)) (its @ [a])"
    by (rule slice_append [OF "2.prems"(2)]) (use na R "2.prems"(4) in auto)
  then have ok: "slice_ok (heap ?s) (top ?s) (m(ID i \<mapsto> a)) (its @ [a])" unfolding i(1) .
  have free: "\<forall>j \<in> set rest. \<forall>b. old (ID j) = Some b \<longrightarrow> b \<notin> set (its @ [a]) \<and> b < top ?s"
    using "2.prems"(3,5,6) R na(3) by fastforce
  have A: "(\<lambda>x. map_option (\<lambda>b. inst (heap ?s b)) ((m(ID i \<mapsto> a)) x)) = (\<lambda>x. map_option (\<lambda>b. inst (heap s b)) (m x))(ID i \<mapsto> i)"
  proof
    fix x
    have "m x = Some b \<Longrightarrow> b \<noteq> a" for b using D(4) na(1) by blast
    then show "map_option (\<lambda>b. inst (heap ?s b)) ((m(ID i \<mapsto> a)) x) = ((\<lambda>x. map_option (\<lambda>b. inst (heap s b)) (m x))(ID i \<mapsto> i)) x"
      using i R by (cases "m x") auto
  qed
  have B: "slice_ok (heap s') (top s') m' its' \<and> revision s' = revision ?s \<and> (\<lambda>x. map_option (\<lambda>a. inst (heap s' a)) (m' x))
        = (\<lambda>x. map_option (\<lambda>b. inst (heap ?s b)) ((m(ID i \<mapsto> a)) x)) ++ map_of (map (\<lambda>i. (ID i, i)) rest)"
  proof (rule "2.IH" [OF r [symmetric] _ ok _ _ free "2.prems"(6)])
    show "replace_loop old lat rest ?s (m(ID i \<mapsto> a)) (its @ [a]) = (s', m', its')" using "2.prems"(1) r by simp
    show "\<forall>j \<in> set rest. (m(ID i \<mapsto> a)) (ID j) = None"
    proof
      fix j assume j: "j \<in> set rest"
      then have "ID j \<noteq> ID i" using "2.prems"(3) by (auto simp: image_iff)
      then show "(m(ID i \<mapsto> a)) (ID j) = None" using j "2.prems"(4) by simp
    qed
  qed (use "2.prems"(3) in simp)
  have C: "f(ID i \<mapsto> i) ++ map_of (map (\<lambda>i. (ID i, i)) rest) = f ++ map_of (map (\<lambda>i. (ID i, i)) (i # rest))" for f
  proof -
    have "ID i \<notin> dom (map_of (map (\<lambda>i. (ID i, i)) rest))" using "2.prems"(3) by (auto simp: dom_map_of_conv_image_fst image_image)
    then show ?thesis by (simp add: map_add_upd_left)
  qed
  have rv: "revision ?s = revision s" using R by simp
  show ?case using B unfolding A C rv .
qed simp

lemma replaceLocked_ok:
  assumes ok: "topo_ok s" and d: "distinct (map ID xs)"
  shows "topo_ok (replaceLocked xs lat s) \<and> view (replaceLocked xs lat s) = map_of (map (\<lambda>i. (ID i, i)) xs)"
proof -
  obtain s1 m its where r: "replace_loop (instances s) lat xs s Map.empty [] = (s1, m, its)" by (rule prod_cases3)
  have e: "slice_ok (heap s) (top s) Map.empty []" by (simp add: slice_ok_def)
  have "slice_ok (heap s1) (top s1) m its \<and> revision s1 = revision s
     \<and> (\<lambda>x. map_option (\<lambda>a. inst (heap s1 a)) (m x)) = (\<lambda>x. map_option (\<lambda>a. inst (heap s a)) (Map.empty x)) ++ map_of (map (\<lambda>i. (ID i, i)) xs)"
    by (rule replace_loop_ok [OF r e d]) (use topo_addr [OF ok] in \<open>auto\<close>)
  then show ?thesis using r by (simp add: replaceLocked_def topo_ok_def view_def [abs_def] fun_eq_iff map_add_def)
qed

section \<open>The cache meets the contract\<close>

definition apply_event :: "duration \<Rightarrow> event \<Rightarrow> int64 \<Rightarrow> serviceState \<Rightarrow> serviceState" where
  "apply_event lat e n =
     (case e of Put i \<Rightarrow> putAt i lat n | Del x \<Rightarrow> removeAt x n | Snapshot xs \<Rightarrow> replaceAt xs lat n | Barrier \<Rightarrow> advanceRevision n)"

lemma frame_rv [simp]:
  "topo_ok (s\<lparr>revision := n\<rparr>) = topo_ok s" "view (s\<lparr>revision := n\<rparr>) = view s"
  "topo_ok (s\<lparr>lastUsed := k\<rparr>) = topo_ok s" "view (s\<lparr>lastUsed := k\<rparr>) = view s"
  "topo_ok (s\<lparr>rng := w\<rparr>) = topo_ok s" "view (s\<lparr>rng := w\<rparr>) = view s"
  by (simp_all add: topo_ok_def view_def [abs_def])

interpretation cache: revisioned_cache topo_ok view revision "apply_event lat" for lat
proof
  show "topo_ok (apply_event lat e n s)" if "topo_ok s" "event_ok e" for s e n
    using that putLocked_ok removeLocked_ok replaceLocked_ok
    by (cases e) (auto simp: apply_event_def event_ok_def putAt_def removeAt_def replaceAt_def advanceRevision_def)
  show "view (apply_event lat e n s) = spec_event e (view s)" if "topo_ok s" "event_ok e" "\<not> n < revision s" for s e n
    using that putLocked_ok removeLocked_ok replaceLocked_ok
    by (cases e) (auto simp: apply_event_def event_ok_def putAt_def removeAt_def replaceAt_def advanceRevision_def)
  show "revision (apply_event lat e n s) = max n (revision s)" for s e n
    by (cases e) (auto simp: apply_event_def putAt_def removeAt_def replaceAt_def advanceRevision_def)
  show "view (apply_event lat e n s) = view s" if "n < revision s" for s e n
    using that by (cases e) (auto simp: apply_event_def putAt_def removeAt_def replaceAt_def advanceRevision_def)
qed

lemma new_topo_ok: "topo_ok (newServiceState clock name) \<and> view (newServiceState clock name) = Map.empty \<and> revision (newServiceState clock name) = 0"
  by (simp add: newServiceState_def Let_def topo_ok_def slice_ok_def view_def [abs_def])

lemma topo_items: "topo_ok s \<Longrightarrow> a \<in> set (items s) \<Longrightarrow> view s (ID (inst (heap s a))) = Some (inst (heap s a))"
  unfolding topo_ok_def view_def using slice_okD(4) [of "heap s" "top s" "instances s" "items s" "ID (inst (heap s a))" a] by simp

lemma topo_view_items: "topo_ok s \<Longrightarrow> view s x = Some i \<Longrightarrow> \<exists>a \<in> set (items s). inst (heap s a) = i"
  unfolding view_def using topo_addr by blast

text \<open>
  The cache follows the registry (C17). Apply any history of snapshots (without duplicate IDs), puts,
  deletes and barriers to a fresh cache, each with a revision, in any order of revisions: the cache
  represents exactly what the specification says, that is the events that were not older than an
  event applied before them, applied to a plain map; stale events have no effect. And the slice that selection samples from holds each
  instance of that map exactly once and nothing else.
\<close>

theorem cache_follows_registry:
  fixes lat :: duration and evs :: "(event \<times> int64) list" and clock :: int64 and name :: string
  assumes "\<forall>x \<in> set evs. event_ok (fst x)"
  defines "s \<equiv> fold (\<lambda>x. apply_event lat (fst x) (snd x)) evs (newServiceState clock name)"
  shows "(revision s, view s) = fold spec_step evs (0, Map.empty)
     \<and> distinct (map (\<lambda>a. ID (inst (heap s a))) (items s)) \<and> (\<lambda>a. inst (heap s a)) ` set (items s) = ran (view s)"
proof -
  have h: "topo_ok s \<and> (revision s, view s) = fold spec_step evs (0, Map.empty)"
    using cache.history_refines [of "newServiceState clock name" evs lat] new_topo_ok [of clock name] assms(1) unfolding s_def by simp
  have "inj_on (\<lambda>a. ID (inst (heap s a))) (set (items s))" using h slice_inj unfolding topo_ok_def by blast
  moreover have "distinct (items s)" using h slice_okD(1) unfolding topo_ok_def by blast
  moreover have "(\<lambda>a. inst (heap s a)) ` set (items s) = ran (view s)"
  proof
    show "(\<lambda>a. inst (heap s a)) ` set (items s) \<subseteq> ran (view s)" using h topo_items by (auto intro: ranI)
    show "ran (view s) \<subseteq> (\<lambda>a. inst (heap s a)) ` set (items s)" using h topo_view_items by (fastforce simp: ran_def)
  qed
  ultimately show ?thesis using h by (simp add: distinct_map)
qed

definition demo_inst :: "string \<Rightarrow> Instance" where
  "demo_inst x = \<lparr>Service = ''s'', ID = x, Endpoint = ''http://h:1'', Metadata = []\<rparr>"

definition demo_events :: "(event \<times> int64) list" where
  "demo_events = [(Snapshot [demo_inst ''a'', demo_inst ''b''], 5), (Put (demo_inst ''c''), 6), (Del ''a'', 4), (Del ''b'', 7)]"

theorem cache_follows_registry_witness:
  "view (fold (\<lambda>x. apply_event 10 (fst x) (snd x)) demo_events (newServiceState 1 ''s''))
     = [''a'' \<mapsto> demo_inst ''a'', ''c'' \<mapsto> demo_inst ''c'']"
proof -
  have ok: "\<forall>x \<in> set demo_events. event_ok (fst x)" by (simp add: demo_events_def event_ok_def demo_inst_def)
  have "fold spec_step demo_events (0, Map.empty) = (7, [''a'' \<mapsto> demo_inst ''a'', ''c'' \<mapsto> demo_inst ''c''])"
    by (simp add: demo_events_def spec_step_def demo_inst_def fun_eq_iff)
  then show ?thesis using cache_follows_registry [OF ok, of 10 1 "''s''"] by simp
qed

end
