(* ===== verification/Kc_Balancer_Health.thy ===== *)
theory Kc_Balancer_Health
  imports Kc_Balancer_Topology
begin

text \<open>
  Selection: which instance an undisturbed \<open>pick\<close> chooses and what it does to the instance states, and a
  flaw of its fallback under a race.
\<close>

section \<open>Selection\<close>

definition in_range :: "(nat \<Rightarrow> nat) option \<Rightarrow> bool" where
  "in_range randN = (case randN of None \<Rightarrow> True | Some f \<Rightarrow> (\<forall>n. 0 < n \<longrightarrow> f n < n))"

lemma random_index_range:
  assumes "in_range randN" and "0 < n" and "random_index randN n s = (j, s1)"
  shows "j < n \<and> heap s1 = heap s \<and> items s1 = items s \<and> instances s1 = instances s \<and> top s1 = top s"
  using assms by (auto simp: random_index_def in_range_def randomN_def Let_def split: option.splits)

definition candidates :: "int64 \<Rightarrow> serviceState \<Rightarrow> addr option \<Rightarrow> addr option \<Rightarrow> bool" where
  "candidates now s first sec \<longleftrightarrow>
     (\<forall>a. first = Some a \<longrightarrow> a \<in> set (items s) \<and> eligible now (heap s a))
     \<and> (\<forall>b. sec = Some b \<longrightarrow> b \<in> set (items s) \<and> eligible now (heap s b) \<and> first \<noteq> None \<and> first \<noteq> Some b)"

lemma sample_candidates:
  assumes "sample k now randN s first sec = (f, t, s')" and "in_range randN" and "items s \<noteq> []" and "candidates now s first sec"
  shows "candidates now s f t \<and> heap s' = heap s \<and> items s' = items s \<and> instances s' = instances s \<and> top s' = top s"
  using assms
proof (induction k now randN s first sec arbitrary: f t s' rule: sample.induct)
  case (2 k now randN s first sec)
  show ?case
  proof (cases "first = None \<or> (sec = None \<and> length (items s) > 1)")
    case True
    obtain j s1 where r: "random_index randN (length (items s)) s = (j, s1)" by fastforce
    have R: "j < length (items s)" "heap s1 = heap s" "items s1 = items s" "instances s1 = instances s" "top s1 = top s"
      using random_index_range [OF "2.prems"(2) _ r] "2.prems"(3) by auto
    let ?a = "items s ! j"
    have a: "?a \<in> set (items s)" using R(1) by simp
    note IH = "2.IH" [OF True r [symmetric] refl]
    have cs: "candidates now s1 x y = candidates now s x y" for x y by (simp add: candidates_def R)
    show ?thesis
    proof (cases "eligible now (heap s ?a)")
      case False
      then have "sample k now randN s1 first sec = (f, t, s')" using "2.prems"(1) True r by (simp add: Let_def)
      then show ?thesis using IH(1) [OF False] "2.prems"(2,3,4) R cs by auto
    next
      case el: True
      show ?thesis
      proof (cases first)
        case None
        then have "sample k now randN s1 (Some ?a) sec = (f, t, s')" using "2.prems"(1) True r el by (simp add: Let_def)
        moreover have "candidates now s (Some ?a) sec" using None "2.prems"(4) a el by (auto simp: candidates_def)
        ultimately have "candidates now s1 f t \<and> heap s' = heap s1 \<and> items s' = items s1 \<and> instances s' = instances s1 \<and> top s' = top s1"
          by (intro IH(2) [OF _ None]) (use el "2.prems"(2,3) in \<open>simp_all add: cs R\<close>)
        then show ?thesis by (simp add: R cs)
      next
        case (Some x)
        let ?t = "if ?a \<noteq> x then Some ?a else sec"
        have "sample k now randN s1 first ?t = (f, t, s')" using "2.prems"(1) True r el Some by (simp add: Let_def)
        moreover have "candidates now s first ?t" using Some "2.prems"(4) a el by (auto simp: candidates_def)
        ultimately have "candidates now s1 f t \<and> heap s' = heap s1 \<and> items s' = items s1 \<and> instances s' = instances s1 \<and> top s' = top s1"
          by (intro IH(3) [OF _ Some]) (use el "2.prems"(2,3) in \<open>simp_all add: cs R\<close>)
        then show ?thesis by (simp add: R cs)
      qed
    qed
  next
    case False
    then show ?thesis using "2.prems" by auto
  qed
qed auto

lemma scan_candidates:
  assumes "scan_items now (heap s) xs first sec = (f, t)" and "set xs \<subseteq> set (items s)" and "candidates now s first sec"
  shows "candidates now s f t \<and> (f = None \<longrightarrow> first = None \<and> (\<forall>a \<in> set xs. \<not> eligible now (heap s a)))"
  using assms
proof (induction now "heap s" xs first sec rule: scan_items.induct)
  case (2 now a rest first sec)
  have sub: "set rest \<subseteq> set (items s)" "a \<in> set (items s)" using "2.prems"(2) by auto
  show ?case
  proof (cases "eligible now (heap s a)")
    case True
    show ?thesis
    proof (cases first)
      case None
      then have "candidates now s (Some a) sec" using "2.prems"(3) sub True by (auto simp: candidates_def)
      then show ?thesis using "2.hyps"(2) [OF _ None] "2.prems"(1) sub True None by simp
    next
      case (Some x)
      have "candidates now s first (Some a)" if "a \<noteq> x" using Some "2.prems"(3) sub True that by (auto simp: candidates_def)
      then show ?thesis using "2.hyps"(3) [OF _ Some] "2.prems" sub True Some by (cases "a = x") auto
    qed
  next
    case False
    then show ?thesis using "2.hyps"(1) "2.prems" sub by simp
  qed
qed auto

definition min_ejected :: "(addr \<Rightarrow> instanceState) \<Rightarrow> addr set \<Rightarrow> addr option \<Rightarrow> bool" where
  "min_ejected h A r \<longleftrightarrow>
     (case r of None \<Rightarrow> \<forall>a \<in> A. halfOpen (h a)
      | Some x \<Rightarrow> x \<in> A \<and> \<not> halfOpen (h x) \<and> (\<forall>a \<in> A. \<not> halfOpen (h a) \<longrightarrow> ejectedUntil (h x) \<le> ejectedUntil (h a)))"

lemma least_ejected_min: "min_ejected h A first \<Longrightarrow> min_ejected h (A \<union> set xs) (least_ejected h xs first)"
proof (induction h xs first arbitrary: A rule: least_ejected.induct)
  case (2 h a rest first)
  have e: "A \<union> set (a # rest) = insert a A \<union> set rest" by auto
  show ?case
  proof (cases "halfOpen (h a)")
    case True
    then have "min_ejected h (insert a A) first" using "2.prems" by (auto simp: min_ejected_def split: option.splits)
    then show ?thesis using "2.IH"(1) [of "insert a A"] True unfolding e by simp
  next
    case False
    show ?thesis
    proof (cases first)
      case None
      then have "min_ejected h (insert a A) (Some a)" using "2.prems" False by (auto simp: min_ejected_def)
      then show ?thesis using "2.IH"(2) [of "insert a A"] False None unfolding e by simp
    next
      case (Some x)
      then have "min_ejected h (insert a A) (if ejectedUntil (h a) < ejectedUntil (h x) then Some a else first)"
        using "2.prems" False by (auto simp: min_ejected_def)
      then show ?thesis using "2.IH"(3) [of x "insert a A"] False Some unfolding e by (auto split: if_splits)
    qed
  qed
qed simp

lemma pick_select_spec:
  assumes "pick_select now randN s = ((first, sec, all), s1)" and "in_range randN" and "items s \<noteq> []"
  shows "all = allEjected now s \<and> (if all then sec = None \<and> min_ejected (heap s) (set (items s)) first else first \<noteq> None \<and> candidates now s first sec)
     \<and> heap s1 = heap s \<and> items s1 = items s \<and> instances s1 = instances s \<and> top s1 = top s"
proof -
  obtain f1 t1 st where sm: "sample 8 now randN s None None = (f1, t1, st)" by (rule prod_cases3)
  have S: "candidates now s f1 t1 \<and> heap st = heap s \<and> items st = items s \<and> instances st = instances s \<and> top st = top s"
    by (rule sample_candidates [OF sm assms(2,3)]) (simp add: candidates_def)
  obtain f2 t2 where sc: "(if f1 = None \<or> (t1 = None \<and> length (items s) > 1) then scan_items now (heap s) (items s) f1 t1 else (f1, t1)) = (f2, t2)"
    by fastforce
  have C: "candidates now s f2 t2" "f2 = None \<Longrightarrow> \<forall>a \<in> set (items s). \<not> eligible now (heap s a)"
    using sc S scan_candidates [of now s "items s" f1 t1 f2 t2] by (auto split: if_splits)
  have r: "all = (f2 = None)" "sec = t2" "first = (if f2 = None then least_ejected (heap s) (items s) None else f2)" "s1 = st"
    using assms(1) unfolding pick_select_def sm using sc by auto
  have "all = allEjected now s"
    using C assms(3) r(1) by (cases f2) (auto simp: allEjected_def list_all_iff candidates_def)
  moreover have "min_ejected (heap s) (set (items s)) (least_ejected (heap s) (items s) None)"
    using least_ejected_min [of "heap s" "{}" None "items s"] by (simp add: min_ejected_def)
  moreover have "f2 = None \<Longrightarrow> t2 = None" using C(1) by (cases t2) (auto simp: candidates_def)
  ultimately show ?thesis using r C(1) S by simp
qed

definition claimed_state :: "int64 \<Rightarrow> instanceState \<Rightarrow> instanceState" where
  "claimed_state now x =
     x\<lparr>halfOpen := (halfOpen x \<or> (ejectedUntil x \<noteq> 0 \<and> now \<ge> ejectedUntil x)), inflight := i64 (inflight x + 1)\<rparr>"

lemma reserve_spec:
  "reserve a now s = None \<longleftrightarrow> ejectedUntil (heap s a) \<noteq> 0 \<and> now \<ge> ejectedUntil (heap s a) \<and> halfOpen (heap s a)"
  "reserve a now s = Some s' \<Longrightarrow>
     s' = upd a (claimed_state now) s"
  by (auto simp: reserve_def Let_def upd_def claimed_state_def split: if_splits)

text \<open>
  Selection (C19). An undisturbed \<open>pick\<close> on a non-empty cache selects an instance of the cache, and counts
  it in flight. As long as some instance is eligible (not ejected, or its ejection over and nobody
  probing it) it succeeds with an eligible one; an instance whose ejection is over is thereby marked
  half-open, so that the next caller does not probe it too. When all are ejected it fails open with the
  one whose ejection ends first, and fails only if all of them are being probed.
\<close>

theorem pick_selects:
  assumes "pick now randN (\<lambda>x. x) s = ((r, all), s')" and "in_range randN" and "items s \<noteq> []"
  shows "all = allEjected now s
     \<and> (case r of
          None \<Rightarrow> all \<and> heap s' = heap s \<and> (\<forall>a \<in> set (items s). halfOpen (heap s a))
        | Some a \<Rightarrow> a \<in> set (items s) \<and> (\<not> all \<longrightarrow> eligible now (heap s a)) \<and> (all \<longrightarrow> min_ejected (heap s) (set (items s)) (Some a))
            \<and> heap s' = (heap s)(a := claimed_state now (heap s a)))"
proof -
  obtain first sec al s1 where ps: "pick_select now randN s = ((first, sec, al), s1)" by (metis prod.collapse)
  note P = pick_select_spec [OF ps assms(2,3)]
  show ?thesis
  proof (cases first)
    case None
    then have "r = None" "all" "s' = s1" using assms(1,3) ps by (simp_all add: pick_def)
    then show ?thesis using P None by (auto simp: min_ejected_def split: if_splits)
  next
    case (Some f)
    obtain q s2 where pc: "pick_claim now f sec s1 = (q, s2)" by fastforce
    have r: "r = q" "all = al" "s' = s2" using assms(1,3) ps Some pc by (simp_all add: pick_def)
    let ?c = "case sec of Some b \<Rightarrow> if score (heap s1 b) < score (heap s1 f) then b else f | None \<Rightarrow> f"
    have c: "?c = f \<or> sec = Some ?c" by (auto split: option.splits)
    have cl: "?c \<in> set (items s) \<and> (\<not> al \<longrightarrow> eligible now (heap s ?c)) \<and> (al \<longrightarrow> min_ejected (heap s) (set (items s)) (Some ?c))"
    proof (cases al)
      case True
      then have "sec = None" "min_ejected (heap s) (set (items s)) (Some f)" using P Some by auto
      then show ?thesis using True by (simp add: min_ejected_def)
    next
      case False
      then have "candidates now s (Some f) sec" using P Some by auto
      then show ?thesis using c False unfolding candidates_def by auto
    qed
    have "reserve ?c now s1 \<noteq> None"
      using cl P unfolding reserve_spec(1) by (cases al) (auto simp: eligible_def min_ejected_def)
    then obtain s3 where s3: "reserve ?c now s1 = Some s3" by blast
    then have q: "q = Some ?c" "s2 = s3\<lparr>lastUsed := now\<rparr>" using pc unfolding pick_claim_def Let_def by auto
    have "heap s2 = (heap s)(?c := claimed_state now (heap s ?c))"
      using reserve_spec(2) [OF s3] P q(2) by simp
    then show ?thesis unfolding r q(1) option.case using cl P by blast
  qed
qed

definition demo_cache :: serviceState where
  "demo_cache = fold (\<lambda>x. apply_event 10 (fst x) (snd x)) [(Put (demo_inst ''a''), 1), (Put (demo_inst ''b''), 2)] (newServiceState 1 ''s'')"

lemma demo_cache_simps:
  "items demo_cache = [0, 1]" "heap demo_cache 0 = newInstanceState (demo_inst ''a'') 10"
  "heap demo_cache 1 = (newInstanceState (demo_inst ''b'') 10)\<lparr>index := 1\<rparr>" "instances demo_cache = [''a'' \<mapsto> 0, ''b'' \<mapsto> 1]"
  by (simp_all add: demo_cache_def apply_event_def putAt_def putLocked_def newServiceState_def Let_def alloc_def upd_def
      demo_inst_def newInstanceState_def)

theorem pick_selects_witness:
  "\<exists>a s'. pick 100 (Some (\<lambda>n. 0)) (\<lambda>x. x) demo_cache = ((Some a, False), s') \<and> a \<in> set (items demo_cache)"
proof -
  have e: "items demo_cache \<noteq> []" "in_range (Some (\<lambda>n. 0))" by (simp_all add: demo_cache_simps in_range_def)
  have al: "\<not> allEjected 100 demo_cache" by (simp add: allEjected_def demo_cache_simps eligible_def newInstanceState_def)
  obtain r all s' where p: "pick 100 (Some (\<lambda>n. 0)) (\<lambda>x. x) demo_cache = ((r, all), s')" by (metis prod.collapse)
  show ?thesis using pick_selects [OF p e(2,1)] al p by (cases r) auto
qed

text \<open>
  A flaw of the fallback of \<open>pick\<close>: the candidate with the lower score is chosen; if another caller wins the
  race for its half-open slot, the code falls back to the second candidate, also when that is the
  one it has just lost. It then gives up although the first candidate is healthy.
\<close>

definition race_cache :: serviceState where
  "race_cache = upd 1 (\<lambda>x. x\<lparr>ewma := 1, ejectedUntil := 50\<rparr>) demo_cache"

definition race_winner :: "serviceState \<Rightarrow> serviceState" where
  "race_winner s = (case reserve 1 100 s of Some s' \<Rightarrow> s' | None \<Rightarrow> s)"

theorem pick_gives_up_with_healthy_instance:
  "fst (pick 100 (Some (\<lambda>n. 0)) race_winner race_cache) = (None, False)
   \<and> 0 \<in> set (items race_cache) \<and> ejectedUntil (heap (race_winner race_cache) 0) = 0"
proof -
  have l: "items race_cache = [0, 1]" "heap race_cache 0 = newInstanceState (demo_inst ''a'') 10"
    "heap race_cache (Suc 0) = (newInstanceState (demo_inst ''b'') 10)\<lparr>index := 1, ewma := 1, ejectedUntil := 50\<rparr>"
    by (simp_all add: race_cache_def demo_cache_simps demo_cache_simps(3) [unfolded One_nat_def])
  have sel: "pick_select 100 (Some (\<lambda>n. 0)) race_cache = ((Some 0, Some 1, False), race_cache)"
    by (simp add: pick_select_def numeral_eq_Suc random_index_def l eligible_def newInstanceState_def)
  have w: "race_winner race_cache = upd 1 (claimed_state 100) race_cache"
    by (simp add: race_winner_def reserve_def Let_def l newInstanceState_def claimed_state_def upd_def)
  have sc: "score (heap (race_winner race_cache) 1) < score (heap (race_winner race_cache) 0)"
    by (simp add: w l claimed_state_def newInstanceState_def score_def i64_def float64_def round53_def bit_len.simps)
  show ?thesis
    by (simp add: pick_def l sel pick_claim_def Let_def sc [unfolded One_nat_def]) (simp add: w reserve_def Let_def l claimed_state_def newInstanceState_def)
qed

end
