(* ===== verification/Kc_Balancer_Calls.thy ===== *)
theory Kc_Balancer_Calls
  imports Kc_Balancer_Health
begin

text \<open>
  The lock-free half of \<open>src/pkg/registry/etcd/balancer.go\<close>: callers of \<open>pick\<close> and \<open>Report\<close> and the watch goroutine,
  interleaved at every load, store, add and compare-and-swap of an instance state. A call is a program
  counter (\<open>call\<close>), \<open>advance\<close> executes its next atomic operation, and \<open>balancer_step\<close> lets any of the calls or
  a topology update go next.

  Topology updates hold the write lock of the cache and \<open>pick\<close> holds the read lock from its selection to
  the store of \<open>lastUsed\<close>, so no update happens in between. The loads of the selection only decide which
  candidates the call goes on with: any candidates of the slice are allowed here. A selection that finds
  none only draws random numbers, like the start of any other (\<open>bs_random\<close>).
\<close>

section \<open>Calls as program counters\<close>

datatype call =
    LoadUntil int64 addr "addr option"
  | SwapHalfOpen int64 addr "addr option"
  | AddInflight int64 addr
  | StoreLastUsed int64 addr
  | Bind addr
  | Picked "nat option"
  | Check Result nat
  | SwapStatus Result nat
  | LoadInflight Result nat int64
  | SwapInflight Result nat int64 int64
  | CheckValid Result nat int64
  | LoadEwma Result nat int64
  | SwapEwma Result nat int64 int64
  | SuccessFailures nat
  | SuccessUntil nat
  | SuccessHalfOpen nat
  | AddFailures nat int64
  | LoadHalfOpen nat int64 int32
  | EjectFailures nat int64
  | EjectHalfOpen nat int64
  | EjectUntil nat int64
  | Reported nat "registry_error option"

text \<open>
  The next atomic operation of a call. \<open>clock\<close> is the reading of the clock of \<open>Report\<close>. A pick whose
  compare-and-swap fails goes on with the second candidate, if it has one (\<open>reserve\<close>).
\<close>

fun advance ::
  "(int64 \<Rightarrow> duration \<Rightarrow> int64) \<Rightarrow> duration \<times> int \<Rightarrow> int64 \<Rightarrow> call \<Rightarrow> serviceState \<Rightarrow> resolution list
    \<Rightarrow> call \<times> serviceState \<times> resolution list" where
  "advance mix opts clock (LoadUntil now a sec) s rs =
     (if ejectedUntil (heap s a) \<noteq> 0 \<and> now \<ge> ejectedUntil (heap s a) then SwapHalfOpen now a sec else AddInflight now a, s, rs)"
| "advance mix opts clock (SwapHalfOpen now a sec) s rs =
     (if halfOpen (heap s a) then ((case sec of None \<Rightarrow> Picked None | Some b \<Rightarrow> LoadUntil now b None), s, rs)
      else (AddInflight now a, upd a (\<lambda>x. x\<lparr>halfOpen := True\<rparr>) s, rs))"
| "advance mix opts clock (AddInflight now a) s rs = (StoreLastUsed now a, upd a (\<lambda>x. x\<lparr>inflight := i64 (inflight x + 1)\<rparr>) s, rs)"
| "advance mix opts clock (StoreLastUsed now a) s rs = (Bind a, s\<lparr>lastUsed := now\<rparr>, rs)"
| "advance mix opts clock (Bind a) s rs = (Picked (Some (length rs)), s, rs @ [newResolution a (fst opts) (snd opts) s])"
| "advance mix opts clock (Check res k) s rs = (if validResult res then SwapStatus res k else Reported k (Some ErrInvalidResult), s, rs)"
| "advance mix opts clock (SwapStatus res k) s rs =
     (if reported (rs ! k) then (Reported k (Some ErrAlreadyReported), s, rs)
      else (LoadInflight res k clock, s, rs[k := (rs ! k)\<lparr>reported := True\<rparr>]))"
| "advance mix opts clock (LoadInflight res k now) s rs =
     (let n = inflight (heap s (selected (rs ! k))) in (if n \<le> 0 then CheckValid res k now else SwapInflight res k now n, s, rs))"
| "advance mix opts clock (SwapInflight res k now n) s rs =
     (let a = selected (rs ! k) in
      if inflight (heap s a) = n then (CheckValid res k now, upd a (\<lambda>x. x\<lparr>inflight := n - 1\<rparr>) s, rs) else (LoadInflight res k now, s, rs))"
| "advance mix opts clock (CheckValid res k now) s rs =
     (let r = rs ! k; a = selected r in
      (if instances s (ID (r_instance r)) = Some a \<and> Endpoint (inst (heap s a)) = Endpoint (r_instance r)
       then LoadEwma res k now else Reported k None, s, rs))"
| "advance mix opts clock (LoadEwma res k now) s rs = (SwapEwma res k now (ewma (heap s (selected (rs ! k)))), s, rs)"
| "advance mix opts clock (SwapEwma res k now old) s rs =
     (let a = selected (rs ! k) in
      if ewma (heap s a) = old
      then (if Outcome res = OutcomeSuccess then SuccessFailures k else AddFailures k now, upd a (\<lambda>x. x\<lparr>ewma := mix old (Latency res)\<rparr>) s, rs)
      else (LoadEwma res k now, s, rs))"
| "advance mix opts clock (SuccessFailures k) s rs = (SuccessUntil k, upd (selected (rs ! k)) (\<lambda>x. x\<lparr>failures := 0\<rparr>) s, rs)"
| "advance mix opts clock (SuccessUntil k) s rs = (SuccessHalfOpen k, upd (selected (rs ! k)) (\<lambda>x. x\<lparr>ejectedUntil := 0\<rparr>) s, rs)"
| "advance mix opts clock (SuccessHalfOpen k) s rs = (Reported k None, upd (selected (rs ! k)) (\<lambda>x. x\<lparr>halfOpen := False\<rparr>) s, rs)"
| "advance mix opts clock (AddFailures k now) s rs =
     (let a = selected (rs ! k); n = i32 (failures (heap s a) + 1) in (LoadHalfOpen k now n, upd a (\<lambda>x. x\<lparr>failures := n\<rparr>) s, rs))"
| "advance mix opts clock (LoadHalfOpen k now n) s rs =
     (if halfOpen (heap s (selected (rs ! k))) \<or> n \<ge> failureThreshold (rs ! k) then EjectFailures k now else Reported k None, s, rs)"
| "advance mix opts clock (EjectFailures k now) s rs = (EjectHalfOpen k now, upd (selected (rs ! k)) (\<lambda>x. x\<lparr>failures := 0\<rparr>) s, rs)"
| "advance mix opts clock (EjectHalfOpen k now) s rs = (EjectUntil k now, upd (selected (rs ! k)) (\<lambda>x. x\<lparr>halfOpen := False\<rparr>) s, rs)"
| "advance mix opts clock (EjectUntil k now) s rs =
     (Reported k None, upd (selected (rs ! k)) (\<lambda>x. x\<lparr>ejectedUntil := i64 (now + ejectionDuration (rs ! k))\<rparr>) s, rs)"
| "advance mix opts clock (Picked r) s rs = (Picked r, s, rs)"
| "advance mix opts clock (Reported k e) s rs = (Reported k e, s, rs)"

text \<open>The calls inside the read lock of \<open>pick\<close>.\<close>

fun reading :: "call \<Rightarrow> bool" where
  "reading (LoadUntil now a sec) = True"
| "reading (SwapHalfOpen now a sec) = True"
| "reading (AddInflight now a) = True"
| "reading (StoreLastUsed now a) = True"
| "reading c = False"

type_synonym balancer_state = "serviceState \<times> resolution list \<times> call list"

inductive balancer_step ::
  "(int64 \<Rightarrow> duration \<Rightarrow> int64) \<Rightarrow> duration \<Rightarrow> duration \<times> int \<Rightarrow> balancer_state \<Rightarrow> balancer_state \<Rightarrow> bool"
  for mix lat opts where
bs_event: "event_ok e \<Longrightarrow> \<forall>c \<in> set cs. \<not> reading c \<Longrightarrow> balancer_step mix lat opts (s, rs, cs) (apply_event lat e n s, rs, cs)"
| bs_pick: "first \<in> set (items s) \<Longrightarrow> (\<And>b. sec = Some b \<Longrightarrow> b \<in> set (items s)) \<Longrightarrow> chosen = first \<or> sec = Some chosen \<Longrightarrow>
    balancer_step mix lat opts (s, rs, cs) (s\<lparr>rng := x\<rparr>, rs, cs @ [LoadUntil now chosen sec])"
| bs_random: "balancer_step mix lat opts (s, rs, cs) (s\<lparr>rng := x\<rparr>, rs, cs)"
| bs_report: "k < length rs \<Longrightarrow> balancer_step mix lat opts (s, rs, cs) (s, rs, cs @ [Check res k])"
| bs_advance: "j < length cs \<Longrightarrow> advance mix opts clock (cs ! j) s rs = (c, s', rs') \<Longrightarrow>
    balancer_step mix lat opts (s, rs, cs) (s', rs', cs[j := c])"

inductive balancer_run ::
  "(int64 \<Rightarrow> duration \<Rightarrow> int64) \<Rightarrow> duration \<Rightarrow> duration \<times> int \<Rightarrow> balancer_state \<Rightarrow> bool" for mix lat opts where
br_start: "balancer_run mix lat opts (newServiceState clock name, [], [])"
| br_step: "balancer_run mix lat opts x \<Longrightarrow> balancer_step mix lat opts x y \<Longrightarrow> balancer_run mix lat opts y"

section \<open>Topology updates leave the health data alone\<close>

text \<open>What topology events leave of the health data.\<close>

definition health :: "instanceState \<Rightarrow> int64 \<times> bool \<times> int64" where
  "health x = (inflight x, halfOpen x, ejectedUntil x)"

definition grown :: "serviceState \<Rightarrow> serviceState \<Rightarrow> bool" where
  "grown s s' \<longleftrightarrow> top s \<le> top s' \<and> (\<forall>a < top s. health (heap s' a) = health (heap s a))
     \<and> (\<forall>a. top s \<le> a \<and> a < top s' \<longrightarrow> health (heap s' a) = (0, False, 0))"

lemma grown_refl: "top s' = top s \<Longrightarrow> heap s' = heap s \<Longrightarrow> grown s s'"
  by (auto simp: grown_def)

lemma grown_trans: "grown s t \<Longrightarrow> grown t u \<Longrightarrow> grown s u"
  unfolding grown_def by (metis le_trans not_le order_less_le_trans)

lemma grown_upd: "(\<And>x. health (f x) = health x) \<Longrightarrow> grown s t \<Longrightarrow> grown s (upd a f t)"
  by (simp add: grown_def)

lemma grown_alloc: "alloc (newInstanceState i lat) s = (a, s1) \<Longrightarrow> grown s s1"
  by (auto simp: alloc_def grown_def newInstanceState_def health_def)

lemma grown_renew: "renew old i lat s = (a, s1) \<Longrightarrow> grown s s1"
  using grown_alloc [of i lat s a s1] grown_upd [OF _ grown_refl [OF refl refl], of "\<lambda>x. x\<lparr>inst := i\<rparr>" s]
  by (auto simp: renew_def health_def split: option.splits if_splits)

lemma grown_replace_loop: "replace_loop old lat xs s m its = (s', m', its') \<Longrightarrow> grown s s'"
proof (induction old lat xs s m its arbitrary: s' m' its' rule: replace_loop.induct)
  case (2 old lat i rest s m its)
  obtain a s1 where r: "renew (old (ID i)) i lat s = (a, s1)" by fastforce
  have "grown (upd a (\<lambda>x. x\<lparr>index := length its\<rparr>) s1) s'" by (rule "2.IH" [OF r [symmetric], of s' m' its']) (use "2.prems" r in \<open>simp del: fun_upd_apply\<close>)
  moreover have "grown s (upd a (\<lambda>x. x\<lparr>index := length its\<rparr>) s1)"
    by (rule grown_upd [OF _ grown_renew [OF r]]) (simp add: health_def)
  ultimately show ?case using grown_trans by blast
qed (simp add: grown_refl)

lemma grown_frame: "grown s t \<Longrightarrow> top u = top t \<Longrightarrow> heap u = heap t \<Longrightarrow> grown s u"
  by (simp add: grown_def)

lemma grown_putLocked: "grown s (putLocked i lat s)"
proof (cases "instances s (ID i)")
  case None
  obtain a s1 where r: "alloc (newInstanceState i lat) s = (a, s1)" by fastforce
  have "grown s (upd a (\<lambda>x. x\<lparr>index := length (items s)\<rparr>) s1)" by (rule grown_upd [OF _ grown_alloc [OF r]]) (simp add: health_def)
  then show ?thesis using None r by (elim grown_frame) (simp_all add: putLocked_def)
next
  case (Some prev)
  obtain a s1 where r: "renew (Some prev) i lat s = (a, s1)" by fastforce
  have "grown s (upd a (\<lambda>x. x\<lparr>index := index (heap s prev)\<rparr>) s1)" by (rule grown_upd [OF _ grown_renew [OF r]]) (simp add: health_def)
  then show ?thesis using Some r by (elim grown_frame) (simp_all add: putLocked_def Let_def)
qed

lemma grown_removeLocked: "grown s (removeLocked x s)"
  by (auto simp: removeLocked_def Let_def grown_def health_def split: option.splits)

lemma grown_replaceLocked: "grown s (replaceLocked xs lat s)"
proof -
  obtain s1 m its where r: "replace_loop (instances s) lat xs s Map.empty [] = (s1, m, its)" by (rule prod_cases3)
  show ?thesis using grown_replace_loop [OF r] r by (elim grown_frame) (simp_all add: replaceLocked_def)
qed

lemma grown_event: "grown s (apply_event lat e n s)"
  using grown_frame [OF grown_putLocked] grown_frame [OF grown_removeLocked] grown_frame [OF grown_replaceLocked]
  by (cases e) (auto simp: apply_event_def putAt_def removeAt_def replaceAt_def advanceRevision_def intro: grown_refl)

lemma topo_same:
  assumes "topo_ok s" and "top s' = top s" "instances s' = instances s" "items s' = items s"
    and "\<And>a. inst (heap s' a) = inst (heap s a) \<and> index (heap s' a) = index (heap s a)"
  shows "topo_ok s'"
  using assms by (simp add: topo_ok_def slice_ok_def)

section \<open>What the in-flight counters count\<close>

definition open_on :: "addr \<Rightarrow> resolution list \<Rightarrow> nat" where
  "open_on a rs = length (filter (\<lambda>r. selected r = a \<and> \<not> reported r) rs)"

text \<open>
  The calls that hold a count of \<open>a\<close> besides: a pick that has added it and has no resolution yet, and an accepted report
  that has not given it back.
\<close>

fun holding :: "resolution list \<Rightarrow> addr \<Rightarrow> call \<Rightarrow> bool" where
  "holding rs a (StoreLastUsed now b) = (b = a)"
| "holding rs a (Bind b) = (b = a)"
| "holding rs a (LoadInflight res k now) = (selected (rs ! k) = a)"
| "holding rs a (SwapInflight res k now n) = (selected (rs ! k) = a)"
| "holding rs a c = False"

definition held_on :: "addr \<Rightarrow> resolution list \<Rightarrow> call list \<Rightarrow> nat" where
  "held_on a rs cs = length (filter (holding rs a) cs)"

text \<open>The resolution whose report a call is, once the call has won its status.\<close>

fun accepted :: "call \<Rightarrow> nat option" where
  "accepted (LoadInflight res k now) = Some k"
| "accepted (SwapInflight res k now n) = Some k"
| "accepted (CheckValid res k now) = Some k"
| "accepted (LoadEwma res k now) = Some k"
| "accepted (SwapEwma res k now old) = Some k"
| "accepted (SuccessFailures k) = Some k"
| "accepted (SuccessUntil k) = Some k"
| "accepted (SuccessHalfOpen k) = Some k"
| "accepted (AddFailures k now) = Some k"
| "accepted (LoadHalfOpen k now n) = Some k"
| "accepted (EjectFailures k now) = Some k"
| "accepted (EjectHalfOpen k now) = Some k"
| "accepted (EjectUntil k now) = Some k"
| "accepted (Reported k e) = (if e = None then Some k else None)"
| "accepted c = None"

definition accepted_on :: "nat \<Rightarrow> call list \<Rightarrow> nat" where
  "accepted_on k cs = length (filter (\<lambda>c. accepted c = Some k) cs)"

text \<open>The addresses and resolutions a call names exist.\<close>

fun call_ok :: "addr \<Rightarrow> nat \<Rightarrow> call \<Rightarrow> bool" where
  "call_ok n m (LoadUntil now a sec) = (a < n \<and> (\<forall>b. sec = Some b \<longrightarrow> b < n))"
| "call_ok n m (SwapHalfOpen now a sec) = (a < n \<and> (\<forall>b. sec = Some b \<longrightarrow> b < n))"
| "call_ok n m (AddInflight now a) = (a < n)"
| "call_ok n m (StoreLastUsed now a) = (a < n)"
| "call_ok n m (Bind a) = (a < n)"
| "call_ok n m (Check res k) = (k < m)"
| "call_ok n m (SwapStatus res k) = (k < m)"
| "call_ok n m (Picked r) = True"
| "call_ok n m c = (case accepted c of Some k \<Rightarrow> k < m | None \<Rightarrow> True)"

definition balancer_ok :: "balancer_state \<Rightarrow> bool" where
  "balancer_ok x \<longleftrightarrow> (case x of (s, rs, cs) \<Rightarrow>
     topo_ok s \<and> (\<forall>r \<in> set rs. selected r < top s) \<and> (\<forall>c \<in> set cs. call_ok (top s) (length rs) c)
     \<and> (\<forall>a < top s. inflight (heap s a) = int (open_on a rs + held_on a rs cs))
     \<and> (\<forall>k < length rs. accepted_on k cs = of_bool (reported (rs ! k))))"

lemma accepted_bound: "call_ok n m c \<Longrightarrow> accepted c = Some k \<Longrightarrow> k < m"
  by (cases c) (auto split: if_splits)

lemma call_ok_mono: "call_ok n m c \<Longrightarrow> n \<le> n' \<Longrightarrow> m \<le> m' \<Longrightarrow> call_ok n' m' c"
  by (cases c) (auto split: option.splits)

lemma holding_same:
  "call_ok n (length rs) c \<Longrightarrow> (\<And>k. k < length rs \<Longrightarrow> selected (rs' ! k) = selected (rs ! k)) \<Longrightarrow> holding rs' a c = holding rs a c"
  by (cases c) auto

lemma length_filter_update:
  "j < length cs \<Longrightarrow> length (filter P (cs[j := c])) + of_bool (P (cs ! j)) = length (filter P cs) + of_bool (P c)"
proof -
  assume j: "j < length cs"
  then have "filter P cs = filter P (take j cs) @ filter P (cs ! j # drop (Suc j) cs)" by (metis filter_append id_take_nth_drop)
  then show ?thesis using j by (simp add: upd_conv_take_nth_drop)
qed

lemma open_on_append: "open_on a (rs @ [r]) = open_on a rs + of_bool (selected r = a \<and> \<not> reported r)"
  by (simp add: open_on_def)

lemma open_on_report:
  "k < length rs \<Longrightarrow> \<not> reported (rs ! k) \<Longrightarrow>
    open_on a (rs[k := (rs ! k)\<lparr>reported := True\<rparr>]) + of_bool (selected (rs ! k) = a) = open_on a rs"
  using length_filter_update [of k rs "\<lambda>r. selected r = a \<and> \<not> reported r" "(rs ! k)\<lparr>reported := True\<rparr>"]
  by (simp add: open_on_def)

lemma open_on_fresh: "(\<forall>r \<in> set rs. selected r < a) \<Longrightarrow> open_on a rs = 0"
  by (auto simp: open_on_def filter_empty_conv)

lemma open_on_le: "open_on a rs \<le> length rs"
  by (simp add: open_on_def)

lemma held_on_le: "held_on a rs cs \<le> length cs"
  by (simp add: held_on_def)

section \<open>One atomic operation\<close>

lemma advance_frame:
  "advance mix opts clock c s rs = (c', s', rs') \<Longrightarrow>
    top s' = top s \<and> instances s' = instances s \<and> items s' = items s
    \<and> (\<forall>b. inst (heap s' b) = inst (heap s b) \<and> index (heap s' b) = index (heap s b))"
  by (cases c) (auto simp: Let_def upd_def split: if_splits)

lemma selected_update: "k < length rs \<Longrightarrow> selected (rs[j := (rs ! j)\<lparr>reported := True\<rparr>] ! k) = selected (rs ! k)"
  by (cases "j = k") auto

lemma advance_resolutions:
  "advance mix opts clock c s rs = (c', s', rs') \<Longrightarrow>
    length rs \<le> length rs' \<and> (\<forall>k < length rs. selected (rs' ! k) = selected (rs ! k))"
  by (cases c) (auto simp: Let_def nth_append selected_update split: if_splits)

lemma advance_call_ok:
  assumes "advance mix opts clock c s rs = (c', s', rs')" and "call_ok (top s) (length rs) c" and "\<forall>r \<in> set rs. selected r < top s"
  shows "call_ok (top s) (length rs') c' \<and> (\<forall>r \<in> set rs'. selected r < top s)"
proof (intro conjI ballI)
  show "call_ok (top s) (length rs') c'" using assms by (cases c) (auto simp: Let_def split: if_splits option.splits)
next
  fix r assume r: "r \<in> set rs'"
  show "selected r < top s"
  proof (cases "\<exists>res k. c = SwapStatus res k")
    case True
    then obtain res k where c: "c = SwapStatus res k" by blast
    then have "r \<in> set rs \<or> (k < length rs \<and> r = (rs ! k)\<lparr>reported := True\<rparr>)"
      using r assms(1,2) set_update_subset_insert [of rs k "(rs ! k)\<lparr>reported := True\<rparr>"] by (auto split: if_splits)
    then show ?thesis using assms(3) nth_mem by fastforce
  next
    case False
    then show ?thesis using r assms by (cases c) (auto simp: Let_def newResolution_def split: if_splits)
  qed
qed

lemma advance_counts:
  assumes "advance mix opts clock c s rs = (c', s', rs')" and "call_ok (top s) (length rs) c"
    and "of_bool (holding rs a c) \<le> inflight (heap s a)" and "inflight (heap s a) < MaxInt64"
  shows "inflight (heap s' a) + int (open_on a rs) + of_bool (holding rs a c)
    = inflight (heap s a) + int (open_on a rs') + of_bool (holding rs' a c')"
proof (cases c)
  case (AddInflight now b)
  have "i64 (inflight (heap s b) + 1) = inflight (heap s b) + 1" if "b = a"
    using assms(3,4) that by (cases "holding rs a c") (auto intro!: i64_id simp: in_i64_def MinInt64_def)
  then show ?thesis using assms(1) AddInflight by (auto simp: upd_def)
next
  case (Bind b)
  then show ?thesis using assms(1) by (auto simp: open_on_append newResolution_def)
next
  case (SwapStatus res k)
  show ?thesis
  proof (cases "reported (rs ! k)")
    case False
    then show ?thesis using assms(1,2) SwapStatus open_on_report [of k rs a] by (auto simp: nth_list_update)
  qed (use assms(1) SwapStatus in auto)
next
  case (SwapInflight res k now n)
  then show ?thesis using assms(1) by (auto simp: Let_def upd_def split: if_splits)
next
  case (LoadInflight res k now)
  then show ?thesis using assms(1,3) by (auto simp: Let_def split: if_splits)
qed (use assms(1) in \<open>auto simp: Let_def upd_def split: if_splits option.splits\<close>)

lemma advance_accepted:
  assumes "advance mix opts clock c s rs = (c', s', rs')" and "call_ok (top s) (length rs) c"
  shows "k < length rs \<Longrightarrow>
      of_bool (accepted c' = Some k) + of_bool (reported (rs ! k)) = (of_bool (accepted c = Some k) + of_bool (reported (rs' ! k)) :: nat)"
    and "length rs \<le> k \<Longrightarrow> k < length rs' \<Longrightarrow> accepted c' \<noteq> Some k \<and> \<not> reported (rs' ! k)"
  using assms
  by (cases c; auto simp: Let_def nth_append nth_list_update newResolution_def split: if_splits option.splits)+

section \<open>The invariant\<close>

lemma counted_step:
  assumes ok: "balancer_ok (s, rs, cs)" and j: "j < length cs" and adv: "advance mix opts clock (cs ! j) s rs = (c, s', rs')"
    and a: "a < top s" and bound: "int (length rs + length cs) < MaxInt64"
  shows "inflight (heap s' a) = int (open_on a rs' + held_on a rs' (cs[j := c]))"
proof -
  note R = advance_resolutions [OF adv]
  have c: "\<forall>x \<in> set cs. call_ok (top s) (length rs) x" and inv: "inflight (heap s a) = int (open_on a rs + held_on a rs cs)"
    using ok a by (auto simp: balancer_ok_def)
  have cj: "call_ok (top s) (length rs) (cs ! j)" using c j by simp
  have same: "filter (holding rs' a) cs = filter (holding rs a) cs"
    using c R holding_same [of "top s" rs _ rs' a] by (intro filter_cong) auto
  have upd: "held_on a rs' (cs[j := c]) + of_bool (holding rs a (cs ! j)) = held_on a rs cs + of_bool (holding rs' a c)"
    using length_filter_update [OF j, of "holding rs' a" c] holding_same [OF cj, of rs' a] R by (simp add: held_on_def same)
  have "of_bool (holding rs a (cs ! j)) \<le> held_on a rs cs"
  proof (cases "holding rs a (cs ! j)")
    case True
    then have "cs ! j \<in> set (filter (holding rs a) cs)" using j by simp
    then have "filter (holding rs a) cs \<noteq> []" by force
    then show ?thesis by (simp add: held_on_def Suc_le_eq)
  qed simp
  then have lo: "of_bool (holding rs a (cs ! j)) \<le> inflight (heap s a)" unfolding inv by (cases "holding rs a (cs ! j)") auto
  have hi: "inflight (heap s a) < MaxInt64" using inv open_on_le [of a rs] held_on_le [of a rs cs] bound by linarith
  have u: "int (held_on a rs' (cs[j := c])) + of_bool (holding rs a (cs ! j)) = int (held_on a rs cs) + of_bool (holding rs' a c)"
    using upd by (cases "holding rs a (cs ! j)"; cases "holding rs' a c") simp_all
  show ?thesis using advance_counts [OF adv cj lo hi] inv u by linarith
qed

lemma accepted_step:
  assumes ok: "balancer_ok (s, rs, cs)" and j: "j < length cs" and adv: "advance mix opts clock (cs ! j) s rs = (c, s', rs')"
    and k: "k < length rs'"
  shows "accepted_on k (cs[j := c]) = of_bool (reported (rs' ! k))"
proof -
  have c: "\<forall>x \<in> set cs. call_ok (top s) (length rs) x" using ok by (auto simp: balancer_ok_def)
  then have cj: "call_ok (top s) (length rs) (cs ! j)" using j by simp
  note U = length_filter_update [OF j, of "\<lambda>x. accepted x = Some k" c]
  show ?thesis
  proof (cases "k < length rs")
    case True
    then have "accepted_on k cs = of_bool (reported (rs ! k))" using ok by (auto simp: balancer_ok_def)
    then show ?thesis using advance_accepted(1) [OF adv cj True] U by (simp add: accepted_on_def)
  next
    case False
    have "accepted x \<noteq> Some k" if "x \<in> set cs" for x using c that False accepted_bound by blast
    then have "filter (\<lambda>x. accepted x = Some k) cs = []" and "accepted (cs ! j) \<noteq> Some k" using j by (auto simp: filter_empty_conv)
    then show ?thesis using advance_accepted(2) [OF adv cj _ k] U False by (simp add: accepted_on_def)
  qed
qed

lemma balancer_step_ok:
  assumes "balancer_step mix lat opts x y" and "balancer_ok x" and "int (length (fst (snd x)) + length (snd (snd x))) < MaxInt64"
  shows "balancer_ok y"
  using assms(1)
proof cases
  case (bs_event e cs s rs n)
  let ?s = "apply_event lat e n s"
  have ok: "topo_ok ?s" using assms(2) bs_event by (intro cache.apply_invar) (simp_all add: balancer_ok_def)
  have g: "grown s ?s" by (rule grown_event)
  have inv: "\<forall>r \<in> set rs. selected r < top s" "\<forall>c \<in> set cs. call_ok (top s) (length rs) c"
    "\<And>a. a < top s \<Longrightarrow> inflight (heap s a) = int (open_on a rs + held_on a rs cs)" "\<And>k. k < length rs \<Longrightarrow> accepted_on k cs = of_bool (reported (rs ! k))"
    using assms(2) bs_event(1) by (auto simp: balancer_ok_def)
  have "inflight (heap ?s a) = int (open_on a rs + held_on a rs cs)" if a: "a < top ?s" for a
  proof (cases "a < top s")
    case True
    then show ?thesis using g inv(3) by (auto simp: grown_def health_def)
  next
    case False
    have "open_on a rs = 0" using inv(1) False by (intro open_on_fresh) force
    moreover have "\<not> holding rs a c" if "c \<in> set cs" for c
      using inv(1,2) that False by (cases c) (auto dest: nth_mem)
    ultimately show ?thesis using False a g by (simp add: grown_def health_def held_on_def filter_empty_conv)
  qed
  moreover have "top s \<le> top ?s" using g by (simp add: grown_def)
  ultimately show ?thesis using ok inv bs_event(2) by (auto simp: balancer_ok_def intro: call_ok_mono order_less_le_trans)
next
  case (bs_pick first s sec chosen rs cs x now)
  have t: "topo_ok s" using assms(2) bs_pick by (simp add: balancer_ok_def)
  then have "\<And>a. a \<in> set (items s) \<Longrightarrow> a < top s" using slice_okD(2) by (auto simp: topo_ok_def)
  then have "call_ok (top s) (length rs) (LoadUntil now chosen sec)" using bs_pick by auto
  moreover have "topo_ok (s\<lparr>rng := x\<rparr>)" by (rule topo_same [OF t]) simp_all
  ultimately show ?thesis using assms(2) bs_pick(1,2) by (auto simp: balancer_ok_def held_on_def accepted_on_def)
next
  case (bs_random s rs cs x)
  have "topo_ok (s\<lparr>rng := x\<rparr>)" by (rule topo_same) (use assms(2) bs_random in \<open>auto simp: balancer_ok_def\<close>)
  then show ?thesis using assms(2) bs_random by (auto simp: balancer_ok_def)
next
  case (bs_report k rs s cs res)
  then show ?thesis using assms(2) by (auto simp: balancer_ok_def held_on_def accepted_on_def)
next
  case (bs_advance j cs clock s rs c s' rs')
  have ok: "balancer_ok (s, rs, cs)" using assms(2) bs_advance(1) by simp
  note F = advance_frame [OF bs_advance(4)]
  have i: "\<forall>r \<in> set rs. selected r < top s" "\<forall>x \<in> set cs. call_ok (top s) (length rs) x" "topo_ok s" using ok by (auto simp: balancer_ok_def)
  note C = advance_call_ok [OF bs_advance(4) _ i(1)]
  have cj: "call_ok (top s) (length rs) (cs ! j)" using i(2) bs_advance(3) by simp
  have "topo_ok s'" using F by (intro topo_same [OF i(3)]) auto
  moreover have "call_ok (top s) (length rs') x" if x: "x \<in> set (cs[j := c])" for x
  proof -
    have "x = c \<or> x \<in> set cs" using x set_update_subset_insert [of cs j c] by blast
    then show ?thesis using C [OF cj] i(2) advance_resolutions [OF bs_advance(4)] call_ok_mono [of "top s" "length rs" x] by auto
  qed
  moreover have "inflight (heap s' a) = int (open_on a rs' + held_on a rs' (cs[j := c]))" if "a < top s" for a
    by (rule counted_step [OF ok bs_advance(3,4) that]) (use assms(3) bs_advance(1) in simp)
  moreover have "accepted_on k (cs[j := c]) = of_bool (reported (rs' ! k))" if "k < length rs'" for k
    by (rule accepted_step [OF ok bs_advance(3,4) that])
  ultimately show ?thesis using C [OF cj] F bs_advance(2) by (simp add: balancer_ok_def)
qed

lemma balancer_run_ok:
  "balancer_run mix lat opts x \<Longrightarrow> int (length (fst (snd x)) + length (snd (snd x))) < MaxInt64 \<Longrightarrow> balancer_ok x"
proof (induction rule: balancer_run.induct)
  case (br_start clock name)
  show ?case using new_topo_ok [of clock name] by (simp add: balancer_ok_def) (simp add: newServiceState_def Let_def)
next
  case (br_step x y)
  have "length (fst (snd x)) + length (snd (snd x)) \<le> length (fst (snd y)) + length (snd (snd y))"
    using br_step(2) by cases (auto dest: advance_resolutions)
  then show ?case using br_step balancer_step_ok by auto
qed

section \<open>Calls that nobody interrupts\<close>

primrec alone ::
  "(int64 \<Rightarrow> duration \<Rightarrow> int64) \<Rightarrow> duration \<times> int \<Rightarrow> int64 \<Rightarrow> nat \<Rightarrow> call \<Rightarrow> serviceState \<Rightarrow> resolution list
    \<Rightarrow> call \<times> serviceState \<times> resolution list" where
  "alone mix opts clock 0 c s rs = (c, s, rs)"
| "alone mix opts clock (Suc n) c s rs = (case advance mix opts clock c s rs of (c1, s1, rs1) \<Rightarrow> alone mix opts clock n c1 s1 rs1)"

text \<open>The operations of \<open>Kc_Balancer\<close> are the calls without interruption: the claim of \<open>pick\<close> and \<open>Report\<close>.\<close>

lemma pick_claim_alone:
  assumes "pick_claim now first sec s = (r, s')"
    and "chosen = (case sec of Some b \<Rightarrow> if score (heap s b) < score (heap s first) then b else first | None \<Rightarrow> first)"
  shows "alone mix opts clock 7 (LoadUntil now chosen sec) s rs
    = (case r of None \<Rightarrow> (Picked None, s', rs) | Some a \<Rightarrow> (Picked (Some (length rs)), s', rs @ [newResolution a (fst opts) (snd opts) s']))"
  using assms(1) unfolding pick_claim_def assms(2) [symmetric] Let_def
  by (auto simp: numeral_eq_Suc reserve_def Let_def upd_def split: option.splits if_splits)

lemma report_alone:
  "k < length rs \<Longrightarrow> Report mix res clock (rs ! k) s = (e, r', s') \<Longrightarrow>
    alone mix opts clock 12 (Check res k) s rs = (Reported k e, s', rs[k := r'])"
  by (auto simp: numeral_eq_Suc Report_def complete_def Let_def upd_def split: if_splits)

lemma alone_run:
  "balancer_run mix lat opts (s, rs, cs @ [c]) \<Longrightarrow> alone mix opts clock n c s rs = (c', s', rs') \<Longrightarrow>
    balancer_run mix lat opts (s', rs', cs @ [c'])"
proof (induction n arbitrary: c s rs)
  case (Suc n)
  obtain c1 s1 rs1 where a: "advance mix opts clock c s rs = (c1, s1, rs1)" by (rule prod_cases3)
  then have "balancer_step mix lat opts (s, rs, cs @ [c]) (s1, rs1, (cs @ [c])[length cs := c1])" by (intro bs_advance [of _ _ mix opts clock]) simp_all
  then have "balancer_run mix lat opts (s1, rs1, cs @ [c1])" using br_step [OF Suc.prems(1)] by simp
  then show ?case using Suc.IH Suc.prems(2) a by simp
qed simp

section \<open>The counters are exact\<close>

fun finished :: "call \<Rightarrow> bool" where
  "finished (Picked r) = True"
| "finished (Reported k e) = True"
| "finished c = False"

lemma finished_holds_none: "\<forall>c \<in> set cs. finished c \<Longrightarrow> held_on a rs cs = 0"
proof -
  assume f: "\<forall>c \<in> set cs. finished c"
  have "\<not> holding rs a c" if "c \<in> set cs" for c using f that by (cases c) auto
  then show ?thesis by (simp add: held_on_def filter_empty_conv)
qed

text \<open>
  In-flight counters (C18). Let any number of callers pick instances and report results while the topology changes,
  interleaved at every single load, store, add and compare-and-swap (with fewer than \<open>2^63\<close> calls and
  resolutions). At every moment the in-flight counter of every instance state, also one that has been replaced or
  removed meanwhile, is the number of its resolutions that nobody has reported yet plus the calls
  between the two atomic operations involved: picks that have counted and not yet returned their
  resolution, accepted reports that have not yet given their count back. So it is exactly the number of
  open resolutions whenever no call is under way, and the guard against a negative counter in
  \<open>complete\<close> never holds back a decrement. Of all the reports of a resolution exactly one is accepted, and a
  report that comes later fails without touching any state.
\<close>

theorem inflight_counts_open:
  assumes "balancer_run mix lat opts (s, rs, cs)" and "int (length rs + length cs) < MaxInt64"
  shows "set (items s) \<subseteq> {..<top s}
     \<and> (\<forall>a < top s. inflight (heap s a) = int (open_on a rs + held_on a rs cs))
     \<and> ((\<forall>c \<in> set cs. finished c) \<longrightarrow> (\<forall>a < top s. inflight (heap s a) = int (open_on a rs)))
     \<and> (\<forall>res k now. LoadInflight res k now \<in> set cs \<longrightarrow> 0 < inflight (heap s (selected (rs ! k))))
     \<and> (\<forall>k < length rs. accepted_on k cs = (if reported (rs ! k) then 1 else 0)
          \<and> (reported (rs ! k) \<longrightarrow> advance mix opts clock (SwapStatus res k) s rs = (Reported k (Some ErrAlreadyReported), s, rs)))"
proof -
  have ok: "balancer_ok (s, rs, cs)" using balancer_run_ok [OF assms(1)] assms(2) by simp
  then have n: "\<And>a. a < top s \<Longrightarrow> inflight (heap s a) = int (open_on a rs + held_on a rs cs)" by (simp add: balancer_ok_def)
  have "0 < inflight (heap s (selected (rs ! k)))" if c: "LoadInflight res k now \<in> set cs" for res k now
  proof -
    have "k < length rs" using ok c by (auto simp: balancer_ok_def)
    then have "selected (rs ! k) < top s" using ok by (simp add: balancer_ok_def)
    moreover have "LoadInflight res k now \<in> set (filter (holding rs (selected (rs ! k))) cs)" using c by simp
    then have "0 < held_on (selected (rs ! k)) rs cs" unfolding held_on_def by (metis length_pos_if_in_set)
    ultimately show ?thesis using n by simp
  qed
  moreover have "set (items s) \<subseteq> {..<top s}" using ok slice_okD(2) by (auto simp: balancer_ok_def topo_ok_def)
  ultimately show ?thesis using ok n by (auto simp: balancer_ok_def finished_holds_none)
qed

text \<open>Two picks of one instance, one of them after its first operation only.\<close>

definition keep_ewma :: "int64 \<Rightarrow> duration \<Rightarrow> int64" where
  "keep_ewma old l = old"

lemma demo_calls_run: "balancer_run keep_ewma 10 opts (demo_cache, [], [])"
proof -
  have p: "event_ok (Put i)" for i by (simp add: event_ok_def)
  have "balancer_run keep_ewma 10 opts (apply_event 10 (Put (demo_inst ''b'')) 2 (apply_event 10 (Put (demo_inst ''a'')) 1 (newServiceState 1 ''s'')), [], [])"
    by (rule br_step [OF br_step [OF br_start bs_event [OF p]] bs_event [OF p]]) simp_all
  then show ?thesis by (simp add: demo_cache_def)
qed

lemma pick_run:
  assumes "balancer_run mix lat opts (s, rs, cs)" and "a \<in> set (items s)"
  shows "balancer_run mix lat opts (s, rs, cs @ [LoadUntil now a None])"
  using br_step [OF assms(1) bs_pick [of a s None a, OF assms(2), of mix lat opts rs cs "rng s" now]] by simp

lemma report_run:
  assumes "balancer_run mix lat opts (s, rs, cs)" and "k < length rs"
  shows "balancer_run mix lat opts (s, rs, cs @ [Check res k])"
  by (rule br_step [OF assms(1) bs_report [OF assms(2)]])

theorem inflight_counts_open_witness:
  "\<exists>s rs. balancer_run keep_ewma 10 (30, 3) (s, rs, [Picked (Some 0), AddInflight 100 0]) \<and> length rs = 1 \<and> inflight (heap s 0) = int (open_on 0 rs)
     \<and> open_on 0 rs = 1"
proof -
  let ?s = "(upd 0 (claimed_state 100) demo_cache)\<lparr>lastUsed := 100\<rparr>"
  let ?rs = "[newResolution 0 30 3 ?s]"
  note d = demo_cache_simps newInstanceState_def
  have "balancer_run keep_ewma 10 (30, 3) (demo_cache, [], [] @ [LoadUntil 100 0 None])"
    using pick_run [OF demo_calls_run] by (simp add: d)
  then have "balancer_run keep_ewma 10 (30, 3) (?s, ?rs, [] @ [Picked (Some 0)])"
    by (rule alone_run [where n = 4 and clock = 0]) (simp add: numeral_eq_Suc d upd_def claimed_state_def newResolution_def)
  then have "balancer_run keep_ewma 10 (30, 3) (?s, ?rs, [Picked (Some 0)] @ [LoadUntil 100 0 None])"
    using pick_run [of keep_ewma 10 "(30, 3)" ?s ?rs "[Picked (Some 0)]" 0] by (simp add: d)
  then have run: "balancer_run keep_ewma 10 (30, 3) (?s, ?rs, [Picked (Some 0)] @ [AddInflight 100 0])"
    by (rule alone_run [where n = 1 and clock = 0]) (simp add: numeral_eq_Suc d upd_def claimed_state_def newResolution_def)
  have "int (length ?rs + length ([Picked (Some 0)] @ [AddInflight 100 0])) < MaxInt64" by (simp add: MaxInt64_def)
  note I = inflight_counts_open [OF run this, of 0 undefined]
  have "0 < top ?s" using I by (auto simp: d)
  then have "inflight (heap ?s 0) = int (open_on 0 ?rs + held_on 0 ?rs ([Picked (Some 0)] @ [AddInflight 100 0]))" using I by blast
  then show ?thesis using run by (intro exI [of _ ?s] exI [of _ ?rs]) (simp add: held_on_def open_on_def newResolution_def)
qed

text \<open>
  The half-open mark is not part of the invariant. A pick that has read the expired ejection, is overtaken by the report
  of a success, and then swaps the mark leaves it on an instance that is not ejected any more:
  \<open>pick\<close> and \<open>complete\<close> test and clear the two fields one after the other. The next failure then ejects the
  instance whatever the failure threshold is.
\<close>

definition probed :: instanceState where
  "probed = (newInstanceState (demo_inst ''a'') 10)\<lparr>inflight := 2\<rparr>"

lemma two_picks_run:
  "\<exists>s rs. balancer_run keep_ewma 10 (30, 1) (s, rs, [Picked (Some 0), Picked (Some 1)]) \<and> items s = [0, 1] \<and> instances s ''a'' = Some 0
     \<and> heap s 0 = probed \<and> rs = [newResolution 0 30 1 s, newResolution 0 30 1 s]"
proof -
  let ?s = "\<lambda>n. (upd 0 (\<lambda>x. x\<lparr>inflight := n\<rparr>) demo_cache)\<lparr>lastUsed := 100\<rparr>"
  note d = demo_cache_simps newInstanceState_def demo_inst_def
  have "balancer_run keep_ewma 10 (30, 1) (demo_cache, [], [] @ [LoadUntil 100 0 None])" using pick_run [OF demo_calls_run] by (simp add: d)
  then have "balancer_run keep_ewma 10 (30, 1) (?s 1, [newResolution 0 30 1 demo_cache], [] @ [Picked (Some 0)])"
    by (rule alone_run [where n = 4 and clock = 0]) (simp add: numeral_eq_Suc d upd_def newResolution_def i64_def)
  then have "balancer_run keep_ewma 10 (30, 1) (?s 1, [newResolution 0 30 1 demo_cache], [Picked (Some 0)] @ [LoadUntil 100 0 None])"
    using pick_run [of keep_ewma 10 "(30, 1)" "?s 1" _ "[Picked (Some 0)]" 0] by (simp add: d)
  then have "balancer_run keep_ewma 10 (30, 1)
      (?s 2, [newResolution 0 30 1 demo_cache, newResolution 0 30 1 demo_cache], [Picked (Some 0)] @ [Picked (Some 1)])"
    by (rule alone_run [where n = 4 and clock = 0]) (simp add: numeral_eq_Suc d upd_def newResolution_def i64_def)
  then show ?thesis by (intro exI [of _ "?s 2"] exI) (auto simp: newResolution_def upd_def d probed_def)
qed

theorem half_open_without_ejection:
  "\<exists>s rs cs. balancer_run keep_ewma 10 (30, 1) (s, rs, cs) \<and> 0 \<in> set (items s) \<and> halfOpen (heap s 0) \<and> ejectedUntil (heap s 0) = 0"
proof -
  obtain s rs where run: "balancer_run keep_ewma 10 (30, 1) (s, rs, [Picked (Some 0), Picked (Some 1)])" and it: "items s = [0, 1]"
    and m: "instances s ''a'' = Some 0" and h: "heap s 0 = probed" and rs: "rs = [newResolution 0 30 1 s, newResolution 0 30 1 s]"
    using two_picks_run by blast
  let ?bad = "\<lparr>Outcome = OutcomeFailure, Latency = 1\<rparr>" and ?good = "\<lparr>Outcome = OutcomeSuccess, Latency = 1\<rparr>"
  let ?x = "newResolution 0 30 1 s"
  let ?s1 = "upd 0 (\<lambda>y. probed\<lparr>inflight := 1, ejectedUntil := 130\<rparr>) s" and ?s2 = "upd 0 (\<lambda>y. probed\<lparr>inflight := 0\<rparr>) s"
  let ?rs1 = "[?x\<lparr>reported := True\<rparr>, ?x]" and ?cs1 = "[Picked (Some 0), Picked (Some 1)] @ [Reported 0 None]"
  let ?rs2 = "[?x\<lparr>reported := True\<rparr>, ?x\<lparr>reported := True\<rparr>]" and ?cs2 = "?cs1 @ [SwapHalfOpen 200 0 None]"
  note d = h m probed_def newInstanceState_def demo_inst_def newResolution_def validResult_def OutcomeFailure_def OutcomeSuccess_def
    Report_def complete_def Let_def i64_def i32_def upd_def keep_ewma_def
  have "balancer_run keep_ewma 10 (30, 1) (s, rs, [Picked (Some 0), Picked (Some 1)] @ [Check ?bad 0])" by (rule report_run [OF run]) (simp add: rs)
  moreover have "alone keep_ewma (30, 1) 100 12 (Check ?bad 0) s rs = (Reported 0 None, ?s1, rs[0 := ?x\<lparr>reported := True\<rparr>])"
    by (rule report_alone) (simp_all add: rs d)
  ultimately have "balancer_run keep_ewma 10 (30, 1) (?s1, ?rs1, ?cs1)" using alone_run rs by fastforce
  then have "balancer_run keep_ewma 10 (30, 1) (?s1, ?rs1, ?cs1 @ [LoadUntil 200 0 None])" by (rule pick_run) (simp add: it upd_def)
  then have "balancer_run keep_ewma 10 (30, 1) (?s1, ?rs1, ?cs2)"
    by (rule alone_run [where n = 1 and clock = 0]) (simp add: d)
  then have "balancer_run keep_ewma 10 (30, 1) (?s1, ?rs1, ?cs2 @ [Check ?good 1])" by (rule report_run) simp
  moreover have "alone keep_ewma (30, 1) 200 12 (Check ?good 1) ?s1 ?rs1 = (Reported 1 None, ?s2, ?rs1[1 := ?x\<lparr>reported := True\<rparr>])"
    by (rule report_alone) (simp_all add: d)
  ultimately have run2: "balancer_run keep_ewma 10 (30, 1) (?s2, ?rs2, ?cs2 @ [Reported 1 None])" using alone_run by fastforce
  have "balancer_step keep_ewma 10 (30, 1) (?s2, ?rs2, ?cs2 @ [Reported 1 None])
      (upd 0 (\<lambda>y. y\<lparr>halfOpen := True\<rparr>) ?s2, ?rs2, (?cs2 @ [Reported 1 None])[3 := AddInflight 200 0])"
    by (rule bs_advance [where clock = 0]) (simp_all add: d)
  from br_step [OF run2 this] show ?thesis
    by (intro exI conjI) (assumption | simp add: it upd_def probed_def newInstanceState_def)+
qed

end
