(* ===== verification/Kc_Path.thy ===== *)
theory Kc_Path
  imports Kc_Text
begin

text \<open>
  The functions of Go's package \<open>path\<close> and of \<open>strings\<close> that \<open>src/pkg/registry/etcd/registry.go\<close> uses to
  build and take apart etcd keys: \<open>Clean\<close>, \<open>Join\<close>, \<open>Base\<close>, \<open>TrimPrefix\<close>, \<open>Contains\<close>.
\<close>

fun components :: "string \<Rightarrow> string list" where
  "components [] = [[]]"
| "components (c # cs) = (if c = CHR ''/'' then [] # components cs else (case components cs of [] \<Rightarrow> [[c]] | w # ws \<Rightarrow> (c # w) # ws))"

fun join_slash :: "string list \<Rightarrow> string" where
  "join_slash [] = []"
| "join_slash [w] = w"
| "join_slash (w # v # ws) = w @ ''/'' @ join_slash (v # ws)"

text \<open>One element of \<open>Clean\<close>; the kept elements are in reverse order.\<close>

definition clean_step :: "bool \<Rightarrow> string \<Rightarrow> string list \<Rightarrow> string list" where
  "clean_step rooted w out =
     (if w = [] \<or> w = ''.'' then out
      else if w = ''..'' then
        (case out of
           v # vs \<Rightarrow> if v \<noteq> ''..'' then vs else w # out
         | [] \<Rightarrow> if rooted then [] else [w])
      else w # out)"

definition Clean :: "string \<Rightarrow> string" where
  "Clean p =
     (if p = [] then ''.''
      else
        let rooted = (hd p = CHR ''/''); out = rev (fold (clean_step rooted) (components p) []) in
        if rooted then ''/'' @ join_slash out else if out = [] then ''.'' else join_slash out)"

fun join_buf :: "string \<Rightarrow> string list \<Rightarrow> string" where
  "join_buf buf [] = buf"
| "join_buf buf (e # es) =
     (if buf \<noteq> [] \<or> e \<noteq> [] then join_buf (if buf \<noteq> [] then buf @ ''/'' @ e else e) es else join_buf buf es)"

definition Join :: "string list \<Rightarrow> string" where
  "Join es = (if join_buf [] es = [] then [] else Clean (join_buf [] es))"

definition Base :: "string \<Rightarrow> string" where
  "Base p =
     (if p = [] then ''.''
      else let q = rev (dropWhile (\<lambda>c. c = CHR ''/'') (rev p)); r = rev (takeWhile (\<lambda>c. c \<noteq> CHR ''/'') (rev q)) in
        if r = [] then ''/'' else r)"

definition TrimPrefix :: "string \<Rightarrow> string \<Rightarrow> string" where
  "TrimPrefix s pre = (if take (length pre) s = pre then drop (length pre) s else s)"

text \<open>A segment: not empty, no slash, neither dot nor double dot.\<close>

definition segment :: "string \<Rightarrow> bool" where
  "segment w \<longleftrightarrow> w \<noteq> [] \<and> w \<noteq> ''.'' \<and> w \<noteq> ''..'' \<and> CHR ''/'' \<notin> set w"

lemma components_no_slash: "CHR ''/'' \<notin> set w \<Longrightarrow> components w = [w]"
  by (induction w) auto

lemma components_ne [simp]: "components p \<noteq> []"
  by (induction p) (auto split: list.splits)

lemma components_append: "components (p @ ''/'' @ q) = components p @ components q"
proof (induction p)
  case (Cons c cs)
  then show ?case using components_ne [of cs] by (cases "components cs") auto
qed simp

lemma join_slash_snoc: "ws \<noteq> [] \<Longrightarrow> join_slash (ws @ [w]) = join_slash ws @ ''/'' @ w"
  by (induction ws rule: join_slash.induct) auto

lemma clean_step_segment: "segment w \<Longrightarrow> clean_step r w out = w # out"
  by (simp add: segment_def clean_step_def)

lemma clean_step_ne: "[] \<notin> set out \<Longrightarrow> [] \<notin> set (clean_step r w out)"
  by (auto simp: clean_step_def split: list.splits)

lemma fold_clean_step_ne: "[] \<notin> set out \<Longrightarrow> [] \<notin> set (fold (clean_step r) ws out)"
proof (induction ws arbitrary: out)
  case (Cons w ws)
  then show ?case using clean_step_ne [of out r w] by simp
qed simp

text \<open>Appending segments commutes with \<open>Clean\<close>.\<close>

lemma Clean_segment:
  assumes "segment w" and "p \<noteq> []" and "hd p = CHR ''/''"
  shows "Clean (p @ ''/'' @ w) = (if Clean p = ''/'' then ''/'' @ w else Clean p @ ''/'' @ w)"
proof -
  let ?out = "rev (fold (clean_step True) (components p) [])"
  have ne: "join_slash ws \<noteq> []" if "ws \<noteq> []" "[] \<notin> set ws" for ws using that by (induction ws rule: join_slash.induct) auto
  have c: "Clean p = ''/'' @ join_slash ?out" using assms(2,3) by (simp add: Clean_def Let_def)
  have "hd (p @ ''/'' @ w) = CHR ''/''" using assms(2,3) by simp
  then have cw: "Clean (p @ ''/'' @ w) = ''/'' @ join_slash (?out @ [w])"
    using assms components_append [of p w] components_no_slash [of w]
    by (simp add: Clean_def Let_def clean_step_segment segment_def)
  show ?thesis
  proof (cases "?out = []")
    case False
    then have "join_slash ?out \<noteq> []" using ne [OF False] fold_clean_step_ne [of "[]" True "components p"] by auto
    then show ?thesis using False cw c join_slash_snoc [OF False, of w] by simp
  qed (use cw c in simp)
qed

section \<open>Trimming\<close>

text \<open>The runes of a string, each with its bytes; a byte that starts no valid encoding is one of its own.\<close>

function runes :: "string \<Rightarrow> string list" where
  "runes s = (if s = [] then [] else take (max 1 (rune_size s)) s # runes (drop (max 1 (rune_size s)) s))"
  by pat_completeness auto
termination
  by (relation "measure length") auto

declare runes.simps [simp del]

definition space_rune :: "string \<Rightarrow> bool" where
  "space_rune w \<longleftrightarrow> is_space (rune_value w)"

definition TrimSpace :: "string \<Rightarrow> string" where
  "TrimSpace s = concat (rev (dropWhile space_rune (rev (dropWhile space_rune (runes s)))))"

lemma runes_Nil [simp]: "runes [] = []"
  by (simp add: runes.simps [of "[]"])

lemma runes_code [code]:
  "runes [] = []"
  "runes (c # cs) = (let n = max 1 (rune_size (c # cs)) in take n (c # cs) # runes (drop n (c # cs)))"
  by (simp_all add: runes.simps [of "c # cs"] Let_def)

lemma concat_runes: "concat (runes s) = s"
proof (induction s rule: runes.induct)
  case (1 s)
  then show ?case by (cases "s = []") (simp_all add: runes.simps [of s])
qed

lemma runes_ascii: "\<forall>x \<in> set s. byte x < 128 \<Longrightarrow> runes s = map (\<lambda>c. [c]) s"
proof (induction s)
  case (Cons c cs)
  then have "rune_size (c # cs) = 1" by (simp add: rune_size_def)
  then show ?case using Cons by (simp add: runes.simps [of "c # cs"])
qed simp

lemma space_rune_ascii: "byte c < 128 \<Longrightarrow> space_rune [c] = is_space (byte c)"
  by (simp add: space_rune_def rune_value_def rune_size_def)

text \<open>Nothing is trimmed from an ASCII string with no space at its ends.\<close>

lemma TrimSpace_plain:
  assumes "s \<noteq> []" and "\<forall>x \<in> set s. byte x < 128" and "\<not> is_space (byte (hd s))" and "\<not> is_space (byte (last s))"
  shows "TrimSpace s = s"
proof -
  let ?r = "map (\<lambda>c. [c]) s"
  have "dropWhile space_rune ?r = ?r" using assms space_rune_ascii [of "hd s"] by (cases s) auto
  moreover have "dropWhile space_rune (rev ?r) = rev ?r"
    using assms space_rune_ascii [of "last s"] by (cases s rule: rev_cases) auto
  moreover have "concat ?r = s" by (induction s) auto
  ultimately show ?thesis using runes_ascii [OF assms(2)] by (simp add: TrimSpace_def)
qed

lemma slash_not_space:
  assumes "w \<in> set (runes s)" and "CHR ''/'' \<in> set w"
  shows "\<not> space_rune w"
  using assms
proof (induction s rule: runes.induct)
  case (1 s)
  have ne: "s \<noteq> []" using "1.prems"(1) by (auto simp: runes.simps [of s])
  then obtain c cs where s: "s = c # cs" by (cases s) auto
  show ?case
  proof (cases "w = take (max 1 (rune_size s)) s")
    case True
    have big: "byte (CHR ''/'') = 47" by (simp add: byte_def)
    have "rune_size s \<le> 1"
    proof (rule ccontr)
      assume "\<not> rune_size s \<le> 1"
      then have "rune2 s \<and> rune_size s = 2 \<or> rune3 s \<and> rune_size s = 3 \<or> rune4 s \<and> rune_size s = 4"
        by (auto simp: rune_size_def split: if_splits)
      then have "\<forall>x \<in> set (take (rune_size s) s). 128 \<le> byte x"
        by (auto simp: cont_byte_def byte_in_def numeral_eq_Suc elim!: rune2.elims rune3.elims rune4.elims)
      then show False using True "1.prems"(2) big \<open>\<not> rune_size s \<le> 1\<close> by (auto simp: max_def)
    qed
    then have "w = [CHR ''/'']" using True s "1.prems"(2) by (auto simp: max_def split: if_splits)
    then show ?thesis by (simp add: space_rune_def rune_value_def rune_size_def Let_def big is_space_def)
  next
    case False
    then show ?thesis using 1 ne by (auto simp: runes.simps [of s])
  qed
qed

text \<open>A slash survives trimming.\<close>

lemma TrimSpace_slash: "CHR ''/'' \<in> set s \<Longrightarrow> CHR ''/'' \<in> set (TrimSpace s)"
proof -
  assume "CHR ''/'' \<in> set s"
  then obtain w where w: "w \<in> set (runes s)" "CHR ''/'' \<in> set w" using concat_runes [of s] by (metis UN_E set_concat)
  have keep: "x \<in> set (dropWhile P xs)" if "x \<in> set xs" "\<not> P x" for x :: string and P xs
    using that by (induction xs) auto
  have "w \<in> set (rev (dropWhile space_rune (rev (dropWhile space_rune (runes s)))))"
    using keep [where P = space_rune and x = w] slash_not_space [OF w] w(1) by simp
  then show ?thesis using w(2) unfolding TrimSpace_def by force
qed

end
