(* ===== verification/Kc_Registry.thy ===== *)
theory Kc_Registry
  imports Complex_Main Kc_Balancer_Topology Kc_Path Kc_Backoff
begin

text \<open>
  The etcd registry: \<open>src/pkg/registry/registry.go\<close> (validation), \<open>src/pkg/registry/etcd/options.go\<close>,
  \<open>codec.go\<close> and \<open>registry.go\<close> (keys, registration, discovery, resolution, eviction, shutdown).

  The etcd client is third-party code: what it answers (a lease, a snapshot, watch responses, an
  error) is an argument of the operation that calls it, and the calls made are part of the result.
  The parser of \<open>net/url\<close> is the argument \<open>parse\<close>. Values in etcd are JSON documents, modelled by the
  record they decode to; \<open>json_text\<close> is what encoding and decoding make of a string.
\<close>

section \<open>Options\<close>

text \<open>A \<open>float64\<close> as the option check sees it: every comparison with NaN is false.\<close>

datatype go_float = NaN | NegInf | Inf | Finite rat

fun fle :: "go_float \<Rightarrow> rat \<Rightarrow> bool" where
  "fle NaN _ = False" | "fle NegInf _ = True" | "fle Inf _ = False" | "fle (Finite x) y = (x \<le> y)"

fun fgt :: "go_float \<Rightarrow> rat \<Rightarrow> bool" where
  "fgt NaN _ = False" | "fgt NegInf _ = False" | "fgt Inf _ = True" | "fgt (Finite x) y = (x > y)"

record Options =
  Prefix :: string
  FailureThreshold :: int64
  EjectionDuration :: duration
  InitialLatency :: duration
  EWMAAlpha :: go_float
  ServiceSweepInterval :: duration
  ServiceIdleTTL :: duration
  RefreshInterval :: duration
  OperationTimeout :: duration

definition defaultPrefix :: string where
  "defaultPrefix = ''/kc/registry/v1''"

definition or_default :: "'a \<Rightarrow> 'a \<Rightarrow> 'a \<Rightarrow> 'a" where
  "or_default zero d x = (if x = zero then d else x)"

definition fill_defaults :: "Options \<Rightarrow> Options" where
  "fill_defaults o1 =
     \<lparr>Prefix = or_default [] defaultPrefix (Prefix o1),
      FailureThreshold = or_default 0 3 (FailureThreshold o1),
      EjectionDuration = or_default 0 (30 * second) (EjectionDuration o1),
      InitialLatency = or_default 0 (10 * millisecond) (InitialLatency o1),
      EWMAAlpha = or_default (Finite 0) (Finite (3602879701896397 / 18014398509481984)) (EWMAAlpha o1),
      ServiceSweepInterval = or_default 0 (3 * second) (ServiceSweepInterval o1),
      ServiceIdleTTL = or_default 0 (600 * second) (ServiceIdleTTL o1),
      RefreshInterval = or_default 0 second (RefreshInterval o1),
      OperationTimeout = or_default 0 (3 * second) (OperationTimeout o1)\<rparr>"

definition invalid_options :: "Options \<Rightarrow> bool" where
  "invalid_options p \<longleftrightarrow>
     hd (Prefix p) \<noteq> CHR ''/'' \<or> FailureThreshold p < 1 \<or> EjectionDuration p < 0 \<or> InitialLatency p \<le> 0
     \<or> fle (EWMAAlpha p) 0 \<or> fgt (EWMAAlpha p) 1 \<or> ServiceSweepInterval p \<le> 0 \<or> ServiceIdleTTL p \<le> 0
     \<or> RefreshInterval p \<le> 0 \<or> OperationTimeout p \<le> 0"

text \<open>The loop that cuts trailing slashes, on the reversed prefix.\<close>

fun trim_rev :: "string \<Rightarrow> string" where
  "trim_rev (c # d # s) = (if c = CHR ''/'' then trim_rev (d # s) else c # d # s)"
| "trim_rev s = s"

definition withDefaults :: "Options \<Rightarrow> Options option" where
  "withDefaults o1 =
     (let p = fill_defaults o1 in
      if invalid_options p then None else Some (p\<lparr>Prefix := rev (trim_rev (rev (Prefix p)))\<rparr>))"

section \<open>Instances\<close>

definition invalidSegment :: "string \<Rightarrow> bool" where
  "invalidSegment value =
     (let v = TrimSpace value in
      v = [] \<or> v = ''.'' \<or> v = ''..'' \<or> CHR ''/'' \<in> set v \<or> CHR 0x5C \<in> set v)"

record url =
  Scheme :: string
  User :: bool
  Host :: string
  Path :: string
  RawQuery :: string
  Fragment :: string

text \<open>\<open>net.SplitHostPort\<close>: the port, or an error.\<close>

definition last_index :: "char \<Rightarrow> string \<Rightarrow> nat option" where
  "last_index c s = (if c \<in> set s then Some (length s - 1 - length (takeWhile (\<lambda>x. x \<noteq> c) (rev s))) else None)"

definition first_index :: "char \<Rightarrow> string \<Rightarrow> nat option" where
  "first_index c s = (if c \<in> set s then Some (length (takeWhile (\<lambda>x. x \<noteq> c) s)) else None)"

definition SplitHostPort :: "string \<Rightarrow> string option" where
  "SplitHostPort hp =
     (case last_index (CHR '':'') hp of
        None \<Rightarrow> None
      | Some i \<Rightarrow>
          (let tails = (if hd hp = CHR ''['' then
                     (case first_index (CHR '']'') hp of
                        None \<Rightarrow> None
                      | Some e \<Rightarrow> if e + 1 = i then Some (drop 1 hp, drop (e + 1) hp) else None)
                   else if CHR '':'' \<in> set (take i hp) then None else Some (hp, hp)) in
           case tails of
             None \<Rightarrow> None
           | Some (js, ks) \<Rightarrow>
               if CHR ''['' \<in> set js \<or> CHR '']'' \<in> set ks then None else Some (drop (i + 1) hp)))"

definition Validate :: "(string \<Rightarrow> url option) \<Rightarrow> Instance \<Rightarrow> bool" where
  "Validate parse i =
     (\<not> invalidSegment (Service i) \<and> \<not> invalidSegment (ID i)
      \<and> (case parse (Endpoint i) of
           None \<Rightarrow> False
         | Some u \<Rightarrow>
             Scheme u = ''http'' \<and> \<not> User u \<and> Host u \<noteq> [] \<and> Path u = [] \<and> RawQuery u = [] \<and> Fragment u = []
             \<and> (case SplitHostPort (Host u) of None \<Rightarrow> False | Some port \<Rightarrow> port \<noteq> []))
      \<and> list_all (\<lambda>kv. TrimSpace (fst kv) \<noteq> []) (Metadata i))"

section \<open>Stored documents\<close>

record storedInstance =
  Version :: int
  doc :: Instance

definition encodeInstance :: "Instance \<Rightarrow> storedInstance" where
  "encodeInstance i =
     \<lparr>Version = 1,
      doc = \<lparr>Service = json_text (Service i), ID = json_text (ID i), Endpoint = json_text (Endpoint i),
             Metadata = map (\<lambda>(k, v). (json_text k, json_text v)) (Metadata i)\<rparr>\<rparr>"

text \<open>\<open>None\<close> is a value that is not a JSON document of the expected shape.\<close>

definition decodeInstance :: "(string \<Rightarrow> url option) \<Rightarrow> storedInstance option \<Rightarrow> Instance option" where
  "decodeInstance parse value =
     (case value of
        None \<Rightarrow> None
      | Some st \<Rightarrow> if Version st \<noteq> 1 then None else if \<not> Validate parse (doc st) then None else Some (doc st))"

section \<open>Keys\<close>

definition key :: "Options \<Rightarrow> Instance \<Rightarrow> string" where
  "key p i = Join [Prefix p, Service i, ID i]"

definition servicePrefix :: "Options \<Rightarrow> string \<Rightarrow> string" where
  "servicePrefix p service = Join [Prefix p, service] @ ''/''"

section \<open>Discovery\<close>

text \<open>The part of \<open>serviceState\<close> that concerns loading; \<open>live\<close> is that its context is not cancelled.\<close>

record service =
  name :: string
  cache :: serviceState
  ready :: bool
  loadErr :: "registry_error option"
  refreshing :: bool
  refreshErr :: "registry_error option"
  lastRefresh :: "int64 option"
  live :: bool

record counters =
  fullReloads :: "64 word"
  watchEvents :: "64 word"
  decodeErrors :: "64 word"
  forcedRefresh :: "64 word"
  watchRestarts :: "64 word"
  refreshErrors :: "64 word"
  serviceEvicts :: "64 word"

definition new_service :: "int64 \<Rightarrow> string \<Rightarrow> service" where
  "new_service clock nm =
     \<lparr>name = nm, cache = (newServiceState clock nm)\<lparr>active := 1\<rparr>, ready = False, loadErr = None, refreshing = False,
      refreshErr = None, lastRefresh = None, live = True\<rparr>"

type_synonym kv = "string \<times> storedInstance option"

text \<open>The loop over the entries of a snapshot.\<close>

fun decode_all :: "(string \<Rightarrow> url option) \<Rightarrow> string \<Rightarrow> kv list \<Rightarrow> counters \<Rightarrow> Instance list \<times> counters" where
  "decode_all parse nm [] c = ([], c)"
| "decode_all parse nm (kv # kvs) c =
     (case decodeInstance parse (snd kv) of
        None \<Rightarrow> decode_all parse nm kvs (c\<lparr>decodeErrors := decodeErrors c + 1\<rparr>)
      | Some i \<Rightarrow>
          if Service i \<noteq> nm then decode_all parse nm kvs (c\<lparr>decodeErrors := decodeErrors c + 1\<rparr>)
          else (case decode_all parse nm kvs c of (xs, c') \<Rightarrow> (i # xs, c')))"

text \<open>\<open>load\<close>; \<open>resp\<close> is the answer of the client: an error, or the entries with the revision of the header.\<close>

definition load ::
  "(string \<Rightarrow> url option) \<Rightarrow> Options \<Rightarrow> registry_error + (kv list \<times> int64) \<Rightarrow> counters \<Rightarrow> service
    \<Rightarrow> (registry_error + int64) \<times> counters \<times> service" where
  "load parse p resp c s =
     (let c1 = c\<lparr>fullReloads := fullReloads c + 1\<rparr> in
      case resp of
        Inl e \<Rightarrow> (Inl e, c1, s)
      | Inr (kvs, rv) \<Rightarrow>
          (case decode_all parse (name s) kvs c1 of (xs, c2) \<Rightarrow>
             (Inr rv, c2, s\<lparr>cache := replaceAt xs (InitialLatency p) rv (cache s), loadErr := None, ready := True\<rparr>)))"

datatype watch_event = EventPut kv | EventDelete string

record watch_response =
  Canceled :: bool
  Header_Revision :: int64
  Events :: "watch_event list"

definition handle_event :: "(string \<Rightarrow> url option) \<Rightarrow> Options \<Rightarrow> int64 \<Rightarrow> watch_event \<Rightarrow> counters \<times> service \<Rightarrow> counters \<times> service" where
  "handle_event parse p rv e st =
     (case st of (c, s) \<Rightarrow>
      let c1 = c\<lparr>watchEvents := watchEvents c + 1\<rparr> in
      case e of
        EventDelete k \<Rightarrow>
          (let ident = TrimPrefix k (servicePrefix p (name s)) in
           if ident \<noteq> [] \<and> CHR ''/'' \<notin> set ident then (c1, s\<lparr>cache := removeAt ident rv (cache s)\<rparr>) else (c1, s))
      | EventPut kv \<Rightarrow>
          (case decodeInstance parse (snd kv) of
             None \<Rightarrow> (c1\<lparr>decodeErrors := decodeErrors c1 + 1\<rparr>, s)
           | Some i \<Rightarrow>
               if Service i \<noteq> name s then (c1\<lparr>decodeErrors := decodeErrors c1 + 1\<rparr>, s)
               else (c1, s\<lparr>cache := putAt i (InitialLatency p) rv (cache s)\<rparr>)))"

definition handle_response :: "(string \<Rightarrow> url option) \<Rightarrow> Options \<Rightarrow> watch_response \<Rightarrow> counters \<times> service \<Rightarrow> counters \<times> service" where
  "handle_response parse p resp st =
     (case fold (handle_event parse p (Header_Revision resp)) (Events resp) st of (c, s) \<Rightarrow>
        (c, s\<lparr>cache := advanceRevision (Header_Revision resp) (cache s), loadErr := None\<rparr>))"

text \<open>The inner loop of \<open>watch\<close>: the responses until the channel ends or one is cancelled; the flag is \<open>healthy\<close>.\<close>

fun watch_channel ::
  "(string \<Rightarrow> url option) \<Rightarrow> Options \<Rightarrow> watch_response list \<Rightarrow> bool \<Rightarrow> counters \<times> service \<Rightarrow> bool \<times> counters \<times> service" where
  "watch_channel parse p [] healthy st = (healthy, st)"
| "watch_channel parse p (r # rs) healthy st =
     (if Canceled r then (healthy, st) else watch_channel parse p rs True (handle_response parse p r st))"

text \<open>The timer of \<open>waitBackoff\<close>, with the reading of the clock that gives the jitter.\<close>

definition waitBackoff :: "int64 \<Rightarrow> duration \<Rightarrow> duration" where
  "waitBackoff clock delay =
     i64 (delay + i64 (int (unat ((word_of_int clock :: 64 word) mod word_of_int (go_div delay 2 + 1)))))"

text \<open>
  One round of the outer loop of \<open>watch\<close>: a load, then the responses of the watch it opens. The
  result is the delay before the next round, none when the service context has been cancelled.
\<close>

definition watch_round ::
  "(string \<Rightarrow> url option) \<Rightarrow> Options \<Rightarrow> registry_error + (kv list \<times> int64) \<Rightarrow> watch_response list \<Rightarrow> duration \<Rightarrow> counters \<times> service
    \<Rightarrow> duration option \<times> duration \<times> counters \<times> service" where
  "watch_round parse p resp rs current st =
     (case load parse p resp (fst st) (snd st) of
        (Inl e, c, s) \<Rightarrow>
          (let s1 = s\<lparr>loadErr := Some e, ready := True\<rparr> in
           if \<not> live s1 then (None, current, c, s1) else (Some current, nextWatchBackoff current False, c, s1))
      | (Inr rv, c, s) \<Rightarrow>
          (case watch_channel parse p rs False (c, s) of (healthy, c1, s1) \<Rightarrow>
           if \<not> live s1 then (None, current, c1, s1)
           else (Some (if healthy then 100 * millisecond else current), nextWatchBackoff current healthy,
                 c1\<lparr>watchRestarts := watchRestarts c1 + 1\<rparr>, s1)))"

text \<open>\<open>forceRefresh\<close>: what is done under the lock first, and the end of a refresh of its own.\<close>

datatype refresh_start = Wait | Recent "registry_error option" | Load

definition refresh_begin :: "Options \<Rightarrow> int64 \<Rightarrow> service \<Rightarrow> refresh_start \<times> service" where
  "refresh_begin p now s =
     (if refreshing s then (Wait, s)
      else case lastRefresh s of
          Some t \<Rightarrow> if now - t < RefreshInterval p then (Recent (refreshErr s), s)
                    else (Load, s\<lparr>refreshing := True, lastRefresh := Some now\<rparr>)
        | None \<Rightarrow> (Load, s\<lparr>refreshing := True, lastRefresh := Some now\<rparr>))"

definition refresh_end :: "registry_error option \<Rightarrow> service \<Rightarrow> service" where
  "refresh_end err s = s\<lparr>refreshing := False, refreshErr := err\<rparr>"

text \<open>\<open>waited\<close> is what a caller that joins a running refresh gets: its error, or that of the caller's context.\<close>

definition forceRefresh ::
  "(string \<Rightarrow> url option) \<Rightarrow> Options \<Rightarrow> int64 \<Rightarrow> registry_error option \<Rightarrow> registry_error + (kv list \<times> int64) \<Rightarrow> counters \<Rightarrow> service
    \<Rightarrow> registry_error option \<times> counters \<times> service" where
  "forceRefresh parse p now waited resp c s =
     (case refresh_begin p now s of
        (Wait, s1) \<Rightarrow> (waited, c, s1)
      | (Recent e, s1) \<Rightarrow> (e, c, s1)
      | (Load, s1) \<Rightarrow>
          (case load parse p resp (c\<lparr>forcedRefresh := forcedRefresh c + 1\<rparr>) s1 of
             (Inl e, c2, s2) \<Rightarrow> (Some e, c2\<lparr>refreshErrors := refreshErrors c2 + 1\<rparr>, refresh_end (Some e) s2)
           | (Inr _, c2, s2) \<Rightarrow> (None, c2, refresh_end None s2)))"

section \<open>Registrations and shutdown\<close>

type_synonym lease = int

datatype client_call = Grant int | KeepAlive lease | PutKV string storedInstance lease | CancelKeepAlive lease | Revoke lease

record registration =
  leaseID :: lease
  finished :: bool
  reg_err :: bool

record Registry =
  options :: Options
  closed :: bool
  services :: "(string \<times> nat) list"
  svc :: "nat \<Rightarrow> service"
  svc_top :: nat
  regs :: "nat \<Rightarrow> registration"
  reg_top :: nat
  registrations :: "nat list"
  counts :: counters

definition New :: "bool \<Rightarrow> Options \<Rightarrow> Registry option" where
  "New client o1 =
     (if \<not> client then None
      else case withDefaults o1 of
          None \<Rightarrow> None
        | Some p \<Rightarrow>
            Some \<lparr>options = p, closed = False, services = [], svc = (\<lambda>_. new_service 0 []), svc_top = 0,
                  regs = (\<lambda>_. \<lparr>leaseID = 0, finished = False, reg_err = False\<rparr>), reg_top = 0, registrations = [],
                  counts = \<lparr>fullReloads = 0, watchEvents = 0, decodeErrors = 0, forcedRefresh = 0, watchRestarts = 0,
                            refreshErrors = 0, serviceEvicts = 0\<rparr>\<rparr>)"

text \<open>
  \<open>finish\<close>, once per registration: \<open>cause\<close> is that the keepalive was lost, \<open>revoked\<close> the error of
  revoking the lease when the caller asks for it.
\<close>

definition finish :: "bool \<Rightarrow> (registry_error option) option \<Rightarrow> nat \<Rightarrow> Registry \<Rightarrow> registry_error option \<times> client_call list \<times> Registry" where
  "finish cause revoked k R =
     (let g = regs R k in
      if finished g then (None, [], R)
      else (case revoked of Some e \<Rightarrow> e | None \<Rightarrow> None,
            CancelKeepAlive (leaseID g) # (case revoked of Some _ \<Rightarrow> [Revoke (leaseID g)] | None \<Rightarrow> []),
            R\<lparr>regs := (regs R)(k := g\<lparr>finished := True, reg_err := cause\<rparr>), registrations := filter (\<lambda>j. j \<noteq> k) (registrations R)\<rparr>))"

text \<open>\<open>monitor\<close>, when the keepalive channel ends, and \<open>registration.Close\<close>.\<close>

definition monitor_end :: "nat \<Rightarrow> Registry \<Rightarrow> client_call list \<times> Registry" where
  "monitor_end k R = snd (finish True None k R)"

definition Close_registration :: "registry_error option \<Rightarrow> nat \<Rightarrow> Registry \<Rightarrow> registry_error option \<times> client_call list \<times> Registry" where
  "Close_registration e k R = finish False (Some e) k R"

text \<open>
  \<open>Register\<close>. The answers of the client are arguments; \<open>meanwhile\<close> is what other goroutines do to the
  registry while it waits for them.
\<close>

definition lease_seconds :: "duration \<Rightarrow> int64" where
  "lease_seconds ttl = go_div (ttl - 1) second + 1"

definition Register ::
  "(string \<Rightarrow> url option) \<Rightarrow> Instance \<Rightarrow> duration \<Rightarrow> registry_error + lease \<Rightarrow> registry_error option \<Rightarrow> registry_error option
    \<Rightarrow> (Registry \<Rightarrow> Registry) \<Rightarrow> registry_error option \<Rightarrow> Registry \<Rightarrow> (registry_error + nat) \<times> client_call list \<times> Registry" where
  "Register parse i ttl granted kept stored meanwhile revoked R =
     (if \<not> Validate parse i then (Inl ErrInvalidInstance, [], R)
      else if ttl \<le> 0 then (Inl ErrInvalidTTL, [], R)
      else if closed R then (Inl ErrClosed, [], R)
      else case granted of
          Inl e \<Rightarrow> (Inl e, [Grant (lease_seconds ttl)], R)
        | Inr l \<Rightarrow>
            let called = [Grant (lease_seconds ttl), KeepAlive l]; undo = [CancelKeepAlive l, Revoke l] in
            case kept of
              Some e \<Rightarrow> (Inl e, called @ undo, R)
            | None \<Rightarrow>
                let called = called @ [PutKV (key (options R) i) (encodeInstance i) l] in
                case stored of
                  Some e \<Rightarrow> (Inl e, called @ undo, R)
                | None \<Rightarrow>
                    let R1 = meanwhile R; k = reg_top R1;
                        R2 = R1\<lparr>regs := (regs R1)(k := \<lparr>leaseID = l, finished = False, reg_err = False\<rparr>), reg_top := k + 1\<rparr> in
                    if closed R2 then (case Close_registration revoked k R2 of (_, calls, R3) \<Rightarrow> (Inl ErrClosed, called @ calls, R3))
                    else (Inr k, called, R2\<lparr>registrations := k # registrations R2\<rparr>))"

text \<open>\<open>Close\<close>; \<open>revoked k\<close> is the answer to revoking the lease of registration \<open>k\<close>.\<close>

fun close_all :: "(nat \<Rightarrow> registry_error option) \<Rightarrow> nat list \<Rightarrow> Registry \<Rightarrow> registry_error list \<times> client_call list \<times> Registry" where
  "close_all revoked [] R = ([], [], R)"
| "close_all revoked (k # ks) R =
     (case Close_registration (revoked k) k R of (e, calls, R1) \<Rightarrow>
      case close_all revoked ks R1 of (es, calls', R2) \<Rightarrow>
        ((case e of Some x \<Rightarrow> x # es | None \<Rightarrow> es), calls @ calls', R2))"

definition cancel_services :: "Registry \<Rightarrow> Registry" where
  "cancel_services R = R\<lparr>svc := (\<lambda>a. (svc R a)\<lparr>live := False\<rparr>)\<rparr>"

definition Close :: "(nat \<Rightarrow> registry_error option) \<Rightarrow> Registry \<Rightarrow> registry_error list \<times> client_call list \<times> Registry" where
  "Close revoked R =
     (if closed R then ([], [], R)
      else case close_all revoked (registrations R) (R\<lparr>closed := True\<rparr>) of (es, calls, R1) \<Rightarrow> (es, calls, cancel_services R1))"

section \<open>Resolution\<close>

definition upd_svc :: "nat \<Rightarrow> (service \<Rightarrow> service) \<Rightarrow> Registry \<Rightarrow> Registry" where
  "upd_svc a f R = R\<lparr>svc := (svc R)(a := f (svc R a))\<rparr>"

definition add_active :: "int \<Rightarrow> service \<Rightarrow> service" where
  "add_active d s = s\<lparr>cache := (cache s)\<lparr>active := i64 (active (cache s) + d)\<rparr>\<rparr>"

definition ensureService :: "int64 \<Rightarrow> string \<Rightarrow> Registry \<Rightarrow> (registry_error + nat) \<times> Registry" where
  "ensureService clock nm R =
     (if closed R then (Inl ErrClosed, R)
      else case map_of (services R) nm of
          Some a \<Rightarrow> (Inr a, upd_svc a (add_active 1) R)
        | None \<Rightarrow>
            (Inr (svc_top R),
             R\<lparr>svc := (svc R)(svc_top R := new_service clock nm), svc_top := svc_top R + 1,
               services := (nm, svc_top R) # services R\<rparr>))"

definition invalid_service :: "string \<Rightarrow> bool" where
  "invalid_service nm \<longleftrightarrow>
     TrimSpace nm = [] \<or> nm = ''.'' \<or> nm = ''..'' \<or> Base nm \<noteq> nm \<or> CHR 0x5C \<in> set nm"

text \<open>
  \<open>Resolve\<close>. \<open>wait\<close> is how the wait for the first load ended (an error of the context, or of the
  registry being closed), \<open>meanwhile\<close> what the other goroutines did until then, \<open>t1\<close> and \<open>t2\<close> the two
  readings of the clock, \<open>waited\<close> and \<open>resp\<close> what \<open>forceRefresh\<close> sees, \<open>between\<close> what \<open>pick\<close> races with.
\<close>

definition Resolve ::
  "(string \<Rightarrow> url option) \<Rightarrow> string \<Rightarrow> int64 \<Rightarrow> registry_error option \<Rightarrow> (Registry \<Rightarrow> Registry) \<Rightarrow> int64 \<Rightarrow> registry_error option
    \<Rightarrow> registry_error + (kv list \<times> int64) \<Rightarrow> int64 \<Rightarrow> (serviceState \<Rightarrow> serviceState) \<Rightarrow> Registry
    \<Rightarrow> (registry_error + nat \<times> resolution) \<times> Registry" where
  "Resolve parse nm clock wait meanwhile t1 waited resp t2 between R =
     (if invalid_service nm then (Inl ErrInvalidService, R)
      else case ensureService clock nm R of
          (Inl e, R1) \<Rightarrow> (Inl e, R1)
        | (Inr a, R1) \<Rightarrow>
            let R2 = meanwhile R1; leave = upd_svc a (add_active (- 1)); s = svc R2 a in
            case wait of
              Some e \<Rightarrow> (Inl e, leave R2)
            | None \<Rightarrow>
                if dom (instances (cache s)) = {} then
                  (Inl (case loadErr s of Some e \<Rightarrow> e | None \<Rightarrow> ErrNoAvailableInstance), leave R2)
                else
                  let (c3, s3) = (if allEjected t1 (cache s)
                                  then snd (forceRefresh parse (options R2) t1 waited resp (counts R2) s) else (counts R2, s)) in
                  case pick t2 None between (cache s3) of ((sel, _), st4) \<Rightarrow>
                    let R4 = leave ((upd_svc a (\<lambda>_. s3\<lparr>cache := st4\<rparr>) R2)\<lparr>counts := c3\<rparr>) in
                    case sel of
                      None \<Rightarrow> (Inl ErrNoAvailableInstance, R4)
                    | Some b \<Rightarrow> (Inr (a, newResolution b (EjectionDuration (options R2)) (FailureThreshold (options R2)) st4), R4))"

text \<open>One tick of \<open>serviceSweeper\<close>.\<close>

definition sweep_one :: "int64 \<Rightarrow> string \<times> nat \<Rightarrow> Registry \<Rightarrow> Registry" where
  "sweep_one now e R =
     (if canEvict now (ServiceIdleTTL (options R)) (cache (svc R (snd e)))
      then (upd_svc (snd e) (\<lambda>s. s\<lparr>live := False\<rparr>) R)
             \<lparr>services := filter (\<lambda>x. fst x \<noteq> fst e) (services R), counts := (counts R)\<lparr>serviceEvicts := serviceEvicts (counts R) + 1\<rparr>\<rparr>
      else R)"

definition sweep :: "int64 \<Rightarrow> Registry \<Rightarrow> Registry" where
  "sweep now R = fold (sweep_one now) (services R) R"

record stats_snapshot =
  Services :: nat
  Registrations :: nat
  st_counts :: counters

definition Stats :: "Registry \<Rightarrow> stats_snapshot" where
  "Stats R = \<lparr>Services = length (services R), Registrations = length (registrations R), st_counts = counts R\<rparr>"

end
