(* ===== verification/Kc_Registry_Discovery.thy ===== *)
theory Kc_Registry_Discovery
  imports Kc_Registry
begin

text \<open>
  What the registry promises on top of the cache: keys identify instances and can be taken apart
  again, and the load-and-watch loop brings the cache in line with the contents of etcd.
\<close>

section \<open>Keys\<close>

lemma trim_rev_suffix: "s \<noteq> [] \<Longrightarrow> \<exists>u. s = u @ trim_rev s \<and> trim_rev s \<noteq> []"
proof (induction s rule: trim_rev.induct)
  case (1 c d s)
  show ?case
  proof (cases "c = CHR ''/''")
    case True
    then obtain u where "d # s = u @ trim_rev (d # s)" "trim_rev (d # s) \<noteq> []" using 1 by auto
    then show ?thesis using True by (intro exI [of _ "c # u"]) simp
  qed simp
qed auto

text \<open>A resolved prefix is rooted.\<close>

lemma withDefaults_rooted:
  assumes "withDefaults o1 = Some p"
  shows "Prefix p \<noteq> [] \<and> hd (Prefix p) = CHR ''/''"
proof -
  let ?s = "Prefix (fill_defaults o1)"
  have ne: "?s \<noteq> []" by (simp add: fill_defaults_def or_default_def defaultPrefix_def)
  have p: "Prefix p = rev (trim_rev (rev ?s))" "hd ?s = CHR ''/''"
    using assms by (auto simp: withDefaults_def Let_def invalid_options_def split: if_splits)
  obtain u where u: "rev ?s = u @ trim_rev (rev ?s)" "trim_rev (rev ?s) \<noteq> []" using trim_rev_suffix [of "rev ?s"] ne by auto
  then have "?s = Prefix p @ rev u" using p(1) by (metis rev_append rev_rev_ident)
  then show ?thesis using p u(2) by (metis hd_append2 rev_is_Nil_conv)
qed

lemma TrimSpace_Nil [simp]: "TrimSpace [] = []"
  by (simp add: TrimSpace_def)

lemma TrimSpace_dots: "TrimSpace ''.'' = ''.''" "TrimSpace ''..'' = ''..''"
  by (simp_all add: TrimSpace_plain byte_def is_space_def)

lemma valid_segment: "\<not> invalidSegment w \<Longrightarrow> segment w"
  using TrimSpace_slash [of w] TrimSpace_dots by (auto simp: invalidSegment_def segment_def Let_def)

lemma Validate_segments: "Validate parse i \<Longrightarrow> segment (Service i) \<and> segment (ID i)"
  by (simp add: Validate_def valid_segment)

text \<open>What precedes the service name in every key.\<close>

definition key_root :: "Options \<Rightarrow> string" where
  "key_root p = (if Clean (Prefix p) = ''/'' then [] else Clean (Prefix p))"

lemma Join_service:
  assumes "withDefaults o1 = Some p" and "segment nm"
  shows "servicePrefix p nm = key_root p @ ''/'' @ nm @ ''/''"
proof -
  have r: "Prefix p \<noteq> []" "hd (Prefix p) = CHR ''/''" using withDefaults_rooted [OF assms(1)] by auto
  then show ?thesis using Clean_segment [OF assms(2) r] assms(2) by (simp add: servicePrefix_def Join_def key_root_def segment_def)
qed

lemma key_split:
  assumes "withDefaults o1 = Some p" and "segment (Service i)" and "segment (ID i)"
  shows "key p i = servicePrefix p (Service i) @ ID i"
proof -
  have r: "Prefix p \<noteq> []" "hd (Prefix p) = CHR ''/''" using withDefaults_rooted [OF assms(1)] by auto
  let ?q = "Prefix p @ ''/'' @ Service i"
  have q: "?q \<noteq> []" "hd ?q = CHR ''/''" using r by auto
  have "Service i \<noteq> []" using assms(2) by (simp add: segment_def)
  then have "Clean ?q \<noteq> ''/''" using Clean_segment [OF assms(2) r] by (auto simp: append_eq_Cons_conv)
  then have "Clean (?q @ ''/'' @ ID i) = Clean ?q @ ''/'' @ ID i" using Clean_segment [OF assms(3) q] by simp
  then show ?thesis using r assms(2,3) by (simp add: key_def servicePrefix_def Join_def segment_def)
qed

lemma segment_unique:
  assumes "CHR ''/'' \<notin> set v" and "CHR ''/'' \<notin> set w"
  shows "v @ ''/'' @ x = w @ ''/'' @ y \<longleftrightarrow> v = w \<and> x = y"
proof
  assume eq: "v @ ''/'' @ x = w @ ''/'' @ y"
  have tw: "takeWhile (\<lambda>c. c \<noteq> CHR ''/'') (u @ CHR ''/'' # z) = u" if "CHR ''/'' \<notin> set u" for u z using that by (induction u) auto
  have "v = w" using tw [OF assms(1), of x] tw [OF assms(2), of y] eq by simp
  then show "v = w \<and> x = y" using eq by simp
qed simp

text \<open>Under which prefix a key lies, and what is left of it.\<close>

lemma key_under:
  assumes p: "withDefaults o1 = Some p" and i: "Validate parse i" and nm: "segment nm"
  shows "key p i = servicePrefix p nm @ x \<longleftrightarrow> Service i = nm \<and> x = ID i"
proof -
  have s: "segment (Service i)" "segment (ID i)" using Validate_segments [OF i] by auto
  have "key p i = key_root p @ ''/'' @ Service i @ ''/'' @ ID i" using key_split [OF p s] Join_service [OF p s(1)] by simp
  then have "key p i = servicePrefix p nm @ x \<longleftrightarrow> Service i @ ''/'' @ ID i = nm @ ''/'' @ x" using Join_service [OF p nm] by simp
  also have "\<dots> \<longleftrightarrow> Service i = nm \<and> x = ID i" using segment_unique [of "Service i" nm "ID i" x] s nm by (auto simp: segment_def)
  finally show ?thesis .
qed

lemma key_prefix_iff:
  assumes "withDefaults o1 = Some p" and "Validate parse i" and "segment nm"
  shows "take (length (servicePrefix p nm)) (key p i) = servicePrefix p nm \<longleftrightarrow> Service i = nm"
proof
  assume "take (length (servicePrefix p nm)) (key p i) = servicePrefix p nm"
  then have "key p i = servicePrefix p nm @ drop (length (servicePrefix p nm)) (key p i)" by (metis append_take_drop_id)
  then show "Service i = nm" using key_under [OF assms] by blast
next
  assume "Service i = nm"
  then have "key p i = servicePrefix p nm @ ID i" using key_under [OF assms] by blast
  then show "take (length (servicePrefix p nm)) (key p i) = servicePrefix p nm" by simp
qed

text \<open>
  Registry keys. With accepted options, whatever the prefix (the root, with dots or doubled
  slashes), the key of a valid instance lies under the watched prefix of its own service and of no other, cutting the prefix
  off gives back the ID, which the watch accepts as such, and different instances have different keys.
\<close>

theorem registry_key_roundtrip:
  assumes "withDefaults o1 = Some p" and "Validate parse i" and "Validate parse j"
  shows "TrimPrefix (key p i) (servicePrefix p (Service i)) = ID i \<and> ID i \<noteq> [] \<and> CHR ''/'' \<notin> set (ID i)
     \<and> (take (length (servicePrefix p (Service j))) (key p i) = servicePrefix p (Service j) \<longleftrightarrow> Service i = Service j)
     \<and> (key p i = key p j \<longleftrightarrow> Service i = Service j \<and> ID i = ID j)"
proof -
  have si: "segment (Service i)" "segment (ID i)" using Validate_segments [OF assms(2)] by auto
  have sj: "segment (Service j)" "segment (ID j)" using Validate_segments [OF assms(3)] by auto
  have "TrimPrefix (key p i) (servicePrefix p (Service i)) = ID i" using key_split [OF assms(1) si] by (simp add: TrimPrefix_def)
  moreover have "ID i \<noteq> [] \<and> CHR ''/'' \<notin> set (ID i)" using si(2) by (simp add: segment_def)
  moreover have "key p i = key p j \<longleftrightarrow> Service i = Service j \<and> ID i = ID j"
    using key_under [OF assms(1,2) sj(1), of "ID j"] key_split [OF assms(1) sj] by auto
  ultimately show ?thesis using key_prefix_iff [OF assms(1,2) sj(1)] by blast
qed

definition demo_parse :: "string \<Rightarrow> url option" where
  "demo_parse e = Some \<lparr>Scheme = ''http'', User = False, Host = drop 7 e, Path = [], RawQuery = [], Fragment = []\<rparr>"

definition demo_opts :: Options where
  "demo_opts =
     \<lparr>Prefix = ''/kc/../x//'', FailureThreshold = 0, EjectionDuration = 0, InitialLatency = 0, EWMAAlpha = Finite 0,
      ServiceSweepInterval = 0, ServiceIdleTTL = 0, RefreshInterval = 0, OperationTimeout = 0\<rparr>"

definition demo_resolved :: Options where
  "demo_resolved = the (withDefaults demo_opts)"

lemma demo_resolved: "withDefaults demo_opts = Some demo_resolved"
proof -
  have "withDefaults demo_opts \<noteq> None"
    by (simp add: withDefaults_def Let_def invalid_options_def fill_defaults_def or_default_def demo_opts_def second_def millisecond_def)
  then show ?thesis by (auto simp: demo_resolved_def)
qed

lemma demo_valid: "Validate demo_parse (demo_inst ''a'')" "Validate demo_parse (demo_inst ''b'')"
  by (simp_all add: Validate_def demo_inst_def demo_parse_def invalidSegment_def SplitHostPort_def last_index_def
    TrimSpace_plain byte_def is_space_def)

theorem registry_key_roundtrip_witness:
  "TrimPrefix (key demo_resolved (demo_inst ''a'')) (servicePrefix demo_resolved ''s'') = ''a''
   \<and> key demo_resolved (demo_inst ''a'') \<noteq> key demo_resolved (demo_inst ''b'')"
  using registry_key_roundtrip [OF demo_resolved demo_valid] by (simp add: demo_inst_def)

section \<open>Discovery\<close>

text \<open>
  The contents of etcd under the registry prefix, as its clients write them: \<open>EPut\<close> is the put of a
  \<open>Register\<close>, \<open>EDel\<close> the removal of the key of an instance (lease revoked or expired).
\<close>

datatype etcd_op = EPut Instance | EDel Instance

fun op_inst :: "etcd_op \<Rightarrow> Instance" where
  "op_inst (EPut i) = i" | "op_inst (EDel i) = i"

fun etcd_apply :: "Options \<Rightarrow> etcd_op \<Rightarrow> (string \<rightharpoonup> storedInstance) \<Rightarrow> string \<rightharpoonup> storedInstance" where
  "etcd_apply p (EPut i) E = E(key p i \<mapsto> encodeInstance i)"
| "etcd_apply p (EDel i) E = E(key p i := None)"

definition under :: "string \<Rightarrow> string \<Rightarrow> bool" where
  "under pre k \<longleftrightarrow> take (length pre) k = pre"

fun op_event :: "Options \<Rightarrow> etcd_op \<Rightarrow> watch_event" where
  "op_event p (EPut i) = EventPut (key p i, Some (encodeInstance i))"
| "op_event p (EDel i) = EventDelete (key p i)"

text \<open>
  The watch of a prefix delivers the changes of the keys under it, in order; a batch is what one
  response carries, with the revision in its header.
\<close>

definition op_response :: "Options \<Rightarrow> string \<Rightarrow> int64 \<times> etcd_op list \<Rightarrow> watch_response" where
  "op_response p nm b =
     \<lparr>Canceled = False, Header_Revision = fst b,
      Events = map (op_event p) (filter (\<lambda>x. under (servicePrefix p nm) (key p (op_inst x))) (snd b))\<rparr>"

definition snapshot_of :: "string \<Rightarrow> (string \<rightharpoonup> storedInstance) \<Rightarrow> kv list \<Rightarrow> bool" where
  "snapshot_of pre E kvs \<longleftrightarrow>
     distinct (map fst kvs) \<and> (\<forall>k v. (k, v) \<in> set kvs \<longleftrightarrow> under pre k \<and> (\<exists>st. E k = Some st \<and> v = Some st))"

text \<open>Instances whose texts are UTF-8; the codec keeps them.\<close>

definition utf8_instance :: "Instance \<Rightarrow> bool" where
  "utf8_instance i \<longleftrightarrow>
     valid_utf8 (Service i) \<and> valid_utf8 (ID i) \<and> valid_utf8 (Endpoint i)
     \<and> (\<forall>kv \<in> set (Metadata i). valid_utf8 (fst kv) \<and> valid_utf8 (snd kv))"

lemma encode_doc: "utf8_instance i \<Longrightarrow> doc (encodeInstance i) = i"
  by (cases i) (auto simp: encodeInstance_def utf8_instance_def json_text_id intro!: map_idI)

lemma decode_encode: "utf8_instance i \<Longrightarrow> Validate parse i \<Longrightarrow> decodeInstance parse (Some (encodeInstance i)) = Some i"
  using encode_doc [of i] by (simp add: decodeInstance_def) (simp add: encodeInstance_def)

definition registrable :: "(string \<Rightarrow> url option) \<Rightarrow> Instance \<Rightarrow> bool" where
  "registrable parse i \<longleftrightarrow> Validate parse i \<and> utf8_instance i"

definition registered :: "(string \<Rightarrow> url option) \<Rightarrow> Options \<Rightarrow> (string \<rightharpoonup> storedInstance) \<Rightarrow> bool" where
  "registered parse p E \<longleftrightarrow> (\<forall>k st. E k = Some st \<longrightarrow> (\<exists>i. registrable parse i \<and> k = key p i \<and> st = encodeInstance i))"

text \<open>The cache agrees with etcd on one service.\<close>

definition agrees :: "Options \<Rightarrow> (string \<rightharpoonup> storedInstance) \<Rightarrow> service \<Rightarrow> bool" where
  "agrees p E s \<longleftrightarrow> topo_ok (cache s) \<and> view (cache s) = (\<lambda>x. map_option doc (E (servicePrefix p (name s) @ x)))"

lemma etcd_apply_other:
  assumes "\<not> under (servicePrefix p nm) (key p (op_inst x))"
  shows "etcd_apply p x E (servicePrefix p nm @ y) = E (servicePrefix p nm @ y)"
proof -
  have "servicePrefix p nm @ y \<noteq> key p (op_inst x)" using assms by (metis append_eq_conv_conj under_def)
  then show ?thesis by (cases x) simp_all
qed

lemma watch_event_agrees:
  assumes p: "withDefaults o1 = Some p" and nm: "segment (name s)" and r: "registrable parse (op_inst x)"
    and u: "under (servicePrefix p (name s)) (key p (op_inst x))" and ok: "agrees p E s" and rv: "revision (cache s) \<le> rv"
  shows "\<exists>s'. handle_event parse p rv (op_event p x) (c, s) = (c\<lparr>watchEvents := watchEvents c + 1\<rparr>, s')
     \<and> agrees p (etcd_apply p x E) s' \<and> name s' = name s \<and> revision (cache s') = rv"
proof -
  let ?i = "op_inst x" and ?lat = "InitialLatency p"
  have v: "Validate parse ?i" "utf8_instance ?i" using r by (auto simp: registrable_def)
  have sv: "Service ?i = name s" using key_prefix_iff [OF p v(1) nm] u by (simp add: under_def)
  have k: "key p ?i = servicePrefix p (name s) @ y \<longleftrightarrow> y = ID ?i" for y using key_under [OF p v(1) nm] sv by blast
  then have kk: "servicePrefix p (name s) @ y = key p ?i \<longleftrightarrow> y = ID ?i" for y by metis
  have tr: "TrimPrefix (key p ?i) (servicePrefix p (name s)) = ID ?i" using k [of "ID ?i"] by (simp add: TrimPrefix_def)
  have idn: "ID ?i \<noteq> [] \<and> CHR ''/'' \<notin> set (ID ?i)" using Validate_segments [OF v(1)] by (simp add: segment_def)
  define e where "e = (case x of EPut i \<Rightarrow> Put i | EDel i \<Rightarrow> Del (ID i))"
  have we: "handle_event parse p rv (op_event p x) (c, s) = (c\<lparr>watchEvents := watchEvents c + 1\<rparr>, s\<lparr>cache := apply_event ?lat e rv (cache s)\<rparr>)"
    using tr idn sv decode_encode [OF v(2,1)] unfolding e_def
    by (cases x) (simp_all add: handle_event_def Let_def apply_event_def)
  have eo: "event_ok e" by (cases x) (simp_all add: e_def event_ok_def)
  have t: "topo_ok (cache s)" using ok by (simp add: agrees_def)
  have vw: "view (apply_event ?lat e rv (cache s)) = spec_event e (view (cache s))" using cache.apply_view [OF t eo] rv by simp
  have "spec_event e (view (cache s)) = (\<lambda>y. map_option doc (etcd_apply p x E (servicePrefix p (name s) @ y)))"
    using ok kk encode_doc [OF v(2)] by (cases x) (auto simp: e_def agrees_def fun_eq_iff)
  then have "agrees p (etcd_apply p x E) (s\<lparr>cache := apply_event ?lat e rv (cache s)\<rparr>)"
    using vw cache.apply_invar [OF t eo] by (simp add: agrees_def)
  then show ?thesis using we rv by (intro exI [of _ "s\<lparr>cache := apply_event ?lat e rv (cache s)\<rparr>"]) (simp add: cache.apply_rvn [OF t] max_def)
qed

lemma batch_agrees:
  assumes p: "withDefaults o1 = Some p" and nm: "segment (name s)" and "\<forall>x \<in> set xs. registrable parse (op_inst x)"
    and "agrees p E s" and "revision (cache s) \<le> rv"
  shows "\<exists>c' s'. fold (handle_event parse p rv) (map (op_event p) (filter (\<lambda>x. under (servicePrefix p (name s)) (key p (op_inst x))) xs)) (c, s) = (c', s')
     \<and> agrees p (fold (etcd_apply p) xs E) s' \<and> name s' = name s \<and> revision (cache s') \<le> rv \<and> decodeErrors c' = decodeErrors c
     \<and> ready s' = ready s \<and> live s' = live s"
  using assms(2-)
proof (induction xs arbitrary: c s E)
  case (Cons x xs)
  show ?case
  proof (cases "under (servicePrefix p (name s)) (key p (op_inst x))")
    case True
    obtain s1 where s1: "handle_event parse p rv (op_event p x) (c, s) = (c\<lparr>watchEvents := watchEvents c + 1\<rparr>, s1)"
      "agrees p (etcd_apply p x E) s1" "name s1 = name s" "revision (cache s1) = rv"
      using watch_event_agrees [OF p Cons.prems(1) _ True Cons.prems(3,4)] Cons.prems(2) by fastforce
    have "ready s1 = ready s \<and> live s1 = live s" using s1(1) by (auto simp: handle_event_def Let_def split: watch_event.splits option.splits if_splits)
    then show ?thesis
      using Cons.IH [of s1 "etcd_apply p x E" "c\<lparr>watchEvents := watchEvents c + 1\<rparr>"] Cons.prems s1 True by simp
  next
    case False
    then have "agrees p (etcd_apply p x E) s" using Cons.prems(3) etcd_apply_other [OF False] by (simp add: agrees_def)
    then show ?thesis using Cons.IH [of s "etcd_apply p x E" c] Cons.prems False by simp
  qed
qed auto

lemma response_agrees:
  assumes p: "withDefaults o1 = Some p" and nm: "segment (name s)" and r: "\<forall>x \<in> set (snd b). registrable parse (op_inst x)"
    and a: "agrees p E s" and rv: "revision (cache s) \<le> fst b"
  shows "\<exists>c' s'. handle_response parse p (op_response p (name s) b) (c, s) = (c', s')
     \<and> agrees p (fold (etcd_apply p) (snd b) E) s' \<and> name s' = name s \<and> revision (cache s') = fst b \<and> decodeErrors c' = decodeErrors c
     \<and> ready s' = ready s \<and> live s' = live s \<and> loadErr s' = None"
proof -
  obtain c1 s1 where f: "fold (handle_event parse p (fst b)) (Events (op_response p (name s) b)) (c, s) = (c1, s1)"
    and s1: "agrees p (fold (etcd_apply p) (snd b) E) s1" "name s1 = name s" "revision (cache s1) \<le> fst b" "decodeErrors c1 = decodeErrors c"
      "ready s1 = ready s" "live s1 = live s"
    using batch_agrees [OF p nm r a rv, of c] by (auto simp: op_response_def)
  define s2 where "s2 = s1\<lparr>cache := advanceRevision (fst b) (cache s1), loadErr := None\<rparr>"
  have h: "handle_response parse p (op_response p (name s) b) (c, s) = (c1, s2)"
    using f by (simp add: handle_response_def op_response_def s2_def)
  have "agrees p (fold (etcd_apply p) (snd b) E) s2" "revision (cache s2) = fst b"
    using s1 by (auto simp: s2_def agrees_def advanceRevision_def)
  then show ?thesis using h s1 by (simp add: s2_def)
qed

lemma channel_agrees:
  assumes p: "withDefaults o1 = Some p" and "segment (name s)" and "\<forall>b \<in> set bs. \<forall>x \<in> set (snd b). registrable parse (op_inst x)"
    and "agrees p E s" and "sorted (revision (cache s) # map fst bs)" and "loadErr s = None"
  shows "\<exists>h' c' s'. watch_channel parse p (map (op_response p (name s)) bs) h (c, s) = (h', c', s')
     \<and> agrees p (fold (\<lambda>b. fold (etcd_apply p) (snd b)) bs E) s' \<and> revision (cache s') = last (revision (cache s) # map fst bs) \<and> decodeErrors c' = decodeErrors c
     \<and> name s' = name s \<and> ready s' = ready s \<and> live s' = live s \<and> loadErr s' = None"
  using assms(2-)
proof (induction bs arbitrary: h c s E)
  case (Cons b bs)
  obtain c1 s1 where h: "handle_response parse p (op_response p (name s) b) (c, s) = (c1, s1)"
    and s1: "agrees p (fold (etcd_apply p) (snd b) E) s1" "name s1 = name s" "revision (cache s1) = fst b" "decodeErrors c1 = decodeErrors c"
      "ready s1 = ready s" "live s1 = live s" "loadErr s1 = None"
    using response_agrees [OF p Cons.prems(1) _ Cons.prems(3), of b parse c] Cons.prems(2,4) by auto
  have "watch_channel parse p (map (op_response p (name s)) (b # bs)) h (c, s) = watch_channel parse p (map (op_response p (name s1)) bs) True (c1, s1)"
    using h s1(2) by (simp add: op_response_def)
  then show ?case using Cons.IH [of s1 "fold (etcd_apply p) (snd b) E" True c1] Cons.prems s1 by simp
qed simp

text \<open>Every entry of a snapshot decodes, and the decoded list represents the service.\<close>

lemma decode_all_map:
  assumes "\<forall>kv \<in> set kvs. \<exists>i. decodeInstance parse (snd kv) = Some i \<and> Service i = nm"
  shows "decode_all parse nm kvs c = (map (\<lambda>kv. the (decodeInstance parse (snd kv))) kvs, c)"
  using assms by (induction kvs) fastforce+

lemma snapshot_entry:
  assumes p: "withDefaults o1 = Some p" and nm: "segment nm" and E: "registered parse p E"
    and s: "snapshot_of (servicePrefix p nm) E kvs" and kv: "kv \<in> set kvs"
  shows "\<exists>i. decodeInstance parse (snd kv) = Some i \<and> Service i = nm \<and> fst kv = servicePrefix p nm @ ID i \<and> E (fst kv) = Some (encodeInstance i) \<and> utf8_instance i"
proof -
  obtain st where u: "under (servicePrefix p nm) (fst kv)" and st: "E (fst kv) = Some st" "snd kv = Some st"
    using s kv unfolding snapshot_of_def by (metis prod.collapse)
  obtain i where i: "Validate parse i" "utf8_instance i" "fst kv = key p i" "st = encodeInstance i"
    using E st(1) unfolding registered_def registrable_def by blast
  have "Service i = nm" using key_prefix_iff [OF p i(1) nm] u i(3) by (simp add: under_def)
  then show ?thesis using i st decode_encode [OF i(2,1)] key_under [OF p i(1) nm] by auto
qed

lemma load_agrees:
  assumes p: "withDefaults o1 = Some p" and nm: "segment (name s)" and E: "registered parse p E"
    and sn: "snapshot_of (servicePrefix p (name s)) E kvs" and t: "topo_ok (cache s)" and rv: "revision (cache s) \<le> rv"
  shows "\<exists>c' s'. load parse p (Inr (kvs, rv)) c s = (Inr rv, c', s') \<and> agrees p E s' \<and> revision (cache s') = rv
     \<and> decodeErrors c' = decodeErrors c \<and> name s' = name s \<and> ready s' \<and> live s' = live s \<and> loadErr s' = None"
proof -
  let ?pre = "servicePrefix p (name s)" and ?c = "c\<lparr>fullReloads := fullReloads c + 1\<rparr>"
  define f where "f = (\<lambda>kv :: kv. the (decodeInstance parse (snd kv)))"
  have ent: "decodeInstance parse (snd kv) = Some (f kv) \<and> Service (f kv) = name s \<and> fst kv = ?pre @ ID (f kv) \<and> E (fst kv) = Some (encodeInstance (f kv)) \<and> utf8_instance (f kv)"
    if "kv \<in> set kvs" for kv using snapshot_entry [OF p nm E sn that] by (auto simp: f_def)
  have d: "decode_all parse (name s) kvs ?c = (map f kvs, ?c)"
    using decode_all_map [of kvs parse "name s" ?c] ent unfolding f_def by blast
  have ids: "map (\<lambda>kv. ?pre @ ID (f kv)) kvs = map fst kvs" using ent by auto
  have dist: "distinct (map ID (map f kvs))"
  proof -
    have "distinct (map fst kvs)" using sn by (simp add: snapshot_of_def)
    then have "distinct (map (\<lambda>kv. ?pre @ ID (f kv)) kvs)" by (simp only: ids)
    then have "inj_on (\<lambda>kv. ID (f kv)) (set kvs) \<and> distinct kvs" by (auto simp: distinct_map inj_on_def)
    then show ?thesis by (simp add: distinct_map comp_def)
  qed
  define cs where "cs = replaceAt (map f kvs) (InitialLatency p) rv (cache s)"
  have rp: "topo_ok cs" "view cs = map_of (map (\<lambda>i. (ID i, i)) (map f kvs))" "revision cs = rv"
    using replaceLocked_ok [OF t dist, of "InitialLatency p"] rv by (auto simp: cs_def replaceAt_def)
  have "view cs x = map_option doc (E (?pre @ x))" for x
  proof (cases "E (?pre @ x)")
    case None
    then have "x \<notin> ID ` f ` set kvs" using ent by force
    then show ?thesis using None rp(2) by (simp add: map_of_eq_None_iff image_image)
  next
    case (Some st)
    then have kv: "(?pre @ x, Some st) \<in> set kvs" using sn by (auto simp: snapshot_of_def under_def)
    let ?i = "f (?pre @ x, Some st)"
    have i: "ID ?i = x" "st = encodeInstance ?i" "utf8_instance ?i" using ent [OF kv] Some by auto
    have ds: "doc st = ?i" using encode_doc [OF i(3)] i(2) by metis
    have "map_of (map (\<lambda>i. (ID i, i)) (map f kvs)) x = Some ?i" using kv i(1) dist by (intro map_of_is_SomeI) (force simp: comp_def)+
    then show ?thesis using rp(2) Some ds by simp
  qed
  then have "agrees p E (s\<lparr>cache := cs, loadErr := None, ready := True\<rparr>)" using rp(1) by (simp add: agrees_def fun_eq_iff)
  then show ?thesis using d rp(3) by (simp add: load_def Let_def cs_def)
qed

text \<open>
  Discovery follows etcd (C16). Let etcd hold any entries written by registries with the same prefix
  (for any services), for instances that can be registered: they pass \<open>Validate\<close> and their strings are valid UTF-8, which
  \<open>Validate\<close> does not check (see \<open>invalid_utf8_instance_lingers\<close>). Nobody else writes under the prefix. Let a watch round load a snapshot of the service's prefix and then receive, in
  any batches with non-decreasing revisions, the changes that registrations and expiries of such instances make under that prefix.
  Then, whatever the cache held before, it ends up with exactly the instances etcd holds for that
  service, at the last revision; no entry is rejected, the first caller is released and no error is left.
\<close>

theorem discovery_follows_etcd:
  assumes "withDefaults o1 = Some p" and "\<not> invalidSegment (name s)" and "registered parse p E"
    and "snapshot_of (servicePrefix p (name s)) E kvs" and "topo_ok (cache s)"
    and "\<forall>b \<in> set bs. \<forall>x \<in> set (snd b). registrable parse (op_inst x)"
    and "sorted (revision (cache s) # rv # map fst bs)"
    and "watch_round parse p (Inr (kvs, rv)) (map (op_response p (name s)) bs) current (c, s) = (d, b', c', s')"
  shows "view (cache s') = (\<lambda>x. map_option doc (fold (\<lambda>b. fold (etcd_apply p) (snd b)) bs E (servicePrefix p (name s) @ x)))
    \<and> revision (cache s') = last (rv # map fst bs) \<and> decodeErrors c' = decodeErrors c \<and> ready s' \<and> loadErr s' = None"
proof -
  have nm: "segment (name s)" by (rule valid_segment [OF assms(2)])
  obtain c1 s1 where l: "load parse p (Inr (kvs, rv)) c s = (Inr rv, c1, s1)"
    and s1: "agrees p E s1" "revision (cache s1) = rv" "decodeErrors c1 = decodeErrors c" "name s1 = name s" "ready s1" "live s1 = live s" "loadErr s1 = None"
    using load_agrees [OF assms(1) nm assms(3,4,5), of rv c] assms(7) by auto
  obtain h2 c2 s2 where w: "watch_channel parse p (map (op_response p (name s1)) bs) False (c1, s1) = (h2, c2, s2)"
    and s2: "agrees p (fold (\<lambda>b. fold (etcd_apply p) (snd b)) bs E) s2" "revision (cache s2) = last (rv # map fst bs)" "decodeErrors c2 = decodeErrors c"
      "name s2 = name s" "ready s2" "loadErr s2 = None"
    using channel_agrees [OF assms(1) _ assms(6) s1(1), of False c1] nm s1 assms(7) by auto
  have "s' = s2 \<and> decodeErrors c' = decodeErrors c2"
    using assms(8) l w s1(4) by (auto simp: watch_round_def split: if_splits)
  then show ?thesis using s2 by (simp add: agrees_def)
qed

definition zero_counters :: counters where
  "zero_counters = \<lparr>fullReloads = 0, watchEvents = 0, decodeErrors = 0, forcedRefresh = 0, watchRestarts = 0, refreshErrors = 0, serviceEvicts = 0\<rparr>"

theorem discovery_follows_etcd_witness:
  "let a = demo_inst ''a''; b = demo_inst ''b'';
       (d, t, c', s') = watch_round demo_parse demo_resolved (Inr ([(key demo_resolved a, Some (encodeInstance a))], 7))
         (map (op_response demo_resolved ''s'') [(8, [EPut b]), (9, [EDel a])]) second (zero_counters, new_service 1 ''s'')
   in view (cache s') ''a'' = None \<and> view (cache s') ''b'' = Some b \<and> revision (cache s') = 9"
proof -
  let ?a = "demo_inst ''a''" and ?b = "demo_inst ''b''" and ?p = demo_resolved and ?s = "new_service 1 ''s''"
  let ?E = "[key ?p ?a \<mapsto> encodeInstance ?a]" and ?kvs = "[(key ?p ?a, Some (encodeInstance ?a))]" and ?bs = "[(8, [EPut ?b]), (9, [EDel ?a])] :: (int64 \<times> etcd_op list) list"
  have ok: "\<not> invalidSegment ''s''" by (simp add: invalidSegment_def TrimSpace_plain byte_def is_space_def)
  have u8: "utf8_instance ?a" "utf8_instance ?b" by (simp_all add: utf8_instance_def demo_inst_def valid_utf8_ascii byte_def)
  then have reg: "registrable demo_parse ?a" "registrable demo_parse ?b" using demo_valid by (auto simp: registrable_def)
  have ka: "key ?p ?a = servicePrefix ?p ''s'' @ ''a''" "key ?p ?b = servicePrefix ?p ''s'' @ ''b''"
    using key_split [OF demo_resolved] Validate_segments [OF demo_valid(1)] Validate_segments [OF demo_valid(2)] by (simp_all add: demo_inst_def)
  have E: "registered demo_parse ?p ?E" using reg(1) by (auto simp: registered_def split: if_splits)
  have sn: "snapshot_of (servicePrefix ?p (name ?s)) ?E ?kvs" by (auto simp: snapshot_of_def under_def new_service_def ka)
  have t: "topo_ok (cache ?s)" "revision (cache ?s) = 0"
    using new_topo_ok [of 1 "''s''"] by (simp_all add: new_service_def topo_ok_def)
  obtain d t' c' s' where w: "watch_round demo_parse ?p (Inr (?kvs, 7)) (map (op_response ?p (name ?s)) ?bs) second (zero_counters, ?s) = (d, t', c', s')"
    by (metis prod_cases4)
  have res: "view (cache s') = (\<lambda>x. map_option doc (fold (\<lambda>b. fold (etcd_apply ?p) (snd b)) ?bs ?E (servicePrefix ?p (name ?s) @ x))) \<and> revision (cache s') = 9"
    using discovery_follows_etcd [OF demo_resolved _ E sn t(1) _ _ w] ok reg t(2) by (simp add: new_service_def)
  then show ?thesis using w ka encode_doc [OF u8(2)] by (simp add: new_service_def Let_def)
qed

section \<open>Findings\<close>

text \<open>
  An ID that is not UTF-8 passes \<open>Validate\<close>, but its document carries replacement characters and
  its key does not: the delete event of the key leaves the instance in the cache.
\<close>

theorem invalid_utf8_instance_lingers:
  assumes p: "withDefaults o1 = Some p" and nm: "''s'' = name s" and ok: "topo_ok (cache s)" "revision (cache s) \<le> rv"
  defines "i \<equiv> \<lparr>Service = ''s'', ID = [CHR 0xFF], Endpoint = ''http://h:1'', Metadata = []\<rparr>"
  shows "Validate demo_parse i
    \<and> view (cache (snd (handle_event demo_parse p rv (op_event p (EDel i)) (handle_event demo_parse p rv (op_event p (EPut i)) (c, s))))) [CHR 0xEF, CHR 0xBF, CHR 0xBD] \<noteq> None"
proof -
  have r1: "rune_size [CHR 0xFF] = 0" by (simp add: rune_size_def byte_def)
  have jt: "json_text [CHR 0xFF] = [CHR 0xEF, CHR 0xBF, CHR 0xBD]" using r1 by (simp add: replacement_def json_text_code Let_def)
  have ts: "TrimSpace [CHR 0xFF] = [CHR 0xFF]" using r1
    by (simp add: TrimSpace_def runes_code Let_def space_rune_def rune_value_def is_space_def)
  have r3: "rune_size [CHR 0xEF, CHR 0xBF, CHR 0xBD] = 3" by (simp add: rune_size_def byte_def byte_in_def cont_byte_def)
  have ts3: "TrimSpace [CHR 0xEF, CHR 0xBF, CHR 0xBD] = [CHR 0xEF, CHR 0xBF, CHR 0xBD]" using r3
    by (simp add: TrimSpace_def runes_code Let_def space_rune_def rune_value_def is_space_def byte_def)
  have js: "json_text ''s'' = ''s''" "json_text ''http://h:1'' = ''http://h:1''" by (simp_all add: json_text_id valid_utf8_ascii byte_def)
  have v: "Validate demo_parse i"
    by (simp add: i_def Validate_def demo_parse_def invalidSegment_def SplitHostPort_def last_index_def ts TrimSpace_plain byte_def is_space_def)
  define j where "j = doc (encodeInstance i)"
  have j: "ID j = [CHR 0xEF, CHR 0xBF, CHR 0xBD]" "Service j = ''s''" by (simp_all add: j_def i_def encodeInstance_def jt js)
  have vj: "Validate demo_parse j"
    by (simp add: j_def i_def encodeInstance_def jt js Validate_def demo_parse_def invalidSegment_def SplitHostPort_def last_index_def ts3 TrimSpace_plain byte_def is_space_def)
  have dec: "decodeInstance demo_parse (Some (encodeInstance i)) = Some j" using vj by (simp add: decodeInstance_def j_def) (simp add: encodeInstance_def)
  have k: "key p i = servicePrefix p ''s'' @ [CHR 0xFF]" using key_split [OF p] Validate_segments [OF v] by (simp add: i_def)
  have "view (removeLocked [CHR 0xFF] ((putLocked j lat (cache s))\<lparr>revision := rv\<rparr>)) (ID j) \<noteq> None" for lat
    using putLocked_ok [OF ok(1), of j lat] removeLocked_ok [of "(putLocked j lat (cache s))\<lparr>revision := rv\<rparr>" "[CHR 0xFF]"] j(1) by simp
  then show ?thesis using v dec k nm ok(2) j
    by (simp add: handle_event_def Let_def putAt_def removeAt_def TrimPrefix_def)
qed

text \<open>\<open>Resolve\<close> lets the service name of a single slash through.\<close>

theorem resolve_accepts_slash: "\<not> invalid_service ''/'' \<and> invalidSegment ''/''"
  by (simp add: invalid_service_def Base_def invalidSegment_def TrimSpace_plain byte_def is_space_def)

text \<open>A smoothing factor that is not a number passes the validation of the options.\<close>

theorem nan_alpha_accepted: "\<exists>p. withDefaults (demo_opts\<lparr>EWMAAlpha := NaN\<rparr>) = Some p \<and> EWMAAlpha p = NaN"
  by (simp add: withDefaults_def Let_def invalid_options_def fill_defaults_def or_default_def demo_opts_def second_def millisecond_def)

end
