(* ===== verification/Kc_Transaction.thy ===== *)
theory Kc_Transaction
  imports Kc_Sql
begin

text \<open>
  Clients that run one database transaction around a caller's handler: \<open>Transaction\<close> of
  \<open>src/pkg/sqlxhelper/transaction.go\<close> here, \<open>Execute\<close> of \<open>src/pkg/idempotency/idempotency.go\<close> in
  \<open>Kc_Idempotency\<close>. Each is a program counter that asks the database (or the handler) for one thing at
  a time and goes on with the reply, so that the calls of many clients interleave freely.

  The database is given by its documented behaviour, the relation \<open>tx_db\<close>: a transaction applies its
  changes when it commits and not otherwise; the answer to a commit may be lost; a transaction may be
  ended by the server at any time; the handler has the transaction in its hands and may end it
  itself; a row with a unique key is refused when the key is committed, and waits while another open
  transaction holds it.
\<close>

datatype reply_error = Driver db_error | ErrTxDone | App nat | ErrSilenceRollback

text \<open>\<open>Exit\<close>: the handler ended its goroutine (\<open>runtime.Goexit\<close>); deferred functions run, and \<open>recover\<close> returns nil.\<close>

datatype reply = Ok | Err reply_error | Panic | Exit

datatype tx_error =
    ErrInvalidArgument
  | ErrContext
  | ErrConflict
  | ErrBegin reply_error
  | ErrInsert reply_error
  | ErrHandler reply_error
  | ErrCommit reply_error
  | ErrRollback reply_error
  | ErrJoin tx_error tx_error

datatype outcome = Return "tx_error option" | Panicked | Exited

datatype pc = AtBegin | AtInsert | AtHandler | AtCommit | AtRollback outcome | Done outcome

text \<open>What a deferred rollback makes of the outcome: a transaction that is over already is no error.\<close>

definition after_rollback :: "outcome \<Rightarrow> reply \<Rightarrow> outcome" where
  "after_rollback o1 r =
     (case r of
        Err e \<Rightarrow>
          if e = ErrTxDone then o1
          else (case o1 of
                  Panicked \<Rightarrow> Panicked
                | Exited \<Rightarrow> Exited
                | Return None \<Rightarrow> Return (Some (ErrRollback e))
                | Return (Some x) \<Rightarrow> Return (Some (ErrJoin x (ErrRollback e))))
      | _ \<Rightarrow> o1)"

section \<open>sqlxhelper.Transaction\<close>

definition Transaction_start :: "bool \<Rightarrow> bool \<Rightarrow> bool \<Rightarrow> pc" where
  "Transaction_start ctx db handler = (if \<not> ctx \<or> \<not> db \<or> \<not> handler then Done (Return (Some ErrInvalidArgument)) else AtBegin)"

fun Transaction_next :: "pc \<Rightarrow> reply \<Rightarrow> pc" where
  "Transaction_next AtBegin r = (case r of Ok \<Rightarrow> AtHandler | Err e \<Rightarrow> Done (Return (Some (ErrBegin e))) | Panic \<Rightarrow> Done Panicked | Exit \<Rightarrow> Done Exited)"
| "Transaction_next AtHandler r =
     (case r of
        Ok \<Rightarrow> AtCommit
      | Err e \<Rightarrow> AtRollback (Return (if e = ErrSilenceRollback then None else Some (ErrHandler e)))
      | Panic \<Rightarrow> AtRollback Panicked
      | Exit \<Rightarrow> Done Exited)"
| "Transaction_next AtCommit r =
     (case r of
        Ok \<Rightarrow> Done (Return None)
      | Err e \<Rightarrow> AtRollback (Return (Some (ErrCommit e)))
      | Panic \<Rightarrow> AtRollback Panicked
      | Exit \<Rightarrow> Done Exited)"
| "Transaction_next (AtRollback o1) r = Done (after_rollback o1 r)"
| "Transaction_next x r = x"

section \<open>The database\<close>

datatype 'k tx = NoTx | Open "'k option" | Ended

text \<open>
  \<open>rows\<close>: the committed unique keys; \<open>applied\<close>: the transactions whose changes are committed; \<open>own\<close>: those
  of them that the handler committed itself; \<open>silenced\<close>: those whose handler asked for a silent rollback.
\<close>

record 'k txdb =
  rows :: "'k list"
  applied :: "nat list"
  own :: "nat list"
  silenced :: "nat list"
  txs :: "nat \<Rightarrow> 'k tx"

definition end_tx :: "nat \<Rightarrow> 'k txdb \<Rightarrow> 'k txdb" where
  "end_tx i d = d\<lparr>txs := (txs d)(i := Ended)\<rparr>"

definition apply_tx :: "nat \<Rightarrow> 'k txdb \<Rightarrow> 'k txdb" where
  "apply_tx i d =
     (end_tx i d)\<lparr>rows := (case txs d i of Open (Some k) \<Rightarrow> k # rows d | _ \<Rightarrow> rows d), applied := i # applied d\<rparr>"

definition is_open :: "'k tx \<Rightarrow> bool" where
  "is_open t = (case t of Open _ \<Rightarrow> True | _ \<Rightarrow> False)"

lemma is_open_simps [simp]: "is_open (Open k)" "\<not> is_open Ended" "\<not> is_open NoTx"
  by (simp_all add: is_open_def)

definition note_reply :: "nat \<Rightarrow> reply \<Rightarrow> 'k txdb \<Rightarrow> 'k txdb" where
  "note_reply i r d = (if r = Err ErrSilenceRollback then d\<lparr>silenced := i # silenced d\<rparr> else d)"

text \<open>\<open>tx_db i k pc d r d'\<close>: at \<open>pc\<close> the database replies \<open>r\<close> to transaction \<open>i\<close>, whose row would have key \<open>k\<close>.\<close>

inductive tx_db :: "nat \<Rightarrow> 'k \<Rightarrow> pc \<Rightarrow> 'k txdb \<Rightarrow> reply \<Rightarrow> 'k txdb \<Rightarrow> bool" where
  begin_ok: "tx_db i k AtBegin d Ok (d\<lparr>txs := (txs d)(i := Open None)\<rparr>)"
| begin_err: "tx_db i k AtBegin d (Err (Driver e)) d"
| insert_ok: "txs d i = Open None \<Longrightarrow> k \<notin> set (rows d) \<Longrightarrow> \<forall>j. txs d j \<noteq> Open (Some k)
     \<Longrightarrow> tx_db i k AtInsert d Ok (d\<lparr>txs := (txs d)(i := Open (Some k))\<rparr>)"
| insert_dup: "k \<in> set (rows d) \<Longrightarrow> isDuplicateKey e \<Longrightarrow> tx_db i k AtInsert d (Err (Driver e)) d"
| insert_err: "\<not> isDuplicateKey e \<Longrightarrow> tx_db i k AtInsert d (Err (Driver e)) d"
| insert_done: "\<not> is_open (txs d i) \<Longrightarrow> tx_db i k AtInsert d (Err ErrTxDone) d"
| handler: "tx_db i k AtHandler d r (note_reply i r d)"
| handler_commits: "is_open (txs d i) \<Longrightarrow> tx_db i k AtHandler d r (note_reply i r ((apply_tx i d)\<lparr>own := i # own d\<rparr>))"
| handler_rolls_back: "tx_db i k AtHandler d r (note_reply i r (end_tx i d))"
| commit_ok: "is_open (txs d i) \<Longrightarrow> tx_db i k AtCommit d Ok (apply_tx i d)"
| commit_lost: "is_open (txs d i) \<Longrightarrow> tx_db i k AtCommit d (Err (Driver e)) (apply_tx i d)"
| commit_err: "is_open (txs d i) \<Longrightarrow> tx_db i k AtCommit d (Err (Driver e)) (end_tx i d)"
| commit_done: "\<not> is_open (txs d i) \<Longrightarrow> tx_db i k AtCommit d (Err ErrTxDone) d"
| rollback_ok: "is_open (txs d i) \<Longrightarrow> tx_db i k (AtRollback o1) d Ok (end_tx i d)"
| rollback_err: "is_open (txs d i) \<Longrightarrow> tx_db i k (AtRollback o1) d (Err (Driver e)) (end_tx i d)"
| rollback_done: "\<not> is_open (txs d i) \<Longrightarrow> tx_db i k (AtRollback o1) d (Err ErrTxDone) d"

inductive_cases tx_db_elims: "tx_db i k AtBegin d r d'" "tx_db i k AtInsert d r d'" "tx_db i k AtHandler d r d'"
  "tx_db i k AtCommit d r d'" "tx_db i k (AtRollback o1) d r d'" "tx_db i k (Done o1) d r d'"

text \<open>Any number of calls, each with its program counter; the server may end an open transaction at any time.\<close>

type_synonym 'k sys = "'k txdb \<times> (nat \<Rightarrow> pc)"

inductive tx_step :: "(pc \<Rightarrow> reply \<Rightarrow> pc) \<Rightarrow> (nat \<Rightarrow> 'k) \<Rightarrow> 'k sys \<Rightarrow> 'k sys \<Rightarrow> bool" for nxt key where
  call: "tx_db i (key i) (pcs i) d r d' \<Longrightarrow> tx_step nxt key (d, pcs) (d', pcs(i := nxt (pcs i) r))"
| lost: "is_open (txs d i) \<Longrightarrow> tx_step nxt key (d, pcs) (end_tx i d, pcs)"

inductive tx_reach :: "(pc \<Rightarrow> reply \<Rightarrow> pc) \<Rightarrow> (nat \<Rightarrow> 'k) \<Rightarrow> (nat \<Rightarrow> pc) \<Rightarrow> 'k sys \<Rightarrow> bool" for nxt key start where
  init: "tx_reach nxt key start (\<lparr>rows = [], applied = [], own = [], silenced = [], txs = (\<lambda>_. NoTx)\<rparr>, start)"
| step: "tx_reach nxt key start s \<Longrightarrow> tx_step nxt key s s' \<Longrightarrow> tx_reach nxt key start s'"

section \<open>What every such client guarantees\<close>

text \<open>The outcome says that the changes may have been committed: nil, or a failed commit.\<close>

fun commit_failed :: "tx_error \<Rightarrow> bool" where
  "commit_failed (ErrCommit e) = True"
| "commit_failed (ErrJoin a b) = commit_failed a"
| "commit_failed _ = False"

fun result :: "pc \<Rightarrow> outcome option" where
  "result (AtRollback o1) = Some o1"
| "result (Done o1) = Some o1"
| "result _ = None"

definition nil :: "pc \<Rightarrow> bool" where
  "nil x \<longleftrightarrow> result x = Some (Return None)"

definition unsure :: "pc \<Rightarrow> bool" where
  "unsure x \<longleftrightarrow> (case result x of Some (Return (Some e)) \<Rightarrow> commit_failed e | _ \<Rightarrow> False)"

text \<open>
  The laws of a client: it begins once, asks for the commit only after the handler succeeded, ends
  with nil only after a successful commit or a silenced rollback, ends with a commit error exactly when the commit failed, and otherwise rolls back.
\<close>

locale tx_client =
  fixes nxt :: "pc \<Rightarrow> reply \<Rightarrow> pc"
  assumes from_rollback: "nxt (AtRollback o1) r = Done (after_rollback o1 r)"
    and from_commit_ok: "nil (nxt AtCommit Ok)"
    and from_commit_err: "unsure (nxt AtCommit (Err e))"
    and from_handler: "nxt AtHandler r = AtCommit
       \<or> (\<exists>o1. nxt AtHandler r = AtRollback o1 \<and> \<not> unsure (AtRollback o1) \<and> (nil (AtRollback o1) \<longrightarrow> r = Err ErrSilenceRollback))
       \<or> r = Exit \<and> nxt AtHandler r = Done Exited"
    and from_start: "x = AtBegin \<or> x = AtInsert
       \<Longrightarrow> nxt x r = AtInsert \<or> nxt x r = AtHandler \<or> result (nxt x r) \<noteq> None \<and> \<not> nil (nxt x r) \<and> \<not> unsure (nxt x r)"
    and from_open: "nxt AtBegin Ok \<noteq> Done o1" "nxt AtInsert r \<noteq> Done o1"

text \<open>The part of the database one call sees, and what holds of it at every program counter.\<close>

definition call_ok :: "'k txdb \<Rightarrow> nat \<Rightarrow> pc \<Rightarrow> bool" where
  "call_ok d i x \<longleftrightarrow>
     (i \<in> set (applied d) \<longrightarrow> txs d i = Ended) \<and> (x = AtBegin \<longrightarrow> txs d i = NoTx)
     \<and> (nil x \<longrightarrow> i \<in> set (applied d) \<or> i \<in> set (silenced d))
     \<and> (i \<in> set (applied d) \<longrightarrow> i \<in> set (own d) \<or> nil x \<or> unsure x)
     \<and> (x = AtBegin \<or> x = AtInsert \<longrightarrow> i \<notin> set (applied d)) \<and> (i \<in> set (own d) \<longrightarrow> i \<in> set (applied d))
     \<and> (\<forall>o1. x = Done o1 \<and> o1 \<noteq> Exited \<longrightarrow> \<not> is_open (txs d i))"

lemma tx_db_frame:
  assumes "tx_db i k x d r d'" and "j \<noteq> i"
  shows "txs d' j = txs d j \<and> (j \<in> set (applied d') \<longleftrightarrow> j \<in> set (applied d)) \<and> (j \<in> set (own d') \<longleftrightarrow> j \<in> set (own d))
     \<and> (j \<in> set (silenced d') \<longleftrightarrow> j \<in> set (silenced d))"
  using assms by (induction rule: tx_db.induct) (auto simp: end_tx_def apply_tx_def note_reply_def)

lemma call_ok_frame: "tx_db i k x d r d' \<Longrightarrow> j \<noteq> i \<Longrightarrow> call_ok d' j y = call_ok d j y"
  using tx_db_frame [of i k x d r d' j] by (simp add: call_ok_def)

lemma result_simps [simp]:
  "\<not> nil AtBegin" "\<not> nil AtInsert" "\<not> nil AtHandler" "\<not> nil AtCommit"
  "\<not> unsure AtBegin" "\<not> unsure AtInsert" "\<not> unsure AtHandler" "\<not> unsure AtCommit"
  "\<not> nil (AtRollback Exited)" "\<not> unsure (AtRollback Exited)"
  "nil (Done o1) = nil (AtRollback o1)" "unsure (Done o1) = unsure (AtRollback o1)"
  by (simp_all add: nil_def unsure_def)

lemma after_rollback_simps [simp]: "after_rollback o1 Ok = o1" "after_rollback o1 (Err ErrTxDone) = o1"
  by (simp_all add: after_rollback_def)

lemma unsure_rollback: "unsure (AtRollback (after_rollback o1 (Err e))) = unsure (AtRollback o1)"
  by (auto simp: unsure_def after_rollback_def split: outcome.splits option.splits)

lemma nil_rollback: "nil (AtRollback (after_rollback o1 (Err (Driver e)))) = False"
  by (auto simp: nil_def after_rollback_def split: outcome.splits option.splits)

context tx_client
begin

lemma call_ok_step:
  assumes "tx_db i k x d r d'" and "call_ok d i x"
  shows "call_ok d' i (nxt x r)"
  using assms
proof (induction rule: tx_db.induct)
  case (handler i k d r)
  then show ?case using from_handler [of r] by (auto simp: call_ok_def note_reply_def split: if_splits)
next
  case (handler_commits d i k r)
  then show ?case using from_handler [of r]
    by (auto simp: call_ok_def note_reply_def apply_tx_def end_tx_def is_open_def split: if_splits tx.splits)
next
  case (handler_rolls_back i k d r)
  then show ?case using from_handler [of r] by (auto simp: call_ok_def note_reply_def end_tx_def split: if_splits)
next
  case (rollback_err d i k o1 e)
  then show ?case
    by (auto simp: call_ok_def from_rollback unsure_rollback nil_rollback end_tx_def is_open_def split: tx.splits)
next
  case (begin_ok i k d)
  then show ?case using from_start [of AtBegin Ok] from_open by (auto simp: call_ok_def)
next
  case (begin_err i k d e)
  then show ?case using from_start [of AtBegin "Err (Driver e)"] by (auto simp: call_ok_def is_open_def)
next
  case (insert_ok d i k)
  then show ?case using from_start [of AtInsert Ok] from_open by (auto simp: call_ok_def)
next
  case (insert_dup k d e i)
  then show ?case using from_start [of AtInsert "Err (Driver e)"] from_open by (auto simp: call_ok_def)
next
  case (insert_err e i k d)
  then show ?case using from_start [of AtInsert "Err (Driver e)"] from_open by (auto simp: call_ok_def)
next
  case (insert_done d i k)
  then show ?case using from_start [of AtInsert "Err ErrTxDone"] from_open by (auto simp: call_ok_def)
next
  case (commit_ok d i k)
  then show ?case using from_commit_ok by (auto simp: call_ok_def apply_tx_def end_tx_def is_open_def)
next
  case (commit_lost d i k e)
  then show ?case using from_commit_err [of "Driver e"] by (auto simp: call_ok_def apply_tx_def end_tx_def nil_def unsure_def is_open_def)
next
  case (commit_err d i k e)
  then show ?case using from_commit_err [of "Driver e"] by (auto simp: call_ok_def end_tx_def nil_def unsure_def is_open_def split: tx.splits)
next
  case (commit_done d i k)
  then show ?case using from_commit_err [of ErrTxDone] by (auto simp: call_ok_def nil_def unsure_def)
next
  case (rollback_ok d i k o1)
  then show ?case by (auto simp: call_ok_def from_rollback end_tx_def is_open_def split: tx.splits)
next
  case (rollback_done d i k o1)
  then show ?case by (auto simp: call_ok_def from_rollback)
qed

text \<open>Every reachable state is consistent for every call, and no transaction is applied twice.\<close>

lemma reach_call_ok:
  assumes "tx_reach nxt key start s" and "\<forall>i. start i = AtBegin \<or> (\<exists>e. start i = Done (Return (Some e)) \<and> \<not> commit_failed e)"
  shows "(\<forall>i. call_ok (fst s) i (snd s i)) \<and> distinct (applied (fst s))"
  using assms
proof (induction rule: tx_reach.induct)
  case init
  have "\<not> nil (start i)" for i using init by (metis nil_def option.distinct(1) outcome.inject(1) result.simps option.inject result_simps(1))
  then show ?case by (simp add: call_ok_def is_open_def)
next
  case (step s s')
  then have ok: "\<And>i. call_ok (fst s) i (snd s i)" "distinct (applied (fst s))" by auto
  from step.hyps(2) show ?case
  proof cases
    case (call i pcs d r d')
    have "call_ok d' j ((pcs(i := nxt (pcs i) r)) j)" for j
      using call_ok_step [OF call(3)] call_ok_frame [OF call(3)] ok(1) [of j] ok(1) [of i] call(1) by (cases "j = i") auto
    moreover have "distinct (applied d')"
      using call(3) ok(1) [of i] ok(2) call(1) by cases (auto simp: call_ok_def end_tx_def apply_tx_def is_open_def note_reply_def)
    ultimately show ?thesis using call(2) by simp
  next
    case (lost d i pcs)
    then show ?thesis using ok by (auto simp: call_ok_def end_tx_def is_open_def split: tx.splits)
  qed
qed

end

section \<open>sqlxhelper.Transaction is such a client\<close>

interpretation helper: tx_client Transaction_next
  by unfold_locales (auto simp: nil_def unsure_def split: reply.splits)

lemma Transaction_starts: "Transaction_start c b h = AtBegin \<or> (\<exists>e. Transaction_start c b h = Done (Return (Some e)) \<and> \<not> commit_failed e)"
  by (simp add: Transaction_start_def)

text \<open>
  The transaction helper (C21). In every interleaving of any number of calls, with lost connections, lost
  commit answers and handlers that end the transaction themselves or panic: no call is committed
  twice; a call that returned nil was committed, or its handler asked for the silent rollback; a call
  that ended in any other way, with an error or by a panic, was not committed, unless its commit
  failed with an unknown result or its handler committed by itself; and a call that has ended leaves no open transaction behind,
  unless its handler ended the goroutine.
\<close>

theorem transaction_outcome:
  assumes "tx_reach Transaction_next key start (d, pcs)" and "\<forall>i. \<exists>c b h. start i = Transaction_start c b h" and "pcs i = Done o1"
  shows "distinct (applied d) \<and> (o1 \<noteq> Exited \<longrightarrow> \<not> is_open (txs d i))
     \<and> (o1 = Return None \<longrightarrow> i \<in> set (applied d) \<or> i \<in> set (silenced d))
     \<and> (o1 \<noteq> Return None \<and> i \<notin> set (own d) \<and> (\<forall>e. o1 = Return (Some e) \<longrightarrow> \<not> commit_failed e) \<longrightarrow> i \<notin> set (applied d))"
proof -
  have st: "\<forall>i. start i = AtBegin \<or> (\<exists>e. start i = Done (Return (Some e)) \<and> \<not> commit_failed e)" using assms(2) Transaction_starts by metis
  have "call_ok d i (Done o1)" "distinct (applied d)" using helper.reach_call_ok [OF assms(1) st] assms(3) by (auto dest: spec [of _ i])
  then show ?thesis by (auto simp: call_ok_def nil_def unsure_def split: outcome.splits option.splits)
qed

text \<open>A step of one call, with the state it leads to.\<close>

lemma tx_reach_call:
  assumes "tx_reach nxt key start (d, pcs)" and "tx_db i (key i) (pcs i) d r d'" and "pcs' = pcs(i := nxt (pcs i) r)"
  shows "tx_reach nxt key start (d', pcs')"
  using tx_reach.step [OF assms(1)] tx_step.call [where i = i and key = key and pcs = pcs and d = d and r = r and d' = d' and nxt = nxt] assms(2,3) by blast

definition demo_db :: "'k list \<Rightarrow> nat list \<Rightarrow> (nat \<Rightarrow> 'k tx) \<Rightarrow> 'k txdb" where
  "demo_db rs as ts = \<lparr>rows = rs, applied = as, own = [], silenced = [], txs = ts\<rparr>"

lemma demo_helper_begun:
  "tx_reach Transaction_next (\<lambda>i. i :: nat) (\<lambda>_. Transaction_start True True True) (demo_db [] [] ((\<lambda>_. NoTx)(0 := Open None)), (\<lambda>_. AtBegin)(0 := AtHandler))"
proof -
  let ?R = "tx_reach Transaction_next (\<lambda>i. i :: nat) (\<lambda>_. Transaction_start True True True)"
  have s0: "?R (demo_db [] [] (\<lambda>_. NoTx), \<lambda>_. AtBegin)"
    using tx_reach.init [of Transaction_next "\<lambda>i. i" "\<lambda>_. Transaction_start True True True"] by (simp add: demo_db_def Transaction_start_def)
  show ?thesis
    by (rule tx_reach_call [OF s0, of 0 Ok]) (use begin_ok [of 0 0 "demo_db [] [] (\<lambda>_. NoTx)"] in \<open>simp_all add: demo_db_def\<close>)
qed

lemma demo_helper_run:
  "tx_reach Transaction_next (\<lambda>i. i :: nat) (\<lambda>_. Transaction_start True True True) (demo_db [] [0] ((\<lambda>_. NoTx)(0 := Ended)), (\<lambda>_. AtBegin)(0 := Done (Return None)))"
proof -
  let ?R = "tx_reach Transaction_next (\<lambda>i. i :: nat) (\<lambda>_. Transaction_start True True True)"
  have s2: "?R (demo_db [] [] ((\<lambda>_. NoTx)(0 := Open None)), (\<lambda>_. AtBegin)(0 := AtCommit))"
    by (rule tx_reach_call [OF demo_helper_begun, of 0 Ok]) (use handler [of 0 0 "demo_db [] [] ((\<lambda>_. NoTx)(0 := Open None))" Ok] in \<open>simp_all add: note_reply_def\<close>)
  show ?thesis
    by (rule tx_reach_call [OF s2, of 0 Ok])
      (use commit_ok [of "demo_db [] [] ((\<lambda>_. NoTx)(0 := Open None))" 0 0] in \<open>simp_all add: demo_db_def is_open_def apply_tx_def end_tx_def\<close>)
qed

theorem transaction_outcome_witness:
  "distinct [0::nat] \<and> \<not> is_open (txs (demo_db [] [0] ((\<lambda>_. NoTx)(0 := Ended)) :: nat txdb) 0)
   \<and> (0::nat) \<in> set (applied (demo_db [] [0] ((\<lambda>_. NoTx)(0 := Ended)) :: nat txdb)) \<union> set (silenced (demo_db [] [0] ((\<lambda>_. NoTx)(0 := Ended)) :: nat txdb))"
  using transaction_outcome [OF demo_helper_run, of 0 "Return None"] by auto

text \<open>
  A handler that ends its goroutine is neither a panic that \<open>recover\<close> sees nor an error: the deferred
  function returns without a rollback, and the transaction stays open.
\<close>

theorem goexit_leaks_transaction:
  "\<exists>d pcs. tx_reach Transaction_next (\<lambda>i. i :: nat) (\<lambda>_. Transaction_start True True True) (d, pcs) \<and> pcs 0 = Done Exited \<and> is_open (txs d 0)"
proof -
  let ?d = "demo_db [] [] ((\<lambda>_. NoTx)(0 := Open None)) :: nat txdb"
  have "tx_reach Transaction_next (\<lambda>i. i) (\<lambda>_. Transaction_start True True True) (?d, (\<lambda>_. AtBegin)(0 := Done Exited))"
    by (rule tx_reach_call [OF demo_helper_begun, of 0 Exit]) (use handler [of 0 0 ?d Exit] in \<open>simp_all add: note_reply_def\<close>)
  moreover have "is_open (txs ?d 0)" by (simp add: demo_db_def)
  ultimately show ?thesis by (metis fun_upd_same)
qed

end
