(* ===== verification/Kc_Idempotency.thy ===== *)
theory Kc_Idempotency
  imports Kc_Transaction
begin

text \<open>
  Transactional idempotency: \<open>src/pkg/idempotency/idempotency.go\<close> (argument checks, \<open>Execute\<close>) and
  \<open>src/pkg/idempotency/storage.go\<close> (configuration, identifiers, the insert of the record).
\<close>

section \<open>Configuration\<close>

record Config =
  SchemaName :: string
  TableName :: string

record resolvedConfig =
  schemaName :: string
  tableName :: string
  table :: string

definition defaultTableName :: string where "defaultTableName = ''idempotency_records''"
definition partitionCount :: nat where "partitionCount = 64"
definition partitionSuffixLen :: nat where "partitionSuffixLen = length ''_p63''"
definition maxNamespaceLength :: nat where "maxNamespaceLength = 128"
definition maxIdempotencyKeyLength :: nat where "maxIdempotencyKeyLength = 256"

definition validateIdentifier :: "string \<Rightarrow> nat \<Rightarrow> bool" where
  "validateIdentifier value maximum \<longleftrightarrow> \<not> (length value > maximum \<or> \<not> identifierPattern value)"

definition resolveConfig :: "Config \<Rightarrow> resolvedConfig option" where
  "resolveConfig c =
     (let nm = (if TableName c = [] then defaultTableName else TableName c) in
      if \<not> validateIdentifier nm (maxIdentifierLength - partitionSuffixLen) then None
      else if SchemaName c \<noteq> [] \<and> \<not> validateIdentifier (SchemaName c) maxIdentifierLength then None
      else Some \<lparr>schemaName = SchemaName c, tableName = nm,
                 table = (if SchemaName c \<noteq> [] then SchemaName c @ ''.'' @ nm else nm)\<rparr>)"

text \<open>Quoting, and the names of the table, its partitions (\<open>%02d\<close>) and its index (\<open>%08x\<close> of FNV-1a).\<close>

definition quoteIdentifier :: "driver \<Rightarrow> string \<Rightarrow> string" where
  "quoteIdentifier dialect name =
     (if dialect = MySQL then [CHR 0x60] @ name @ [CHR 0x60] else [CHR 0x22] @ name @ [CHR 0x22])"

definition qualifiedIdentifier :: "driver \<Rightarrow> resolvedConfig \<Rightarrow> string \<Rightarrow> string" where
  "qualifiedIdentifier dialect c name =
     (let qualified = quoteIdentifier dialect name in
      if schemaName c \<noteq> [] then quoteIdentifier dialect (schemaName c) @ ''.'' @ qualified else qualified)"

definition qualifiedTableName :: "driver \<Rightarrow> resolvedConfig \<Rightarrow> string" where
  "qualifiedTableName dialect c = qualifiedIdentifier dialect c (tableName c)"

definition digit :: "nat \<Rightarrow> char" where
  "digit n = (if n < 10 then char_of (48 + n) else char_of (87 + n))"

definition partition_name :: "resolvedConfig \<Rightarrow> nat \<Rightarrow> string" where
  "partition_name c remainder = tableName c @ ''_p'' @ [digit (remainder div 10), digit (remainder mod 10)]"

definition qualifiedPartitionName :: "driver \<Rightarrow> resolvedConfig \<Rightarrow> nat \<Rightarrow> string" where
  "qualifiedPartitionName dialect c remainder = qualifiedIdentifier dialect c (partition_name c remainder)"

definition fnv32a :: "string \<Rightarrow> 32 word" where
  "fnv32a s = fold (\<lambda>c h. (h XOR of_nat (byte c)) * 16777619) s 2166136261"

definition hex8 :: "32 word \<Rightarrow> string" where
  "hex8 w = map (\<lambda>k. digit (unat w div 16 ^ (7 - k) mod 16)) [0..<8]"

definition qualifiedIndexName :: "driver \<Rightarrow> resolvedConfig \<Rightarrow> string" where
  "qualifiedIndexName dialect c = quoteIdentifier dialect (''idempotency_created_'' @ hex8 (fnv32a (tableName c)))"

definition newSQLStorage :: "string option \<Rightarrow> resolvedConfig \<Rightarrow> (driver \<times> resolvedConfig) option" where
  "newSQLStorage db c = (case db of None \<Rightarrow> None | Some nm \<Rightarrow> map_option (\<lambda>d. (d, c)) (parse_driver nm))"

section \<open>Execute\<close>

definition validateText :: "string \<Rightarrow> nat \<Rightarrow> bool" where
  "validateText value maximum \<longleftrightarrow> \<not> (\<not> valid_utf8 value \<or> blank value) \<and> \<not> rune_count value > maximum"

record call_args =
  ca_ctx :: "bool option" \<comment> \<open>none: nil context; otherwise whether it has ended\<close>
  namespace :: string
  idempotencyKey :: string
  ca_handler :: bool

definition validateExecutionArguments :: "call_args \<Rightarrow> tx_error option" where
  "validateExecutionArguments a =
     (case ca_ctx a of
        None \<Rightarrow> Some ErrInvalidArgument
      | Some ended \<Rightarrow>
          if ended then Some ErrContext
          else if \<not> validateText (namespace a) maxNamespaceLength then Some ErrInvalidArgument
          else if \<not> validateText (idempotencyKey a) maxIdempotencyKeyLength then Some ErrInvalidArgument
          else if \<not> ca_handler a then Some ErrInvalidArgument
          else None)"

definition Execute_start :: "bool \<Rightarrow> call_args \<Rightarrow> pc" where
  "Execute_start executor a =
     (if \<not> executor then Done (Return (Some ErrInvalidArgument))
      else case validateExecutionArguments a of Some e \<Rightarrow> Done (Return (Some e)) | None \<Rightarrow> AtBegin)"

text \<open>The insert of the record, as \<open>Execute\<close> reads its error.\<close>

definition insert_error :: "reply_error \<Rightarrow> tx_error" where
  "insert_error e = (case e of Driver x \<Rightarrow> if isDuplicateKey x then ErrConflict else ErrInsert e | _ \<Rightarrow> ErrInsert e)"

fun Execute_next :: "pc \<Rightarrow> reply \<Rightarrow> pc" where
  "Execute_next AtBegin r = (case r of Ok \<Rightarrow> AtInsert | Err e \<Rightarrow> Done (Return (Some (ErrBegin e))) | Panic \<Rightarrow> Done Panicked | Exit \<Rightarrow> Done Exited)"
| "Execute_next AtInsert r =
     (case r of Ok \<Rightarrow> AtHandler | Err e \<Rightarrow> AtRollback (Return (Some (insert_error e))) | Panic \<Rightarrow> AtRollback Panicked | Exit \<Rightarrow> AtRollback Exited)"
| "Execute_next AtHandler r =
     (case r of Ok \<Rightarrow> AtCommit | Err e \<Rightarrow> AtRollback (Return (Some (ErrHandler e))) | Panic \<Rightarrow> AtRollback Panicked | Exit \<Rightarrow> AtRollback Exited)"
| "Execute_next AtCommit r =
     (case r of Ok \<Rightarrow> AtRollback (Return None) | Err e \<Rightarrow> AtRollback (Return (Some (ErrCommit e))) | Panic \<Rightarrow> AtRollback Panicked | Exit \<Rightarrow> AtRollback Exited)"
| "Execute_next (AtRollback o1) r = Done (after_rollback o1 r)"
| "Execute_next (Done o1) r = Done o1"

interpretation idem: tx_client Execute_next
  by unfold_locales (auto simp: nil_def unsure_def insert_error_def split: reply.splits reply_error.splits if_splits)

text \<open>The key of the record of a call.\<close>

definition call_key :: "(nat \<Rightarrow> call_args) \<Rightarrow> nat \<Rightarrow> string \<times> string" where
  "call_key args i = (namespace (args i), idempotencyKey (args i))"

definition idem_reach :: "bool \<Rightarrow> (nat \<Rightarrow> call_args) \<Rightarrow> (string \<times> string) sys \<Rightarrow> bool" where
  "idem_reach executor args = tx_reach Execute_next (call_key args) (\<lambda>i. Execute_start executor (args i))"

fun conflict :: "tx_error \<Rightarrow> bool" where
  "conflict ErrConflict = True"
| "conflict (ErrJoin a b) = conflict a"
| "conflict _ = False"

definition conflicts :: "pc \<Rightarrow> bool" where
  "conflicts x \<longleftrightarrow> (case result x of Some (Return (Some e)) \<Rightarrow> conflict e | _ \<Rightarrow> False)"

section \<open>Invariant\<close>

definition own_tx :: "(nat \<Rightarrow> 'k) \<Rightarrow> 'k txdb \<Rightarrow> nat \<Rightarrow> pc \<Rightarrow> bool" where
  "own_tx key d i x \<longleftrightarrow>
     (\<forall>k. txs d i = Open (Some k) \<longrightarrow> k = key i)
     \<and> (x = AtHandler \<or> x = AtCommit \<longrightarrow> txs d i = Open (Some (key i)) \<or> txs d i = Ended)
     \<and> (x = AtInsert \<longrightarrow> txs d i = Open None \<or> txs d i = Ended)
     \<and> (conflicts x \<longrightarrow> key i \<in> set (rows d) \<and> i \<notin> set (applied d))
     \<and> (nil x \<longrightarrow> i \<in> set (applied d)) \<and> (\<forall>o1. x = Done o1 \<longrightarrow> \<not> is_open (txs d i))"

definition keys_ok :: "(nat \<Rightarrow> 'k) \<Rightarrow> 'k txdb \<Rightarrow> bool" where
  "keys_ok key d \<longleftrightarrow>
     rows d = map key (applied d) \<and> distinct (rows d)
     \<and> (\<forall>i. \<forall>j \<in> set (applied d). txs d i \<noteq> Open (Some (key j)))
     \<and> (\<forall>i j k. txs d i = Open (Some k) \<and> txs d j = Open (Some k) \<longrightarrow> i = j)"

lemma tx_db_rows: "tx_db i k x d r d' \<Longrightarrow> set (rows d) \<subseteq> set (rows d')"
  by (induction rule: tx_db.induct) (auto simp: end_tx_def apply_tx_def note_reply_def split: tx.splits option.splits)

lemma own_frame:
  assumes "tx_db i k x d r d'" and "j \<noteq> i" and "own_tx key d j y"
  shows "own_tx key d' j y"
  using tx_db_frame [OF assms(1,2)] tx_db_rows [OF assms(1)] assms(3) by (auto simp: own_tx_def)

lemma conflicts_simps [simp]:
  "\<not> conflicts AtBegin" "\<not> conflicts AtInsert" "\<not> conflicts AtHandler" "\<not> conflicts AtCommit"
  "conflicts (Done o1) = conflicts (AtRollback o1)" "conflicts (AtRollback (after_rollback o1 (Err e))) = conflicts (AtRollback o1)"
  "\<not> conflicts (AtRollback Panicked)" "\<not> conflicts (AtRollback Exited)" "\<not> conflicts (AtRollback (Return None))"
  "conflicts (AtRollback (Return (Some e'))) = conflict e'"
  by (auto simp: conflicts_def after_rollback_def split: outcome.splits option.splits)

lemma nil_simps [simp]: "\<not> nil (AtRollback Panicked)" "\<not> nil (AtRollback Exited)" "\<not> nil (AtRollback (Return (Some e)))" "nil (AtRollback (Return None))"
  by (simp_all add: nil_def)

lemma own_step:
  assumes "tx_db i (key i) x d r d'" and "own_tx key d i x" and "call_ok d i x"
  shows "own_tx key d' i (Execute_next x r)"
  using assms(1)
proof cases
  case handler
  then show ?thesis using assms(2) by (cases r) (auto simp: own_tx_def note_reply_def)
next
  case handler_commits
  then show ?thesis using assms(2) by (cases r) (auto simp: own_tx_def note_reply_def apply_tx_def end_tx_def)
next
  case handler_rolls_back
  then show ?thesis using assms(2) by (cases r) (auto simp: own_tx_def note_reply_def end_tx_def)
next
  case rollback_err
  then show ?thesis using assms(2) by (auto simp: own_tx_def end_tx_def nil_rollback)
qed (use assms(2,3) in \<open>auto simp: own_tx_def call_ok_def insert_error_def apply_tx_def end_tx_def nil_def\<close>)

lemma apply_keys_ok:
  assumes "keys_ok key d" and "txs d i = Open (Some (key i))"
  shows "keys_ok key (apply_tx i d)"
proof -
  have "key i \<notin> key ` set (applied d)" using assms unfolding keys_ok_def by (metis imageE)
  then show ?thesis using assms unfolding keys_ok_def by (auto simp: apply_tx_def end_tx_def)
qed

lemma end_keys_ok: "keys_ok key d \<Longrightarrow> keys_ok key (end_tx i d)"
  unfolding keys_ok_def by (auto simp: end_tx_def)

lemma keys_frame [simp]: "keys_ok key (d\<lparr>own := o1\<rparr>) = keys_ok key d" "keys_ok key (note_reply i r d) = keys_ok key d"
  by (simp_all add: keys_ok_def note_reply_def)

lemma keys_step:
  assumes "tx_db i (key i) x d r d'" and "keys_ok key d" and "own_tx key d i x"
  shows "keys_ok key d'"
  using assms(1)
proof cases
  case begin_ok
  then show ?thesis using assms(2) by (auto simp: keys_ok_def)
next
  case insert_ok
  then show ?thesis using assms(2) by (auto simp: keys_ok_def)
next
  case handler_commits
  then show ?thesis using assms apply_keys_ok [of key d i] by (auto simp: own_tx_def is_open_def)
next
  case commit_ok
  then show ?thesis using assms apply_keys_ok [of key d i] by (auto simp: own_tx_def is_open_def)
next
  case commit_lost
  then show ?thesis using assms apply_keys_ok [of key d i] by (auto simp: own_tx_def is_open_def)
qed (use assms(2) end_keys_ok in auto)

lemma Execute_starts: "Execute_start ex a = AtBegin \<or> (\<exists>e. Execute_start ex a = Done (Return (Some e)) \<and> \<not> commit_failed e \<and> \<not> conflict e)"
  by (auto simp: Execute_start_def validateExecutionArguments_def split: option.splits)

lemma idem_invariant:
  assumes "idem_reach ex args s"
  shows "keys_ok (call_key args) (fst s) \<and> (\<forall>i. own_tx (call_key args) (fst s) i (snd s i)) \<and> (\<forall>i. call_ok (fst s) i (snd s i))"
proof -
  let ?key = "call_key args"
  have st: "\<forall>i. Execute_start ex (args i) = AtBegin \<or> (\<exists>e. Execute_start ex (args i) = Done (Return (Some e)) \<and> \<not> commit_failed e)"
    using Execute_starts by blast
  have "keys_ok ?key (fst s) \<and> (\<forall>i. own_tx ?key (fst s) i (snd s i))"
    using assms unfolding idem_reach_def
  proof (induction rule: tx_reach.induct)
    case init
    have "\<not> conflicts (Execute_start ex (args i))" for i using Execute_starts [of ex "args i"] by auto
    moreover have "Execute_start ex (args i) \<notin> {AtInsert, AtHandler, AtCommit}" for i using Execute_starts [of ex "args i"] by auto
    moreover have "\<not> nil (Execute_start ex (args i))" for i using Execute_starts [of ex "args i"] by (auto simp: nil_def)
    ultimately show ?case by (simp add: keys_ok_def own_tx_def)
  next
    case (step s s')
    have c: "call_ok (fst s) i (snd s i)" for i using idem.reach_call_ok [OF step.hyps(1) st] by blast
    from step.hyps(2) show ?case
    proof cases
      case (call i pcs d r d')
      have "own_tx ?key d' j ((pcs(i := Execute_next (pcs i) r)) j)" for j
        using own_step [of i ?key "pcs i" d r d'] call(3) own_frame [OF call(3), of j ?key "pcs j"] step.IH c [of i] call(1) by (cases "j = i") auto
      moreover have "keys_ok ?key d'" using keys_step [of i ?key "pcs i" d r d'] call(3) step.IH call(1) by simp
      ultimately show ?thesis using call(2) by simp
    next
      case (lost d i pcs)
      then show ?thesis using step.IH end_keys_ok [of ?key d i] by (auto simp: own_tx_def end_tx_def is_open_def split: tx.splits)
    qed
  qed
  then show ?thesis using idem.reach_call_ok [of ?key "\<lambda>i. Execute_start ex (args i)" s] st assms by (simp add: idem_reach_def)
qed

text \<open>
  Exactly once (C20). In every interleaving of any number of \<open>Execute\<close> calls, by any number of processes, with failures of
  every statement, lost connections, lost commit answers, and handlers that fail, panic, end their goroutine or end the
  transaction themselves: the changes of the handlers of one namespace and key are committed at most
  once; a call that returns nil has committed them; a call that returns \<open>ErrConflict\<close> has not, and some
  other call has, for the same namespace and key; a call that ends otherwise has not, unless its
  commit failed with an unknown result or its handler committed by itself; and no call leaves an open transaction.
\<close>

theorem idempotent_exactly_once:
  assumes "idem_reach executor args (d, pcs)"
  shows "distinct (applied d) \<and> inj_on (call_key args) (set (applied d))
     \<and> (\<forall>i o1. pcs i = Done o1 \<longrightarrow>
          \<not> is_open (txs d i)
          \<and> (o1 = Return None \<longrightarrow> i \<in> set (applied d))
          \<and> (\<forall>e. o1 = Return (Some e) \<and> conflict e \<longrightarrow> i \<notin> set (applied d) \<and> (\<exists>j \<in> set (applied d). call_key args j = call_key args i))
          \<and> (i \<in> set (applied d) \<longrightarrow> o1 = Return None \<or> i \<in> set (own d) \<or> (\<exists>e. o1 = Return (Some e) \<and> commit_failed e)))"
proof -
  have k: "keys_ok (call_key args) d" and o: "\<And>i. own_tx (call_key args) d i (pcs i)" and c: "\<And>i. call_ok d i (pcs i)"
    using idem_invariant [OF assms] by auto
  have d: "distinct (map (call_key args) (applied d))" and rows: "rows d = map (call_key args) (applied d)" using k by (auto simp: keys_ok_def)
  have *: "\<not> is_open (txs d i) \<and> (o1 = Return None \<longrightarrow> i \<in> set (applied d))
      \<and> (\<forall>e. o1 = Return (Some e) \<and> conflict e \<longrightarrow> i \<notin> set (applied d) \<and> (\<exists>j \<in> set (applied d). call_key args j = call_key args i))
      \<and> (i \<in> set (applied d) \<longrightarrow> o1 = Return None \<or> i \<in> set (own d) \<or> (\<exists>e. o1 = Return (Some e) \<and> commit_failed e))"
    if "pcs i = Done o1" for i o1
    using o [of i] c [of i] rows that
    by (auto simp: own_tx_def call_ok_def nil_def unsure_def split: outcome.splits option.splits)
  then show ?thesis using d by (simp add: distinct_map)
qed

definition demo_args :: "nat \<Rightarrow> call_args" where
  "demo_args i = \<lparr>ca_ctx = Some False, namespace = ''orders'', idempotencyKey = ''k1'', ca_handler = True\<rparr>"

lemma demo_start: "Execute_start True (demo_args i) = AtBegin"
  using plain_name [of "CHR ''o''" "''rders''"] plain_name [of "CHR ''k''" "''1''"]
  by (simp add: Execute_start_def validateExecutionArguments_def demo_args_def validateText_def maxNamespaceLength_def
    maxIdempotencyKeyLength_def byte_def is_space_def)

lemma demo_call_key: "call_key demo_args i = (''orders'', ''k1'')"
  by (simp add: call_key_def demo_args_def)

text \<open>A second call for the same key, after the first one.\<close>

lemma demo_idem_run:
  "idem_reach True demo_args
     (demo_db [(''orders'', ''k1'')] [0] ((\<lambda>_. NoTx)(0 := Ended, 1 := Ended)),
      (\<lambda>_. AtBegin)(0 := Done (Return None), 1 := Done (Return (Some ErrConflict))))"
proof -
  let ?k = "(''orders'', ''k1'')" and ?R = "idem_reach True demo_args" and ?dup = "Err (Driver (MySQLError 1062))"
  note sim = demo_db_def demo_call_key is_open_def apply_tx_def end_tx_def note_reply_def insert_error_def isDuplicateKey_def fun_eq_iff after_rollback_def
  have go: "?R (d', pcs')" if "?R (d, pcs)" "tx_db i ?k (pcs i) d r d'" "pcs' = pcs(i := Execute_next (pcs i) r)" for d pcs i r d' pcs'
    using tx_reach_call [of Execute_next "call_key demo_args" "\<lambda>i. Execute_start True (demo_args i)" d pcs i r d' pcs'] that
    by (simp add: idem_reach_def demo_call_key)
  have s0: "?R (demo_db [] [] (\<lambda>_. NoTx), \<lambda>_. AtBegin)"
    unfolding idem_reach_def using tx_reach.init [of Execute_next "call_key demo_args" "\<lambda>i. Execute_start True (demo_args i)"]
    by (simp add: demo_db_def demo_start)
  have s1: "?R (demo_db [] [] ((\<lambda>_. NoTx)(0 := Open None)), (\<lambda>_. AtBegin)(0 := AtInsert))"
    by (rule go [OF s0, of 0 Ok]) (use begin_ok [of 0 ?k "demo_db [] [] (\<lambda>_. NoTx)"] in \<open>simp_all add: sim\<close>)
  have s2: "?R (demo_db [] [] ((\<lambda>_. NoTx)(0 := Open (Some ?k))), (\<lambda>_. AtBegin)(0 := AtHandler))"
    by (rule go [OF s1, of 0 Ok]) (use insert_ok [of "demo_db [] [] ((\<lambda>_. NoTx)(0 := Open None))" 0 ?k] in \<open>simp_all add: sim\<close>)
  have s3: "?R (demo_db [] [] ((\<lambda>_. NoTx)(0 := Open (Some ?k))), (\<lambda>_. AtBegin)(0 := AtCommit))"
    by (rule go [OF s2, of 0 Ok]) (use handler [of 0 ?k "demo_db [] [] ((\<lambda>_. NoTx)(0 := Open (Some ?k)))" Ok] in \<open>simp_all add: sim\<close>)
  have s4: "?R (demo_db [?k] [0] ((\<lambda>_. NoTx)(0 := Ended)), (\<lambda>_. AtBegin)(0 := AtRollback (Return None)))"
    by (rule go [OF s3, of 0 Ok]) (use commit_ok [of "demo_db [] [] ((\<lambda>_. NoTx)(0 := Open (Some ?k)))" 0 ?k] in \<open>simp_all add: sim\<close>)
  have s5: "?R (demo_db [?k] [0] ((\<lambda>_. NoTx)(0 := Ended)), (\<lambda>_. AtBegin)(0 := Done (Return None)))"
    by (rule go [OF s4, of 0 "Err ErrTxDone"]) (use rollback_done [of "demo_db [?k] [0] ((\<lambda>_. NoTx)(0 := Ended))" 0 ?k "Return None"] in \<open>simp_all add: sim\<close>)
  have s6: "?R (demo_db [?k] [0] ((\<lambda>_. NoTx)(0 := Ended, 1 := Open None)), (\<lambda>_. AtBegin)(0 := Done (Return None), 1 := AtInsert))"
    by (rule go [OF s5, of 1 Ok]) (use begin_ok [of 1 ?k "demo_db [?k] [0] ((\<lambda>_. NoTx)(0 := Ended))"] in \<open>simp_all add: sim\<close>)
  have s7: "?R (demo_db [?k] [0] ((\<lambda>_. NoTx)(0 := Ended, 1 := Open None)), (\<lambda>_. AtBegin)(0 := Done (Return None), 1 := AtRollback (Return (Some ErrConflict))))"
    by (rule go [OF s6, of 1 ?dup])
      (use insert_dup [of ?k "demo_db [?k] [0] ((\<lambda>_. NoTx)(0 := Ended, 1 := Open None))" "MySQLError 1062" 1] in \<open>simp_all add: sim\<close>)
  show ?thesis
    by (rule go [OF s7, of 1 Ok])
      (use rollback_ok [of "demo_db [?k] [0] ((\<lambda>_. NoTx)(0 := Ended, 1 := Open None))" 1 ?k "Return (Some ErrConflict)"] in \<open>simp_all add: sim\<close>)
qed

theorem idempotent_exactly_once_witness:
  "let d = demo_db [(''orders'', ''k1'')] [0] ((\<lambda>_. NoTx)(0 := Ended, 1 := Ended)) in
   (0::nat) \<in> set (applied d) \<and> (1::nat) \<notin> set (applied d) \<and> \<not> is_open (txs d 1)"
  using idempotent_exactly_once [OF demo_idem_run] by (auto simp: Let_def dest!: spec [of _ "0::nat"] spec [of _ "1::nat"])

section \<open>Names\<close>

lemma digit_ident: "n < 10 \<Longrightarrow> ident_char (digit n)"
  by (auto simp: digit_def ident_char_def byte_in_def byte_def ident_start_def)

lemma digit_inj: "m < 10 \<Longrightarrow> n < 10 \<Longrightarrow> digit m = digit n \<longleftrightarrow> m = n"
  by (auto simp: digit_def dest: arg_cong [of _ _ "of_char :: char \<Rightarrow> nat"])

lemma identifierPattern_append: "identifierPattern s \<Longrightarrow> list_all ident_char t \<Longrightarrow> identifierPattern (s @ t)"
  by (cases s) simp_all

text \<open>A resolved table leaves room for its partitions: their names are safe, short enough and different.\<close>

lemma partition_names:
  assumes "resolveConfig c = Some rc" and "m < partitionCount" and "n < partitionCount"
  shows "validateIdentifier (partition_name rc m) maxIdentifierLength \<and> (partition_name rc m = partition_name rc n \<longleftrightarrow> m = n)"
proof -
  have t: "identifierPattern (tableName rc)" "length (tableName rc) \<le> 59"
    using assms(1) by (auto simp: resolveConfig_def Let_def validateIdentifier_def maxIdentifierLength_def partitionSuffixLen_def split: if_splits)
  have mn: "m div 10 < 10" "m mod 10 < 10" "n div 10 < 10" "n mod 10 < 10" using assms(2,3) by (simp_all add: partitionCount_def)
  have "list_all ident_char (''_p'' @ [digit (m div 10), digit (m mod 10)])"
    using digit_ident [OF mn(1)] digit_ident [OF mn(2)] by (simp add: ident_char_def ident_start_def byte_in_def byte_def)
  then have "validateIdentifier (partition_name rc m) maxIdentifierLength"
    using identifierPattern_append [OF t(1)] t(2) by (simp add: validateIdentifier_def partition_name_def maxIdentifierLength_def)
  moreover have "partition_name rc m = partition_name rc n \<longleftrightarrow> m div 10 = n div 10 \<and> m mod 10 = n mod 10"
    using digit_inj [OF mn(1,3)] digit_inj [OF mn(2,4)] by (simp add: partition_name_def)
  ultimately show ?thesis using div_mult_mod_eq [of m 10] div_mult_mod_eq [of n 10] by metis
qed

text \<open>
  The name of the index is a hash of the table name, in the namespace of the schema: two different
  tables of one schema can get the same, and then the index of the second one is not created.
\<close>

theorem index_names_collide:
  "\<exists>c c'. resolveConfig \<lparr>SchemaName = [], TableName = ''liquid''\<rparr> = Some c
     \<and> resolveConfig \<lparr>SchemaName = [], TableName = ''costarring''\<rparr> = Some c'
     \<and> tableName c \<noteq> tableName c' \<and> qualifiedIndexName Pgx c = qualifiedIndexName Pgx c'"
proof -
  have "fnv32a ''liquid'' = fnv32a ''costarring''" by (simp add: fnv32a_def byte_def)
  then show ?thesis
    by (simp add: resolveConfig_def Let_def validateIdentifier_def maxIdentifierLength_def partitionSuffixLen_def qualifiedIndexName_def
      ident_start_def ident_char_def byte_in_def byte_def)
qed

end
