(* ===== verification/Kc_Resource.thy ===== *)
theory Kc_Resource
  imports Kc_Prelude
begin

text \<open>
  The process-wide resource registry of \<open>src/pkg/resource/resource.go\<close>: values by name and declared
  type, creation by one caller at a time, shutdown.

  A declared type is a number. A stored value is an \<open>any\<close>: \<open>None\<close> is the nil \<open>any\<close>, which \<open>cast\<close> reads as
  the zero value of the type; that the type assertion of \<open>cast\<close> succeeds follows from the type in the key. A call
  record (\<open>resourceCall\<close>) is shared by pointer between the creator and those who wait: it lives in a store.
\<close>

type_synonym resourceKey = "string \<times> nat"

text \<open>The value of a panic; \<open>panic(nil)\<close> panics with a \<open>*runtime.PanicNilError\<close>.\<close>

datatype panic_value = PanicNilError | PanicValue nat

datatype resource_error = ErrEmptyName | ErrNilFactory | FactoryError nat

record 'v resourceCall =
  call_done :: bool
  call_value :: "'v option"
  call_err :: "resource_error option"
  call_panic :: "panic_value option"

record 'v resources =
  vals :: "resourceKey \<rightharpoonup> 'v option"
  creating :: "resourceKey \<rightharpoonup> nat"
  calls :: "nat \<Rightarrow> 'v resourceCall"
  next_call :: nat

definition new_call :: "'v resourceCall" where
  "new_call = \<lparr>call_done = False, call_value = None, call_err = None, call_panic = None\<rparr>"

definition empty_resources :: "'v resources" where
  "empty_resources =
     \<lparr>vals = Map.empty, creating = Map.empty, calls = (\<lambda>_. new_call), next_call = 0\<rparr>"

definition Set :: "resourceKey \<Rightarrow> 'v option \<Rightarrow> 'v resources \<Rightarrow> resource_error option \<times> 'v resources" where
  "Set k v s = (if fst k = [] then (Some ErrEmptyName, s) else (None, s\<lparr>vals := (vals s)(k \<mapsto> v)\<rparr>))"

text \<open>The value and whether it was found.\<close>

definition Get :: "resourceKey \<Rightarrow> 'v resources \<Rightarrow> 'v option \<times> bool" where
  "Get k s = (if fst k = [] then (None, False) else case vals s k of None \<Rightarrow> (None, False) | Some v \<Rightarrow> (v, True))"

text \<open>
  \<open>Shutdown\<close>: \<open>order\<close> is the order in which the range over the taken map visits its keys; \<open>closer v\<close>, that the value is a
  closer and not a nil pointer; \<open>close v\<close>, what closing it returns.
\<close>

fun close_values :: "('v \<Rightarrow> bool) \<Rightarrow> ('v \<Rightarrow> nat option) \<Rightarrow> 'v option list \<Rightarrow> 'v list \<times> nat list" where
  "close_values closer close [] = ([], [])"
| "close_values closer close (v # vs) =
     (case close_values closer close vs of (cs, es) \<Rightarrow>
      case v of
        None \<Rightarrow> (cs, es)
      | Some x \<Rightarrow>
          if \<not> closer x then (cs, es)
          else (x # cs, case close x of None \<Rightarrow> es | Some e \<Rightarrow> e # es))"

definition Shutdown ::
  "('v \<Rightarrow> bool) \<Rightarrow> ('v \<Rightarrow> nat option) \<Rightarrow> resourceKey list \<Rightarrow> 'v resources \<Rightarrow> ('v list \<times> nat list) \<times> 'v resources" where
  "Shutdown closer close order s =
     (close_values closer close (map (\<lambda>k. the (vals s k)) order), s\<lparr>vals := Map.empty\<rparr>)"

section \<open>GetOrCreate\<close>

datatype 'v result = Value "'v option" | Error resource_error | Panicked panic_value

text \<open>Up to the point where the caller has its value, waits for another caller, or has to run the factory itself.\<close>

datatype 'v entered = Immediate "'v result" | Wait nat | Create nat

definition GetOrCreate :: "resourceKey \<Rightarrow> bool \<Rightarrow> 'v resources \<Rightarrow> 'v entered \<times> 'v resources" where
  "GetOrCreate k factory s =
     (if fst k = [] then (Immediate (Error ErrEmptyName), s)
      else if \<not> factory then (Immediate (Error ErrNilFactory), s)
      else case vals s k of
          Some v \<Rightarrow> (Immediate (Value v), s)
        | None \<Rightarrow>
            (case creating s k of
               Some c \<Rightarrow> (Wait c, s)
             | None \<Rightarrow>
                 (Create (next_call s),
                  s\<lparr>creating := (creating s)(k \<mapsto> next_call s), next_call := next_call s + 1,
                    calls := (calls s)(next_call s := new_call)\<rparr>)))"

text \<open>What a caller that waited gets once the call is done.\<close>

definition call_result :: "'v resourceCall \<Rightarrow> 'v result" where
  "call_result c =
     (case call_panic c of
        Some p \<Rightarrow> Panicked p
      | None \<Rightarrow> (case call_err c of Some e \<Rightarrow> Error e | None \<Rightarrow> Value (call_value c)))"

text \<open>
  How the factory ends: it returns, panics, or ends its goroutine (\<open>runtime.Goexit\<close>). The deferred function of
  \<open>create\<close> runs in the last two cases and calls \<open>panic\<close> with what \<open>recover\<close> gave; \<open>recover\<close> does not see
  the end of a goroutine and gives nil, so that the caller panics with a \<open>PanicNilError\<close> then.
\<close>

datatype 'v factory_end = Returns "'v option" "nat option" | Panics panic_value | Goexit

definition create :: "resourceKey \<Rightarrow> nat \<Rightarrow> 'v factory_end \<Rightarrow> 'v resources \<Rightarrow> 'v result \<times> 'v resources" where
  "create k c f s =
     (let finish = (\<lambda>x vs. s\<lparr>calls := (calls s)(c := x\<lparr>call_done := True\<rparr>), vals := vs, creating := (creating s)(k := None)\<rparr>);
          call = calls s c in
      case f of
        Returns v err \<Rightarrow>
          (case err of Some e \<Rightarrow> Error (FactoryError e) | None \<Rightarrow> Value v,
           finish (call\<lparr>call_value := v, call_err := map_option FactoryError err\<rparr>)
             (if err = None then (vals s)(k \<mapsto> v) else vals s))
      | Panics p \<Rightarrow> (Panicked p, finish (call\<lparr>call_panic := Some p\<rparr>) (vals s))
      | Goexit \<Rightarrow> (Panicked PanicNilError, finish (call\<lparr>call_panic := None\<rparr>) (vals s)))"

section \<open>Concurrent callers\<close>

text \<open>
  \<open>Finished k c r\<close>: the result \<open>r\<close>, found at once or obtained by waiting for call \<open>c\<close>; \<open>Created k c f r\<close>: the result
  of the caller that ran the factory of call \<open>c\<close>, which ended with \<open>f\<close>.
\<close>

datatype 'v thread =
    Idle
  | Waiting resourceKey nat
  | Running resourceKey nat
  | Finished resourceKey "nat option" "'v result"
  | Created resourceKey nat "'v factory_end" "'v result"

type_synonym 'v res_sys = "'v resources \<times> (nat \<Rightarrow> 'v thread)"

definition entered_thread :: "resourceKey \<Rightarrow> 'v entered \<Rightarrow> 'v thread" where
  "entered_thread k e = (case e of Immediate r \<Rightarrow> Finished k None r | Wait c \<Rightarrow> Waiting k c | Create c \<Rightarrow> Running k c)"

inductive res_step :: "'v res_sys \<Rightarrow> 'v res_sys \<Rightarrow> bool" where
  set: "Set k v s = (e, s') \<Longrightarrow> res_step (s, th) (s', th)"
| shutdown: "Shutdown closer close order s = (x, s') \<Longrightarrow> res_step (s, th) (s', th)"
| enter: "th t = Idle \<Longrightarrow> GetOrCreate k factory s = (e, s') \<Longrightarrow> res_step (s, th) (s', th(t := entered_thread k e))"
| wake: "th t = Waiting k c \<Longrightarrow> call_done (calls s c) \<Longrightarrow> res_step (s, th) (s, th(t := Finished k (Some c) (call_result (calls s c))))"
| created: "th t = Running k c \<Longrightarrow> create k c f s = (r, s') \<Longrightarrow> res_step (s, th) (s', th(t := Created k c f r))"

inductive res_reach :: "'v res_sys \<Rightarrow> bool" where
  init: "res_reach (empty_resources, \<lambda>_. Idle)"
| step: "res_reach x \<Longrightarrow> res_step x y \<Longrightarrow> res_reach y"

text \<open>The call record after the factory has ended, and what the caller that ran it gets.\<close>

definition ended_call :: "'v factory_end \<Rightarrow> 'v resourceCall" where
  "ended_call f =
     (case f of
        Returns v err \<Rightarrow> new_call\<lparr>call_done := True, call_value := v, call_err := map_option FactoryError err\<rparr>
      | Panics p \<Rightarrow> new_call\<lparr>call_done := True, call_panic := Some p\<rparr>
      | Goexit \<Rightarrow> new_call\<lparr>call_done := True\<rparr>)"

definition outcome :: "'v factory_end \<Rightarrow> 'v result" where
  "outcome f =
     (case f of
        Returns v err \<Rightarrow> (case err of Some e \<Rightarrow> Error (FactoryError e) | None \<Rightarrow> Value v)
      | Panics p \<Rightarrow> Panicked p
      | Goexit \<Rightarrow> Panicked PanicNilError)"

lemma call_result_ended: "call_result (ended_call f) = (if f = Goexit then Value None else outcome f)"
  by (cases f) (auto simp: call_result_def ended_call_def outcome_def new_call_def split: option.splits)

lemma ended_call_done [simp]: "call_done (ended_call f)" "ended_call f \<noteq> new_call"
  by (cases f; simp add: ended_call_def new_call_def)+

text \<open>The caller that runs the factory of a call, or has run it.\<close>

definition owner :: "'v thread \<Rightarrow> nat \<Rightarrow> bool" where
  "owner x c \<longleftrightarrow> (\<exists>k. x = Running k c) \<or> (\<exists>k f r. x = Created k c f r)"

lemma owner_simps [simp]:
  "owner (Running k d) c \<longleftrightarrow> d = c" "owner (Created k d f r) c \<longleftrightarrow> d = c" "\<not> owner Idle c" "\<not> owner (Waiting k d) c"
  "\<not> owner (Finished k x r) c"
  by (auto simp: owner_def)

text \<open>Calls under way are exactly those with a caller running the factory; the others end as their creator left them.\<close>

definition flight_ok :: "'v res_sys \<Rightarrow> bool" where
  "flight_ok x \<longleftrightarrow>
     (case x of (s, th) \<Rightarrow>
      (\<forall>t k c. th t = Running k c \<longrightarrow> creating s k = Some c \<and> c < next_call s \<and> calls s c = new_call)
      \<and> (\<forall>k c. creating s k = Some c \<longrightarrow> (\<exists>t. th t = Running k c))
      \<and> (\<forall>t u c. owner (th t) c \<and> owner (th u) c \<longrightarrow> t = u)
      \<and> (\<forall>t k c. th t = Waiting k c \<longrightarrow> creating s k = Some c \<or> (\<exists>u f r. th u = Created k c f r))
      \<and> (\<forall>t k c q. th t = Finished k (Some c) q \<longrightarrow> (\<exists>u f r. th u = Created k c f r \<and> q = call_result (ended_call f)))
      \<and> (\<forall>t k c f r. th t = Created k c f r \<longrightarrow> c < next_call s \<and> calls s c = ended_call f \<and> r = outcome f))"

lemma flight_okD:
  assumes "flight_ok (s, th)"
  shows "th t = Running k c \<Longrightarrow> creating s k = Some c \<and> c < next_call s \<and> calls s c = new_call"
    and "creating s k = Some c \<Longrightarrow> \<exists>t. th t = Running k c"
    and "owner (th t) c \<Longrightarrow> owner (th u) c \<Longrightarrow> t = u"
    and "th t = Waiting k c \<Longrightarrow> creating s k = Some c \<or> (\<exists>u f r. th u = Created k c f r)"
    and "th t = Finished k (Some c) q \<Longrightarrow> \<exists>u f r. th u = Created k c f r \<and> q = call_result (ended_call f)"
    and "th t = Created k c f r \<Longrightarrow> c < next_call s \<and> calls s c = ended_call f \<and> r = outcome f"
  using assms unfolding flight_ok_def by blast+

lemma flight_okI:
  assumes "\<And>t k c. th t = Running k c \<Longrightarrow> creating s k = Some c \<and> c < next_call s \<and> calls s c = new_call"
    and "\<And>k c. creating s k = Some c \<Longrightarrow> \<exists>t. th t = Running k c"
    and "\<And>t u c. owner (th t) c \<Longrightarrow> owner (th u) c \<Longrightarrow> t = u"
    and "\<And>t k c. th t = Waiting k c \<Longrightarrow> creating s k = Some c \<or> (\<exists>u f r. th u = Created k c f r)"
    and "\<And>t k c q. th t = Finished k (Some c) q \<Longrightarrow> \<exists>u f r. th u = Created k c f r \<and> q = call_result (ended_call f)"
    and "\<And>t k c f r. th t = Created k c f r \<Longrightarrow> c < next_call s \<and> calls s c = ended_call f \<and> r = outcome f"
  shows "flight_ok (s, th)"
  unfolding flight_ok_def split_conv by (intro conjI allI impI) (use assms in blast)+

text \<open>The invariant does not depend on the stored values.\<close>

lemma flight_vals: "flight_ok (s\<lparr>vals := m\<rparr>, th) = flight_ok (s, th)"
  by (simp add: flight_ok_def)

lemma GetOrCreate_cases:
  assumes "GetOrCreate k factory s = (e, s')"
  shows "(\<exists>r. e = Immediate r \<and> s' = s) \<or> (\<exists>c. e = Wait c \<and> s' = s \<and> creating s k = Some c)
     \<or> e = Create (next_call s) \<and> creating s k = None
        \<and> s' = s\<lparr>creating := (creating s)(k \<mapsto> next_call s), next_call := next_call s + 1, calls := (calls s)(next_call s := new_call)\<rparr>"
  using assms by (auto simp: GetOrCreate_def split: if_splits option.splits)

text \<open>A thread that owns no call may change to any state that is allowed on its own.\<close>

lemma flight_thread:
  assumes "flight_ok (s, th)" and "\<And>c. \<not> owner (th t) c" and "\<And>c. \<not> owner x c"
    and "\<And>k c. x = Waiting k c \<Longrightarrow> creating s k = Some c \<or> (\<exists>u f r. th u = Created k c f r)"
    and "\<And>k c q. x = Finished k (Some c) q \<Longrightarrow> \<exists>u f r. th u = Created k c f r \<and> q = call_result (ended_call f)"
  shows "flight_ok (s, th(t := x))"
proof -
  note ok = flight_okD [OF assms(1)]
  have own: "owner ((th(t := x)) u) c \<longleftrightarrow> u \<noteq> t \<and> owner (th u) c" for u c using assms(3) by simp
  have run: "(th(t := x)) u = Running k c \<longleftrightarrow> th u = Running k c" for u k c
    using assms(2,3) [of c] unfolding owner_def by (cases "u = t") (auto simp del: split_paired_All split_paired_Ex)
  have cre: "(th(t := x)) u = Created k c f r \<longleftrightarrow> th u = Created k c f r" for u k c f r
    using assms(2,3) [of c] unfolding owner_def by (cases "u = t") (auto simp del: split_paired_All split_paired_Ex)
  show ?thesis
  proof (rule flight_okI)
    show "u = v" if "owner ((th(t := x)) u) c" "owner ((th(t := x)) v) c" for u v c using that ok(3) unfolding own by blast
    show "creating s k = Some c \<or> (\<exists>v f r. (th(t := x)) v = Created k c f r)" if "(th(t := x)) u = Waiting k c" for u k c
      using that ok(4) [of u k c] assms(4) unfolding cre by (auto split: if_splits)
    show "\<exists>v f r. (th(t := x)) v = Created k c f r \<and> q = call_result (ended_call f)" if "(th(t := x)) u = Finished k (Some c) q" for u k c q
      using that ok(5) [of u k c q] assms(5) unfolding cre by (auto split: if_splits)
  qed (use ok(1,2,6) in \<open>unfold run cre, blast+\<close>)
qed

lemma flight_enter:
  assumes "flight_ok (s, th)" and "th t = Idle" and "GetOrCreate k factory s = (e, s')"
  shows "flight_ok (s', th(t := entered_thread k e))"
proof -
  note ok = flight_okD [OF assms(1)]
  consider (imm) r where "e = Immediate r" "s' = s" | (wait) c where "e = Wait c" "s' = s" "creating s k = Some c"
    | (create) "e = Create (next_call s)" "creating s k = None" "s' = s\<lparr>creating := (creating s)(k \<mapsto> next_call s), next_call := next_call s + 1, calls := (calls s)(next_call s := new_call)\<rparr>"
    using GetOrCreate_cases [OF assms(3)] by (elim disjE exE conjE) auto
  then show ?thesis
  proof cases
    case imm
    then show ?thesis using assms(2) by (auto intro!: flight_thread [OF assms(1)] simp: entered_thread_def)
  next
    case wait
    then show ?thesis using assms(2) by (auto intro!: flight_thread [OF assms(1)] simp: entered_thread_def)
  next
    case create
    let ?n = "next_call s" and ?th = "th(t := Running k (next_call s))"
    have th: "entered_thread k e = Running k ?n" using create(1) by (simp add: entered_thread_def)
    have s': "creating s' = (creating s)(k \<mapsto> ?n)" "next_call s' = Suc ?n" "calls s' = (calls s)(?n := new_call)" using create(3) by simp_all
    have below: "c < ?n" if "owner (th u) c" for u c using that ok(1,6) by (fastforce simp: owner_def)
    have own: "owner (?th u) c \<longleftrightarrow> (u = t \<and> c = ?n) \<or> (u \<noteq> t \<and> owner (th u) c)" for u c by auto
    have cre: "?th u = Created k' c f r \<longleftrightarrow> th u = Created k' c f r" for u k' c f r using assms(2) by simp
    have run: "?th u = Running k' c \<longleftrightarrow> (u = t \<and> k' = k \<and> c = ?n) \<or> th u = Running k' c" for u k' c using assms(2) by auto
    show ?thesis unfolding th
    proof (rule flight_okI)
      show "creating s' k' = Some c \<and> c < next_call s' \<and> calls s' c = new_call" if "?th u = Running k' c" for u k' c
        using that ok(1) [of u k' c] create(2) unfolding run s' by auto
      show "\<exists>u. ?th u = Running k' c" if "creating s' k' = Some c" for k' c
        using that ok(2) [of k' c] unfolding run s' by (auto split: if_splits)
      show "u = v" if "owner (?th u) c" "owner (?th v) c" for u v c
        using that below ok(3) [of u c v] unfolding own by (metis less_irrefl)
      show "creating s' k' = Some c \<or> (\<exists>u f r. ?th u = Created k' c f r)" if "?th u = Waiting k' c" for u k' c
        using that ok(4) [of u k' c] create(2) unfolding cre s' by (auto split: if_splits)
      show "\<exists>u f r. ?th u = Created k' c f r \<and> q = call_result (ended_call f)" if "?th u = Finished k' (Some c) q" for u k' c q
        using that ok(5) [of u k' c q] unfolding cre by (auto split: if_splits)
      show "c < next_call s' \<and> calls s' c = ended_call f \<and> r = outcome f" if "?th u = Created k' c f r" for u k' c f r
        using that ok(6) [of u k' c f r] unfolding cre s' by auto
    qed
  qed
qed

lemma create_ends:
  assumes "create k c f s = (r, s')" and "calls s c = new_call"
  shows "calls s' = (calls s)(c := ended_call f) \<and> creating s' = (creating s)(k := None) \<and> next_call s' = next_call s \<and> r = outcome f"
  using assms by (auto simp: create_def Let_def ended_call_def outcome_def new_call_def split: factory_end.splits)

lemma flight_created:
  assumes "flight_ok (s, th)" and "th t = Running k c" and "create k c f s = (r, s')"
  shows "flight_ok (s', th(t := Created k c f r))"
proof -
  note ok = flight_okD [OF assms(1)]
  have c: "creating s k = Some c" "c < next_call s" "calls s c = new_call" using ok(1) [OF assms(2)] by auto
  have x: "calls s' = (calls s)(c := ended_call f)" "creating s' = (creating s)(k := None)" "next_call s' = next_call s" "r = outcome f"
    using create_ends [OF assms(3) c(3)] by auto
  let ?th = "th(t := Created k c f r)"
  have own: "owner (?th u) d \<longleftrightarrow> owner (th u) d" for u d using assms(2) by simp
  have cre: "?th u = Created k' d g q \<longleftrightarrow> (u = t \<and> k' = k \<and> d = c \<and> g = f \<and> q = r) \<or> th u = Created k' d g q" for u k' d g q
    using assms(2) by auto
  have run: "?th u = Running k' d \<longleftrightarrow> u \<noteq> t \<and> th u = Running k' d" for u k' d by simp
  have other: "d \<noteq> c" if "u \<noteq> t" "owner (th u) d" for u d using that ok(3) [of t c u] assms(2) by auto
  show ?thesis
  proof (rule flight_okI)
    show "creating s' k' = Some d \<and> d < next_call s' \<and> calls s' d = new_call" if "?th u = Running k' d" for u k' d
      using that other [of u d] ok(1) [of u k' d] c(1) unfolding run x(1-3) by auto
    show "\<exists>u. ?th u = Running k' d" if "creating s' k' = Some d" for k' d
      using that ok(2) [of k' d] assms(2) unfolding run x(1-3) by (auto split: if_splits) (metis thread.inject(2))
    show "u = v" if "owner (?th u) d" "owner (?th v) d" for u v d using that ok(3) unfolding own by blast
    show "creating s' k' = Some d \<or> (\<exists>u g q. ?th u = Created k' d g q)" if "?th u = Waiting k' d" for u k' d
      using that ok(4) [of u k' d] c(1) unfolding cre x(1-3) by (cases "k' = k") (auto split: if_splits)
    show "\<exists>v g q. ?th v = Created k' d g q \<and> p = call_result (ended_call g)" if "?th u = Finished k' (Some d) p" for u k' d p
      using that ok(5) [of u k' d p] unfolding cre by (auto split: if_splits)
    show "d < next_call s' \<and> calls s' d = ended_call g \<and> q = outcome g" if "?th u = Created k' d g q" for u k' d g q
      using that other [of u d] ok(6) [of u k' d g q] c(2) x(4) assms(2) unfolding cre x(1-3) by (cases "u = t") auto
  qed
qed

lemma flight_invariant: "res_reach x \<Longrightarrow> flight_ok x"
proof (induction rule: res_reach.induct)
  case init
  show ?case by (simp add: flight_ok_def empty_resources_def)
next
  case (step x y)
  from step.hyps(2) step.IH show ?case
  proof cases
    case (set k v s e s' th)
    then show ?thesis using step.IH by (auto simp: Set_def flight_vals split: if_splits)
  next
    case (shutdown closer close order s z s' th)
    then show ?thesis using step.IH by (auto simp: Shutdown_def flight_vals)
  next
    case (enter th t k factory s e s')
    then show ?thesis using flight_enter step.IH by blast
  next
    case (wake th t k c s)
    note ok = flight_okD [OF step.IH [unfolded wake(1)]]
    have "\<not> call_done (new_call :: 'a resourceCall)" by (simp add: new_call_def)
    then have "creating s k \<noteq> Some c" using ok(2) [of k c] ok(1) wake(4) by metis
    then obtain u f r where u: "th u = Created k c f r" "calls s c = ended_call f" using ok(4) [OF wake(3)] ok(6) by blast
    then show ?thesis using wake step.IH by (auto intro!: flight_thread)
  next
    case (created th t k c f s r s')
    then show ?thesis using flight_created step.IH by blast
  qed
qed

text \<open>
  Single flight (C22). In every interleaving of callers of \<open>GetOrCreate\<close>, \<open>Set\<close> and \<open>Shutdown\<close>: at most one
  caller runs a factory for a name and type; nobody waits for a call that no caller is running
  any more, however the factory ended (so every waiting caller is woken); and every call that somebody
  waited for was run by exactly one caller, whose result follows from how its factory ended. When the factory
  returned or panicked, everybody who waited ends with that same value, error or panic; when it ended
  its goroutine, the caller that ran it panics with a \<open>PanicNilError\<close> while those who waited get the zero value
  and no error.
\<close>

theorem single_flight:
  assumes "res_reach (s, th)"
  shows "(\<forall>k t u c d. th t = Running k c \<and> th u = Running k d \<longrightarrow> t = u)
     \<and> (\<forall>k c t. th t = Waiting k c \<longrightarrow> call_done (calls s c) \<or> (\<exists>u. th u = Running k c))
     \<and> (\<forall>k c t q. th t = Finished k (Some c) q \<longrightarrow>
          (\<exists>!u. owner (th u) c) \<and> (\<exists>u f. th u = Created k c f (outcome f) \<and> q = (if f = Goexit then Value None else outcome f)))
     \<and> (\<forall>k c t f r. th t = Created k c f r \<longrightarrow> r = outcome f)"
proof -
  note ok = flight_okD [OF flight_invariant [OF assms]]
  have a: "t = u" if "th t = Running k c" "th u = Running k d" for k t u c d
    using ok(1) [OF that(1)] ok(1) [OF that(2)] ok(3) [of t c u] that by simp
  have b: "call_done (calls s c) \<or> (\<exists>u. th u = Running k c)" if "th t = Waiting k c" for k c t
    using ok(4) [OF that] ok(2) [of k c] ok(6) by (metis ended_call_done(1))
  have c: "(\<exists>!u. owner (th u) c) \<and> (\<exists>u f. th u = Created k c f (outcome f) \<and> q = (if f = Goexit then Value None else outcome f))"
    if fin: "th t = Finished k (Some c) q" for k c t q
  proof -
    obtain u f r where u: "th u = Created k c f r" "q = call_result (ended_call f)" using ok(5) [OF fin] by blast
    have "owner (th u) c" using u by simp
    then have "\<exists>!u. owner (th u) c" using ok(3) by blast
    then show ?thesis using u ok(6) [OF u(1)] call_result_ended by metis
  qed
  show ?thesis using a b ok(6) by (intro conjI allI impI c [THEN conjunct1] c [THEN conjunct2]) (assumption | blast)+
qed

definition demo_key :: resourceKey where
  "demo_key = (''db'', 1)"

definition demo_state :: "nat resources" where
  "demo_state = snd (GetOrCreate demo_key True empty_resources)"

lemma demo_entered: "GetOrCreate demo_key True empty_resources = (Create 0, demo_state)"
  by (simp add: demo_state_def GetOrCreate_def demo_key_def empty_resources_def)

lemma demo_waits: "GetOrCreate demo_key True demo_state = (Wait 0, demo_state)"
  by (simp add: demo_state_def GetOrCreate_def demo_key_def empty_resources_def)

text \<open>Two callers; the factory of the first one ends with \<open>f\<close>.\<close>

lemma demo_reach:
  assumes "create demo_key 0 f demo_state = (r, s)"
  shows "res_reach (s, (\<lambda>_. Idle)(0 := Created demo_key 0 f r, 1 := Finished demo_key (Some 0) (call_result (calls s 0))))"
proof -
  have s1: "res_reach (demo_state, (\<lambda>_. Idle)(0 := Running demo_key 0))"
    using res_step.enter [OF _ demo_entered, of "\<lambda>_. Idle" 0] res_reach.step [OF res_reach.init] by (simp add: entered_thread_def)
  have s2: "res_reach (demo_state, (\<lambda>_. Idle)(0 := Running demo_key 0, 1 := Waiting demo_key 0))"
    using res_step.enter [OF _ demo_waits, of "(\<lambda>_. Idle)(0 := Running demo_key 0)" 1] res_reach.step [OF s1] by (simp add: entered_thread_def)
  have s3: "res_reach (s, (\<lambda>_. Idle)(0 := Created demo_key 0 f r, 1 := Waiting demo_key 0))"
    using res_step.created [OF _ assms, of "(\<lambda>_. Idle)(0 := Running demo_key 0, 1 := Waiting demo_key 0)" 0] res_reach.step [OF s2]
    by (simp add: fun_upd_twist)
  have "call_done (calls s 0)" using assms by (auto simp: create_def Let_def split: factory_end.splits)
  then show ?thesis
    using res_step.wake [of "(\<lambda>_. Idle)(0 := Created demo_key 0 f r, 1 := Waiting demo_key 0)" 1 demo_key 0 s] res_reach.step [OF s3] by simp
qed

lemma demo_created:
  "create demo_key 0 (Returns (Some 7) None) demo_state = (Value (Some 7), snd (create demo_key 0 (Returns (Some 7) None) demo_state))"
  by (simp add: create_def Let_def)

theorem single_flight_witness:
  "outcome (Returns (Some (7 :: nat)) None) = call_result (calls (snd (create demo_key 0 (Returns (Some 7) None) demo_state)) 0)"
proof -
  let ?f = "Returns (Some (7 :: nat)) None" and ?s = "snd (create demo_key 0 (Returns (Some 7) None) demo_state)"
  let ?th = "(\<lambda>_ :: nat. Idle)(0 := Created demo_key 0 ?f (Value (Some 7)), 1 := Finished demo_key (Some 0) (call_result (calls ?s 0)))"
  have th: "?th 1 = Finished demo_key (Some 0) (call_result (calls ?s 0))" by simp
  note F = single_flight [OF demo_reach [OF demo_created], THEN conjunct2, THEN conjunct2, THEN conjunct1]
  have "\<exists>u f. ?th u = Created demo_key 0 f (outcome f) \<and> call_result (calls ?s 0) = (if f = Goexit then Value None else outcome f)"
    using F [THEN spec [of _ demo_key], THEN spec [of _ 0], THEN spec [of _ 1], THEN spec, THEN mp, OF th] by (rule conjunct2)
  then obtain u f where u: "?th u = Created demo_key 0 f (outcome f)" and r: "call_result (calls ?s 0) = (if f = Goexit then Value None else outcome f)"
    by blast
  have "f = ?f" using u by (auto split: if_splits)
  then show ?thesis using r by simp
qed

section \<open>Findings\<close>

text \<open>
  When the factory ends its goroutine, the callers that waited get the zero value and no error,
  although nothing was created; the caller that ran it panics with a value nobody panicked with.
\<close>

theorem goexit_gives_zero_value:
  "\<exists>s th. res_reach (s :: nat resources, th) \<and> th 0 = Created demo_key 0 Goexit (Panicked PanicNilError)
     \<and> th 1 = Finished demo_key (Some 0) (Value None) \<and> vals s demo_key = None"
proof -
  let ?s = "snd (create demo_key 0 Goexit demo_state)"
  have c: "create demo_key 0 Goexit demo_state = (Panicked PanicNilError, ?s)" by (simp add: create_def Let_def)
  have "call_result (calls ?s 0) = Value None" "vals ?s demo_key = None"
    by (simp_all add: create_def Let_def call_result_def demo_state_def GetOrCreate_def empty_resources_def new_call_def demo_key_def)
  then show ?thesis using demo_reach [OF c] by (intro exI conjI) (assumption | simp)+
qed

section \<open>Shutdown\<close>

lemma close_values_closes: "set (fst (close_values closer close vs)) = {x. Some x \<in> set vs \<and> closer x}"
proof (induction vs)
  case (Cons v vs)
  then show ?case by (cases v; cases "close_values closer close vs") auto
qed simp

lemma close_values_errors: "(\<exists>x. Some x \<in> set vs \<and> closer x \<and> close x \<noteq> None) \<longleftrightarrow> snd (close_values closer close vs) \<noteq> []"
proof (induction vs)
  case (Cons v vs)
  then show ?case by (cases v; cases "close_values closer close vs") (auto split: option.splits)
qed simp

text \<open>Every registered closer is closed, also after one failed; all registrations are gone.\<close>

lemma shutdown_closes_all:
  assumes "set order = dom (vals s)" and "Shutdown closer close order s = ((closed, errs), s')"
  shows "set closed = {x. \<exists>k. vals s k = Some (Some x) \<and> closer x} \<and> (errs \<noteq> [] \<longleftrightarrow> (\<exists>x \<in> set closed. close x \<noteq> None)) \<and> vals s' = Map.empty"
proof -
  have "Some x \<in> set (map (\<lambda>k. the (vals s k)) order) \<longleftrightarrow> (\<exists>k. vals s k = Some (Some x))" for x
    using assms(1) by (force simp: image_iff)
  then show ?thesis using assms(2) close_values_closes [of closer close "map (\<lambda>k. the (vals s k)) order"]
      close_values_errors [of "map (\<lambda>k. the (vals s k)) order" closer close]
    by (auto simp: Shutdown_def)
qed

end
