(* ===== verification/Kc_Mqruntime.thy ===== *)
theory Kc_Mqruntime
  imports Kc_Path
begin

text \<open>
  The life cycle that the message queue clients share, \<open>src/internal/mqruntime/mqruntime.go\<close>: open,
  closing, closed; operations under way; subscriptions with their two contexts. Each method is a
  function on the state (its critical section); a wait is a condition under which the step after it may happen.
\<close>

datatype mq_error = ErrInvalidArgument | ErrClosed | ErrContext | ErrRelease nat

definition ValidateSubscribe :: "mq_error option option \<Rightarrow> string \<Rightarrow> string \<Rightarrow> bool \<Rightarrow> mq_error option" where
  "ValidateSubscribe ctx topic grp handler =
     (case ctx of
        None \<Rightarrow> Some ErrInvalidArgument
      | Some e \<Rightarrow>
          if TrimSpace topic = [] then Some ErrInvalidArgument
          else if TrimSpace grp = [] then Some ErrInvalidArgument
          else if \<not> handler then Some ErrInvalidArgument
          else e)"

datatype state = stateOpen | stateClosing | stateClosed

text \<open>A subscription: whether polling is stopped, the cause its work context was cancelled with, whether \<open>done\<close> is closed.\<close>

record Subscription =
  poll_stopped :: bool
  work_cause :: "mq_error option"
  sub_done :: bool

record Lifecycle =
  lstate :: state
  subscriptions :: "nat list"
  operations :: nat
  closeErr :: "mq_error option"
  subs :: "nat \<Rightarrow> Subscription"
  next_sub :: nat

definition NewLifecycle :: Lifecycle where
  "NewLifecycle =
     \<lparr>lstate = stateOpen, subscriptions = [], operations = 0, closeErr = None,
      subs = (\<lambda>_. \<lparr>poll_stopped = False, work_cause = None, sub_done = False\<rparr>), next_sub = 0\<rparr>"

definition Begin :: "Lifecycle \<Rightarrow> bool \<times> Lifecycle" where
  "Begin l = (if lstate l \<noteq> stateOpen then (False, l) else (True, l\<lparr>operations := operations l + 1\<rparr>))"

definition End :: "Lifecycle \<Rightarrow> Lifecycle" where
  "End l = l\<lparr>operations := operations l - 1\<rparr>"

definition Closed :: "Lifecycle \<Rightarrow> bool" where
  "Closed l \<longleftrightarrow> lstate l \<noteq> stateOpen"

definition Active :: "Lifecycle \<Rightarrow> nat" where
  "Active l = length (subscriptions l)"

definition NewSubscription :: "Lifecycle \<Rightarrow> nat \<times> Lifecycle" where
  "NewSubscription l =
     (next_sub l,
      l\<lparr>subs := (subs l)(next_sub l := \<lparr>poll_stopped = False, work_cause = None, sub_done = False\<rparr>), next_sub := next_sub l + 1\<rparr>)"

definition Track :: "nat \<Rightarrow> Lifecycle \<Rightarrow> bool \<times> Lifecycle" where
  "Track i l =
     (if lstate l \<noteq> stateOpen then (False, l)
      else (True, l\<lparr>subscriptions := List.insert i (subscriptions l)\<rparr>))"

definition untrack :: "nat \<Rightarrow> Lifecycle \<Rightarrow> Lifecycle" where
  "untrack i l = l\<lparr>subscriptions := filter (\<lambda>j. j \<noteq> i) (subscriptions l)\<rparr>"

definition upd_sub :: "nat \<Rightarrow> (Subscription \<Rightarrow> Subscription) \<Rightarrow> Lifecycle \<Rightarrow> Lifecycle" where
  "upd_sub i f l = l\<lparr>subs := (subs l)(i := f (subs l i))\<rparr>"

definition stopPoll :: "nat \<Rightarrow> Lifecycle \<Rightarrow> Lifecycle" where
  "stopPoll i = upd_sub i (\<lambda>s. s\<lparr>poll_stopped := True\<rparr>)"

text \<open>The first cause of a cancelled context stays.\<close>

definition abort :: "mq_error \<Rightarrow> nat \<Rightarrow> Lifecycle \<Rightarrow> Lifecycle" where
  "abort cause i = upd_sub i (\<lambda>s. s\<lparr>work_cause := (case work_cause s of None \<Rightarrow> Some cause | c \<Rightarrow> c)\<rparr>)"

definition Abort :: "mq_error \<Rightarrow> nat \<Rightarrow> Lifecycle \<Rightarrow> Lifecycle" where
  "Abort cause i l = abort cause i (stopPoll i l)"

definition Finish :: "nat \<Rightarrow> Lifecycle \<Rightarrow> Lifecycle" where
  "Finish i l =
     (if sub_done (subs l i) then l
      else upd_sub i (\<lambda>s. s\<lparr>sub_done := True\<rparr>) (untrack i (Abort ErrContext i l)))"

text \<open>
  \<open>Subscription.Stop\<close>: polling stops at once; then the call waits. \<open>stop_result\<close> is what it returns, given
  whether the subscription had ended when the context ended (if it did), and the state it leaves.
\<close>

definition Stop_begin :: "bool \<Rightarrow> nat \<Rightarrow> Lifecycle \<Rightarrow> mq_error option \<times> Lifecycle" where
  "Stop_begin ctx i l = (if \<not> ctx then (Some ErrInvalidArgument, l) else (None, stopPoll i l))"

datatype stop_wait = Returned "mq_error option" | AbortAndWait

definition Stop_ctx_done :: "nat \<Rightarrow> Lifecycle \<Rightarrow> stop_wait \<times> Lifecycle" where
  "Stop_ctx_done i l = (if sub_done (subs l i) then (Returned None, l) else (AbortAndWait, abort ErrClosed i l))"

section \<open>Close\<close>

text \<open>The first critical section of \<open>Close\<close>: the subscriptions it will wait for, if it is the first call.\<close>

definition Close_begin :: "Lifecycle \<Rightarrow> nat list option \<times> Lifecycle" where
  "Close_begin l =
     (if lstate l \<noteq> stateOpen then (None, l)
      else (Some (subscriptions l), fold stopPoll (subscriptions l) (l\<lparr>lstate := stateClosing\<rparr>)))"

text \<open>When the context of the first call ends before everything has stopped.\<close>

definition Close_abort :: "nat list \<Rightarrow> Lifecycle \<Rightarrow> Lifecycle" where
  "Close_abort snapshot l = fold (abort ErrClosed) snapshot l"

text \<open>The condition under which \<open>stopped\<close> is closed.\<close>

definition stopped :: "nat list \<Rightarrow> Lifecycle \<Rightarrow> bool" where
  "stopped snapshot l \<longleftrightarrow> operations l = 0 \<and> list_all (\<lambda>i. sub_done (subs l i)) snapshot"

text \<open>After the release function returned \<open>err\<close>.\<close>

definition Close_end :: "mq_error option \<Rightarrow> Lifecycle \<Rightarrow> Lifecycle" where
  "Close_end err l = l\<lparr>closeErr := err, lstate := stateClosed\<rparr>"

text \<open>A later call: it waits for \<open>closeDone\<close> and returns the result of the first one, or the error of its own context.\<close>

definition Close_again :: "Lifecycle \<Rightarrow> mq_error option option" where
  "Close_again l = (if lstate l = stateClosed then Some (closeErr l) else None)"

section \<open>The system\<close>

text \<open>
  The life cycle with what its users did: \<open>closer\<close>, where the call that closes is; \<open>tracked\<close>, every
  subscription that was tracked; \<open>releases\<close>, the results of the calls of the release function.
\<close>

datatype closer = NotClosing | Waiting "nat list" | Releasing "mq_error option" | Finished

record mq_sys =
  life :: Lifecycle
  closer :: closer
  tracked :: "nat list"
  releases :: "mq_error option list"

inductive mq_step :: "mq_sys \<Rightarrow> mq_sys \<Rightarrow> bool" where
  op_begin: "mq_step x (x\<lparr>life := snd (Begin (life x))\<rparr>)"
| op_end: "0 < operations (life x) \<Longrightarrow> mq_step x (x\<lparr>life := End (life x)\<rparr>)"
| new_sub: "mq_step x (x\<lparr>life := snd (NewSubscription (life x))\<rparr>)"
| track_sub: "i < next_sub (life x) \<Longrightarrow> \<not> sub_done (subs (life x) i) \<Longrightarrow> Track i (life x) = (b, l)
     \<Longrightarrow> mq_step x (x\<lparr>life := l, tracked := (if b then i # tracked x else tracked x)\<rparr>)"
| abort_sub: "mq_step x (x\<lparr>life := Abort c i (life x)\<rparr>)"
| finish_sub: "mq_step x (x\<lparr>life := Finish i (life x)\<rparr>)"
| stop_sub: "mq_step x (x\<lparr>life := snd (Stop_begin ctx i (life x))\<rparr>)"
| stop_ctx: "mq_step x (x\<lparr>life := snd (Stop_ctx_done i (life x))\<rparr>)"
| close_call: "Close_begin (life x) = (s, l) \<Longrightarrow> mq_step x (x\<lparr>life := l, closer := (case s of None \<Rightarrow> closer x | Some ss \<Rightarrow> Waiting ss)\<rparr>)"
| close_ctx: "closer x = Waiting ss \<Longrightarrow> mq_step x (x\<lparr>life := Close_abort ss (life x)\<rparr>)"
| release_client: "closer x = Waiting ss \<Longrightarrow> stopped ss (life x) \<Longrightarrow> mq_step x (x\<lparr>closer := Releasing err, releases := err # releases x\<rparr>)"
| close_end: "closer x = Releasing err \<Longrightarrow> mq_step x (x\<lparr>life := Close_end err (life x), closer := Finished\<rparr>)"

inductive mq_reach :: "mq_sys \<Rightarrow> bool" where
  init: "mq_reach \<lparr>life = NewLifecycle, closer = NotClosing, tracked = [], releases = []\<rparr>"
| step: "mq_reach x \<Longrightarrow> mq_step x y \<Longrightarrow> mq_reach y"

section \<open>Invariant\<close>

definition running :: "mq_sys \<Rightarrow> nat \<Rightarrow> bool" where
  "running x i \<longleftrightarrow> i \<in> set (tracked x) \<and> \<not> sub_done (subs (life x) i)"

definition phase_ok :: "mq_sys \<Rightarrow> bool" where
  "phase_ok x \<longleftrightarrow>
     (case closer x of
        NotClosing \<Rightarrow> lstate (life x) = stateOpen \<and> releases x = []
      | Waiting ss \<Rightarrow> lstate (life x) = stateClosing \<and> releases x = [] \<and> (\<forall>i. running x i \<longrightarrow> i \<in> set ss \<and> poll_stopped (subs (life x) i))
      | Releasing err \<Rightarrow> lstate (life x) = stateClosing \<and> releases x = [err] \<and> operations (life x) = 0 \<and> (\<forall>i. \<not> running x i)
      | Finished \<Rightarrow> lstate (life x) = stateClosed \<and> releases x = [closeErr (life x)] \<and> operations (life x) = 0 \<and> (\<forall>i. \<not> running x i))"

definition life_ok :: "mq_sys \<Rightarrow> bool" where
  "life_ok x \<longleftrightarrow>
     distinct (subscriptions (life x)) \<and> (\<forall>i. i \<in> set (subscriptions (life x)) \<longleftrightarrow> running x i)
     \<and> (\<forall>i \<in> set (tracked x). i < next_sub (life x)) \<and> phase_ok x"

text \<open>Changing the contexts of a subscription, without ending it, keeps everything.\<close>

definition same_but_contexts :: "Lifecycle \<Rightarrow> Lifecycle \<Rightarrow> bool" where
  "same_but_contexts l l' \<longleftrightarrow>
     lstate l' = lstate l \<and> subscriptions l' = subscriptions l \<and> operations l' = operations l \<and> closeErr l' = closeErr l \<and> next_sub l' = next_sub l
     \<and> (\<forall>i. sub_done (subs l' i) = sub_done (subs l i) \<and> (poll_stopped (subs l i) \<longrightarrow> poll_stopped (subs l' i)))"

lemma same_refl: "same_but_contexts l l"
  by (simp add: same_but_contexts_def)

lemma same_trans: "same_but_contexts a b \<Longrightarrow> same_but_contexts b c \<Longrightarrow> same_but_contexts a c"
  by (simp add: same_but_contexts_def)

lemma same_stopPoll: "same_but_contexts l (stopPoll i l)"
  by (simp add: same_but_contexts_def stopPoll_def upd_sub_def)

lemma same_abort: "same_but_contexts l (abort c i l)"
  by (simp add: same_but_contexts_def abort_def upd_sub_def)

lemma same_Abort: "same_but_contexts l (Abort c i l)"
  unfolding Abort_def by (rule same_trans [OF same_stopPoll same_abort])

lemma same_fold:
  assumes "\<And>i l. same_but_contexts l (f i l)"
  shows "same_but_contexts l (fold f is l)"
proof (induction "is" arbitrary: l)
  case (Cons i js)
  then show ?case using same_trans [OF assms [of l i]] by simp
qed (simp add: same_refl)

lemma life_ok_same:
  assumes "life_ok x" and "same_but_contexts (life x) l"
  shows "life_ok (x\<lparr>life := l\<rparr>)"
proof -
  have "running (x\<lparr>life := l\<rparr>) i = running x i" for i using assms(2) by (simp add: running_def same_but_contexts_def)
  then show ?thesis using assms unfolding life_ok_def phase_ok_def same_but_contexts_def by (auto split: closer.splits)
qed

lemma fold_stopPoll: "i \<in> set is \<or> poll_stopped (subs l i) \<Longrightarrow> poll_stopped (subs (fold stopPoll is l) i)"
proof (induction "is" arbitrary: l)
  case (Cons j js)
  have "i \<in> set js \<or> poll_stopped (subs (stopPoll j l) i)" using Cons.prems by (auto simp: stopPoll_def upd_sub_def)
  then show ?case using Cons.IH [of "stopPoll j l"] by simp
qed simp

lemma life_ok_finish: "life_ok x \<Longrightarrow> life_ok (x\<lparr>life := Finish i (life x)\<rparr>)"
proof (cases "sub_done (subs (life x) i)")
  case True
  assume "life_ok x"
  then show ?thesis using True by (simp add: Finish_def)
next
  case False
  assume ok: "life_ok x"
  let ?x = "x\<lparr>life := Finish i (life x)\<rparr>"
  have d: "sub_done (subs (Finish i (life x)) j) \<longleftrightarrow> j = i \<or> sub_done (subs (life x) j)"
    and p: "poll_stopped (subs (life x) j) \<Longrightarrow> poll_stopped (subs (Finish i (life x)) j)" for j
    using False by (auto simp: Finish_def untrack_def Abort_def abort_def stopPoll_def upd_sub_def)
  have f: "lstate (Finish i (life x)) = lstate (life x)" "subscriptions (Finish i (life x)) = filter (\<lambda>j. j \<noteq> i) (subscriptions (life x))"
    "operations (Finish i (life x)) = operations (life x)" "closeErr (Finish i (life x)) = closeErr (life x)" "next_sub (Finish i (life x)) = next_sub (life x)"
    using False by (simp_all add: Finish_def untrack_def Abort_def abort_def stopPoll_def upd_sub_def)
  have r: "running ?x j \<longleftrightarrow> running x j \<and> j \<noteq> i" for j using d by (auto simp: running_def)
  show ?thesis using ok r f p unfolding life_ok_def phase_ok_def by (auto split: closer.splits)
qed

lemma life_invariant: "mq_reach x \<Longrightarrow> life_ok x"
proof (induction rule: mq_reach.induct)
  case init
  show ?case by (simp add: life_ok_def phase_ok_def running_def NewLifecycle_def)
next
  case (step x y)
  note ok = step.IH
  from step.hyps(2) show ?case
  proof cases
    case op_begin
    then show ?thesis using ok by (auto simp: life_ok_def phase_ok_def running_def Begin_def split: closer.splits)
  next
    case op_end
    then show ?thesis using ok by (auto simp: life_ok_def phase_ok_def running_def End_def split: closer.splits)
  next
    case new_sub
    have "running y i = running x i" for i using ok new_sub by (auto simp: running_def NewSubscription_def life_ok_def)
    then show ?thesis using ok new_sub by (auto simp: life_ok_def phase_ok_def NewSubscription_def running_def split: closer.splits)
  next
    case (track_sub i b l)
    then show ?thesis using ok by (auto simp: life_ok_def phase_ok_def running_def Track_def split: closer.splits if_splits)
  next
    case abort_sub
    then show ?thesis using life_ok_same [OF ok same_Abort] by simp
  next
    case finish_sub
    then show ?thesis using life_ok_finish [OF ok] by simp
  next
    case (stop_sub ctx i)
    then show ?thesis using life_ok_same [OF ok same_stopPoll] ok by (simp add: Stop_begin_def)
  next
    case (stop_ctx i)
    then show ?thesis using life_ok_same [OF ok same_abort] ok by (simp add: Stop_ctx_done_def)
  next
    case (close_call s l)
    show ?thesis
    proof (cases "lstate (life x) = stateOpen")
      case False
      then show ?thesis using close_call ok by (auto simp: Close_begin_def)
    next
      case True
      let ?l0 = "(life x)\<lparr>lstate := stateClosing\<rparr>" and ?ss = "subscriptions (life x)"
      have y: "y = x\<lparr>life := fold stopPoll ?ss ?l0, closer := Waiting ?ss\<rparr>" using close_call True by (auto simp: Close_begin_def)
      have same: "same_but_contexts ?l0 (fold stopPoll ?ss ?l0)" by (rule same_fold) (rule same_stopPoll)
      have c: "closer x = NotClosing" "releases x = []" using ok True by (auto simp: life_ok_def phase_ok_def split: closer.splits)
      have r: "running y i = running x i" for i using same y by (simp add: running_def same_but_contexts_def)
      have "\<forall>i. running y i \<longrightarrow> i \<in> set ?ss \<and> poll_stopped (subs (life y) i)" using r ok fold_stopPoll [of _ ?ss ?l0] y by (auto simp: life_ok_def)
      then show ?thesis using ok r same y c by (auto simp: life_ok_def phase_ok_def same_but_contexts_def)
    qed
  next
    case (close_ctx ss)
    then show ?thesis using life_ok_same [OF ok same_fold [of "abort ErrClosed" "life x" ss]] same_abort by (simp add: Close_abort_def)
  next
    case (release_client ss err)
    then show ?thesis using ok by (auto simp: life_ok_def phase_ok_def running_def stopped_def list_all_iff)
  next
    case (close_end err)
    then show ?thesis using ok by (auto simp: life_ok_def phase_ok_def running_def Close_end_def)
  qed
qed

text \<open>
  Shutdown order (C23). Whatever operations, subscriptions and calls of \<open>Close\<close> do, in any order: the underlying client is released at most
  once, and only when no operation is under way and every subscription that was ever tracked has
  ended; from the first call of \<open>Close\<close> on no operation and no subscription is accepted and every
  running subscription has been told to stop polling; the number of active subscriptions is the
  number of those still running; and once closed, every call returns the error of that one release.
\<close>

theorem release_after_everything:
  assumes "mq_reach x"
  shows "length (releases x) \<le> 1
     \<and> (releases x \<noteq> [] \<longrightarrow> operations (life x) = 0 \<and> (\<forall>i \<in> set (tracked x). sub_done (subs (life x) i)))
     \<and> (Closed (life x) \<longrightarrow> \<not> fst (Begin (life x)) \<and> (\<forall>i. \<not> fst (Track i (life x)))
          \<and> (\<forall>i \<in> set (tracked x). sub_done (subs (life x) i) \<or> poll_stopped (subs (life x) i)))
     \<and> Active (life x) = card {i \<in> set (tracked x). \<not> sub_done (subs (life x) i)}
     \<and> (\<forall>err. Close_again (life x) = Some err \<longrightarrow> releases x = [err])"
proof -
  have ok: "life_ok x" by (rule life_invariant [OF assms])
  have "set (subscriptions (life x)) = {i \<in> set (tracked x). \<not> sub_done (subs (life x) i)}" using ok by (auto simp: life_ok_def running_def)
  then have "Active (life x) = card {i \<in> set (tracked x). \<not> sub_done (subs (life x) i)}"
    using ok distinct_card [of "subscriptions (life x)"] by (simp add: Active_def life_ok_def)
  then show ?thesis using ok
    by (auto simp: life_ok_def phase_ok_def running_def Closed_def Begin_def Track_def Close_again_def split: closer.splits)
qed

text \<open>A subscription is tracked, the client closes while it runs, the subscription ends, the client is released.\<close>

lemma demo_mq_reach:
  "\<exists>x. mq_reach x \<and> releases x = [Some (ErrRelease 5)] \<and> tracked x = [0] \<and> Close_again (life x) = Some (Some (ErrRelease 5))"
proof -
  let ?sub = "\<lparr>poll_stopped = False, work_cause = None, sub_done = False\<rparr>"
  let ?l = "\<lambda>st ss err sub n. \<lparr>lstate = st, subscriptions = ss, operations = 0, closeErr = err, subs = (\<lambda>_. ?sub)(0 := sub), next_sub = n\<rparr>"
  let ?e = "Some (ErrRelease 5)" and ?stop = "?sub\<lparr>poll_stopped := True\<rparr>"
  let ?fin = "\<lparr>poll_stopped = True, work_cause = Some ErrContext, sub_done = True\<rparr>"
  have s0: "mq_reach \<lparr>life = ?l stateOpen [] None ?sub 0, closer = NotClosing, tracked = [], releases = []\<rparr>"
    using mq_reach.init by (simp add: NewLifecycle_def fun_upd_idem)
  have s1: "mq_reach \<lparr>life = ?l stateOpen [] None ?sub 1, closer = NotClosing, tracked = [], releases = []\<rparr>"
    using mq_reach.step [OF s0 new_sub] by (simp add: NewSubscription_def)
  have s2: "mq_reach \<lparr>life = ?l stateOpen [0] None ?sub 1, closer = NotClosing, tracked = [0], releases = []\<rparr>"
    using mq_reach.step [OF s1 track_sub [of 0 _ True "?l stateOpen [0] None ?sub 1"]] by (simp add: Track_def)
  have s3: "mq_reach \<lparr>life = ?l stateClosing [0] None ?stop 1, closer = Waiting [0], tracked = [0], releases = []\<rparr>"
    using mq_reach.step [OF s2 close_call [of _ "Some [0]" "?l stateClosing [0] None ?stop 1"]] by (simp add: Close_begin_def stopPoll_def upd_sub_def)
  have s4: "mq_reach \<lparr>life = ?l stateClosing [] None ?fin 1, closer = Waiting [0], tracked = [0], releases = []\<rparr>"
    using mq_reach.step [OF s3 finish_sub [of _ 0]] by (simp add: Finish_def untrack_def Abort_def abort_def stopPoll_def upd_sub_def)
  have s5: "mq_reach \<lparr>life = ?l stateClosing [] None ?fin 1, closer = Releasing ?e, tracked = [0], releases = [?e]\<rparr>"
    using mq_reach.step [OF s4 release_client [of _ "[0]" ?e]] by (simp add: stopped_def)
  have s6: "mq_reach \<lparr>life = ?l stateClosed [] ?e ?fin 1, closer = Finished, tracked = [0], releases = [?e]\<rparr>"
    using mq_reach.step [OF s5 close_end [of _ ?e]] by (simp add: Close_end_def)
  show ?thesis by (rule exI, rule conjI, rule s6) (simp add: Close_again_def)
qed

theorem release_after_everything_witness:
  "\<exists>x. mq_reach x \<and> releases x = [Some (ErrRelease 5)] \<and> sub_done (subs (life x) 0)"
proof -
  obtain x where "mq_reach x" "releases x = [Some (ErrRelease 5)]" "tracked x = [0]" using demo_mq_reach by blast
  then show ?thesis using release_after_everything [of x] by auto
qed

end
