(* ===== verification/Kc_Redis_Stream.thy ===== *)
theory Kc_Redis_Stream
  imports Kc_Mqruntime
begin

text \<open>
  Consumption of one Redis stream by one consumer group, \<open>src/pkg/infra/redis_stream.go\<close>: reading and
  reclaiming, the bounded local queue, workers, batched acknowledgement, the dead-letter queue and
  the clean-up of consumers, for any number of subscriptions in any number of processes.

  Redis itself is given by the documented behaviour of its commands on a stream and a group: the
  entries, the entry delivered last, and the pending entries list (PEL) with owner, time and count
  of the last delivery. Message IDs and consumer names are numbers. The group exists throughout: deleting it from outside is not considered.
\<close>

type_synonym mid = nat

section \<open>The server\<close>

record pending =
  owner :: nat
  since :: int
  RetryCount :: int64

record server =
  stream_entries :: "mid list" \<comment> \<open>IDs present in the stream, ascending\<close>
  last_delivered :: mid
  pel :: "mid \<rightharpoonup> pending"
  consumers :: "(nat \<times> int) list" \<comment> \<open>name and time of the last command\<close>
  dlq :: "mid list" \<comment> \<open>source IDs of the entries ever added to the dead-letter stream\<close>

definition touch :: "nat \<Rightarrow> int \<Rightarrow> server \<Rightarrow> server" where
  "touch c now s = s\<lparr>consumers := (c, now) # filter (\<lambda>x. fst x \<noteq> c) (consumers s)\<rparr>"

text \<open>\<open>XREADGROUP\<close> with \<open>>\<close>: entries never delivered to the group.\<close>

definition xreadgroup :: "nat \<Rightarrow> nat \<Rightarrow> int \<Rightarrow> server \<Rightarrow> mid list \<times> server" where
  "xreadgroup c count now s =
     (let ids = take count (filter (\<lambda>m. m > last_delivered s) (stream_entries s)) in
      (ids, (touch c now s)
         \<lparr>pel := (\<lambda>m. if m \<in> set ids then Some \<lparr>owner = c, since = now, RetryCount = 1\<rparr> else pel s m),
          last_delivered := (if ids = [] then last_delivered s else last ids)\<rparr>))"

text \<open>
  \<open>XAUTOCLAIM\<close> of the scanned IDs \<open>scan\<close>: entries idle for long enough change owner and count one more
  delivery; those no longer in the stream are dropped from the list.
\<close>

definition idle_for :: "int \<Rightarrow> int \<Rightarrow> server \<Rightarrow> mid \<Rightarrow> bool" where
  "idle_for minIdle now s m = (case pel s m of None \<Rightarrow> False | Some e \<Rightarrow> now - since e \<ge> minIdle)"

definition xautoclaim :: "nat \<Rightarrow> int \<Rightarrow> mid list \<Rightarrow> int \<Rightarrow> server \<Rightarrow> mid list \<times> server" where
  "xautoclaim c minIdle scan now s =
     (let hit = filter (idle_for minIdle now s) scan; ids = filter (\<lambda>m. m \<in> set (stream_entries s)) hit in
      (ids, (touch c now s)
         \<lparr>pel := (\<lambda>m. if m \<in> set ids then map_option (\<lambda>e. \<lparr>owner = c, since = now, RetryCount = RetryCount e + 1\<rparr>) (pel s m)
                      else if m \<in> set hit then None else pel s m)\<rparr>))"

definition xack :: "mid list \<Rightarrow> server \<Rightarrow> server" where
  "xack ids s = s\<lparr>pel := (\<lambda>m. if m \<in> set ids then None else pel s m)\<rparr>"

definition delconsumer :: "nat \<Rightarrow> server \<Rightarrow> server" where
  "delconsumer c s =
     s\<lparr>pel := (\<lambda>m. case pel s m of None \<Rightarrow> None | Some e \<Rightarrow> if owner e = c then None else Some e),
       consumers := filter (\<lambda>x. fst x \<noteq> c) (consumers s)\<rparr>"

text \<open>
  The script of \<open>CleanupConsumers\<close>: \<open>pend c\<close> is the number of pending entries of a consumer, as
  \<open>XINFO CONSUMERS\<close> reports it when the script starts; an empty target or exclusion is \<open>None\<close>.
\<close>

fun cleanup_loop :: "(nat \<Rightarrow> nat) \<Rightarrow> nat option \<Rightarrow> nat option \<Rightarrow> int \<Rightarrow> nat \<Rightarrow> int \<Rightarrow> (nat \<times> int) list \<Rightarrow> nat \<Rightarrow> server \<Rightarrow> nat \<times> server" where
  "cleanup_loop pend target exclude min_idle max_delete now [] deleted s = (deleted, s)"
| "cleanup_loop pend target exclude min_idle max_delete now (x # xs) deleted s =
     (if pend (fst x) = 0 \<and> now - snd x \<ge> min_idle \<and> (target = None \<or> target = Some (fst x)) \<and> (exclude = None \<or> exclude \<noteq> Some (fst x)) then
        (if deleted + 1 \<ge> max_delete then (deleted + 1, delconsumer (fst x) s)
         else cleanup_loop pend target exclude min_idle max_delete now xs (deleted + 1) (delconsumer (fst x) s))
      else cleanup_loop pend target exclude min_idle max_delete now xs deleted s)"

definition pending_of :: "server \<Rightarrow> nat \<Rightarrow> nat" where
  "pending_of s c = card {m \<in> dom (pel s). \<exists>e. pel s m = Some e \<and> owner e = c}"

definition CleanupConsumers :: "nat option \<Rightarrow> nat option \<Rightarrow> int \<Rightarrow> nat \<Rightarrow> int \<Rightarrow> server \<Rightarrow> nat \<times> server" where
  "CleanupConsumers target exclude min_idle max_delete now s =
     cleanup_loop (pending_of s) target exclude min_idle max_delete now (consumers s) 0 s"

section \<open>A subscription\<close>

text \<open>
  What a worker is doing: nothing, handling, deciding about a failed message, putting it into the DLQ, or acknowledging one it
  put there.
\<close>

datatype worker = Free | Handling mid | Failing mid | Moving mid | Moved mid

text \<open>The poller and the reclaimer: the messages they still have to enqueue and the one they are sending.\<close>

record producer =
  todo :: "mid list"
  sending :: "mid option"

record subscription =
  queue :: "mid list"
  ackQueue :: "mid list"
  ack_ids :: "mid list"
  inFlight :: "mid list"
  workers :: "nat \<Rightarrow> worker"
  poller :: producer
  reclaimer :: producer

definition new_subscription :: subscription where
  "new_subscription =
     \<lparr>queue = [], ackQueue = [], ack_ids = [], inFlight = [], workers = (\<lambda>_. Free),
      poller = \<lparr>todo = [], sending = None\<rparr>, reclaimer = \<lparr>todo = [], sending = None\<rparr>\<rparr>"

definition release :: "mid \<Rightarrow> subscription \<Rightarrow> subscription" where
  "release m u = u\<lparr>inFlight := filter (\<lambda>x. x \<noteq> m) (inFlight u)\<rparr>"

text \<open>\<open>enqueue\<close>, first half: nothing to do when the message is in flight already; otherwise it is marked and sent.\<close>

definition enqueue :: "mid \<Rightarrow> subscription \<Rightarrow> bool \<times> subscription" where
  "enqueue m u = (if m \<in> set (inFlight u) then (True, u) else (False, u\<lparr>inFlight := m # inFlight u\<rparr>))"

definition producer_of :: "bool \<Rightarrow> subscription \<Rightarrow> producer" where
  "producer_of b u = (if b then poller u else reclaimer u)"

definition set_producer :: "bool \<Rightarrow> producer \<Rightarrow> subscription \<Rightarrow> subscription" where
  "set_producer b p u = (if b then u\<lparr>poller := p\<rparr> else u\<lparr>reclaimer := p\<rparr>)"

definition produce :: "bool \<Rightarrow> mid \<Rightarrow> mid list \<Rightarrow> subscription \<Rightarrow> subscription" where
  "produce b m ms u =
     (case enqueue m u of (already, u1) \<Rightarrow> set_producer b \<lparr>todo = ms, sending = (if already then None else Some m)\<rparr> u1)"

text \<open>\<open>handleRedisStreamMessage\<close>: the context before the handler, what the handler did, the context after it.\<close>

datatype handler_end = Returned bool | HandlerPanic

definition handleRedisStreamMessage :: "bool \<Rightarrow> handler_end \<Rightarrow> bool \<Rightarrow> bool" where
  "handleRedisStreamMessage before h after =
     (if \<not> before then False else case h of HandlerPanic \<Rightarrow> False | Returned ok \<Rightarrow> if \<not> ok then False else after)"

text \<open>
  \<open>handleFailedRedisStreamMessage\<close> and \<open>deadLetterInvalidRedisStreamRecord\<close> up to the move: \<open>entry\<close> is the
  reply of \<open>PendingEntry\<close> (an error, no entry, or the count); an invalid record is moved at once.
\<close>

datatype decision = Leave | MoveToDLQ int64

definition failed_decision :: "bool \<Rightarrow> int64 \<Rightarrow> (unit + int64 option) \<Rightarrow> decision" where
  "failed_decision invalid maxDeliveryAttempts entry =
     (case entry of
        Inl _ \<Rightarrow> Leave
      | Inr None \<Rightarrow> Leave
      | Inr (Some n) \<Rightarrow> if \<not> invalid \<and> n < maxDeliveryAttempts then Leave else MoveToDLQ n)"

definition PendingEntry :: "mid \<Rightarrow> server \<Rightarrow> int64 option" where
  "PendingEntry m s = map_option RetryCount (pel s m)"

text \<open>The flush of the acknowledgement worker releases the batch whatever the server answered.\<close>

definition flush :: "subscription \<Rightarrow> mid list \<times> subscription" where
  "flush u = (ack_ids u, fold release (ack_ids u) (u\<lparr>ack_ids := []\<rparr>))"

definition set_worker :: "nat \<Rightarrow> worker \<Rightarrow> subscription \<Rightarrow> subscription" where
  "set_worker w x u = u\<lparr>workers := (workers u)(w := x)\<rparr>"

section \<open>The system\<close>

text \<open>
  \<open>handled\<close>: messages whose handler returned nil with its context still valid; \<open>delivered\<close>: messages the
  group ever got; \<open>trimmed\<close>: entries that the length limit removed from the stream.
\<close>

record redis_sys =
  srv :: server
  sub :: "nat \<Rightarrow> subscription"
  handled :: "mid set"
  delivered :: "mid set"
  trimmed :: "mid set"

record stream_config =
  queueDepth :: nat
  batchSize :: nat
  ackBatchSize :: nat
  pendingIdleTimeout :: int
  maxDeliveryAttempts :: int64

definition on_sub :: "nat \<Rightarrow> subscription \<Rightarrow> redis_sys \<Rightarrow> redis_sys" where
  "on_sub c u x = x\<lparr>sub := (sub x)(c := u)\<rparr>"

text \<open>A statement may fail after the server applied it.\<close>

inductive redis_step :: "stream_config \<Rightarrow> redis_sys \<Rightarrow> redis_sys \<Rightarrow> bool" for cfg where
  add: "\<forall>n \<in> set (stream_entries (srv x)). n < m \<Longrightarrow> last_delivered (srv x) < m
     \<Longrightarrow> redis_step cfg x (x\<lparr>srv := (srv x)\<lparr>stream_entries := stream_entries (srv x) @ [m]\<rparr>\<rparr>)"
| trim: "redis_step cfg x (x\<lparr>srv := (srv x)\<lparr>stream_entries := drop n (stream_entries (srv x))\<rparr>,
                            trimmed := trimmed x \<union> set (take n (stream_entries (srv x)))\<rparr>)"
| poll: "poller (sub x c) = \<lparr>todo = [], sending = None\<rparr> \<Longrightarrow> xreadgroup c (batchSize cfg) now (srv x) = (ids, s)
     \<Longrightarrow> redis_step cfg x (on_sub c (set_producer True \<lparr>todo = ids, sending = None\<rparr> (sub x c)) (x\<lparr>srv := s, delivered := delivered x \<union> set ids\<rparr>))"
| poll_lost: "xreadgroup c (batchSize cfg) now (srv x) = (ids, s) \<Longrightarrow> redis_step cfg x (x\<lparr>srv := s, delivered := delivered x \<union> set ids\<rparr>)"
| reclaim: "reclaimer (sub x c) = \<lparr>todo = [], sending = None\<rparr> \<Longrightarrow> xautoclaim c (pendingIdleTimeout cfg) scan now (srv x) = (ids, s)
     \<Longrightarrow> redis_step cfg x (on_sub c (set_producer False \<lparr>todo = ids, sending = None\<rparr> (sub x c)) (x\<lparr>srv := s\<rparr>))"
| reclaim_lost: "xautoclaim c (pendingIdleTimeout cfg) scan now (srv x) = (ids, s) \<Longrightarrow> redis_step cfg x (x\<lparr>srv := s\<rparr>)"
| mark: "producer_of b (sub x c) = \<lparr>todo = m # ms, sending = None\<rparr> \<Longrightarrow> redis_step cfg x (on_sub c (produce b m ms (sub x c)) x)"
| send: "producer_of b (sub x c) = \<lparr>todo = ms, sending = Some m\<rparr> \<Longrightarrow> length (queue (sub x c)) < queueDepth cfg
     \<Longrightarrow> redis_step cfg x (on_sub c (set_producer b \<lparr>todo = ms, sending = None\<rparr> ((sub x c)\<lparr>queue := queue (sub x c) @ [m]\<rparr>)) x)"
| cancel: "producer_of b (sub x c) = \<lparr>todo = ms, sending = Some m\<rparr>
     \<Longrightarrow> redis_step cfg x (on_sub c (set_producer b \<lparr>todo = [], sending = None\<rparr> (release m (sub x c))) x)"
| stop_producer: "producer_of b (sub x c) = \<lparr>todo = ms, sending = None\<rparr>
     \<Longrightarrow> redis_step cfg x (on_sub c (set_producer b \<lparr>todo = [], sending = None\<rparr> (sub x c)) x)"
| take_message: "queue (sub x c) = m # q \<Longrightarrow> workers (sub x c) w = Free
     \<Longrightarrow> redis_step cfg x (on_sub c (set_worker w (Handling m) ((sub x c)\<lparr>queue := q\<rparr>)) x)"
| take_stopped: "queue (sub x c) = m # q \<Longrightarrow> workers (sub x c) w = Free \<Longrightarrow> redis_step cfg x (on_sub c (release m ((sub x c)\<lparr>queue := q\<rparr>)) x)"
| handle_ok: "workers (sub x c) w = Handling m \<Longrightarrow> handleRedisStreamMessage before h after \<Longrightarrow> length (ackQueue (sub x c)) < queueDepth cfg
     \<Longrightarrow> redis_step cfg x (on_sub c (set_worker w Free ((sub x c)\<lparr>ackQueue := ackQueue (sub x c) @ [m]\<rparr>)) (x\<lparr>handled := insert m (handled x)\<rparr>))"
| handle_ok_cancelled: "workers (sub x c) w = Handling m \<Longrightarrow> handleRedisStreamMessage before h after
     \<Longrightarrow> redis_step cfg x (on_sub c (release m (set_worker w Free (sub x c))) (x\<lparr>handled := insert m (handled x)\<rparr>))"
| handle_fails: "workers (sub x c) w = Handling m \<Longrightarrow> \<not> handleRedisStreamMessage before h after
     \<Longrightarrow> redis_step cfg x (on_sub c (set_worker w (Failing m) (sub x c)) x)"
| leave: "workers (sub x c) w = Failing m \<Longrightarrow> entry = Inl () \<or> entry = Inr (PendingEntry m (srv x))
     \<Longrightarrow> failed_decision invalid (maxDeliveryAttempts cfg) entry = Leave
     \<Longrightarrow> redis_step cfg x (on_sub c (release m (set_worker w Free (sub x c))) x)"
| decide: "workers (sub x c) w = Failing m \<Longrightarrow> failed_decision invalid (maxDeliveryAttempts cfg) (Inr (PendingEntry m (srv x))) = MoveToDLQ n
     \<Longrightarrow> redis_step cfg x (on_sub c (set_worker w (Moving m) (sub x c)) x)"
| dead_letter: "workers (sub x c) w = Moving m
     \<Longrightarrow> redis_step cfg x (on_sub c (set_worker w (Moved m) (sub x c)) (x\<lparr>srv := (srv x)\<lparr>dlq := m # dlq (srv x)\<rparr>\<rparr>))"
| dead_letter_fails: "workers (sub x c) w = Moving m \<Longrightarrow> s = srv x \<or> s = (srv x)\<lparr>dlq := m # dlq (srv x)\<rparr>
     \<Longrightarrow> redis_step cfg x (on_sub c (release m (set_worker w Free (sub x c))) (x\<lparr>srv := s\<rparr>))"
| moved: "workers (sub x c) w = Moved m \<Longrightarrow> s = srv x \<or> s = xack [m] (srv x)
     \<Longrightarrow> redis_step cfg x (on_sub c (release m (set_worker w Free (sub x c))) (x\<lparr>srv := s\<rparr>))"
| collect: "ackQueue (sub x c) = m # q \<Longrightarrow> length (ack_ids (sub x c)) < ackBatchSize cfg
     \<Longrightarrow> redis_step cfg x (on_sub c ((sub x c)\<lparr>ackQueue := q, ack_ids := ack_ids (sub x c) @ [m]\<rparr>) x)"
| flush_acks: "flush (sub x c) = (ids, u) \<Longrightarrow> s = srv x \<or> s = xack ids (srv x) \<Longrightarrow> redis_step cfg x (on_sub c u (x\<lparr>srv := s\<rparr>))"
| cleanup: "redis_step cfg x (x\<lparr>srv := snd (CleanupConsumers target exclude min_idle max_delete now (srv x))\<rparr>)"

definition redis_init :: redis_sys where
  "redis_init =
     \<lparr>srv = \<lparr>stream_entries = [], last_delivered = 0, pel = Map.empty, consumers = [], dlq = []\<rparr>, sub = (\<lambda>_. new_subscription),
      handled = {}, delivered = {}, trimmed = {}\<rparr>"

inductive redis_reach :: "stream_config \<Rightarrow> redis_sys \<Rightarrow> bool" for cfg where
  init: "redis_reach cfg redis_init"
| step: "redis_reach cfg x \<Longrightarrow> redis_step cfg x y \<Longrightarrow> redis_reach cfg y"

section \<open>The server keeps what is not done\<close>

definition server_ok :: "redis_sys \<Rightarrow> bool" where
  "server_ok x \<longleftrightarrow>
     finite (dom (pel (srv x)))
     \<and> dom (pel (srv x)) \<subseteq> set (stream_entries (srv x)) \<union> trimmed x
     \<and> delivered x \<subseteq> dom (pel (srv x)) \<union> handled x \<union> set (dlq (srv x)) \<union> trimmed x
     \<and> (\<forall>c. set (ackQueue (sub x c)) \<union> set (ack_ids (sub x c)) \<subseteq> handled x)
     \<and> (\<forall>c w m. workers (sub x c) w = Moved m \<longrightarrow> m \<in> set (dlq (srv x)))"

lemma release_simps [simp]:
  "queue (release m u) = queue u" "ackQueue (release m u) = ackQueue u" "ack_ids (release m u) = ack_ids u" "workers (release m u) = workers u"
  "poller (release m u) = poller u" "reclaimer (release m u) = reclaimer u" "inFlight (release m u) = filter (\<lambda>x. x \<noteq> m) (inFlight u)"
  by (simp_all add: release_def)

lemma fold_release:
  "queue (fold release ms u) = queue u \<and> ackQueue (fold release ms u) = ackQueue u \<and> ack_ids (fold release ms u) = ack_ids u
   \<and> workers (fold release ms u) = workers u \<and> poller (fold release ms u) = poller u \<and> reclaimer (fold release ms u) = reclaimer u
   \<and> inFlight (fold release ms u) = filter (\<lambda>x. x \<notin> set ms) (inFlight u)"
  by (induction ms arbitrary: u) (auto intro: filter_cong)

lemma producer_simps [simp]:
  "queue (set_producer b p u) = queue u" "ackQueue (set_producer b p u) = ackQueue u" "ack_ids (set_producer b p u) = ack_ids u"
  "workers (set_producer b p u) = workers u" "inFlight (set_producer b p u) = inFlight u" "producer_of b (set_producer b p u) = p"
  "producer_of (\<not> b) (set_producer b p u) = producer_of (\<not> b) u"
  by (simp_all add: set_producer_def producer_of_def)

lemma produce_simps [simp]:
  "queue (produce b m ms u) = queue u" "ackQueue (produce b m ms u) = ackQueue u" "ack_ids (produce b m ms u) = ack_ids u"
  "workers (produce b m ms u) = workers u"
  by (simp_all add: produce_def enqueue_def)

lemma on_sub_simps [simp]:
  "srv (on_sub c u x) = srv x" "handled (on_sub c u x) = handled x" "delivered (on_sub c u x) = delivered x" "trimmed (on_sub c u x) = trimmed x"
  "sub (on_sub c u x) = (sub x)(c := u)"
  by (simp_all add: on_sub_def)

lemma set_worker_simps [simp]:
  "queue (set_worker w y u) = queue u" "ackQueue (set_worker w y u) = ackQueue u" "ack_ids (set_worker w y u) = ack_ids u"
  "workers (set_worker w y u) = (workers u)(w := y)" "poller (set_worker w y u) = poller u" "reclaimer (set_worker w y u) = reclaimer u"
  "inFlight (set_worker w y u) = inFlight u"
  by (simp_all add: set_worker_def)

text \<open>The script deletes only consumers with nothing pending, so no pending entry is lost.\<close>

lemma delconsumer_none: "finite (dom (pel s)) \<Longrightarrow> pending_of s c = 0 \<Longrightarrow> pel (delconsumer c s) = pel s"
proof -
  assume f: "finite (dom (pel s))" and z: "pending_of s c = 0"
  have "finite {m \<in> dom (pel s). \<exists>e. pel s m = Some e \<and> owner e = c}" using f by simp
  then have "{m \<in> dom (pel s). \<exists>e. pel s m = Some e \<and> owner e = c} = {}" using z card_0_eq unfolding pending_of_def by blast
  then show ?thesis by (fastforce simp: delconsumer_def split: option.splits)
qed

lemma delconsumer_simps [simp]: "stream_entries (delconsumer c s) = stream_entries s" "dlq (delconsumer c s) = dlq s"
  by (simp_all add: delconsumer_def)

lemma cleanup_loop_keeps:
  assumes "finite (dom (pel s))" and "\<And>c. pend c = 0 \<Longrightarrow> pending_of s c = 0"
  shows "pel (snd (cleanup_loop pend target exclude mi md now xs k s)) = pel s
    \<and> stream_entries (snd (cleanup_loop pend target exclude mi md now xs k s)) = stream_entries s
    \<and> dlq (snd (cleanup_loop pend target exclude mi md now xs k s)) = dlq s"
  using assms
proof (induction xs arbitrary: k s)
  case (Cons y xs)
  have p: "pel (delconsumer (fst y) s) = pel s" if "pend (fst y) = 0" using delconsumer_none Cons.prems that by blast
  have "pending_of (delconsumer (fst y) s) c = pending_of s c" if "pend (fst y) = 0" for c using p [OF that] by (simp add: pending_of_def)
  then show ?case using Cons.IH [of "delconsumer (fst y) s"] Cons.IH [of s] Cons.prems p by simp
qed simp

lemma cleanup_keeps:
  assumes "finite (dom (pel s))"
  shows "pel (snd (CleanupConsumers t e mi md now s)) = pel s \<and> stream_entries (snd (CleanupConsumers t e mi md now s)) = stream_entries s
    \<and> dlq (snd (CleanupConsumers t e mi md now s)) = dlq s"
  unfolding CleanupConsumers_def by (rule cleanup_loop_keeps [OF assms]) simp

lemma touch_simps [simp]: "pel (touch c now s) = pel s" "stream_entries (touch c now s) = stream_entries s" "dlq (touch c now s) = dlq s"
  by (simp_all add: touch_def)

lemma server_shrink:
  assumes "server_ok x" and "dom (pel s) \<subseteq> dom (pel (srv x))"
    and "dom (pel (srv x)) \<subseteq> dom (pel s) \<union> handled x \<union> set (dlq s) \<union> trimmed x"
    and "stream_entries s = stream_entries (srv x)" and "set (dlq (srv x)) \<subseteq> set (dlq s)"
  shows "server_ok (x\<lparr>srv := s\<rparr>)"
  unfolding server_ok_def
proof (intro conjI)
  show "finite (dom (pel (srv (x\<lparr>srv := s\<rparr>))))" using assms(1,2) finite_subset by (auto simp: server_ok_def)
  show "dom (pel (srv (x\<lparr>srv := s\<rparr>))) \<subseteq> set (stream_entries (srv (x\<lparr>srv := s\<rparr>))) \<union> trimmed (x\<lparr>srv := s\<rparr>)"
    using assms(1,2,4) unfolding server_ok_def by simp blast
  show "delivered (x\<lparr>srv := s\<rparr>) \<subseteq> dom (pel (srv (x\<lparr>srv := s\<rparr>))) \<union> handled (x\<lparr>srv := s\<rparr>) \<union> set (dlq (srv (x\<lparr>srv := s\<rparr>))) \<union> trimmed (x\<lparr>srv := s\<rparr>)"
    using assms(1,3,5) unfolding server_ok_def by simp blast
  show "\<forall>c. set (ackQueue (sub (x\<lparr>srv := s\<rparr>) c)) \<union> set (ack_ids (sub (x\<lparr>srv := s\<rparr>) c)) \<subseteq> handled (x\<lparr>srv := s\<rparr>)"
    using assms(1) unfolding server_ok_def by simp
  show "\<forall>c w m. workers (sub (x\<lparr>srv := s\<rparr>) c) w = Moved m \<longrightarrow> m \<in> set (dlq (srv (x\<lparr>srv := s\<rparr>)))"
    using assms(1,5) unfolding server_ok_def by simp blast
qed

lemma xreadgroup_server:
  assumes "server_ok x" and "xreadgroup c n now (srv x) = (ids, s)"
  shows "server_ok (x\<lparr>srv := s, delivered := delivered x \<union> set ids\<rparr>)"
proof -
  have "set ids \<subseteq> set (stream_entries (srv x))" using assms(2) by (auto simp: xreadgroup_def Let_def dest: in_set_takeD)
  moreover have "dom (pel s) = dom (pel (srv x)) \<union> set ids" "stream_entries s = stream_entries (srv x)" "dlq s = dlq (srv x)"
    using assms(2) by (auto simp: xreadgroup_def Let_def dom_def)
  ultimately show ?thesis using assms(1) unfolding server_ok_def by auto
qed

lemma xautoclaim_server:
  assumes "server_ok x" and "xautoclaim c mi scan now (srv x) = (ids, s)"
  shows "server_ok (x\<lparr>srv := s\<rparr>)"
proof -
  have d: "dom (pel s) \<subseteq> dom (pel (srv x))" "\<And>m. m \<in> dom (pel (srv x)) \<Longrightarrow> m \<in> set (stream_entries (srv x)) \<Longrightarrow> m \<in> dom (pel s)"
    and e: "stream_entries s = stream_entries (srv x)" "dlq s = dlq (srv x)"
    using assms(2) by (auto simp: xautoclaim_def Let_def dom_def split: if_splits)
  have "dom (pel (srv x)) \<subseteq> dom (pel s) \<union> trimmed x" using d(2) assms(1) unfolding server_ok_def by blast
  then show ?thesis using d(1) e by (intro server_shrink [OF assms(1)]) auto
qed

text \<open>Acknowledging what was handled or dead-lettered is harmless.\<close>

lemma xack_server:
  assumes "server_ok x" and "set ids \<subseteq> handled x \<union> set (dlq (srv x))" and "s = srv x \<or> s = xack ids (srv x)"
  shows "server_ok (x\<lparr>srv := s\<rparr>)"
proof -
  have "dom (pel (xack ids (srv x))) = dom (pel (srv x)) - set ids" "stream_entries (xack ids (srv x)) = stream_entries (srv x)" "dlq (xack ids (srv x)) = dlq (srv x)"
    by (auto simp: xack_def dom_def)
  then have "server_ok (x\<lparr>srv := xack ids (srv x)\<rparr>)" using assms(2) by (intro server_shrink [OF assms(1)]) auto
  then show ?thesis using assms(1,3) by auto
qed

text \<open>Changes of a subscription that hand on neither acknowledgements nor dead letters.\<close>

lemma server_on_sub:
  assumes "server_ok x" and "set (ackQueue u) \<union> set (ack_ids u) \<subseteq> handled x"
    and "\<And>w m. workers u w = Moved m \<Longrightarrow> m \<in> set (dlq (srv x))"
  shows "server_ok (on_sub c u x)"
  using assms unfolding server_ok_def by auto

lemma server_dlq: "server_ok x \<Longrightarrow> server_ok (x\<lparr>srv := (srv x)\<lparr>dlq := m # dlq (srv x)\<rparr>\<rparr>)"
  by (rule server_shrink) auto

lemma server_handled: "server_ok x \<Longrightarrow> server_ok (x\<lparr>handled := insert m (handled x)\<rparr>)"
  unfolding server_ok_def by auto

lemma server_okD:
  assumes "server_ok x"
  shows "set (ackQueue (sub x c)) \<union> set (ack_ids (sub x c)) \<subseteq> handled x" and "workers (sub x c) w = Moved m \<Longrightarrow> m \<in> set (dlq (srv x))"
  using assms unfolding server_ok_def by blast+

lemma server_step:
  assumes "redis_step cfg x y" and ok: "server_ok x"
  shows "server_ok y"
  using assms(1)
proof cases
  case (add m)
  then show ?thesis using ok unfolding server_ok_def by auto
next
  case (trim n)
  have "set (stream_entries (srv x)) = set (take n (stream_entries (srv x))) \<union> set (drop n (stream_entries (srv x)))" by (metis append_take_drop_id set_append)
  then show ?thesis using ok trim unfolding server_ok_def by auto
next
  case (poll c now ids s)
  let ?x = "x\<lparr>srv := s, delivered := delivered x \<union> set ids\<rparr>"
  have s: "server_ok ?x" by (rule xreadgroup_server [OF ok poll(3)])
  show ?thesis unfolding poll(1) by (rule server_on_sub [OF s]) (use server_okD [OF s, of c] in auto)
next
  case (poll_lost c now ids s)
  then show ?thesis using xreadgroup_server [OF ok] by blast
next
  case (reclaim c scan now ids s)
  have s: "server_ok (x\<lparr>srv := s\<rparr>)" using xautoclaim_server [OF ok] reclaim by blast
  show ?thesis unfolding reclaim(1) by (rule server_on_sub [OF s]) (use server_okD [OF s, of c] in auto)
next
  case (reclaim_lost c scan now ids s)
  then show ?thesis using xautoclaim_server [OF ok] by blast
next
  case (mark b c m ms)
  show ?thesis unfolding mark(1) by (rule server_on_sub [OF ok]) (use server_okD [OF ok, of c] in auto)
next
  case (send b c ms m)
  show ?thesis unfolding send(1) by (rule server_on_sub [OF ok]) (use server_okD [OF ok, of c] in auto)
next
  case (cancel b c ms m)
  show ?thesis unfolding cancel(1) by (rule server_on_sub [OF ok]) (use server_okD [OF ok, of c] in auto)
next
  case (stop_producer b c ms)
  show ?thesis unfolding stop_producer(1) by (rule server_on_sub [OF ok]) (use server_okD [OF ok, of c] in auto)
next
  case (take_message c m q w)
  show ?thesis unfolding take_message(1) by (rule server_on_sub [OF ok]) (use server_okD [OF ok, of c] in \<open>auto split: if_splits\<close>)
next
  case (take_stopped c m q w)
  show ?thesis unfolding take_stopped(1) by (rule server_on_sub [OF ok]) (use server_okD [OF ok, of c] in auto)
next
  case (handle_ok c w m before h after)
  show ?thesis unfolding handle_ok(1) by (rule server_on_sub [OF server_handled [OF ok]]) (use server_okD [OF ok, of c] in \<open>auto split: if_splits\<close>)
next
  case (handle_ok_cancelled c w m before h after)
  show ?thesis unfolding handle_ok_cancelled(1)
    by (rule server_on_sub [OF server_handled [OF ok]]) (use server_okD [OF ok, of c] in \<open>auto split: if_splits\<close>)
next
  case (handle_fails c w m before h after)
  show ?thesis unfolding handle_fails(1) by (rule server_on_sub [OF ok]) (use server_okD [OF ok, of c] in \<open>auto split: if_splits\<close>)
next
  case (leave c w m entry invalid)
  show ?thesis unfolding leave(1) by (rule server_on_sub [OF ok]) (use server_okD [OF ok, of c] in \<open>auto split: if_splits\<close>)
next
  case (decide c w m invalid n)
  show ?thesis unfolding decide(1) by (rule server_on_sub [OF ok]) (use server_okD [OF ok, of c] in \<open>auto split: if_splits\<close>)
next
  case (dead_letter c w m)
  show ?thesis unfolding dead_letter(1) by (rule server_on_sub [OF server_dlq [OF ok]]) (use server_okD [OF ok, of c] in \<open>auto split: if_splits\<close>)
next
  case (dead_letter_fails c w m s)
  have s: "server_ok (x\<lparr>srv := s\<rparr>)" using dead_letter_fails(3) ok server_dlq [OF ok] by auto
  show ?thesis unfolding dead_letter_fails(1) by (rule server_on_sub [OF s]) (use server_okD [OF s, of c] in \<open>auto split: if_splits\<close>)
next
  case (moved c w m s)
  have s: "server_ok (x\<lparr>srv := s\<rparr>)" by (rule xack_server [OF ok, of "[m]"]) (use moved server_okD(2) [OF ok] in auto)
  show ?thesis unfolding moved(1) by (rule server_on_sub [OF s]) (use server_okD [OF s, of c] in \<open>auto split: if_splits\<close>)
next
  case (collect c m q)
  show ?thesis unfolding collect(1) by (rule server_on_sub [OF ok]) (use server_okD [OF ok, of c] collect in auto)
next
  case (flush_acks c ids u s)
  have u: "ids = ack_ids (sub x c)" "ackQueue u = ackQueue (sub x c)" "ack_ids u = []" "workers u = workers (sub x c)"
    using flush_acks(2) by (auto simp: flush_def fold_release)
  have s: "server_ok (x\<lparr>srv := s\<rparr>)" by (rule xack_server [OF ok _ flush_acks(3)]) (use server_okD(1) [OF ok, of c] u in auto)
  show ?thesis unfolding flush_acks(1) by (rule server_on_sub [OF s]) (use server_okD [OF s, of c] u in auto)
next
  case (cleanup target exclude min_idle max_delete now)
  have "finite (dom (pel (srv x)))" using ok by (simp add: server_ok_def)
  then show ?thesis unfolding cleanup using cleanup_keeps [of "srv x"] by (intro server_shrink [OF ok]) auto
qed

section \<open>Every message in flight is in one place\<close>

fun busy :: "worker \<Rightarrow> mid option" where
  "busy Free = None" | "busy (Handling m) = Some m" | "busy (Failing m) = Some m" | "busy (Moving m) = Some m" | "busy (Moved m) = Some m"

definition wcount :: "(nat \<Rightarrow> worker) \<Rightarrow> mid \<Rightarrow> nat" where
  "wcount W m = card {w. busy (W w) = Some m}"

text \<open>The number of places of a subscription that hold a message.\<close>

definition held :: "subscription \<Rightarrow> mid \<Rightarrow> nat" where
  "held u m =
     (if sending (poller u) = Some m then 1 else 0) + (if sending (reclaimer u) = Some m then 1 else 0)
     + count_list (queue u) m + wcount (workers u) m + count_list (ackQueue u) m + count_list (ack_ids u) m"

definition local_ok :: "subscription \<Rightarrow> bool" where
  "local_ok u \<longleftrightarrow> finite {w. workers u w \<noteq> Free} \<and> (\<forall>m. held u m = (if m \<in> set (inFlight u) then 1 else 0))"

lemma local_okI:
  assumes "finite {w. workers u w \<noteq> Free}" and "\<And>m. held u m = (if m \<in> set (inFlight u) then 1 else 0)"
  shows "local_ok u"
  using assms by (simp add: local_ok_def)

lemma local_okD:
  assumes "local_ok u"
  shows "finite {w. workers u w \<noteq> Free}" and "held u m = (if m \<in> set (inFlight u) then 1 else 0)"
  using assms by (simp_all add: local_ok_def)

lemma finite_upd: "finite {w. W w \<noteq> Free} \<Longrightarrow> finite {v. (W(w := y)) v \<noteq> Free}"
  by (rule finite_subset [of _ "insert w {w. W w \<noteq> Free}"]) auto

lemma finite_busy: "finite {w. W w \<noteq> Free} \<Longrightarrow> finite {w. busy (W w) = Some m}"
  by (rule finite_subset [of _ "{w. W w \<noteq> Free}"]) auto

lemma wcount_upd:
  assumes "finite {w. W w \<noteq> Free}"
  shows "wcount (W(w := y)) m + (if busy (W w) = Some m then 1 else 0) = wcount W m + (if busy y = Some m then 1 else 0)"
proof -
  let ?A = "{v. v \<noteq> w \<and> busy (W v) = Some m}"
  have f: "finite ?A" using finite_busy [OF assms] by (rule finite_subset [rotated]) auto
  have "{v. busy ((W(w := y)) v) = Some m} = (if busy y = Some m then insert w ?A else ?A)" by auto
  moreover have "{v. busy (W v) = Some m} = (if busy (W w) = Some m then insert w ?A else ?A)" by auto
  ultimately show ?thesis using f by (simp add: wcount_def)
qed

lemma wcount_busy: "finite {w. W w \<noteq> Free} \<Longrightarrow> busy (W w) = Some m \<Longrightarrow> 0 < wcount W m"
  using finite_busy [of W m] by (auto simp: wcount_def card_gt_0_iff)

lemma wcount_unique:
  assumes "finite {w. W w \<noteq> Free}" and "wcount W m \<le> 1" and "busy (W v) = Some m" and "busy (W w) = Some m"
  shows "v = w"
  using assms finite_busy [OF assms(1), of m] by (simp add: wcount_def card_le_Suc0_iff_eq)

text \<open>What is in flight is held somewhere; what is held is in flight.\<close>

lemma held_in_flight: "local_ok u \<Longrightarrow> m \<in> set (inFlight u) \<longleftrightarrow> 0 < held u m"
  using local_okD(2) [of u m] by simp

lemma held_producer:
  "held (set_producer b p u) m + (if sending (producer_of b u) = Some m then 1 else 0) = held u m + (if sending p = Some m then 1 else 0)"
  by (cases b) (simp_all add: held_def set_producer_def producer_of_def)

lemma held_queue: "held (u\<lparr>queue := q\<rparr>) m + count_list (queue u) m = held u m + count_list q m"
  by (simp add: held_def)

lemma held_ackQueue: "held (u\<lparr>ackQueue := q\<rparr>) m + count_list (ackQueue u) m = held u m + count_list q m"
  by (simp add: held_def)

lemma held_worker:
  assumes "finite {w. workers u w \<noteq> Free}"
  shows "held (set_worker w y u) m + (if busy (workers u w) = Some m then 1 else 0) = held u m + (if busy y = Some m then 1 else 0)"
  using wcount_upd [OF assms, of w y m] by (simp add: held_def)

lemma held_release: "held (release n u) m = held u m"
  by (simp add: held_def)

text \<open>Moving a message from one place to another, and letting one go.\<close>

lemma local_same:
  assumes "local_ok u" and "finite {w. workers v w \<noteq> Free}" and "\<And>m. held v m = held u m" and "set (inFlight v) = set (inFlight u)"
  shows "local_ok v"
  using assms by (auto simp: local_ok_def)

lemma local_release:
  assumes "local_ok u" and "finite {w. workers v w \<noteq> Free}" and "\<And>m. held v m + (if m = n then 1 else 0) = held u m" and "inFlight v = inFlight u"
  shows "local_ok (release n v)"
proof (rule local_okI)
  show "held (release n v) m = (if m \<in> set (inFlight (release n v)) then 1 else 0)" for m
    using assms(3) [of m] local_okD(2) [OF assms(1), of m] assms(4) held_release [of n v m] by (auto split: if_splits)
qed (use assms(2) in simp)

lemma local_produce:
  assumes "local_ok u" and "sending (producer_of b u) = None"
  shows "local_ok (produce b m ms u)"
proof (cases "m \<in> set (inFlight u)")
  case True
  then have p: "produce b m ms u = set_producer b \<lparr>todo = ms, sending = None\<rparr> u" by (simp add: produce_def enqueue_def)
  show ?thesis unfolding p using held_producer [of b _ u] assms local_okD(1) [OF assms(1)] by (intro local_same [OF assms(1)]) auto
next
  case False
  let ?u = "u\<lparr>inFlight := m # inFlight u\<rparr>"
  have p: "produce b m ms u = set_producer b \<lparr>todo = ms, sending = Some m\<rparr> ?u" using False by (simp add: produce_def enqueue_def)
  have h: "held ?u k = held u k" "sending (producer_of b ?u) = None" for k using assms(2) by (cases b; simp add: held_def producer_of_def)+
  show ?thesis unfolding p
    using held_producer [of b "\<lparr>todo = ms, sending = Some m\<rparr>" ?u] h local_okD [OF assms(1)] False by (intro local_okI) (auto split: if_splits)
qed

lemma local_flush:
  assumes "local_ok u"
  shows "local_ok (snd (flush u))"
proof -
  let ?v = "snd (flush u)"
  have v: "held ?v m + count_list (ack_ids u) m = held u m" "inFlight ?v = filter (\<lambda>x. x \<notin> set (ack_ids u)) (inFlight u)" "workers ?v = workers u" for m
    using fold_release [of "ack_ids u" "u\<lparr>ack_ids := []\<rparr>"] by (simp_all add: flush_def held_def)
  have "count_list (ack_ids u) m \<le> 1" for m using v(1) [of m] local_okD(2) [OF assms, of m] by (simp split: if_splits)
  then have c: "count_list (ack_ids u) m = (if m \<in> set (ack_ids u) then 1 else 0)" for m
    using count_list_0_iff [of "ack_ids u" m] by (metis le_antisym less_one linorder_not_le)
  show ?thesis
  proof (rule local_okI)
    show "finite {w. workers ?v w \<noteq> Free}" using v(3) local_okD(1) [OF assms] by simp
    fix m
    show "held ?v m = (if m \<in> set (inFlight ?v) then 1 else 0)"
    proof (cases "m \<in> set (ack_ids u)")
      case True
      then show ?thesis using v(1) [of m] v(2) c [of m] local_okD(2) [OF assms, of m] by (simp split: if_splits)
    next
      case False
      then show ?thesis using v(1) [of m] v(2) c [of m] local_okD(2) [OF assms, of m] by simp
    qed
  qed
qed

text \<open>A worker that goes on with its message, and one that lets it go.\<close>

lemma local_worker:
  assumes "local_ok u" and "busy z = busy (workers u w)"
  shows "local_ok (set_worker w z u)"
proof (rule local_same [OF assms(1)])
  show "held (set_worker w z u) m = held u m" for m using held_worker [OF local_okD(1) [OF assms(1)], of w z m] assms(2) by (simp split: if_splits)
qed (use finite_upd [OF local_okD(1) [OF assms(1)]] in auto)

lemma local_worker_release:
  assumes "local_ok u" and "busy (workers u w) = Some n"
  shows "local_ok (release n (set_worker w Free u))"
proof (rule local_release [OF assms(1)])
  show "held (set_worker w Free u) m + (if m = n then 1 else 0) = held u m" for m
    using held_worker [OF local_okD(1) [OF assms(1)], of w Free m] assms(2) by (auto split: if_splits)
qed (use finite_upd [OF local_okD(1) [OF assms(1)]] in auto)

lemma local_idle_producer:
  assumes "local_ok u" and "sending (producer_of b u) = None"
  shows "local_ok (set_producer b \<lparr>todo = ms, sending = None\<rparr> u)"
proof (rule local_same [OF assms(1)])
  show "held (set_producer b \<lparr>todo = ms, sending = None\<rparr> u) m = held u m" for m
    using held_producer [of b "\<lparr>todo = ms, sending = None\<rparr>" u m] assms(2) by simp
qed (use local_okD(1) [OF assms(1)] in auto)

lemma local_cancel:
  assumes "local_ok u" and "sending (producer_of b u) = Some n"
  shows "local_ok (set_producer b \<lparr>todo = [], sending = None\<rparr> (release n u))"
proof -
  have "local_ok (release n (set_producer b \<lparr>todo = [], sending = None\<rparr> u))"
  proof (rule local_release [OF assms(1)])
    show "held (set_producer b \<lparr>todo = [], sending = None\<rparr> u) m + (if m = n then 1 else 0) = held u m" for m
      using held_producer [of b "\<lparr>todo = [], sending = None\<rparr>" u m] assms(2) by (auto split: if_splits)
  qed (use local_okD(1) [OF assms(1)] in auto)
  moreover have "set_producer b \<lparr>todo = [], sending = None\<rparr> (release n u) = release n (set_producer b \<lparr>todo = [], sending = None\<rparr> u)"
    by (cases u) (simp add: set_producer_def release_def)
  ultimately show ?thesis by simp
qed

lemma local_step:
  assumes "redis_step cfg x y" and ok: "\<And>c. local_ok (sub x c)"
  shows "local_ok (sub y d)"
proof -
  have fin: "finite {w. workers (sub x c) w \<noteq> Free}" for c by (rule local_okD(1) [OF ok])
  have lift: "local_ok (sub (on_sub c u z) d)" if "local_ok u" "sub z = sub x" for c u z using that ok by simp
  from assms(1) show ?thesis
  proof cases
    case (poll c now ids s)
    show ?thesis unfolding poll(1) by (rule lift [OF local_idle_producer [OF ok]]) (use poll(2) in \<open>simp_all add: producer_of_def\<close>)
  next
    case (reclaim c scan now ids s)
    show ?thesis unfolding reclaim(1) by (rule lift [OF local_idle_producer [OF ok]]) (use reclaim(2) in \<open>simp_all add: producer_of_def\<close>)
  next
    case (mark b c m ms)
    show ?thesis unfolding mark(1) by (rule lift [OF local_produce [OF ok]]) (use mark(2) in simp_all)
  next
    case (cancel b c ms m)
    show ?thesis unfolding cancel(1) by (rule lift [OF local_cancel [OF ok]]) (use cancel(2) in simp_all)
  next
    case (stop_producer b c ms)
    show ?thesis unfolding stop_producer(1) by (rule lift [OF local_idle_producer [OF ok]]) (use stop_producer(2) in simp_all)
  next
    case (send b c ms m)
    let ?u = "(sub x c)\<lparr>queue := queue (sub x c) @ [m]\<rparr>"
    have "producer_of b ?u = producer_of b (sub x c)" by (simp add: producer_of_def)
    then have "held (set_producer b \<lparr>todo = ms, sending = None\<rparr> ?u) k = held (sub x c) k" for k
      using held_producer [of b "\<lparr>todo = ms, sending = None\<rparr>" ?u k] held_queue [where u = "sub x c" and q = "queue (sub x c) @ [m]" and m = k] send(2)
      by (auto split: if_splits)
    then have "local_ok (set_producer b \<lparr>todo = ms, sending = None\<rparr> ?u)" using fin [of c] by (intro local_same [OF ok [of c]]) auto
    then show ?thesis unfolding send(1) by (rule lift) simp
  next
    case (take_message c m q w)
    let ?u = "(sub x c)\<lparr>queue := q\<rparr>"
    have "held (set_worker w (Handling m) ?u) k = held (sub x c) k" for k
      using held_worker [of ?u w "Handling m" k] held_queue [where u = "sub x c" and q = q and m = k] take_message(2,3) fin [of c] by (auto split: if_splits)
    then have "local_ok (set_worker w (Handling m) ?u)" using finite_upd [OF fin [of c], of w "Handling m"] by (intro local_same [OF ok [of c]]) auto
    then show ?thesis unfolding take_message(1) by (rule lift) simp
  next
    case (take_stopped c m q w)
    have "held ((sub x c)\<lparr>queue := q\<rparr>) k + (if k = m then 1 else 0) = held (sub x c) k" for k
      using held_queue [where u = "sub x c" and q = q and m = k] take_stopped(2) by (auto split: if_splits)
    then have "local_ok (release m ((sub x c)\<lparr>queue := q\<rparr>))" using fin [of c] by (intro local_release [OF ok [of c]]) auto
    then show ?thesis unfolding take_stopped(1) by (rule lift) simp
  next
    case (handle_ok c w m before h after)
    let ?u = "(sub x c)\<lparr>ackQueue := ackQueue (sub x c) @ [m]\<rparr>"
    have "held (set_worker w Free ?u) k = held (sub x c) k" for k
      using held_worker [of ?u w Free k] held_ackQueue [where u = "sub x c" and q = "ackQueue (sub x c) @ [m]" and m = k] handle_ok(2) fin [of c] by (auto split: if_splits)
    then have "local_ok (set_worker w Free ?u)" using finite_upd [OF fin [of c], of w Free] by (intro local_same [OF ok [of c]]) auto
    then show ?thesis unfolding handle_ok(1) by (rule lift) simp
  next
    case (handle_ok_cancelled c w m before h after)
    show ?thesis unfolding handle_ok_cancelled(1) by (rule lift [OF local_worker_release [OF ok]]) (use handle_ok_cancelled(2) in simp_all)
  next
    case (handle_fails c w m before h after)
    show ?thesis unfolding handle_fails(1) by (rule lift [OF local_worker [OF ok]]) (use handle_fails(2) in simp_all)
  next
    case (leave c w m entry invalid)
    show ?thesis unfolding leave(1) by (rule lift [OF local_worker_release [OF ok]]) (use leave(2) in simp_all)
  next
    case (decide c w m invalid n)
    show ?thesis unfolding decide(1) by (rule lift [OF local_worker [OF ok]]) (use decide(2) in simp_all)
  next
    case (dead_letter c w m)
    show ?thesis unfolding dead_letter(1) by (rule lift [OF local_worker [OF ok]]) (use dead_letter(2) in simp_all)
  next
    case (dead_letter_fails c w m s)
    show ?thesis unfolding dead_letter_fails(1) by (rule lift [OF local_worker_release [OF ok]]) (use dead_letter_fails(2) in simp_all)
  next
    case (moved c w m s)
    show ?thesis unfolding moved(1) by (rule lift [OF local_worker_release [OF ok]]) (use moved(2) in simp_all)
  next
    case (collect c m q)
    have "local_ok ((sub x c)\<lparr>ackQueue := q, ack_ids := ack_ids (sub x c) @ [m]\<rparr>)"
      using collect(2) fin [of c] by (intro local_same [OF ok [of c]]) (auto simp: held_def)
    then show ?thesis unfolding collect(1) by (rule lift) simp
  next
    case (flush_acks c ids u s)
    have "local_ok u" using local_flush [OF ok [of c]] flush_acks(2) by simp
    then show ?thesis unfolding flush_acks(1) by (rule lift) simp
  qed (use ok in auto)
qed

lemma redis_invariant: "redis_reach cfg x \<Longrightarrow> server_ok x \<and> (\<forall>c. local_ok (sub x c))"
proof (induction rule: redis_reach.induct)
  case init
  have "local_ok new_subscription" by (rule local_okI) (simp_all add: new_subscription_def held_def wcount_def)
  then show ?case by (simp add: redis_init_def server_ok_def) (simp add: new_subscription_def)
next
  case (step x y)
  then show ?case using server_step local_step by metis
qed

text \<open>
  At least once (C24). In every interleaving of any number of subscriptions of a group, with handlers that fail, panic or
  time out, cancelled subscriptions, failing commands and commands whose answer is lost: a message
  that was ever delivered to the group is still pending there, and so will be delivered again, unless a
  handler succeeded with it, it was added to the dead-letter stream, or the length limit trimmed it. In each subscription a
  message is at most in one hand (being sent, queued, handled by one worker, or waiting for its
  acknowledgement), and it is marked as in flight exactly as long as it is in one, so no message is blocked from being redelivered.
\<close>

theorem redis_no_message_lost:
  assumes "redis_reach cfg x"
  shows "(\<forall>m \<in> delivered x. m \<in> dom (pel (srv x)) \<or> m \<in> handled x \<or> m \<in> set (dlq (srv x)) \<or> m \<in> trimmed x)
     \<and> (\<forall>c m. held (sub x c) m \<le> 1 \<and> (m \<in> set (inFlight (sub x c)) \<longleftrightarrow> held (sub x c) m = 1))
     \<and> (\<forall>c v w m. busy (workers (sub x c) v) = Some m \<and> busy (workers (sub x c) w) = Some m \<longrightarrow> v = w)"
proof -
  have s: "server_ok x" and l: "\<And>c. local_ok (sub x c)" using redis_invariant [OF assms] by auto
  have h: "held (sub x c) m = (if m \<in> set (inFlight (sub x c)) then 1 else 0)" for c m by (rule local_okD(2) [OF l])
  have "wcount (workers (sub x c)) m \<le> 1" for c m using h [of c m] by (simp add: held_def split: if_splits)
  then have "v = w" if "busy (workers (sub x c) v) = Some m" "busy (workers (sub x c) w) = Some m" for c v w m
    using wcount_unique [OF local_okD(1) [OF l]] that by blast
  moreover have "delivered x \<subseteq> dom (pel (srv x)) \<union> handled x \<union> set (dlq (srv x)) \<union> trimmed x" using s by (simp add: server_ok_def)
  ultimately show ?thesis using h by auto
qed

definition demo_cfg :: stream_config where
  "demo_cfg = \<lparr>queueDepth = 4, batchSize = 2, ackBatchSize = 2, pendingIdleTimeout = 60000, maxDeliveryAttempts = 2\<rparr>"

text \<open>The state after one message was added and read by subscription 0, at time \<open>now\<close>, and the subscription is \<open>u\<close>.\<close>

definition demo_redis :: "int \<Rightarrow> int64 \<Rightarrow> mid list \<Rightarrow> subscription \<Rightarrow> redis_sys" where
  "demo_redis now n dead u =
     \<lparr>srv = \<lparr>stream_entries = [1], last_delivered = 1, pel = [1 \<mapsto> \<lparr>owner = 0, since = now, RetryCount = n\<rparr>], consumers = [(0, now)], dlq = dead\<rparr>,
      sub = (\<lambda>_. new_subscription)(0 := u), handled = {}, delivered = {1}, trimmed = {}\<rparr>"

definition demo_polled :: subscription where
  "demo_polled = new_subscription\<lparr>poller := \<lparr>todo = [1], sending = None\<rparr>\<rparr>"

lemma demo_read: "redis_reach demo_cfg (demo_redis 0 1 [] demo_polled)"
proof -
  let ?x1 = "redis_init\<lparr>srv := (srv redis_init)\<lparr>stream_entries := [1]\<rparr>\<rparr>"
  have s1: "redis_reach demo_cfg ?x1"
    using redis_reach.step [OF redis_reach.init, of demo_cfg] add [of redis_init 1 demo_cfg] by (simp add: redis_init_def)
  have "redis_step demo_cfg ?x1 (demo_redis 0 1 [] demo_polled)"
    using poll [of ?x1 0 demo_cfg 0 "[1]" "srv (demo_redis 0 1 [] demo_polled)"]
    by (simp add: redis_init_def new_subscription_def xreadgroup_def touch_def demo_cfg_def demo_redis_def demo_polled_def on_sub_def set_producer_def fun_eq_iff Let_def)
  then show ?thesis by (rule redis_reach.step [OF s1])
qed

definition demo_queued :: subscription where
  "demo_queued = new_subscription\<lparr>inFlight := [1], queue := [1]\<rparr>"

lemma demo_queue: "redis_reach demo_cfg (demo_redis 0 1 [] demo_queued)"
proof -
  let ?u = "new_subscription\<lparr>inFlight := [1], poller := \<lparr>todo = [], sending = Some 1\<rparr>\<rparr>"
  have "redis_step demo_cfg (demo_redis 0 1 [] demo_polled) (demo_redis 0 1 [] ?u)"
    using mark [of True "demo_redis 0 1 [] demo_polled" 0 1 "[]" demo_cfg]
    by (simp add: demo_redis_def demo_polled_def producer_of_def produce_def enqueue_def set_producer_def on_sub_def new_subscription_def)
  then have s: "redis_reach demo_cfg (demo_redis 0 1 [] ?u)" by (rule redis_reach.step [OF demo_read])
  have "redis_step demo_cfg (demo_redis 0 1 [] ?u) (demo_redis 0 1 [] demo_queued)"
    using send [of True "demo_redis 0 1 [] ?u" 0 "[]" 1 demo_cfg]
    by (simp add: demo_redis_def demo_queued_def producer_of_def set_producer_def on_sub_def new_subscription_def demo_cfg_def)
  then show ?thesis by (rule redis_reach.step [OF s])
qed

theorem redis_no_message_lost_witness:
  "1 \<in> dom (pel (srv (demo_redis 0 1 [] demo_queued))) \<and> held (sub (demo_redis 0 1 [] demo_queued) 0) 1 = 1"
proof -
  let ?x = "demo_redis 0 1 [] demo_queued"
  have "1 \<in> delivered ?x" "1 \<notin> handled ?x" "1 \<notin> set (dlq (srv ?x))" "1 \<notin> trimmed ?x" "1 \<in> set (inFlight (sub ?x 0))"
    by (simp_all add: demo_redis_def demo_queued_def)
  then show ?thesis using redis_no_message_lost [OF demo_queue] by blast
qed

section \<open>Finding\<close>

text \<open>
  The reclaimer also claims the messages that wait in the queue of its own subscription: this counts
  a delivery although no handler has seen the message. A message can so reach the dead-letter
  stream after a single attempt, whatever the limit on attempts is.
\<close>

lemma demo_waits_long:
  assumes "redis_reach demo_cfg (demo_redis t n [] demo_queued)"
  shows "redis_reach demo_cfg (demo_redis (t + 60000) (n + 1) [] demo_queued)"
proof -
  let ?x = "demo_redis t n [] demo_queued" and ?u = "demo_queued\<lparr>reclaimer := \<lparr>todo = [1], sending = None\<rparr>\<rparr>"
  let ?y = "demo_redis (t + 60000) (n + 1) [] ?u"
  have "redis_step demo_cfg ?x ?y"
    using reclaim [of ?x 0 demo_cfg "[1]" "t + 60000" "[1]" "srv ?y"]
    by (simp add: demo_redis_def demo_queued_def new_subscription_def xautoclaim_def idle_for_def touch_def demo_cfg_def on_sub_def set_producer_def fun_eq_iff Let_def)
  then have s: "redis_reach demo_cfg ?y" by (rule redis_reach.step [OF assms])
  have "redis_step demo_cfg ?y (demo_redis (t + 60000) (n + 1) [] demo_queued)"
    using mark [of False ?y 0 1 "[]" demo_cfg]
    by (simp add: demo_redis_def demo_queued_def producer_of_def produce_def enqueue_def set_producer_def on_sub_def new_subscription_def)
  then show ?thesis by (rule redis_reach.step [OF s])
qed

theorem dead_letter_after_one_attempt:
  "\<exists>x. redis_reach demo_cfg x \<and> redis_step demo_cfg (demo_redis 60000 2 [] demo_queued) x \<and> workers (sub x 0) 0 = Handling 1
     \<and> failed_decision False (maxDeliveryAttempts demo_cfg) (Inr (PendingEntry 1 (srv x))) = MoveToDLQ 2"
proof -
  have r: "redis_reach demo_cfg (demo_redis 60000 2 [] demo_queued)" using demo_waits_long [OF demo_queue] by simp
  let ?x = "on_sub 0 (set_worker 0 (Handling 1) (demo_queued\<lparr>queue := []\<rparr>)) (demo_redis 60000 2 [] demo_queued)"
  have st: "redis_step demo_cfg (demo_redis 60000 2 [] demo_queued) ?x"
    using take_message [of "demo_redis 60000 2 [] demo_queued" 0 1 "[]" 0 demo_cfg] by (simp add: demo_redis_def demo_queued_def new_subscription_def)
  have "workers (sub ?x 0) 0 = Handling 1" by simp
  moreover have "failed_decision False (maxDeliveryAttempts demo_cfg) (Inr (PendingEntry 1 (srv ?x))) = MoveToDLQ 2"
    by (simp add: failed_decision_def PendingEntry_def demo_redis_def demo_cfg_def)
  ultimately show ?thesis using redis_reach.step [OF r st] st by blast
qed

end
