(* ===== verification/Kc_Mq.thy ===== *)
theory Kc_Mq
  imports Kc_Mqruntime
begin

text \<open>
  The broker-independent contract of \<open>src/pkg/mq\<close>: subscribe options (\<open>options.go\<close>) and batches of
  subscriptions (\<open>consume.go\<close>). A Go pointer that may be nil is an \<open>option\<close>; each \<open>With\<close> function is a constructor.
\<close>

section \<open>Subscribe options\<close>

record RetryBackoff =
  Min :: duration
  Max :: duration

record RedisStreamSubscribeOptions =
  QueueDepth :: "int64 option"
  PendingIdleTimeout :: "duration option"
  RedeliverInterval :: "duration option"
  AckBatchSize :: "int64 option"
  AckFlushInterval :: "duration option"
  ReclaimMaxBatches :: "int64 option"
  MaxDeliveryAttempts :: "int64 option"

record KafkaSubscribeOptions =
  MaxRetries :: "int64 option"
  ShareMaxDeliveryAttempts :: "int64 option"
  ShareConsumers :: "int64 option"
  StartOffset :: "string option"

record SubscribeOptions =
  HandlerTimeout :: "duration option"
  BatchSize :: "int64 option"
  Concurrency :: "int64 option"
  Backoff :: "RetryBackoff option"
  Kafka :: "KafkaSubscribeOptions option"
  RedisStream :: "RedisStreamSubscribeOptions option"

definition no_options :: SubscribeOptions where
  "no_options = \<lparr>HandlerTimeout = None, BatchSize = None, Concurrency = None, Backoff = None, Kafka = None, RedisStream = None\<rparr>"

definition redisOptions :: "SubscribeOptions \<Rightarrow> RedisStreamSubscribeOptions" where
  "redisOptions p =
     (case RedisStream p of
        Some r \<Rightarrow> r
      | None \<Rightarrow> \<lparr>QueueDepth = None, PendingIdleTimeout = None, RedeliverInterval = None, AckBatchSize = None, AckFlushInterval = None,
                 ReclaimMaxBatches = None, MaxDeliveryAttempts = None\<rparr>)"

definition kafkaOptions :: "SubscribeOptions \<Rightarrow> KafkaSubscribeOptions" where
  "kafkaOptions p =
     (case Kafka p of
        Some k \<Rightarrow> k
      | None \<Rightarrow> \<lparr>MaxRetries = None, ShareMaxDeliveryAttempts = None, ShareConsumers = None, StartOffset = None\<rparr>)"

datatype SubscribeOption =
    WithHandlerTimeout duration
  | WithBatchSize int64
  | WithConcurrency int64
  | WithRetryBackoff duration duration
  | WithKafkaMaxRetries int64
  | WithKafkaShareMaxDeliveryAttempts int64
  | WithKafkaShareConsumers int64
  | WithKafkaStartOffset string
  | WithRedisStreamQueueDepth int64
  | WithRedisStreamPendingIdleTimeout duration
  | WithRedisStreamRedeliverInterval duration
  | WithRedisStreamRedelivery duration duration
  | WithRedisStreamAckBatch int64 duration
  | WithRedisStreamReclaimMaxBatches int64
  | WithRedisStreamMaxDeliveryAttempts int64

definition set_kafka :: "(KafkaSubscribeOptions \<Rightarrow> KafkaSubscribeOptions) \<Rightarrow> SubscribeOptions \<Rightarrow> SubscribeOptions" where
  "set_kafka f p = p\<lparr>Kafka := Some (f (kafkaOptions p))\<rparr>"

definition set_redis :: "(RedisStreamSubscribeOptions \<Rightarrow> RedisStreamSubscribeOptions) \<Rightarrow> SubscribeOptions \<Rightarrow> SubscribeOptions" where
  "set_redis f p = p\<lparr>RedisStream := Some (f (redisOptions p))\<rparr>"

fun apply_option :: "SubscribeOption \<Rightarrow> SubscribeOptions \<Rightarrow> SubscribeOptions option" where
  "apply_option (WithHandlerTimeout d) p = (if d \<le> 0 then None else Some (p\<lparr>HandlerTimeout := Some d\<rparr>))"
| "apply_option (WithBatchSize n) p = (if n \<le> 0 then None else Some (p\<lparr>BatchSize := Some n\<rparr>))"
| "apply_option (WithConcurrency n) p = (if n \<le> 0 then None else Some (p\<lparr>Concurrency := Some n\<rparr>))"
| "apply_option (WithRetryBackoff lo hi) p =
     (if lo \<le> 0 \<or> hi \<le> 0 then None else if hi < lo then None else Some (p\<lparr>Backoff := Some \<lparr>Min = lo, Max = hi\<rparr>\<rparr>))"
| "apply_option (WithKafkaMaxRetries n) p = (if n < 0 then None else Some (set_kafka (\<lambda>k. k\<lparr>MaxRetries := Some n\<rparr>) p))"
| "apply_option (WithKafkaShareMaxDeliveryAttempts n) p =
     (if n \<le> 0 then None else Some (set_kafka (\<lambda>k. k\<lparr>ShareMaxDeliveryAttempts := Some n\<rparr>) p))"
| "apply_option (WithKafkaShareConsumers n) p = (if n \<le> 0 then None else Some (set_kafka (\<lambda>k. k\<lparr>ShareConsumers := Some n\<rparr>) p))"
| "apply_option (WithKafkaStartOffset off) p =
     (if off = ''earliest'' \<or> off = ''latest'' then Some (set_kafka (\<lambda>k. k\<lparr>StartOffset := Some off\<rparr>) p) else None)"
| "apply_option (WithRedisStreamQueueDepth n) p = (if n \<le> 0 then None else Some (set_redis (\<lambda>r. r\<lparr>QueueDepth := Some n\<rparr>) p))"
| "apply_option (WithRedisStreamPendingIdleTimeout d) p =
     (if d \<le> 0 then None else Some (set_redis (\<lambda>r. r\<lparr>PendingIdleTimeout := Some d\<rparr>) p))"
| "apply_option (WithRedisStreamRedeliverInterval d) p =
     (if d \<le> 0 then None else Some (set_redis (\<lambda>r. r\<lparr>RedeliverInterval := Some d\<rparr>) p))"
| "apply_option (WithRedisStreamRedelivery d e) p =
     (if d \<le> 0 \<or> e \<le> 0 then None else Some (set_redis (\<lambda>r. r\<lparr>PendingIdleTimeout := Some d, RedeliverInterval := Some e\<rparr>) p))"
| "apply_option (WithRedisStreamAckBatch n d) p =
     (if n \<le> 0 \<or> d \<le> 0 then None else Some (set_redis (\<lambda>r. r\<lparr>AckBatchSize := Some n, AckFlushInterval := Some d\<rparr>) p))"
| "apply_option (WithRedisStreamReclaimMaxBatches n) p = (if n \<le> 0 then None else Some (set_redis (\<lambda>r. r\<lparr>ReclaimMaxBatches := Some n\<rparr>) p))"
| "apply_option (WithRedisStreamMaxDeliveryAttempts n) p =
     (if n \<le> 0 then None else Some (set_redis (\<lambda>r. r\<lparr>MaxDeliveryAttempts := Some n\<rparr>) p))"

text \<open>The loop of \<open>ResolveSubscribeOptions\<close>; an option may be nil.\<close>

fun resolve_options :: "SubscribeOption option list \<Rightarrow> SubscribeOptions \<Rightarrow> SubscribeOptions option" where
  "resolve_options [] p = Some p"
| "resolve_options (x # xs) p =
     (case x of None \<Rightarrow> None | Some q \<Rightarrow> (case apply_option q p of None \<Rightarrow> None | Some p' \<Rightarrow> resolve_options xs p'))"

definition ResolveSubscribeOptions :: "SubscribeOption option list \<Rightarrow> SubscribeOptions option" where
  "ResolveSubscribeOptions xs = resolve_options xs no_options"

text \<open>Whatever is set in a resolved record is in range.\<close>

definition positive :: "int option \<Rightarrow> bool" where
  "positive x \<longleftrightarrow> (case x of None \<Rightarrow> True | Some n \<Rightarrow> n > 0)"

definition options_ok :: "SubscribeOptions \<Rightarrow> bool" where
  "options_ok p \<longleftrightarrow>
     positive (HandlerTimeout p) \<and> positive (BatchSize p) \<and> positive (Concurrency p)
     \<and> (case Backoff p of None \<Rightarrow> True | Some b \<Rightarrow> 0 < Min b \<and> Min b \<le> Max b)
     \<and> (case MaxRetries (kafkaOptions p) of None \<Rightarrow> True | Some n \<Rightarrow> n \<ge> 0)
     \<and> positive (ShareMaxDeliveryAttempts (kafkaOptions p)) \<and> positive (ShareConsumers (kafkaOptions p))
     \<and> (case StartOffset (kafkaOptions p) of None \<Rightarrow> True | Some s \<Rightarrow> s = ''earliest'' \<or> s = ''latest'')
     \<and> positive (QueueDepth (redisOptions p)) \<and> positive (PendingIdleTimeout (redisOptions p)) \<and> positive (RedeliverInterval (redisOptions p))
     \<and> positive (AckBatchSize (redisOptions p)) \<and> positive (AckFlushInterval (redisOptions p)) \<and> positive (ReclaimMaxBatches (redisOptions p))
     \<and> positive (MaxDeliveryAttempts (redisOptions p))"

lemma option_accessors [simp]:
  "kafkaOptions (set_kafka f p) = f (kafkaOptions p)" "redisOptions (set_kafka f p) = redisOptions p"
  "kafkaOptions (set_redis g p) = kafkaOptions p" "redisOptions (set_redis g p) = g (redisOptions p)"
  "HandlerTimeout (set_kafka f p) = HandlerTimeout p" "BatchSize (set_kafka f p) = BatchSize p" "Concurrency (set_kafka f p) = Concurrency p"
  "Backoff (set_kafka f p) = Backoff p" "HandlerTimeout (set_redis g p) = HandlerTimeout p" "BatchSize (set_redis g p) = BatchSize p"
  "Concurrency (set_redis g p) = Concurrency p" "Backoff (set_redis g p) = Backoff p"
  by (simp_all add: set_kafka_def set_redis_def kafkaOptions_def redisOptions_def)

lemma option_frame [simp]:
  "kafkaOptions (p\<lparr>HandlerTimeout := a\<rparr>) = kafkaOptions p" "redisOptions (p\<lparr>HandlerTimeout := a\<rparr>) = redisOptions p"
  "kafkaOptions (p\<lparr>BatchSize := b\<rparr>) = kafkaOptions p" "redisOptions (p\<lparr>BatchSize := b\<rparr>) = redisOptions p"
  "kafkaOptions (p\<lparr>Concurrency := b\<rparr>) = kafkaOptions p" "redisOptions (p\<lparr>Concurrency := b\<rparr>) = redisOptions p"
  "kafkaOptions (p\<lparr>Backoff := c\<rparr>) = kafkaOptions p" "redisOptions (p\<lparr>Backoff := c\<rparr>) = redisOptions p"
  by (simp_all add: kafkaOptions_def redisOptions_def)

lemma apply_option_ok: "options_ok p \<Longrightarrow> apply_option q p = Some p' \<Longrightarrow> options_ok p'"
  by (cases q) (auto simp: options_ok_def positive_def split: if_splits)

lemma resolve_options_ok: "options_ok p \<Longrightarrow> resolve_options xs p = Some p' \<Longrightarrow> options_ok p'"
  by (induction xs arbitrary: p) (auto split: option.splits dest: apply_option_ok)

text \<open>Resolved options are in range; a nil option and an option out of range are refused, wherever they stand.\<close>

lemma resolved_in_range: "ResolveSubscribeOptions xs = Some p \<Longrightarrow> options_ok p \<and> None \<notin> set xs"
proof -
  assume r: "ResolveSubscribeOptions xs = Some p"
  have "options_ok no_options" by (simp add: options_ok_def no_options_def kafkaOptions_def redisOptions_def positive_def)
  moreover have "None \<notin> set ys" if "resolve_options ys q = Some p" for ys q using that by (induction ys arbitrary: q) (auto split: option.splits)
  ultimately show ?thesis using r resolve_options_ok unfolding ResolveSubscribeOptions_def by blast
qed

text \<open>Options are applied in order, so a list may be split anywhere, and the last setting of a field wins.\<close>

lemma resolve_options_append:
  "resolve_options (xs @ ys) p = (case resolve_options xs p of None \<Rightarrow> None | Some p' \<Rightarrow> resolve_options ys p')"
  by (induction xs arbitrary: p) (auto split: option.splits)

lemma last_batch_size_wins:
  assumes "resolve_options xs p = Some p'" and "0 < n"
  shows "map_option BatchSize (resolve_options (xs @ [Some (WithBatchSize n)]) p) = Some (Some n)"
  using assms by (simp add: resolve_options_append)

section \<open>Batches of subscriptions\<close>

text \<open>
  \<open>consume c s\<close> is the subscriber's \<open>Consume\<close>: it returns a new subscription or an error, and the client's
  state after it; \<open>stop\<close> is \<open>Subscription.Stop\<close>. The stops of one batch run concurrently and the batch waits for
  all of them; they are applied in order.
\<close>

fun stop_all :: "('sub \<Rightarrow> 's \<Rightarrow> 'e option \<times> 's) \<Rightarrow> 'sub list \<Rightarrow> 's \<Rightarrow> 'e list \<times> 's" where
  "stop_all stop [] s = ([], s)"
| "stop_all stop (x # xs) s =
     (case stop x s of (e, s1) \<Rightarrow> case stop_all stop xs s1 of (es, s2) \<Rightarrow> ((case e of None \<Rightarrow> es | Some e1 \<Rightarrow> e1 # es), s2))"

fun consume_loop ::
  "('c \<Rightarrow> 's \<Rightarrow> ('e + 'sub) \<times> 's) \<Rightarrow> ('sub \<Rightarrow> 's \<Rightarrow> 'e option \<times> 's) \<Rightarrow> 'c list \<Rightarrow> 'sub list \<Rightarrow> 's \<Rightarrow> ('e list + 'sub list) \<times> 's" where
  "consume_loop consume stop [] got s = (Inr got, s)"
| "consume_loop consume stop (c # cs) got s =
     (case consume c s of
        (Inl e, s1) \<Rightarrow> (case stop_all stop got s1 of (es, s2) \<Rightarrow> (Inl (e # es), s2))
      | (Inr x, s1) \<Rightarrow> consume_loop consume stop cs (got @ [x]) s1)"

definition ConsumeAll ::
  "bool \<Rightarrow> 'e \<Rightarrow> ('c \<Rightarrow> 's \<Rightarrow> ('e + 'sub) \<times> 's) \<Rightarrow> ('sub \<Rightarrow> 's \<Rightarrow> 'e option \<times> 's) \<Rightarrow> 'c list \<Rightarrow> 's \<Rightarrow> ('e list + 'sub list) \<times> 's" where
  "ConsumeAll subscriber invalid consume stop cs s =
     (if \<not> subscriber then (Inl [invalid], s) else consume_loop consume stop cs [] s)"

text \<open>
  What a subscriber promises: \<open>alive s\<close> are the running subscriptions; a successful \<open>Consume\<close> adds one, a failed
  one adds none, and \<open>Stop\<close> ends its subscription (whatever it returns).
\<close>

locale subscriber =
  fixes ok :: "'s \<Rightarrow> bool"
    and alive :: "'s \<Rightarrow> 'sub set"
    and consume :: "'c \<Rightarrow> 's \<Rightarrow> ('e + 'sub) \<times> 's"
    and stop :: "'sub \<Rightarrow> 's \<Rightarrow> 'e option \<times> 's"
  assumes consume_ok: "ok s \<Longrightarrow> consume c s = (Inr x, s') \<Longrightarrow> alive s' = insert x (alive s) \<and> x \<notin> alive s \<and> ok s'"
    and consume_err: "ok s \<Longrightarrow> consume c s = (Inl e, s') \<Longrightarrow> alive s' = alive s \<and> ok s'"
    and stop_ends: "ok s \<Longrightarrow> alive (snd (stop x s)) = alive s - {x} \<and> ok (snd (stop x s))"
begin

lemma stop_all_ends: "ok s \<Longrightarrow> alive (snd (stop_all stop xs s)) = alive s - set xs \<and> ok (snd (stop_all stop xs s))"
proof (induction xs arbitrary: s)
  case (Cons x xs)
  have "snd (stop_all stop (x # xs) s) = snd (stop_all stop xs (snd (stop x s)))" by (simp split: prod.splits)
  then show ?case using Cons.IH [of "snd (stop x s)"] stop_ends [OF Cons.prems, of x] by auto
qed simp

lemma consume_loop_all:
  assumes "ok s" and "consume_loop consume stop cs got s = (res, s')" and "set got \<inter> A = {}" and "alive s = A \<union> set got"
  shows "ok s' \<and> (\<forall>es. res = Inl es \<longrightarrow> es \<noteq> [] \<and> alive s' = A)
     \<and> (\<forall>ys. res = Inr ys \<longrightarrow> alive s' = A \<union> set ys \<and> set ys \<inter> A = {} \<and> length ys = length got + length cs)"
  using assms
proof (induction cs arbitrary: got s)
  case (Cons c cs)
  show ?case
  proof (cases "consume c s")
    case (Pair r s1)
    show ?thesis
    proof (cases r)
      case (Inl e)
      then have "alive s1 = A \<union> set got \<and> ok s1" using consume_err [OF Cons.prems(1)] Pair Cons.prems(4) by blast
      then have "alive (snd (stop_all stop got s1)) = A \<and> ok (snd (stop_all stop got s1))" using stop_all_ends [of s1 got] Cons.prems(3) by auto
      then show ?thesis using Cons.prems(2) Pair Inl by (auto split: prod.splits)
    next
      case (Inr x)
      then have a: "alive s1 = insert x (alive s)" "x \<notin> alive s" "ok s1" using consume_ok [OF Cons.prems(1)] Pair by blast+
      show ?thesis using Cons.IH [of s1 "got @ [x]"] Cons.prems Pair Inr a by auto
    qed
  qed
qed auto

text \<open>All or nothing: an error leaves exactly the subscriptions that ran before.\<close>

lemma all_or_nothing:
  assumes "ok s" and "ConsumeAll True invalid consume stop cs s = (res, s')"
  shows "ok s' \<and> (\<forall>es. res = Inl es \<longrightarrow> es \<noteq> [] \<and> alive s' = alive s)
     \<and> (\<forall>ys. res = Inr ys \<longrightarrow> alive s' = alive s \<union> set ys \<and> set ys \<inter> alive s = {} \<and> length ys = length cs)"
  using consume_loop_all [of s cs "[]" res s' "alive s"] assms by (simp add: ConsumeAll_def)

end

section \<open>The shared life cycle as a subscriber\<close>

text \<open>
  \<open>Consume\<close> as the clients build it on the life cycle: validate, begin, create the subscription, track it, end the
  operation; a subscription that cannot be tracked is aborted. \<open>Stop\<close> returns when the subscription has ended.
\<close>

record Consumption =
  Topic :: string
  Group :: string
  Handler :: bool

definition life_consume :: "Consumption \<Rightarrow> Lifecycle \<Rightarrow> (mq_error + nat) \<times> Lifecycle" where
  "life_consume c l =
     (case ValidateSubscribe (Some None) (Topic c) (Group c) (Handler c) of
        Some e \<Rightarrow> (Inl e, l)
      | None \<Rightarrow>
          (case Begin l of
             (False, l1) \<Rightarrow> (Inl ErrClosed, l1)
           | (True, l1) \<Rightarrow>
               (case NewSubscription l1 of (i, l2) \<Rightarrow>
                case Track i l2 of
                  (False, l3) \<Rightarrow> (Inl ErrClosed, End (Abort ErrClosed i l3))
                | (True, l3) \<Rightarrow> (Inr i, End l3))))"

definition life_stop :: "nat \<Rightarrow> Lifecycle \<Rightarrow> mq_error option \<times> Lifecycle" where
  "life_stop i l = (None, Finish i (snd (Stop_begin True i l)))"

definition life_alive :: "Lifecycle \<Rightarrow> nat set" where
  "life_alive l = {i \<in> set (subscriptions l). i < next_sub l \<and> \<not> sub_done (subs l i)}"

interpretation life: subscriber "\<lambda>_. True" life_alive life_consume life_stop
proof
  show "life_alive s' = insert x (life_alive s) \<and> x \<notin> life_alive s \<and> True" if "life_consume c s = (Inr x, s')" for c s x s'
    using that by (auto simp: life_consume_def life_alive_def Begin_def NewSubscription_def Track_def End_def split: option.splits if_splits)
  show "life_alive s' = life_alive s \<and> True" if "life_consume c s = (Inl e, s')" for c s e s'
    using that by (auto simp: life_consume_def life_alive_def Begin_def NewSubscription_def Track_def End_def split: option.splits if_splits)
  show "life_alive (snd (life_stop x s)) = life_alive s - {x} \<and> True" for x s
    by (auto simp: life_stop_def life_alive_def Stop_begin_def Finish_def untrack_def Abort_def abort_def stopPoll_def upd_sub_def)
qed

text \<open>A batch on the shared life cycle is all or nothing.\<close>

lemma consume_all_or_nothing:
  assumes "ConsumeAll True ErrInvalidArgument life_consume life_stop cs l = (res, l')"
  shows "(\<forall>es. res = Inl es \<longrightarrow> es \<noteq> [] \<and> life_alive l' = life_alive l)
     \<and> (\<forall>ys. res = Inr ys \<longrightarrow> life_alive l' = life_alive l \<union> set ys \<and> length ys = length cs)"
  using life.all_or_nothing [OF TrueI assms] by blast

end
