(* ===== verification/Kc_Redis_Config.thy ===== *)
theory Kc_Redis_Config
  imports Kc_Mq
begin

text \<open>
  Configuration and naming of the Redis stream client, \<open>src/pkg/infra/redis_stream.go\<close>: defaults,
  validation, the configuration of a subscription, stream keys, start IDs, and the fields of a message.
  Strings are byte strings; \<open>validateRedisConfig\<close>, which checks the connection settings, is an argument.
\<close>

section \<open>Configuration\<close>

text \<open>\<open>RedisStreamConfig\<close> and \<open>redisStreamRuntimeConfig\<close> have the same fields; the logger is left out.\<close>

record streamConfig =
  keyPrefix :: string
  batchSize :: int64
  queueDepth :: int64
  concurrency :: int64
  ackBatchSize :: int64
  ackFlushInterval :: duration
  reclaimMaxBatches :: int64
  maxDeliveryAttempts :: int64
  consumerID :: string
  groupStartID :: string
  readBlock :: duration
  handlerTimeout :: duration
  pendingIdleTimeout :: duration
  redeliverInterval :: duration
  retryBackoff :: duration
  retryMaxBackoff :: duration
  consumerCleanupInterval :: duration
  consumerCleanupIdleTimeout :: duration
  maxLen :: int64

definition redisStreamMaxBatchSize :: int64 where "redisStreamMaxBatchSize = 10000"
definition redisStreamMaxQueueDepth :: int64 where "redisStreamMaxQueueDepth = 10000"
definition redisStreamMaxConcurrency :: int64 where "redisStreamMaxConcurrency = 10000"
definition redisStreamMaxAckBatchSize :: int64 where "redisStreamMaxAckBatchSize = 10000"
definition redisStreamMaxReclaimBatches :: int64 where "redisStreamMaxReclaimBatches = 10000"
definition redisStreamMaxDeliveryAttempts :: int64 where "redisStreamMaxDeliveryAttempts = 10000"

lemmas stream_limits = redisStreamMaxBatchSize_def redisStreamMaxQueueDepth_def redisStreamMaxConcurrency_def redisStreamMaxAckBatchSize_def
  redisStreamMaxReclaimBatches_def redisStreamMaxDeliveryAttempts_def

definition dflt :: "'a \<Rightarrow> 'a \<Rightarrow> 'a \<Rightarrow> 'a" where
  "dflt zero d x = (if x = zero then d else x)"

definition redisStreamRuntimeConfigFrom :: "streamConfig \<Rightarrow> streamConfig" where
  "redisStreamRuntimeConfigFrom c =
     \<lparr>keyPrefix = dflt [] ''kc:mq'' (keyPrefix c),
      batchSize = dflt 0 64 (batchSize c),
      queueDepth = dflt 0 64 (queueDepth c),
      concurrency = dflt 0 10 (concurrency c),
      ackBatchSize = dflt 0 64 (ackBatchSize c),
      ackFlushInterval = dflt 0 (2 * millisecond) (ackFlushInterval c),
      reclaimMaxBatches = dflt 0 4 (reclaimMaxBatches c),
      maxDeliveryAttempts = dflt 0 5 (maxDeliveryAttempts c),
      consumerID = consumerID c,
      groupStartID = dflt [] ''$'' (groupStartID c),
      readBlock = dflt 0 second (readBlock c),
      handlerTimeout = dflt 0 (30 * second) (handlerTimeout c),
      pendingIdleTimeout = dflt 0 minute (pendingIdleTimeout c),
      redeliverInterval = dflt 0 (15 * second) (redeliverInterval c),
      retryBackoff = dflt 0 second (retryBackoff c),
      retryMaxBackoff = dflt 0 (30 * second) (retryMaxBackoff c),
      consumerCleanupInterval = dflt 0 hour (consumerCleanupInterval c),
      consumerCleanupIdleTimeout = dflt 0 (24 * hour) (consumerCleanupIdleTimeout c),
      maxLen = maxLen c\<rparr>"

text \<open>\<open>strconv.ParseUint(s, 10, 64)\<close> succeeds: digits only (no sign, no underscore), at most \<open>2^64 - 1\<close>.\<close>

definition decimal :: "char \<Rightarrow> bool" where
  "decimal c \<longleftrightarrow> 48 \<le> byte c \<and> byte c \<le> 57"

definition digits_value :: "string \<Rightarrow> nat" where
  "digits_value s = foldl (\<lambda>n c. n * 10 + (byte c - 48)) 0 s"

definition parse_uint :: "string \<Rightarrow> bool" where
  "parse_uint s \<longleftrightarrow> s \<noteq> [] \<and> list_all decimal s \<and> digits_value s < 2 ^ 64"

text \<open>\<open>strings.Split(s, "-")\<close>.\<close>

fun split_dash :: "string \<Rightarrow> string list" where
  "split_dash [] = [[]]"
| "split_dash (c # cs) = (if c = CHR ''-'' then [] # split_dash cs else (case split_dash cs of [] \<Rightarrow> [[c]] | w # ws \<Rightarrow> (c # w) # ws))"

definition validRedisStreamStartID :: "string \<Rightarrow> bool" where
  "validRedisStreamStartID value =
     (if value = ''$'' then True
      else let parts = split_dash value in
        if length parts < 1 \<or> length parts > 2 \<or> hd parts = [] then False
        else if \<not> parse_uint (hd parts) then False
        else if length parts = 2 then (if parts ! 1 = [] then False else parse_uint (parts ! 1))
        else True)"

definition out_of_range :: "int64 \<Rightarrow> int64 \<Rightarrow> bool" where
  "out_of_range limit x \<longleftrightarrow> x < 0 \<or> x > limit"

text \<open>\<open>validateRedisStreamConfig\<close>: \<open>config\<close> is the section, if there is one; \<open>redis_ok\<close> the result of the last two checks.\<close>

definition validateRedisStreamConfig :: "streamConfig option \<Rightarrow> bool \<Rightarrow> bool" where
  "validateRedisStreamConfig config redis_ok =
     (case config of
        None \<Rightarrow> False
      | Some c \<Rightarrow>
          (let r = redisStreamRuntimeConfigFrom c in
           \<not> out_of_range redisStreamMaxBatchSize (batchSize c)
           \<and> \<not> out_of_range redisStreamMaxQueueDepth (queueDepth c)
           \<and> \<not> out_of_range redisStreamMaxConcurrency (concurrency c)
           \<and> \<not> out_of_range redisStreamMaxAckBatchSize (ackBatchSize c)
           \<and> \<not> out_of_range redisStreamMaxReclaimBatches (reclaimMaxBatches c)
           \<and> \<not> out_of_range redisStreamMaxDeliveryAttempts (maxDeliveryAttempts c)
           \<and> \<not> maxLen c < 0
           \<and> \<not> (readBlock c < 0 \<or> handlerTimeout c < 0 \<or> pendingIdleTimeout c < 0 \<or> redeliverInterval c < 0
               \<or> ackFlushInterval c < 0 \<or> consumerCleanupInterval c < 0 \<or> consumerCleanupIdleTimeout c < 0)
           \<and> \<not> (retryBackoff c < 0 \<or> retryMaxBackoff c < 0)
           \<and> list_all (\<lambda>x. x \<noteq> CHR 0x0D \<and> x \<noteq> CHR 0x0A \<and> x \<noteq> CHR 0x09) (keyPrefix c)
           \<and> \<not> (keyPrefix c \<noteq> [] \<and> TrimSpace (keyPrefix c) \<noteq> keyPrefix c)
           \<and> \<not> (consumerID c \<noteq> [] \<and> TrimSpace (consumerID c) \<noteq> consumerID c)
           \<and> TrimSpace (keyPrefix r) \<noteq> []
           \<and> \<not> (TrimSpace (groupStartID r) = [] \<or> TrimSpace (groupStartID r) \<noteq> groupStartID r)
           \<and> validRedisStreamStartID (groupStartID r)
           \<and> \<not> retryMaxBackoff r < retryBackoff r
           \<and> \<not> pendingIdleTimeout r < handlerTimeout r
           \<and> redis_ok))"

definition override :: "'a option \<Rightarrow> 'a \<Rightarrow> 'a" where
  "override x d = (case x of None \<Rightarrow> d | Some v \<Rightarrow> v)"

text \<open>The options of one subscription over the configuration of the client.\<close>

definition apply_subscribe :: "SubscribeOptions \<Rightarrow> streamConfig \<Rightarrow> streamConfig" where
  "apply_subscribe p c =
     (let c1 = c\<lparr>batchSize := override (BatchSize p) (batchSize c), handlerTimeout := override (HandlerTimeout p) (handlerTimeout c),
                 concurrency := override (Concurrency p) (concurrency c),
                 retryBackoff := override (map_option Min (Backoff p)) (retryBackoff c),
                 retryMaxBackoff := override (map_option Max (Backoff p)) (retryMaxBackoff c)\<rparr> in
      case RedisStream p of
        None \<Rightarrow> c1
      | Some r \<Rightarrow>
          c1\<lparr>queueDepth := override (QueueDepth r) (queueDepth c), pendingIdleTimeout := override (PendingIdleTimeout r) (pendingIdleTimeout c),
             redeliverInterval := override (RedeliverInterval r) (redeliverInterval c), ackBatchSize := override (AckBatchSize r) (ackBatchSize c),
             ackFlushInterval := override (AckFlushInterval r) (ackFlushInterval c),
             reclaimMaxBatches := override (ReclaimMaxBatches r) (reclaimMaxBatches c),
             maxDeliveryAttempts := override (MaxDeliveryAttempts r) (maxDeliveryAttempts c)\<rparr>)"

definition subscriptionConfig :: "SubscribeOption option list \<Rightarrow> streamConfig \<Rightarrow> streamConfig option" where
  "subscriptionConfig xs base =
     (case ResolveSubscribeOptions xs of
        None \<Rightarrow> None
      | Some p \<Rightarrow>
          if Kafka p \<noteq> None then None
          else
            (let c = apply_subscribe p base in
             if batchSize c > redisStreamMaxBatchSize \<or> queueDepth c > redisStreamMaxQueueDepth \<or> concurrency c > redisStreamMaxConcurrency
                \<or> ackBatchSize c > redisStreamMaxAckBatchSize \<or> reclaimMaxBatches c > redisStreamMaxReclaimBatches
                \<or> maxDeliveryAttempts c > redisStreamMaxDeliveryAttempts \<or> pendingIdleTimeout c < handlerTimeout c
             then None else Some c))"

text \<open>What the consumption loops rely on.\<close>

definition stream_ok :: "streamConfig \<Rightarrow> bool" where
  "stream_ok c \<longleftrightarrow>
     0 < batchSize c \<and> batchSize c \<le> 10000 \<and> 0 < queueDepth c \<and> queueDepth c \<le> 10000 \<and> 0 < concurrency c \<and> concurrency c \<le> 10000
     \<and> 0 < ackBatchSize c \<and> ackBatchSize c \<le> 10000 \<and> 0 < reclaimMaxBatches c \<and> reclaimMaxBatches c \<le> 10000
     \<and> 0 < maxDeliveryAttempts c \<and> maxDeliveryAttempts c \<le> 10000 \<and> 0 < handlerTimeout c \<and> handlerTimeout c \<le> pendingIdleTimeout c
     \<and> 0 < ackFlushInterval c \<and> 0 < redeliverInterval c \<and> 0 < retryBackoff c \<and> retryBackoff c \<le> retryMaxBackoff c"

lemma runtime_config_ok:
  assumes "validateRedisStreamConfig (Some c) True"
  shows "stream_ok (redisStreamRuntimeConfigFrom c)"
  using assms by (auto simp: validateRedisStreamConfig_def Let_def out_of_range_def stream_limits stream_ok_def redisStreamRuntimeConfigFrom_def dflt_def
    millisecond_def second_def minute_def hour_def split: if_splits)

lemma override_pos: "positive x \<Longrightarrow> 0 < d \<Longrightarrow> 0 < override x d"
  by (cases x) (simp_all add: override_def positive_def)

text \<open>Every accepted subscription keeps these bounds, whatever options override the validated configuration.\<close>

lemma subscription_config_ok:
  assumes "stream_ok base" and "subscriptionConfig xs base = Some c"
  shows "stream_ok c"
proof -
  obtain p where p: "ResolveSubscribeOptions xs = Some p" "c = apply_subscribe p base"
    and lim: "batchSize c \<le> 10000" "queueDepth c \<le> 10000" "concurrency c \<le> 10000" "ackBatchSize c \<le> 10000" "reclaimMaxBatches c \<le> 10000"
      "maxDeliveryAttempts c \<le> 10000" "handlerTimeout c \<le> pendingIdleTimeout c"
    using assms(2) by (auto simp: subscriptionConfig_def Let_def stream_limits not_less split: option.splits if_splits)
  have o: "options_ok p" using resolved_in_range [OF p(1)] by simp
  have r: "redisOptions p = r" if "RedisStream p = Some r" for r using that by (simp add: redisOptions_def)
  have b: "0 < retryBackoff c \<and> retryBackoff c \<le> retryMaxBackoff c"
    using o assms(1) p(2) by (cases "Backoff p"; cases "RedisStream p") (auto simp: options_ok_def apply_subscribe_def Let_def override_def stream_ok_def)
  have pos: "0 < batchSize c" "0 < handlerTimeout c" "0 < concurrency c"
    using o assms(1) p(2) by (cases "RedisStream p"; auto simp: options_ok_def apply_subscribe_def Let_def stream_ok_def intro: override_pos)+
  have rs: "0 < queueDepth c" "0 < ackBatchSize c" "0 < reclaimMaxBatches c" "0 < maxDeliveryAttempts c" "0 < ackFlushInterval c" "0 < redeliverInterval c"
    using o assms(1) p(2) r by (cases "RedisStream p"; auto simp: options_ok_def apply_subscribe_def Let_def stream_ok_def intro!: override_pos)+
  show ?thesis using lim b pos rs by (simp add: stream_ok_def)
qed

section \<open>Stream keys\<close>

text \<open>\<open>base64.RawURLEncoding\<close>: groups of three bytes, no padding.\<close>

definition url64 :: "nat \<Rightarrow> char" where
  "url64 n =
     (if n < 26 then char_of (65 + n) else if n < 52 then char_of (71 + n) else if n < 62 then char_of (n - 4)
      else if n = 62 then CHR ''-'' else CHR ''_'')"

fun base64 :: "string \<Rightarrow> string" where
  "base64 [] = []"
| "base64 [a] = [url64 (byte a div 4), url64 (byte a mod 4 * 16)]"
| "base64 [a, b] = [url64 (byte a div 4), url64 (byte a mod 4 * 16 + byte b div 16), url64 (byte b mod 16 * 4)]"
| "base64 (a # b # c # s) =
     url64 (byte a div 4) # url64 (byte a mod 4 * 16 + byte b div 16) # url64 (byte b mod 16 * 4 + byte c div 64) # url64 (byte c mod 64) # base64 s"

definition redisStreamKeyToken :: "string \<Rightarrow> string" where
  "redisStreamKeyToken value = base64 value"

definition streamKey :: "streamConfig \<Rightarrow> string \<Rightarrow> string" where
  "streamKey c topic = keyPrefix c @ '':stream:'' @ redisStreamKeyToken topic"

end
