(* ===== verification/Kc_Redis_Message.thy ===== *)
theory Kc_Redis_Message
  imports Kc_Redis_Config
begin

text \<open>
  The fields of a message in a Redis stream and the dead-letter copy of a failed message,
  \<open>src/pkg/infra/redis_stream.go\<close>. \<open>encoding/json\<close> for the header map is an argument. A byte slice that
  may be nil is a \<open>string option\<close>; an instant is the number of nanoseconds since the Unix epoch.
\<close>

section \<open>Decimal numbers\<close>

text \<open>\<open>strconv.FormatInt(n, 10)\<close> and \<open>strconv.ParseInt(s, 10, 64)\<close>.\<close>

fun digits :: "nat \<Rightarrow> string" where
  "digits n = (if n < 10 then [char_of (48 + n)] else digits (n div 10) @ [char_of (48 + n mod 10)])"

declare digits.simps [simp del]

definition FormatInt :: "int64 \<Rightarrow> string" where
  "FormatInt n = (if n < 0 then CHR ''-'' # digits (nat (- n)) else digits (nat n))"

definition ParseInt :: "string \<Rightarrow> int64 option" where
  "ParseInt s =
     (let neg = (s \<noteq> [] \<and> hd s = CHR ''-''); body = (if s \<noteq> [] \<and> (hd s = CHR ''-'' \<or> hd s = CHR ''+'') then tl s else s);
          n = (if neg then - int (digits_value body) else int (digits_value body)) in
      if body \<noteq> [] \<and> list_all decimal body \<and> in_i64 n then Some n else None)"

lemma byte_digit: "k < 10 \<Longrightarrow> byte (char_of (48 + k)) = 48 + k"
  by (simp add: byte_def)

lemma digits_value_snoc: "digits_value (s @ [c]) = digits_value s * 10 + (byte c - 48)"
  by (simp add: digits_value_def)

lemma digits_sound: "digits n \<noteq> [] \<and> list_all decimal (digits n) \<and> digits_value (digits n) = n"
proof (induction n rule: digits.induct)
  case (1 n)
  show ?case
  proof (cases "n < 10")
    case True
    then show ?thesis by (subst (1 2 3) digits.simps) (simp add: decimal_def digits_value_def byte_digit)
  next
    case False
    have "digits n = digits (n div 10) @ [char_of (48 + n mod 10)]" using False by (subst digits.simps) simp
    moreover have "byte (char_of (48 + n mod 10)) = 48 + n mod 10" by (rule byte_digit) simp
    ultimately show ?thesis using 1 [OF False] by (simp add: digits_value_snoc decimal_def)
  qed
qed

lemma decimal_no_sign: "decimal c \<Longrightarrow> c \<noteq> CHR ''-'' \<and> c \<noteq> CHR ''+''"
  by (auto simp: decimal_def byte_def)

lemma ParseInt_FormatInt: "in_i64 n \<Longrightarrow> ParseInt (FormatInt n) = Some n"
proof -
  assume r: "in_i64 n"
  have d: "digits k \<noteq> []" "list_all decimal (digits k)" "digits_value (digits k) = k" for k using digits_sound [of k] by blast+
  have h: "hd (digits k) \<noteq> CHR ''-'' \<and> hd (digits k) \<noteq> CHR ''+''" for k
    using d(1,2) [of k] decimal_no_sign by (cases "digits k") auto
  show ?thesis using r d h by (simp add: ParseInt_def FormatInt_def Let_def)
qed

section \<open>Messages\<close>

type_synonym instant = int
type_synonym headers = "string \<rightharpoonup> string option"

text \<open>The zero \<open>time.Time\<close>: the first of January of year 1.\<close>

definition zero_time :: instant where
  "zero_time = - 62135596800 * second"

record Message =
  ID :: string
  Key :: "string option"
  Body :: "string option"
  Headers :: "headers option"
  Timestamp :: instant

text \<open>The dynamic type of a field of \<open>redis.XMessage\<close>.\<close>

datatype field = FString string | FBytes "string option" | FOther

datatype record_error = PayloadMissing | FieldMissing string | FieldType string | BadVersion string | BadHeaders | BadTimestamp

definition bytes_of :: "string option \<Rightarrow> string" where
  "bytes_of b = (case b of None \<Rightarrow> [] | Some s \<Rightarrow> s)"

definition marshalRedisStreamMessage :: "(headers option \<Rightarrow> string option) \<Rightarrow> Message \<Rightarrow> (string \<times> field) list option" where
  "marshalRedisStreamMessage json m =
     (case json (Headers m) of
        None \<Rightarrow> None
      | Some h \<Rightarrow>
          (let timestamp = (if Timestamp m \<noteq> zero_time then i64 (Timestamp m) else 0) in
           Some [(''v'', FString ''1''), (''key'', FBytes (Key m)), (''body'', FBytes (Body m)), (''headers'', FBytes (Some h)),
                 (''timestamp'', FString (FormatInt timestamp))]))"

definition redisStreamValueBytes :: "(string \<times> field) list \<Rightarrow> string \<Rightarrow> record_error + string option" where
  "redisStreamValueBytes vs key =
     (case map_of vs key of
        None \<Rightarrow> Inl (FieldMissing key)
      | Some (FString s) \<Rightarrow> Inr (Some s)
      | Some (FBytes b) \<Rightarrow> Inr b
      | Some FOther \<Rightarrow> Inl (FieldType key))"

text \<open>\<open>strings.SplitN(id, "-", 2)\<close> has two parts: the milliseconds before the dash, if they are a number.\<close>

definition id_millis :: "string \<Rightarrow> int64 option" where
  "id_millis i = (if CHR ''-'' \<in> set i then ParseInt (takeWhile (\<lambda>c. c \<noteq> CHR ''-'') i) else None)"

definition redisStreamTimestampFromID :: "string \<Rightarrow> instant" where
  "redisStreamTimestampFromID i = (case id_millis i of None \<Rightarrow> zero_time | Some ms \<Rightarrow> ms * millisecond)"

definition decode_headers :: "(string \<Rightarrow> headers option option) \<Rightarrow> string \<Rightarrow> headers option option" where
  "decode_headers unjson headerData = (if headerData \<noteq> [] \<and> headerData \<noteq> ''null'' then unjson headerData else Some (Some Map.empty))"

definition messageFromRedisStreamRecord ::
  "(string \<Rightarrow> headers option option) \<Rightarrow> string \<Rightarrow> (string \<times> field) list \<Rightarrow> record_error + Message" where
  "messageFromRedisStreamRecord unjson i vs =
     (if vs = [] then Inl PayloadMissing
      else case redisStreamValueBytes vs ''v'' of
        Inl e \<Rightarrow> Inl e
      | Inr version \<Rightarrow>
      if bytes_of version \<noteq> ''1'' then Inl (BadVersion (bytes_of version))
      else case redisStreamValueBytes vs ''key'' of
        Inl e \<Rightarrow> Inl e
      | Inr key \<Rightarrow>
      case redisStreamValueBytes vs ''body'' of
        Inl e \<Rightarrow> Inl e
      | Inr body \<Rightarrow>
      case redisStreamValueBytes vs ''headers'' of
        Inl e \<Rightarrow> Inl e
      | Inr headerData \<Rightarrow>
      case decode_headers unjson (bytes_of headerData) of
        None \<Rightarrow> Inl BadHeaders
      | Some headers \<Rightarrow>
      case redisStreamValueBytes vs ''timestamp'' of
        Inl e \<Rightarrow> Inl e
      | Inr timestampData \<Rightarrow>
      case ParseInt (bytes_of timestampData) of
        None \<Rightarrow> Inl BadTimestamp
      | Some nanos \<Rightarrow>
          Inr \<lparr>ID = i, Key = key, Body = body, Headers = headers,
               Timestamp = (if nanos \<noteq> 0 then nanos else redisStreamTimestampFromID i)\<rparr>)"

text \<open>What a stream holds of the fields of an entry: the server keeps byte strings, and the client reads them back as strings.\<close>

fun wire :: "field \<Rightarrow> field" where
  "wire (FString s) = FString s"
| "wire (FBytes b) = FString (bytes_of b)"
| "wire FOther = FOther"

definition stored :: "(string \<times> field) list \<Rightarrow> (string \<times> field) list" where
  "stored vs = map (\<lambda>(k, v). (k, wire v)) vs"

text \<open>\<open>moveRedisStreamMessageToDLQ\<close>: the copy, with where it came from and why it is there.\<close>

definition dlqMessage :: "string \<Rightarrow> string \<Rightarrow> string \<Rightarrow> int64 \<Rightarrow> string \<Rightarrow> string \<Rightarrow> Message \<Rightarrow> Message" where
  "dlqMessage topic grp messageID deliveryCount reason failedAt m =
     m\<lparr>Headers := Some ((case Headers m of None \<Rightarrow> Map.empty | Some h \<Rightarrow> h)
         (''kc.dlq.source_topic'' \<mapsto> Some topic, ''kc.dlq.source_group'' \<mapsto> Some grp, ''kc.dlq.source_message_id'' \<mapsto> Some messageID,
          ''kc.dlq.delivery_count'' \<mapsto> Some (FormatInt deliveryCount), ''kc.dlq.error'' \<mapsto> Some reason, ''kc.dlq.failed_at'' \<mapsto> Some failedAt))\<rparr>"

text \<open>A header map that \<open>encoding/json\<close> gives back: nil is written as null, other maps as objects.\<close>

definition json_ok :: "(headers option \<Rightarrow> string option) \<Rightarrow> (string \<Rightarrow> headers option option) \<Rightarrow> headers option \<Rightarrow> bool" where
  "json_ok json unjson h \<longleftrightarrow>
     (case h of
        None \<Rightarrow> json None = Some ''null''
      | Some _ \<Rightarrow> (case json h of None \<Rightarrow> False | Some s \<Rightarrow> s \<noteq> [] \<and> s \<noteq> ''null'' \<and> unjson s = Some h))"

definition as_received :: "string \<Rightarrow> Message \<Rightarrow> Message" where
  "as_received i m =
     \<lparr>ID = i, Key = Some (bytes_of (Key m)), Body = Some (bytes_of (Body m)), Headers = Some (case Headers m of None \<Rightarrow> Map.empty | Some h \<Rightarrow> h),
      Timestamp = (if Timestamp m = zero_time \<or> Timestamp m = 0 then redisStreamTimestampFromID i else Timestamp m)\<rparr>"

lemma in_i64_0 [simp]: "in_i64 0"
  by (simp add: in_i64_def MinInt64_def MaxInt64_def)

lemma record_decodes:
  assumes "redisStreamValueBytes vs ''v'' = Inr (Some ''1'')" and "redisStreamValueBytes vs ''key'' = Inr key" and "redisStreamValueBytes vs ''body'' = Inr body"
    and "redisStreamValueBytes vs ''headers'' = Inr (Some hs)" and "redisStreamValueBytes vs ''timestamp'' = Inr (Some ts)"
    and "decode_headers unjson hs = Some headers" and "ParseInt ts = Some nanos" and "vs \<noteq> []"
  shows "messageFromRedisStreamRecord unjson i vs =
    Inr \<lparr>ID = i, Key = key, Body = body, Headers = headers, Timestamp = (if nanos \<noteq> 0 then nanos else redisStreamTimestampFromID i)\<rparr>"
  unfolding messageFromRedisStreamRecord_def assms(1-5) using assms(6-8) by (simp add: bytes_of_def)

lemma record_roundtrip:
  assumes "json_ok json unjson (Headers m)" and "Timestamp m = zero_time \<or> in_i64 (Timestamp m)"
  obtains vs where "marshalRedisStreamMessage json m = Some vs" and "messageFromRedisStreamRecord unjson i (stored vs) = Inr (as_received i m)"
proof -
  obtain h where h: "json (Headers m) = Some h"
    and u: "decode_headers unjson h = Some (Some (case Headers m of None \<Rightarrow> Map.empty | Some g \<Rightarrow> g))"
    using assms(1) by (cases "Headers m") (auto simp: json_ok_def decode_headers_def split: option.splits)
  let ?t = "if Timestamp m \<noteq> zero_time then i64 (Timestamp m) else 0"
  have t: "ParseInt (FormatInt ?t) = Some ?t" by (rule ParseInt_FormatInt) simp
  have e: "?t = (if Timestamp m \<noteq> zero_time then Timestamp m else 0)" using assms(2) by (auto simp: i64_id)
  let ?vs = "[(''v'', FString ''1''), (''key'', FBytes (Key m)), (''body'', FBytes (Body m)), (''headers'', FBytes (Some h)), (''timestamp'', FString (FormatInt ?t))]"
  have "marshalRedisStreamMessage json m = Some ?vs" using h by (simp add: marshalRedisStreamMessage_def Let_def)
  moreover have "messageFromRedisStreamRecord unjson i (stored ?vs) = Inr (as_received i m)"
    unfolding as_received_def
    by (subst record_decodes [where hs = h and ts = "FormatInt ?t" and nanos = ?t and key = "Some (bytes_of (Key m))" and body = "Some (bytes_of (Body m))"])
      (use t u e in \<open>auto simp: redisStreamValueBytes_def stored_def bytes_of_def\<close>)
  ultimately show thesis by (rule that)
qed

definition dlq_names :: "string list" where
  "dlq_names = [''kc.dlq.source_topic'', ''kc.dlq.source_group'', ''kc.dlq.source_message_id'', ''kc.dlq.delivery_count'', ''kc.dlq.error'', ''kc.dlq.failed_at'']"

lemma dlq_headers:
  assumes "Headers (dlqMessage topic grp src n reason failedAt m) = Some h"
  shows "map h dlq_names = map (\<lambda>s. Some (Some s)) [topic, grp, src, FormatInt n, reason, failedAt]"
    and "k \<notin> set dlq_names \<Longrightarrow> h k = (case Headers m of None \<Rightarrow> None | Some g \<Rightarrow> g k)"
proof -
  have h: "h = (case Headers m of None \<Rightarrow> Map.empty | Some h \<Rightarrow> h)
         (''kc.dlq.source_topic'' \<mapsto> Some topic, ''kc.dlq.source_group'' \<mapsto> Some grp, ''kc.dlq.source_message_id'' \<mapsto> Some src,
          ''kc.dlq.delivery_count'' \<mapsto> Some (FormatInt n), ''kc.dlq.error'' \<mapsto> Some reason, ''kc.dlq.failed_at'' \<mapsto> Some failedAt)"
    using assms unfolding dlqMessage_def by simp
  show "map h dlq_names = map (\<lambda>s. Some (Some s)) [topic, grp, src, FormatInt n, reason, failedAt]"
    unfolding h dlq_names_def by simp
  show "h k = (case Headers m of None \<Rightarrow> None | Some g \<Rightarrow> g k)" if "k \<notin> set dlq_names"
    using that unfolding h dlq_names_def by (cases "Headers m") simp_all
qed


definition demo_json :: "headers option \<Rightarrow> string option" where
  "demo_json h =
     (case h of
        None \<Rightarrow> Some ''null''
      | Some g \<Rightarrow> if g ''kc.dlq.error'' = None then Some ''a'' else Some ''b'')"

definition demo_headers :: headers where
  "demo_headers = [''trace'' \<mapsto> Some ''t1'']"

definition demo_message :: Message where
  "demo_message = \<lparr>ID = [], Key = None, Body = Some ''hello'', Headers = Some demo_headers, Timestamp = 1700000000000000001\<rparr>"

definition demo_dead :: Message where
  "demo_dead = dlqMessage ''orders'' ''g'' ''5-0'' 3 ''handler panic'' ''2024'' demo_message"

definition demo_unjson :: "string \<Rightarrow> headers option option" where
  "demo_unjson s = (if s = ''a'' then Some (Some demo_headers) else if s = ''b'' then Some (Headers demo_dead) else None)"


end
