(* ===== verification/Kc_Kafka_Group.thy ===== *)
theory Kc_Kafka_Group
  imports Kc_Mqruntime
begin

text \<open>
  The consumer group side of \<open>src/pkg/infra/kafka.go\<close>: \<open>kafkaGroupRunner\<close> with one serial worker per assigned
  partition, for any number of subscriptions, clients and rebalances.

  A partition is a number, and so are workers, runners (one per Kafka client) and subscriptions. The broker and the client are given by their
  documented behaviour: records have increasing offsets, and the broker may delete them from the start of the log; a newly assigned partition is fetched from the
  committed offset on, in order, unless it is paused; when nothing has been committed for it, or when the broker has deleted the records at its position, the client
  looks up the position that \<open>ConsumeStartOffset\<close> and \<open>ConsumeResetOffset\<close> name, the start or the end of the log at that time; \<open>MarkCommitRecords\<close> raises the mark to the offset after the
  record; a commit stores marks and is accepted from every member of the current generation, for some of the partitions or all;
  \<open>BlockRebalanceOnPoll\<close> keeps assignment callbacks and the time from \<open>PollRecords\<close> to \<open>AllowRebalance\<close> apart; marks
  of a partition are dropped after its callback; a member that was thrown out learns this by \<open>OnPartitionsLost\<close> before
  it joins again. Topics are not compacted and not truncated at the end.
\<close>

section \<open>Processing one record\<close>

datatype handler_result = Nil_error | Error | Panic

text \<open>\<open>handleKafkaMessage\<close>: whether the context is valid before and after the handler, and what the handler did.\<close>

definition handleKafkaMessage :: "bool \<Rightarrow> handler_result \<Rightarrow> bool \<Rightarrow> bool" where
  "handleKafkaMessage before h after = (if \<not> before then False else case h of Panic \<Rightarrow> False | Error \<Rightarrow> False | Nil_error \<Rightarrow> after)"

text \<open>An attempt: the result, whether the context of the worker has ended, whether the wait before the next one was not interrupted.\<close>

record attempt =
  succeeded :: bool
  ctx_done :: bool
  waited :: bool

datatype handling = Succeeded | Stopped | Exhausted

fun handler_loop :: "int64 \<Rightarrow> int64 \<Rightarrow> attempt list \<Rightarrow> handling option" where
  "handler_loop maxRetries n [] = None"
| "handler_loop maxRetries n (a # as) =
     (if succeeded a then Some Succeeded
      else if ctx_done a then Some Stopped
      else if n \<ge> maxRetries then Some Exhausted
      else if \<not> waited a then Some Stopped
      else handler_loop maxRetries (n + 1) as)"

fun dlq_loop :: "attempt list \<Rightarrow> bool option" where
  "dlq_loop [] = None"
| "dlq_loop (a # as) = (if succeeded a then Some True else if ctx_done a then Some False else if \<not> waited a then Some False else dlq_loop as)"

text \<open>\<open>process\<close>: the attempts of the handler, then those of writing the dead letter; no result while it is running.\<close>

definition process :: "int64 \<Rightarrow> attempt list \<Rightarrow> attempt list \<Rightarrow> bool option" where
  "process maxRetries hs ds =
     (case handler_loop maxRetries 0 hs of
        None \<Rightarrow> None
      | Some Succeeded \<Rightarrow> Some True
      | Some Stopped \<Rightarrow> Some False
      | Some Exhausted \<Rightarrow> dlq_loop ds)"

section \<open>Workers\<close>

text \<open>Where \<open>runWorker\<close> is: before \<open>next\<close>, with a record before \<open>acquire\<close>, processing, before \<open>complete\<close>, or returned.\<close>

datatype position = Waiting | Has nat | Running nat | Completing nat | Exited

record partition_worker =
  home :: nat \<comment> \<open>the runner\<close>
  partition :: nat
  queue :: "nat list"
  paused :: bool
  revoked :: bool
  stopping :: bool
  cancelled :: bool
  pos :: position

definition newKafkaPartitionWorker :: "nat \<Rightarrow> nat \<Rightarrow> partition_worker" where
  "newKafkaPartitionWorker r k =
     \<lparr>home = r, partition = k, queue = [], paused = False, revoked = False, stopping = False, cancelled = False, pos = Waiting\<rparr>"

text \<open>\<open>enqueue\<close> and \<open>next\<close> return whether they paused or resumed the partition.\<close>

definition worker_enqueue :: "nat list \<Rightarrow> nat \<Rightarrow> partition_worker \<Rightarrow> bool \<times> partition_worker" where
  "worker_enqueue records pauseAt w =
     (if revoked w then (False, w)
      else
        let q = queue w @ records in
        if \<not> paused w \<and> length q \<ge> pauseAt then (True, w\<lparr>queue := q, paused := True\<rparr>) else (False, w\<lparr>queue := q\<rparr>))"

definition worker_next :: "nat \<Rightarrow> partition_worker \<Rightarrow> (nat \<times> bool \<times> partition_worker) option" where
  "worker_next resumeAt w =
     (case queue w of
        [] \<Rightarrow> None
      | x # q \<Rightarrow>
          if paused w \<and> length q \<le> resumeAt then Some (x, True, w\<lparr>queue := q, paused := False, pos := Has x\<rparr>)
          else Some (x, False, w\<lparr>queue := q, pos := Has x\<rparr>))"

definition stop :: "partition_worker \<Rightarrow> partition_worker" where
  "stop w = w\<lparr>stopping := True\<rparr>"

definition markRevoked :: "partition_worker \<Rightarrow> partition_worker" where
  "markRevoked w = w\<lparr>revoked := True, queue := []\<rparr>"

section \<open>Runners and their clients\<close>

text \<open>Where \<open>consume\<close> is: not called yet, between polls, dispatching what a poll returned, or left.\<close>

datatype stage = NotStarted | Between | Polling | Over

record runner =
  current :: "nat \<rightharpoonup> nat" \<comment> \<open>\<open>workers\<close>\<close>
  closed :: bool
  stage :: stage
  fetched :: "(nat \<times> nat list) list"
  giving :: "(nat \<times> nat option) list" \<comment> \<open>partitions whose \<open>revoke\<close> or \<open>lose\<close> is running, with the worker it detached\<close>
  owned :: "nat set" \<comment> \<open>from here on the state of the client\<close>
  client_paused :: "nat set"
  fetch_position :: "nat \<Rightarrow> nat"
  unlocated :: "nat set" \<comment> \<open>partitions whose position is to be looked up\<close>
  marks :: "nat \<rightharpoonup> nat"

definition new_runner :: runner where
  "new_runner =
     \<lparr>current = Map.empty, closed = False, stage = NotStarted, fetched = [], giving = [],
      owned = {}, client_paused = {}, fetch_position = (\<lambda>_. 0), unlocated = {}, marks = Map.empty\<rparr>"

record kafka_config =
  batchSize :: nat
  concurrency :: nat
  maxRetries :: int64
  start_offset :: "nat \<Rightarrow> string" \<comment> \<open>of a subscription, \<open>earliest\<close> or \<open>latest\<close>\<close>
  subscription_of :: "nat \<Rightarrow> nat" \<comment> \<open>the subscription a runner belongs to\<close>

record kafka_sys =
  workers :: "nat \<Rightarrow> partition_worker"
  next_worker :: nat
  runners :: "nat \<Rightarrow> runner"
  slots :: "nat \<Rightarrow> nat" \<comment> \<open>occupied slots of a subscription\<close>
  records :: "nat \<Rightarrow> nat set"
  log_start :: "nat \<Rightarrow> nat" \<comment> \<open>the records below have been deleted\<close>
  log_end :: "nat \<Rightarrow> nat"
  committed :: "nat \<Rightarrow> nat option"
  holder :: "nat \<Rightarrow> nat option" \<comment> \<open>the member a partition is assigned to\<close>
  members :: "nat set"
  handled :: "(nat \<times> nat) set"
  dead :: "(nat \<times> nat) set"
  skipped :: "(nat \<times> nat) set" \<comment> \<open>the records a client has passed over when it looked up a position\<close>

definition on_worker :: "nat \<Rightarrow> partition_worker \<Rightarrow> kafka_sys \<Rightarrow> kafka_sys" where
  "on_worker w x s = s\<lparr>workers := (workers s)(w := x)\<rparr>"

definition on_runner :: "nat \<Rightarrow> runner \<Rightarrow> kafka_sys \<Rightarrow> kafka_sys" where
  "on_runner r x s = s\<lparr>runners := (runners s)(r := x)\<rparr>"

definition PauseFetchPartitions :: "nat set \<Rightarrow> runner \<Rightarrow> runner" where
  "PauseFetchPartitions ks x = x\<lparr>client_paused := client_paused x \<union> ks\<rparr>"

definition ResumeFetchPartitions :: "nat set \<Rightarrow> runner \<Rightarrow> runner" where
  "ResumeFetchPartitions ks x = x\<lparr>client_paused := client_paused x - ks\<rparr>"

definition MarkCommitRecords :: "nat \<Rightarrow> nat \<Rightarrow> runner \<Rightarrow> runner" where
  "MarkCommitRecords k n x =
     x\<lparr>marks := (marks x)(k \<mapsto> (case marks x k of None \<Rightarrow> n + 1 | Some h \<Rightarrow> max h (n + 1)))\<rparr>"

text \<open>Records of a partition from one offset up to another, in order.\<close>

definition fetch :: "kafka_sys \<Rightarrow> nat \<Rightarrow> nat \<Rightarrow> nat \<Rightarrow> nat list" where
  "fetch s k a b = sorted_list_of_set (records s k \<inter> {a..<b})"

text \<open>\<open>dispatch\<close>, for one partition of the fetches.\<close>

definition dispatch_partition :: "nat \<Rightarrow> nat \<Rightarrow> nat \<Rightarrow> nat list \<Rightarrow> kafka_sys \<Rightarrow> kafka_sys" where
  "dispatch_partition batch r k rs s =
     (case current (runners s r) k of
        None \<Rightarrow> s
      | Some w \<Rightarrow>
          (case worker_enqueue rs (2 * batch) (workers s w) of
             (pause, x) \<Rightarrow>
               on_worker w x (if pause then on_runner r (PauseFetchPartitions {k} (runners s r)) s else s)))"

text \<open>\<open>assign\<close>: a worker for every new partition.\<close>

definition assign_partition :: "nat \<Rightarrow> nat \<Rightarrow> kafka_sys \<Rightarrow> kafka_sys" where
  "assign_partition r k s =
     (if current (runners s r) k \<noteq> None then s
      else on_worker (next_worker s) (newKafkaPartitionWorker r k)
        (on_runner r ((runners s r)\<lparr>current := (current (runners s r))(k \<mapsto> next_worker s)\<rparr>) (s\<lparr>next_worker := next_worker s + 1\<rparr>)))"

definition assign :: "nat \<Rightarrow> nat list \<Rightarrow> kafka_sys \<Rightarrow> kafka_sys" where
  "assign r ks s =
     (if closed (runners s r) then s
      else fold (assign_partition r) ks
        (if stage (runners s r) \<noteq> NotStarted then on_runner r (ResumeFetchPartitions (set ks) (runners s r)) s else s))"

text \<open>What the client does before it calls \<open>assign\<close>.\<close>

definition client_assign :: "nat \<Rightarrow> nat list \<Rightarrow> kafka_sys \<Rightarrow> kafka_sys" where
  "client_assign r ks s =
     on_runner r ((runners s r)\<lparr>owned := owned (runners s r) \<union> set ks,
                               fetch_position := (\<lambda>k. if k \<in> set ks then (case committed s k of Some h \<Rightarrow> h | None \<Rightarrow> 0) else fetch_position (runners s r) k),
                               unlocated := unlocated (runners s r) - set ks \<union> {k \<in> set ks. committed s k = None}\<rparr>)
       (s\<lparr>holder := (\<lambda>k. if k \<in> set ks then Some r else holder s k)\<rparr>)"

text \<open>
  \<open>kafkaOffset\<close>: the position a start offset names, with the start and the end of the log. The client looks a position
  up for a partition without committed offset, whose position is 0 until then, and for one whose records have been
  deleted; it never moves back by that.
\<close>

definition kafkaOffset :: "string \<Rightarrow> nat \<Rightarrow> nat \<Rightarrow> nat" where
  "kafkaOffset start lo hi = (if start = ''earliest'' then lo else hi)"

definition look_up :: "string \<Rightarrow> nat \<Rightarrow> nat \<Rightarrow> kafka_sys \<Rightarrow> kafka_sys" where
  "look_up start r k s =
     (let x = runners s r; p = fetch_position x k; q = max p (kafkaOffset start (log_start s k) (log_end s k)) in
      on_runner r (x\<lparr>fetch_position := (fetch_position x)(k := q), unlocated := unlocated x - {k}\<rparr>)
        (s\<lparr>skipped := skipped s \<union> {(k, n) | n. n \<in> records s k \<and> p \<le> n \<and> n < q}\<rparr>))"

text \<open>\<open>revoke\<close> and \<open>lose\<close> up to the wait, for one partition: \<open>detach\<close> and \<open>stop\<close>; \<open>lose\<close> cancels at once.\<close>

definition detach :: "nat \<Rightarrow> nat \<Rightarrow> kafka_sys \<Rightarrow> nat option \<times> kafka_sys" where
  "detach r k s = (current (runners s r) k, on_runner r ((runners s r)\<lparr>current := (current (runners s r))(k := None)\<rparr>) s)"

definition stop_worker :: "bool \<Rightarrow> nat option \<Rightarrow> kafka_sys \<Rightarrow> kafka_sys" where
  "stop_worker lost x s =
     (case x of
        None \<Rightarrow> s
      | Some w \<Rightarrow> on_worker w ((stop (workers s w))\<lparr>cancelled := cancelled (workers s w) \<or> lost\<rparr>) s)"

definition revoke_begin :: "bool \<Rightarrow> nat \<Rightarrow> nat \<Rightarrow> kafka_sys \<Rightarrow> kafka_sys" where
  "revoke_begin lost r k s =
     (case detach r k s of
        (x, s1) \<Rightarrow> stop_worker lost x (on_runner r ((runners s1 r)\<lparr>giving := (k, x) # giving (runners s1 r)\<rparr>) s1))"

text \<open>After the callback: the client gives the partition up and forgets its mark.\<close>

definition give_up :: "nat \<Rightarrow> nat \<Rightarrow> nat option \<Rightarrow> kafka_sys \<Rightarrow> kafka_sys" where
  "give_up r k x s =
     on_runner r ((ResumeFetchPartitions {k} (runners s r))
         \<lparr>giving := removeAll (k, x) (giving (runners s r)), owned := owned (runners s r) - {k}, marks := (marks (runners s r))(k := None)\<rparr>)
       (s\<lparr>holder := (if holder s k = Some r then (holder s)(k := None) else holder s)\<rparr>)"

text \<open>\<open>shutdown\<close> up to the wait.\<close>

definition shutdown_begin :: "nat \<Rightarrow> kafka_sys \<Rightarrow> kafka_sys" where
  "shutdown_begin r s =
     on_runner r ((runners s r)\<lparr>closed := True, current := Map.empty\<rparr>)
       (s\<lparr>workers := (\<lambda>w. if current (runners s r) (partition (workers s w)) = Some w then stop (workers s w) else workers s w)\<rparr>)"

text \<open>\<open>CommitMarkedOffsets\<close> and the automatic commit of the marks of the partitions \<open>K\<close>.\<close>

definition commit :: "nat \<Rightarrow> nat set \<Rightarrow> kafka_sys \<Rightarrow> kafka_sys" where
  "commit r K s =
     s\<lparr>committed := (\<lambda>k. case marks (runners s r) k of Some h \<Rightarrow> if k \<in> K then Some h else committed s k | None \<Rightarrow> committed s k)\<rparr>"

definition complete :: "nat \<Rightarrow> nat \<Rightarrow> kafka_sys \<Rightarrow> kafka_sys" where
  "complete w n s =
     (let x = workers s w; r = home x in
      on_worker w (x\<lparr>pos := Waiting\<rparr>)
        (if \<not> revoked x then on_runner r (MarkCommitRecords (partition x) n (runners s r)) s else s))"

definition take_slot :: "nat \<Rightarrow> kafka_sys \<Rightarrow> kafka_sys" where
  "take_slot c s = s\<lparr>slots := (slots s)(c := slots s c + 1)\<rparr>"

definition free_slot :: "nat \<Rightarrow> kafka_sys \<Rightarrow> kafka_sys" where
  "free_slot c s = s\<lparr>slots := (slots s)(c := slots s c - 1)\<rparr>"

definition set_pos :: "nat \<Rightarrow> position \<Rightarrow> kafka_sys \<Rightarrow> kafka_sys" where
  "set_pos w p s = on_worker w ((workers s w)\<lparr>pos := p\<rparr>) s"

text \<open>A poll: for each partition the records from the fetch position up to some later one.\<close>

definition poll_ok :: "nat \<Rightarrow> nat \<Rightarrow> (nat \<times> nat) list \<Rightarrow> kafka_sys \<Rightarrow> bool" where
  "poll_ok batch r ends s \<longleftrightarrow>
     distinct (map fst ends) \<and> sum_list (map (\<lambda>(k, b). length (fetch s k (fetch_position (runners s r) k) b)) ends) \<le> batch
     \<and> list_all (\<lambda>(k, b). k \<in> owned (runners s r) \<and> k \<notin> client_paused (runners s r) \<and> k \<notin> unlocated (runners s r)
           \<and> log_start s k \<le> fetch_position (runners s r) k \<and> fetch_position (runners s r) k \<le> b \<and> b \<le> log_end s k) ends"

definition poll :: "nat \<Rightarrow> (nat \<times> nat) list \<Rightarrow> kafka_sys \<Rightarrow> kafka_sys" where
  "poll r ends s =
     (let x = runners s r in
      on_runner r (x\<lparr>stage := Polling, fetched := map (\<lambda>(k, b). (k, fetch s k (fetch_position x k) b)) ends,
                     fetch_position := (\<lambda>k. case map_of ends k of None \<Rightarrow> fetch_position x k | Some b \<Rightarrow> b)\<rparr>) s)"

section \<open>The system\<close>

text \<open>
  With \<open>calm\<close> no partition is revoked or lost while the runner shuts down.
\<close>

inductive kafka_step :: "kafka_config \<Rightarrow> bool \<Rightarrow> kafka_sys \<Rightarrow> kafka_sys \<Rightarrow> bool" for cfg calm where
  append: "log_end s k \<le> n \<Longrightarrow> kafka_step cfg calm s (s\<lparr>records := (records s)(k := insert n (records s k)), log_end := (log_end s)(k := n + 1)\<rparr>)"
| deleted: "log_start s k \<le> n \<Longrightarrow> n \<le> log_end s k \<Longrightarrow> kafka_step cfg calm s (s\<lparr>log_start := (log_start s)(k := n)\<rparr>)"
| join: "owned (runners s r) = {} \<Longrightarrow> giving (runners s r) = [] \<Longrightarrow> kafka_step cfg calm s (s\<lparr>members := insert r (members s)\<rparr>)"
| thrown_out: "kafka_step cfg calm s (s\<lparr>members := members s - {r}, holder := (\<lambda>k. if holder s k = Some r then None else holder s k)\<rparr>)"
| assigned: "r \<in> members s \<Longrightarrow> stage (runners s r) \<noteq> Polling \<Longrightarrow> giving (runners s r) = [] \<Longrightarrow> distinct ks
     \<Longrightarrow> list_all (\<lambda>k. holder s k = None \<and> k \<notin> owned (runners s r)) ks
     \<Longrightarrow> kafka_step cfg calm s (assign r ks (client_assign r ks s))"
| located: "k \<in> owned (runners s r) \<Longrightarrow> k \<in> unlocated (runners s r) \<or> fetch_position (runners s r) k < log_start s k
     \<Longrightarrow> kafka_step cfg calm s (look_up (start_offset cfg (subscription_of cfg r)) r k s)"
| start: "stage (runners s r) = NotStarted \<Longrightarrow> kafka_step cfg calm s (on_runner r ((runners s r)\<lparr>stage := Between\<rparr>) s)"
| polled: "stage (runners s r) = Between \<Longrightarrow> giving (runners s r) = [] \<Longrightarrow> poll_ok (batchSize cfg) r ends s \<Longrightarrow> kafka_step cfg calm s (poll r ends s)"
| dispatched: "stage (runners s r) = Polling \<Longrightarrow> fetched (runners s r) = (k, rs) # fs
     \<Longrightarrow> kafka_step cfg calm s (dispatch_partition (batchSize cfg) r k rs (on_runner r ((runners s r)\<lparr>fetched := fs\<rparr>) s))"
| allow_rebalance: "stage (runners s r) = Polling \<Longrightarrow> fetched (runners s r) = [] \<Longrightarrow> kafka_step cfg calm s (on_runner r ((runners s r)\<lparr>stage := Between\<rparr>) s)"
| leave_loop: "stage (runners s r) \<noteq> NotStarted \<Longrightarrow> kafka_step cfg calm s (on_runner r ((runners s r)\<lparr>stage := Over, fetched := []\<rparr>) s)"
| next_record: "w < next_worker s \<Longrightarrow> pos (workers s w) = Waiting \<Longrightarrow> worker_next (batchSize cfg) (workers s w) = Some (n, resume, x)
     \<Longrightarrow> kafka_step cfg calm s (on_worker w x
           (if resume then on_runner (home x) (ResumeFetchPartitions {partition x} (runners s (home x))) s else s))"
| idle_exit: "w < next_worker s \<Longrightarrow> pos (workers s w) = Waiting \<Longrightarrow> stopping (workers s w) \<or> cancelled (workers s w) \<Longrightarrow> kafka_step cfg calm s (set_pos w Exited s)"
| acquire: "w < next_worker s \<Longrightarrow> pos (workers s w) = Has n \<Longrightarrow> slots s (subscription_of cfg (home (workers s w))) < concurrency cfg
     \<Longrightarrow> \<not> stopping (workers s w) \<Longrightarrow> \<not> cancelled (workers s w)
     \<Longrightarrow> kafka_step cfg calm s (set_pos w (Running n) (take_slot (subscription_of cfg (home (workers s w))) s))"
| acquire_stopped: "w < next_worker s \<Longrightarrow> pos (workers s w) = Has n \<Longrightarrow> stopping (workers s w) \<or> cancelled (workers s w) \<Longrightarrow> kafka_step cfg calm s (set_pos w Exited s)"
| processed: "w < next_worker s \<Longrightarrow> pos (workers s w) = Running n \<Longrightarrow> process (maxRetries cfg) hs ds = Some True
     \<Longrightarrow> s' = (if handler_loop (maxRetries cfg) 0 hs = Some Succeeded then s\<lparr>handled := insert (partition (workers s w), n) (handled s)\<rparr>
               else s\<lparr>dead := insert (partition (workers s w), n) (dead s)\<rparr>)
     \<Longrightarrow> kafka_step cfg calm s (set_pos w (Completing n) (free_slot (subscription_of cfg (home (workers s w))) s'))"
| aborted: "w < next_worker s \<Longrightarrow> pos (workers s w) = Running n \<Longrightarrow> process (maxRetries cfg) hs ds = Some False
     \<Longrightarrow> kafka_step cfg calm s (set_pos w Exited (free_slot (subscription_of cfg (home (workers s w))) s))"
| completed: "w < next_worker s \<Longrightarrow> pos (workers s w) = Completing n \<Longrightarrow> kafka_step cfg calm s (complete w n s)"
| cancel: "w < next_worker s \<Longrightarrow> kafka_step cfg calm s (on_worker w ((workers s w)\<lparr>cancelled := True\<rparr>) s)"
| revoke: "stage (runners s r) \<noteq> Polling \<Longrightarrow> k \<in> owned (runners s r) \<Longrightarrow> k \<notin> fst ` set (giving (runners s r)) \<Longrightarrow> calm \<longrightarrow> \<not> closed (runners s r)
     \<Longrightarrow> kafka_step cfg calm s (revoke_begin lost r k s)"
| mark_revoked: "w < next_worker s \<Longrightarrow> current (runners s (home (workers s w))) (partition (workers s w)) \<noteq> Some w
     \<Longrightarrow> kafka_step cfg calm s (on_worker w (markRevoked (workers s w)) s)"
| given_up: "(k, x) \<in> set (giving (runners s r)) \<Longrightarrow> \<forall>w. x = Some w \<longrightarrow> revoked (workers s w) \<Longrightarrow> kafka_step cfg calm s (give_up r k x s)"
| committed_marks: "r \<in> members s \<Longrightarrow> kafka_step cfg calm s (commit r K s)"
| shutdown: "stage (runners s r) = Over \<Longrightarrow> \<not> closed (runners s r) \<Longrightarrow> kafka_step cfg calm s (shutdown_begin r s)"

definition kafka_init :: "(nat \<Rightarrow> nat) \<Rightarrow> kafka_sys" where
  "kafka_init start =
     \<lparr>workers = (\<lambda>_. newKafkaPartitionWorker 0 0), next_worker = 0, runners = (\<lambda>_. new_runner), slots = (\<lambda>_. 0), records = (\<lambda>_. {}), log_start = start, log_end = start,
      committed = (\<lambda>_. None), holder = (\<lambda>_. None), members = {}, handled = {}, dead = {}, skipped = {}\<rparr>"

inductive kafka_reach :: "kafka_config \<Rightarrow> bool \<Rightarrow> kafka_sys \<Rightarrow> bool" for cfg calm where
  init: "kafka_reach cfg calm (kafka_init start)"
| step: "kafka_reach cfg calm s \<Longrightarrow> kafka_step cfg calm s t \<Longrightarrow> kafka_reach cfg calm t"

section \<open>Running the model\<close>

text \<open>The steps as a function of what happens, with the guards of the relation.\<close>

datatype action =
    Append nat nat | Join nat | ThrowOut nat | Assign nat "nat list" | Locate nat nat | Start nat | Poll nat "(nat \<times> nat) list" | Dispatch nat | Allow nat | Leave nat
  | Next nat | Acquire nat | Process nat "attempt list" "attempt list" | Complete nat | Revoke bool nat nat | MarkRevoked nat | GiveUp nat nat "nat option"
  | Commit nat "nat list" | Shutdown nat

definition guarded :: "bool \<Rightarrow> 'a \<Rightarrow> 'a option" where
  "guarded b x = (if b then Some x else None)"

fun perform :: "kafka_config \<Rightarrow> bool \<Rightarrow> action \<Rightarrow> kafka_sys \<Rightarrow> kafka_sys option" where
  "perform cfg calm (Append k n) s =
     guarded (log_end s k \<le> n) (s\<lparr>records := (records s)(k := insert n (records s k)), log_end := (log_end s)(k := n + 1)\<rparr>)"
| "perform cfg calm (Join r) s = guarded (owned (runners s r) = {} \<and> giving (runners s r) = []) (s\<lparr>members := insert r (members s)\<rparr>)"
| "perform cfg calm (ThrowOut r) s = Some (s\<lparr>members := members s - {r}, holder := (\<lambda>k. if holder s k = Some r then None else holder s k)\<rparr>)"
| "perform cfg calm (Assign r ks) s =
     guarded (r \<in> members s \<and> stage (runners s r) \<noteq> Polling \<and> giving (runners s r) = [] \<and> distinct ks
        \<and> list_all (\<lambda>k. holder s k = None \<and> k \<notin> owned (runners s r)) ks) (assign r ks (client_assign r ks s))"
| "perform cfg calm (Locate r k) s =
     guarded (k \<in> owned (runners s r) \<and> (k \<in> unlocated (runners s r) \<or> fetch_position (runners s r) k < log_start s k))
       (look_up (start_offset cfg (subscription_of cfg r)) r k s)"
| "perform cfg calm (Start r) s = guarded (stage (runners s r) = NotStarted) (on_runner r ((runners s r)\<lparr>stage := Between\<rparr>) s)"
| "perform cfg calm (Poll r ends) s =
     guarded (stage (runners s r) = Between \<and> giving (runners s r) = [] \<and> poll_ok (batchSize cfg) r ends s) (poll r ends s)"
| "perform cfg calm (Dispatch r) s =
     (case fetched (runners s r) of
        [] \<Rightarrow> None
      | f # fs \<Rightarrow> guarded (stage (runners s r) = Polling) (dispatch_partition (batchSize cfg) r (fst f) (snd f) (on_runner r ((runners s r)\<lparr>fetched := fs\<rparr>) s)))"
| "perform cfg calm (Allow r) s = guarded (stage (runners s r) = Polling \<and> fetched (runners s r) = []) (on_runner r ((runners s r)\<lparr>stage := Between\<rparr>) s)"
| "perform cfg calm (Leave r) s = guarded (stage (runners s r) \<noteq> NotStarted) (on_runner r ((runners s r)\<lparr>stage := Over, fetched := []\<rparr>) s)"
| "perform cfg calm (Next w) s =
     (case worker_next (batchSize cfg) (workers s w) of
        None \<Rightarrow> None
      | Some (n, resume, x) \<Rightarrow>
          guarded (w < next_worker s \<and> pos (workers s w) = Waiting)
            (on_worker w x (if resume then on_runner (home x) (ResumeFetchPartitions {partition x} (runners s (home x))) s else s)))"
| "perform cfg calm (Acquire w) s =
     (case pos (workers s w) of
        Has n \<Rightarrow>
          guarded (w < next_worker s \<and> slots s (subscription_of cfg (home (workers s w))) < concurrency cfg \<and> \<not> stopping (workers s w) \<and> \<not> cancelled (workers s w))
            (set_pos w (Running n) (take_slot (subscription_of cfg (home (workers s w))) s))
      | _ \<Rightarrow> None)"
| "perform cfg calm (Process w hs ds) s =
     (case pos (workers s w) of
        Running n \<Rightarrow>
          guarded (w < next_worker s \<and> process (maxRetries cfg) hs ds = Some True)
            (set_pos w (Completing n) (free_slot (subscription_of cfg (home (workers s w)))
               (if handler_loop (maxRetries cfg) 0 hs = Some Succeeded then s\<lparr>handled := insert (partition (workers s w), n) (handled s)\<rparr>
                else s\<lparr>dead := insert (partition (workers s w), n) (dead s)\<rparr>)))
      | _ \<Rightarrow> None)"
| "perform cfg calm (Complete w) s = (case pos (workers s w) of Completing n \<Rightarrow> guarded (w < next_worker s) (complete w n s) | _ \<Rightarrow> None)"
| "perform cfg calm (Revoke lost r k) s =
     guarded (stage (runners s r) \<noteq> Polling \<and> k \<in> owned (runners s r) \<and> k \<notin> fst ` set (giving (runners s r)) \<and> (calm \<longrightarrow> \<not> closed (runners s r)))
       (revoke_begin lost r k s)"
| "perform cfg calm (MarkRevoked w) s =
     guarded (w < next_worker s \<and> current (runners s (home (workers s w))) (partition (workers s w)) \<noteq> Some w) (on_worker w (markRevoked (workers s w)) s)"
| "perform cfg calm (GiveUp r k x) s =
     guarded ((k, x) \<in> set (giving (runners s r)) \<and> (case x of None \<Rightarrow> True | Some w \<Rightarrow> revoked (workers s w))) (give_up r k x s)"
| "perform cfg calm (Commit r K) s = guarded (r \<in> members s) (commit r (set K) s)"
| "perform cfg calm (Shutdown r) s = guarded (stage (runners s r) = Over \<and> \<not> closed (runners s r)) (shutdown_begin r s)"

fun perform_all :: "kafka_config \<Rightarrow> bool \<Rightarrow> action list \<Rightarrow> kafka_sys \<Rightarrow> kafka_sys option" where
  "perform_all cfg calm [] s = Some s"
| "perform_all cfg calm (a # as) s = (case perform cfg calm a s of None \<Rightarrow> None | Some t \<Rightarrow> perform_all cfg calm as t)"

lemma guarded_Some: "guarded b x = Some y \<longleftrightarrow> b \<and> y = x"
  by (auto simp: guarded_def)

lemma perform_step: "perform cfg calm a s = Some t \<Longrightarrow> kafka_step cfg calm s t"
proof (cases a)
  case (Next w)
  assume "perform cfg calm a s = Some t"
  then obtain n resume x where x: "worker_next (batchSize cfg) (workers s w) = Some (n, resume, x)" "w < next_worker s" "pos (workers s w) = Waiting"
    "t = on_worker w x (if resume then on_runner (home x) (ResumeFetchPartitions {partition x} (runners s (home x))) s else s)"
    unfolding Next by (auto simp: guarded_Some split: option.splits)
  show ?thesis unfolding x(4) by (rule next_record [OF x(2,3,1)])
next
  case (Append k n)
  assume "perform cfg calm a s = Some t"
  then show ?thesis unfolding Append by (auto simp only: perform.simps guarded_Some intro!: append)
next
  case (Process w hs ds)
  assume "perform cfg calm a s = Some t"
  then show ?thesis unfolding Process by (auto simp only: perform.simps guarded_Some split: position.splits intro!: processed)
qed (auto simp: guarded_Some split: list.splits option.splits position.splits intro: kafka_step.intros)

lemma perform_reach: "kafka_reach cfg calm s \<Longrightarrow> perform_all cfg calm as s = Some t \<Longrightarrow> kafka_reach cfg calm t"
proof (induction as arbitrary: s)
  case (Cons a as)
  obtain u where u: "perform cfg calm a s = Some u" "perform_all cfg calm as u = Some t" using Cons.prems(2) by (auto split: option.splits)
  show ?case by (rule Cons.IH [OF kafka_reach.step [OF Cons.prems(1) perform_step [OF u(1)]] u(2)])
qed simp

end
