(* ===== verification/Kc_Kafka_Ownership.thy ===== *)
theory Kc_Kafka_Ownership
  imports Kc_Kafka_Group
begin

text \<open>
  Which runner, worker and member has which partition: the structural invariant of \<open>kafka_step\<close>, and the stronger
  one that holds while no partition is revoked during a shutdown.
\<close>

section \<open>Runners and workers know each other\<close>

lemma on_simps [simp]:
  "workers (on_worker w x s) = (workers s)(w := x)" "next_worker (on_worker w x s) = next_worker s" "runners (on_worker w x s) = runners s"
  "slots (on_worker w x s) = slots s" "records (on_worker w x s) = records s" "log_end (on_worker w x s) = log_end s"
  "committed (on_worker w x s) = committed s" "holder (on_worker w x s) = holder s" "members (on_worker w x s) = members s"
  "handled (on_worker w x s) = handled s" "dead (on_worker w x s) = dead s" "skipped (on_worker w x s) = skipped s" "log_start (on_worker w x s) = log_start s"
  "workers (on_runner r y s) = workers s" "next_worker (on_runner r y s) = next_worker s" "runners (on_runner r y s) = (runners s)(r := y)"
  "slots (on_runner r y s) = slots s" "records (on_runner r y s) = records s" "log_end (on_runner r y s) = log_end s"
  "committed (on_runner r y s) = committed s" "holder (on_runner r y s) = holder s" "members (on_runner r y s) = members s"
  "handled (on_runner r y s) = handled s" "dead (on_runner r y s) = dead s" "skipped (on_runner r y s) = skipped s" "log_start (on_runner r y s) = log_start s"
  by (simp_all add: on_worker_def on_runner_def)

lemma slot_simps [simp]:
  "workers (take_slot c s) = workers s" "next_worker (take_slot c s) = next_worker s" "runners (take_slot c s) = runners s"
  "records (take_slot c s) = records s" "log_end (take_slot c s) = log_end s" "committed (take_slot c s) = committed s"
  "holder (take_slot c s) = holder s" "members (take_slot c s) = members s" "handled (take_slot c s) = handled s" "dead (take_slot c s) = dead s"
  "skipped (take_slot c s) = skipped s" "log_start (take_slot c s) = log_start s" "skipped (free_slot c s) = skipped s" "log_start (free_slot c s) = log_start s"
  "workers (free_slot c s) = workers s" "next_worker (free_slot c s) = next_worker s" "runners (free_slot c s) = runners s"
  "records (free_slot c s) = records s" "log_end (free_slot c s) = log_end s" "committed (free_slot c s) = committed s"
  "holder (free_slot c s) = holder s" "members (free_slot c s) = members s" "handled (free_slot c s) = handled s" "dead (free_slot c s) = dead s"
  by (simp_all add: take_slot_def free_slot_def)

lemma look_up_simps:
  "workers (look_up st r k s) = workers s" "next_worker (look_up st r k s) = next_worker s" "slots (look_up st r k s) = slots s"
  "records (look_up st r k s) = records s" "log_start (look_up st r k s) = log_start s" "log_end (look_up st r k s) = log_end s"
  "committed (look_up st r k s) = committed s" "holder (look_up st r k s) = holder s" "members (look_up st r k s) = members s"
  "handled (look_up st r k s) = handled s" "dead (look_up st r k s) = dead s"
  "current (runners (look_up st r k s) q) = current (runners s q)" "giving (runners (look_up st r k s) q) = giving (runners s q)"
  "owned (runners (look_up st r k s) q) = owned (runners s q)" "closed (runners (look_up st r k s) q) = closed (runners s q)"
  "marks (runners (look_up st r k s) q) = marks (runners s q)" "stage (runners (look_up st r k s) q) = stage (runners s q)"
  "fetched (runners (look_up st r k s) q) = fetched (runners s q)" "client_paused (runners (look_up st r k s) q) = client_paused (runners s q)"
  by (simp_all add: look_up_def Let_def)

lemmas client_defs = PauseFetchPartitions_def ResumeFetchPartitions_def MarkCommitRecords_def

text \<open>
  Current workers belong to owned partitions of open runners, a worker that a callback detached is not
  current any more, and a worker that is not marked as revoked is current, being revoked, or of a
  runner that is shutting down.
\<close>

definition struct_ok :: "kafka_sys \<Rightarrow> bool" where
  "struct_ok s \<longleftrightarrow>
     (\<forall>r k w. current (runners s r) k = Some w \<longrightarrow>
        w < next_worker s \<and> home (workers s w) = r \<and> partition (workers s w) = k \<and> \<not> revoked (workers s w)
        \<and> k \<in> owned (runners s r) \<and> \<not> closed (runners s r))
     \<and> (\<forall>r k x. (k, x) \<in> set (giving (runners s r)) \<longrightarrow>
        k \<in> owned (runners s r) \<and> current (runners s r) k = None
        \<and> (\<forall>w. x = Some w \<longrightarrow> w < next_worker s \<and> home (workers s w) = r \<and> partition (workers s w) = k))
     \<and> (\<forall>w < next_worker s. \<not> revoked (workers s w) \<longrightarrow>
        current (runners s (home (workers s w))) (partition (workers s w)) = Some w
        \<or> (partition (workers s w), Some w) \<in> set (giving (runners s (home (workers s w)))) \<or> closed (runners s (home (workers s w))))
     \<and> (\<forall>r. distinct (map fst (giving (runners s r))))"

text \<open>The invariant is about few of the fields.\<close>

lemma struct_cong:
  assumes "struct_ok s" and "next_worker t = next_worker s"
    and "\<And>r. current (runners t r) = current (runners s r)" "\<And>r. giving (runners t r) = giving (runners s r)"
      "\<And>r. owned (runners t r) = owned (runners s r)" "\<And>r. closed (runners t r) = closed (runners s r)"
    and "\<And>w. home (workers t w) = home (workers s w)" "\<And>w. partition (workers t w) = partition (workers s w)" "\<And>w. revoked (workers t w) = revoked (workers s w)"
  shows "struct_ok t"
  using assms(1) unfolding struct_ok_def assms(2-9) .

lemma struct_okD:
  assumes "struct_ok s"
  shows "current (runners s r) k = Some w \<Longrightarrow>
      w < next_worker s \<and> home (workers s w) = r \<and> partition (workers s w) = k \<and> \<not> revoked (workers s w) \<and> k \<in> owned (runners s r) \<and> \<not> closed (runners s r)"
    and "(k, x) \<in> set (giving (runners s r)) \<Longrightarrow> k \<in> owned (runners s r) \<and> current (runners s r) k = None"
    and "(k, Some w) \<in> set (giving (runners s r)) \<Longrightarrow> w < next_worker s \<and> home (workers s w) = r \<and> partition (workers s w) = k"
    and "w < next_worker s \<Longrightarrow> \<not> revoked (workers s w) \<Longrightarrow> r = home (workers s w) \<Longrightarrow> k = partition (workers s w) \<Longrightarrow>
      current (runners s r) k = Some w \<or> (k, Some w) \<in> set (giving (runners s r)) \<or> closed (runners s r)"
    and "distinct (map fst (giving (runners s r)))"
  using assms unfolding struct_ok_def by blast+

lemma struct_okI:
  assumes "\<And>r k w. current (runners s r) k = Some w \<Longrightarrow>
      w < next_worker s \<and> home (workers s w) = r \<and> partition (workers s w) = k \<and> \<not> revoked (workers s w) \<and> k \<in> owned (runners s r) \<and> \<not> closed (runners s r)"
    and "\<And>r k x. (k, x) \<in> set (giving (runners s r)) \<Longrightarrow> k \<in> owned (runners s r) \<and> current (runners s r) k = None"
    and "\<And>r k w. (k, Some w) \<in> set (giving (runners s r)) \<Longrightarrow> w < next_worker s \<and> home (workers s w) = r \<and> partition (workers s w) = k"
    and "\<And>w. w < next_worker s \<Longrightarrow> \<not> revoked (workers s w) \<Longrightarrow>
      current (runners s (home (workers s w))) (partition (workers s w)) = Some w
      \<or> (partition (workers s w), Some w) \<in> set (giving (runners s (home (workers s w)))) \<or> closed (runners s (home (workers s w)))"
    and "\<And>r. distinct (map fst (giving (runners s r)))"
  shows "struct_ok s"
  unfolding struct_ok_def using assms by blast

lemma worker_next_simps:
  assumes "worker_next n w = Some (x, resume, w')"
  shows "home w' = home w" "partition w' = partition w" "revoked w' = revoked w" "pos w' = Has x" "queue w = x # queue w'"
    "stopping w' = stopping w" "cancelled w' = cancelled w" "paused w' = (paused w \<and> \<not> resume)" "resume = (paused w \<and> length (queue w') \<le> n)"
  using assms by (auto simp: worker_next_def split: list.splits if_splits)

lemma worker_enqueue_simps:
  assumes "worker_enqueue rs n w = (pause, w')"
  shows "home w' = home w" "partition w' = partition w" "revoked w' = revoked w" "pos w' = pos w"
    "queue w' = (if revoked w then queue w else queue w @ rs)" "paused w' = (paused w \<or> pause)"
    "pause = (\<not> revoked w \<and> \<not> paused w \<and> length (queue w @ rs) \<ge> n)"
  using assms by (auto simp: worker_enqueue_def Let_def split: if_splits)

lemma struct_pos: "struct_ok s \<Longrightarrow> struct_ok (set_pos w p s)"
  by (rule struct_cong [of s]) (auto simp: set_pos_def)

lemma struct_slots: "struct_ok s \<Longrightarrow> struct_ok (take_slot c s) \<and> struct_ok (free_slot c s)"
  by (intro conjI; rule struct_cong [of s]) auto

lemma assign_partition_simps:
  assumes "current (runners s r) k = None"
  shows "workers (assign_partition r k s) = (workers s)(next_worker s := newKafkaPartitionWorker r k)"
    "next_worker (assign_partition r k s) = next_worker s + 1"
    "runners (assign_partition r k s) = (runners s)(r := (runners s r)\<lparr>current := (current (runners s r))(k \<mapsto> next_worker s)\<rparr>)"
    "slots (assign_partition r k s) = slots s" "records (assign_partition r k s) = records s" "log_end (assign_partition r k s) = log_end s"
    "committed (assign_partition r k s) = committed s" "holder (assign_partition r k s) = holder s" "members (assign_partition r k s) = members s"
    "handled (assign_partition r k s) = handled s" "dead (assign_partition r k s) = dead s"
    "skipped (assign_partition r k s) = skipped s" "log_start (assign_partition r k s) = log_start s"
  using assms by (simp_all add: assign_partition_def)

lemma new_worker_simps [simp]:
  "home (newKafkaPartitionWorker r k) = r" "partition (newKafkaPartitionWorker r k) = k" "queue (newKafkaPartitionWorker r k) = []"
  "\<not> paused (newKafkaPartitionWorker r k)" "\<not> revoked (newKafkaPartitionWorker r k)" "pos (newKafkaPartitionWorker r k) = Waiting"
  by (simp_all add: newKafkaPartitionWorker_def)

lemma struct_assign_partition:
  assumes "struct_ok s" and "\<not> closed (runners s r)" and "k \<in> owned (runners s r)" and "giving (runners s r) = []"
  shows "struct_ok (assign_partition r k s)"
proof (cases "current (runners s r) k = None")
  case True
  note D = struct_okD [OF assms(1)] and S = assign_partition_simps [OF True]
  show ?thesis
  proof (rule struct_okI, goal_cases)
    case (1 q j w)
    then show ?case using D(1) [of q j w] assms by (auto simp: S split: if_splits)
  next
    case (2 q j x)
    then show ?case using D(2) [of j x q] assms by (auto simp: S split: if_splits)
  next
    case (3 q j w)
    then show ?case using D(3) [of j w q] assms by (auto simp: S split: if_splits)
  next
    case (4 w)
    then show ?case using D(4) [of w] True by (auto simp: S less_Suc_eq)
  next
    case (5 q)
    then show ?case using D(5) [of q] by (auto simp: S)
  qed
qed (simp add: assign_partition_def assms)

lemma struct_dispatch: "struct_ok s \<Longrightarrow> struct_ok (dispatch_partition n r k rs s)"
  by (rule struct_cong [of s]) (auto simp: dispatch_partition_def client_defs dest: worker_enqueue_simps split: option.splits prod.splits)

lemma assign_partition_keeps:
  "closed (runners (assign_partition r k s) q) = closed (runners s q)" "owned (runners (assign_partition r k s) q) = owned (runners s q)"
  "giving (runners (assign_partition r k s) q) = giving (runners s q)" "stage (runners (assign_partition r k s) q) = stage (runners s q)"
  "fetch_position (runners (assign_partition r k s) q) = fetch_position (runners s q)" "marks (runners (assign_partition r k s) q) = marks (runners s q)"
  "committed (assign_partition r k s) = committed s"
  by (auto simp: assign_partition_def)

lemma struct_assign_all:
  assumes "struct_ok s" and "\<not> closed (runners s r)" and "set ks \<subseteq> owned (runners s r)" and "giving (runners s r) = []"
  shows "struct_ok (fold (assign_partition r) ks s)"
  using assms
proof (induction ks arbitrary: s)
  case (Cons k ks)
  show ?case using Cons.prems by (simp add: assign_partition_keeps Cons.IH struct_assign_partition)
qed simp

lemma struct_client_assign:
  assumes "struct_ok s"
  shows "struct_ok (client_assign r ks s)"
proof (rule struct_okI, goal_cases)
  case (1 q j w)
  then show ?case using struct_okD(1) [OF assms, of q j w] by (auto simp: client_assign_def split: if_splits)
next
  case (2 q j x)
  then show ?case using struct_okD(2) [OF assms, of j x q] by (auto simp: client_assign_def split: if_splits)
next
  case (3 q j w)
  then show ?case using struct_okD(3) [OF assms, of j w q] by (auto simp: client_assign_def split: if_splits)
next
  case (4 w)
  then show ?case using struct_okD(4) [OF assms, of w] by (auto simp: client_assign_def)
next
  case (5 q)
  then show ?case using struct_okD(5) [OF assms, of q] by (auto simp: client_assign_def)
qed

lemma struct_resume: "struct_ok s \<Longrightarrow> struct_ok (on_runner r (ResumeFetchPartitions K (runners s r)) s)"
  by (rule struct_cong [of s]) (auto simp: client_defs)

lemma client_assign_runner [simp]:
  "closed (runners (client_assign r ks s) q) = closed (runners s q)" "giving (runners (client_assign r ks s) q) = giving (runners s q)"
  "stage (runners (client_assign r ks s) q) = stage (runners s q)" "marks (runners (client_assign r ks s) q) = marks (runners s q)"
  "current (runners (client_assign r ks s) q) = current (runners s q)" "client_paused (runners (client_assign r ks s) q) = client_paused (runners s q)"
  "fetched (runners (client_assign r ks s) q) = fetched (runners s q)"
  "owned (runners (client_assign r ks s) q) = (if q = r then owned (runners s r) \<union> set ks else owned (runners s q))"
  by (simp_all add: client_assign_def)

lemma struct_assign:
  assumes "struct_ok s" and "giving (runners s r) = []"
  shows "struct_ok (assign r ks (client_assign r ks s))"
proof -
  let ?c = "client_assign r ks s"
  have c: "struct_ok ?c" by (rule struct_client_assign [OF assms(1)])
  show ?thesis
  proof (cases "closed (runners ?c r)")
    case False
    then show ?thesis unfolding assign_def
      using struct_assign_all [OF c, of r ks] struct_assign_all [OF struct_resume [OF c], of r "set ks" r ks] assms(2)
      by (simp add: client_defs)
  qed (simp add: assign_def c)
qed

lemma revoke_begin_simps:
  "next_worker (revoke_begin lost r k s) = next_worker s"
  "current (runners (revoke_begin lost r k s) q) = (if q = r then (current (runners s r))(k := None) else current (runners s q))"
  "giving (runners (revoke_begin lost r k s) q) = (if q = r then (k, current (runners s r) k) # giving (runners s r) else giving (runners s q))"
  "owned (runners (revoke_begin lost r k s) q) = owned (runners s q)" "closed (runners (revoke_begin lost r k s) q) = closed (runners s q)"
  "stage (runners (revoke_begin lost r k s) q) = stage (runners s q)" "fetched (runners (revoke_begin lost r k s) q) = fetched (runners s q)"
  "marks (runners (revoke_begin lost r k s) q) = marks (runners s q)" "client_paused (runners (revoke_begin lost r k s) q) = client_paused (runners s q)"
  "fetch_position (runners (revoke_begin lost r k s) q) = fetch_position (runners s q)"
  "home (workers (revoke_begin lost r k s) w) = home (workers s w)" "partition (workers (revoke_begin lost r k s) w) = partition (workers s w)"
  "revoked (workers (revoke_begin lost r k s) w) = revoked (workers s w)" "queue (workers (revoke_begin lost r k s) w) = queue (workers s w)"
  "paused (workers (revoke_begin lost r k s) w) = paused (workers s w)" "pos (workers (revoke_begin lost r k s) w) = pos (workers s w)"
  "slots (revoke_begin lost r k s) = slots s" "records (revoke_begin lost r k s) = records s" "log_end (revoke_begin lost r k s) = log_end s"
  "committed (revoke_begin lost r k s) = committed s" "holder (revoke_begin lost r k s) = holder s" "members (revoke_begin lost r k s) = members s"
  "handled (revoke_begin lost r k s) = handled s" "dead (revoke_begin lost r k s) = dead s"
  "skipped (revoke_begin lost r k s) = skipped s" "log_start (revoke_begin lost r k s) = log_start s"
  by (auto simp: revoke_begin_def detach_def stop_worker_def stop_def split: option.splits)

lemma struct_revoke:
  assumes "struct_ok s" and "k \<in> owned (runners s r)" and "k \<notin> fst ` set (giving (runners s r))"
  shows "struct_ok (revoke_begin lost r k s)"
proof (rule struct_okI, goal_cases)
  case (1 q j w)
  then show ?case using struct_okD(1) [OF assms(1), of q j w] by (auto simp: revoke_begin_simps split: if_splits)
next
  case (2 q j x)
  then show ?case using struct_okD(2) [OF assms(1), of j x q] assms by (auto simp: revoke_begin_simps split: if_splits)
next
  case (3 q j w)
  then show ?case using struct_okD(3) [OF assms(1), of j w q] struct_okD(1) [OF assms(1), of q j w] by (auto simp: revoke_begin_simps split: if_splits)
next
  case (4 w)
  then show ?case using struct_okD(4) [OF assms(1), of w] by (auto simp: revoke_begin_simps)
next
  case (5 q)
  then show ?case using struct_okD(5) [OF assms(1), of q] assms(3) by (auto simp: revoke_begin_simps)
qed

lemma struct_mark_revoked:
  assumes "struct_ok s" and "current (runners s (home (workers s w))) (partition (workers s w)) \<noteq> Some w"
  shows "struct_ok (on_worker w (markRevoked (workers s w)) s)"
proof (rule struct_okI, goal_cases)
  case (1 q j v)
  then show ?case using struct_okD(1) [OF assms(1), of q j v] assms(2) by (auto simp: markRevoked_def)
next
  case (2 q j x)
  then show ?case using struct_okD(2) [OF assms(1), of j x q] by simp
next
  case (3 q j v)
  then show ?case using struct_okD(3) [OF assms(1), of j v q] by (auto simp: markRevoked_def)
next
  case (4 v)
  then show ?case using struct_okD(4) [OF assms(1), of v] by (auto simp: markRevoked_def split: if_splits)
next
  case (5 q)
  then show ?case using struct_okD(5) [OF assms(1), of q] by simp
qed

lemma distinct_fst_unique: "distinct (map fst xs) \<Longrightarrow> (k, x) \<in> set xs \<Longrightarrow> (k, y) \<in> set xs \<Longrightarrow> x = y"
  by (metis map_of_eq_Some_iff option.inject)

lemma distinct_fst_removeAll: "distinct (map fst xs) \<Longrightarrow> distinct (map fst (removeAll y xs))"
  by (induction xs) auto

lemma struct_give_up:
  assumes "struct_ok s" and "(k, x) \<in> set (giving (runners s r))" and "\<forall>w. x = Some w \<longrightarrow> revoked (workers s w)"
  shows "struct_ok (give_up r k x s)"
proof (rule struct_okI, goal_cases)
  case (1 q j w)
  then show ?case using struct_okD(1) [OF assms(1), of q j w] struct_okD(2) [OF assms(1,2)] by (auto simp: give_up_def client_defs split: if_splits)
next
  case (2 q j y)
  then show ?case using struct_okD(2) [OF assms(1), of j y q] distinct_fst_unique [OF struct_okD(5) [OF assms(1), of r] assms(2)]
    by (auto simp: give_up_def client_defs split: if_splits)
next
  case (3 q j w)
  then show ?case using struct_okD(3) [OF assms(1), of j w q] by (auto simp: give_up_def client_defs split: if_splits)
next
  case (4 w)
  then show ?case using struct_okD(4) [OF assms(1), of w] assms(3) by (auto simp: give_up_def client_defs)
next
  case (5 q)
  then show ?case using struct_okD(5) [OF assms(1), of q] by (auto simp: give_up_def client_defs distinct_fst_removeAll)
qed

lemma shutdown_simps:
  "next_worker (shutdown_begin r s) = next_worker s" "runners (shutdown_begin r s) = (runners s)(r := (runners s r)\<lparr>closed := True, current := Map.empty\<rparr>)"
  "home (workers (shutdown_begin r s) w) = home (workers s w)" "partition (workers (shutdown_begin r s) w) = partition (workers s w)"
  "revoked (workers (shutdown_begin r s) w) = revoked (workers s w)" "queue (workers (shutdown_begin r s) w) = queue (workers s w)"
  "paused (workers (shutdown_begin r s) w) = paused (workers s w)" "pos (workers (shutdown_begin r s) w) = pos (workers s w)"
  "slots (shutdown_begin r s) = slots s" "records (shutdown_begin r s) = records s" "log_end (shutdown_begin r s) = log_end s"
  "committed (shutdown_begin r s) = committed s" "holder (shutdown_begin r s) = holder s" "members (shutdown_begin r s) = members s"
  "handled (shutdown_begin r s) = handled s" "dead (shutdown_begin r s) = dead s"
  "skipped (shutdown_begin r s) = skipped s" "log_start (shutdown_begin r s) = log_start s"
  by (simp_all add: shutdown_begin_def stop_def)

lemma struct_shutdown:
  assumes "struct_ok s"
  shows "struct_ok (shutdown_begin r s)"
proof (rule struct_okI, goal_cases)
  case (1 q j w)
  then show ?case using struct_okD(1) [OF assms, of q j w] by (auto simp: shutdown_simps split: if_splits)
next
  case (2 q j x)
  then show ?case using struct_okD(2) [OF assms, of j x q] by (auto simp: shutdown_simps split: if_splits)
next
  case (3 q j w)
  then show ?case using struct_okD(3) [OF assms, of j w q] by (auto simp: shutdown_simps split: if_splits)
next
  case (4 w)
  then show ?case using struct_okD(4) [OF assms, of w] by (auto simp: shutdown_simps)
next
  case (5 q)
  then show ?case using struct_okD(5) [OF assms, of q] by (auto simp: shutdown_simps)
qed

lemma struct_step:
  assumes "kafka_step cfg calm s t" and "struct_ok s"
  shows "struct_ok t"
  using assms(1)
proof cases
  case (assigned r ks)
  then show ?thesis using struct_assign [OF assms(2)] by simp
next
  case (dispatched r k rs fs)
  have "struct_ok (on_runner r ((runners s r)\<lparr>fetched := fs\<rparr>) s)" by (rule struct_cong [OF assms(2)]) auto
  then show ?thesis unfolding dispatched(1) by (rule struct_dispatch)
next
  case (next_record w n resume x)
  show ?thesis unfolding next_record(1) by (rule struct_cong [OF assms(2)]) (auto simp: client_defs worker_next_simps [OF next_record(4)])
next
  case (completed w n)
  show ?thesis unfolding completed(1) by (rule struct_cong [OF assms(2)]) (auto simp: complete_def Let_def client_defs)
next
  case (revoke r k lost)
  then show ?thesis using struct_revoke [OF assms(2)] by simp
next
  case (mark_revoked w)
  then show ?thesis using struct_mark_revoked [OF assms(2)] by simp
next
  case (given_up k x r)
  then show ?thesis using struct_give_up [OF assms(2)] by simp
next
  case (shutdown r)
  then show ?thesis using struct_shutdown [OF assms(2)] by simp
next
  case (polled r ends)
  show ?thesis unfolding polled(1) by (rule struct_cong [OF assms(2)]) (auto simp: poll_def Let_def)
next
  case (committed_marks r K)
  show ?thesis unfolding committed_marks(1) by (rule struct_cong [OF assms(2)]) (auto simp: commit_def)
next
  case (processed w n hs ds s')
  have "struct_ok s'" unfolding processed(5) by (rule struct_cong [OF assms(2)]) auto
  then show ?thesis unfolding processed(1) using struct_slots struct_pos by blast
next
  case (located k r)
  show ?thesis unfolding located(1) by (rule struct_cong [OF assms(2)]) (auto simp: look_up_simps)
next
  case (start r)
  show ?thesis unfolding start(1) by (rule struct_cong [OF assms(2)]) auto
next
  case (allow_rebalance r)
  show ?thesis unfolding allow_rebalance(1) by (rule struct_cong [OF assms(2)]) auto
next
  case (leave_loop r)
  show ?thesis unfolding leave_loop(1) by (rule struct_cong [OF assms(2)]) auto
next
  case (cancel w)
  show ?thesis unfolding cancel(1) by (rule struct_cong [OF assms(2)]) auto
qed (use assms(2) struct_slots struct_pos in \<open>auto intro: struct_cong [OF assms(2)]\<close>)

section \<open>Partitions in calm times\<close>

text \<open>
  As long as nothing is revoked during a shutdown: a worker that is not marked as revoked works on a partition
  that its client owns, it is the only one there, and marks are on owned partitions.
\<close>

definition calm_ok :: "kafka_sys \<Rightarrow> bool" where
  "calm_ok s \<longleftrightarrow>
     (\<forall>w < next_worker s. \<not> revoked (workers s w) \<longrightarrow> partition (workers s w) \<in> owned (runners s (home (workers s w))))
     \<and> (\<forall>r k. r \<in> members s \<and> k \<in> owned (runners s r) \<longrightarrow> holder s k = Some r)
     \<and> (\<forall>r. dom (marks (runners s r)) \<subseteq> owned (runners s r))
     \<and> (\<forall>v w. v < next_worker s \<and> w < next_worker s \<and> \<not> revoked (workers s v) \<and> \<not> revoked (workers s w)
          \<and> home (workers s v) = home (workers s w) \<and> partition (workers s v) = partition (workers s w) \<longrightarrow> v = w)
     \<and> (\<forall>w < next_worker s. \<not> revoked (workers s w) \<longrightarrow>
          (\<forall>x. (partition (workers s w), x) \<in> set (giving (runners s (home (workers s w)))) \<longrightarrow> x = Some w))"

lemma calm_okD:
  assumes "calm_ok s"
  shows "w < next_worker s \<Longrightarrow> \<not> revoked (workers s w) \<Longrightarrow> partition (workers s w) \<in> owned (runners s (home (workers s w)))"
    and "r \<in> members s \<Longrightarrow> k \<in> owned (runners s r) \<Longrightarrow> holder s k = Some r"
    and "marks (runners s r) k = Some h \<Longrightarrow> k \<in> owned (runners s r)"
    and "v < next_worker s \<Longrightarrow> w < next_worker s \<Longrightarrow> \<not> revoked (workers s v) \<Longrightarrow> \<not> revoked (workers s w)
      \<Longrightarrow> home (workers s v) = home (workers s w) \<Longrightarrow> partition (workers s v) = partition (workers s w) \<Longrightarrow> v = w"
    and "w < next_worker s \<Longrightarrow> \<not> revoked (workers s w) \<Longrightarrow> (partition (workers s w), x) \<in> set (giving (runners s (home (workers s w)))) \<Longrightarrow> x = Some w"
  using assms unfolding calm_ok_def by blast+

lemma calm_okI:
  assumes "\<And>w. w < next_worker s \<Longrightarrow> \<not> revoked (workers s w) \<Longrightarrow> partition (workers s w) \<in> owned (runners s (home (workers s w)))"
    and "\<And>r k. r \<in> members s \<Longrightarrow> k \<in> owned (runners s r) \<Longrightarrow> holder s k = Some r"
    and "\<And>r k h. marks (runners s r) k = Some h \<Longrightarrow> k \<in> owned (runners s r)"
    and "\<And>v w. v < next_worker s \<Longrightarrow> w < next_worker s \<Longrightarrow> \<not> revoked (workers s v) \<Longrightarrow> \<not> revoked (workers s w)
      \<Longrightarrow> home (workers s v) = home (workers s w) \<Longrightarrow> partition (workers s v) = partition (workers s w) \<Longrightarrow> v = w"
    and "\<And>w x. w < next_worker s \<Longrightarrow> \<not> revoked (workers s w) \<Longrightarrow> (partition (workers s w), x) \<in> set (giving (runners s (home (workers s w)))) \<Longrightarrow> x = Some w"
  shows "calm_ok s"
  unfolding calm_ok_def using assms by blast

lemma calm_cong:
  assumes "calm_ok s" and "next_worker t = next_worker s" "members t = members s" "holder t = holder s"
    and "\<And>r. giving (runners t r) = giving (runners s r)" "\<And>r. owned (runners t r) = owned (runners s r)" "\<And>r. marks (runners t r) = marks (runners s r)"
    and "\<And>w. home (workers t w) = home (workers s w)" "\<And>w. partition (workers t w) = partition (workers s w)" "\<And>w. revoked (workers t w) = revoked (workers s w)"
  shows "calm_ok t"
  using assms(1) unfolding calm_ok_def assms(2-10) .

lemma calm_pos: "calm_ok s \<Longrightarrow> calm_ok (set_pos w p s)"
  by (rule calm_cong [of s]) (auto simp: set_pos_def)

lemma calm_slots: "calm_ok s \<Longrightarrow> calm_ok (take_slot c s) \<and> calm_ok (free_slot c s)"
  by (intro conjI; rule calm_cong [of s]) auto

text \<open>An open runner without running callbacks has only current workers.\<close>

lemma only_current:
  assumes "struct_ok s" and "\<not> closed (runners s r)" and "giving (runners s r) = []" and "w < next_worker s" and "\<not> revoked (workers s w)" and "home (workers s w) = r"
  shows "current (runners s r) (partition (workers s w)) = Some w"
  using struct_okD(4) [OF assms(1,4,5) refl refl] assms by auto

lemma calm_assign_partition:
  assumes "calm_ok s" and "struct_ok s" and "\<not> closed (runners s r)" and "k \<in> owned (runners s r)" and "giving (runners s r) = []"
  shows "calm_ok (assign_partition r k s)"
proof (cases "current (runners s r) k = None")
  case True
  note D = calm_okD [OF assms(1)] and S = assign_partition_simps [OF True]
  have no: "\<not> (home (workers s w) = r \<and> partition (workers s w) = k)" if "w < next_worker s" "\<not> revoked (workers s w)" for w
    using only_current [OF assms(2,3,5) that] True by auto
  show ?thesis
  proof (rule calm_okI, goal_cases)
    case (1 w)
    then show ?case using D(1) [of w] assms(4) by (auto simp: S less_Suc_eq)
  next
    case (2 q j)
    then show ?case using D(2) [of q j] by (auto simp: S split: if_splits)
  next
    case (3 q j h)
    then show ?case using D(3) [of q j h] by (auto simp: S split: if_splits)
  next
    case (4 v w)
    then show ?case using D(4) [of v w] no [of v] no [of w] by (auto simp: S less_Suc_eq split: if_splits)
  next
    case (5 w x)
    then show ?case using D(5) [of w x] assms(5) by (auto simp: S less_Suc_eq split: if_splits)
  qed
qed (simp add: assign_partition_def assms)

lemma calm_assign_all:
  assumes "calm_ok s" and "struct_ok s" and "\<not> closed (runners s r)" and "set ks \<subseteq> owned (runners s r)" and "giving (runners s r) = []"
  shows "calm_ok (fold (assign_partition r) ks s)"
  using assms
proof (induction ks arbitrary: s)
  case (Cons k ks)
  show ?case using Cons.prems by (simp add: assign_partition_keeps Cons.IH struct_assign_partition calm_assign_partition)
qed simp

lemma calm_client_assign:
  assumes "calm_ok s" and "list_all (\<lambda>k. holder s k = None \<and> k \<notin> owned (runners s r)) ks"
  shows "calm_ok (client_assign r ks s)"
proof (rule calm_okI, goal_cases)
  case (1 w)
  then show ?case using calm_okD(1) [OF assms(1), of w] by (auto simp: client_assign_def)
next
  case (2 q j)
  then show ?case using calm_okD(2) [OF assms(1), of q j] assms(2) by (auto simp: client_assign_def list_all_iff split: if_splits)
next
  case (3 q j h)
  then show ?case using calm_okD(3) [OF assms(1), of q j h] by (auto simp: client_assign_def split: if_splits)
next
  case (4 v w)
  then show ?case using calm_okD(4) [OF assms(1), of v w] by (auto simp: client_assign_def)
next
  case (5 w x)
  then show ?case using calm_okD(5) [OF assms(1), of w x] by (auto simp: client_assign_def split: if_splits)
qed

lemma calm_assign:
  assumes "calm_ok s" and "struct_ok s" and "giving (runners s r) = []" and "list_all (\<lambda>k. holder s k = None \<and> k \<notin> owned (runners s r)) ks"
  shows "calm_ok (assign r ks (client_assign r ks s))"
proof -
  let ?c = "client_assign r ks s" and ?d = "on_runner r (ResumeFetchPartitions (set ks) (runners (client_assign r ks s) r)) (client_assign r ks s)"
  have c: "calm_ok ?c" "struct_ok ?c" by (rule calm_client_assign [OF assms(1,4)], rule struct_client_assign [OF assms(2)])
  have d: "calm_ok ?d" "struct_ok ?d" by (rule calm_cong [OF c(1)]; auto simp: client_defs) (rule struct_resume [OF c(2)])
  show ?thesis
    using calm_assign_all [OF c, of r ks] calm_assign_all [OF d, of r ks] assms(3) c(1) by (simp add: assign_def client_defs)
qed

lemma calm_revoke:
  assumes "calm_ok s" and "struct_ok s" and "k \<notin> fst ` set (giving (runners s r))" and "\<not> closed (runners s r)"
  shows "calm_ok (revoke_begin lost r k s)"
proof (rule calm_okI, goal_cases)
  case (1 w)
  then show ?case using calm_okD(1) [OF assms(1), of w] by (simp add: revoke_begin_simps)
next
  case (2 q j)
  then show ?case using calm_okD(2) [OF assms(1), of q j] by (simp add: revoke_begin_simps)
next
  case (3 q j h)
  then show ?case using calm_okD(3) [OF assms(1), of q j h] by (simp add: revoke_begin_simps)
next
  case (4 v w)
  then show ?case using calm_okD(4) [OF assms(1), of v w] by (simp add: revoke_begin_simps)
next
  case (5 w x)
  have "current (runners s r) k = Some w" if "home (workers s w) = r" "partition (workers s w) = k"
    using struct_okD(4) [OF assms(2), of w] 5(1,2) that assms(3,4) by (force simp: revoke_begin_simps)
  then show ?case using 5 calm_okD(5) [OF assms(1), of w x] by (auto simp: revoke_begin_simps split: if_splits)
qed

lemma calm_give_up:
  assumes "calm_ok s" and "(k, x) \<in> set (giving (runners s r))" and "\<forall>w. x = Some w \<longrightarrow> revoked (workers s w)"
  shows "calm_ok (give_up r k x s)"
proof (rule calm_okI, goal_cases)
  case (1 w)
  then show ?case using calm_okD(1) [OF assms(1), of w] calm_okD(5) [OF assms(1), of w x] assms(2,3) by (auto simp: give_up_def client_defs)
next
  case (2 q j)
  then show ?case using calm_okD(2) [OF assms(1), of q j] by (auto simp: give_up_def client_defs split: if_splits)
next
  case (3 q j h)
  then show ?case using calm_okD(3) [OF assms(1), of q j h] by (auto simp: give_up_def client_defs split: if_splits)
next
  case (4 v w)
  then show ?case using calm_okD(4) [OF assms(1), of v w] by (simp add: give_up_def)
next
  case (5 w y)
  then show ?case using calm_okD(5) [OF assms(1), of w y] by (auto simp: give_up_def client_defs split: if_splits)
qed

lemma calm_complete:
  assumes "calm_ok s" and "w < next_worker s"
  shows "calm_ok (complete w n s)"
proof (rule calm_okI, goal_cases)
  case (1 v)
  then show ?case using calm_okD(1) [OF assms(1), of v] by (auto simp: complete_def Let_def client_defs split: if_splits)
next
  case (2 q j)
  then show ?case using calm_okD(2) [OF assms(1), of q j] by (auto simp: complete_def Let_def client_defs split: if_splits)
next
  case (3 q j h)
  then show ?case using calm_okD(3) [OF assms(1), of q j] calm_okD(1) [OF assms(1,2)] by (auto simp: complete_def Let_def client_defs split: if_splits)
next
  case (4 u v)
  then show ?case using calm_okD(4) [OF assms(1), of u v] by (auto simp: complete_def Let_def split: if_splits)
next
  case (5 v x)
  then show ?case using calm_okD(5) [OF assms(1), of v x] by (auto simp: complete_def Let_def client_defs split: if_splits)
qed

lemma calm_mark_revoked:
  assumes "calm_ok s"
  shows "calm_ok (on_worker w (markRevoked (workers s w)) s)"
  using calm_okD [OF assms] by (intro calm_okI) (auto simp: markRevoked_def split: if_splits)

lemma calm_membership:
  assumes "calm_ok s"
  shows "owned (runners s r) = {} \<Longrightarrow> calm_ok (s\<lparr>members := insert r (members s)\<rparr>)"
    and "calm_ok (s\<lparr>members := members s - {r}, holder := (\<lambda>k. if holder s k = Some r then None else holder s k)\<rparr>)"
  using calm_okD [OF assms] by (auto intro!: calm_okI)

lemma calm_dispatch: "calm_ok s \<Longrightarrow> calm_ok (dispatch_partition n r k rs s)"
  by (rule calm_cong [of s]) (auto simp: dispatch_partition_def client_defs dest: worker_enqueue_simps split: option.splits prod.splits)

lemma calm_step:
  assumes "kafka_step cfg True s t" and "struct_ok s" and "calm_ok s"
  shows "calm_ok t"
  using assms(1)
proof cases
  case (assigned r ks)
  then show ?thesis using calm_assign [OF assms(3,2)] by simp
next
  case (dispatched r k rs fs)
  have "calm_ok (on_runner r ((runners s r)\<lparr>fetched := fs\<rparr>) s)" by (rule calm_cong [OF assms(3)]) auto
  then show ?thesis unfolding dispatched(1) by (rule calm_dispatch)
next
  case (next_record w n resume x)
  show ?thesis unfolding next_record(1) by (rule calm_cong [OF assms(3)]) (auto simp: client_defs worker_next_simps [OF next_record(4)])
next
  case (completed w n)
  then show ?thesis using calm_complete [OF assms(3)] by simp
next
  case (revoke r k lost)
  then show ?thesis using calm_revoke [OF assms(3,2)] by simp
next
  case (mark_revoked w)
  then show ?thesis using calm_mark_revoked [OF assms(3)] by simp
next
  case (given_up k x r)
  then show ?thesis using calm_give_up [OF assms(3)] by simp
next
  case (shutdown r)
  show ?thesis unfolding shutdown(1) by (rule calm_cong [OF assms(3)]) (auto simp: shutdown_simps)
next
  case (polled r ends)
  show ?thesis unfolding polled(1) by (rule calm_cong [OF assms(3)]) (auto simp: poll_def Let_def)
next
  case (committed_marks r K)
  show ?thesis unfolding committed_marks(1) by (rule calm_cong [OF assms(3)]) (auto simp: commit_def)
next
  case (processed w n hs ds s')
  have "calm_ok s'" unfolding processed(5) by (rule calm_cong [OF assms(3)]) auto
  then show ?thesis unfolding processed(1) using calm_slots calm_pos by blast
next
  case (located k r)
  show ?thesis unfolding located(1) by (rule calm_cong [OF assms(3)]) (auto simp: look_up_simps)
next
  case (start r)
  show ?thesis unfolding start(1) by (rule calm_cong [OF assms(3)]) auto
next
  case (allow_rebalance r)
  show ?thesis unfolding allow_rebalance(1) by (rule calm_cong [OF assms(3)]) auto
next
  case (leave_loop r)
  show ?thesis unfolding leave_loop(1) by (rule calm_cong [OF assms(3)]) auto
next
  case (cancel w)
  show ?thesis unfolding cancel(1) by (rule calm_cong [OF assms(3)]) auto
qed (use assms(3) calm_slots calm_pos calm_membership in \<open>auto intro: calm_cong [OF assms(3)]\<close>)

end
