(* ===== verification/Kc_Kafka_Log.thy ===== *)
theory Kc_Kafka_Log
  imports Kc_Kafka_Ownership
begin

text \<open>
  Records, fetch positions, marks and commits: what a worker holds is a gapless part of the log behind
  which everything is done.
\<close>

section \<open>What is marked and committed is done\<close>

text \<open>
  The records nothing has to be done for any more: handled, dead-lettered, or passed over when a client looked up its
  position. No record of the partition below a sound offset is left to do.
\<close>

abbreviation settled :: "kafka_sys \<Rightarrow> (nat \<times> nat) set" where
  "settled s \<equiv> handled s \<union> dead s \<union> skipped s"

definition sound :: "kafka_sys \<Rightarrow> nat \<Rightarrow> nat \<Rightarrow> bool" where
  "sound s k h \<longleftrightarrow> h \<le> log_end s k \<and> (\<forall>n \<in> records s k. n < h \<longrightarrow> (k, n) \<in> settled s)"

text \<open>A step only adds records at the end and finished records.\<close>

definition extends :: "kafka_sys \<Rightarrow> kafka_sys \<Rightarrow> bool" where
  "extends s t \<longleftrightarrow> settled s \<subseteq> settled t \<and> skipped s \<subseteq> skipped t
     \<and> (\<forall>k. log_end s k \<le> log_end t k \<and> records t k \<inter> {..<log_end s k} = records s k \<inter> {..<log_end s k})"

lemma extends_sound:
  assumes "extends s t" and "sound s k h"
  shows "sound t k h"
proof -
  have "n \<in> records s k" if "n \<in> records t k" "n < h" for n
  proof -
    have "n \<in> records t k \<inter> {..<log_end s k}" using that assms(2) by (auto simp: sound_def)
    then show ?thesis using assms(1) unfolding extends_def by blast
  qed
  then show ?thesis using assms le_trans unfolding sound_def extends_def by blast
qed

lemma extends_fetch:
  assumes "extends s t" and "b \<le> log_end s k"
  shows "fetch t k a b = fetch s k a b"
proof -
  have "records t k \<inter> {..<log_end s k} = records s k \<inter> {..<log_end s k}" using assms(1) by (simp add: extends_def)
  then have "(records t k \<inter> {..<log_end s k}) \<inter> {a..<b} = (records s k \<inter> {..<log_end s k}) \<inter> {a..<b}" by simp
  moreover have "{..<log_end s k} \<inter> {a..<b} = {a..<b}" using assms(2) by auto
  ultimately have "records t k \<inter> {a..<b} = records s k \<inter> {a..<b}" by (simp only: Int_assoc)
  then show ?thesis by (simp add: fetch_def)
qed

lemma extends_same: "records t = records s \<Longrightarrow> log_end t = log_end s \<Longrightarrow> settled s \<subseteq> settled t \<Longrightarrow> skipped s \<subseteq> skipped t \<Longrightarrow> extends s t"
  by (simp add: extends_def)

lemma dispatch_simps:
  "records (dispatch_partition n r k rs s) = records s" "log_end (dispatch_partition n r k rs s) = log_end s" "committed (dispatch_partition n r k rs s) = committed s"
  "members (dispatch_partition n r k rs s) = members s" "handled (dispatch_partition n r k rs s) = handled s" "dead (dispatch_partition n r k rs s) = dead s"
  "skipped (dispatch_partition n r k rs s) = skipped s" "log_start (dispatch_partition n r k rs s) = log_start s"
  "next_worker (dispatch_partition n r k rs s) = next_worker s" "slots (dispatch_partition n r k rs s) = slots s"
  "marks (runners (dispatch_partition n r k rs s) q) = marks (runners s q)" "fetch_position (runners (dispatch_partition n r k rs s) q) = fetch_position (runners s q)"
  "fetched (runners (dispatch_partition n r k rs s) q) = fetched (runners s q)" "stage (runners (dispatch_partition n r k rs s) q) = stage (runners s q)"
  "current (runners (dispatch_partition n r k rs s) q) = current (runners s q)"
  by (auto simp: dispatch_partition_def client_defs split: option.splits prod.splits)

lemma assign_simps:
  "records (assign r ks s) = records s" "log_end (assign r ks s) = log_end s" "committed (assign r ks s) = committed s" "members (assign r ks s) = members s"
  "handled (assign r ks s) = handled s" "dead (assign r ks s) = dead s" "skipped (assign r ks s) = skipped s" "log_start (assign r ks s) = log_start s" "slots (assign r ks s) = slots s" "marks (runners (assign r ks s) q) = marks (runners s q)"
  "fetch_position (runners (assign r ks s) q) = fetch_position (runners s q)" "fetched (runners (assign r ks s) q) = fetched (runners s q)"
  "stage (runners (assign r ks s) q) = stage (runners s q)"
proof -
  have one: "records (assign_partition r k u) = records u \<and> log_end (assign_partition r k u) = log_end u \<and> committed (assign_partition r k u) = committed u
      \<and> members (assign_partition r k u) = members u \<and> handled (assign_partition r k u) = handled u \<and> dead (assign_partition r k u) = dead u
      \<and> skipped (assign_partition r k u) = skipped u \<and> log_start (assign_partition r k u) = log_start u
      \<and> slots (assign_partition r k u) = slots u \<and> marks (runners (assign_partition r k u) q) = marks (runners u q)
      \<and> fetch_position (runners (assign_partition r k u) q) = fetch_position (runners u q) \<and> fetched (runners (assign_partition r k u) q) = fetched (runners u q)
      \<and> stage (runners (assign_partition r k u) q) = stage (runners u q)" for k u
    by (auto simp: assign_partition_def)
  have "records (fold (assign_partition r) ks u) = records u \<and> log_end (fold (assign_partition r) ks u) = log_end u \<and> committed (fold (assign_partition r) ks u) = committed u
      \<and> members (fold (assign_partition r) ks u) = members u \<and> handled (fold (assign_partition r) ks u) = handled u \<and> dead (fold (assign_partition r) ks u) = dead u
      \<and> skipped (fold (assign_partition r) ks u) = skipped u \<and> log_start (fold (assign_partition r) ks u) = log_start u
      \<and> slots (fold (assign_partition r) ks u) = slots u \<and> marks (runners (fold (assign_partition r) ks u) q) = marks (runners u q)
      \<and> fetch_position (runners (fold (assign_partition r) ks u) q) = fetch_position (runners u q)
      \<and> fetched (runners (fold (assign_partition r) ks u) q) = fetched (runners u q) \<and> stage (runners (fold (assign_partition r) ks u) q) = stage (runners u q)" for u
    by (induction ks arbitrary: u) (simp_all add: one)
  then show "records (assign r ks s) = records s" "log_end (assign r ks s) = log_end s" "committed (assign r ks s) = committed s" "members (assign r ks s) = members s"
    "handled (assign r ks s) = handled s" "dead (assign r ks s) = dead s" "skipped (assign r ks s) = skipped s" "log_start (assign r ks s) = log_start s" "slots (assign r ks s) = slots s" "marks (runners (assign r ks s) q) = marks (runners s q)"
    "fetch_position (runners (assign r ks s) q) = fetch_position (runners s q)" "fetched (runners (assign r ks s) q) = fetched (runners s q)"
    "stage (runners (assign r ks s) q) = stage (runners s q)"
    by (auto simp: assign_def client_defs)
qed

lemma client_assign_simps:
  "records (client_assign r ks s) = records s" "log_end (client_assign r ks s) = log_end s" "committed (client_assign r ks s) = committed s"
  "members (client_assign r ks s) = members s" "handled (client_assign r ks s) = handled s" "dead (client_assign r ks s) = dead s"
  "skipped (client_assign r ks s) = skipped s" "log_start (client_assign r ks s) = log_start s"
  "slots (client_assign r ks s) = slots s" "workers (client_assign r ks s) = workers s" "next_worker (client_assign r ks s) = next_worker s"
  "fetch_position (runners (client_assign r ks s) q) k = (if q = r \<and> k \<in> set ks then (case committed s k of Some h \<Rightarrow> h | None \<Rightarrow> 0) else fetch_position (runners s q) k)"
  by (simp_all add: client_assign_def)

lemma complete_simps:
  "records (complete w n s) = records s" "log_end (complete w n s) = log_end s" "committed (complete w n s) = committed s" "members (complete w n s) = members s"
  "handled (complete w n s) = handled s" "dead (complete w n s) = dead s" "skipped (complete w n s) = skipped s" "log_start (complete w n s) = log_start s" "slots (complete w n s) = slots s" "next_worker (complete w n s) = next_worker s"
  "workers (complete w n s) = (workers s)(w := (workers s w)\<lparr>pos := Waiting\<rparr>)"
  "fetch_position (runners (complete w n s) q) = fetch_position (runners s q)" "fetched (runners (complete w n s) q) = fetched (runners s q)"
  "stage (runners (complete w n s) q) = stage (runners s q)" "current (runners (complete w n s) q) = current (runners s q)"
  "client_paused (runners (complete w n s) q) = client_paused (runners s q)"
  by (auto simp: complete_def Let_def client_defs)

lemma complete_marks:
  "marks (runners (complete w n s) q) k =
    (if q = home (workers s w) \<and> k = partition (workers s w) \<and> \<not> revoked (workers s w)
     then Some (case marks (runners s q) k of None \<Rightarrow> n + 1 | Some h \<Rightarrow> max h (n + 1)) else marks (runners s q) k)"
  by (auto simp: complete_def Let_def client_defs)

lemma step_extends: "kafka_step cfg calm s t \<Longrightarrow> extends s t"
proof (induction rule: kafka_step.induct)
  case (append s k n)
  then show ?case by (auto simp: extends_def)
qed (auto intro!: extends_same simp: assign_simps client_assign_simps dispatch_simps complete_simps revoke_begin_simps shutdown_simps set_pos_def
      poll_def Let_def give_up_def commit_def look_up_def)

lemma fetch_sorted: "sorted (fetch s k a b)" "distinct (fetch s k a b)" "set (fetch s k a b) = records s k \<inter> {a..<b}"
  by (simp_all add: fetch_def)

lemma fetch_empty [simp]: "fetch s k a a = []"
  by (simp add: fetch_def)

lemma fetch_on [simp]: "fetch (on_runner r x s) k a b = fetch s k a b" "fetch (on_worker w y s) k a b = fetch s k a b"
  by (simp_all add: fetch_def)

text \<open>
  The list is what a client or worker has of the records from \<open>a\<close> to \<open>b\<close>: in order, and complete but for records
  that were passed over.
\<close>

definition holds :: "kafka_sys \<Rightarrow> nat \<Rightarrow> nat \<Rightarrow> nat \<Rightarrow> nat list \<Rightarrow> bool" where
  "holds s k a b xs \<longleftrightarrow> sorted_wrt (<) xs \<and> set xs \<subseteq> records s k \<inter> {a..<b}
     \<and> (\<forall>n \<in> records s k. a \<le> n \<and> n < b \<and> n \<notin> set xs \<longrightarrow> (k, n) \<in> skipped s)"

lemma holds_fetch: "holds s k a b (fetch s k a b)"
  using fetch_sorted [of s k a b] by (auto simp: holds_def strict_sorted_iff)

lemma holds_on [simp]: "holds (on_runner r x s) k a b xs = holds s k a b xs" "holds (on_worker w y s) k a b xs = holds s k a b xs"
  by (simp_all add: holds_def)

lemma holds_empty [simp]: "holds s k a a []"
  by (auto simp: holds_def)

lemma holds_append:
  assumes "holds s k a b xs" and "holds s k b c ys" and "a \<le> b" and "b \<le> c"
  shows "holds s k a c (xs @ ys)"
proof -
  have xs: "sorted_wrt (<) xs" "\<And>x. x \<in> set xs \<Longrightarrow> x \<in> records s k \<and> a \<le> x \<and> x < b" using assms(1) by (auto simp: holds_def)
  have ys: "sorted_wrt (<) ys" "\<And>y. y \<in> set ys \<Longrightarrow> y \<in> records s k \<and> b \<le> y \<and> y < c" using assms(2) by (auto simp: holds_def)
  have "x < y" if "x \<in> set xs" "y \<in> set ys" for x y using xs(2) [OF that(1)] ys(2) [OF that(2)] by linarith
  then have "sorted_wrt (<) (xs @ ys)" using xs(1) ys(1) by (simp add: sorted_wrt_append)
  moreover have "x \<in> records s k \<inter> {a..<c}" if "x \<in> set (xs @ ys)" for x
  proof (cases "x \<in> set xs")
    case True
    then show ?thesis using xs(2) [OF True] assms(4) by simp
  next
    case False
    then have "x \<in> set ys" using that by simp
    then show ?thesis using ys(2) [of x] assms(3) by simp
  qed
  moreover have "(k, n) \<in> skipped s" if "n \<in> records s k" "a \<le> n" "n < c" "n \<notin> set (xs @ ys)" for n
    using assms(1,2) that by (cases "n < b") (auto simp: holds_def)
  ultimately show ?thesis by (auto simp: holds_def)
qed

lemma holds_skip:
  assumes "holds s k a b xs" and "a \<le> b" and "b \<le> c" and "\<And>n. n \<in> records s k \<Longrightarrow> b \<le> n \<Longrightarrow> n < c \<Longrightarrow> (k, n) \<in> skipped s"
  shows "holds s k a c xs"
  using holds_append [OF assms(1), of c "[]"] assms(2-4) by (simp add: holds_def)

lemma holds_Cons:
  assumes "holds s k a b (n # ns)"
  shows "a \<le> n" "n < b" "\<And>m. m \<in> records s k \<Longrightarrow> a \<le> m \<Longrightarrow> m \<le> n \<Longrightarrow> m = n \<or> (k, m) \<in> skipped s" "holds s k (n + 1) b ns"
proof -
  show n: "a \<le> n" "n < b" using assms by (auto simp: holds_def)
  have lt: "n < x" if "x \<in> set ns" for x using assms that by (simp add: holds_def)
  show "m = n \<or> (k, m) \<in> skipped s" if "m \<in> records s k" "a \<le> m" "m \<le> n" for m
  proof (cases "m = n")
    case False
    then have "m \<notin> set (n # ns)" using lt that(3) by fastforce
    then show ?thesis using assms that n(2) by (auto simp: holds_def)
  qed simp
  show "holds s k (n + 1) b ns" using assms lt n(1) by (auto simp: holds_def Suc_le_eq)
qed

lemma extends_holds:
  assumes "extends s t" and "b \<le> log_end s k" and "holds s k a b xs"
  shows "holds t k a b xs"
proof -
  have r: "n \<in> records t k \<longleftrightarrow> n \<in> records s k" if "n < b" for n
  proof -
    have "n \<in> records t k \<inter> {..<log_end s k} \<longleftrightarrow> n \<in> records s k \<inter> {..<log_end s k}" using assms(1) by (simp add: extends_def)
    then show ?thesis using that assms(2) by simp
  qed
  have "set xs \<subseteq> records s k \<inter> {a..<b}" using assms(3) by (simp add: holds_def)
  then have "set xs \<subseteq> records t k \<inter> {a..<b}" using r by force
  moreover have "(k, n) \<in> skipped t" if "n \<in> records t k" "a \<le> n" "n < b" "n \<notin> set xs" for n
  proof -
    have "(k, n) \<in> skipped s" using assms(3) that r [OF that(3)] by (simp add: holds_def)
    then show ?thesis using assms(1) by (auto simp: extends_def)
  qed
  ultimately show ?thesis using assms(3) by (simp add: holds_def)
qed

text \<open>The records a worker still has: the one in its hand and the queue.\<close>

fun hand :: "position \<Rightarrow> nat list" where
  "hand Waiting = []" | "hand (Has n) = [n]" | "hand (Running n) = [n]" | "hand (Completing n) = [n]" | "hand Exited = []"

definition linked :: "kafka_sys \<Rightarrow> nat \<Rightarrow> nat \<Rightarrow> nat \<Rightarrow> bool" where
  "linked s r k b =
     (let x = runners s r; p = fetch_position x k in
      case stage x of
        Over \<Rightarrow> True
      | Polling \<Rightarrow> (case map_of (fetched x) k of None \<Rightarrow> b = p | Some rs \<Rightarrow> b \<le> p \<and> holds s k b p rs)
      | _ \<Rightarrow> b = p)"

definition lower :: "bool \<Rightarrow> kafka_sys \<Rightarrow> nat \<Rightarrow> nat \<Rightarrow> nat \<Rightarrow> bool" where
  "lower calm s r k a \<longleftrightarrow> (calm \<and> r \<in> members s \<longrightarrow> (\<forall>h. committed s k = Some h \<longrightarrow> h \<le> a) \<and> (\<forall>h. marks (runners s r) k = Some h \<longrightarrow> h \<le> a))"

text \<open>
  What a worker holds are the records of its partition from some offset \<open>a\<close> up to some offset \<open>b\<close>, but for those that were passed over;
  everything below \<open>a\<close> is done, the next records to be fetched are those from \<open>b\<close> on, and nothing above \<open>a\<close> is marked or committed.
\<close>

definition chain_at :: "bool \<Rightarrow> kafka_sys \<Rightarrow> nat \<Rightarrow> nat \<Rightarrow> nat \<Rightarrow> bool" where
  "chain_at calm s w a b \<longleftrightarrow>
     (let x = workers s w; r = home x; k = partition x in
      sound s k a \<and> a \<le> b \<and> b \<le> log_end s k \<and> holds s k a b (hand (pos x) @ queue x)
      \<and> (\<forall>n. pos x = Completing n \<longrightarrow> (k, n) \<in> settled s)
      \<and> (current (runners s r) k = Some w \<longrightarrow> linked s r k b) \<and> lower calm s r k a)"

definition active :: "kafka_sys \<Rightarrow> nat \<Rightarrow> bool" where
  "active s w \<longleftrightarrow> w < next_worker s \<and> \<not> revoked (workers s w) \<and> pos (workers s w) \<noteq> Exited"

definition chain_ok :: "bool \<Rightarrow> kafka_sys \<Rightarrow> bool" where
  "chain_ok calm s \<longleftrightarrow> (\<forall>w. active s w \<longrightarrow> (\<exists>a b. chain_at calm s w a b))"

definition log_ok :: "kafka_sys \<Rightarrow> bool" where
  "log_ok s \<longleftrightarrow> (\<forall>k h. committed s k = Some h \<longrightarrow> sound s k h) \<and> (\<forall>r k h. marks (runners s r) k = Some h \<longrightarrow> sound s k h)
     \<and> (\<forall>r k. fetch_position (runners s r) k \<le> log_end s k) \<and> (\<forall>r. distinct (map fst (fetched (runners s r))))
     \<and> (\<forall>k. log_start s k \<le> log_end s k)"

lemma log_okD:
  assumes "log_ok s"
  shows "committed s k = Some h \<Longrightarrow> sound s k h" "marks (runners s r) k = Some h \<Longrightarrow> sound s k h" "fetch_position (runners s r) k \<le> log_end s k"
    "distinct (map fst (fetched (runners s r)))" "log_start s k \<le> log_end s k"
  using assms unfolding log_ok_def by blast+

lemma chain_frame:
  assumes "chain_at calm s w a b" and "extends s t"
    and "home (workers t w) = home (workers s w)" "partition (workers t w) = partition (workers s w)"
      "pos (workers t w) = pos (workers s w)" "queue (workers t w) = queue (workers s w)"
    and "current (runners t (home (workers s w))) (partition (workers s w)) = Some w \<Longrightarrow>
      current (runners s (home (workers s w))) (partition (workers s w)) = Some w
      \<and> (linked s (home (workers s w)) (partition (workers s w)) b \<longrightarrow> linked t (home (workers s w)) (partition (workers s w)) b)"
    and "lower calm s (home (workers s w)) (partition (workers s w)) a \<Longrightarrow> lower calm t (home (workers s w)) (partition (workers s w)) a"
  shows "chain_at calm t w a b"
proof -
  let ?k = "partition (workers s w)"
  have "log_end s ?k \<le> log_end t ?k" "settled s \<subseteq> settled t" using assms(2) by (auto simp: extends_def)
  then show ?thesis
    using assms(1,7,8) extends_sound [OF assms(2)] extends_holds [OF assms(2)] unfolding chain_at_def Let_def assms(3-6) by (auto intro: le_trans)
qed

lemma linked_frame:
  assumes "linked s r k b" and "extends s t" and "fetch_position (runners s r) k \<le> log_end s k"
    and "stage (runners t r) = stage (runners s r)" "map_of (fetched (runners t r)) k = map_of (fetched (runners s r)) k"
      "fetch_position (runners t r) k = fetch_position (runners s r) k"
  shows "linked t r k b"
  using assms(1) extends_holds [OF assms(2,3)] unfolding linked_def Let_def assms(4-6) by (auto split: stage.splits option.splits)

lemma lower_frame:
  assumes "lower calm s r k a" and "r \<in> members t \<Longrightarrow> r \<in> members s" and "committed t k = committed s k" and "marks (runners t r) k = marks (runners s r) k"
  shows "lower calm t r k a"
  using assms unfolding lower_def by simp

lemma completing_sound:
  assumes "chain_at calm s w a b" and "pos (workers s w) = Completing n"
  shows "sound s (partition (workers s w)) (n + 1)" "a \<le> n" "n < b" "holds s (partition (workers s w)) (n + 1) b (queue (workers s w))"
proof -
  let ?k = "partition (workers s w)"
  have f: "holds s ?k a b (n # queue (workers s w))" and c: "sound s ?k a" "b \<le> log_end s ?k" "(?k, n) \<in> settled s"
    using assms by (auto simp: chain_at_def Let_def)
  show "a \<le> n" "n < b" "holds s ?k (n + 1) b (queue (workers s w))" using holds_Cons [OF f] by blast+
  have "(?k, m) \<in> settled s" if "m \<in> records s ?k" "m < n + 1" for m
  proof (cases "m < a")
    case True
    then show ?thesis using c(1) that(1) unfolding sound_def by blast
  next
    case False
    then have "m = n \<or> (?k, m) \<in> skipped s" using holds_Cons(3) [OF f that(1)] that(2) by simp
    then show ?thesis using c(3) by auto
  qed
  then show "sound s ?k (n + 1)" using \<open>n < b\<close> c(2) by (auto simp: sound_def)
qed

lemma log_cong:
  assumes "log_ok s" and "extends s t"
    and "\<And>k. committed t k = committed s k \<or> (\<exists>r. marks (runners s r) k = committed t k)"
    and "\<And>r k h. marks (runners t r) k = Some h \<Longrightarrow> marks (runners s r) k = Some h \<or> sound s k h"
    and "\<And>r k. fetch_position (runners t r) k \<le> log_end s k"
    and "\<And>r. distinct (map fst (fetched (runners t r)))"
    and "\<And>k. log_start t k \<le> log_end s k"
  shows "log_ok t"
proof -
  have "sound t k h" if "committed t k = Some h" for k h
    using that assms(3) [of k] log_okD(1) [OF assms(1), of k] log_okD(2) [OF assms(1)] extends_sound [OF assms(2)] by metis
  moreover have "sound t k h" if "marks (runners t r) k = Some h" for r k h
    using assms(4) [OF that] log_okD(2) [OF assms(1)] extends_sound [OF assms(2)] by blast
  moreover have "fetch_position (runners t r) k \<le> log_end t k" for r k
    using assms(5) [of r k] assms(2) le_trans unfolding extends_def by blast
  moreover have "log_start t k \<le> log_end t k" for k using assms(7) [of k] assms(2) le_trans unfolding extends_def by blast
  ultimately show ?thesis using assms(6) unfolding log_ok_def by blast
qed

lemma log_same:
  assumes "log_ok s" and "extends s t" and "committed t = committed s" and "\<And>r. marks (runners t r) = marks (runners s r)"
    and "\<And>r. fetch_position (runners t r) = fetch_position (runners s r)" and "\<And>r. fetched (runners t r) = fetched (runners s r) \<or> fetched (runners t r) = []"
    and "\<And>k. log_start t k \<le> log_end s k"
  shows "log_ok t"
proof (rule log_cong [OF assms(1,2)], goal_cases)
  case (4 r)
  then show ?case using assms(6) [of r] log_okD(4) [OF assms(1), of r] by auto
qed (use assms(3-5,7) log_okD(3) [OF assms(1)] in auto)

lemma poll_simps:
  "workers (poll r ends s) = workers s" "next_worker (poll r ends s) = next_worker s" "members (poll r ends s) = members s" "committed (poll r ends s) = committed s"
  "marks (runners (poll r ends s) q) = marks (runners s q)" "current (runners (poll r ends s) q) = current (runners s q)"
  "client_paused (runners (poll r ends s) q) = client_paused (runners s q)"
  "records (poll r ends s) = records s" "log_end (poll r ends s) = log_end s" "handled (poll r ends s) = handled s" "dead (poll r ends s) = dead s"
  "skipped (poll r ends s) = skipped s" "log_start (poll r ends s) = log_start s" "slots (poll r ends s) = slots s"
  by (auto simp: poll_def Let_def)

lemma log_poll:
  assumes "log_ok s" and "poll_ok n r ends s"
  shows "log_ok (poll r ends s)"
proof (rule log_cong [OF assms(1)], goal_cases)
  case (4 q k)
  show ?case using assms(2) log_okD(3) [OF assms(1), of q k]
    by (auto simp: poll_def poll_ok_def Let_def list_all_iff split: option.splits dest!: map_of_SomeD)
next
  case (5 q)
  have "map fst (map (\<lambda>(k, b). (k, fetch s k (fetch_position (runners s r) k) b)) ends) = map fst ends" by (induction ends) auto
  then show ?case using assms(2) log_okD(4) [OF assms(1), of q] by (auto simp: poll_def poll_ok_def Let_def simp del: map_map)
qed (use log_okD(5) [OF assms(1)] in \<open>auto simp: poll_simps intro: extends_same\<close>)

lemma log_look_up:
  assumes "log_ok s"
  shows "log_ok (look_up st r k s)"
proof (rule log_cong [OF assms], goal_cases)
  case 1
  show ?case by (rule extends_same) (auto simp: look_up_def Let_def)
next
  case (4 q j)
  then show ?case using log_okD(3,5) [OF assms] by (simp add: look_up_def Let_def kafkaOffset_def)
qed (use log_okD [OF assms] in \<open>simp_all add: look_up_simps\<close>)

lemma log_step:
  assumes "kafka_step cfg calm s t" and "log_ok s" and "chain_ok calm s"
  shows "log_ok t"
  using assms(1)
proof cases
  case (polled r ends)
  then show ?thesis using log_poll [OF assms(2)] by simp
next
  case (completed w n)
  have c: "sound s (partition (workers s w)) (n + 1)" if "\<not> revoked (workers s w)"
    using assms(3) completed(2,3) that completing_sound(1) unfolding chain_ok_def active_def by fastforce
  show ?thesis unfolding completed(1)
  proof (rule log_cong [OF assms(2)], goal_cases)
    case (3 r k h)
    then show ?case using c log_okD(2) [OF assms(2), of r k] by (auto simp: complete_marks max_def split: if_splits option.splits)
  qed (use log_okD [OF assms(2)] in \<open>auto simp: complete_simps intro: extends_same\<close>)
next
  case (located k r)
  then show ?thesis using log_look_up [OF assms(2)] by simp
next
  case (dispatched r k rs fs)
  have "distinct (map fst fs)" using log_okD(4) [OF assms(2), of r] dispatched(3) by simp
  then show ?thesis unfolding dispatched(1)
    by (intro log_cong [OF assms(2) step_extends [OF assms(1)[unfolded dispatched(1)]]]) (use log_okD [OF assms(2)] in \<open>auto simp: dispatch_simps split: if_splits\<close>)
next
  case (assigned r ks)
  show ?thesis unfolding assigned(1)
    by (intro log_cong [OF assms(2) step_extends [OF assms(1)[unfolded assigned(1)]]])
      (use log_okD [OF assms(2)] in \<open>auto simp: assign_simps client_assign_simps sound_def split: option.splits\<close>)
next
  case (committed_marks r K)
  show ?thesis unfolding committed_marks(1)
    by (intro log_cong [OF assms(2) step_extends [OF assms(1)[unfolded committed_marks(1)]]])
      (use log_okD [OF assms(2)] in \<open>auto simp: commit_def split: option.splits\<close>)
next
  case (given_up k x r)
  show ?thesis unfolding given_up(1)
    by (intro log_cong [OF assms(2) step_extends [OF assms(1)[unfolded given_up(1)]]])
      (use log_okD [OF assms(2)] in \<open>auto simp: give_up_def client_defs split: if_splits\<close>)
qed (rule log_same [OF assms(2) step_extends [OF assms(1)]];
     use log_okD(5) [OF assms(2)] in \<open>auto simp: revoke_begin_simps shutdown_simps set_pos_def client_defs\<close>)+

lemma chain_okI: "(\<And>w. active s w \<Longrightarrow> \<exists>a b. chain_at calm s w a b) \<Longrightarrow> chain_ok calm s"
  by (simp add: chain_ok_def)

lemma chain_okE:
  assumes "chain_ok calm s" and "active s w"
  obtains a b where "chain_at calm s w a b"
  using assms unfolding chain_ok_def by blast

text \<open>Steps that leave a worker, the fetch state of its partition and its marks alone.\<close>

definition same_view :: "kafka_sys \<Rightarrow> kafka_sys \<Rightarrow> nat \<Rightarrow> nat \<Rightarrow> bool" where
  "same_view s t r k \<longleftrightarrow> stage (runners t r) = stage (runners s r) \<and> map_of (fetched (runners t r)) k = map_of (fetched (runners s r)) k
     \<and> fetch_position (runners t r) k = fetch_position (runners s r) k"

lemma chain_same:
  assumes "log_ok s" and "extends s t" and "chain_at calm s w a b"
    and "home (workers t w) = home (workers s w)" "partition (workers t w) = partition (workers s w)"
      "pos (workers t w) = pos (workers s w)" "queue (workers t w) = queue (workers s w)"
    and "\<And>r k. home (workers s w) = r \<Longrightarrow> partition (workers s w) = k \<Longrightarrow> current (runners t r) k = Some w \<Longrightarrow> current (runners s r) k = Some w \<and> same_view s t r k"
    and "\<And>r k. home (workers s w) = r \<Longrightarrow> partition (workers s w) = k \<Longrightarrow> lower calm s r k a \<Longrightarrow> lower calm t r k a"
  shows "chain_at calm t w a b"
proof (rule chain_frame [OF assms(3,2,4-7)])
  assume "current (runners t (home (workers s w))) (partition (workers s w)) = Some w"
  then show "current (runners s (home (workers s w))) (partition (workers s w)) = Some w
      \<and> (linked s (home (workers s w)) (partition (workers s w)) b \<longrightarrow> linked t (home (workers s w)) (partition (workers s w)) b)"
    using assms(8) [OF refl refl] linked_frame [OF _ assms(2) log_okD(3) [OF assms(1)]] unfolding same_view_def by blast
qed (use assms(9) in blast)

lemma workers_irrelevant [simp]:
  "sound (s\<lparr>workers := W\<rparr>) k h = sound s k h" "holds (s\<lparr>workers := W\<rparr>) k a b xs = holds s k a b xs" "fetch (s\<lparr>workers := W\<rparr>) k a b = fetch s k a b" "linked (s\<lparr>workers := W\<rparr>) r k b = linked s r k b"
  "lower calm (s\<lparr>workers := W\<rparr>) r k a = lower calm s r k a" "extends u (s\<lparr>workers := W\<rparr>) = extends u s"
  by (simp_all add: sound_def holds_def fetch_def linked_def lower_def extends_def Let_def split: stage.split option.split)

text \<open>Steps of one worker that do not touch its runner.\<close>

lemma chain_worker_step:
  assumes "log_ok s" and "chain_ok calm s" and "extends s t" and "next_worker t = next_worker s" and "\<And>v. v \<noteq> w \<Longrightarrow> workers t v = workers s v"
    and "\<And>r. current (runners t r) = current (runners s r)" "\<And>r k. same_view s t r k" "\<And>r. marks (runners t r) = marks (runners s r)"
      "committed t = committed s" "members t = members s"
    and "home (workers t w) = home (workers s w)" "partition (workers t w) = partition (workers s w)" "\<not> revoked (workers t w) \<Longrightarrow> \<not> revoked (workers s w)"
    and "active t w \<Longrightarrow> pos (workers s w) \<noteq> Exited \<and> hand (pos (workers t w)) @ queue (workers t w) = hand (pos (workers s w)) @ queue (workers s w)"
    and "\<And>n. pos (workers t w) = Completing n \<Longrightarrow> active t w \<Longrightarrow> pos (workers s w) = Completing n \<or> (partition (workers s w), n) \<in> settled t"
  shows "chain_ok calm t"
proof (rule chain_okI)
  fix v assume v: "active t v"
  have l: "lower calm t r k a = lower calm s r k a" for r k a using assms(8-10) by (simp add: lower_def)
  have vs: "active s v" using v assms(4,5,13,14) unfolding active_def by (cases "v = w") auto
  obtain a b where c: "chain_at calm s v a b" by (rule chain_okE [OF assms(2) vs])
  show "\<exists>a b. chain_at calm t v a b"
  proof (cases "v = w")
    case False
    then have "chain_at calm t v a b" using assms(5-7) l by (intro chain_same [OF assms(1,3) c]) auto
    then show ?thesis by blast
  next
    case True
    let ?u = "t\<lparr>workers := (workers t)(w := workers s w)\<rparr>"
    have "chain_at calm ?u w a b"
    proof (rule chain_same [OF assms(1)])
      show "extends s ?u" using assms(3) by (simp add: extends_def)
      show "chain_at calm s w a b" using c True by simp
    qed (use assms(6,7) l in \<open>auto simp: same_view_def lower_def\<close>)
    then have "chain_at calm t w a b"
      using assms(11,12) assms(14,15) v True unfolding chain_at_def Let_def by auto
    then show ?thesis using True by blast
  qed
qed

text \<open>Steps that leave all workers alone.\<close>

lemma chain_runner_step:
  assumes "chain_ok calm s" and "extends s t" and "next_worker t = next_worker s"
    and "\<And>w. home (workers t w) = home (workers s w)" "\<And>w. partition (workers t w) = partition (workers s w)"
      "\<And>w. pos (workers t w) = pos (workers s w)" "\<And>w. queue (workers t w) = queue (workers s w)" "\<And>w. \<not> revoked (workers t w) \<Longrightarrow> \<not> revoked (workers s w)"
    and "\<And>w r k b. current (runners t r) k = Some w \<Longrightarrow> current (runners s r) k = Some w \<and> (linked s r k b \<longrightarrow> linked t r k b)"
    and "\<And>w r k a. active s w \<Longrightarrow> home (workers s w) = r \<Longrightarrow> partition (workers s w) = k \<Longrightarrow> lower calm s r k a \<Longrightarrow> lower calm t r k a"
  shows "chain_ok calm t"
proof (rule chain_okI)
  fix w assume "active t w"
  then have w: "active s w" using assms(3,6,8) by (auto simp: active_def)
  obtain a b where c: "chain_at calm s w a b" by (rule chain_okE [OF assms(1) w])
  have "chain_at calm t w a b" by (rule chain_frame [OF c assms(2) assms(4-7) [of w] assms(9) assms(10) [OF w refl refl]])
  then show "\<exists>a b. chain_at calm t w a b" by blast
qed

text \<open>The position of a newly assigned partition, before it is looked up where that is needed.\<close>

definition first_position :: "kafka_sys \<Rightarrow> nat \<Rightarrow> nat" where
  "first_position s k = (case committed s k of Some h \<Rightarrow> h | None \<Rightarrow> 0)"

lemma first_position_sound: "log_ok s \<Longrightarrow> sound s k (first_position s k)"
  using log_okD(1) [of s k] by (auto simp: first_position_def sound_def split: option.splits)

lemma chain_assign_partition:
  assumes "chain_ok calm s" and "log_ok s" and "stage (runners s r) \<noteq> Polling"
    and "fetch_position (runners s r) k = first_position s k" and "calm \<longrightarrow> marks (runners s r) k = None"
  shows "chain_ok calm (assign_partition r k s)"
proof (cases "current (runners s r) k = None")
  case True
  let ?t = "assign_partition r k s" and ?p = "first_position s k"
  note S = assign_partition_simps [OF True]
  have ex: "extends s ?t" by (rule extends_same) (simp_all add: S)
  show ?thesis
  proof (rule chain_okI)
    fix w assume w: "active ?t w"
    show "\<exists>a b. chain_at calm ?t w a b"
    proof (cases "w = next_worker s")
      case True
      have "linked ?t r k ?p" using assms(3,4) by (auto simp: linked_def S split: stage.split)
      moreover have "lower calm ?t r k ?p" using assms(5) by (auto simp: lower_def S first_position_def)
      moreover have "sound ?t k ?p" by (rule extends_sound [OF ex first_position_sound [OF assms(2)]])
      ultimately have "chain_at calm ?t w ?p ?p" using True by (simp add: chain_at_def S sound_def)
      then show ?thesis by blast
    next
      case False
      then have "active s w" using w by (auto simp: active_def S)
      then obtain a b where c: "chain_at calm s w a b" by (rule chain_okE [OF assms(1)])
      have "chain_at calm ?t w a b"
        by (rule chain_same [OF assms(2) ex c]) (use False in \<open>auto simp: S same_view_def lower_def split: if_splits\<close>)
      then show ?thesis by blast
    qed
  qed
qed (simp add: assign_partition_def assms)

lemma first_position_keeps: "committed t = committed s \<Longrightarrow> first_position t k = first_position s k"
  by (simp add: first_position_def)

lemma assign_partition_log: "log_ok s \<Longrightarrow> log_ok (assign_partition r k s)"
  by (rule log_same [of s]) (auto simp: assign_partition_def log_okD(5) intro: extends_same)

lemma chain_assign_all:
  assumes "chain_ok calm s" and "log_ok s" and "stage (runners s r) \<noteq> Polling"
    and "\<forall>k \<in> set ks. fetch_position (runners s r) k = first_position s k \<and> (calm \<longrightarrow> marks (runners s r) k = None)"
  shows "chain_ok calm (fold (assign_partition r) ks s)"
  using assms
proof (induction ks arbitrary: s)
  case (Cons k ks)
  have "first_position (assign_partition r k s) j = first_position s j" for j by (rule first_position_keeps) (simp add: assign_partition_keeps)
  then show ?case using Cons.prems by (simp add: assign_partition_keeps Cons.IH assign_partition_log chain_assign_partition)
qed simp

lemma chain_assign:
  assumes "chain_ok calm s" and "log_ok s" and "struct_ok s" and "calm \<longrightarrow> calm_ok s" and "stage (runners s r) \<noteq> Polling"
    and "list_all (\<lambda>k. holder s k = None \<and> k \<notin> owned (runners s r)) ks"
  shows "chain_ok calm (assign r ks (client_assign r ks s))"
proof -
  let ?c = "client_assign r ks s"
  let ?d = "on_runner r (ResumeFetchPartitions (set ks) (runners ?c r)) ?c"
  have ex: "extends s ?c" by (rule extends_same) (simp_all add: client_assign_simps)
  have c: "chain_ok calm ?c"
  proof (rule chain_runner_step [OF assms(1) ex], goal_cases)
    case (7 w q k b)
    then have "\<not> (q = r \<and> k \<in> set ks)" using struct_okD(1) [OF assms(3), of q k w] assms(6) by (auto simp: list_all_iff)
    then have "linked s q k b \<longrightarrow> linked ?c q k b"
      using linked_frame [OF _ ex log_okD(3) [OF assms(2)], of q k b] by (auto simp: client_assign_simps)
    then show ?case using 7 by simp
  qed (auto simp: client_assign_simps lower_def)
  have lc: "log_ok ?c" by (rule log_cong [OF assms(2) ex]) (use log_okD [OF assms(2)] in \<open>auto simp: client_assign_simps sound_def split: option.splits\<close>)
  have exd: "extends ?c ?d" by (rule extends_same) simp_all
  have d: "chain_ok calm ?d"
    by (rule chain_runner_step [OF c exd])
      (use linked_frame [OF _ exd log_okD(3) [OF lc]] in \<open>auto simp: client_defs lower_def split: if_splits\<close>)
  have ld: "log_ok ?d" by (rule log_same [OF lc exd]) (use log_okD(5) [OF lc] in \<open>auto simp: client_defs\<close>)
  have m: "calm \<longrightarrow> marks (runners s r) k = None" if "k \<in> set ks" for k
    using assms(4,6) calm_okD(3) [of s r k] that by (cases "marks (runners s r) k") (auto simp: list_all_iff)
  show ?thesis
    using chain_assign_all [OF c lc, of r ks] chain_assign_all [OF d ld, of r ks] assms(5) m c by (simp add: assign_def client_defs client_assign_simps first_position_def)
qed

lemma map_of_map_key: "map_of (map (\<lambda>(k, v). (k, f k v)) xs) k = map_option (f k) (map_of xs k)"
  by (induction xs) auto

lemma chain_poll:
  assumes "chain_ok calm s" and "log_ok s" and "stage (runners s r) = Between" and "poll_ok n r ends s"
  shows "chain_ok calm (poll r ends s)"
proof (rule chain_runner_step [OF assms(1)], goal_cases)
  case 1
  show ?case by (rule extends_same) (simp_all add: poll_simps)
next
  case (8 w q k b)
  have f: "holds (poll r ends s) j x y ys = holds s j x y ys" for j x y ys by (simp add: holds_def poll_simps)
  have "linked (poll r ends s) q k b" if "linked s q k b"
  proof (cases "q = r")
    case True
    then have b: "b = fetch_position (runners s r) k" using that assms(3) by (simp add: linked_def)
    have e: "map_of ends k = Some c \<Longrightarrow> fetch_position (runners s r) k \<le> c" for c
      using assms(4) by (auto simp: poll_ok_def list_all_iff dest!: map_of_SomeD)
    show ?thesis unfolding linked_def f using True b e holds_fetch by (auto simp: poll_def Let_def map_of_map_key split: option.splits)
  next
    case False
    then show ?thesis using that unfolding linked_def f by (simp add: poll_def Let_def)
  qed
  then show ?case using 8 by (simp add: poll_simps)
qed (auto simp: poll_simps lower_def)

lemma chain_dispatch:
  assumes "chain_ok calm s" and "log_ok s" and "struct_ok s" and "stage (runners s r) = Polling" and "fetched (runners s r) = (k, rs) # fs"
  shows "chain_ok calm (dispatch_partition n r k rs (on_runner r ((runners s r)\<lparr>fetched := fs\<rparr>) s))"
    (is "chain_ok calm ?t")
proof (rule chain_okI)
  let ?u = "on_runner r ((runners s r)\<lparr>fetched := fs\<rparr>) s"
  fix w assume w: "active ?t w"
  have ex: "extends s ?t" by (rule extends_same) (simp_all add: dispatch_simps)
  have d: "map_of fs k = None" using log_okD(4) [OF assms(2), of r] assms(5) by (simp add: map_of_eq_None_iff)
  have lo: "lower calm ?t q j a = lower calm s q j a" for q j a by (simp add: lower_def dispatch_simps)
  have cur: "current (runners ?t q) = current (runners s q)" for q by (simp add: dispatch_simps)
  show "\<exists>a b. chain_at calm ?t w a b"
  proof (cases "current (runners s r) k = Some w")
    case True
    obtain pause x where e: "worker_enqueue rs (2 * n) (workers s w) = (pause, x)" by fastforce
    have x: "workers ?t w = x" using True e by (simp add: dispatch_partition_def)
    note E = worker_enqueue_simps [OF e]
    have h: "home (workers s w) = r" "partition (workers s w) = k" "\<not> revoked (workers s w)" using struct_okD(1) [OF assms(3) True] by auto
    have "active s w" using w x E by (simp add: active_def dispatch_simps)
    then obtain a b where c: "chain_at calm s w a b" by (rule chain_okE [OF assms(1)])
    let ?p = "fetch_position (runners s r) k"
    have "linked s r k b" using c True h by (simp add: chain_at_def Let_def)
    then have b: "b \<le> ?p" "holds s k b ?p rs" using assms(4,5) by (simp_all add: linked_def Let_def)
    have ft: "holds ?t j y z ys = holds s j y z ys" for j y z ys by (simp add: holds_def dispatch_simps)
    have "hand (pos x) @ queue x = (hand (pos (workers s w)) @ queue (workers s w)) @ rs" using E h by simp
    moreover have "holds s k a ?p ((hand (pos (workers s w)) @ queue (workers s w)) @ rs)"
      by (rule holds_append [OF _ b(2) _ b(1)]) (use c h in \<open>simp_all add: chain_at_def Let_def\<close>)
    ultimately have q: "holds s k a ?p (hand (pos x) @ queue x)" by simp
    have "linked ?t r k ?p" using assms(4) d by (simp add: linked_def dispatch_simps)
    then have "chain_at calm ?t w a ?p"
      using q c h E b log_okD(3) [OF assms(2), of r k] extends_sound [OF ex] unfolding chain_at_def Let_def x ft lo by (simp add: dispatch_simps)
    then show ?thesis by blast
  next
    case False
    have x: "workers ?t w = workers s w" using False by (auto simp: dispatch_partition_def split: option.splits prod.splits)
    then have "active s w" using w by (simp add: active_def dispatch_simps)
    then obtain a b where c: "chain_at calm s w a b" by (rule chain_okE [OF assms(1)])
    have "same_view s ?t q j" if "current (runners s q) j = Some w" for q j
      using False that assms(5) unfolding same_view_def by (auto simp: dispatch_simps)
    then have "chain_at calm ?t w a b" using x lo cur by (intro chain_same [OF assms(2) ex c]) auto
    then show ?thesis by blast
  qed
qed

lemma chain_look_up:
  assumes "chain_ok calm s" and "log_ok s" and "struct_ok s"
  shows "chain_ok calm (look_up st r k s)" (is "chain_ok calm ?t")
proof (rule chain_okI)
  let ?p = "fetch_position (runners s r) k" and ?q = "fetch_position (runners ?t r) k"
  fix w assume "active ?t w"
  then have "active s w" by (simp add: active_def look_up_simps)
  then obtain a b where c: "chain_at calm s w a b" by (rule chain_okE [OF assms(1)])
  have ex: "extends s ?t" by (rule extends_same) (auto simp: look_up_def Let_def)
  have lo: "lower calm ?t q j a = lower calm s q j a" for q j a by (simp add: lower_def look_up_simps)
  have q: "?p \<le> ?q" "?q \<le> log_end s k" using log_okD(3) [OF log_look_up [OF assms(2)], of st r k r k] by (simp_all add: look_up_def Let_def)
  have sk: "(k, n) \<in> skipped ?t" if "n \<in> records ?t k" "?p \<le> n" "n < ?q" for n using that by (auto simp: look_up_def Let_def)
  show "\<exists>a b. chain_at calm ?t w a b"
  proof (cases "current (runners s r) k = Some w")
    case True
    have h: "home (workers s w) = r" "partition (workers s w) = k" using struct_okD(1) [OF assms(3) True] by auto
    let ?xs = "hand (pos (workers s w)) @ queue (workers s w)"
    have C: "sound s k a" "a \<le> b" "b \<le> log_end s k" "holds s k a b ?xs" "linked s r k b" "lower calm s r k a"
      and fin: "\<And>n. pos (workers s w) = Completing n \<Longrightarrow> (k, n) \<in> settled ?t"
      using c True h ex by (auto simp: chain_at_def Let_def extends_def)
    have H: "holds ?t k a b ?xs" by (rule extends_holds [OF ex C(3,4)])
    have "\<exists>d. b \<le> d \<and> d \<le> log_end s k \<and> linked ?t r k d \<and> holds ?t k a d ?xs"
    proof (cases "stage (runners s r) = Over \<or> (stage (runners s r) = Polling \<and> map_of (fetched (runners s r)) k \<noteq> None)")
      case True
      have "linked ?t r k b"
      proof (cases "stage (runners s r) = Over")
        case False
        then obtain rs where rs: "stage (runners s r) = Polling" "map_of (fetched (runners s r)) k = Some rs" using True by auto
        then have b: "b \<le> ?p" "holds s k b ?p rs" using C(5) by (simp_all add: linked_def Let_def)
        have "holds ?t k b ?q rs"
          by (rule holds_skip [OF extends_holds [OF ex log_okD(3) [OF assms(2)] b(2)] b(1) q(1) sk])
        then show ?thesis using rs b(1) q(1) by (simp add: linked_def Let_def look_up_simps)
      qed (simp add: linked_def Let_def look_up_simps)
      then show ?thesis using C(3) H by blast
    next
      case False
      then have b: "b = ?p" using C(5) by (auto simp: linked_def Let_def split: stage.splits option.splits)
      have "holds ?t k a ?q ?xs" by (rule holds_skip [OF H]) (use b C(2) q(1) sk in auto)
      moreover have "linked ?t r k ?q" using False by (auto simp: linked_def Let_def look_up_simps split: stage.splits option.splits)
      ultimately show ?thesis using b q by blast
    qed
    then obtain d where d: "b \<le> d" "d \<le> log_end s k" "linked ?t r k d" "holds ?t k a d ?xs" by blast
    have "chain_at calm ?t w a d"
      using d C extends_sound [OF ex C(1)] fin h lo by (simp add: chain_at_def Let_def look_up_simps)
    then show ?thesis by blast
  next
    case False
    have "same_view s ?t q j" if "current (runners s q) j = Some w" for q j
      using False that unfolding same_view_def by (auto simp: look_up_simps) (auto simp: look_up_def Let_def)
    then have "chain_at calm ?t w a b" using lo by (intro chain_same [OF assms(2) ex c]) (auto simp: look_up_simps)
    then show ?thesis by blast
  qed
qed

lemma chain_complete:
  assumes "chain_ok calm s" and "log_ok s" and "calm \<longrightarrow> calm_ok s" and "w < next_worker s" and "pos (workers s w) = Completing n"
  shows "chain_ok calm (complete w n s)"
proof (rule chain_okI)
  let ?t = "complete w n s"
  fix v assume v: "active ?t v"
  then have vs: "active s v" using assms(4,5) by (auto simp: active_def complete_simps split: if_splits)
  obtain a b where c: "chain_at calm s v a b" by (rule chain_okE [OF assms(1) vs])
  have ex: "extends s ?t" by (rule extends_same) (simp_all add: complete_simps)
  show "\<exists>a b. chain_at calm ?t v a b"
  proof (cases "v = w")
    case True
    let ?r = "home (workers s w)" and ?k = "partition (workers s w)"
    note C = completing_sound [OF c [unfolded True] assms(5)]
    have "lower calm s ?r ?k a" using c True by (simp add: chain_at_def Let_def)
    then have "lower calm ?t ?r ?k (n + 1)" using C(2) by (auto simp: lower_def complete_marks complete_simps split: option.splits)
    moreover have "linked ?t ?r ?k b" if "current (runners s ?r) ?k = Some w"
      by (rule linked_frame [OF _ ex log_okD(3) [OF assms(2)]]) (use c True that in \<open>auto simp: chain_at_def Let_def complete_simps\<close>)
    ultimately have "chain_at calm ?t w (n + 1) b"
      using c C True extends_sound [OF ex C(1)] by (simp add: chain_at_def Let_def complete_simps holds_def)
    then show ?thesis using True by blast
  next
    case False
    have "lower calm ?t q j a" if "lower calm s q j a" "home (workers s v) = q" "partition (workers s v) = j" for q j
    proof -
      have "\<not> (q = home (workers s w) \<and> j = partition (workers s w) \<and> \<not> revoked (workers s w))" if calm
        using calm_okD(4) [of s v w] assms(3,4) vs False that \<open>home (workers s v) = q\<close> \<open>partition (workers s v) = j\<close> by (auto simp: active_def)
      then show ?thesis using that(1) by (auto simp: lower_def complete_marks complete_simps)
    qed
    then have "chain_at calm ?t v a b"
      using False by (intro chain_same [OF assms(2) ex c]) (auto simp: complete_simps same_view_def)
    then show ?thesis by blast
  qed
qed

lemma chain_commit:
  assumes "chain_ok calm s" and "log_ok s" and "calm \<longrightarrow> calm_ok s" and "r \<in> members s"
  shows "chain_ok calm (commit r K s)"
proof (rule chain_runner_step [OF assms(1)], goal_cases)
  case 1
  show ?case by (rule extends_same) (simp_all add: commit_def)
next
  case (8 w q k b)
  have "linked (commit r K s) q k b = linked s q k b" by (simp add: linked_def commit_def holds_def cong: stage.case_cong option.case_cong)
  then show ?case using 8 by (simp add: commit_def)
next
  case (9 w q k a)
  have "h \<le> a" if "calm" "q \<in> members s" "marks (runners s r) k = Some h" for h
  proof -
    have ok: "calm_ok s" using assms(3) that(1) by simp
    have "k \<in> owned (runners s q)" using calm_okD(1) [OF ok, of w] 9(1-3) by (auto simp: active_def)
    then have "q = r" using calm_okD(2) [OF ok that(2)] calm_okD(2) [OF ok assms(4) calm_okD(3) [OF ok that(3)]] by simp
    then show ?thesis using 9(4) that by (simp add: lower_def)
  qed
  then show ?case using 9(4) by (auto simp: lower_def commit_def split: option.splits)
qed (auto simp: commit_def)

lemma chain_step:
  assumes "kafka_step cfg calm s t" and "chain_ok calm s" and "log_ok s" and "struct_ok s" and "calm \<longrightarrow> calm_ok s"
  shows "chain_ok calm t"
  using assms(1)
proof cases
  case (append k n)
  show ?thesis
    by (rule chain_runner_step [OF assms(2) step_extends [OF assms(1)]])
      (use linked_frame [OF _ step_extends [OF assms(1)] log_okD(3) [OF assms(3)]] append in \<open>auto simp: lower_def\<close>)
next
  case (deleted k n)
  show ?thesis
    by (rule chain_runner_step [OF assms(2) step_extends [OF assms(1)]])
      (use linked_frame [OF _ step_extends [OF assms(1)] log_okD(3) [OF assms(3)]] deleted in \<open>auto simp: lower_def\<close>)
next
  case (located k r)
  then show ?thesis using chain_look_up [OF assms(2-4)] by simp
next
  case (join r)
  have l: "lower calm t q k a" if "active s w" "home (workers s w) = q" "partition (workers s w) = k" "lower calm s q k a" for w q k a
    using that assms(5) calm_okD(1) [of s w] join by (auto simp: lower_def active_def)
  show ?thesis
    by (rule chain_runner_step [OF assms(2) step_extends [OF assms(1)]])
      (use linked_frame [OF _ step_extends [OF assms(1)] log_okD(3) [OF assms(3)]] join l in auto)
next
  case (thrown_out r)
  show ?thesis
    by (rule chain_runner_step [OF assms(2) step_extends [OF assms(1)]])
      (use linked_frame [OF _ step_extends [OF assms(1)] log_okD(3) [OF assms(3)]] thrown_out in \<open>auto simp: lower_def\<close>)
next
  case (assigned r ks)
  then show ?thesis using chain_assign [OF assms(2-5)] by simp
next
  case (polled r ends)
  then show ?thesis using chain_poll [OF assms(2,3)] by simp
next
  case (dispatched r k rs fs)
  then show ?thesis using chain_dispatch [OF assms(2-4)] by simp
next
  case (completed w n)
  then show ?thesis using chain_complete [OF assms(2,3,5)] by simp
next
  case (committed_marks r K)
  then show ?thesis using chain_commit [OF assms(2,3,5)] by simp
next
  case (start r)
  show ?thesis
    by (rule chain_runner_step [OF assms(2) step_extends [OF assms(1)]]) (use start in \<open>auto simp: lower_def linked_def Let_def split: if_splits stage.splits option.splits\<close>)
next
  case (allow_rebalance r)
  show ?thesis
    by (rule chain_runner_step [OF assms(2) step_extends [OF assms(1)]]) (use allow_rebalance in \<open>auto simp: lower_def linked_def Let_def split: if_splits stage.splits option.splits\<close>)
next
  case (leave_loop r)
  show ?thesis
    by (rule chain_runner_step [OF assms(2) step_extends [OF assms(1)]]) (use leave_loop in \<open>auto simp: lower_def linked_def Let_def split: if_splits stage.splits option.splits\<close>)
next
  case (revoke r k lost)
  show ?thesis
    by (rule chain_runner_step [OF assms(2) step_extends [OF assms(1)]])
      (use linked_frame [OF _ step_extends [OF assms(1)] log_okD(3) [OF assms(3)]] revoke in \<open>auto simp: lower_def revoke_begin_simps split: if_splits\<close>)
next
  case (shutdown r)
  show ?thesis
    by (rule chain_runner_step [OF assms(2) step_extends [OF assms(1)]])
      (use linked_frame [OF _ step_extends [OF assms(1)] log_okD(3) [OF assms(3)]] shutdown in \<open>auto simp: lower_def shutdown_simps split: if_splits\<close>)
next
  case (given_up k x r)
  show ?thesis
    by (rule chain_runner_step [OF assms(2) step_extends [OF assms(1)]])
      (use linked_frame [OF _ step_extends [OF assms(1)] log_okD(3) [OF assms(3)]] given_up in \<open>auto simp: lower_def give_up_def client_defs split: if_splits\<close>)
next
  case (next_record w n resume x)
  note N = worker_next_simps [OF next_record(4)]
  show ?thesis
    by (rule chain_worker_step [OF assms(3,2) step_extends [OF assms(1)], of w])
      (use next_record N in \<open>auto simp: same_view_def client_defs active_def\<close>)
next
  case (processed w n hs ds s')
  show ?thesis
    by (rule chain_worker_step [OF assms(3,2) step_extends [OF assms(1)], of w])
      (use processed in \<open>auto simp: same_view_def set_pos_def active_def split: if_splits\<close>)
next
  case (mark_revoked w)
  show ?thesis
    by (rule chain_worker_step [OF assms(3,2) step_extends [OF assms(1)], of w])
      (use mark_revoked in \<open>auto simp: same_view_def markRevoked_def active_def\<close>)
next
  case (acquire w n)
  show ?thesis
    by (rule chain_worker_step [OF assms(3,2) step_extends [OF assms(1)], of w])
      (use acquire in \<open>auto simp: same_view_def set_pos_def active_def\<close>)
next
  case (cancel w)
  show ?thesis
    by (rule chain_worker_step [OF assms(3,2) step_extends [OF assms(1)], of w])
      (use cancel in \<open>auto simp: same_view_def active_def\<close>)
next
  case (idle_exit w)
  show ?thesis
    by (rule chain_worker_step [OF assms(3,2) step_extends [OF assms(1)], of w])
      (use idle_exit in \<open>auto simp: same_view_def set_pos_def active_def\<close>)
next
  case (acquire_stopped w n)
  show ?thesis
    by (rule chain_worker_step [OF assms(3,2) step_extends [OF assms(1)], of w])
      (use acquire_stopped in \<open>auto simp: same_view_def set_pos_def active_def\<close>)
next
  case (aborted w n hs ds)
  show ?thesis
    by (rule chain_worker_step [OF assms(3,2) step_extends [OF assms(1)], of w])
      (use aborted in \<open>auto simp: same_view_def set_pos_def active_def\<close>)
qed

end
