(* ===== verification/Kc_Kafka_System.thy ===== *)
theory Kc_Kafka_System
  imports Kc_Kafka_Log
begin

text \<open>
  Bounds of queues and slots, the properties of consumer groups, and a run that moves an offset back.
\<close>

section \<open>Queues and slots are bounded\<close>

definition bounded :: "nat \<Rightarrow> kafka_sys \<Rightarrow> bool" where
  "bounded batch s \<longleftrightarrow>
     (\<forall>w. length (queue (workers s w)) < 3 * batch \<and> (\<not> paused (workers s w) \<longrightarrow> length (queue (workers s w)) < 2 * batch)
        \<and> (revoked (workers s w) \<longrightarrow> queue (workers s w) = []))
     \<and> (\<forall>r k w. current (runners s r) k = Some w \<and> paused (workers s w) \<longrightarrow> k \<in> client_paused (runners s r))
     \<and> (\<forall>r k w rs. (k, rs) \<in> set (fetched (runners s r)) \<longrightarrow>
          length rs \<le> batch \<and> (current (runners s r) k = Some w \<longrightarrow> \<not> paused (workers s w)))"

lemma boundedI:
  assumes "\<And>w. length (queue (workers s w)) < 3 * batch" "\<And>w. \<not> paused (workers s w) \<Longrightarrow> length (queue (workers s w)) < 2 * batch"
    and "\<And>r k w. current (runners s r) k = Some w \<Longrightarrow> paused (workers s w) \<Longrightarrow> k \<in> client_paused (runners s r)"
    and "\<And>r k rs. (k, rs) \<in> set (fetched (runners s r)) \<Longrightarrow> length rs \<le> batch"
    and "\<And>r k rs w. (k, rs) \<in> set (fetched (runners s r)) \<Longrightarrow> current (runners s r) k = Some w \<Longrightarrow> \<not> paused (workers s w)"
    and "\<And>w. revoked (workers s w) \<Longrightarrow> queue (workers s w) = []"
  shows "bounded batch s"
  unfolding bounded_def using assms by blast

lemma boundedD:
  assumes "bounded batch s"
  shows "length (queue (workers s w)) < 3 * batch" "\<not> paused (workers s w) \<Longrightarrow> length (queue (workers s w)) < 2 * batch"
    "current (runners s r) k = Some w \<Longrightarrow> paused (workers s w) \<Longrightarrow> k \<in> client_paused (runners s r)"
    "(k, rs) \<in> set (fetched (runners s r)) \<Longrightarrow> length rs \<le> batch"
    "(k, rs) \<in> set (fetched (runners s r)) \<Longrightarrow> current (runners s r) k = Some w \<Longrightarrow> \<not> paused (workers s w)"
    "revoked (workers s w) \<Longrightarrow> queue (workers s w) = []"
  using assms unfolding bounded_def by blast+

lemma bounded_same:
  assumes "bounded batch s" and "\<And>w. queue (workers t w) = queue (workers s w) \<and> paused (workers t w) = paused (workers s w) \<and> revoked (workers t w) = revoked (workers s w)"
    and "\<And>r k w. current (runners t r) k = Some w \<Longrightarrow> current (runners s r) k = Some w \<and> (k \<in> client_paused (runners s r) \<longrightarrow> k \<in> client_paused (runners t r))"
    and "\<And>r. fetched (runners t r) = fetched (runners s r) \<or> fetched (runners t r) = []"
  shows "bounded batch t"
proof (rule boundedI, goal_cases)
  case (4 r k rs)
  then show ?case using assms(4) [of r] boundedD(4) [OF assms(1), of k rs r] by auto
next
  case (5 r k rs w)
  then show ?case using assms(2) [of w] assms(3) [OF 5(2)] assms(4) [of r] boundedD(5) [OF assms(1), of k rs r w] by auto
qed (use assms(2,3) boundedD(1-3,6) [OF assms(1)] in auto)

lemma bounded_poll:
  assumes "bounded batch s" and "poll_ok batch r ends s"
  shows "bounded batch (poll r ends s)"
proof (rule boundedI, goal_cases)
  case (4 q k rs)
  show ?case
  proof (cases "q = r")
    case True
    then obtain b where b: "(k, b) \<in> set ends" "rs = fetch s k (fetch_position (runners s r) k) b" using 4 by (auto simp: poll_def Let_def)
    have "length rs \<le> sum_list (map (\<lambda>(k, b). length (fetch s k (fetch_position (runners s r) k) b)) ends)"
      by (rule member_le_sum_list) (use b in \<open>auto intro!: image_eqI [of _ _ "(k, b)"]\<close>)
    then show ?thesis using assms(2) by (simp add: poll_ok_def)
  next
    case False
    then show ?thesis using 4 boundedD(4) [OF assms(1), of k rs q] by (simp add: poll_def Let_def)
  qed
next
  case (5 q k rs w)
  show ?case
  proof (cases "q = r")
    case True
    then obtain b where "(k, b) \<in> set ends" using 5 by (auto simp: poll_def Let_def)
    then have "k \<notin> client_paused (runners s r)" using assms(2) by (auto simp: poll_ok_def list_all_iff)
    then show ?thesis using 5(2) boundedD(3) [OF assms(1), of r k w] True by (auto simp: poll_simps)
  next
    case False
    then show ?thesis using 5 boundedD(5) [OF assms(1), of k rs q w] by (simp add: poll_def Let_def)
  qed
qed (use boundedD(1-3,6) [OF assms(1)] in \<open>auto simp: poll_simps\<close>)

lemma bounded_dispatch:
  assumes "bounded batch s" and "struct_ok s" and "log_ok s" and "fetched (runners s r) = (k, rs) # fs"
  shows "bounded batch (dispatch_partition batch r k rs (on_runner r ((runners s r)\<lparr>fetched := fs\<rparr>) s))"
proof (cases "current (runners s r) k")
  case None
  have "bounded batch (on_runner r ((runners s r)\<lparr>fetched := fs\<rparr>) s)"
  proof (rule boundedI, goal_cases)
    case (4 q j ys)
    then show ?case using boundedD(4) [OF assms(1), of j ys q] assms(4) by (auto split: if_splits)
  next
    case (5 q j ys v)
    then show ?case using boundedD(5) [OF assms(1), of j ys q v] assms(4) by (auto split: if_splits)
  qed (use boundedD(1-3,6) [OF assms(1)] in \<open>auto split: if_splits\<close>)
  then show ?thesis using None by (simp add: dispatch_partition_def)
next
  case (Some w)
  obtain pause x where e: "worker_enqueue rs (2 * batch) (workers s w) = (pause, x)" by fastforce
  note E = worker_enqueue_simps [OF e]
  have r: "\<not> revoked (workers s w)" "\<not> paused (workers s w)" "length rs \<le> batch" "length (queue (workers s w)) < 2 * batch"
    using struct_okD(1) [OF assms(2) Some] boundedD(2) [OF assms(1), of w] boundedD(4) [OF assms(1), of k rs r] boundedD(5) [OF assms(1), of k rs r w] assms(4) Some by auto
  have u: "current (runners s q) j = Some w \<Longrightarrow> q = r \<and> j = k" for q j using struct_okD(1) [OF assms(2), of q j w] struct_okD(1) [OF assms(2) Some] by auto
  have d: "k \<notin> fst ` set fs" using log_okD(4) [OF assms(3), of r] assms(4) by simp
  let ?t = "dispatch_partition batch r k rs (on_runner r ((runners s r)\<lparr>fetched := fs\<rparr>) s)"
  have w: "workers ?t = (workers s)(w := x)" using Some e by (simp add: dispatch_partition_def)
  have c: "client_paused (runners ?t q) = (if q = r \<and> pause then insert k (client_paused (runners s r)) else client_paused (runners s q))" for q
    using Some e by (auto simp: dispatch_partition_def client_defs)
  show ?thesis
  proof (rule boundedI, goal_cases)
    case (1 v)
    then show ?case using boundedD(1) [OF assms(1), of v] E(5) r by (simp add: w)
  next
    case (2 v)
    then show ?case using boundedD(2) [OF assms(1), of v] E(5,6,7) r by (auto simp: w split: if_splits)
  next
    case (3 q j v)
    then show ?case using boundedD(3) [OF assms(1), of q j v] u [of q j] E(6) r by (auto simp: w c dispatch_simps split: if_splits)
  next
    case (4 q j ys)
    then show ?case using boundedD(4) [OF assms(1), of j ys q] assms(4) by (auto simp: dispatch_simps split: if_splits)
  next
    case (5 q j ys v)
    then show ?case using boundedD(5) [OF assms(1), of j ys q v] assms(4) u [of q j] d by (force simp: w dispatch_simps split: if_splits)
  next
    case (6 v)
    then show ?case using boundedD(6) [OF assms(1), of v] E(3) r by (auto simp: w split: if_splits)
  qed
qed

lemma bounded_next:
  assumes "bounded batch s" and "struct_ok s" and "0 < batch" and "w < next_worker s" and "worker_next batch (workers s w) = Some (n, resume, x)"
  shows "bounded batch (on_worker w x (if resume then on_runner (home x) (ResumeFetchPartitions {partition x} (runners s (home x))) s else s))"
    (is "bounded batch ?t")
proof -
  note N = worker_next_simps [OF assms(5)]
  have w: "workers ?t = (workers s)(w := x)" by simp
  have c: "current (runners ?t q) = current (runners s q)" "fetched (runners ?t q) = fetched (runners s q)" for q by (auto simp: client_defs)
  have p: "client_paused (runners ?t q) = (if q = home x \<and> resume then client_paused (runners s q) - {partition x} else client_paused (runners s q))" for q
    by (auto simp: client_defs)
  have le: "length (queue x) < 3 * batch" "resume \<Longrightarrow> length (queue x) \<le> batch" "\<not> paused (workers s w) \<Longrightarrow> length (queue x) < 2 * batch"
    using boundedD(1,2) [OF assms(1), of w] N(5,9) by auto
  have here: "v = w" if "current (runners s (home x)) (partition x) = Some v" "resume" for v
  proof -
    have "\<not> revoked (workers s w)" using boundedD(6) [OF assms(1), of w] N(5) by auto
    then show ?thesis
      using struct_okD(4) [OF assms(2,4)] struct_okD(1) [OF assms(2) that(1)] struct_okD(2) [OF assms(2), of "partition x" "Some w" "home x"] that(1) N(1,2) by auto
  qed
  show ?thesis
  proof (rule boundedI, goal_cases)
    case (1 v)
    then show ?case using boundedD(1) [OF assms(1), of v] le by (simp add: w)
  next
    case (2 v)
    then show ?case using boundedD(2) [OF assms(1), of v] le N(8) assms(3) by (auto simp: w split: if_splits)
  next
    case (3 q j v)
    then show ?case using boundedD(3) [OF assms(1), of q j v] here N(8) unfolding p c w by (auto split: if_splits)
  next
    case (4 q j ys)
    then show ?case using boundedD(4) [OF assms(1), of j ys q] unfolding c by simp
  next
    case (5 q j ys v)
    then show ?case using boundedD(5) [OF assms(1), of j ys q v] N(8) unfolding c w by (auto split: if_splits)
  next
    case (6 v)
    then show ?case using boundedD(6) [OF assms(1), of v] N(3,5) by (auto simp: w split: if_splits)
  qed
qed

lemma bounded_assign_partition:
  assumes "bounded batch s" and "0 < batch" and "k \<notin> fst ` set (fetched (runners s r))"
  shows "bounded batch (assign_partition r k s)"
proof (cases "current (runners s r) k = None")
  case True
  show ?thesis
  proof (rule boundedI, goal_cases)
    case (3 q j v)
    then show ?case using boundedD(3) [OF assms(1), of q j v] by (auto simp: assign_partition_simps [OF True] split: if_splits)
  next
    case (4 q j ys)
    then show ?case using boundedD(4) [OF assms(1), of j ys q] by (auto simp: assign_partition_simps [OF True] split: if_splits)
  next
    case (5 q j ys v)
    then show ?case using boundedD(5) [OF assms(1), of j ys q v] assms(3) by (force simp: assign_partition_simps [OF True] split: if_splits)
  qed (use boundedD(1,2,6) [OF assms(1)] assms(2) in \<open>auto simp: assign_partition_simps [OF True] split: if_splits\<close>)
qed (simp add: assign_partition_def assms)

definition no_leftovers :: "kafka_sys \<Rightarrow> bool" where
  "no_leftovers s \<longleftrightarrow> (\<forall>r. stage (runners s r) \<noteq> Polling \<longrightarrow> fetched (runners s r) = [])"

lemma leftovers_step: "kafka_step cfg calm s t \<Longrightarrow> no_leftovers s \<Longrightarrow> no_leftovers t"
proof (induction rule: kafka_step.induct)
  case (assigned r s ks)
  then show ?case by (simp add: no_leftovers_def assign_simps)
next
  case (polled s r ends)
  then show ?case by (simp add: no_leftovers_def poll_def Let_def)
next
  case (located k s r)
  then show ?case by (simp add: no_leftovers_def look_up_simps)
next
  case (dispatched s r k rs fs)
  then show ?case by (simp add: no_leftovers_def dispatch_simps)
next
  case (processed w s n hs ds s')
  then show ?case by (simp add: no_leftovers_def set_pos_def)
qed (auto simp: no_leftovers_def set_pos_def client_defs complete_simps revoke_begin_simps give_up_def commit_def shutdown_simps)

lemma bounded_assign:
  assumes "bounded batch s" and "struct_ok s" and "0 < batch" and "no_leftovers s" and "stage (runners s r) \<noteq> Polling"
    and "list_all (\<lambda>k. holder s k = None \<and> k \<notin> owned (runners s r)) ks"
  shows "bounded batch (assign r ks (client_assign r ks s))"
proof -
  let ?c = "client_assign r ks s"
  let ?d = "on_runner r (ResumeFetchPartitions (set ks) (runners ?c r)) ?c"
  have f: "fetched (runners s r) = []" using assms(4,5) by (simp add: no_leftovers_def)
  have all: "bounded batch (fold (assign_partition r) ks u)" if "bounded batch u" "fetched (runners u r) = []" for u
    using that
  proof (induction ks arbitrary: u)
    case (Cons k ks)
    have "fetched (runners (assign_partition r k u) r) = []" using Cons.prems(2) by (auto simp: assign_partition_def)
    then show ?case using Cons bounded_assign_partition [OF Cons.prems(1) assms(3)] by simp
  qed simp
  have c: "bounded batch ?c" by (rule bounded_same [OF assms(1)]) (auto simp: client_assign_simps)
  have "k \<notin> set ks" if "current (runners s r) k = Some w" for k w using struct_okD(1) [OF assms(2) that] assms(6) by (auto simp: list_all_iff)
  then have d: "bounded batch ?d" by (intro bounded_same [OF c]) (auto simp: client_defs)
  show ?thesis using all [OF c] all [OF d] c f by (simp add: assign_def client_defs)
qed

lemma bounded_step:
  assumes "kafka_step cfg calm s t" and "bounded (batchSize cfg) s" and "struct_ok s" and "log_ok s" and "no_leftovers s" and "0 < batchSize cfg"
  shows "bounded (batchSize cfg) t"
  using assms(1)
proof cases
  case (assigned r ks)
  then show ?thesis using bounded_assign [OF assms(2,3,6,5)] by simp
next
  case (polled r ends)
  then show ?thesis using bounded_poll [OF assms(2)] by simp
next
  case (located k r)
  show ?thesis unfolding located(1) by (rule bounded_same [OF assms(2)]) (auto simp: look_up_simps)
next
  case (dispatched r k rs fs)
  then show ?thesis using bounded_dispatch [OF assms(2-4)] by simp
next
  case (next_record w n resume x)
  then show ?thesis using bounded_next [OF assms(2,3,6)] by simp
next
  case (mark_revoked w)
  have c: "\<not> (current (runners s r) k = Some w)" for r k using mark_revoked(3) struct_okD(1) [OF assms(3), of r k w] by auto
  show ?thesis unfolding mark_revoked(1)
  proof (rule boundedI, goal_cases)
    case (4 q j ys)
    then show ?case using boundedD(4) [OF assms(2), of j ys q] by simp
  next
    case (5 q j ys v)
    then show ?case using boundedD(5) [OF assms(2), of j ys q v] c by auto
  qed (use boundedD(1-3,6) [OF assms(2)] c assms(6) in \<open>auto simp: markRevoked_def split: if_splits\<close>)
next
  case (given_up k x r)
  have "current (runners s r) k = None" using struct_okD(2) [OF assms(3) given_up(2)] by simp
  then show ?thesis unfolding given_up(1) by (intro bounded_same [OF assms(2)]) (auto simp: give_up_def client_defs split: if_splits)
next
  case (processed w n hs ds s')
  then show ?thesis by (intro bounded_same [OF assms(2)]) (auto simp: set_pos_def split: if_splits)
qed (rule bounded_same [OF assms(2)];
     auto simp: set_pos_def client_defs complete_simps revoke_begin_simps commit_def shutdown_simps split: if_splits)+

text \<open>The occupied slots of a subscription are its workers that process a record.\<close>

definition running :: "kafka_config \<Rightarrow> kafka_sys \<Rightarrow> nat \<Rightarrow> nat set" where
  "running cfg s c = {w. w < next_worker s \<and> subscription_of cfg (home (workers s w)) = c \<and> (\<exists>n. pos (workers s w) = Running n)}"

definition slots_ok :: "kafka_config \<Rightarrow> kafka_sys \<Rightarrow> bool" where
  "slots_ok cfg s \<longleftrightarrow> (\<forall>c. slots s c = card (running cfg s c) \<and> slots s c \<le> concurrency cfg)"

lemma finite_running: "finite (running cfg s c)"
  by (simp add: running_def)

lemma slots_same:
  assumes "slots_ok cfg s" and "slots t = slots s" and "\<And>c. running cfg t c = running cfg s c"
  shows "slots_ok cfg t"
  using assms unfolding slots_ok_def by metis

lemma running_assign: "running cfg (assign r ks s) c = running cfg s c"
proof -
  have one: "running cfg (assign_partition r k u) c = running cfg u c" for k u
    by (auto simp: assign_partition_def running_def less_Suc_eq split: if_splits)
  have "running cfg (fold (assign_partition r) ks u) c = running cfg u c" for u by (induction ks arbitrary: u) (simp_all add: one)
  then show ?thesis by (simp add: assign_def) (simp add: running_def)
qed

lemma running_client_assign: "running cfg (client_assign r ks s) c = running cfg s c"
  by (simp add: running_def client_assign_simps)

lemma slots_le: "slots_ok cfg s \<Longrightarrow> card (running cfg s c) \<le> concurrency cfg"
  unfolding slots_ok_def by metis

lemma slots_acquire:
  assumes "slots_ok cfg s" and "w < next_worker s" and "pos (workers s w) = Has n" and "slots s (subscription_of cfg (home (workers s w))) < concurrency cfg"
  shows "slots_ok cfg (set_pos w (Running n) (take_slot (subscription_of cfg (home (workers s w))) s))"
proof -
  let ?c = "subscription_of cfg (home (workers s w))" and ?t = "set_pos w (Running n) (take_slot (subscription_of cfg (home (workers s w))) s)"
  have "w \<notin> running cfg s ?c" using assms(3) by (simp add: running_def)
  moreover have "running cfg ?t d = (if d = ?c then insert w (running cfg s d) else running cfg s d)" for d
    using assms(2) by (auto simp: running_def set_pos_def split: if_splits)
  ultimately have "slots ?t d = card (running cfg ?t d) \<and> slots ?t d \<le> concurrency cfg" for d
    using assms(1,4) finite_running [of cfg s d] slots_le [OF assms(1), of d] unfolding slots_ok_def by (auto simp: set_pos_def take_slot_def)
  then show ?thesis unfolding slots_ok_def by blast
qed

lemma slots_release:
  assumes "slots_ok cfg s" and "w < next_worker s" and "pos (workers s w) = Running n" and "\<And>m. p \<noteq> Running m"
    and "workers u = workers s" "next_worker u = next_worker s" "slots u = slots s"
  shows "slots_ok cfg (set_pos w p (free_slot (subscription_of cfg (home (workers s w))) u))"
proof -
  let ?c = "subscription_of cfg (home (workers s w))" and ?t = "set_pos w p (free_slot (subscription_of cfg (home (workers s w))) u)"
  have "w \<in> running cfg s ?c" using assms(2,3) by (simp add: running_def)
  moreover have "running cfg ?t d = (if d = ?c then running cfg s d - {w} else running cfg s d)" for d
    using assms(2,4-7) by (auto simp: running_def set_pos_def split: if_splits)
  ultimately have "slots ?t d = card (running cfg ?t d) \<and> slots ?t d \<le> concurrency cfg" for d
    using assms(1,7) finite_running [of cfg s d] slots_le [OF assms(1), of d] unfolding slots_ok_def by (auto simp: set_pos_def free_slot_def)
  then show ?thesis unfolding slots_ok_def by blast
qed

lemma slots_step:
  assumes "kafka_step cfg calm s t" and "slots_ok cfg s"
  shows "slots_ok cfg t"
  using assms(1)
proof cases
  case (assigned r ks)
  show ?thesis unfolding assigned(1)
    by (rule slots_same [OF assms(2)]) (simp_all add: assign_simps running_assign client_assign_simps running_client_assign)
next
  case (acquire w n)
  then show ?thesis using slots_acquire [OF assms(2)] by simp
next
  case (processed w n hs ds s')
  then show ?thesis using slots_release [OF assms(2), of w n "Completing n" s'] by simp
next
  case (aborted w n hs ds)
  then show ?thesis using slots_release [OF assms(2), of w n Exited s] by simp
next
  case (dispatched r k rs fs)
  show ?thesis unfolding dispatched(1)
    by (rule slots_same [OF assms(2)])
      (auto simp: dispatch_simps running_def dispatch_partition_def worker_enqueue_def Let_def split: option.splits prod.splits if_splits)
next
  case (next_record w n resume x)
  show ?thesis unfolding next_record(1)
    by (rule slots_same [OF assms(2)]) (use worker_next_simps [OF next_record(4)] next_record(3) in \<open>auto simp: running_def\<close>)
next
  case (completed w n)
  then show ?thesis by (intro slots_same [OF assms(2)]) (auto simp: running_def complete_simps)
qed (rule slots_same [OF assms(2)];
     auto simp: running_def set_pos_def poll_simps look_up_simps client_defs revoke_begin_simps give_up_def commit_def shutdown_simps markRevoked_def)+

section \<open>Properties\<close>

lemma kafka_invariant:
  assumes "kafka_reach cfg calm s" and "0 < batchSize cfg"
  shows "struct_ok s \<and> (calm \<longrightarrow> calm_ok s) \<and> log_ok s \<and> chain_ok calm s \<and> no_leftovers s \<and> bounded (batchSize cfg) s \<and> slots_ok cfg s"
  using assms(1)
proof (induction rule: kafka_reach.induct)
  case (init start)
  have "struct_ok (kafka_init start)" "calm_ok (kafka_init start)" by (simp_all add: struct_ok_def calm_ok_def kafka_init_def new_runner_def)
  moreover have "log_ok (kafka_init start)" by (simp add: log_ok_def sound_def kafka_init_def new_runner_def)
  moreover have "chain_ok calm (kafka_init start)" by (simp add: chain_ok_def active_def kafka_init_def)
  moreover have "no_leftovers (kafka_init start)" "bounded (batchSize cfg) (kafka_init start)" using assms(2) by (simp_all add: no_leftovers_def bounded_def kafka_init_def new_runner_def)
  moreover have "slots_ok cfg (kafka_init start)" by (simp add: slots_ok_def running_def kafka_init_def)
  ultimately show ?case by blast
next
  case (step s t)
  have c: "calm \<longrightarrow> calm_ok t" using step calm_step [of cfg s t] by (cases calm) auto
  then show ?case
    using step struct_step [OF step.hyps(2)] log_step [OF step.hyps(2)] chain_step [OF step.hyps(2)] leftovers_step [OF step.hyps(2)]
      bounded_step [OF step.hyps(2)] slots_step [OF step.hyps(2)] assms(2) by blast
qed

text \<open>The mark of a member never falls behind what is committed.\<close>

lemma marks_step:
  assumes "kafka_step cfg True s t" and "calm_ok s" and "chain_ok True s"
    and "\<And>r k h c. r \<in> members s \<Longrightarrow> marks (runners s r) k = Some h \<Longrightarrow> committed s k = Some c \<Longrightarrow> c \<le> h"
    and "r \<in> members t" and "marks (runners t r) k = Some h" and "committed t k = Some c"
  shows "c \<le> h"
  using assms(1)
proof cases
  case (join q)
  then show ?thesis using assms(4) [of r k h c] assms(5-7) calm_okD(3) [OF assms(2), of q k h] by auto
next
  case (completed w n)
  have cm: "committed s k = Some c" "r \<in> members s" using assms(5,7) completed(1) by (simp_all add: complete_simps)
  show ?thesis
  proof (cases "r = home (workers s w) \<and> k = partition (workers s w) \<and> \<not> revoked (workers s w)")
    case True
    then have "active s w" using completed(2,3) by (simp add: active_def)
    then obtain a b where ch: "chain_at True s w a b" by (rule chain_okE [OF assms(3)])
    have "c \<le> a" using ch True cm by (simp add: chain_at_def Let_def lower_def)
    then show ?thesis
      using completing_sound(2) [OF ch completed(3)] assms(6) True unfolding completed(1) by (auto simp: complete_marks split: option.splits)
  qed (use assms(4) [of r k h c] assms(6) cm completed in \<open>auto simp: complete_marks complete_simps\<close>)
next
  case (committed_marks q K)
  show ?thesis
  proof (cases "marks (runners s q) k")
    case (Some g)
    have "q = r" using calm_okD(2) [OF assms(2) committed_marks(2) calm_okD(3) [OF assms(2) Some]] calm_okD(2) [OF assms(2) _ calm_okD(3) [OF assms(2)], of r k h]
      assms(5,6) committed_marks(1) by (simp add: commit_def)
    then show ?thesis using assms(4) [of r k h c] assms(5-7) committed_marks(1) by (auto simp: commit_def split: if_splits)
  qed (use assms(4) [of r k h c] assms(5-7) committed_marks in \<open>auto simp: commit_def\<close>)
next
  case (given_up j x q)
  then show ?thesis using assms(4) [of r k h c] assms(5-7) by (auto simp: give_up_def client_defs split: if_splits)
next
  case (processed w n hs ds s')
  then show ?thesis using assms(4) [of r k h c] assms(5-7) by (auto simp: set_pos_def split: if_splits)
qed (use assms(4) [of r k h c] assms(5-7) in
     \<open>auto simp: assign_simps client_assign_simps poll_simps dispatch_simps set_pos_def client_defs revoke_begin_simps shutdown_simps look_up_simps split: if_splits\<close>)

lemma marks_ahead:
  assumes "kafka_reach cfg True s" and "0 < batchSize cfg"
  shows "r \<in> members s \<Longrightarrow> marks (runners s r) k = Some h \<Longrightarrow> committed s k = Some c \<Longrightarrow> c \<le> h"
  using assms(1)
proof (induction arbitrary: r k h c rule: kafka_reach.induct)
  case (step s t)
  then show ?case using marks_step [OF step.hyps(2)] kafka_invariant [OF step.hyps(1) assms(2)] by blast
qed (simp add: kafka_init_def)

text \<open>What is passed over.\<close>

definition skip_reason :: "kafka_sys \<Rightarrow> nat \<Rightarrow> bool" where
  "skip_reason s k \<longleftrightarrow> (\<exists>r. k \<in> owned (runners s r) \<and> (k \<in> unlocated (runners s r) \<or> fetch_position (runners s r) k < log_start s k))"

lemma skipped_step:
  assumes "kafka_step cfg calm s t" and "(k, n) \<in> skipped t"
  shows "(k, n) \<in> skipped s \<or> skip_reason s k"
  using assms(1)
proof cases
  case (located j r)
  then show ?thesis using assms(2) by (auto simp: look_up_def Let_def skip_reason_def)
qed (use assms(2) in \<open>auto simp: assign_simps client_assign_simps dispatch_simps complete_simps revoke_begin_simps shutdown_simps set_pos_def poll_simps give_up_def commit_def
      split: if_splits\<close>)

lemma skipped_earliest:
  assumes "kafka_reach cfg calm s" and "0 < batchSize cfg" and "\<forall>c. start_offset cfg c = ''earliest''"
  shows "(k, n) \<in> skipped s \<Longrightarrow> n < log_start s k"
  using assms(1)
proof (induction arbitrary: k n rule: kafka_reach.induct)
  case (init start)
  then show ?case by (simp add: kafka_init_def)
next
  case (step s t)
  from step.hyps(2) show ?case
  proof cases
    case (located j r)
    then show ?thesis using step.IH [of k n] step.prems assms(3) by (auto simp: look_up_def Let_def kafkaOffset_def)
  next
    case (deleted j m)
    then show ?thesis using step.IH [of k n] step.prems by auto
  qed (use step.IH [of k n] step.prems in \<open>auto simp: assign_simps client_assign_simps dispatch_simps complete_simps revoke_begin_simps shutdown_simps set_pos_def
        poll_simps give_up_def commit_def split: if_splits\<close>)
qed

text \<open>
  Committed means done (C26). In every interleaving of any number of subscriptions, clients and rebalances, with failing handlers,
  dead-letter topics and commits, and while the broker deletes old records: below the committed offset of a partition every record of
  the log was handled successfully, is in the dead-letter topic, or was passed over by a client that looked up its
  position; a client does so only for a partition that had no committed offset when it was assigned, or whose records at its position have been deleted; and with the
  start offset \<open>earliest\<close> it passes over deleted records only. (With \<open>latest\<close>, the default, it goes to the end of the log.) The queue of a
  partition holds fewer than three batches, and no more handlers of a subscription run than its concurrency. As long as no partition is revoked while its
  runner shuts down, no step moves a committed offset back.
\<close>

theorem kafka_commit_sound:
  assumes "kafka_reach cfg calm s" and "0 < batchSize cfg"
  shows "(\<forall>k n h. n \<in> records s k \<and> committed s k = Some h \<and> n < h \<longrightarrow> (k, n) \<in> handled s \<or> (k, n) \<in> dead s \<or> (k, n) \<in> skipped s)
     \<and> (\<forall>t k n. kafka_step cfg calm s t \<and> (k, n) \<in> skipped t \<longrightarrow> (k, n) \<in> skipped s \<or> skip_reason s k)
     \<and> ((\<forall>c. start_offset cfg c = ''earliest'') \<longrightarrow> (\<forall>k n. (k, n) \<in> skipped s \<longrightarrow> n < log_start s k))
     \<and> (\<forall>w. length (queue (workers s w)) < 3 * batchSize cfg)
     \<and> (\<forall>c. card {w. w < next_worker s \<and> subscription_of cfg (home (workers s w)) = c \<and> (\<exists>n. pos (workers s w) = Running n)} \<le> concurrency cfg)
     \<and> (calm \<longrightarrow> (\<forall>t k h. kafka_step cfg calm s t \<and> committed s k = Some h \<longrightarrow> (\<exists>h'. committed t k = Some h' \<and> h \<le> h')))"
proof (intro conjI)
  have inv: "log_ok s" "bounded (batchSize cfg) s" "slots_ok cfg s" using kafka_invariant [OF assms] by auto
  show "\<forall>k n h. n \<in> records s k \<and> committed s k = Some h \<and> n < h \<longrightarrow> (k, n) \<in> handled s \<or> (k, n) \<in> dead s \<or> (k, n) \<in> skipped s"
    using log_okD(1) [OF inv(1)] unfolding sound_def by blast
  show "\<forall>t k n. kafka_step cfg calm s t \<and> (k, n) \<in> skipped t \<longrightarrow> (k, n) \<in> skipped s \<or> skip_reason s k" using skipped_step by blast
  show "(\<forall>c. start_offset cfg c = ''earliest'') \<longrightarrow> (\<forall>k n. (k, n) \<in> skipped s \<longrightarrow> n < log_start s k)" using skipped_earliest [OF assms] by blast
  show "\<forall>w. length (queue (workers s w)) < 3 * batchSize cfg" using boundedD(1) [OF inv(2)] by blast
  show "\<forall>c. card {w. w < next_worker s \<and> subscription_of cfg (home (workers s w)) = c \<and> (\<exists>n. pos (workers s w) = Running n)} \<le> concurrency cfg"
    using inv(3) unfolding slots_ok_def running_def by metis
  show "calm \<longrightarrow> (\<forall>t k h. kafka_step cfg calm s t \<and> committed s k = Some h \<longrightarrow> (\<exists>h'. committed t k = Some h' \<and> h \<le> h'))"
  proof (intro impI allI, elim conjE)
    fix t k h assume calm and st: "kafka_step cfg calm s t" and h: "committed s k = Some h"
    have m: "\<And>r g. r \<in> members s \<Longrightarrow> marks (runners s r) k = Some g \<Longrightarrow> h \<le> g"
      by (rule marks_ahead [OF _ assms(2) _ _ h]) (use assms(1) \<open>calm\<close> in simp_all)
    from st show "\<exists>h'. committed t k = Some h' \<and> h \<le> h'"
      by cases (use m h in \<open>auto simp: assign_simps client_assign_simps poll_simps dispatch_simps set_pos_def complete_simps revoke_begin_simps give_up_def shutdown_simps
          look_up_simps commit_def split: option.splits\<close>)
  qed
qed

definition demo_kafka :: kafka_config where
  "demo_kafka = \<lparr>batchSize = 2, concurrency = 1, maxRetries = 1, start_offset = (\<lambda>_. ''earliest''), subscription_of = id\<rparr>"

definition try_ok :: attempt where
  "try_ok = \<lparr>succeeded = True, ctx_done = False, waited = True\<rparr>"

definition try_fail :: attempt where
  "try_fail = \<lparr>succeeded = False, ctx_done = False, waited = True\<rparr>"

definition fetch_both :: "nat \<Rightarrow> action list" where
  "fetch_both r = [Join r, Assign r [0], Locate r 0, Start r, Poll r [(0, 2)], Dispatch r, Allow r]"

definition handle_next :: "nat \<Rightarrow> action list" where
  "handle_next w = [Next w, Acquire w, Process w [try_ok] [], Complete w]"

definition demo_actions :: "action list" where
  "demo_actions = [Append 0 0, Append 0 1] @ fetch_both 0 @ handle_next 0 @ [Next 0, Acquire 0, Process 0 [try_fail, try_fail] [try_ok], Complete 0, Commit 0 [0]]"

lemmas run_defs = guarded_def kafka_init_def new_runner_def newKafkaPartitionWorker_def assign_def assign_partition_def client_assign_def
  on_worker_def on_runner_def poll_def poll_ok_def dispatch_partition_def worker_enqueue_def worker_next_def PauseFetchPartitions_def ResumeFetchPartitions_def
  MarkCommitRecords_def stop_def markRevoked_def detach_def stop_worker_def revoke_begin_def give_up_def shutdown_begin_def commit_def complete_def
  take_slot_def free_slot_def set_pos_def process_def fetch_def look_up_def kafkaOffset_def demo_kafka_def try_ok_def try_fail_def fetch_both_def handle_next_def

lemma both_records: "sorted_list_of_set (insert (Suc 0) {0} \<inter> {0..<2}) = [0, 1::nat]"
  by code_simp

lemma demo_run:
  "map_option (\<lambda>s. committed s 0 = Some 2 \<and> 0 \<in> records s 0 \<and> 1 \<in> records s 0 \<and> log_start s 0 = 0) (perform_all demo_kafka True demo_actions (kafka_init (\<lambda>_. 0))) = Some True"
  by (simp add: run_defs both_records Let_def demo_actions_def)

theorem kafka_commit_sound_witness:
  "\<exists>s. perform_all demo_kafka True demo_actions (kafka_init (\<lambda>_. 0)) = Some s \<and> committed s 0 = Some 2
     \<and> ((0, 0) \<in> handled s \<or> (0, 0) \<in> dead s) \<and> ((0, 1) \<in> handled s \<or> (0, 1) \<in> dead s)
     \<and> length (queue (workers s 0)) < 6"
proof -
  obtain s where s: "perform_all demo_kafka True demo_actions (kafka_init (\<lambda>_. 0)) = Some s" "committed s 0 = Some 2" "0 \<in> records s 0" "1 \<in> records s 0"
      "log_start s 0 = 0"
    using demo_run by auto
  have r: "kafka_reach demo_kafka True s" by (rule perform_reach [OF kafka_reach.init s(1)])
  have b: "0 < batchSize demo_kafka" by (simp add: demo_kafka_def)
  note P = kafka_commit_sound [OF r b]
  have "(\<forall>c. start_offset demo_kafka c = ''earliest'') \<longrightarrow> (\<forall>k n. (k, n) \<in> skipped s \<longrightarrow> n < log_start s k)" using P by blast
  moreover have "\<forall>c. start_offset demo_kafka c = ''earliest''" by (simp add: demo_kafka_def)
  ultimately have e: "(0, n) \<notin> skipped s" for n using s(5) by fastforce
  have d: "(0, n) \<in> handled s \<or> (0, n) \<in> dead s" if "n \<in> records s 0" "n < 2" for n
    using conjunct1 [OF P] that s(2) e [of n] by blast
  have "length (queue (workers s 0)) < 3 * batchSize demo_kafka" using P by blast
  then show ?thesis using s d [OF s(3)] d [OF s(4)] by (simp add: demo_kafka_def)
qed

section \<open>Findings\<close>

text \<open>
  The start offset \<open>latest\<close>, which is the default, is meant for the records before the subscription. Until the first commit it also applies when
  a partition moves to another client: records that were produced after the subscription, and that the first client was still
  handling, are passed over, and the next commit goes past them.
\<close>

definition latest_kafka :: kafka_config where
  "latest_kafka = demo_kafka\<lparr>start_offset := (\<lambda>_. ''latest'')\<rparr>"

definition early_move :: "action list" where
  "early_move =
     [Join 0, Assign 0 [0], Locate 0 0, Start 0, Append 0 0, Poll 0 [(0, 1)], Dispatch 0, Allow 0, Next 0, Revoke True 0 0, MarkRevoked 0, GiveUp 0 0 (Some 0),
      Join 1, Assign 1 [0], Locate 1 0, Start 1, Append 0 1, Poll 1 [(0, 2)], Dispatch 1, Allow 1] @ handle_next 1 @ [Commit 1 [0]]"

lemma one_record: "sorted_list_of_set (insert (Suc 0) {0} \<inter> {Suc 0..<2}) = [1 :: nat]" "sorted_list_of_set ({0} \<inter> {0..<Suc 0}) = [0 :: nat]"
  by code_simp+

lemma early_move_run:
  "map_option (\<lambda>s. committed s 0 = Some 2 \<and> 0 \<in> records s 0 \<and> (0, 0) \<notin> handled s \<and> (0, 0) \<notin> dead s \<and> log_start s 0 = 0)
     (perform_all latest_kafka True early_move (kafka_init (\<lambda>_. 0))) = Some True"
  by (simp add: run_defs one_record Let_def early_move_def latest_kafka_def)

theorem latest_skips_new_records:
  "\<exists>s. kafka_reach latest_kafka True s \<and> 0 \<in> records s 0 \<and> log_start s 0 = 0 \<and> committed s 0 = Some 2 \<and> (0, 0) \<notin> handled s \<and> (0, 0) \<notin> dead s"
proof -
  obtain s where "perform_all latest_kafka True early_move (kafka_init (\<lambda>_. 0)) = Some s" "committed s 0 = Some 2" "0 \<in> records s 0"
    "(0, 0) \<notin> handled s" "(0, 0) \<notin> dead s" "log_start s 0 = 0"
    using early_move_run by auto
  then show ?thesis using perform_reach [OF kafka_reach.init] by blast
qed

text \<open>
  \<open>shutdown\<close> takes all workers out of the map before it waits for their handlers without a limit. A partition that is revoked meanwhile
  has no worker in the map, so \<open>revoke\<close> neither waits for it nor marks it as revoked. When its handler returns, \<open>complete\<close> marks the record, and the
  commit at the end of \<open>shutdown\<close> moves the offset back behind what the new owner has committed.
\<close>

definition late_shutdown :: "action list" where
  "late_shutdown =
     [Append 0 0, Append 0 1] @ fetch_both 0 @ [Next 0, Acquire 0, Leave 0, Shutdown 0, Revoke False 0 0, GiveUp 0 0 None]
     @ fetch_both 1 @ handle_next 1 @ handle_next 1 @ [Commit 1 [0], Process 0 [try_ok] [], Complete 0]"

lemma late_shutdown_run:
  "map_option (\<lambda>s. committed s 0 = Some 2 \<and> 0 \<in> members s \<and> committed (commit 0 {0} s) 0 = Some 1)
     (perform_all demo_kafka False late_shutdown (kafka_init (\<lambda>_. 0))) = Some True"
  by (simp add: run_defs both_records Let_def late_shutdown_def)

theorem shutdown_moves_offset_back:
  "\<exists>s t. kafka_reach demo_kafka False s \<and> kafka_step demo_kafka False s t \<and> committed s 0 = Some 2 \<and> committed t 0 = Some 1"
proof -
  obtain s where s: "perform_all demo_kafka False late_shutdown (kafka_init (\<lambda>_. 0)) = Some s" "committed s 0 = Some 2" "0 \<in> members s"
    "committed (commit 0 {0} s) 0 = Some 1"
    using late_shutdown_run by auto
  have "kafka_reach demo_kafka False s" by (rule perform_reach [OF kafka_reach.init s(1)])
  moreover have "kafka_step demo_kafka False s (commit 0 {0} s)" by (rule committed_marks [OF s(3)])
  ultimately show ?thesis using s(2,4) by (intro exI [of _ s] exI [of _ "commit 0 {0} s"]) simp
qed

end
