(* ===== verification/Kc_Kafka_Config.thy ===== *)
theory Kc_Kafka_Config
  imports Kc_Redis_Message
begin

text \<open>
  Configuration, start-up checks and the record format of the Kafka client, \<open>src/pkg/infra/kafka.go\<close>. The connection settings
  (TLS, client ID) and the logger are left out; an error is \<open>None\<close> or \<open>False\<close>.
\<close>

section \<open>Configuration\<close>

datatype kafkaGroupMode = kafkaConsumerGroup | kafkaShareGroup

datatype MQType = MQTypeKafka | MQTypeKafkaShare | MQTypeRedisStream | MQTypeRedisStreamCluster | MQTypeOther string

datatype SASLMechanism = SASLPlain | SASLSCRAMSHA256 | SASLSCRAMSHA512 | SASLOther

record SASLConfig =
  Mechanism :: SASLMechanism
  Username :: string
  Password :: string

record kafkaRuntimeConfig =
  batchSize :: int64
  concurrency :: int64
  handlerTimeout :: duration
  maxRetries :: int64
  maxDeliveryAttempts :: int64
  shareConsumers :: int64
  rebalanceTimeout :: duration
  retryBackoff :: duration
  retryMaxBackoff :: duration

record KafkaConfig =
  Brokers :: "string list"
  ClientID :: string
  DialTimeout :: duration
  KafkaTLS :: bool
  SASL :: "SASLConfig option"
  Values :: kafkaRuntimeConfig \<comment> \<open>\<open>ConsumerBatchSize\<close> to \<open>RetryMaxBackoff\<close>\<close>

record kafkaSubscriptionConfig = kafkaRuntimeConfig +
  mode :: kafkaGroupMode
  startOffset :: "string option"

definition kafkaMaxConsumerBatchSize :: int64 where "kafkaMaxConsumerBatchSize = 10000"
definition kafkaMaxConcurrency :: int64 where "kafkaMaxConcurrency = 10000"
definition kafkaMaxRetries :: int64 where "kafkaMaxRetries = 10000"
definition kafkaMaxShareConsumers :: int64 where "kafkaMaxShareConsumers = 64"
definition kafkaBrokerShareDeliveryCountLimit :: int64 where "kafkaBrokerShareDeliveryCountLimit = 5"
definition kafkaMaxShareDeliveryAttempts :: int64 where "kafkaMaxShareDeliveryAttempts = kafkaBrokerShareDeliveryCountLimit - 1"

lemmas kafka_limits = kafkaMaxConsumerBatchSize_def kafkaMaxConcurrency_def kafkaMaxRetries_def kafkaMaxShareConsumers_def
  kafkaBrokerShareDeliveryCountLimit_def kafkaMaxShareDeliveryAttempts_def

definition kafkaMode :: "MQType \<Rightarrow> kafkaGroupMode" where
  "kafkaMode typ = (if typ = MQTypeKafkaShare then kafkaShareGroup else kafkaConsumerGroup)"

definition kafkaBrokers :: "KafkaConfig \<Rightarrow> string list" where
  "kafkaBrokers c = map TrimSpace (Brokers c)"

definition kafkaRuntimeConfigFrom :: "kafkaRuntimeConfig \<Rightarrow> kafkaGroupMode \<Rightarrow> kafkaRuntimeConfig" where
  "kafkaRuntimeConfigFrom c m =
     \<lparr>batchSize = dflt 0 100 (batchSize c),
      concurrency = dflt 0 10 (concurrency c),
      handlerTimeout = dflt 0 (if m = kafkaShareGroup then 15 * second else 30 * second) (handlerTimeout c),
      maxRetries = maxRetries c,
      maxDeliveryAttempts = (if m = kafkaShareGroup then dflt 0 4 (maxDeliveryAttempts c) else maxDeliveryAttempts c),
      shareConsumers = shareConsumers c,
      rebalanceTimeout = (if m = kafkaConsumerGroup then dflt 0 (60 * second) (rebalanceTimeout c) else rebalanceTimeout c),
      retryBackoff = dflt 0 second (retryBackoff c),
      retryMaxBackoff = dflt 0 (30 * second) (retryMaxBackoff c)\<rparr>"

text \<open>\<open>kafkaShareConsumerLimits\<close>: the number of consumers, then the share of each.\<close>

definition share_count :: "'a kafkaRuntimeConfig_scheme \<Rightarrow> int" where
  "share_count c =
     (let count = (if shareConsumers c = 0 then min (concurrency c) 4 else shareConsumers c) in
      max count (go_div (concurrency c + batchSize c - 1) (batchSize c)))"

definition kafkaShareConsumerLimits :: "'a kafkaRuntimeConfig_scheme \<Rightarrow> int list" where
  "kafkaShareConsumerLimits c =
     map (\<lambda>i. concurrency c div share_count c + (if i < concurrency c mod share_count c then 1 else 0)) [0..share_count c - 1]"

definition validateKafkaConfig :: "MQType \<Rightarrow> KafkaConfig option \<Rightarrow> bool" where
  "validateKafkaConfig typ config =
     (case config of
        None \<Rightarrow> False
      | Some k \<Rightarrow>
          (let c = Values k; r = kafkaRuntimeConfigFrom c (kafkaMode typ) in
           kafkaBrokers k \<noteq> []
           \<and> list_all (\<lambda>b. b \<noteq> []) (kafkaBrokers k)
           \<and> \<not> (DialTimeout k < 0 \<or> handlerTimeout c < 0 \<or> rebalanceTimeout c < 0 \<or> retryBackoff c < 0 \<or> retryMaxBackoff c < 0)
           \<and> \<not> (out_of_range kafkaMaxConsumerBatchSize (batchSize c) \<or> out_of_range kafkaMaxConcurrency (concurrency c)
               \<or> out_of_range kafkaMaxRetries (maxRetries c) \<or> out_of_range kafkaMaxShareDeliveryAttempts (maxDeliveryAttempts c)
               \<or> out_of_range kafkaMaxShareConsumers (shareConsumers c))
           \<and> \<not> (typ = MQTypeKafka \<and> (maxDeliveryAttempts c \<noteq> 0 \<or> shareConsumers c \<noteq> 0))
           \<and> \<not> (typ = MQTypeKafkaShare \<and> maxRetries c \<noteq> 0)
           \<and> \<not> (typ = MQTypeKafkaShare \<and> rebalanceTimeout c \<noteq> 0)
           \<and> \<not> retryMaxBackoff r < retryBackoff r
           \<and> \<not> (typ = MQTypeKafkaShare
               \<and> (shareConsumers r > concurrency r \<or> int (length (kafkaShareConsumerLimits r)) > kafkaMaxShareConsumers))
           \<and> (case SASL k of
                None \<Rightarrow> True
              | Some x \<Rightarrow> Username x \<noteq> [] \<and> Password x \<noteq> [] \<and> Mechanism x \<noteq> SASLOther)))"

text \<open>
  \<open>checkKafkaShareDeliveryLimit\<close>: \<open>answer\<close> is what the broker says its limit is (an error, or 0 when it does not say);
  the result is an error or the limit the subscriptions check.
\<close>

definition checkKafkaShareDeliveryLimit :: "int64 option \<Rightarrow> kafkaRuntimeConfig \<Rightarrow> int64 option" where
  "checkKafkaShareDeliveryLimit answer c =
     (case answer of
        None \<Rightarrow> Some 0
      | Some limit \<Rightarrow> if limit > 0 \<and> maxDeliveryAttempts c \<ge> limit then None else Some limit)"

text \<open>The options of one subscription; an option of the other mode is refused.\<close>

definition kafka_overrides :: "KafkaSubscribeOptions \<Rightarrow> kafkaSubscriptionConfig \<Rightarrow> kafkaSubscriptionConfig option" where
  "kafka_overrides k c =
     (if StartOffset k \<noteq> None \<and> mode c \<noteq> kafkaConsumerGroup then None
      else if MaxRetries k \<noteq> None \<and> mode c \<noteq> kafkaConsumerGroup then None
      else if ShareMaxDeliveryAttempts k \<noteq> None \<and> mode c \<noteq> kafkaShareGroup then None
      else if ShareConsumers k \<noteq> None \<and> mode c \<noteq> kafkaShareGroup then None
      else Some (c\<lparr>startOffset := (if StartOffset k \<noteq> None then StartOffset k else startOffset c),
                   maxRetries := override (MaxRetries k) (maxRetries c),
                   maxDeliveryAttempts := override (ShareMaxDeliveryAttempts k) (maxDeliveryAttempts c),
                   shareConsumers := override (ShareConsumers k) (shareConsumers c)\<rparr>))"

definition common_overrides :: "SubscribeOptions \<Rightarrow> kafkaSubscriptionConfig \<Rightarrow> kafkaSubscriptionConfig" where
  "common_overrides p c =
     c\<lparr>batchSize := override (BatchSize p) (batchSize c),
       concurrency := override (Concurrency p) (concurrency c),
       handlerTimeout := override (HandlerTimeout p) (handlerTimeout c),
       retryBackoff := override (map_option Min (Backoff p)) (retryBackoff c),
       retryMaxBackoff := override (map_option Max (Backoff p)) (retryMaxBackoff c)\<rparr>"

definition within_limits :: "int64 \<Rightarrow> kafkaSubscriptionConfig \<Rightarrow> bool" where
  "within_limits shareDeliveryLimit c =
     (if batchSize c > kafkaMaxConsumerBatchSize \<or> concurrency c > kafkaMaxConcurrency \<or> maxRetries c > kafkaMaxRetries
         \<or> maxDeliveryAttempts c > kafkaMaxShareDeliveryAttempts \<or> shareConsumers c > kafkaMaxShareConsumers then False
      else if mode c = kafkaShareGroup then
        (if shareConsumers c > concurrency c then False
         else if int (length (kafkaShareConsumerLimits c)) > kafkaMaxShareConsumers then False
         else \<not> (shareDeliveryLimit > 0 \<and> maxDeliveryAttempts c \<ge> shareDeliveryLimit))
      else True)"

definition kafka_subscriptionConfig :: "kafkaGroupMode \<Rightarrow> int64 \<Rightarrow> kafkaRuntimeConfig \<Rightarrow> SubscribeOption option list \<Rightarrow> kafkaSubscriptionConfig option" where
  "kafka_subscriptionConfig m shareDeliveryLimit base xs =
     (case ResolveSubscribeOptions xs of
        None \<Rightarrow> None
      | Some p \<Rightarrow>
          if RedisStream p \<noteq> None then None
          else
            (let c0 = kafkaRuntimeConfig.extend base \<lparr>mode = m, startOffset = (if m = kafkaConsumerGroup then Some ''latest'' else None)\<rparr>;
                 c1 = common_overrides p c0 in
             case (case Kafka p of None \<Rightarrow> Some c1 | Some k \<Rightarrow> kafka_overrides k c1) of
               None \<Rightarrow> None
             | Some c \<Rightarrow> if within_limits shareDeliveryLimit c then Some c else None))"

text \<open>\<open>checkDeadLetterTopic\<close>: the answer about the topic (an error, or whether it exists) and whether the context has ended.\<close>

definition checkDeadLetterTopic :: "bool option option \<Rightarrow> bool \<Rightarrow> bool" where
  "checkDeadLetterTopic answer ctx_ended =
     (case answer of
        None \<Rightarrow> True
      | Some None \<Rightarrow> \<not> ctx_ended
      | Some (Some exists) \<Rightarrow> exists)"

section \<open>What accepted configurations guarantee\<close>

definition base_ok :: "kafkaGroupMode \<Rightarrow> 'a kafkaRuntimeConfig_scheme \<Rightarrow> bool" where
  "base_ok m c \<longleftrightarrow>
     0 < batchSize c \<and> 0 < concurrency c \<and> 0 < handlerTimeout c \<and> 0 \<le> maxRetries c \<and> 0 \<le> shareConsumers c
     \<and> (m = kafkaShareGroup \<longrightarrow> 0 < maxDeliveryAttempts c) \<and> (m = kafkaConsumerGroup \<longrightarrow> 0 < rebalanceTimeout c)
     \<and> 0 < retryBackoff c \<and> retryBackoff c \<le> retryMaxBackoff c"

lemma kafka_runtime_ok:
  assumes "validateKafkaConfig typ (Some k)"
  shows "base_ok (kafkaMode typ) (kafkaRuntimeConfigFrom (Values k) (kafkaMode typ))"
  using assms by (auto simp: validateKafkaConfig_def base_ok_def kafkaRuntimeConfigFrom_def Let_def dflt_def out_of_range_def second_def)

lemma limits_length: "length (kafkaShareConsumerLimits c) = nat (share_count c)"
  by (simp add: kafkaShareConsumerLimits_def)

text \<open>Dealing \<open>n\<close> out in \<open>k\<close> parts.\<close>

lemma deal_sum:
  assumes "0 < k" and "0 \<le> (n::int)"
  shows "sum_list (map (\<lambda>i. n div k + (if i < n mod k then 1 else 0)) [0..k - 1]) = n"
proof -
  have split: "sum_list (map (\<lambda>i. a + (if i < r then 1 else 0)) [0..int m - 1]) = int m * a + min r (int m)" if "0 \<le> r" for a r :: int and m
  proof (induction m)
    case (Suc m)
    have "[0..int (Suc m) - 1] = [0..int m - 1] @ [int m]" by (simp add: upto_rec2)
    then show ?case using Suc that by (simp add: algebra_simps min_def)
  qed (use that in simp)
  have "0 \<le> n mod k" "n mod k < k" using assms by simp_all
  then have "sum_list (map (\<lambda>i. n div k + (if i < n mod k then 1 else 0)) [0..k - 1]) = k * (n div k) + n mod k"
    using split [of "n mod k" "n div k" "nat k"] assms by simp
  then show ?thesis by simp
qed

lemma share_count_bounds:
  assumes "0 < batchSize c" and "0 < concurrency c" and "0 \<le> shareConsumers c" and "shareConsumers c \<le> concurrency c"
  shows "0 < share_count c" "share_count c \<le> concurrency c" "concurrency c \<le> share_count c * batchSize c"
proof -
  let ?q = "(concurrency c + batchSize c - 1) div batchSize c"
  have g: "go_div (concurrency c + batchSize c - 1) (batchSize c) = ?q" using assms by (intro go_div_nonneg) auto
  have m: "?q * batchSize c + (concurrency c + batchSize c - 1) mod batchSize c = concurrency c + batchSize c - 1" by (simp add: mult.commute)
  have "(concurrency c + batchSize c - 1) mod batchSize c < batchSize c" using assms by simp
  then have q: "concurrency c \<le> ?q * batchSize c" using m by linarith
  have "?q \<le> concurrency c"
  proof -
    have "concurrency c + batchSize c - 1 \<le> concurrency c * batchSize c"
      using assms mult_mono [of 1 "concurrency c" 0 "batchSize c - 1"] mult_right_mono [of 1 "concurrency c" "batchSize c - 1"] by (simp add: algebra_simps)
    then show ?thesis using zdiv_mono1 [OF _ assms(1)] assms(1) by fastforce
  qed
  then show "share_count c \<le> concurrency c" "0 < share_count c" using assms unfolding share_count_def Let_def g by auto
  have "?q \<le> share_count c" unfolding share_count_def Let_def g by simp
  then have "?q * batchSize c \<le> share_count c * batchSize c" using assms(1) by (intro mult_right_mono) auto
  then show "concurrency c \<le> share_count c * batchSize c" using q by linarith
qed

lemma limit_range:
  assumes "0 < k" and "k \<le> n" and "n \<le> k * b" and "l \<in> set (map (\<lambda>i. n div k + (if i < n mod k then 1 else 0)) [0..k - 1])"
  shows "1 \<le> l \<and> l \<le> (b::int)"
proof -
  have m: "n = k * (n div k) + n mod k" by simp
  have d: "1 \<le> n div k" using zdiv_mono1 [OF assms(2,1)] assms(1) by simp
  have "n div k \<le> b" using zdiv_mono1 [OF assms(3,1)] assms(1) by simp
  moreover have "n div k < b" if "0 < n mod k"
  proof (rule ccontr)
    assume "\<not> n div k < b"
    then have "k * b \<le> k * (n div k)" using assms(1) by (intro mult_left_mono) auto
    then show False using m assms(3) that by linarith
  qed
  moreover obtain i where "0 \<le> i" "l = n div k + (if i < n mod k then 1 else 0)" using assms(4) by auto
  ultimately show ?thesis using d by (auto split: if_splits)
qed

lemma overrides_ok:
  assumes "base_ok m base" and "options_ok p"
  shows "base_ok m (common_overrides p (kafkaRuntimeConfig.extend base x))"
  using assms by (cases "Backoff p")
    (auto simp: base_ok_def common_overrides_def options_ok_def kafkaRuntimeConfig.defs override_def positive_def split: option.splits)

lemma override_nonneg: "(case x of None \<Rightarrow> True | Some n \<Rightarrow> n \<ge> 0) \<Longrightarrow> 0 \<le> d \<Longrightarrow> 0 \<le> override x (d::int)"
  by (cases x) (simp_all add: override_def)

lemma positive_nonneg: "positive x \<Longrightarrow> (case x of None \<Rightarrow> True | Some n \<Rightarrow> n \<ge> 0)"
  by (cases x) (simp_all add: positive_def)

lemma kafka_overrides_ok:
  assumes "base_ok m c" and "options_ok p" and "Kafka p = Some k" and "kafka_overrides k c = Some d"
  shows "base_ok m d \<and> mode d = mode c"
proof -
  have k: "kafkaOptions p = k" using assms(3) by (simp add: kafkaOptions_def)
  have o: "case MaxRetries k of None \<Rightarrow> True | Some n \<Rightarrow> n \<ge> 0" "positive (ShareMaxDeliveryAttempts k)" "positive (ShareConsumers k)"
    using assms(2) k by (simp_all add: options_ok_def)
  have d: "d = c\<lparr>startOffset := (if StartOffset k \<noteq> None then StartOffset k else startOffset c), maxRetries := override (MaxRetries k) (maxRetries c),
      maxDeliveryAttempts := override (ShareMaxDeliveryAttempts k) (maxDeliveryAttempts c), shareConsumers := override (ShareConsumers k) (shareConsumers c)\<rparr>"
    using assms(4) by (simp add: kafka_overrides_def split: if_split_asm)
  show ?thesis
    using assms(1) override_nonneg [OF o(1)] override_pos [OF o(2)] override_nonneg [OF positive_nonneg [OF o(3)]] unfolding d base_ok_def by simp
qed

text \<open>
  Accepted subscriptions. Whatever options override a validated configuration, an accepted subscription has positive sizes and timeouts;
  in a share group its concurrency is dealt out completely to at most 64 consumers, each of which fetches at
  least one record and at most a batch at a time, and a record is put into the dead-letter topic before the broker's delivery limit is reached.
\<close>

theorem kafka_subscription_bounds:
  assumes "base_ok m base" and "kafka_subscriptionConfig m shareDeliveryLimit base xs = Some c"
  shows "base_ok m c \<and> mode c = m
     \<and> (m = kafkaShareGroup \<longrightarrow>
          sum_list (kafkaShareConsumerLimits c) = concurrency c \<and> length (kafkaShareConsumerLimits c) \<le> 64
          \<and> list_all (\<lambda>l. 1 \<le> l \<and> l \<le> batchSize c) (kafkaShareConsumerLimits c)
          \<and> maxDeliveryAttempts c < kafkaBrokerShareDeliveryCountLimit \<and> (0 < shareDeliveryLimit \<longrightarrow> maxDeliveryAttempts c < shareDeliveryLimit))"
proof -
  obtain p where p: "ResolveSubscribeOptions xs = Some p" using assms(2) by (auto simp: kafka_subscriptionConfig_def split: option.splits)
  have o: "options_ok p" using resolved_in_range [OF p] by simp
  let ?x = "\<lparr>mode = m, startOffset = (if m = kafkaConsumerGroup then Some ''latest'' else None)\<rparr>"
  let ?c1 = "common_overrides p (kafkaRuntimeConfig.extend base ?x)"
  have c1: "base_ok m ?c1" "mode ?c1 = m" using overrides_ok [OF assms(1) o] by (auto simp: common_overrides_def kafkaRuntimeConfig.defs)
  have d: "(case Kafka p of None \<Rightarrow> Some ?c1 | Some k \<Rightarrow> kafka_overrides k ?c1) = Some c" and w: "within_limits shareDeliveryLimit c"
    using assms(2) p by (auto simp: kafka_subscriptionConfig_def Let_def split: option.splits if_splits)
  have b: "base_ok m c" "mode c = m" using d c1 kafka_overrides_ok [OF c1(1) o] by (auto split: option.splits)
  have "sum_list (kafkaShareConsumerLimits c) = concurrency c \<and> length (kafkaShareConsumerLimits c) \<le> 64
      \<and> list_all (\<lambda>l. 1 \<le> l \<and> l \<le> batchSize c) (kafkaShareConsumerLimits c)
      \<and> maxDeliveryAttempts c < kafkaBrokerShareDeliveryCountLimit \<and> (0 < shareDeliveryLimit \<longrightarrow> maxDeliveryAttempts c < shareDeliveryLimit)"
    if "m = kafkaShareGroup"
  proof -
    have l: "shareConsumers c \<le> concurrency c" "int (length (kafkaShareConsumerLimits c)) \<le> 64" "maxDeliveryAttempts c < 5"
      "0 < shareDeliveryLimit \<longrightarrow> maxDeliveryAttempts c < shareDeliveryLimit"
      using w b(2) that unfolding within_limits_def kafka_limits by (auto split: if_splits)
    have k: "0 < share_count c" "share_count c \<le> concurrency c" "concurrency c \<le> share_count c * batchSize c"
      using share_count_bounds [of c] b(1) l(1) by (auto simp: base_ok_def)
    have "list_all (\<lambda>l. 1 \<le> l \<and> l \<le> batchSize c) (kafkaShareConsumerLimits c)"
      using limit_range [OF k] unfolding kafkaShareConsumerLimits_def list_all_iff by blast
    moreover have "sum_list (kafkaShareConsumerLimits c) = concurrency c"
      unfolding kafkaShareConsumerLimits_def using deal_sum [OF k(1), of "concurrency c"] k by linarith
    ultimately show ?thesis using l by (simp add: kafkaBrokerShareDeliveryCountLimit_def)
  qed
  then show ?thesis using b by blast
qed

definition demo_runtime :: kafkaRuntimeConfig where
  "demo_runtime = kafkaRuntimeConfigFrom \<lparr>batchSize = 0, concurrency = 0, handlerTimeout = 0, maxRetries = 0, maxDeliveryAttempts = 0, shareConsumers = 0,
     rebalanceTimeout = 0, retryBackoff = 0, retryMaxBackoff = 0\<rparr> kafkaShareGroup"

theorem kafka_subscription_bounds_witness:
  "\<exists>c. kafka_subscriptionConfig kafkaShareGroup 5 demo_runtime [Some (WithConcurrency 14), Some (WithBatchSize 3)] = Some c
     \<and> sum_list (kafkaShareConsumerLimits c) = 14 \<and> length (kafkaShareConsumerLimits c) \<le> 64"
proof -
  let ?r = "kafka_subscriptionConfig kafkaShareGroup 5 demo_runtime [Some (WithConcurrency 14), Some (WithBatchSize 3)]"
  have "map_option concurrency ?r = Some 14"
    by (simp add: kafka_subscriptionConfig_def ResolveSubscribeOptions_def no_options_def demo_runtime_def kafkaRuntimeConfigFrom_def common_overrides_def override_def
      kafkaRuntimeConfig.defs within_limits_def kafka_limits limits_length share_count_def go_div_def dflt_def Let_def)
  then obtain c where c: "?r = Some c" "concurrency c = 14" by auto
  have "base_ok kafkaShareGroup demo_runtime" by (simp add: demo_runtime_def kafkaRuntimeConfigFrom_def dflt_def base_ok_def second_def)
  then have "sum_list (kafkaShareConsumerLimits c) = concurrency c \<and> length (kafkaShareConsumerLimits c) \<le> 64"
    using kafka_subscription_bounds [OF _ c(1)] by blast
  then show ?thesis using c by simp
qed

section \<open>Records\<close>

record kafka_record =
  Topic :: string
  rKey :: "string option"
  rValue :: "string option"
  rHeaders :: "(string \<times> string option) list"
  rTimestamp :: instant
  Partition :: int
  Offset :: int64

text \<open>\<open>order\<close> is the order in which Go ranges over the header map.\<close>

definition kafkaRecordFromMessage :: "(headers \<Rightarrow> string list) \<Rightarrow> string \<Rightarrow> Message \<Rightarrow> kafka_record" where
  "kafkaRecordFromMessage order topic m =
     \<lparr>Topic = topic, rKey = Key m, rValue = Body m,
      rHeaders = (case Headers m of None \<Rightarrow> [] | Some h \<Rightarrow> map (\<lambda>k. (k, the (h k))) (order h)),
      rTimestamp = Timestamp m, Partition = 0, Offset = 0\<rparr>"

definition kafkaMessageID :: "kafka_record \<Rightarrow> string" where
  "kafkaMessageID r = FormatInt (Partition r) @ '':'' @ FormatInt (Offset r)"

text \<open>Later headers of the same name win.\<close>

definition header_map :: "(string \<times> string option) list \<Rightarrow> headers" where
  "header_map hs = foldl (\<lambda>m h. m(fst h \<mapsto> snd h)) Map.empty hs"

definition messageFromKafkaRecord :: "kafka_record \<Rightarrow> Message" where
  "messageFromKafkaRecord r =
     \<lparr>ID = kafkaMessageID r, Key = rKey r, Body = rValue r, Headers = Some (header_map (rHeaders r)), Timestamp = rTimestamp r\<rparr>"

text \<open>\<open>publishKafkaDLQ\<close>: the record that is produced.\<close>

definition dlqRecord :: "string \<Rightarrow> string \<Rightarrow> kafka_record \<Rightarrow> int64 \<Rightarrow> string \<Rightarrow> string \<Rightarrow> kafka_record" where
  "dlqRecord topic grp r deliveryCount reason failedAt =
     \<lparr>Topic = topic @ ''.dlq'', rKey = rKey r, rValue = rValue r,
      rHeaders = rHeaders r @ [(''kc.dlq.source_topic'', Some topic), (''kc.dlq.source_group'', Some grp), (''kc.dlq.source_message_id'', Some (kafkaMessageID r)),
        (''kc.dlq.delivery_count'', Some (FormatInt deliveryCount)), (''kc.dlq.error'', Some reason), (''kc.dlq.failed_at'', Some failedAt)],
      rTimestamp = rTimestamp r, Partition = 0, Offset = 0\<rparr>"

lemma header_map_of: "header_map hs = map_of (rev hs)"
proof -
  have "foldl (\<lambda>m h. m(fst h \<mapsto> snd h)) m hs = m ++ map_of (rev hs)" for m :: headers
    by (induction hs arbitrary: m) (auto simp: map_add_def fun_eq_iff split: option.splits)
  then show ?thesis by (simp add: header_map_def)
qed

lemma header_map_order:
  assumes "set (order h) = dom h"
  shows "header_map (map (\<lambda>k. (k, the (h k))) (order h)) = h"
proof
  fix k
  have "map_of (map (\<lambda>k. (k, the (h k))) ks) k = (if k \<in> set ks then Some (the (h k)) else None)" for ks by (induction ks) auto
  then show "header_map (map (\<lambda>k. (k, the (h k))) (order h)) k = h k"
    using assms by (auto simp: header_map_of rev_map dom_def)
qed

lemma dlq_record_headers:
  "map (header_map (rHeaders (dlqRecord topic grp r n reason failedAt))) dlq_names
     = map (\<lambda>s. Some (Some s)) [topic, grp, kafkaMessageID r, FormatInt n, reason, failedAt]"
  "k \<notin> set dlq_names \<Longrightarrow> header_map (rHeaders (dlqRecord topic grp r n reason failedAt)) k = header_map (rHeaders r) k"
  by (simp_all add: header_map_of dlqRecord_def dlq_names_def)

text \<open>
  Kafka messages arrive as they were published, in whatever order the header map is written and whatever partition and offset the
  broker assigns; and a dead letter, also one of a message that was a dead letter before, carries its source in the six headers and all other
  headers of the record unchanged.
\<close>

theorem kafka_message_roundtrip:
  assumes "\<And>h. Headers m = Some h \<Longrightarrow> set (order h) = dom h"
  shows "messageFromKafkaRecord ((kafkaRecordFromMessage order topic m)\<lparr>Partition := p, Offset := n\<rparr>) =
       m\<lparr>ID := FormatInt p @ '':'' @ FormatInt n, Headers := Some (case Headers m of None \<Rightarrow> Map.empty | Some h \<Rightarrow> h)\<rparr>
     \<and> (\<forall>r grp c reason failedAt. \<exists>h.
          messageFromKafkaRecord ((dlqRecord topic grp r c reason failedAt)\<lparr>Partition := p, Offset := n\<rparr>) =
            (messageFromKafkaRecord r)\<lparr>ID := FormatInt p @ '':'' @ FormatInt n, Headers := Some h\<rparr>
          \<and> map h dlq_names = map (\<lambda>s. Some (Some s)) [topic, grp, kafkaMessageID r, FormatInt c, reason, failedAt]
          \<and> (\<forall>k. k \<notin> set dlq_names \<longrightarrow> h k = header_map (rHeaders r) k))"
proof (intro conjI allI)
  show "messageFromKafkaRecord ((kafkaRecordFromMessage order topic m)\<lparr>Partition := p, Offset := n\<rparr>) =
      m\<lparr>ID := FormatInt p @ '':'' @ FormatInt n, Headers := Some (case Headers m of None \<Rightarrow> Map.empty | Some h \<Rightarrow> h)\<rparr>"
    using header_map_order [of order] assms
    by (cases "Headers m") (simp_all add: messageFromKafkaRecord_def kafkaRecordFromMessage_def kafkaMessageID_def header_map_def)
  fix r grp c reason failedAt
  let ?h = "header_map (rHeaders (dlqRecord topic grp r c reason failedAt))"
  have "messageFromKafkaRecord ((dlqRecord topic grp r c reason failedAt)\<lparr>Partition := p, Offset := n\<rparr>) =
      (messageFromKafkaRecord r)\<lparr>ID := FormatInt p @ '':'' @ FormatInt n, Headers := Some ?h\<rparr>"
    by (simp add: messageFromKafkaRecord_def dlqRecord_def kafkaMessageID_def)
  then show "\<exists>h. messageFromKafkaRecord ((dlqRecord topic grp r c reason failedAt)\<lparr>Partition := p, Offset := n\<rparr>) =
        (messageFromKafkaRecord r)\<lparr>ID := FormatInt p @ '':'' @ FormatInt n, Headers := Some h\<rparr>
      \<and> map h dlq_names = map (\<lambda>s. Some (Some s)) [topic, grp, kafkaMessageID r, FormatInt c, reason, failedAt]
      \<and> (\<forall>k. k \<notin> set dlq_names \<longrightarrow> h k = header_map (rHeaders r) k)"
    using dlq_record_headers by blast
qed

theorem kafka_message_roundtrip_witness:
  "messageFromKafkaRecord ((kafkaRecordFromMessage (\<lambda>_. [''trace'']) ''orders'' demo_message)\<lparr>Partition := 2, Offset := 7\<rparr>) =
     demo_message\<lparr>ID := FormatInt 2 @ '':'' @ FormatInt 7\<rparr>"
proof -
  have h: "Headers demo_message = Some demo_headers" by (simp add: demo_message_def)
  have "\<And>g. Headers demo_message = Some g \<Longrightarrow> set [''trace''] = dom g" using h by (auto simp: demo_headers_def)
  then have "messageFromKafkaRecord ((kafkaRecordFromMessage (\<lambda>_. [''trace'']) ''orders'' demo_message)\<lparr>Partition := 2, Offset := 7\<rparr>) =
      demo_message\<lparr>ID := FormatInt 2 @ '':'' @ FormatInt 7, Headers := Some (case Headers demo_message of None \<Rightarrow> Map.empty | Some h \<Rightarrow> h)\<rparr>"
    using kafka_message_roundtrip [where order = "\<lambda>_. [''trace'']" and m = demo_message and topic = "''orders''" and p = 2 and n = 7] by blast
  also have "\<dots> = demo_message\<lparr>ID := FormatInt 2 @ '':'' @ FormatInt 7\<rparr>" unfolding h by (simp add: demo_message_def)
  finally show ?thesis .
qed

end
