(* ===== verification/Kc_Kafka_Share.thy ===== *)
theory Kc_Kafka_Share
  imports Kc_Kafka_System Kc_Kafka_Config Kc_Backoff
begin

text \<open>
  The share group side of \<open>src/pkg/infra/kafka.go\<close>: processing a record within its acquisition lock, batches, the consumption loop, and the
  life of a record over its deliveries. The broker is given by its documented behaviour: a record that is released, or whose lock
  expires, is delivered again with the next delivery count, until the count limit is reached, when it is archived.
\<close>

section \<open>One delivery\<close>

datatype AckStatus = AckAccept | AckReject | AckRelease

text \<open>What a delivery runs into: contexts that have ended, the handler, the producer.\<close>

record delivery_run =
  lock_expiring :: bool \<comment> \<open>\<open>ctx.Err() != nil\<close> at the start\<close>
  ctx_valid :: bool
  outcome :: handler_result
  still_valid :: bool
  work_ended :: bool \<comment> \<open>\<open>workCtx.Err() != nil\<close> after the handler failed\<close>
  lock_ended :: bool \<comment> \<open>\<open>ctx.Err() != nil\<close> after the handler failed\<close>
  published :: bool \<comment> \<open>the dead letter was produced\<close>

definition handler_ok :: "delivery_run \<Rightarrow> bool" where
  "handler_ok z = handleKafkaMessage (ctx_valid z) (outcome z) (still_valid z)"

definition processShareGroupRecord :: "int64 \<Rightarrow> int64 \<Rightarrow> delivery_run \<Rightarrow> AckStatus" where
  "processShareGroupRecord maxAttempts deliveryCount z =
     (let dlq = (if published z then AckReject else AckRelease) in
      if lock_expiring z then AckRelease
      else if deliveryCount > maxAttempts then dlq
      else if handler_ok z then AckAccept
      else if work_ended z then AckRelease
      else if lock_ended z then AckRelease
      else if deliveryCount < maxAttempts then AckRelease
      else dlq)"

text \<open>
  The deadlines: everything ends \<open>kafkaShareLockMargin\<close> before the lock, the handler also after its timeout and, in the last attempt,
  \<open>kafkaShareDLQReserve\<close> earlier.
\<close>

definition kafkaShareLockMargin :: duration where "kafkaShareLockMargin = 3 * second"
definition kafkaShareDLQReserve :: duration where "kafkaShareDLQReserve = 5 * second"

definition ctx_deadline :: "int \<Rightarrow> int" where
  "ctx_deadline lockDeadline = lockDeadline - kafkaShareLockMargin"

definition handler_deadline :: "int \<Rightarrow> duration \<Rightarrow> int option \<Rightarrow> bool \<Rightarrow> int" where
  "handler_deadline now timeout lock last_attempt =
     (case lock of
        None \<Rightarrow> now + timeout
      | Some l \<Rightarrow>
          min (now + timeout) (if last_attempt then min (ctx_deadline l) (l - kafkaShareLockMargin - kafkaShareDLQReserve) else ctx_deadline l))"

lemma dlq_time_left: "handler_deadline now timeout (Some l) True + kafkaShareDLQReserve \<le> ctx_deadline l"
  by (simp add: handler_deadline_def ctx_deadline_def kafkaShareLockMargin_def kafkaShareDLQReserve_def second_def)

section \<open>Batches and polls\<close>

text \<open>\<open>processShareGroupBatch\<close>: for each record, whether polling has been stopped by then, its delivery count, and its run.\<close>

definition processShareGroupBatch :: "int64 \<Rightarrow> (bool \<times> int64 \<times> delivery_run) list \<Rightarrow> AckStatus list" where
  "processShareGroupBatch maxAttempts rs = map (\<lambda>(stopped, n, z). if stopped then AckRelease else processShareGroupRecord maxAttempts n z) rs"

datatype fetch_error = ClientClosed | ContextEnded | OtherError

definition logKafkaPollErrors :: "fetch_error list \<Rightarrow> bool \<times> bool" where
  "logKafkaPollErrors es =
     foldl (\<lambda>(shut, failed) e. case e of ClientClosed \<Rightarrow> (True, failed) | ContextEnded \<Rightarrow> (shut, failed) | OtherError \<Rightarrow> (shut, True)) (False, False) es"

record share_poll =
  poll_ended :: bool
  fetched_records :: "(bool \<times> int64 \<times> delivery_run) list"
  poll_errors :: "fetch_error list"
  poll_waited :: bool

datatype consume_end = PollStopped | PollClosed

text \<open>
  \<open>consumeShareGroup\<close> over the results of the polls: the acknowledgements made after each poll and before the next, the delays
  waited, whether the consumer was stable, and why it returned.
\<close>

fun consumeShareGroup :: "kafkaSubscriptionConfig \<Rightarrow> bool \<Rightarrow> int \<Rightarrow> share_poll list \<Rightarrow> AckStatus list list \<times> duration list \<times> bool \<times> consume_end option" where
  "consumeShareGroup c steady failures [] = ([], [], steady, None)"
| "consumeShareGroup c steady failures (p # ps) =
     (if poll_ended p then ([map (\<lambda>_. AckRelease) (fetched_records p)], [], steady, Some PollStopped)
      else case logKafkaPollErrors (poll_errors p) of (shut, failed) \<Rightarrow>
        if shut then ([[]], [], steady, Some PollClosed)
        else if fetched_records p \<noteq> [] then
          (case consumeShareGroup c True 0 ps of (as, ds, st, e) \<Rightarrow>
             (processShareGroupBatch (maxDeliveryAttempts c) (fetched_records p) # as, ds, st, e))
        else if failed then
          (let d = kafkaRetryDelay (retryBackoff c) (retryMaxBackoff c) failures in
           if \<not> poll_waited p then ([[]], [d], steady, Some PollStopped)
           else case consumeShareGroup c steady (failures + 1) ps of (as, ds, st, e) \<Rightarrow> ([] # as, d # ds, st, e))
        else case consumeShareGroup c steady failures ps of (as, ds, st, e) \<Rightarrow> ([] # as, ds, st, e))"

text \<open>Every record of a poll is acknowledged exactly once before the next poll, unless the client was closed.\<close>

lemma share_acks:
  assumes "consumeShareGroup c steady n ps = (as, ds, st, e)" and "i < length as"
  shows "length (as ! i) = length (fetched_records (ps ! i)) \<or> (Suc i = length as \<and> e = Some PollClosed)"
  using assms
proof (induction ps arbitrary: steady n as ds st e i)
  case (Cons p ps)
  obtain shut failed where l: "logKafkaPollErrors (poll_errors p) = (shut, failed)" by fastforce
  show ?case
  proof (cases i)
    case 0
    then show ?thesis using Cons.prems l by (auto simp: processShareGroupBatch_def Let_def split: if_splits prod.splits)
  next
    case (Suc j)
    obtain steady' n' as' ds' x where r: "consumeShareGroup c steady' n' ps = (as', ds', st, e)" "as = x # as'"
      using Cons.prems l Suc by (auto simp: Let_def split: if_splits prod.splits)
    then show ?thesis using Cons.IH [OF r(1), of j] Cons.prems(2) Suc by simp
  qed
qed simp

section \<open>Sessions\<close>

text \<open>
  \<open>runSession\<close> closes its client after each \<open>consume\<close> and rebuilds it until polling has been stopped. A round is what \<open>consume\<close> returned,
  whether polling had been stopped by then, and for each rebuilding whether the wait before it was not interrupted and whether the factory succeeded.
\<close>

record session_round =
  steady_run :: bool
  poll_over :: bool
  rebuilds :: "(bool \<times> bool) list"

text \<open>The inner loop: the delays, the next attempt number, and whether there is a new client.\<close>

fun rebuild_session :: "kafkaSubscriptionConfig \<Rightarrow> nat \<Rightarrow> (bool \<times> bool) list \<Rightarrow> duration list \<times> nat \<times> bool option" where
  "rebuild_session c n [] = ([], n, None)"
| "rebuild_session c n ((waited_ok, created_ok) # xs) =
     (let d = kafkaRetryDelay (retryBackoff c) (retryMaxBackoff c) (int n) in
      if \<not> waited_ok then ([d], n, Some False)
      else if created_ok then ([d], n + 1, Some True)
      else case rebuild_session c (n + 1) xs of (ds, m, r) \<Rightarrow> (d # ds, m, r))"

text \<open>The delays, the number of clients built and closed, and whether it returned.\<close>

fun runSession :: "kafkaSubscriptionConfig \<Rightarrow> nat \<Rightarrow> session_round list \<Rightarrow> duration list \<times> nat \<times> nat \<times> bool" where
  "runSession c n [] = ([], 0, 0, False)"
| "runSession c n (x # xs) =
     (if poll_over x then ([], 0, 1, True)
      else case rebuild_session c (if steady_run x then 0 else n) (rebuilds x) of
        (ds, m, Some True) \<Rightarrow>
          (case runSession c m xs of (ds', built, shut, returned) \<Rightarrow> (ds @ ds', built + 1, shut + 1, returned))
      | (ds, m, r) \<Rightarrow> (ds, 0, 1, r = Some False))"

text \<open>When it returns, every client has been closed: the one it was started with and each one it built. Delays stay within the configured bounds.\<close>

lemma rebuild_session_delays:
  assumes "0 < retryBackoff c" "retryBackoff c \<le> retryMaxBackoff c" "retryMaxBackoff c \<le> MaxInt64" and "rebuild_session c n xs = (ds, m, r)"
  shows "\<forall>d \<in> set ds. retryBackoff c \<le> d \<and> d \<le> retryMaxBackoff c"
  using assms
proof (induction c n xs arbitrary: ds m r rule: rebuild_session.induct)
  case (2 c n w k xs)
  have "retryBackoff c \<le> kafkaRetryDelay (retryBackoff c) (retryMaxBackoff c) (int n)"
    "kafkaRetryDelay (retryBackoff c) (retryMaxBackoff c) (int n) \<le> retryMaxBackoff c"
    using kafka_delay.delay_range [OF 2(2-4), of n] by auto
  then show ?case using 2 by (auto simp: Let_def split: if_splits prod.splits)
qed simp

lemma runSession_balanced: "runSession c n xs = (ds, built, shut, True) \<Longrightarrow> shut = built + 1"
  by (induction c n xs arbitrary: ds built shut rule: runSession.induct) (auto split: if_splits prod.splits option.splits bool.splits)

section \<open>The life of a record\<close>

text \<open>A delivery that was acknowledged, or one whose acknowledgement did not arrive before the lock expired.\<close>

datatype delivery = Acked delivery_run | LockLost delivery_run

datatype fate = Accepted | DeadLettered | Dropped | Undecided

fun share_life :: "int64 \<Rightarrow> int64 \<Rightarrow> int64 \<Rightarrow> delivery list \<Rightarrow> fate" where
  "share_life limit maxAttempts n [] = Undecided"
| "share_life limit maxAttempts n (d # ds) =
     (case (case d of LockLost z \<Rightarrow> AckRelease | Acked z \<Rightarrow> processShareGroupRecord maxAttempts n z) of
        AckAccept \<Rightarrow> Accepted
      | AckReject \<Rightarrow> DeadLettered
      | AckRelease \<Rightarrow> if n \<ge> limit then Dropped else share_life limit maxAttempts (n + 1) ds)"

text \<open>A delivery that did not get as far as writing a dead letter.\<close>

definition no_dead_letter :: "delivery \<Rightarrow> bool" where
  "no_dead_letter d = (case d of LockLost _ \<Rightarrow> True | Acked z \<Rightarrow> lock_expiring z \<or> work_ended z \<or> lock_ended z \<or> \<not> published z)"

lemma process_accept: "processShareGroupRecord m n z = AckAccept \<Longrightarrow> handler_ok z \<and> n \<le> m"
  by (auto simp: processShareGroupRecord_def Let_def split: if_splits)

lemma process_reject: "processShareGroupRecord m n z = AckReject \<Longrightarrow> published z \<and> m \<le> n"
  by (auto simp: processShareGroupRecord_def Let_def split: if_splits)

lemma process_release: "processShareGroupRecord m n z = AckRelease \<Longrightarrow> m \<le> n \<Longrightarrow> no_dead_letter (Acked z)"
  by (auto simp: processShareGroupRecord_def no_dead_letter_def Let_def split: if_splits)

lemma life_settled:
  "share_life limit m n ds = Accepted \<Longrightarrow> \<exists>z. Acked z \<in> set ds \<and> handler_ok z"
  "share_life limit m n ds = DeadLettered \<Longrightarrow> \<exists>z. Acked z \<in> set ds \<and> published z"
  by (induction limit m n ds rule: share_life.induct) (auto split: AckStatus.splits delivery.splits if_splits dest: process_accept process_reject)

lemma life_dropped:
  assumes "share_life limit m n ds = Dropped" and "n \<le> limit"
  shows "nat (limit - n) < length ds \<and> (\<forall>i \<le> nat (limit - n). m \<le> n + int i \<longrightarrow> no_dead_letter (ds ! i))"
  using assms
proof (induction limit m n ds rule: share_life.induct)
  case (2 limit m n d ds)
  have rel: "(case d of LockLost z \<Rightarrow> AckRelease | Acked z \<Rightarrow> processShareGroupRecord m n z) = AckRelease"
    using 2(2) by (auto split: AckStatus.splits)
  then have first: "m \<le> n \<Longrightarrow> no_dead_letter d" using process_release by (auto simp: no_dead_letter_def split: delivery.splits)
  show ?case
  proof (cases "n \<ge> limit")
    case True
    then show ?thesis using 2(3) first by auto
  next
    case False
    then have "share_life limit m (n + 1) ds = Dropped" using 2(2) rel by simp
    then have IH: "nat (limit - (n + 1)) < length ds" "\<forall>i \<le> nat (limit - (n + 1)). m \<le> n + 1 + int i \<longrightarrow> no_dead_letter (ds ! i)"
      using 2(1) [OF rel False] False by auto
    have s: "nat (limit - n) = Suc (nat (limit - (n + 1)))" using False by simp
    have "no_dead_letter ((d # ds) ! i)" if "i \<le> nat (limit - n)" "m \<le> n + int i" for i
      using that first IH(2) s by (cases i) (auto simp: add.assoc)
    then show ?thesis using IH(1) s by simp
  qed
qed simp

lemma life_progress:
  assumes "\<forall>d \<in> set ds. \<not> no_dead_letter d" and "n \<le> m" and "m < limit" and "nat (m - n) < length ds"
  shows "share_life limit m n ds \<in> {Accepted, DeadLettered}"
  using assms
proof (induction ds arbitrary: n)
  case (Cons d ds)
  obtain z where z: "d = Acked z" "\<not> lock_expiring z" "\<not> work_ended z" "\<not> lock_ended z" "published z"
    using Cons.prems(1) by (cases d) (auto simp: no_dead_letter_def)
  show ?case
  proof (cases "handler_ok z \<or> n = m")
    case False
    then have "n + 1 \<le> m" "nat (m - (n + 1)) < length ds" using Cons.prems(2,4) by auto
    then show ?thesis using Cons.IH [of "n + 1"] Cons.prems(1,3) False z by (simp add: processShareGroupRecord_def)
  qed (use z Cons.prems(2) in \<open>auto simp: processShareGroupRecord_def Let_def\<close>)
qed simp


definition bad_run :: delivery_run where
  "bad_run = \<lparr>lock_expiring = False, ctx_valid = True, outcome = Error, still_valid = True, work_ended = False, lock_ended = False, published = True\<rparr>"


end
