(* ===== verification/Kc_Mq_Clients.thy ===== *)
theory Kc_Mq_Clients
  imports Kc_Kafka_Config
begin

text \<open>
  \<open>Publish\<close>, \<open>subscribe\<close> and \<open>Close\<close> of the Kafka and the Redis stream client (\<open>src/pkg/infra/kafka.go\<close>, \<open>redis_stream.go\<close>) on the
  shared life cycle. What brokers, factories and contexts answer are arguments.
\<close>

datatype client_error = Mq mq_error | BadOption | Marshal | SendFailed | ContextEnded | NoDeadLetterTopic | CreateGroup | CreateConsumer

section \<open>Publishing\<close>

text \<open>
  Both clients check the arguments, begin an operation, convert and send the message and end the operation; \<open>convert\<close> gives what is
  sent, \<open>answer\<close> whether sending it succeeded. The second component are the messages handed to the broker.
\<close>

definition Publish :: "('m \<Rightarrow> 'w option) \<Rightarrow> bool \<Rightarrow> bool \<Rightarrow> string \<Rightarrow> 'm option \<Rightarrow> Lifecycle \<Rightarrow> client_error option \<times> (string \<times> 'w) list \<times> Lifecycle" where
  "Publish convert answer ctx topic message l =
     (if \<not> ctx then (Some (Mq ErrInvalidArgument), [], l)
      else if TrimSpace topic = [] then (Some (Mq ErrInvalidArgument), [], l)
      else case message of
        None \<Rightarrow> (Some (Mq ErrInvalidArgument), [], l)
      | Some m \<Rightarrow>
          (case Begin l of
             (False, l1) \<Rightarrow> (Some (Mq ErrClosed), [], l1)
           | (True, l1) \<Rightarrow>
               (case convert m of
                  None \<Rightarrow> (Some Marshal, [], End l1)
                | Some w \<Rightarrow> (if answer then None else Some SendFailed, [(topic, w)], End l1))))"

definition redis_Publish :: "(headers option \<Rightarrow> string option) \<Rightarrow> streamConfig \<Rightarrow> bool \<Rightarrow> bool \<Rightarrow> string \<Rightarrow> Message option \<Rightarrow> Lifecycle
    \<Rightarrow> client_error option \<times> (string \<times> (string \<times> field) list) list \<times> Lifecycle" where
  "redis_Publish json c answer ctx topic message l =
     (case Publish (marshalRedisStreamMessage json) answer ctx topic message l of
        (e, sent, l') \<Rightarrow> (e, map (\<lambda>(t, w). (streamKey c t, w)) sent, l'))"

definition kafka_Publish :: "(headers \<Rightarrow> string list) \<Rightarrow> bool \<Rightarrow> bool \<Rightarrow> string \<Rightarrow> Message option \<Rightarrow> Lifecycle
    \<Rightarrow> client_error option \<times> (string \<times> kafka_record) list \<times> Lifecycle" where
  "kafka_Publish order answer ctx topic message l = Publish (\<lambda>m. Some (kafkaRecordFromMessage order topic m)) answer ctx topic message l"

text \<open>A publication is in progress only while it runs, nothing is sent once the client is closed or the arguments are refused, and an accepted message is sent once.\<close>

lemma Publish_spec:
  assumes "Publish convert answer ctx topic message l = (e, sent, l')"
  shows "l' = l" "e = None \<Longrightarrow> \<exists>m w. message = Some m \<and> convert m = Some w \<and> sent = [(topic, w)] \<and> lstate l = stateOpen" "lstate l \<noteq> stateOpen \<Longrightarrow> e \<noteq> None \<and> sent = []"
  using assms by (auto simp: Publish_def Begin_def End_def split: if_splits option.splits)

section \<open>Subscribing\<close>

text \<open>
  A call of \<open>subscribe\<close>, which \<open>Subscribe\<close> and \<open>Consume\<close> share. It refuses a nil context; \<open>Consume\<close> panics for one before it gets there, in
  \<open>context.WithoutCancel\<close>, so that batches are about other contexts only. A request is a call with what it meets: \<open>closing\<close>, whether \<open>Close\<close> begins during the call; \<open>group_ok\<close>, the answer of \<open>EnsureGroup\<close>;
  \<open>ended\<close>, whether the context has ended by then; \<open>dlq_answer\<close> as for \<open>checkDeadLetterTopic\<close>; \<open>created\<close>, whether the session factory of each index succeeds.
\<close>

record request =
  req_ctx :: "mq_error option option"
  req_topic :: string
  req_group :: string
  req_handler :: bool
  req_options :: "SubscribeOption option list"
  closing :: bool
  group_ok :: bool
  ended :: bool
  dlq_answer :: "bool option option"
  created :: "nat \<Rightarrow> bool"

text \<open>Clients with the life cycle and the open sessions, each with its subscription.\<close>

record client =
  life :: Lifecycle
  sessions :: "nat list"

definition close_meanwhile :: "bool \<Rightarrow> Lifecycle \<Rightarrow> Lifecycle" where
  "close_meanwhile b l = (if b then snd (Close_begin l) else l)"

definition redis_subscribe :: "streamConfig \<Rightarrow> request \<Rightarrow> client \<Rightarrow> (client_error + nat) \<times> client" where
  "redis_subscribe c q s =
     (case ValidateSubscribe (req_ctx q) (req_topic q) (req_group q) (req_handler q) of
        Some e \<Rightarrow> (Inl (Mq e), s)
      | None \<Rightarrow>
      case subscriptionConfig (req_options q) c of
        None \<Rightarrow> (Inl BadOption, s)
      | Some cfg \<Rightarrow>
      case Begin (life s) of
        (False, l1) \<Rightarrow> (Inl (Mq ErrClosed), s\<lparr>life := l1\<rparr>)
      | (True, l1) \<Rightarrow>
      if \<not> group_ok q then (Inl CreateGroup, s\<lparr>life := End l1\<rparr>)
      else if ended q then (Inl ContextEnded, s\<lparr>life := End l1\<rparr>)
      else case NewSubscription l1 of (i, l2) \<Rightarrow>
        (case Track i (close_meanwhile (closing q) l2) of
           (False, l3) \<Rightarrow> (Inl (Mq ErrClosed), s\<lparr>life := End (Abort ErrClosed i l3)\<rparr>)
         | (True, l3) \<Rightarrow> (Inr i, s\<lparr>life := End l3, sessions := i # sessions s\<rparr>)))"

text \<open>\<open>sessionFactories\<close>: how many there are; the loop over them opens sessions until one fails.\<close>

definition session_count :: "kafkaSubscriptionConfig \<Rightarrow> nat" where
  "session_count c = (if mode c = kafkaShareGroup then length (kafkaShareConsumerLimits c) else 1)"

fun open_sessions :: "nat \<Rightarrow> bool list \<Rightarrow> nat list \<Rightarrow> bool \<times> nat list" where
  "open_sessions i [] opened = (True, opened)"
| "open_sessions i (ok # oks) opened = (if ok then open_sessions i oks (i # opened) else (False, opened))"

text \<open>\<open>closeSessions\<close> closes the sessions of the subscription.\<close>

definition closeSessions :: "mq_error \<Rightarrow> nat \<Rightarrow> nat list \<Rightarrow> Lifecycle \<Rightarrow> nat list \<times> Lifecycle" where
  "closeSessions cause i opened l = (filter (\<lambda>j. j \<noteq> i) opened, Abort cause i l)"

definition kafka_subscribe :: "kafkaGroupMode \<Rightarrow> int64 \<Rightarrow> kafkaRuntimeConfig \<Rightarrow> request \<Rightarrow> client \<Rightarrow> (client_error + nat) \<times> client" where
  "kafka_subscribe m limit base q s =
     (case ValidateSubscribe (req_ctx q) (req_topic q) (req_group q) (req_handler q) of
        Some e \<Rightarrow> (Inl (Mq e), s)
      | None \<Rightarrow>
      case kafka_subscriptionConfig m limit base (req_options q) of
        None \<Rightarrow> (Inl BadOption, s)
      | Some cfg \<Rightarrow>
      case Begin (life s) of
        (False, l1) \<Rightarrow> (Inl (Mq ErrClosed), s\<lparr>life := l1\<rparr>)
      | (True, l1) \<Rightarrow>
      if \<not> checkDeadLetterTopic (dlq_answer q) (ended q) then (Inl (if dlq_answer q = Some (Some False) then NoDeadLetterTopic else ContextEnded), s\<lparr>life := End l1\<rparr>)
      else case NewSubscription l1 of (i, l2) \<Rightarrow>
        (case open_sessions i (map (created q) [0..<session_count cfg]) (sessions s) of
           (False, opened) \<Rightarrow>
             (case closeSessions ErrContext i opened l2 of (rest, l3) \<Rightarrow> (Inl CreateConsumer, s\<lparr>life := End l3, sessions := rest\<rparr>))
         | (True, opened) \<Rightarrow>
             (case Track i (close_meanwhile (closing q) l2) of
                (False, l3) \<Rightarrow>
                  (case closeSessions ErrClosed i opened l3 of (rest, l4) \<Rightarrow> (Inl (Mq ErrClosed), s\<lparr>life := End l4, sessions := rest\<rparr>))
              | (True, l3) \<Rightarrow> (Inr i, s\<lparr>life := End l3, sessions := opened\<rparr>))))"

text \<open>\<open>Stop\<close> of a subscription: its run closes the sessions before it finishes.\<close>

definition client_stop :: "nat \<Rightarrow> client \<Rightarrow> client_error option \<times> client" where
  "client_stop i s = (map_option Mq (fst (life_stop i (life s))), s\<lparr>life := snd (life_stop i (life s)), sessions := filter (\<lambda>j. j \<noteq> i) (sessions s)\<rparr>)"

definition client_alive :: "client \<Rightarrow> nat set" where
  "client_alive s = life_alive (life s)"

text \<open>Tracked subscriptions have been created, and open sessions belong to running subscriptions.\<close>

definition life_wf :: "Lifecycle \<Rightarrow> bool" where
  "life_wf l \<longleftrightarrow> (\<forall>i \<in> set (subscriptions l). i < next_sub l)"

definition client_ok :: "client \<Rightarrow> bool" where
  "client_ok s \<longleftrightarrow> life_wf (life s) \<and> set (sessions s) \<subseteq> client_alive s"

lemma open_sessions_filter: "open_sessions i oks opened = (ok, opened') \<Longrightarrow> filter (\<lambda>j. j \<noteq> i) opened' = filter (\<lambda>j. j \<noteq> i) opened"
  by (induction i oks opened rule: open_sessions.induct) (auto split: if_splits)

lemma open_sessions_set: "open_sessions i oks opened = (ok, opened') \<Longrightarrow> set opened' \<subseteq> insert i (set opened)"
  by (induction i oks opened rule: open_sessions.induct) (auto split: if_splits)

lemma stopPoll_alive [simp]: "life_alive (stopPoll i l) = life_alive l"
  by (auto simp: life_alive_def stopPoll_def upd_sub_def)

lemma close_meanwhile_alive [simp]: "life_alive (close_meanwhile b l) = life_alive l"
proof -
  have "life_alive (fold stopPoll is l) = life_alive l" for "is" l by (induction "is" arbitrary: l) simp_all
  then show ?thesis by (simp add: close_meanwhile_def Close_begin_def) (simp add: life_alive_def)
qed

lemma close_meanwhile_keeps: "next_sub (close_meanwhile b l) = next_sub l \<and> (sub_done (subs (close_meanwhile b l) i) = sub_done (subs l i))
    \<and> subscriptions (close_meanwhile b l) = subscriptions l"
proof -
  have "next_sub (fold stopPoll is l) = next_sub l \<and> (sub_done (subs (fold stopPoll is l) i) = sub_done (subs l i)) \<and> subscriptions (fold stopPoll is l) = subscriptions l" for "is" l
    by (induction "is" arbitrary: l) (auto simp: stopPoll_def upd_sub_def)
  then show ?thesis by (simp add: close_meanwhile_def Close_begin_def)
qed

lemma life_frame [simp]:
  "life_alive (End l) = life_alive l" "life_alive (Abort e i l) = life_alive l" "life_alive (l\<lparr>operations := n\<rparr>) = life_alive l"
  by (auto simp: life_alive_def End_def Abort_def abort_def stopPoll_def upd_sub_def)

lemma wf_frame [simp]:
  "life_wf (End l) = life_wf l" "life_wf (Abort e i l) = life_wf l" "life_wf (l\<lparr>operations := n\<rparr>) = life_wf l" "life_wf (close_meanwhile b l) = life_wf l"
  using close_meanwhile_keeps [of b l] by (auto simp: life_wf_def End_def Abort_def abort_def stopPoll_def upd_sub_def)

text \<open>A new subscription is not running before it is tracked.\<close>

lemma new_subscription_alive:
  assumes "NewSubscription l = (i, l')" and "life_wf l"
  shows "life_alive l' = life_alive l" "i \<notin> life_alive l" "i < next_sub l'" "\<not> sub_done (subs l' i)" "life_wf l'"
proof -
  have old: "x < next_sub l" if "x \<in> set (subscriptions l)" for x using assms(2) that by (simp add: life_wf_def)
  show "life_alive l' = life_alive l" "i \<notin> life_alive l" "i < next_sub l'" "\<not> sub_done (subs l' i)" "life_wf l'"
    using assms(1) old less_SucI by (fastforce simp: NewSubscription_def life_alive_def life_wf_def split: if_splits)+
qed

lemma track_alive:
  assumes "NewSubscription l = (i, l1)" and "Track i (close_meanwhile b l1) = (tracked_ok, l2)" and "life_wf l"
  shows "life_alive l2 = (if tracked_ok then insert i (life_alive l) else life_alive l) \<and> life_wf l2"
proof -
  note N = new_subscription_alive [OF assms(1,3)]
  have k: "i < next_sub (close_meanwhile b l1)" "\<not> sub_done (subs (close_meanwhile b l1) i)" using N(3,4) close_meanwhile_keeps by auto
  then have "life_alive l2 = (if tracked_ok then insert i (life_alive (close_meanwhile b l1)) else life_alive (close_meanwhile b l1))"
    using assms(2) by (auto simp: Track_def life_alive_def split: if_splits)
  moreover have "life_wf (close_meanwhile b l1)" using N(5) by simp
  then have "life_wf l2" using assms(2) k(1) by (auto simp: Track_def life_wf_def split: if_splits)
  ultimately show ?thesis using N(1) by simp
qed

lemma begin_alive: "Begin l = (b, l') \<Longrightarrow> life_alive l' = life_alive l \<and> life_wf l' = life_wf l"
  by (auto simp: Begin_def split: if_splits)

text \<open>
  \<open>subscribe\<close> of both clients: success adds one running subscription, an error none; sessions are added only for the
  new subscription.
\<close>

definition subscribe_spec :: "client_error + nat \<Rightarrow> client \<Rightarrow> client \<Rightarrow> bool" where
  "subscribe_spec r s s' \<longleftrightarrow> life_wf (life s') \<and>
     (case r of
        Inl e \<Rightarrow> client_alive s' = client_alive s \<and> set (sessions s') \<subseteq> set (sessions s)
      | Inr i \<Rightarrow> client_alive s' = insert i (client_alive s) \<and> i \<notin> client_alive s \<and> set (sessions s') \<subseteq> insert i (set (sessions s)))"

lemma redis_subscribe_spec:
  assumes "life_wf (life s)" and "redis_subscribe c q s = (r, s')"
  shows "subscribe_spec r s s'"
proof -
  obtain b l1 where b: "Begin (life s) = (b, l1)" by fastforce
  obtain i l2 where n: "NewSubscription l1 = (i, l2)" by fastforce
  obtain t l3 where t: "Track i (close_meanwhile (closing q) l2) = (t, l3)" by fastforce
  have w: "life_alive l1 = life_alive (life s)" "life_wf l1" using begin_alive [OF b] assms(1) by auto
  show ?thesis
    using assms w track_alive [OF n t w(2)] new_subscription_alive(2) [OF n w(2)] b n t
    by (auto simp: redis_subscribe_def subscribe_spec_def client_alive_def split: option.splits bool.splits if_splits)
qed

lemma kafka_subscribe_spec:
  assumes "life_wf (life s)" and "kafka_subscribe m limit base q s = (r, s')"
  shows "subscribe_spec r s s'"
proof -
  obtain b l1 where b: "Begin (life s) = (b, l1)" by fastforce
  obtain i l2 where n: "NewSubscription l1 = (i, l2)" by fastforce
  obtain t l3 where t: "Track i (close_meanwhile (closing q) l2) = (t, l3)" by fastforce
  have w: "life_alive l1 = life_alive (life s)" "life_wf l1" using begin_alive [OF b] assms(1) by auto
  have own: "set (filter (\<lambda>j. j \<noteq> i) opened) \<subseteq> set (sessions s)" "set opened \<subseteq> insert i (set (sessions s))" if "open_sessions i oks (sessions s) = (ok, opened)" for oks ok opened
    using open_sessions_set [OF that] by auto
  show ?thesis
    using assms w track_alive [OF n t w(2)] new_subscription_alive(1,2,5) [OF n w(2)] b n t
    by (auto simp: kafka_subscribe_def subscribe_spec_def client_alive_def closeSessions_def split: option.splits bool.splits if_splits prod.splits dest!: own)
qed

lemma client_stop_spec:
  assumes "client_ok s"
  shows "client_alive (snd (client_stop i s)) = client_alive s - {i} \<and> client_ok (snd (client_stop i s))"
proof -
  have a: "client_alive (snd (client_stop i s)) = client_alive s - {i}"
    using life.stop_ends [where s = "life s" and x = i] by (simp add: client_stop_def client_alive_def)
  moreover have "life_wf (snd (life_stop i (life s)))"
    using assms by (auto simp: client_ok_def life_wf_def life_stop_def Stop_begin_def Finish_def untrack_def Abort_def abort_def stopPoll_def upd_sub_def)
  ultimately show ?thesis using assms by (auto simp: client_ok_def client_stop_def)
qed

lemma subscribe_ok:
  assumes "client_ok s" and "subscribe_spec r s s'"
  shows "client_ok s'"
  using assms by (cases r) (auto simp: client_ok_def subscribe_spec_def)

interpretation kafka_client: subscriber client_ok client_alive "kafka_subscribe m limit base" client_stop for m limit base
proof
  show "client_alive s' = insert x (client_alive s) \<and> x \<notin> client_alive s \<and> client_ok s'" if "client_ok s" "kafka_subscribe m limit base c s = (Inr x, s')" for s c x s'
    using kafka_subscribe_spec [of s m limit base c] subscribe_ok that by (fastforce simp: client_ok_def subscribe_spec_def)
  show "client_alive s' = client_alive s \<and> client_ok s'" if "client_ok s" "kafka_subscribe m limit base c s = (Inl e, s')" for s c e s'
    using kafka_subscribe_spec [of s m limit base c] subscribe_ok that by (fastforce simp: client_ok_def subscribe_spec_def)
qed (rule client_stop_spec)

interpretation redis_client: subscriber client_ok client_alive "redis_subscribe cfg" client_stop for cfg
proof
  show "client_alive s' = insert x (client_alive s) \<and> x \<notin> client_alive s \<and> client_ok s'" if "client_ok s" "redis_subscribe cfg c s = (Inr x, s')" for s c x s'
    using redis_subscribe_spec [of s cfg c] subscribe_ok that by (fastforce simp: client_ok_def subscribe_spec_def)
  show "client_alive s' = client_alive s \<and> client_ok s'" if "client_ok s" "redis_subscribe cfg c s = (Inl e, s')" for s c e s'
    using redis_subscribe_spec [of s cfg c] subscribe_ok that by (fastforce simp: client_ok_def subscribe_spec_def)
qed (rule client_stop_spec)

text \<open>
  Batches on the real clients (C28). \<open>ConsumeAll\<close> on a Kafka client either starts all its subscriptions or leaves exactly those
  running that ran before, also when creating a consumer fails half way, the dead-letter topic is missing or the client is closed during the call;
  and no session stays open that does not belong to a running subscription. The same holds for the Redis stream client.
\<close>

theorem clients_all_or_nothing:
  assumes "client_ok s"
  shows "(\<forall>res s'. ConsumeAll True invalid (kafka_subscribe m limit base) client_stop qs s = (res, s') \<longrightarrow>
            set (sessions s') \<subseteq> client_alive s'
            \<and> (case res of Inl es \<Rightarrow> es \<noteq> [] \<and> client_alive s' = client_alive s
               | Inr ys \<Rightarrow> client_alive s' = client_alive s \<union> set ys \<and> set ys \<inter> client_alive s = {} \<and> length ys = length qs))
     \<and> (\<forall>res s'. ConsumeAll True invalid (redis_subscribe cfg) client_stop qs s = (res, s') \<longrightarrow>
            set (sessions s') \<subseteq> client_alive s'
            \<and> (case res of Inl es \<Rightarrow> es \<noteq> [] \<and> client_alive s' = client_alive s
               | Inr ys \<Rightarrow> client_alive s' = client_alive s \<union> set ys \<and> set ys \<inter> client_alive s = {} \<and> length ys = length qs))"
proof (intro conjI allI impI)
  fix res s' assume r: "ConsumeAll True invalid (kafka_subscribe m limit base) client_stop qs s = (res, s')"
  show "set (sessions s') \<subseteq> client_alive s'" "case res of Inl es \<Rightarrow> es \<noteq> [] \<and> client_alive s' = client_alive s
      | Inr ys \<Rightarrow> client_alive s' = client_alive s \<union> set ys \<and> set ys \<inter> client_alive s = {} \<and> length ys = length qs"
    using kafka_client.all_or_nothing [OF assms r] by (auto simp: client_ok_def split: sum.splits)
next
  fix res s' assume r: "ConsumeAll True invalid (redis_subscribe cfg) client_stop qs s = (res, s')"
  show "set (sessions s') \<subseteq> client_alive s'" "case res of Inl es \<Rightarrow> es \<noteq> [] \<and> client_alive s' = client_alive s
      | Inr ys \<Rightarrow> client_alive s' = client_alive s \<union> set ys \<and> set ys \<inter> client_alive s = {} \<and> length ys = length qs"
    using redis_client.all_or_nothing [OF assms r] by (auto simp: client_ok_def split: sum.splits)
qed

definition demo_request :: "(nat \<Rightarrow> bool) \<Rightarrow> request" where
  "demo_request oks =
     \<lparr>req_ctx = Some None, req_topic = ''orders'', req_group = ''g'', req_handler = True, req_options = [Some (WithConcurrency 3)], closing = False,
      group_ok = True, ended = False, dlq_answer = Some (Some True), created = oks\<rparr>"

definition demo_client :: client where
  "demo_client = \<lparr>life = NewLifecycle, sessions = []\<rparr>"

theorem clients_all_or_nothing_witness:
  "\<exists>es s'. ConsumeAll True BadOption (kafka_subscribe kafkaShareGroup 5 demo_runtime) client_stop [demo_request (\<lambda>_. True), demo_request (\<lambda>k. k \<noteq> 1)] demo_client = (Inl es, s')
     \<and> client_alive s' = {} \<and> sessions s' = []"
proof -
  let ?r = "ConsumeAll True BadOption (kafka_subscribe kafkaShareGroup 5 demo_runtime) client_stop [demo_request (\<lambda>_. True), demo_request (\<lambda>k. k \<noteq> 1)] demo_client"
  have "map_option session_count (kafka_subscriptionConfig kafkaShareGroup 5 demo_runtime [Some (WithConcurrency 3)]) = Some 3"
    by (simp add: kafka_subscriptionConfig_def ResolveSubscribeOptions_def no_options_def demo_runtime_def kafkaRuntimeConfigFrom_def common_overrides_def override_def
      kafkaRuntimeConfig.defs within_limits_def kafka_limits limits_length share_count_def go_div_def dflt_def Let_def session_count_def)
  then obtain c where c: "kafka_subscriptionConfig kafkaShareGroup 5 demo_runtime [Some (WithConcurrency 3)] = Some c" "session_count c = 3" by auto
  have v: "ValidateSubscribe (Some None) ''orders'' ''g'' True = None"
    by (simp add: ValidateSubscribe_def TrimSpace_plain is_space_def byte_def)
  have "isl (fst ?r)"
    by (simp add: ConsumeAll_def kafka_subscribe_def demo_request_def demo_client_def v c Begin_def NewLifecycle_def checkDeadLetterTopic_def NewSubscription_def
      Track_def close_meanwhile_def closeSessions_def upt_rec isl_def split: prod.splits)
  then obtain es s' where r: "?r = (Inl es, s')" by (metis isl_def prod.collapse)
  have "client_ok demo_client" by (simp add: client_ok_def demo_client_def life_wf_def NewLifecycle_def)
  then have "set (sessions s') \<subseteq> client_alive s' \<and> client_alive s' = client_alive demo_client"
    using clients_all_or_nothing [where s = demo_client] r by fastforce
  moreover have "client_alive demo_client = {}" by (simp add: client_alive_def life_alive_def demo_client_def NewLifecycle_def)
  ultimately show ?thesis using r by auto
qed

end
