(* ===== verification/Kc_Sqlxgen.thy ===== *)
theory Kc_Sqlxgen
  imports Kc_Prelude
begin

text \<open>
  The SQL builder that generated code calls, \<open>src/pkg/sqlxgen/sqlxgen.go\<close>: identifiers, conditions, assignments, orders and pages as
  text with placeholders, the check of columns, and the guard against statements without a restriction. Argument
  values are of any type; an interface that holds nil is \<open>None\<close>.
\<close>

section \<open>Dialects and identifiers\<close>

datatype sqlxgen_error = ErrInvalidArgument | ErrUnsafeMutation | ErrUnsupportedDriver

datatype Dialect = DialectPostgreSQL | DialectMySQL

text \<open>The driver name of the executor, if there is one.\<close>

definition DetectDialect :: "string option \<Rightarrow> sqlxgen_error + Dialect" where
  "DetectDialect executor =
     (case executor of
        None \<Rightarrow> Inl ErrInvalidArgument
      | Some driver \<Rightarrow>
          if driver = ''pgx'' then Inr DialectPostgreSQL
          else if driver = ''mysql'' then Inr DialectMySQL
          else Inl ErrUnsupportedDriver)"

definition quote_char :: "Dialect \<Rightarrow> char" where
  "quote_char d = (if d = DialectMySQL then CHR ''`'' else CHR 0x22)"

definition double_quotes :: "char \<Rightarrow> string \<Rightarrow> string" where
  "double_quotes q s = concat (map (\<lambda>c. if c = q then [q, q] else [c]) s)"

definition QuoteIdentifier :: "Dialect \<Rightarrow> string \<Rightarrow> string" where
  "QuoteIdentifier d ident = [quote_char d] @ double_quotes (quote_char d) ident @ [quote_char d]"

definition QuoteTable :: "Dialect \<Rightarrow> string \<Rightarrow> string \<Rightarrow> string" where
  "QuoteTable d schema table = (if schema \<noteq> [] then QuoteIdentifier d schema @ ''.'' @ QuoteIdentifier d table else QuoteIdentifier d table)"

section \<open>Conditions\<close>

datatype 'v Expr =
    comparisonExpr (eowner: string) (ecolumn: string) string "'v list"
  | groupExpr string "'v Expr option list"
  | notExpr "'v Expr option"

fun placeholders :: "nat \<Rightarrow> 'v list \<Rightarrow> string" where
  "placeholders i [] = []"
| "placeholders i (v # vs) = (if i > 0 then '', '' else []) @ ''?'' @ placeholders (i + 1) vs"

definition render_comparison :: "Dialect \<Rightarrow> string \<Rightarrow> string \<Rightarrow> 'v list \<Rightarrow> sqlxgen_error + string \<times> 'v list" where
  "render_comparison d column op values =
     (if column = [] then Inl ErrInvalidArgument
      else
        let c = QuoteIdentifier d column in
        if op = ''IS NULL'' \<or> op = ''IS NOT NULL'' then Inr (c @ '' '' @ op, [])
        else if op = ''IN'' \<or> op = ''NOT IN'' then
          (if values = [] then Inr (if op = ''IN'' then ''1 = 0'' else ''1 = 1'', [])
           else Inr (c @ '' '' @ op @ '' ('' @ placeholders 0 values @ '')'', values))
        else if op = ''BETWEEN'' then Inr (c @ '' BETWEEN ? AND ?'', values)
        else Inr (c @ '' '' @ op @ '' ?'', values))"

text \<open>The loop of \<open>groupExpr.render\<close> over what its children render to.\<close>

fun join_parts :: "string \<Rightarrow> nat \<Rightarrow> (sqlxgen_error + string \<times> 'v list) option list \<Rightarrow> sqlxgen_error + string \<times> 'v list" where
  "join_parts op i [] = Inr ([], [])"
| "join_parts op i (None # ps) = Inl ErrInvalidArgument"
| "join_parts op i (Some (Inl e) # ps) = Inl e"
| "join_parts op i (Some (Inr p) # ps) =
     (case join_parts op (i + 1) ps of
        Inl e \<Rightarrow> Inl e
      | Inr r \<Rightarrow> Inr ((if i > 0 then '' '' @ op @ '' '' else []) @ ''('' @ fst p @ '')'' @ fst r, snd p @ snd r))"

definition render_not :: "(sqlxgen_error + string \<times> 'v list) option \<Rightarrow> sqlxgen_error + string \<times> 'v list" where
  "render_not r =
     (case r of
        None \<Rightarrow> Inl ErrInvalidArgument
      | Some (Inl e) \<Rightarrow> Inl e
      | Some (Inr p) \<Rightarrow> Inr (''NOT ('' @ fst p @ '')'', snd p))"

primrec render :: "Dialect \<Rightarrow> 'v Expr \<Rightarrow> sqlxgen_error + string \<times> 'v list" where
  "render d (comparisonExpr ow column op values) = render_comparison d column op values"
| "render d (groupExpr op es) =
     (if es = [] then Inr (if op = ''AND'' then ''1 = 1'' else ''1 = 0'', [])
      else join_parts op 0 (map (map_option (render d)) es))"
| "render d (notExpr e) = render_not (map_option (render d) e)"

definition And_expr :: "'v Expr option list \<Rightarrow> 'v Expr" where "And_expr es = groupExpr ''AND'' es"
definition Or_expr :: "'v Expr option list \<Rightarrow> 'v Expr" where "Or_expr es = groupExpr ''OR'' es"
definition Not_expr :: "'v Expr option \<Rightarrow> 'v Expr" where "Not_expr e = notExpr e"

section \<open>Assignments, orders and columns\<close>

record 'v assignment =
  aowner :: string
  acolumn :: string
  aop :: string
  avalue :: "'v option"

record ordering =
  oowner :: string
  ocolumn :: string
  desc :: bool

definition ColumnKey :: "string \<Rightarrow> string \<Rightarrow> string" where
  "ColumnKey ow column = ow @ [CHR 0x00] @ column"

definition renderAssignment :: "Dialect \<Rightarrow> 'v assignment \<Rightarrow> sqlxgen_error + string \<times> 'v option list" where
  "renderAssignment d a =
     (if acolumn a = [] then Inl ErrInvalidArgument
      else
        let c = QuoteIdentifier d (acolumn a) in
        if aop a = ''NULL'' then Inr (c @ '' = NULL'', [])
        else if aop a = ''+'' \<or> aop a = ''-'' then Inr (c @ '' = '' @ c @ '' '' @ aop a @ '' ?'', [avalue a])
        else Inr (c @ '' = ?'', [avalue a]))"

definition renderOrder :: "Dialect \<Rightarrow> ordering \<Rightarrow> sqlxgen_error + string" where
  "renderOrder d r =
     (if ocolumn r = [] then Inl ErrInvalidArgument
      else Inr (QuoteIdentifier d (ocolumn r) @ (if desc r then '' DESC'' else '' ASC'')))"

text \<open>Typed columns; all column types of the source share these fields.\<close>

record Column =
  cowner :: string
  cname :: string

definition NewColumn :: "string \<Rightarrow> string list \<Rightarrow> Column" where
  "NewColumn name owners = \<lparr>cowner = (case owners of [] \<Rightarrow> [] | ow # _ \<Rightarrow> ow), cname = name\<rparr>"

definition listExpr :: "string \<Rightarrow> string \<Rightarrow> string \<Rightarrow> 'v list \<Rightarrow> 'v Expr" where
  "listExpr ow column operator values = comparisonExpr ow column operator values"

definition Eq :: "Column \<Rightarrow> 'v \<Rightarrow> 'v Expr" where "Eq c v = comparisonExpr (cowner c) (cname c) ''='' [v]"
definition Ne :: "Column \<Rightarrow> 'v \<Rightarrow> 'v Expr" where "Ne c v = comparisonExpr (cowner c) (cname c) ''<>'' [v]"
definition In :: "Column \<Rightarrow> 'v list \<Rightarrow> 'v Expr" where "In c vs = listExpr (cowner c) (cname c) ''IN'' vs"
definition NotIn :: "Column \<Rightarrow> 'v list \<Rightarrow> 'v Expr" where "NotIn c vs = listExpr (cowner c) (cname c) ''NOT IN'' vs"
definition Gt :: "Column \<Rightarrow> 'v \<Rightarrow> 'v Expr" where "Gt c v = comparisonExpr (cowner c) (cname c) ''>'' [v]"
definition Gte :: "Column \<Rightarrow> 'v \<Rightarrow> 'v Expr" where "Gte c v = comparisonExpr (cowner c) (cname c) ''>='' [v]"
definition Lt :: "Column \<Rightarrow> 'v \<Rightarrow> 'v Expr" where "Lt c v = comparisonExpr (cowner c) (cname c) ''<'' [v]"
definition Lte :: "Column \<Rightarrow> 'v \<Rightarrow> 'v Expr" where "Lte c v = comparisonExpr (cowner c) (cname c) ''<='' [v]"
definition Between :: "Column \<Rightarrow> 'v \<Rightarrow> 'v \<Rightarrow> 'v Expr" where "Between c a b = comparisonExpr (cowner c) (cname c) ''BETWEEN'' [a, b]"
definition Like :: "Column \<Rightarrow> 'v \<Rightarrow> 'v Expr" where "Like c pat = comparisonExpr (cowner c) (cname c) ''LIKE'' [pat]"
definition IsNull :: "Column \<Rightarrow> 'v Expr" where "IsNull c = comparisonExpr (cowner c) (cname c) ''IS NULL'' []"
definition IsNotNull :: "Column \<Rightarrow> 'v Expr" where "IsNotNull c = comparisonExpr (cowner c) (cname c) ''IS NOT NULL'' []"
definition SetTo :: "Column \<Rightarrow> 'v \<Rightarrow> 'v assignment" where "SetTo c v = \<lparr>aowner = cowner c, acolumn = cname c, aop = [], avalue = Some v\<rparr>"
definition Add :: "Column \<Rightarrow> 'v \<Rightarrow> 'v assignment" where "Add c v = \<lparr>aowner = cowner c, acolumn = cname c, aop = ''+'', avalue = Some v\<rparr>"
definition Sub :: "Column \<Rightarrow> 'v \<Rightarrow> 'v assignment" where "Sub c v = \<lparr>aowner = cowner c, acolumn = cname c, aop = ''-'', avalue = Some v\<rparr>"
definition SetNull :: "Column \<Rightarrow> 'v assignment" where "SetNull c = \<lparr>aowner = cowner c, acolumn = cname c, aop = ''NULL'', avalue = None\<rparr>"
definition Asc :: "Column \<Rightarrow> ordering" where "Asc c = \<lparr>oowner = cowner c, ocolumn = cname c, desc = False\<rparr>"
definition Desc :: "Column \<Rightarrow> ordering" where "Desc c = \<lparr>oowner = cowner c, ocolumn = cname c, desc = True\<rparr>"

section \<open>Statements\<close>

definition isAllowedColumn :: "string set \<Rightarrow> string \<Rightarrow> string \<Rightarrow> bool" where
  "isAllowedColumn allowed ow column = (if ColumnKey ow column \<in> allowed then True else if ow = [] then column \<in> allowed else False)"

text \<open>\<open>validateExprColumns\<close> on one expression; on several they are all checked.\<close>

primrec validate_expr :: "string set \<Rightarrow> 'v Expr \<Rightarrow> bool" where
  "validate_expr allowed (comparisonExpr ow column op values) = isAllowedColumn allowed ow column"
| "validate_expr allowed (groupExpr op es) = list_all (\<lambda>x. x = Some True) (map (map_option (validate_expr allowed)) es)"
| "validate_expr allowed (notExpr e) = (map_option (validate_expr allowed) e = Some True)"

definition validateExprColumns :: "string set \<Rightarrow> 'v Expr option list \<Rightarrow> bool" where
  "validateExprColumns allowed es = list_all (\<lambda>e. case e of None \<Rightarrow> False | Some x \<Rightarrow> validate_expr allowed x) es"

definition BuildWhere :: "Dialect \<Rightarrow> 'v Expr option list \<Rightarrow> string set \<Rightarrow> sqlxgen_error + string \<times> 'v list" where
  "BuildWhere d es allowed =
     (if es = [] then Inr ([], [])
      else if \<not> validateExprColumns allowed es then Inl ErrInvalidArgument
      else case render d (And_expr es) of Inl e \<Rightarrow> Inl e | Inr p \<Rightarrow> Inr ('' WHERE '' @ fst p, snd p))"

datatype predicateClass = predicateConditional | predicateAlwaysFalse | predicateAlwaysTrue

text \<open>The loop of \<open>classifyPredicate\<close> over the classes of the children.\<close>

fun classify_children :: "string \<Rightarrow> bool \<Rightarrow> bool \<Rightarrow> predicateClass list \<Rightarrow> predicateClass" where
  "classify_children op allTrue allFalse [] =
     (if allTrue then predicateAlwaysTrue else if allFalse then predicateAlwaysFalse else predicateConditional)"
| "classify_children op allTrue allFalse (k # ks) =
     (if op = ''AND'' \<and> k = predicateAlwaysFalse then predicateAlwaysFalse
      else if op = ''OR'' \<and> k = predicateAlwaysTrue then predicateAlwaysTrue
      else classify_children op (allTrue \<and> k = predicateAlwaysTrue) (allFalse \<and> k = predicateAlwaysFalse) ks)"

text \<open>A nil expression is conditional (the default case).\<close>

definition class_of :: "predicateClass option \<Rightarrow> predicateClass" where
  "class_of x = (case x of None \<Rightarrow> predicateConditional | Some k \<Rightarrow> k)"

definition negate :: "predicateClass \<Rightarrow> predicateClass" where
  "negate k = (case k of predicateAlwaysTrue \<Rightarrow> predicateAlwaysFalse | predicateAlwaysFalse \<Rightarrow> predicateAlwaysTrue | _ \<Rightarrow> predicateConditional)"

primrec classifyPredicate :: "'v Expr \<Rightarrow> predicateClass" where
  "classifyPredicate (comparisonExpr ow column op values) =
     (if values = [] then (if op = ''IN'' then predicateAlwaysFalse else if op = ''NOT IN'' then predicateAlwaysTrue else predicateConditional)
      else predicateConditional)"
| "classifyPredicate (groupExpr op es) =
     (if es = [] then (if op = ''AND'' then predicateAlwaysTrue else predicateAlwaysFalse)
      else classify_children op True True (map class_of (map (map_option classifyPredicate) es)))"
| "classifyPredicate (notExpr e) = negate (class_of (map_option classifyPredicate e))"

definition IsUnrestricted :: "'v Expr option list \<Rightarrow> bool" where
  "IsUnrestricted es = (if es = [] then True else classifyPredicate (groupExpr ''AND'' es) = predicateAlwaysTrue)"

fun build_assignments :: "Dialect \<Rightarrow> string set \<Rightarrow> string set \<Rightarrow> bool \<Rightarrow> 'v assignment option list \<Rightarrow> sqlxgen_error + string \<times> 'v option list" where
  "build_assignments d allowed seen started [] = Inr ([], [])"
| "build_assignments d allowed seen started (None # as) = Inl ErrInvalidArgument"
| "build_assignments d allowed seen started (Some a # as) =
     (if \<not> isAllowedColumn allowed (aowner a) (acolumn a) then Inl ErrInvalidArgument
      else if ColumnKey (aowner a) (acolumn a) \<in> seen then Inl ErrInvalidArgument
      else case renderAssignment d a of
        Inl e \<Rightarrow> Inl e
      | Inr p \<Rightarrow>
          (case build_assignments d allowed (insert (ColumnKey (aowner a) (acolumn a)) seen) True as of
             Inl e \<Rightarrow> Inl e
           | Inr r \<Rightarrow> Inr ((if started then '', '' else []) @ fst p @ fst r, snd p @ snd r)))"

definition BuildAssignments :: "Dialect \<Rightarrow> 'v assignment option list \<Rightarrow> string set \<Rightarrow> sqlxgen_error + string \<times> 'v option list" where
  "BuildAssignments d as allowed = (if as = [] then Inl ErrInvalidArgument else build_assignments d allowed {} False as)"

fun build_order :: "Dialect \<Rightarrow> string set \<Rightarrow> bool \<Rightarrow> ordering option list \<Rightarrow> sqlxgen_error + string" where
  "build_order d allowed started [] = Inr []"
| "build_order d allowed started (None # rs) = Inl ErrInvalidArgument"
| "build_order d allowed started (Some r # rs) =
     (if \<not> isAllowedColumn allowed (oowner r) (ocolumn r) then Inl ErrInvalidArgument
      else case renderOrder d r of
        Inl e \<Rightarrow> Inl e
      | Inr p \<Rightarrow> (case build_order d allowed True rs of Inl e \<Rightarrow> Inl e | Inr q \<Rightarrow> Inr ((if started then '', '' else []) @ p @ q)))"

definition BuildOrder :: "Dialect \<Rightarrow> ordering option list \<Rightarrow> string set \<Rightarrow> sqlxgen_error + string" where
  "BuildOrder d rs allowed =
     (if rs = [] then Inr []
      else case build_order d allowed False rs of Inl e \<Rightarrow> Inl e | Inr q \<Rightarrow> Inr ('' ORDER BY '' @ q))"

definition BuildPagination :: "Dialect \<Rightarrow> int64 option \<Rightarrow> int64 option \<Rightarrow> sqlxgen_error + string \<times> int64 list" where
  "BuildPagination d limit offset =
     (if (\<exists>l \<in> set_option limit. l < 0) \<or> (\<exists>x \<in> set_option offset. x < 0) then Inl ErrInvalidArgument
      else case (limit, offset) of
        (None, None) \<Rightarrow> Inr ([], [])
      | (Some l, None) \<Rightarrow> Inr ('' LIMIT ?'', [l])
      | (Some l, Some x) \<Rightarrow> Inr ('' LIMIT ? OFFSET ?'', [l, x])
      | (None, Some x) \<Rightarrow>
          if d = DialectMySQL then Inr ('' LIMIT 18446744073709551615 OFFSET ?'', [x]) else Inr ('' OFFSET ?'', [x]))"

text \<open>The kinds of destinations of \<open>AssignAutoID\<close>: no pointer, integers of some width, anything else.\<close>

datatype destination = NoPointer | Signed nat | Unsigned nat | OtherKind

definition AssignAutoID :: "destination \<Rightarrow> int64 \<Rightarrow> sqlxgen_error + int" where
  "AssignAutoID dest ident =
     (case dest of
        NoPointer \<Rightarrow> Inl ErrInvalidArgument
      | Signed bits \<Rightarrow> if ident < - (2 ^ (bits - 1)) \<or> ident > 2 ^ (bits - 1) - 1 then Inl ErrInvalidArgument else Inr ident
      | Unsigned bits \<Rightarrow> if ident < 0 \<or> ident > 2 ^ bits - 1 then Inl ErrInvalidArgument else Inr ident
      | OtherKind \<Rightarrow> Inl ErrInvalidArgument)"

lemma AssignAutoID_exact: "AssignAutoID dest ident = Inr x \<longleftrightarrow>
     x = ident \<and> (case dest of Signed bits \<Rightarrow> - (2 ^ (bits - 1)) \<le> x \<and> x < 2 ^ (bits - 1) | Unsigned bits \<Rightarrow> 0 \<le> x \<and> x < 2 ^ bits | _ \<Rightarrow> False)"
  by (auto simp: AssignAutoID_def split: destination.splits)

lemma BuildPagination_spec: "BuildPagination d limit offset = Inr (q, as) \<Longrightarrow>
     count_list q CHR ''?'' = length as \<and> as = (case limit of None \<Rightarrow> [] | Some l \<Rightarrow> [l]) @ (case offset of None \<Rightarrow> [] | Some x \<Rightarrow> [x]) \<and> list_all (\<lambda>x. 0 \<le> x) as"
  by (auto simp: BuildPagination_def split: if_splits option.splits)

text \<open>
  \<open>BindNamedIn\<close> over the library functions \<open>sqlx.Named\<close> and \<open>sqlx.In\<close> and the executor's \<open>Rebind\<close>.
\<close>

datatype bind_error = Refused sqlxgen_error | BindNamed | ExpandIn

definition BindNamedIn ::
  "(string \<Rightarrow> 'a \<Rightarrow> (string \<times> 'v list) option) \<Rightarrow> (string \<Rightarrow> 'v list \<Rightarrow> (string \<times> 'v list) option) \<Rightarrow> (string \<Rightarrow> string)
    \<Rightarrow> string option \<Rightarrow> string \<Rightarrow> 'a \<Rightarrow> bind_error + string \<times> 'v list" where
  "BindNamedIn named expand rebind executor query argument =
     (case DetectDialect executor of
        Inl e \<Rightarrow> Inl (Refused e)
      | Inr _ \<Rightarrow>
          (case named query argument of
             None \<Rightarrow> Inl BindNamed
           | Some (bound, as) \<Rightarrow>
               (case expand bound as of None \<Rightarrow> Inl ExpandIn | Some (q, as1) \<Rightarrow> Inr (rebind q, as1))))"

end
