(* ===== verification/Kc_Sqlxgen_Text.thy ===== *)
theory Kc_Sqlxgen_Text
  imports Kc_Sqlxgen
begin

text \<open>
  What the text built by \<open>Kc_Sqlxgen\<close> means. Conditions have a truth value in the three-valued logic of SQL; a reader of SQL conditions
  (quoted identifiers, words, placeholders, \<open>NOT\<close> over \<open>AND\<close> over \<open>OR\<close>) gives the meaning of text and arguments.
\<close>

section \<open>Truth\<close>

text \<open>\<open>A column op values\<close> is the answer of a comparison for a row, \<open>None\<close> for unknown.\<close>

type_synonym 'v answers = "string \<Rightarrow> string \<Rightarrow> 'v list \<Rightarrow> bool option"

definition and3 :: "bool option \<Rightarrow> bool option \<Rightarrow> bool option" where
  "and3 x y = (if x = Some False \<or> y = Some False then Some False else if x = None \<or> y = None then None else Some True)"

definition not3 :: "bool option \<Rightarrow> bool option" where
  "not3 = map_option Not"

definition or3 :: "bool option \<Rightarrow> bool option \<Rightarrow> bool option" where
  "or3 x y = not3 (and3 (not3 x) (not3 y))"

definition combine :: "string \<Rightarrow> bool option list \<Rightarrow> bool option" where
  "combine op xs = (if op = ''AND'' then foldr and3 xs (Some True) else foldr or3 xs (Some False))"

definition unnil :: "bool option option \<Rightarrow> bool option" where
  "unnil x = (case x of None \<Rightarrow> None | Some t \<Rightarrow> t)"

primrec truth :: "'v answers \<Rightarrow> 'v Expr \<Rightarrow> bool option" where
  "truth A (comparisonExpr ow column op values) =
     (if values = [] \<and> op = ''IN'' then Some False else if values = [] \<and> op = ''NOT IN'' then Some True else A column op values)"
| "truth A (groupExpr op es) = combine op (map unnil (map (map_option (truth A)) es))"
| "truth A (notExpr e) = not3 (unnil (map_option (truth A) e))"

text \<open>Expressions that the package can build: only its own operators, with as many values as they take.\<close>

definition comparison_ok :: "string \<Rightarrow> 'v list \<Rightarrow> bool" where
  "comparison_ok op values \<longleftrightarrow>
     (op \<in> set [''='', ''<>'', ''>'', ''>='', ''<'', ''<='', ''LIKE''] \<and> length values = 1) \<or> op \<in> set [''IN'', ''NOT IN'']
     \<or> (op = ''BETWEEN'' \<and> length values = 2) \<or> (op \<in> set [''IS NULL'', ''IS NOT NULL''] \<and> values = [])"

primrec built :: "'v Expr \<Rightarrow> bool" where
  "built (comparisonExpr ow column op values) \<longleftrightarrow> comparison_ok op values"
| "built (groupExpr op es) \<longleftrightarrow> (op = ''AND'' \<or> op = ''OR'') \<and> list_all (\<lambda>x. x \<noteq> Some False) (map (map_option built) es)"
| "built (notExpr e) \<longleftrightarrow> map_option built e \<noteq> Some False"

lemma constructors_built:
  "built (Eq c v)" "built (Ne c v)" "built (In c vs)" "built (NotIn c vs)" "built (Gt c v)" "built (Gte c v)" "built (Lt c v)" "built (Lte c v)"
  "built (Between c v w)" "built (Like c v)" "built (IsNull c)" "built (IsNotNull c)"
  "(\<And>x. Some x \<in> set es \<Longrightarrow> built x) \<Longrightarrow> built (And_expr es) \<and> built (Or_expr es)"
  "(\<And>x. e = Some x \<Longrightarrow> built x) \<Longrightarrow> built (Not_expr e)"
  by (auto simp: Eq_def Ne_def In_def NotIn_def Gt_def Gte_def Lt_def Lte_def Between_def Like_def IsNull_def IsNotNull_def listExpr_def comparison_ok_def
      And_expr_def Or_expr_def Not_expr_def list_all_iff)

section \<open>The guard against unrestricted statements\<close>

definition class3 :: "predicateClass \<Rightarrow> bool option" where
  "class3 k = (case k of predicateConditional \<Rightarrow> None | predicateAlwaysFalse \<Rightarrow> Some False | predicateAlwaysTrue \<Rightarrow> Some True)"

lemma class3_simps [simp]:
  "class3 predicateConditional = None" "class3 predicateAlwaysFalse = Some False" "class3 predicateAlwaysTrue = Some True"
  by (auto simp: class3_def split: predicateClass.splits)

lemma class3_iff: "None = class3 k \<longleftrightarrow> k = predicateConditional" "Some True = class3 k \<longleftrightarrow> k = predicateAlwaysTrue"
  "Some False = class3 k \<longleftrightarrow> k = predicateAlwaysFalse" "class3 k = Some True \<longleftrightarrow> k = predicateAlwaysTrue"
  by (cases k; simp)+

lemma fold_and3: "foldr and3 xs (Some True) = (if Some False \<in> set xs then Some False else if None \<in> set xs then None else Some True)"
  by (induction xs) (auto simp: and3_def)

lemma fold_or3: "foldr or3 xs (Some False) = (if Some True \<in> set xs then Some True else if None \<in> set xs then None else Some False)"
proof (induction xs)
  case (Cons x xs)
  then show ?case by (cases x) (auto simp: or3_def and3_def not3_def)
qed simp

lemma children_and:
  "class3 (classify_children ''AND'' aT aF ks) =
     (if predicateAlwaysFalse \<in> set ks then Some False
      else if aT \<and> set ks \<subseteq> {predicateAlwaysTrue} then Some True
      else if aF \<and> ks = [] then Some False else None)"
  by (induction ks arbitrary: aT aF) (auto simp: class3_def split: predicateClass.splits)

lemma children_or:
  "class3 (classify_children ''OR'' aT aF ks) =
     (if predicateAlwaysTrue \<in> set ks then Some True
      else if aT \<and> ks = [] then Some True
      else if aF \<and> set ks \<subseteq> {predicateAlwaysFalse} then Some False else None)"
  by (induction ks arbitrary: aT aF) (auto simp: class3_def split: predicateClass.splits)

lemma all_true: "set ks \<subseteq> {predicateAlwaysTrue} \<longleftrightarrow> predicateAlwaysFalse \<notin> set ks \<and> predicateConditional \<notin> set ks"
proof (induction ks)
  case (Cons k ks)
  then show ?case by (cases k) auto
qed simp

lemma all_false: "set ks \<subseteq> {predicateAlwaysFalse} \<longleftrightarrow> predicateAlwaysTrue \<notin> set ks \<and> predicateConditional \<notin> set ks"
proof (induction ks)
  case (Cons k ks)
  then show ?case by (cases k) auto
qed simp

lemma in_class3: "None \<in> set (map class3 ks) \<longleftrightarrow> predicateConditional \<in> set ks"
  "Some True \<in> set (map class3 ks) \<longleftrightarrow> predicateAlwaysTrue \<in> set ks" "Some False \<in> set (map class3 ks) \<longleftrightarrow> predicateAlwaysFalse \<in> set ks"
  by (auto simp: image_iff class3_iff)

lemma classify_group:
  assumes "op = ''AND'' \<or> op = ''OR''" and "ks \<noteq> []"
  shows "class3 (classify_children op True True ks) = combine op (map class3 ks)"
  using assms(1)
proof
  assume o: "op = ''AND''"
  show ?thesis unfolding o children_and combine_def fold_and3 in_class3 all_true all_false using assms(2) by simp
next
  assume o: "op = ''OR''"
  show ?thesis unfolding o children_or combine_def fold_or3 in_class3 all_true all_false using assms(2) by simp
qed

text \<open>The classification is the value of the condition when no comparison is known.\<close>

lemma classify_truth: "built e \<Longrightarrow> class3 (classifyPredicate e) = truth (\<lambda>_ _ _. None) e"
proof (induction e)
  case (groupExpr op es)
  have "class3 (class_of (map_option classifyPredicate x)) = unnil (map_option (truth (\<lambda>_ _ _. None)) x)" if "x \<in> set es" for x
    using groupExpr.IH [OF that] groupExpr.prems that by (cases x) (auto simp: class_of_def unnil_def list_all_iff)
  then have "map class3 (map class_of (map (map_option classifyPredicate) es)) = map unnil (map (map_option (truth (\<lambda>_ _ _. None))) es)" by simp
  then show ?case using groupExpr.prems classify_group [of op "map class_of (map (map_option classifyPredicate) es)"]
    by (auto simp: combine_def simp del: map_map)
next
  case (notExpr e)
  show ?case
  proof (cases e)
    case (Some x)
    then have "truth (\<lambda>_ _ _. None) x = class3 (classifyPredicate x)" using notExpr by simp
    then show ?thesis using Some by (cases "classifyPredicate x") (simp_all add: class_of_def unnil_def not3_def negate_def)
  qed (simp add: class_of_def unnil_def not3_def negate_def)
qed (auto simp: comparison_ok_def)

text \<open>What is known without the comparisons stays so whatever they answer.\<close>

lemma combine_mono:
  assumes "list_all2 (\<lambda>x y. x \<noteq> None \<longrightarrow> y = x) xs ys" and "combine op xs \<noteq> None"
  shows "combine op ys = combine op xs"
proof -
  have keep: "v \<in> set ys" if "v \<in> set xs" "v \<noteq> None" for v using assms(1) that by induction auto
  have same: "ys = xs" if "None \<notin> set xs" using assms(1) that by induction auto
  show ?thesis using assms(2) keep same by (cases "op = ''AND''") (auto simp: combine_def fold_and3 fold_or3 split: if_splits)
qed

lemma truth_mono: "truth (\<lambda>_ _ _. None) e \<noteq> None \<Longrightarrow> truth A e = truth (\<lambda>_ _ _. None) e"
proof (induction e)
  case (groupExpr op es)
  let ?v = "\<lambda>A. map unnil (map (map_option (truth A)) es)"
  have "unnil (map_option (truth (\<lambda>_ _ _. None)) x) \<noteq> None \<longrightarrow> unnil (map_option (truth A) x) = unnil (map_option (truth (\<lambda>_ _ _. None)) x)" if "x \<in> set es" for x
    using groupExpr.IH [OF that] by (cases x) (auto simp: unnil_def)
  then have "list_all2 (\<lambda>x y. x \<noteq> None \<longrightarrow> y = x) (?v (\<lambda>_ _ _. None)) (?v A)" by (auto simp: list_all2_conv_all_nth)
  then show ?case using combine_mono groupExpr.prems by fastforce
next
  case (notExpr e)
  then show ?case by (cases e) (auto simp: unnil_def not3_def)
qed (auto split: if_splits)

text \<open>
  The guard is exact (C29). For conditions built by the package, \<open>IsUnrestricted\<close> holds exactly when their conjunction is true whatever the
  comparisons answer, that is, when the statement would touch every row of the table; in particular a condition that passes the guard is not
  true on a row where all comparisons are unknown.
\<close>

theorem unrestricted_exact:
  assumes "list_all (\<lambda>e. case e of None \<Rightarrow> True | Some x \<Rightarrow> built x) es"
  shows "IsUnrestricted es \<longleftrightarrow> (\<forall>A. truth A (groupExpr ''AND'' es) = Some True)"
proof -
  have b: "built (groupExpr ''AND'' es)" using assms by (auto simp: list_all_iff split: option.splits)
  have "IsUnrestricted es \<longleftrightarrow> truth (\<lambda>_ _ _. None) (groupExpr ''AND'' es) = Some True"
    using classify_truth [OF b] unfolding IsUnrestricted_def by (metis class3_iff(4) classifyPredicate.simps(2))
  then show ?thesis using truth_mono [of "groupExpr ''AND'' es"] by fastforce
qed

theorem unrestricted_exact_witness:
  "IsUnrestricted [Some (Not_expr (Some (In (NewColumn ''id'' []) ([] :: int list))))] \<and> \<not> IsUnrestricted [Some (Eq (NewColumn ''id'' []) (1 :: int))]"
  using unrestricted_exact [of "[Some (Not_expr (Some (In (NewColumn ''id'' []) ([] :: int list))))]"]
    unrestricted_exact [of "[Some (Eq (NewColumn ''id'' []) (1 :: int))]"]
  by (auto simp: constructors_built Not_expr_def In_def listExpr_def Eq_def comparison_ok_def unnil_def not3_def and3_def combine_def intro!: exI [of _ "\<lambda>_ _ _. None"])

end
