(* ===== verification/Kc_Sqlxgen_Reader.thy ===== *)
theory Kc_Sqlxgen_Reader
  imports Kc_Sqlxgen_Text
begin

text \<open>
  A reader of SQL text and the proof that it reads what \<open>Kc_Sqlxgen\<close> writes. Text is split into quoted identifiers, single symbols and words; conditions are
  read by recursive descent with \<open>NOT\<close> binding stronger than \<open>AND\<close> and \<open>AND\<close> stronger than \<open>OR\<close>; placeholders take the arguments in order.
\<close>

section \<open>Tokens\<close>

datatype token = Ident string | Sym char | Word string

fun read_quoted :: "char \<Rightarrow> string \<Rightarrow> (string \<times> string) option" where
  "read_quoted q [] = None"
| "read_quoted q [c] = (if c = q then Some ([], []) else None)"
| "read_quoted q (c # x # cs) =
     (if c = q then (if x = q then map_option (apfst ((#) q)) (read_quoted q cs) else Some ([], x # cs))
      else map_option (apfst ((#) c)) (read_quoted q (x # cs)))"

lemma read_quoted_shorter: "read_quoted q cs = Some (i, r) \<Longrightarrow> length r < length cs"
  by (induction q cs arbitrary: i r rule: read_quoted.induct) (fastforce split: if_splits)+

definition symbol :: "char \<Rightarrow> bool" where
  "symbol c \<longleftrightarrow> c \<in> set ''(),?''"

definition word_char :: "Dialect \<Rightarrow> char \<Rightarrow> bool" where
  "word_char d c \<longleftrightarrow> c \<noteq> CHR '' '' \<and> \<not> symbol c \<and> c \<noteq> quote_char d"

function lex :: "Dialect \<Rightarrow> string \<Rightarrow> token list option" where
  "lex d [] = Some []"
| "lex d (c # cs) =
     (if c = CHR '' '' then lex d cs
      else if symbol c then map_option ((#) (Sym c)) (lex d cs)
      else if c = quote_char d then
        (case read_quoted c cs of None \<Rightarrow> None | Some (i, r) \<Rightarrow> map_option ((#) (Ident i)) (lex d r))
      else map_option ((#) (Word (c # takeWhile (word_char d) cs))) (lex d (dropWhile (word_char d) cs)))"
  by pat_completeness auto
termination by (relation "measure (\<lambda>(d, s). length s)") (auto simp: less_Suc_eq_le length_dropWhile_le dest!: read_quoted_shorter)

text \<open>Text after which a token has ended.\<close>

definition ends :: "string \<Rightarrow> bool" where
  "ends s \<longleftrightarrow> s = [] \<or> hd s = CHR '' '' \<or> symbol (hd s)"

lemma quote_char_not [simp]: "quote_char d \<noteq> CHR '' ''" "\<not> symbol (quote_char d)" "CHR '' '' \<noteq> quote_char d"
  by (auto simp: quote_char_def symbol_def)

lemma read_quoted_doubled:
  assumes "rest = [] \<or> hd rest \<noteq> q"
  shows "read_quoted q (double_quotes q s @ q # rest) = Some (s, rest)"
proof (induction s)
  case Nil
  then show ?case using assms by (cases rest) (auto simp: double_quotes_def)
next
  case (Cons c s)
  show ?case
  proof (cases "c = q")
    case False
    obtain x xs where "double_quotes q s @ q # rest = x # xs" by (cases "double_quotes q s @ q # rest") auto
    then show ?thesis using Cons False by (simp add: double_quotes_def)
  qed (use Cons in \<open>simp add: double_quotes_def\<close>)
qed

lemma ends_not_quote: "ends s \<Longrightarrow> s = [] \<or> hd s \<noteq> quote_char d"
  by (auto simp: ends_def)

lemma lex_ident: "ends rest \<Longrightarrow> lex d (QuoteIdentifier d i @ rest) = map_option ((#) (Ident i)) (lex d rest)"
  using read_quoted_doubled [OF ends_not_quote, of rest d i] by (simp add: QuoteIdentifier_def)

lemma lex_word:
  assumes "w \<noteq> []" and "list_all (word_char d) w" and "ends rest"
  shows "lex d (w @ rest) = map_option ((#) (Word w)) (lex d rest)"
proof -
  obtain c w' where w: "w = c # w'" using assms(1) by (cases w) auto
  have r: "takeWhile (word_char d) (w' @ rest) = w'" "dropWhile (word_char d) (w' @ rest) = rest"
    using assms(2,3) w by (auto simp: ends_def word_char_def list_all_iff takeWhile_append dropWhile_append takeWhile_eq_Nil_iff dropWhile_eq_self_iff)
  show ?thesis using assms(2) w r by (simp add: word_char_def)
qed

section \<open>Conditions\<close>

datatype 'v cond = Const bool | Cmp string string "'v list" | CNot "'v cond" | CAnd "'v cond" "'v cond" | COr "'v cond" "'v cond"

primrec meaning :: "'v answers \<Rightarrow> 'v cond \<Rightarrow> bool option" where
  "meaning A (Const b) = Some b"
| "meaning A (Cmp c op vs) = A c op vs"
| "meaning A (CNot x) = not3 (meaning A x)"
| "meaning A (CAnd x y) = and3 (meaning A x) (meaning A y)"
| "meaning A (COr x y) = or3 (meaning A x) (meaning A y)"

primrec cond_columns :: "'v cond \<Rightarrow> string set" where
  "cond_columns (Const b) = {}"
| "cond_columns (Cmp c op vs) = {c}"
| "cond_columns (CNot x) = cond_columns x"
| "cond_columns (CAnd x y) = cond_columns x \<union> cond_columns y"
| "cond_columns (COr x y) = cond_columns x \<union> cond_columns y"

definition strip :: "'a list \<Rightarrow> 'a list \<Rightarrow> 'a list option" where
  "strip pat ts = (if take (length pat) ts = pat then Some (drop (length pat) ts) else None)"

text \<open>The readers return what they read, the tokens left, and the arguments left.\<close>

fun p_list :: "token list \<Rightarrow> 'v list \<Rightarrow> ('v list \<times> token list \<times> 'v list) option" where
  "p_list (Sym c # Sym x # r) (v # as) =
     (if c \<noteq> CHR ''?'' then None
      else if x = CHR '')'' then Some ([v], r, as)
      else if x = CHR '','' then map_option (apfst ((#) v)) (p_list r as)
      else None)"
| "p_list ts as = None"

definition p_comparison :: "string \<Rightarrow> token list \<Rightarrow> 'v list \<Rightarrow> ('v cond \<times> token list \<times> 'v list) option" where
  "p_comparison c r as =
     (case strip [Word ''IS'', Word ''NULL''] r of Some r1 \<Rightarrow> Some (Cmp c ''IS NULL'' [], r1, as) | None \<Rightarrow>
      case strip [Word ''IS'', Word ''NOT'', Word ''NULL''] r of Some r1 \<Rightarrow> Some (Cmp c ''IS NOT NULL'' [], r1, as) | None \<Rightarrow>
      case strip [Word ''IN'', Sym CHR ''(''] r of Some r1 \<Rightarrow> map_option (apfst (Cmp c ''IN'')) (p_list r1 as) | None \<Rightarrow>
      case strip [Word ''NOT'', Word ''IN'', Sym CHR ''(''] r of Some r1 \<Rightarrow> map_option (apfst (Cmp c ''NOT IN'')) (p_list r1 as) | None \<Rightarrow>
      case strip [Word ''BETWEEN'', Sym CHR ''?'', Word ''AND'', Sym CHR ''?''] r of
        Some r1 \<Rightarrow> (case as of v # w # as1 \<Rightarrow> Some (Cmp c ''BETWEEN'' [v, w], r1, as1) | _ \<Rightarrow> None)
      | None \<Rightarrow>
      case (r, as) of (Word w # Sym m # r1, v # as1) \<Rightarrow> if m = CHR ''?'' then Some (Cmp c w [v], r1, as1) else None | _ \<Rightarrow> None)"

definition p_atom :: "token list \<Rightarrow> 'v list \<Rightarrow> ('v cond \<times> token list \<times> 'v list) option" where
  "p_atom ts as =
     (case ts of
        Ident c # r \<Rightarrow> p_comparison c r as
      | _ \<Rightarrow>
          (case strip [Word ''1'', Word ''='', Word ''1''] ts of Some r \<Rightarrow> Some (Const True, r, as) | None \<Rightarrow>
           case strip [Word ''1'', Word ''='', Word ''0''] ts of Some r \<Rightarrow> Some (Const False, r, as) | None \<Rightarrow> None))"

fun p_or :: "nat \<Rightarrow> token list \<Rightarrow> 'v list \<Rightarrow> ('v cond \<times> token list \<times> 'v list) option"
  and p_and :: "nat \<Rightarrow> token list \<Rightarrow> 'v list \<Rightarrow> ('v cond \<times> token list \<times> 'v list) option"
  and p_not :: "nat \<Rightarrow> token list \<Rightarrow> 'v list \<Rightarrow> ('v cond \<times> token list \<times> 'v list) option" where
  "p_or 0 ts as = None"
| "p_or (Suc n) ts as =
     (case p_and n ts as of
        None \<Rightarrow> None
      | Some (c, r, as1) \<Rightarrow>
          (case strip [Word ''OR''] r of
             None \<Rightarrow> Some (c, r, as1)
           | Some r1 \<Rightarrow> map_option (apfst (COr c)) (p_or n r1 as1)))"
| "p_and 0 ts as = None"
| "p_and (Suc n) ts as =
     (case p_not n ts as of
        None \<Rightarrow> None
      | Some (c, r, as1) \<Rightarrow>
          (case strip [Word ''AND''] r of
             None \<Rightarrow> Some (c, r, as1)
           | Some r1 \<Rightarrow> map_option (apfst (CAnd c)) (p_and n r1 as1)))"
| "p_not 0 ts as = None"
| "p_not (Suc n) ts as =
     (case strip [Word ''NOT''] ts of
        Some r \<Rightarrow> map_option (apfst CNot) (p_not n r as)
      | None \<Rightarrow>
          (case strip [Sym CHR ''(''] ts of
             Some r \<Rightarrow>
               (case p_or n r as of
                  None \<Rightarrow> None
                | Some (c, r1, as1) \<Rightarrow> map_option (\<lambda>r2. (c, r2, as1)) (strip [Sym CHR '')''] r1))
           | None \<Rightarrow> p_atom ts as))"

text \<open>A WHERE clause with its arguments: everything has to be used up.\<close>

definition read_where :: "Dialect \<Rightarrow> string \<Rightarrow> 'v list \<Rightarrow> 'v cond option" where
  "read_where d q as =
     (case lex d q of
        None \<Rightarrow> None
      | Some ts \<Rightarrow>
          (case strip [Word ''WHERE''] ts of
             None \<Rightarrow> None
           | Some ts1 \<Rightarrow>
               (case p_or (3 * length ts1 + 3) ts1 as of
                  Some (c, [], []) \<Rightarrow> Some c
                | _ \<Rightarrow> None)))"

section \<open>What is written\<close>

text \<open>Tokens and arguments of an expression, and the condition it stands for.\<close>

fun mark_tokens :: "'v list \<Rightarrow> token list" where
  "mark_tokens [] = []"
| "mark_tokens [v] = [Sym CHR ''?'']"
| "mark_tokens (v # vs) = Sym CHR ''?'' # Sym CHR '','' # mark_tokens vs"

definition comparison_tokens :: "string \<Rightarrow> string \<Rightarrow> 'v list \<Rightarrow> token list" where
  "comparison_tokens c op vs =
     (if op = ''IS NULL'' then [Ident c, Word ''IS'', Word ''NULL'']
      else if op = ''IS NOT NULL'' then [Ident c, Word ''IS'', Word ''NOT'', Word ''NULL'']
      else if op = ''IN'' then (if vs = [] then [Word ''1'', Word ''='', Word ''0''] else [Ident c, Word ''IN'', Sym CHR ''(''] @ mark_tokens vs @ [Sym CHR '')''])
      else if op = ''NOT IN'' then
        (if vs = [] then [Word ''1'', Word ''='', Word ''1''] else [Ident c, Word ''NOT'', Word ''IN'', Sym CHR ''(''] @ mark_tokens vs @ [Sym CHR '')''])
      else if op = ''BETWEEN'' then [Ident c, Word ''BETWEEN'', Sym CHR ''?'', Word ''AND'', Sym CHR ''?'']
      else [Ident c, Word op, Sym CHR ''?''])"

fun join_tokens :: "string \<Rightarrow> token list list \<Rightarrow> token list" where
  "join_tokens op [] = []"
| "join_tokens op [t] = [Sym CHR ''(''] @ t @ [Sym CHR '')'']"
| "join_tokens op (t # ts) = [Sym CHR ''(''] @ t @ [Sym CHR '')'', Word op] @ join_tokens op ts"

definition opt :: "'a list option \<Rightarrow> 'a list" where
  "opt x = (case x of None \<Rightarrow> [] | Some t \<Rightarrow> t)"

primrec toks :: "'v Expr \<Rightarrow> token list" where
  "toks (comparisonExpr ow c op vs) = comparison_tokens c op vs"
| "toks (groupExpr op es) =
     (if es = [] then [Word ''1'', Word ''='', Word (if op = ''AND'' then ''1'' else ''0'')]
      else join_tokens op (map opt (map (map_option toks) es)))"
| "toks (notExpr e) = [Word ''NOT'', Sym CHR ''(''] @ opt (map_option toks e) @ [Sym CHR '')'']"

primrec eargs :: "'v Expr \<Rightarrow> 'v list" where
  "eargs (comparisonExpr ow c op vs) = vs"
| "eargs (groupExpr op es) = concat (map opt (map (map_option eargs) es))"
| "eargs (notExpr e) = opt (map_option eargs e)"

fun chain :: "('v cond \<Rightarrow> 'v cond \<Rightarrow> 'v cond) \<Rightarrow> 'v cond list \<Rightarrow> 'v cond" where
  "chain f [] = Const True"
| "chain f [c] = c"
| "chain f (c # cs) = f c (chain f cs)"

primrec cond_of :: "'v Expr \<Rightarrow> 'v cond" where
  "cond_of (comparisonExpr ow c op vs) =
     (if vs = [] \<and> op = ''IN'' then Const False else if vs = [] \<and> op = ''NOT IN'' then Const True else Cmp c op vs)"
| "cond_of (groupExpr op es) =
     (if es = [] then Const (op = ''AND'')
      else chain (if op = ''AND'' then CAnd else COr) (map (case_option (Const True) id) (map (map_option cond_of) es)))"
| "cond_of (notExpr e) = CNot (case_option (Const True) id (map_option cond_of e))"

text \<open>No expression inside is nil.\<close>

primrec full :: "'v Expr \<Rightarrow> bool" where
  "full (comparisonExpr ow c op vs) \<longleftrightarrow> True"
| "full (groupExpr op es) \<longleftrightarrow> list_all (\<lambda>x. x = Some True) (map (map_option full) es)"
| "full (notExpr e) \<longleftrightarrow> map_option full e = Some True"

section \<open>Splitting the text gives the tokens\<close>

lemma strip_simps [simp]:
  "strip [] ts = Some ts" "strip (p # ps) [] = None" "strip (p # ps) (t # ts) = (if t = p then strip ps ts else None)"
  by (auto simp: strip_def)

lemma ends_simps [simp]: "ends []" "ends (c # s) \<longleftrightarrow> c = CHR '' '' \<or> symbol c"
  by (auto simp: ends_def)

definition lexes :: "Dialect \<Rightarrow> string \<Rightarrow> token list \<Rightarrow> bool" where
  "lexes d q ts \<longleftrightarrow> (\<forall>rest. ends rest \<longrightarrow> lex d (q @ rest) = (case lex d rest of None \<Rightarrow> None | Some us \<Rightarrow> Some (ts @ us)))"

lemma lexes_all: "lexes d q ts \<Longrightarrow> lex d q = Some ts"
  unfolding lexes_def by (drule spec [of _ "[]"]) simp

lemma lexes_Nil: "lexes d [] []"
  by (auto simp: lexes_def split: option.splits)

lemma lexes_space: "lexes d q ts \<Longrightarrow> lexes d (CHR '' '' # q) ts"
  by (simp add: lexes_def)

lemma lexes_sym: "lexes d q ts \<Longrightarrow> symbol c \<Longrightarrow> lexes d (c # q) (Sym c # ts)"
  by (auto simp: lexes_def symbol_def split: option.splits)

lemma lexes_append:
  assumes "lexes d q ts" and "lexes d q' ts'" and "q' \<noteq> []" and "ends q'"
  shows "lexes d (q @ q') (ts @ ts')"
proof -
  have "ends (q' @ rest)" for rest using assms(3,4) by (cases q') auto
  then show ?thesis using assms(1,2) by (auto simp: lexes_def split: option.splits)
qed

lemma lexes_ident: "lexes d (QuoteIdentifier d c) [Ident c]"
  using lex_ident by (auto simp: lexes_def split: option.splits)

lemma lexes_word: "w \<noteq> [] \<Longrightarrow> list_all (word_char d) w \<Longrightarrow> lexes d w [Word w]"
  using lex_word by (auto simp: lexes_def split: option.splits)

lemma lexes_next:
  assumes "lexes d q ts" and "ends q" and "w \<noteq> []" and "list_all (word_char d) w"
  shows "lexes d (CHR '' '' # w @ q) (Word w # ts)"
proof (cases "q = []")
  case True
  then have "ts = []" using lexes_all [OF assms(1)] by simp
  then show ?thesis using True lexes_space [OF lexes_word [OF assms(3,4)]] by simp
qed (use lexes_space [OF lexes_append [OF lexes_word [OF assms(3,4)] assms(1)]] assms(2) in simp)

lemma lexes_column:
  assumes "lexes d q ts" and "ends q" and "q \<noteq> []"
  shows "lexes d (QuoteIdentifier d c @ q) (Ident c # ts)"
  using lexes_append [OF lexes_ident assms(1,3,2)] by simp

lemma plain_char [simp]: "c \<notin> {CHR '' '', CHR ''('', CHR '')'', CHR '','', CHR ''?'', CHR ''`'', CHR 0x22} \<Longrightarrow> word_char d c"
  by (simp add: word_char_def symbol_def quote_char_def)

lemma symbols [simp]: "symbol CHR ''(''" "symbol CHR '')''" "symbol CHR '',''" "symbol CHR ''?''"
  by (simp_all add: symbol_def)

lemma lexes_marks:
  assumes "vs \<noteq> []" and "lexes d q ts"
  shows "lexes d (placeholders i vs @ q) ((if i > 0 then [Sym CHR '',''] else []) @ mark_tokens vs @ ts)"
  using assms(1)
proof (induction vs arbitrary: i)
  case (Cons v vs)
  have "lexes d (placeholders (Suc i) vs @ q) (tl (mark_tokens (v # vs)) @ ts)"
    using Cons.IH [of "Suc i"] assms(2) by (cases vs) auto
  then have "lexes d (CHR ''?'' # placeholders (Suc i) vs @ q) (mark_tokens (v # vs) @ ts)" using lexes_sym by (cases vs) fastforce+
  then show ?case using lexes_sym [OF lexes_space, of d _ _ "CHR '',''"] by (cases i) auto
qed simp

lemma lexes_truth: "lexes d ''1 = 1'' [Word ''1'', Word ''='', Word ''1'']" "lexes d ''1 = 0'' [Word ''1'', Word ''='', Word ''0'']"
proof -
  have n: "lexes d ('' = '' @ b) [Word ''='', Word b]" if "b \<noteq> []" "list_all (word_char d) b" for b
    using lexes_next [OF lexes_space [OF lexes_word [OF that]], of "''=''"] by simp
  show "lexes d ''1 = 1'' [Word ''1'', Word ''='', Word ''1'']" "lexes d ''1 = 0'' [Word ''1'', Word ''='', Word ''0'']"
    using lexes_append [OF lexes_word n, of "''1''" "''1''"] lexes_append [OF lexes_word n, of "''1''" "''0''"] by simp_all
qed

lemma lexes_comparison:
  assumes "render_comparison d c op vs = Inr (q, as)" and "comparison_ok op vs"
  shows "lexes d q (comparison_tokens c op vs) \<and> as = vs"
proof -
  have mark: "lexes d '' ?'' [Sym CHR ''?'']" using lexes_space [OF lexes_sym [OF lexes_Nil]] by simp
  have lst: "lexes d ('' ('' @ placeholders 0 vs @ '')'') (Sym CHR ''('' # mark_tokens vs @ [Sym CHR '')''])" if "vs \<noteq> []"
    using lexes_space [OF lexes_sym [OF lexes_marks [OF that lexes_sym [OF lexes_Nil, of "CHR '')''" d], of 0], of "CHR ''(''"]] by simp
  have null: "lexes d '' NULL'' [Word ''NULL'']" using lexes_next [OF lexes_Nil, of "''NULL''"] by simp
  have ops: "(op \<in> set [''='', ''<>'', ''>'', ''>='', ''<'', ''<='', ''LIKE''] \<and> length vs = 1) \<or> (op = ''IN'' \<or> op = ''NOT IN'')
      \<or> op = ''BETWEEN'' \<or> ((op = ''IS NULL'' \<or> op = ''IS NOT NULL'') \<and> vs = [])"
    using assms(2) unfolding comparison_ok_def by (metis empty_iff list.set(1) set_ConsD)
  note defs = comparison_tokens_def render_comparison_def Let_def
  from ops show ?thesis
  proof (elim disjE conjE)
    assume op: "op \<in> set [''='', ''<>'', ''>'', ''>='', ''<'', ''<='', ''LIKE'']"
    then have w: "op \<noteq> []" "list_all (word_char d) op" by auto
    have t: "comparison_tokens c op vs = [Ident c, Word op, Sym CHR ''?'']" "q = QuoteIdentifier d c @ '' '' @ op @ '' ?'' \<and> as = vs"
      using op assms(1) by (auto simp: defs split: if_splits)
    show ?thesis using t lexes_column [OF lexes_next [OF mark _ w], of c] by simp
  next
    assume op: "op = ''IN''"
    have "lexes d (QuoteIdentifier d c @ '' '' @ ''IN'' @ '' ('' @ placeholders 0 vs @ '')'') (Ident c # Word ''IN'' # Sym CHR ''('' # mark_tokens vs @ [Sym CHR '')''])" if "vs \<noteq> []"
      using lexes_column [OF lexes_next [OF lst [OF that], of "''IN''"], of c] by simp
    then show ?thesis using assms(1) lexes_truth by (cases "vs = []") (auto simp: defs op split: if_splits)
  next
    assume op: "op = ''NOT IN''"
    have "lexes d (QuoteIdentifier d c @ '' '' @ ''NOT'' @ '' '' @ ''IN'' @ '' ('' @ placeholders 0 vs @ '')'')
        (Ident c # Word ''NOT'' # Word ''IN'' # Sym CHR ''('' # mark_tokens vs @ [Sym CHR '')''])" if "vs \<noteq> []"
      using lexes_column [OF lexes_next [OF lexes_next [OF lst [OF that], of "''IN''"], of "''NOT''"], of c] by simp
    then show ?thesis using assms(1) lexes_truth by (cases "vs = []") (auto simp: defs op split: if_splits)
  next
    assume op: "op = ''BETWEEN''"
    have b: "lexes d '' BETWEEN ? AND ?'' [Word ''BETWEEN'', Sym CHR ''?'', Word ''AND'', Sym CHR ''?'']"
      using lexes_next [OF lexes_space [OF lexes_sym [OF lexes_next [OF mark, of "''AND''"], of "CHR ''?''"]], of "''BETWEEN''"] by simp
    show ?thesis using assms(1) lexes_column [OF b, of c] by (auto simp: defs op split: if_splits)
  next
    assume op: "op = ''IS NULL''" "vs = []"
    show ?thesis using assms(1) lexes_column [OF lexes_next [OF null, of "''IS''"], of c] by (auto simp: defs op split: if_splits)
  next
    assume op: "op = ''IS NOT NULL''" "vs = []"
    show ?thesis using assms(1) lexes_column [OF lexes_next [OF lexes_next [OF null, of "''NOT''"], of "''IS''"], of c] by (auto simp: defs op split: if_splits)
  qed
qed

lemma opt_simps [simp]: "opt None = []" "opt (Some t) = t"
  by (simp_all add: opt_def)

lemma lexes_join:
  assumes "\<And>e q as. Some e \<in> set es \<Longrightarrow> render d e = Inr (q, as) \<Longrightarrow> lexes d q (toks e) \<and> as = eargs e"
    and "op = ''AND'' \<or> op = ''OR''" and "join_parts op i (map (map_option (render d)) es) = Inr (q, as)"
  shows "lexes d q ((if i > 0 \<and> es \<noteq> [] then [Word op] else []) @ join_tokens op (map opt (map (map_option toks) es)))
     \<and> as = concat (map opt (map (map_option eargs) es))"
  using assms(1,3)
proof (induction es arbitrary: i q as)
  case Nil
  then show ?case using lexes_Nil by simp
next
  case (Cons x es)
  obtain e p as1 q' as' where x: "x = Some e" "render d e = Inr (p, as1)" and j: "join_parts op (Suc i) (map (map_option (render d)) es) = Inr (q', as')"
    and q: "q = (if i > 0 then '' '' @ op @ '' '' else []) @ ''('' @ p @ '')'' @ q'" "as = as1 @ as'"
    using Cons.prems(2) by (cases x; cases "render d (the x)") (auto split: sum.splits)
  let ?J = "join_tokens op (map opt (map (map_option toks) es))"
  have e: "lexes d p (toks e)" "as1 = eargs e" using Cons.prems(1) [of e] x by auto
  have IH: "lexes d q' ((if es \<noteq> [] then [Word op] else []) @ ?J)" "as' = concat (map opt (map (map_option eargs) es))"
    using Cons.IH [OF _ j] Cons.prems(1) by (auto simp del: map_map)
  have "lexes d ('')'' @ q') (Sym CHR '')'' # (if es \<noteq> [] then [Word op] else []) @ ?J)" using lexes_sym [OF IH(1), of "CHR '')''"] by simp
  then have "lexes d (p @ '')'' @ q') (toks e @ Sym CHR '')'' # (if es \<noteq> [] then [Word op] else []) @ ?J)" using lexes_append [OF e(1)] by simp
  then have g: "lexes d (''('' @ p @ '')'' @ q') (Sym CHR ''('' # toks e @ Sym CHR '')'' # (if es \<noteq> [] then [Word op] else []) @ ?J)"
    using lexes_sym [of d _ _ "CHR ''(''"] by simp
  have J: "join_tokens op (map opt (map (map_option toks) (x # es))) = Sym CHR ''('' # toks e @ Sym CHR '')'' # (if es \<noteq> [] then [Word op] else []) @ ?J"
    using x by (cases es) auto
  have w: "op \<noteq> []" "list_all (word_char d) op" using assms(2) by auto
  have "as = concat (map opt (map (map_option eargs) (x # es)))" using q(2) e(2) IH(2) x by simp
  then show ?case unfolding J q(1) using g lexes_next [OF lexes_space [OF g] _ w] by simp
qed

lemma lexes_render: "render d e = Inr (q, as) \<Longrightarrow> built e \<Longrightarrow> lexes d q (toks e) \<and> as = eargs e"
proof (induction e arbitrary: q as)
  case (comparisonExpr ow c op vs)
  then show ?case using lexes_comparison by simp
next
  case (groupExpr op es)
  have op: "op = ''AND'' \<or> op = ''OR''" using groupExpr.prems by simp
  have b: "built e" if "Some e \<in> set es" for e using groupExpr.prems(2) that by (auto simp: list_all_iff)
  have IH: "lexes d q (toks e) \<and> as = eargs e" if "Some e \<in> set es" "render d e = Inr (q, as)" for e q as
    using groupExpr.IH [OF that(1) _ that(2) b [OF that(1)]] by simp
  show ?case
  proof (cases "es = []")
    case True
    then show ?thesis using groupExpr.prems lexes_truth by auto
  next
    case False
    then show ?thesis using lexes_join [OF IH op, where i = 0 and q = q and as = as] groupExpr.prems(1) by (simp del: map_map)
  qed
next
  case (notExpr x)
  obtain e p where x: "x = Some e" "render d e = Inr (p, as)" "q = ''NOT ('' @ p @ '')''"
    using notExpr.prems(1) by (cases x; cases "render d (the x)") (auto simp: render_not_def)
  then have p: "lexes d p (toks e)" "as = eargs e" using notExpr.IH [of e] notExpr.prems(2) by auto
  have s: "lexes d ('' ('' @ p @ '')'') (Sym CHR ''('' # toks e @ [Sym CHR '')''])"
    using lexes_space [OF lexes_sym [OF lexes_append [OF p(1) lexes_sym [OF lexes_Nil, of "CHR '')''"]], of "CHR ''(''"]] by simp
  have "lexes d (''NOT'' @ '' ('' @ p @ '')'') (Word ''NOT'' # Sym CHR ''('' # toks e @ [Sym CHR '')''])"
    using lexes_append [OF lexes_word s, of "''NOT''"] by simp
  then show ?case using x p(2) by simp
qed

lemma join_parts_full: "join_parts op i ps = Inr r \<Longrightarrow> x \<in> set ps \<Longrightarrow> \<exists>y. x = Some (Inr y)"
  by (induction op i ps arbitrary: r rule: join_parts.induct) (auto split: sum.splits)

lemma render_full: "render d e = Inr r \<Longrightarrow> full e"
proof (induction e arbitrary: r)
  case (groupExpr op es)
  show ?case
  proof (cases "es = []")
    case False
    have "map_option full x = Some True" if "x \<in> set es" for x
    proof -
      have j: "join_parts op 0 (map (map_option (render d)) es) = Inr r" using groupExpr.prems False by simp
      obtain y where "map_option (render d) x = Some (Inr y)" using join_parts_full [OF j, of "map_option (render d) x"] \<open>x \<in> set es\<close> by auto
      then show ?thesis using groupExpr.IH [OF \<open>x \<in> set es\<close>] by (cases x) auto
    qed
    then show ?thesis by (simp add: list_all_iff)
  qed simp
next
  case (notExpr x)
  then show ?case by (cases x) (auto simp: render_not_def split: sum.splits option.splits)
qed simp

section \<open>Reading the tokens gives the condition\<close>

text \<open>Where a condition ends: at the end or before a closing parenthesis.\<close>

definition stop :: "token list \<Rightarrow> bool" where
  "stop ts \<longleftrightarrow> ts = [] \<or> hd ts = Sym CHR '')''"

lemma stop_strip: "stop ts \<Longrightarrow> strip [Word w] ts = None"
  by (cases ts) (auto simp: stop_def)

lemma p_list_marks: "vs \<noteq> [] \<Longrightarrow> p_list (mark_tokens vs @ Sym CHR '')'' # r) (vs @ as) = Some (vs, r, as)"
  by (induction vs rule: mark_tokens.induct) auto

definition readable :: "'v Expr \<Rightarrow> bool" where
  "readable e \<longleftrightarrow> (\<forall>n rest as. stop rest \<longrightarrow> 3 * length (toks e) + 3 \<le> n \<longrightarrow> p_or n (toks e @ rest) (eargs e @ as) = Some (cond_of e, rest, as))"

lemma p_comparison_tokens:
  assumes "comparison_ok op vs"
  shows "p_not (Suc n) (comparison_tokens c op vs @ rest) (vs @ as) = Some (cond_of (comparisonExpr ow c op vs), rest, as)"
proof -
  have ops: "(op \<in> set [''='', ''<>'', ''>'', ''>='', ''<'', ''<='', ''LIKE''] \<and> length vs = 1) \<or> (op = ''IN'' \<or> op = ''NOT IN'')
      \<or> (op = ''BETWEEN'' \<and> length vs = 2) \<or> ((op = ''IS NULL'' \<or> op = ''IS NOT NULL'') \<and> vs = [])"
    using assms unfolding comparison_ok_def by (metis empty_iff list.set(1) set_ConsD)
  from ops show ?thesis
  proof (elim disjE conjE)
    assume op: "op \<in> set [''='', ''<>'', ''>'', ''>='', ''<'', ''<='', ''LIKE'']" and "length vs = 1"
    then obtain v where v: "vs = [v]" by (auto simp: length_Suc_conv)
    have ne: "op \<noteq> ''IS'' \<and> op \<noteq> ''IN'' \<and> op \<noteq> ''NOT'' \<and> op \<noteq> ''BETWEEN'' \<and> op \<noteq> ''IS NULL'' \<and> op \<noteq> ''IS NOT NULL'' \<and> op \<noteq> ''NOT IN''"
      using op by auto
    then have "comparison_tokens c op vs = [Ident c, Word op, Sym CHR ''?'']" by (simp add: comparison_tokens_def)
    then show ?thesis using ne v by (simp add: p_atom_def p_comparison_def)
  next
    assume "op = ''IN''"
    then show ?thesis by (cases "vs = []") (simp_all add: comparison_tokens_def p_atom_def p_comparison_def p_list_marks)
  next
    assume "op = ''NOT IN''"
    then show ?thesis by (cases "vs = []") (simp_all add: comparison_tokens_def p_atom_def p_comparison_def p_list_marks)
  next
    assume "op = ''BETWEEN''" "length vs = 2"
    then show ?thesis by (auto simp: comparison_tokens_def p_atom_def p_comparison_def numeral_2_eq_2 length_Suc_conv)
  qed (simp_all add: comparison_tokens_def p_atom_def p_comparison_def)
qed

lemma p_part:
  assumes "readable e" and "3 * length (toks e) + 4 \<le> n"
  shows "p_not n (Sym CHR ''('' # toks e @ Sym CHR '')'' # r) (eargs e @ as) = Some (cond_of e, r, as)"
proof -
  obtain m where n: "n = Suc m" "3 * length (toks e) + 3 \<le> m" using assms(2) by (cases n) auto
  have "p_or m (toks e @ Sym CHR '')'' # r) (eargs e @ as) = Some (cond_of e, Sym CHR '')'' # r, as)"
    using assms(1) n(2) unfolding readable_def by (simp add: stop_def)
  then show ?thesis using n(1) by simp
qed

lemma p_and_chain:
  assumes "es \<noteq> []" and "\<And>e. e \<in> set es \<Longrightarrow> readable e" and "strip [Word ''AND''] rest = None" and "3 * length (join_tokens ''AND'' (map toks es)) \<le> n"
  shows "p_and n (join_tokens ''AND'' (map toks es) @ rest) (concat (map eargs es) @ as) = Some (chain CAnd (map cond_of es), rest, as)"
  using assms
proof (induction es arbitrary: n rule: induct_list012)
  case (2 e)
  obtain m where n: "n = Suc m" "3 * length (toks e) + 4 \<le> m" using 2(4) by (cases n) auto
  then show ?case using p_part [of e m rest as] 2 by simp
next
  case (3 e e2 es)
  obtain m where n: "n = Suc m" "3 * length (toks e) + 4 \<le> m" "3 * length (join_tokens ''AND'' (map toks (e2 # es))) \<le> m" using 3(6) by (cases n) auto
  then show ?case using p_part [of e m "Word ''AND'' # join_tokens ''AND'' (map toks (e2 # es)) @ rest" "concat (map eargs (e2 # es)) @ as"]
      3(2) [of m] 3(4,5) by simp
qed simp

lemma p_or_chain:
  assumes "es \<noteq> []" and "\<And>e. e \<in> set es \<Longrightarrow> readable e" and "stop rest" and "3 * length (join_tokens ''OR'' (map toks es)) \<le> n"
  shows "p_or n (join_tokens ''OR'' (map toks es) @ rest) (concat (map eargs es) @ as) = Some (chain COr (map cond_of es), rest, as)"
  using assms
proof (induction es arbitrary: n rule: induct_list012)
  case (2 e)
  obtain m where n: "n = Suc (Suc m)" "3 * length (toks e) + 4 \<le> m" using 2(4) by (cases n; cases "n - 1") auto
  then show ?case using p_part [of e m rest as] 2 by (simp add: stop_strip)
next
  case (3 e e2 es)
  obtain m where n: "n = Suc (Suc m)" "3 * length (toks e) + 4 \<le> m" "3 * length (join_tokens ''OR'' (map toks (e2 # es))) \<le> Suc m"
    using 3(6) by (cases n; cases "n - 1") auto
  then show ?case using p_part [of e m "Word ''OR'' # join_tokens ''OR'' (map toks (e2 # es)) @ rest" "concat (map eargs (e2 # es)) @ as"]
      3(2) [of "Suc m"] 3(4,5) by simp
qed simp

lemma full_list: "full (groupExpr op es) \<Longrightarrow> \<exists>xs. es = map Some xs"
proof (induction es)
  case (Cons x es)
  then obtain xs y where "es = map Some xs" "x = Some y" by auto
  then have "x # es = map Some (y # xs)" by simp
  then show ?case by (rule exI)
qed simp

lemma readable_built: "built e \<Longrightarrow> full e \<Longrightarrow> readable e"
proof (induction e)
  case (comparisonExpr ow c op vs)
  show ?case unfolding readable_def
  proof (intro allI impI)
    fix n rest and as :: "'a list" assume s: "stop rest" and "3 * length (toks (comparisonExpr ow c op vs)) + 3 \<le> n"
    then obtain m where "n = Suc (Suc (Suc m))" by (cases n; cases "n - 1"; cases "n - 2") auto
    then show "p_or n (toks (comparisonExpr ow c op vs) @ rest) (eargs (comparisonExpr ow c op vs) @ as) = Some (cond_of (comparisonExpr ow c op vs), rest, as)"
      using p_comparison_tokens [of op vs m c rest as ow] comparisonExpr.prems s by (simp add: stop_strip del: p_not.simps)
  qed
next
  case (groupExpr op es)
  obtain xs where xs: "es = map Some xs" using full_list groupExpr.prems by blast
  have r: "readable e" if "e \<in> set xs" for e using groupExpr.IH [of "Some e" e] groupExpr.prems that xs by (auto simp: list_all_iff)
  have op: "op = ''AND'' \<or> op = ''OR''" using groupExpr.prems by simp
  have t: "toks (groupExpr op es) = join_tokens op (map toks xs)" "eargs (groupExpr op es) = concat (map eargs xs)"
    "cond_of (groupExpr op es) = chain (if op = ''AND'' then CAnd else COr) (map cond_of xs)" if "xs \<noteq> []"
    using that by (simp_all add: xs comp_def)
  show ?case unfolding readable_def
  proof (intro allI impI)
    fix n rest and as :: "'a list" assume s: "stop rest" and "3 * length (toks (groupExpr op es)) + 3 \<le> n"
    then obtain m where n: "n = Suc (Suc (Suc m))" "3 * length (toks (groupExpr op es)) \<le> m" by (cases n; cases "n - 1"; cases "n - 2") auto
    show "p_or n (toks (groupExpr op es) @ rest) (eargs (groupExpr op es) @ as) = Some (cond_of (groupExpr op es), rest, as)"
    proof (cases "xs = []")
      case True
      then show ?thesis using xs n op s by (auto simp: stop_strip p_atom_def)
    next
      case False
      show ?thesis
      proof (cases "op = ''AND''")
        case True
        then show ?thesis using p_and_chain [OF False r stop_strip [OF s], of "Suc (Suc m)" as] t [OF False] n stop_strip [OF s]
          by (simp del: p_and.simps)
      next
        case False
        then have "op = ''OR''" using op by simp
        then show ?thesis using p_or_chain [OF \<open>xs \<noteq> []\<close> r s, of n as] t [OF \<open>xs \<noteq> []\<close>] n by (simp del: p_or.simps)
      qed
    qed
  qed
next
  case (notExpr x)
  obtain e where x: "x = Some e" "readable e" using notExpr by (cases x) auto
  show ?case unfolding readable_def
  proof (intro allI impI)
    fix n rest and as :: "'a list" assume s: "stop rest" and "3 * length (toks (notExpr x)) + 3 \<le> n"
    then obtain m where "n = Suc (Suc (Suc m))" "3 * length (toks e) + 4 \<le> m" using x by (cases n; cases "n - 1"; cases "n - 2") auto
    then show "p_or n (toks (notExpr x) @ rest) (eargs (notExpr x) @ as) = Some (cond_of (notExpr x), rest, as)"
      using p_part [OF x(2), of m rest as] s x(1) by (simp add: stop_strip)
  qed
qed

section \<open>Conditions arrive as they were built\<close>

lemma and3_True [simp]: "and3 x (Some True) = x"
  by (cases x) (auto simp: and3_def)

lemma or3_False [simp]: "or3 x (Some False) = x"
  by (cases x) (auto simp: or3_def and3_def not3_def)

lemma meaning_chain:
  assumes "cs \<noteq> []"
  shows "meaning A (chain CAnd cs) = foldr and3 (map (meaning A) cs) (Some True)" "meaning A (chain COr cs) = foldr or3 (map (meaning A) cs) (Some False)"
  using assms by (induction cs rule: induct_list012) auto

lemma meaning_cond: "built e \<Longrightarrow> full e \<Longrightarrow> meaning A (cond_of e) = truth A e"
proof (induction e)
  case (groupExpr op es)
  obtain xs where xs: "es = map Some xs" using full_list groupExpr.prems by blast
  have IH: "meaning A (cond_of e) = truth A e" if "e \<in> set xs" for e using groupExpr.IH [of "Some e" e] groupExpr.prems that xs by (auto simp: list_all_iff)
  have op: "op = ''AND'' \<or> op = ''OR''" using groupExpr.prems by simp
  have v: "map (\<lambda>e. meaning A (cond_of e)) xs = map (truth A) xs" using IH by simp
  show ?case
  proof (cases "xs = []")
    case False
    have c: "cond_of (groupExpr op es) = chain (if op = ''AND'' then CAnd else COr) (map cond_of xs)"
      "truth A (groupExpr op es) = combine op (map (truth A) xs)" using False by (simp_all add: xs comp_def unnil_def)
    show ?thesis unfolding c using meaning_chain [of "map cond_of xs" A] False v by (simp add: combine_def comp_def)
  qed (use xs op in \<open>auto simp: combine_def\<close>)
next
  case (notExpr x)
  then show ?case by (cases x) (auto simp: unnil_def)
qed (auto simp: comparison_ok_def)

lemma chain_columns: "cond_columns (chain CAnd cs) \<subseteq> \<Union> (cond_columns ` set cs)" "cond_columns (chain COr cs) \<subseteq> \<Union> (cond_columns ` set cs)"
  by (induction cs rule: induct_list012) auto

lemma allowed_columns: "validate_expr allowed e \<Longrightarrow> cond_columns (cond_of e) \<subseteq> {c. \<exists>ow. isAllowedColumn allowed ow c}"
proof (induction e)
  case (groupExpr op es)
  have "cond_columns (case_option (Const True) id (map_option cond_of x)) \<subseteq> {c. \<exists>ow. isAllowedColumn allowed ow c}" if "x \<in> set es" for x
    using groupExpr.IH [OF that] groupExpr.prems that by (cases x) (auto simp: list_all_iff)
  then show ?case using chain_columns [of "map (case_option (Const True) id) (map (map_option cond_of) es)"] by (auto simp: subset_iff)
next
  case (notExpr x)
  then show ?case by (cases x) auto
qed auto

lemma render_comparison_succeeds: "c \<noteq> [] \<Longrightarrow> \<exists>q as. render_comparison d c op vs = Inr (q, as)"
proof -
  assume "c \<noteq> []"
  then have "\<not> isl (render_comparison d c op vs)" by (simp add: render_comparison_def Let_def)
  then show ?thesis by (cases "render_comparison d c op vs") auto
qed

lemma render_succeeds: "validate_expr allowed e \<Longrightarrow> \<forall>ow. \<not> isAllowedColumn allowed ow [] \<Longrightarrow> \<exists>q as. render d e = Inr (q, as)"
proof (induction e)
  case (groupExpr op es)
  have "\<exists>r. join_parts op i (map (map_option (render d)) ys) = Inr r" if "set ys \<subseteq> set es" for i ys
    using that
  proof (induction ys arbitrary: i)
    case (Cons y ys)
    obtain e where y: "y = Some e" "validate_expr allowed e" using Cons.prems groupExpr.prems(1) by (cases y) (auto simp: list_all_iff)
    then obtain q as where "render d e = Inr (q, as)" using groupExpr.IH [of y e] Cons.prems groupExpr.prems(2) by auto
    moreover obtain r where "join_parts op (Suc i) (map (map_option (render d)) ys) = Inr r" using Cons.IH [of "Suc i"] Cons.prems by auto
    ultimately show ?case using y(1) by simp
  qed simp
  then show ?case by (metis order_refl render.simps(2) surj_pair)
next
  case (notExpr x)
  then show ?case by (cases x) (auto simp: render_not_def)
next
  case (comparisonExpr ow c op vs)
  then have "c \<noteq> []" by auto
  then show ?case using render_comparison_succeeds by simp
qed

text \<open>
  Conditions arrive as they were built (C30). Whatever expressions of the package are combined, and whatever characters the column names contain, the text that
  \<open>BuildWhere\<close> returns is read by the database as a WHERE clause that uses up exactly the returned arguments, has the truth value of the expressions on
  every row, and mentions allowed columns only. When all columns are allowed (and the empty name is not), there is such a text.
\<close>

theorem where_text_faithful:
  fixes es :: "'v Expr option list"
  assumes "list_all (\<lambda>e. case e of None \<Rightarrow> True | Some x \<Rightarrow> built x) es" and "es \<noteq> []"
  shows "(\<forall>q args. BuildWhere d es allowed = Inr (q, args) \<longrightarrow>
            (\<exists>c. read_where d q args = Some c \<and> (\<forall>A. meaning A c = truth A (groupExpr ''AND'' es))
                \<and> cond_columns c \<subseteq> {x. \<exists>ow. isAllowedColumn allowed ow x}))
     \<and> (validateExprColumns allowed es \<and> (\<forall>ow. \<not> isAllowedColumn allowed ow []) \<longrightarrow> (\<exists>q args. BuildWhere d es allowed = Inr (q, args)))"
proof (intro conjI allI impI)
  let ?e = "groupExpr ''AND'' es"
  have b: "built ?e" using assms(1) by (auto simp: list_all_iff split: option.splits)
  have v: "validate_expr allowed ?e \<longleftrightarrow> validateExprColumns allowed es"
    unfolding validateExprColumns_def by (auto simp: list_all_iff split: option.splits)
  fix q args assume w: "BuildWhere d es allowed = Inr (q, args)"
  obtain p where p: "render d ?e = Inr (p, args)" "q = '' WHERE '' @ p" and ok: "validate_expr allowed ?e"
    using w assms(2) v by (auto simp: BuildWhere_def And_expr_def simp del: render.simps validate_expr.simps split: if_splits sum.splits)
  have l: "lexes d p (toks ?e)" "args = eargs ?e" using lexes_render [OF p(1) b] by auto
  have lq: "lex d q = Some (Word ''WHERE'' # toks ?e)"
    using lexes_all [OF lexes_next [OF lexes_space [OF l(1)], of "''WHERE''"]] p(2) by simp
  have "p_or (3 * length (toks ?e) + 3) (toks ?e) args = Some (cond_of ?e, [], [])"
    using readable_built [OF b render_full [OF p(1)]] l(2) unfolding readable_def stop_def by (metis append_Nil2 order_refl)
  then have "read_where d q args = Some (cond_of ?e)" using lq by (simp add: read_where_def del: toks.simps)
  then show "\<exists>c. read_where d q args = Some c \<and> (\<forall>A. meaning A c = truth A ?e) \<and> cond_columns c \<subseteq> {x. \<exists>ow. isAllowedColumn allowed ow x}"
    using meaning_cond [OF b render_full [OF p(1)]] allowed_columns [OF ok] by blast
next
  assume "validateExprColumns allowed es \<and> (\<forall>ow. \<not> isAllowedColumn allowed ow [])"
  moreover from this have "validate_expr allowed (groupExpr ''AND'' es)" unfolding validateExprColumns_def by (auto simp: list_all_iff split: option.splits)
  ultimately show "\<exists>q args. BuildWhere d es allowed = Inr (q, args)"
    using render_succeeds [of allowed "groupExpr ''AND'' es" d] by (auto simp: BuildWhere_def And_expr_def simp del: render.simps validate_expr.simps)
qed

definition demo_conditions :: "int Expr option list" where
  "demo_conditions = [Some (Or_expr [Some (Eq (NewColumn ''id'' []) 1), Some (In (NewColumn ''na`me'' []) [2, 3])]), Some (IsNull (NewColumn ''id'' []))]"

theorem where_text_faithful_witness:
  "\<exists>q args c. BuildWhere DialectMySQL demo_conditions {''id'', ''na`me''} = Inr (q, args) \<and> read_where DialectMySQL q args = Some c \<and> args = [1, 2, 3]"
proof -
  let ?b = "BuildWhere DialectMySQL demo_conditions {''id'', ''na`me''}"
  have "list_all (\<lambda>e. case e of None \<Rightarrow> True | Some x \<Rightarrow> built x) demo_conditions \<and> demo_conditions \<noteq> []"
    unfolding demo_conditions_def by (simp add: constructors_built Or_expr_def)
  moreover have "map_sum id snd ?b = Inr [1, 2, 3]" by code_simp
  then obtain q where "?b = Inr (q, [1, 2, 3])" by (cases ?b) auto
  ultimately show ?thesis using where_text_faithful [of demo_conditions DialectMySQL "{''id'', ''na`me''}"] by blast
qed

section \<open>Assignments arrive as they were built\<close>

datatype 'v set_item = ToNull string | ToValue string 'v | Change string string string 'v

text \<open>The reader of a SET list; the fuel is the number of tokens.\<close>

definition p_item :: "token list \<Rightarrow> 'v list \<Rightarrow> ('v set_item \<times> token list \<times> 'v list) option" where
  "p_item ts as =
     (case ts of
        Ident c # Word w # r \<Rightarrow>
          if w \<noteq> ''='' then None
          else (case strip [Word ''NULL''] r of Some r1 \<Rightarrow> Some (ToNull c, r1, as) | None \<Rightarrow>
                case strip [Sym CHR ''?''] r of
                  Some r1 \<Rightarrow> (case as of v # as1 \<Rightarrow> Some (ToValue c v, r1, as1) | [] \<Rightarrow> None)
                | None \<Rightarrow>
                    (case (r, as) of
                       (Ident c1 # Word op # Sym m # r1, v # as1) \<Rightarrow> if m = CHR ''?'' then Some (Change c c1 op v, r1, as1) else None
                     | _ \<Rightarrow> None))
      | _ \<Rightarrow> None)"

fun p_set :: "nat \<Rightarrow> token list \<Rightarrow> 'v list \<Rightarrow> 'v set_item list option" where
  "p_set 0 ts as = None"
| "p_set (Suc n) ts as =
     (case p_item ts as of
        None \<Rightarrow> None
      | Some (x, r, as1) \<Rightarrow>
          if r = [] then (if as1 = [] then Some [x] else None)
          else (case strip [Sym CHR '',''] r of None \<Rightarrow> None | Some r1 \<Rightarrow> map_option ((#) x) (p_set n r1 as1)))"

definition read_set :: "Dialect \<Rightarrow> string \<Rightarrow> 'v list \<Rightarrow> 'v set_item list option" where
  "read_set d q as = (case lex d q of None \<Rightarrow> None | Some ts \<Rightarrow> p_set (length ts) ts as)"

text \<open>What an assignment stands for, its tokens and its arguments.\<close>

definition item_of :: "'v assignment \<Rightarrow> 'v option set_item" where
  "item_of a =
     (if aop a = ''NULL'' then ToNull (acolumn a)
      else if aop a = ''+'' \<or> aop a = ''-'' then Change (acolumn a) (acolumn a) (aop a) (avalue a)
      else ToValue (acolumn a) (avalue a))"

definition item_tokens :: "'v assignment \<Rightarrow> token list" where
  "item_tokens a =
     (if aop a = ''NULL'' then [Ident (acolumn a), Word ''='', Word ''NULL'']
      else if aop a = ''+'' \<or> aop a = ''-'' then [Ident (acolumn a), Word ''='', Ident (acolumn a), Word (aop a), Sym CHR ''?'']
      else [Ident (acolumn a), Word ''='', Sym CHR ''?''])"

lemma lexes_assignment:
  assumes "renderAssignment d a = Inr (q, as)" and "lexes d r ts" and "ends r"
  shows "lexes d (q @ r) (item_tokens a @ ts) \<and> (\<forall>rest. p_item (item_tokens a @ rest) (as @ bs) = Some (item_of a, rest, bs))"
proof -
  let ?c = "QuoteIdentifier d (acolumn a)"
  have mark: "lexes d ('' ?'' @ r) (Sym CHR ''?'' # ts)" using lexes_space [OF lexes_sym [OF assms(2), of "CHR ''?''"]] by simp
  have w: "acolumn a \<noteq> []" using assms(1) by (auto simp: renderAssignment_def)
  consider "aop a = ''NULL''" | "aop a = ''+'' \<or> aop a = ''-''" | "aop a \<noteq> ''NULL''" "aop a \<noteq> ''+''" "aop a \<noteq> ''-''" by blast
  then show ?thesis
  proof cases
    case 1
    then have q: "q = ?c @ '' '' @ ''='' @ '' '' @ ''NULL''" "as = []" using assms(1) w by (auto simp: renderAssignment_def Let_def)
    then have "lexes d (q @ r) (item_tokens a @ ts)" using 1 lexes_column [OF lexes_next [OF lexes_next [OF assms(2,3), of "''NULL''"], of "''=''"], of "acolumn a"]
      by (simp add: item_tokens_def)
    then show ?thesis using 1 q(2) by (simp add: item_tokens_def item_of_def p_item_def)
  next
    case 2
    then have q: "q = ?c @ '' '' @ ''='' @ '' '' @ ?c @ '' '' @ aop a @ '' ?''" "as = [avalue a]" using assms(1) w by (auto simp: renderAssignment_def Let_def)
    have op: "aop a \<noteq> []" "list_all (word_char d) (aop a)" using 2 by auto
    have "lexes d (q @ r) (item_tokens a @ ts)"
      using 2 lexes_column [OF lexes_next [OF lexes_space [OF lexes_column [OF lexes_next [OF mark _ op], of "acolumn a"]], of "''=''"], of "acolumn a"]
      by (auto simp: item_tokens_def q(1))
    then show ?thesis using 2 q(2) by (auto simp: item_tokens_def item_of_def p_item_def)
  next
    case 3
    then have q: "q = ?c @ '' '' @ ''='' @ '' ?''" "as = [avalue a]" using assms(1) w by (auto simp: renderAssignment_def Let_def)
    then have "lexes d (q @ r) (item_tokens a @ ts)" using 3 lexes_column [OF lexes_next [OF mark, of "''=''"], of "acolumn a"] by (simp add: item_tokens_def)
    then show ?thesis using 3 q(2) by (simp add: item_tokens_def item_of_def p_item_def)
  qed
qed

fun set_tokens :: "'v assignment list \<Rightarrow> token list" where
  "set_tokens [] = []"
| "set_tokens [a] = item_tokens a"
| "set_tokens (a # as) = item_tokens a @ Sym CHR '','' # set_tokens as"

lemma build_assignments_spec:
  assumes "build_assignments d allowed seen started xs = Inr (q, args)"
  shows "\<exists>as. xs = map Some as \<and> lexes d q ((if started \<and> as \<noteq> [] then [Sym CHR '',''] else []) @ set_tokens as)
     \<and> (q = [] \<or> \<not> started \<or> ends q) \<and> (as \<noteq> [] \<longrightarrow> (\<forall>n. length as \<le> n \<longrightarrow> p_set n (set_tokens as) args = Some (map item_of as)))
     \<and> (as = [] \<longrightarrow> q = [] \<and> args = [])
     \<and> distinct (map (\<lambda>a. ColumnKey (aowner a) (acolumn a)) as) \<and> (\<forall>a \<in> set as. ColumnKey (aowner a) (acolumn a) \<notin> seen \<and> isAllowedColumn allowed (aowner a) (acolumn a))"
  using assms
proof (induction xs arbitrary: seen started q args)
  case Nil
  then show ?case using lexes_Nil by auto
next
  case (Cons x xs)
  obtain a p q' args' where x: "x = Some a" "renderAssignment d a = Inr p"
    and r: "build_assignments d allowed (insert (ColumnKey (aowner a) (acolumn a)) seen) True xs = Inr (q', args')"
    and q: "q = (if started then '', '' else []) @ fst p @ q'" "args = snd p @ args'"
    and ok: "isAllowedColumn allowed (aowner a) (acolumn a)" "ColumnKey (aowner a) (acolumn a) \<notin> seen"
    using Cons.prems by (cases x) (auto split: if_splits sum.splits)
  obtain as where as: "xs = map Some as" "lexes d q' ((if as \<noteq> [] then [Sym CHR '',''] else []) @ set_tokens as)" "q' = [] \<or> ends q'"
    "as \<noteq> [] \<Longrightarrow> length as \<le> n \<Longrightarrow> p_set n (set_tokens as) args' = Some (map item_of as)" "as = [] \<Longrightarrow> q' = [] \<and> args' = []"
    "distinct (map (\<lambda>a. ColumnKey (aowner a) (acolumn a)) as)"
    "\<forall>b \<in> set as. ColumnKey (aowner b) (acolumn b) \<notin> insert (ColumnKey (aowner a) (acolumn a)) seen \<and> isAllowedColumn allowed (aowner b) (acolumn b)" for n
    using Cons.IH [OF r] by auto
  have e: "ends q'" using as(3) by auto
  note A = lexes_assignment [of d a "fst p" "snd p", OF _ as(2) e, of args']
  have t: "item_tokens a @ (if as \<noteq> [] then [Sym CHR '',''] else []) @ set_tokens as = set_tokens (a # as)" by (cases as) auto
  have l: "lexes d (fst p @ q') (set_tokens (a # as))" and pi: "p_item (item_tokens a @ rest) (snd p @ args') = Some (item_of a, rest, args')" for rest
    using A x(2) t by auto
  have "lexes d q ((if started then [Sym CHR '',''] else []) @ set_tokens (a # as))" using l lexes_sym [OF lexes_space [OF l], of "CHR '',''"] q(1) by simp
  moreover have "p_set n (set_tokens (a # as)) args = Some (map item_of (a # as))" if len: "length (a # as) \<le> n" for n
  proof -
    obtain m where n: "n = Suc m" "length as \<le> m" using len by (cases n) auto
    show ?thesis
    proof (cases as)
      case Nil
      then show ?thesis using n(1) pi [of "[]"] as(5) q(2) by simp
    next
      case (Cons b bs)
      then have "set_tokens (a # as) = item_tokens a @ Sym CHR '','' # set_tokens as" by simp
      then show ?thesis using n pi as(4) [OF _ n(2)] q(2) Cons by simp
    qed
  qed
  ultimately show ?case using x(1) as(1,6,7) ok q(1) by (intro exI [of _ "a # as"]) auto
qed

text \<open>
  Assignments arrive as they were built (C31). The text that \<open>BuildAssignments\<close> returns is read by the database as one assignment for each given one, in order, with
  exactly the returned arguments; the columns are allowed and none is assigned twice.
\<close>

theorem assignments_text_faithful:
  assumes "BuildAssignments d xs allowed = Inr (q, args)"
  shows "\<exists>as. xs = map Some as \<and> as \<noteq> [] \<and> read_set d q args = Some (map item_of as)
     \<and> distinct (map (\<lambda>a. ColumnKey (aowner a) (acolumn a)) as) \<and> list_all (\<lambda>a. isAllowedColumn allowed (aowner a) (acolumn a)) as"
proof -
  have b: "build_assignments d allowed {} False xs = Inr (q, args)" "xs \<noteq> []" using assms by (auto simp: BuildAssignments_def split: if_splits)
  obtain as where as: "xs = map Some as" "lexes d q (set_tokens as)" "\<And>n. as \<noteq> [] \<Longrightarrow> length as \<le> n \<Longrightarrow> p_set n (set_tokens as) args = Some (map item_of as)"
    "distinct (map (\<lambda>a. ColumnKey (aowner a) (acolumn a)) as)" "\<forall>a \<in> set as. isAllowedColumn allowed (aowner a) (acolumn a)"
    using build_assignments_spec [OF b(1)] by auto
  have "length as \<le> length (set_tokens as)"
  proof (induction as rule: set_tokens.induct)
    case (3 a b bs)
    then show ?case by (simp add: item_tokens_def)
  qed (simp_all add: item_tokens_def)
  then have "read_set d q args = Some (map item_of as)" using as(1,3) lexes_all [OF as(2)] b(2) by (simp add: read_set_def)
  then show ?thesis using as b(2) by (intro exI [of _ as]) (auto simp: list_all_iff)
qed

theorem assignments_text_faithful_witness:
  "\<exists>q. BuildAssignments DialectMySQL [Some (Add (NewColumn ''n'' []) 1), Some (SetNull (NewColumn ''x'' [])), Some (SetTo (NewColumn ''y'' []) (2 :: int))] {''n'', ''x'', ''y''} = Inr (q, [Some 1, Some 2])
     \<and> read_set DialectMySQL q [Some 1, Some (2 :: int)] = Some [Change ''n'' ''n'' ''+'' (Some 1), ToNull ''x'', ToValue ''y'' (Some 2)]"
proof -
  let ?as = "[Add (NewColumn ''n'' []) 1, SetNull (NewColumn ''x'' []), SetTo (NewColumn ''y'' []) (2 :: int)]"
  let ?b = "BuildAssignments DialectMySQL (map Some ?as) {''n'', ''x'', ''y''}"
  have "map_sum id snd ?b = Inr [Some 1, Some 2]" by code_simp
  then obtain q where q: "?b = Inr (q, [Some 1, Some 2])" by (cases ?b) auto
  obtain as where as: "map Some ?as = map Some as" "read_set DialectMySQL q [Some 1, Some 2] = Some (map item_of as)" using assignments_text_faithful [OF q] by blast
  have "as = ?as" using as(1) by auto
  moreover have "map item_of ?as = [Change ''n'' ''n'' ''+'' (Some 1), ToNull ''x'', ToValue ''y'' (Some 2)]" by code_simp
  ultimately show ?thesis using q as(2) by auto
qed

end
