(* ===== verification/Kc_Infra.thy ===== *)
theory Kc_Infra
  imports "HOL-Library.List_Lexorder" "HOL-Library.Char_ord" Kc_Resource Kc_Kafka_Config
begin

text \<open>
  \<open>src/pkg/infra\<close>: validation of the configuration (\<open>config.go\<close>, \<open>sql.go\<close>, \<open>redis.go\<close>, \<open>elasticsearch.go\<close>) and \<open>Init\<close> (\<open>infra.go\<close>), which opens all
  clients, registers them as resources, or closes them again. The parsers of DSNs and URLs are arguments, and so are the answers of the
  servers; a client is a number, and the set of open clients is part of the state. A nil dereference or an index out of range is a panic.
\<close>

section \<open>Configuration\<close>

datatype infra_error = ErrInvalidConfig | ErrUnsupportedType | ErrAlreadyInitialized | ErrCreate | ErrCheck | ErrRegister

datatype DataType = DataTypeMySQL | DataTypePostgreSQL | DataTypeRedis | DataTypeRedisCluster | DataTypeElasticsearch | DataTypeOther string

record SQLConfig =
  MaxOpenConns :: int64
  MaxIdleConns :: int64
  ConnMaxLifetime :: duration
  ConnMaxIdleTime :: duration

record RedisConfig =
  Addrs :: "string list"
  RedisUsername :: string
  RedisPassword :: string
  DB :: int64
  ClientName :: string
  Protocol :: int64
  PoolSize :: int64
  MinIdleConns :: int64
  RedisDialTimeout :: duration
  ReadTimeout :: duration
  WriteTimeout :: duration
  TLS :: bool
  ReadOnly :: bool
  RouteByLatency :: bool
  RouteRandomly :: bool

record ElasticsearchConfig =
  Addresses :: "string list"
  CloudID :: string
  ESUsername :: string
  ESPassword :: string
  APIKey :: string
  CertificateFingerprint :: string
  EnableCompression :: bool
  DiscoverNodesOnStart :: bool

record DataConfig =
  DType :: DataType
  DSN :: string
  SkipCheck :: bool
  CheckTimeout :: duration
  SQL :: "SQLConfig option"
  Redis :: "RedisConfig option"
  Elasticsearch :: "ElasticsearchConfig option"

record MQConfig =
  MType :: MQType
  MDSN :: string
  MSkipCheck :: bool
  MCheckTimeout :: duration
  MKafka :: "KafkaConfig option"
  MRedis :: "RedisConfig option"
  MRedisStream :: "streamConfig option"

text \<open>Go maps with their keys in no particular order.\<close>

record Config =
  Data :: "(string \<times> DataConfig) list"
  MQ :: "(string \<times> MQConfig) list"

text \<open>\<open>redis.Options\<close> and \<open>redis.ClusterOptions\<close>, as far as they are set here.\<close>

record redis_options =
  oAddrs :: "string list"
  oUsername :: string
  oPassword :: string
  oDB :: int64
  oClientName :: string
  oProtocol :: int64
  oPoolSize :: int64
  oMinIdleConns :: int64
  oDialTimeout :: duration
  oReadTimeout :: duration
  oWriteTimeout :: duration
  oTLS :: bool

record cluster_options = redis_options +
  oReadOnly :: bool
  oRouteByLatency :: bool
  oRouteRandomly :: bool

record parsed_url =
  Scheme :: string
  Host :: string
  Path :: string
  HasUser :: bool

record parsers =
  mysql_ParseDSN :: "string \<Rightarrow> bool"
  pgx_ParseConfig :: "string \<Rightarrow> bool"
  redis_ParseURL :: "string \<Rightarrow> redis_options option"
  redis_ParseClusterURL :: "string \<Rightarrow> cluster_options option"
  url_Parse :: "string \<Rightarrow> parsed_url option"

section \<open>Validation\<close>

definition sortedMapKeys :: "(string \<times> 'a) list \<Rightarrow> string list" where
  "sortedMapKeys m = sort (map fst m)"

definition validateResourceName :: "string \<Rightarrow> infra_error option" where
  "validateResourceName name = (if TrimSpace name = [] then Some ErrInvalidConfig else None)"

definition validateDataNestedConfig :: "DataConfig \<Rightarrow> infra_error option" where
  "validateDataNestedConfig c =
     (case DType c of
        DataTypeMySQL \<Rightarrow> if Redis c \<noteq> None \<or> Elasticsearch c \<noteq> None then Some ErrInvalidConfig else None
      | DataTypePostgreSQL \<Rightarrow> if Redis c \<noteq> None \<or> Elasticsearch c \<noteq> None then Some ErrInvalidConfig else None
      | DataTypeRedis \<Rightarrow> if SQL c \<noteq> None \<or> Elasticsearch c \<noteq> None then Some ErrInvalidConfig else None
      | DataTypeRedisCluster \<Rightarrow> if SQL c \<noteq> None \<or> Elasticsearch c \<noteq> None then Some ErrInvalidConfig else None
      | DataTypeElasticsearch \<Rightarrow> if SQL c \<noteq> None \<or> Redis c \<noteq> None then Some ErrInvalidConfig else None
      | DataTypeOther _ \<Rightarrow> None)"

definition validateSQLConfig :: "parsers \<Rightarrow> DataConfig \<Rightarrow> infra_error option" where
  "validateSQLConfig P c =
     (if TrimSpace (DSN c) = [] then Some ErrInvalidConfig
      else if DType c = DataTypeMySQL \<and> \<not> mysql_ParseDSN P (DSN c) then Some ErrInvalidConfig
      else if DType c = DataTypePostgreSQL \<and> \<not> pgx_ParseConfig P (DSN c) then Some ErrInvalidConfig
      else case SQL c of
        None \<Rightarrow> None
      | Some q \<Rightarrow> if MaxOpenConns q < 0 \<or> MaxIdleConns q < 0 \<or> ConnMaxLifetime q < 0 \<or> ConnMaxIdleTime q < 0 then Some ErrInvalidConfig else None)"

text \<open>\<open>strings.Trim(path, "/")\<close>.\<close>

definition trim_slashes :: "string \<Rightarrow> string" where
  "trim_slashes s = rev (dropWhile (\<lambda>c. c = CHR ''/'') (rev (dropWhile (\<lambda>c. c = CHR ''/'') s)))"

definition redisClusterDSNUsesDB :: "parsers \<Rightarrow> string \<Rightarrow> bool" where
  "redisClusterDSNUsesDB P dsn =
     (case url_Parse P dsn of
        None \<Rightarrow> False
      | Some u \<Rightarrow> let db = trim_slashes (Path u) in db \<noteq> [] \<and> db \<noteq> ''0'')"

definition redis_section_bad :: "DataType \<Rightarrow> RedisConfig \<Rightarrow> bool" where
  "redis_section_bad typ r \<longleftrightarrow>
     DB r < 0 \<or> (typ = DataTypeRedisCluster \<and> DB r \<noteq> 0) \<or> (Protocol r \<noteq> 0 \<and> Protocol r \<noteq> 2 \<and> Protocol r \<noteq> 3)
     \<or> PoolSize r < 0 \<or> MinIdleConns r < 0 \<or> RedisDialTimeout r < 0 \<or> ReadTimeout r < 0 \<or> WriteTimeout r < 0"

definition validateRedisConfig :: "parsers \<Rightarrow> DataConfig \<Rightarrow> infra_error option" where
  "validateRedisConfig P c =
     (if (case Redis c of None \<Rightarrow> False | Some r \<Rightarrow> redis_section_bad (DType c) r) then Some ErrInvalidConfig
      else if DSN c \<noteq> [] then
        (if DType c = DataTypeRedis then (if redis_ParseURL P (DSN c) = None then Some ErrInvalidConfig else None)
         else if redis_ParseClusterURL P (DSN c) = None then Some ErrInvalidConfig
         else if redisClusterDSNUsesDB P (DSN c) then Some ErrInvalidConfig
         else None)
      else case Redis c of
        None \<Rightarrow> Some ErrInvalidConfig
      | Some r \<Rightarrow>
          if DType c = DataTypeRedis \<and> length (Addrs r) \<noteq> 1 then Some ErrInvalidConfig
          else if DType c = DataTypeRedisCluster \<and> Addrs r = [] then Some ErrInvalidConfig
          else if list_ex (\<lambda>a. TrimSpace a = []) (Addrs r) then Some ErrInvalidConfig
          else None)"

definition validHTTPURL :: "parsers \<Rightarrow> string \<Rightarrow> bool" where
  "validHTTPURL P value = (case url_Parse P value of None \<Rightarrow> False | Some u \<Rightarrow> Host u \<noteq> [] \<and> (Scheme u = ''http'' \<or> Scheme u = ''https''))"

definition validateElasticsearchConfig :: "parsers \<Rightarrow> DataConfig \<Rightarrow> infra_error option" where
  "validateElasticsearchConfig P c =
     (if (if DSN c \<noteq> [] then \<not> validHTTPURL P (DSN c)
          else case Elasticsearch c of
            None \<Rightarrow> True
          | Some e \<Rightarrow>
              (CloudID e \<noteq> [] \<and> Addresses e \<noteq> []) \<or> (CloudID e = [] \<and> Addresses e = []) \<or> list_ex (\<lambda>a. \<not> validHTTPURL P a) (Addresses e))
      then Some ErrInvalidConfig
      else case Elasticsearch c of
        None \<Rightarrow> None
      | Some e \<Rightarrow>
          if APIKey e \<noteq> [] \<and> (ESUsername e \<noteq> [] \<or> ESPassword e \<noteq> []) then Some ErrInvalidConfig
          else if ESUsername e = [] \<and> ESPassword e \<noteq> [] then Some ErrInvalidConfig
          else None)"

definition validateDataConfig :: "parsers \<Rightarrow> DataConfig \<Rightarrow> infra_error option" where
  "validateDataConfig P c =
     (if CheckTimeout c < 0 then Some ErrInvalidConfig
      else case validateDataNestedConfig c of
        Some e \<Rightarrow> Some e
      | None \<Rightarrow>
          (case DType c of
             DataTypeMySQL \<Rightarrow> validateSQLConfig P c
           | DataTypePostgreSQL \<Rightarrow> validateSQLConfig P c
           | DataTypeRedis \<Rightarrow> validateRedisConfig P c
           | DataTypeRedisCluster \<Rightarrow> validateRedisConfig P c
           | DataTypeElasticsearch \<Rightarrow> validateElasticsearchConfig P c
           | DataTypeOther _ \<Rightarrow> Some ErrUnsupportedType))"

text \<open>The Redis settings of a Redis stream, as \<open>prepareRedisStream\<close> and the end of \<open>validateRedisStreamConfig\<close> take them.\<close>

definition stream_data :: "MQConfig \<Rightarrow> DataConfig" where
  "stream_data c =
     \<lparr>DType = (if MType c = MQTypeRedisStreamCluster then DataTypeRedisCluster else DataTypeRedis), DSN = MDSN c, SkipCheck = False, CheckTimeout = 0,
      SQL = None, Redis = MRedis c, Elasticsearch = None\<rparr>"

definition stream_redis_ok :: "parsers \<Rightarrow> MQConfig \<Rightarrow> bool" where
  "stream_redis_ok P c =
     (if MType c = MQTypeRedisStreamCluster \<and> (case MRedis c of None \<Rightarrow> False | Some r \<Rightarrow> ReadOnly r) then False
      else validateRedisConfig P (stream_data c) = None)"

definition validateMQConfig :: "parsers \<Rightarrow> MQConfig \<Rightarrow> infra_error option" where
  "validateMQConfig P c =
     (if MCheckTimeout c < 0 then Some ErrInvalidConfig
      else if MType c = MQTypeKafka \<or> MType c = MQTypeKafkaShare then
        (if MDSN c \<noteq> [] \<or> MRedis c \<noteq> None \<or> MRedisStream c \<noteq> None then Some ErrInvalidConfig
         else if validateKafkaConfig (MType c) (MKafka c) then None else Some ErrInvalidConfig)
      else if MType c = MQTypeRedisStream \<or> MType c = MQTypeRedisStreamCluster then
        (if MKafka c \<noteq> None then Some ErrInvalidConfig
         else if validateRedisStreamConfig (MRedisStream c) (stream_redis_ok P c) then None else Some ErrInvalidConfig)
      else Some ErrUnsupportedType)"

fun first_error :: "(string \<Rightarrow> infra_error option) list \<Rightarrow> string \<Rightarrow> infra_error option" where
  "first_error [] n = None"
| "first_error (f # fs) n = (case f n of Some e \<Rightarrow> Some e | None \<Rightarrow> first_error fs n)"

fun check_names :: "(string \<Rightarrow> infra_error option) \<Rightarrow> string list \<Rightarrow> infra_error option" where
  "check_names f [] = None"
| "check_names f (n # ns) = (case f n of Some e \<Rightarrow> Some e | None \<Rightarrow> check_names f ns)"

definition get :: "(string \<times> 'a) list \<Rightarrow> string \<Rightarrow> 'a" where
  "get m n = the (map_of m n)"

definition validateConfig :: "parsers \<Rightarrow> Config \<Rightarrow> infra_error option" where
  "validateConfig P c =
     (case check_names (first_error [validateResourceName, \<lambda>n. validateDataConfig P (get (Data c) n)]) (sortedMapKeys (Data c)) of
        Some e \<Rightarrow> Some e
      | None \<Rightarrow> check_names (first_error [validateResourceName, \<lambda>n. validateMQConfig P (get (MQ c) n)]) (sortedMapKeys (MQ c)))"

section \<open>Client options\<close>

datatype 'a go = Val 'a | Err infra_error | Panic

text \<open>Values of the DSN win; the nested configuration fills in what the DSN leaves open.\<close>

definition applyRedisTuning :: "RedisConfig option \<Rightarrow> 'a redis_options_scheme \<Rightarrow> 'a redis_options_scheme" where
  "applyRedisTuning config x =
     (case config of
        None \<Rightarrow> x
      | Some c \<Rightarrow>
          x\<lparr>oClientName := (if oClientName x = [] then ClientName c else oClientName x),
            oProtocol := (if oProtocol x = 0 then Protocol c else oProtocol x),
            oPoolSize := (if oPoolSize x = 0 then PoolSize c else oPoolSize x),
            oMinIdleConns := (if oMinIdleConns x = 0 then MinIdleConns c else oMinIdleConns x),
            oDialTimeout := (if oDialTimeout x = 0 then RedisDialTimeout c else oDialTimeout x),
            oReadTimeout := (if oReadTimeout x = 0 then ReadTimeout c else oReadTimeout x),
            oWriteTimeout := (if oWriteTimeout x = 0 then WriteTimeout c else oWriteTimeout x)\<rparr>)"

definition applyRedisClusterTuning :: "RedisConfig option \<Rightarrow> cluster_options \<Rightarrow> cluster_options" where
  "applyRedisClusterTuning config x =
     (case config of
        None \<Rightarrow> x
      | Some c \<Rightarrow>
          (applyRedisTuning (Some c) x)
            \<lparr>oReadOnly := oReadOnly x \<or> ReadOnly c, oRouteByLatency := oRouteByLatency x \<or> RouteByLatency c, oRouteRandomly := oRouteRandomly x \<or> RouteRandomly c\<rparr>)"

definition redisOptions :: "parsers \<Rightarrow> DataConfig \<Rightarrow> redis_options go" where
  "redisOptions P c =
     (if DSN c \<noteq> [] then
        (case redis_ParseURL P (DSN c) of
           None \<Rightarrow> Err ErrInvalidConfig
         | Some x \<Rightarrow> Val (applyRedisTuning (Redis c) x))
      else case Redis c of
        None \<Rightarrow> Panic
      | Some r \<Rightarrow>
          (case Addrs r of
             [] \<Rightarrow> Panic
           | a # _ \<Rightarrow>
               Val (applyRedisTuning (Some r)
                 \<lparr>oAddrs = [a], oUsername = RedisUsername r, oPassword = RedisPassword r, oDB = DB r, oClientName = ClientName r, oProtocol = Protocol r,
                  oPoolSize = 0, oMinIdleConns = 0, oDialTimeout = 0, oReadTimeout = 0, oWriteTimeout = 0, oTLS = TLS r\<rparr>)))"

definition redisClusterOptions :: "parsers \<Rightarrow> DataConfig \<Rightarrow> cluster_options go" where
  "redisClusterOptions P c =
     (if DSN c \<noteq> [] then
        (case redis_ParseClusterURL P (DSN c) of
           None \<Rightarrow> Err ErrInvalidConfig
         | Some x \<Rightarrow> Val (applyRedisClusterTuning (Redis c) x))
      else case Redis c of
        None \<Rightarrow> Panic
      | Some r \<Rightarrow>
          Val (applyRedisClusterTuning (Some r)
            \<lparr>oAddrs = Addrs r, oUsername = RedisUsername r, oPassword = RedisPassword r, oDB = 0, oClientName = ClientName r, oProtocol = Protocol r,
             oPoolSize = 0, oMinIdleConns = 0, oDialTimeout = 0, oReadTimeout = 0, oWriteTimeout = 0, oTLS = TLS r,
             oReadOnly = False, oRouteByLatency = False, oRouteRandomly = False\<rparr>))"

datatype es_option =
    WithAddresses "string list"
  | WithCloudID string
  | WithAPIKey string
  | WithBasicAuth string string
  | WithCertificateFingerprint string
  | WithCompression
  | WithDiscoverNodesOnStart

definition dsnHasUser :: "parsers \<Rightarrow> string \<Rightarrow> bool" where
  "dsnHasUser P dsn = (if TrimSpace dsn = [] then False else case url_Parse P dsn of None \<Rightarrow> False | Some u \<Rightarrow> HasUser u)"

definition es_auth :: "parsers \<Rightarrow> string \<Rightarrow> ElasticsearchConfig \<Rightarrow> es_option list" where
  "es_auth P dsn e =
     (if dsnHasUser P dsn then []
      else if APIKey e \<noteq> [] then [WithAPIKey (APIKey e)]
      else if ESUsername e \<noteq> [] \<or> ESPassword e \<noteq> [] then [WithBasicAuth (ESUsername e) (ESPassword e)]
      else [])"

definition es_options :: "parsers \<Rightarrow> DataConfig \<Rightarrow> es_option list go" where
  "es_options P c =
     (let nested = (case Elasticsearch c of
                      None \<Rightarrow> []
                    | Some e \<Rightarrow>
                        es_auth P (DSN c) e
                        @ (if CertificateFingerprint e \<noteq> [] then [WithCertificateFingerprint (CertificateFingerprint e)] else [])
                        @ (if EnableCompression e then [WithCompression] else [])
                        @ (if DiscoverNodesOnStart e then [WithDiscoverNodesOnStart] else [])) in
      if DSN c \<noteq> [] then Val (WithAddresses [DSN c] # nested)
      else case Elasticsearch c of
        None \<Rightarrow> Panic
      | Some e \<Rightarrow> Val ((if CloudID e \<noteq> [] then WithCloudID (CloudID e) else WithAddresses (Addresses e)) # nested))"

text \<open>The calls on a \<open>*sqlx.DB\<close> that set up its pool; a zero keeps the default of \<open>database/sql\<close>.\<close>

datatype sql_setting = SetMaxOpenConns int64 | SetMaxIdleConns int64 | SetConnMaxLifetime duration | SetConnMaxIdleTime duration

definition sql_settings :: "SQLConfig option \<Rightarrow> sql_setting list" where
  "sql_settings config =
     (case config of
        None \<Rightarrow> []
      | Some q \<Rightarrow>
          (if MaxOpenConns q > 0 then [SetMaxOpenConns (MaxOpenConns q)] else [])
          @ (if MaxIdleConns q > 0 then [SetMaxIdleConns (MaxIdleConns q)] else [])
          @ (if ConnMaxLifetime q > 0 then [SetConnMaxLifetime (ConnMaxLifetime q)] else [])
          @ (if ConnMaxIdleTime q > 0 then [SetConnMaxIdleTime (ConnMaxIdleTime q)] else []))"

datatype sasl = plain string string | sha256 string string | sha512 string string

definition kafkaSASL :: "SASLConfig \<Rightarrow> sasl go" where
  "kafkaSASL x =
     (case Mechanism x of
        SASLPlain \<Rightarrow> Val (plain (Username x) (Password x))
      | SASLSCRAMSHA256 \<Rightarrow> Val (sha256 (Username x) (Password x))
      | SASLSCRAMSHA512 \<Rightarrow> Val (sha512 (Username x) (Password x))
      | SASLOther \<Rightarrow> Panic)"

datatype kgo_opt = SeedBrokers "string list" | KgoClientID string | KgoDialTimeout duration | DialTLS | KgoSASL sasl

definition kafkaClientOptions :: "KafkaConfig \<Rightarrow> kgo_opt list go" where
  "kafkaClientOptions k =
     (let options = SeedBrokers (kafkaBrokers k)
            # (if ClientID k \<noteq> [] then [KgoClientID (ClientID k)] else [])
            @ (if DialTimeout k > 0 then [KgoDialTimeout (DialTimeout k)] else [])
            @ (if KafkaTLS k then [DialTLS] else []) in
      case SASL k of
        None \<Rightarrow> Val options
      | Some x \<Rightarrow>
          (case kafkaSASL x of
             Panic \<Rightarrow> Panic
           | Err e \<Rightarrow> Err e
           | Val m \<Rightarrow> Val (options @ [KgoSASL m])))"

section \<open>Opening clients\<close>

text \<open>A client is a number; \<open>settings\<close> has what it was built from. Closing a client takes it out of \<open>opened\<close>, whatever error \<open>Close\<close> reports.\<close>

datatype client_options =
    SQLClient string string "sql_setting list"
  | RedisClient redis_options
  | RedisClusterClient cluster_options
  | ElasticsearchClient "es_option list"
  | KafkaProducer "kgo_opt list"

record world =
  registry :: "nat resources"
  opened :: "nat set"
  settings :: "nat \<rightharpoonup> client_options"
  next_client :: nat

text \<open>What the libraries and servers answer when a client is built and checked.\<close>

record answer =
  created :: bool
  reachable :: bool
  delivery_limit :: "int64 option"

record preparedClient =
  pname :: string
  ptype :: nat \<comment> \<open>the declared type it is registered with\<close>
  pclient :: nat

definition close_client :: "nat \<Rightarrow> world \<Rightarrow> world" where
  "close_client n w = w\<lparr>opened := opened w - {n}\<rparr>"

text \<open>Build a client and check it, unless the check is skipped; a client that fails its check is closed. Only some constructors can fail.\<close>

definition connect :: "bool \<Rightarrow> answer \<Rightarrow> bool \<Rightarrow> bool \<Rightarrow> string \<Rightarrow> nat \<Rightarrow> client_options \<Rightarrow> world \<Rightarrow> preparedClient go \<times> world" where
  "connect can_fail a skip check_ok name typ opts w =
     (if can_fail \<and> \<not> created a then (Err ErrCreate, w)
      else
        let n = next_client w; w1 = w\<lparr>opened := insert n (opened w), settings := (settings w)(n \<mapsto> opts), next_client := n + 1\<rparr> in
        if \<not> skip \<and> \<not> reachable a then (Err ErrCheck, close_client n w1)
        else if \<not> skip \<and> \<not> check_ok then (Err ErrInvalidConfig, close_client n w1)
        else (Val \<lparr>pname = name, ptype = typ, pclient = n\<rparr>, w1))"

definition sqlType :: nat where "sqlType = 0"
definition redisType :: nat where "redisType = 1"
definition clusterType :: nat where "clusterType = 2"
definition esType :: nat where "esType = 3"
definition mqType :: nat where "mqType = 4"

lemmas type_defs = sqlType_def redisType_def clusterType_def esType_def mqType_def

definition with_options :: "'a go \<Rightarrow> ('a \<Rightarrow> world \<Rightarrow> preparedClient go \<times> world) \<Rightarrow> world \<Rightarrow> preparedClient go \<times> world" where
  "with_options x r w = (case x of Panic \<Rightarrow> (Panic, w) | Err e \<Rightarrow> (Err e, w) | Val v \<Rightarrow> r v w)"

definition prepareSQL :: "answer \<Rightarrow> string \<Rightarrow> DataConfig \<Rightarrow> world \<Rightarrow> preparedClient go \<times> world" where
  "prepareSQL a name c =
     connect True a (SkipCheck c) True name sqlType
       (SQLClient (if DType c = DataTypePostgreSQL then ''pgx'' else ''mysql'') (DSN c) (sql_settings (SQL c)))"

definition prepareRedis :: "parsers \<Rightarrow> answer \<Rightarrow> string \<Rightarrow> DataConfig \<Rightarrow> world \<Rightarrow> preparedClient go \<times> world" where
  "prepareRedis P a name c =
     with_options (redisOptions P c) (\<lambda>x. connect False a (SkipCheck c) True name redisType (RedisClient x))"

definition prepareRedisCluster :: "parsers \<Rightarrow> answer \<Rightarrow> string \<Rightarrow> DataConfig \<Rightarrow> world \<Rightarrow> preparedClient go \<times> world" where
  "prepareRedisCluster P a name c =
     with_options (redisClusterOptions P c) (\<lambda>x. connect False a (SkipCheck c) True name clusterType (RedisClusterClient x))"

definition prepareElasticsearch :: "parsers \<Rightarrow> answer \<Rightarrow> string \<Rightarrow> DataConfig \<Rightarrow> world \<Rightarrow> preparedClient go \<times> world" where
  "prepareElasticsearch P a name c =
     with_options (es_options P c) (\<lambda>x. connect True a (SkipCheck c) True name esType (ElasticsearchClient x))"

definition prepareData :: "parsers \<Rightarrow> answer \<Rightarrow> string \<Rightarrow> DataConfig \<Rightarrow> world \<Rightarrow> preparedClient go \<times> world" where
  "prepareData P a name c w =
     (case DType c of
        DataTypeMySQL \<Rightarrow> prepareSQL a name c w
      | DataTypePostgreSQL \<Rightarrow> prepareSQL a name c w
      | DataTypeRedis \<Rightarrow> prepareRedis P a name c w
      | DataTypeRedisCluster \<Rightarrow> prepareRedisCluster P a name c w
      | DataTypeElasticsearch \<Rightarrow> prepareElasticsearch P a name c w
      | DataTypeOther _ \<Rightarrow> (Err ErrUnsupportedType, w))"

definition prepareKafka :: "answer \<Rightarrow> string \<Rightarrow> MQConfig \<Rightarrow> world \<Rightarrow> preparedClient go \<times> world" where
  "prepareKafka a name c w =
     (case MKafka c of
        None \<Rightarrow> (Panic, w)
      | Some k \<Rightarrow>
          (let mode = kafkaMode (MType c);
               limit_ok = (mode \<noteq> kafkaShareGroup \<or> checkKafkaShareDeliveryLimit (delivery_limit a) (kafkaRuntimeConfigFrom (Values k) mode) \<noteq> None) in
           with_options (kafkaClientOptions k) (\<lambda>x. connect True a (MSkipCheck c) limit_ok name mqType (KafkaProducer x)) w))"

definition prepareRedisStream :: "parsers \<Rightarrow> answer \<Rightarrow> string \<Rightarrow> MQConfig \<Rightarrow> world \<Rightarrow> preparedClient go \<times> world" where
  "prepareRedisStream P a name c =
     (let d = stream_data c; r = connect False a (MSkipCheck c) True name mqType in
      if DType d = DataTypeRedisCluster then with_options (redisClusterOptions P d) (\<lambda>x. r (RedisClusterClient x))
      else with_options (redisOptions P d) (\<lambda>x. r (RedisClient x)))"

definition prepareMQ :: "parsers \<Rightarrow> answer \<Rightarrow> string \<Rightarrow> MQConfig \<Rightarrow> world \<Rightarrow> preparedClient go \<times> world" where
  "prepareMQ P a name c w =
     (if MType c = MQTypeKafka \<or> MType c = MQTypeKafkaShare then prepareKafka a name c w
      else if MType c = MQTypeRedisStream \<or> MType c = MQTypeRedisStreamCluster then prepareRedisStream P a name c w
      else (Err ErrUnsupportedType, w))"

section \<open>Init\<close>

definition dataResourceExists :: "string \<Rightarrow> nat resources \<Rightarrow> bool" where
  "dataResourceExists name s = list_ex (\<lambda>t. snd (Get (name, t) s)) [sqlType, redisType, clusterType, esType]"

definition validateResourcesAvailable :: "Config \<Rightarrow> nat resources \<Rightarrow> infra_error option" where
  "validateResourcesAvailable c s =
     (if list_ex (\<lambda>n. dataResourceExists n s) (sortedMapKeys (Data c)) then Some ErrAlreadyInitialized
      else if list_ex (\<lambda>n. snd (Get (n, mqType) s)) (sortedMapKeys (MQ c)) then Some ErrAlreadyInitialized
      else None)"

fun prepare_loop :: "(string \<Rightarrow> world \<Rightarrow> preparedClient go \<times> world) \<Rightarrow> string list \<Rightarrow> preparedClient list \<Rightarrow> world \<Rightarrow> preparedClient list \<times> unit go \<times> world" where
  "prepare_loop f [] prepared w = (prepared, Val (), w)"
| "prepare_loop f (n # ns) prepared w =
     (case f n w of
        (Val p, w1) \<Rightarrow> prepare_loop f ns (prepared @ [p]) w1
      | (Err e, w1) \<Rightarrow> (prepared, Err e, w1)
      | (Panic, w1) \<Rightarrow> (prepared, Panic, w1))"

definition rollback :: "preparedClient list \<Rightarrow> world \<Rightarrow> world" where
  "rollback clients w = fold (\<lambda>p. close_client (pclient p)) (rev clients) w"

fun commit_loop :: "preparedClient list \<Rightarrow> nat resources \<Rightarrow> unit go \<times> nat resources" where
  "commit_loop [] s = (Val (), s)"
| "commit_loop (p # ps) s =
     (case Set (pname p, ptype p) (Some (pclient p)) s of
        (None, s1) \<Rightarrow> commit_loop ps s1
      | (Some e, s1) \<Rightarrow> (Err ErrRegister, s1))"

text \<open>Preparing and registering the clients; \<open>data_answer\<close> and \<open>mq_answer\<close> give the answers for each name.\<close>

definition init_clients :: "parsers \<Rightarrow> (string \<Rightarrow> answer) \<Rightarrow> (string \<Rightarrow> answer) \<Rightarrow> Config \<Rightarrow> world \<Rightarrow> unit go \<times> world" where
  "init_clients P data_answer mq_answer c w =
     (case prepare_loop (\<lambda>n. prepareData P (data_answer n) n (get (Data c) n)) (sortedMapKeys (Data c)) [] w of
        (ps, Panic, w1) \<Rightarrow> (Panic, w1)
      | (ps, Err e, w1) \<Rightarrow> (Err e, rollback ps w1)
      | (ps, Val _, w1) \<Rightarrow>
      case prepare_loop (\<lambda>n. prepareMQ P (mq_answer n) n (get (MQ c) n)) (sortedMapKeys (MQ c)) ps w1 of
        (qs, Panic, w2) \<Rightarrow> (Panic, w2)
      | (qs, Err e, w2) \<Rightarrow> (Err e, rollback qs w2)
      | (qs, Val _, w2) \<Rightarrow>
      case commit_loop qs (registry w2) of
        (Val _, s) \<Rightarrow> (Val (), w2\<lparr>registry := s\<rparr>)
      | (Err e, s) \<Rightarrow> (Err e, rollback qs (w2\<lparr>registry := s\<rparr>))
      | (Panic, s) \<Rightarrow> (Panic, w2\<lparr>registry := s\<rparr>))"

definition Init :: "parsers \<Rightarrow> (string \<Rightarrow> answer) \<Rightarrow> (string \<Rightarrow> answer) \<Rightarrow> bool \<Rightarrow> Config \<Rightarrow> world \<Rightarrow> unit go \<times> world" where
  "Init P data_answer mq_answer ctx c w =
     (if \<not> ctx then (Err ErrInvalidConfig, w)
      else case validateConfig P c of
        Some e \<Rightarrow> (Err e, w)
      | None \<Rightarrow>
      case validateResourcesAvailable c (registry w) of
        Some e \<Rightarrow> (Err e, w)
      | None \<Rightarrow> init_clients P data_answer mq_answer c w)"

section \<open>All clients or none\<close>

text \<open>
  What preparing the client of a name promises: it does not panic; it opens the next client for this name and type, built from the given options,
  or leaves registry and open clients as they were.
\<close>

definition fresh :: "world \<Rightarrow> bool" where
  "fresh w \<longleftrightarrow> opened w \<subseteq> {..<next_client w}"

definition prepares :: "(world \<Rightarrow> preparedClient go \<times> world) \<Rightarrow> nat \<Rightarrow> client_options \<Rightarrow> string \<Rightarrow> bool" where
  "prepares f ty opts n \<longleftrightarrow>
     (\<forall>w. fresh w \<longrightarrow>
        (case f w of
           (Panic, w1) \<Rightarrow> False
         | (Err e, w1) \<Rightarrow> registry w1 = registry w \<and> opened w1 = opened w \<and> (\<forall>i < next_client w. settings w1 i = settings w i)
         | (Val p, w1) \<Rightarrow>
             p = \<lparr>pname = n, ptype = ty, pclient = next_client w\<rparr>
             \<and> w1 = w\<lparr>opened := insert (next_client w) (opened w), settings := (settings w)(next_client w \<mapsto> opts), next_client := next_client w + 1\<rparr>))"

lemma connect_prepares: "prepares (connect can_fail a skip ok n ty opts) ty opts n"
  unfolding prepares_def fresh_def by (auto simp: connect_def close_client_def Let_def)

lemma with_options_prepares:
  assumes "x \<noteq> Panic" and "\<And>v. x = Val v \<Longrightarrow> prepares (r v) ty opts n"
  shows "prepares (with_options x r) ty opts n"
  using assms unfolding prepares_def with_options_def by (cases x) auto

definition data_type :: "DataType \<Rightarrow> nat" where
  "data_type t =
     (case t of
        DataTypeMySQL \<Rightarrow> sqlType
      | DataTypePostgreSQL \<Rightarrow> sqlType
      | DataTypeRedis \<Rightarrow> redisType
      | DataTypeRedisCluster \<Rightarrow> clusterType
      | DataTypeElasticsearch \<Rightarrow> esType
      | DataTypeOther _ \<Rightarrow> sqlType)"

text \<open>The options a configuration stands for.\<close>

fun value_of :: "'a go \<Rightarrow> 'a option" where
  "value_of (Val v) = Some v"
| "value_of _ = None"

definition redis_client :: "parsers \<Rightarrow> DataConfig \<Rightarrow> client_options" where
  "redis_client P c =
     (if DType c = DataTypeRedisCluster then RedisClusterClient (the (value_of (redisClusterOptions P c))) else RedisClient (the (value_of (redisOptions P c))))"

definition data_options :: "parsers \<Rightarrow> DataConfig \<Rightarrow> client_options" where
  "data_options P c =
     (case DType c of
        DataTypeMySQL \<Rightarrow> SQLClient ''mysql'' (DSN c) (sql_settings (SQL c))
      | DataTypePostgreSQL \<Rightarrow> SQLClient ''pgx'' (DSN c) (sql_settings (SQL c))
      | DataTypeElasticsearch \<Rightarrow> ElasticsearchClient (the (value_of (es_options P c)))
      | _ \<Rightarrow> redis_client P c)"

definition mq_options :: "parsers \<Rightarrow> MQConfig \<Rightarrow> client_options" where
  "mq_options P c =
     (case MKafka c of
        Some k \<Rightarrow> KafkaProducer (the (value_of (kafkaClientOptions k)))
      | None \<Rightarrow> redis_client P (stream_data c))"

text \<open>Validated configurations give options without a panic.\<close>

lemma redis_no_panic:
  assumes "validateRedisConfig P c = None"
  shows "DType c = DataTypeRedis \<Longrightarrow> redisOptions P c \<noteq> Panic" "DType c = DataTypeRedisCluster \<Longrightarrow> redisClusterOptions P c \<noteq> Panic"
  using assms by (auto simp: validateRedisConfig_def redisOptions_def redisClusterOptions_def split: if_splits option.splits list.splits)

lemma es_no_panic: "validateElasticsearchConfig P c = None \<Longrightarrow> es_options P c \<noteq> Panic"
  by (auto simp: validateElasticsearchConfig_def es_options_def Let_def split: if_splits option.splits)

lemma kafka_no_panic: "validateKafkaConfig t (MKafka c) \<Longrightarrow> \<exists>k. MKafka c = Some k \<and> kafkaClientOptions k \<noteq> Panic"
  by (auto simp: validateKafkaConfig_def kafkaClientOptions_def kafkaSASL_def Let_def split: option.splits SASLMechanism.splits)

lemma data_prepares:
  assumes "validateDataConfig P c = None"
  shows "prepares (prepareData P a n c) (data_type (DType c)) (data_options P c) n"
proof -
  have v: "DType c = DataTypeRedis \<Longrightarrow> redisOptions P c \<noteq> Panic" "DType c = DataTypeRedisCluster \<Longrightarrow> redisClusterOptions P c \<noteq> Panic"
    "DType c = DataTypeElasticsearch \<Longrightarrow> es_options P c \<noteq> Panic"
    using assms redis_no_panic [of P c] es_no_panic [of P c] by (auto simp: validateDataConfig_def split: if_splits option.splits)
  show ?thesis
  proof (cases "DType c")
    case (DataTypeOther x)
    then show ?thesis using assms by (auto simp: validateDataConfig_def split: if_splits option.splits)
  qed (use v in \<open>auto simp: prepareData_def [abs_def] prepareSQL_def prepareRedis_def prepareRedisCluster_def prepareElasticsearch_def data_type_def data_options_def redis_client_def
      intro!: connect_prepares with_options_prepares\<close>)
qed

lemma mq_prepares:
  assumes "validateMQConfig P c = None"
  shows "prepares (prepareMQ P a n c) mqType (mq_options P c) n"
proof -
  consider "MType c = MQTypeKafka \<or> MType c = MQTypeKafkaShare" "validateKafkaConfig (MType c) (MKafka c)"
    | "\<not> (MType c = MQTypeKafka \<or> MType c = MQTypeKafkaShare)" "MType c = MQTypeRedisStream \<or> MType c = MQTypeRedisStreamCluster" "stream_redis_ok P c" "MKafka c = None"
    using assms by (auto simp: validateMQConfig_def validateRedisStreamConfig_def Let_def split: if_splits option.splits)
  then show ?thesis
  proof cases
    case 1
    obtain k where k: "MKafka c = Some k" "kafkaClientOptions k \<noteq> Panic" using kafka_no_panic [OF 1(2)] by auto
    have "prepares (prepareKafka a n c) mqType (mq_options P c) n"
      unfolding prepareKafka_def mq_options_def k(1) option.case Let_def using k(2) by (auto intro!: connect_prepares with_options_prepares)
    then show ?thesis using 1(1) by (simp add: prepareMQ_def [abs_def])
  next
    case 2
    have v: "validateRedisConfig P (stream_data c) = None" using 2(3) by (auto simp: stream_redis_ok_def split: if_splits)
    have "prepares (prepareRedisStream P a n c) mqType (mq_options P c) n"
      unfolding prepareRedisStream_def mq_options_def redis_client_def 2(4) option.case Let_def using redis_no_panic [OF v]
      by (auto simp: stream_data_def intro!: connect_prepares with_options_prepares)
    then show ?thesis using 2(1,2) by (simp add: prepareMQ_def [abs_def])
  qed
qed

text \<open>The loops of \<open>Init\<close>.\<close>

lemma prepare_loop_spec:
  assumes "\<forall>n \<in> set ns. prepares (f n) (ty n) (opts n) n" and "fresh w" and "prepare_loop f ns acc w = (ps, r, w1)"
  shows "\<exists>qs. ps = acc @ qs \<and> r \<noteq> Panic \<and> registry w1 = registry w \<and> map pclient qs = [next_client w..<next_client w + length qs]
     \<and> opened w1 = opened w \<union> {next_client w..<next_client w + length qs}
     \<and> (\<forall>i < next_client w. settings w1 i = settings w i) \<and> (\<forall>q \<in> set qs. settings w1 (pclient q) = Some (opts (pname q)))
     \<and> (r = Val () \<longrightarrow> fresh w1 \<and> next_client w1 = next_client w + length qs \<and> map (\<lambda>q. (pname q, ptype q)) qs = map (\<lambda>n. (n, ty n)) ns)"
  using assms
proof (induction ns arbitrary: acc w)
  case (Cons n ns)
  have p: "prepares (f n) (ty n) (opts n) n" using Cons.prems(1) by simp
  show ?case
  proof (cases "f n w")
    case (Pair r1 w2)
    show ?thesis
    proof (cases r1)
      case (Val p1)
      let ?p = "\<lparr>pname = n, ptype = ty n, pclient = next_client w\<rparr>"
      have w2: "p1 = ?p" "w2 = w\<lparr>opened := insert (next_client w) (opened w), settings := (settings w)(next_client w \<mapsto> opts n), next_client := next_client w + 1\<rparr>"
        using p Cons.prems(2) Pair Val by (auto simp: prepares_def)
      have "fresh w2" using Cons.prems(2) w2(2) by (auto simp: fresh_def)
      moreover have "prepare_loop f ns (acc @ [?p]) w2 = (ps, r, w1)" using Cons.prems(3) Pair Val w2(1) by simp
      ultimately obtain qs where qs: "ps = (acc @ [?p]) @ qs" "r \<noteq> Panic" "registry w1 = registry w2" "map pclient qs = [next_client w2..<next_client w2 + length qs]"
        "opened w1 = opened w2 \<union> {next_client w2..<next_client w2 + length qs}"
        "\<forall>i < next_client w2. settings w1 i = settings w2 i" "\<forall>q \<in> set qs. settings w1 (pclient q) = Some (opts (pname q))"
        "r = Val () \<Longrightarrow> fresh w1 \<and> next_client w1 = next_client w2 + length qs \<and> map (\<lambda>q. (pname q, ptype q)) qs = map (\<lambda>n. (n, ty n)) ns"
        using Cons.IH [of w2 "acc @ [?p]"] Cons.prems(1) by auto
      have "[next_client w..<next_client w + length (?p # qs)] = next_client w # [Suc (next_client w)..<Suc (next_client w) + length qs]"
        by (simp add: upt_conv_Cons del: upt_Suc)
      then have "map pclient (?p # qs) = [next_client w..<next_client w + length (?p # qs)]" using qs(4) w2(2) by simp
      moreover have "opened w1 = opened w \<union> {next_client w..<next_client w + length (?p # qs)}" unfolding qs(5) w2(2) by auto
      moreover have "\<forall>q \<in> set (?p # qs). settings w1 (pclient q) = Some (opts (pname q))" using qs(6,7) w2(2) by simp
      ultimately show ?thesis using qs(1-3,6,8) w2(2) by (intro exI [of _ "?p # qs"]) simp
    next
      case (Err e)
      then have "registry w2 = registry w" "opened w2 = opened w" "\<forall>i < next_client w. settings w2 i = settings w i"
        using p Cons.prems(2) Pair by (auto simp: prepares_def)
      then show ?thesis using Cons.prems(3) Pair Err by auto
    next
      case Panic
      then show ?thesis using p Cons.prems(2) Pair by (auto simp: prepares_def)
    qed
  qed
qed auto

lemma rollback_spec: "registry (rollback ps w) = registry w \<and> opened (rollback ps w) = opened w - pclient ` set ps"
proof -
  have "registry (fold (\<lambda>p. close_client (pclient p)) qs w) = registry w \<and> opened (fold (\<lambda>p. close_client (pclient p)) qs w) = opened w - pclient ` set qs" for qs
    by (induction qs arbitrary: w) (auto simp: close_client_def)
  from this [of "rev ps"] show ?thesis unfolding rollback_def set_rev .
qed

lemma commit_loop_spec:
  assumes "\<forall>p \<in> set ps. pname p \<noteq> []" and "distinct (map (\<lambda>p. (pname p, ptype p)) ps)"
  shows "\<exists>s'. commit_loop ps s = (Val (), s') \<and> (\<forall>p \<in> set ps. vals s' (pname p, ptype p) = Some (Some (pclient p)))
     \<and> (\<forall>k. k \<notin> (\<lambda>p. (pname p, ptype p)) ` set ps \<longrightarrow> vals s' k = vals s k)"
  using assms
proof (induction ps arbitrary: s)
  case (Cons p ps)
  let ?s = "s\<lparr>vals := (vals s)((pname p, ptype p) \<mapsto> Some (pclient p))\<rparr>"
  obtain s' where "commit_loop ps ?s = (Val (), s')" "\<forall>p \<in> set ps. vals s' (pname p, ptype p) = Some (Some (pclient p))"
    "\<forall>k. k \<notin> (\<lambda>p. (pname p, ptype p)) ` set ps \<longrightarrow> vals s' k = vals ?s k"
    using Cons.IH [of ?s] Cons.prems by auto
  then show ?case using Cons.prems by (intro exI [of _ s']) (auto simp: Set_def)
qed simp

lemma check_names_None: "check_names f ns = None \<longleftrightarrow> (\<forall>n \<in> set ns. f n = None)"
  by (induction ns) (auto split: option.splits)

lemma valid_name: "validateResourceName n = None \<Longrightarrow> n \<noteq> []"
  by (auto simp: validateResourceName_def TrimSpace_def split: if_splits)

lemma validated:
  assumes "validateConfig P c = None"
  shows "n \<in> set (sortedMapKeys (Data c)) \<Longrightarrow> n \<noteq> [] \<and> validateDataConfig P (get (Data c) n) = None"
    "n \<in> set (sortedMapKeys (MQ c)) \<Longrightarrow> n \<noteq> [] \<and> validateMQConfig P (get (MQ c) n) = None"
  using assms valid_name by (auto simp: validateConfig_def check_names_None split: option.splits)

lemma client_of_key:
  assumes "distinct (map f qs)" and "distinct (map g qs)"
  shows "\<exists>h. inj_on h (f ` set qs) \<and> (\<forall>q \<in> set qs. h (f q) = g q)"
proof -
  have i: "inj_on f (set qs)" "inj_on g (set qs)" using assms by (simp_all add: distinct_map)
  let ?h = "\<lambda>k. g (inv_into (set qs) f k)"
  have "\<forall>q \<in> set qs. ?h (f q) = g q" using i(1) by simp
  moreover from this have "inj_on ?h (f ` set qs)" using i(2) by (auto simp: inj_on_def)
  ultimately show ?thesis by blast
qed

text \<open>The keys under which the configured clients are registered.\<close>

definition client_keys :: "Config \<Rightarrow> (string \<times> nat) list" where
  "client_keys c = map (\<lambda>n. (n, data_type (DType (get (Data c) n)))) (sortedMapKeys (Data c)) @ map (\<lambda>n. (n, mqType)) (sortedMapKeys (MQ c))"

lemma client_keys_distinct: "distinct (map fst (Data c)) \<Longrightarrow> distinct (map fst (MQ c)) \<Longrightarrow> distinct (client_keys c)"
  by (auto simp: client_keys_def sortedMapKeys_def distinct_map data_type_def type_defs inj_on_def split: DataType.splits)

lemma available_None:
  assumes "validateResourcesAvailable c s = None" and "k \<in> set (client_keys c)" and "fst k \<noteq> []"
  shows "vals s k = None"
proof -
  obtain n t where k: "k = (n, t)" by fastforce
  have "\<not> snd (Get (n, t) s)"
    using assms k by (auto simp: validateResourcesAvailable_def dataResourceExists_def client_keys_def list_ex_iff data_type_def split: if_splits DataType.splits)
  then show ?thesis using assms(3) k by (auto simp: Get_def split: option.splits)
qed

text \<open>The outcome of preparing and registering: the keys of the configured clients are free before.\<close>

definition settled :: "(string \<times> nat) list \<Rightarrow> (string \<times> nat \<Rightarrow> client_options) \<Rightarrow> world \<Rightarrow> unit go \<times> world \<Rightarrow> bool" where
  "settled ks opts w out \<longleftrightarrow>
     (case out of
        (Panic, w') \<Rightarrow> False
      | (Err e, w') \<Rightarrow> registry w' = registry w \<and> opened w' = opened w
      | (Val _, w') \<Rightarrow>
          (\<forall>k. k \<notin> set ks \<longrightarrow> vals (registry w') k = vals (registry w) k)
          \<and> (\<exists>client. inj_on client (set ks) \<and> client ` set ks \<inter> opened w = {} \<and> opened w' = opened w \<union> client ` set ks
               \<and> (\<forall>k \<in> set ks. vals (registry w') k = Some (Some (client k)) \<and> settings w' (client k) = Some (opts k))))"

lemma rollback_settles:
  assumes "fresh w" and "map pclient qs = [next_client w..<next_client w + length qs]" and "opened w1 = opened w \<union> {next_client w..<next_client w + length qs}"
    and "registry w1 = registry w"
  shows "settled ks opts w (Err e, rollback qs w1)"
proof -
  have "pclient ` set qs = {next_client w..<next_client w + length qs}" using assms(2) by (metis set_map set_upt)
  then show ?thesis using rollback_spec [of qs w1] assms(1,3,4) by (auto simp: fresh_def settled_def)
qed

lemma commit_settles:
  assumes "fresh w" and "map pclient qs = [next_client w..<next_client w + length qs]" and "opened w2 = opened w \<union> {next_client w..<next_client w + length qs}"
    and "registry w2 = registry w" and "map (\<lambda>q. (pname q, ptype q)) qs = ks" and "distinct ks" and "\<forall>k \<in> set ks. fst k \<noteq> []"
    and "\<forall>q \<in> set qs. settings w2 (pclient q) = Some (opts (pname q, ptype q))"
  shows "\<exists>s. commit_loop qs (registry w2) = (Val (), s) \<and> settled ks opts w (Val (), w2\<lparr>registry := s\<rparr>)"
proof -
  have names: "\<forall>p \<in> set qs. pname p \<noteq> []" and dk: "distinct (map (\<lambda>q. (pname q, ptype q)) qs)" using assms(5-7) by auto
  obtain s where s: "commit_loop qs (registry w2) = (Val (), s)" "\<forall>p \<in> set qs. vals s (pname p, ptype p) = Some (Some (pclient p))"
    "\<forall>k. k \<notin> (\<lambda>p. (pname p, ptype p)) ` set qs \<longrightarrow> vals s k = vals (registry w2) k" using commit_loop_spec [OF names dk] by blast
  have ks: "(\<lambda>p. (pname p, ptype p)) ` set qs = set ks" using assms(5) by (metis set_map)
  have "distinct (map pclient qs)" using assms(2) by simp
  then obtain client where cl: "inj_on client (set ks)" "\<forall>p \<in> set qs. client (pname p, ptype p) = pclient p" using client_of_key [OF dk, of pclient] ks by auto
  have "client ` set ks = pclient ` set qs" unfolding ks [symmetric] image_image using cl(2) by simp
  then have im: "client ` set ks = {next_client w..<next_client w + length qs}" using assms(2) by (metis set_map set_upt)
  have v: "\<forall>k \<in> set ks. vals s k = Some (Some (client k))" unfolding ks [symmetric] using s(2) cl(2) by simp
  have o: "\<forall>k \<in> set ks. settings w2 (client k) = Some (opts k)" unfolding ks [symmetric] using assms(8) cl(2) by simp
  have "{next_client w..<next_client w + length qs} \<inter> opened w = {}" using assms(1) by (auto simp: fresh_def)
  then have "settled ks opts w (Val (), w2\<lparr>registry := s\<rparr>)"
    unfolding settled_def using s(3) ks cl(1) im v o assms(3,4) by (auto intro!: exI [of _ client])
  then show ?thesis using s(1) by blast
qed

definition configured :: "parsers \<Rightarrow> Config \<Rightarrow> string \<times> nat \<Rightarrow> client_options" where
  "configured P c k = (if snd k = mqType then mq_options P (get (MQ c) (fst k)) else data_options P (get (Data c) (fst k)))"

lemma init_clients_settles:
  assumes "validateConfig P c = None" and "distinct (client_keys c)" and "fresh w"
  shows "settled (client_keys c) (configured P c) w (init_clients P data_answer mq_answer c w)"
proof -
  note V = validated [OF assms(1)]
  let ?dt = "\<lambda>n. data_type (DType (get (Data c) n))"
  let ?fd = "\<lambda>n. prepareData P (data_answer n) n (get (Data c) n)" and ?fm = "\<lambda>n. prepareMQ P (mq_answer n) n (get (MQ c) n)"
  let ?od = "\<lambda>n. data_options P (get (Data c) n)" and ?om = "\<lambda>n. mq_options P (get (MQ c) n)"
  obtain ps r1 w1 where l1: "prepare_loop ?fd (sortedMapKeys (Data c)) [] w = (ps, r1, w1)" by (rule prod_cases3)
  have pd: "\<forall>n \<in> set (sortedMapKeys (Data c)). prepares (?fd n) (?dt n) (?od n) n" using V(1) data_prepares by blast
  have pm: "\<forall>n \<in> set (sortedMapKeys (MQ c)). prepares (?fm n) mqType (?om n) n" using V(2) mq_prepares by blast
  have s1: "r1 \<noteq> Panic" "registry w1 = registry w" "map pclient ps = [next_client w..<next_client w + length ps]"
    "opened w1 = opened w \<union> {next_client w..<next_client w + length ps}" "\<forall>q \<in> set ps. settings w1 (pclient q) = Some (?od (pname q))"
    "r1 = Val () \<Longrightarrow> fresh w1 \<and> next_client w1 = next_client w + length ps \<and> map (\<lambda>q. (pname q, ptype q)) ps = map (\<lambda>n. (n, ?dt n)) (sortedMapKeys (Data c))"
    using prepare_loop_spec [OF pd assms(3) l1] by auto
  show ?thesis
  proof (cases r1)
    case (Err e)
    then show ?thesis using l1 rollback_settles [OF assms(3) s1(3,4,2)] by (simp add: init_clients_def)
  next
    case (Val u)
    obtain qs r2 w2 where l2: "prepare_loop ?fm (sortedMapKeys (MQ c)) ps w1 = (qs, r2, w2)" by (rule prod_cases3)
    have f1: "fresh w1" "next_client w1 = next_client w + length ps" "map (\<lambda>q. (pname q, ptype q)) ps = map (\<lambda>n. (n, ?dt n)) (sortedMapKeys (Data c))" using s1(6) Val by auto
    obtain rs where rs: "qs = ps @ rs" "r2 \<noteq> Panic" "registry w2 = registry w1" "map pclient rs = [next_client w1..<next_client w1 + length rs]"
      "opened w2 = opened w1 \<union> {next_client w1..<next_client w1 + length rs}"
      "\<forall>i < next_client w1. settings w2 i = settings w1 i" "\<forall>q \<in> set rs. settings w2 (pclient q) = Some (?om (pname q))"
      "r2 = Val () \<Longrightarrow> map (\<lambda>q. (pname q, ptype q)) rs = map (\<lambda>n. (n, mqType)) (sortedMapKeys (MQ c))"
      using prepare_loop_spec [OF pm f1(1) l2] by auto
    have q: "map pclient qs = [next_client w..<next_client w + length qs]"
      using s1(3) rs(1,4) f1(2) by (simp add: upt_add_eq_append [of "next_client w" "next_client w + length ps" "length rs"] flip: add.assoc)
    have op: "opened w2 = opened w \<union> {next_client w..<next_client w + length qs}" using rs(1,5) s1(4) f1(2) by auto
    have reg: "registry w2 = registry w" using rs(3) s1(2) by simp
    show ?thesis
    proof (cases r2)
      case (Err e)
      then show ?thesis using l1 l2 \<open>r1 = Val u\<close> rollback_settles [OF assms(3) q op reg] by (simp add: init_clients_def)
    next
      case (Val v)
      have keys: "map (\<lambda>q. (pname q, ptype q)) qs = client_keys c" using f1(3) rs(1,8) Val by (simp add: client_keys_def)
      have "settings w2 (pclient x) = Some (configured P c (pname x, ptype x))" if "x \<in> set qs" for x
      proof (cases "x \<in> set ps")
        case True
        have "pclient x \<in> set (map pclient ps)" "(pname x, ptype x) \<in> set (map (\<lambda>q. (pname q, ptype q)) ps)" using True by auto
        then have "pclient x < next_client w1" "ptype x = ?dt (pname x)" unfolding s1(3) f1(2,3) by auto
        then show ?thesis using True rs(6) s1(5) by (simp add: configured_def data_type_def type_defs split: DataType.splits)
      next
        case False
        then have x: "x \<in> set rs" using rs(1) \<open>x \<in> set qs\<close> by simp
        then have "(pname x, ptype x) \<in> set (map (\<lambda>q. (pname q, ptype q)) rs)" by auto
        then have "ptype x = mqType" using rs(8) Val by auto
        then show ?thesis using x rs(7) by (simp add: configured_def)
      qed
      then have o: "\<forall>x \<in> set qs. settings w2 (pclient x) = Some (configured P c (pname x, ptype x))" by blast
      have "\<forall>k \<in> set (client_keys c). fst k \<noteq> []" using V by (auto simp: client_keys_def)
      then show ?thesis using commit_settles [OF assms(3) q op reg keys assms(2) _ o] l1 l2 \<open>r1 = Val u\<close> Val by (fastforce simp: init_clients_def)
    qed (use rs(2) in simp)
  qed (use s1(1) in simp)
qed

text \<open>
  Initialisation is all or nothing (C32). \<open>Init\<close> never panics, whatever the configuration and the answers of the servers. When it returns an error, the
  registry is as before and no client it opened is left open. When it returns nil, every configured name is registered, under a key that
  was free, with an open client of its own, built from the options of its configuration, and nothing else has changed.
\<close>

theorem init_all_or_nothing:
  assumes "distinct (map fst (Data c))" and "distinct (map fst (MQ c))" and "fresh w"
  shows "case Init P data_answer mq_answer ctx c w of
       (Panic, w') \<Rightarrow> False
     | (Err e, w') \<Rightarrow> registry w' = registry w \<and> opened w' = opened w
     | (Val _, w') \<Rightarrow>
         (\<forall>k. k \<notin> set (client_keys c) \<longrightarrow> vals (registry w') k = vals (registry w) k)
         \<and> (\<exists>client. inj_on client (set (client_keys c)) \<and> client ` set (client_keys c) \<inter> opened w = {}
              \<and> opened w' = opened w \<union> client ` set (client_keys c)
              \<and> (\<forall>k \<in> set (client_keys c). vals (registry w) k = None \<and> vals (registry w') k = Some (Some (client k))
                    \<and> settings w' (client k) = Some (configured P c k)))"
proof (cases "ctx \<and> validateConfig P c = None \<and> validateResourcesAvailable c (registry w) = None")
  case True
  have "vals (registry w) k = None" if "k \<in> set (client_keys c)" for k
    using available_None [of c "registry w" k] validated [of P c "fst k"] True that by (auto simp: client_keys_def)
  then show ?thesis
    using init_clients_settles [OF _ client_keys_distinct [OF assms(1,2)] assms(3), of P data_answer mq_answer] True
    by (auto simp: Init_def settled_def split: prod.splits go.splits)
qed (cases ctx; cases "validateConfig P c"; cases "validateResourcesAvailable c (registry w)"; simp add: Init_def)

definition demo_parsers :: parsers where
  "demo_parsers = \<lparr>mysql_ParseDSN = (\<lambda>_. True), pgx_ParseConfig = (\<lambda>_. True), redis_ParseURL = (\<lambda>_. None), redis_ParseClusterURL = (\<lambda>_. None), url_Parse = (\<lambda>_. None)\<rparr>"

definition demo_infra :: Config where
  "demo_infra = \<lparr>Data = [(''db'', \<lparr>DType = DataTypeMySQL, DSN = ''dsn'', SkipCheck = False, CheckTimeout = 0, SQL = None, Redis = None, Elasticsearch = None\<rparr>)], MQ = []\<rparr>"

definition demo_world :: world where
  "demo_world = \<lparr>registry = empty_resources, opened = {}, settings = Map.empty, next_client = 0\<rparr>"

theorem init_all_or_nothing_witness:
  "\<exists>w' i. Init demo_parsers (\<lambda>_. \<lparr>created = True, reachable = True, delivery_limit = None\<rparr>) (\<lambda>_. \<lparr>created = True, reachable = True, delivery_limit = None\<rparr>) True demo_infra demo_world
       = (Val (), w') \<and> vals (registry w') (''db'', sqlType) = Some (Some i) \<and> opened w' = {i}
     \<and> settings w' i = Some (SQLClient ''mysql'' ''dsn'' [])"
proof -
  let ?a = "\<lambda>_ :: string. \<lparr>created = True, reachable = True, delivery_limit = None\<rparr>"
  let ?r = "Init demo_parsers ?a ?a True demo_infra demo_world"
  have trim: "TrimSpace ''db'' = ''db''" "TrimSpace ''dsn'' = ''dsn''" by (simp_all add: TrimSpace_plain byte_def is_space_def)
  have keys: "client_keys demo_infra = [(''db'', sqlType)]" by (simp add: client_keys_def demo_infra_def sortedMapKeys_def get_def data_type_def)
  have "fst ?r = Val ()"
    by (simp add: Init_def validateConfig_def validateResourceName_def validateDataConfig_def validateDataNestedConfig_def validateSQLConfig_def validateResourcesAvailable_def
        dataResourceExists_def Get_def empty_resources_def init_clients_def prepareData_def prepareSQL_def connect_def Set_def demo_infra_def demo_parsers_def demo_world_def
        sortedMapKeys_def get_def trim Let_def)
  then obtain w' where r: "?r = (Val (), w')" by (metis prod.collapse)
  have "distinct (map fst (Data demo_infra)) \<and> distinct (map fst (MQ demo_infra)) \<and> fresh demo_world" by (simp add: demo_infra_def demo_world_def fresh_def)
  then obtain client where "opened w' = opened demo_world \<union> client ` set (client_keys demo_infra)" 
      "\<forall>k \<in> set (client_keys demo_infra). vals (registry demo_world) k = None \<and> vals (registry w') k = Some (Some (client k))
      \<and> settings w' (client k) = Some (configured demo_parsers demo_infra k)"
    using init_all_or_nothing [of demo_infra demo_world demo_parsers ?a ?a True] r by auto
  then have "vals (registry w') (''db'', sqlType) = Some (Some (client (''db'', sqlType))) \<and> opened w' = {client (''db'', sqlType)}
      \<and> settings w' (client (''db'', sqlType)) = Some (configured demo_parsers demo_infra (''db'', sqlType))"
    using keys by (simp add: demo_world_def)
  moreover have "configured demo_parsers demo_infra (''db'', sqlType) = SQLClient ''mysql'' ''dsn'' []"
    by (simp add: configured_def type_defs data_options_def demo_infra_def get_def sql_settings_def)
  ultimately show ?thesis using r by auto
qed

end
