(* ===== verification/Kc_Gen_Text.thy ===== *)
theory Kc_Gen_Text
  imports "HOL-Library.Sublist" Kc_Path Kc_Redis_Message Kc_Sqlxgen
begin

text \<open>
  The texts the generator \<open>sqlxgen\<close> reads, \<open>src/internal/sqlxgen/tags.go\<close> and \<open>sqlfile.go\<close>: options in struct tags, files with named SQL blocks,
  and the named parameters of a query. The lexical rules for parameters are also given as a relation between texts and tokens.
\<close>

datatype gen_error =
    NoTypes | BadLoad | DuplicateTable | DuplicateIndex | PointerModel
  | EmptyOption | DuplicateOption | UnsupportedOption | MissingTable | BadIdentifier | BadReference | NoPrimaryKey | AutoKeyShape | DuplicateFieldName | MixedIndex
  | UnexportedColumn | MissingTag | DuplicateColumn | TwoAutos | AutoNotInteger | AutoTooWide
  | NullAndNotNull | BadPositive | BadScale | BadOnDelete | SetNullNotNull | AutoWithoutKey | NullableKey | AutoWithDefault | KeyWithDefault | OnDeleteAlone | FlagWithValue
  | MissingFile | ReadFailed | EmptyBlock | DuplicateBlock | StrayContent | NoBlock | UnusedBlock
  | UnterminatedQuote | UnterminatedComment | BadSignature | NoContext | NotAStruct | ParameterTag | ParameterMismatch | BadResult | NeedsOverride

section \<open>Splitting\<close>

text \<open>\<open>strings.Split\<close>, \<open>strings.Cut\<close> and \<open>strings.Join\<close> for a separator of one byte.\<close>

fun Split :: "char \<Rightarrow> string \<Rightarrow> string list" where
  "Split c [] = [[]]"
| "Split c (x # s) = (if x = c then [] # Split c s else (case Split c s of [] \<Rightarrow> [[x]] | w # ws \<Rightarrow> (x # w) # ws))"

definition Cut :: "char \<Rightarrow> string \<Rightarrow> string \<times> string \<times> bool" where
  "Cut c s = (takeWhile (\<lambda>x. x \<noteq> c) s, drop 1 (dropWhile (\<lambda>x. x \<noteq> c) s), c \<in> set s)"

fun join_with :: "string \<Rightarrow> string list \<Rightarrow> string" where
  "join_with p [] = []"
| "join_with p [w] = w"
| "join_with p (w # v # ws) = w @ p @ join_with p (v # ws)"

definition HasSuffix :: "string \<Rightarrow> string \<Rightarrow> bool" where
  "HasSuffix s p \<longleftrightarrow> length p \<le> length s \<and> drop (length s - length p) s = p"

definition TrimSuffix :: "string \<Rightarrow> string \<Rightarrow> string" where
  "TrimSuffix s p = (if HasSuffix s p then take (length s - length p) s else s)"

definition HasPrefix :: "string \<Rightarrow> string \<Rightarrow> bool" where
  "HasPrefix s p \<longleftrightarrow> take (length p) s = p"

lemma Split_ne [simp]: "Split c s \<noteq> []"
  by (cases s) (auto split: list.splits)

lemma Split_none: "c \<notin> set s \<Longrightarrow> Split c s = [s]"
  by (induction s) auto

lemma Split_append: "c \<notin> set s \<Longrightarrow> Split c (s @ c # t) = s # Split c t"
  by (induction s) auto

lemma Split_join: "ws \<noteq> [] \<Longrightarrow> \<forall>w \<in> set ws. c \<notin> set w \<Longrightarrow> Split c (join_with [c] ws) = ws"
  by (induction ws rule: induct_list012) (simp_all add: Split_none Split_append)

lemma join_Split: "join_with [c] (Split c s) = s"
proof (induction s)
  case (Cons x s)
  obtain w ws where "Split c s = w # ws" by (meson Split_ne list.exhaust)
  then show ?case using Cons by (cases ws) auto
qed simp

text \<open>Trimming ASCII text.\<close>

lemma TrimSpace_ascii:
  assumes "list_all (\<lambda>c. byte c < 128) s"
  shows "TrimSpace s = rev (dropWhile (\<lambda>c. is_space (byte c)) (rev (dropWhile (\<lambda>c. is_space (byte c)) s)))"
proof -
  have r: "runes s = map (\<lambda>c. [c]) s" using assms runes_ascii [of s] by (simp add: list_all_iff)
  have d: "dropWhile space_rune (map (\<lambda>c. [c]) t) = map (\<lambda>c. [c]) (dropWhile (\<lambda>c. is_space (byte c)) t)" if "list_all (\<lambda>c. byte c < 128) t" for t
    using that by (induction t) (auto simp: space_rune_ascii)
  have t: "list_all (\<lambda>c. byte c < 128) (rev (dropWhile (\<lambda>c. is_space (byte c)) s))" using assms by (auto simp: list_all_iff dest: set_dropWhileD)
  have c: "concat (map (\<lambda>c. [c]) t) = t" for t :: string by (induction t) auto
  show ?thesis unfolding TrimSpace_def r d [OF assms] rev_map d [OF t] by (rule c)
qed

section \<open>Options\<close>

text \<open>A Go map as its entries in the order of insertion, with distinct keys. Reading an absent key gives the zero value.\<close>

type_synonym options = "(string \<times> string) list"

definition opt :: "options \<Rightarrow> string \<Rightarrow> string" where
  "opt m k = (case map_of m k of None \<Rightarrow> [] | Some v \<Rightarrow> v)"

fun parse_items :: "string list \<Rightarrow> options \<Rightarrow> gen_error + options" where
  "parse_items [] m = Inr m"
| "parse_items (raw # is) m =
     (let item = TrimSpace raw in
      if item = [] then parse_items is m
      else
        let (k, v, found) = Cut CHR ''='' item; key = TrimSpace k in
        if key = [] then Inl EmptyOption
        else if map_of m key \<noteq> None then Inl DuplicateOption
        else parse_items is (m @ [(key, TrimSpace (if found then v else ''true''))]))"

definition parseOptions :: "string \<Rightarrow> gen_error + options" where
  "parseOptions raw = parse_items (Split CHR '';'' raw) []"

text \<open>The tags of a field as key and value pairs; \<open>reflect.StructTag.Get\<close> returns the first match.\<close>

definition tag_Get :: "(string \<times> string) list \<Rightarrow> string \<Rightarrow> string" where
  "tag_Get tag k = opt tag k"

definition tagOptions :: "(string \<times> string) list \<Rightarrow> gen_error + options" where
  "tagOptions tag = parseOptions (tag_Get tag ''sqlxgen'')"

definition parsePositiveInt :: "options \<Rightarrow> string \<Rightarrow> gen_error + int" where
  "parsePositiveInt m k =
     (if opt m k = [] then Inr 0
      else case ParseInt (opt m k) of
        None \<Rightarrow> Inl BadPositive
      | Some v \<Rightarrow> if v \<le> 0 then Inl BadPositive else Inr v)"

definition validateIdentifier :: "string \<Rightarrow> gen_error option" where
  "validateIdentifier value = (if identifierPattern value then None else Some BadIdentifier)"

definition validateQualifiedReference :: "string \<Rightarrow> gen_error option" where
  "validateQualifiedReference value =
     (let (table, columnPart, found) = Cut CHR ''('' value in
      if \<not> found \<or> \<not> HasSuffix columnPart '')'' then Some BadReference
      else if list_ex (\<lambda>part. validateIdentifier part \<noteq> None) (Split CHR ''.'' table) then Some BadIdentifier
      else validateIdentifier (TrimSuffix columnPart '')''))"

section \<open>Files with named SQL blocks\<close>

text \<open>White space in Go's regular expressions.\<close>

definition re_space :: "char \<Rightarrow> bool" where
  "re_space c \<longleftrightarrow> byte c \<in> {9, 10, 12, 13, 32}"

text \<open>The name in a line that matches \<open>sqlNamePattern\<close>.\<close>

definition sql_name :: "string \<Rightarrow> string option" where
  "sql_name line =
     (let a = dropWhile re_space line; b = dropWhile re_space (drop 2 a); c = dropWhile re_space (drop 5 b);
          name = takeWhile ident_char c; rest = drop (length name) c in
      if HasPrefix a ''--'' \<and> HasPrefix b ''name:'' \<and> identifierPattern name \<and> list_all re_space rest then Some name else None)"

definition flush :: "string \<Rightarrow> string list \<Rightarrow> options \<Rightarrow> gen_error + options" where
  "flush current lines blocks =
     (if current = [] then Inr blocks
      else
        let query = TrimSpace (join_with [CHR 0x0A] lines) in
        if query = [] then Inl EmptyBlock
        else if map_of blocks current \<noteq> None then Inl DuplicateBlock
        else Inr (blocks @ [(current, query)]))"

fun sql_lines :: "string list \<Rightarrow> string \<Rightarrow> string list \<Rightarrow> options \<Rightarrow> gen_error + options" where
  "sql_lines [] current lines blocks = flush current lines blocks"
| "sql_lines (line # rest) current lines blocks =
     (case sql_name line of
        Some name \<Rightarrow>
          (case flush current lines blocks of
             Inl e \<Rightarrow> Inl e
           | Inr blocks' \<Rightarrow> sql_lines rest name [] blocks')
      | None \<Rightarrow>
          if current = [] then
            (if TrimSpace line \<noteq> [] \<and> \<not> HasPrefix (TrimSpace line) ''--'' then Inl StrayContent else sql_lines rest current lines blocks)
          else sql_lines rest current (lines @ [line]) blocks)"

text \<open>The content of the file, if it can be read.\<close>

definition parseSQLFile :: "string option \<Rightarrow> gen_error + options" where
  "parseSQLFile content =
     (case content of
        None \<Rightarrow> Inl ReadFailed
      | Some text \<Rightarrow> sql_lines (Split CHR 0x0A text) [] [] [])"

section \<open>Named parameters\<close>

text \<open>\<open>unicode.IsLetter\<close> and \<open>unicode.IsDigit\<close> of a byte taken as a code point.\<close>

definition isIdentifierStart :: "char \<Rightarrow> bool" where
  "isIdentifierStart c \<longleftrightarrow> ident_start c \<or> byte c \<in> {170, 181, 186} \<or> (192 \<le> byte c \<and> byte c \<noteq> 215 \<and> byte c \<noteq> 247)"

definition isIdentifierPart :: "char \<Rightarrow> bool" where
  "isIdentifierPart c \<longleftrightarrow> isIdentifierStart c \<or> byte_in 48 57 c"

definition is_quote :: "char \<Rightarrow> bool" where
  "is_quote c \<longleftrightarrow> c = CHR 0x27 \<or> c = CHR 0x22 \<or> c = CHR ''`''"

text \<open>The text after the closing quote; a doubled quote does not close.\<close>

fun skip_quoted :: "char \<Rightarrow> string \<Rightarrow> string option" where
  "skip_quoted q [] = None"
| "skip_quoted q (c # s) =
     (if c = q then (case s of [] \<Rightarrow> Some [] | d # s' \<Rightarrow> if d = q then skip_quoted q s' else Some s)
      else skip_quoted q s)"

text \<open>The text after the first \<open>*/\<close>.\<close>

fun skip_comment :: "string \<Rightarrow> string option" where
  "skip_comment (a # b # s) = (if a = CHR ''*'' \<and> b = CHR ''/'' then Some s else skip_comment (b # s))"
| "skip_comment _ = None"

lemma skip_quoted_shorter: "skip_quoted q s = Some r \<Longrightarrow> length r < length s"
  by (induction q s rule: skip_quoted.induct) (auto split: if_splits list.splits)

lemma skip_comment_shorter: "skip_comment s = Some r \<Longrightarrow> length r < length s"
  by (induction s rule: skip_comment.induct) (auto split: if_splits)

function namedParameters :: "string \<Rightarrow> gen_error + string set" where
  "namedParameters [] = Inr {}"
| "namedParameters (c # s) =
     (if is_quote c then (case skip_quoted c s of None \<Rightarrow> Inl UnterminatedQuote | Some r \<Rightarrow> namedParameters r)
      else if c = CHR ''-'' \<and> s \<noteq> [] \<and> hd s = CHR ''-'' then namedParameters (dropWhile (\<lambda>x. x \<noteq> CHR 0x0A) (tl s))
      else if c = CHR ''/'' \<and> s \<noteq> [] \<and> hd s = CHR ''*'' then (case skip_comment (tl s) of None \<Rightarrow> Inl UnterminatedComment | Some r \<Rightarrow> namedParameters r)
      else if c = CHR '':'' \<and> s \<noteq> [] \<and> hd s = CHR '':'' then namedParameters (tl s)
      else if c = CHR '':'' \<and> s \<noteq> [] \<and> isIdentifierStart (hd s) then
        (case namedParameters (dropWhile isIdentifierPart s) of
           Inl e \<Rightarrow> Inl e
         | Inr ps \<Rightarrow> Inr (insert (takeWhile isIdentifierPart s) ps))
      else namedParameters s)"
  by pat_completeness auto
termination
  by (relation "measure length")
    (auto dest: skip_quoted_shorter skip_comment_shorter simp: le_imp_less_Suc length_dropWhile_le less_Suc_eq_le intro: le_trans [OF length_dropWhile_le])

section \<open>The lexical rules\<close>

datatype sql_token = Quoted char string | LineComment string | BlockComment string | CastSign | Parameter string | Plain char

text \<open>The text is cut into tokens so that no token could be longer or begin earlier.\<close>

inductive lexes :: "string \<Rightarrow> sql_token list \<Rightarrow> bool" where
  lex_end: "lexes [] []"
| lex_quoted: "is_quote q \<Longrightarrow> s = [] \<or> hd s \<noteq> q \<Longrightarrow> lexes s ts \<Longrightarrow> lexes (q # double_quotes q b @ q # s) (Quoted q b # ts)"
| lex_line: "CHR 0x0A \<notin> set b \<Longrightarrow> s = [] \<or> hd s = CHR 0x0A \<Longrightarrow> lexes s ts \<Longrightarrow> lexes (''--'' @ b @ s) (LineComment b # ts)"
| lex_block: "\<not> sublist ''*/'' b \<Longrightarrow> lexes s ts \<Longrightarrow> lexes (''/*'' @ b @ ''*/'' @ s) (BlockComment b # ts)"
| lex_cast: "lexes s ts \<Longrightarrow> lexes (''::'' @ s) (CastSign # ts)"
| lex_parameter: "isIdentifierStart c \<Longrightarrow> list_all isIdentifierPart n \<Longrightarrow> s = [] \<or> \<not> isIdentifierPart (hd s) \<Longrightarrow> lexes s ts
    \<Longrightarrow> lexes (CHR '':'' # (c # n) @ s) (Parameter (c # n) # ts)"
| lex_plain: "\<not> is_quote c \<Longrightarrow> \<not> (c = CHR ''-'' \<and> s \<noteq> [] \<and> hd s = CHR ''-'') \<Longrightarrow> \<not> (c = CHR ''/'' \<and> s \<noteq> [] \<and> hd s = CHR ''*'')
    \<Longrightarrow> \<not> (c = CHR '':'' \<and> s \<noteq> [] \<and> (hd s = CHR '':'' \<or> isIdentifierStart (hd s))) \<Longrightarrow> lexes s ts \<Longrightarrow> lexes (c # s) (Plain c # ts)"

definition parameters :: "sql_token list \<Rightarrow> string set" where
  "parameters ts = {n. Parameter n \<in> set ts}"

lemma parameters_simps [simp]:
  "parameters [] = {}"
  "parameters (Parameter n # ts) = insert n (parameters ts)"
  "parameters (Quoted q b # ts) = parameters ts" "parameters (LineComment b # ts) = parameters ts" "parameters (BlockComment b # ts) = parameters ts"
  "parameters (CastSign # ts) = parameters ts" "parameters (Plain c # ts) = parameters ts"
  by (auto simp: parameters_def)

lemma double_quotes_simps [simp]:
  "double_quotes q [] = []" "double_quotes q (c # s) = (if c = q then [q, q] else [c]) @ double_quotes q s"
  by (simp_all add: double_quotes_def)

lemma skip_quoted_double: "s = [] \<or> hd s \<noteq> q \<Longrightarrow> skip_quoted q (double_quotes q b @ q # s) = Some s"
  by (induction b) (auto split: list.splits)

lemma skip_quoted_SomeD: "skip_quoted q s = Some r \<Longrightarrow> \<exists>b. s = double_quotes q b @ q # r \<and> (r = [] \<or> hd r \<noteq> q)"
proof (induction q s rule: skip_quoted.induct)
  case (2 q c s)
  show ?case
  proof (cases "c = q")
    case True
    show ?thesis
    proof (cases s)
      case (Cons d s')
      show ?thesis
      proof (cases "d = q")
        case True
        then obtain b where "s' = double_quotes q b @ q # r \<and> (r = [] \<or> hd r \<noteq> q)" using 2 Cons \<open>c = q\<close> by auto
        then show ?thesis using True Cons \<open>c = q\<close> by (intro exI [of _ "q # b"]) simp
      qed (use 2(3) Cons True in \<open>auto intro!: exI [of _ "[]"]\<close>)
    qed (use 2(3) True in \<open>auto intro!: exI [of _ "[]"]\<close>)
  next
    case False
    then obtain b where "s = double_quotes q b @ q # r \<and> (r = [] \<or> hd r \<noteq> q)" using 2 by auto
    then show ?thesis using False by (intro exI [of _ "c # b"]) simp
  qed
qed simp

lemma skip_comment_first: "\<not> sublist ''*/'' b \<Longrightarrow> skip_comment (b @ ''*/'' @ s) = Some s"
proof (induction b)
  case (Cons c b)
  then have "\<not> sublist ''*/'' b" "\<not> prefix ''*/'' (c # b)" by (auto simp: sublist_Cons_right)
  then show ?case using Cons.IH by (cases b) auto
qed simp

lemma skip_comment_SomeD: "skip_comment s = Some r \<Longrightarrow> \<exists>b. s = b @ ''*/'' @ r \<and> \<not> sublist ''*/'' b"
proof (induction s rule: skip_comment.induct)
  case (1 a b s)
  show ?case
  proof (cases "a = CHR ''*'' \<and> b = CHR ''/''")
    case False
    then obtain x where x: "b # s = x @ ''*/'' @ r" "\<not> sublist ''*/'' x" using 1 by auto
    then have "\<not> prefix ''*/'' (a # x)" using False by (cases x) auto
    then show ?thesis using x by (intro exI [of _ "a # x"]) (auto simp: sublist_Cons_right)
  qed (use 1(2) in \<open>auto intro!: exI [of _ "[]"]\<close>)
qed auto

lemma start_part: "isIdentifierStart c \<Longrightarrow> isIdentifierPart c"
  by (simp add: isIdentifierPart_def)

lemma quote_kinds: "\<not> is_quote CHR ''-''" "\<not> is_quote CHR ''/''" "\<not> is_quote CHR '':''"
  by (simp_all add: is_quote_def)

lemma colon_not_start: "\<not> isIdentifierStart CHR '':''"
  by (simp add: isIdentifierStart_def ident_start_def byte_in_def byte_def)

lemma while_all:
  assumes "list_all P n" and "s = [] \<or> \<not> P (hd s)"
  shows "takeWhile P (n @ s) = n" "dropWhile P (n @ s) = s"
  using assms by (induction n) (cases s; simp)+

lemma lexes_parameters: "lexes q ts \<Longrightarrow> namedParameters q = Inr (parameters ts)"
proof (induction rule: lexes.induct)
  case (lex_quoted q s ts b)
  then show ?case using skip_quoted_double [of s q b] by simp
next
  case (lex_line b s ts)
  have "list_all (\<lambda>x. x \<noteq> CHR 0x0A) b" unfolding list_all_iff using lex_line(1) by (intro ballI notI) simp
  moreover have "s = [] \<or> \<not> hd s \<noteq> CHR 0x0A" using lex_line(2) by simp
  ultimately have "dropWhile (\<lambda>x. x \<noteq> CHR 0x0A) (b @ s) = s" by (rule while_all(2))
  then show ?case using lex_line.IH by (simp add: quote_kinds)
next
  case (lex_block b s ts)
  then show ?case using skip_comment_first [of b s] by (simp add: quote_kinds)
next
  case (lex_parameter c n s ts)
  have "list_all isIdentifierPart (c # n)" using lex_parameter(1,2) start_part by simp
  from while_all [OF this lex_parameter(3)] show ?case using lex_parameter.IH lex_parameter(1) colon_not_start start_part by (auto simp: quote_kinds)
next
  case (lex_plain c s ts)
  then show ?case by auto
qed (simp_all add: quote_kinds)

lemma parameters_lexes: "namedParameters q = Inr ps \<Longrightarrow> \<exists>ts. lexes q ts \<and> parameters ts = ps"
proof (induction q arbitrary: ps rule: namedParameters.induct)
  case 1
  then show ?case using lex_end by auto
next
  case (2 c s)
  consider (quoted) "is_quote c"
    | (line) "\<not> is_quote c" "c = CHR ''-''" "s \<noteq> []" "hd s = CHR ''-''"
    | (block) "c = CHR ''/''" "s \<noteq> []" "hd s = CHR ''*''"
    | (cast) "c = CHR '':''" "s \<noteq> []" "hd s = CHR '':''"
    | (param) "c = CHR '':''" "s \<noteq> []" "isIdentifierStart (hd s)"
    | (plain) "\<not> is_quote c" "\<not> (c = CHR ''-'' \<and> s \<noteq> [] \<and> hd s = CHR ''-'')" "\<not> (c = CHR ''/'' \<and> s \<noteq> [] \<and> hd s = CHR ''*'')"
        "\<not> (c = CHR '':'' \<and> s \<noteq> [] \<and> (hd s = CHR '':'' \<or> isIdentifierStart (hd s)))" by blast
  then show ?case
  proof cases
    case quoted
    then obtain r where r: "skip_quoted c s = Some r" "namedParameters r = Inr ps" using 2(7) by (auto split: option.splits)
    obtain ts where "lexes r ts" "parameters ts = ps" using 2(1) [OF quoted r(1,2)] by blast
    then show ?thesis using skip_quoted_SomeD [OF r(1)] lex_quoted [OF quoted] by (metis parameters_simps(3))
  next
    case line
    let ?b = "takeWhile (\<lambda>x. x \<noteq> CHR 0x0A) (tl s)" and ?r = "dropWhile (\<lambda>x. x \<noteq> CHR 0x0A) (tl s)"
    have "namedParameters ?r = Inr ps" using 2(7) line by simp
    then obtain ts where ts: "lexes ?r ts" "parameters ts = ps" using 2(2) line by blast
    have s: "c # s = ''--'' @ ?b @ ?r" using line by (cases s) auto
    have "CHR 0x0A \<notin> set ?b" "?r = [] \<or> hd ?r = CHR 0x0A" using hd_dropWhile [of "\<lambda>x. x \<noteq> CHR 0x0A" "tl s"] by (auto dest: set_takeWhileD)
    from lex_line [OF this ts(1)] show ?thesis using s ts(2) by (metis parameters_simps(4))
  next
    case block
    then obtain r where r: "skip_comment (tl s) = Some r" "namedParameters r = Inr ps" using 2(7) by (auto simp: quote_kinds split: option.splits)
    obtain ts where ts: "lexes r ts" "parameters ts = ps" using 2(3) [OF _ _ _ r] block by (auto simp: quote_kinds)
    obtain b where b: "tl s = b @ ''*/'' @ r" "\<not> sublist ''*/'' b" using skip_comment_SomeD [OF r(1)] by blast
    have "c # s = ''/*'' @ b @ ''*/'' @ r" using b(1) block by (cases s) auto
    then show ?thesis using lex_block [OF b(2) ts(1)] ts(2) by (metis parameters_simps(5))
  next
    case cast
    then have "namedParameters (tl s) = Inr ps" using 2(7) by (simp add: quote_kinds)
    then obtain ts where ts: "lexes (tl s) ts" "parameters ts = ps" using 2(4) cast by (auto simp: quote_kinds)
    have "c # s = ''::'' @ tl s" using cast by (cases s) auto
    then show ?thesis using lex_cast [OF ts(1)] ts(2) by (metis parameters_simps(6))
  next
    case param
    let ?r = "dropWhile isIdentifierPart s"
    have nc: "hd s \<noteq> CHR '':''" using param(3) colon_not_start by auto
    obtain qs where qs: "namedParameters ?r = Inr qs" "ps = insert (takeWhile isIdentifierPart s) qs"
      using 2(7) param nc by (auto simp: quote_kinds split: sum.splits)
    obtain ts where ts: "lexes ?r ts" "parameters ts = qs" using 2(5) [OF _ _ _ _ _ qs(1)] param nc by (auto simp: quote_kinds)
    obtain d s' where s: "s = d # s'" using param(2) by (cases s) auto
    have d: "isIdentifierStart d" "isIdentifierPart d" using param(3) s start_part by auto
    let ?n = "takeWhile isIdentifierPart s'"
    have n: "list_all isIdentifierPart ?n" by (auto simp: list_all_iff dest: set_takeWhileD)
    have f: "?r = [] \<or> \<not> isIdentifierPart (hd ?r)" using hd_dropWhile by blast
    have "c # s = CHR '':'' # (d # ?n) @ ?r" using s d param(1) by simp
    then show ?thesis using lex_parameter [OF d(1) n f ts(1)] ts(2) qs(2) s d(2) by (metis parameters_simps(2) takeWhile.simps(2))
  next
    case plain
    then have "namedParameters s = Inr ps" using 2(7) by (auto split: if_splits)
    then obtain ts where "lexes s ts" "parameters ts = ps" using 2(6) plain by auto
    then show ?thesis using lex_plain [OF plain] by (metis parameters_simps(7))
  qed
qed

text \<open>
  The parameters of a query (C36). \<open>namedParameters\<close> finds exactly the parameters of the tokens of a query: nothing inside a quoted text, a comment
  or a cast counts, every other colon before a letter does, and it fails on the queries that cannot be cut into tokens.
\<close>

theorem named_parameters_lexical:
  "namedParameters q = Inr ps \<longleftrightarrow> (\<exists>ts. lexes q ts \<and> parameters ts = ps)"
  using lexes_parameters parameters_lexes by blast

section \<open>Reading a file back\<close>

lemma ident_not_space: "ident_char c \<Longrightarrow> \<not> re_space c"
  by (auto simp: ident_char_def ident_start_def byte_in_def re_space_def)

lemma identifier_chars: "identifierPattern n \<Longrightarrow> list_all ident_char n \<and> n \<noteq> []"
  by (cases n) (auto simp: ident_char_def)

lemma sql_name_directive: "identifierPattern n \<Longrightarrow> sql_name (''-- name: '' @ n) = Some n"
proof -
  assume n: "identifierPattern n"
  have c: "list_all ident_char n" "n \<noteq> []" using identifier_chars [OF n] by auto
  have d: "dropWhile re_space n = n" using c ident_not_space by (cases n) auto
  have t: "takeWhile ident_char n = n" using c(1) by (simp add: list_all_iff)
  show ?thesis using n by (simp add: d t sql_name_def Let_def HasPrefix_def re_space_def byte_def)
qed

lemma sql_lines_body:
  assumes "\<forall>l \<in> set ls. sql_name l = None" and "current \<noteq> []"
  shows "sql_lines (ls @ rest) current lines blocks = sql_lines rest current (lines @ ls) blocks"
  using assms(1) by (induction ls arbitrary: lines) (simp_all add: assms(2))

definition comment_line :: "string \<Rightarrow> bool" where
  "comment_line l \<longleftrightarrow> CHR 0x0A \<notin> set l \<and> sql_name l = None \<and> (TrimSpace l = [] \<or> HasPrefix (TrimSpace l) ''--'')"

lemma sql_lines_header: "\<forall>l \<in> set ls. comment_line l \<Longrightarrow> sql_lines (ls @ rest) [] [] blocks = sql_lines rest [] [] blocks"
  by (induction ls) (auto simp: comment_line_def)

definition block_lines :: "string \<times> string \<Rightarrow> string list" where
  "block_lines b = (''-- name: '' @ fst b) # Split CHR 0x0A (snd b)"

definition named_block :: "string \<times> string \<Rightarrow> bool" where
  "named_block b \<longleftrightarrow> identifierPattern (fst b) \<and> snd b \<noteq> [] \<and> TrimSpace (snd b) = snd b \<and> (\<forall>l \<in> set (Split CHR 0x0A (snd b)). sql_name l = None)"

lemma sql_lines_blocks:
  assumes "\<forall>b \<in> set bs. named_block b" and "distinct (map fst bs)" and "flush current lines blocks = Inr m" and "\<forall>b \<in> set bs. fst b \<notin> fst ` set m"
  shows "sql_lines (concat (map block_lines bs)) current lines blocks = Inr (m @ bs)"
  using assms
proof (induction bs arbitrary: current lines blocks m)
  case (Cons b bs)
  obtain n q where b: "b = (n, q)" by (cases b)
  have nb: "identifierPattern n" "q \<noteq> []" "TrimSpace q = q" "\<forall>l \<in> set (Split CHR 0x0A q). sql_name l = None" using Cons.prems(1) b by (auto simp: named_block_def)
  have n0: "n \<noteq> []" using identifier_chars [OF nb(1)] by simp
  have "flush n (Split CHR 0x0A q) m = Inr (m @ [b])" using nb(2,3) n0 Cons.prems(4) b map_of_eq_None_iff [of m n] by (simp add: flush_def join_Split)
  moreover have "\<forall>x \<in> set bs. fst x \<notin> fst ` set (m @ [b])" using Cons.prems(2,4) b by auto
  ultimately have "sql_lines (concat (map block_lines bs)) n (Split CHR 0x0A q) m = Inr (m @ b # bs)"
    using Cons.IH [of n "Split CHR 0x0A q" m "m @ [b]"] Cons.prems(1,2) by simp
  moreover have "concat (map block_lines (b # bs)) = (''-- name: '' @ n) # Split CHR 0x0A q @ concat (map block_lines bs)" using b by (simp add: block_lines_def)
  ultimately show ?case
    using Cons.prems(3) by (simp only: sql_lines.simps sql_name_directive [OF nb(1)] option.case sum.case sql_lines_body [OF nb(4) n0] append_Nil)
qed simp

lemma Split_no_sep: "w \<in> set (Split c s) \<Longrightarrow> c \<notin> set w"
proof (induction s arbitrary: w)
  case (Cons x s)
  obtain v vs where "Split c s = v # vs" by (meson Split_ne list.exhaust)
  then show ?case using Cons by (auto split: if_splits)
qed simp

text \<open>
  Files with SQL blocks read back: comments and blank lines followed by blocks, each a \<open>-- name:\<close> line and a trimmed query over any number of lines, give
  exactly these queries under these names, in this order.
\<close>

theorem sql_file_roundtrip:
  assumes "\<forall>l \<in> set header. comment_line l" and "\<forall>b \<in> set bs. named_block b" and "distinct (map fst bs)"
  shows "parseSQLFile (Some (join_with [CHR 0x0A] (header @ concat (map block_lines bs)))) = Inr bs"
proof -
  let ?ls = "header @ concat (map block_lines bs)"
  have nl: "CHR 0x0A \<notin> set (''-- name: '' @ fst b)" if "b \<in> set bs" for b
    using that assms(2) identifier_chars [of "fst b"] by (auto simp: named_block_def list_all_iff ident_char_def ident_start_def byte_in_def byte_def)
  then have "\<forall>l \<in> set ?ls. CHR 0x0A \<notin> set l" using assms(1) by (auto simp: comment_line_def block_lines_def dest: Split_no_sep)
  then have "sql_lines (Split CHR 0x0A (join_with [CHR 0x0A] ?ls)) [] [] [] = sql_lines ?ls [] [] []"
  proof (cases "?ls = []")
    case True
    have "TrimSpace [] = []" by (simp add: TrimSpace_def)
    then show ?thesis unfolding True by (simp add: sql_name_def Let_def HasPrefix_def)
  qed (simp add: Split_join)
  also have "\<dots> = Inr ([] @ bs)"
    unfolding sql_lines_header [OF assms(1)] by (rule sql_lines_blocks [OF assms(2,3)]) (simp_all add: flush_def)
  finally show ?thesis by (simp add: parseSQLFile_def)
qed

theorem sql_file_roundtrip_witness:
  "parseSQLFile (Some (join_with [CHR 0x0A] (''-- queries'' # block_lines (''Get'', ''SELECT 1'') @ block_lines (''Put'', ''DELETE FROM t'')))) = Inr [(''Get'', ''SELECT 1''), (''Put'', ''DELETE FROM t'')]"
proof -
  have t: "TrimSpace ''SELECT 1'' = ''SELECT 1''" "TrimSpace ''DELETE FROM t'' = ''DELETE FROM t''" "TrimSpace ''-- queries'' = ''-- queries''"
    by (rule TrimSpace_plain; simp add: byte_def is_space_def)+
  have h: "\<forall>l \<in> set [''-- queries'']. comment_line l" by (simp add: comment_line_def t sql_name_def HasPrefix_def Let_def re_space_def byte_def)
  have b: "\<forall>b \<in> set [(''Get'', ''SELECT 1''), (''Put'', ''DELETE FROM t'')]. named_block b"
    by (simp add: named_block_def t sql_name_def HasPrefix_def Let_def re_space_def byte_def ident_start_def ident_char_def byte_in_def)
  show ?thesis using sql_file_roundtrip [OF h b] by simp
qed

end
