(* ===== verification/Kc_Gen_Scan.thy ===== *)
theory Kc_Gen_Scan
  imports "HOL-Library.List_Lexorder" "HOL-Library.Char_ord" Kc_Gen_Text
begin

text \<open>
  Scanning Go packages for models and query interfaces, \<open>src/internal/sqlxgen/scan.go\<close> and \<open>spec.go\<close>. Types are terms; a named type refers to its
  declaration by package and name, and \<open>U\<close> gives the underlying type of a named type, so types may be recursive. Loading packages
  and reading files are arguments.
\<close>

section \<open>Go types\<close>

datatype basic =
    Bool | IntKind | Int8 | Int16 | Int32 | Int64 | Uint | Uint8 | Uint16 | Uint32 | Uint64 | Uintptr
  | Float32 | Float64 | Complex64 | Complex128 | String | UnsafePointer

text \<open>A package is its path and its name; types of the universe have none. \<open>Opaque\<close>: arrays, maps, channels, functions, aliases.\<close>

datatype gotype =
    Basic basic
  | Named "(string \<times> string) option" string "gotype list"
  | Pointer gotype
  | Slice gotype
  | Struct "gofield list"
  | Interface "gomethod list"
  | Opaque
and gofield = Field (Name: string) (Embedded: bool) (Exported: bool) (FieldType: gotype) (Tag: "(string \<times> string) list")
and gomethod = Method (MethodName: string) (Params: "gotype list") (Results: "gotype list")

type_synonym underlying = "(string \<times> string) option \<Rightarrow> string \<Rightarrow> gotype list \<Rightarrow> gotype"

definition Underlying :: "underlying \<Rightarrow> gotype \<Rightarrow> gotype" where
  "Underlying U t = (case t of Named p n as \<Rightarrow> U p n as | _ \<Rightarrow> t)"

definition Elem :: "gotype \<Rightarrow> gotype" where
  "Elem t = (case t of Pointer e \<Rightarrow> e | _ \<Rightarrow> t)"

definition basicKind :: "underlying \<Rightarrow> gotype \<Rightarrow> basic option" where
  "basicKind U t = (case Underlying U t of Basic k \<Rightarrow> Some k | _ \<Rightarrow> None)"

definition runtimePackagePath :: string where
  "runtimePackagePath = ''github.com/project-kgo/kc/pkg/sqlxgen''"

definition generatedFileName :: string where
  "generatedFileName = ''zz_sqlxgen.gen.go''"

definition isModelType :: "gotype \<Rightarrow> bool" where
  "isModelType t \<longleftrightarrow> (case t of Named (Some (p, _)) n _ \<Rightarrow> p = runtimePackagePath \<and> n = ''Model'' | _ \<Rightarrow> False)"

definition underlyingStruct :: "underlying \<Rightarrow> gotype \<Rightarrow> gofield list option" where
  "underlyingStruct U t = (case Underlying U (Elem t) of Struct fs \<Rightarrow> Some fs | _ \<Rightarrow> None)"

definition isErrorType :: "gotype \<Rightarrow> bool" where
  "isErrorType t \<longleftrightarrow> t = Named None ''error'' []"

definition isInt64Type :: "gotype \<Rightarrow> bool" where
  "isInt64Type t \<longleftrightarrow> t = Basic Int64"

definition is_integer :: "basic \<Rightarrow> bool" where
  "is_integer k \<longleftrightarrow> k \<in> {IntKind, Int8, Int16, Int32, Int64, Uint, Uint8, Uint16, Uint32, Uint64, Uintptr}"

definition sql_types :: "(string \<times> gotype) list" where
  "sql_types =
     [(''NullString'', Basic String), (''NullBool'', Basic Bool), (''NullByte'', Basic Uint8), (''NullInt16'', Basic Int16), (''NullInt32'', Basic Int32),
      (''NullInt64'', Basic Int64), (''NullFloat64'', Basic Float64), (''NullTime'', Named (Some (''time'', ''time'')) ''Time'' [])]"

definition nullableValueType :: "gotype \<Rightarrow> gotype \<times> bool" where
  "nullableValueType t =
     (case t of
        Pointer e \<Rightarrow> (e, True)
      | Named (Some (p, _)) n as \<Rightarrow>
          if p = ''database/sql'' then
            (if n = ''Null'' \<and> length as = 1 then (as ! 0, True)
             else case map_of sql_types n of Some v \<Rightarrow> (v, True) | None \<Rightarrow> (t, False))
          else (t, False)
      | _ \<Rightarrow> (t, False))"

datatype FieldKind = FieldOther | FieldString | FieldBool | FieldInteger | FieldFloat | FieldTime | FieldBytes | FieldJSON

definition classify_underlying :: "gotype \<Rightarrow> FieldKind" where
  "classify_underlying t =
     (case t of
        Basic k \<Rightarrow>
          if k = String then FieldString
          else if k = Bool then FieldBool
          else if is_integer k then FieldInteger
          else if k = Float32 \<or> k = Float64 then FieldFloat
          else FieldOther
      | Slice e \<Rightarrow> if e = Basic Uint8 then FieldBytes else FieldOther
      | _ \<Rightarrow> FieldOther)"

definition classifyType :: "underlying \<Rightarrow> gotype \<Rightarrow> FieldKind" where
  "classifyType U t =
     (case t of
        Named (Some (p, _)) n _ \<Rightarrow>
          if p = ''time'' \<and> n = ''Time'' then FieldTime
          else if p = ''encoding/json'' \<and> n = ''RawMessage'' then FieldJSON
          else classify_underlying (Underlying U t)
      | _ \<Rightarrow> classify_underlying (Underlying U t))"

section \<open>Specifications\<close>

record FieldSpec =
  Owner :: string
  GoName :: string
  Access :: string
  ColumnName :: string
  Type :: gotype
  ValueType :: gotype
  Kind :: FieldKind
  Nullable :: bool
  PrimaryKey :: bool
  Auto :: bool
  Size :: int
  Precision :: int
  Scale :: int
  Default :: string
  Index :: string
  Unique :: string
  References :: string
  OnDelete :: string
  MySQLType :: string
  PostgresType :: string

record ModelSpec =
  PackagePath :: string
  ModelName :: string
  Schema :: string
  Table :: string
  Fields :: "FieldSpec list"
  Keys :: "FieldSpec list"
  AutoField :: "FieldSpec option"

datatype CustomMethodMode = CustomExec | CustomRowsAffected | CustomOne | CustomMany

record CustomMethodSpec =
  MethodSpecName :: string
  SQLText :: string
  ParamType :: "gotype option"
  ResultType :: "gotype option"
  Mode :: CustomMethodMode
  IsPointer :: bool

record CustomQuerySpec =
  QueryName :: string
  SQLFile :: string
  Methods :: "CustomMethodSpec list"

record PackageSpec =
  PkgName :: string
  PkgPath :: string
  PkgDir :: string
  Models :: "ModelSpec list"
  CustomQueries :: "CustomQuerySpec list"

section \<open>Fields\<close>

text \<open>
  \<open>strings.ToUpper\<close>. Two letters outside ASCII have an ASCII capital, long s and dotless i; the others become text outside ASCII, and the
  results are only compared with ASCII texts, so they are left as they are.
\<close>

fun ToUpper :: "string \<Rightarrow> string" where
  "ToUpper [] = []"
| "ToUpper [c] = [if byte_in 97 122 c then char_of (byte c - 32) else c]"
| "ToUpper (c # d # s) =
     (if byte c = 197 \<and> byte d = 191 then CHR ''S'' # ToUpper s
      else if byte c = 196 \<and> byte d = 177 then CHR ''I'' # ToUpper s
      else (if byte_in 97 122 c then char_of (byte c - 32) else c) # ToUpper (d # s))"

definition allowed_options :: "string list" where
  "allowed_options =
     [''pk'', ''auto'', ''null'', ''notnull'', ''size'', ''precision'', ''scale'', ''default'', ''index'', ''unique'', ''references'', ''on_delete'',
      ''mysql_type'', ''postgres_type'']"

definition parse_scale :: "options \<Rightarrow> int \<Rightarrow> gen_error + int" where
  "parse_scale m precision =
     (if opt m ''scale'' = [] then Inr 0
      else case ParseInt (opt m ''scale'') of
        None \<Rightarrow> Inl BadScale
      | Some scale \<Rightarrow> if scale < 0 \<or> precision = 0 \<or> scale > precision then Inl BadScale else Inr scale)"

definition nullable_of :: "options \<Rightarrow> bool \<Rightarrow> bool" where
  "nullable_of m nullable = (if opt m ''notnull'' \<noteq> [] then False else if opt m ''null'' \<noteq> [] then True else nullable)"

text \<open>The conditions after the sizes, in the order of the code.\<close>

definition field_conflict :: "options \<Rightarrow> bool \<Rightarrow> gen_error option" where
  "field_conflict m nullable =
     (let onDelete = ToUpper (opt m ''on_delete''); primary = (opt m ''pk'' \<noteq> []); auto = (opt m ''auto'' \<noteq> []) in
      if opt m ''references'' \<noteq> [] \<and> validateQualifiedReference (opt m ''references'') \<noteq> None then validateQualifiedReference (opt m ''references'')
      else if onDelete \<noteq> [] \<and> onDelete \<noteq> ''CASCADE'' \<and> onDelete \<noteq> ''RESTRICT'' \<and> onDelete \<noteq> ''SET NULL'' \<and> onDelete \<noteq> ''NO ACTION'' then Some BadOnDelete
      else if onDelete = ''SET NULL'' \<and> \<not> nullable then Some SetNullNotNull
      else if auto \<and> \<not> primary then Some AutoWithoutKey
      else if primary \<and> nullable then Some NullableKey
      else if auto \<and> opt m ''default'' \<noteq> [] then Some AutoWithDefault
      else if primary \<and> opt m ''default'' \<noteq> [] then Some KeyWithDefault
      else if opt m ''on_delete'' \<noteq> [] \<and> opt m ''references'' = [] then Some OnDeleteAlone
      else if list_ex (\<lambda>k. opt m k \<noteq> [] \<and> opt m k \<noteq> ''true'') [''pk'', ''auto'', ''null'', ''notnull''] then Some FlagWithValue
      else if list_ex (\<lambda>k. opt m k \<noteq> [] \<and> validateIdentifier (opt m k) \<noteq> None) [''index'', ''unique''] then Some BadIdentifier
      else None)"

definition buildField :: "underlying \<Rightarrow> gofield \<Rightarrow> string \<Rightarrow> string list \<Rightarrow> gen_error + FieldSpec" where
  "buildField U f column path =
     (case tagOptions (Tag f) of
        Inl e \<Rightarrow> Inl e
      | Inr m \<Rightarrow>
          if list_ex (\<lambda>k. k \<notin> set allowed_options) (map fst m) then Inl UnsupportedOption
          else if opt m ''null'' \<noteq> [] \<and> opt m ''notnull'' \<noteq> [] then Inl NullAndNotNull
          else
            let (valueType, isNull) = nullableValueType (FieldType f); nullable = nullable_of m isNull in
            case parsePositiveInt m ''size'' of Inl e \<Rightarrow> Inl e | Inr width \<Rightarrow>
            case parsePositiveInt m ''precision'' of Inl e \<Rightarrow> Inl e | Inr precision \<Rightarrow>
            case parse_scale m precision of Inl e \<Rightarrow> Inl e | Inr scale \<Rightarrow>
            case field_conflict m nullable of Some e \<Rightarrow> Inl e | None \<Rightarrow>
            Inr \<lparr>Owner = [], GoName = Name f, Access = join_with ''.'' path, ColumnName = column, Type = FieldType f, ValueType = valueType,
                 Kind = classifyType U valueType, Nullable = nullable, PrimaryKey = opt m ''pk'' \<noteq> [], Auto = opt m ''auto'' \<noteq> [],
                 Size = width, Precision = precision, Scale = scale, Default = opt m ''default'', Index = opt m ''index'', Unique = opt m ''unique'',
                 References = opt m ''references'', OnDelete = ToUpper (opt m ''on_delete''), MySQLType = opt m ''mysql_type'', PostgresType = opt m ''postgres_type''\<rparr>)"

text \<open>One field that is no embedded structure; \<open>seen\<close> are the columns used so far.\<close>

definition add_field :: "underlying \<Rightarrow> gofield \<Rightarrow> string list \<Rightarrow> ModelSpec \<Rightarrow> string list \<Rightarrow> gen_error + ModelSpec \<times> string list" where
  "add_field U f path m seen =
     (let dbTag = tag_Get (Tag f) ''db''; column = hd (Split CHR '','' dbTag) in
      if \<not> Exported f then (if dbTag \<noteq> [] \<and> dbTag \<noteq> ''-'' then Inl UnexportedColumn else Inr (m, seen))
      else if dbTag = ''-'' then Inr (m, seen)
      else if column = [] then Inl MissingTag
      else if validateIdentifier column \<noteq> None then Inl BadIdentifier
      else if column \<in> set seen then Inl DuplicateColumn
      else case buildField U f column (path @ [Name f]) of Inl e \<Rightarrow> Inl e | Inr spec0 \<Rightarrow>
        let spec = spec0\<lparr>Owner := PackagePath m @ ''.'' @ ModelName m\<rparr>;
            m1 = m\<lparr>Fields := Fields m @ [spec], Keys := (if PrimaryKey spec then Keys m @ [spec] else Keys m)\<rparr> in
        if \<not> Auto spec then Inr (m1, column # seen)
        else if AutoField m \<noteq> None then Inl TwoAutos
        else if Kind spec \<noteq> FieldInteger \<or> Nullable spec then Inl AutoNotInteger
        else if basicKind U (ValueType spec) \<in> {Some Uint, Some Uint64, Some Uintptr} then Inl AutoTooWide
        else Inr (m1\<lparr>AutoField := Some spec\<rparr>, column # seen))"

text \<open>The structure to flatten, for an embedded field without a column.\<close>

definition nested_struct :: "underlying \<Rightarrow> gofield \<Rightarrow> gofield list option" where
  "nested_struct U f = (if Embedded f \<and> tag_Get (Tag f) ''db'' = [] then underlyingStruct U (FieldType f) else None)"

text \<open>\<open>fuel\<close> bounds the depth of embedding; \<open>None\<close> is a call that did not return within it.\<close>

fun flattenFields :: "underlying \<Rightarrow> nat \<Rightarrow> gofield list \<Rightarrow> string list \<Rightarrow> ModelSpec \<Rightarrow> string list \<Rightarrow> (gen_error + ModelSpec \<times> string list) option" where
  "flattenFields U fuel [] path m seen = Some (Inr (m, seen))"
| "flattenFields U fuel (f # fs) path m seen =
     (if isModelType (FieldType f) then flattenFields U fuel fs path m seen
      else case nested_struct U f of
        Some nested \<Rightarrow>
          (case fuel of
             0 \<Rightarrow> None
           | Suc n \<Rightarrow>
               (case flattenFields U n nested (path @ [Name f]) m seen of
                  None \<Rightarrow> None
                | Some (Inl e) \<Rightarrow> Some (Inl e)
                | Some (Inr (m1, seen1)) \<Rightarrow> flattenFields U fuel fs path m1 seen1))
      | None \<Rightarrow>
          (case add_field U f path m seen of
             Inl e \<Rightarrow> Some (Inl e)
           | Inr (m1, seen1) \<Rightarrow> flattenFields U fuel fs path m1 seen1))"

section \<open>Models\<close>

text \<open>The tag of the embedded marker, if there is one.\<close>

fun find_marker :: "gofield list \<Rightarrow> gen_error + (string \<times> string) list option" where
  "find_marker [] = Inr None"
| "find_marker (f # fs) =
     (if \<not> Embedded f then find_marker fs
      else if isModelType (FieldType f) then Inr (Some (Tag f))
      else case FieldType f of
        Pointer e \<Rightarrow> if isModelType e then Inl PointerModel else find_marker fs
      | _ \<Rightarrow> find_marker fs)"

text \<open>The names of the indexes of a field, with their kind.\<close>

definition field_indexes :: "FieldSpec \<Rightarrow> (string \<times> bool) list" where
  "field_indexes f = filter (\<lambda>(n, u). n \<noteq> []) [(Index f, False), (Unique f, True)]"

fun check_kinds :: "(string \<times> bool) list \<Rightarrow> (string \<times> bool) list \<Rightarrow> (string \<times> bool) list option" where
  "check_kinds [] kinds = Some kinds"
| "check_kinds ((n, u) # is) kinds =
     (if map_of kinds n = Some (\<not> u) then None else check_kinds is ((n, u) # kinds))"

fun check_fields :: "FieldSpec list \<Rightarrow> string list \<Rightarrow> (string \<times> bool) list \<Rightarrow> gen_error option" where
  "check_fields [] names kinds = None"
| "check_fields (f # fs) names kinds =
     (if GoName f \<in> set names then Some DuplicateFieldName
      else case check_kinds (field_indexes f) kinds of
        None \<Rightarrow> Some MixedIndex
      | Some kinds1 \<Rightarrow> check_fields fs (GoName f # names) kinds1)"

text \<open>\<open>Inr None\<close>: no model.\<close>

definition scanModel :: "underlying \<Rightarrow> nat \<Rightarrow> string \<Rightarrow> string \<Rightarrow> gofield list \<Rightarrow> (gen_error + ModelSpec option) option" where
  "scanModel U fuel pkg name structure =
     (case find_marker structure of Inl e \<Rightarrow> Some (Inl e) | Inr None \<Rightarrow> Some (Inr None) | Inr (Some marker) \<Rightarrow>
      case tagOptions marker of Inl e \<Rightarrow> Some (Inl e) | Inr m \<Rightarrow>
      if opt m ''table'' = [] then Some (Inl MissingTable)
      else if validateIdentifier (opt m ''table'') \<noteq> None then Some (Inl BadIdentifier)
      else if opt m ''schema'' \<noteq> [] \<and> validateIdentifier (opt m ''schema'') \<noteq> None then Some (Inl BadIdentifier)
      else if list_ex (\<lambda>k. k \<noteq> ''table'' \<and> k \<noteq> ''schema'') (map fst m) then Some (Inl UnsupportedOption)
      else
        case flattenFields U fuel structure [] \<lparr>PackagePath = pkg, ModelName = name, Schema = opt m ''schema'', Table = opt m ''table'', Fields = [], Keys = [], AutoField = None\<rparr> [] of
          None \<Rightarrow> None
        | Some (Inl e) \<Rightarrow> Some (Inl e)
        | Some (Inr (model, seen)) \<Rightarrow>
            Some (if Keys model = [] then Inl NoPrimaryKey
                  else if AutoField model \<noteq> None \<and> length (Keys model) \<noteq> 1 then Inl AutoKeyShape
                  else case check_fields (Fields model) [] [] of Some e \<Rightarrow> Inl e | None \<Rightarrow> Inr (Some model)))"

section \<open>Custom queries\<close>

definition looksLikeQuery :: "string \<Rightarrow> bool" where
  "looksLikeQuery query =
     (let upper = ToUpper (TrimSpace query) in HasPrefix upper ''SELECT'' \<or> HasPrefix upper ''WITH'' \<or> sublist '' RETURNING '' upper)"

definition sameStringSet :: "string set \<Rightarrow> string set \<Rightarrow> bool" where
  "sameStringSet a b \<longleftrightarrow> a = b"

text \<open>The parameter names of the fields of the parameter structure.\<close>

fun parameter_names :: "gofield list \<Rightarrow> (gen_error + string set)" where
  "parameter_names [] = Inr {}"
| "parameter_names (f # fs) =
     (if \<not> Exported f then parameter_names fs
      else
        let column = tag_Get (Tag f) ''db'' in
        if column = [] \<or> column = ''-'' then Inl ParameterTag
        else case parameter_names fs of Inl e \<Rightarrow> Inl e | Inr ps \<Rightarrow> Inr (insert (hd (Split CHR '','' column)) ps))"

definition is_context :: "gotype \<Rightarrow> bool" where
  "is_context t \<longleftrightarrow> (case t of Named (Some (_, pkg)) n as \<Rightarrow> pkg = ''context'' \<and> n = ''Context'' \<and> as = [] | _ \<Rightarrow> False)"

definition validateCustomMethod :: "underlying \<Rightarrow> gomethod \<Rightarrow> string \<Rightarrow> gen_error + CustomMethodSpec" where
  "validateCustomMethod U f query =
     (let params = Params f; results = Results f;
          spec = (\<lambda>mode result p. \<lparr>MethodSpecName = MethodName f, SQLText = query, ParamType = (if length params = 2 then Some (params ! 1) else None),
                    ResultType = result, Mode = mode, IsPointer = p\<rparr>) in
      if length params < 1 \<or> length params > 2 then Inl BadSignature
      else if \<not> is_context (params ! 0) then Inl NoContext
      else
        case (if length params = 2 then
                (case underlyingStruct U (params ! 1) of None \<Rightarrow> Inl NotAStruct | Some fs \<Rightarrow> parameter_names fs)
              else Inr {}) of Inl e \<Rightarrow> Inl e | Inr names \<Rightarrow>
        case namedParameters query of Inl e \<Rightarrow> Inl e | Inr found \<Rightarrow>
        if \<not> sameStringSet found names then Inl ParameterMismatch
        else if length results = 1 \<and> isErrorType (results ! 0) then Inr (spec CustomExec None False)
        else if length results \<noteq> 2 \<or> \<not> isErrorType (results ! 1) then Inl BadResult
        else
          let first = results ! 0 in
          if \<not> looksLikeQuery query \<and> isInt64Type first then Inr (spec CustomRowsAffected None False)
          else case first of
            Slice e \<Rightarrow> Inr (spec CustomMany (Some e) False)
          | Pointer e \<Rightarrow> Inr (spec CustomOne (Some e) True)
          | _ \<Rightarrow> Inr (spec CustomOne (Some first) False))"

definition resolvedSQLFile :: "string \<Rightarrow> string \<Rightarrow> string" where
  "resolvedSQLFile dir file = (if file \<noteq> [] \<and> hd file = CHR ''/'' then file else Join [dir, file])"

fun custom_methods :: "underlying \<Rightarrow> gomethod list \<Rightarrow> options \<Rightarrow> gen_error + CustomMethodSpec list \<times> options" where
  "custom_methods U [] blocks = Inr ([], blocks)"
| "custom_methods U (f # fs) blocks =
     (case map_of blocks (MethodName f) of
        None \<Rightarrow> Inl NoBlock
      | Some block \<Rightarrow>
          (case validateCustomMethod U f block of
             Inl e \<Rightarrow> Inl e
           | Inr spec \<Rightarrow>
               (case custom_methods U fs (filter (\<lambda>(n, _). n \<noteq> MethodName f) blocks) of
                  Inl e \<Rightarrow> Inl e
                | Inr (specs, rest) \<Rightarrow> Inr (spec # specs, rest))))"

definition scanCustomQuery :: "underlying \<Rightarrow> (string \<Rightarrow> string option) \<Rightarrow> string \<Rightarrow> string \<Rightarrow> gomethod list \<Rightarrow> string \<Rightarrow> gen_error + CustomQuerySpec" where
  "scanCustomQuery U read_file dir name methods directive =
     (let file = TrimSpace (TrimPrefix directive ''file='') in
      if \<not> HasPrefix directive ''file='' \<or> file = [] then Inl MissingFile
      else case parseSQLFile (read_file (resolvedSQLFile dir file)) of Inl e \<Rightarrow> Inl e | Inr blocks \<Rightarrow>
        case custom_methods U methods blocks of Inl e \<Rightarrow> Inl e | Inr (specs, rest) \<Rightarrow>
        if rest \<noteq> [] then Inl UnusedBlock else Inr \<lparr>QueryName = name, SQLFile = file, Methods = specs\<rparr>)"

text \<open>The comments of the groups, one after the other.\<close>

fun queryDirective :: "string list \<Rightarrow> string" where
  "queryDirective [] = []"
| "queryDirective (c # cs) =
     (let t = TrimSpace (TrimPrefix c ''//'') in
      if HasPrefix t ''sqlxgen:queries '' then TrimSpace (TrimPrefix t ''sqlxgen:queries '') else queryDirective cs)"

section \<open>Packages\<close>

text \<open>A type declaration: its name, the named type it declares, if it does, and its comments.\<close>

record type_decl =
  TypeName :: string
  Declared :: "gotype option"
  Docs :: "string list"

record loaded_package =
  LoadedName :: string
  LoadedPath :: string
  LoadedDir :: string
  HasTypes :: bool
  Syntax :: "(string \<times> type_decl list) list" \<comment> \<open>files, with their names\<close>

fun scan_decls :: "underlying \<Rightarrow> nat \<Rightarrow> (string \<Rightarrow> string option) \<Rightarrow> type_decl list \<Rightarrow> PackageSpec \<Rightarrow> (gen_error + PackageSpec) option" where
  "scan_decls U fuel read_file [] p = Some (Inr p)"
| "scan_decls U fuel read_file (d # ds) p =
     (case Declared d of
        None \<Rightarrow> scan_decls U fuel read_file ds p
      | Some t \<Rightarrow>
          (case Underlying U t of
             Struct fs \<Rightarrow>
               (case scanModel U fuel (PkgPath p) (TypeName d) fs of
                  None \<Rightarrow> None
                | Some (Inl e) \<Rightarrow> Some (Inl e)
                | Some (Inr None) \<Rightarrow> scan_decls U fuel read_file ds p
                | Some (Inr (Some model)) \<Rightarrow> scan_decls U fuel read_file ds (p\<lparr>Models := Models p @ [model]\<rparr>))
           | Interface methods \<Rightarrow>
               (if queryDirective (Docs d) = [] then scan_decls U fuel read_file ds p
                else case scanCustomQuery U read_file (PkgDir p) (TypeName d) methods (queryDirective (Docs d)) of
                  Inl e \<Rightarrow> Some (Inl e)
                | Inr q \<Rightarrow> scan_decls U fuel read_file ds (p\<lparr>CustomQueries := CustomQueries p @ [q]\<rparr>))
           | _ \<Rightarrow> scan_decls U fuel read_file ds p))"

definition scanPackage :: "underlying \<Rightarrow> nat \<Rightarrow> (string \<Rightarrow> string option) \<Rightarrow> (string \<times> type_decl list) list \<Rightarrow> PackageSpec \<Rightarrow> (gen_error + PackageSpec) option" where
  "scanPackage U fuel read_file files p =
     scan_decls U fuel read_file (concat (map snd (filter (\<lambda>(n, _). Base n \<noteq> generatedFileName) files))) p"

definition qualified_name :: "string \<Rightarrow> string \<Rightarrow> string" where
  "qualified_name schema name = schema @ ''.'' @ name"

text \<open>The indexes of a model join those of the models before it; \<open>None\<close>: another model has the name.\<close>

fun add_indexes :: "string \<Rightarrow> string list \<Rightarrow> (string \<times> string) list \<Rightarrow> (string \<times> string) list option" where
  "add_indexes owner [] indexes = Some indexes"
| "add_indexes owner (n # ns) indexes =
     (case map_of indexes n of
        Some previous \<Rightarrow> if previous \<noteq> owner then None else add_indexes owner ns ((n, owner) # indexes)
      | None \<Rightarrow> add_indexes owner ns ((n, owner) # indexes))"

definition index_names :: "ModelSpec \<Rightarrow> string list" where
  "index_names model = map (\<lambda>(n, _). qualified_name (Schema model) n) (concat (map field_indexes (Fields model)))"

fun add_models :: "string \<Rightarrow> ModelSpec list \<Rightarrow> string list \<Rightarrow> (string \<times> string) list \<Rightarrow> gen_error + string list \<times> (string \<times> string) list" where
  "add_models path [] tables indexes = Inr (tables, indexes)"
| "add_models path (model # models) tables indexes =
     (let t = qualified_name (Schema model) (Table model) in
      if t \<in> set tables then Inl DuplicateTable
      else case add_indexes (path @ ''.'' @ ModelName model) (index_names model) indexes of
        None \<Rightarrow> Inl DuplicateIndex
      | Some indexes1 \<Rightarrow> add_models path models (t # tables) indexes1)"

definition HasSuffix_cmd :: "string \<Rightarrow> bool" where
  "HasSuffix_cmd path = HasSuffix path ''/cmd/sqlxgen''"

fun scan_packages :: "underlying \<Rightarrow> nat \<Rightarrow> (string \<Rightarrow> string option) \<Rightarrow> loaded_package list \<Rightarrow> string list \<Rightarrow> (string \<times> string) list \<Rightarrow> PackageSpec list
    \<Rightarrow> (gen_error + PackageSpec list) option" where
  "scan_packages U fuel read_file [] tables indexes result = Some (Inr (sort_key PkgPath result))"
| "scan_packages U fuel read_file (l # ls) tables indexes result =
     (if \<not> HasTypes l \<or> Syntax l = [] \<or> HasSuffix_cmd (LoadedPath l) then scan_packages U fuel read_file ls tables indexes result
      else case scanPackage U fuel read_file (Syntax l) \<lparr>PkgName = LoadedName l, PkgPath = LoadedPath l, PkgDir = LoadedDir l, Models = [], CustomQueries = []\<rparr> of
        None \<Rightarrow> None
      | Some (Inl e) \<Rightarrow> Some (Inl e)
      | Some (Inr p) \<Rightarrow>
          (case add_models (LoadedPath l) (Models p) tables indexes of
             Inl e \<Rightarrow> Some (Inl e)
           | Inr (tables1, indexes1) \<Rightarrow>
               scan_packages U fuel read_file ls tables1 indexes1
                 (if Models p \<noteq> [] \<or> CustomQueries p \<noteq> [] then
                    result @ [p\<lparr>Models := sort_key ModelName (Models p), CustomQueries := sort_key QueryName (CustomQueries p)\<rparr>]
                  else result)))"

text \<open>\<open>loaded\<close>: the packages, if they could be loaded and type-checked.\<close>

definition Scan :: "underlying \<Rightarrow> nat \<Rightarrow> (string \<Rightarrow> string option) \<Rightarrow> loaded_package list option \<Rightarrow> (gen_error + PackageSpec list) option" where
  "Scan U fuel read_file loaded =
     (case loaded of None \<Rightarrow> Some (Inl BadLoad) | Some ls \<Rightarrow> scan_packages U fuel read_file ls [] [] [])"

end
