(* ===== verification/Kc_Gen_Model.thy ===== *)
theory Kc_Gen_Model
  imports "HOL-Library.Multiset" Kc_Gen_Scan
begin

text \<open>
  What \<open>scanModel\<close> guarantees of a model it returns, whatever the structure: safe and distinct column names, a key without nulls and defaults, at most one
  auto column, index names with one kind each. Also when flattening embedded structures ends, and how the mode of a query method is chosen.
\<close>

section \<open>Valid models\<close>

definition wide_unsigned :: "basic option set" where
  "wide_unsigned = {Some Uint, Some Uint64, Some Uintptr}"

definition valid_field :: "underlying \<Rightarrow> FieldSpec \<Rightarrow> bool" where
  "valid_field U f \<longleftrightarrow>
     identifierPattern (ColumnName f) \<and> Kind f = classifyType U (ValueType f)
     \<and> (PrimaryKey f \<longrightarrow> \<not> Nullable f \<and> Default f = [])
     \<and> (Auto f \<longrightarrow> PrimaryKey f \<and> Kind f = FieldInteger \<and> basicKind U (ValueType f) \<notin> wide_unsigned)
     \<and> (References f \<noteq> [] \<longrightarrow> validateQualifiedReference (References f) = None)
     \<and> (OnDelete f \<noteq> [] \<longrightarrow> References f \<noteq> [] \<and> OnDelete f \<in> {''CASCADE'', ''RESTRICT'', ''SET NULL'', ''NO ACTION''})
     \<and> (OnDelete f = ''SET NULL'' \<longrightarrow> Nullable f)
     \<and> 0 \<le> Size f \<and> 0 \<le> Scale f \<and> Scale f \<le> Precision f
     \<and> (Index f \<noteq> [] \<longrightarrow> identifierPattern (Index f)) \<and> (Unique f \<noteq> [] \<longrightarrow> identifierPattern (Unique f))"

definition one_kind :: "(string \<times> bool) list \<Rightarrow> bool" where
  "one_kind is \<longleftrightarrow> (\<forall>n. \<not> ((n, True) \<in> set is \<and> (n, False) \<in> set is))"

definition valid_model :: "underlying \<Rightarrow> ModelSpec \<Rightarrow> bool" where
  "valid_model U m \<longleftrightarrow>
     identifierPattern (Table m) \<and> (Schema m \<noteq> [] \<longrightarrow> identifierPattern (Schema m))
     \<and> (\<forall>f \<in> set (Fields m). valid_field U f) \<and> distinct (map ColumnName (Fields m)) \<and> distinct (map GoName (Fields m))
     \<and> Keys m = filter PrimaryKey (Fields m) \<and> Keys m \<noteq> []
     \<and> (case AutoField m of None \<Rightarrow> filter Auto (Fields m) = [] | Some a \<Rightarrow> filter Auto (Fields m) = [a] \<and> Keys m = [a])
     \<and> one_kind (concat (map field_indexes (Fields m)))"

section \<open>Fields\<close>

lemma parse_scale_bounds: "parse_scale m precision = Inr s \<Longrightarrow> 0 \<le> precision \<Longrightarrow> 0 \<le> s \<and> s \<le> precision"
  by (auto simp: parse_scale_def split: if_splits option.splits)

lemma parsePositiveInt_nonneg: "parsePositiveInt m k = Inr v \<Longrightarrow> 0 \<le> v"
  by (auto simp: parsePositiveInt_def split: if_splits option.splits)

lemma ToUpper_Nil: "ToUpper s = [] \<longleftrightarrow> s = []"
  by (cases s rule: ToUpper.cases) auto

lemma identifier_None: "validateIdentifier s = None \<longleftrightarrow> identifierPattern s"
  by (simp add: validateIdentifier_def)

lemma no_conflict:
  assumes "field_conflict m nullable = None"
  shows "opt m ''references'' \<noteq> [] \<Longrightarrow> validateQualifiedReference (opt m ''references'') = None"
    and "ToUpper (opt m ''on_delete'') \<noteq> [] \<Longrightarrow> opt m ''references'' \<noteq> [] \<and> ToUpper (opt m ''on_delete'') \<in> {''CASCADE'', ''RESTRICT'', ''SET NULL'', ''NO ACTION''}"
    and "ToUpper (opt m ''on_delete'') = ''SET NULL'' \<Longrightarrow> nullable"
    and "opt m ''pk'' \<noteq> [] \<Longrightarrow> \<not> nullable \<and> opt m ''default'' = []" and "opt m ''auto'' \<noteq> [] \<Longrightarrow> opt m ''pk'' \<noteq> []"
    and "opt m ''index'' \<noteq> [] \<Longrightarrow> identifierPattern (opt m ''index'')" and "opt m ''unique'' \<noteq> [] \<Longrightarrow> identifierPattern (opt m ''unique'')"
  using assms by (auto simp: field_conflict_def Let_def ToUpper_Nil identifier_None split: if_splits)

lemma buildField_valid:
  assumes "buildField U f column path = Inr s" and "identifierPattern column"
    and "Auto s \<Longrightarrow> Kind s = FieldInteger \<and> basicKind U (ValueType s) \<notin> wide_unsigned"
  shows "valid_field U (s\<lparr>Owner := x\<rparr>)" "ColumnName s = column"
proof -
  obtain m vt isNull where m: "tagOptions (Tag f) = Inr m" "nullableValueType (FieldType f) = (vt, isNull)"
    using assms(1) by (cases "nullableValueType (FieldType f)") (auto simp: buildField_def split: sum.splits)
  let ?null = "nullable_of m isNull"
  obtain width precision scale where r: "parsePositiveInt m ''size'' = Inr width" "parsePositiveInt m ''precision'' = Inr precision" "parse_scale m precision = Inr scale"
    "field_conflict m ?null = None"
    and s: "s = \<lparr>Owner = [], GoName = Name f, Access = join_with ''.'' path, ColumnName = column, Type = FieldType f, ValueType = vt,
       Kind = classifyType U vt, Nullable = ?null, PrimaryKey = opt m ''pk'' \<noteq> [], Auto = opt m ''auto'' \<noteq> [],
       Size = width, Precision = precision, Scale = scale, Default = opt m ''default'', Index = opt m ''index'', Unique = opt m ''unique'',
       References = opt m ''references'', OnDelete = ToUpper (opt m ''on_delete''), MySQLType = opt m ''mysql_type'', PostgresType = opt m ''postgres_type''\<rparr>"
    using assms(1) m by (auto simp: buildField_def Let_def split: sum.splits option.splits if_splits)
  have nums: "0 \<le> width" "0 \<le> scale" "scale \<le> precision"
    using parsePositiveInt_nonneg [OF r(1)] parse_scale_bounds [OF r(3) parsePositiveInt_nonneg [OF r(2)]] by auto
  note no = no_conflict [OF r(4)]
  show "valid_field U (s\<lparr>Owner := x\<rparr>)"
    unfolding valid_field_def using assms(2,3) nums no(1) no(2) no(3) no(4) no(5) no(6) no(7) by (simp add: s)
  show "ColumnName s = column" by (simp add: s)
qed

text \<open>What flattening has collected.\<close>

definition collected :: "underlying \<Rightarrow> ModelSpec \<Rightarrow> string list \<Rightarrow> bool" where
  "collected U m seen \<longleftrightarrow>
     seen = rev (map ColumnName (Fields m)) \<and> distinct (map ColumnName (Fields m)) \<and> (\<forall>f \<in> set (Fields m). valid_field U f)
     \<and> Keys m = filter PrimaryKey (Fields m) \<and> filter Auto (Fields m) = (case AutoField m of None \<Rightarrow> [] | Some a \<Rightarrow> [a])"

definition same_table :: "ModelSpec \<Rightarrow> ModelSpec \<Rightarrow> bool" where
  "same_table m m1 \<longleftrightarrow> PackagePath m1 = PackagePath m \<and> ModelName m1 = ModelName m \<and> Schema m1 = Schema m \<and> Table m1 = Table m"

lemma add_field_collects:
  assumes "add_field U f path m seen = Inr (m1, seen1)" and "collected U m seen"
  shows "collected U m1 seen1 \<and> same_table m m1"
proof -
  let ?db = "tag_Get (Tag f) ''db''"
  let ?column = "hd (Split CHR '','' ?db)"
  consider "m1 = m \<and> seen1 = seen" | "Exported f" "?db \<noteq> ''-''" "identifierPattern ?column" "?column \<notin> set seen"
    using assms(1) by (auto simp: add_field_def Let_def identifier_None split: if_splits)
  then show ?thesis
  proof cases
    case 2
    then have c: "?column \<noteq> []" by auto
    obtain spec0 where s0: "buildField U f ?column (path @ [Name f]) = Inr spec0"
      using assms(1) 2 c by (auto simp: add_field_def Let_def identifier_None split: sum.splits)
    let ?s = "spec0\<lparr>Owner := PackagePath m @ ''.'' @ ModelName m\<rparr>"
    have auto: "Auto spec0 \<Longrightarrow> AutoField m = None \<and> Kind spec0 = FieldInteger \<and> basicKind U (ValueType spec0) \<notin> wide_unsigned"
      using assms(1) 2 c s0 by (auto simp: add_field_def Let_def identifier_None wide_unsigned_def split: if_splits)
    have v: "valid_field U ?s" "ColumnName spec0 = ?column" using buildField_valid [OF s0 2(3)] auto by blast+
    have "seen1 = ?column # seen" "m1 = m\<lparr>Fields := Fields m @ [?s], Keys := (if PrimaryKey ?s then Keys m @ [?s] else Keys m), AutoField := (if Auto ?s then Some ?s else AutoField m)\<rparr>"
      using assms(1) 2 c s0 by (auto simp: add_field_def Let_def identifier_None split: if_splits)
    then show ?thesis using assms(2) v auto 2(4) by (auto simp: collected_def same_table_def)
  qed (use assms(2) in \<open>simp add: same_table_def\<close>)
qed

lemma flattenFields_collects:
  assumes "flattenFields U fuel fs path m seen = Some (Inr (m1, seen1))" and "collected U m seen"
  shows "collected U m1 seen1 \<and> same_table m m1"
  using assms
proof (induction U fuel fs path m seen arbitrary: m1 seen1 rule: flattenFields.induct)
  case (2 U fuel f fs path m seen)
  show ?case
  proof (cases "isModelType (FieldType f)")
    case False
    show ?thesis
    proof (cases "nested_struct U f")
      case None
      then obtain m2 seen2 where s: "add_field U f path m seen = Inr (m2, seen2)" "flattenFields U fuel fs path m2 seen2 = Some (Inr (m1, seen1))"
        using "2.prems"(1) False by (auto split: sum.splits)
      note a = add_field_collects [OF s(1) "2.prems"(2)]
      have "collected U m1 seen1 \<and> same_table m2 m1" using "2.IH"(2) [OF False None s(1) refl s(2)] a by simp
      then show ?thesis using a by (simp add: same_table_def)
    next
      case (Some nested)
      then obtain n m2 seen2 where s: "fuel = Suc n" "flattenFields U n nested (path @ [Name f]) m seen = Some (Inr (m2, seen2))"
        "flattenFields U fuel fs path m2 seen2 = Some (Inr (m1, seen1))"
        using "2.prems"(1) False by (auto split: nat.splits option.splits sum.splits)
      have a: "collected U m2 seen2 \<and> same_table m m2" using "2.IH"(3) [OF False Some s(1,2) "2.prems"(2)] .
      have "collected U m1 seen1 \<and> same_table m2 m1" using "2.IH"(4) [OF False Some s(1,2) refl refl s(3)] a by simp
      then show ?thesis using a by (simp add: same_table_def)
    qed
  qed (use 2 in simp)
qed (simp add: same_table_def)

section \<open>Models\<close>

lemma one_kind_Cons: "one_kind is \<Longrightarrow> map_of is n \<noteq> Some (\<not> u) \<Longrightarrow> one_kind ((n, u) # is)"
proof -
  assume k: "one_kind is" and u: "map_of is n \<noteq> Some (\<not> u)"
  have "(n, \<not> u) \<notin> set is"
  proof
    assume n: "(n, \<not> u) \<in> set is"
    from weak_map_of_SomeI [OF n] obtain x where x: "map_of is n = Some x" ..
    then have "x = u" "(n, x) \<in> set is" using u map_of_SomeD by auto
    then show False using k n by (cases u) (auto simp: one_kind_def)
  qed
  then show ?thesis using k by (cases u) (auto simp: one_kind_def)
qed

lemma check_kinds_one_kind: "check_kinds is kinds = Some kinds1 \<Longrightarrow> one_kind kinds \<Longrightarrow> one_kind kinds1 \<and> set kinds1 = set is \<union> set kinds"
proof (induction "is" kinds rule: check_kinds.induct)
  case (2 n u "is" kinds)
  have u: "map_of kinds n \<noteq> Some (\<not> u)" "check_kinds is ((n, u) # kinds) = Some kinds1" using "2.prems"(1) by (auto split: if_splits)
  show ?case using "2.IH" [OF u one_kind_Cons [OF "2.prems"(2) u(1)]] by auto
qed simp

lemma check_fields_None:
  "check_fields fs names kinds = None \<Longrightarrow> one_kind kinds
    \<Longrightarrow> distinct (map GoName fs) \<and> GoName ` set fs \<inter> set names = {} \<and> one_kind (concat (map field_indexes fs) @ kinds)"
proof (induction fs names kinds rule: check_fields.induct)
  case (2 f fs names kinds)
  obtain kinds1 where k: "GoName f \<notin> set names" "check_kinds (field_indexes f) kinds = Some kinds1" "check_fields fs (GoName f # names) kinds1 = None"
    using "2.prems"(1) by (auto split: if_splits option.splits)
  have k1: "one_kind kinds1" "set kinds1 = set (field_indexes f) \<union> set kinds" using check_kinds_one_kind [OF k(2) "2.prems"(2)] by auto
  have ih: "distinct (map GoName fs)" "GoName ` set fs \<inter> set (GoName f # names) = {}" "one_kind (concat (map field_indexes fs) @ kinds1)"
    using "2.IH" [OF k k1(1)] by auto
  have "one_kind (concat (map field_indexes (f # fs)) @ kinds)" using ih(3) k1(2) by (auto simp: one_kind_def)
  then show ?case using ih(1,2) k(1) by auto
qed simp

lemma scanModel_valid:
  assumes "scanModel U fuel pkg name structure = Some (Inr (Some m))"
  shows "valid_model U m \<and> PackagePath m = pkg \<and> ModelName m = name"
proof -
  obtain marker o1 seen where m: "find_marker structure = Inr (Some marker)" "tagOptions marker = Inr o1"
    "identifierPattern (opt o1 ''table'')" "opt o1 ''schema'' \<noteq> [] \<Longrightarrow> identifierPattern (opt o1 ''schema'')"
    "flattenFields U fuel structure [] \<lparr>PackagePath = pkg, ModelName = name, Schema = opt o1 ''schema'', Table = opt o1 ''table'', Fields = [], Keys = [], AutoField = None\<rparr> []
       = Some (Inr (m, seen))"
    "Keys m \<noteq> []" "AutoField m = None \<or> length (Keys m) = 1" "check_fields (Fields m) [] [] = None"
    using assms by (auto simp: scanModel_def identifier_None split: sum.splits option.splits if_splits)
  have c: "collected U m seen" "same_table \<lparr>PackagePath = pkg, ModelName = name, Schema = opt o1 ''schema'', Table = opt o1 ''table'', Fields = [], Keys = [], AutoField = None\<rparr> m"
    using flattenFields_collects [OF m(5)] by (auto simp: collected_def)
  have f: "distinct (map GoName (Fields m))" "one_kind (concat (map field_indexes (Fields m)))"
    using check_fields_None [OF m(8)] by (auto simp: one_kind_def)
  have auto: "case AutoField m of None \<Rightarrow> filter Auto (Fields m) = [] | Some a \<Rightarrow> filter Auto (Fields m) = [a] \<and> Keys m = [a]"
  proof (cases "AutoField m")
    case (Some a)
    have fa: "filter Auto (Fields m) = [a]" using c(1) Some by (simp add: collected_def)
    then have "a \<in> set (filter Auto (Fields m))" by simp
    then have "a \<in> set (Fields m)" "Auto a" by auto
    then have "a \<in> set (Keys m)" using c(1) by (auto simp: collected_def valid_field_def)
    moreover have "length (Keys m) = 1" using m(7) Some by simp
    ultimately have "Keys m = [a]" by (cases "Keys m") auto
    then show ?thesis using fa Some by simp
  qed (use c(1) in \<open>simp add: collected_def\<close>)
  show ?thesis using c m(3,4,6) f auto by (auto simp: valid_model_def collected_def same_table_def)
qed

definition demo_structure :: "gofield list" where
  "demo_structure =
     [Field ''Model'' True True (Named (Some (runtimePackagePath, ''sqlxgen'')) ''Model'' []) [(''sqlxgen'', ''table=users'')],
      Field ''Base'' True True (Named (Some (''app'', ''app'')) ''Base'' []) [],
      Field ''Email'' False True (Pointer (Basic String)) [(''db'', ''email''), (''sqlxgen'', ''unique=uk_email'')]]"

definition demo_underlying :: underlying where
  "demo_underlying = (\<lambda>p n as. if n = ''Base'' then Struct [Field ''ID'' False True (Basic Int64) [(''db'', ''id''), (''sqlxgen'', ''pk;auto'')]] else if n = ''User'' then Struct demo_structure else Opaque)"

definition scanned_fields :: "(gen_error + ModelSpec option) option \<Rightarrow> (string \<times> string \<times> (string \<times> string \<times> string) list) option" where
  "scanned_fields r =
     (case r of Some (Inr (Some m)) \<Rightarrow> Some (Schema m, Table m, map (\<lambda>f. (ColumnName f, Index f, Unique f)) (Fields m)) | _ \<Rightarrow> None)"

lemma demo_scanned: "scanned_fields (scanModel demo_underlying 1 ''app'' ''User'' demo_structure) = Some ([], ''users'', [(''id'', [], []), (''email'', [], ''uk_email'')])"
  by (simp add: scanned_fields_def scanModel_def demo_structure_def demo_underlying_def isModelType_def runtimePackagePath_def tagOptions_def parseOptions_def
      tag_Get_def opt_def Let_def Cut_def TrimSpace_ascii byte_def is_space_def identifier_None ident_start_def ident_char_def byte_in_def nested_struct_def
      underlyingStruct_def Underlying_def Elem_def add_field_def buildField_def allowed_options_def nullableValueType_def nullable_of_def parsePositiveInt_def
      parse_scale_def field_conflict_def classifyType_def classify_underlying_def is_integer_def basicKind_def field_indexes_def)

lemma demo_scan:
  obtains m where "scanModel demo_underlying 1 ''app'' ''User'' demo_structure = Some (Inr (Some m))" "Schema m = []" "Table m = ''users''"
    "map (\<lambda>f. (ColumnName f, Index f, Unique f)) (Fields m) = [(''id'', [], []), (''email'', [], ''uk_email'')]"
  using demo_scanned by (auto simp: scanned_fields_def split: option.splits sum.splits)

section \<open>Embedding\<close>

text \<open>The structures embedded in a structure.\<close>

definition embedding :: "underlying \<Rightarrow> (gofield list \<times> gofield list) set" where
  "embedding U = {(hs, gs). \<exists>f \<in> set gs. \<not> isModelType (FieldType f) \<and> nested_struct U f = Some hs}"

lemma flatten_list_returns:
  assumes "\<forall>f \<in> set fs. \<not> isModelType (FieldType f) \<longrightarrow> (\<forall>hs. nested_struct U f = Some hs \<longrightarrow> (\<forall>path m seen. \<exists>n r. \<forall>fuel \<ge> n. flattenFields U fuel hs path m seen = Some r))"
  shows "\<exists>n r. \<forall>fuel \<ge> n. flattenFields U fuel fs path m seen = Some r"
  using assms
proof (induction fs arbitrary: m seen)
  case (Cons f fs)
  have rest: "\<exists>n r. \<forall>fuel \<ge> n. flattenFields U fuel fs path m1 seen1 = Some r" for m1 seen1 using Cons by simp
  show ?case
  proof (cases "isModelType (FieldType f)")
    case False
    show ?thesis
    proof (cases "nested_struct U f")
      case None
      show ?thesis
      proof (cases "add_field U f path m seen")
        case (Inr p)
        then show ?thesis using rest [of "fst p" "snd p"] None False by (cases p) auto
      qed (use None False in auto)
    next
      case (Some hs)
      obtain n r where n: "\<forall>fuel \<ge> n. flattenFields U fuel hs (path @ [Name f]) m seen = Some r" using Cons.prems False Some by (meson list.set_intros(1))
      show ?thesis
      proof (cases r)
        case (Inl e)
        then have "\<forall>fuel \<ge> Suc n. flattenFields U fuel (f # fs) path m seen = Some (Inl e)" using n False Some by (auto simp: Suc_le_eq split: nat.splits)
        then show ?thesis by blast
      next
        case (Inr p)
        obtain n2 r2 where n2: "\<forall>fuel \<ge> n2. flattenFields U fuel fs path (fst p) (snd p) = Some r2" using rest by blast
        then have "\<forall>fuel \<ge> max (Suc n) n2. flattenFields U fuel (f # fs) path m seen = Some r2"
          using n False Some Inr by (cases p) (auto split: nat.splits)
        then show ?thesis by blast
      qed
    qed
  qed (use rest in auto)
qed auto

text \<open>
  Flattening ends. When the structures embedded in a structure, directly or through others, go back to no structure among them, \<open>flattenFields\<close> returns
  for it, and the result does not depend on the depth allowed.
\<close>

theorem flatten_returns:
  assumes "structure \<in> Wellfounded.acc (embedding U)"
  shows "\<exists>n r. \<forall>fuel \<ge> n. flattenFields U fuel structure path m seen = Some r"
  using assms
proof (induction arbitrary: path m seen rule: acc_induct_rule)
  case (1 gs)
  show ?case by (rule flatten_list_returns) (use 1(2) in \<open>unfold embedding_def, blast\<close>)
qed

lemma demo_acc: "demo_structure \<in> Wellfounded.acc (embedding demo_underlying)"
proof -
  let ?base = "[Field ''ID'' False True (Basic Int64) [(''db'', ''id''), (''sqlxgen'', ''pk;auto'')]]"
  have "?base \<in> Wellfounded.acc (embedding demo_underlying)" by (rule accI) (simp add: embedding_def nested_struct_def)
  moreover have "list_all (\<lambda>f. isModelType (FieldType f) \<or> nested_struct demo_underlying f = None \<or> nested_struct demo_underlying f = Some ?base) demo_structure"
    by code_simp
  then have "hs = ?base" if "(hs, demo_structure) \<in> embedding demo_underlying" for hs using that by (auto simp: embedding_def list_all_iff)
  ultimately show ?thesis by (blast intro: accI)
qed

theorem flatten_returns_witness:
  "\<exists>n r. \<forall>fuel \<ge> n. flattenFields demo_underlying fuel demo_structure [] \<lparr>PackagePath = ''app'', ModelName = ''User'', Schema = [], Table = ''users'', Fields = [], Keys = [], AutoField = None\<rparr> [] = Some r"
  by (rule flatten_returns [OF demo_acc])

text \<open>A structure may embed a pointer to itself; then flattening does not return.\<close>

theorem flatten_recursive_pointer:
  assumes "t = Named (Some (''app'', ''app'')) ''Node'' []" and "\<And>p n as. U p n as = Struct [Field ''Node'' True True (Pointer t) []]"
  shows "flattenFields U fuel [Field ''Node'' True True (Pointer t) []] path m seen = None"
proof (induction fuel arbitrary: path m seen)
  case 0
  then show ?case using assms by (simp add: isModelType_def nested_struct_def underlyingStruct_def Elem_def Underlying_def tag_Get_def opt_def)
next
  case (Suc fuel)
  then show ?case using assms by (simp add: isModelType_def nested_struct_def underlyingStruct_def Elem_def Underlying_def tag_Get_def opt_def)
qed

section \<open>Query methods\<close>

text \<open>
  A statement with \<open>RETURNING\<close> on a line of its own is not taken for a query: a method that should return the value of the column is generated to return the number
  of rows.
\<close>

theorem returning_after_newline:
  assumes "query = ''INSERT INTO t VALUES (1)'' @ [CHR 0x0A] @ ''RETURNING id''"
  shows "\<exists>spec. validateCustomMethod U (Method ''Add'' [Named (Some (''context'', ''context'')) ''Context'' []] [Basic Int64, Named None ''error'' []]) query = Inr spec
    \<and> Mode spec = CustomRowsAffected"
proof -
  have "\<not> looksLikeQuery query \<and> namedParameters query = Inr {}" unfolding assms
    by (simp add: looksLikeQuery_def TrimSpace_ascii byte_def is_space_def Let_def HasPrefix_def byte_in_def sublist_Cons_right is_quote_def)
  then show ?thesis by (simp add: validateCustomMethod_def is_context_def sameStringSet_def isErrorType_def isInt64Type_def)
qed

section \<open>All packages\<close>

text \<open>A name has at most one owner.\<close>

definition one_owner :: "(string \<times> string) list \<Rightarrow> bool" where
  "one_owner ix \<longleftrightarrow> (\<forall>n a b. (n, a) \<in> set ix \<longrightarrow> (n, b) \<in> set ix \<longrightarrow> a = b)"

lemma add_indexes_one_owner:
  "add_indexes x ns ix = Some ix1 \<Longrightarrow> one_owner ix \<Longrightarrow> one_owner ix1 \<and> set ix1 = (\<lambda>n. (n, x)) ` set ns \<union> set ix"
proof (induction ns arbitrary: ix)
  case (Cons n ns)
  have "\<forall>b. (n, b) \<in> set ix \<longrightarrow> b = x"
  proof (cases "map_of ix n")
    case None
    then show ?thesis using map_of_eq_None_iff [of ix n] by force
  next
    case (Some a)
    then have "a = x" "(n, a) \<in> set ix" using Cons.prems(1) map_of_SomeD [OF Some] by (auto split: if_splits)
    then show ?thesis using Cons.prems(2) by (auto simp: one_owner_def)
  qed
  then have o: "one_owner ((n, x) # ix)" using Cons.prems(2) by (auto simp: one_owner_def)
  have "add_indexes x ns ((n, x) # ix) = Some ix1" using Cons.prems(1) by (auto split: option.splits if_splits)
  from Cons.IH [OF this o] show ?case by auto
qed simp

definition model_owner :: "ModelSpec \<Rightarrow> string" where
  "model_owner m = PackagePath m @ ''.'' @ ModelName m"

definition owned_indexes :: "ModelSpec list \<Rightarrow> (string \<times> string) set" where
  "owned_indexes ms = (\<Union>m \<in> set ms. (\<lambda>n. (n, model_owner m)) ` set (index_names m))"

definition qualified_table :: "ModelSpec \<Rightarrow> string" where
  "qualified_table m = qualified_name (Schema m) (Table m)"

lemma add_models_spec:
  assumes "add_models path ms tables ix = Inr (tables1, ix1)" and "\<forall>m \<in> set ms. PackagePath m = path" and "distinct tables" and "one_owner ix"
  shows "distinct tables1 \<and> set tables1 = qualified_table ` set ms \<union> set tables \<and> one_owner ix1 \<and> set ix1 = owned_indexes ms \<union> set ix
    \<and> distinct (map qualified_table ms) \<and> qualified_table ` set ms \<inter> set tables = {}"
  using assms
proof (induction path ms tables ix rule: add_models.induct)
  case (2 path m ms tables ix)
  obtain ix2 where s: "qualified_table m \<notin> set tables" "add_indexes (path @ ''.'' @ ModelName m) (index_names m) ix = Some ix2"
    "add_models path ms (qualified_table m # tables) ix2 = Inr (tables1, ix1)"
    using "2.prems"(1) by (auto simp: Let_def qualified_table_def split: if_splits option.splits)
  have i: "one_owner ix2" "set ix2 = (\<lambda>n. (n, model_owner m)) ` set (index_names m) \<union> set ix"
    using add_indexes_one_owner [OF s(2) "2.prems"(4)] "2.prems"(2) by (auto simp: model_owner_def)
  have "distinct tables1 \<and> set tables1 = qualified_table ` set ms \<union> set (qualified_table m # tables) \<and> one_owner ix1 \<and> set ix1 = owned_indexes ms \<union> set ix2
    \<and> distinct (map qualified_table ms) \<and> qualified_table ` set ms \<inter> set (qualified_table m # tables) = {}"
    by (rule "2.IH" [of "qualified_table m"]) (use s i(1) "2.prems" in \<open>auto simp: qualified_table_def\<close>)
  then show ?case using i(2) s(1) by (auto simp: owned_indexes_def)
qed (simp add: owned_indexes_def)

lemma scan_decls_models:
  assumes "scan_decls U fuel read_file ds p = Some (Inr p1)" and "\<forall>m \<in> set (Models p). valid_model U m \<and> PackagePath m = PkgPath p"
  shows "PkgPath p1 = PkgPath p \<and> (\<forall>m \<in> set (Models p1). valid_model U m \<and> PackagePath m = PkgPath p)"
  using assms
proof (induction ds arbitrary: p)
  case (Cons d ds)
  consider "scan_decls U fuel read_file ds p = Some (Inr p1)"
    | q where "scan_decls U fuel read_file ds (p\<lparr>CustomQueries := CustomQueries p @ [q]\<rparr>) = Some (Inr p1)"
    | fs m where "scanModel U fuel (PkgPath p) (TypeName d) fs = Some (Inr (Some m))" "scan_decls U fuel read_file ds (p\<lparr>Models := Models p @ [m]\<rparr>) = Some (Inr p1)"
    using Cons.prems(1) by (cases "Declared d") (auto split: gotype.splits option.splits sum.splits if_splits)
  then show ?case
  proof cases
    case 1
    then show ?thesis using Cons by blast
  next
    case 2
    from Cons.IH [OF 2] show ?thesis using Cons.prems(2) by simp
  next
    case 3
    from Cons.IH [OF 3(2)] show ?thesis using Cons.prems(2) scanModel_valid [OF 3(1)] by auto
  qed
qed simp

definition all_models :: "PackageSpec list \<Rightarrow> ModelSpec list" where
  "all_models ps = concat (map Models ps)"

text \<open>The models of some packages fit together: valid, with tables of their own, and no two of them with an index of one name in one schema.\<close>

definition consistent :: "underlying \<Rightarrow> ModelSpec list \<Rightarrow> bool" where
  "consistent U ms \<longleftrightarrow>
     (\<forall>m \<in> set ms. valid_model U m) \<and> distinct (map qualified_table ms)
     \<and> (\<forall>m \<in> set ms. \<forall>m' \<in> set ms. set (index_names m) \<inter> set (index_names m') \<noteq> {} \<longrightarrow> model_owner m = model_owner m')"

lemma consistent_mset: "mset ms = mset ms' \<Longrightarrow> consistent U ms \<longleftrightarrow> consistent U ms'"
proof -
  assume "mset ms = mset ms'"
  then have "set ms = set ms'" "distinct (map qualified_table ms) = distinct (map qualified_table ms')"
    by (auto dest: mset_eq_setD intro!: mset_eq_imp_distinct_iff)
  then show ?thesis by (simp add: consistent_def)
qed

lemma mset_all_models: "mset (all_models ps) = (\<Sum>p \<in># mset ps. mset (Models p))"
  by (induction ps) (simp_all add: all_models_def)

lemma owned_consistent:
  assumes "\<forall>m \<in> set ms. valid_model U m" and "distinct (map qualified_table ms)" and "one_owner ix" and "owned_indexes ms \<subseteq> set ix"
  shows "consistent U ms"
proof -
  have "model_owner m = model_owner m'" if "m \<in> set ms" "m' \<in> set ms" "n \<in> set (index_names m)" "n \<in> set (index_names m')" for m m' n
  proof -
    have "(n, model_owner m) \<in> set ix" "(n, model_owner m') \<in> set ix" using assms(4) that by (auto simp: owned_indexes_def)
    then show ?thesis using assms(3) by (auto simp: one_owner_def)
  qed
  then show ?thesis using assms(1,2) by (auto simp: consistent_def)
qed

lemma scan_packages_consistent:
  assumes "scan_packages U fuel read_file ls tables ix ps = Some (Inr out)" and "\<forall>m \<in> set (all_models ps). valid_model U m"
    and "distinct (map qualified_table (all_models ps))" and "set tables = qualified_table ` set (all_models ps)" and "distinct tables"
    and "one_owner ix" and "set ix = owned_indexes (all_models ps)"
  shows "consistent U (all_models out)"
  using assms
proof (induction U fuel read_file ls tables ix ps rule: scan_packages.induct)
  case (1 U fuel read_file tables ix ps)
  have "mset (all_models (sort_key PkgPath ps)) = mset (all_models ps)" by (simp add: mset_all_models)
  moreover have "consistent U (all_models ps)" by (rule owned_consistent [OF 1(2,3,6)]) (simp add: 1(7))
  moreover have "out = sort_key PkgPath ps" using 1(1) by simp
  ultimately show ?case using consistent_mset by blast
next
  case (2 U fuel read_file l ls tables ix ps)
  show ?case
  proof (cases "\<not> HasTypes l \<or> Syntax l = [] \<or> HasSuffix_cmd (LoadedPath l)")
    case False
    let ?p0 = "\<lparr>PkgName = LoadedName l, PkgPath = LoadedPath l, PkgDir = LoadedDir l, Models = [], CustomQueries = []\<rparr>"
    obtain p tables1 ix1 where s: "scanPackage U fuel read_file (Syntax l) ?p0 = Some (Inr p)" "add_models (LoadedPath l) (Models p) tables ix = Inr (tables1, ix1)"
      "scan_packages U fuel read_file ls tables1 ix1 (if Models p \<noteq> [] \<or> CustomQueries p \<noteq> [] then
         ps @ [p\<lparr>Models := sort_key ModelName (Models p), CustomQueries := sort_key QueryName (CustomQueries p)\<rparr>] else ps) = Some (Inr out)"
      using "2.prems"(1) False by (auto split: option.splits sum.splits)
    let ?ps = "if Models p \<noteq> [] \<or> CustomQueries p \<noteq> [] then
      ps @ [p\<lparr>Models := sort_key ModelName (Models p), CustomQueries := sort_key QueryName (CustomQueries p)\<rparr>] else ps"
    have v: "\<forall>m \<in> set (Models p). valid_model U m \<and> PackagePath m = LoadedPath l"
      using scan_decls_models [of U fuel read_file _ ?p0 p] s(1) by (auto simp: scanPackage_def)
    have a: "distinct tables1" "set tables1 = qualified_table ` set (Models p) \<union> set tables" "one_owner ix1" "set ix1 = owned_indexes (Models p) \<union> set ix"
      "distinct (map qualified_table (Models p))" "qualified_table ` set (Models p) \<inter> set tables = {}"
      using add_models_spec [OF s(2) _ "2.prems"(5,6)] v by auto
    have m: "mset (all_models ?ps) = mset (all_models ps @ Models p)" by (auto simp: all_models_def)
    have st: "set (all_models ?ps) = set (all_models ps) \<union> set (Models p)" using mset_eq_setD [OF m] by simp
    have d: "distinct (map qualified_table (all_models ?ps))"
      using mset_eq_imp_distinct_iff [of "map qualified_table (all_models ?ps)" "map qualified_table (all_models ps @ Models p)"] m "2.prems"(3,4) a(5,6) by auto
    show ?thesis
      by (rule "2.IH"(2) [OF False s(1) refl s(2) refl s(3)])
        (use v a st d "2.prems"(2,4,7) in \<open>auto simp: owned_indexes_def simp del: scan_packages.simps\<close>)
  qed (use 2 in simp)
qed

text \<open>
  The scan as a whole (C35). The models that \<open>Scan\<close> returns, in however many packages, are well-formed, no two of them share a table, and no two share
  an index name in one schema.
\<close>

theorem scan_consistent:
  assumes "Scan U fuel read_file loaded = Some (Inr ps)"
  shows "consistent U (all_models ps)"
  using assms scan_packages_consistent [of U fuel read_file _ "[]" "[]" "[]" ps]
  by (auto simp: Scan_def all_models_def one_owner_def owned_indexes_def split: option.splits)

definition demo_package :: loaded_package where
  "demo_package =
     \<lparr>LoadedName = ''app'', LoadedPath = ''app'', LoadedDir = ''/app'', HasTypes = True,
      Syntax = [(''/app/user.go'', [\<lparr>TypeName = ''User'', Declared = Some (Named (Some (''app'', ''app'')) ''User'' []), Docs = []\<rparr>])]\<rparr>"

theorem scan_consistent_witness:
  "\<exists>ps. Scan demo_underlying 1 (\<lambda>_. None) (Some [demo_package]) = Some (Inr ps) \<and> consistent demo_underlying (all_models ps) \<and> length (all_models ps) = 1"
proof -
  obtain m where m: "scanModel demo_underlying 1 ''app'' ''User'' demo_structure = Some (Inr (Some m))" "Schema m = []" "Table m = ''users''"
    "map (\<lambda>f. (ColumnName f, Index f, Unique f)) (Fields m) = [(''id'', [], []), (''email'', [], ''uk_email'')]"
    by (rule demo_scan)
  obtain f g where f: "Fields m = [f, g]" "Index f = []" "Unique f = []" "Index g = []" "Unique g = ''uk_email''"
    using m(4) by (cases "Fields m"; cases "tl (Fields m)"; auto)
  have u: "Underlying demo_underlying (Named (Some (''app'', ''app'')) ''User'' []) = Struct demo_structure" by (simp add: Underlying_def demo_underlying_def)
  have b: "Base ''/app/user.go'' \<noteq> generatedFileName" by (simp add: Base_def generatedFileName_def)
  have "\<exists>ps. Scan demo_underlying 1 (\<lambda>_. None) (Some [demo_package]) = Some (Inr ps) \<and> length (all_models ps) = 1"
    by (simp add: Scan_def demo_package_def HasSuffix_cmd_def HasSuffix_def scanPackage_def b u m m(1) [unfolded One_nat_def] index_names_def f field_indexes_def Let_def all_models_def)
  then show ?thesis using scan_consistent by blast
qed

end
