(* ===== verification/Kc_Gen_Ddl.thy ===== *)
theory Kc_Gen_Ddl
  imports Kc_Gen_Model
begin

text \<open>
  The DDL of the scanned models for both dialects, \<open>src/internal/sqlxgen/ddl.go\<close>: tables, then foreign keys, then indexes. The column type of a
  Go integer is the narrowest one that holds all its values, and the index statements are those the fields declare.
\<close>

section \<open>Column types\<close>

datatype ddlDialect = ddlMySQL | ddlPostgreSQL

definition isUnsigned :: "basic option \<Rightarrow> bool" where
  "isUnsigned k \<longleftrightarrow> k \<in> Some ` {Uint, Uint8, Uint16, Uint32, Uint64, Uintptr}"

definition integerDDLType :: "underlying \<Rightarrow> gotype \<Rightarrow> ddlDialect \<Rightarrow> string" where
  "integerDDLType U t d =
     (let k = basicKind U t in
      if d = ddlMySQL then
        (if k = Some Int8 \<or> k = Some Uint8 then ''TINYINT''
         else if k = Some Int16 \<or> k = Some Uint16 then ''SMALLINT''
         else if k = Some Int32 \<or> k = Some Uint32 then ''INTEGER''
         else ''BIGINT'') @ (if isUnsigned k then '' UNSIGNED'' else [])
      else if k = Some Int8 \<or> k = Some Int16 \<or> k = Some Uint8 then ''SMALLINT''
      else if k = Some Int32 \<or> k = Some Uint16 then ''INTEGER''
      else if k = Some Uint32 \<or> k = Some IntKind \<or> k = Some Int64 then ''BIGINT''
      else if k = Some Uint \<or> k = Some Uint64 \<or> k = Some Uintptr then ''NUMERIC(20,0)''
      else ''BIGINT'')"

definition ddlType :: "underlying \<Rightarrow> FieldSpec \<Rightarrow> ddlDialect \<Rightarrow> gen_error + string" where
  "ddlType U f d =
     (if d = ddlMySQL \<and> MySQLType f \<noteq> [] then Inr (MySQLType f)
      else if d = ddlPostgreSQL \<and> PostgresType f \<noteq> [] then Inr (PostgresType f)
      else case Kind f of
        FieldString \<Rightarrow> Inr (if Size f > 0 then ''VARCHAR('' @ FormatInt (Size f) @ '')'' else ''VARCHAR(255)'')
      | FieldBool \<Rightarrow> Inr ''BOOLEAN''
      | FieldInteger \<Rightarrow> Inr (integerDDLType U (ValueType f) d)
      | FieldFloat \<Rightarrow>
          Inr (if Precision f > 0 then ''DECIMAL('' @ FormatInt (Precision f) @ '','' @ FormatInt (Scale f) @ '')''
               else if basicKind U (ValueType f) = Some Float32 then ''REAL''
               else if d = ddlMySQL then ''DOUBLE'' else ''DOUBLE PRECISION'')
      | FieldTime \<Rightarrow> Inr (if d = ddlMySQL then ''DATETIME(6)'' else ''TIMESTAMPTZ'')
      | FieldBytes \<Rightarrow> Inr (if d = ddlMySQL then ''BLOB'' else ''BYTEA'')
      | FieldJSON \<Rightarrow> Inr (if d = ddlMySQL then ''JSON'' else ''JSONB'')
      | FieldOther \<Rightarrow> Inl NeedsOverride)"

section \<open>Statements\<close>

definition quoteDDLIdentifier :: "ddlDialect \<Rightarrow> string \<Rightarrow> string" where
  "quoteDDLIdentifier d ident = (if d = ddlMySQL then ''`'' @ ident @ ''`'' else [CHR 0x22] @ ident @ [CHR 0x22])"

definition quoteDDLTable :: "ddlDialect \<Rightarrow> string \<Rightarrow> string \<Rightarrow> string" where
  "quoteDDLTable d schema table =
     (if schema = [] then quoteDDLIdentifier d table else quoteDDLIdentifier d schema @ ''.'' @ quoteDDLIdentifier d table)"

definition column_definition :: "underlying \<Rightarrow> ddlDialect \<Rightarrow> FieldSpec \<Rightarrow> gen_error + string" where
  "column_definition U d f =
     (case ddlType U f d of
        Inl e \<Rightarrow> Inl e
      | Inr columnType \<Rightarrow>
          Inr (''  '' @ quoteDDLIdentifier d (ColumnName f) @ '' '' @ columnType
               @ (if Auto f then (if d = ddlMySQL then '' AUTO_INCREMENT'' else '' GENERATED BY ALWAYS AS IDENTITY'') else [])
               @ (if Nullable f then '' NULL'' else '' NOT NULL'')
               @ (if Default f \<noteq> [] then '' DEFAULT '' @ Default f else [])))"

fun column_definitions :: "underlying \<Rightarrow> ddlDialect \<Rightarrow> FieldSpec list \<Rightarrow> gen_error + string list" where
  "column_definitions U d [] = Inr []"
| "column_definitions U d (f # fs) =
     (case column_definition U d f of
        Inl e \<Rightarrow> Inl e
      | Inr c \<Rightarrow> (case column_definitions U d fs of Inl e \<Rightarrow> Inl e | Inr cs \<Rightarrow> Inr (c # cs)))"

definition newline :: string where
  "newline = [CHR 0x0A]"

definition renderTable :: "underlying \<Rightarrow> ModelSpec \<Rightarrow> ddlDialect \<Rightarrow> gen_error + string" where
  "renderTable U m d =
     (case column_definitions U d (Fields m) of
        Inl e \<Rightarrow> Inl e
      | Inr defs \<Rightarrow>
          Inr (''CREATE TABLE '' @ quoteDDLTable d (Schema m) (Table m) @ '' ('' @ newline
               @ join_with ('','' @ newline) (defs @ [''  PRIMARY KEY ('' @ join_with '', '' (map (\<lambda>k. quoteDDLIdentifier d (ColumnName k)) (Keys m)) @ '')''])
               @ newline @ '');'' @ newline @ newline))"

definition renderForeignKey :: "ModelSpec \<Rightarrow> FieldSpec \<Rightarrow> ddlDialect \<Rightarrow> string" where
  "renderForeignKey m f d =
     (let (table, columnPart, _) = Cut CHR ''('' (References f); column = TrimSuffix columnPart '')''; parts = Split CHR ''.'' table;
          (refSchema, refTable) = (if length parts = 2 then (parts ! 0, parts ! 1) else ([], parts ! 0));
          constraint = ''fk_'' @ Table m @ ''_'' @ ColumnName f in
      ''ALTER TABLE '' @ quoteDDLTable d (Schema m) (Table m) @ '' ADD CONSTRAINT '' @ quoteDDLIdentifier d constraint
      @ '' FOREIGN KEY ('' @ quoteDDLIdentifier d (ColumnName f) @ '') REFERENCES '' @ quoteDDLTable d refSchema refTable @ '' ('' @ quoteDDLIdentifier d column @ '')''
      @ (if OnDelete f \<noteq> [] then '' ON DELETE '' @ OnDelete f else []) @ '';'' @ newline)"

text \<open>The indexes collected so far: name, kind and columns.\<close>

fun add_index :: "string \<Rightarrow> bool \<Rightarrow> string \<Rightarrow> (string \<times> bool \<times> string list) list \<Rightarrow> (string \<times> bool \<times> string list) list" where
  "add_index n u c [] = [(n, u, [c])]"
| "add_index n u c ((n', u', cs) # es) = (if n' = n then (n', u', cs @ [c]) # es else (n', u', cs) # add_index n u c es)"

definition collect_field :: "FieldSpec \<Rightarrow> (string \<times> bool \<times> string list) list \<Rightarrow> (string \<times> bool \<times> string list) list" where
  "collect_field f es = fold (\<lambda>(n, u). add_index n u (ColumnName f)) (field_indexes f) es"

definition index_line :: "ModelSpec \<Rightarrow> ddlDialect \<Rightarrow> string \<times> bool \<times> string list \<Rightarrow> string" where
  "index_line m d e =
     (case e of (n, u, cs) \<Rightarrow>
        ''CREATE '' @ (if u then ''UNIQUE '' else []) @ ''INDEX '' @ quoteDDLIdentifier d n @ '' ON '' @ quoteDDLTable d (Schema m) (Table m)
        @ '' ('' @ join_with '', '' (map (quoteDDLIdentifier d) cs) @ '');'' @ newline)"

definition renderIndexes :: "ModelSpec \<Rightarrow> ddlDialect \<Rightarrow> string" where
  "renderIndexes m d =
     (let indexes = fold collect_field (Fields m) []; names = sort (map fst indexes) in
      concat (map (\<lambda>n. index_line m d (n, the (map_of indexes n))) names) @ (if names \<noteq> [] then newline else []))"

fun render_tables :: "underlying \<Rightarrow> ddlDialect \<Rightarrow> ModelSpec list \<Rightarrow> gen_error + string" where
  "render_tables U d [] = Inr []"
| "render_tables U d (m # ms) =
     (case renderTable U m d of
        Inl e \<Rightarrow> Inl e
      | Inr t \<Rightarrow> (case render_tables U d ms of Inl e \<Rightarrow> Inl e | Inr ts \<Rightarrow> Inr (t @ ts)))"

definition renderDDL :: "underlying \<Rightarrow> ModelSpec list \<Rightarrow> ddlDialect \<Rightarrow> gen_error + string" where
  "renderDDL U ms d =
     (case render_tables U d ms of
        Inl e \<Rightarrow> Inl e
      | Inr tables \<Rightarrow>
          Inr (''-- Code generated by sqlxgen v0.1.0. DO NOT EDIT.'' @ newline @ newline @ tables
               @ concat (map (\<lambda>m. concat (map (\<lambda>f. renderForeignKey m f d) (filter (\<lambda>f. References f \<noteq> []) (Fields m)))) ms)
               @ concat (map (\<lambda>m. renderIndexes m d) ms)))"

definition GenerateDDL :: "underlying \<Rightarrow> PackageSpec list \<Rightarrow> gen_error + string \<times> string" where
  "GenerateDDL U ps =
     (let models = sort_key (\<lambda>m. qualified_name (Schema m) (Table m)) (concat (map Models ps)) in
      case renderDDL U models ddlMySQL of
        Inl e \<Rightarrow> Inl e
      | Inr mysql \<Rightarrow>
          (case renderDDL U models ddlPostgreSQL of Inl e \<Rightarrow> Inl e | Inr postgres \<Rightarrow> Inr (mysql, postgres)))"

text \<open>Scanning and rendering together.\<close>

definition Generate :: "underlying \<Rightarrow> nat \<Rightarrow> (string \<Rightarrow> string option) \<Rightarrow> loaded_package list option \<Rightarrow> (gen_error + PackageSpec list \<times> string \<times> string) option" where
  "Generate U fuel read_file loaded =
     (case Scan U fuel read_file loaded of
        None \<Rightarrow> None
      | Some (Inl e) \<Rightarrow> Some (Inl e)
      | Some (Inr ps) \<Rightarrow> Some (case GenerateDDL U ps of Inl e \<Rightarrow> Inl e | Inr ddl \<Rightarrow> Inr (ps, ddl)))"

section \<open>Ranges\<close>

definition go_range :: "basic \<Rightarrow> int set" where
  "go_range k =
     (if k = Int8 then {- (2 ^ 7)..<2 ^ 7} else if k = Int16 then {- (2 ^ 15)..<2 ^ 15} else if k = Int32 then {- (2 ^ 31)..<2 ^ 31}
      else if k = Int64 \<or> k = IntKind then {- (2 ^ 63)..<2 ^ 63}
      else if k = Uint8 then {0..<2 ^ 8} else if k = Uint16 then {0..<2 ^ 16} else if k = Uint32 then {0..<2 ^ 32} else {0..<2 ^ 64})"

text \<open>The integer column types of a dialect and the values they hold, as documented by MySQL and PostgreSQL.\<close>

definition integer_columns :: "ddlDialect \<Rightarrow> (string \<times> int set) list" where
  "integer_columns d =
     (if d = ddlMySQL then
        [(''TINYINT'', {- (2 ^ 7)..<2 ^ 7}), (''TINYINT UNSIGNED'', {0..<2 ^ 8}), (''SMALLINT'', {- (2 ^ 15)..<2 ^ 15}), (''SMALLINT UNSIGNED'', {0..<2 ^ 16}),
         (''INTEGER'', {- (2 ^ 31)..<2 ^ 31}), (''INTEGER UNSIGNED'', {0..<2 ^ 32}), (''BIGINT'', {- (2 ^ 63)..<2 ^ 63}), (''BIGINT UNSIGNED'', {0..<2 ^ 64})]
      else
        [(''SMALLINT'', {- (2 ^ 15)..<2 ^ 15}), (''INTEGER'', {- (2 ^ 31)..<2 ^ 31}), (''BIGINT'', {- (2 ^ 63)..<2 ^ 63}), (''NUMERIC(20,0)'', {1 - 10 ^ 20..<10 ^ 20})])"

definition identity_columns :: "string list" where
  "identity_columns = [''SMALLINT'', ''INTEGER'', ''BIGINT'']"

lemma integer_field: "classifyType U t = FieldInteger \<Longrightarrow> \<exists>k. basicKind U t = Some k \<and> is_integer k"
  by (auto simp: classifyType_def classify_underlying_def basicKind_def split: gotype.splits option.splits if_splits)

text \<open>
  Integer columns (C33). The column type of a Go integer holds every value of it, in both dialects; no narrower column type of the dialect
  does; and the column type of an integer that may be an auto column can be an identity column in PostgreSQL.
\<close>

theorem integer_column_type:
  assumes "classifyType U t = FieldInteger"
  shows "\<exists>k r. basicKind U t = Some k \<and> (integerDDLType U t d, r) \<in> set (integer_columns d) \<and> go_range k \<subseteq> r
    \<and> (\<forall>(n, r') \<in> set (integer_columns d). go_range k \<subseteq> r' \<longrightarrow> r \<subseteq> r')
    \<and> (k \<notin> {Uint, Uint64, Uintptr} \<longrightarrow> integerDDLType U t ddlPostgreSQL \<in> set identity_columns)"
proof -
  obtain k where k: "basicKind U t = Some k" "is_integer k" using integer_field [OF assms] by blast
  show ?thesis using k by (cases d; cases k)
    (simp_all add: is_integer_def integerDDLType_def isUnsigned_def Let_def integer_columns_def go_range_def identity_columns_def atLeastLessThan_subset_iff)
qed

theorem integer_column_type_witness:
  "\<exists>r. (integerDDLType demo_underlying (Basic Uint32) ddlPostgreSQL, r) \<in> set (integer_columns ddlPostgreSQL) \<and> {0..<2 ^ 32} \<subseteq> r"
  using integer_column_type [of demo_underlying "Basic Uint32" ddlPostgreSQL]
  by (auto simp: classifyType_def classify_underlying_def is_integer_def Underlying_def basicKind_def go_range_def)

section \<open>Indexes\<close>

text \<open>What the fields declare: the names, the columns of a name in the order of the fields, and its statement.\<close>

definition declared_names :: "ModelSpec \<Rightarrow> string set" where
  "declared_names m = (Index ` set (Fields m) \<union> Unique ` set (Fields m)) - {[]}"

definition declared_columns :: "ModelSpec \<Rightarrow> string \<Rightarrow> string list" where
  "declared_columns m n = map ColumnName (filter (\<lambda>f. Index f = n \<or> Unique f = n) (Fields m))"

definition index_statement :: "ModelSpec \<Rightarrow> ddlDialect \<Rightarrow> string \<Rightarrow> string" where
  "index_statement m d n = index_line m d (n, n \<in> Unique ` set (Fields m), declared_columns m n)"

type_synonym index_entries = "(string \<times> bool \<times> string list) list"

lemma add_index_names: "set (map fst (add_index n u c es)) = insert n (set (map fst es))" "distinct (map fst es) \<Longrightarrow> distinct (map fst (add_index n u c es))"
  by (induction n u c es rule: add_index.induct) auto

lemma add_index_lookup:
  "map_of (add_index n u c es) x =
     (if x = n then Some (case map_of es n of None \<Rightarrow> (u, [c]) | Some (u', cs) \<Rightarrow> (u', cs @ [c])) else map_of es x)"
  by (induction n u c es rule: add_index.induct) auto

text \<open>The declarations of the fields, one after the other, and the entries they make.\<close>

definition declarations :: "FieldSpec list \<Rightarrow> (string \<times> bool \<times> string) list" where
  "declarations fs = concat (map (\<lambda>f. map (\<lambda>(n, u). (n, u, ColumnName f)) (field_indexes f)) fs)"

definition entry_of :: "(string \<times> bool \<times> string) list \<Rightarrow> string \<Rightarrow> (bool \<times> string list) option" where
  "entry_of ds n =
     (case filter (\<lambda>(n', _). n' = n) ds of
        [] \<Rightarrow> None
      | (_, u, _) # _ \<Rightarrow> Some (u, map (\<lambda>(_, _, c). c) (filter (\<lambda>(n', _). n' = n) ds)))"

definition entries_match :: "index_entries \<Rightarrow> (string \<times> bool \<times> string) list \<Rightarrow> bool" where
  "entries_match es ds \<longleftrightarrow> distinct (map fst es) \<and> set (map fst es) = fst ` set ds \<and> (\<forall>n. map_of es n = entry_of ds n)"

lemma entry_of_snoc:
  "entry_of (ds @ [(n, u, c)]) x =
     (if x = n then Some (case entry_of ds n of None \<Rightarrow> (u, [c]) | Some (u', cs) \<Rightarrow> (u', cs @ [c])) else entry_of ds x)"
  by (auto simp: entry_of_def split: list.splits)

lemma add_index_matches: "entries_match es ds \<Longrightarrow> entries_match (add_index n u c es) (ds @ [(n, u, c)])"
  using add_index_names [where n = n and u = u and c = c and es = es] by (simp add: entries_match_def add_index_lookup entry_of_snoc)

lemma collect_field_matches: "entries_match es ds \<Longrightarrow> entries_match (collect_field f es) (ds @ map (\<lambda>(n, u). (n, u, ColumnName f)) (field_indexes f))"
proof -
  have "entries_match es ds \<Longrightarrow> entries_match (fold (\<lambda>(n, u). add_index n u c) is es) (ds @ map (\<lambda>(n, u). (n, u, c)) is)" for es ds c "is"
  proof (induction "is" arbitrary: es ds)
    case (Cons i "is")
    then show ?case using add_index_matches [OF Cons.prems, of "fst i" "snd i" c] Cons.IH by (cases i) fastforce
  qed simp
  then show "entries_match es ds \<Longrightarrow> ?thesis" by (simp add: collect_field_def)
qed

lemma collected_entries: "entries_match (fold collect_field fs []) (declarations fs)"
proof -
  have "entries_match es ds \<Longrightarrow> entries_match (fold collect_field fs es) (ds @ declarations fs)" for es ds
  proof (induction fs arbitrary: es ds)
    case (Cons f fs)
    then show ?case using Cons.IH [OF collect_field_matches [OF Cons.prems, of f]] by (simp add: declarations_def)
  qed (simp add: declarations_def)
  from this [of "[]" "[]"] show ?thesis by (simp add: entries_match_def entry_of_def)
qed

lemma field_indexes_mem: "(n, u) \<in> set (field_indexes f) \<longleftrightarrow> n \<noteq> [] \<and> n = (if u then Unique f else Index f)"
  by (auto simp: field_indexes_def)

lemma declared_entry:
  assumes "one_kind (concat (map field_indexes (Fields m)))" and "n \<in> declared_names m"
  shows "entry_of (declarations (Fields m)) n = Some (n \<in> Unique ` set (Fields m), declared_columns m n)"
proof -
  have n: "n \<noteq> []" using assms(2) by (simp add: declared_names_def)
  have one: "filter (\<lambda>(n', _). n' = n) (map (\<lambda>(n, u). (n, u, ColumnName f)) (field_indexes f))
      = (if Index f = n \<or> Unique f = n then [(n, n \<in> Unique ` set (Fields m), ColumnName f)] else [])" if "f \<in> set (Fields m)" for f
  proof -
    have k: "\<not> (\<exists>g \<in> set (Fields m). \<exists>h \<in> set (Fields m). Unique g = n \<and> Index h = n)" using assms(1) n by (fastforce simp: one_kind_def field_indexes_mem)
    show ?thesis using that k n by (auto simp: field_indexes_def)
  qed
  have "filter (\<lambda>(n', _). n' = n) (declarations fs) = map (\<lambda>f. (n, n \<in> Unique ` set (Fields m), ColumnName f)) (filter (\<lambda>f. Index f = n \<or> Unique f = n) fs)"
    if "set fs \<subseteq> set (Fields m)" for fs
    using that one by (induction fs) (simp_all add: declarations_def)
  then have f: "filter (\<lambda>(n', _). n' = n) (declarations (Fields m))
      = map (\<lambda>f. (n, n \<in> Unique ` set (Fields m), ColumnName f)) (filter (\<lambda>f. Index f = n \<or> Unique f = n) (Fields m))" by simp
  have "filter (\<lambda>f. Index f = n \<or> Unique f = n) (Fields m) \<noteq> []" using assms(2) by (auto simp: declared_names_def filter_empty_conv)
  then show ?thesis unfolding entry_of_def f by (auto simp: declared_columns_def comp_def split: list.splits)
qed

lemma declared_names_declarations: "fst ` set (declarations (Fields m)) = declared_names m"
proof -
  have "fst ` set (field_indexes f) = {Index f, Unique f} - {[]}" for f by (auto simp: field_indexes_def)
  then have "fst ` set (declarations fs) = (\<Union>f \<in> set fs. {Index f, Unique f} - {[]})" for fs
    by (induction fs) (simp_all add: declarations_def image_Un image_image case_prod_unfold)
  then show ?thesis by (auto simp: declared_names_def)
qed

text \<open>
  Indexes (C34). For a scanned model the index statements are exactly those the fields declare: one for each name, in the order of the names, unique
  if it was declared unique, over the columns of the fields that name it, in the order of the fields.
\<close>

theorem index_statements_exact:
  assumes "scanModel U fuel pkg name structure = Some (Inr (Some m))"
  shows "renderIndexes m d = concat (map (index_statement m d) (sorted_list_of_set (declared_names m))) @ (if declared_names m \<noteq> {} then newline else [])"
proof -
  let ?es = "fold collect_field (Fields m) []"
  have v: "one_kind (concat (map field_indexes (Fields m)))" using scanModel_valid [OF assms] by (simp add: valid_model_def)
  have e: "distinct (map fst ?es)" "set (map fst ?es) = declared_names m" "\<And>n. map_of ?es n = entry_of (declarations (Fields m)) n"
    using collected_entries [of "Fields m"] declared_names_declarations [of m] by (auto simp: entries_match_def)
  have names: "sort (map fst ?es) = sorted_list_of_set (declared_names m)"
    using e(1,2) sorted_list_of_set_sort_remdups [of "map fst ?es"] by (simp add: distinct_remdups_id)
  have "finite (declared_names m)" by (simp add: declared_names_def)
  then have set: "set (sorted_list_of_set (declared_names m)) = declared_names m" "sorted_list_of_set (declared_names m) = [] \<longleftrightarrow> declared_names m = {}" by auto
  have lines: "map (\<lambda>n. index_line m d (n, the (map_of ?es n))) (sorted_list_of_set (declared_names m)) = map (index_statement m d) (sorted_list_of_set (declared_names m))"
    unfolding index_statement_def by (rule map_cong) (use set(1) e(3) declared_entry [OF v] in simp_all)
  show ?thesis unfolding renderIndexes_def Let_def names lines using set(2) by simp
qed

theorem index_statements_exact_witness:
  "\<exists>m. scanModel demo_underlying 1 ''app'' ''User'' demo_structure = Some (Inr (Some m))
     \<and> renderIndexes m ddlMySQL = ''CREATE UNIQUE INDEX `uk_email` ON `users` (`email`);'' @ newline @ newline"
proof -
  obtain m where m: "scanModel demo_underlying 1 ''app'' ''User'' demo_structure = Some (Inr (Some m))" "Schema m = []" "Table m = ''users''"
    "map (\<lambda>f. (ColumnName f, Index f, Unique f)) (Fields m) = [(''id'', [], []), (''email'', [], ''uk_email'')]"
    by (rule demo_scan)
  obtain f g where f: "Fields m = [f, g]" "Index f = []" "Unique f = []" "Index g = []" "Unique g = ''uk_email''" "ColumnName g = ''email''"
    using m(4) by (cases "Fields m"; cases "tl (Fields m)"; auto)
  have d: "declared_names m = {''uk_email''}" by (simp add: declared_names_def f insert_Diff_if)
  show ?thesis using index_statements_exact [OF m(1), of ddlMySQL] m(1)
    by (simp add: d index_statement_def index_line_def declared_columns_def f m(2,3) quoteDDLIdentifier_def quoteDDLTable_def newline_def)
qed

section \<open>Foreign keys\<close>

lemma Cut_paren: "CHR ''('' \<notin> set t \<Longrightarrow> Cut CHR ''('' (t @ CHR ''('' # c) = (t, c, True)"
  by (simp add: Cut_def takeWhile_append dropWhile_append)

lemma TrimSuffix_paren: "TrimSuffix (c @ '')'') '')'' = c" "HasSuffix (c @ '')'') '')''"
  by (simp_all add: TrimSuffix_def HasSuffix_def)

lemma identifier_no_sep: "identifierPattern n \<Longrightarrow> CHR ''('' \<notin> set n \<and> CHR ''.'' \<notin> set n"
  using identifier_chars [of n] by (auto simp: list_all_iff ident_char_def ident_start_def byte_in_def byte_def)

text \<open>
  A reference with three parts before the column passes the validation, but the statement refers to a table named like the first part; only references
  with one or two parts are rendered as written.
\<close>

theorem three_part_reference:
  assumes "identifierPattern a" and "identifierPattern b" and "identifierPattern t" and "identifierPattern c"
    and "References f = a @ ''.'' @ b @ ''.'' @ t @ ''('' @ c @ '')''"
  shows "validateQualifiedReference (References f) = None
    \<and> (\<exists>before after. renderForeignKey m f d = before @ '' REFERENCES '' @ quoteDDLTable d [] a @ '' ('' @ quoteDDLIdentifier d c @ '')'' @ after)"
proof -
  note no = identifier_no_sep [OF assms(1)] identifier_no_sep [OF assms(2)] identifier_no_sep [OF assms(3)]
  have cut: "Cut CHR ''('' (References f) = (a @ ''.'' @ b @ ''.'' @ t, c @ '')'', True)"
    using Cut_paren [of "a @ ''.'' @ b @ ''.'' @ t" "c @ '')''"] no assms(5) by simp
  have parts: "Split CHR ''.'' (a @ ''.'' @ b @ ''.'' @ t) = [a, b, t]" "Split CHR ''.'' (a @ CHR ''.'' # b @ CHR ''.'' # t) = [a, b, t]"
    using no by (simp_all add: Split_append Split_none)
  have "validateQualifiedReference (References f) = None"
    using assms(1-4) unfolding validateQualifiedReference_def cut by (simp add: TrimSuffix_paren identifier_None Split_append Split_none no)
  moreover have "renderForeignKey m f d
    = (''ALTER TABLE '' @ quoteDDLTable d (Schema m) (Table m) @ '' ADD CONSTRAINT '' @ quoteDDLIdentifier d (''fk_'' @ Table m @ ''_'' @ ColumnName f)
       @ '' FOREIGN KEY ('' @ quoteDDLIdentifier d (ColumnName f) @ '')'') @ '' REFERENCES '' @ quoteDDLTable d [] a @ '' ('' @ quoteDDLIdentifier d c @ '')''
       @ ((if OnDelete f \<noteq> [] then '' ON DELETE '' @ OnDelete f else []) @ '';'' @ newline)"
    unfolding renderForeignKey_def cut by (simp add: parts TrimSuffix_paren Let_def)
  ultimately show ?thesis by blast
qed

end
