(* ===== verification/Kc_Cache.thy ===== *)
theory Kc_Cache
  imports Kc_Path Kc_Redis_Message
begin

text \<open>
  The local cache with invalidation through Redis, \<open>src/pkg/cache/cache.go\<close>: construction, the operations of one instance, and the key codec. The
  cache of the library keeps a value with the time it expires at; JSON replaces bytes that are no UTF-8. Formatting and parsing of floating-point numbers
  are arguments.
\<close>

datatype cache_error = ErrInvalidConfig | ErrInvalidTTL | ErrUnsupportedKeyType | ErrInvalidArgument | ErrClosed | ErrParse | ErrLocal | ErrSubscribe | ErrPublish

section \<open>Key codecs\<close>

text \<open>Kinds of key types, with their width, and their values.\<close>

datatype key_kind = KString | KBool | KInt nat | KUint nat | KFloat nat | KOther

datatype 'f gokey = StringKey string | BoolKey bool | IntKey int | UintKey int | FloatKey 'f | OtherKey nat

text \<open>
  Floating-point numbers as the code uses them: \<open>representable w x\<close>, that a variable of the \<open>w\<close>-bit type can have the value \<open>x\<close>, and the two
  functions of \<open>strconv\<close> for the bit size \<open>w\<close> (formats \<open>g\<close>, shortest).
\<close>

record 'f floats =
  representable :: "nat \<Rightarrow> 'f \<Rightarrow> bool"
  IsNaN :: "'f \<Rightarrow> bool"
  FormatFloat :: "nat \<Rightarrow> 'f \<Rightarrow> string"
  ParseFloat :: "nat \<Rightarrow> string \<Rightarrow> 'f option"

fun has_kind :: "key_kind \<Rightarrow> 'f gokey \<Rightarrow> bool" where
  "has_kind KString (StringKey s) = True"
| "has_kind KBool (BoolKey b) = True"
| "has_kind (KInt w) (IntKey n) = (0 < w \<and> w \<le> 64 \<and> - (2 ^ (w - 1)) \<le> n \<and> n < 2 ^ (w - 1))"
| "has_kind (KUint w) (UintKey n) = (w \<le> 64 \<and> 0 \<le> n \<and> n < 2 ^ w)"
| "has_kind (KFloat w) (FloatKey x) = (w = 32 \<or> w = 64)"
| "has_kind KOther (OtherKey n) = True"
| "has_kind _ _ = False"

record 'f codec =
  Encode :: "'f gokey \<Rightarrow> cache_error + string"
  Decode :: "string \<Rightarrow> cache_error + 'f gokey"

definition FormatBool :: "bool \<Rightarrow> string" where
  "FormatBool b = (if b then ''true'' else ''false'')"

definition ParseBool :: "string \<Rightarrow> bool option" where
  "ParseBool s =
     (if s \<in> {''1'', ''t'', ''T'', ''TRUE'', ''true'', ''True''} then Some True
      else if s \<in> {''0'', ''f'', ''F'', ''FALSE'', ''false'', ''False''} then Some False
      else None)"

text \<open>\<open>strconv.ParseInt\<close> and \<open>ParseUint\<close> with a width.\<close>

definition ParseIntBits :: "string \<Rightarrow> nat \<Rightarrow> int option" where
  "ParseIntBits s w = (case ParseInt s of None \<Rightarrow> None | Some n \<Rightarrow> if - (2 ^ (w - 1)) \<le> n \<and> n < 2 ^ (w - 1) then Some n else None)"

definition ParseUintBits :: "string \<Rightarrow> nat \<Rightarrow> int option" where
  "ParseUintBits s w = (if parse_uint s \<and> digits_value s < 2 ^ w then Some (int (digits_value s)) else None)"

definition primitive_Encode :: "'f floats \<Rightarrow> key_kind \<Rightarrow> 'f gokey \<Rightarrow> cache_error + string" where
  "primitive_Encode F kind key =
     (case (kind, key) of
        (KString, StringKey s) \<Rightarrow> Inr s
      | (KBool, BoolKey b) \<Rightarrow> Inr (FormatBool b)
      | (KInt w, IntKey n) \<Rightarrow> Inr (FormatInt n)
      | (KUint w, UintKey n) \<Rightarrow> Inr (digits (nat n))
      | (KFloat w, FloatKey x) \<Rightarrow> if IsNaN F x then Inl ErrInvalidArgument else Inr (FormatFloat F w x)
      | _ \<Rightarrow> Inl ErrUnsupportedKeyType)"

definition parsed :: "('a \<Rightarrow> 'f gokey) \<Rightarrow> 'a option \<Rightarrow> cache_error + 'f gokey" where
  "parsed f r = (case r of None \<Rightarrow> Inl ErrParse | Some x \<Rightarrow> Inr (f x))"

definition primitive_Decode :: "'f floats \<Rightarrow> key_kind \<Rightarrow> string \<Rightarrow> cache_error + 'f gokey" where
  "primitive_Decode F kind encoded =
     (case kind of
        KString \<Rightarrow> Inr (StringKey encoded)
      | KBool \<Rightarrow> parsed BoolKey (ParseBool encoded)
      | KInt w \<Rightarrow> parsed IntKey (ParseIntBits encoded w)
      | KUint w \<Rightarrow> parsed UintKey (ParseUintBits encoded w)
      | KFloat w \<Rightarrow> parsed FloatKey (ParseFloat F w encoded)
      | KOther \<Rightarrow> Inl ErrUnsupportedKeyType)"

definition primitiveCodec :: "'f floats \<Rightarrow> key_kind \<Rightarrow> 'f codec" where
  "primitiveCodec F kind = \<lparr>Encode = primitive_Encode F kind, Decode = primitive_Decode F kind\<rparr>"

definition resolveCodec :: "'f floats \<Rightarrow> key_kind \<Rightarrow> 'f codec option \<Rightarrow> cache_error + 'f codec" where
  "resolveCodec F kind custom =
     (case custom of
        Some c \<Rightarrow> Inr c
      | None \<Rightarrow> if kind = KOther then Inl ErrUnsupportedKeyType else Inr (primitiveCodec F kind))"

section \<open>Invalidation messages\<close>

text \<open>A payload of the channel as its reader sees it: something else, or version, namespace and key.\<close>

datatype payload = Garbage | Message int string string

definition cacheMessageVersion :: int where
  "cacheMessageVersion = 1"

definition invalidationMessage :: "string \<Rightarrow> string \<Rightarrow> payload" where
  "invalidationMessage ns key = Message cacheMessageVersion (json_text ns) (json_text key)"

section \<open>One instance\<close>

record 'f config =
  DefaultTTL :: duration
  Capacity :: int
  HasRedis :: bool
  PubSubChannel :: string
  Namespace :: string
  KeyCodec :: "'f codec option"

record ('f, 'v) cache =
  entries :: "'f gokey \<rightharpoonup> 'v \<times> int" \<comment> \<open>value and expiry\<close>
  key_codec :: "'f codec option"
  redis :: bool
  namespace :: string
  default_ttl :: duration
  shut :: bool

text \<open>
  \<open>ctx\<close>: \<open>None\<close> for a nil context, else whether it is done; \<open>local_ok\<close> and \<open>subscribed\<close> are the answers of the library and of Redis. The capacity is a \<open>uint64\<close>.
\<close>

definition New :: "'f floats \<Rightarrow> key_kind \<Rightarrow> bool option \<Rightarrow> bool \<Rightarrow> bool \<Rightarrow> 'f config \<Rightarrow> cache_error + ('f, 'v) cache" where
  "New F kind ctx local_ok subscribed c =
     (case ctx of
        None \<Rightarrow> Inl ErrInvalidConfig
      | Some ended \<Rightarrow>
          if ended then Inl ErrInvalidConfig
          else if DefaultTTL c \<le> 0 then Inl ErrInvalidTTL
          else if HasRedis c \<and> TrimSpace (PubSubChannel c) = [] then Inl ErrInvalidConfig
          else if HasRedis c \<and> TrimSpace (Namespace c) = [] then Inl ErrInvalidConfig
          else
            (case (resolveCodec F kind (KeyCodec c), HasRedis c) of
               (Inl e, True) \<Rightarrow> Inl e
             | (codec, _) \<Rightarrow>
                 if Capacity c > MaxInt64 then Inl ErrInvalidConfig
                 else if \<not> local_ok then Inl ErrLocal
                 else if HasRedis c \<and> \<not> subscribed then Inl ErrSubscribe
                 else Inr \<lparr>entries = Map.empty, key_codec = (case codec of Inl e \<Rightarrow> None | Inr x \<Rightarrow> Some x), redis = HasRedis c, namespace = Namespace c,
                            default_ttl = DefaultTTL c, shut = False\<rparr>))"

text \<open>The operations of the library: a read sees only an entry that has not expired, a write starts its time anew.\<close>

definition GetIfPresent :: "int \<Rightarrow> 'f gokey \<Rightarrow> ('f, 'v) cache \<Rightarrow> 'v option" where
  "GetIfPresent now key c = (case entries c key of Some (v, e) \<Rightarrow> if now < e then Some v else None | None \<Rightarrow> None)"

definition local_Set :: "int \<Rightarrow> 'f gokey \<Rightarrow> 'v \<Rightarrow> ('f, 'v) cache \<Rightarrow> ('f, 'v) cache" where
  "local_Set now key v c = c\<lparr>entries := (entries c)(key \<mapsto> (v, now + default_ttl c))\<rparr>"

definition SetExpiresAfter :: "int \<Rightarrow> 'f gokey \<Rightarrow> duration \<Rightarrow> ('f, 'v) cache \<Rightarrow> ('f, 'v) cache" where
  "SetExpiresAfter now key ttl c =
     (case GetIfPresent now key c of None \<Rightarrow> c | Some v \<Rightarrow> c\<lparr>entries := (entries c)(key \<mapsto> (v, now + ttl))\<rparr>)"

definition Invalidate :: "'f gokey \<Rightarrow> ('f, 'v) cache \<Rightarrow> ('f, 'v) cache" where
  "Invalidate key c = c\<lparr>entries := (entries c)(key := None)\<rparr>"

definition validateKey :: "'f gokey \<Rightarrow> ('f, 'v) cache \<Rightarrow> cache_error option" where
  "validateKey key c =
     (if \<not> redis c then None
      else case key_codec c of
        None \<Rightarrow> Some ErrUnsupportedKeyType
      | Some x \<Rightarrow> (case Encode x key of Inl e \<Rightarrow> Some e | Inr s \<Rightarrow> None))"

text \<open>The methods; a nil receiver is \<open>None\<close>. \<open>SetWithTTL\<close> writes first and sets the expiry in a second call.\<close>

definition Get :: "int \<Rightarrow> 'f gokey \<Rightarrow> ('f, 'v) cache option \<Rightarrow> 'v option" where
  "Get now key r = (case r of None \<Rightarrow> None | Some c \<Rightarrow> if shut c then None else GetIfPresent now key c)"

definition Set :: "int \<Rightarrow> 'f gokey \<Rightarrow> 'v \<Rightarrow> ('f, 'v) cache option \<Rightarrow> cache_error option \<times> ('f, 'v) cache option" where
  "Set now key v r =
     (case r of
        None \<Rightarrow> (Some ErrClosed, r)
      | Some c \<Rightarrow>
          if shut c then (Some ErrClosed, r)
          else case validateKey key c of Some e \<Rightarrow> (Some e, r) | None \<Rightarrow> (None, Some (local_Set now key v c)))"

definition SetWithTTL_write :: "int \<Rightarrow> 'f gokey \<Rightarrow> 'v \<Rightarrow> duration \<Rightarrow> ('f, 'v) cache option \<Rightarrow> cache_error option \<times> ('f, 'v) cache option" where
  "SetWithTTL_write now key v ttl r = (if r \<noteq> None \<and> ttl \<le> 0 then (Some ErrInvalidTTL, r) else Set now key v r)"

definition SetWithTTL :: "int \<Rightarrow> 'f gokey \<Rightarrow> 'v \<Rightarrow> duration \<Rightarrow> ('f, 'v) cache option \<Rightarrow> cache_error option \<times> ('f, 'v) cache option" where
  "SetWithTTL now key v ttl r =
     (case SetWithTTL_write now key v ttl r of
        (Some e, r1) \<Rightarrow> (Some e, r1)
      | (None, r1) \<Rightarrow> (None, map_option (SetExpiresAfter now key ttl) r1))"

text \<open>\<open>Delete\<close> up to the publication: an error, nothing to publish, or a payload.\<close>

definition Delete_local :: "bool \<Rightarrow> 'f gokey \<Rightarrow> ('f, 'v) cache option \<Rightarrow> (cache_error + payload option) \<times> ('f, 'v) cache option" where
  "Delete_local ctx key r =
     (case r of
        None \<Rightarrow> (Inl ErrClosed, r)
      | Some c \<Rightarrow>
          if shut c then (Inl ErrClosed, r)
          else if \<not> ctx then (Inl ErrInvalidArgument, r)
          else
            let c1 = Invalidate key c in
            if \<not> redis c then (Inr None, Some c1)
            else case key_codec c of
              None \<Rightarrow> (Inl ErrUnsupportedKeyType, Some c1)
            | Some x \<Rightarrow> (case Encode x key of Inl e \<Rightarrow> (Inl e, Some c1) | Inr s \<Rightarrow> (Inr (Some (invalidationMessage (namespace c) s)), Some c1)))"

definition Delete :: "bool \<Rightarrow> bool \<Rightarrow> 'f gokey \<Rightarrow> ('f, 'v) cache option \<Rightarrow> cache_error option \<times> payload option \<times> ('f, 'v) cache option" where
  "Delete ctx published key r =
     (case Delete_local ctx key r of
        (Inl e, r1) \<Rightarrow> (Some e, None, r1)
      | (Inr None, r1) \<Rightarrow> (None, None, r1)
      | (Inr (Some m), r1) \<Rightarrow> if published then (None, Some m, r1) else (Some ErrPublish, None, r1))"

definition Close :: "('f, 'v) cache option \<Rightarrow> ('f, 'v) cache option" where
  "Close r = map_option (\<lambda>c. c\<lparr>shut := True\<rparr>) r"

definition handleInvalidation :: "payload \<Rightarrow> ('f, 'v) cache \<Rightarrow> ('f, 'v) cache" where
  "handleInvalidation p c =
     (case p of
        Garbage \<Rightarrow> c
      | Message version ns key \<Rightarrow>
          if version \<noteq> cacheMessageVersion \<or> ns \<noteq> namespace c then c
          else case key_codec c of
            None \<Rightarrow> c
          | Some x \<Rightarrow> (case Decode x key of Inl e \<Rightarrow> c | Inr k \<Rightarrow> Invalidate k c))"

section \<open>Codec lemmas\<close>

text \<open>The contract of a codec: a good key comes back from the text of a message.\<close>

locale codec_contract =
  fixes codec :: "'f codec" and good :: "'f gokey \<Rightarrow> bool"
  assumes roundtrip: "good k \<Longrightarrow> \<exists>s. Encode codec k = Inr s \<and> valid_utf8 s \<and> Decode codec s = Inr k"
begin

lemma invalidates:
  assumes "good k" and "valid_utf8 (namespace c)" and "key_codec c = Some codec" and "namespace c' = namespace c" and "key_codec c' = Some codec" and "redis c" and "\<not> shut c"
  shows "\<exists>m c1. Delete_local True k (Some c) = (Inr (Some m), Some c1) \<and> entries c1 k = None \<and> entries (handleInvalidation m c') k = None"
proof -
  obtain s where "Encode codec k = Inr s" "valid_utf8 s" "Decode codec s = Inr k" using roundtrip [OF assms(1)] by blast
  then show ?thesis using assms by (simp add: Delete_local_def handleInvalidation_def invalidationMessage_def json_text_id Invalidate_def Let_def)
qed

end

text \<open>
  What is documented of formatting and parsing floating-point numbers: a value of the type of 32 or 64 bits, formatted and parsed with that bit size, comes back, and its
  text is ASCII. A key of such a type always has a value of the type.
\<close>

definition float_laws :: "'f floats \<Rightarrow> bool" where
  "float_laws F \<longleftrightarrow> (\<forall>w x. (w = 32 \<or> w = 64) \<and> representable F w x \<and> \<not> IsNaN F x \<longrightarrow> ParseFloat F w (FormatFloat F w x) = Some x \<and> list_all (\<lambda>c. byte c < 128) (FormatFloat F w x))"

definition good_key :: "'f floats \<Rightarrow> key_kind \<Rightarrow> 'f gokey \<Rightarrow> bool" where
  "good_key F kind k \<longleftrightarrow> has_kind kind k \<and> kind \<noteq> KOther \<and> (case k of StringKey s \<Rightarrow> valid_utf8 s 
      | FloatKey x \<Rightarrow> \<not> IsNaN F x \<and> (\<forall>w. kind = KFloat w \<longrightarrow> representable F w x) | _ \<Rightarrow> True)"

lemma valid_decimal: "list_all decimal s \<Longrightarrow> valid_utf8 s"
  by (rule valid_utf8_ascii) (auto simp: list_all_iff decimal_def)

lemma valid_FormatInt: "valid_utf8 (FormatInt n)"
proof -
  have d: "\<forall>c \<in> set (digits k). byte c < 128" for k using digits_sound [of k] by (auto simp: list_all_iff decimal_def)
  have m: "byte (CHR ''-'') < 128" by (simp add: byte_def)
  show ?thesis unfolding FormatInt_def by (rule valid_utf8_ascii) (use d m in auto)
qed

lemma primitive_roundtrip:
  assumes "float_laws F" and "good_key F kind k"
  shows "\<exists>s. Encode (primitiveCodec F kind) k = Inr s \<and> valid_utf8 s \<and> Decode (primitiveCodec F kind) s = Inr k"
proof (cases k)
  case (IntKey n)
  then obtain w where w: "kind = KInt w" "0 < w" "w \<le> 64" "- (2 ^ (w - 1)) \<le> n" "n < 2 ^ (w - 1)" using assms(2) by (cases kind) (auto simp: good_key_def)
  have "(2 :: int) ^ (w - 1) \<le> 2 ^ 63" using w(2,3) by (intro power_increasing) auto
  then have "in_i64 n" using w(4,5) by (simp add: in_i64_def MinInt64_def MaxInt64_def)
  then show ?thesis using w IntKey valid_FormatInt [of n]
    by (simp add: primitiveCodec_def primitive_Encode_def primitive_Decode_def parsed_def ParseIntBits_def ParseInt_FormatInt)
next
  case (UintKey n)
  then obtain w where w: "kind = KUint w" "w \<le> 64" "0 \<le> n" "n < 2 ^ w" using assms(2) by (cases kind) (auto simp: good_key_def)
  have "(2 :: int) ^ w \<le> 2 ^ 64" using w(2) by (intro power_increasing) auto
  then have n: "nat n < 2 ^ w" "nat n < 2 ^ 64" using w(3,4) by (auto simp: nat_less_iff)
  then show ?thesis using w UintKey digits_sound [of "nat n"]
    by (simp add: primitiveCodec_def primitive_Encode_def primitive_Decode_def parsed_def ParseUintBits_def parse_uint_def valid_decimal)
next
  case (FloatKey x)
  then show ?thesis using assms
    by (cases kind) (auto simp: good_key_def float_laws_def primitiveCodec_def primitive_Encode_def primitive_Decode_def parsed_def list_all_iff intro!: valid_utf8_ascii)
next
  case (BoolKey b)
  then show ?thesis using assms
    by (cases kind; cases b) (auto simp: good_key_def primitiveCodec_def primitive_Encode_def primitive_Decode_def parsed_def FormatBool_def ParseBool_def byte_def intro!: valid_utf8_ascii)
qed (use assms in \<open>cases kind; auto simp: good_key_def primitiveCodec_def primitive_Encode_def primitive_Decode_def\<close>)+

text \<open>The code's own codec keeps the contract.\<close>

interpretation primitive_codec: codec_contract "primitiveCodec F kind" "\<lambda>k. float_laws F \<and> good_key F kind k" for F kind
  by unfold_locales (use primitive_roundtrip in blast)

text \<open>
  A string key that is no UTF-8 changes on its way: the other instances look for another key, and keep the entry although \<open>Delete\<close> reports success.
\<close>

theorem invalid_utf8_key_survives:
  assumes "\<not> valid_utf8 s" and "key_codec c = Some (primitiveCodec F KString)" and "redis c" and "\<not> shut c" and "entries c' (StringKey s) = Some e"
    and "key_codec c' = Some (primitiveCodec F KString)"
  shows "\<exists>m c1. Delete True True (StringKey s) (Some c) = (None, Some m, Some c1) \<and> entries (handleInvalidation m c') (StringKey s) = Some e"
  using assms json_text_id_iff [of s]
  by (auto simp: Delete_def Delete_local_def Let_def primitiveCodec_def primitive_Encode_def primitive_Decode_def invalidationMessage_def handleInvalidation_def Invalidate_def)

text \<open>\<open>SetWithTTL\<close> is not atomic: its expiry can go to the value of a \<open>Set\<close> that comes between.\<close>

theorem ttl_of_another_value:
  assumes "validateKey k c = None" and "\<not> shut c" and "0 < ttl" and "0 < default_ttl c"
  shows "\<exists>c1 c2. SetWithTTL_write now k v ttl (Some c) = (None, Some c1) \<and> Set now k v' (Some c1) = (None, Some c2)
    \<and> entries (SetExpiresAfter now k ttl c2) k = Some (v', now + ttl)"
proof -
  have v: "validateKey k (c\<lparr>entries := x\<rparr>) = None" for x using assms(1) by (cases "redis c") (simp_all add: validateKey_def)
  show ?thesis using assms v by (simp add: SetWithTTL_write_def Set_def local_Set_def SetExpiresAfter_def GetIfPresent_def)
qed

end
