(* ===== verification/Kc_Cache_System.thy ===== *)
theory Kc_Cache_System
  imports Kc_Cache
begin

text \<open>
  Any number of cache instances on one Redis channel. Every access of an instance is a step of its own: the two halves of \<open>SetWithTTL\<close> and of \<open>Delete\<close> may be
  interleaved with the steps of other callers and instances. A published message may be lost for a subscriber, entries may be evicted, and anything may be published on
  the channel by others. Numbers count writes and deletes in the order in which they happened; they are not part of the program.
\<close>

section \<open>State and steps\<close>

record ('f, 'v) system =
  caches :: "nat \<Rightarrow> ('f, 'v) cache"
  inbox :: "nat \<Rightarrow> (payload \<times> nat option) list" \<comment> \<open>with the number of the delete\<close>
  unpublished :: "(nat \<times> payload \<times> 'f gokey \<times> nat) set" \<comment> \<open>deletes between their two halves\<close>
  clock :: int
  ticket :: nat
  written :: "(nat \<times> nat \<times> 'f gokey \<times> 'v) set" \<comment> \<open>number, instance, key and value of each write\<close>
  deleted :: "(nat \<times> string \<times> 'f gokey) set" \<comment> \<open>number, namespace and key of each published delete\<close>
  missed :: "(nat \<times> nat) set" \<comment> \<open>instance and number of each delete whose message it never got\<close>

definition initial :: "(nat \<Rightarrow> ('f, 'v) cache) \<Rightarrow> ('f, 'v) system" where
  "initial cs =
     \<lparr>caches = cs, inbox = (\<lambda>_. []), unpublished = {}, clock = 0, ticket = 0, written = {}, deleted = {}, missed = {}\<rparr>"

text \<open>Delivery to the instances of \<open>R\<close>; all others miss the message.\<close>

definition publish :: "nat set \<Rightarrow> payload \<Rightarrow> nat \<Rightarrow> ('f, 'v) system \<Rightarrow> ('f, 'v) system" where
  "publish R m d s =
     s\<lparr>inbox := (\<lambda>j. if j \<in> R then inbox s j @ [(m, Some d)] else inbox s j), missed := missed s \<union> {(j, d) | j. j \<notin> R}\<rparr>"

inductive step :: "('f, 'v) system \<Rightarrow> ('f, 'v) system \<Rightarrow> bool" where
  step_write: "SetWithTTL_write (clock s) k v ttl (Some (caches s i)) = (None, Some c)
    \<Longrightarrow> step s (s\<lparr>caches := (caches s)(i := c), ticket := ticket s + 1, written := insert (ticket s, i, k, v) (written s)\<rparr>)"
| step_set: "Set (clock s) k v (Some (caches s i)) = (None, Some c)
    \<Longrightarrow> step s (s\<lparr>caches := (caches s)(i := c), ticket := ticket s + 1, written := insert (ticket s, i, k, v) (written s)\<rparr>)"
| step_expires: "step s (s\<lparr>caches := (caches s)(i := SetExpiresAfter (clock s) k ttl (caches s i))\<rparr>)"
| step_delete: "Delete_local True k (Some (caches s i)) = (Inr (Some m), Some c)
    \<Longrightarrow> step s (s\<lparr>caches := (caches s)(i := c), ticket := ticket s + 1, unpublished := insert (i, m, k, ticket s) (unpublished s)\<rparr>)"
| step_published: "(i, m, k, d) \<in> unpublished s
    \<Longrightarrow> step s (publish R m d (s\<lparr>unpublished := unpublished s - {(i, m, k, d)}, deleted := insert (d, namespace (caches s i), k) (deleted s)\<rparr>))"
| step_not_published: "(i, m, k, d) \<in> unpublished s \<Longrightarrow> step s (s\<lparr>unpublished := unpublished s - {(i, m, k, d)}\<rparr>)"
| step_foreign: "step s (s\<lparr>inbox := (inbox s)(i := inbox s i @ [(m, None)])\<rparr>)"
| step_handle: "inbox s i = (m, d) # rest
    \<Longrightarrow> step s (s\<lparr>caches := (caches s)(i := handleInvalidation m (caches s i)), inbox := (inbox s)(i := rest)\<rparr>)"
| step_lose: "inbox s i = (m, Some d) # rest \<Longrightarrow> step s (s\<lparr>inbox := (inbox s)(i := rest), missed := insert (i, d) (missed s)\<rparr>)"
| step_evict: "step s (s\<lparr>caches := (caches s)(i := Invalidate k (caches s i))\<rparr>)"
| step_close: "Close (Some (caches s i)) = Some c \<Longrightarrow> step s (s\<lparr>caches := (caches s)(i := c)\<rparr>)"
| step_tick: "0 \<le> t \<Longrightarrow> step s (s\<lparr>clock := clock s + t\<rparr>)"

inductive reachable :: "(nat \<Rightarrow> ('f, 'v) cache) \<Rightarrow> ('f, 'v) system \<Rightarrow> bool" for cs where
  start: "reachable cs (initial cs)"
| next_step: "reachable cs s \<Longrightarrow> step s t \<Longrightarrow> reachable cs t"

inductive_cases step_E: "step s t"

section \<open>Invariant\<close>

text \<open>Instances built by \<open>New\<close> for one key type, with a Redis client.\<close>

definition ready :: "'f floats \<Rightarrow> key_kind \<Rightarrow> ('f, 'v) cache \<Rightarrow> bool" where
  "ready F kind c \<longleftrightarrow> redis c \<and> key_codec c = Some (primitiveCodec F kind) \<and> valid_utf8 (namespace c)"

definition same_config :: "(nat \<Rightarrow> ('f, 'v) cache) \<Rightarrow> ('f, 'v) system \<Rightarrow> bool" where
  "same_config cs s \<longleftrightarrow> (\<forall>i. key_codec (caches s i) = key_codec (cs i) \<and> redis (caches s i) = redis (cs i) \<and> namespace (caches s i) = namespace (cs i))"

text \<open>What a message of a delete looks like.\<close>

definition message_of :: "'f floats \<Rightarrow> key_kind \<Rightarrow> string \<Rightarrow> 'f gokey \<Rightarrow> payload \<Rightarrow> bool" where
  "message_of F kind ns k m \<longleftrightarrow> (\<exists>x. Encode (primitiveCodec F kind) k = Inr x \<and> m = invalidationMessage ns x)"

definition waiting :: "('f, 'v) system \<Rightarrow> nat \<Rightarrow> nat set" where
  "waiting s j = {d. Some d \<in> snd ` List.set (inbox s j)} \<union> {d. (j, d) \<in> missed s}"

text \<open>An entry was written after every published delete of its key in its namespace that the instance has handled.\<close>

definition fresh_entry :: "('f, 'v) system \<Rightarrow> nat \<Rightarrow> 'f gokey \<Rightarrow> 'v \<Rightarrow> bool" where
  "fresh_entry s j k v \<longleftrightarrow> (\<exists>n. (n, j, k, v) \<in> written s \<and> (\<forall>d. (d, namespace (caches s j), k) \<in> deleted s \<longrightarrow> d \<in> waiting s j \<or> d < n))"

text \<open>The deletes so far, published or between their halves.\<close>

definition issued :: "(nat \<Rightarrow> ('f, 'v) cache) \<Rightarrow> ('f, 'v) system \<Rightarrow> (nat \<times> string \<times> 'f gokey) set" where
  "issued cs s = deleted s \<union> {(d, namespace (cs i), k) | i m k d. (i, m, k, d) \<in> unpublished s}"

definition messages_inv :: "'f floats \<Rightarrow> key_kind \<Rightarrow> (nat \<Rightarrow> ('f, 'v) cache) \<Rightarrow> ('f, 'v) system \<Rightarrow> bool" where
  "messages_inv F kind cs s \<longleftrightarrow>
     same_config cs s
     \<and> (\<forall>d ns k. (d, ns, k) \<in> issued cs s \<longrightarrow> d < ticket s)
     \<and> (\<forall>d ns k ns' k'. (d, ns, k) \<in> issued cs s \<longrightarrow> (d, ns', k') \<in> issued cs s \<longrightarrow> ns = ns' \<and> k = k')
     \<and> (\<forall>i m k d. (i, m, k, d) \<in> unpublished s \<longrightarrow> message_of F kind (namespace (cs i)) k m)
     \<and> (\<forall>j m d. (m, Some d) \<in> List.set (inbox s j) \<longrightarrow> (\<exists>ns k. (d, ns, k) \<in> deleted s \<and> valid_utf8 ns \<and> message_of F kind ns k m))"

definition entries_inv :: "'f floats \<Rightarrow> key_kind \<Rightarrow> ('f, 'v) system \<Rightarrow> bool" where
  "entries_inv F kind s \<longleftrightarrow> (\<forall>j k v e. good_key F kind k \<longrightarrow> entries (caches s j) k = Some (v, e) \<longrightarrow> fresh_entry s j k v)"

text \<open>What the operations leave alone, and what they do to the entries.\<close>

lemma op_config:
  "Set now k v (Some c) = (None, Some c1) \<Longrightarrow> key_codec c1 = key_codec c \<and> redis c1 = redis c \<and> namespace c1 = namespace c"
  "SetWithTTL_write now k v ttl (Some c) = (None, Some c1) \<Longrightarrow> Set now k v (Some c) = (None, Some c1)"
  "key_codec (SetExpiresAfter now k ttl c) = key_codec c \<and> redis (SetExpiresAfter now k ttl c) = redis c \<and> namespace (SetExpiresAfter now k ttl c) = namespace c"
  "key_codec (Invalidate k c) = key_codec c \<and> redis (Invalidate k c) = redis c \<and> namespace (Invalidate k c) = namespace c"
  "key_codec (handleInvalidation m c) = key_codec c \<and> redis (handleInvalidation m c) = redis c \<and> namespace (handleInvalidation m c) = namespace c"
  "Delete_local True k (Some c) = (r, Some c1) \<Longrightarrow> key_codec c1 = key_codec c \<and> redis c1 = redis c \<and> namespace c1 = namespace c"
  by (auto simp: Set_def local_Set_def SetWithTTL_write_def SetExpiresAfter_def Invalidate_def handleInvalidation_def Delete_local_def Let_def
      split: if_splits option.splits payload.splits sum.splits)

lemma op_entries:
  "Set now k v (Some c) = (None, Some c1) \<Longrightarrow> entries c1 = (entries c)(k \<mapsto> (v, now + default_ttl c))"
  "entries (SetExpiresAfter now k ttl c) x = Some (v, e) \<Longrightarrow> \<exists>e'. entries c x = Some (v, e')"
  "entries (Invalidate k c) x = Some y \<Longrightarrow> entries c x = Some y"
  "entries (handleInvalidation m c) x = Some y \<Longrightarrow> entries c x = Some y"
  "Delete_local True k (Some c) = (r, Some c1) \<Longrightarrow> entries c1 x = Some y \<Longrightarrow> entries c x = Some y"
  by (auto simp: Set_def local_Set_def SetExpiresAfter_def GetIfPresent_def Invalidate_def handleInvalidation_def Delete_local_def Let_def
      split: if_splits option.splits payload.splits sum.splits)

lemma delete_message:
  assumes "Delete_local True k (Some c) = (Inr (Some m), Some c1)" and "key_codec c = Some (primitiveCodec F kind)"
  shows "message_of F kind (namespace c) k m"
  using assms by (auto simp: Delete_local_def message_of_def Let_def split: if_splits sum.splits)

lemma handled_message:
  assumes "message_of F kind ns k m" and "float_laws F" and "good_key F kind k" and "valid_utf8 ns" and "namespace c = ns" and "key_codec c = Some (primitiveCodec F kind)"
  shows "entries (handleInvalidation m c) k = None"
  using assms primitive_roundtrip [OF assms(2,3)]
  by (auto simp: message_of_def invalidationMessage_def handleInvalidation_def json_text_id Invalidate_def)

lemma fresh_entry_mono:
  assumes "fresh_entry s j k v" and "written s \<subseteq> written t" and "deleted t = deleted s" and "waiting s j \<subseteq> waiting t j" and "namespace (caches t j) = namespace (caches s j)"
  shows "fresh_entry t j k v"
  using assms unfolding fresh_entry_def by (metis subsetD)

lemma initial_inv: "messages_inv F kind cs (initial cs)" "\<forall>j. entries (cs j) = Map.empty \<Longrightarrow> entries_inv F kind (initial cs)"
  by (auto simp: messages_inv_def entries_inv_def initial_def same_config_def issued_def)

section \<open>Preservation\<close>

lemma same_config_step:
  assumes "step s t" and "same_config cs s"
  shows "same_config cs t"
  using assms(1)
proof cases
  case (step_write k v ttl i c)
  then show ?thesis using assms(2) op_config(1) [OF op_config(2) [OF step_write(2)]] by (simp add: same_config_def)
next
  case (step_set k v i c)
  then show ?thesis using assms(2) op_config(1) [OF step_set(2)] by (simp add: same_config_def)
next
  case (step_delete k i m c)
  then show ?thesis using assms(2) op_config(6) [OF step_delete(2)] by (simp add: same_config_def)
next
  case (step_close i c)
  have "c = (caches s i)\<lparr>shut := True\<rparr>" using step_close(2) by (simp add: Close_def)
  then show ?thesis using assms(2) unfolding step_close(1) by (simp add: same_config_def)
qed (use assms(2) in \<open>simp_all add: same_config_def publish_def op_config(3-5)\<close>)

text \<open>Steps that issue no delete keep the invariant on messages if their messages are those of published deletes.\<close>

lemma messages_inv_shrink:
  assumes "messages_inv F kind cs s" and "same_config cs t" and "issued cs t \<subseteq> issued cs s" and "unpublished t \<subseteq> unpublished s" and "ticket s \<le> ticket t"
    and "\<And>j m d. (m, Some d) \<in> List.set (inbox t j) \<Longrightarrow> \<exists>ns k. (d, ns, k) \<in> deleted t \<and> valid_utf8 ns \<and> message_of F kind ns k m"
  shows "messages_inv F kind cs t"
proof -
  have "d < ticket t" if "(d, ns, k) \<in> issued cs t" for d ns k using assms(1,3,5) that by (fastforce simp: messages_inv_def)
  moreover have "ns = ns' \<and> k = k'" if "(d, ns, k) \<in> issued cs t" "(d, ns', k') \<in> issued cs t" for d ns k ns' k'
    using assms(1,3) that unfolding messages_inv_def by blast
  moreover have "message_of F kind (namespace (cs i)) k m" if "(i, m, k, d) \<in> unpublished t" for i m k d
    using assms(1,4) that unfolding messages_inv_def by blast
  ultimately show ?thesis using assms(2,6) unfolding messages_inv_def by blast
qed

lemma messages_inv_mono:
  assumes "messages_inv F kind cs s" and "same_config cs t" and "issued cs t \<subseteq> issued cs s" and "unpublished t \<subseteq> unpublished s" and "deleted s \<subseteq> deleted t"
    and "ticket s \<le> ticket t" and "\<And>j m d. (m, Some d) \<in> List.set (inbox t j) \<Longrightarrow> (m, Some d) \<in> List.set (inbox s j)"
  shows "messages_inv F kind cs t"
proof (rule messages_inv_shrink [OF assms(1-4,6)])
  fix j m d
  assume "(m, Some d) \<in> List.set (inbox t j)"
  from assms(7) [OF this] show "\<exists>ns k. (d, ns, k) \<in> deleted t \<and> valid_utf8 ns \<and> message_of F kind ns k m"
    using assms(1,5) unfolding messages_inv_def by blast
qed

lemma messages_step:
  assumes "step s t" and "messages_inv F kind cs s" and "\<forall>i. ready F kind (cs i)"
  shows "messages_inv F kind cs t"
proof -
  have c: "same_config cs s" "same_config cs t" using assms(1,2) same_config_step by (auto simp: messages_inv_def)
  note mono = messages_inv_mono [OF assms(2) c(2)]
  show ?thesis using assms(1)
  proof cases
    case (step_delete k i m c)
    have m: "message_of F kind (namespace (cs i)) k m"
      using delete_message [OF step_delete(2)] c(1) assms(3) by (simp add: same_config_def ready_def)
    have "issued cs t = insert (ticket s, namespace (cs i), k) (issued cs s)" unfolding step_delete(1) by (auto simp: issued_def)
    moreover have "ticket t = ticket s + 1" "unpublished t = insert (i, m, k, ticket s) (unpublished s)" "inbox t = inbox s" "deleted t = deleted s"
      by (simp_all add: step_delete(1))
    moreover have "\<forall>d ns k. (d, ns, k) \<in> issued cs s \<longrightarrow> d < ticket s" using assms(2) unfolding messages_inv_def by blast
    moreover from this have "\<forall>ns k. (ticket s, ns, k) \<notin> issued cs s" by blast
    ultimately show ?thesis using assms(2) c(2) m unfolding messages_inv_def by (auto simp: less_Suc_eq)
  next
    case (step_published i m k d R)
    have ns: "namespace (caches s i) = namespace (cs i)" "valid_utf8 (namespace (cs i))" using c(1) assms(3) by (simp_all add: same_config_def ready_def)
    have m: "message_of F kind (namespace (cs i)) k m" using assms(2) step_published(2) unfolding messages_inv_def by blast
    have "issued cs t \<subseteq> issued cs s" unfolding step_published(1) using step_published(2) ns(1) by (auto simp: issued_def publish_def)
    moreover have inbox: "\<exists>ns k. (d', ns, k) \<in> deleted t \<and> valid_utf8 ns \<and> message_of F kind ns k m'" if "(m', Some d') \<in> List.set (inbox t j)" for j m' d'
    proof -
      have "(m', Some d') \<in> List.set (inbox s j) \<or> (m' = m \<and> d' = d)" using that by (auto simp: step_published(1) publish_def split: if_splits)
      moreover have "(d, namespace (cs i), k) \<in> deleted t" "deleted s \<subseteq> deleted t" using ns(1) by (auto simp: step_published(1) publish_def)
      ultimately show ?thesis using assms(2) m ns(2) unfolding messages_inv_def by blast
    qed
    moreover have "unpublished t \<subseteq> unpublished s" "ticket t = ticket s" by (auto simp: step_published(1) publish_def)
    ultimately show ?thesis by (intro messages_inv_shrink [OF assms(2) c(2)]) auto
  qed (rule mono; auto simp: issued_def split: if_splits)+
qed

lemma waiting_simps: "d \<in> waiting s j \<longleftrightarrow> (\<exists>m. (m, Some d) \<in> List.set (inbox s j)) \<or> (j, d) \<in> missed s"
  by (force simp: waiting_def image_iff)

text \<open>A write makes its entry newer than all deletes so far.\<close>

lemma entries_after_write:
  assumes "Set now k v (Some (caches s i)) = (None, Some c)" and "messages_inv F kind cs s" and "entries_inv F kind s"
    and "t = s\<lparr>caches := (caches s)(i := c), ticket := ticket s + 1, written := insert (ticket s, i, k, v) (written s)\<rparr>"
  shows "entries_inv F kind t"
  unfolding entries_inv_def
proof (intro allI impI)
  fix j x w e
  assume g: "good_key F kind x" and e: "entries (caches t j) x = Some (w, e)"
  have ns: "namespace (caches t j) = namespace (caches s j)" using op_config(1) [OF assms(1)] assms(4) by simp
  have l: "\<forall>d ns y. (d, ns, y) \<in> deleted s \<longrightarrow> d < ticket s" using assms(2) unfolding messages_inv_def issued_def by blast
  show "fresh_entry t j x w"
  proof (cases "j = i \<and> x = k")
    case True
    then have "w = v" using e op_entries(1) [OF assms(1)] assms(4) by simp
    then show ?thesis using True l assms(4) by (auto simp: fresh_entry_def)
  next
    case False
    then have "entries (caches s j) x = Some (w, e)" using e op_entries(1) [OF assms(1)] assms(4) by (auto split: if_splits)
    then have "fresh_entry s j x w" using assms(3) g by (auto simp: entries_inv_def)
    then show ?thesis by (rule fresh_entry_mono) (use ns in \<open>auto simp: assms(4) waiting_def\<close>)
  qed
qed

text \<open>A step that only removes entries or changes their expiry, and loses no message without counting it as missed.\<close>

lemma entries_inv_mono:
  assumes "entries_inv F kind s" and "\<And>j k v e. entries (caches t j) k = Some (v, e) \<Longrightarrow> \<exists>e'. entries (caches s j) k = Some (v, e')"
    and "written t = written s" and "deleted t = deleted s" and "\<And>j. waiting s j \<subseteq> waiting t j" and "\<And>j. namespace (caches t j) = namespace (caches s j)"
  shows "entries_inv F kind t"
  unfolding entries_inv_def
proof (intro allI impI)
  fix j k v e
  assume "good_key F kind k" "entries (caches t j) k = Some (v, e)"
  then have "fresh_entry s j k v" using assms(1) assms(2) [of j k v e] by (auto simp: entries_inv_def)
  then show "fresh_entry t j k v" by (rule fresh_entry_mono) (use assms(3-6) in auto)
qed

lemma entries_step:
  assumes "step s t" and "messages_inv F kind cs s" and "entries_inv F kind s" and "\<forall>i. ready F kind (cs i)" and "float_laws F"
  shows "entries_inv F kind t"
proof -
  have c: "same_config cs s" "same_config cs t" using assms(1,2) same_config_step by (auto simp: messages_inv_def)
  have ns: "namespace (caches t j) = namespace (caches s j)" for j using c by (simp add: same_config_def)
  note mono = entries_inv_mono [OF assms(3) _ _ _ _ ns]
  show ?thesis using assms(1)
  proof cases
    case (step_write k v ttl i c)
    show ?thesis by (rule entries_after_write [OF op_config(2) [OF step_write(2)] assms(2,3) step_write(1)])
  next
    case (step_set k v i c)
    show ?thesis by (rule entries_after_write [OF step_set(2) assms(2,3) step_set(1)])
  next
    case (step_published i m k d R)
    show ?thesis
      unfolding entries_inv_def
    proof (intro allI impI)
      fix j x v e
      assume g: "good_key F kind x" and "entries (caches t j) x = Some (v, e)"
      then have "fresh_entry s j x v" using assms(3) by (auto simp: entries_inv_def step_published(1) publish_def)
      moreover have "d \<in> waiting t j" by (auto simp: waiting_simps step_published(1) publish_def)
      moreover have "waiting s j \<subseteq> waiting t j" by (auto simp: waiting_simps step_published(1) publish_def)
      ultimately show "fresh_entry t j x v" unfolding fresh_entry_def by (auto simp: step_published(1) publish_def)
    qed
  next
    case (step_handle i m d' rest)
    show ?thesis
    proof (cases d')
      case None
      show ?thesis by (rule mono) (use step_handle None op_entries(4) in \<open>fastforce simp: waiting_simps split: if_splits\<close>)+
    next
      case (Some d)
      obtain ns' k where d: "(d, ns', k) \<in> deleted s" "valid_utf8 ns'" "message_of F kind ns' k m"
        using assms(2) step_handle(2) Some unfolding messages_inv_def by (metis list.set_intros(1))
      show ?thesis
        unfolding entries_inv_def
      proof (intro allI impI)
        fix j x v e
        assume g: "good_key F kind x" and e: "entries (caches t j) x = Some (v, e)"
        have "entries (caches s j) x = Some (v, e)" using e op_entries(4) by (auto simp: step_handle(1) split: if_splits)
        then have f: "fresh_entry s j x v" using assms(3) g by (auto simp: entries_inv_def)
        show "fresh_entry t j x v"
        proof (cases "j = i \<and> (d, namespace (caches s i), x) \<in> deleted s")
          case True
          then have "ns' = namespace (caches s i)" "k = x" using d(1) assms(2) unfolding messages_inv_def issued_def by blast+
          then have "entries (caches t j) x = None"
            using handled_message [OF d(3) assms(5)] g d(2) True c(1) assms(4) by (auto simp: step_handle(1) same_config_def ready_def)
          then show ?thesis using e by simp
        next
          case False
          then have "\<forall>y. (y, namespace (caches s j), x) \<in> deleted s \<longrightarrow> y \<in> waiting s j \<longrightarrow> y \<in> waiting t j"
            using step_handle Some by (auto simp: waiting_simps)
          then show ?thesis using f ns [of j] unfolding fresh_entry_def by (auto simp: step_handle(1))
        qed
      qed
    qed
  qed (rule mono; (use op_entries(2,3,5) in \<open>fastforce simp: waiting_simps Close_def split: if_splits\<close>))+
qed

lemma reachable_inv:
  assumes "reachable cs s" and "\<forall>i. ready F kind (cs i) \<and> entries (cs i) = Map.empty" and "float_laws F"
  shows "messages_inv F kind cs s \<and> entries_inv F kind s"
  using assms(1)
proof induction
  case start
  then show ?case using initial_inv assms(2) by blast
next
  case (next_step s t)
  then show ?case using messages_step entries_step assms(2,3) by blast
qed

text \<open>The instances of one key type that share a channel, as \<open>New\<close> builds them.\<close>

definition built :: "'f floats \<Rightarrow> key_kind \<Rightarrow> ('f, 'v) cache \<Rightarrow> bool" where
  "built F kind c \<longleftrightarrow> (\<exists>conf. New F kind (Some False) True True conf = Inr c \<and> HasRedis conf \<and> KeyCodec conf = None \<and> valid_utf8 (Namespace conf))"

lemma built_ready: "built F kind c \<Longrightarrow> ready F kind c \<and> entries c = Map.empty"
  by (auto simp: built_def ready_def New_def resolveCodec_def split: if_splits sum.splits)

text \<open>
  Deleted values do not come back (C37). Let any number of instances of one key type share a channel, built by \<open>New\<close> with the codec of the package and with a namespace
  that is valid UTF-8 (each its own), and let the key be of a supported kind: a valid UTF-8 string, a boolean, an integer, or a floating-point number that is not NaN.
  Then in every interleaving of their operations, with lost messages, failed publications, evictions and foreign messages, a
  value that \<open>Get\<close> returns was written on that instance, and written after every published deletion of its key in its namespace whose message the instance has
  handled; only deletions whose message is still under way, or was lost, can be missing. For keys that are no UTF-8 this fails (\<open>invalid_utf8_key_survives\<close>).
\<close>

theorem deleted_values_stay_away:
  assumes "reachable cs s" and "\<forall>i. built F kind (cs i)" and "float_laws F" and "good_key F kind k" and "Get (clock s) k (Some (caches s j)) = Some v"
  shows "\<exists>n. (n, j, k, v) \<in> written s \<and> (\<forall>d. (d, namespace (cs j), k) \<in> deleted s \<longrightarrow> d \<in> waiting s j \<or> d < n)"
proof -
  have i: "messages_inv F kind cs s" "entries_inv F kind s" using reachable_inv [OF assms(1) _ assms(3), of kind] built_ready assms(2) by blast+
  obtain e where "entries (caches s j) k = Some (v, e)" using assms(5) by (auto simp: Get_def GetIfPresent_def split: if_splits option.splits)
  then have "fresh_entry s j k v" using i(2) assms(4) by (auto simp: entries_inv_def)
  moreover have "namespace (caches s j) = namespace (cs j)" using i(1) by (simp add: messages_inv_def same_config_def)
  ultimately show ?thesis by (simp add: fresh_entry_def)
qed

definition demo_floats :: "int floats" where
  "demo_floats = \<lparr>representable = (\<lambda>w. in_i64), IsNaN = (\<lambda>x. False), FormatFloat = (\<lambda>w x. FormatInt x), ParseFloat = (\<lambda>w s. ParseInt s)\<rparr>"

definition demo_config :: "int config" where
  "demo_config = \<lparr>DefaultTTL = minute, Capacity = 0, HasRedis = True, PubSubChannel = ''c'', Namespace = ''n'', KeyCodec = None\<rparr>"

definition demo_cache :: "(int, nat) cache" where
  "demo_cache = \<lparr>entries = Map.empty, key_codec = Some (primitiveCodec demo_floats KString), redis = True, namespace = ''n'', default_ttl = minute, shut = False\<rparr>"

lemma demo_float_laws: "float_laws demo_floats"
proof -
  have d: "\<forall>c \<in> List.set (digits k). byte c < 128" for k using digits_sound [of k] by (auto simp: list_all_iff decimal_def)
  have m: "byte (CHR ''-'') < 128" by (simp add: byte_def)
  have a: "\<forall>c \<in> List.set (FormatInt x). byte c < 128" for x using d m by (auto simp: FormatInt_def)
  show ?thesis using a by (simp add: float_laws_def demo_floats_def ParseInt_FormatInt list_all_iff)
qed

lemma demo_built: "built demo_floats KString demo_cache"
proof -
  have t: "TrimSpace ''c'' = ''c''" "TrimSpace ''n'' = ''n''" by (simp_all add: TrimSpace_plain byte_def is_space_def)
  have v: "valid_utf8 ''n''" by (rule valid_utf8_ascii) (simp add: byte_def)
  show ?thesis unfolding built_def
    by (rule exI [of _ demo_config]) (simp add: v t New_def demo_config_def demo_cache_def resolveCodec_def cfg_simps MaxInt64_def)
qed

theorem deleted_values_stay_away_witness:
  "\<exists>s. reachable (\<lambda>_. demo_cache) s \<and> Get (clock s) (StringKey ''a'') (Some (caches s 1)) = Some 5 \<and> (\<exists>n. (n, 1, StringKey ''a'', 5) \<in> written s)"
proof -
  let ?i = "initial (\<lambda>_. demo_cache)"
  let ?c = "local_Set 0 (StringKey ''a'') 5 demo_cache"
  let ?s = "?i\<lparr>caches := (caches ?i)(1 := ?c), ticket := ticket ?i + 1, written := insert (ticket ?i, 1, StringKey ''a'', 5) (written ?i)\<rparr>"
  have "Set (clock ?i) (StringKey ''a'') 5 (Some (caches ?i 1)) = (None, Some ?c)"
    by (simp add: initial_def Set_def demo_cache_def validateKey_def primitiveCodec_def primitive_Encode_def)
  then have "step ?i ?s" by (rule step_set)
  then have r: "reachable (\<lambda>_. demo_cache) ?s" by (rule next_step [OF start])
  have g: "Get (clock ?s) (StringKey ''a'') (Some (caches ?s 1)) = Some 5"
    by (simp add: initial_def Get_def GetIfPresent_def local_Set_def demo_cache_def cfg_simps)
  have v: "good_key demo_floats KString (StringKey ''a'')" by (simp add: good_key_def valid_utf8_ascii byte_def)
  show ?thesis using deleted_values_stay_away [OF r _ demo_float_laws v g] demo_built r g by blast
qed

end
