(* ===== verification/Kc_Snowflake_Schema.thy ===== *)
theory Kc_Snowflake_Schema
  imports Kc_Snowflake
begin

text \<open>
  The start-up of a snowflake service, \<open>ensureTable\<close> in \<open>src/pkg/idgen/snowflake/schema.go\<close>: it creates the worker table, checks the one it finds, adds
  missing constraints and the coordinator row. Every statement commits on its own, so any number of services may be anywhere in the sequence: the sequence is a
  program counter with one statement per step, and each point has an assertion that the statements of all others preserve.

  The table is its columns, rows, keys and named checks, as the catalogue lists them.
\<close>

record workerColumn =
  col_name :: string
  col_type :: string
  col_nullable :: string
  col_length :: int64

record worker_table =
  wt_columns :: "workerColumn list"
  wt_rows :: "worker_row list"
  wt_keys :: "(string \<times> string list) list" \<comment> \<open>primary key and unique constraints with their columns\<close>
  wt_checks :: "string list"

section \<open>Names\<close>

text \<open>\<open>hash\<close> is the hexadecimal text of the first four bytes of SHA-256.\<close>

definition derivedIdentifier :: "(string \<Rightarrow> string) \<Rightarrow> storage \<Rightarrow> string \<Rightarrow> string" where
  "derivedIdentifier hash s suffix =
     (let candidate = st_tableName s @ suffix in
      if length candidate \<le> maxIdentifierLength then candidate
      else
        (let h = hash candidate; prefixLength = maxIdentifierLength - length suffix - length h - 1
         in take prefixLength (st_tableName s) @ ''_'' @ h @ suffix))"

section \<open>Statements\<close>

text \<open>\<open>strings.EqualFold\<close> on the ASCII names of types.\<close>

definition EqualFold :: "string \<Rightarrow> string \<Rightarrow> bool" where
  "EqualFold a b \<longleftrightarrow> map lower_char a = map lower_char b"

definition integerType :: "driver \<Rightarrow> string" where
  "integerType d = (if d = Pgx then ''integer'' else ''int'')"

definition textType :: "driver \<Rightarrow> string" where
  "textType d = (if d = Pgx then ''character varying'' else ''varchar'')"

definition expected_columns :: "driver \<Rightarrow> workerColumn list" where
  "expected_columns d =
     [\<lparr>col_name = ''worker_id'', col_type = integerType d, col_nullable = ''NO'', col_length = 0\<rparr>,
      \<lparr>col_name = ''last_timestamp'', col_type = ''bigint'', col_nullable = ''NO'', col_length = 0\<rparr>,
      \<lparr>col_name = ''ip_address'', col_type = textType d, col_nullable = ''NO'', col_length = 45\<rparr>,
      \<lparr>col_name = ''updated_at'', col_type = ''bigint'', col_nullable = ''NO'', col_length = 0\<rparr>,
      \<lparr>col_name = ''lease_token'', col_type = textType d, col_nullable = ''NO'', col_length = 64\<rparr>]"

definition incompatible :: "workerColumn \<Rightarrow> workerColumn \<Rightarrow> bool" where
  "incompatible actual want \<longleftrightarrow>
     col_name actual \<noteq> col_name want \<or> \<not> EqualFold (col_type actual) (col_type want) \<or> col_nullable actual \<noteq> col_nullable want
     \<or> (col_length want \<noteq> 0 \<and> col_length actual \<noteq> col_length want)"

definition validateWorkerColumns :: "driver \<Rightarrow> workerColumn list \<Rightarrow> snow_error option" where
  "validateWorkerColumns d columns =
     (if length columns \<noteq> 5 then Some ErrInvalidConfig
      else if \<exists>(actual, want) \<in> set (zip columns (expected_columns d)). incompatible actual want then Some ErrInvalidConfig
      else None)"

text \<open>What the server lists for the table of the CREATE statement; its column types are those the code expects.\<close>

definition created_table :: "driver \<Rightarrow> string \<Rightarrow> worker_table" where
  "created_table d rangeConstraint =
     \<lparr>wt_columns = expected_columns d, wt_rows = [], wt_keys = [(''PRIMARY'', [''worker_id''])], wt_checks = [rangeConstraint]\<rparr>"

definition create_table :: "driver \<Rightarrow> string \<Rightarrow> worker_table option \<Rightarrow> worker_table option" where
  "create_table d rangeConstraint db = (case db of None \<Rightarrow> Some (created_table d rangeConstraint) | Some t \<Rightarrow> Some t)"

definition in_range :: "worker_row \<Rightarrow> bool" where
  "in_range r \<longleftrightarrow> \<not> (worker_id r < coordinatorWorkerID \<or> worker_id r > MaxWorkerID)"

definition hasWorkerIDUniqueConstraint :: "worker_table \<Rightarrow> bool" where
  "hasWorkerIDUniqueConstraint t \<longleftrightarrow> (\<exists>(k, columns) \<in> set (wt_keys t). columns = [''worker_id''])"

definition hasNamedCheckConstraint :: "string \<Rightarrow> worker_table \<Rightarrow> bool" where
  "hasNamedCheckConstraint nm t \<longleftrightarrow> nm \<in> set (wt_checks t)"

text \<open>The server refuses a constraint whose name is taken or that the rows violate.\<close>

definition add_unique :: "string \<Rightarrow> worker_table \<Rightarrow> worker_table option" where
  "add_unique nm t =
     (if nm \<in> fst ` set (wt_keys t) \<or> \<not> pk worker_id (wt_rows t) then None else Some (t\<lparr>wt_keys := wt_keys t @ [(nm, [''worker_id''])]\<rparr>))"

definition add_check :: "string \<Rightarrow> worker_table \<Rightarrow> worker_table option" where
  "add_check nm t =
     (if nm \<in> set (wt_checks t) \<or> (\<exists>r \<in> set (wt_rows t). \<not> in_range r) then None else Some (t\<lparr>wt_checks := wt_checks t @ [nm]\<rparr>))"

text \<open>Inserted unless there is one. PostgreSQL refuses ON CONFLICT without a unique key; INSERT IGNORE of MySQL then inserts.\<close>

definition insert_coordinator :: "driver \<Rightarrow> int64 \<Rightarrow> worker_table \<Rightarrow> worker_table option" where
  "insert_coordinator d ep t =
     (if \<not> hasWorkerIDUniqueConstraint t \<and> d = Pgx then None
      else if hasWorkerIDUniqueConstraint t \<and> (\<exists>r \<in> set (wt_rows t). worker_id r = coordinatorWorkerID) then Some t
      else Some (t\<lparr>wt_rows := wt_rows t @ [coordinator_row ep]\<rparr>))"

definition read_coordinator :: "int64 \<Rightarrow> worker_table \<Rightarrow> snow_error option" where
  "read_coordinator ep t =
     (case sql_row (\<lambda>r. worker_id r = coordinatorWorkerID) (wt_rows t) of
        None \<Rightarrow> Some (ErrDB (DriverError 0)) \<comment> \<open>\<open>sql.ErrNoRows\<close>\<close>
      | Some r \<Rightarrow>
          if ip_address r \<noteq> coordinatorIPAddress \<or> updated_at r \<noteq> coordinatorUpdatedAt \<or> lease_token r \<noteq> coordinatorLeaseToken then Some ErrInvalidConfig
          else if last_timestamp r \<noteq> ep then Some ErrInvalidConfig
          else None)"

section \<open>The sequence\<close>

datatype position =
    AtCreate | AtSchema | AtColumns | AtRange | AtDuplicates | AtUnique | AtAddUnique | AtUniqueAgain snow_error
  | AtCheck | AtAddCheck | AtCheckAgain snow_error | AtInsert | AtRead | Finished "snow_error option"

text \<open>A query that fails ends the sequence; one on a table that is not there fails.\<close>

definition query :: "exec_outcome \<Rightarrow> worker_table option \<Rightarrow> (worker_table \<Rightarrow> position) \<Rightarrow> position" where
  "query r db k =
     (case r of
        CommitErr e _ \<Rightarrow> Finished (Some (ErrDB e))
      | CommitOk \<Rightarrow> (case db of None \<Rightarrow> Finished (Some (ErrDB (PgError ''42P01''))) | Some t \<Rightarrow> k t))"

text \<open>A statement may fail after it was applied; \<open>k\<close> continues with its error.\<close>

definition exec :: "exec_outcome \<Rightarrow> (worker_table \<Rightarrow> worker_table option) \<Rightarrow> worker_table option \<Rightarrow> (db_error option \<Rightarrow> position) \<Rightarrow> position \<times> worker_table option" where
  "exec r f db k =
     (case Option.bind db f of
        None \<Rightarrow> (k (Some (case r of CommitErr e _ \<Rightarrow> e | CommitOk \<Rightarrow> DriverError 1)), db)
      | Some t \<Rightarrow> (case r of CommitOk \<Rightarrow> (k None, Some t) | CommitErr e applied \<Rightarrow> (k (Some e), if applied then Some t else db)))"

text \<open>
  The methods, one statement at a time: \<open>r\<close> is how it ends. \<open>current\<close> is the answer for the current schema, empty for NULL.
\<close>

definition resolveSchemaName :: "storage \<Rightarrow> string \<Rightarrow> exec_outcome \<Rightarrow> snow_error option" where
  "resolveSchemaName s current r =
     (if st_namespace s \<noteq> [] then None
      else case r of CommitErr e _ \<Rightarrow> Some (ErrDB e) | CommitOk \<Rightarrow> if current = [] then Some ErrInvalidConfig else None)"

definition validateWorkerData :: "exec_outcome \<Rightarrow> position \<Rightarrow> worker_table option \<Rightarrow> position" where
  "validateWorkerData r p db =
     (if p = AtRange then query r db (\<lambda>t. if \<exists>w \<in> set (wt_rows t). \<not> in_range w then Finished (Some ErrInvalidConfig) else AtDuplicates)
      else query r db (\<lambda>t. if \<not> pk worker_id (wt_rows t) then Finished (Some ErrInvalidConfig) else AtUnique))"

definition ensureWorkerIDUnique :: "(string \<Rightarrow> string) \<Rightarrow> storage \<Rightarrow> exec_outcome \<Rightarrow> position \<Rightarrow> worker_table option \<Rightarrow> position \<times> worker_table option" where
  "ensureWorkerIDUnique hash s r p db =
     (case p of
        AtAddUnique \<Rightarrow>
          exec r (add_unique (derivedIdentifier hash s ''_worker_id_unique'')) db
            (\<lambda>err. case err of None \<Rightarrow> AtCheck | Some e \<Rightarrow> AtUniqueAgain (ErrDB e))
      | AtUniqueAgain e \<Rightarrow> (query r db (\<lambda>t. if hasWorkerIDUniqueConstraint t then AtCheck else Finished (Some e)), db)
      | _ \<Rightarrow> (query r db (\<lambda>t. if hasWorkerIDUniqueConstraint t then AtCheck else AtAddUnique), db))"

definition ensureWorkerIDRangeConstraint :: "string \<Rightarrow> exec_outcome \<Rightarrow> position \<Rightarrow> worker_table option \<Rightarrow> position \<times> worker_table option" where
  "ensureWorkerIDRangeConstraint constraintName r p db =
     (case p of
        AtAddCheck \<Rightarrow> exec r (add_check constraintName) db (\<lambda>err. case err of None \<Rightarrow> AtInsert | Some e \<Rightarrow> AtCheckAgain (ErrDB e))
      | AtCheckAgain e \<Rightarrow> (query r db (\<lambda>t. if hasNamedCheckConstraint constraintName t then AtInsert else Finished (Some e)), db)
      | _ \<Rightarrow> (query r db (\<lambda>t. if hasNamedCheckConstraint constraintName t then AtInsert else AtAddCheck), db))"

definition ensureCoordinator :: "driver \<Rightarrow> int64 \<Rightarrow> exec_outcome \<Rightarrow> position \<Rightarrow> worker_table option \<Rightarrow> position \<times> worker_table option" where
  "ensureCoordinator d ep r p db =
     (case p of
        AtInsert \<Rightarrow> exec r (insert_coordinator d ep) db (\<lambda>err. case err of None \<Rightarrow> AtRead | Some e \<Rightarrow> Finished (Some (ErrDB e)))
      | _ \<Rightarrow> (query r db (\<lambda>t. Finished (read_coordinator ep t)), db))"

lemmas part_defs [simp] = resolveSchemaName_def validateWorkerData_def ensureWorkerIDUnique_def ensureWorkerIDRangeConstraint_def ensureCoordinator_def

text \<open>
  \<open>ep\<close> is the configured epoch. Queries of the catalogue on a table that is not there return no rows.
\<close>

fun ensure_next :: "(string \<Rightarrow> string) \<Rightarrow> storage \<Rightarrow> string \<Rightarrow> int64 \<Rightarrow> exec_outcome \<Rightarrow> position \<Rightarrow> worker_table option \<Rightarrow> position \<times> worker_table option" where
  "ensure_next hash s current ep r AtCreate db =
     (let t = create_table (st_driver s) (derivedIdentifier hash s ''_worker_id_range'') db in
      case r of
        CommitOk \<Rightarrow> (AtSchema, t)
      | CommitErr e applied \<Rightarrow> (if isDuplicateKey e then AtSchema else Finished (Some (ErrDB e)), if applied then t else db))"
| "ensure_next hash s current ep r AtSchema db = (case resolveSchemaName s current r of Some e \<Rightarrow> Finished (Some e) | None \<Rightarrow> AtColumns, db)"
| "ensure_next hash s current ep r AtColumns db =
     (case r of
        CommitErr e _ \<Rightarrow> Finished (Some (ErrDB e))
      | CommitOk \<Rightarrow>
          (case validateWorkerColumns (st_driver s) (case db of None \<Rightarrow> [] | Some t \<Rightarrow> wt_columns t) of Some e \<Rightarrow> Finished (Some e) | None \<Rightarrow> AtRange), db)"
| "ensure_next hash s current ep r (Finished e) db = (Finished e, db)"
| "ensure_next hash s current ep r AtRange db = (validateWorkerData r AtRange db, db)"
| "ensure_next hash s current ep r AtDuplicates db = (validateWorkerData r AtDuplicates db, db)"
| "ensure_next hash s current ep r AtUnique db = ensureWorkerIDUnique hash s r AtUnique db"
| "ensure_next hash s current ep r AtAddUnique db = ensureWorkerIDUnique hash s r AtAddUnique db"
| "ensure_next hash s current ep r (AtUniqueAgain e) db = ensureWorkerIDUnique hash s r (AtUniqueAgain e) db"
| "ensure_next hash s current ep r AtCheck db = ensureWorkerIDRangeConstraint (derivedIdentifier hash s ''_worker_id_range'') r AtCheck db"
| "ensure_next hash s current ep r AtAddCheck db = ensureWorkerIDRangeConstraint (derivedIdentifier hash s ''_worker_id_range'') r AtAddCheck db"
| "ensure_next hash s current ep r (AtCheckAgain e) db = ensureWorkerIDRangeConstraint (derivedIdentifier hash s ''_worker_id_range'') r (AtCheckAgain e) db"
| "ensure_next hash s current ep r AtInsert db = ensureCoordinator (st_driver s) ep r AtInsert db"
| "ensure_next hash s current ep r AtRead db = ensureCoordinator (st_driver s) ep r AtRead db"

text \<open>A single service: one answer per statement.\<close>

definition ensureTable :: "(string \<Rightarrow> string) \<Rightarrow> storage \<Rightarrow> string \<Rightarrow> int64 \<Rightarrow> exec_outcome list \<Rightarrow> worker_table option \<Rightarrow> position \<times> worker_table option" where
  "ensureTable hash s current ep answers db =
     fold (\<lambda>r (p, db). ensure_next hash s current ep r p db) answers (AtCreate, db)"

section \<open>Any number of services\<close>

record startup =
  worker_db :: "worker_table option"
  positions :: "nat \<Rightarrow> position"

text \<open>
  Services that already run, and other writers, change worker rows within the constraints: they leave the coordinator rows alone and add no worker outside the range.
\<close>

definition workers_change :: "worker_table \<Rightarrow> worker_row list \<Rightarrow> bool" where
  "workers_change t rows \<longleftrightarrow>
     filter (\<lambda>r. worker_id r = coordinatorWorkerID) rows = filter (\<lambda>r. worker_id r = coordinatorWorkerID) (wt_rows t)
     \<and> (\<forall>r \<in> set rows. in_range r \<or> r \<in> set (wt_rows t)) \<and> (hasWorkerIDUniqueConstraint t \<longrightarrow> pk worker_id rows)"

inductive startup_step :: "(string \<Rightarrow> string) \<Rightarrow> storage \<Rightarrow> string \<Rightarrow> (nat \<Rightarrow> int64) \<Rightarrow> startup \<Rightarrow> startup \<Rightarrow> bool" for hash s current epochs where
  step_ensure: "ensure_next hash s current (epochs i) r (positions \<sigma> i) (worker_db \<sigma>) = (p, db)
    \<Longrightarrow> startup_step hash s current epochs \<sigma> (\<sigma>\<lparr>worker_db := db, positions := (positions \<sigma>)(i := p)\<rparr>)"
| step_workers: "worker_db \<sigma> = Some t \<Longrightarrow> workers_change t rows
    \<Longrightarrow> startup_step hash s current epochs \<sigma> (\<sigma>\<lparr>worker_db := Some (t\<lparr>wt_rows := rows\<rparr>)\<rparr>)"

inductive started :: "(string \<Rightarrow> string) \<Rightarrow> storage \<Rightarrow> string \<Rightarrow> (nat \<Rightarrow> int64) \<Rightarrow> worker_table option \<Rightarrow> startup \<Rightarrow> bool" for hash s current epochs db where
  start: "started hash s current epochs db \<lparr>worker_db = db, positions = (\<lambda>_. AtCreate)\<rparr>"
| next_step: "started hash s current epochs db \<sigma> \<Longrightarrow> startup_step hash s current epochs \<sigma> \<tau> \<Longrightarrow> started hash s current epochs db \<tau>"

section \<open>The proof outline\<close>

text \<open>What is established at each point, cumulatively.\<close>

fun stage :: "position \<Rightarrow> nat" where
  "stage AtCreate = 0" | "stage AtSchema = 0" | "stage AtColumns = 0"
| "stage AtRange = 1"
| "stage AtDuplicates = 2" | "stage AtUnique = 2" | "stage AtAddUnique = 2" | "stage (AtUniqueAgain e) = 2"
| "stage AtCheck = 3" | "stage AtAddCheck = 3" | "stage (AtCheckAgain e) = 3"
| "stage AtInsert = 4" | "stage AtRead = 4"
| "stage (Finished (Some e)) = 0" | "stage (Finished None) = 5"

definition ready :: "(string \<Rightarrow> string) \<Rightarrow> storage \<Rightarrow> int64 \<Rightarrow> nat \<Rightarrow> worker_table \<Rightarrow> bool" where
  "ready hash s ep n t \<longleftrightarrow>
     (1 \<le> n \<longrightarrow> validateWorkerColumns (st_driver s) (wt_columns t) = None)
     \<and> (2 \<le> n \<longrightarrow> (\<forall>r \<in> set (wt_rows t). in_range r))
     \<and> (3 \<le> n \<longrightarrow> hasWorkerIDUniqueConstraint t)
     \<and> (4 \<le> n \<longrightarrow> hasNamedCheckConstraint (derivedIdentifier hash s ''_worker_id_range'') t)
     \<and> (5 \<le> n \<longrightarrow> coordinator_row ep \<in> set (wt_rows t))"

definition outline :: "(string \<Rightarrow> string) \<Rightarrow> storage \<Rightarrow> int64 \<Rightarrow> position \<Rightarrow> worker_table option \<Rightarrow> bool" where
  "outline hash s ep p db \<longleftrightarrow> stage p = 0 \<or> (\<exists>t. db = Some t \<and> ready hash s ep (stage p) t)"

text \<open>The server keeps unique keys.\<close>

definition consistent :: "worker_table option \<Rightarrow> bool" where
  "consistent db \<longleftrightarrow> (\<forall>t. db = Some t \<longrightarrow> hasWorkerIDUniqueConstraint t \<longrightarrow> pk worker_id (wt_rows t))"

text \<open>No statement takes anything away.\<close>

definition keeps :: "(string \<Rightarrow> string) \<Rightarrow> storage \<Rightarrow> worker_table option \<Rightarrow> worker_table option \<Rightarrow> bool" where
  "keeps hash s db db' \<longleftrightarrow> (\<forall>t. db = Some t \<longrightarrow> (\<exists>t'. db' = Some t' \<and> (\<forall>ep n. ready hash s ep n t \<longrightarrow> ready hash s ep n t')))"

lemma keeps_refl: "keeps hash s db db"
  by (simp add: keeps_def)

lemma keeps_outline: "keeps hash s db db' \<Longrightarrow> outline hash s ep p db \<Longrightarrow> outline hash s ep p db'"
  by (auto simp: keeps_def outline_def)

lemma coordinator_in_range: "in_range (coordinator_row ep)"
  by (simp add: in_range_def coordinator_row_def coordinatorWorkerID_def MaxWorkerID_def)

lemma unique_rows [simp]: "hasWorkerIDUniqueConstraint (t\<lparr>wt_rows := rows\<rparr>) = hasWorkerIDUniqueConstraint t"
  by (simp add: hasWorkerIDUniqueConstraint_def)

lemma check_rows [simp]: "hasNamedCheckConstraint nm (t\<lparr>wt_rows := rows\<rparr>) = hasNamedCheckConstraint nm t"
  by (simp add: hasNamedCheckConstraint_def)

lemma created_consistent: "consistent (Some (created_table d nm))"
  by (simp add: consistent_def created_table_def pk_def)

lemma add_unique_keeps:
  assumes "add_unique nm t = Some t'"
  shows "keeps hash s (Some t) (Some t')" and "consistent (Some t')" and "hasWorkerIDUniqueConstraint t'"
  using assms by (auto simp: add_unique_def keeps_def ready_def consistent_def hasWorkerIDUniqueConstraint_def hasNamedCheckConstraint_def split: if_splits)

lemma add_check_keeps:
  assumes "add_check nm t = Some t'" and "consistent (Some t)"
  shows "keeps hash s (Some t) (Some t')" and "consistent (Some t')" and "hasNamedCheckConstraint nm t'"
  using assms by (auto simp: add_check_def keeps_def ready_def consistent_def hasWorkerIDUniqueConstraint_def hasNamedCheckConstraint_def split: if_splits)

lemma insert_coordinator_keeps:
  assumes "insert_coordinator d ep t = Some t'" and "consistent (Some t)"
  shows "keeps hash s (Some t) (Some t')" and "consistent (Some t')"
proof -
  have t': "t' = t \<or> t' = t\<lparr>wt_rows := wt_rows t @ [coordinator_row ep]\<rparr> \<and> (hasWorkerIDUniqueConstraint t \<longrightarrow> coordinatorWorkerID \<notin> worker_id ` set (wt_rows t))"
    using assms(1) by (auto simp: insert_coordinator_def split: if_splits)
  then show "keeps hash s (Some t) (Some t')"
    using coordinator_in_range by (auto simp: keeps_def ready_def)
  have "worker_id (coordinator_row ep) = coordinatorWorkerID" by (simp add: coordinator_row_def)
  then show "consistent (Some t')"
    using t' assms(2) by (auto simp: consistent_def pk_snoc)
qed

lemma workers_change_keeps:
  assumes "workers_change t rows"
  shows "keeps hash s (Some t) (Some (t\<lparr>wt_rows := rows\<rparr>))" and "consistent (Some (t\<lparr>wt_rows := rows\<rparr>))"
proof -
  have "coordinator_row ep \<in> set rows" if "coordinator_row ep \<in> set (wt_rows t)" for ep
  proof -
    have "coordinator_row ep \<in> set (filter (\<lambda>r. worker_id r = coordinatorWorkerID) (wt_rows t))" using that by (simp add: coordinator_row_def)
    also have "\<dots> = set (filter (\<lambda>r. worker_id r = coordinatorWorkerID) rows)" using assms by (simp add: workers_change_def)
    finally show ?thesis by simp
  qed
  then show "keeps hash s (Some t) (Some (t\<lparr>wt_rows := rows\<rparr>))"
    using assms by (auto simp: workers_change_def keeps_def ready_def)
  show "consistent (Some (t\<lparr>wt_rows := rows\<rparr>))"
    using assms by (auto simp: workers_change_def consistent_def)
qed

text \<open>What the operations of running services do to the table is such a change.\<close>

lemma workers_change_refl: "consistent (Some t) \<Longrightarrow> workers_change t (wt_rows t)"
  by (simp add: workers_change_def consistent_def)

lemma workers_change_update:
  assumes "consistent (Some t)" and "\<And>r. p r \<Longrightarrow> r \<in> set (wt_rows t) \<Longrightarrow> 0 \<le> worker_id r \<and> worker_id r \<le> MaxWorkerID" and "\<And>r. worker_id (f r) = worker_id r"
  shows "workers_change t (sql_update p f (wt_rows t))"
proof -
  have "filter (\<lambda>r. worker_id r = coordinatorWorkerID) (sql_update p f rows) = filter (\<lambda>r. worker_id r = coordinatorWorkerID) rows"
    if "set rows \<subseteq> set (wt_rows t)" for rows
    using that
  proof (induction rows)
    case (Cons r rs)
    then show ?case using assms(2) [of r] assms(3) by (auto simp: sql_update_def coordinatorWorkerID_def)
  qed (simp add: sql_update_def)
  moreover have "in_range r \<or> r \<in> set (wt_rows t)" if "r \<in> set (sql_update p f (wt_rows t))" for r
    using that assms(2,3) by (fastforce simp: sql_update_def in_range_def coordinatorWorkerID_def)
  ultimately show ?thesis using assms(1,3) pk_sql_update [of worker_id "wt_rows t" p f] by (simp add: workers_change_def consistent_def)
qed

lemma workers_change_insert:
  assumes "consistent (Some t)" and "0 \<le> worker_id r" and "worker_id r \<le> MaxWorkerID" and "worker_id r \<notin> worker_id ` set (wt_rows t)"
  shows "workers_change t (wt_rows t @ [r])"
  using assms by (simp add: workers_change_def consistent_def pk_snoc in_range_def coordinatorWorkerID_def)

lemma allocation_changes_workers:
  assumes "consistent (Some t)" and "hasWorkerIDUniqueConstraint t"
  shows "workers_change t (snd (allocateWorkerOnce d flt c now token ip ep (wt_rows t)))"
proof -
  note same = workers_change_refl [OF assms(1)]
  have p: "pk worker_id (wt_rows t)" using assms by (simp add: consistent_def)
  have reclaim: "workers_change t (snd (reclaim_worker flt c now g token ip w (wt_rows t)))" if "0 \<le> worker_id w" "worker_id w \<le> MaxWorkerID" for g w
  proof -
    let ?f = "\<lambda>r. r\<lparr>last_timestamp := max (last_timestamp w) (max g now), ip_address := ip, updated_at := now, lease_token := token\<rparr>"
    have "workers_change t (sql_update (\<lambda>r. worker_id r = worker_id w) ?f (wt_rows t))" by (rule workers_change_update [OF assms(1)]) (use that in simp_all)
    then show ?thesis using same by (auto simp: reclaim_worker_def Let_def finish_commit_def split: option.splits commit_outcome.splits)
  qed
  have insert: "workers_change t (snd (insert_worker d flt c now g token ip wid (wt_rows t)))" if "0 \<le> wid" "wid \<le> MaxWorkerID" for g wid
    using same that workers_change_insert [OF assms(1)]
    by (auto simp: insert_worker_def Let_def finish_commit_def split: option.splits commit_outcome.splits if_splits)
  have e: "0 \<le> worker_id w \<and> worker_id w \<le> MaxWorkerID" if "expired_workers now (wt_rows t) = w # ws" for w ws
  proof -
    have "w \<in> set (expired_workers now (wt_rows t))" by (simp add: that)
    then show ?thesis by (simp add: expired_workers_def set_sql_select)
  qed
  have f: "0 \<le> wid \<and> wid \<le> MaxWorkerID" if "findAvailableWorkerID x (wt_rows t) = Inr wid" for x wid
    using that findAvailable_props [OF p refl, unfolded findAvailableWorkerID_def]
    by (cases x) (auto simp: findAvailableWorkerID_def Let_def split: if_splits)
  show ?thesis using same reclaim insert e f by (auto simp: allocateWorkerOnce_def split: option.splits list.splits sum.splits)
qed

lemma lease_changes_workers:
  assumes "consistent (Some t)"
  shows "workers_change t (snd (heartbeat found ended rows now wid token ts (wt_rows t)))"
    and "workers_change t (snd (release ended now wid token ts (wt_rows t)))"
proof -
  have u: "workers_change t (sql_update (owns_row wid token) (heartbeat_set ts now) (wt_rows t))"
    "workers_change t (sql_update (owns_row wid token) (release_set ts now) (wt_rows t))"
    by (rule workers_change_update [OF assms]; simp add: owns_row_def heartbeat_set_def release_set_def)+
  show "workers_change t (snd (heartbeat found ended rows now wid token ts (wt_rows t)))"
    using heartbeat_table [of found ended rows now wid token ts "wt_rows t"] u(1) workers_change_refl [OF assms] by auto
  show "workers_change t (snd (release ended now wid token ts (wt_rows t)))"
    using u(2) workers_change_refl [OF assms] by (auto simp: release_def committed_def split: commit_outcome.splits)
qed

text \<open>A statement that takes nothing away does so, however it ends.\<close>

lemma exec_keeps:
  assumes "exec r f db k = (p, db')" and "\<And>t t'. db = Some t \<Longrightarrow> f t = Some t' \<Longrightarrow> keeps hash s db (Some t') \<and> consistent (Some t')" and "consistent db"
  shows "keeps hash s db db' \<and> consistent db'"
proof (cases "Option.bind db f")
  case None
  then show ?thesis using assms keeps_refl by (auto simp: exec_def)
next
  case (Some t')
  then obtain t where "db = Some t" "f t = Some t'" by (auto simp: bind_eq_Some_conv)
  then show ?thesis using assms(1,3) assms(2) [of t t'] Some keeps_refl by (auto simp: exec_def split: commit_outcome.splits if_splits)
qed

lemma exec_ok:
  assumes "exec r f db k = (p, db')"
  obtains t t' where "db = Some t" and "f t = Some t'" and "db' = Some t'" and "p = k None" | e where "p = k (Some e)"
proof (cases "Option.bind db f")
  case None
  then show ?thesis using assms that(2) by (auto simp: exec_def)
next
  case (Some t')
  then obtain t where t: "db = Some t" "f t = Some t'" by (auto simp: bind_eq_Some_conv)
  show ?thesis
  proof (cases r)
    case CommitOk
    then have "db' = Some t'" "p = k None" using assms Some by (simp_all add: exec_def)
    then show ?thesis using that(1) t by blast
  qed (use assms Some that(2) in \<open>auto simp: exec_def\<close>)
qed

lemma ensure_keeps:
  assumes "ensure_next hash s current ep r p db = (p', db')" and "consistent db"
  shows "keeps hash s db db' \<and> consistent db'"
proof (cases p)
  case AtCreate
  have "keeps hash s db (create_table (st_driver s) nm db) \<and> consistent (create_table (st_driver s) nm db)" for nm
    using assms(2) created_consistent by (auto simp: create_table_def keeps_def split: option.splits)
  then show ?thesis using assms keeps_refl AtCreate by (auto simp: Let_def split: commit_outcome.splits if_splits)
next
  case AtAddUnique
  show ?thesis
    by (rule exec_keeps [OF _ _ assms(2)]) (use assms(1) AtAddUnique add_unique_keeps in \<open>auto\<close>)
next
  case AtAddCheck
  show ?thesis
    by (rule exec_keeps [OF _ _ assms(2)]) (use assms AtAddCheck add_check_keeps in \<open>auto\<close>)
next
  case AtInsert
  show ?thesis
    by (rule exec_keeps [OF _ _ assms(2)]) (use assms AtInsert insert_coordinator_keeps in \<open>auto\<close>)
qed (use assms keeps_refl in \<open>auto split: option.splits\<close>)

lemma read_coordinator_row: "read_coordinator ep t = None \<Longrightarrow> coordinator_row ep \<in> set (wt_rows t)"
proof -
  assume a: "read_coordinator ep t = None"
  then obtain r where r: "sql_row (\<lambda>r. worker_id r = coordinatorWorkerID) (wt_rows t) = Some r"
    "ip_address r = coordinatorIPAddress" "updated_at r = coordinatorUpdatedAt" "lease_token r = coordinatorLeaseToken" "last_timestamp r = ep"
    by (auto simp: read_coordinator_def split: option.splits if_splits)
  then have "r = coordinator_row ep" using sql_row_SomeD [OF r(1)] by (cases r) (simp add: coordinator_row_def)
  then show ?thesis using sql_row_SomeD [OF r(1)] by simp
qed

lemma query_ok:
  assumes "query r db k = p"
  obtains t where "db = Some t" and "p = k t" | e where "p = Finished (Some e)"
  using assms by (cases db) (auto simp: query_def split: commit_outcome.splits)

lemma ready_next: "ready hash s ep n t \<Longrightarrow> m \<le> n \<Longrightarrow> ready hash s ep m t"
  by (auto simp: ready_def)
text \<open>Each step establishes the assertion of the point it leads to.\<close>

lemma ensure_outline:
  assumes "ensure_next hash s current ep r p db = (p', db')" and "consistent db" and "outline hash s ep p db"
  shows "outline hash s ep p' db'"
proof -
  have keep: "keeps hash s db db'" using ensure_keeps [OF assms(1,2)] by blast
  show ?thesis
  proof (cases p)
    case AtCreate
    then show ?thesis using assms(1) by (auto simp: Let_def outline_def split: commit_outcome.splits if_splits)
  next
    case AtSchema
    then show ?thesis using assms(1) by (auto simp: outline_def split: commit_outcome.splits if_splits)
  next
    case AtColumns
    have "validateWorkerColumns (st_driver s) [] \<noteq> None" by (simp add: validateWorkerColumns_def)
    then show ?thesis using assms(1) AtColumns by (cases db) (auto simp: outline_def ready_def split: commit_outcome.splits option.splits)
  next
    case AtAddUnique
    then have e: "exec r (add_unique (derivedIdentifier hash s ''_worker_id_unique'')) db
       (\<lambda>err. case err of None \<Rightarrow> AtCheck | Some e \<Rightarrow> AtUniqueAgain (ErrDB e)) = (p', db')" using assms(1) by simp
    show ?thesis using e
    proof (cases rule: exec_ok)
      case (1 t t')
      have "ready hash s ep 2 t'" using keeps_outline [OF keep assms(3)] 1 AtAddUnique by (simp add: outline_def)
      then show ?thesis using 1 add_unique_keeps(3) [OF 1(2)] by (simp add: outline_def ready_def)
    next
      case (2 e)
      then show ?thesis using keeps_outline [OF keep assms(3)] AtAddUnique by (simp add: outline_def)
    qed
  next
    case AtAddCheck
    then have e: "exec r (add_check (derivedIdentifier hash s ''_worker_id_range'')) db
       (\<lambda>err. case err of None \<Rightarrow> AtInsert | Some e \<Rightarrow> AtCheckAgain (ErrDB e)) = (p', db')" using assms(1) by simp
    show ?thesis using e
    proof (cases rule: exec_ok)
      case (1 t t')
      have "ready hash s ep 3 t'" using keeps_outline [OF keep assms(3)] 1 AtAddCheck by (simp add: outline_def)
      then show ?thesis using 1 assms(2) add_check_keeps(3) [OF 1(2)] by (simp add: outline_def ready_def)
    next
      case (2 e)
      then show ?thesis using keeps_outline [OF keep assms(3)] AtAddCheck by (simp add: outline_def)
    qed
  next
    case AtInsert
    then have e: "exec r (insert_coordinator (st_driver s) ep) db (\<lambda>err. case err of None \<Rightarrow> AtRead | Some e \<Rightarrow> Finished (Some (ErrDB e))) = (p', db')"
      using assms(1) by simp
    show ?thesis using e
    proof (cases rule: exec_ok)
      case (1 t t')
      then show ?thesis using keeps_outline [OF keep assms(3)] AtInsert by (simp add: outline_def)
    qed (simp add: outline_def)
  next
    case AtRead
    then have e: "query r db (\<lambda>t. Finished (read_coordinator ep t)) = p'" "db' = db" using assms(1) by auto
    show ?thesis using e(1)
    proof (cases rule: query_ok)
      case (1 t)
      then show ?thesis using e(2) assms(3) AtRead read_coordinator_row [of ep t]
        by (cases "read_coordinator ep t") (auto simp: outline_def ready_def)
    qed (simp add: outline_def)
  qed (use assms in \<open>auto simp: outline_def ready_def query_def split: commit_outcome.splits option.splits if_splits\<close>)
qed

lemma started_inv:
  assumes "started hash s current epochs db \<sigma>" and "consistent db"
  shows "consistent (worker_db \<sigma>) \<and> (\<forall>i. outline hash s (epochs i) (positions \<sigma> i) (worker_db \<sigma>))"
  using assms(1)
proof induction
  case start
  then show ?case using assms(2) by (simp add: outline_def)
next
  case (next_step \<sigma> \<tau>)
  have c: "consistent (worker_db \<sigma>)" and o: "outline hash s (epochs i) (positions \<sigma> i) (worker_db \<sigma>)" for i using next_step.IH by blast+
  from next_step.hyps(2) show ?case
  proof cases
    case (step_ensure i r p db')
    show ?thesis using ensure_keeps [OF step_ensure(2) c] ensure_outline [OF step_ensure(2) c o] keeps_outline o
      by (auto simp: step_ensure(1))
  next
    case (step_workers t rows)
    show ?thesis using workers_change_keeps [OF step_workers(3)] step_workers(2) keeps_outline o by (simp add: step_workers(1)) metis
  qed
qed

text \<open>
  One epoch (C38). However the start-ups of any number of services are interleaved with each other and with running services, with every failure, and whatever
  table they found: once a start-up has returned nil, the table has the expected columns, the unique key and the range constraint, its workers are in the range and
  each has one row, and its coordinator row is the one of the epoch of that service; so all services that start on one table agree on the epoch, from then on.
\<close>

theorem startup_agrees_on_epoch:
  assumes "started hash s current epochs db \<sigma>" and "consistent db" and "positions \<sigma> i = Finished None"
  shows "\<exists>t. worker_db \<sigma> = Some t \<and> validateWorkerColumns (st_driver s) (wt_columns t) = None \<and> hasWorkerIDUniqueConstraint t
      \<and> hasNamedCheckConstraint (derivedIdentifier hash s ''_worker_id_range'') t \<and> (\<forall>r \<in> set (wt_rows t). - 1 \<le> worker_id r \<and> worker_id r \<le> MaxWorkerID)
      \<and> pk worker_id (wt_rows t) \<and> coordinator_row (epochs i) \<in> set (wt_rows t)
      \<and> (\<forall>j. positions \<sigma> j = Finished None \<longrightarrow> epochs j = epochs i)"
proof -
  have inv: "consistent (worker_db \<sigma>)" "outline hash s (epochs j) (positions \<sigma> j) (worker_db \<sigma>)" for j using started_inv [OF assms(1,2)] by blast+
  obtain t where t: "worker_db \<sigma> = Some t" "ready hash s (epochs i) 5 t" using inv(2) [of i] assms(3) by (auto simp: outline_def)
  have p: "pk worker_id (wt_rows t)" using inv(1) t by (simp add: consistent_def ready_def)
  have "epochs j = epochs i" if "positions \<sigma> j = Finished None" for j
  proof -
    have "coordinator_row (epochs j) \<in> set (wt_rows t)" using inv(2) [of j] that t(1) by (simp add: outline_def ready_def)
    moreover have "coordinator_row (epochs i) \<in> set (wt_rows t)" using t(2) by (simp add: ready_def)
    ultimately have "coordinator_row (epochs j) = coordinator_row (epochs i)" using pk_unique [OF p, of "coordinator_row (epochs j)" "coordinator_row (epochs i)"] by (simp add: coordinator_row_def)
    then show ?thesis by (simp add: coordinator_row_def)
  qed
  then show ?thesis using t p by (auto simp: ready_def in_range_def coordinatorWorkerID_def)
qed

section \<open>Examples and names\<close>

text \<open>A service that starts alone on an empty database succeeds; so does a second one with its epoch, and one with another epoch is refused.\<close>

definition demo_storage :: storage where
  "demo_storage = \<lparr>st_driver = Pgx, st_namespace = ''ids'', st_tableName = ''workers'', st_table = ''ids.workers''\<rparr>"

lemma demo_ensure: "ensureTable (\<lambda>_. []) demo_storage [] 7 (replicate 9 CommitOk) None
   = (Finished None, Some ((created_table Pgx ''workers_worker_id_range'')\<lparr>wt_rows := [coordinator_row 7]\<rparr>))"
  by (simp add: ensureTable_def numeral_eq_Suc) code_simp

theorem startup_with_another_epoch:
  "fst (ensureTable (\<lambda>_. []) demo_storage [] 7 (replicate 9 CommitOk) (Some ((created_table Pgx ''workers_worker_id_range'')\<lparr>wt_rows := [coordinator_row 7]\<rparr>))) = Finished None
   \<and> fst (ensureTable (\<lambda>_. []) demo_storage [] 8 (replicate 9 CommitOk) (Some ((created_table Pgx ''workers_worker_id_range'')\<lparr>wt_rows := [coordinator_row 7]\<rparr>)))
       = Finished (Some ErrInvalidConfig)"
  by code_simp

text \<open>A run of \<open>ensureTable\<close> is a sequence of steps of the system.\<close>

lemma started_ensure:
  assumes "started hash s current epochs db \<sigma>" and "fold (\<lambda>r (p, d). ensure_next hash s current (epochs i) r p d) answers (positions \<sigma> i, worker_db \<sigma>) = (p', d')"
  shows "started hash s current epochs db (\<sigma>\<lparr>worker_db := d', positions := (positions \<sigma>)(i := p')\<rparr>)"
  using assms
proof (induction answers arbitrary: \<sigma>)
  case Nil
  then have "p' = positions \<sigma> i" "d' = worker_db \<sigma>" by auto
  then show ?case using Nil.prems(1) by simp
next
  case (Cons r rs)
  obtain p d where n: "ensure_next hash s current (epochs i) r (positions \<sigma> i) (worker_db \<sigma>) = (p, d)" by (cases "ensure_next hash s current (epochs i) r (positions \<sigma> i) (worker_db \<sigma>)")
  have "started hash s current epochs db (\<sigma>\<lparr>worker_db := d, positions := (positions \<sigma>)(i := p)\<rparr>)"
    by (rule next_step [OF Cons.prems(1)]) (rule step_ensure, rule n)
  from Cons.IH [OF this] show ?case using Cons.prems(2) n by (simp del: fun_upd_apply add: fun_upd_same)
qed

theorem startup_agrees_on_epoch_witness:
  "\<exists>\<sigma> t. started (\<lambda>_. []) demo_storage [] (\<lambda>_. 7) None \<sigma> \<and> positions \<sigma> 0 = Finished None \<and> positions \<sigma> 1 = Finished None
     \<and> worker_db \<sigma> = Some t \<and> coordinator_row 7 \<in> set (wt_rows t)"
proof -
  let ?t = "Some ((created_table Pgx ''workers_worker_id_range'')\<lparr>wt_rows := [coordinator_row 7]\<rparr>)"
  let ?\<sigma> = "\<lparr>worker_db = ?t, positions = (\<lambda>_. AtCreate)(0 := Finished None)\<rparr>"
  let ?\<tau> = "\<lparr>worker_db = ?t, positions = (\<lambda>_. AtCreate)(0 := Finished None, 1 := Finished None)\<rparr>"
  have s: "started (\<lambda>_. []) demo_storage [] (\<lambda>_. 7) None ?\<sigma>"
    using started_ensure [OF start, where i = 0 and answers = "replicate 9 CommitOk"] demo_ensure by (simp add: ensureTable_def)
  have "ensureTable (\<lambda>_. []) demo_storage [] 7 (replicate 9 CommitOk) ?t = (Finished None, ?t)" by code_simp
  then have u: "started (\<lambda>_. []) demo_storage [] (\<lambda>_. 7) None ?\<tau>"
    using started_ensure [OF s, where i = 1 and answers = "replicate 9 CommitOk"] by (simp add: ensureTable_def)
  have c: "consistent None" by (simp add: consistent_def)
  show ?thesis using startup_agrees_on_epoch [OF u c, of 0] u by auto
qed

text \<open>Derived names fit and are identifiers.\<close>

lemma derivedIdentifier_ok:
  assumes "identifierPattern (st_tableName s)" and "length (st_tableName s) \<le> maxIdentifierLength" and "\<And>x. length (hash x) = 8 \<and> list_all ident_char (hash x)"
    and "list_all ident_char suffix" and "length suffix \<le> 17"
  shows "identifierPattern (derivedIdentifier hash s suffix) \<and> length (derivedIdentifier hash s suffix) \<le> maxIdentifierLength"
proof (cases "length (st_tableName s @ suffix) \<le> maxIdentifierLength")
  case True
  then show ?thesis using assms by (cases "st_tableName s") (simp_all add: derivedIdentifier_def Let_def)
next
  case False
  let ?h = "hash (st_tableName s @ suffix)"
  let ?n = "maxIdentifierLength - length suffix - length ?h - 1"
  have h: "length ?h = 8" "list_all ident_char ?h" using assms(3) by blast+
  have n: "?n \<ge> 37" "?n \<le> 54" using h(1) assms(5) by (simp_all add: maxIdentifierLength_def)
  have u: "ident_char (CHR ''_'')" by (simp add: ident_char_def ident_start_def byte_in_def byte_def)
  obtain c cs where "st_tableName s = c # cs" using assms(1) by (cases "st_tableName s") auto
  then have "identifierPattern (take ?n (st_tableName s) @ ''_'' @ ?h @ suffix)"
    using assms(1,4) h(2) u n(1) by (cases ?n) (auto simp: list_all_iff dest: in_set_takeD)
  moreover have "length (take ?n (st_tableName s) @ ''_'' @ ?h @ suffix) \<le> maxIdentifierLength"
    using h(1) assms(5) by (simp add: maxIdentifierLength_def)
  ultimately show ?thesis using False by (simp add: derivedIdentifier_def Let_def)
qed

end
