(* ===== verification/Kc_Outbox_Schema.thy ===== *)
theory Kc_Outbox_Schema
  imports "HOL-Library.Sublist" Kc_Outbox Kc_Gen_Text
begin

text \<open>
  Creation and validation of the outbox tables, \<open>src/pkg/outbox/schema.go\<close>. The DDL is the text the code builds; the tables it makes are what the
  catalogue of the server then answers to the validating queries (\<open>table_info\<close>), by the documented effect of the statements. \<open>hash\<close> stands for the
  hexadecimal text of the first six bytes of SHA-256, \<open>q\<close> for the way PostgreSQL prints an identifier.
\<close>

section \<open>Names\<close>

record names =
  postgres :: bool
  schema :: string
  messages_name :: string
  nodes_name :: string
  shards_name :: string

text \<open>\<open>newSQLStorage\<close> and the schema that \<open>ensureSchema\<close> finds.\<close>

definition storage_names :: "driver \<Rightarrow> string \<Rightarrow> string \<Rightarrow> names" where
  "storage_names d tableSuffix sch =
     (let suffix = (if tableSuffix \<noteq> [] then ''_'' @ tableSuffix else []) in
      \<lparr>postgres = (d = Pgx), schema = sch, messages_name = ''outbox'' @ suffix, nodes_name = ''outbox_nodes'' @ suffix,
       shards_name = ''outbox_shards'' @ suffix\<rparr>)"

record columnSpec =
  cname :: string
  kind :: string
  csize :: nat

record indexSpec =
  itable :: string
  iname :: string
  icolumns :: "string list"
  istatus :: "status option"

definition status_number :: "status \<Rightarrow> nat" where
  "status_number s = (case s of StatusPending \<Rightarrow> 0 | StatusProcessing \<Rightarrow> 1 | StatusSucceeded \<Rightarrow> 2 | StatusFailed \<Rightarrow> 3)"

definition doubled :: "char \<Rightarrow> string \<Rightarrow> string" where
  "doubled c s = concat (map (\<lambda>x. if x = c then [c, c] else [x]) s)"

definition quote :: "names \<Rightarrow> string \<Rightarrow> string" where
  "quote S nm = (let c = (if postgres S then CHR 0x22 else CHR 0x60) in [c] @ doubled c nm @ [c])"

definition table :: "names \<Rightarrow> string \<Rightarrow> string" where
  "table S nm = quote S (schema S) @ ''.'' @ quote S nm"

section \<open>Columns and indexes\<close>

definition col :: "string \<Rightarrow> string \<Rightarrow> nat \<Rightarrow> columnSpec" where
  "col nm k n = \<lparr>cname = nm, kind = k, csize = n\<rparr>"

definition columns :: "names \<Rightarrow> string \<Rightarrow> columnSpec list" where
  "columns S nm =
     (if nm = nodes_name S then [col ''node_id'' ''varchar'' 64, col ''lease_until'' ''bigint'' 0]
      else if nm = shards_name S then
        [col ''shard_id'' ''integer'' 0, col ''owner_id'' ''varchar'' 64, col ''lease_token'' ''varchar'' 64, col ''lease_until'' ''bigint'' 0]
      else
        [col ''id'' ''bigint'' 0, col ''message_type'' ''varchar'' 128, col ''payload'' ''json'' 0, col ''shard_id'' ''integer'' 0,
         col ''status'' ''smallint'' 0, col ''attempts'' ''integer'' 0, col ''next_attempt_at'' ''bigint'' 0,
         col ''lease_token'' ''varchar'' 64, col ''lease_until'' ''bigint'' 0, col ''last_error'' ''text'' 0,
         col ''created_at'' ''bigint'' 0, col ''updated_at'' ''bigint'' 0, col ''completed_at'' ''bigint'' 0])"

definition message_index :: "(string \<Rightarrow> string) \<Rightarrow> names \<Rightarrow> string \<times> string \<times> status \<Rightarrow> indexSpec" where
  "message_index hash S v =
     (case v of (label, column, st) \<Rightarrow>
        \<lparr>itable = messages_name S, iname = ''outbox_'' @ label @ ''_'' @ hash (messages_name S @ ''_'' @ label),
         icolumns = (if postgres S then [''shard_id'', column, ''id''] else [''shard_id'', ''status'', column, ''id'']),
         istatus = (if postgres S then Some st else None)\<rparr>)"

definition indexes :: "(string \<Rightarrow> string) \<Rightarrow> names \<Rightarrow> indexSpec list" where
  "indexes hash S =
     map (message_index hash S)
       [(''pending'', ''next_attempt_at'', StatusPending), (''processing'', ''lease_until'', StatusProcessing), (''cleanup'', ''completed_at'', StatusSucceeded)]
     @ map (\<lambda>(t, label, cols). \<lparr>itable = t, iname = ''outbox_'' @ label @ ''_'' @ hash t, icolumns = cols, istatus = None\<rparr>)
       [(nodes_name S, ''nodes'', [''lease_until'']), (shards_name S, ''owners'', [''owner_id'', ''lease_until''])]"

section \<open>The text of the statements\<close>

definition decimal_text :: "int \<Rightarrow> string" where
  "decimal_text n = FormatInt n"

text \<open>\<open>strings.ToUpper\<close> on the lower-case names of types.\<close>

definition upper_char :: "char \<Rightarrow> char" where
  "upper_char c = (if byte_in 97 122 c then char_of (byte c - 32) else c)"

definition column_type :: "names \<Rightarrow> columnSpec \<Rightarrow> string" where
  "column_type S c =
     (let k1 = (if csize c > 0 then ''VARCHAR('' @ decimal_text (int (csize c)) @ '')'' else map upper_char (kind c));
          k2 = (if kind c = ''json'' \<and> postgres S then ''JSONB'' else k1)
      in if kind c = ''varchar'' \<and> \<not> postgres S then
           (if cname c = ''message_type'' then k2 @ '' CHARACTER SET utf8mb4 COLLATE utf8mb4_bin'' else k2 @ '' CHARACTER SET ascii COLLATE ascii_bin'')
         else k2)"

definition column_def :: "names \<Rightarrow> string \<Rightarrow> columnSpec \<Rightarrow> string" where
  "column_def S nm c =
     (let def = quote S (cname c) @ '' '' @ column_type S c @ '' NOT NULL'' in
      if \<not> postgres S \<and> kind c = ''text'' then quote S (cname c) @ '' TEXT NOT NULL''
      else if cname c = ''id'' then
        (if postgres S then quote S (cname c) @ '' BIGINT GENERATED ALWAYS AS IDENTITY PRIMARY KEY'' else def @ '' AUTO_INCREMENT PRIMARY KEY'')
      else if nm = nodes_name S \<and> cname c = ''node_id'' \<or> nm = shards_name S \<and> cname c = ''shard_id'' then def @ '' PRIMARY KEY''
      else if kind c = ''varchar'' \<or> kind c = ''text'' then def @ '' DEFAULT '' @ [CHR 0x27, CHR 0x27]
      else if kind c \<noteq> ''json'' then def @ '' DEFAULT 0''
      else def)"

definition key_columns :: "names \<Rightarrow> indexSpec \<Rightarrow> string" where
  "key_columns S idx = join_with '', '' (map (quote S) (icolumns idx))"

text \<open>\<open>g\<close> is the \<open>%g\<close> format of floating-point numbers.\<close>

definition storage_parameters :: "(rat option \<Rightarrow> string) \<Rightarrow> pg_options \<Rightarrow> string" where
  "storage_parameters g p =
     (let b = (if VacuumTruncate p then ''true'' else ''false''); sep = [CHR 0x0A, CHR 0x09, CHR 0x09] in
      '' WITH (fillfactor='' @ decimal_text (FillFactor p) @ '', autovacuum_enabled=true,'' @ sep
      @ ''autovacuum_vacuum_scale_factor='' @ g (VacuumScaleFactor p) @ '', autovacuum_vacuum_threshold='' @ decimal_text (VacuumThreshold p) @ '','' @ sep
      @ ''autovacuum_analyze_scale_factor='' @ g (AnalyzeScaleFactor p) @ '', autovacuum_analyze_threshold='' @ decimal_text (AnalyzeThreshold p)
      @ '', vacuum_truncate='' @ b @ '','' @ sep
      @ ''toast.autovacuum_enabled=true, toast.autovacuum_vacuum_scale_factor='' @ g (VacuumScaleFactor p) @ '','' @ sep
      @ ''toast.autovacuum_vacuum_threshold='' @ decimal_text (VacuumThreshold p) @ '', toast.vacuum_truncate='' @ b @ '')'')"

definition tableDDL :: "(string \<Rightarrow> string) \<Rightarrow> (rat option \<Rightarrow> string) \<Rightarrow> pg_options \<Rightarrow> names \<Rightarrow> string \<Rightarrow> string" where
  "tableDDL hash g p S nm =
     (let defs = map (column_def S nm) (columns S nm)
            @ (if nm \<noteq> nodes_name S then [''CHECK (shard_id BETWEEN 0 AND 63)''] else [])
            @ (if nm = messages_name S then [''CHECK (status BETWEEN 0 AND 3)'', ''CHECK (attempts >= 0)''] else [])
            @ (if postgres S then []
               else map (\<lambda>idx. ''KEY '' @ quote S (iname idx) @ '' ('' @ key_columns S idx @ '')'') (filter (\<lambda>idx. itable idx = nm) (indexes hash S)));
          stmt = ''CREATE TABLE '' @ table S nm @ '' ('' @ join_with '', '' defs @ '')''
      in if \<not> postgres S then stmt @ '' ENGINE=InnoDB DEFAULT CHARACTER SET utf8mb4 COLLATE utf8mb4_bin''
         else if nm \<noteq> messages_name S then stmt
         else stmt @ storage_parameters g p)"

definition indexDDL :: "names \<Rightarrow> indexSpec \<Rightarrow> string" where
  "indexDDL S idx =
     ''CREATE INDEX '' @ quote S (iname idx) @ '' ON '' @ table S (itable idx) @ '' ('' @ key_columns S idx @ '')''
     @ (case istatus idx of None \<Rightarrow> [] | Some st \<Rightarrow> '' WHERE status = '' @ decimal_text (int (status_number st)))"

section \<open>The catalogue\<close>

record actualColumn =
  aname :: string
  akind :: string
  anullable :: string
  asize :: int64

text \<open>A column of an index as MySQL lists it: name, prefix length, type, visibility, uniqueness.\<close>

type_synonym statistic = "string \<times> nat option \<times> string \<times> string \<times> nat"

text \<open>
  What the server lists for a table: columns, primary key, how \<open>id\<close> is generated, engine, the number of text columns of another character set, and its indexes,
  for PostgreSQL the printed definitions (of valid indexes that are not unique), for MySQL their columns.
\<close>

record table_info =
  tcolumns :: "actualColumn list"
  tkey :: "string list"
  tgenerated :: string
  tengine :: string
  tother_charset :: nat
  tdefinitions :: "string \<rightharpoonup> string"
  tstatistics :: "string \<Rightarrow> statistic list"

definition catalogue_kind :: "names \<Rightarrow> string \<Rightarrow> string" where
  "catalogue_kind S k =
     (if postgres S then (if k = ''varchar'' then ''character varying'' else if k = ''json'' then ''jsonb'' else k)
      else if k = ''integer'' then ''int'' else k)"

definition primary_key :: "names \<Rightarrow> string \<Rightarrow> string" where
  "primary_key S nm = (if nm = shards_name S then ''shard_id'' else if nm = nodes_name S then ''node_id'' else ''id'')"

text \<open>What CREATE TABLE makes of the columns; \<open>size\<close> is the size MySQL lists for a text.\<close>

definition created_columns :: "names \<Rightarrow> string \<Rightarrow> actualColumn list" where
  "created_columns S nm =
     map (\<lambda>c. \<lparr>aname = cname c, akind = catalogue_kind S (kind c), anullable = ''NO'',
                asize = (if \<not> postgres S \<and> kind c = ''text'' then 65535 else int (csize c))\<rparr>) (columns S nm)"

definition created_statistics :: "indexSpec list \<Rightarrow> string \<Rightarrow> statistic list" where
  "created_statistics is nm = (case find (\<lambda>i. iname i = nm) is of None \<Rightarrow> [] | Some i \<Rightarrow> map (\<lambda>c. (c, None, ''BTREE'', ''YES'', 1)) (icolumns i))"

definition create_table :: "(string \<Rightarrow> string) \<Rightarrow> names \<Rightarrow> string \<Rightarrow> table_info" where
  "create_table hash S nm =
     \<lparr>tcolumns = created_columns S nm, tkey = [primary_key S nm],
      tgenerated = (if nm = messages_name S then (if postgres S then ''YES'' else ''auto_increment'') else if postgres S then ''NO'' else []),
      tengine = ''InnoDB'', tother_charset = 0, tdefinitions = Map.empty,
      tstatistics = (if postgres S then (\<lambda>_. []) else created_statistics (filter (\<lambda>i. itable i = nm) (indexes hash S)))\<rparr>"

text \<open>The definition that \<open>pg_get_indexdef\<close> prints.\<close>

definition printed_index :: "(string \<Rightarrow> string) \<Rightarrow> names \<Rightarrow> indexSpec \<Rightarrow> string" where
  "printed_index q S i =
     ''CREATE INDEX '' @ q (iname i) @ '' ON '' @ q (schema S) @ ''.'' @ q (itable i) @ '' USING btree ('' @ join_with '', '' (map q (icolumns i)) @ '')''
     @ (case istatus i of None \<Rightarrow> [] | Some st \<Rightarrow> '' WHERE (status = '' @ decimal_text (int (status_number st)) @ '')'')"

definition create_index :: "(string \<Rightarrow> string) \<Rightarrow> names \<Rightarrow> indexSpec \<Rightarrow> table_info \<Rightarrow> table_info" where
  "create_index q S i t = t\<lparr>tdefinitions := (tdefinitions t)(iname i \<mapsto> printed_index q S i)\<rparr>"

section \<open>Validation\<close>

text \<open>\<open>strings.ToLower\<close> on ASCII letters, without blanks and quotes.\<close>

definition lower_char :: "char \<Rightarrow> char" where
  "lower_char c = (if byte_in 65 90 c then char_of (byte c + 32) else c)"

definition normalize :: "string \<Rightarrow> string" where
  "normalize v = map lower_char (filter (\<lambda>c. c \<notin> {CHR '' '', CHR 0x0A, CHR 0x09, CHR 0x22}) v)"

text \<open>\<open>flt\<close>: the error of the query.\<close>

definition validateIndex :: "names \<Rightarrow> db_error option \<Rightarrow> table_info \<Rightarrow> indexSpec \<Rightarrow> outbox_error option" where
  "validateIndex S flt t i =
     (case flt of
        Some e \<Rightarrow> Some (ErrDB e)
      | None \<Rightarrow>
          if postgres S then
            (case tdefinitions t (iname i) of
               None \<Rightarrow> Some ErrInvalidConfig
             | Some definition \<Rightarrow>
                 let want = ''usingbtree('' @ join_with '','' (icolumns i) @ '')'' in
                 if \<not> sublist want (normalize definition) then Some ErrInvalidConfig
                 else (case istatus i of
                     Some st \<Rightarrow> if \<not> HasSuffix (normalize definition) (''where(status='' @ decimal_text (int (status_number st)) @ '')'') then Some ErrInvalidConfig else None
                   | None \<Rightarrow> if sublist '')where'' (normalize definition) then Some ErrInvalidConfig else None))
          else if \<exists>(c, sub, k, visible, non_unique) \<in> set (tstatistics t (iname i)). sub \<noteq> None \<or> k \<noteq> ''BTREE'' \<or> visible \<noteq> ''YES'' \<or> non_unique \<noteq> 1
            then Some ErrInvalidConfig
          else if join_with '','' (map fst (tstatistics t (iname i))) \<noteq> join_with '','' (icolumns i) then Some ErrInvalidConfig
          else None)"

text \<open>\<open>validateTable\<close> over the answers for the table, with the error of its \<open>n\<close>-th query.\<close>

definition bad_column :: "names \<Rightarrow> columnSpec \<times> actualColumn \<Rightarrow> bool" where
  "bad_column S ca =
     (case ca of (c, a) \<Rightarrow>
        aname a \<noteq> cname c \<or> akind a \<noteq> catalogue_kind S (kind c) \<or> anullable a \<noteq> ''NO'' \<or> (csize c > 0 \<and> asize a \<noteq> int (csize c)))"

fun first_failure :: "'e option list \<Rightarrow> 'e option" where
  "first_failure [] = None"
| "first_failure (None # rs) = first_failure rs"
| "first_failure (Some e # rs) = Some e"

definition asked :: "db_error option \<Rightarrow> bool \<Rightarrow> outbox_error option" where
  "asked flt bad = (case flt of Some e \<Rightarrow> Some (ErrDB e) | None \<Rightarrow> if bad then Some ErrInvalidConfig else None)"

definition EqualFold_ascii :: "string \<Rightarrow> string \<Rightarrow> bool" where
  "EqualFold_ascii a b \<longleftrightarrow> map lower_char a = map lower_char b"

definition validateTable :: "(string \<Rightarrow> string) \<Rightarrow> names \<Rightarrow> (nat \<Rightarrow> db_error option) \<Rightarrow> string \<Rightarrow> table_info \<Rightarrow> outbox_error option" where
  "validateTable hash S flt nm t =
     (let expected = columns S nm in
      first_failure
       ([asked (flt 0) (length (tcolumns t) \<noteq> length expected \<or> (\<exists>ca \<in> set (zip expected (tcolumns t)). bad_column S ca)),
         asked (flt 1) (tkey t \<noteq> [primary_key S nm])]
        @ (if nm = messages_name S then [asked (flt 2) (\<not> sublist (if postgres S then ''YES'' else ''auto_increment'') (tgenerated t))] else [])
        @ (if postgres S then []
           else [asked (flt 3) (\<not> EqualFold_ascii (tengine t) ''InnoDB'')]
                @ (if nm = messages_name S then [asked (flt 4) (tother_charset t \<noteq> 0)] else []))
        @ map (\<lambda>(n, i). validateIndex S (flt (5 + n)) t i) (enumerate 0 (filter (\<lambda>i. itable i = nm) (indexes hash S)))))"

section \<open>Creation\<close>

record schema_db =
  tables :: "string \<rightharpoonup> table_info"
  shard_rows :: "shard_row list"

text \<open>What the statements for one table meet: the existence query, CREATE TABLE, each CREATE INDEX, the validating queries.\<close>

record table_env =
  te_exists :: "db_error option"
  te_create :: exec_outcome
  te_index :: "nat \<Rightarrow> exec_outcome"
  te_query :: "nat \<Rightarrow> db_error option"

record schema_env =
  se_table :: "string \<Rightarrow> table_env"
  se_seed :: "(nat \<times> db_error) option"
  se_count :: "db_error option" \<comment> \<open>the counting query\<close>

text \<open>A statement: its error, and the state it leaves.\<close>

definition run_stmt :: "exec_outcome \<Rightarrow> 's \<Rightarrow> 's \<Rightarrow> outbox_error option \<times> 's" where
  "run_stmt r s s' = (case r of CommitOk \<Rightarrow> (None, s') | CommitErr e applied \<Rightarrow> (Some (ErrDB e), if applied then s' else s))"

fun create_indexes :: "(string \<Rightarrow> string) \<Rightarrow> names \<Rightarrow> (nat \<Rightarrow> exec_outcome) \<Rightarrow> nat \<Rightarrow> indexSpec list \<Rightarrow> table_info \<Rightarrow> outbox_error option \<times> table_info" where
  "create_indexes q S r n [] t = (None, t)"
| "create_indexes q S r n (i # is) t =
     (case run_stmt (r n) t (create_index q S i t) of (Some e, t') \<Rightarrow> (Some e, t') | (None, t') \<Rightarrow> create_indexes q S r (n + 1) is t')"

definition ensure_one :: "(string \<Rightarrow> string) \<Rightarrow> (string \<Rightarrow> string) \<Rightarrow> names \<Rightarrow> table_env \<Rightarrow> string \<Rightarrow> (string \<rightharpoonup> table_info) \<Rightarrow> outbox_error option \<times> (string \<rightharpoonup> table_info)" where
  "ensure_one hash q S ev nm db =
     (case te_exists ev of
        Some e \<Rightarrow> (Some (ErrDB e), db)
      | None \<Rightarrow>
          (case db nm of
             Some t \<Rightarrow> (validateTable hash S (te_query ev) nm t, db)
           | None \<Rightarrow>
               (case run_stmt (te_create ev) db (db(nm \<mapsto> create_table hash S nm)) of
                  (Some e, db1) \<Rightarrow> (Some e, db1)
                | (None, db1) \<Rightarrow>
                    (case create_indexes q S (te_index ev) 0 (if postgres S then filter (\<lambda>i. itable i = nm) (indexes hash S) else []) (create_table hash S nm) of
                       (Some e, t) \<Rightarrow> (Some e, db1(nm \<mapsto> t))
                     | (None, t) \<Rightarrow> (validateTable hash S (te_query ev) nm t, db1(nm \<mapsto> t))))))"

fun ensure_tables :: "(string \<Rightarrow> string) \<Rightarrow> (string \<Rightarrow> string) \<Rightarrow> names \<Rightarrow> (string \<Rightarrow> table_env) \<Rightarrow> string list \<Rightarrow> (string \<rightharpoonup> table_info) \<Rightarrow> outbox_error option \<times> (string \<rightharpoonup> table_info)" where
  "ensure_tables hash q S ev [] db = (None, db)"
| "ensure_tables hash q S ev (nm # nms) db =
     (case ensure_one hash q S (ev nm) nm db of (Some e, db1) \<Rightarrow> (Some e, db1) | (None, db1) \<Rightarrow> ensure_tables hash q S ev nms db1)"

definition createAndValidate :: "(string \<Rightarrow> string) \<Rightarrow> (string \<Rightarrow> string) \<Rightarrow> names \<Rightarrow> schema_env \<Rightarrow> schema_db \<Rightarrow> outbox_error option \<times> schema_db" where
  "createAndValidate hash q S ev db =
     (case ensure_tables hash q S (se_table ev) [messages_name S, nodes_name S, shards_name S] (tables db) of
        (Some e, ts) \<Rightarrow> (Some e, db\<lparr>tables := ts\<rparr>)
      | (None, ts) \<Rightarrow>
          (case seed_shards (se_seed ev) True (shard_rows db) of
             (r, rows) \<Rightarrow> (case (se_seed ev, se_count ev) of (None, Some e) \<Rightarrow> Some (ErrDB e) | _ \<Rightarrow> r, db\<lparr>tables := ts, shard_rows := rows\<rparr>)))"

text \<open>
  \<open>ensureSchema\<close>: \<open>conn\<close> is the error of taking a connection, \<open>current\<close> the answer for the current schema (\<open>None\<close> for NULL), \<open>lock\<close> that of the lock. PostgreSQL
  works in one transaction, MySQL under a named lock; \<open>unlocked\<close> is the answer to its release, and the last component tells whether the connection is discarded.
\<close>

record ensure_env =
  ee_conn :: "db_error option"
  ee_current :: "db_error + string option"
  ee_begin :: "db_error option"
  ee_lock :: "db_error + int option"
  ee_run :: schema_env
  ee_commit :: commit_outcome
  ee_unlock :: "db_error + int option"

definition resolve_schema :: "ensure_env \<Rightarrow> string \<Rightarrow> outbox_error + string" where
  "resolve_schema ev configured =
     (case ee_conn ev of
        Some e \<Rightarrow> Inl (ErrDB e)
      | None \<Rightarrow>
          if configured \<noteq> [] then Inr configured
          else (case ee_current ev of
              Inl e \<Rightarrow> Inl (ErrDB e)
            | Inr r \<Rightarrow> (case r of None \<Rightarrow> Inl ErrInvalidConfig | Some nm \<Rightarrow> if nm = [] then Inl ErrInvalidConfig else Inr nm)))"

definition ensureSchema ::
  "(string \<Rightarrow> string) \<Rightarrow> (string \<Rightarrow> string) \<Rightarrow> driver \<Rightarrow> string \<Rightarrow> string \<Rightarrow> ensure_env \<Rightarrow> (string \<Rightarrow> schema_db) \<Rightarrow> outbox_error option \<times> (string \<Rightarrow> schema_db) \<times> bool" where
  "ensureSchema hash q d configured tableSuffix ev dbs =
     (case resolve_schema ev configured of
        Inl e \<Rightarrow> (Some e, dbs, False)
      | Inr sch \<Rightarrow>
          let S = storage_names d tableSuffix sch in
          if d = Pgx then
            (case ee_begin ev of Some e \<Rightarrow> (Some (ErrDB e), dbs, False) | None \<Rightarrow>
             case ee_lock ev of Inl e \<Rightarrow> (Some (ErrDB e), dbs, False) | Inr _ \<Rightarrow>
             case createAndValidate hash q S (ee_run ev) (dbs sch) of
               (Some e, _) \<Rightarrow> (Some e, dbs, False)
             | (None, db) \<Rightarrow> (case run_stmt (ee_commit ev) dbs (dbs(sch := db)) of (r, dbs') \<Rightarrow> (r, dbs', False)))
          else
            (case ee_lock ev of
               Inl e \<Rightarrow> (Some (ErrDB e), dbs, False)
             | Inr acquired \<Rightarrow>
                 if acquired \<noteq> Some 1 then (Some (ErrBusiness ''outbox: schema lock unavailable''), dbs, False) \<comment> \<open>an error without a class\<close>
                 else (case createAndValidate hash q S (ee_run ev) (dbs sch) of (r, db) \<Rightarrow> (r, dbs(sch := db), ee_unlock ev \<noteq> Inr (Some 1)))))"
section \<open>What a created table looks like\<close>

text \<open>A table with all its indexes.\<close>

definition complete_table :: "(string \<Rightarrow> string) \<Rightarrow> (string \<Rightarrow> string) \<Rightarrow> names \<Rightarrow> string \<Rightarrow> table_info" where
  "complete_table hash q S nm =
     fold (create_index q S) (if postgres S then filter (\<lambda>i. itable i = nm) (indexes hash S) else []) (create_table hash S nm)"

text \<open>PostgreSQL prints an identifier with or without quotes; hashes are hexadecimal.\<close>

definition printing_law :: "(string \<Rightarrow> string) \<Rightarrow> bool" where
  "printing_law q \<longleftrightarrow> (\<forall>s. normalize (q s) = normalize s)"

definition no_paren :: "string \<Rightarrow> bool" where
  "no_paren s \<longleftrightarrow> CHR '')'' \<notin> set s"

lemma normalize_append: "normalize (a @ b) = normalize a @ normalize b"
  by (simp add: normalize_def)

lemma lower_paren: "lower_char c = CHR '')'' \<longleftrightarrow> c = CHR '')''"
proof -
  have "byte c + 32 < 256" if "byte_in 65 90 c" using that by (simp add: byte_in_def)
  moreover have "byte (char_of n) = n" if "n < 256" for n using that by (simp add: byte_def)
  ultimately have "byte_in 65 90 c \<Longrightarrow> byte (char_of (byte c + 32) :: char) = byte c + 32" by simp
  moreover have "byte (CHR '')'') = 41" by (simp add: byte_def)
  ultimately show ?thesis by (auto simp: lower_char_def byte_in_def)
qed

lemma no_paren_normalize: "no_paren s \<Longrightarrow> no_paren (normalize s)"
  by (auto simp: no_paren_def normalize_def dest: lower_paren [THEN iffD1, OF sym])

lemma no_paren_append [simp]: "no_paren (a @ b) \<longleftrightarrow> no_paren a \<and> no_paren b"
  by (auto simp: no_paren_def)

lemma length_dropWhile_hit: "\<not> P c \<Longrightarrow> length (dropWhile P (a @ c # r)) \<ge> Suc (length r)"
  by (induction a) auto

text \<open>A text whose only closing parenthesis is the last character has nothing after one.\<close>

lemma paren_last: "no_paren w \<Longrightarrow> \<not> sublist '')where'' (w @ '')'')"
proof
  assume w: "no_paren w" and "sublist '')where'' (w @ '')'')"
  then obtain a b where "w @ '')'' = a @ '')where'' @ b" by (auto simp: sublist_def)
  then have "length (dropWhile (\<lambda>c. c \<noteq> CHR '')'') (w @ '')'')) \<ge> 6"
    using length_dropWhile_hit [of "\<lambda>c. c \<noteq> CHR '')''" "CHR '')''" "''where'' @ b" a] by simp
  moreover have "dropWhile (\<lambda>c. c \<noteq> CHR '')'') (w @ '')'') = '')''"
    using w by (subst dropWhile_append2) (auto simp: no_paren_def)
  ultimately show False by simp
qed

lemma normalize_join:
  "printing_law q \<Longrightarrow> normalize (join_with '', '' (map q cs)) = join_with '','' (map normalize cs)"
proof (induction cs rule: induct_list012)
  case (3 x y zs)
  have lit: "normalize '', '' = '',''" by code_simp
  have e: "join_with '', '' (map q (x # y # zs)) = q x @ '', '' @ join_with '', '' (map q (y # zs))" by simp
  show ?case unfolding e normalize_append lit using 3 by (simp add: printing_law_def)
qed (simp_all add: printing_law_def normalize_def)

lemma no_paren_join: "\<forall>c \<in> set cs. no_paren c \<Longrightarrow> no_paren (join_with '','' cs)"
  by (induction cs rule: induct_list012) (auto simp: no_paren_def)

text \<open>The printed definition, normalised, ends with what validation looks for.\<close>

lemma normalize_printed:
  assumes "printing_law q" and "map normalize (icolumns i) = icolumns i" and "no_paren (iname i)" and "no_paren (schema S)" and "no_paren (itable i)"
    and "\<forall>c \<in> set (icolumns i). no_paren c"
  obtains w where "no_paren w" and "normalize (printed_index q S i) = w @ ''usingbtree('' @ join_with '','' (icolumns i) @ '')''
    @ (case istatus i of None \<Rightarrow> [] | Some st \<Rightarrow> ''where(status='' @ decimal_text (int (status_number st)) @ '')'')"
proof -
  let ?w = "''createindex'' @ normalize (iname i) @ ''on'' @ normalize (schema S) @ ''.'' @ normalize (itable i)"
  have np: "no_paren ''createindex''" "no_paren ''on''" "no_paren ''.''" by (simp_all add: no_paren_def)
  have n: "no_paren ?w" by (simp only: no_paren_append np no_paren_normalize assms(3-5) simp_thms)
  have lit: "normalize ''CREATE INDEX '' = ''createindex''" "normalize '' ON '' = ''on''" "normalize ''.'' = ''.''" "normalize '' USING btree ('' = ''usingbtree(''"
    "normalize '')'' = '')''" "normalize '' WHERE (status = '' = ''where(status=''" "normalize [] = []" by code_simp+
  have st: "normalize (decimal_text (int (status_number st))) = decimal_text (int (status_number st))" for st
  proof -
    have "decimal_text (int (status_number StatusPending)) = ''0'' \<and> decimal_text (int (status_number StatusProcessing)) = ''1''
      \<and> decimal_text (int (status_number StatusSucceeded)) = ''2'' \<and> decimal_text (int (status_number StatusFailed)) = ''3''" by code_simp
    moreover have "normalize ''0'' = ''0'' \<and> normalize ''1'' = ''1'' \<and> normalize ''2'' = ''2'' \<and> normalize ''3'' = ''3''" by code_simp
    ultimately show ?thesis by (cases st) simp_all
  qed
  have q: "normalize (q s) = normalize s" for s using assms(1) by (simp add: printing_law_def)
  have "normalize (printed_index q S i) = ?w @ ''usingbtree('' @ join_with '','' (icolumns i) @ '')''
    @ (case istatus i of None \<Rightarrow> [] | Some st \<Rightarrow> ''where(status='' @ decimal_text (int (status_number st)) @ '')'')"
    unfolding printed_index_def normalize_append lit q normalize_join [OF assms(1)] assms(2)
    by (cases "istatus i") (simp_all only: option.case lit st normalize_append append_Nil2 append_assoc)
  then show ?thesis using that [OF n] by blast
qed

lemma HasSuffix_append: "HasSuffix (a @ b) b"
  by (simp add: HasSuffix_def)

lemma validateIndex_pgI:
  assumes "postgres S" and "tdefinitions t (iname i) = Some d" and "sublist (''usingbtree('' @ join_with '','' (icolumns i) @ '')'') (normalize d)"
    and "\<And>st. istatus i = Some st \<Longrightarrow> HasSuffix (normalize d) (''where(status='' @ decimal_text (int (status_number st)) @ '')'')"
    and "istatus i = None \<Longrightarrow> \<not> sublist '')where'' (normalize d)"
  shows "validateIndex S None t i = None"
  unfolding validateIndex_def Let_def using assms by (cases "istatus i") (simp_all only: option.case if_True if_False simp_thms)

lemma printed_index_valid:
  assumes "printing_law q" and "map normalize (icolumns i) = icolumns i" and "no_paren (iname i)" and "no_paren (schema S)" and "no_paren (itable i)"
    and "\<forall>c \<in> set (icolumns i). no_paren c" and "postgres S" and "tdefinitions t (iname i) = Some (printed_index q S i)"
  shows "validateIndex S None t i = None"
proof (rule validateIndex_pgI [OF assms(7,8)])
  obtain w where w: "no_paren w" "normalize (printed_index q S i) = w @ ''usingbtree('' @ join_with '','' (icolumns i) @ '')''
    @ (case istatus i of None \<Rightarrow> [] | Some st \<Rightarrow> ''where(status='' @ decimal_text (int (status_number st)) @ '')'')"
    by (rule normalize_printed [OF assms(1-6)])
  show "sublist (''usingbtree('' @ join_with '','' (icolumns i) @ '')'') (normalize (printed_index q S i))"
    unfolding w(2) sublist_def by (intro exI) (simp only: append_assoc)
  have np: "no_paren ''usingbtree(''" by (simp add: no_paren_def)
  show "\<not> sublist '')where'' (normalize (printed_index q S i))" if "istatus i = None"
  proof -
    have "no_paren (w @ ''usingbtree('' @ join_with '','' (icolumns i))" by (simp only: no_paren_append w(1) np no_paren_join [OF assms(6)] simp_thms)
    from paren_last [OF this] show ?thesis by (simp only: w(2) that option.case append_assoc append_Nil2 not_False_eq_True)
  qed
  show "HasSuffix (normalize (printed_index q S i)) (''where(status='' @ decimal_text (int (status_number st)) @ '')'')" if "istatus i = Some st" for st
    using HasSuffix_append [of "w @ ''usingbtree('' @ join_with '','' (icolumns i) @ '')''"] by (simp only: w(2) that option.case append_assoc)
qed

definition well_named :: "(string \<Rightarrow> string) \<Rightarrow> names \<Rightarrow> bool" where
  "well_named hash S \<longleftrightarrow> distinct [messages_name S, nodes_name S, shards_name S] \<and> no_paren (schema S) \<and> no_paren (messages_name S)
     \<and> no_paren (nodes_name S) \<and> no_paren (shards_name S) \<and> (\<forall>x. no_paren (hash x))"

lemma storage_names_distinct: "distinct [messages_name (storage_names d sfx sch), nodes_name (storage_names d sfx sch), shards_name (storage_names d sfx sch)]"
proof -
  have "''outbox'' @ s \<noteq> ''outbox_nodes'' @ s" "''outbox'' @ s \<noteq> ''outbox_shards'' @ s" "''outbox_nodes'' @ s \<noteq> ''outbox_shards'' @ s" for s
    by (auto dest: arg_cong [of _ _ "length"])
  then show ?thesis by (simp add: storage_names_def Let_def del: append.simps)
qed

lemma suffix_no_paren: "suffixPattern s \<Longrightarrow> no_paren s"
  by (auto simp: suffixPattern_def no_paren_def list_all_iff ident_char_def ident_start_def byte_in_def byte_def)

lemma storage_well_named:
  assumes "tableSuffix = [] \<or> suffixPattern tableSuffix" and "no_paren sch" and "\<forall>x. no_paren (hash x)"
  shows "well_named hash (storage_names d tableSuffix sch)"
proof -
  have "no_paren tableSuffix" using assms(1) suffix_no_paren by (auto simp: no_paren_def)
  then show ?thesis using storage_names_distinct [of d tableSuffix sch] assms(2,3)
    unfolding well_named_def by (simp add: storage_names_def Let_def no_paren_def)
qed

lemma index_facts:
  assumes "i \<in> set (indexes hash S)" and "well_named hash S"
  shows "map normalize (icolumns i) = icolumns i \<and> no_paren (iname i) \<and> no_paren (itable i) \<and> (\<forall>c \<in> set (icolumns i). no_paren c)"
proof -
  have n: "normalize ''shard_id'' = ''shard_id''" "normalize ''status'' = ''status''" "normalize ''id'' = ''id''" "normalize ''next_attempt_at'' = ''next_attempt_at''"
    "normalize ''lease_until'' = ''lease_until''" "normalize ''completed_at'' = ''completed_at''" "normalize ''owner_id'' = ''owner_id''" by code_simp+
  have h: "CHR '')'' \<notin> set (hash x)" for x using assms(2) by (simp add: well_named_def no_paren_def)
  show ?thesis using assms unfolding indexes_def
    by (cases "postgres S") (auto simp: message_index_def n no_paren_def h well_named_def)
qed

lemma index_groups:
  assumes "well_named hash S"
  shows "filter (\<lambda>i. itable i = messages_name S) (indexes hash S) = map (message_index hash S)
       [(''pending'', ''next_attempt_at'', StatusPending), (''processing'', ''lease_until'', StatusProcessing), (''cleanup'', ''completed_at'', StatusSucceeded)]"
    and "filter (\<lambda>i. itable i = nodes_name S) (indexes hash S)
      = [\<lparr>itable = nodes_name S, iname = ''outbox_nodes_'' @ hash (nodes_name S), icolumns = [''lease_until''], istatus = None\<rparr>]"
    and "filter (\<lambda>i. itable i = shards_name S) (indexes hash S)
      = [\<lparr>itable = shards_name S, iname = ''outbox_owners_'' @ hash (shards_name S), icolumns = [''owner_id'', ''lease_until''], istatus = None\<rparr>]"
  using assms by (auto simp: indexes_def message_index_def well_named_def)

lemma distinct_inames:
  assumes "well_named hash S" and "nm \<in> {messages_name S, nodes_name S, shards_name S}"
  shows "distinct (map iname (filter (\<lambda>i. itable i = nm) (indexes hash S)))"
proof -
  have "distinct (map iname (filter (\<lambda>i. itable i = messages_name S) (indexes hash S)))"
    unfolding index_groups(1) [OF assms(1)] by (simp add: message_index_def)
  then show ?thesis using assms(2) index_groups(2,3) [OF assms(1)] by auto
qed

lemma fold_create_index_fields:
  "tcolumns (fold (create_index q S) is t) = tcolumns t \<and> tkey (fold (create_index q S) is t) = tkey t \<and> tgenerated (fold (create_index q S) is t) = tgenerated t
   \<and> tengine (fold (create_index q S) is t) = tengine t \<and> tother_charset (fold (create_index q S) is t) = tother_charset t
   \<and> tstatistics (fold (create_index q S) is t) = tstatistics t"
  by (induction "is" arbitrary: t) (simp_all add: create_index_def)

lemma fold_create_index_other: "nm \<notin> iname ` set is \<Longrightarrow> tdefinitions (fold (create_index q S) is t) nm = tdefinitions t nm"
  by (induction "is" arbitrary: t) (auto simp: create_index_def)

lemma fold_create_index_def:
  "distinct (map iname is) \<Longrightarrow> i \<in> set is \<Longrightarrow> tdefinitions (fold (create_index q S) is t) (iname i) = Some (printed_index q S i)"
proof (induction "is" arbitrary: t)
  case (Cons j js)
  show ?case
  proof (cases "i = j")
    case True
    then have "iname i \<notin> iname ` set js" using Cons.prems(1) by simp
    moreover have "tdefinitions (create_index q S j t) (iname i) = Some (printed_index q S i)" using True by (simp add: create_index_def)
    ultimately show ?thesis using fold_create_index_other [of "iname i" js q S "create_index q S j t"] by simp
  qed (use Cons in simp)
qed simp

lemma created_statistics_of:
  "distinct (map iname is) \<Longrightarrow> i \<in> set is \<Longrightarrow> created_statistics is (iname i) = map (\<lambda>c. (c, None, ''BTREE'', ''YES'', 1)) (icolumns i)"
  by (induction "is") (auto simp: created_statistics_def)

lemma first_failure_None: "first_failure rs = None \<longleftrightarrow> (\<forall>r \<in> set rs. r = None)"
  by (induction rs rule: first_failure.induct) auto

lemma first_failure_append: "first_failure (xs @ ys) = None \<longleftrightarrow> first_failure xs = None \<and> first_failure ys = None"
  by (auto simp: first_failure_None)

lemma asked_None: "asked None bad = None \<longleftrightarrow> \<not> bad"
  by (simp add: asked_def)

text \<open>Validation without faults, condition by condition.\<close>

lemma validateTable_None:
  "validateTable hash S (\<lambda>_. None) nm t = None \<longleftrightarrow>
     length (tcolumns t) = length (columns S nm) \<and> (\<forall>ca \<in> set (zip (columns S nm) (tcolumns t)). \<not> bad_column S ca) \<and> tkey t = [primary_key S nm]
     \<and> (nm = messages_name S \<longrightarrow> sublist (if postgres S then ''YES'' else ''auto_increment'') (tgenerated t))
     \<and> (\<not> postgres S \<longrightarrow> EqualFold_ascii (tengine t) ''InnoDB'' \<and> (nm = messages_name S \<longrightarrow> tother_charset t = 0))
     \<and> (\<forall>i \<in> set (indexes hash S). itable i = nm \<longrightarrow> validateIndex S None t i = None)"
proof -
  have "(\<forall>x \<in> set (map (\<lambda>(n, i). validateIndex S None t i) (enumerate 0 is)). x = None) \<longleftrightarrow> (\<forall>i \<in> set is. validateIndex S None t i = None)" for "is"
  proof -
    have "map (\<lambda>(n, i). validateIndex S None t i) (enumerate 0 is) = map (validateIndex S None t) is"
      by (rule nth_equalityI) (simp_all add: nth_enumerate_eq)
    then show ?thesis by simp
  qed
  then have f: "first_failure (map (\<lambda>(n, i). validateIndex S None t i) (enumerate 0 (filter (\<lambda>i. itable i = nm) (indexes hash S)))) = None
    \<longleftrightarrow> (\<forall>i \<in> set (indexes hash S). itable i = nm \<longrightarrow> validateIndex S None t i = None)"
    unfolding first_failure_None by auto
  show ?thesis unfolding validateTable_def Let_def first_failure_append unfolding f unfolding first_failure_None
    by (cases "nm = messages_name S"; cases "postgres S") (simp_all add: asked_None conj_ac)
qed

lemma created_columns_good: "\<forall>ca \<in> set (zip (columns S nm) (created_columns S nm)). \<not> bad_column S ca"
proof -
  have sz: "csize c > 0 \<longrightarrow> kind c \<noteq> ''text''" if "c \<in> set (columns S nm)" for c using that by (auto simp: columns_def col_def split: if_splits)
  show ?thesis unfolding created_columns_def zip_map2 zip_same_conv_map using sz by (auto simp: bad_column_def)
qed

text \<open>A complete table passes validation.\<close>

lemma complete_table_valid:
  assumes "well_named hash S" and "nm \<in> {messages_name S, nodes_name S, shards_name S}" and "printing_law q"
  shows "validateTable hash S (\<lambda>_. None) nm (complete_table hash q S nm) = None"
proof -
  let ?is = "filter (\<lambda>i. itable i = nm) (indexes hash S)"
  let ?t = "complete_table hash q S nm"
  note d = distinct_inames [OF assms(1,2)]
  have f: "tcolumns ?t = created_columns S nm" "tkey ?t = [primary_key S nm]" "tengine ?t = ''InnoDB''" "tother_charset ?t = 0"
    "tgenerated ?t = tgenerated (create_table hash S nm)" "tstatistics ?t = tstatistics (create_table hash S nm)"
    unfolding complete_table_def using fold_create_index_fields [of q S "if postgres S then ?is else []" "create_table hash S nm"] by (simp_all add: create_table_def)
  have i: "validateIndex S None ?t i = None" if "i \<in> set (indexes hash S)" "itable i = nm" for i
  proof -
    note g = index_facts [OF that(1) assms(1)]
    have m: "i \<in> set ?is" using that by simp
    show ?thesis
    proof (cases "postgres S")
      case True
      then have "tdefinitions ?t (iname i) = Some (printed_index q S i)" unfolding complete_table_def using fold_create_index_def [OF d m] by simp
      then show ?thesis using printed_index_valid [OF assms(3), of i S ?t] g assms(1) True by (simp add: well_named_def)
    next
      case False
      then have "tstatistics ?t (iname i) = map (\<lambda>c. (c, None, ''BTREE'', ''YES'', 1)) (icolumns i)"
        using f(6) created_statistics_of [OF d m] by (simp add: create_table_def)
      moreover have "map fst (map (\<lambda>c. (c, None :: nat option, ''BTREE'', ''YES'', 1 :: nat)) cs) = cs" for cs :: "string list" by (induction cs) simp_all
      ultimately show ?thesis using False by (simp add: validateIndex_def)
    qed
  qed
  have l: "length (created_columns S nm) = length (columns S nm)" by (simp add: created_columns_def)
  have e: "EqualFold_ascii s s" for s by (simp add: EqualFold_ascii_def)
  show ?thesis unfolding validateTable_None f using i l e created_columns_good [of S nm] by (simp add: create_table_def)
qed
section \<open>Shard rows\<close>

lemma seed_shard_set: "sh_id ` set (fold seed_shard is rows) = sh_id ` set rows \<union> set is"
  by (induction "is" arbitrary: rows) (auto simp: seed_shard_def free_shard_def)

lemma seed_shard_distinct: "distinct (map sh_id rows) \<Longrightarrow> distinct (map sh_id (fold seed_shard is rows))"
  by (induction "is" arbitrary: rows) (auto simp: seed_shard_def free_shard_def)

text \<open>64 rows that cover the 64 shards are one for each.\<close>

lemma seed_shards_exact:
  assumes "seed_shards None True rows = (None, rows')"
  shows "distinct (map sh_id rows') \<and> sh_id ` set rows' = {0..<shardCount}"
proof -
  have l: "length rows' = shardCount" and r: "rows' = fold seed_shard [0..<shardCount] rows"
    using assms by (auto simp: seed_shards_def Let_def split: if_splits)
  have s: "{0..<shardCount} \<subseteq> set (map sh_id rows')" using seed_shard_set [of "[0..<shardCount]" rows] r by auto
  have c: "card (set (map sh_id rows')) \<le> shardCount" using card_length [of "map sh_id rows'"] l by simp
  have e: "{0..<shardCount} = set (map sh_id rows')" by (rule card_seteq [OF _ s]) (use c in simp_all)
  have "card (set (map sh_id rows')) = length (map sh_id rows')" unfolding e [symmetric] using l by simp
  then have "distinct (map sh_id rows')" by (rule card_distinct)
  then show ?thesis using e by simp
qed

definition shards_ok :: "shard_row list \<Rightarrow> bool" where
  "shards_ok rows \<longleftrightarrow> distinct (map sh_id rows) \<and> sh_id ` set rows \<subseteq> {0..<shardCount}"

lemma shards_ok_seed:
  assumes "shards_ok rows"
  shows "shards_ok (snd (seed_shards flt True rows))" and "flt = None \<Longrightarrow> fst (seed_shards flt True rows) = None"
proof -
  have o: "shards_ok (fold seed_shard [0..<n] rows)" if "n \<le> shardCount" for n
    using assms that seed_shard_distinct [of rows "[0..<n]"] seed_shard_set [of "[0..<n]" rows] by (auto simp: shards_ok_def)
  then show "shards_ok (snd (seed_shards flt True rows))" by (auto simp: seed_shards_def Let_def split: option.splits)
  let ?r = "fold seed_shard [0..<shardCount] rows"
  have "set (map sh_id ?r) = {0..<shardCount}" using assms seed_shard_set [of "[0..<shardCount]" rows] by (auto simp: shards_ok_def)
  moreover have "distinct (map sh_id ?r)" using seed_shard_distinct assms by (simp add: shards_ok_def)
  ultimately have "length ?r = shardCount" using distinct_card [of "map sh_id ?r"] by simp
  then show "fst (seed_shards flt True rows) = None" if "flt = None" using that by (simp add: seed_shards_def Let_def)
qed

section \<open>Start-up\<close>

lemma create_indexes_all: "create_indexes q S r n is t = (None, t') \<Longrightarrow> t' = fold (create_index q S) is t"
  by (induction q S r n "is" t rule: create_indexes.induct) (auto simp: run_stmt_def split: prod.splits option.splits commit_outcome.splits)

lemma create_indexes_calm: "(\<And>k. r k = CommitOk) \<Longrightarrow> create_indexes q S r n is t = (None, fold (create_index q S) is t)"
  by (induction q S r n "is" t rule: create_indexes.induct) (auto simp: run_stmt_def)

text \<open>A validation that passed would pass without faults.\<close>

lemma validateTable_faultless:
  assumes "validateTable hash S flt nm t = None"
  shows "validateTable hash S (\<lambda>_. None) nm t = None"
proof -
  have a: "asked f b = None \<Longrightarrow> asked None b = None" for f b by (simp add: asked_def split: option.splits if_splits)
  have v: "validateIndex S f t i = None \<Longrightarrow> validateIndex S None t i = None" for f i by (cases f) (simp_all add: validateIndex_def)
  have e: "first_failure xs = None \<Longrightarrow> list_all2 (\<lambda>x y. x = None \<longrightarrow> y = None) xs ys \<Longrightarrow> first_failure ys = None" for xs ys :: "outbox_error option list"
    unfolding first_failure_None by (auto simp: list_all2_conv_all_nth in_set_conv_nth) (metis nth_mem)
  show ?thesis unfolding validateTable_def Let_def
    by (rule e [OF assms [unfolded validateTable_def Let_def]])
      (auto simp: list_all2_map1 list_all2_map2 list_all2_same intro!: list_all2_appendI dest: a v)
qed

lemma ensure_one_present:
  assumes "ensure_one hash q S ev nm db = (None, db')"
  obtains t where "db' = db(nm \<mapsto> t)" and "validateTable hash S (\<lambda>_. None) nm t = None" and "db nm = Some t \<or> db nm = None \<and> t = complete_table hash q S nm"
proof (cases "db nm")
  case None
  obtain t where t: "create_indexes q S (te_index ev) 0 (if postgres S then filter (\<lambda>i. itable i = nm) (indexes hash S) else []) (create_table hash S nm) = (None, t)"
    and "validateTable hash S (te_query ev) nm t = None" and "db' = db(nm \<mapsto> t)"
    using assms None by (auto simp: ensure_one_def run_stmt_def split: option.splits prod.splits commit_outcome.splits)
  then show ?thesis using that [of t] validateTable_faultless create_indexes_all [OF t] None by (simp add: complete_table_def)
next
  case (Some t)
  then have "validateTable hash S (te_query ev) nm t = None" "db' = db" using assms by (auto simp: ensure_one_def split: option.splits)
  then show ?thesis using that [of t] validateTable_faultless Some by (simp add: fun_upd_idem)
qed

lemma ensure_tables_present:
  assumes "ensure_tables hash q S ev nms db = (None, db')"
  shows "(\<forall>nm \<in> set nms. \<exists>t. db' nm = Some t \<and> validateTable hash S (\<lambda>_. None) nm t = None \<and> (db nm = Some t \<or> db nm = None \<and> t = complete_table hash q S nm))
    \<and> (\<forall>nm. nm \<notin> set nms \<longrightarrow> db' nm = db nm)"
  using assms
proof (induction nms arbitrary: db)
  case (Cons nm nms)
  obtain db1 where one: "ensure_one hash q S (ev nm) nm db = (None, db1)" and rest: "ensure_tables hash q S ev nms db1 = (None, db')"
    using Cons.prems by (auto split: prod.splits option.splits)
  obtain t where t: "db1 = db(nm \<mapsto> t)" "validateTable hash S (\<lambda>_. None) nm t = None" "db nm = Some t \<or> db nm = None \<and> t = complete_table hash q S nm"
    by (rule ensure_one_present [OF one])
  show ?case using Cons.IH [OF rest] t by (auto simp: fun_upd_def split: if_splits)
qed simp

text \<open>On MySQL a table is there with its indexes or not at all, whatever fails.\<close>

lemma ensure_one_atomic:
  assumes "ensure_one hash q S ev nm db = (r, db')" and "\<not> postgres S"
  shows "db' = db \<or> db nm = None \<and> db' = db(nm \<mapsto> complete_table hash q S nm)"
  using assms by (auto simp: ensure_one_def run_stmt_def complete_table_def split: option.splits prod.splits commit_outcome.splits if_splits)

lemma ensure_tables_atomic:
  assumes "ensure_tables hash q S ev nms db = (r, db')" and "\<not> postgres S"
  shows "db' nm = db nm \<or> db nm = None \<and> db' nm = Some (complete_table hash q S nm)"
  using assms(1)
proof (induction nms arbitrary: db)
  case (Cons m nms)
  obtain r1 db1 where one: "ensure_one hash q S (ev m) m db = (r1, db1)" by (cases "ensure_one hash q S (ev m) m db")
  then have "db1 = db \<or> db m = None \<and> db1 = db(m \<mapsto> complete_table hash q S m)" using ensure_one_atomic assms(2) by blast
  then have a: "db1 nm = db nm \<or> db nm = None \<and> db1 nm = Some (complete_table hash q S nm)" by (auto split: if_splits)
  show ?case
  proof (cases r1)
    case None
    then show ?thesis using Cons.IH [of db1] Cons.prems one a by auto
  qed (use Cons.prems one a in auto)
qed simp

text \<open>Each table of the outbox is absent or complete, and the shard rows are distinct shards.\<close>

definition outbox_tables :: "names \<Rightarrow> string list" where
  "outbox_tables S = [messages_name S, nodes_name S, shards_name S]"

definition recoverable :: "(string \<Rightarrow> string) \<Rightarrow> (string \<Rightarrow> string) \<Rightarrow> names \<Rightarrow> schema_db \<Rightarrow> bool" where
  "recoverable hash q S db \<longleftrightarrow>
     (\<forall>nm \<in> set (outbox_tables S). tables db nm = None \<or> tables db nm = Some (complete_table hash q S nm)) \<and> shards_ok (shard_rows db)"

text \<open>What a start-up that returned nil leaves.\<close>

definition outbox_ready :: "(string \<Rightarrow> string) \<Rightarrow> names \<Rightarrow> schema_db \<Rightarrow> bool" where
  "outbox_ready hash S db \<longleftrightarrow>
     (\<forall>nm \<in> set (outbox_tables S). \<exists>t. tables db nm = Some t \<and> validateTable hash S (\<lambda>_. None) nm t = None)
     \<and> distinct (map sh_id (shard_rows db)) \<and> sh_id ` set (shard_rows db) = {0..<shardCount}"

lemma createAndValidate_ready:
  assumes "createAndValidate hash q S ev db = (None, db')"
  shows "outbox_ready hash S db' \<and> (recoverable hash q S db \<longrightarrow> recoverable hash q S db')
    \<and> (\<forall>nm \<in> set (outbox_tables S). tables db nm = None \<longrightarrow> tables db' nm = Some (complete_table hash q S nm))"
proof -
  obtain ts where ts: "ensure_tables hash q S (se_table ev) (outbox_tables S) (tables db) = (None, ts)" and d: "tables db' = ts"
    and s: "se_seed ev = None" "seed_shards None True (shard_rows db) = (None, shard_rows db')"
  proof -
    obtain e ts where ts: "ensure_tables hash q S (se_table ev) (outbox_tables S) (tables db) = (e, ts)"
      by (cases "ensure_tables hash q S (se_table ev) (outbox_tables S) (tables db)")
    obtain r rows where s: "seed_shards (se_seed ev) True (shard_rows db) = (r, rows)" by (cases "seed_shards (se_seed ev) True (shard_rows db)")
    have c: "createAndValidate hash q S ev db = (case e of Some x \<Rightarrow> (Some x, db\<lparr>tables := ts\<rparr>)
      | None \<Rightarrow> (case (se_seed ev, se_count ev) of (None, Some x) \<Rightarrow> Some (ErrDB x) | _ \<Rightarrow> r, db\<lparr>tables := ts, shard_rows := rows\<rparr>))"
      unfolding createAndValidate_def using ts s by (simp add: outbox_tables_def split: option.split)
    have e: "e = None" using assms c by (cases e) simp_all
    have n: "se_seed ev = None" using assms c e s by (cases "se_seed ev") (auto simp: seed_shards_def)
    have "r = None" "db' = db\<lparr>tables := ts, shard_rows := rows\<rparr>" using assms c e n by (auto split: option.splits)
    then show ?thesis using that [of ts] ts e n s by simp
  qed
  note p = ensure_tables_present [OF ts]
  have "\<exists>t. tables db' nm = Some t \<and> validateTable hash S (\<lambda>_. None) nm t = None" if "nm \<in> set (outbox_tables S)" for nm using p that d by blast
  moreover have "tables db' nm = None \<or> tables db' nm = Some (complete_table hash q S nm)"
    if "nm \<in> set (outbox_tables S)" "recoverable hash q S db" for nm
  proof -
    note m = that
    obtain t where "tables db' nm = Some t" "tables db nm = Some t \<or> t = complete_table hash q S nm" using bspec [OF conjunct1 [OF p] m(1)] d by auto
    then show ?thesis using m by (auto simp: recoverable_def)
  qed
  moreover have "tables db' nm = Some (complete_table hash q S nm)" if "nm \<in> set (outbox_tables S)" "tables db nm = None" for nm
    using bspec [OF conjunct1 [OF p] that(1)] that(2) d by auto
  moreover have "shards_ok (shard_rows db')" using seed_shards_exact [OF s(2)] by (simp add: shards_ok_def)
  ultimately show ?thesis using seed_shards_exact [OF s(2)] by (auto simp: outbox_ready_def recoverable_def)
qed

lemma createAndValidate_recoverable:
  assumes "createAndValidate hash q S ev db = (r, db')" and "recoverable hash q S db" and "\<not> postgres S"
  shows "recoverable hash q S db'"
proof -
  obtain e ts where ts: "ensure_tables hash q S (se_table ev) (outbox_tables S) (tables db) = (e, ts)"
    by (cases "ensure_tables hash q S (se_table ev) (outbox_tables S) (tables db)")
  have t: "ts nm = None \<or> ts nm = Some (complete_table hash q S nm)" if "nm \<in> set (outbox_tables S)" for nm
    using ensure_tables_atomic [OF ts assms(3), of nm] assms(2) that by (auto simp: recoverable_def)
  have "tables db' = ts \<and> shards_ok (shard_rows db')"
  proof (cases e)
    case None
    then show ?thesis using assms(1,2) ts shards_ok_seed(1) [of "shard_rows db" "se_seed ev"]
      by (auto simp: createAndValidate_def outbox_tables_def recoverable_def split: prod.splits)
  next
    case (Some x)
    then show ?thesis using assms(1,2) ts by (auto simp: createAndValidate_def outbox_tables_def recoverable_def)
  qed
  then show ?thesis using t by (simp add: recoverable_def)
qed

text \<open>A run in which nothing fails.\<close>

definition calm :: "ensure_env \<Rightarrow> bool" where
  "calm ev \<longleftrightarrow> ee_conn ev = None \<and> ee_begin ev = None \<and> ee_lock ev = Inr (Some 1) \<and> ee_commit ev = CommitOk \<and> se_seed (ee_run ev) = None
     \<and> se_count (ee_run ev) = None \<and> (\<forall>nm. let t = se_table (ee_run ev) nm in te_exists t = None \<and> te_create t = CommitOk \<and> (\<forall>n. te_index t n = CommitOk)
       \<and> (\<forall>n. te_query t n = None))"

lemma ensure_one_calm:
  assumes "te_exists ev = None" and "te_create ev = CommitOk" and "\<And>n. te_index ev n = CommitOk" and "\<And>n. te_query ev n = None"
    and "db nm = None \<or> db nm = Some (complete_table hash q S nm)" and "validateTable hash S (\<lambda>_. None) nm (complete_table hash q S nm) = None"
  shows "ensure_one hash q S ev nm db = (None, db(nm \<mapsto> complete_table hash q S nm))"
proof -
  have q: "te_query ev = (\<lambda>_. None)" using assms(4) by auto
  show ?thesis
  proof (cases "db nm")
    case None
    then show ?thesis using assms(1,2,6) q create_indexes_calm [of "te_index ev", OF assms(3)] by (simp add: ensure_one_def run_stmt_def complete_table_def)
  next
    case (Some t)
    then show ?thesis using assms(1,5,6) q by (simp add: ensure_one_def fun_upd_idem)
  qed
qed

lemma createAndValidate_calm:
  assumes "recoverable hash q S db" and "calm ev" and "well_named hash S" and "printing_law q"
  shows "fst (createAndValidate hash q S (ee_run ev) db) = None"
proof -
  have v: "validateTable hash S (\<lambda>_. None) nm (complete_table hash q S nm) = None" if "nm \<in> set (outbox_tables S)" for nm
    using complete_table_valid [OF assms(3) _ assms(4), of nm] that by (simp add: outbox_tables_def)
  have c: "ensure_one hash q S (se_table (ee_run ev) nm) nm ts = (None, ts(nm \<mapsto> complete_table hash q S nm))"
    if "nm \<in> set (outbox_tables S)" "ts nm = None \<or> ts nm = Some (complete_table hash q S nm)" for nm ts
    by (rule ensure_one_calm) (use assms(2) v that in \<open>auto simp: calm_def Let_def\<close>)
  have e: "\<exists>ts'. ensure_tables hash q S (se_table (ee_run ev)) nms ts = (None, ts')"
    if "set nms \<subseteq> set (outbox_tables S)" "\<forall>nm \<in> set (outbox_tables S). ts nm = None \<or> ts nm = Some (complete_table hash q S nm)" for nms ts
    using that
  proof (induction nms arbitrary: ts)
    case (Cons nm nms)
    have "ensure_one hash q S (se_table (ee_run ev) nm) nm ts = (None, ts(nm \<mapsto> complete_table hash q S nm))" by (rule c) (use Cons.prems in auto)
    moreover have "\<exists>ts'. ensure_tables hash q S (se_table (ee_run ev)) nms (ts(nm \<mapsto> complete_table hash q S nm)) = (None, ts')"
      by (rule Cons.IH) (use Cons.prems in auto)
    ultimately show ?case by simp
  qed simp
  obtain ts where "ensure_tables hash q S (se_table (ee_run ev)) (outbox_tables S) (tables db) = (None, ts)"
    using e [of "outbox_tables S" "tables db"] assms(1) by (auto simp: recoverable_def)
  moreover have "shards_ok (shard_rows db)" using assms(1) by (simp add: recoverable_def)
  ultimately show ?thesis using assms(2) shards_ok_seed(2) [of "shard_rows db" None]
    by (auto simp: createAndValidate_def outbox_tables_def calm_def split: prod.splits)
qed

text \<open>
  Start-up (C39), in a schema whose name contains no closing parenthesis, with a legal table suffix. From any database and with every failure: when \<open>ensureSchema\<close> returns nil, the three
  tables pass validation and there is exactly one row for each of the 64 shards, and other schemas are never touched. If moreover each of the tables was absent or complete before, and the
  shard rows were legal (\<open>recoverable\<close>), then an interrupted start-up leaves it so, without a half table, and the next start-up in which nothing fails succeeds. (Without
  the condition on the schema name a start-up can fail for ever, see \<open>special_schema_rejected\<close>.)
\<close>

theorem outbox_start_recovers:
  assumes "ensureSchema hash q d configured tableSuffix ev dbs = (r, dbs', discarded)" and "resolve_schema ev configured = Inr sch"
    and "tableSuffix = [] \<or> suffixPattern tableSuffix" and "no_paren sch" and "\<forall>x. no_paren (hash x)" and "printing_law q"
    and "calm ev'" and "resolve_schema ev' configured = Inr sch"
  shows "(r = None \<longrightarrow> outbox_ready hash (storage_names d tableSuffix sch) (dbs' sch))
    \<and> (\<forall>s. s \<noteq> sch \<longrightarrow> dbs' s = dbs s)
    \<and> (recoverable hash q (storage_names d tableSuffix sch) (dbs sch) \<longrightarrow>
        recoverable hash q (storage_names d tableSuffix sch) (dbs' sch) \<and> fst (ensureSchema hash q d configured tableSuffix ev' dbs') = None)"
proof -
  let ?S = "storage_names d tableSuffix sch"
  obtain r1 db where cv: "createAndValidate hash q ?S (ee_run ev) (dbs sch) = (r1, db)" by (cases "createAndValidate hash q ?S (ee_run ev) (dbs sch)")
  have pg: "postgres ?S \<longleftrightarrow> d = Pgx" by (simp add: storage_names_def Let_def)
  have kept: "dbs' = dbs \<and> r \<noteq> None \<or> dbs' = dbs(sch := db) \<and> (d = Pgx \<longrightarrow> r1 = None) \<and> (r = None \<longrightarrow> r1 = None)"
    using assms(1,2) cv by (auto simp: ensureSchema_def Let_def run_stmt_def split: option.splits sum.splits prod.splits if_splits commit_outcome.splits)
  have rec: "recoverable hash q ?S (dbs' sch)" if "recoverable hash q ?S (dbs sch)"
    using kept that createAndValidate_ready [of hash q ?S "ee_run ev" "dbs sch" db] createAndValidate_recoverable [OF cv that] cv pg by auto
  have again: "fst (ensureSchema hash q d configured tableSuffix ev' dbs') = None" if "recoverable hash q ?S (dbs' sch)"
    using createAndValidate_calm [OF that assms(7) storage_well_named [OF assms(3-5)] assms(6)] assms(7,8)
    by (auto simp: ensureSchema_def Let_def calm_def run_stmt_def split: prod.splits option.splits)
  show ?thesis using kept rec again createAndValidate_ready [of hash q ?S "ee_run ev" "dbs sch" db] cv by auto
qed

definition calm_tables :: table_env where
  "calm_tables = \<lparr>te_exists = None, te_create = CommitOk, te_index = (\<lambda>_. CommitOk), te_query = (\<lambda>_. None)\<rparr>"

definition calm_env :: ensure_env where
  "calm_env = \<lparr>ee_conn = None, ee_current = Inr None, ee_begin = None, ee_lock = Inr (Some 1),
     ee_run = \<lparr>se_table = (\<lambda>_. calm_tables), se_seed = None, se_count = None\<rparr>, ee_commit = CommitOk, ee_unlock = Inr (Some 1)\<rparr>"

text \<open>The connection is lost after the table of the nodes was created.\<close>

definition broken_env :: ensure_env where
  "broken_env = calm_env\<lparr>ee_run := \<lparr>se_table = (\<lambda>nm. if nm = ''outbox_nodes'' then calm_tables\<lparr>te_create := CommitErr (DriverError 0) True\<rparr> else calm_tables),
     se_seed = None, se_count = None\<rparr>\<rparr>"

definition empty_schema :: schema_db where
  "empty_schema = \<lparr>tables = Map.empty, shard_rows = []\<rparr>"

theorem outbox_start_recovers_witness:
  "fst (ensureSchema (\<lambda>_. ''0'') id MySQL ''app'' [] broken_env (\<lambda>_. empty_schema)) \<noteq> None
   \<and> fst (ensureSchema (\<lambda>_. ''0'') id MySQL ''app'' [] calm_env (fst (snd (ensureSchema (\<lambda>_. ''0'') id MySQL ''app'' [] broken_env (\<lambda>_. empty_schema))))) = None"
proof -
  let ?e = "ensureSchema (\<lambda>_. ''0'') id MySQL ''app'' [] broken_env (\<lambda>_. empty_schema)"
  obtain r dbs' b where e: "?e = (r, dbs', b)" by (cases ?e)
  have s: "resolve_schema broken_env ''app'' = Inr ''app''" "resolve_schema calm_env ''app'' = Inr ''app''"
    by (simp_all add: resolve_schema_def broken_env_def calm_env_def)
  have n: "messages_name (storage_names MySQL [] ''app'') = ''outbox''" "nodes_name (storage_names MySQL [] ''app'') = ''outbox_nodes''"
    by (simp_all add: storage_names_def)
  have p: "printing_law id" "no_paren ''app''" "\<forall>x :: string. no_paren ''0''" by (simp_all add: printing_law_def no_paren_def)
  have c: "calm calm_env" by (simp add: calm_def calm_env_def calm_tables_def)
  have i: "recoverable (\<lambda>_. ''0'') id (storage_names MySQL [] ''app'') empty_schema" by (simp add: recoverable_def empty_schema_def shards_ok_def)
  have again: "fst (ensureSchema (\<lambda>_. ''0'') id MySQL ''app'' [] calm_env dbs') = None"
    using outbox_start_recovers [OF e s(1) _ p(2,3,1) c s(2)] i by simp
  have "fst (createAndValidate (\<lambda>_. ''0'') id (storage_names MySQL [] ''app'') (ee_run broken_env) empty_schema) \<noteq> None"
    unfolding createAndValidate_def n
    by (auto simp: ensure_one_def broken_env_def calm_env_def calm_tables_def empty_schema_def run_stmt_def split: option.splits prod.splits)
  then have "r \<noteq> None" using e s(1) by (auto simp: ensureSchema_def Let_def broken_env_def calm_env_def split: prod.splits)
  then show ?thesis using again e by simp
qed

text \<open>
  A schema whose name contains \<open>)where\<close>: validation finds it in the printed definitions and rejects the indexes without a condition, so that the outbox never
  starts in that schema, although it has just created the tables itself.
\<close>

theorem special_schema_rejected:
  assumes "ensureSchema hash q Pgx configured tableSuffix ev dbs = (r, dbs', discarded)" and "resolve_schema ev configured = Inr sch"
    and "sublist '')where'' (normalize sch)" and "printing_law q" and "tables (dbs sch) (nodes_name (storage_names Pgx tableSuffix sch)) = None"
  shows "r \<noteq> None"
proof
  let ?S = "storage_names Pgx tableSuffix sch"
  let ?i = "\<lparr>itable = nodes_name ?S, iname = ''outbox_nodes_'' @ hash (nodes_name ?S), icolumns = [''lease_until''], istatus = None\<rparr>"
  let ?t = "complete_table hash q ?S (nodes_name ?S)"
  have d: "distinct [messages_name ?S, nodes_name ?S, shards_name ?S]" by (rule storage_names_distinct)
  have sp: "schema ?S = sch" "postgres ?S" by (simp_all add: storage_names_def Let_def)
  have g: "filter (\<lambda>i. itable i = nodes_name ?S) (indexes hash ?S) = [?i]"
    using d unfolding indexes_def by (auto simp: message_index_def)
  assume "r = None"
  then obtain db where "createAndValidate hash q ?S (ee_run ev) (dbs sch) = (None, db)"
    using assms(1,2) by (auto simp: ensureSchema_def Let_def run_stmt_def split: option.splits sum.splits prod.splits if_splits commit_outcome.splits)
  from createAndValidate_ready [OF this] have "validateTable hash ?S (\<lambda>_. None) (nodes_name ?S) ?t = None"
    using assms(5) by (auto simp: outbox_ready_def outbox_tables_def)
  moreover have "?i \<in> set (filter (\<lambda>i. itable i = nodes_name ?S) (indexes hash ?S))" unfolding g by simp
  ultimately have v: "validateIndex ?S None ?t ?i = None" unfolding validateTable_None by auto
  have "tdefinitions ?t (iname ?i) = Some (printed_index q ?S ?i)"
    unfolding complete_table_def g by (simp add: create_index_def sp(2))
  moreover have "sublist '')where'' (normalize (printed_index q ?S ?i))"
  proof -
    have q: "normalize (q sch) = normalize sch" using assms(4) by (simp add: printing_law_def)
    have s: "sublist x (a @ b @ c @ x @ d)" for a b c d x :: string
      unfolding sublist_def by (rule exI [of _ "a @ b @ c"]) simp
    have "sublist (normalize sch) (normalize (printed_index q ?S ?i))"
      unfolding printed_index_def normalize_append sp(1) q by (rule s)
    then show ?thesis using assms(3) sublist_order.order.trans by blast
  qed
  ultimately show False using v sp(2) by (auto simp: validateIndex_def Let_def split: if_splits)
qed
end
