(* ===== verification/Kc_Idempotency_Schema.thy ===== *)
theory Kc_Idempotency_Schema
  imports "HOL-Library.Sublist" Kc_Idempotency Kc_Redis_Message
begin

text \<open>
  Creation and validation of the table of idempotency records, \<open>ensureTable\<close> of \<open>src/pkg/idempotency/storage.go\<close> and \<open>src/pkg/idempotency/schema.go\<close>. A
  schema maps names to relations; the validating queries are answered from the relation of the table, which CREATE TABLE, the partitions and the index build up
  by their documented effect. IF NOT EXISTS looks at the name only.
\<close>

datatype schema_error = ErrInvalidConfig | ErrDB db_error

section \<open>The catalogue\<close>

record columnMetadata =
  mname :: string
  dataType :: string
  nullable :: string
  maxLength :: int64
  precision :: int64
  defaultSQL :: string
  collation :: string

record table_info =
  tcolumns :: "columnMetadata list"
  tkey :: "string list"
  tpartitioning :: "(string \<times> string) option" \<comment> \<open>PostgreSQL: strategy and key\<close>
  tbounds :: "string list" \<comment> \<open>PostgreSQL: bounds of the partitions\<close>
  tpartitions :: "(string \<times> string) list" \<comment> \<open>MySQL: method and expression of each partition\<close>
  tcreated_indexes :: nat \<comment> \<open>indexes with \<open>created_at\<close>\<close>

text \<open>A partition is no partitioned table, which is all that validation needs to know of it to reject it.\<close>

datatype relation = Table table_info | Partition | Index

type_synonym relations = "string \<rightharpoonup> relation"

definition key_columns :: "string list" where
  "key_columns = [''namespace'', ''idempotency_key'']"

definition text_column :: "driver \<Rightarrow> string \<Rightarrow> nat \<Rightarrow> columnMetadata" where
  "text_column d nm n =
     \<lparr>mname = nm, dataType = (if d = Pgx then ''character varying'' else ''varchar''), nullable = ''NO'', maxLength = int n, precision = - 1, defaultSQL = [],
      collation = (if d = Pgx then [] else ''utf8mb4_0900_bin'')\<rparr>"

definition created_column :: "driver \<Rightarrow> columnMetadata" where
  "created_column d =
     \<lparr>mname = ''created_at'', dataType = (if d = Pgx then ''timestamp with time zone'' else ''datetime''), nullable = ''NO'', maxLength = 0, precision = 6,
      defaultSQL = (if d = Pgx then ''CURRENT_TIMESTAMP'' else ''CURRENT_TIMESTAMP(6)''), collation = []\<rparr>"

text \<open>The table of the CREATE statements; that of MySQL comes with its partitions and its index.\<close>

definition created_table :: "driver \<Rightarrow> table_info" where
  "created_table d =
     \<lparr>tcolumns = [text_column d ''namespace'' 128, text_column d ''idempotency_key'' 256, created_column d], tkey = key_columns,
      tpartitioning = (if d = Pgx then Some (''h'', ''HASH (namespace, idempotency_key)'') else None), tbounds = [],
      tpartitions = (if d = Pgx then [] else replicate 64 (''KEY'', [CHR 0x60] @ ''namespace'' @ [CHR 0x60, CHR 0x2C, CHR 0x60] @ ''idempotency_key'' @ [CHR 0x60])),
      tcreated_indexes = (if d = Pgx then 0 else 1)\<rparr>"

definition partition_bound :: "nat \<Rightarrow> string" where
  "partition_bound i = ''FOR VALUES WITH (modulus '' @ digits partitionCount @ '', remainder '' @ digits i @ '')''"

text \<open>The statements; \<open>None\<close> when the server refuses.\<close>

definition create_parent :: "driver \<Rightarrow> string \<Rightarrow> relations \<Rightarrow> relations" where
  "create_parent d nm db = (if db nm \<noteq> None then db else db(nm \<mapsto> Table (created_table d)))"

definition create_partition :: "string \<Rightarrow> string \<Rightarrow> nat \<Rightarrow> relations \<Rightarrow> relations option" where
  "create_partition nm part i db =
     (if db part \<noteq> None then Some db
      else case db nm of
        Some (Table t) \<Rightarrow>
          if tpartitioning t = None \<or> partition_bound i \<in> set (tbounds t) then None
          else Some (db(nm \<mapsto> Table (t\<lparr>tbounds := tbounds t @ [partition_bound i]\<rparr>), part \<mapsto> Partition))
      | _ \<Rightarrow> None)"

definition create_created_index :: "string \<Rightarrow> string \<Rightarrow> relations \<Rightarrow> relations option" where
  "create_created_index nm idx db =
     (if db idx \<noteq> None then Some db
      else case db nm of
        Some (Table t) \<Rightarrow> Some (db(nm \<mapsto> Table (t\<lparr>tcreated_indexes := tcreated_indexes t + 1\<rparr>), idx \<mapsto> Index))
      | _ \<Rightarrow> None)"

section \<open>Validation\<close>

definition lower :: "string \<Rightarrow> string" where
  "lower s = map (\<lambda>c. if byte_in 65 90 c then char_of (byte c + 32) else c) s"

definition normalizeIdentifierList :: "string \<Rightarrow> string" where
  "normalizeIdentifierList value = filter (\<lambda>c. c \<notin> {CHR 0x60, CHR 0x22, CHR '' '', CHR 0x0A, CHR 0x09}) (lower value)"

definition matchesTextColumn :: "columnMetadata \<Rightarrow> string \<Rightarrow> nat \<Rightarrow> string \<Rightarrow> string \<Rightarrow> bool" where
  "matchesTextColumn c nm n ty coll \<longleftrightarrow>
     mname c = nm \<and> dataType c = ty \<and> nullable c = ''NO'' \<and> maxLength c = int n \<and> (coll = [] \<or> lower (collation c) = lower coll)"

definition validate_columns :: "string \<Rightarrow> string \<Rightarrow> string \<Rightarrow> columnMetadata list \<Rightarrow> bool" where
  "validate_columns ty coll created_type cs \<longleftrightarrow>
     length cs = 3
     \<and> matchesTextColumn (cs ! 0) ''namespace'' maxNamespaceLength ty coll
     \<and> matchesTextColumn (cs ! 1) ''idempotency_key'' maxIdempotencyKeyLength ty coll
     \<and> mname (cs ! 2) = ''created_at'' \<and> dataType (cs ! 2) = created_type \<and> nullable (cs ! 2) = ''NO'' \<and> precision (cs ! 2) = 6
     \<and> sublist ''current_timestamp'' (lower (defaultSQL (cs ! 2)))"

definition validatePostgreSQLColumns :: "columnMetadata list \<Rightarrow> bool" where
  "validatePostgreSQLColumns cs = validate_columns ''character varying'' [] ''timestamp with time zone'' cs"

definition validateMySQLColumns :: "columnMetadata list \<Rightarrow> bool" where
  "validateMySQLColumns cs = validate_columns ''varchar'' ''utf8mb4_0900_bin'' ''datetime'' cs"

definition validatePrimaryKey :: "string list \<Rightarrow> bool" where
  "validatePrimaryKey cs \<longleftrightarrow> length cs = 2 \<and> cs ! 0 = ''namespace'' \<and> cs ! 1 = ''idempotency_key''"

text \<open>
  \<open>hashPartitionBoundPattern\<close>: a prefix without regard to case, digits, a separator, digits, and the end.
\<close>

definition after_fold :: "string \<Rightarrow> string \<Rightarrow> string option" where
  "after_fold p s = (if lower (take (length p) s) = lower p \<and> length p \<le> length s then Some (drop (length p) s) else None)"

definition digits_prefix :: "string \<Rightarrow> (string \<times> string) option" where
  "digits_prefix s = (let ds = takeWhile decimal s in if ds = [] then None else Some (ds, dropWhile decimal s))"

definition parse_bound :: "string \<Rightarrow> (string \<times> string) option" where
  "parse_bound s =
     (case after_fold ''FOR VALUES WITH (modulus '' s of None \<Rightarrow> None | Some s1 \<Rightarrow>
      case digits_prefix s1 of None \<Rightarrow> None | Some (m, s2) \<Rightarrow>
      case after_fold '', remainder '' s2 of None \<Rightarrow> None | Some s3 \<Rightarrow>
      case digits_prefix s3 of None \<Rightarrow> None | Some (r, s4) \<Rightarrow>
      if s4 = '')'' then Some (m, r) else None)"

definition bound_remainder :: "string \<Rightarrow> nat option" where
  "bound_remainder b =
     (case parse_bound b of
        None \<Rightarrow> None
      | Some (m, r) \<Rightarrow>
          if m \<noteq> digits partitionCount then None
          else case ParseInt r of None \<Rightarrow> None | Some n \<Rightarrow> if n < 0 \<or> n \<ge> int partitionCount then None else Some (nat n))"

fun collect_remainders :: "string list \<Rightarrow> nat set \<Rightarrow> nat set option" where
  "collect_remainders [] seen = Some seen"
| "collect_remainders (b # bs) seen = (case bound_remainder b of None \<Rightarrow> None | Some r \<Rightarrow> collect_remainders bs (insert r seen))"

definition validatePostgreSQLPartitions :: "(string \<times> string) option \<Rightarrow> string list \<Rightarrow> bool" where
  "validatePostgreSQLPartitions partitioning bounds =
     (case partitioning of
        None \<Rightarrow> False
      | Some (strategy, key) \<Rightarrow>
          strategy = ''h'' \<and> normalizeIdentifierList key = ''hash(namespace,idempotency_key)''
          \<and> (case collect_remainders bounds {} of None \<Rightarrow> False | Some seen \<Rightarrow> card seen = partitionCount))"

definition validateMySQLPartitions :: "(string \<times> string) list \<Rightarrow> bool" where
  "validateMySQLPartitions ps \<longleftrightarrow>
     (\<forall>(method, expression) \<in> set ps. lower method = lower ''KEY'' \<and> normalizeIdentifierList expression = ''namespace,idempotency_key'')
     \<and> length ps = partitionCount"

definition validateCreatedAtIndex :: "nat \<Rightarrow> bool" where
  "validateCreatedAtIndex count \<longleftrightarrow> count \<noteq> 0"

text \<open>\<open>flt n\<close> is the error of the \<open>n\<close>-th query; queries on a table that is not there return no rows.\<close>

definition asked :: "db_error option \<Rightarrow> bool \<Rightarrow> schema_error option" where
  "asked flt good = (case flt of Some e \<Rightarrow> Some (ErrDB e) | None \<Rightarrow> if good then None else Some ErrInvalidConfig)"

definition first_error :: "schema_error option list \<Rightarrow> schema_error option" where
  "first_error rs = (case dropWhile (\<lambda>r. r = None) rs of [] \<Rightarrow> None | r # _ \<Rightarrow> r)"

definition no_table :: table_info where
  "no_table = \<lparr>tcolumns = [], tkey = [], tpartitioning = None, tbounds = [], tpartitions = [], tcreated_indexes = 0\<rparr>"

definition info_of :: "string \<Rightarrow> relations \<Rightarrow> table_info" where
  "info_of nm db = (case db nm of Some (Table t) \<Rightarrow> t | _ \<Rightarrow> no_table)"

definition validatePostgreSQLTable :: "(nat \<Rightarrow> db_error option) \<Rightarrow> table_info \<Rightarrow> schema_error option" where
  "validatePostgreSQLTable flt t =
     first_error [asked (flt 0) (validatePostgreSQLColumns (tcolumns t)), asked (flt 1) (validatePrimaryKey (tkey t)),
       asked (flt 2) (validatePostgreSQLPartitions (tpartitioning t) (tbounds t)), asked (flt 3) (validateCreatedAtIndex (tcreated_indexes t))]"

definition validateMySQLTable :: "(nat \<Rightarrow> db_error option) \<Rightarrow> table_info \<Rightarrow> schema_error option" where
  "validateMySQLTable flt t =
     first_error [asked (flt 0) (validateMySQLColumns (tcolumns t)), asked (flt 1) (validatePrimaryKey (tkey t)),
       asked (flt 2) (validateMySQLPartitions (tpartitions t)), asked (flt 3) (validateCreatedAtIndex (tcreated_indexes t))]"

section \<open>Creation\<close>

text \<open>
  What \<open>ensureTable\<close> meets: the answer for the current schema, the error of the existence query, what others do to the schema before the creation, the first
  statement of the transaction that fails, and how it, or the one statement of MySQL, ends.
\<close>

record schema_env =
  se_current :: "db_error + string option"
  se_exists :: "db_error option"
  se_between :: "relations \<Rightarrow> relations"
  se_statement :: "db_error option"
  se_commit :: commit_outcome
  se_query :: "nat \<Rightarrow> db_error option"

definition resolveSchemaName :: "schema_env \<Rightarrow> resolvedConfig \<Rightarrow> schema_error + string" where
  "resolveSchemaName ev c =
     (if schemaName c \<noteq> [] then Inr (schemaName c)
      else case se_current ev of
        Inl e \<Rightarrow> Inl (ErrDB e)
      | Inr r \<Rightarrow> (case r of None \<Rightarrow> Inl ErrInvalidConfig | Some s \<Rightarrow> if s = [] then Inl ErrInvalidConfig else Inr s))"

fun create_partitions :: "resolvedConfig \<Rightarrow> nat list \<Rightarrow> relations \<Rightarrow> relations option" where
  "create_partitions c [] db = Some db"
| "create_partitions c (i # is) db =
     (case create_partition (tableName c) (partition_name c i) i db of None \<Rightarrow> None | Some db1 \<Rightarrow> create_partitions c is db1)"

definition index_name :: "resolvedConfig \<Rightarrow> string" where
  "index_name c = ''idempotency_created_'' @ hex8 (fnv32a (tableName c))"

definition postgres_statements :: "resolvedConfig \<Rightarrow> relations \<Rightarrow> relations option" where
  "postgres_statements c db =
     (case create_partitions c [0..<partitionCount] (create_parent Pgx (tableName c) db) of
        None \<Rightarrow> None
      | Some db1 \<Rightarrow> create_created_index (tableName c) (index_name c) db1)"

definition ended :: "commit_outcome \<Rightarrow> relations \<Rightarrow> relations \<Rightarrow> schema_error option \<times> relations" where
  "ended r db db' = (case r of CommitOk \<Rightarrow> (None, db') | CommitErr e took_effect \<Rightarrow> (Some (ErrDB e), if took_effect then db' else db))"

definition ensurePostgreSQLTable :: "schema_env \<Rightarrow> resolvedConfig \<Rightarrow> relations \<Rightarrow> schema_error option \<times> relations" where
  "ensurePostgreSQLTable ev c db =
     (case se_statement ev of
        Some e \<Rightarrow> (Some (ErrDB e), db)
      | None \<Rightarrow>
          (case postgres_statements c db of
             None \<Rightarrow> (Some (ErrDB (DriverError 0)), db)
           | Some db' \<Rightarrow> ended (se_commit ev) db db'))"

definition ensureMySQLTable :: "schema_env \<Rightarrow> resolvedConfig \<Rightarrow> relations \<Rightarrow> schema_error option \<times> relations" where
  "ensureMySQLTable ev c db = ended (se_commit ev) db (create_parent MySQL (tableName c) db)"

definition ensureTable :: "schema_env \<Rightarrow> driver \<Rightarrow> resolvedConfig \<Rightarrow> relations \<Rightarrow> schema_error option \<times> relations" where
  "ensureTable ev d c db =
     (let validate = (if d = Pgx then validatePostgreSQLTable else validateMySQLTable) (se_query ev) in
      case resolveSchemaName ev c of
        Inl e \<Rightarrow> (Some e, db)
      | Inr _ \<Rightarrow>
          (case se_exists ev of
             Some e \<Rightarrow> (Some (ErrDB e), db)
           | None \<Rightarrow>
               if db (tableName c) \<noteq> None \<and> db (tableName c) \<noteq> Some Index then (validate (info_of (tableName c) db), db)
               else
                 let db0 = se_between ev db in
                 (case (if d = Pgx then ensurePostgreSQLTable else ensureMySQLTable) ev c db0 of
                    (Some e, db1) \<Rightarrow> (Some e, db1)
                  | (None, db1) \<Rightarrow> (validate (info_of (tableName c) db1), db1))))"

section \<open>Validation is exact\<close>

lemma answer_None: "asked flt good = None \<longleftrightarrow> flt = None \<and> good"
  by (simp add: asked_def split: option.splits)

lemma first_error_None: "first_error rs = None \<longleftrightarrow> (\<forall>r \<in> set rs. r = None)"
proof (induction rs)
  case (Cons r rs)
  then show ?case by (cases r) (simp_all add: first_error_def)
qed (simp add: first_error_def)

lemma collect_remainders_Some:
  "collect_remainders bs seen = Some s \<longleftrightarrow> (\<forall>b \<in> set bs. bound_remainder b \<noteq> None) \<and> s = seen \<union> {r. \<exists>b \<in> set bs. bound_remainder b = Some r}"
  by (induction bs arbitrary: seen) (auto split: option.splits)

lemma bound_remainder_less: "bound_remainder b = Some r \<Longrightarrow> r < partitionCount"
  by (auto simp: bound_remainder_def partitionCount_def split: option.splits prod.splits if_splits)

text \<open>Accepted partitions cover every remainder: no key is without a partition.\<close>

lemma partitions_cover:
  assumes "validatePostgreSQLPartitions partitioning bounds"
  shows "\<forall>h. \<exists>b \<in> set bounds. bound_remainder b = Some (h mod partitionCount)"
proof
  fix h
  let ?s = "{r. \<exists>b \<in> set bounds. bound_remainder b = Some r}"
  have "card ?s = partitionCount"
    using assms by (auto simp: validatePostgreSQLPartitions_def collect_remainders_Some split: option.splits prod.splits)
  moreover have "?s \<subseteq> {0..<partitionCount}" using bound_remainder_less by auto
  ultimately have "?s = {0..<partitionCount}" using card_subset_eq [of "{0..<partitionCount}" ?s] by simp
  then have "h mod partitionCount \<in> ?s" by (simp add: partitionCount_def)
  then show "\<exists>b \<in> set bounds. bound_remainder b = Some (h mod partitionCount)" by blast
qed

lemma after_fold_append: "after_fold p (p @ s) = Some s"
  by (simp add: after_fold_def)

lemma digits_prefix_append: "\<not> decimal c \<Longrightarrow> digits_prefix (digits n @ c # s) = Some (digits n, c # s)"
proof -
  assume c: "\<not> decimal c"
  have d: "\<And>x. x \<in> set (digits n) \<Longrightarrow> decimal x" "digits n \<noteq> []" using digits_sound [of n] by (auto simp: list_all_iff)
  then show ?thesis using c by (simp add: digits_prefix_def takeWhile_append2 dropWhile_append2)
qed

lemma bound_remainder_bound: "i < partitionCount \<Longrightarrow> bound_remainder (partition_bound i) = Some i"
proof -
  assume i: "i < partitionCount"
  have nd: "\<not> decimal (CHR '','')" "\<not> decimal (CHR '')'')" by (simp_all add: decimal_def byte_def)
  have b: "partition_bound i = ''FOR VALUES WITH (modulus '' @ digits partitionCount @ '','' @ '' remainder '' @ digits i @ '')''"
    unfolding partition_bound_def by simp
  have s: "digits_prefix (digits n @ '','' @ s) = Some (digits n, '','' @ s)" "digits_prefix (digits n @ '')'') = Some (digits n, '')'')" for n s
    using digits_prefix_append [OF nd(1), of n s] digits_prefix_append [OF nd(2), of n "[]"] by simp_all
  have sep: "after_fold '', remainder '' ('','' @ '' remainder '' @ x) = Some x" for x using after_fold_append [of "'', remainder ''" x] by simp
  have p: "parse_bound (partition_bound i) = Some (digits partitionCount, digits i)"
    unfolding parse_bound_def b after_fold_append option.case s prod.case sep by simp
  have "in_i64 (int i)" using i by (simp add: in_i64_def MinInt64_def MaxInt64_def partitionCount_def)
  then have "ParseInt (digits i) = Some (int i)" using ParseInt_FormatInt [of "int i"] by (simp add: FormatInt_def)
  then show ?thesis using p i by (simp add: bound_remainder_def)
qed

text \<open>What an accepted table has.\<close>

definition usable :: "driver \<Rightarrow> table_info \<Rightarrow> bool" where
  "usable d t \<longleftrightarrow>
     map mname (tcolumns t) = [''namespace'', ''idempotency_key'', ''created_at'']
     \<and> map nullable (tcolumns t) = [''NO'', ''NO'', ''NO'']
     \<and> map maxLength (take 2 (tcolumns t)) = [int maxNamespaceLength, int maxIdempotencyKeyLength]
     \<and> tkey t = key_columns \<and> tcreated_indexes t > 0
     \<and> (if d = Pgx then \<forall>h. \<exists>b \<in> set (tbounds t). bound_remainder b = Some (h mod partitionCount) else length (tpartitions t) = partitionCount)"

lemma three_columns:
  assumes "validate_columns ty coll ct cs"
  shows "map mname cs = [''namespace'', ''idempotency_key'', ''created_at''] \<and> map nullable cs = [''NO'', ''NO'', ''NO'']
    \<and> map maxLength (take 2 cs) = [int maxNamespaceLength, int maxIdempotencyKeyLength]"
proof -
  obtain a b c where "cs = [a, b, c]" using assms by (auto simp: validate_columns_def numeral_3_eq_3 length_Suc_conv)
  then show ?thesis using assms by (simp add: validate_columns_def matchesTextColumn_def)
qed

lemma two_keys: "validatePrimaryKey cs \<Longrightarrow> cs = key_columns"
  by (auto simp: validatePrimaryKey_def key_columns_def numeral_2_eq_2 length_Suc_conv)

lemma validated_usable:
  assumes "(if d = Pgx then validatePostgreSQLTable else validateMySQLTable) flt t = None"
  shows "usable d t"
proof (cases "d = Pgx")
  case True
  then have v: "validatePostgreSQLColumns (tcolumns t)" "validatePrimaryKey (tkey t)" "validatePostgreSQLPartitions (tpartitioning t) (tbounds t)"
    "validateCreatedAtIndex (tcreated_indexes t)"
    using assms by (auto simp: validatePostgreSQLTable_def first_error_None answer_None)
  show ?thesis using three_columns [OF v(1) [unfolded validatePostgreSQLColumns_def]] two_keys [OF v(2)] partitions_cover [OF v(3)] v(4) True
    by (simp add: usable_def validateCreatedAtIndex_def)
next
  case False
  then have v: "validateMySQLColumns (tcolumns t)" "validatePrimaryKey (tkey t)" "validateMySQLPartitions (tpartitions t)" "validateCreatedAtIndex (tcreated_indexes t)"
    using assms by (auto simp: validateMySQLTable_def first_error_None answer_None)
  show ?thesis using three_columns [OF v(1) [unfolded validateMySQLColumns_def]] two_keys [OF v(2)] v(3,4) False
    by (simp add: usable_def validateCreatedAtIndex_def validateMySQLPartitions_def)
qed

lemma info_of_usable: "usable d (info_of nm db) \<Longrightarrow> db nm = Some (Table (info_of nm db))"
  by (auto simp: info_of_def usable_def no_table_def split: option.splits relation.splits)

section \<open>Creation\<close>

definition complete_table :: "driver \<Rightarrow> table_info" where
  "complete_table d = (if d = Pgx then (created_table Pgx)\<lparr>tbounds := map partition_bound [0..<partitionCount], tcreated_indexes := 1\<rparr> else created_table MySQL)"

lemma created_columns_valid:
  "validatePostgreSQLColumns (tcolumns (created_table Pgx))" "validateMySQLColumns (tcolumns (created_table MySQL))"
proof -
  have l: "lower ''CURRENT_TIMESTAMP'' = ''current_timestamp''" "lower ''CURRENT_TIMESTAMP(6)'' = ''current_timestamp'' @ ''(6)''" by code_simp+
  have "sublist ''current_timestamp'' (''current_timestamp'' @ ''(6)'')" by (rule sublist_append_rightI)
  then show "validatePostgreSQLColumns (tcolumns (created_table Pgx))" "validateMySQLColumns (tcolumns (created_table MySQL))"
    by (simp_all add: validatePostgreSQLColumns_def validateMySQLColumns_def validate_columns_def matchesTextColumn_def created_table_def text_column_def
        created_column_def maxNamespaceLength_def maxIdempotencyKeyLength_def l del: append.simps)
qed

lemma keys_valid: "validatePrimaryKey key_columns"
  by (simp add: validatePrimaryKey_def key_columns_def)

lemma complete_MySQL_valid: "validateMySQLTable (\<lambda>_. None) (complete_table MySQL) = None"
proof -
  have "normalizeIdentifierList ([CHR 0x60] @ ''namespace'' @ [CHR 0x60, CHR 0x2C, CHR 0x60] @ ''idempotency_key'' @ [CHR 0x60]) = ''namespace,idempotency_key''" by code_simp
  then have "validateMySQLPartitions (tpartitions (complete_table MySQL))"
    by (simp add: validateMySQLPartitions_def complete_table_def created_table_def partitionCount_def)
  then show ?thesis using created_columns_valid keys_valid
    by (simp add: validateMySQLTable_def first_error_None answer_None complete_table_def validateCreatedAtIndex_def) (simp add: created_table_def)
qed

lemma complete_Pgx_valid: "validatePostgreSQLTable (\<lambda>_. None) (complete_table Pgx) = None"
proof -
  have k: "normalizeIdentifierList ''HASH (namespace, idempotency_key)'' = ''hash(namespace,idempotency_key)''" by code_simp
  have "collect_remainders (map partition_bound [0..<partitionCount]) {} = Some {0..<partitionCount}"
    using bound_remainder_bound by (auto simp: collect_remainders_Some)
  then have "validatePostgreSQLPartitions (tpartitioning (complete_table Pgx)) (tbounds (complete_table Pgx))"
    using k by (simp add: validatePostgreSQLPartitions_def complete_table_def created_table_def)
  then show ?thesis using created_columns_valid keys_valid
    by (simp add: validatePostgreSQLTable_def first_error_None answer_None complete_table_def validateCreatedAtIndex_def) (simp add: created_table_def)
qed


lemma partition_bound_inj: "i < partitionCount \<Longrightarrow> j < partitionCount \<Longrightarrow> partition_bound i = partition_bound j \<longleftrightarrow> i = j"
  using bound_remainder_bound by (metis option.inject)

text \<open>The partitions of a table whose names are free are all created.\<close>

lemma create_partitions_free:
  assumes "db (tableName c) = Some (Table t)" and "tpartitioning t \<noteq> None" and "set is \<subseteq> {0..<partitionCount}" and "distinct is"
    and "\<forall>i \<in> set is. db (partition_name c i) = None \<and> partition_bound i \<notin> set (tbounds t)" and "\<forall>i < partitionCount. partition_name c i \<noteq> tableName c"
    and "\<forall>i < partitionCount. \<forall>j < partitionCount. partition_name c i = partition_name c j \<longleftrightarrow> i = j"
  shows "\<exists>db'. create_partitions c is db = Some db' \<and> db' (tableName c) = Some (Table (t\<lparr>tbounds := tbounds t @ map partition_bound is\<rparr>))
    \<and> (\<forall>x. x \<noteq> tableName c \<longrightarrow> x \<notin> partition_name c ` set is \<longrightarrow> db' x = db x)"
  using assms
proof (induction "is" arbitrary: db t)
  case Nil
  then show ?case by simp
next
  case (Cons i js)
  let ?t = "t\<lparr>tbounds := tbounds t @ [partition_bound i]\<rparr>"
  let ?db = "db(tableName c \<mapsto> Table ?t, partition_name c i \<mapsto> Partition)"
  have i: "i < partitionCount" "i \<notin> set js" "\<forall>j \<in> set js. j < partitionCount" using Cons.prems(3,4) by auto
  have n: "partition_name c i \<noteq> tableName c" using Cons.prems(6) i(1) by blast
  have ne: "partition_name c j \<noteq> partition_name c i \<and> partition_name c j \<noteq> tableName c \<and> partition_bound j \<noteq> partition_bound i" if "j \<in> set js" for j
    using Cons.prems(6,7) i that partition_bound_inj by metis
  have s: "create_partition (tableName c) (partition_name c i) i db = Some ?db" using Cons.prems(1,2,5) by (simp add: create_partition_def)
  have "\<exists>db'. create_partitions c js ?db = Some db' \<and> db' (tableName c) = Some (Table (?t\<lparr>tbounds := tbounds ?t @ map partition_bound js\<rparr>))
    \<and> (\<forall>x. x \<noteq> tableName c \<longrightarrow> x \<notin> partition_name c ` set js \<longrightarrow> db' x = ?db x)"
    by (rule Cons.IH) (use Cons.prems n ne in auto)
  then obtain db' where db': "create_partitions c js ?db = Some db'" "db' (tableName c) = Some (Table (?t\<lparr>tbounds := tbounds ?t @ map partition_bound js\<rparr>))"
    "\<forall>x. x \<noteq> tableName c \<longrightarrow> x \<notin> partition_name c ` set js \<longrightarrow> db' x = ?db x" by blast
  have "db' x = db x" if "x \<noteq> tableName c" "x \<notin> partition_name c ` set (i # js)" for x using db'(3) that by simp
  then show ?case using s db'(1,2) by auto
qed

text \<open>The names the table needs are free, and different.\<close>

definition free_names :: "resolvedConfig \<Rightarrow> relations \<Rightarrow> bool" where
  "free_names c db \<longleftrightarrow> db (tableName c) = None \<and> (\<forall>i < partitionCount. db (partition_name c i) = None)"

definition different_names :: "resolvedConfig \<Rightarrow> bool" where
  "different_names c \<longleftrightarrow> index_name c \<noteq> tableName c \<and> (\<forall>i < partitionCount. partition_name c i \<noteq> index_name c)"

lemma partition_name_facts:
  assumes "resolveConfig cfg = Some c"
  shows "\<forall>i < partitionCount. partition_name c i \<noteq> tableName c" and "\<forall>i < partitionCount. \<forall>j < partitionCount. partition_name c i = partition_name c j \<longleftrightarrow> i = j"
  using partition_names [OF assms] by (auto simp: partition_name_def)

lemma postgres_statements_free:
  assumes "resolveConfig cfg = Some c" and "free_names c db" and "different_names c"
  shows "\<exists>db'. postgres_statements c db = Some db'
    \<and> db' (tableName c) = Some (Table (if db (index_name c) = None then complete_table Pgx else (complete_table Pgx)\<lparr>tcreated_indexes := 0\<rparr>))"
proof -
  let ?p = "create_parent Pgx (tableName c) db"
  have p: "?p (tableName c) = Some (Table (created_table Pgx))" "\<And>x. x \<noteq> tableName c \<Longrightarrow> ?p x = db x" using assms(2) by (auto simp: create_parent_def free_names_def)
  have "\<exists>db1. create_partitions c [0..<partitionCount] ?p = Some db1
      \<and> db1 (tableName c) = Some (Table ((created_table Pgx)\<lparr>tbounds := tbounds (created_table Pgx) @ map partition_bound [0..<partitionCount]\<rparr>))
      \<and> (\<forall>x. x \<noteq> tableName c \<longrightarrow> x \<notin> partition_name c ` set [0..<partitionCount] \<longrightarrow> db1 x = ?p x)"
    by (rule create_partitions_free [where db = ?p])
      (use assms(2) p partition_name_facts [OF assms(1)] in \<open>auto simp: created_table_def free_names_def\<close>)
  then obtain db1 where d: "create_partitions c [0..<partitionCount] ?p = Some db1"
    "db1 (tableName c) = Some (Table ((created_table Pgx)\<lparr>tbounds := tbounds (created_table Pgx) @ map partition_bound [0..<partitionCount]\<rparr>))"
    and o: "\<And>x. x \<noteq> tableName c \<Longrightarrow> x \<notin> partition_name c ` set [0..<partitionCount] \<Longrightarrow> db1 x = ?p x" by blast
  have e: "tbounds (created_table Pgx) = []" by (simp add: created_table_def)
  have "index_name c \<notin> partition_name c ` set [0..<partitionCount]" using assms(3) by (auto simp: different_names_def)
  then have ix: "db1 (index_name c) = db (index_name c)" using o [of "index_name c"] p(2) [of "index_name c"] assms(3) by (simp add: different_names_def)
  have z: "((created_table Pgx)\<lparr>tbounds := b\<rparr>)\<lparr>tcreated_indexes := tcreated_indexes ((created_table Pgx)\<lparr>tbounds := b\<rparr>) + 1\<rparr> = (created_table Pgx)\<lparr>tbounds := b, tcreated_indexes := 1\<rparr>"
    "(created_table Pgx)\<lparr>tbounds := b\<rparr> = (created_table Pgx)\<lparr>tbounds := b, tcreated_indexes := 0\<rparr>" for b
    by (simp_all add: created_table_def)
  show ?thesis using d ix e assms(3) z by (auto simp: postgres_statements_def create_created_index_def complete_table_def different_names_def)
qed

text \<open>A start-up in which nothing fails.\<close>

definition calm :: "schema_env \<Rightarrow> bool" where
  "calm ev \<longleftrightarrow> se_exists ev = None \<and> se_between ev = id \<and> se_statement ev = None \<and> se_commit ev = CommitOk \<and> se_query ev = (\<lambda>_. None)
     \<and> se_current ev = Inr (Some ''public'')"

lemma calm_start_complete:
  assumes "calm ev" and "db (tableName c) = Some (Table (complete_table d))" and "d = Pgx \<or> d = MySQL"
  shows "fst (ensureTable ev d c db) = None"
  using assms complete_Pgx_valid complete_MySQL_valid
  by (cases d) (auto simp: ensureTable_def Let_def calm_def resolveSchemaName_def info_of_def)

lemma calm_start_free:
  assumes "calm ev" and "resolveConfig cfg = Some c" and "free_names c db" and "different_names c" and "db (index_name c) = None"
  shows "fst (ensureTable ev d c db) = None"
proof (cases d)
  case Pgx
  then show ?thesis using assms postgres_statements_free [OF assms(2-4)] complete_Pgx_valid
    by (auto simp: ensureTable_def Let_def calm_def resolveSchemaName_def ensurePostgreSQLTable_def ended_def info_of_def free_names_def)
next
  case MySQL
  then show ?thesis using assms complete_MySQL_valid
    by (auto simp: ensureTable_def Let_def calm_def resolveSchemaName_def ensureMySQLTable_def ended_def info_of_def free_names_def create_parent_def complete_table_def)
qed

text \<open>
  Start-up (C40). From any schema and with every failure: when \<open>ensureTable\<close> returns nil, the table has the three columns, none of which may be null, its primary key is the
  namespace and the key, an index covers the creation time, and every key has a partition. If moreover the names of the table, its partitions and its index are free and different from each
  other, and nobody else changes the schema during the start-up, then an interrupted start-up leaves nothing or the
  complete table, and the next start-up in which nothing fails succeeds. (When the index name is taken this fails, see \<open>colliding_table_never_starts\<close>.)
\<close>

theorem idempotency_table_usable:
  assumes "ensureTable ev d c db = (r, db')" and "resolveConfig cfg = Some c"
  shows "(r = None \<longrightarrow> (\<exists>t. db' (tableName c) = Some (Table t) \<and> usable d t))
    \<and> (free_names c db \<and> different_names c \<and> db (index_name c) = None \<and> se_between ev = id \<and> calm ev'
        \<longrightarrow> (db' = db \<or> db' (tableName c) = Some (Table (complete_table d))) \<and> fst (ensureTable ev' d c db') = None)"
proof (intro conjI impI)
  assume n: "r = None"
  have "(if d = Pgx then validatePostgreSQLTable else validateMySQLTable) (se_query ev) (info_of (tableName c) db') = None"
    using assms(1) n by (auto simp: ensureTable_def Let_def split: sum.splits option.splits if_splits prod.splits)
  from validated_usable [OF this] show "\<exists>t. db' (tableName c) = Some (Table t) \<and> usable d t" using info_of_usable by blast
next
  assume a: "free_names c db \<and> different_names c \<and> db (index_name c) = None \<and> se_between ev = id \<and> calm ev'"
  have x: "db' = db \<or> db' (tableName c) = Some (Table (complete_table d))"
  proof (cases d)
    case Pgx
    obtain db1 where "postgres_statements c db = Some db1" "db1 (tableName c) = Some (Table (complete_table Pgx))"
      using postgres_statements_free [OF assms(2), of db] a by auto
    then show ?thesis using assms(1) a Pgx
      by (auto simp: ensureTable_def Let_def ensurePostgreSQLTable_def ended_def free_names_def split: sum.splits option.splits if_splits prod.splits commit_outcome.splits)
  next
    case MySQL
    then show ?thesis using assms(1) a
      by (auto simp: ensureTable_def Let_def ensureMySQLTable_def ended_def free_names_def create_parent_def complete_table_def
          split: sum.splits option.splits if_splits prod.splits commit_outcome.splits)
  qed
  then show "db' = db \<or> db' (tableName c) = Some (Table (complete_table d))" .
  show "fst (ensureTable ev' d c db') = None" using x a calm_start_free [OF _ assms(2), of ev' db d] calm_start_complete [of ev' db' c d] by (cases d) auto
qed

definition demo_config :: resolvedConfig where
  "demo_config = \<lparr>schemaName = [], tableName = ''keys'', table = ''keys''\<rparr>"

definition calm_env :: schema_env where
  "calm_env = \<lparr>se_current = Inr (Some ''public''), se_exists = None, se_between = id, se_statement = None, se_commit = CommitOk, se_query = (\<lambda>_. None)\<rparr>"

lemma demo_config_resolved: "resolveConfig \<lparr>SchemaName = [], TableName = ''keys''\<rparr> = Some demo_config"
  by (simp add: resolveConfig_def Let_def validateIdentifier_def maxIdentifierLength_def partitionSuffixLen_def demo_config_def ident_start_def ident_char_def
      byte_in_def byte_def)

text \<open>COMMIT fails, but was applied; the next start-up finds the complete table.\<close>

theorem idempotency_table_usable_witness:
  "let (r, db) = ensureTable (calm_env\<lparr>se_commit := CommitErr (DriverError 0) True\<rparr>) Pgx demo_config Map.empty in
   r \<noteq> None \<and> (db = Map.empty \<or> db ''keys'' = Some (Table (complete_table Pgx))) \<and> fst (ensureTable calm_env Pgx demo_config db) = None"
proof -
  let ?ev = "calm_env\<lparr>se_commit := CommitErr (DriverError 0) True\<rparr>"
  obtain r db where e: "ensureTable ?ev Pgx demo_config Map.empty = (r, db)" by (cases "ensureTable ?ev Pgx demo_config Map.empty")
  have f: "free_names demo_config Map.empty" by (simp add: free_names_def)
  have d: "different_names demo_config" by (auto simp: different_names_def index_name_def demo_config_def partition_name_def)
  have c: "calm calm_env" by (simp add: calm_def calm_env_def)
  have b: "se_between ?ev = id" by (simp add: calm_env_def)
  have p: "\<exists>db'. postgres_statements demo_config Map.empty = Some db'" using postgres_statements_free [OF demo_config_resolved f d] by blast
  have "r \<noteq> None" using e p
    by (auto simp: ensureTable_def Let_def resolveSchemaName_def calm_env_def demo_config_def ensurePostgreSQLTable_def ended_def)
  then show ?thesis using idempotency_table_usable [OF e demo_config_resolved, of calm_env] f d c b e by (simp add: demo_config_def)
qed

text \<open>
  Two tables of one schema whose index names collide: IF NOT EXISTS finds the index of the first one, so the second table is created without its index, and every start-up
  for it is refused by the validation, now and later.
\<close>

theorem colliding_table_never_starts:
  assumes "resolveConfig cfg = Some c" and "different_names c" and "db (index_name c) = Some Index" and "se_between ev = id"
    and "free_names c db \<or> db (tableName c) = Some (Table ((complete_table Pgx)\<lparr>tcreated_indexes := 0\<rparr>))"
    and "ensureTable ev Pgx c db = (r, db')"
  shows "r \<noteq> None \<and> (db' = db \<or> db' (tableName c) = Some (Table ((complete_table Pgx)\<lparr>tcreated_indexes := 0\<rparr>)))"
proof -
  let ?t = "(complete_table Pgx)\<lparr>tcreated_indexes := 0\<rparr>"
  have v: "validatePostgreSQLTable flt ?t \<noteq> None" for flt
    by (simp add: validatePostgreSQLTable_def first_error_None answer_None validateCreatedAtIndex_def)
  show ?thesis
  proof (cases "free_names c db")
    case True
    obtain db1 where s: "postgres_statements c db = Some db1" "db1 (tableName c) = Some (Table ?t)"
      using postgres_statements_free [OF assms(1) True assms(2)] assms(3) by auto
    then show ?thesis using assms(4,6) True v
      by (auto simp: ensureTable_def Let_def ensurePostgreSQLTable_def ended_def free_names_def info_of_def
          split: sum.splits option.splits if_splits prod.splits commit_outcome.splits)
  next
    case False
    then show ?thesis using assms(5,6) v
      by (auto simp: ensureTable_def Let_def info_of_def split: sum.splits option.splits if_splits)
  qed
qed

end
