(* ===== verification/Kc_Compensator_Schema.thy ===== *)
theory Kc_Compensator_Schema
  imports Kc_Compensator
begin

text \<open>
  Creation and validation of the task table of the compensator, \<open>src/pkg/compensator/schema.go\<close>. One transaction under an advisory lock creates the table and
  its indexes unless they are there, and checks the columns and the indexes the catalogue then lists. A schema maps the names of tables to what is listed of them.
\<close>

record task_table =
  listed_columns :: "(string \<times> string) list"
  listed_indexes :: "string list"

definition taskColumns :: "(string \<times> string) list" where
  "taskColumns =
     [(''id'', ''uuid''), (''task_type'', ''text''), (''payload'', ''text''), (''status'', ''smallint''), (''attempts'', ''integer''),
      (''next_run_at'', ''timestamp with time zone''), (''lease_token'', ''bigint''), (''last_error'', ''text''),
      (''created_at'', ''timestamp with time zone''), (''updated_at'', ''timestamp with time zone''), (''completed_at'', ''timestamp with time zone'')]"

definition task_name :: "string \<Rightarrow> string" where
  "task_name tableSuffix = ''compensator_'' @ tableSuffix"

definition due_index :: "string \<Rightarrow> string" where
  "due_index nm = nm @ ''_due_idx''"

definition done_index :: "string \<Rightarrow> string" where
  "done_index nm = nm @ ''_done_idx''"

definition quoteIdent :: "string \<Rightarrow> string" where
  "quoteIdent nm = [CHR 0x22] @ concat (map (\<lambda>c. if c = CHR 0x22 then [c, c] else [c]) nm) @ [CHR 0x22]"

text \<open>The statements of the transaction.\<close>

type_synonym task_schema = "string \<rightharpoonup> task_table"

definition create_table :: "string \<Rightarrow> task_schema \<Rightarrow> task_schema" where
  "create_table nm db = (if db nm \<noteq> None then db else db(nm \<mapsto> \<lparr>listed_columns = taskColumns, listed_indexes = []\<rparr>))"

text \<open>\<open>taken\<close>: the names that other relations of the schema have; IF NOT EXISTS is content with them.\<close>

definition create_index :: "(string \<Rightarrow> bool) \<Rightarrow> string \<Rightarrow> string \<Rightarrow> task_schema \<Rightarrow> task_schema" where
  "create_index taken nm idx db =
     (case db nm of
        None \<Rightarrow> db
      | Some t \<Rightarrow> if taken idx \<or> idx \<in> set (listed_indexes t) then db else db(nm \<mapsto> t\<lparr>listed_indexes := listed_indexes t @ [idx]\<rparr>))"

text \<open>\<open>validateColumns\<close> reads the answer into a map and compares it with every wanted column.\<close>

definition validateColumns :: "(string \<times> string) list \<Rightarrow> (string \<times> string) list \<Rightarrow> bool" where
  "validateColumns rows want =
     (let found = (\<lambda>nm. case map_of (rev rows) nm of None \<Rightarrow> [] | Some k \<Rightarrow> k) in list_all (\<lambda>(nm, k). found nm = k) want)"

text \<open>
  \<open>flt n\<close> is the error of the \<open>n\<close>-th call: BEGIN, the current schema, the lock, three statements, the columns, the indexes.
\<close>

definition ensureSchema ::
  "(string \<Rightarrow> bool) \<Rightarrow> string \<Rightarrow> string \<Rightarrow> string option \<Rightarrow> (nat \<Rightarrow> db_error option) \<Rightarrow> commit_outcome \<Rightarrow> (string \<Rightarrow> task_schema) \<Rightarrow> comp_error option \<times> (string \<Rightarrow> task_schema)" where
  "ensureSchema taken configured tableSuffix current flt c dbs =
     (case flt 0 of Some e \<Rightarrow> (Some (ErrDB e), dbs) | None \<Rightarrow>
      case (if configured \<noteq> [] then Inr configured
            else case flt 1 of Some e \<Rightarrow> Inl (ErrDB e)
              | None \<Rightarrow> (case current of None \<Rightarrow> Inl ErrInvalidConfig | Some s \<Rightarrow> if s = [] then Inl ErrInvalidConfig else Inr s)) of
        Inl e \<Rightarrow> (Some e, dbs)
      | Inr sch \<Rightarrow>
          (let nm = task_name tableSuffix;
               db = create_index taken nm (done_index nm) (create_index taken nm (due_index nm) (create_table nm (dbs sch))) in
           case map_option ErrDB (flt 2) of Some e \<Rightarrow> (Some e, dbs) | None \<Rightarrow>
           case map_option ErrDB (flt 3) of Some e \<Rightarrow> (Some e, dbs) | None \<Rightarrow>
           case map_option ErrDB (flt 4) of Some e \<Rightarrow> (Some e, dbs) | None \<Rightarrow>
           case map_option ErrDB (flt 5) of Some e \<Rightarrow> (Some e, dbs) | None \<Rightarrow>
           case map_option ErrDB (flt 6) of Some e \<Rightarrow> (Some e, dbs) | None \<Rightarrow>
           (case db nm of
              None \<Rightarrow> (Some ErrInvalidConfig, dbs)
            | Some t \<Rightarrow>
                if \<not> validateColumns (listed_columns t) taskColumns then (Some ErrInvalidConfig, dbs)
                else case map_option ErrDB (flt 7) of Some e \<Rightarrow> (Some e, dbs) | None \<Rightarrow>
                if length (filter (\<lambda>i. i \<in> {due_index nm, done_index nm}) (listed_indexes t)) \<noteq> 2 then (Some ErrInvalidConfig, dbs)
                else (case c of CommitOk \<Rightarrow> (None, dbs(sch := db)) | CommitErr e applied \<Rightarrow> (Some (ErrDB e), if applied then dbs(sch := db) else dbs)))))"

section \<open>Lemmas\<close>

lemma task_names_fit:
  assumes "suffixPattern s"
  shows "length (task_name s) \<le> maxIdentifierLength \<and> length (due_index (task_name s)) \<le> maxIdentifierLength
    \<and> length (done_index (task_name s)) \<le> maxIdentifierLength \<and> due_index (task_name s) \<noteq> done_index (task_name s)"
proof -
  have "length s \<le> 40" using assms by (simp add: suffixPattern_def)
  then show ?thesis by (simp add: task_name_def due_index_def done_index_def maxIdentifierLength_def)
qed

text \<open>What start-up promises about the table.\<close>

definition task_table_ready :: "string \<Rightarrow> task_table \<Rightarrow> bool" where
  "task_table_ready nm t \<longleftrightarrow>
     (\<forall>(c, k) \<in> set taskColumns. map_of (rev (listed_columns t)) c = Some k)
     \<and> (distinct (listed_indexes t) \<longrightarrow> due_index nm \<in> set (listed_indexes t) \<and> done_index nm \<in> set (listed_indexes t))"

lemma validateColumns_ready: "validateColumns rows taskColumns \<Longrightarrow> \<forall>(c, k) \<in> set taskColumns. map_of (rev rows) c = Some k"
  by (auto simp: validateColumns_def taskColumns_def Let_def split: option.splits)

lemma two_indexes:
  assumes "length (filter (\<lambda>i. i \<in> {a, b}) is) = 2" and "distinct is"
  shows "a \<in> set is \<and> b \<in> set is"
proof -
  have "card ({a, b} \<inter> set is) = 2"
    using assms distinct_card [of "filter (\<lambda>i. i \<in> {a, b}) is"] by (simp add: Int_def conj_commute)
  moreover have "card {a, b} \<le> 2" by (simp add: card_insert_if)
  moreover have "card ({a, b} \<inter> set is) \<le> card {a, b}" by (rule card_mono) simp_all
  ultimately have "{a, b} \<inter> set is = {a, b}" by (intro card_subset_eq) simp_all
  then show ?thesis by blast
qed

text \<open>
  Start-up of the compensator. An error leaves every schema as it was, unless a failing COMMIT was applied; nil means that the table has all columns with their types and, as
  names of indexes are distinct, both indexes.
\<close>

theorem task_table_checked:
  assumes "ensureSchema taken configured tableSuffix current flt c dbs = (r, dbs')"
  shows "(r = None \<longrightarrow> (\<exists>sch t. dbs' sch (task_name tableSuffix) = Some t \<and> task_table_ready (task_name tableSuffix) t \<and> (configured \<noteq> [] \<longrightarrow> sch = configured)))
    \<and> (r \<noteq> None \<longrightarrow> dbs' = dbs \<or> (\<exists>e. c = CommitErr e True))"
proof -
  let ?nm = "task_name tableSuffix"
  have "\<exists>sch t. dbs' sch ?nm = Some t \<and> task_table_ready ?nm t \<and> (configured \<noteq> [] \<longrightarrow> sch = configured)" if "r = None"
  proof -
    note n = that
    obtain sch db t where s: "dbs' = dbs(sch := db)" "db ?nm = Some t" "validateColumns (listed_columns t) taskColumns"
      "length (filter (\<lambda>i. i \<in> {due_index ?nm, done_index ?nm}) (listed_indexes t)) = 2" "configured \<noteq> [] \<longrightarrow> sch = configured"
      using assms n by (auto simp: ensureSchema_def Let_def split: option.splits sum.splits if_splits commit_outcome.splits)
    then show ?thesis using validateColumns_ready [OF s(3)] two_indexes [OF s(4)] by (intro exI [of _ sch] exI [of _ t]) (simp add: task_table_ready_def)
  qed
  moreover have "dbs' = dbs \<or> (\<exists>e. c = CommitErr e True)" if "r \<noteq> None"
    using assms that by (auto simp: ensureSchema_def Let_def split: option.splits sum.splits if_splits commit_outcome.splits)
  ultimately show ?thesis by blast
qed

text \<open>Where neither the table nor its names are there, a start-up in which nothing fails succeeds, and so does the next one.\<close>

theorem task_table_created:
  assumes "dbs sch (task_name tableSuffix) = None" and "\<not> taken (due_index (task_name tableSuffix))" and "\<not> taken (done_index (task_name tableSuffix))" and "sch \<noteq> []"
  shows "\<exists>dbs'. ensureSchema taken sch tableSuffix current (\<lambda>_. None) CommitOk dbs = (None, dbs')
    \<and> ensureSchema taken sch tableSuffix current (\<lambda>_. None) CommitOk dbs' = (None, dbs')"
proof -
  let ?nm = "task_name tableSuffix"
  let ?t = "\<lparr>listed_columns = taskColumns, listed_indexes = [due_index ?nm, done_index ?nm]\<rparr>"
  have ne: "due_index ?nm \<noteq> done_index ?nm" by (simp add: due_index_def done_index_def)
  have v: "validateColumns taskColumns taskColumns" by (simp add: validateColumns_def taskColumns_def Let_def)
  have a: "create_index taken ?nm (done_index ?nm) (create_index taken ?nm (due_index ?nm) (create_table ?nm (dbs sch))) = (dbs sch)(?nm \<mapsto> ?t)"
    using assms ne by (auto simp: create_table_def create_index_def)
  have b: "create_index taken ?nm (done_index ?nm) (create_index taken ?nm (due_index ?nm) (create_table ?nm ((dbs sch)(?nm \<mapsto> ?t)))) = (dbs sch)(?nm \<mapsto> ?t)"
    by (simp add: create_table_def create_index_def)
  show ?thesis using assms(4) a b v ne by (simp add: ensureSchema_def Let_def)
qed

end
