(* ===== verification/Spec2Isabelle.thy ===== *)
theory Spec2Isabelle
  imports Kc_Snowflake Kc_Segment_System Kc_Compensator_System Kc_Outbox_System Kc_Outbox_Api Kc_Balancer_Calls Kc_Registry_Discovery Kc_Idempotency Kc_Resource Kc_Redis_Stream Kc_Redis_Message Kc_Kafka_Share Kc_Mq_Clients Kc_Sqlxgen_Reader Kc_Infra Kc_Gen_Ddl Kc_Cache_System Kc_Snowflake_Schema Kc_Outbox_Schema Kc_Idempotency_Schema Kc_Compensator_Schema
begin

text \<open>
  Verification of kc, a Go library of service building blocks (\<open>src/pkg\<close>, \<open>src/internal\<close>).

  \<^bold>\<open>The program and the theories.\<close>

  Most components keep their state in a SQL database that several processes share, and keep a lease
  in it. A table is a list of row records; a statement is a function on it built from the
  \<open>sql_update\<close>, \<open>sql_delete\<close> and selection functions of \<open>Kc_Prelude\<close>, which report affected rows the way
  the driver does. A transaction that fails leaves the table alone; a COMMIT may fail after the
  server applied it, so its outcome is an argument. Clock readings, random numbers, identifiers, row orders the SQL leaves
  open and the results of callers' handlers are arguments too. Durations and \<open>int64\<close> are \<open>int\<close> with
  the wrap-around (\<open>i64\<close>) written where the source can overflow; hashes and random generators are words.

  \<^item> \<open>Kc_Prelude\<close>: Go integers and durations, rows and statements, generic lemmas, the collections of
    rewrite rules. \<open>Kc_Text\<close>: UTF-8, blank tests, identifiers, \<open>errorText\<close>. \<open>Kc_Path\<close>: \<open>path.Clean\<close>, \<open>Join\<close>, \<open>Base\<close>, trimming.
    \<open>Kc_Sql\<close>: driver errors and their classes. \<open>Kc_Backoff\<close>: retry delays. \<open>Kc_Id_Source\<close>, \<open>Kc_Fence\<close>: the
    interfaces (locales) that identifier generators and fenced leases implement.

  \<^item> \<open>Kc_Snowflake_Node\<close>, \<open>Kc_Snowflake\<close> (\<open>src/pkg/idgen/snowflake\<close>): \<open>node.go\<close> with its bit layout and wait
    loop; \<open>storage.go\<close>, \<open>snowflake.go\<close>: allocation, heartbeat, release and takeover of worker IDs. Shown:
    identifiers of a node strictly increase, decode to what they were made from and are returned; a
    worker has one owner, the least free one is taken.

  \<^item> \<open>Kc_Segment\<close>, \<open>Kc_Segment_System\<close> (\<open>src/pkg/idgen/segment\<close>): segment storage for both dialects, the
    double-buffered generator with prefetching, any number of processes. Shown: identifiers are unique across
    processes, the storage refines the counter contract, overflow is an error.

  \<^item> \<open>Kc_Compensator\<close>, \<open>Kc_Compensator_System\<close> (\<open>src/pkg/compensator\<close>): configuration, handler
    registry, transactional API, the task table with all its statements, scan, execution, clean-up;
    \<open>comp_step\<close> interleaves the statements of any number of nodes. Shown: the table invariant (budget, lease, token), final states, that late
    executions are harmless and transactions are all or nothing.

  \<^item> \<open>Kc_Outbox\<close>, \<open>Kc_Outbox_System\<close>, \<open>Kc_Outbox_Api\<close> (\<open>src/pkg/outbox\<close>): messages, nodes and shards, the
    transactional API, dispatching in batches, shard coordination; \<open>outbox_step\<close> interleaves them. Shown: the
    table invariant, delivered messages are final, late results are harmless, shard leases are
    respected, coordination converges, assignments partition the shards.

  \<^item> \<open>Kc_Balancer\<close>, \<open>Kc_Balancer_Topology\<close>, \<open>Kc_Balancer_Health\<close>, \<open>Kc_Balancer_Calls\<close> (\<open>src/pkg/registry/etcd/balancer.go\<close>): the cache of a service
    as an indexed slice over a store of shared instance states, power-of-two-choices with ejection
    and half-open probing, reports; \<open>balancer_step\<close> interleaves the atomic operations of all calls. Shown: the cache refines a revisioned map
    (locale \<open>revisioned_cache\<close>), \<open>pick\<close> selects an eligible instance, in-flight counters are exact in every interleaving.

  \<^item> \<open>Kc_Registry\<close>, \<open>Kc_Registry_Discovery\<close> (\<open>src/pkg/registry/registry.go\<close>, \<open>etcd/options.go\<close>, \<open>codec.go\<close>,
    \<open>registry.go\<close>): validation, keys, registration, load and watch, refresh, resolution, eviction, shutdown. Shown: keys can be
    taken apart again, and load and watch bring the cache in line with etcd.

  \<^item> \<open>Kc_Transaction\<close>, \<open>Kc_Idempotency\<close> (\<open>src/pkg/sqlxhelper\<close>, \<open>src/pkg/idempotency\<close>): two clients of
    one transaction protocol, each a program counter; the relation \<open>tx_db\<close> is the database, the locale
    \<open>tx_client\<close> what both clients promise. Shown: the outcome tells whether the changes are committed; an idempotent call is
    executed at most once per key.

  \<^item> \<open>Kc_Resource\<close> (\<open>src/pkg/resource\<close>): the shared resource registry with concurrent callers; a factory returns, panics or ends its goroutine.
    Shown: single flight, and how each caller ends in each of these cases.

  \<^item> \<open>Kc_Mqruntime\<close>, \<open>Kc_Mq\<close> (\<open>src/internal/mqruntime\<close>, \<open>src/pkg/mq\<close>): the life cycle of a message queue client as a step
    relation, subscribe options, batches of subscriptions. Shown: the client is released once, after
    everything has ended; a batch is all or nothing (locale \<open>subscriber\<close>).

  \<^item> \<open>Kc_Redis_Stream\<close>, \<open>Kc_Redis_Config\<close>, \<open>Kc_Redis_Message\<close> (\<open>src/pkg/infra/redis_stream.go\<close>): consumption of a stream
    by any number of subscriptions as a step relation over the documented server commands, configuration and keys, the
    message codec with JSON as an argument. Shown: no delivered message is lost and each is in one place of a
    subscription; messages and dead letters decode to what was published; accepted configurations are within bounds.

  \<^item> \<open>Kc_Kafka_Group\<close>, \<open>Kc_Kafka_Ownership\<close>, \<open>Kc_Kafka_Log\<close>, \<open>Kc_Kafka_System\<close> (\<open>src/pkg/infra/kafka.go\<close>, \<open>kafkaGroupRunner\<close> and
    \<open>kafkaPartitionWorker\<close>): any number of consumer group members with a worker per partition, pausing, rebalances, marks and commits,
    the look-up of a position by the start offset, deletion of old records, shutdown, as the relation \<open>kafka_step\<close> over the documented behaviour of client and broker; \<open>perform\<close> executes its steps on concrete runs. Shown, from
    an invariant on who owns a partition and one on the records between committed offset and fetch position: a record below a committed offset was
    handled, dead-lettered, or passed over by a look-up, and when that happens; queues and running handlers are bounded, and offsets do not move back unless a partition is revoked during a shutdown.

  \<^item> \<open>Kc_Kafka_Share\<close>, \<open>Kc_Kafka_Config\<close> (the rest of \<open>kafka.go\<close>): share groups, from one delivery to the life of a record, sessions and
    their rebuilding; configuration, options, record format. Shown: what becomes of a record; share consumers split the concurrency; records decode to what was published.

  \<^item> \<open>Kc_Mq_Clients\<close>: \<open>Publish\<close> and \<open>subscribe\<close> of both clients on the shared life cycle; both interpret the locale \<open>subscriber\<close> of \<open>Kc_Mq\<close>.

  \<^item> \<open>Kc_Sqlxgen\<close>, \<open>Kc_Sqlxgen_Text\<close>, \<open>Kc_Sqlxgen_Reader\<close> (\<open>src/pkg/sqlxgen\<close>): the SQL builder of generated code; the three-valued truth of its
    conditions; a reader of SQL text. Shown: the guard against unrestricted statements is exact; the text of conditions and assignments is read back
    as what was built, whatever characters identifiers contain, with one argument per placeholder.

  \<^item> \<open>Kc_Infra\<close> (\<open>src/pkg/infra\<close>: \<open>config.go\<close>, \<open>infra.go\<close>, \<open>sql.go\<close>, \<open>redis.go\<close>, \<open>elasticsearch.go\<close>): validation of a configuration, the
    options every client gets, and \<open>Init\<close> over a world of open clients and registered names. Shown: initialisation is all or nothing.

  \<^item> \<open>Kc_Gen_Text\<close>, \<open>Kc_Gen_Scan\<close>, \<open>Kc_Gen_Model\<close>, \<open>Kc_Gen_Ddl\<close> (\<open>src/internal/sqlxgen\<close>): the code generator up to the printing of Go code: tags and SQL files,
    the scan of a package (an abstract Go universe of named types and structures), and the DDL of both dialects. Shown: named parameters are
    found by the lexical rules; what a scan accepts is consistent; flattening returns on structures without recursive pointers; integer columns hold every
    value of the field; indexes are created exactly as declared, after their table.

  \<^item> \<open>Kc_Cache\<close>, \<open>Kc_Cache_System\<close> (\<open>src/pkg/cache\<close>): one cache instance with its key codec (locale \<open>codec_contract\<close>), and any number of instances on one
    channel that loses messages. Shown: a value that is read was written after every deletion of its key that the instance has handled.

  \<^item> \<open>Kc_Snowflake_Schema\<close>, \<open>Kc_Outbox_Schema\<close>, \<open>Kc_Idempotency_Schema\<close>, \<open>Kc_Compensator_Schema\<close> (the four files \<open>schema.go\<close>, and the DDL of
    \<open>idempotency/storage.go\<close>): creation and validation of the tables at start-up. A table is what the catalogue of the server lists of it, and a DDL statement changes that by its
    documented effect; its text is built for the outbox. Shown: what a start-up that returned nil leaves, also when
    any number of snowflake services start at the same time (a proof outline with an assertion per statement), and that an interrupted start-up does no harm.

  \<^bold>\<open>How it is proved.\<close> Every operation is an executable function. Components that several processes or
  goroutines use are step relations whose steps are these functions (a critical section or a transaction is one step, and in the
  lock-free calls of the balancer every atomic operation), and the properties hold in every reachable state, by rule induction over an invariant. A wait is the enabling condition of the step after it.

  \<^bold>\<open>Bounds and fuel.\<close> Loops of the source are structural recursions or have a measure. The wait loop of the snowflake node consumes a list
  of clock readings: it returns as soon as one of them is later than the last used millisecond. Allocation and fetch retries are bounded as in the source.

  \<^bold>\<open>Not modelled.\<close> goroutine start-up, ticker loops around the modelled
  rounds, logging, metrics callbacks and tracing; third-party clients (etcd, Redis, Kafka, SQL drivers), \<open>net/url\<close> and JSON syntax, which are
  arguments or reduced to their effect; the floating point average of the balancer; admin requests of the Kafka client, recreating a deleted Redis group;
  message handlers that end their goroutine (they return or panic here);
  the printer of generated Go code and the command around it; \<open>src/pkg/auth\<close>, the RPC client and server and the
  etcd client, which only assemble third-party components.

  \<^bold>\<open>Findings.\<close> Theorems that show where the code does not do what it means to:
  \<open>generate_duplicate_after_overflow\<close>, \<open>pick_gives_up_with_healthy_instance\<close>, \<open>invalid_utf8_instance_lingers\<close>,
  \<open>resolve_accepts_slash\<close>, \<open>nan_alpha_accepted\<close>, \<open>goexit_leaks_transaction\<close>, \<open>index_names_collide\<close>, \<open>goexit_gives_zero_value\<close>,
  \<open>dead_letter_after_one_attempt\<close>, \<open>shutdown_moves_offset_back\<close>, \<open>flatten_recursive_pointer\<close>, \<open>returning_after_newline\<close>,
  \<open>three_part_reference\<close>, \<open>invalid_utf8_key_survives\<close>, \<open>ttl_of_another_value\<close>, \<open>special_schema_rejected\<close>,
  \<open>colliding_table_never_starts\<close>, \<open>half_open_without_ejection\<close>, \<open>latest_skips_new_records\<close>.
\<close>

end
